(* ===== verification/Prelude.thy ===== *)
theory Prelude
  imports Main "HOL-Library.Word" "HOL-Library.Multiset"
begin

text \<open>
  Shared vocabulary of the development: the collections of simplification facts and generic
  lemmas on lists and options that several components use.
\<close>

named_theorems list_heap \<open>how the pointer operations of lib/list.c act on segments\<close>
named_theorems hosts_simps \<open>what a host range denotes, and how operations change it\<close>

section \<open>Generic lemmas\<close>

lemma takeWhile_eq_take_length:
  "takeWhile P xs = take (length (takeWhile P xs)) xs"
  by (metis takeWhile_eq_take)

lemma dropWhile_Cons_hd:
  "dropWhile P xs = y # ys \<Longrightarrow> \<not> P y"
  by (metis hd_dropWhile list.sel(1) list.simps(3))

lemma map_fst_on_snd [simp]: "map (fst \<circ> (\<lambda>(a, i). (a, g a i))) xs = map fst xs"
  by (induction xs) auto

lemma fst_image_on_snd [simp]: "fst ` set (map (\<lambda>(a, i). (a, g a i)) xs) = fst ` set xs"
  by (induction xs) auto

lemma find_append:
  "List.find P (xs @ ys) = (case List.find P xs of None \<Rightarrow> List.find P ys | Some x \<Rightarrow> Some x)"
  by (induction xs) auto

end
