(* ===== verification/CList.thy ===== *)
theory CList
  imports Prelude
begin

text \<open>
  The singly linked list of \<open>lib/list.c\<close>, modelled at the level of its pointers: nodes live
  in a store indexed by addresses, a \<open>ListNode *\<close> variable (the address of a next pointer)
  is a value of type \<open>loc\<close>, and every operation performs the loads and stores of the code,
  the adjustment of the live iterators included.  NULL is \<open>None\<close>.  Data pointers are
  never NULL in the code (its asserts), so data are plain values of type \<open>'a\<close>.
\<close>

section \<open>Data types\<close>

type_synonym addr = nat

text \<open>Values of type \<open>ListNode *\<close>: the address of \<open>l->head\<close> or of a node's \<open>next\<close>.\<close>

datatype loc = Head | NextOf addr

record 'a listNode =
  n_data :: 'a
  n_next :: "addr option"

record listIterator =
  i_pos :: "addr option"
  i_prev :: loc

text \<open>
  A free list of \<open>list_alloc_aux\<close>: the chained free objects, the first address malloc has
  not handed out yet, and how many chunks malloc can still provide (\<open>malloc\<close> returns NULL
  when there is none).
\<close>

record freelist =
  fl_free :: "addr list"
  fl_brk :: addr
  fl_chunks :: nat

text \<open>
  A list object together with the memory its operations touch: the node store, the static
  free lists of nodes and iterators, the iterator chain \<open>l->iNext\<close> (most recent first) and,
  as a log, the data handed to the deletion function.  In the code all lists share the free
  lists; here each list carries those its operations meet, as if the operations of other lists
  in between gave back the nodes they took.
\<close>

record 'a clist =
  l_head :: "addr option"
  l_tail :: loc
  l_its :: "(addr \<times> listIterator) list"
  l_fDel :: bool
  l_count :: int
  l_nodes :: "addr \<rightharpoonup> 'a listNode"
  l_nfree :: freelist
  l_ifree :: freelist
  l_deleted :: "'a list"

section \<open>Free lists\<close>

definition LIST_ALLOC :: nat where
  "LIST_ALLOC = 32"

definition list_alloc_aux :: "freelist \<Rightarrow> addr option \<times> freelist" where
  "list_alloc_aux f =
    (let f1 = (if fl_free f = []
               then (if fl_chunks f = 0 then f
                     else f\<lparr>fl_free := [fl_brk f ..< fl_brk f + LIST_ALLOC],
                            fl_brk := fl_brk f + LIST_ALLOC,
                            fl_chunks := fl_chunks f - 1\<rparr>)
               else f)
     in case fl_free f1 of
          [] \<Rightarrow> (None, f1)
        | p # ps \<Rightarrow> (Some p, f1\<lparr>fl_free := ps\<rparr>))"

definition list_free_aux :: "addr \<Rightarrow> freelist \<Rightarrow> freelist" where
  "list_free_aux x f = f\<lparr>fl_free := x # fl_free f\<rparr>"

section \<open>Loads and stores\<close>

text \<open>\<open>*pp\<close> and \<open>*pp = v\<close> for a \<open>ListNode *pp\<close>.\<close>

fun deref :: "'a clist \<Rightarrow> loc \<Rightarrow> addr option" where
  "deref l Head = l_head l"
| "deref l (NextOf a) = (case l_nodes l a of None \<Rightarrow> None | Some n \<Rightarrow> n_next n)"

fun store :: "'a clist \<Rightarrow> loc \<Rightarrow> addr option \<Rightarrow> 'a clist" where
  "store l Head v = l\<lparr>l_head := v\<rparr>"
| "store l (NextOf a) v =
     l\<lparr>l_nodes := (l_nodes l)(a := map_option (n_next_update (\<lambda>_. v)) (l_nodes l a))\<rparr>"

definition data_at :: "'a clist \<Rightarrow> addr \<Rightarrow> 'a option" where
  "data_at l a = map_option n_data (l_nodes l a)"

text \<open>\<open>&(*pp)->next\<close>.\<close>

definition advance :: "'a clist \<Rightarrow> loc \<Rightarrow> loc" where
  "advance l pp = (case deref l pp of None \<Rightarrow> pp | Some a \<Rightarrow> NextOf a)"

section \<open>Creating and destroying nodes\<close>

definition fix_create :: "loc \<Rightarrow> addr \<Rightarrow> addr option \<Rightarrow> listIterator \<Rightarrow> listIterator" where
  "fix_create pp p nxt i =
    (if i_prev i = pp then i\<lparr>i_prev := NextOf p\<rparr>
     else if i_pos i = nxt then i\<lparr>i_pos := Some p\<rparr>
     else i)"

definition list_node_create :: "'a clist \<Rightarrow> loc \<Rightarrow> 'a \<Rightarrow> 'a option \<times> 'a clist" where
  "list_node_create l pp x =
    (case list_alloc_aux (l_nfree l) of
       (None, f) \<Rightarrow> (None, l\<lparr>l_nfree := f\<rparr>)
     | (Some p, f) \<Rightarrow>
         let nxt = deref l pp;
             l1 = l\<lparr>l_nfree := f, l_nodes := (l_nodes l)(p \<mapsto> \<lparr>n_data = x, n_next = nxt\<rparr>)\<rparr>;
             l2 = (if nxt = None then l1\<lparr>l_tail := NextOf p\<rparr> else l1);
             l3 = store l2 pp (Some p);
             l4 = l3\<lparr>l_count := l_count l3 + 1\<rparr>
         in (Some x, l4\<lparr>l_its := map (\<lambda>(a, i). (a, fix_create pp p nxt i)) (l_its l4)\<rparr>))"

definition fix_destroy :: "loc \<Rightarrow> addr \<Rightarrow> addr option \<Rightarrow> listIterator \<Rightarrow> listIterator" where
  "fix_destroy pp p nxt i =
    (if i_pos i = Some p then i\<lparr>i_pos := nxt, i_prev := pp\<rparr>
     else if i_prev i = NextOf p then i\<lparr>i_prev := pp\<rparr>
     else i)"

definition list_node_destroy :: "'a clist \<Rightarrow> loc \<Rightarrow> 'a option \<times> 'a clist" where
  "list_node_destroy l pp =
    (case deref l pp of
       None \<Rightarrow> (None, l)
     | Some p \<Rightarrow>
         let v = data_at l p;
             nxt = deref l (NextOf p);
             l1 = store l pp nxt;
             l2 = (if nxt = None then l1\<lparr>l_tail := pp\<rparr> else l1);
             l3 = l2\<lparr>l_count := l_count l2 - 1\<rparr>;
             l4 = l3\<lparr>l_its := map (\<lambda>(a, i). (a, fix_destroy pp p nxt i)) (l_its l3)\<rparr>
         in (v, l4\<lparr>l_nodes := (l_nodes l4)(p := None),
                   l_nfree := list_free_aux p (l_nfree l4)\<rparr>))"

section \<open>List operations\<close>

definition list_fresh :: "bool \<Rightarrow> freelist \<Rightarrow> freelist \<Rightarrow> 'a clist" where
  "list_fresh f nf itf =
    \<lparr>l_head = None, l_tail = Head, l_its = [], l_fDel = f, l_count = 0,
     l_nodes = Map.empty, l_nfree = nf, l_ifree = itf, l_deleted = []\<rparr>"

text \<open>\<open>list_create\<close> takes the list object itself from a third free list, or returns NULL.\<close>

definition list_create ::
    "bool \<Rightarrow> freelist \<Rightarrow> freelist \<Rightarrow> freelist \<Rightarrow> 'a clist option \<times> freelist" where
  "list_create f lf nf itf =
    (case list_alloc_aux lf of
       (None, lf1) \<Rightarrow> (None, lf1)
     | (Some a, lf1) \<Rightarrow> (Some (list_fresh f nf itf), lf1))"

definition list_is_empty :: "'a clist \<Rightarrow> bool" where
  "list_is_empty l \<longleftrightarrow> l_count l = 0"

definition list_count :: "'a clist \<Rightarrow> int" where
  "list_count l = l_count l"

definition list_append :: "'a clist \<Rightarrow> 'a \<Rightarrow> 'a option \<times> 'a clist" where
  "list_append l x = list_node_create l (l_tail l) x"

definition list_prepend :: "'a clist \<Rightarrow> 'a \<Rightarrow> 'a option \<times> 'a clist" where
  "list_prepend l x = list_node_create l Head x"

definition list_push :: "'a clist \<Rightarrow> 'a \<Rightarrow> 'a option \<times> 'a clist" where
  "list_push l x = list_node_create l Head x"

definition list_pop :: "'a clist \<Rightarrow> 'a option \<times> 'a clist" where
  "list_pop l = list_node_destroy l Head"

definition list_peek :: "'a clist \<Rightarrow> 'a option" where
  "list_peek l = (case l_head l of None \<Rightarrow> None | Some a \<Rightarrow> data_at l a)"

definition list_enqueue :: "'a clist \<Rightarrow> 'a \<Rightarrow> 'a option \<times> 'a clist" where
  "list_enqueue l x = list_node_create l (l_tail l) x"

definition list_dequeue :: "'a clist \<Rightarrow> 'a option \<times> 'a clist" where
  "list_dequeue l = list_node_destroy l Head"

section \<open>Walking the list\<close>

text \<open>
  The loops follow \<open>next\<close> pointers in the store, so nothing in their text bounds them:
  they are partial functions, \<open>None\<close> standing for a loop that does not end.  A callback
  of \<open>list_for_each\<close> works on a state of its own that is passed along.
\<close>

partial_function (option) find_first_loop ::
    "('a \<Rightarrow> 'k \<Rightarrow> int) \<Rightarrow> 'k \<Rightarrow> 'a clist \<Rightarrow> addr option \<Rightarrow> 'a option option" where
  "find_first_loop f key l p =
    (case p of
       None \<Rightarrow> Some None
     | Some a \<Rightarrow>
        (case data_at l a of
           None \<Rightarrow> None
         | Some x \<Rightarrow> if f x key \<noteq> 0 then Some (Some x)
                     else find_first_loop f key l (deref l (NextOf a))))"

definition list_find_first :: "'a clist \<Rightarrow> ('a \<Rightarrow> 'k \<Rightarrow> int) \<Rightarrow> 'k \<Rightarrow> 'a option option" where
  "list_find_first l f key = find_first_loop f key l (l_head l)"

partial_function (option) delete_all_loop ::
    "('a \<Rightarrow> 'k \<Rightarrow> int) \<Rightarrow> 'k \<Rightarrow> 'a clist \<Rightarrow> loc \<Rightarrow> int \<Rightarrow> (int \<times> 'a clist) option" where
  "delete_all_loop f key l pp n =
    (case deref l pp of
       None \<Rightarrow> Some (n, l)
     | Some a \<Rightarrow>
        (case data_at l a of
           None \<Rightarrow> None
         | Some x \<Rightarrow>
            if f x key \<noteq> 0
            then (case list_node_destroy l pp of
                    (None, l1) \<Rightarrow> delete_all_loop f key l1 pp n
                  | (Some v, l1) \<Rightarrow>
                      delete_all_loop f key
                        (if l_fDel l1 then l1\<lparr>l_deleted := l_deleted l1 @ [v]\<rparr> else l1) pp (n + 1))
            else delete_all_loop f key l (NextOf a) n))"

definition list_delete_all :: "'a clist \<Rightarrow> ('a \<Rightarrow> 'k \<Rightarrow> int) \<Rightarrow> 'k \<Rightarrow> (int \<times> 'a clist) option" where
  "list_delete_all l f key = delete_all_loop f key l Head 0"

partial_function (option) for_each_loop ::
    "('a \<Rightarrow> 's \<Rightarrow> int \<times> 's) \<Rightarrow> 'a clist \<Rightarrow> addr option \<Rightarrow> int \<Rightarrow> 's \<Rightarrow> (int \<times> 's) option" where
  "for_each_loop f l p n s =
    (case p of
       None \<Rightarrow> Some (n, s)
     | Some a \<Rightarrow>
        (case data_at l a of
           None \<Rightarrow> None
         | Some x \<Rightarrow>
            (case f x s of (r, s1) \<Rightarrow>
               if r < 0 then Some (- (n + 1), s1)
               else for_each_loop f l (deref l (NextOf a)) (n + 1) s1)))"

definition list_for_each :: "'a clist \<Rightarrow> ('a \<Rightarrow> 's \<Rightarrow> int \<times> 's) \<Rightarrow> 's \<Rightarrow> (int \<times> 's) option" where
  "list_for_each l f s = for_each_loop f l (l_head l) 0 s"

text \<open>
  \<open>list_destroy\<close> returns every iterator and every node to the free lists and calls the
  deletion function on the data; what is left of the state is the free lists and the log.
\<close>

partial_function (option) destroy_loop ::
    "'a clist \<Rightarrow> addr option \<Rightarrow> 'a clist option" where
  "destroy_loop l p =
    (case p of
       None \<Rightarrow> Some l
     | Some a \<Rightarrow>
        (case data_at l a of
           None \<Rightarrow> None
         | Some x \<Rightarrow>
            let pTmp = deref l (NextOf a);
                l1 = (if l_fDel l then l\<lparr>l_deleted := l_deleted l @ [x]\<rparr> else l)
            in destroy_loop (l1\<lparr>l_nodes := (l_nodes l1)(a := None),
                                l_nfree := list_free_aux a (l_nfree l1)\<rparr>) pTmp))"

definition list_destroy :: "'a clist \<Rightarrow> 'a clist option" where
  "list_destroy l =
    destroy_loop (l\<lparr>l_ifree := fold (\<lambda>(a, i). list_free_aux a) (l_its l) (l_ifree l),
                    l_its := []\<rparr>) (l_head l)"

section \<open>Sorting\<close>

text \<open>
  The comparison \<open>f\<close> is applied to node data through the pointers, as in the code; a
  comparison that would follow NULL gives \<open>None\<close>.
\<close>

definition cmp_at :: "('a \<Rightarrow> 'a \<Rightarrow> int) \<Rightarrow> 'a clist \<Rightarrow> loc \<Rightarrow> loc \<Rightarrow> int option" where
  "cmp_at f l p q =
    (case (deref l p, deref l q) of
       (Some a, Some b) \<Rightarrow>
         (case (data_at l a, data_at l b) of
            (Some x, Some y) \<Rightarrow> Some (f x y)
          | _ \<Rightarrow> None)
     | _ \<Rightarrow> None)"

partial_function (option) sort_pos ::
    "('a \<Rightarrow> 'a \<Rightarrow> int) \<Rightarrow> 'a clist \<Rightarrow> loc \<Rightarrow> loc \<Rightarrow> loc option" where
  "sort_pos f l pp ppPos =
    (case cmp_at f l pp ppPos of
       None \<Rightarrow> None
     | Some r \<Rightarrow> if 0 \<le> r then sort_pos f l pp (advance l ppPos) else Some ppPos)"

definition sort_splice :: "'a clist \<Rightarrow> loc \<Rightarrow> loc \<Rightarrow> 'a clist" where
  "sort_splice l pp ppPos =
    (case deref l pp of
       None \<Rightarrow> l
     | Some p \<Rightarrow>
        let pTmp = deref l (NextOf p);
            l1 = store l (NextOf p) (deref l ppPos);
            l2 = store l1 ppPos (deref l1 pp)
        in store l2 pp pTmp)"

partial_function (option) sort_loop ::
    "('a \<Rightarrow> 'a \<Rightarrow> int) \<Rightarrow> 'a clist \<Rightarrow> loc \<Rightarrow> loc \<Rightarrow> 'a clist option" where
  "sort_loop f l pp ppPrev =
    (case deref l pp of
       None \<Rightarrow> Some (l\<lparr>l_tail := pp\<rparr>)
     | Some p \<Rightarrow>
        (case cmp_at f l pp ppPrev of
           None \<Rightarrow> None
         | Some r \<Rightarrow>
            if r < 0
            then (case sort_pos f l pp Head of
                    None \<Rightarrow> None
                  | Some ppPos \<Rightarrow>
                      let l1 = sort_splice l pp ppPos
                      in sort_loop f l1 pp (if ppPrev = ppPos then advance l1 ppPrev else ppPrev))
            else sort_loop f l (NextOf p) pp))"

definition it_reset :: "'a clist \<Rightarrow> listIterator \<Rightarrow> listIterator" where
  "it_reset l i = i\<lparr>i_pos := l_head l, i_prev := Head\<rparr>"

definition list_sort :: "'a clist \<Rightarrow> ('a \<Rightarrow> 'a \<Rightarrow> int) \<Rightarrow> 'a clist option" where
  "list_sort l f =
    (if l_count l > 1
     then (case sort_loop f l (advance l Head) Head of
             None \<Rightarrow> None
           | Some l1 \<Rightarrow> Some (l1\<lparr>l_its := map (\<lambda>(a, i). (a, it_reset l1 i)) (l_its l1)\<rparr>))
     else Some l)"

section \<open>Iterators\<close>

text \<open>An iterator is named by its address; one that is not in the chain has no meaning.\<close>

definition it_get :: "'a clist \<Rightarrow> addr \<Rightarrow> listIterator option" where
  "it_get l i = map_of (l_its l) i"

definition it_set :: "'a clist \<Rightarrow> addr \<Rightarrow> listIterator \<Rightarrow> 'a clist" where
  "it_set l i it = l\<lparr>l_its := map (\<lambda>(a, j). (a, if a = i then it else j)) (l_its l)\<rparr>"

definition list_iterator_create :: "'a clist \<Rightarrow> addr option \<times> 'a clist" where
  "list_iterator_create l =
    (case list_alloc_aux (l_ifree l) of
       (None, f) \<Rightarrow> (None, l\<lparr>l_ifree := f\<rparr>)
     | (Some i, f) \<Rightarrow>
         (Some i, l\<lparr>l_ifree := f,
                    l_its := (i, \<lparr>i_pos = l_head l, i_prev = Head\<rparr>) # l_its l\<rparr>))"

definition list_iterator_reset :: "'a clist \<Rightarrow> addr \<Rightarrow> 'a clist" where
  "list_iterator_reset l i =
    (case it_get l i of
       None \<Rightarrow> l
     | Some it \<Rightarrow> it_set l i (it_reset l it))"

definition list_iterator_destroy :: "'a clist \<Rightarrow> addr \<Rightarrow> 'a clist" where
  "list_iterator_destroy l i =
    l\<lparr>l_its := filter (\<lambda>(a, it). a \<noteq> i) (l_its l), l_ifree := list_free_aux i (l_ifree l)\<rparr>"

definition list_next :: "'a clist \<Rightarrow> addr \<Rightarrow> 'a option \<times> 'a clist" where
  "list_next l i =
    (case it_get l i of
       None \<Rightarrow> (None, l)
     | Some it \<Rightarrow>
         let p = i_pos it;
             it1 = (case p of None \<Rightarrow> it | Some a \<Rightarrow> it\<lparr>i_pos := deref l (NextOf a)\<rparr>);
             it2 = (if deref l (i_prev it1) \<noteq> p then it1\<lparr>i_prev := advance l (i_prev it1)\<rparr> else it1)
         in (Option.bind p (data_at l), it_set l i it2))"

definition list_insert :: "'a clist \<Rightarrow> addr \<Rightarrow> 'a \<Rightarrow> 'a option \<times> 'a clist" where
  "list_insert l i x =
    (case it_get l i of
       None \<Rightarrow> (None, l)
     | Some it \<Rightarrow> list_node_create l (i_prev it) x)"

partial_function (option) list_find ::
    "('a \<Rightarrow> 'k \<Rightarrow> int) \<Rightarrow> 'k \<Rightarrow> 'a clist \<Rightarrow> addr \<Rightarrow> ('a option \<times> 'a clist) option" where
  "list_find f key l i =
    (case list_next l i of
       (None, l1) \<Rightarrow> Some (None, l1)
     | (Some v, l1) \<Rightarrow> if f v key \<noteq> 0 then Some (Some v, l1) else list_find f key l1 i)"

definition list_remove :: "'a clist \<Rightarrow> addr \<Rightarrow> 'a option \<times> 'a clist" where
  "list_remove l i =
    (case it_get l i of
       None \<Rightarrow> (None, l)
     | Some it \<Rightarrow>
         if deref l (i_prev it) \<noteq> i_pos it then list_node_destroy l (i_prev it) else (None, l))"

definition list_delete :: "'a clist \<Rightarrow> addr \<Rightarrow> int \<times> 'a clist" where
  "list_delete l i =
    (case list_remove l i of
       (None, l1) \<Rightarrow> (0, l1)
     | (Some v, l1) \<Rightarrow> (1, if l_fDel l1 then l1\<lparr>l_deleted := l_deleted l1 @ [v]\<rparr> else l1))"

declare find_first_loop.simps [code] delete_all_loop.simps [code] for_each_loop.simps [code]
  destroy_loop.simps [code] sort_pos.simps [code] sort_loop.simps [code] list_find.simps [code]

end
