(* ===== verification/CListLaws.thy ===== *)
theory CListLaws
  imports CList
begin

text \<open>
  What keeps a \<open>clist\<close> well formed, and the abstract sequence it stands for.  A list whose
  nodes have the addresses \<open>as\<close>, in order, is described by two index functions: \<open>loc_at as k\<close>
  is the location holding the pointer to node \<open>k\<close>, and \<open>ptr as k\<close> that pointer.  An
  iterator is a cursor \<open>(j, r)\<close>: its \<open>prev\<close> field is the location of node \<open>j\<close>, and
  \<open>r = 1\<close> says that node \<open>j\<close> is the last one returned and still in the list.
\<close>

section \<open>Addresses, locations, pointers\<close>

definition loc_at :: "addr list \<Rightarrow> nat \<Rightarrow> loc" where
  "loc_at as k = (if k = 0 then Head else NextOf (as ! (k - 1)))"

definition ptr :: "addr list \<Rightarrow> nat \<Rightarrow> addr option" where
  "ptr as k = (if k < length as then Some (as ! k) else None)"

definition path :: "'a clist \<Rightarrow> addr list \<Rightarrow> bool" where
  "path l as \<longleftrightarrow> (\<forall>a\<in>set as. l_nodes l a \<noteq> None) \<and>
                (\<forall>k\<le>length as. deref l (loc_at as k) = ptr as k)"

definition cursor_ok :: "addr list \<Rightarrow> listIterator \<Rightarrow> nat \<Rightarrow> nat \<Rightarrow> bool" where
  "cursor_ok as it j r \<longleftrightarrow>
     r \<le> 1 \<and> j + r \<le> length as \<and> i_prev it = loc_at as j \<and> i_pos it = ptr as (j + r)"

definition fl_ok :: "addr set \<Rightarrow> freelist \<Rightarrow> bool" where
  "fl_ok S f \<longleftrightarrow> distinct (fl_free f) \<and> S \<inter> set (fl_free f) = {} \<and>
               (\<forall>a \<in> S \<union> set (fl_free f). a < fl_brk f)"

definition list_inv :: "'a clist \<Rightarrow> addr list \<Rightarrow> bool" where
  "list_inv l as \<longleftrightarrow>
     path l as \<and> distinct as \<and> l_tail l = loc_at as (length as) \<and>
     l_count l = int (length as) \<and>
     (\<forall>(a, it)\<in>set (l_its l). \<exists>j r. cursor_ok as it j r) \<and>
     distinct (map fst (l_its l)) \<and>
     fl_ok (set as) (l_nfree l) \<and> fl_ok (fst ` set (l_its l)) (l_ifree l)"

definition contents :: "'a clist \<Rightarrow> addr list \<Rightarrow> 'a list" where
  "contents l as = map (\<lambda>a. the (data_at l a)) as"

section \<open>Free lists\<close>

lemma alloc_fresh:
  assumes "fl_ok S f" "list_alloc_aux f = (Some p, f')"
  shows "p \<notin> S" "fl_ok (insert p S) f'"
proof -
  define f1 where "f1 = (if fl_free f = []
               then (if fl_chunks f = 0 then f
                     else f\<lparr>fl_free := [fl_brk f ..< fl_brk f + LIST_ALLOC],
                            fl_brk := fl_brk f + LIST_ALLOC,
                            fl_chunks := fl_chunks f - 1\<rparr>)
               else f)"
  have ok: "fl_ok S f1"
    using assms(1) by (force simp: f1_def fl_ok_def)
  from assms(2) obtain ps where "fl_free f1 = p # ps" "f' = f1\<lparr>fl_free := ps\<rparr>"
    by (auto simp: list_alloc_aux_def f1_def[symmetric] Let_def split: list.splits)
  with ok show "p \<notin> S" "fl_ok (insert p S) f'"
    by (auto simp: fl_ok_def)
qed

lemma alloc_fail:
  assumes "list_alloc_aux f = (None, f')"
  shows "f' = f"
  using assms by (auto simp: list_alloc_aux_def LIST_ALLOC_def Let_def split: if_splits list.splits)

lemma free_ok: "fl_ok S f \<Longrightarrow> p \<in> S \<Longrightarrow> fl_ok (S - {p}) (list_free_aux p f)"
  by (auto simp: fl_ok_def list_free_aux_def)

section \<open>Index arithmetic\<close>

lemma loc_at_inj:
  "distinct as \<Longrightarrow> j \<le> length as \<Longrightarrow> k \<le> length as \<Longrightarrow> loc_at as j = loc_at as k \<longleftrightarrow> j = k"
  by (auto simp: loc_at_def nth_eq_iff_index_eq)

lemma ptr_inj:
  "distinct as \<Longrightarrow> j \<le> length as \<Longrightarrow> k \<le> length as \<Longrightarrow> ptr as j = ptr as k \<longleftrightarrow> j = k"
  by (auto simp: ptr_def nth_eq_iff_index_eq)

definition ins_at :: "nat \<Rightarrow> 'b \<Rightarrow> 'b list \<Rightarrow> 'b list" where
  "ins_at k x xs = take k xs @ x # drop k xs"

definition del_at :: "nat \<Rightarrow> 'b list \<Rightarrow> 'b list" where
  "del_at k xs = take k xs @ drop (Suc k) xs"

lemma length_ins_at [simp]: "k \<le> length xs \<Longrightarrow> length (ins_at k x xs) = Suc (length xs)"
  by (simp add: ins_at_def)

lemma nth_ins_at:
  "k \<le> length xs \<Longrightarrow> i \<le> length xs \<Longrightarrow>
   ins_at k x xs ! i = (if i < k then xs ! i else if i = k then x else xs ! (i - 1))"
  by (auto simp: ins_at_def nth_append nth_Cons' not_less le_less_Suc_eq)

lemma length_del_at [simp]: "k < length xs \<Longrightarrow> length (del_at k xs) = length xs - 1"
  by (simp add: del_at_def)

lemma nth_del_at:
  "k < length xs \<Longrightarrow> i < length xs - 1 \<Longrightarrow>
   del_at k xs ! i = (if i < k then xs ! i else xs ! Suc i)"
  by (auto simp: del_at_def nth_append min_def)

lemma loc_at_ins:
  "k \<le> length as \<Longrightarrow> j \<le> Suc (length as) \<Longrightarrow>
   loc_at (ins_at k p as) j =
     (if j \<le> k then loc_at as j else if j = Suc k then NextOf p else loc_at as (j - 1))"
  by (auto simp: loc_at_def nth_ins_at)

lemma ptr_ins:
  "k \<le> length as \<Longrightarrow>
   ptr (ins_at k p as) j =
     (if j < k then ptr as j else if j = k then Some p else ptr as (j - 1))"
  by (auto simp: ptr_def nth_ins_at)

lemma loc_at_del:
  "k < length as \<Longrightarrow> j < length as \<Longrightarrow>
   loc_at (del_at k as) j = (if j \<le> k then loc_at as j else loc_at as (Suc j))"
  by (auto simp: loc_at_def nth_del_at Suc_diff_le)

lemma ptr_del:
  "k < length as \<Longrightarrow>
   ptr (del_at k as) j = (if j < k then ptr as j else ptr as (Suc j))"
  by (auto simp: ptr_def nth_del_at)

lemma set_ins_at [simp]: "set (ins_at k x xs) = insert x (set xs)"
proof -
  have "set xs = set (take k xs) \<union> set (drop k xs)"
    by (metis append_take_drop_id set_append)
  then show ?thesis by (simp add: ins_at_def)
qed

lemma distinct_ins_at: "distinct xs \<Longrightarrow> x \<notin> set xs \<Longrightarrow> distinct (ins_at k x xs)"
  by (auto simp: ins_at_def dest: in_set_takeD in_set_dropD set_take_disj_set_drop_if_distinct)

lemma del_at_props:
  assumes "distinct xs" "k < length xs"
  shows "set (del_at k xs) = set xs - {xs ! k}" "distinct (del_at k xs)"
proof -
  have *: "xs = take k xs @ xs ! k # drop (Suc k) xs"
    using assms(2) by (rule id_take_nth_drop)
  have d: "distinct (take k xs @ xs ! k # drop (Suc k) xs)"
    using assms(1) * by simp
  have "set xs = set (take k xs @ xs ! k # drop (Suc k) xs)"
    using * by simp
  then show "set (del_at k xs) = set xs - {xs ! k}" "distinct (del_at k xs)"
    using d by (auto simp: del_at_def)
qed

section \<open>Loads after stores\<close>

fun live :: "'a clist \<Rightarrow> loc \<Rightarrow> bool" where
  "live l Head = True"
| "live l (NextOf a) = (l_nodes l a \<noteq> None)"

lemma deref_store [simp]:
  "live l pp \<Longrightarrow> deref (store l pp v) qq = (if qq = pp then v else deref l qq)"
  by (cases pp; cases qq) (auto split: option.splits)

lemma live_store [simp]: "live (store l pp v) qq = live l qq"
  by (cases pp; cases qq) auto

lemma store_frame [simp]:
  "l_tail (store l pp v) = l_tail l" "l_its (store l pp v) = l_its l"
  "l_fDel (store l pp v) = l_fDel l" "l_count (store l pp v) = l_count l"
  "l_nfree (store l pp v) = l_nfree l" "l_ifree (store l pp v) = l_ifree l"
  "l_deleted (store l pp v) = l_deleted l" "data_at (store l pp v) a = data_at l a"
  by (cases pp; auto simp: data_at_def map_option.compositionality comp_def)+

lemma nodes_store [simp]: "l_nodes (store l pp v) a = None \<longleftrightarrow> l_nodes l a = None"
  by (cases pp) auto

lemma deref_frame [simp]:
  "deref (l\<lparr>l_tail := t\<rparr>) pp = deref l pp" "deref (l\<lparr>l_its := i\<rparr>) pp = deref l pp"
  "deref (l\<lparr>l_count := n\<rparr>) pp = deref l pp" "deref (l\<lparr>l_deleted := d\<rparr>) pp = deref l pp"
  "deref (l\<lparr>l_nfree := f\<rparr>) pp = deref l pp" "deref (l\<lparr>l_ifree := f\<rparr>) pp = deref l pp"
  by (cases pp; simp)+

lemma deref_cong: "l_head l = l_head m \<Longrightarrow> l_nodes l = l_nodes m \<Longrightarrow> deref l pp = deref m pp"
  by (cases pp) auto

lemma path_cong: "l_head l = l_head m \<Longrightarrow> l_nodes l = l_nodes m \<Longrightarrow> path l as = path m as"
  unfolding path_def using deref_cong[of l m] by simp

lemma data_at_frame [simp]:
  "data_at (l\<lparr>l_tail := t\<rparr>) a = data_at l a" "data_at (l\<lparr>l_its := i\<rparr>) a = data_at l a"
  "data_at (l\<lparr>l_count := n\<rparr>) a = data_at l a" "data_at (l\<lparr>l_deleted := d\<rparr>) a = data_at l a"
  "data_at (l\<lparr>l_nfree := f\<rparr>) a = data_at l a" "data_at (l\<lparr>l_ifree := f\<rparr>) a = data_at l a"
  by (simp_all add: data_at_def)

lemma path_frame [simp]:
  "path (l\<lparr>l_tail := t\<rparr>) as = path l as" "path (l\<lparr>l_its := i\<rparr>) as = path l as"
  "path (l\<lparr>l_count := n\<rparr>) as = path l as" "path (l\<lparr>l_deleted := d\<rparr>) as = path l as"
  "path (l\<lparr>l_nfree := f\<rparr>) as = path l as" "path (l\<lparr>l_ifree := f\<rparr>) as = path l as"
  by (simp_all add: path_def)

lemma path_live: "path l as \<Longrightarrow> k \<le> length as \<Longrightarrow> live l (loc_at as k)"
  by (auto simp: path_def loc_at_def)

lemma path_deref [simp]: "path l as \<Longrightarrow> k \<le> length as \<Longrightarrow> deref l (loc_at as k) = ptr as k"
  by (simp add: path_def)

lemma path_next:
  "path l as \<Longrightarrow> k < length as \<Longrightarrow> deref l (NextOf (as ! k)) = ptr as (Suc k)"
  using path_deref[of l as "Suc k"] by (simp add: loc_at_def)

lemma path_data: "path l as \<Longrightarrow> a \<in> set as \<Longrightarrow> data_at l a = Some (the (data_at l a))"
  by (auto simp: path_def data_at_def)

section \<open>Inserting a node\<close>

lemma fix_create_cursor:
  assumes "cursor_ok as it j r" "distinct as" "k \<le> length as"
  shows "cursor_ok (ins_at k p as) (fix_create (loc_at as k) p (ptr as k) it)
           (if k \<le> j then Suc j else j) r"
proof -
  from assms have j: "j \<le> length as" "j + r \<le> length as" "r \<le> 1"
    and eqs: "i_prev it = loc_at as j" "i_pos it = ptr as (j + r)"
    by (auto simp: cursor_ok_def)
  have "i_prev it = loc_at as k \<longleftrightarrow> j = k" "i_pos it = ptr as k \<longleftrightarrow> j + r = k"
    using assms j eqs by (auto simp: loc_at_inj ptr_inj)
  with assms j eqs show ?thesis
    by (auto simp: cursor_ok_def fix_create_def loc_at_ins ptr_ins)
qed

lemma create_shape:
  assumes inv: "list_inv l as" and k: "k \<le> length as"
    and cr: "list_node_create l (loc_at as k) x = (y, l')"
  shows "y = None \<and> l' = l \<or>
    (\<exists>p f l2. y = Some x \<and> list_alloc_aux (l_nfree l) = (Some p, f) \<and> p \<notin> set as \<and>
       l2 = l\<lparr>l_nfree := f, l_nodes := (l_nodes l)(p \<mapsto> \<lparr>n_data = x, n_next = ptr as k\<rparr>)\<rparr> \<and>
       l' = (store (if ptr as k = None then l2\<lparr>l_tail := NextOf p\<rparr> else l2) (loc_at as k) (Some p))
              \<lparr>l_count := l_count l + 1,
               l_its := map (\<lambda>(a, i). (a, fix_create (loc_at as k) p (ptr as k) i)) (l_its l)\<rparr>)"
proof -
  have d: "deref l (loc_at as k) = ptr as k"
    using inv k by (auto simp: list_inv_def)
  show ?thesis
  proof (cases "list_alloc_aux (l_nfree l)")
    case (Pair q f)
    show ?thesis
    proof (cases q)
      case None
      with Pair cr alloc_fail[of "l_nfree l" f] show ?thesis
        by (auto simp: list_node_create_def)
    next
      case (Some p)
      have "p \<notin> set as"
        using alloc_fresh(1)[of "set as" "l_nfree l" p f] inv Pair Some
        by (auto simp: list_inv_def)
      with Pair Some cr d show ?thesis
        by (auto simp: list_node_create_def Let_def)
    qed
  qed
qed

lemma path_insert:
  assumes "path l as" "distinct as" "p \<notin> set as" "k \<le> length as"
    and nodes: "l_nodes l2 = (l_nodes l)(p \<mapsto> \<lparr>n_data = x, n_next = ptr as k\<rparr>)"
    and head: "l_head l2 = l_head l"
  shows "path (store l2 (loc_at as k) (Some p)) (ins_at k p as)"
proof -
  have d2: "deref l2 (loc_at as j) = ptr as j" if "j \<le> length as" for j
    using assms(1,3) that path_deref[OF assms(1) that] nodes head
    by (cases "j = 0") (auto simp: loc_at_def)
  have dp: "deref l2 (NextOf p) = ptr as k"
    using nodes by simp
  have lv: "live l2 (loc_at as k)"
    using path_live[OF assms(1,4)] nodes by (cases "loc_at as k") auto
  have neq: "NextOf p \<noteq> loc_at as k"
    using assms(3,4) by (auto simp: loc_at_def)
  have lj: "deref (store l2 (loc_at as k) (Some p)) (loc_at (ins_at k p as) j) = ptr (ins_at k p as) j"
    if "j \<le> Suc (length as)" for j
    using that assms(2,4) lv neq dp
    by (auto simp: loc_at_ins ptr_ins d2 loc_at_inj)
  have "\<forall>a\<in>set (ins_at k p as). l_nodes (store l2 (loc_at as k) (Some p)) a \<noteq> None"
    using assms(1) nodes by (simp add: path_def)
  with lj show ?thesis
    unfolding path_def using assms(4) by simp
qed

lemma contents_ins_at:
  "k \<le> length as \<Longrightarrow> contents l (ins_at k p as) = ins_at k (the (data_at l p)) (contents l as)"
  by (simp add: contents_def ins_at_def take_map drop_map)

lemma list_node_create_inv:
  assumes inv: "list_inv l as" and k: "k \<le> length as"
    and cr: "list_node_create l (loc_at as k) x = (Some y, l')"
  shows "\<exists>p. y = x \<and> p \<notin> set as \<and> list_inv l' (ins_at k p as) \<and>
             contents l' (ins_at k p as) = ins_at k x (contents l as) \<and>
             l_its l' = map (\<lambda>(a, i). (a, fix_create (loc_at as k) p (ptr as k) i)) (l_its l) \<and>
             l_fDel l' = l_fDel l \<and> l_deleted l' = l_deleted l \<and> l_ifree l' = l_ifree l"
proof -
  from create_shape[OF inv k cr] obtain p f l2 where
    y: "y = x" and al: "list_alloc_aux (l_nfree l) = (Some p, f)" and p: "p \<notin> set as" and
    l2: "l2 = l\<lparr>l_nfree := f, l_nodes := (l_nodes l)(p \<mapsto> \<lparr>n_data = x, n_next = ptr as k\<rparr>)\<rparr>" and
    l': "l' = (store (if ptr as k = None then l2\<lparr>l_tail := NextOf p\<rparr> else l2) (loc_at as k) (Some p))
              \<lparr>l_count := l_count l + 1,
               l_its := map (\<lambda>(a, i). (a, fix_create (loc_at as k) p (ptr as k) i)) (l_its l)\<rparr>"
    by auto
  let ?l3 = "if ptr as k = None then l2\<lparr>l_tail := NextOf p\<rparr> else l2"
  note i = inv[unfolded list_inv_def]
  have path: "path (store ?l3 (loc_at as k) (Some p)) (ins_at k p as)"
    by (rule path_insert[where l = l and x = x]) (use i k p in \<open>auto simp: l2\<close>)
  then have path': "path l' (ins_at k p as)"
    by (simp add: l')
  have its: "\<forall>(a, it)\<in>set (l_its l'). \<exists>j r. cursor_ok (ins_at k p as) it j r"
    using i k unfolding l' by (fastforce intro: fix_create_cursor)
  have len: "length (ins_at k p as) = Suc (length as)"
    using k by simp
  have tail: "l_tail l' = loc_at (ins_at k p as) (length (ins_at k p as))"
    using i k by (auto simp: l' l2 loc_at_ins ptr_def)
  have fl: "fl_ok (set (ins_at k p as)) (l_nfree l')"
    using alloc_fresh(2)[OF _ al] i by (simp add: l' l2)
  have "list_inv l' (ins_at k p as)"
    unfolding list_inv_def
    using path' its tail fl i len p
    by (intro conjI) (simp_all add: l' l2 distinct_ins_at del: set_map)
  moreover have "contents l' (ins_at k p as) = ins_at k x (contents l as)"
  proof -
    have dl: "data_at l' a = data_at l2 a" for a
      by (simp add: l')
    have "data_at l' p = Some x"
      unfolding dl by (simp add: l2 data_at_def)
    moreover have "data_at l' a = data_at l a" if "a \<in> set as" for a
      unfolding dl using that p by (auto simp: l2 data_at_def)
    ultimately show ?thesis
      using k by (simp add: contents_ins_at) (simp add: contents_def cong: map_cong)
  qed
  ultimately show ?thesis
    using y p by (auto simp: l' l2)
qed

section \<open>Removing a node\<close>

definition cursor_del :: "nat \<Rightarrow> nat \<Rightarrow> nat \<Rightarrow> nat \<times> nat" where
  "cursor_del k j r =
    (if j + r = k then (k, 0) else if j = Suc k then (k, r) else if j = k then (k, 0)
     else if j < k then (j, r) else (j - 1, r))"

lemma fix_destroy_cursor:
  assumes "cursor_ok as it j r" "distinct as" "k < length as"
  shows "cursor_ok (del_at k as) (fix_destroy (loc_at as k) (as ! k) (ptr as (Suc k)) it)
           (fst (cursor_del k j r)) (snd (cursor_del k j r))"
proof -
  from assms have j: "j \<le> length as" "j + r \<le> length as" "r \<le> 1"
    and eqs: "i_prev it = loc_at as j" "i_pos it = ptr as (j + r)"
    by (auto simp: cursor_ok_def)
  have p: "Some (as ! k) = ptr as k" "NextOf (as ! k) = loc_at as (Suc k)"
    using assms(3) by (simp_all add: ptr_def loc_at_def)
  have c: "i_pos it = Some (as ! k) \<longleftrightarrow> j + r = k" "i_prev it = NextOf (as ! k) \<longleftrightarrow> j = Suc k"
    unfolding p using assms j eqs by (auto simp: loc_at_inj ptr_inj)
  show ?thesis
    unfolding cursor_ok_def fix_destroy_def c cursor_del_def
    using assms(2,3) j eqs by (cases "r = 0") (auto simp: loc_at_del ptr_del le_Suc_eq)
qed

lemma deref_forget:
  "deref (l\<lparr>l_nodes := (l_nodes l)(p := None)\<rparr>) qq = (if qq = NextOf p then None else deref l qq)"
  by (cases qq) auto

lemma path_remove:
  assumes "path l as" "distinct as" "k < length as"
    and nodes: "l_nodes l2 = l_nodes (store l (loc_at as k) (ptr as (Suc k)))"
    and head: "l_head l2 = l_head (store l (loc_at as k) (ptr as (Suc k)))"
  shows "path (l2\<lparr>l_nodes := (l_nodes l2)(as ! k := None)\<rparr>) (del_at k as)"
proof -
  have "deref l2 qq = deref (store l (loc_at as k) (ptr as (Suc k))) qq" for qq
    using head nodes by (rule deref_cong)
  then have d2: "deref l2 (loc_at as j) = (if j = k then ptr as (Suc k) else ptr as j)"
    if "j \<le> length as" for j
    using that assms(1-3) path_live[OF assms(1), of k] by (auto simp: loc_at_inj)
  have p: "NextOf (as ! k) = loc_at as (Suc k)"
    by (simp add: loc_at_def)
  have "deref (l2\<lparr>l_nodes := (l_nodes l2)(as ! k := None)\<rparr>) (loc_at (del_at k as) j) = ptr (del_at k as) j"
    if "j < length as" for j
    using that assms(2,3) unfolding deref_forget p
    by (auto simp: loc_at_del ptr_del loc_at_inj d2)
  moreover have "\<forall>a\<in>set (del_at k as). ((l_nodes l2)(as ! k := None)) a \<noteq> None"
    using assms(1-3) nodes by (auto simp: path_def del_at_props)
  ultimately show ?thesis
    unfolding path_def using assms(3) by simp
qed

lemma contents_del_at: "k < length as \<Longrightarrow> contents l (del_at k as) = del_at k (contents l as)"
  by (simp add: contents_def del_at_def take_map drop_map)

lemma list_node_destroy_inv:
  assumes inv: "list_inv l as" and k: "k < length as"
  shows "\<exists>l'. list_node_destroy l (loc_at as k) = (Some (contents l as ! k), l') \<and>
             list_inv l' (del_at k as) \<and>
             contents l' (del_at k as) = del_at k (contents l as) \<and>
             l_its l' = map (\<lambda>(a, i). (a, fix_destroy (loc_at as k) (as ! k) (ptr as (Suc k)) i)) (l_its l) \<and>
             l_fDel l' = l_fDel l \<and> l_deleted l' = l_deleted l \<and> l_ifree l' = l_ifree l"
proof -
  note i = inv[unfolded list_inv_def]
  define l2 where "l2 = (let l1 = store l (loc_at as k) (ptr as (Suc k))
     in if ptr as (Suc k) = None then l1\<lparr>l_tail := loc_at as k\<rparr> else l1)"
  define l' where "l' = l2\<lparr>l_count := l_count l - 1,
     l_its := map (\<lambda>(a, i). (a, fix_destroy (loc_at as k) (as ! k) (ptr as (Suc k)) i)) (l_its l),
     l_nodes := (l_nodes l2)(as ! k := None), l_nfree := list_free_aux (as ! k) (l_nfree l)\<rparr>"
  have l2f: "l_count l2 = l_count l" "l_its l2 = l_its l" "l_nfree l2 = l_nfree l"
    "l_fDel l2 = l_fDel l" "l_deleted l2 = l_deleted l" "l_ifree l2 = l_ifree l"
    "data_at l2 a = data_at l a" for a
    by (simp_all add: l2_def Let_def)
  have p: "deref l (loc_at as k) = Some (as ! k)" "deref l (NextOf (as ! k)) = ptr as (Suc k)"
    "data_at l (as ! k) = Some (contents l as ! k)"
    using i k path_next[of l as k] path_data[of l as "as ! k"]
    by (auto simp: ptr_def contents_def simp del: deref.simps)
  have run: "list_node_destroy l (loc_at as k) = (Some (contents l as ! k), l')"
    using p by (simp add: list_node_destroy_def Let_def l'_def l2_def del: deref.simps)
  have path: "path (l2\<lparr>l_nodes := (l_nodes l2)(as ! k := None)\<rparr>) (del_at k as)"
    by (rule path_remove[where l = l]) (use i k in \<open>auto simp: l2_def Let_def\<close>)
  then have path': "path l' (del_at k as)"
    by (rule path_cong[THEN iffD1, rotated 2]) (simp_all add: l'_def)
  have its: "\<forall>(a, it)\<in>set (l_its l'). \<exists>j r. cursor_ok (del_at k as) it j r"
    using i k unfolding l'_def by (fastforce intro: fix_destroy_cursor)
  obtain n where n: "length as = Suc n"
    using k by (cases as) auto
  have "l_tail l' = loc_at as (if k = n then k else length as)"
    using i k n by (auto simp: l'_def l2_def Let_def ptr_def)
  then have tail: "l_tail l' = loc_at (del_at k as) (length (del_at k as))"
    using k n by (cases "k = n") (simp_all add: loc_at_del)
  have fl: "fl_ok (set (del_at k as)) (l_nfree l')"
    using i k free_ok[of "set as" "l_nfree l" "as ! k"] by (simp add: l'_def del_at_props)
  have "list_inv l' (del_at k as)"
    unfolding list_inv_def using path' its tail fl i k
    by (intro conjI) (simp_all add: l'_def l2f del_at_props del: set_map)
  moreover have "contents l' (del_at k as) = del_at k (contents l as)"
  proof -
    have "data_at l' a = data_at l a" if "a \<in> set (del_at k as)" for a
    proof -
      have "data_at l' a = data_at l2 a"
        using that i k by (auto simp: l'_def data_at_def del_at_props)
      then show ?thesis by (simp add: l2f)
    qed
    then show ?thesis
      using k by (simp add: contents_del_at[symmetric]) (simp add: contents_def)
  qed
  ultimately show ?thesis
    using run by (auto simp: l'_def l2f)
qed

section \<open>The abstract sequence of a list\<close>

primrec walk :: "(addr \<rightharpoonup> 'a listNode) \<Rightarrow> nat \<Rightarrow> addr option \<Rightarrow> addr list" where
  "walk h 0 p = []"
| "walk h (Suc n) p = (case p of None \<Rightarrow> [] | Some a \<Rightarrow> a # walk h n (Option.bind (h a) n_next))"

definition addrs :: "'a clist \<Rightarrow> addr list" where
  "addrs l = walk (l_nodes l) (nat (l_count l)) (l_head l)"

definition list_ok :: "'a clist \<Rightarrow> bool" where
  "list_ok l \<longleftrightarrow> list_inv l (addrs l)"

definition list_data :: "'a clist \<Rightarrow> 'a list" where
  "list_data l = contents l (addrs l)"

lemma walk_path:
  assumes "path l as" "k + n = length as"
  shows "walk (l_nodes l) n (ptr as k) = drop k as"
  using assms(2)
proof (induction n arbitrary: k)
  case 0
  then show ?case by simp
next
  case (Suc n)
  then have k: "k < length as" by simp
  have "Option.bind (l_nodes l (as ! k)) n_next = deref l (NextOf (as ! k))"
    by (auto split: option.splits)
  also have "\<dots> = ptr as (Suc k)"
    using assms(1) k by (rule path_next)
  finally show ?case
    using Suc k by (simp add: ptr_def Cons_nth_drop_Suc)
qed

lemma inv_addrs: "list_inv l as \<Longrightarrow> addrs l = as"
proof -
  assume i: "list_inv l as"
  then have "l_head l = ptr as 0"
    using path_deref[of l as 0] by (auto simp: list_inv_def loc_at_def)
  with i show ?thesis
    using walk_path[of l as 0 "length as"] by (auto simp: addrs_def list_inv_def)
qed

lemma list_okI: "list_inv l as \<Longrightarrow> list_ok l"
  by (simp add: list_ok_def inv_addrs)

lemma list_dataI: "list_inv l as \<Longrightarrow> list_data l = contents l as"
  by (simp add: list_data_def inv_addrs)

lemma contents_length [simp]: "length (contents l as) = length as"
  by (simp add: contents_def)

lemma list_fresh_inv:
  "fl_ok {} nf \<Longrightarrow> fl_ok {} itf \<Longrightarrow> list_inv (list_fresh f nf itf) []"
  by (simp add: list_inv_def list_fresh_def path_def loc_at_def ptr_def)

lemma list_fresh_ok [simp]:
  "fl_ok {} nf \<Longrightarrow> fl_ok {} itf \<Longrightarrow> list_ok (list_fresh f nf itf)"
  "list_data (list_fresh f nf itf :: 'a clist) = []"
  by (blast intro: list_okI list_fresh_inv)
     (simp add: list_data_def addrs_def list_fresh_def contents_def)

lemma create_at_data:
  assumes "list_ok l" "k \<le> length (addrs l)"
    "list_node_create l (loc_at (addrs l) k) x = (r, l')"
  shows "list_ok l'" "r = None \<Longrightarrow> l' = l"
    "r \<noteq> None \<Longrightarrow> r = Some x \<and> list_data l' = ins_at k x (list_data l)"
proof -
  have inv: "list_inv l (addrs l)"
    using assms(1) by (simp add: list_ok_def)
  show "r = None \<Longrightarrow> l' = l"
    using create_shape[OF inv assms(2,3)] by auto
  show "list_ok l'"
  proof (cases r)
    case None
    then show ?thesis using create_shape[OF inv assms(2,3)] assms(1) by auto
  next
    case (Some y)
    then show ?thesis
      using list_node_create_inv[OF inv assms(2)] assms(3) by (metis list_okI)
  qed
  show "r \<noteq> None \<Longrightarrow> r = Some x \<and> list_data l' = ins_at k x (list_data l)"
    using list_node_create_inv[OF inv assms(2)] assms(3) list_dataI[OF inv]
    by (metis list_dataI not_None_eq)
qed

lemma tail_loc: "list_ok l \<Longrightarrow> l_tail l = loc_at (addrs l) (length (addrs l))"
  by (simp add: list_ok_def list_inv_def)

lemma ins_at_ends: "ins_at 0 x xs = x # xs" "ins_at (length xs) x xs = xs @ [x]"
  by (simp_all add: ins_at_def)

lemma data_length: "length (list_data l) = length (addrs l)"
  by (simp add: list_data_def)

lemma list_append_data:
  assumes "list_ok l" "list_append l x = (r, l')"
  shows "list_ok l'" "r = None \<Longrightarrow> l' = l" "r \<noteq> None \<Longrightarrow> r = Some x \<and> list_data l' = list_data l @ [x]"
  using create_at_data[OF assms(1) order_refl] assms(2) data_length[of l]
  by (auto simp: list_append_def tail_loc[OF assms(1)] ins_at_ends(2)[symmetric])

lemma list_push_data:
  assumes "list_ok l" "list_push l x = (r, l')"
  shows "list_ok l'" "r = None \<Longrightarrow> l' = l" "r \<noteq> None \<Longrightarrow> r = Some x \<and> list_data l' = x # list_data l"
  using create_at_data[OF assms(1), of 0] assms(2)
  by (auto simp: list_push_def loc_at_def ins_at_ends)

lemma destroy_at_data:
  assumes "list_ok l" "k < length (addrs l)"
  shows "\<exists>l'. list_node_destroy l (loc_at (addrs l) k) = (Some (list_data l ! k), l') \<and>
              list_ok l' \<and> list_data l' = del_at k (list_data l)"
  using list_node_destroy_inv[of l "addrs l" k] assms
  by (metis list_dataI list_okI list_ok_def)

lemma list_count_data: "list_ok l \<Longrightarrow> list_count l = int (length (list_data l))"
  by (simp add: list_count_def list_ok_def list_inv_def data_length)

lemma head_ptr: "list_ok l \<Longrightarrow> l_head l = ptr (addrs l) 0"
  using path_deref[of l "addrs l" 0] by (auto simp: list_ok_def list_inv_def loc_at_def)

lemma list_pop_data:
  assumes "list_ok l"
  shows "\<exists>l'. list_pop l = (case list_data l of [] \<Rightarrow> (None, l) | x # xs \<Rightarrow> (Some x, l')) \<and>
              (list_data l \<noteq> [] \<longrightarrow> list_ok l' \<and> list_data l' = tl (list_data l))"
proof (cases "list_data l")
  case Nil
  then have "addrs l = []"
    using data_length[of l] by simp
  with Nil show ?thesis
    using head_ptr[OF assms] by (simp add: list_pop_def list_node_destroy_def ptr_def)
next
  case (Cons x xs)
  then have "0 < length (addrs l)"
    using data_length[of l] by auto
  from destroy_at_data[OF assms this] Cons show ?thesis
    by (auto simp: list_pop_def loc_at_def del_at_def)
qed

lemma list_peek_data: "list_ok l \<Longrightarrow> list_peek l = (case list_data l of [] \<Rightarrow> None | x # _ \<Rightarrow> Some x)"
  using head_ptr[of l] path_data[of l "addrs l"]
  by (cases "addrs l")
     (auto simp: list_peek_def list_data_def contents_def ptr_def list_ok_def list_inv_def)

end
