(* ===== verification/CListIter.thy ===== *)
theory CListIter
  imports CListLaws
begin

text \<open>
  The iterators of \<open>lib/list.c\<close> against an abstract view: what lies before the cursor, the
  item last returned (if it is still there), and what is left to return.
\<close>

section \<open>The view of an iterator\<close>

definition it_index :: "addr list \<Rightarrow> listIterator \<Rightarrow> nat" where
  "it_index as it =
    (case i_prev it of Head \<Rightarrow> 0 | NextOf a \<Rightarrow> Suc (length (takeWhile (\<lambda>b. b \<noteq> a) as)))"

definition it_mark :: "addr list \<Rightarrow> listIterator \<Rightarrow> nat" where
  "it_mark as it = (if i_pos it = ptr as (it_index as it) then 0 else 1)"

definition it_view :: "'a clist \<Rightarrow> addr \<Rightarrow> 'a list \<times> 'a list \<times> 'a list" where
  "it_view l i =
    (case it_get l i of
       None \<Rightarrow> ([], [], [])
     | Some it \<Rightarrow>
         let as = addrs l; xs = list_data l; j = it_index as it; r = it_mark as it
         in (take j xs, take r (drop j xs), drop (j + r) xs))"

lemma length_takeWhile_index:
  assumes "distinct xs" "k < length xs"
  shows "length (takeWhile (\<lambda>b. b \<noteq> xs ! k) xs) = k"
proof -
  have "takeWhile (\<lambda>b. b \<noteq> xs ! k) xs = take k xs"
    using assms by (intro takeWhile_eq_take_P_nth) (auto simp: nth_eq_iff_index_eq)
  then show ?thesis using assms(2) by simp
qed

lemma cursor_unique:
  assumes "cursor_ok as it j r" "distinct as"
  shows "it_index as it = j" "it_mark as it = r"
proof -
  show j: "it_index as it = j"
    using assms by (auto simp: cursor_ok_def it_index_def loc_at_def length_takeWhile_index)
  show "it_mark as it = r"
    using assms j by (auto simp: it_mark_def cursor_ok_def ptr_inj)
qed

lemma it_set_get:
  "it_get (it_set l i it) k = (if k = i \<and> it_get l i \<noteq> None then Some it else it_get l k)"
proof -
  have "map_of (map (\<lambda>(a, j). (a, if a = i then it else j)) xs) k =
        (if k = i \<and> map_of xs i \<noteq> None then Some it else map_of xs k)" for xs
    by (induction xs) auto
  then show ?thesis by (simp add: it_get_def it_set_def)
qed

lemma it_get_mem: "it_get l i = Some it \<Longrightarrow> (i, it) \<in> set (l_its l)"
  by (simp add: it_get_def map_of_SomeD)

lemma it_cursor:
  assumes "list_ok l" "it_get l i = Some it"
  shows "cursor_ok (addrs l) it (it_index (addrs l) it) (it_mark (addrs l) it)"
  using it_get_mem[OF assms(2)] assms(1) cursor_unique[of "addrs l" it]
  by (fastforce simp: list_ok_def list_inv_def)

lemma view_cursor:
  assumes "list_ok l" "it_get l i = Some it" "cursor_ok (addrs l) it j r"
  shows "it_view l i = (take j (list_data l), take r (drop j (list_data l)), drop (j + r) (list_data l))"
  using assms cursor_unique[OF assms(3)]
  by (simp add: it_view_def list_ok_def list_inv_def Let_def)

text \<open>The three parts of a view always make up the whole list.\<close>

lemma view_parts:
  assumes "list_ok l" "it_get l i \<noteq> None" "it_view l i = (before, cur, rest)"
  shows "list_data l = before @ cur @ rest" "length cur \<le> 1"
proof -
  from assms(2) obtain it where it: "it_get l i = Some it" by auto
  note c = it_cursor[OF assms(1) it]
  let ?j = "it_index (addrs l) it" and ?r = "it_mark (addrs l) it"
  from assms(3) have v: "before = take ?j (list_data l)" "cur = take ?r (drop ?j (list_data l))"
      "rest = drop (?j + ?r) (list_data l)"
    using view_cursor[OF assms(1) it c] by auto
  then show "list_data l = before @ cur @ rest"
    by (metis append.assoc append_take_drop_id take_add)
  show "length cur \<le> 1"
    using c v by (simp add: cursor_ok_def min_le_iff_disj)
qed

section \<open>Creating, resetting, destroying iterators\<close>

lemma it_set_inv:
  assumes "list_inv l as" "cursor_ok as it j r"
  shows "list_inv (it_set l i it) as"
proof -
  have f: "map fst (l_its (it_set l i it)) = map fst (l_its l)"
    by (simp add: it_set_def)
  then have g: "fst ` set (l_its (it_set l i it)) = fst ` set (l_its l)"
    by (metis set_map)
  have c: "\<forall>(a, it)\<in>set (l_its (it_set l i it)). \<exists>j r. cursor_ok as it j r"
    using assms unfolding list_inv_def by (fastforce simp: it_set_def)
  have "l_ifree (it_set l i it) = l_ifree l"
    by (simp add: it_set_def)
  with f g c show ?thesis
    using assms(1) unfolding list_inv_def by (intro conjI) (simp_all add: it_set_def)
qed

lemma it_set_frame:
  "list_inv l as \<Longrightarrow> cursor_ok as it j r \<Longrightarrow>
   list_ok (it_set l i it) \<and> addrs (it_set l i it) = as \<and> list_data (it_set l i it) = contents l as"
  using it_set_inv[of l as it j r i]
  by (auto simp: inv_addrs list_okI list_dataI contents_def) (simp add: it_set_def)

lemma reset_cursor: "list_ok l \<Longrightarrow> cursor_ok (addrs l) (it_reset l it) 0 0"
  by (simp add: cursor_ok_def it_reset_def loc_at_def head_ptr)

lemma list_iterator_create_view:
  assumes "list_ok l" "list_iterator_create l = (Some i, l')"
  shows "list_ok l'" "list_data l' = list_data l" "it_get l i = None"
    "it_view l' i = ([], [], list_data l)" "it_get l' i \<noteq> None"
    "k \<noteq> i \<Longrightarrow> it_get l' k = it_get l k"
proof -
  let ?it = "\<lparr>i_pos = l_head l, i_prev = Head\<rparr>"
  have inv: "list_inv l (addrs l)"
    using assms(1) by (simp add: list_ok_def)
  from assms(2) obtain f where al: "list_alloc_aux (l_ifree l) = (Some i, f)"
    and l': "l' = l\<lparr>l_ifree := f, l_its := (i, ?it) # l_its l\<rparr>"
    by (auto simp: list_iterator_create_def split: prod.splits option.splits)
  have fl: "i \<notin> fst ` set (l_its l)" "fl_ok (insert i (fst ` set (l_its l))) f"
    using alloc_fresh[OF _ al, of "fst ` set (l_its l)"] inv by (auto simp: list_inv_def)
  have c: "cursor_ok (addrs l) ?it 0 0"
    using reset_cursor[OF assms(1), of ?it] by (simp add: it_reset_def)
  have inv': "list_inv l' (addrs l)"
    using inv fl c unfolding list_inv_def l' by auto
  show ok: "list_ok l'" and d: "list_data l' = list_data l"
    using inv' inv by (auto simp: list_okI list_dataI contents_def l')
  show "it_get l i = None"
    using fl(1) by (auto simp: it_get_def map_of_eq_None_iff)
  show "it_get l' i \<noteq> None" and "k \<noteq> i \<Longrightarrow> it_get l' k = it_get l k"
    by (auto simp: it_get_def l')
  have "it_get l' i = Some ?it"
    by (simp add: it_get_def l')
  from view_cursor[OF ok this, of 0 0] show "it_view l' i = ([], [], list_data l)"
    using c d by (simp add: inv_addrs[OF inv'])
qed

lemma list_iterator_reset_view:
  assumes "list_ok l" "it_get l i \<noteq> None"
  shows "list_ok (list_iterator_reset l i)" "list_data (list_iterator_reset l i) = list_data l"
    "it_view (list_iterator_reset l i) i = ([], [], list_data l)"
proof -
  from assms(2) obtain it where it: "it_get l i = Some it" by auto
  have inv: "list_inv l (addrs l)"
    using assms(1) by (simp add: list_ok_def)
  note c = reset_cursor[OF assms(1), of it]
  have r: "list_iterator_reset l i = it_set l i (it_reset l it)"
    by (simp add: list_iterator_reset_def it)
  note fr = it_set_frame[OF inv c, of i]
  show ok: "list_ok (list_iterator_reset l i)" and d: "list_data (list_iterator_reset l i) = list_data l"
    using fr by (simp_all add: r list_dataI[OF inv])
  have "it_get (it_set l i (it_reset l it)) i = Some (it_reset l it)"
    by (simp add: it_set_get it)
  from view_cursor[OF _ this, of 0 0] show "it_view (list_iterator_reset l i) i = ([], [], list_data l)"
    using fr c d by (simp add: r)
qed

lemma list_iterator_destroy_ok:
  assumes "list_ok l" "it_get l i \<noteq> None"
  shows "list_ok (list_iterator_destroy l i)" "list_data (list_iterator_destroy l i) = list_data l"
    "it_get (list_iterator_destroy l i) i = None"
proof -
  let ?l' = "list_iterator_destroy l i"
  have inv: "list_inv l (addrs l)"
    using assms(1) by (simp add: list_ok_def)
  have i: "i \<in> fst ` set (l_its l)"
    using assms(2) by (auto simp: it_get_def map_of_eq_None_iff)
  have s: "fst ` set (l_its ?l') = fst ` set (l_its l) - {i}"
    by (force simp: list_iterator_destroy_def)
  have "fl_ok (fst ` set (l_its ?l')) (l_ifree ?l')"
    using free_ok[of "fst ` set (l_its l)" "l_ifree l" i] inv i
    by (simp only: s) (simp add: list_iterator_destroy_def list_inv_def)
  moreover have "distinct (map fst (l_its ?l'))"
    using inv by (simp add: list_iterator_destroy_def list_inv_def distinct_map_filter)
  ultimately have inv': "list_inv ?l' (addrs l)"
    using inv unfolding list_inv_def by (auto simp: list_iterator_destroy_def)
  then show "list_ok ?l'" "list_data ?l' = list_data l"
    using inv by (auto simp: list_okI list_dataI contents_def) (simp add: list_iterator_destroy_def)
  show "it_get ?l' i = None"
    by (auto simp: it_get_def map_of_eq_None_iff list_iterator_destroy_def)
qed

section \<open>Advancing\<close>

lemma list_next_cursor:
  assumes ok: "list_ok l" and it: "it_get l i = Some it" and c: "cursor_ok (addrs l) it j r"
  defines "n \<equiv> length (addrs l)"
  shows "\<exists>it'. list_next l i = (if j + r < n then Some (list_data l ! (j + r)) else None, it_set l i it') \<and>
           cursor_ok (addrs l) it' (j + r) (if j + r < n then 1 else 0)"
proof -
  let ?as = "addrs l"
  have path: "path l ?as" and dist: "distinct ?as"
    using ok by (auto simp: list_ok_def list_inv_def)
  have b: "r \<le> 1" "j + r \<le> n" and pv: "i_prev it = loc_at ?as j" and ps: "i_pos it = ptr ?as (j + r)"
    using c by (auto simp: cursor_ok_def n_def)
  define it1 where "it1 = (case i_pos it of None \<Rightarrow> it | Some a \<Rightarrow> it\<lparr>i_pos := deref l (NextOf a)\<rparr>)"
  define it2 where "it2 = (if deref l (i_prev it1) \<noteq> i_pos it then it1\<lparr>i_prev := advance l (i_prev it1)\<rparr> else it1)"
  have p1: "i_pos it1 = (if j + r < n then ptr ?as (Suc (j + r)) else ptr ?as (j + r))"
    using path_next[OF path, of "j + r"] ps by (simp add: it1_def ptr_def n_def del: deref.simps)
  have v1: "i_prev it1 = loc_at ?as j"
    using pv by (simp add: it1_def split: option.splits)
  have dv: "deref l (loc_at ?as j) = ptr ?as j"
    using path b by (simp add: n_def)
  have ne: "ptr ?as j \<noteq> ptr ?as (j + r) \<longleftrightarrow> r = 1"
    using b dist by (auto simp: ptr_inj n_def)
  have adv: "r = 1 \<Longrightarrow> advance l (loc_at ?as j) = loc_at ?as (Suc j)"
    using dv b by (simp add: advance_def ptr_def n_def loc_at_def)
  have p2: "i_pos it2 = i_pos it1"
    by (simp add: it2_def)
  have v2: "i_prev it2 = loc_at ?as (j + r)"
  proof (cases "r = 1")
    case True
    then show ?thesis using ne adv v1 by (simp add: it2_def dv ps)
  next
    case False
    with b have "r = 0" by simp
    then show ?thesis using v1 by (simp add: it2_def dv ps)
  qed
  have "cursor_ok ?as it2 (j + r) (if j + r < n then 1 else 0)"
    using b p1 p2 v2 by (auto simp: cursor_ok_def n_def)
  moreover have "Option.bind (i_pos it) (data_at l) = (if j + r < n then Some (list_data l ! (j + r)) else None)"
    using path_data[OF path, of "?as ! (j + r)"] ps
    by (auto simp: ptr_def n_def list_data_def contents_def)
  moreover have "list_next l i = (Option.bind (i_pos it) (data_at l), it_set l i it2)"
    by (simp add: list_next_def it Let_def it1_def it2_def)
  ultimately show ?thesis by (intro exI[of _ it2]) simp
qed

lemma list_next_view:
  assumes ok: "list_ok l" and "it_get l i \<noteq> None" and v: "it_view l i = (before, cur, rest)"
  shows "\<exists>l'. list_next l i = (case rest of [] \<Rightarrow> None | x # _ \<Rightarrow> Some x, l') \<and> list_ok l' \<and>
              list_data l' = list_data l \<and> it_get l' i \<noteq> None \<and>
              it_view l' i = (before @ cur, take 1 rest, drop 1 rest) \<and>
              (\<forall>k. k \<noteq> i \<longrightarrow> it_view l' k = it_view l k)"
proof -
  from assms(2) obtain it where it: "it_get l i = Some it" by auto
  define j where "j = it_index (addrs l) it"
  define r where "r = it_mark (addrs l) it"
  let ?n = "length (addrs l)"
  have inv: "list_inv l (addrs l)"
    using ok by (simp add: list_ok_def)
  have c: "cursor_ok (addrs l) it j r"
    using it_cursor[OF ok it] by (simp add: j_def r_def)
  from list_next_cursor[OF ok it c] obtain it' where
    nx: "list_next l i = (if j + r < ?n then Some (list_data l ! (j + r)) else None, it_set l i it')"
    and c': "cursor_ok (addrs l) it' (j + r) (if j + r < ?n then 1 else 0)" by blast
  note fr = it_set_frame[OF inv c', of i]
  have vs: "before @ cur = take (j + r) (list_data l)" "rest = drop (j + r) (list_data l)"
    using v view_cursor[OF ok it c] by (auto simp: take_add)
  have get: "it_get (it_set l i it') i = Some it'"
    by (simp add: it_set_get it)
  have "it_view (it_set l i it') i =
      (take (j + r) (list_data l), take 1 (drop (j + r) (list_data l)), drop 1 (drop (j + r) (list_data l)))"
    using view_cursor[OF _ get, of "j + r" "if j + r < ?n then 1 else 0"] fr c' list_dataI[OF inv]
    by (cases "j + r < ?n") (auto simp: data_length)
  moreover have "it_view (it_set l i it') k = it_view l k" if "k \<noteq> i" for k
    using that fr list_dataI[OF inv]
    by (cases "it_get l k") (simp_all add: it_view_def it_set_get Let_def)
  moreover have "(if j + r < ?n then Some (list_data l ! (j + r)) else None) =
      (case rest of [] \<Rightarrow> None | x # _ \<Rightarrow> Some x)"
    by (cases "j + r < ?n") (simp_all add: vs(2) data_length Cons_nth_drop_Suc[symmetric])
  ultimately show ?thesis
    using nx fr get by (intro exI[of _ "it_set l i it'"]) (simp add: vs list_dataI[OF inv])
qed

section \<open>Inserting and removing through an iterator\<close>

lemma it_get_map:
  "l_its l' = map (\<lambda>(a, i). (a, g i)) (l_its l) \<Longrightarrow> it_get l' i = map_option g (it_get l i)"
  by (simp add: it_get_def map_of_map)

lemma list_insert_view:
  assumes ok: "list_ok l" and "it_get l i \<noteq> None" and v: "it_view l i = (before, cur, rest)"
    and ins: "list_insert l i x = (Some y, l')"
  shows "y = x" "list_ok l'" "list_data l' = before @ x # cur @ rest" "it_get l' i \<noteq> None"
    "it_view l' i = (before @ [x], cur, rest)"
proof -
  from assms(2) obtain it where it: "it_get l i = Some it" by auto
  define j where "j = it_index (addrs l) it"
  define r where "r = it_mark (addrs l) it"
  have inv: "list_inv l (addrs l)"
    using ok by (simp add: list_ok_def)
  have c: "cursor_ok (addrs l) it j r"
    using it_cursor[OF ok it] by (simp add: j_def r_def)
  then have b: "j \<le> length (addrs l)" "j + r \<le> length (addrs l)" "i_prev it = loc_at (addrs l) j"
    by (auto simp: cursor_ok_def)
  have "list_node_create l (loc_at (addrs l) j) x = (Some y, l')"
    using ins it b by (simp add: list_insert_def)
  from list_node_create_inv[OF inv b(1) this] obtain p where
    y: "y = x" and inv': "list_inv l' (ins_at j p (addrs l))" and
    dat: "contents l' (ins_at j p (addrs l)) = ins_at j x (contents l (addrs l))" and
    its: "l_its l' = map (\<lambda>(a, i). (a, fix_create (loc_at (addrs l) j) p (ptr (addrs l) j) i)) (l_its l)"
    by blast
  note ad = inv_addrs[OF inv'] and ld = list_dataI[OF inv'] list_dataI[OF inv]
  show "y = x" by (rule y)
  show ok': "list_ok l'" by (rule list_okI[OF inv'])
  have vs: "before = take j (list_data l)" "cur = take r (drop j (list_data l))"
    "rest = drop (j + r) (list_data l)"
    using v view_cursor[OF ok it c] by auto
  show data: "list_data l' = before @ x # cur @ rest"
    using ld dat vs by (simp add: ins_at_def) (metis append_take_drop_id drop_drop add.commute)
  let ?it = "fix_create (loc_at (addrs l) j) p (ptr (addrs l) j) it"
  have get: "it_get l' i = Some ?it"
    using it_get_map[OF its] it by simp
  then show "it_get l' i \<noteq> None" by simp
  have c': "cursor_ok (addrs l') ?it (Suc j) r"
    using fix_create_cursor[OF c _ b(1), of p] inv ad by (simp add: list_inv_def)
  have "length before = j"
    using vs b by (simp add: data_length)
  moreover have "length cur = r"
    using vs b by (simp add: data_length min_absorb2)
  ultimately show "it_view l' i = (before @ [x], cur, rest)"
    using view_cursor[OF ok' get c'] data by simp
qed

lemma list_remove_view:
  assumes ok: "list_ok l" and "it_get l i \<noteq> None" and v: "it_view l i = (before, cur, rest)"
  shows "\<exists>l'. list_remove l i = (case cur of [] \<Rightarrow> None | x # _ \<Rightarrow> Some x, l') \<and> list_ok l' \<and>
              list_data l' = before @ rest \<and> it_get l' i \<noteq> None \<and> it_view l' i = (before, [], rest) \<and>
              l_fDel l' = l_fDel l \<and> l_deleted l' = l_deleted l"
proof -
  from assms(2) obtain it where it: "it_get l i = Some it" by auto
  define j where "j = it_index (addrs l) it"
  define r where "r = it_mark (addrs l) it"
  have inv: "list_inv l (addrs l)" and dist: "distinct (addrs l)"
    using ok by (simp_all add: list_ok_def list_inv_def)
  have c: "cursor_ok (addrs l) it j r"
    using it_cursor[OF ok it] by (simp add: j_def r_def)
  then have b: "j + r \<le> length (addrs l)" "r \<le> 1" "i_prev it = loc_at (addrs l) j"
      "i_pos it = ptr (addrs l) (j + r)"
    by (auto simp: cursor_ok_def)
  have vs: "before = take j (list_data l)" "cur = take r (drop j (list_data l))"
    "rest = drop (j + r) (list_data l)"
    using v view_cursor[OF ok it c] by auto
  have path: "deref l (loc_at (addrs l) j) = ptr (addrs l) j"
    using inv b by (auto simp: list_inv_def)
  show ?thesis
  proof (cases "r = 0")
    case True
    then have "list_remove l i = (None, l)"
      using it b path by (simp add: list_remove_def)
    with True ok it v vs show ?thesis
      by simp
  next
    case False
    with b have r1: "r = 1" and j: "j < length (addrs l)" by auto
    have "deref l (i_prev it) \<noteq> i_pos it"
      using b path r1 dist j by (simp add: ptr_inj)
    then have rm: "list_remove l i = list_node_destroy l (loc_at (addrs l) j)"
      using it b by (simp add: list_remove_def)
    from list_node_destroy_inv[OF inv j] obtain l' where
      run: "list_node_destroy l (loc_at (addrs l) j) = (Some (contents l (addrs l) ! j), l')" and
      inv': "list_inv l' (del_at j (addrs l))" and
      dat: "contents l' (del_at j (addrs l)) = del_at j (contents l (addrs l))" and
      its: "l_its l' = map (\<lambda>(a, i). (a, fix_destroy (loc_at (addrs l) j) (addrs l ! j)
              (ptr (addrs l) (Suc j)) i)) (l_its l)" and
      fr: "l_fDel l' = l_fDel l" "l_deleted l' = l_deleted l" by blast
    note ad = inv_addrs[OF inv'] and ld = list_dataI[OF inv'] list_dataI[OF inv] and ok' = list_okI[OF inv']
    let ?it = "fix_destroy (loc_at (addrs l) j) (addrs l ! j) (ptr (addrs l) (Suc j)) it"
    have get: "it_get l' i = Some ?it"
      using it_get_map[OF its] it by simp
    have c': "cursor_ok (addrs l') ?it j 0"
      using fix_destroy_cursor[OF c dist j] r1 ad by (simp add: cursor_del_def)
    have data: "list_data l' = before @ rest"
      using ld dat vs r1 by (simp add: del_at_def)
    have "length before = j"
      using vs j by (simp add: data_length)
    then have view: "it_view l' i = (before, [], rest)"
      using view_cursor[OF ok' get c'] data by simp
    have "cur = [list_data l ! j]"
      using vs r1 j by (simp add: data_length take_Suc_conv_app_nth hd_drop_conv_nth take_Suc drop_eq_Nil)
    then show ?thesis
      using rm run ok' data get view fr ld by simp
  qed
qed

lemma list_find_view:
  assumes "list_ok l" "it_get l i \<noteq> None" "it_view l i = (before, cur, rest)"
  shows "\<exists>l'. list_find f key l i =
            Some (List.find (\<lambda>x. f x key \<noteq> 0) rest, l') \<and> list_ok l' \<and> list_data l' = list_data l \<and>
          it_get l' i \<noteq> None \<and>
          it_view l' i = (before @ cur @ takeWhile (\<lambda>x. f x key = 0) rest,
                          take 1 (dropWhile (\<lambda>x. f x key = 0) rest),
                          drop 1 (dropWhile (\<lambda>x. f x key = 0) rest))"
  using assms
proof (induction rest arbitrary: l before cur)
  case Nil
  from list_next_view[OF Nil] show ?case
    by (auto simp: list_find.simps)
next
  case (Cons x rest)
  from list_next_view[OF Cons.prems] obtain l1 where l1:
    "list_next l i = (Some x, l1)" "list_ok l1" "list_data l1 = list_data l" "it_get l1 i \<noteq> None"
    "it_view l1 i = (before @ cur, [x], rest)" by auto
  show ?case
  proof (cases "f x key = 0")
    case False
    with l1 show ?thesis by (simp add: list_find.simps)
  next
    case True
    from Cons.IH[OF l1(2,4,5)] True l1 show ?thesis
      by (auto simp: list_find.simps[of f key l])
  qed
qed

end
