(* ===== verification/CListLoops.thy ===== *)
theory CListLoops
  imports CListIter
begin

text \<open>
  The loops of \<open>lib/list.c\<close> that follow next pointers: each of them ends on a well-formed
  list, and its result is the one of the corresponding function on sequences.
\<close>

section \<open>Searching and applying\<close>

lemma path_at:
  assumes "path l as" "k < length as"
  shows "ptr as k = Some (as ! k)" "data_at l (as ! k) = Some (contents l as ! k)"
    "deref l (NextOf (as ! k)) = ptr as (Suc k)"
  using assms path_data[OF assms(1), of "as ! k"] path_next[OF assms]
  by (simp_all add: ptr_def contents_def)

lemma drop_contents:
  "k < length as \<Longrightarrow> drop k (contents l as) = contents l as ! k # drop (Suc k) (contents l as)"
  by (simp add: Cons_nth_drop_Suc)

lemma find_first_loop:
  assumes "path l as"
  shows "k \<le> length as \<Longrightarrow>
    find_first_loop f key l (ptr as k) = Some (List.find (\<lambda>x. f x key \<noteq> 0) (drop k (contents l as)))"
proof (induction "length as - k" arbitrary: k)
  case 0
  then show ?case by (simp add: find_first_loop.simps ptr_def)
next
  case (Suc n)
  then have k: "k < length as" by simp
  have IH: "find_first_loop f key l (ptr as (Suc k)) =
      Some (List.find (\<lambda>x. f x key \<noteq> 0) (drop (Suc k) (contents l as)))"
    using Suc by simp
  show ?case
    using path_at[OF assms k] IH
    by (subst find_first_loop.simps) (simp add: drop_contents[OF k] del: deref.simps)
qed

lemma list_find_first_data:
  "list_ok l \<Longrightarrow> list_find_first l f key = Some (List.find (\<lambda>x. f x key \<noteq> 0) (list_data l))"
  using find_first_loop[of l "addrs l" 0 f key] head_ptr[of l]
  by (simp add: list_find_first_def list_ok_def list_inv_def list_data_def)

fun for_each_list :: "('a \<Rightarrow> 's \<Rightarrow> int \<times> 's) \<Rightarrow> 'a list \<Rightarrow> int \<Rightarrow> 's \<Rightarrow> int \<times> 's" where
  "for_each_list f [] n s = (n, s)"
| "for_each_list f (x # xs) n s =
     (case f x s of (r, s1) \<Rightarrow> if r < 0 then (- (n + 1), s1) else for_each_list f xs (n + 1) s1)"

lemma for_each_loop:
  assumes "path l as"
  shows "k \<le> length as \<Longrightarrow>
    for_each_loop f l (ptr as k) n s = Some (for_each_list f (drop k (contents l as)) n s)"
proof (induction "length as - k" arbitrary: k n s)
  case 0
  then show ?case by (simp add: for_each_loop.simps ptr_def)
next
  case (Suc m)
  then have k: "k < length as" by simp
  have IH: "for_each_loop f l (ptr as (Suc k)) n s =
      Some (for_each_list f (drop (Suc k) (contents l as)) n s)" for n s
    using Suc by simp
  show ?case
    using path_at[OF assms k] IH
    by (subst for_each_loop.simps)
       (simp add: drop_contents[OF k] split: prod.splits del: deref.simps)
qed

lemma list_for_each_data:
  "list_ok l \<Longrightarrow> list_for_each l f s = Some (for_each_list f (list_data l) 0 s)"
  using for_each_loop[of l "addrs l" 0 f 0 s] head_ptr[of l]
  by (simp add: list_for_each_def list_ok_def list_inv_def list_data_def)

section \<open>Deleting all matches\<close>

lemma list_inv_deleted: "list_inv (l\<lparr>l_deleted := d\<rparr>) as = list_inv l as"
  by (simp add: list_inv_def)

lemma contents_deleted: "contents (l\<lparr>l_deleted := d\<rparr>) as = contents l as"
  by (simp add: contents_def)

lemma length_contents: "length (contents l as) = length as"
  by (simp add: contents_def)

lemma delete_all_loop:
  "list_inv l as \<Longrightarrow> k \<le> length as \<Longrightarrow>
   \<exists>l' as'. delete_all_loop f key l (loc_at as k) n =
        Some (n + int (length (filter (\<lambda>x. f x key \<noteq> 0) (drop k (contents l as)))), l') \<and>
      list_inv l' as' \<and>
      contents l' as' = take k (contents l as) @ filter (\<lambda>x. f x key = 0) (drop k (contents l as)) \<and>
      l_deleted l' = l_deleted l @
        (if l_fDel l then filter (\<lambda>x. f x key \<noteq> 0) (drop k (contents l as)) else [])"
proof (induction "length as - k" arbitrary: k l as n)
  case 0
  then have "deref l (loc_at as k) = None"
    by (auto simp: list_inv_def ptr_def)
  with 0 show ?case
    by (subst delete_all_loop.simps) auto
next
  case (Suc m)
  then have k: "k < length as" by simp
  have path: "path l as"
    using Suc.prems by (simp add: list_inv_def)
  note at = path_at[OF path k]
  have here: "deref l (loc_at as k) = Some (as ! k)"
    using path k at by simp
  note dc = drop_contents[OF k, of l]
  show ?case
  proof (cases "f (contents l as ! k) key = 0")
    case True
    have step: "delete_all_loop f key l (loc_at as k) n = delete_all_loop f key l (loc_at as (Suc k)) n"
      using here at True by (subst delete_all_loop.simps) (simp add: loc_at_def)
    have m: "m = length as - Suc k" "Suc k \<le> length as"
      using Suc.hyps k by auto
    let ?xs = "contents l as"
    have e: "take (Suc k) ?xs @ filter (\<lambda>x. f x key = 0) (drop (Suc k) ?xs) =
        take k ?xs @ filter (\<lambda>x. f x key = 0) (drop k ?xs)"
      "filter (\<lambda>x. f x key \<noteq> 0) (drop (Suc k) ?xs) = filter (\<lambda>x. f x key \<noteq> 0) (drop k ?xs)"
      using True k by (simp_all add: dc take_Suc_conv_app_nth length_contents)
    show ?thesis
      using Suc.hyps(1)[OF m(1) Suc.prems(1) m(2), of n] unfolding step e .
  next
    case False
    from list_node_destroy_inv[OF Suc.prems(1) k] obtain l1 where
      d: "list_node_destroy l (loc_at as k) = (Some (contents l as ! k), l1)" and
      inv1: "list_inv l1 (del_at k as)" and
      c1: "contents l1 (del_at k as) = del_at k (contents l as)" and
      fr: "l_fDel l1 = l_fDel l" "l_deleted l1 = l_deleted l" by blast
    define l2 where "l2 = (if l_fDel l1 then l1\<lparr>l_deleted := l_deleted l1 @ [contents l as ! k]\<rparr> else l1)"
    have inv2: "list_inv l2 (del_at k as)" and c2: "contents l2 (del_at k as) = del_at k (contents l as)"
      and fd2: "l_fDel l2 = l_fDel l"
      using inv1 c1 fr by (auto simp: l2_def list_inv_deleted contents_deleted)
    have dl2: "l_deleted l2 = l_deleted l @ (if l_fDel l then [contents l as ! k] else [])"
      using fr by (simp add: l2_def)
    have step: "delete_all_loop f key l (loc_at as k) n = delete_all_loop f key l2 (loc_at as k) (n + 1)"
      using here at False d by (subst delete_all_loop.simps) (simp add: l2_def)
    have loc: "loc_at as k = loc_at (del_at k as) k"
      using k by (simp add: loc_at_del)
    have m: "m = length (del_at k as) - k" "k \<le> length (del_at k as)"
      using Suc.hyps k by auto
    let ?xs = "contents l as"
    have e: "take k (contents l2 (del_at k as)) = take k ?xs"
      "drop k (contents l2 (del_at k as)) = drop (Suc k) ?xs"
      using k by (simp_all only: c2) (simp_all add: del_at_def length_contents)
    have g: "filter (\<lambda>x. f x key = 0) (drop (Suc k) ?xs) = filter (\<lambda>x. f x key = 0) (drop k ?xs)"
      "filter (\<lambda>x. f x key \<noteq> 0) (drop k ?xs) =
        ?xs ! k # filter (\<lambda>x. f x key \<noteq> 0) (drop (Suc k) ?xs)"
      using False by (simp_all add: dc)
    from Suc.hyps(1)[OF m(1) inv2 m(2), of "n + 1"] obtain l' as' where r:
      "delete_all_loop f key l2 (loc_at (del_at k as) k) (n + 1) =
         Some (n + 1 + int (length (filter (\<lambda>x. f x key \<noteq> 0) (drop (Suc k) ?xs))), l')"
      "list_inv l' as'"
      "contents l' as' = take k ?xs @ filter (\<lambda>x. f x key = 0) (drop (Suc k) ?xs)"
      "l_deleted l' = l_deleted l2 @
        (if l_fDel l2 then filter (\<lambda>x. f x key \<noteq> 0) (drop (Suc k) ?xs) else [])"
      unfolding e by blast
    show ?thesis
      by (intro exI[of _ l'] exI[of _ as'] conjI)
         (use r step loc g in \<open>simp_all add: dl2 fd2\<close>)
  qed
qed

lemma list_delete_all_data:
  assumes "list_ok l"
  shows "\<exists>l'. list_delete_all l f key =
            Some (int (length (filter (\<lambda>x. f x key \<noteq> 0) (list_data l))), l') \<and> list_ok l' \<and>
          list_data l' = filter (\<lambda>x. f x key = 0) (list_data l) \<and>
          l_deleted l' = l_deleted l @ (if l_fDel l then filter (\<lambda>x. f x key \<noteq> 0) (list_data l) else [])"
proof -
  have inv: "list_inv l (addrs l)"
    using assms by (simp add: list_ok_def)
  from delete_all_loop[OF inv, of 0 f key 0] obtain l' as' where
    "list_delete_all l f key = Some (int (length (filter (\<lambda>x. f x key \<noteq> 0) (list_data l))), l')"
    and inv': "list_inv l' as'" and "contents l' as' = filter (\<lambda>x. f x key = 0) (list_data l)"
    "l_deleted l' = l_deleted l @ (if l_fDel l then filter (\<lambda>x. f x key \<noteq> 0) (list_data l) else [])"
    by (auto simp: list_delete_all_def loc_at_def list_dataI[OF inv])
  then show ?thesis
    by (intro exI[of _ l'] conjI) (simp_all only: list_dataI[OF inv'] list_okI[OF inv'])
qed

section \<open>Destroying the list\<close>

lemma destroy_loop:
  assumes "path l as" "distinct as"
  shows "k \<le> length as \<Longrightarrow>
    (\<forall>a\<in>set (drop k as). l_nodes m a = l_nodes l a) \<Longrightarrow>
    \<exists>m'. destroy_loop m (ptr as k) = Some m' \<and>
      l_deleted m' = l_deleted m @ (if l_fDel m then drop k (contents l as) else []) \<and>
      fl_free (l_nfree m') = rev (drop k as) @ fl_free (l_nfree m) \<and>
      fl_brk (l_nfree m') = fl_brk (l_nfree m) \<and>
      l_its m' = l_its m \<and> l_ifree m' = l_ifree m \<and>
      dom (l_nodes m') = dom (l_nodes m) - set (drop k as)"
proof (induction "length as - k" arbitrary: k m)
  case 0
  then show ?case by (simp add: destroy_loop.simps ptr_def)
next
  case (Suc n)
  then have k: "k < length as" by simp
  have dk: "drop k as = as ! k # drop (Suc k) as"
    using k by (simp add: Cons_nth_drop_Suc)
  note at = path_at[OF assms(1) k]
  have same: "l_nodes m (as ! k) = l_nodes l (as ! k)"
    using Suc.prems(2) dk by simp
  have m: "data_at m (as ! k) = Some (contents l as ! k)" "deref m (NextOf (as ! k)) = ptr as (Suc k)"
    using at same by (simp_all add: data_at_def)
  define m1 where "m1 = (if l_fDel m then m\<lparr>l_deleted := l_deleted m @ [contents l as ! k]\<rparr> else m)"
  define m2 where "m2 = m1\<lparr>l_nodes := (l_nodes m1)(as ! k := None),
                           l_nfree := list_free_aux (as ! k) (l_nfree m1)\<rparr>"
  have step: "destroy_loop m (ptr as k) = destroy_loop m2 (ptr as (Suc k))"
    using at m by (subst destroy_loop.simps) (simp add: Let_def m1_def m2_def del: deref.simps)
  have d: "as ! k \<notin> set (drop (Suc k) as)"
    using assms(2) dk by (metis distinct.simps(2) distinct_drop)
  have "\<forall>a\<in>set (drop (Suc k) as). l_nodes m2 a = l_nodes l a"
    using Suc.prems(2) d dk by (auto simp: m2_def m1_def)
  moreover have "n = length as - Suc k" "Suc k \<le> length as"
    using Suc.hyps(2) k by auto
  ultimately obtain m' where
    m': "destroy_loop m2 (ptr as (Suc k)) = Some m'"
      "l_deleted m' = l_deleted m2 @ (if l_fDel m2 then drop (Suc k) (contents l as) else [])"
      "fl_free (l_nfree m') = rev (drop (Suc k) as) @ fl_free (l_nfree m2)"
      "fl_brk (l_nfree m') = fl_brk (l_nfree m2)"
      "l_its m' = l_its m2" "l_ifree m' = l_ifree m2"
      "dom (l_nodes m') = dom (l_nodes m2) - set (drop (Suc k) as)"
    using Suc.hyps(1)[of "Suc k" m2] by blast
  show ?case
    using step m' drop_contents[OF k, of l]
    by (auto simp: dk m1_def m2_def list_free_aux_def)
qed

lemma list_destroy_data:
  assumes "list_ok l"
  shows "\<exists>m. list_destroy l = Some m \<and>
    l_deleted m = l_deleted l @ (if l_fDel l then list_data l else []) \<and>
    dom (l_nodes m) = dom (l_nodes l) - set (addrs l) \<and>
    set (fl_free (l_nfree m)) = set (addrs l) \<union> set (fl_free (l_nfree l)) \<and>
    set (fl_free (l_ifree m)) = fst ` set (l_its l) \<union> set (fl_free (l_ifree l)) \<and>
    fl_ok {} (l_nfree m) \<and> fl_ok {} (l_ifree m)"
proof -
  let ?as = "addrs l"
  let ?l0 = "l\<lparr>l_ifree := fold (\<lambda>(a, i). list_free_aux a) (l_its l) (l_ifree l), l_its := []\<rparr>"
  note i = assms[unfolded list_ok_def list_inv_def]
  have "path l ?as" "distinct ?as" using i by auto
  from destroy_loop[OF this, of 0 ?l0] head_ptr[OF assms] obtain m where
    run: "list_destroy l = Some m" and
    m: "l_deleted m = l_deleted l @ (if l_fDel l then list_data l else [])"
      "fl_free (l_nfree m) = rev ?as @ fl_free (l_nfree l)"
      "fl_brk (l_nfree m) = fl_brk (l_nfree l)"
      "l_ifree m = fold (\<lambda>(a, i). list_free_aux a) (l_its l) (l_ifree l)"
      "dom (l_nodes m) = dom (l_nodes l) - set ?as"
    by (auto simp: list_destroy_def list_data_def)
  have f: "fl_free (fold (\<lambda>(a, i). list_free_aux a) xs f) = rev (map fst xs) @ fl_free f \<and>
           fl_brk (fold (\<lambda>(a, i). list_free_aux a) xs f) = fl_brk f" for xs :: "(addr \<times> listIterator) list" and f
    by (induction xs arbitrary: f) (auto simp: list_free_aux_def)
  have "fl_ok {} (l_nfree m)"
    using i m(2,3) by (auto simp: fl_ok_def)
  moreover have "fl_ok {} (l_ifree m)"
    using i f[of "l_its l" "l_ifree l"] m(4) by (auto simp: fl_ok_def)
  ultimately show ?thesis
    using run m f[of "l_its l" "l_ifree l"] by auto
qed

end
