(* ===== verification/CListSort.thy ===== *)
theory CListSort
  imports CListLoops
begin

text \<open>
  \<open>list_sort\<close> of \<open>lib/list.c\<close>: the splicing of nodes implements an insertion sort on
  the abstract sequence, and for a comparison function that is a total preorder (the
  \<open>comparison\<close> locale) the result is sorted, a permutation, and stable.
\<close>

section \<open>The sort on sequences\<close>

definition s_insert :: "('a \<Rightarrow> 'a \<Rightarrow> int) \<Rightarrow> 'a list \<Rightarrow> 'a \<Rightarrow> 'a list" where
  "s_insert f S x =
    (if f x (last S) < 0
     then takeWhile (\<lambda>y. 0 \<le> f x y) S @ x # dropWhile (\<lambda>y. 0 \<le> f x y) S
     else S @ [x])"

fun isort :: "('a \<Rightarrow> 'a \<Rightarrow> int) \<Rightarrow> 'a list \<Rightarrow> 'a list" where
  "isort f [] = []"
| "isort f (x # xs) = foldl (s_insert f) [x] xs"

section \<open>Splicing a node\<close>

definition same_rest :: "'a clist \<Rightarrow> 'a clist \<Rightarrow> bool" where
  "same_rest l l' \<longleftrightarrow> l_its l' = l_its l \<and> l_fDel l' = l_fDel l \<and> l_count l' = l_count l \<and>
     l_nfree l' = l_nfree l \<and> l_ifree l' = l_ifree l \<and> l_deleted l' = l_deleted l \<and>
     (\<forall>a. data_at l' a = data_at l a)"

definition move_to :: "nat \<Rightarrow> nat \<Rightarrow> 'b list \<Rightarrow> 'b list" where
  "move_to k j as = ins_at j (as ! k) (del_at k as)"

lemma move_to_props:
  assumes "distinct as" "k < length as"
  shows "distinct (move_to k j as)" "set (move_to k j as) = set as"
    "j \<le> k \<Longrightarrow> length (move_to k j as) = length as"
  using assms by (auto simp: move_to_def del_at_props intro: distinct_ins_at)

lemma loc_at_move:
  assumes "j < k" "k < length as" "i \<le> length as"
  shows "loc_at (move_to k j as) i =
    (if i \<le> j then loc_at as i else if i = Suc j then NextOf (as ! k)
     else if i \<le> Suc k then loc_at as (i - 1) else loc_at as i)"
proof (cases "i = 0")
  case False
  then have "i - 1 \<le> length (del_at k as)" "j \<le> length (del_at k as)"
    using assms by auto
  moreover obtain i' where "i = Suc i'"
    using False by (cases i) auto
  ultimately show ?thesis
    using assms by (cases i') (auto simp: move_to_def loc_at_def nth_ins_at nth_del_at)
qed (simp add: loc_at_def)

lemma ptr_move:
  assumes "j < k" "k < length as"
  shows "ptr (move_to k j as) i =
    (if i < j then ptr as i else if i = j then Some (as ! k)
     else if i \<le> k then ptr as (i - 1) else ptr as i)"
proof -
  have "j \<le> length (del_at k as)" using assms by simp
  with assms show ?thesis
    by (auto simp: move_to_def ptr_ins ptr_del)
qed

lemma sort_splice_path:
  assumes "path l as" "distinct as" "j < k" "k < length as"
  defines "l' \<equiv> sort_splice l (loc_at as k) (loc_at as j)"
  shows "path l' (move_to k j as)" "same_rest l l'" "l_tail l' = l_tail l"
proof -
  let ?p = "as ! k"
  have d: "deref l (loc_at as k) = Some ?p"
    using assms by (simp add: ptr_def)
  define l1 where "l1 = store l (NextOf ?p) (ptr as j)"
  define l2 where "l2 = store l1 (loc_at as j) (Some ?p)"
  have k': "NextOf ?p = loc_at as (Suc k)"
    by (simp add: loc_at_def)
  have lv: "i \<le> length as \<Longrightarrow> live l (loc_at as i)" for i
    by (rule path_live[OF assms(1)])
  have inj: "i \<le> length as \<Longrightarrow> i' \<le> length as \<Longrightarrow> loc_at as i = loc_at as i' \<longleftrightarrow> i = i'" for i i'
    by (rule loc_at_inj[OF assms(2)])
  have dj: "deref l (loc_at as j) = ptr as j" "deref l (loc_at as (Suc k)) = ptr as (Suc k)"
    using assms by auto
  have "deref l1 (loc_at as k) = Some ?p"
    using d assms lv[of "Suc k"] by (simp add: l1_def k' inj)
  then have l': "l' = store l2 (loc_at as k) (ptr as (Suc k))"
    using d dj by (simp add: l'_def sort_splice_def Let_def l1_def l2_def k')
  have step: "deref l' (loc_at as i) =
      (if i = k then ptr as (Suc k) else if i = j then Some ?p
       else if i = Suc k then ptr as j else ptr as i)" if "i \<le> length as" for i
    using assms(1,3,4) that lv
    by (simp add: l' l2_def l1_def k' inj)
  have "deref l' (loc_at (move_to k j as) i) = ptr (move_to k j as) i" if "i \<le> length as" for i
    using that assms(3,4) by (auto simp: loc_at_move ptr_move k' step)
  moreover have "\<forall>a\<in>set as. l_nodes l' a \<noteq> None"
    using assms(1) by (simp add: path_def l' l2_def l1_def del: store.simps)
  ultimately show "path l' (move_to k j as)"
    using move_to_props[OF assms(2,4), of j] assms(3) by (simp add: path_def)
  show "same_rest l l'" "l_tail l' = l_tail l"
    by (simp_all add: same_rest_def l' l2_def l1_def del: store.simps)
qed

section \<open>The loops\<close>

lemma advance_path: "path l as \<Longrightarrow> k < length as \<Longrightarrow> advance l (loc_at as k) = loc_at as (Suc k)"
  using path_deref[of l as k] by (simp add: advance_def ptr_def) (simp add: loc_at_def)

lemma cmp_at_path:
  assumes "path l as" "i < length as" "j < length as"
  shows "cmp_at f l (loc_at as i) (loc_at as j) = Some (f (contents l as ! i) (contents l as ! j))"
  using assms path_at[OF assms(1,2)] path_at[OF assms(1,3)]
  by (simp add: cmp_at_def ptr_def)

lemma sort_pos:
  fixes f :: "'a \<Rightarrow> 'a \<Rightarrow> int"
  assumes "path l as" "k < length as"
  defines "x \<equiv> contents l as ! k"
  defines "i \<equiv> length (takeWhile (\<lambda>y. 0 \<le> f x y) (take k (contents l as)))"
  shows "i < k \<Longrightarrow> j \<le> i \<Longrightarrow> sort_pos f l (loc_at as k) (loc_at as j) = Some (loc_at as i)"
proof (induction "i - j" arbitrary: j)
  case 0
  then have j: "j = i" by simp
  have "takeWhile (\<lambda>y. 0 \<le> f x y) (take k (contents l as)) \<noteq> take k (contents l as)"
    using 0 assms(2) by (metis i_def length_contents length_take min.absorb4 nat_neq_iff)
  then have "\<not> 0 \<le> f x (take k (contents l as) ! i)"
    using nth_length_takeWhile[of "\<lambda>y. 0 \<le> f x y" "take k (contents l as)"] 0 assms(2)
    by (simp add: i_def length_contents)
  with 0 j assms(2) show ?case
    by (subst sort_pos.simps) (simp add: cmp_at_path[OF assms(1)] x_def)
next
  case (Suc n)
  then have ji: "j < i" by simp
  then have "0 \<le> f x (take k (contents l as) ! j)"
    unfolding i_def by (metis nth_mem set_takeWhileD takeWhile_nth)
  moreover have "advance l (loc_at as j) = loc_at as (Suc j)"
    using assms(1,2) ji Suc.prems by (simp add: advance_path)
  ultimately show ?case
    using Suc ji assms(2)
    by (subst sort_pos.simps) (simp add: cmp_at_path[OF assms(1)] x_def)
qed

lemma contents_move:
  assumes "k < length as" "j \<le> k" "\<forall>a. data_at l' a = data_at l a"
  shows "contents l' (move_to k j as) = move_to k j (contents l as)"
  using assms by (simp add: contents_def move_to_def ins_at_def del_at_def take_map drop_map)

lemma move_to_take:
  assumes "k < length xs" "j \<le> k"
  shows "take (Suc k) (move_to k j xs) = take j xs @ xs ! k # drop j (take k xs)"
    "drop (Suc k) (move_to k j xs) = drop (Suc k) xs"
proof -
  have "move_to k j xs = (take j xs @ xs ! k # drop j (take k xs)) @ drop (Suc k) xs"
    using assms by (simp add: move_to_def ins_at_def del_at_def min_def)
  moreover have "length (take j xs @ xs ! k # drop j (take k xs)) = Suc k"
    using assms by simp
  ultimately show "take (Suc k) (move_to k j xs) = take j xs @ xs ! k # drop j (take k xs)"
    "drop (Suc k) (move_to k j xs) = drop (Suc k) xs"
    by (metis append_eq_conv_conj)+
qed

lemma same_rest_trans: "same_rest l m \<Longrightarrow> same_rest m n \<Longrightarrow> same_rest l n"
  by (simp add: same_rest_def)

lemma same_rest_refl: "same_rest l l" "same_rest l (l\<lparr>l_tail := t\<rparr>)"
  by (simp_all add: same_rest_def)

lemma last_take: "0 < k \<Longrightarrow> k \<le> length xs \<Longrightarrow> last (take k xs) = xs ! (k - 1)"
  by (cases k) (simp_all add: take_Suc_conv_app_nth)

lemma s_insert_move:
  fixes f :: "'a \<Rightarrow> 'a \<Rightarrow> int"
  assumes "0 < k" "k < length xs" "f (xs ! k) (xs ! (k - 1)) < 0"
  defines "j \<equiv> length (takeWhile (\<lambda>y. 0 \<le> f (xs ! k) y) (take k xs))"
  shows "j < k" "take (Suc k) (move_to k j xs) = s_insert f (take k xs) (xs ! k)"
proof -
  let ?P = "\<lambda>y. 0 \<le> f (xs ! k) y"
  have l: "last (take k xs) = xs ! (k - 1)"
    using assms(1,2) by (simp add: last_take)
  have "j \<noteq> length (take k xs)"
  proof
    assume "j = length (take k xs)"
    then have "takeWhile ?P (take k xs) = take k xs"
      by (metis j_def takeWhile_eq_take take_all_iff order.refl)
    then have "?P (last (take k xs))"
      using assms(1,2) by (metis last_in_set length_greater_0_conv length_take min.absorb4 set_takeWhileD)
    with assms(3) l show False by simp
  qed
  then show j: "j < k"
    using length_takeWhile_le[of ?P "take k xs"] assms(2) by (simp add: j_def)
  have "takeWhile ?P (take k xs) = take j xs" "dropWhile ?P (take k xs) = drop j (take k xs)"
    using j takeWhile_eq_take_length[of ?P "take k xs"]
    by (simp_all add: j_def[symmetric] dropWhile_eq_drop min_def)
  then show "take (Suc k) (move_to k j xs) = s_insert f (take k xs) (xs ! k)"
    using j assms(1-3) l by (simp add: move_to_take s_insert_def)
qed

lemma sort_loop:
  assumes "path l as" "distinct as" "0 < k" "k \<le> length as"
  shows "\<exists>l' as'. sort_loop f l (loc_at as k) (loc_at as (k - 1)) = Some l' \<and>
      path l' as' \<and> distinct as' \<and> set as' = set as \<and> length as' = length as \<and>
      l_tail l' = loc_at as' (length as) \<and> same_rest l l' \<and>
      contents l' as' = foldl (s_insert f) (take k (contents l as)) (drop k (contents l as))"
  using assms
proof (induction "length as - k" arbitrary: l as k)
  case 0
  then have "k = length as" by simp
  with 0 show ?case
    by (subst sort_loop.simps)
       (auto simp: ptr_def same_rest_refl length_contents contents_def intro!: exI[of _ as])
next
  case (Suc n)
  let ?xs = "contents l as"
  let ?x = "?xs ! k"
  have k: "k < length as" "k < length ?xs" and n: "n = length as - Suc k"
    using Suc.hyps(2) by (simp_all add: length_contents)
  have d: "deref l (loc_at as k) = Some (as ! k)" and sk: "NextOf (as ! k) = loc_at as (Suc k)"
    using Suc.prems(1) k by (simp add: ptr_def, simp add: loc_at_def)
  have cmp: "cmp_at f l (loc_at as k) (loc_at as (k - 1)) = Some (f ?x (?xs ! (k - 1)))"
    using cmp_at_path[OF Suc.prems(1), of k "k - 1" f] k by simp
  have dk: "drop k ?xs = ?x # drop (Suc k) ?xs"
    using k by (simp add: drop_contents)
  show ?case
  proof (cases "f ?x (?xs ! (k - 1)) < 0")
    case False
    then have "s_insert f (take k ?xs) ?x = take (Suc k) ?xs"
      using k Suc.prems(3) by (simp add: s_insert_def last_take take_Suc_conv_app_nth)
    moreover have "sort_loop f l (loc_at as k) (loc_at as (k - 1)) =
        sort_loop f l (loc_at as (Suc k)) (loc_at as (Suc k - 1))"
      using False d cmp sk by (subst sort_loop.simps) simp
    ultimately show ?thesis
      using Suc.hyps(1)[OF n Suc.prems(1,2)] k dk by simp
  next
    case True
    define j where "j = length (takeWhile (\<lambda>y. 0 \<le> f ?x y) (take k ?xs))"
    note mv = s_insert_move[of k ?xs f, OF Suc.prems(3) k(2) True, folded j_def]
    let ?as = "move_to k j as"
    let ?l = "sort_splice l (loc_at as k) (loc_at as j)"
    note sp = sort_splice_path[OF Suc.prems(1,2) mv(1) k(1)]
    note mt = move_to_props[OF Suc.prems(2) k(1), of j]
    have pos: "sort_pos f l (loc_at as k) Head = Some (loc_at as j)"
      using sort_pos[OF Suc.prems(1) k(1), of f 0] mv(1) by (simp add: j_def loc_at_def)
    have inj: "loc_at as (k - 1) = loc_at as j \<longleftrightarrow> j = k - 1"
      using Suc.prems(2) k mv(1) by (auto simp: loc_at_inj)
    have "advance ?l (loc_at as (k - 1)) = loc_at ?as k" if "j = k - 1"
      using that sp(1) mv(1) k path_deref[of ?l ?as j] mt(3)
      by (simp add: advance_def loc_at_move ptr_move)
    then have step: "sort_loop f l (loc_at as k) (loc_at as (k - 1)) =
        sort_loop f ?l (loc_at ?as (Suc k)) (loc_at ?as (Suc k - 1))"
      using d cmp True pos inj mv(1) k
      by (subst sort_loop.simps) (auto simp: Let_def loc_at_move)
    have c: "contents ?l ?as = move_to k j ?xs"
      using contents_move[OF k(1), of j ?l l] mv(1) sp(2) by (simp add: same_rest_def)
    have "n = length ?as - Suc k" "distinct ?as" "Suc k \<le> length ?as" "length ?as = length as"
      using n mt mv(1) k by auto
    with Suc.hyps(1)[of ?as "Suc k" ?l] sp(1) obtain l' as' where
      "sort_loop f ?l (loc_at ?as (Suc k)) (loc_at ?as (Suc k - 1)) = Some l'"
      "path l' as'" "distinct as'" "set as' = set as" "length as' = length as"
      "l_tail l' = loc_at as' (length as)" "same_rest ?l l'"
      "contents l' as' = foldl (s_insert f) (s_insert f (take k ?xs) ?x) (drop (Suc k) ?xs)"
      using mt(2) mv k by (auto simp: c move_to_take(2))
    then show ?thesis
      using step dk same_rest_trans[OF sp(2)] by (intro exI[of _ l'] exI[of _ as']) simp
  qed
qed

lemma list_sort_data:
  assumes "list_ok l"
  shows "\<exists>l'. list_sort l f = Some l' \<and> list_ok l' \<and> list_data l' = isort f (list_data l) \<and>
      l_fDel l' = l_fDel l \<and> l_deleted l' = l_deleted l \<and> l_ifree l' = l_ifree l"
proof (cases "l_count l > 1")
  case False
  then have "length (list_data l) \<le> 1"
    using list_count_data[OF assms] by (simp add: list_count_def)
  then have "isort f (list_data l) = list_data l"
    by (cases "list_data l") auto
  with False assms show ?thesis
    by (simp add: list_sort_def)
next
  case True
  have inv: "list_inv l (addrs l)"
    using assms by (simp add: list_ok_def)
  then have p: "path l (addrs l)" "distinct (addrs l)" and len: "1 < length (addrs l)"
    using True by (auto simp: list_inv_def)
  have adv: "advance l Head = loc_at (addrs l) 1"
    using advance_path[OF p(1), of 0] len by (cases "addrs l") (simp_all add: loc_at_def)
  from sort_loop[OF p, of 1 f] len obtain l' as' where r:
    "sort_loop f l (loc_at (addrs l) 1) (loc_at (addrs l) 0) = Some l'"
    "path l' as'" "distinct as'" "set as' = set (addrs l)" "length as' = length (addrs l)"
    "l_tail l' = loc_at as' (length (addrs l))" "same_rest l l'"
    "contents l' as' = foldl (s_insert f) (take 1 (list_data l)) (drop 1 (list_data l))"
    by (auto simp: list_dataI[OF inv])
  let ?l = "l'\<lparr>l_its := map (\<lambda>(a, i). (a, it_reset l' i)) (l_its l')\<rparr>"
  have "cursor_ok as' (it_reset l' it) 0 0" for it
    using r(2) path_deref[OF r(2), of 0] by (simp add: cursor_ok_def it_reset_def loc_at_def)
  then have "list_inv ?l as'"
    using r inv unfolding list_inv_def same_rest_def by (auto simp del: fst_image_on_snd) (simp add: image_image split_beta)+
  moreover have "contents ?l as' = isort f (list_data l)"
    using r(8) len data_length[of l]
    by (cases "list_data l") (simp_all add: contents_def)
  moreover have "list_sort l f = Some ?l"
    using True r(1) adv by (simp add: list_sort_def loc_at_def)
  ultimately show ?thesis
    using r(7) by (intro exI[of _ ?l]) (simp add: list_okI list_dataI same_rest_def)
qed

section \<open>Correctness of the sort\<close>

lemma mset_s_insert: "mset (s_insert f S x) = add_mset x (mset S)"
proof -
  have "mset S = mset (takeWhile P S @ dropWhile P S)" for P
    by simp
  then have "mset S = mset (takeWhile P S) + mset (dropWhile P S)" for P
    by (metis mset_append)
  then show ?thesis by (simp add: s_insert_def)
qed

lemma mset_isort: "mset (isort f xs) = mset xs"
proof -
  have "mset (foldl (s_insert f) S ys) = mset S + mset ys" for S ys
    by (induction ys arbitrary: S) (simp_all add: mset_s_insert)
  then show ?thesis by (cases xs) simp_all
qed

lemma s_insert_ne [simp]: "s_insert f S x \<noteq> []"
  by (simp add: s_insert_def)

text \<open>
  What a C comparison function has to promise for sorting to be meaningful: a total
  preorder, reported by the sign of the result.
\<close>

locale comparison =
  fixes cmp :: "'a \<Rightarrow> 'a \<Rightarrow> int"
  assumes anti: "cmp x y < 0 \<longleftrightarrow> 0 < cmp y x"
    and trans: "cmp x y \<le> 0 \<Longrightarrow> cmp y z \<le> 0 \<Longrightarrow> cmp x z \<le> 0"
begin

definition in_order :: "'a list \<Rightarrow> bool" where
  "in_order xs = sorted_wrt (\<lambda>x y. cmp x y \<le> 0) xs"

lemma swap: "0 \<le> cmp x y \<longleftrightarrow> cmp y x \<le> 0"
  using anti[of x y] by linarith

lemma eq_sym: "cmp x y = 0 \<longleftrightarrow> cmp y x = 0"
  using anti[of x y] anti[of y x] by linarith

lemma less_trans: "cmp x y < 0 \<Longrightarrow> cmp y z \<le> 0 \<Longrightarrow> cmp x z < 0"
  using trans[of y z x] anti[of x z] anti[of x y] swap[of x z] by linarith

lemma eq_less: "cmp w x = 0 \<Longrightarrow> cmp x z < 0 \<Longrightarrow> cmp w z \<noteq> 0"
  using less_trans[of x z w] eq_sym[of w x] eq_sym[of w z] by auto

lemma after_insert:
  assumes "in_order S" "z \<in> set (dropWhile (\<lambda>y. 0 \<le> cmp x y) S)"
  shows "cmp x z < 0"
proof -
  from assms(2) obtain y ys where d: "dropWhile (\<lambda>y. 0 \<le> cmp x y) S = y # ys"
    by (cases "dropWhile (\<lambda>y. 0 \<le> cmp x y) S") auto
  have "sorted_wrt (\<lambda>x y. cmp x y \<le> 0) (y # ys)"
    using assms(1) d unfolding in_order_def
    by (metis sorted_wrt_append takeWhile_dropWhile_id)
  moreover have "cmp x y < 0"
    using dropWhile_Cons_hd[OF d] by simp
  ultimately show ?thesis
    using assms(2) d less_trans by auto
qed

lemma in_order_insert:
  assumes "in_order S" "S \<noteq> []"
  shows "in_order (s_insert cmp S x)"
proof -
  let ?P = "\<lambda>y. 0 \<le> cmp x y"
  have split: "in_order (takeWhile ?P S @ dropWhile ?P S)"
    using assms(1) by simp
  show ?thesis
  proof (cases "cmp x (last S) < 0")
    case True
    have "\<forall>y\<in>set (takeWhile ?P S). cmp y x \<le> 0"
      by (auto simp: swap dest: set_takeWhileD)
    moreover have "\<forall>z\<in>set (dropWhile ?P S). cmp x z \<le> 0"
      using after_insert[OF assms(1)] by force
    ultimately show ?thesis
      using split True trans[of _ x] unfolding s_insert_def in_order_def
      by (simp add: sorted_wrt_append del: takeWhile_dropWhile_id)
  next
    case False
    then have l: "cmp (last S) x \<le> 0"
      by (simp add: not_less swap)
    have "S = butlast S @ [last S]"
      using assms(2) by simp
    then have "\<forall>y\<in>set (butlast S). cmp y (last S) \<le> 0"
      using assms(1) by (metis in_order_def list.set_intros(1) sorted_wrt_append)
    then have "\<forall>y\<in>set S. cmp y x \<le> 0"
      using l trans assms(2) by (metis append_butlast_last_id in_set_conv_decomp_last rotate1.simps(2)
          set_ConsD set_rotate1)
    with False assms(1) show ?thesis
      by (simp add: s_insert_def in_order_def sorted_wrt_append)
  qed
qed

lemma stable_insert:
  assumes "in_order S"
  shows "filter (\<lambda>y. cmp w y = 0) (s_insert cmp S x) = filter (\<lambda>y. cmp w y = 0) (S @ [x])"
proof -
  let ?P = "\<lambda>y. 0 \<le> cmp x y" and ?E = "\<lambda>y. cmp w y = 0"
  have "filter ?E S = filter ?E (takeWhile ?P S @ dropWhile ?P S)"
    by simp
  then have *: "filter ?E S = filter ?E (takeWhile ?P S) @ filter ?E (dropWhile ?P S)"
    by (metis filter_append)
  show ?thesis
  proof (cases "?E x")
    case True
    then have "filter ?E (dropWhile ?P S) = []"
      using eq_less after_insert[OF assms] by (auto simp: filter_empty_conv)
    with * show ?thesis by (simp add: s_insert_def)
  next
    case False
    with * show ?thesis by (simp add: s_insert_def)
  qed
qed

lemma fold_insert:
  "in_order S \<Longrightarrow> S \<noteq> [] \<Longrightarrow> in_order (foldl (s_insert cmp) S xs) \<and>
    filter (\<lambda>y. cmp w y = 0) (foldl (s_insert cmp) S xs) = filter (\<lambda>y. cmp w y = 0) (S @ xs)"
  by (induction xs arbitrary: S) (simp_all add: in_order_insert stable_insert)

lemma isort_in_order: "in_order (isort cmp xs)"
  using fold_insert[of "[hd xs]" "tl xs" undefined] by (cases xs) (simp_all add: in_order_def)

lemma isort_stable: "filter (\<lambda>y. cmp w y = 0) (isort cmp xs) = filter (\<lambda>y. cmp w y = 0) xs"
  using fold_insert[of "[hd xs]" "tl xs" w] by (cases xs) (simp_all add: in_order_def)

lemma list_sort_sorts:
  assumes "list_ok l"
  shows "\<exists>l'. list_sort l cmp = Some l' \<and> list_ok l' \<and> mset (list_data l') = mset (list_data l) \<and>
    in_order (list_data l') \<and>
    (\<forall>w. filter (\<lambda>y. cmp w y = 0) (list_data l') = filter (\<lambda>y. cmp w y = 0) (list_data l))"
  using list_sort_data[OF assms, of cmp] isort_in_order isort_stable mset_isort[of cmp] by auto

end

end
