(* ===== verification/ListSystem.thy ===== *)
theory ListSystem
  imports CListSort
begin

text \<open>
  The list module as a client sees it.  A step relation of every call a program may make
  and the states it reaches from \<open>list_create\<close>; the interface the rest of the plugins
  rely on, as two locales (a sequence with a tail and a head, and its extension by
  iterators) with the loops clients write over it; their interpretation on the pointer model.
\<close>

section \<open>Reachable lists\<close>

inductive list_step :: "'a clist \<Rightarrow> 'a clist \<Rightarrow> bool" where
  s_append: "list_append l x = (r, l') \<Longrightarrow> list_step l l'"
| s_prepend: "list_prepend l x = (r, l') \<Longrightarrow> list_step l l'"
| s_push: "list_push l x = (r, l') \<Longrightarrow> list_step l l'"
| s_enqueue: "list_enqueue l x = (r, l') \<Longrightarrow> list_step l l'"
| s_pop: "list_pop l = (r, l') \<Longrightarrow> list_step l l'"
| s_dequeue: "list_dequeue l = (r, l') \<Longrightarrow> list_step l l'"
| s_delete_all: "list_delete_all l f (key :: 'a) = Some (n, l') \<Longrightarrow> list_step l l'"
| s_sort: "list_sort l cmp = Some l' \<Longrightarrow> list_step l l'"
| s_it_create: "list_iterator_create l = (r, l') \<Longrightarrow> list_step l l'"
| s_it_reset: "it_get l i \<noteq> None \<Longrightarrow> list_iterator_reset l i = l' \<Longrightarrow> list_step l l'"
| s_it_destroy: "it_get l i \<noteq> None \<Longrightarrow> list_iterator_destroy l i = l' \<Longrightarrow> list_step l l'"
| s_next: "it_get l i \<noteq> None \<Longrightarrow> list_next l i = (r, l') \<Longrightarrow> list_step l l'"
| s_insert: "it_get l i \<noteq> None \<Longrightarrow> list_insert l i x = (r, l') \<Longrightarrow> list_step l l'"
| s_find: "it_get l i \<noteq> None \<Longrightarrow> list_find f (key :: 'a) l i = Some (r, l') \<Longrightarrow> list_step l l'"
| s_remove: "it_get l i \<noteq> None \<Longrightarrow> list_remove l i = (r, l') \<Longrightarrow> list_step l l'"
| s_delete: "it_get l i \<noteq> None \<Longrightarrow> list_delete l i = (n, l') \<Longrightarrow> list_step l l'"

inductive list_reach :: "'a clist \<Rightarrow> bool" where
  r_create: "fl_ok {} nf \<Longrightarrow> fl_ok {} itf \<Longrightarrow> list_create d lf nf itf = (Some l, lf') \<Longrightarrow>
    list_reach l"
| r_step: "list_reach l \<Longrightarrow> list_step l l' \<Longrightarrow> list_reach l'"

lemma same_op [list_heap]:
  "list_prepend = list_push" "list_enqueue = list_append" "list_dequeue = list_pop"
  by (simp_all add: fun_eq_iff list_prepend_def list_push_def list_enqueue_def list_append_def
      list_dequeue_def list_pop_def)

lemma list_pop_ok:
  assumes "list_ok l" "list_pop l = (r, l')"
  shows "list_ok l'" "r = (case list_data l of [] \<Rightarrow> None | x # _ \<Rightarrow> Some x)"
    "list_data l' = tl (list_data l)"
  using list_pop_data[OF assms(1)] assms by (cases "list_data l"; auto)+

lemma list_insert_ok:
  assumes "list_ok l" "it_get l i \<noteq> None" "list_insert l i x = (r, l')"
  shows "list_ok l'" "r = None \<Longrightarrow> l' = l"
proof -
  from assms(2) obtain it where it: "it_get l i = Some it" by auto
  let ?j = "it_index (addrs l) it"
  have c: "cursor_ok (addrs l) it ?j (it_mark (addrs l) it)"
    using it_cursor[OF assms(1) it] .
  then have "?j \<le> length (addrs l)" "list_node_create l (loc_at (addrs l) ?j) x = (r, l')"
    using assms(3) it by (auto simp: cursor_ok_def list_insert_def)
  from create_at_data[OF assms(1) this] show "list_ok l'" "r = None \<Longrightarrow> l' = l"
    by auto
qed

lemma list_remove_ok:
  assumes "list_ok l" "it_get l i \<noteq> None" "list_remove l i = (r, l')"
  shows "list_ok l'"
proof -
  obtain before cur rest where "it_view l i = (before, cur, rest)" by (cases "it_view l i")
  from list_remove_view[OF assms(1,2) this] assms(3) show ?thesis by auto
qed

lemma list_ok_deleted: "list_ok (l\<lparr>l_deleted := d\<rparr>) = list_ok l"
  by (simp add: list_ok_def list_inv_deleted addrs_def)

lemma list_delete_ok:
  assumes "list_ok l" "it_get l i \<noteq> None" "list_delete l i = (n, l')"
  shows "list_ok l'"
  using assms list_remove_ok[OF assms(1,2)]
  by (auto simp: list_delete_def list_ok_deleted split: prod.splits option.splits if_splits)

lemma list_iterator_create_ok:
  assumes "list_ok l" "list_iterator_create l = (r, l')"
  shows "list_ok l'"
proof (cases r)
  case None
  with assms(2) have "l' = l\<lparr>l_ifree := l_ifree l\<rparr>"
    by (auto simp: list_iterator_create_def dest: alloc_fail split: prod.splits option.splits)
  with assms(1) show ?thesis by simp
next
  case (Some i)
  with list_iterator_create_view(1)[OF assms(1)] assms(2) show ?thesis by auto
qed

lemma list_next_ok:
  assumes "list_ok l" "it_get l i \<noteq> None" "list_next l i = (r, l')"
  shows "list_ok l'"
proof -
  obtain before cur rest where "it_view l i = (before, cur, rest)" by (cases "it_view l i")
  from list_next_view[OF assms(1,2) this] assms(3) show ?thesis by auto
qed

lemma list_find_ok:
  assumes "list_ok l" "it_get l i \<noteq> None" "list_find f key l i = Some (r, l')"
  shows "list_ok l'"
proof -
  obtain before cur rest where "it_view l i = (before, cur, rest)" by (cases "it_view l i")
  from list_find_view[OF assms(1,2) this, of f key] assms(3) show ?thesis by auto
qed

lemma list_step_ok: "list_step l l' \<Longrightarrow> list_ok l \<Longrightarrow> list_ok l'"
proof (induction rule: list_step.induct)
  case (s_delete_all l f key n l')
  then show ?case using list_delete_all_data[OF s_delete_all(2), of f key] by auto
next
  case (s_sort l cmp l')
  then show ?case using list_sort_data[OF s_sort(2), of cmp] by auto
next
  case s_it_reset then show ?case using list_iterator_reset_view(1) by blast
next
  case s_it_destroy then show ?case using list_iterator_destroy_ok(1) by blast
next
  case s_append then show ?case by (rule list_append_data(1)[rotated])
next
  case s_enqueue then show ?case unfolding same_op by (rule list_append_data(1)[rotated])
next
  case s_prepend then show ?case unfolding same_op by (rule list_push_data(1)[rotated])
next
  case s_push then show ?case by (rule list_push_data(1)[rotated])
next
  case s_pop then show ?case by (rule list_pop_ok(1)[rotated])
next
  case s_dequeue then show ?case unfolding same_op by (rule list_pop_ok(1)[rotated])
next
  case s_it_create then show ?case by (rule list_iterator_create_ok[rotated])
next
  case s_next then show ?case using list_next_ok by blast
next
  case s_insert then show ?case by (rule list_insert_ok(1)[rotated])
next
  case s_find then show ?case by (rule list_find_ok[rotated])
next
  case s_remove then show ?case using list_remove_ok by blast
next
  case s_delete then show ?case using list_delete_ok by blast
qed

lemma list_create_ok:
  "fl_ok {} nf \<Longrightarrow> fl_ok {} itf \<Longrightarrow> list_create d lf nf itf = (Some l, lf') \<Longrightarrow>
   list_ok l \<and> list_data l = []"
  by (auto simp: list_create_def split: prod.splits option.splits)

section \<open>The interface\<close>

text \<open>\<open>while ((x = list_next (i))) s = f (x, s)\<close>, and \<open>while ((x = list_pop (l)))\<close>.\<close>

partial_function (option) while_next ::
    "('l \<Rightarrow> 'i \<Rightarrow> 'a option \<times> 'l) \<Rightarrow> ('a \<Rightarrow> 's \<Rightarrow> 's) \<Rightarrow> 'l \<Rightarrow> 'i \<Rightarrow> 's \<Rightarrow> ('s \<times> 'l) option" where
  "while_next nxt f l i s =
    (case nxt l i of
       (None, l1) \<Rightarrow> Some (s, l1)
     | (Some x, l1) \<Rightarrow> while_next nxt f l1 i (f x s))"

partial_function (option) while_pop ::
    "('l \<Rightarrow> 'a option \<times> 'l) \<Rightarrow> ('a \<Rightarrow> 's \<Rightarrow> 's) \<Rightarrow> 'l \<Rightarrow> 's \<Rightarrow> ('s \<times> 'l) option" where
  "while_pop pop f l s =
    (case pop l of
       (None, l1) \<Rightarrow> Some (s, l1)
     | (Some x, l1) \<Rightarrow> while_pop pop f l1 (f x s))"

declare while_next.simps [code] while_pop.simps [code]

text \<open>
  A loop of appends over the items \<open>xs\<close> that stops at the first one that fails, with what
  is left to append.
\<close>

fun append_loop :: "('l \<Rightarrow> 'a \<Rightarrow> 'a option \<times> 'l) \<Rightarrow> 'l \<Rightarrow> 'a list \<Rightarrow> 'a list \<times> 'l" where
  "append_loop app l [] = ([], l)"
| "append_loop app l (x # xs) =
    (case app l x of
       (None, l1) \<Rightarrow> (x # xs, l1)
     | (Some y, l1) \<Rightarrow> append_loop app l1 xs)"

locale sequence =
  fixes ok :: "'l \<Rightarrow> bool" and view :: "'l \<Rightarrow> 'a list"
    and app :: "'l \<Rightarrow> 'a \<Rightarrow> 'a option \<times> 'l" and push :: "'l \<Rightarrow> 'a \<Rightarrow> 'a option \<times> 'l"
    and pop :: "'l \<Rightarrow> 'a option \<times> 'l" and count :: "'l \<Rightarrow> int"
  assumes app_ok: "ok l \<Longrightarrow> app l x = (r, l') \<Longrightarrow> ok l'"
    and app_fail: "ok l \<Longrightarrow> app l x = (None, l') \<Longrightarrow> view l' = view l"
    and app_view: "ok l \<Longrightarrow> app l x = (Some y, l') \<Longrightarrow> y = x \<and> view l' = view l @ [x]"
    and push_ok: "ok l \<Longrightarrow> push l x = (r, l') \<Longrightarrow> ok l'"
    and push_view: "ok l \<Longrightarrow> push l x = (Some y, l') \<Longrightarrow> y = x \<and> view l' = x # view l"
    and pop_ok: "ok l \<Longrightarrow> pop l = (r, l') \<Longrightarrow> ok l'"
    and pop_view: "ok l \<Longrightarrow> pop l = (r, l') \<Longrightarrow>
      r = (case view l of [] \<Rightarrow> None | x # _ \<Rightarrow> Some x) \<and> view l' = tl (view l)"
    and count_view: "ok l \<Longrightarrow> count l = int (length (view l))"
begin

lemma append_loop_view:
  "ok l \<Longrightarrow> append_loop app l xs = (ys, l') \<Longrightarrow>
   ok l' \<and> (\<exists>zs. xs = zs @ ys \<and> view l' = view l @ zs)"
proof (induction xs arbitrary: l)
  case (Cons x xs)
  obtain r l1 where a: "app l x = (r, l1)" by (cases "app l x") auto
  note ok1 = app_ok[OF Cons.prems(1) a]
  show ?case
  proof (cases r)
    case None
    with Cons.prems a ok1 app_fail[OF Cons.prems(1)] show ?thesis by auto
  next
    case (Some y)
    with Cons.prems a have "append_loop app l1 xs = (ys, l')" by simp
    from Cons.IH[OF ok1 this] show ?thesis
      using app_view[OF Cons.prems(1), of x y l1] a Some by auto
  qed
qed simp

lemma while_pop_fold:
  "ok l \<Longrightarrow> \<exists>l'. while_pop pop f l s = Some (fold f (view l) s, l') \<and> ok l' \<and> view l' = []"
proof (induction "view l" arbitrary: l s)
  case Nil
  obtain r l1 where "pop l = (r, l1)" by (cases "pop l") auto
  with Nil pop_view[OF Nil(2)] pop_ok[OF Nil(2)] show ?case
    by (subst while_pop.simps) (auto simp: Nil(1)[symmetric])
next
  case (Cons x xs)
  obtain r l1 where p: "pop l = (r, l1)" by (cases "pop l") auto
  have v: "view l = x # xs" using Cons(2) by simp
  with p pop_view[OF Cons(3) p] have r: "r = Some x" "xs = view l1" by auto
  have "while_pop pop f l s = while_pop pop f l1 (f x s)"
    using p r by (subst while_pop.simps) simp
  with Cons(1)[OF r(2) pop_ok[OF Cons(3) p], of "f x s"] v r(2) show ?case by simp
qed

lemma fifo:
  assumes "ok l" "view l = []" "app l x = (Some x', l1)" "app l1 y = (Some y', l2)"
    "pop l2 = (r, l3)"
  shows "r = Some x \<and> view l3 = [y]"
  using app_view[OF assms(1,3)] app_view[OF app_ok[OF assms(1,3)] assms(4)]
    pop_view[OF app_ok[OF app_ok[OF assms(1,3)] assms(4)] assms(5)] assms(2) by simp

end

locale iterable = sequence +
  fixes live_it :: "'a \<Rightarrow> 'i \<Rightarrow> bool" and cursor :: "'a \<Rightarrow> 'i \<Rightarrow> 'b list \<times> 'b list \<times> 'b list"
    and it_new :: "'a \<Rightarrow> 'i option \<times> 'a" and nxt :: "'a \<Rightarrow> 'i \<Rightarrow> 'b option \<times> 'a"
    and it_free :: "'a \<Rightarrow> 'i \<Rightarrow> 'a"
  assumes new_cursor: "ok l \<Longrightarrow> it_new l = (Some i, l') \<Longrightarrow>
      ok l' \<and> view l' = view l \<and> live_it l' i \<and> cursor l' i = ([], [], view l)"
    and nxt_cursor: "ok l \<Longrightarrow> live_it l i \<Longrightarrow> cursor l i = (before, cur, rest) \<Longrightarrow>
      \<exists>l'. nxt l i = (case rest of [] \<Rightarrow> None | x # _ \<Rightarrow> Some x, l') \<and> ok l' \<and>
        view l' = view l \<and> live_it l' i \<and> cursor l' i = (before @ cur, take 1 rest, drop 1 rest)"
    and free_cursor: "ok l \<Longrightarrow> live_it l i \<Longrightarrow> ok (it_free l i) \<and> view (it_free l i) = view l"
begin

lemma while_next_fold:
  "ok l \<Longrightarrow> live_it l i \<Longrightarrow> cursor l i = (before, cur, rest) \<Longrightarrow>
   \<exists>l'. while_next nxt f l i s = Some (fold f rest s, l') \<and> ok l' \<and> view l' = view l \<and> live_it l' i"
proof (induction rest arbitrary: l before cur s)
  case Nil
  from nxt_cursor[OF Nil] show ?case by (subst while_next.simps) auto
next
  case (Cons x xs)
  from nxt_cursor[OF Cons.prems] obtain l1 where l1:
    "nxt l i = (Some x, l1)" "ok l1" "view l1 = view l" "live_it l1 i" "cursor l1 i = (before @ cur, [x], xs)"
    by auto
  have "while_next nxt f l i s = while_next nxt f l1 i (f x s)"
    using l1(1) by (subst while_next.simps) simp
  with Cons.IH[OF l1(2,4,5), of "f x s"] l1(3) show ?case by simp
qed

lemma iterate_all:
  assumes "ok l" "it_new l = (Some i, l1)"
  shows "\<exists>l2. while_next nxt f l1 i s = Some (fold f (view l) s, l2) \<and> ok l2 \<and> view l2 = view l \<and>
    ok (it_free l2 i) \<and> view (it_free l2 i) = view l"
  using new_cursor[OF assms] while_next_fold[of l1 i "[]" "[]" "view l" f s] free_cursor by auto

end

interpretation cl: sequence list_ok list_data list_append list_push list_pop list_count
proof
  fix l l' :: "'a clist" and x y :: 'a and r :: "'a option"
  assume ok: "list_ok l"
  show "list_append l x = (r, l') \<Longrightarrow> list_ok l'" by (rule list_append_data(1)[OF ok])
  show "list_append l x = (None, l') \<Longrightarrow> list_data l' = list_data l"
    using list_append_data(2)[OF ok] by blast
  show "list_append l x = (Some y, l') \<Longrightarrow> y = x \<and> list_data l' = list_data l @ [x]"
    using list_append_data(3)[OF ok] by blast
  show "list_push l x = (r, l') \<Longrightarrow> list_ok l'" by (rule list_push_data(1)[OF ok])
  show "list_push l x = (Some y, l') \<Longrightarrow> y = x \<and> list_data l' = x # list_data l"
    using list_push_data(3)[OF ok] by blast
  show "list_pop l = (r, l') \<Longrightarrow> list_ok l'" by (rule list_pop_ok(1)[OF ok])
  show "list_pop l = (r, l') \<Longrightarrow> r = (case list_data l of [] \<Rightarrow> None | x # _ \<Rightarrow> Some x) \<and>
      list_data l' = tl (list_data l)"
    using list_pop_ok(2,3)[OF ok] by blast
  show "list_count l = int (length (list_data l))" by (rule list_count_data[OF ok])
qed

interpretation cli: iterable list_ok list_data list_append list_push list_pop list_count
  "\<lambda>l i. it_get l i \<noteq> None" it_view list_iterator_create list_next list_iterator_destroy
proof
  fix l l' :: "'a clist" and i and before cur rest :: "'a list"
  assume ok: "list_ok l"
  show "list_iterator_create l = (Some i, l') \<Longrightarrow> list_ok l' \<and> list_data l' = list_data l \<and>
      it_get l' i \<noteq> None \<and> it_view l' i = ([], [], list_data l)"
    using list_iterator_create_view[OF ok] by blast
  show "it_get l i \<noteq> None \<Longrightarrow> it_view l i = (before, cur, rest) \<Longrightarrow>
      \<exists>l'. list_next l i = (case rest of [] \<Rightarrow> None | x # _ \<Rightarrow> Some x, l') \<and> list_ok l' \<and>
        list_data l' = list_data l \<and> it_get l' i \<noteq> None \<and>
        it_view l' i = (before @ cur, take 1 rest, drop 1 rest)"
    using list_next_view[OF ok] by blast
  show "it_get l i \<noteq> None \<Longrightarrow> list_ok (list_iterator_destroy l i) \<and>
      list_data (list_iterator_destroy l i) = list_data l"
    using list_iterator_destroy_ok[OF ok] by blast
qed

end
