(* ===== verification/ListProps.thy ===== *)
theory ListProps
  imports ListSystem
begin

text \<open>
  The properties of \<open>lib/list.c\<close>, stated on the pointer model through the abstract
  sequence \<open>list_data\<close>, and a small list built by the operations themselves on which each
  of them is instantiated.
\<close>

section \<open>A concrete list\<close>

definition small_heap :: freelist where
  "small_heap = \<lparr>fl_free = [], fl_brk = 16, fl_chunks = 2\<rparr>"

definition abc :: "int clist" where
  "abc = snd (list_append (snd (list_append (snd (list_append
      (list_fresh True small_heap small_heap) 3)) 1)) 2)"

text \<open>The same list with an iterator (its address is 16) that has returned the first item.\<close>

definition abc_it :: "int clist" where
  "abc_it = snd (list_next (snd (list_iterator_create abc)) 16)"

lemma fl_ok_small: "fl_ok {} small_heap"
  by (simp add: fl_ok_def small_heap_def)

lemma abc_reach: "list_reach abc"
proof -
  have c: "list_reach (list_fresh True small_heap small_heap)"
    by (rule r_create[OF fl_ok_small fl_ok_small, of _ small_heap _ "snd (list_alloc_aux small_heap)"])
       (simp add: list_create_def list_alloc_aux_def small_heap_def LIST_ALLOC_def upt_conv_Cons)
  have a: "list_reach l \<Longrightarrow> list_reach (snd (list_append l x))" for l :: "int clist" and x
    by (cases "list_append l x") (auto intro: r_step s_append)
  from a[OF a[OF a[OF c]]] show ?thesis by (simp add: abc_def)
qed

lemma list_reach_is_ok: "list_reach l \<Longrightarrow> list_ok l"
  by (induction rule: list_reach.induct) (auto intro: list_step_ok dest: list_create_ok)

lemma abc_ok: "list_ok abc" "list_data abc = [3, 1, 2]"
  by (rule list_reach_is_ok[OF abc_reach]) code_simp

lemma abc_it_eq: "it_get abc_it 16 \<noteq> None" "it_view abc_it 16 = ([], [3], [1, 2])"
  "list_data abc_it = [3, 1, 2]"
  by code_simp+

lemma abc_it_ok: "list_ok abc_it"
proof -
  obtain r l where a: "list_iterator_create abc = (r, l)" by (cases "list_iterator_create abc")
  obtain r2 l2 where b: "list_next l 16 = (r2, l2)" by (cases "list_next l 16")
  have "it_get (snd (list_iterator_create abc)) 16 \<noteq> None" by code_simp
  with a b show ?thesis
    using list_next_ok[OF list_iterator_create_ok[OF abc_ok(1) a] _ b] by (simp add: abc_it_def)
qed

section \<open>Properties\<close>

text \<open>
  C17: whatever calls a program makes on a list it created, the list stays well formed: the
  count is the number of nodes, the tail is the location of the terminating NULL, and every
  live iterator satisfies the assertion of \<open>list_node_create\<close> and \<open>list_node_destroy\<close>
  (\<open>i->pos == *i->prev || i->pos == (*i->prev)->next\<close>).
\<close>

theorem list_reach_asserts:
  assumes "list_reach l"
  shows "list_ok l \<and> list_count l = int (length (list_data l)) \<and>
    deref l (l_tail l) = None \<and>
    (\<forall>(a, i)\<in>set (l_its l). i_pos i = deref l (i_prev i) \<or>
       (\<exists>p. deref l (i_prev i) = Some p \<and> i_pos i = deref l (NextOf p)))"
proof -
  have ok: "list_ok l" by (rule list_reach_is_ok[OF assms])
  then have path: "path l (addrs l)" by (simp add: list_ok_def list_inv_def)
  have "i_pos i = deref l (i_prev i) \<or> (\<exists>p. deref l (i_prev i) = Some p \<and> i_pos i = deref l (NextOf p))"
    if "(a, i) \<in> set (l_its l)" for a i
  proof -
    from ok that obtain j r where "cursor_ok (addrs l) i j r"
      by (auto simp: list_ok_def list_inv_def)
    then have "i_prev i = loc_at (addrs l) j" "i_pos i = ptr (addrs l) (j + r)" "r = 0 \<or> r = 1"
      "j + r \<le> length (addrs l)" by (auto simp: cursor_ok_def)
    from this(3) this show ?thesis
      using path_deref[OF path, of j] path_next[OF path, of j]
      by (auto simp: ptr_def simp del: deref.simps)
  qed
  moreover have "deref l (l_tail l) = None"
    using path_deref[OF path, of "length (addrs l)"] tail_loc[OF ok] by (simp add: ptr_def)
  ultimately show ?thesis
    using ok list_count_data[OF ok] by blast
qed

theorem list_reach_asserts_witness:
  "list_count abc = 3 \<and> deref abc (l_tail abc) = None"
  using list_reach_asserts[OF abc_reach] by (simp add: abc_ok)

text \<open>
  as a queue and as a stack the list behaves like the sequence of its items:
  \<open>list_append\<close> and \<open>list_enqueue\<close> add at the end, \<open>list_prepend\<close> and \<open>list_push\<close> at
  the front, \<open>list_pop\<close> and \<open>list_dequeue\<close> remove the front, \<open>list_peek\<close> reads it, and an
  insertion that fails for lack of memory changes nothing.
\<close>

theorem list_sequence_ops:
  assumes "list_ok l"
  shows "(case list_append l x of (r, l1) \<Rightarrow> list_ok l1 \<and> list_enqueue l x = (r, l1) \<and>
      (r = None \<and> l1 = l \<or> r = Some x \<and> list_data l1 = list_data l @ [x])) \<and>
    (case list_push l x of (r, l1) \<Rightarrow> list_ok l1 \<and> list_prepend l x = (r, l1) \<and>
      (r = None \<and> l1 = l \<or> r = Some x \<and> list_data l1 = x # list_data l)) \<and>
    (case list_pop l of (q, l1) \<Rightarrow> list_ok l1 \<and> list_dequeue l = (q, l1) \<and> q = list_peek l \<and>
      list_data l = (case q of None \<Rightarrow> [] | Some y \<Rightarrow> y # list_data l1))"
proof (intro conjI)
  obtain r l1 where a: "list_append l x = (r, l1)" by (cases "list_append l x")
  show "case list_append l x of (r, l1) \<Rightarrow> list_ok l1 \<and> list_enqueue l x = (r, l1) \<and>
      (r = None \<and> l1 = l \<or> r = Some x \<and> list_data l1 = list_data l @ [x])"
    using list_append_data[OF assms a] a by (cases r) (simp_all add: same_op)
  obtain r l1 where p: "list_push l x = (r, l1)" by (cases "list_push l x")
  show "case list_push l x of (r, l1) \<Rightarrow> list_ok l1 \<and> list_prepend l x = (r, l1) \<and>
      (r = None \<and> l1 = l \<or> r = Some x \<and> list_data l1 = x # list_data l)"
    using list_push_data[OF assms p] p by (cases r) (simp_all add: same_op)
  obtain r l1 where q: "list_pop l = (r, l1)" by (cases "list_pop l")
  show "case list_pop l of (q, l1) \<Rightarrow> list_ok l1 \<and> list_dequeue l = (q, l1) \<and> q = list_peek l \<and>
      list_data l = (case q of None \<Rightarrow> [] | Some y \<Rightarrow> y # list_data l1)"
    using list_pop_ok[OF assms q] list_peek_data[OF assms] q
    by (simp add: same_op split: list.splits)
qed

theorem list_sequence_ops_witness:
  "list_data (snd (list_append abc 9)) = [3, 1, 2, 9] \<and> list_data (snd (list_push abc 9)) = [9, 3, 1, 2] \<and>
   list_data (snd (list_pop abc)) = [1, 2]"
proof -
  have "fst (list_append abc 9) = Some 9" "fst (list_push abc 9) = Some 9" "fst (list_pop abc) = Some 3"
    by code_simp+
  then show ?thesis
    using list_sequence_ops[OF abc_ok(1), of 9] by (simp add: abc_ok(2) split_beta)
qed

text \<open>
  C22: a loop over a fresh iterator that calls \<open>list_next\<close> until it returns NULL ends, sees
  every item once and in order, and leaves the list as it was.
\<close>

theorem list_iteration_complete:
  assumes "list_ok l" "list_iterator_create l = (Some i, l1)"
  shows "\<exists>l2. while_next list_next (\<lambda>x seen. seen @ [x]) l1 i [] = Some (list_data l, l2) \<and>
    list_ok (list_iterator_destroy l2 i) \<and> list_data (list_iterator_destroy l2 i) = list_data l"
proof -
  have "fold (\<lambda>x seen. seen @ [x]) xs ys = ys @ xs" for xs ys :: "'a list"
    by (induction xs arbitrary: ys) simp_all
  then show ?thesis
    using cli.iterate_all[OF assms, of "\<lambda>x seen. seen @ [x]" "[]"] by auto
qed

theorem list_iteration_complete_witness:
  "\<exists>l2. while_next list_next (\<lambda>x seen. seen @ [x]) (snd (list_iterator_create abc)) 16 [] =
     Some ([3, 1, 2], l2)"
proof -
  have "fst (list_iterator_create abc) = Some 16" by code_simp
  then have "list_iterator_create abc = (Some 16, snd (list_iterator_create abc))"
    by (metis prod.collapse)
  from list_iteration_complete[OF abc_ok(1) this] show ?thesis
    unfolding abc_ok(2) by blast
qed

text \<open>
  \<open>list_insert\<close> puts the new item immediately before the last one returned by
  \<open>list_next\<close>, and iteration continues as if nothing had happened; \<open>list_remove\<close> takes out
  exactly the last one returned, hands it back and keeps the rest of the iteration, and does
  nothing when that item is already gone.
\<close>

theorem list_edit_at_cursor:
  assumes "list_ok l" "it_get l i \<noteq> None" "it_view l i = (before, cur, rest)"
  shows "list_data l = before @ cur @ rest \<and>
    (case list_insert l i x of (r, l1) \<Rightarrow> r = None \<and> l1 = l \<or>
       r = Some x \<and> list_ok l1 \<and> list_data l1 = before @ x # cur @ rest \<and>
       it_view l1 i = (before @ [x], cur, rest)) \<and>
    (case list_remove l i of (r, l1) \<Rightarrow> list_ok l1 \<and> list_data l1 = before @ rest \<and>
       it_view l1 i = (before, [], rest) \<and> (case r of None \<Rightarrow> cur = [] | Some y \<Rightarrow> cur = [y]))"
proof (intro conjI)
  show "list_data l = before @ cur @ rest"
    by (rule view_parts(1)[OF assms])
  obtain r l1 where a: "list_insert l i x = (r, l1)" by (cases "list_insert l i x")
  show "case list_insert l i x of (r, l1) \<Rightarrow> r = None \<and> l1 = l \<or>
       r = Some x \<and> list_ok l1 \<and> list_data l1 = before @ x # cur @ rest \<and>
       it_view l1 i = (before @ [x], cur, rest)"
    using list_insert_ok[OF assms(1,2) a] list_insert_view[OF assms, of x _ l1] a
    by (cases r) simp_all
  show "case list_remove l i of (r, l1) \<Rightarrow> list_ok l1 \<and> list_data l1 = before @ rest \<and>
       it_view l1 i = (before, [], rest) \<and> (case r of None \<Rightarrow> cur = [] | Some y \<Rightarrow> cur = [y])"
    using list_remove_view[OF assms] view_parts(2)[OF assms] by (cases cur) auto
qed

theorem list_edit_at_cursor_witness:
  "list_data (snd (list_insert abc_it 16 7)) = [7, 3, 1, 2] \<and>
   list_data (snd (list_remove abc_it 16)) = [1, 2]"
proof -
  have "fst (list_insert abc_it 16 7) = Some 7" by code_simp
  then show ?thesis
    using list_edit_at_cursor[OF abc_it_ok abc_it_eq(1,2), of 7] by (simp add: split_beta)
qed

text \<open>
  C18: for a comparison function that is a total preorder, \<open>list_sort\<close> returns, and the list
  it leaves is well formed, a permutation of the old one, in ascending order, and stable:
  items that compare equal keep their order.
\<close>

theorem list_sort_correct:
  assumes "\<And>x y. cmp x y < 0 \<longleftrightarrow> 0 < cmp y x"
    and "\<And>x y z. cmp x y \<le> 0 \<Longrightarrow> cmp y z \<le> 0 \<Longrightarrow> cmp x z \<le> 0"
    and "list_ok l"
  shows "\<exists>l'. list_sort l cmp = Some l' \<and> list_ok l' \<and>
    mset (list_data l') = mset (list_data l) \<and>
    sorted_wrt (\<lambda>x y. cmp x y \<le> 0) (list_data l') \<and>
    (\<forall>w. filter (\<lambda>y. cmp w y = 0) (list_data l') = filter (\<lambda>y. cmp w y = 0) (list_data l))"
proof -
  have "comparison cmp"
    using assms(1,2) by (rule comparison.intro)
  from comparison.list_sort_sorts[OF this assms(3)] show ?thesis
    unfolding comparison.in_order_def[OF \<open>comparison cmp\<close>] .
qed

theorem list_sort_correct_witness:
  "\<exists>l'. list_sort abc (\<lambda>x y. x - y) = Some l' \<and> sorted_wrt (\<lambda>x y. x - y \<le> 0) (list_data l') \<and>
    mset (list_data l') = {#1, 2, 3#}"
proof -
  have "mset (list_data abc) = {#1, 2, 3#}"
    by (simp add: abc_ok(2))
  with list_sort_correct[of "\<lambda>x y. x - y", OF _ _ abc_ok(1)] show ?thesis
    by auto
qed

text \<open>
  \<open>list_find_first\<close> and \<open>list_find\<close> return, and give the first item of the list (of what
  the iterator has left) for which the predicate answers non-zero, or NULL; \<open>list_find\<close>
  leaves the iterator just behind the item it returned.
\<close>

theorem list_search:
  assumes "list_ok l" "it_get l i \<noteq> None" "it_view l i = (before, cur, rest)"
  shows "list_find_first l f key = Some (List.find (\<lambda>x. f x key \<noteq> 0) (list_data l)) \<and>
    (\<exists>l'. list_find f key l i = Some (List.find (\<lambda>x. f x key \<noteq> 0) rest, l') \<and>
       list_ok l' \<and> list_data l' = list_data l \<and>
       it_view l' i = (before @ cur @ takeWhile (\<lambda>x. f x key = 0) rest,
                       take 1 (dropWhile (\<lambda>x. f x key = 0) rest),
                       drop 1 (dropWhile (\<lambda>x. f x key = 0) rest)))"
  using list_find_first_data[OF assms(1), of f key] list_find_view[OF assms, of f key] by auto

theorem list_search_witness:
  "list_find_first abc_it (\<lambda>x k. if x < k then 1 else 0) 3 = Some (Some 1) \<and>
   (\<exists>l'. list_find (\<lambda>x k. if x > k then 1 else 0) 1 abc_it 16 = Some (Some 2, l') \<and>
      it_view l' 16 = ([3, 1], [2], []))"
  using list_search[OF abc_it_ok abc_it_eq(1,2), of "\<lambda>x k. if x < k then 1 else 0" 3]
    list_search[OF abc_it_ok abc_it_eq(1,2), of "\<lambda>x k. if x > k then 1 else 0" 1]
  by (auto simp: abc_it_eq(3))

text \<open>
  \<open>list_delete_all\<close> returns the number of matches, removes exactly the matches, keeps the
  others in order, and passes each removed item once to the deletion function, if there is one.
\<close>

theorem list_delete_all_filters:
  assumes "list_ok l"
  shows "\<exists>l'. list_delete_all l f key =
      Some (int (length (filter (\<lambda>x. f x key \<noteq> 0) (list_data l))), l') \<and> list_ok l' \<and>
    list_data l' = filter (\<lambda>x. f x key = 0) (list_data l) \<and>
    l_deleted l' = l_deleted l @ (if l_fDel l then filter (\<lambda>x. f x key \<noteq> 0) (list_data l) else [])"
  by (rule list_delete_all_data[OF assms])

theorem list_delete_all_filters_witness:
  "\<exists>l'. list_delete_all abc (\<lambda>x k. if x < k then 1 else 0) 3 = Some (2, l') \<and> list_data l' = [3] \<and>
     l_deleted l' = [1, 2]"
proof -
  have "l_deleted abc = []" "l_fDel abc" by code_simp+
  with list_delete_all_filters[OF abc_ok(1), of "\<lambda>x k. if x < k then 1 else 0" 3] show ?thesis
    by (auto simp: abc_ok(2))
qed

text \<open>
  C23: \<open>list_for_each\<close> returns: it applies the callback to the items in order, stops at the
  first negative answer and then returns minus the number of calls made; otherwise it returns
  the number of items.
\<close>

theorem list_for_each_calls:
  assumes "list_ok l"
  shows "list_for_each l (\<lambda>x seen. (f x, seen @ [x])) [] =
    (let done = takeWhile (\<lambda>x. 0 \<le> f x) (list_data l)
     in Some (if done = list_data l then (int (length done), done)
              else (- int (length done) - 1, take (length done + 1) (list_data l))))"
proof -
  have "for_each_list (\<lambda>x seen. (f x, seen @ [x])) xs n s =
    (let done = takeWhile (\<lambda>x. 0 \<le> f x) xs
     in if done = xs then (n + int (length done), s @ done)
        else (- (n + int (length done)) - 1, s @ take (length done + 1) xs))" for xs n s
    by (induction xs arbitrary: n s) (auto simp: Let_def takeWhile_eq_all_conv[THEN iffD2])
  then show ?thesis
    by (simp add: list_for_each_data[OF assms] Let_def)
qed

theorem list_for_each_calls_witness:
  "list_for_each abc (\<lambda>x seen. (x - 2, seen @ [x])) [] = Some (- 2, [3, 1])"
  using list_for_each_calls[OF abc_ok(1), of "\<lambda>x. x - 2"] by (simp add: abc_ok(2))

text \<open>
  \<open>list_destroy\<close> returns, calls the deletion function once per item in order, and gives
  every node and every iterator of the list back to the free lists, without ever putting an
  object there twice.
\<close>

theorem list_destroy_releases:
  assumes "list_ok l"
  shows "\<exists>m. list_destroy l = Some m \<and>
    l_deleted m = l_deleted l @ (if l_fDel l then list_data l else []) \<and>
    set (fl_free (l_nfree m)) = set (addrs l) \<union> set (fl_free (l_nfree l)) \<and>
    set (fl_free (l_ifree m)) = fst ` set (l_its l) \<union> set (fl_free (l_ifree l)) \<and>
    distinct (fl_free (l_nfree m)) \<and> distinct (fl_free (l_ifree m))"
  using list_destroy_data[OF assms] by (auto simp: fl_ok_def)

theorem list_destroy_releases_witness:
  "\<exists>m. list_destroy abc_it = Some m \<and> l_deleted m = [3, 1, 2] \<and> distinct (fl_free (l_nfree m))"
proof -
  have "l_deleted abc_it = []" "l_fDel abc_it" by code_simp+
  with list_destroy_releases[OF abc_it_ok] show ?thesis
    by (auto simp: abc_it_eq(3))
qed

end
