(* ===== verification/ListMemory.thy ===== *)
theory ListMemory
  imports ListSystem
begin

text \<open>
  What the free lists of \<open>lib/list.c\<close> can still provide, so that clients can show that their
  insertions succeed.
\<close>

text \<open>How many objects a free list can still hand out.\<close>

definition fl_cap :: "freelist \<Rightarrow> nat" where
  "fl_cap f = length (fl_free f) + LIST_ALLOC * fl_chunks f"

lemma alloc_cap:
  "0 < fl_cap f \<Longrightarrow> \<exists>p f'. list_alloc_aux f = (Some p, f') \<and> fl_cap f' = fl_cap f - 1"
  by (cases "fl_free f"; cases "fl_chunks f")
     (auto simp: list_alloc_aux_def fl_cap_def LIST_ALLOC_def upt_conv_Cons Let_def)

lemma push_cap:
  assumes "0 < fl_cap (l_nfree l)"
  shows "\<exists>l'. list_push l x = (Some x, l') \<and> fl_cap (l_nfree l') = fl_cap (l_nfree l) - 1 \<and> l_ifree l' = l_ifree l"
  using alloc_cap[OF assms] by (auto simp: list_push_def list_node_create_def Let_def)

lemma append_cap:
  "0 < fl_cap (l_nfree l) \<Longrightarrow>
   \<exists>l'. list_append l x = (Some x, l') \<and> fl_cap (l_nfree l') = fl_cap (l_nfree l) - 1"
  using alloc_cap[of "l_nfree l"] by (auto simp: list_append_def list_node_create_def Let_def)

lemma fresh_list:
  assumes "0 < fl_cap lf" "fl_ok {} nf" "fl_ok {} itf"
  obtains l lf1 where "list_create d lf nf itf = (Some (l :: 'a clist), lf1)" "list_ok l" "list_data l = []" "l_nfree l = nf"
proof -
  from alloc_cap[OF assms(1)] obtain a lf1 where "list_alloc_aux lf = (Some a, lf1)" by blast
  then have c: "list_create d lf nf itf = (Some (list_fresh d nf itf :: 'a clist), lf1)" by (simp add: list_create_def)
  from list_create_ok[OF assms(2,3) c] show thesis by (intro that[OF c]) (simp_all add: list_fresh_def)
qed

lemma free_cap [simp]: "fl_cap (list_free_aux p f) = fl_cap f + 1"
  by (simp add: fl_cap_def list_free_aux_def)

lemma pop_cap: "list_pop l = (Some x, l1) \<Longrightarrow> fl_cap (l_nfree l1) = fl_cap (l_nfree l) + 1"
  by (cases "l_head l") (auto simp: list_pop_def list_node_destroy_def Let_def split: option.splits loc.splits)

lemma while_pop_cap:
  "list_ok l \<Longrightarrow> \<exists>l'. while_pop list_pop f l s = Some (fold f (list_data l) s, l') \<and> list_ok l' \<and>
     list_data l' = [] \<and> fl_cap (l_nfree l') = fl_cap (l_nfree l) + length (list_data l)"
proof (induction "list_data l" arbitrary: l s)
  case Nil
  obtain r l1 where p: "list_pop l = (r, l1)" by (cases "list_pop l") auto
  have r: "r = None" "list_data l1 = []" using list_pop_ok(2,3)[OF Nil(2) p] Nil(1)[symmetric] by simp_all
  have "l_nfree l1 = l_nfree l"
    using p list_pop_data[OF Nil(2)] Nil(1)[symmetric] by auto
  then show ?case using p r list_pop_ok(1)[OF Nil(2) p] Nil(1)[symmetric] by (subst while_pop.simps) simp
next
  case (Cons x xs)
  obtain r l1 where p: "list_pop l = (r, l1)" by (cases "list_pop l") auto
  have r: "r = Some x" "xs = list_data l1" using list_pop_ok(2,3)[OF Cons(3) p] Cons(2)[symmetric] by simp_all
  have w: "while_pop list_pop f l s = while_pop list_pop f l1 (f x s)"
    using p r(1) by (subst while_pop.simps) simp
  have "fl_cap (l_nfree l1) = fl_cap (l_nfree l) + 1" using p pop_cap[of l x l1] unfolding r(1) by simp
  with Cons(1)[OF r(2) list_pop_ok(1)[OF Cons(3) p], of "f x s"] show ?case
    unfolding w Cons(2)[symmetric] using r(2) by simp
qed

definition some_heap :: freelist where
  "some_heap = \<lparr>fl_free = [], fl_brk = 0, fl_chunks = 1\<rparr>"

lemma some_heap_facts: "fl_cap some_heap = 32" "fl_ok {} some_heap"
  by (simp_all add: fl_cap_def some_heap_def LIST_ALLOC_def fl_ok_def)

section \<open>Loops that stop early\<close>

text \<open>\<open>while ((x = list_next (i)))\<close> with a body that may \<open>break\<close> (its first result).\<close>

partial_function (option) until_next ::
    "('l \<Rightarrow> 'i \<Rightarrow> 'a option \<times> 'l) \<Rightarrow> ('a \<Rightarrow> 's \<Rightarrow> bool \<times> 's) \<Rightarrow> 'l \<Rightarrow> 'i \<Rightarrow> 's \<Rightarrow> ('s \<times> 'l) option" where
  "until_next nxt f l i s =
    (case nxt l i of
       (None, l1) \<Rightarrow> Some (s, l1)
     | (Some x, l1) \<Rightarrow> (case f x s of (stop, s1) \<Rightarrow> if stop then Some (s1, l1) else until_next nxt f l1 i s1))"

declare until_next.simps [code]

fun fold_until :: "('a \<Rightarrow> 's \<Rightarrow> bool \<times> 's) \<Rightarrow> 'a list \<Rightarrow> 's \<Rightarrow> 's" where
  "fold_until f [] s = s"
| "fold_until f (x # xs) s = (case f x s of (stop, s1) \<Rightarrow> if stop then s1 else fold_until f xs s1)"

context iterable
begin

lemma until_next_fold:
  "ok l \<Longrightarrow> live_it l i \<Longrightarrow> cursor l i = (before, cur, rest) \<Longrightarrow>
   \<exists>l'. until_next nxt f l i s = Some (fold_until f rest s, l') \<and> ok l' \<and> view l' = view l \<and> live_it l' i"
proof (induction rest arbitrary: l before cur s)
  case Nil
  from nxt_cursor[OF Nil] show ?case by (subst until_next.simps) auto
next
  case (Cons x xs)
  from nxt_cursor[OF Cons.prems] obtain l1 where l1:
    "nxt l i = (Some x, l1)" "ok l1" "view l1 = view l" "live_it l1 i" "cursor l1 i = (before @ cur, [x], xs)"
    by auto
  obtain stop s1 where f: "f x s = (stop, s1)" by (cases "f x s") auto
  have "until_next nxt f l i s = (if stop then Some (s1, l1) else until_next nxt f l1 i s1)"
    using l1(1) f by (subst until_next.simps) simp
  with Cons.IH[OF l1(2,4,5), of s1] l1(2-4) f show ?case by simp
qed

lemma iterate_until:
  assumes "ok l" "it_new l = (Some i, l1)"
  shows "\<exists>l2. until_next nxt f l1 i s = Some (fold_until f (view l) s, l2) \<and> ok l2 \<and> view l2 = view l \<and>
    ok (it_free l2 i) \<and> view (it_free l2 i) = view l"
  using new_cursor[OF assms] until_next_fold[of l1 i "[]" "[]" "view l" f s] free_cursor by auto

end

end
