(* ===== verification/Split.thy ===== *)
theory Split
  imports ListMemory
begin

text \<open>
  \<open>lib/split.c\<close>: cutting a string into a list of tokens and joining a list into a bounded
  buffer.  The strings' bytes live in the caller's buffer, which \<open>_next_tok\<close> overwrites with
  NULs; the buffer's final bytes are part of the result.  How many further \<open>strdup\<close> calls
  succeed is an argument \<open>h\<close>; list nodes come from the free list of the list itself.
\<close>

section \<open>Splitting\<close>

definition next_tok :: "string \<Rightarrow> string \<Rightarrow> (string \<times> string \<times> string) option" where
  "next_tok sep str =
    (let sepc = (\<lambda>c. c \<in> set sep);
         lead = takeWhile sepc str;
         s1 = dropWhile sepc str;
         tok = takeWhile (\<lambda>c. \<not> sepc c) s1;
         s2 = dropWhile (\<lambda>c. \<not> sepc c) s1
     in if s1 = [] then None
        else Some (tok, dropWhile sepc s2,
                   lead @ tok @ replicate (length (takeWhile sepc s2)) (CHR 0x00)))"

text \<open>
  \<open>Split_list l\<close>: the list is returned; \<open>Split_null m\<close>: NULL is returned after
  \<open>list_destroy\<close>, which left \<open>m\<close>; \<open>Split_nolist\<close>: NULL because there was no list.
\<close>

datatype split_result =
    Split_list "string clist"
  | Split_null "string clist option"
  | Split_nolist

lemma next_tok_shorter: "next_tok sep str = Some (tok, rest, w) \<Longrightarrow> length rest < length str"
proof -
  assume a: "next_tok sep str = Some (tok, rest, w)"
  let ?P = "\<lambda>c. c \<in> set sep"
  let ?s1 = "dropWhile ?P str"
  from a have ne: "?s1 \<noteq> []" and r: "rest = dropWhile ?P (dropWhile (\<lambda>c. \<not> ?P c) ?s1)"
    by (auto simp: next_tok_def Let_def split: if_splits)
  then obtain c cs where s: "?s1 = c # cs" by (cases ?s1) auto
  then have "\<not> ?P c" by (rule dropWhile_Cons_hd)
  with r s have "rest = dropWhile ?P (dropWhile (\<lambda>c. \<not> ?P c) cs)" by simp
  then have "length rest \<le> length cs"
    by (metis length_dropWhile_le order_trans)
  moreover have "length cs < length str"
    using s length_dropWhile_le[of ?P str] by simp
  ultimately show ?thesis by simp
qed

function split_loop ::
    "nat \<Rightarrow> string \<Rightarrow> string \<Rightarrow> string \<Rightarrow> string clist \<Rightarrow> string \<times> split_result" where
  "split_loop h sep done str l =
    (case next_tok sep str of
       None \<Rightarrow> (done @ str, Split_list l)
     | Some (tok, rest, w) \<Rightarrow>
         if 0 < length tok
         then (case h of
                 0 \<Rightarrow> (done @ w @ rest, Split_null (list_destroy l))
               | Suc h' \<Rightarrow>
                  (case list_append l tok of
                     (None, l1) \<Rightarrow> (done @ w @ rest, Split_null (list_destroy l1))
                   | (Some x, l1) \<Rightarrow> split_loop h' sep (done @ w) rest l1))
         else split_loop h sep (done @ w) rest l)"
  by pat_completeness auto
termination
  by (relation "measure (\<lambda>(h, sep, done, str, l). length str)") (auto dest: next_tok_shorter)

declare split_loop.simps [simp del]

definition list_split_append ::
    "nat \<Rightarrow> string clist \<Rightarrow> string option \<Rightarrow> string \<Rightarrow> string \<times> split_result" where
  "list_split_append h l sep str =
    split_loop h (case sep of None \<Rightarrow> [CHR '' '', CHR 0x09] | Some s \<Rightarrow> s) [] str l"

definition list_split ::
    "nat \<Rightarrow> freelist \<Rightarrow> freelist \<Rightarrow> freelist \<Rightarrow> string option \<Rightarrow> string \<Rightarrow> string \<times> split_result" where
  "list_split h lf nf itf sep str =
    (case list_create True lf nf itf of
       (None, lf1) \<Rightarrow> (str, Split_nolist)
     | (Some l, lf1) \<Rightarrow> list_split_append h l sep str)"

section \<open>Joining\<close>

text \<open>
  One round of the loop of \<open>list_join\<close>: the characters written so far, \<open>n\<close>, \<open>truncated\<close>.
  \<open>snprintf\<close> writes at most \<open>len - n - 1\<close> characters and returns what it wanted to write.
\<close>

definition join_step ::
    "nat \<Rightarrow> string \<Rightarrow> string \<Rightarrow> string \<times> nat \<times> bool \<Rightarrow> string \<times> nat \<times> bool" where
  "join_step len sep str st =
    (case st of (buf, n, truncated) \<Rightarrow>
       if \<not> truncated
       then (let count = length (str @ sep);
                 buf1 = take n buf @ take (len - n - 1) (str @ sep)
             in if count \<ge> len - n then (buf1, n, True) else (buf1, n + count, False))
       else (buf, n + length str + length sep, True))"

text \<open>
  The result is the return value, the string left in \<open>result\<close> and the list; \<open>None\<close> when
  there is no memory for the iterator (\<open>list_next\<close> asserts it is not NULL) or when
  \<open>result[len - 1]\<close> lies outside a buffer of length 0.
\<close>

definition list_join ::
    "nat \<Rightarrow> string \<Rightarrow> string clist \<Rightarrow> (nat \<times> string \<times> string clist) option" where
  "list_join len sep l =
    (if list_count l = 0 then Some (0, [], l)
     else (case list_iterator_create l of
             (None, l1) \<Rightarrow> None
           | (Some i, l1) \<Rightarrow>
              (case while_next list_next (join_step len sep) l1 i ([], 0, False) of
                 None \<Rightarrow> None
               | Some ((buf, n, truncated), l2) \<Rightarrow>
                   let l3 = list_iterator_destroy l2 i
                   in if truncated
                      then (if len = 0 then None else Some (n, take (len - 1) buf, l3))
                      else Some (n, take (length buf - length sep) buf, l3))))"

section \<open>What a token is\<close>

fun fields :: "('c \<Rightarrow> bool) \<Rightarrow> 'c list \<Rightarrow> 'c list list" where
  "fields P [] = [[]]"
| "fields P (c # cs) =
    (if P c then [] # fields P cs
     else (case fields P cs of [] \<Rightarrow> [[c]] | f # fs \<Rightarrow> (c # f) # fs))"

definition tokens :: "string \<Rightarrow> string \<Rightarrow> string list" where
  "tokens sep str = filter (\<lambda>t. t \<noteq> []) (fields (\<lambda>c. c \<in> set sep) str)"

lemma fields_ne [simp]: "fields P cs \<noteq> []"
  by (cases cs) (auto split: list.splits)

lemma fields_free: "f \<in> set (fields P cs) \<Longrightarrow> c \<in> set f \<Longrightarrow> \<not> P c"
  by (induction cs arbitrary: f) (fastforce split: list.splits if_splits)+

lemma fields_append_sep: "P c \<Longrightarrow> fields P (xs @ c # ys) = fields P xs @ fields P ys"
  by (induction xs) (auto split: list.splits)

lemma fields_no_sep: "\<forall>c\<in>set xs. \<not> P c \<Longrightarrow> fields P xs = [xs]"
  by (induction xs) auto

lemma tokens_skip: "tokens sep (dropWhile (\<lambda>c. c \<in> set sep) str) = tokens sep str"
  by (induction str) (auto simp: tokens_def)

lemma tokens_first:
  assumes "str = tok @ rest" "tok \<noteq> []" "\<forall>c\<in>set tok. c \<notin> set sep" "rest = [] \<or> hd rest \<in> set sep"
  shows "tokens sep str = tok # tokens sep rest"
proof (cases rest)
  case Nil
  with assms show ?thesis by (simp add: tokens_def fields_no_sep)
next
  case (Cons c cs)
  with assms show ?thesis
    by (simp add: tokens_def fields_append_sep fields_no_sep)
qed

lemma next_tok_tokens:
  "tokens sep str = (case next_tok sep str of None \<Rightarrow> [] | Some (tok, rest, w) \<Rightarrow> tok # tokens sep rest)"
proof -
  let ?P = "\<lambda>c. c \<in> set sep"
  let ?s1 = "dropWhile ?P str"
  show ?thesis
  proof (cases "?s1 = []")
    case True
    then have "tokens sep str = []"
      using tokens_skip[of sep str] by (simp only: True) (simp add: tokens_def)
    with True show ?thesis by (simp add: next_tok_def)
  next
    case False
    then obtain c cs where s: "?s1 = c # cs" by (cases ?s1) auto
    then have c: "\<not> ?P c" by (rule dropWhile_Cons_hd)
    let ?tok = "takeWhile (\<lambda>c. \<not> ?P c) ?s1" and ?s2 = "dropWhile (\<lambda>c. \<not> ?P c) ?s1"
    have "tokens sep ?s1 = ?tok # tokens sep ?s2"
    proof (rule tokens_first)
      show "?s2 = [] \<or> hd ?s2 \<in> set sep"
        using hd_dropWhile[of "\<lambda>c. \<not> ?P c" ?s1] by blast
    qed (use s c in \<open>auto dest: set_takeWhileD\<close>)
    with False show ?thesis
      by (simp add: next_tok_def Let_def tokens_skip)
  qed
qed

lemma next_tok_ne: "next_tok sep str = Some (tok, rest, w) \<Longrightarrow> tok \<noteq> []"
proof -
  assume a: "next_tok sep str = Some (tok, rest, w)"
  let ?P = "\<lambda>c. c \<in> set sep"
  from a have ne: "dropWhile ?P str \<noteq> []" and t: "tok = takeWhile (\<lambda>c. \<not> ?P c) (dropWhile ?P str)"
    by (auto simp: next_tok_def Let_def split: if_splits)
  then show ?thesis
    using hd_dropWhile[OF ne] by (cases "dropWhile ?P str") auto
qed

section \<open>Splitting yields the tokens\<close>

lemma split_loop_tokens:
  "split_loop h sep done str l = (buf, r) \<Longrightarrow> list_ok l \<Longrightarrow>
   (case r of
      Split_list l' \<Rightarrow> list_ok l' \<and> list_data l' = list_data l @ tokens sep str
    | Split_null m \<Rightarrow>
        (\<exists>l1 k. list_ok l1 \<and> m = list_destroy l1 \<and>
           list_data l1 = list_data l @ take k (tokens sep str) \<and> k < length (tokens sep str))
    | Split_nolist \<Rightarrow> False)"
proof (induction h sep "done" str l rule: split_loop.induct)
  case (1 h sep "done" str l)
  note nt = next_tok_tokens[of sep str]
  show ?case
  proof (cases "next_tok sep str")
    case None
    with 1(3,4) nt show ?thesis by (auto simp: split_loop.simps)
  next
    case (Some t)
    then obtain tok rest w where t: "next_tok sep str = Some (tok, rest, w)" by (cases t) auto
    then have tk: "tokens sep str = tok # tokens sep rest" using nt by simp
    have len: "0 < length tok" using next_tok_ne[OF t] by simp
    show ?thesis
    proof (cases h)
      case 0
      with 1(3,4) t len have "r = Split_null (list_destroy l)"
        by (subst (asm) split_loop.simps) simp
      moreover have "list_data l = list_data l @ take 0 (tokens sep str)" by simp
      ultimately show ?thesis using 1(4) tk by force
    next
      case (Suc h')
      obtain q l1 where a: "list_append l tok = (q, l1)" by (cases "list_append l tok")
      note ad = list_append_data[OF 1(4) a]
      show ?thesis
      proof (cases q)
        case None
        with 1(3) t len Suc a have "r = Split_null (list_destroy l1)"
          by (subst (asm) split_loop.simps) simp
        moreover have "list_data l1 = list_data l @ take 0 (tokens sep str)"
          using ad(2) None by simp
        ultimately show ?thesis using ad(1) tk by force
      next
        case (Some x)
        with 1(3) t len Suc a have "split_loop h' sep (done @ w) rest l1 = (buf, r)"
          by (subst (asm) split_loop.simps) simp
        note IH = 1(1)[OF t refl refl len Suc a[symmetric] _ this ad(1)]
        have d: "list_data l1 = list_data l @ [tok]" using ad(3) Some by simp
        show ?thesis
        proof (cases r)
          case (Split_null m)
          with IH Some obtain l2 k where "list_ok l2" "m = list_destroy l2"
            "list_data l2 = list_data l1 @ take k (tokens sep rest)" "k < length (tokens sep rest)"
            by auto
          with Split_null d tk show ?thesis
            by (auto intro!: exI[of _ l2] exI[of _ "Suc k"])
        qed (use IH d tk Some in auto)
      qed
    qed
  qed
qed

lemma split_loop_succeeds:
  "length (tokens sep str) \<le> h \<Longrightarrow> length (tokens sep str) \<le> fl_cap (l_nfree l) \<Longrightarrow>
   \<exists>buf l'. split_loop h sep done str l = (buf, Split_list l')"
proof (induction h sep "done" str l rule: split_loop.induct)
  case (1 h sep "done" str l)
  note nt = next_tok_tokens[of sep str]
  show ?case
  proof (cases "next_tok sep str")
    case None
    then show ?thesis by (simp add: split_loop.simps)
  next
    case (Some t)
    then obtain tok rest w where t: "next_tok sep str = Some (tok, rest, w)" by (cases t) auto
    then have tk: "tokens sep str = tok # tokens sep rest" using nt by simp
    have len: "0 < length tok" using next_tok_ne[OF t] by simp
    obtain h' where h: "h = Suc h'" using 1(3) tk by (cases h) auto
    from append_cap[of l tok] 1(4) tk obtain l1 where
      a: "list_append l tok = (Some tok, l1)" "fl_cap (l_nfree l1) = fl_cap (l_nfree l) - 1" by auto
    have "\<exists>buf l'. split_loop h' sep (done @ w) rest l1 = (buf, Split_list l')"
      by (rule 1(1)[OF t refl refl len h a(1)[symmetric] refl]) (use 1(3,4) tk h a(2) in auto)
    then show ?thesis
      using t len h a(1) by (subst split_loop.simps) simp
  qed
qed

lemma list_split_data:
  assumes "fl_ok {} nf" "fl_ok {} itf" "snd (list_split h lf nf itf (Some sep) str) = Split_list l"
  shows "list_ok l" "list_data l = tokens sep str"
proof -
  obtain l0 lf1 where c: "list_create True lf nf itf = (Some (l0 :: string clist), lf1)"
    and s: "snd (list_split_append h l0 (Some sep) str) = Split_list l"
    using assms(3) by (auto simp: list_split_def split: prod.splits option.splits)
  have l0: "list_ok l0" "list_data l0 = []"
    using list_create_ok[OF assms(1,2) c] by simp_all
  obtain buf where "split_loop h sep [] str l0 = (buf, Split_list l)"
    using s by (cases "split_loop h sep [] str l0") (simp add: list_split_append_def)
  from split_loop_tokens[OF this l0(1)] l0(2) show "list_ok l" "list_data l = tokens sep str" by simp_all
qed

lemma list_split_works:
  assumes "0 < fl_cap lf" "fl_ok {} nf" "fl_ok {} itf"
    "length (tokens sep str) \<le> h" "length (tokens sep str) \<le> fl_cap nf"
  obtains l where "snd (list_split h lf nf itf (Some sep) str) = Split_list l" "list_ok l"
    "list_data l = tokens sep str"
proof -
  obtain l0 lf1 where c: "list_create True lf nf itf = (Some (l0 :: string clist), lf1)" "l_nfree l0 = nf"
    by (rule fresh_list[OF assms(1-3), of True]) blast
  obtain buf l where "split_loop h sep [] str l0 = (buf, Split_list l)"
    using split_loop_succeeds[of sep str h l0 "[]"] assms(4,5) c(2) by auto
  then have "snd (list_split h lf nf itf (Some sep) str) = Split_list l"
    by (simp add: list_split_def list_split_append_def c(1))
  from that[OF this list_split_data[OF assms(2,3) this]] show thesis .
qed

section \<open>What list_join writes\<close>

lemma join_after_truncation:
  "fold (join_step len sep) ys (b, k, True) = (b, k + length (concat (map (\<lambda>s. s @ sep) ys)), True)"
  by (induction ys arbitrary: k) (simp_all add: join_step_def)

lemma join_fold:
  assumes "length buf = n" "n < len"
  shows "\<exists>m. fold (join_step len sep) xs (buf, n, False) =
    (let full = buf @ concat (map (\<lambda>s. s @ sep) xs)
     in if length full < len then (full, length full, False) else (take (len - 1) full, m, True))"
  using assms
proof (induction xs arbitrary: buf n)
  case (Cons x xs)
  let ?full = "buf @ x @ sep @ concat (map (\<lambda>s. s @ sep) xs)"
  show ?case
  proof (cases "len - n \<le> length (x @ sep)")
    case True
    have "take (len - 1) ?full = buf @ take (len - n - 1) (x @ sep)"
      using Cons.prems True by auto
    then have "join_step len sep x (buf, n, False) = (take (len - 1) ?full, n, True)"
      using True Cons.prems by (simp add: join_step_def Let_def)
    moreover have "\<not> length ?full < len"
      using True Cons.prems by simp
    ultimately show ?thesis
      by (simp add: join_after_truncation Let_def)
  next
    case False
    then have "join_step len sep x (buf, n, False) = (buf @ x @ sep, n + length (x @ sep), False)"
      using Cons.prems by (simp add: join_step_def Let_def)
    then show ?thesis
      using Cons.IH[of "buf @ x @ sep" "n + length (x @ sep)"] Cons.prems False
      by (simp add: Let_def)
  qed
qed (simp add: Let_def)

lemma list_join_result:
  assumes ok: "list_ok l" and it: "list_iterator_create l = (Some i, l1)"
    and len: "0 < len" and ne: "list_data l \<noteq> []"
  shows "\<exists>n l'. list_join len sep l =
      (let full = concat (map (\<lambda>s. s @ sep) (list_data l))
       in if length full < len then Some (length full, take (length full - length sep) full, l')
          else Some (n, take (len - 1) full, l')) \<and>
    list_ok l' \<and> list_data l' = list_data l"
proof -
  obtain m where f: "fold (join_step len sep) (list_data l) ([], 0, False) =
      (let full = concat (map (\<lambda>s. s @ sep) (list_data l))
       in if length full < len then (full, length full, False) else (take (len - 1) full, m, True))"
    using join_fold[of "[]" 0 len sep "list_data l"] len by auto
  from cli.iterate_all[OF ok it, of "join_step len sep" "([], 0, False)"] obtain l2 where
    w: "while_next list_next (join_step len sep) l1 i ([], 0, False) =
        Some (fold (join_step len sep) (list_data l) ([], 0, False), l2)"
      "list_ok (list_iterator_destroy l2 i)" "list_data (list_iterator_destroy l2 i) = list_data l"
    by blast
  have c: "list_count l \<noteq> 0"
    using list_count_data[OF ok] ne by simp
  show ?thesis
    using w(2,3) len
    by (intro exI[of _ m] exI[of _ "list_iterator_destroy l2 i"])
       (simp add: list_join_def it c w(1) f Let_def)
qed

lemma concat_sep_butlast:
  "xs \<noteq> [] \<Longrightarrow> let full = concat (map (\<lambda>s. s @ sep) xs)
   in take (length full - length sep) full = concat (map (\<lambda>s. s @ sep) (butlast xs)) @ last xs"
  by (induction xs rule: rev_induct) (simp_all add: Let_def)

lemma tokens_join:
  assumes "xs \<noteq> []" "\<forall>s\<in>set xs. s \<noteq> [] \<and> (\<forall>c\<in>set s. c \<notin> set sep)" "sep \<noteq> []"
  shows "tokens sep (concat (map (\<lambda>s. s @ sep) (butlast xs)) @ last xs) = xs"
  using assms
proof (induction xs)
  case (Cons x xs)
  show ?case
  proof (cases "xs = []")
    case True
    with Cons.prems show ?thesis by (simp add: tokens_def fields_no_sep)
  next
    case False
    let ?r = "concat (map (\<lambda>s. s @ sep) (butlast xs)) @ last xs"
    have "tokens sep (sep @ ?r) = tokens sep ?r"
      using tokens_skip[of sep "sep @ ?r"] tokens_skip[of sep ?r]
      by (metis dropWhile_append1 dropWhile_append2)
    moreover have "tokens sep (x @ sep @ ?r) = x # tokens sep (sep @ ?r)"
      by (rule tokens_first[of _ x]) (use Cons.prems in auto)
    ultimately show ?thesis
      using Cons False by simp
  qed
qed simp

section \<open>Properties\<close>

definition ab_list :: "string clist" where
  "ab_list = snd (list_append (snd (list_append (list_fresh True some_heap some_heap) ''a'')) ''bc'')"

lemma ab_list_ok: "list_ok ab_list" "list_data ab_list = [''a'', ''bc'']"
proof -
  have 0: "list_ok (list_fresh True some_heap some_heap :: string clist)"
    by (rule list_fresh_ok) (simp_all add: some_heap_def fl_ok_def)
  have s: "list_ok l \<Longrightarrow> list_ok (snd (list_append l x))" for l :: "string clist" and x
    by (cases "list_append l x") (auto intro: list_append_data(1))
  from s[OF s[OF 0]] show "list_ok ab_list" by (simp add: ab_list_def)
  show "list_data ab_list = [''a'', ''bc'']" by code_simp
qed

text \<open>
  \<open>list_split_append\<close> appends to the list the maximal runs of non-separator characters of
  the string, in order (a missing separator set means blank and tab); it succeeds whenever memory
  for the tokens is available, and when memory runs out it destroys the list, which by then holds
  a proper prefix of the tokens, and returns NULL.
\<close>

theorem list_split_append_tokens:
  assumes "list_ok l"
  shows "let ts = tokens (case sep of None \<Rightarrow> [CHR '' '', CHR 0x09] | Some s \<Rightarrow> s) str
    in (case snd (list_split_append h l sep str) of
      Split_list l' \<Rightarrow> list_ok l' \<and> list_data l' = list_data l @ ts
    | Split_null m \<Rightarrow>
        (\<exists>l1 k. list_ok l1 \<and> m = list_destroy l1 \<and> list_data l1 = list_data l @ take k ts \<and>
           k < length ts)
    | Split_nolist \<Rightarrow> False) \<and>
    (length ts \<le> h \<and> length ts \<le> fl_cap (l_nfree l) \<longrightarrow>
       (\<exists>l'. snd (list_split_append h l sep str) = Split_list l'))"
proof -
  let ?sep = "case sep of None \<Rightarrow> [CHR '' '', CHR 0x09] | Some s \<Rightarrow> s"
  let ?r = "list_split_append h l sep str"
  have r: "split_loop h ?sep [] str l = (fst ?r, snd ?r)"
    by (simp add: list_split_append_def)
  show ?thesis
    using split_loop_tokens[OF r assms(1)] split_loop_succeeds[of ?sep str h l "[]"] r
    unfolding Let_def by (intro conjI impI) (assumption, metis snd_conv)
qed

theorem list_split_append_tokens_witness:
  "\<exists>l'. snd (list_split_append 5 ab_list (Some '','') '',x,,yz,'') = Split_list l' \<and>
     list_data l' = [''a'', ''bc'', ''x'', ''yz'']"
proof -
  have t: "tokens '','' '',x,,yz,'' = [''x'', ''yz'']" by code_simp
  have "2 \<le> fl_cap (l_nfree ab_list)" by code_simp
  with list_split_append_tokens[OF ab_list_ok(1), of "Some '',''" "'',x,,yz,''" 5] show ?thesis
    by (auto simp: t ab_list_ok(2) Let_def)
qed

text \<open>
  C24: \<open>list_join\<close> never writes outside a buffer of positive size and always terminates the
  string: when the items, each followed by the separator, fit, the result is their
  concatenation without the final separator, otherwise it is the first \<open>len - 1\<close> characters
  of that concatenation.  The list itself is unchanged.
\<close>

theorem list_join_bounded:
  assumes "list_ok l" "0 < len" "fl_cap (l_ifree l) \<noteq> 0"
  shows "\<exists>n str l'. list_join len sep l = Some (n, str, l') \<and> length str < len \<and>
    list_ok l' \<and> list_data l' = list_data l \<and>
    (let full = concat (map (\<lambda>s. s @ sep) (list_data l))
     in str = (if length full < len then take (length full - length sep) full
               else take (len - 1) full))"
proof (cases "list_data l = []")
  case True
  then show ?thesis
    using assms list_count_data[OF assms(1)] by (auto simp: list_join_def)
next
  case False
  obtain i f where "list_alloc_aux (l_ifree l) = (Some i, f)"
    using alloc_cap[of "l_ifree l"] assms(3) by auto
  then obtain l1 where it: "list_iterator_create l = (Some i, l1)"
    by (simp add: list_iterator_create_def)
  show ?thesis
    using list_join_result[OF assms(1) it assms(2) False, of sep] assms(2)
    by (auto simp: Let_def split: if_splits)
qed

theorem list_join_bounded_witness:
  "(\<exists>n l'. list_join 10 '','' ab_list = Some (n, ''a,bc'', l')) \<and>
   (\<exists>n l'. list_join 4 '','' ab_list = Some (n, ''a,b'', l'))"
proof -
  have "fl_cap (l_ifree ab_list) \<noteq> 0" by code_simp
  with list_join_bounded[OF ab_list_ok(1), of 10 "'',''"] list_join_bounded[OF ab_list_ok(1), of 4 "'',''"]
  show ?thesis by (simp add: ab_list_ok(2) Let_def) blast
qed

text \<open>
  C25: splitting what \<open>list_join\<close> wrote gives the items back, when they are not empty, contain
  no separator, and the buffer was large enough.
\<close>

theorem split_join_roundtrip:
  assumes "list_ok l" "list_data l \<noteq> []" "sep \<noteq> []"
    and "\<forall>s\<in>set (list_data l). s \<noteq> [] \<and> (\<forall>c\<in>set s. c \<notin> set sep)"
    and "list_join len sep l = Some (n, str, l')"
    and "length (concat (map (\<lambda>s. s @ sep) (list_data l))) < len"
    and "snd (list_split h lf nf itf (Some sep) str) = Split_list m" "fl_ok {} nf" "fl_ok {} itf"
  shows "list_data m = list_data l"
proof -
  obtain i l1 where it: "list_iterator_create l = (Some i, l1)"
    using assms(1,2,5) list_count_data[OF assms(1)]
    by (auto simp: list_join_def split: prod.splits option.splits)
  have "0 < len" using assms(6) by simp
  from list_join_result[OF assms(1) it this assms(2), of sep]
  have "str = take (length (concat (map (\<lambda>s. s @ sep) (list_data l))) - length sep)
      (concat (map (\<lambda>s. s @ sep) (list_data l)))"
    using assms(5,6) by (auto simp: Let_def)
  then have s: "tokens sep str = list_data l"
    using concat_sep_butlast[OF assms(2), of sep] tokens_join[OF assms(2,4,3)] by (simp add: Let_def)
  obtain p :: "string clist option" and lf' where pc: "list_create True lf nf itf = (p, lf')"
    by (cases "list_create True lf nf itf :: string clist option \<times> freelist")
  then obtain q :: "string clist" where c: "list_create True lf nf itf = (Some q, lf')"
    using assms(7) by (cases p) (auto simp: list_split_def)
  note q = list_create_ok[OF assms(8,9) c]
  obtain buf where "split_loop h sep [] str q = (buf, Split_list m)"
    using assms(7) c by (auto simp: list_split_def list_split_append_def prod_eq_iff)
  from split_loop_tokens[OF this] q s show ?thesis by simp
qed

theorem split_join_roundtrip_witness:
  "\<exists>m. snd (list_split 9 some_heap some_heap some_heap (Some '','') ''a,bc'') = Split_list m \<and>
     list_data m = [''a'', ''bc'']"
proof -
  have "case list_join 10 '','' ab_list of None \<Rightarrow> False | Some (n, s, l') \<Rightarrow> s = ''a,bc''"
    by code_simp
  then obtain n l' where j: "list_join 10 '','' ab_list = Some (n, ''a,bc'', l')"
    by (auto split: option.splits)
  have "case snd (list_split 9 some_heap some_heap some_heap (Some '','') ''a,bc'') of
      Split_list m \<Rightarrow> True | _ \<Rightarrow> False"
    by code_simp
  then obtain m where s: "snd (list_split 9 some_heap some_heap some_heap (Some '','') ''a,bc'') = Split_list m"
    by (auto split: split_result.splits)
  have "fl_ok {} some_heap" by (simp add: fl_ok_def some_heap_def)
  with split_join_roundtrip[OF ab_list_ok(1) _ _ _ j _ s] show ?thesis
    using s by (simp add: ab_list_ok(2))
qed

end
