(* ===== verification/CString.thy ===== *)
theory CString
  imports Prelude
begin

text \<open>
  The parts of the C library that the sources call on strings and numbers: character
  classes, \<open>strcmp\<close>, \<open>strtoul\<close>, the conversions \<open>%lu\<close> and \<open>%0*lu\<close>, the conversion of an
  \<open>unsigned long\<close> to an \<open>int\<close>, and writes into a character buffer.
\<close>

type_synonym ulong = "64 word"

section \<open>Characters and decimal numbers\<close>

definition isdigit :: "char \<Rightarrow> bool" where
  "isdigit c \<longleftrightarrow> 48 \<le> (of_char c :: nat) \<and> (of_char c :: nat) \<le> 57"

definition isspace :: "char \<Rightarrow> bool" where
  "isspace c \<longleftrightarrow> (of_char c :: nat) = 32 \<or> 9 \<le> (of_char c :: nat) \<and> (of_char c :: nat) \<le> 13"

definition digit_val :: "char \<Rightarrow> nat" where
  "digit_val c = of_char c - 48"

definition digit_char :: "nat \<Rightarrow> char" where
  "digit_char n = ''0123456789'' ! n"

definition dec_val :: "string \<Rightarrow> int" where
  "dec_val s = foldl (\<lambda>n c. 10 * n + int (digit_val c)) 0 s"

fun dec :: "nat \<Rightarrow> string" where
  "dec n = (if n < 10 then [digit_char n] else dec (n div 10) @ [digit_char (n mod 10)])"

declare dec.simps [simp del]

text \<open>\<open>%d\<close> and \<open>%ld\<close>.\<close>

definition dec_int :: "int \<Rightarrow> string" where
  "dec_int n = (if n < 0 then ''-'' @ dec (nat (- n)) else dec (nat n))"

text \<open>\<open>%0*lu\<close> for a width that is not negative.\<close>

definition pad :: "nat \<Rightarrow> nat \<Rightarrow> string" where
  "pad w n = replicate (w - length (dec n)) (CHR ''0'') @ dec n"

lemma less_10_cases: "n < 10 \<Longrightarrow> n \<in> {0, 1, 2, 3, 4, 5, 6, 7, 8, 9 :: nat}"
  by auto

lemma of_digit_char: "n < 10 \<Longrightarrow> of_char (digit_char n) = 48 + n"
  by (drule less_10_cases) (auto simp: digit_char_def)

lemma digit_char_val [simp]: "n < 10 \<Longrightarrow> digit_val (digit_char n) = n"
  by (simp add: digit_val_def of_digit_char)

lemma digit_char_digit [simp]: "n < 10 \<Longrightarrow> isdigit (digit_char n)"
  by (simp add: isdigit_def of_digit_char)

lemma zero_digit [simp]: "digit_val (CHR ''0'') = 0" "isdigit (CHR ''0'')"
  by (simp_all add: digit_val_def isdigit_def)

lemma dec_val_append: "dec_val (s @ [c]) = 10 * dec_val s + int (digit_val c)"
  by (simp add: dec_val_def)

lemma dec_val_dec [simp]: "dec_val (dec n) = int n"
proof (induction n rule: dec.induct)
  case (1 n)
  then show ?case
    by (subst dec.simps) (auto simp: dec_val_append zdiv_int zmod_int, simp add: dec_val_def)
qed

lemma dec_digits: "c \<in> set (dec n) \<Longrightarrow> isdigit c"
proof (induction n rule: dec.induct)
  case (1 n)
  then show ?case
    by (subst (asm) (2) dec.simps) (auto split: if_splits)
qed

lemma dec_ne [simp]: "dec n \<noteq> []"
  by (subst dec.simps) simp

lemma dec_val_zeros: "dec_val (replicate k (CHR ''0'') @ s) = dec_val s"
  by (induction k) (simp_all add: dec_val_def)

lemma dec_val_pad [simp]: "dec_val (pad w n) = int n"
  by (simp add: pad_def dec_val_zeros)

lemma pad_digits: "c \<in> set (pad w n) \<Longrightarrow> isdigit c"
  by (auto simp: pad_def dec_digits)

lemma pad_ne [simp]: "pad w n \<noteq> []"
  by (simp add: pad_def)

lemma pad_inj: "pad w m = pad w' n \<Longrightarrow> m = n"
  by (metis dec_val_pad of_nat_eq_iff)

lemma dec_length_mono: "m \<le> n \<Longrightarrow> length (dec m) \<le> length (dec n)"
proof (induction n arbitrary: m rule: dec.induct)
  case (1 n)
  show ?case
  proof (cases "n < 10")
    case True
    with 1(2) show ?thesis by (subst dec.simps, subst (2) dec.simps) simp
  next
    case False
    have "length (dec (m div 10)) \<le> length (dec (n div 10))" if "\<not> m < 10"
      by (rule 1(1)[OF False]) (rule div_le_mono[OF 1(2)])
    then show ?thesis
      using False by (subst dec.simps, subst (2) dec.simps) auto
  qed
qed

lemma dec_length_bound: "n < 10 ^ Suc k \<Longrightarrow> length (dec n) \<le> Suc k"
proof (induction k arbitrary: n)
  case 0
  then show ?case by (subst dec.simps) simp
next
  case (Suc k)
  then have "length (dec (n div 10)) \<le> Suc k" by auto
  then show ?case by (subst dec.simps) simp
qed

lemma length_pad: "length (pad w n) = max w (length (dec n))"
  by (simp add: pad_def)

section \<open>strtoul and strcmp\<close>

text \<open>
  \<open>strtoul (s, &q, 10)\<close>: the value and what is left at \<open>q\<close>; without digits nothing is
  consumed and the value is 0; a value that does not fit gives \<open>ULONG_MAX\<close>.
\<close>

definition ULONG_MAX :: ulong where
  "ULONG_MAX = - 1"

definition strtoul :: "string \<Rightarrow> ulong \<times> string" where
  "strtoul s =
    (let s1 = dropWhile isspace s;
         neg = (s1 \<noteq> [] \<and> hd s1 = CHR ''-'');
         s2 = (if s1 \<noteq> [] \<and> (hd s1 = CHR ''-'' \<or> hd s1 = CHR ''+'') then tl s1 else s1);
         ds = takeWhile isdigit s2;
         v = dec_val ds
     in if ds = [] then (0, s)
        else (if v < 2 ^ 64 then (if neg then - word_of_int v else word_of_int v) else ULONG_MAX,
              dropWhile isdigit s2))"

text \<open>\<open>strtol (s, &p, 10)\<close>.\<close>

definition strtol :: "string \<Rightarrow> int \<times> string" where
  "strtol s =
    (let s1 = dropWhile isspace s;
         neg = (s1 \<noteq> [] \<and> hd s1 = CHR ''-'');
         s2 = (if s1 \<noteq> [] \<and> (hd s1 = CHR ''-'' \<or> hd s1 = CHR ''+'') then tl s1 else s1);
         ds = takeWhile isdigit s2;
         v = (if neg then - dec_val ds else dec_val ds)
     in if ds = [] then (0, s)
        else (max (- (2 ^ 63)) (min (2 ^ 63 - 1) v), dropWhile isdigit s2))"

definition long_to_int :: "int \<Rightarrow> int" where
  "long_to_int l = sint (word_of_int l :: 32 word)"

text \<open>Only the sign of \<open>strcmp\<close> is specified by C, and only the sign is used.\<close>

fun strcmp :: "string \<Rightarrow> string \<Rightarrow> int" where
  "strcmp [] [] = 0"
| "strcmp [] (d # ds) = - 1"
| "strcmp (c # cs) [] = 1"
| "strcmp (c # cs) (d # ds) = (if c = d then strcmp cs ds else of_char c - of_char d)"

lemma isspace_digit: "isdigit c \<Longrightarrow> \<not> isspace c"
  by (auto simp: isdigit_def isspace_def)

lemma sign_digit: "isdigit c \<Longrightarrow> c \<noteq> CHR ''-'' \<and> c \<noteq> CHR ''+''"
  by (auto simp: isdigit_def)

lemma strtoul_digits:
  assumes "s \<noteq> []" "\<forall>c\<in>set s. isdigit c" "t = [] \<or> \<not> isdigit (hd t)"
  shows "strtoul (s @ t) = (if dec_val s < 2 ^ 64 then word_of_int (dec_val s) else ULONG_MAX, t)"
proof -
  from assms obtain c cs where s: "s = c # cs" by (cases s) auto
  with assms have c: "isdigit c" by simp
  then have dw: "dropWhile isspace (s @ t) = s @ t"
    by (simp add: s isspace_digit)
  have tw: "takeWhile isdigit (s @ t) = s" "dropWhile isdigit (s @ t) = t"
    using assms(2,3) by (cases t; simp add: takeWhile_append2)+
  have hd: "hd (s @ t) \<noteq> CHR ''-''" "hd (s @ t) \<noteq> CHR ''+''"
    using sign_digit[OF c] s by auto
  show ?thesis
    unfolding strtoul_def dw Let_def using hd tw assms(1) by simp
qed

lemma of_char_eq: "(of_char c :: int) = of_char d \<longleftrightarrow> c = d"
  by (metis of_char_eq_iff)

lemma strcmp_eq_0 [simp]: "strcmp s t = 0 \<longleftrightarrow> s = t"
  by (induction s t rule: strcmp.induct) (auto simp: of_char_eq)

lemma strcmp_self [simp]: "strcmp s s = 0"
  by simp

lemma strcmp_anti: "strcmp s t = - strcmp t s"
  by (induction s t rule: strcmp.induct) auto

lemma strcmp_trans: "strcmp s t \<le> 0 \<Longrightarrow> strcmp t u \<le> 0 \<Longrightarrow> strcmp s u \<le> 0"
proof (induction s t arbitrary: u rule: strcmp.induct)
  case (2 d ds)
  then show ?case by (cases u) auto
next
  case (4 c cs d ds)
  then obtain e es where u: "u = e # es" by (cases u) auto
  from 4 u show ?case
    by (auto simp: of_char_eq split: if_splits)
qed (auto split: if_splits)

section \<open>Conversions and buffers\<close>

text \<open>The conversion of an \<open>unsigned long\<close> to \<open>int\<close> keeps the low 32 bits.\<close>

definition to_int :: "ulong \<Rightarrow> int" where
  "to_int w = sint (ucast w :: 32 word)"

lemma to_int_of_int: "- (2 ^ 31) \<le> x \<Longrightarrow> x < 2 ^ 31 \<Longrightarrow> to_int (word_of_int x) = x"
proof -
  assume a: "- (2 ^ 31) \<le> x" "x < 2 ^ 31"
  have "ucast (word_of_int x :: 64 word) = (word_of_int x :: 32 word)"
    by (rule bit_word_eqI) (simp add: bit_simps)
  moreover have "signed_take_bit 31 x = x"
    using a by (simp add: signed_take_bit_int_eq_self)
  ultimately show ?thesis
    by (simp add: to_int_def sint_sbintrunc')
qed

lemma to_int_diff:
  assumes "unat a < 2 ^ 31" "unat b < 2 ^ 31"
  shows "to_int (a - b) = int (unat a) - int (unat b)"
proof -
  have "a - b = word_of_int (int (unat a) - int (unat b))"
    by simp
  moreover have "to_int (word_of_int (int (unat a) - int (unat b))) = int (unat a) - int (unat b)"
  proof (rule to_int_of_int)
    have "int (unat a) < int (2 ^ 31)" "int (unat b) < int (2 ^ 31)"
      using assms by (simp_all only: of_nat_less_iff)
    then show "- (2 ^ 31) \<le> int (unat a) - int (unat b)" "int (unat a) - int (unat b) < 2 ^ 31"
      using uint_ge_0[of a] uint_ge_0[of b] by (simp_all, linarith+)
  qed
  ultimately show ?thesis by (simp only:)
qed

lemma to_int_small: "unat w < 2 ^ 31 \<Longrightarrow> to_int w = int (unat w)"
proof -
  assume a: "unat w < 2 ^ 31"
  then have "uint w < 2 ^ 31"
    by (metis of_nat_less_iff of_nat_numeral of_nat_power uint_nat)
  then have "signed_take_bit 31 (uint w) = uint w"
    by (intro signed_take_bit_int_eq_self) (simp_all add: order_trans[of _ 0])
  then show ?thesis
    by (simp add: to_int_def signed_ucast_eq flip: uint_nat)
qed

text \<open>
  \<open>bwrite b i s\<close> writes the characters \<open>s\<close> from index \<open>i\<close> of the buffer \<open>b\<close>; \<open>None\<close> when
  one of them falls outside.  \<open>snprintf_at b i m s\<close> is \<open>snprintf (b + i, m, ...)\<close> for a
  result text \<open>s\<close> (its return value is the length of \<open>s\<close>).  \<open>cstr\<close> is the string a buffer holds.
\<close>

definition bwrite :: "string \<Rightarrow> nat \<Rightarrow> string \<Rightarrow> string option" where
  "bwrite b i s =
    (if s = [] then Some b
     else if i + length s \<le> length b then Some (take i b @ s @ drop (i + length s) b) else None)"

definition snprintf_at :: "string \<Rightarrow> nat \<Rightarrow> nat \<Rightarrow> string \<Rightarrow> string option" where
  "snprintf_at b i m s = (if m = 0 then Some b else bwrite b i (take (m - 1) s @ [CHR 0x00]))"

definition cstr :: "string \<Rightarrow> string" where
  "cstr b = takeWhile (\<lambda>c. c \<noteq> CHR 0x00) b"

lemma bwrite_ok:
  assumes "i + length t \<le> length b"
  shows "\<exists>b'. bwrite b i t = Some b' \<and> length b' = length b \<and> take (i + length t) b' = take i b @ t"
  using assms by (auto simp: bwrite_def)

lemma take_shorter: "take j b' = take j b \<Longrightarrow> i \<le> j \<Longrightarrow> take i b' = take i b"
  by (metis min.absorb1 take_take)

lemma take_prefix:
  assumes "take (i + length t) b' = take i b @ t" "i \<le> length b"
  shows "take i b' = take i b"
proof -
  have "take i (take (i + length t) b') = take i b" using assms by simp
  then show ?thesis by (simp add: min_def)
qed

lemma snprintf_ok:
  assumes "i + m \<le> length b"
  shows "\<exists>b'. snprintf_at b i m s = Some b' \<and> length b' = length b \<and> take i b' = take i b \<and>
    (length s < m \<longrightarrow> take (i + length s + 1) b' = take i b @ s @ [CHR 0x00])"
proof (cases "m = 0")
  case True
  then show ?thesis by (simp add: snprintf_at_def)
next
  case False
  let ?t = "take (m - 1) s @ [CHR 0x00]"
  have "i + length ?t \<le> length b" using assms False by auto
  from bwrite_ok[OF this] obtain b' where
    b: "bwrite b i ?t = Some b'" "length b' = length b" "take (i + length ?t) b' = take i b @ ?t" by blast
  have "take i b' = take i b" using take_prefix[OF b(3)] assms by simp
  then show ?thesis using b False by (auto simp: snprintf_at_def)
qed

lemma bwrite_at:
  assumes "i + length t \<le> length b"
  shows "\<exists>b'. bwrite b i t = Some b' \<and> length b' = length b \<and> take (i + length t) b' = take i b @ t \<and>
    (\<forall>k\<le>i. take k b' = take k b)"
  using assms by (cases t) (auto simp: bwrite_def min_def)

lemma cstr_take:
  assumes "take (length t + 1) b = t @ [CHR 0x00]" "CHR 0x00 \<notin> set t"
  shows "cstr b = t"
proof -
  have "b = (t @ [CHR 0x00]) @ drop (length t + 1) b" using assms(1) by (metis append_take_drop_id)
  then have "takeWhile (\<lambda>c. c \<noteq> CHR 0x00) b = takeWhile (\<lambda>c. c \<noteq> CHR 0x00) (t @ CHR 0x00 # drop (length t + 1) b)"
    by simp
  also have "\<dots> = t" using assms(2) by (subst takeWhile_append2) auto
  finally show ?thesis by (simp add: cstr_def)
qed

end
