(* ===== verification/Hostrange.thy ===== *)
theory Hostrange
  imports CString "HOL-Library.Monad_Syntax"
begin

text \<open>
  Host names and host ranges of \<open>lib/hostlist.c\<close>.  A function that adjusts the \<open>width\<close> field
  of its arguments through pointers returns the adjusted ranges.  \<open>None\<close> as the result of a
  function is a failed assertion or an access outside a buffer.  \<open>malloc\<close> is taken to succeed.
\<close>

section \<open>Widths\<close>

fun num_digits :: "nat \<Rightarrow> nat" where
  "num_digits n = (if n div 10 = 0 then 1 else num_digits (n div 10) + 1)"

declare num_digits.simps [simp del]

definition zero_padded :: "ulong \<Rightarrow> int \<Rightarrow> int" where
  "zero_padded num width =
    (let n = int (num_digits (unat num)) in if width > n then width - n else 0)"

text \<open>
  The two widths are passed by address; the result holds their new values.  (The test
  \<open>wn == wm\<close> of the code compares the addresses, which differ in every call.)
\<close>

definition width_equiv :: "ulong \<Rightarrow> int \<Rightarrow> ulong \<Rightarrow> int \<Rightarrow> bool \<times> int \<times> int" where
  "width_equiv n wn m wm =
    (let npad = zero_padded n wn;
         nmpad = zero_padded n wm;
         mpad = zero_padded m wm;
         mnpad = zero_padded m wn
     in if npad \<noteq> nmpad \<and> mpad \<noteq> mnpad then (False, wn, wm)
        else if npad \<noteq> nmpad
        then (if mpad = mnpad then (True, wn, wn) else (False, wn, wm))
        else (if npad = nmpad then (True, wm, wm) else (False, wn, wm)))"

section \<open>Host names\<close>

definition MAX_HOST_SUFFIX :: ulong where
  "MAX_HOST_SUFFIX = push_bit 25 1"

record hostname =
  hn_hostname :: string
  hn_prefix :: string
  hn_num :: ulong
  hn_suffix :: "string option"

definition host_prefix_end :: "string \<Rightarrow> int" where
  "host_prefix_end s = int (length (dropWhile isdigit (rev s))) - 1"

definition hostname_create :: "string \<Rightarrow> hostname" where
  "hostname_create s =
    (let idx = host_prefix_end s
     in if idx = int (length s) - 1
        then \<lparr>hn_hostname = s, hn_prefix = s, hn_num = 0, hn_suffix = None\<rparr>
        else (let suffix = drop (nat (idx + 1)) s;
                  (num, p) = strtoul suffix
              in if p = [] \<and> num \<le> MAX_HOST_SUFFIX
                 then \<lparr>hn_hostname = s, hn_prefix = take (nat (idx + 1)) s, hn_num = num,
                       hn_suffix = Some suffix\<rparr>
                 else \<lparr>hn_hostname = s, hn_prefix = s, hn_num = num, hn_suffix = None\<rparr>))"

definition hostname_suffix_is_valid :: "hostname \<Rightarrow> bool" where
  "hostname_suffix_is_valid hn \<longleftrightarrow> hn_suffix hn \<noteq> None"

definition hostname_suffix_width :: "hostname \<Rightarrow> int" where
  "hostname_suffix_width hn = (case hn_suffix hn of None \<Rightarrow> 0 | Some s \<Rightarrow> int (length s))"

section \<open>Host ranges\<close>

record hostrange =
  hr_prefix :: string
  hr_lo :: ulong
  hr_hi :: ulong
  hr_width :: int
  hr_single :: bool

definition hostrange_create_single :: "string \<Rightarrow> hostrange" where
  "hostrange_create_single prefix =
    \<lparr>hr_prefix = prefix, hr_lo = 0, hr_hi = 0, hr_width = 0, hr_single = True\<rparr>"

definition hostrange_create :: "string \<Rightarrow> ulong \<Rightarrow> ulong \<Rightarrow> int \<Rightarrow> hostrange" where
  "hostrange_create prefix lo hi width =
    \<lparr>hr_prefix = prefix, hr_lo = lo, hr_hi = hi, hr_width = width, hr_single = False\<rparr>"

definition hostrange_count :: "hostrange \<Rightarrow> ulong" where
  "hostrange_count hr = (if hr_single hr then 1 else hr_hi hr - hr_lo hr + 1)"

definition hostrange_copy :: "hostrange \<Rightarrow> hostrange" where
  "hostrange_copy hr =
    (if hr_single hr then hostrange_create_single (hr_prefix hr)
     else hostrange_create (hr_prefix hr) (hr_lo hr) (hr_hi hr) (hr_width hr))"

text \<open>The result is the new, greater range (if the range was split) and the adjusted range.\<close>

definition hostrange_delete_host ::
    "hostrange \<Rightarrow> ulong \<Rightarrow> (hostrange option \<times> hostrange) option" where
  "hostrange_delete_host hr n =
    (if \<not> (hr_lo hr \<le> n \<and> n \<le> hr_hi hr) then None
     else if n = hr_lo hr then Some (None, hr\<lparr>hr_lo := hr_lo hr + 1\<rparr>)
     else if n = hr_hi hr then Some (None, hr\<lparr>hr_hi := hr_hi hr - 1\<rparr>)
     else Some (Some ((hostrange_copy hr)\<lparr>hr_lo := n + 1\<rparr>), hr\<lparr>hr_hi := n - 1\<rparr>))"

definition hostrange_prefix_cmp :: "hostrange option \<Rightarrow> hostrange option \<Rightarrow> int" where
  "hostrange_prefix_cmp p1 p2 =
    (case p1 of
       None \<Rightarrow> 1
     | Some h1 \<Rightarrow>
        (case p2 of
           None \<Rightarrow> - 1
         | Some h2 \<Rightarrow>
            let retval = strcmp (hr_prefix h1) (hr_prefix h2)
            in if retval = 0 then of_bool (hr_single h2) - of_bool (hr_single h1) else retval))"

definition hostrange_within_range :: "hostrange option \<Rightarrow> hostrange option \<Rightarrow> bool" where
  "hostrange_within_range p1 p2 =
    (if hostrange_prefix_cmp p1 p2 = 0
     then (case (p1, p2) of
             (Some h1, Some h2) \<Rightarrow> \<not> (hr_single h1 \<or> hr_single h2)
           | _ \<Rightarrow> False)
     else False)"

definition hostrange_width_combine ::
    "hostrange \<Rightarrow> hostrange \<Rightarrow> bool \<times> hostrange \<times> hostrange" where
  "hostrange_width_combine h0 h1 =
    (case width_equiv (hr_lo h0) (hr_width h0) (hr_lo h1) (hr_width h1) of
       (r, w0, w1) \<Rightarrow> (r, h0\<lparr>hr_width := w0\<rparr>, h1\<lparr>hr_width := w1\<rparr>))"

definition hostrange_cmp :: "hostrange \<Rightarrow> hostrange \<Rightarrow> int \<times> hostrange \<times> hostrange" where
  "hostrange_cmp h1 h2 =
    (let retval = hostrange_prefix_cmp (Some h1) (Some h2)
     in if retval = 0
        then (case hostrange_width_combine h1 h2 of
                (True, g1, g2) \<Rightarrow> (to_int (hr_lo g1 - hr_lo g2), g1, g2)
              | (False, g1, g2) \<Rightarrow> (hr_width g1 - hr_width g2, g1, g2))
        else (retval, h1, h2))"

definition hostrange_empty :: "hostrange \<Rightarrow> bool" where
  "hostrange_empty hr \<longleftrightarrow> hr_hi hr < hr_lo hr \<or> hr_hi hr = ULONG_MAX"

text \<open>\<open>%s%0*lu\<close>, cut to a buffer of \<open>sz\<close> characters.\<close>

definition host_string :: "nat \<Rightarrow> hostrange \<Rightarrow> ulong \<Rightarrow> string" where
  "host_string sz hr n = take (sz - 1) (hr_prefix hr @ pad (nat (hr_width hr)) (unat n))"

definition hostrange_pop :: "hostrange \<Rightarrow> string option \<times> hostrange" where
  "hostrange_pop hr =
    (if hr_single hr then (Some (hr_prefix hr), hr\<lparr>hr_lo := hr_lo hr + 1\<rparr>)
     else if hostrange_count hr > 0
     then (Some (host_string (length (hr_prefix hr) + nat (hr_width hr) + 16) hr (hr_hi hr)),
           hr\<lparr>hr_hi := hr_hi hr - 1\<rparr>)
     else (None, hr))"

definition hostrange_shift :: "hostrange \<Rightarrow> string option \<times> hostrange" where
  "hostrange_shift hr =
    (if hr_single hr then (Some (hr_prefix hr), hr\<lparr>hr_lo := hr_lo hr + 1\<rparr>)
     else if hostrange_count hr > 0
     then (Some (host_string (length (hr_prefix hr) + nat (hr_width hr) + 16) hr (hr_lo hr)),
           hr\<lparr>hr_lo := hr_lo hr + 1\<rparr>)
     else (None, hr))"

definition hostrange_join :: "hostrange \<Rightarrow> hostrange \<Rightarrow> (int \<times> hostrange \<times> hostrange) option" where
  "hostrange_join a1 a2 =
    (case hostrange_cmp a1 a2 of
       (c, h1, h2) \<Rightarrow>
        if \<not> c \<le> 0 then None
        else if hostrange_prefix_cmp (Some h1) (Some h2) = 0
        then (case hostrange_width_combine h1 h2 of
                (False, g1, g2) \<Rightarrow> Some (- 1, g1, g2)
              | (True, g1, g2) \<Rightarrow>
                  if hr_single g1 \<and> hr_single g2 then Some (1, g1, g2)
                  else if hr_hi g1 = hr_lo g2 - 1 then Some (0, g1\<lparr>hr_hi := hr_hi g2\<rparr>, g2)
                  else if hr_hi g1 \<ge> hr_lo g2
                  then (if hr_hi g1 < hr_hi g2
                        then Some (to_int (hr_hi g1 - hr_lo g2 + 1), g1\<lparr>hr_hi := hr_hi g2\<rparr>, g2)
                        else Some (to_int (hostrange_count g2), g1, g2))
                  else Some (- 1, g1, g2))
        else Some (- 1, h1, h2))"

definition hostrange_intersect ::
    "hostrange \<Rightarrow> hostrange \<Rightarrow> (hostrange option \<times> hostrange \<times> hostrange) option" where
  "hostrange_intersect a1 a2 =
    (if hr_single a1 \<or> hr_single a2 then Some (None, a1, a2)
     else (case hostrange_cmp a1 a2 of
       (c, h1, h2) \<Rightarrow>
        if \<not> c \<le> 0 then None
        else if hostrange_prefix_cmp (Some h1) (Some h2) = 0 \<and> hr_hi h1 > hr_lo h2
        then (case hostrange_width_combine h1 h2 of
                (False, g1, g2) \<Rightarrow> Some (None, g1, g2)
              | (True, g1, g2) \<Rightarrow>
                  Some (Some ((hostrange_copy g1)\<lparr>hr_lo := hr_lo g2,
                              hr_hi := (if hr_hi g2 < hr_hi g1 then hr_hi g2 else hr_hi g1)\<rparr>),
                        g1, g2))
        else Some (None, h1, h2)))"

definition hostrange_hn_within :: "hostrange \<Rightarrow> hostname \<Rightarrow> bool \<times> hostrange" where
  "hostrange_hn_within hr hn =
    (if hr_single hr then (strcmp (hn_hostname hn) (hr_prefix hr) = 0, hr)
     else if \<not> hostname_suffix_is_valid hn then (False, hr)
     else if strcmp (hr_prefix hr) (hn_prefix hn) \<noteq> 0 then (False, hr)
     else if hn_num hn \<le> hr_hi hr \<and> hn_num hn \<ge> hr_lo hr
     then (let width = hostname_suffix_width hn;
               num = to_int (hn_num hn)
           in case width_equiv (hr_lo hr) (hr_width hr) (word_of_int num) width of
                (r, w, w') \<Rightarrow> (r, hr\<lparr>hr_width := w\<rparr>))
     else (False, hr))"

section \<open>Writing a range into a buffer\<close>

text \<open>
  The loop over \<open>i = lo .. hi\<close> writes at \<open>buf + off + len\<close>; it would not end for
  \<open>hi = ULONG_MAX\<close>.  The result says whether the text was truncated.
\<close>

partial_function (option) to_string_loop ::
    "hostrange \<Rightarrow> nat \<Rightarrow> string \<Rightarrow> nat \<Rightarrow> char \<Rightarrow> ulong \<Rightarrow> nat \<Rightarrow> (bool \<times> nat \<times> string) option" where
  "to_string_loop hr n buf off sep i len =
    (if i \<le> hr_hi hr
     then (let m = n - len;
               s = hr_prefix hr @ pad (nat (hr_width hr)) (unat i)
           in do {
             buf1 \<leftarrow> snprintf_at buf (off + len) m s;
             if length s \<ge> m then Some (True, n, buf1)
             else do {
               buf2 \<leftarrow> bwrite buf1 (off + len + length s) [sep];
               to_string_loop hr n buf2 off sep (i + 1) (len + length s + 1)
             }
           })
     else Some (False, len, buf))"

declare to_string_loop.simps [code]

definition hostrange_to_string ::
    "hostrange \<Rightarrow> nat \<Rightarrow> string \<Rightarrow> nat \<Rightarrow> char option \<Rightarrow> (int \<times> string) option" where
  "hostrange_to_string hr n buf off separator =
    (let sep = (case separator of None \<Rightarrow> CHR '','' | Some c \<Rightarrow> c)
     in if n = 0 then Some (0, buf)
        else if hr_single hr
        then do {
          buf1 \<leftarrow> snprintf_at buf off n (hr_prefix hr);
          Some (int (length (hr_prefix hr)), buf1)
        }
        else do {
          (truncated, len, buf1) \<leftarrow> to_string_loop hr n buf off sep (hr_lo hr) 0;
          if truncated then do { buf2 \<leftarrow> bwrite buf1 (off + n - 1) [CHR 0x00]; Some (- 1, buf2) }
          else if len = 0 then None
          else do { buf2 \<leftarrow> bwrite buf1 (off + len - 1) [CHR 0x00]; Some (int len - 1, buf2) }
        })"

definition hostrange_numstr :: "hostrange \<Rightarrow> nat \<Rightarrow> string \<Rightarrow> nat \<Rightarrow> (nat \<times> string) option" where
  "hostrange_numstr hr n buf off =
    (if hr_single hr \<or> n = 0 then Some (0, buf)
     else (let s = pad (nat (hr_width hr)) (unat (hr_lo hr));
               len = length s
           in do {
             buf1 \<leftarrow> snprintf_at buf off n s;
             if len < n \<and> hr_lo hr < hr_hi hr
             then (let s2 = CHR ''-'' # pad (nat (hr_width hr)) (unat (hr_hi hr))
                   in do {
                     buf2 \<leftarrow> snprintf_at buf1 (off + len) (n - len) s2;
                     Some (len + length s2, buf2)
                   })
             else Some (len, buf1)
           }))"

end
