(* ===== verification/HostrangeLaws.thy ===== *)
theory HostrangeLaws
  imports Hostrange CListSort
begin

text \<open>
  What a host range denotes (\<open>hr_hosts\<close>, the names it prints), that adjusting the format
  widths never changes it, the order \<open>hostrange_cmp\<close> implements, and the joining, splitting
  and shrinking of ranges in terms of the denoted names.
\<close>

section \<open>Padding\<close>

lemma num_digits_dec: "num_digits n = length (dec n)"
proof (induction n rule: num_digits.induct)
  case (1 n)
  then show ?case
    by (subst num_digits.simps, subst dec.simps) (auto simp: div_eq_0_iff)
qed

lemma zero_padded_eq:
  "zero_padded n w = int (max (nat w) (length (dec (unat n)))) - int (length (dec (unat n)))"
  by (auto simp: zero_padded_def num_digits_dec Let_def max_def)

lemma pad_eq_iff: "pad w n = pad w' n \<longleftrightarrow> max w (length (dec n)) = max w' (length (dec n))"
proof
  show "pad w n = pad w' n \<Longrightarrow> max w (length (dec n)) = max w' (length (dec n))"
    by (metis length_pad)
  show "max w (length (dec n)) = max w' (length (dec n)) \<Longrightarrow> pad w n = pad w' n"
    unfolding pad_def by (metis diff_is_0_eq' max.absorb1 max.cobounded2 max_def nat_le_linear)
qed

lemma zero_padded_pad:
  "zero_padded n w = zero_padded n w' \<longleftrightarrow> pad (nat w) (unat n) = pad (nat w') (unat n)"
  by (simp add: zero_padded_eq pad_eq_iff)

lemma pad_stays:
  assumes "pad w m = pad w' m" "m \<le> k"
  shows "pad w k = pad w' k"
  using assms dec_length_mono[OF assms(2)] by (auto simp: pad_eq_iff max_def split: if_splits)

lemma width_equiv_sound:
  assumes "width_equiv n wn m wm = (r, wn', wm')"
  shows "pad (nat wn') (unat n) = pad (nat wn) (unat n)" "pad (nat wm') (unat m) = pad (nat wm) (unat m)"
    "wn' \<in> {wn, wm}" "wm' \<in> {wn, wm}" "r \<Longrightarrow> wn' = wm'"
    "\<not> r \<Longrightarrow> wn' = wn \<and> wm' = wm \<and> pad (nat wn) (unat n) \<noteq> pad (nat wm) (unat n) \<and>
             pad (nat wn) (unat m) \<noteq> pad (nat wm) (unat m)"
  using assms unfolding width_equiv_def Let_def
  by (auto simp flip: zero_padded_pad split: if_splits)

section \<open>Denotation\<close>

definition hr_ok :: "hostrange \<Rightarrow> bool" where
  "hr_ok h \<longleftrightarrow> 0 \<le> hr_width h \<and> (hr_single h \<longrightarrow> hr_lo h = 0 \<and> hr_hi h = 0) \<and>
    hr_lo h \<le> hr_hi h \<and> unat (hr_hi h) < 2 ^ 31 - 1"

definition hr_hosts :: "hostrange \<Rightarrow> string list" where
  "hr_hosts h =
    (if hr_single h then [hr_prefix h]
     else map (\<lambda>n. hr_prefix h @ pad (nat (hr_width h)) n) [unat (hr_lo h) ..< Suc (unat (hr_hi h))])"

text \<open>Two ranges that differ in a width that does not matter.\<close>

definition same_range :: "hostrange \<Rightarrow> hostrange \<Rightarrow> bool" where
  "same_range h g \<longleftrightarrow> (0 \<le> hr_width h \<longleftrightarrow> 0 \<le> hr_width g) \<and> g = h\<lparr>hr_width := hr_width g\<rparr> \<and>
    pad (nat (hr_width g)) (unat (hr_lo h)) = pad (nat (hr_width h)) (unat (hr_lo h))"

lemma same_range_refl [simp]: "same_range h h"
  by (simp add: same_range_def)

lemma same_range_fields:
  assumes "same_range h g"
  shows "hr_prefix g = hr_prefix h" "hr_lo g = hr_lo h" "hr_hi g = hr_hi h" "hr_single g = hr_single h"
    "hr_ok g = hr_ok h" "hostrange_count g = hostrange_count h" "hr_hosts g = hr_hosts h"
proof -
  have g: "g = h\<lparr>hr_width := hr_width g\<rparr>"
    and w: "pad (nat (hr_width g)) (unat (hr_lo h)) = pad (nat (hr_width h)) (unat (hr_lo h))"
    and s: "0 \<le> hr_width h \<longleftrightarrow> 0 \<le> hr_width g"
    using assms by (auto simp: same_range_def)
  show f: "hr_prefix g = hr_prefix h" "hr_lo g = hr_lo h" "hr_hi g = hr_hi h" "hr_single g = hr_single h"
    by (subst g, simp)+
  then show "hr_ok g = hr_ok h" "hostrange_count g = hostrange_count h"
    using s by (simp_all add: hr_ok_def hostrange_count_def)
  show "hr_hosts g = hr_hosts h"
    using f pad_stays[OF w] by (auto simp: hr_hosts_def)
qed

lemma same_range_sym: "same_range h g \<Longrightarrow> same_range g h"
  by (cases h; cases g) (auto simp: same_range_def)

lemma same_range_trans: "same_range h g \<Longrightarrow> same_range g k \<Longrightarrow> same_range h k"
  by (cases h; cases g; cases k) (auto simp: same_range_def)

lemma hr_hosts_length [simp]:
  "hr_ok h \<Longrightarrow> length (hr_hosts h) = (if hr_single h then 1 else Suc (unat (hr_hi h)) - unat (hr_lo h))"
  by (auto simp: hr_hosts_def hr_ok_def word_le_nat_alt)

lemma hr_hosts_nonempty: "hr_ok h \<Longrightarrow> hr_hosts h \<noteq> []"
  by (auto simp: hr_hosts_def hr_ok_def word_le_nat_alt)

lemma hr_ok_nat:
  "hr_ok h \<Longrightarrow> unat (hr_lo h) \<le> unat (hr_hi h) \<and> unat (hr_hi h) < 2 ^ 31 - 1"
  by (simp add: hr_ok_def word_le_nat_alt)

lemma unat_count:
  assumes "hr_ok h"
  shows "unat (hostrange_count h) = length (hr_hosts h)" "length (hr_hosts h) < 2 ^ 31"
proof -
  have le: "hr_lo h \<le> hr_hi h" and n: "unat (hr_lo h) \<le> unat (hr_hi h)" "unat (hr_hi h) < 2 ^ 31 - 1"
    using assms hr_ok_nat[OF assms] by (auto simp: hr_ok_def)
  have "unat (hr_hi h - hr_lo h) = unat (hr_hi h) - unat (hr_lo h)"
    using le by (rule unat_sub)
  moreover from this n have "unat (hr_hi h - hr_lo h + 1) = unat (hr_hi h - hr_lo h) + 1"
    by (subst unat_add_lem[THEN iffD1]) simp_all
  ultimately show "unat (hostrange_count h) = length (hr_hosts h)" "length (hr_hosts h) < 2 ^ 31"
    using assms n by (auto simp: hostrange_count_def)
qed

lemma count_int:
  assumes "hr_ok h"
  shows "to_int (hostrange_count h) = int (length (hr_hosts h))"
  using unat_count[OF assms] by (simp add: to_int_small)

section \<open>Width adjustment\<close>

lemma width_combine_same:
  assumes "hostrange_width_combine h0 h1 = (r, g0, g1)" "0 \<le> hr_width h0" "0 \<le> hr_width h1"
  shows "same_range h0 g0" "same_range h1 g1" "r \<Longrightarrow> hr_width g0 = hr_width g1"
proof -
  from assms(1) obtain w0 w1 where w: "width_equiv (hr_lo h0) (hr_width h0) (hr_lo h1) (hr_width h1) = (r, w0, w1)"
    and g: "g0 = h0\<lparr>hr_width := w0\<rparr>" "g1 = h1\<lparr>hr_width := w1\<rparr>"
    by (auto simp: hostrange_width_combine_def split: prod.splits)
  note s = width_equiv_sound[OF w]
  show "same_range h0 g0" "same_range h1 g1" "r \<Longrightarrow> hr_width g0 = hr_width g1"
    using s assms(2,3) by (auto simp: same_range_def g)
qed

lemma hn_within_same:
  assumes "hostrange_hn_within h hn = (r, g)" "0 \<le> hr_width h"
  shows "same_range h g"
proof -
  have w: "0 \<le> hostname_suffix_width hn"
    by (simp add: hostname_suffix_width_def split: option.splits)
  obtain r' w0 w1 where e: "width_equiv (hr_lo h) (hr_width h) (word_of_int (to_int (hn_num hn)))
      (hostname_suffix_width hn) = (r', w0, w1)" by (metis prod_cases3)
  have "same_range h (h\<lparr>hr_width := w0\<rparr>)"
    using width_equiv_sound(1,3)[OF e] w assms(2) by (auto simp: same_range_def)
  then show ?thesis
    using assms e by (auto simp: hostrange_hn_within_def Let_def split: if_splits)
qed

section \<open>The order of ranges\<close>

text \<open>
  A zero-padded range comes after the unpadded ones with fewer digits than its width and
  before those with at least as many; \<open>hr_rank\<close> encodes this, ties resolved by \<open>lo\<close>.
\<close>

definition num_rank :: "nat \<Rightarrow> nat \<Rightarrow> nat" where
  "num_rank w n =
    (if length (dec n) < w then 2 * w else 2 * length (dec n) + 1) * 2 ^ 31 + n"

definition hr_order :: "hostrange \<Rightarrow> hostrange \<Rightarrow> int" where
  "hr_order h1 h2 =
    (let r = strcmp (hr_prefix h1) (hr_prefix h2)
     in if r \<noteq> 0 then r
        else if hr_single h1 \<noteq> hr_single h2 then of_bool (hr_single h2) - of_bool (hr_single h1)
        else int (num_rank (nat (hr_width h1)) (unat (hr_lo h1))) -
             int (num_rank (nat (hr_width h2)) (unat (hr_lo h2))))"

interpretation hr: comparison hr_order
proof
  fix x y z
  have a: "strcmp (hr_prefix x) (hr_prefix y) = - strcmp (hr_prefix y) (hr_prefix x)" for x y
    by (rule strcmp_anti)
  show "hr_order x y < 0 \<longleftrightarrow> 0 < hr_order y x"
    using a[of x y] by (auto simp: hr_order_def Let_def)
  assume xy: "hr_order x y \<le> 0" and yz: "hr_order y z \<le> 0"
  let ?s = "\<lambda>x y. strcmp (hr_prefix x) (hr_prefix y)"
  have le: "?s x y \<le> 0" "?s y z \<le> 0"
    using xy yz by (auto simp: hr_order_def Let_def split: if_splits)
  then have "?s x z \<le> 0" by (rule strcmp_trans)
  show "hr_order x z \<le> 0"
  proof (cases "?s x z = 0")
    case False
    with \<open>?s x z \<le> 0\<close> show ?thesis by (simp add: hr_order_def Let_def)
  next
    case True
    with le have "?s x y = 0" "?s y z = 0"
      using a[of x y] by auto
    with xy yz show ?thesis
      by (auto simp: hr_order_def Let_def split: if_splits)
  qed
qed

lemma rank_by_number:
  assumes "pad w1 n1 = pad w2 n1 \<or> pad w1 n2 = pad w2 n2" "n1 < 2 ^ 31" "n2 < 2 ^ 31"
  shows "n1 < n2 \<Longrightarrow> num_rank w1 n1 < num_rank w2 n2" "n1 = n2 \<Longrightarrow> num_rank w1 n1 = num_rank w2 n2"
proof -
  have m: "n1 \<le> n2 \<Longrightarrow> length (dec n1) \<le> length (dec n2)"
    by (rule dec_length_mono)
  let ?c = "\<lambda>w n. if length (dec n) < w then 2 * w else 2 * length (dec n) + 1"
  have "n1 \<le> n2 \<Longrightarrow> ?c w1 n1 \<le> ?c w2 n2"
    using assms(1) m unfolding pad_eq_iff max_def by (auto split: if_splits)
  then show "n1 < n2 \<Longrightarrow> num_rank w1 n1 < num_rank w2 n2"
    unfolding num_rank_def using assms(2,3)
    by (metis add_le_less_mono less_imp_le mult_le_mono1)
  show "n1 = n2 \<Longrightarrow> num_rank w1 n1 = num_rank w2 n2"
    using assms(1) unfolding pad_eq_iff num_rank_def max_def by (auto split: if_splits)
qed

lemma rank_by_width:
  assumes "pad w1 n1 \<noteq> pad w2 n1" "pad w1 n2 \<noteq> pad w2 n2" "n1 < 2 ^ 31" "n2 < 2 ^ 31" "w1 < w2"
  shows "num_rank w1 n1 < num_rank w2 n2"
proof -
  let ?c = "\<lambda>w n. if length (dec n) < w then 2 * w else 2 * length (dec n) + 1"
  have "Suc (?c w1 n1) \<le> ?c w2 n2"
    using assms(1,2,5) unfolding pad_eq_iff max_def by (auto split: if_splits)
  then have "Suc (?c w1 n1) * 2 ^ 31 \<le> ?c w2 n2 * 2 ^ 31"
    by (rule mult_le_mono1)
  then show ?thesis
    using assms(3) by (simp add: num_rank_def split: if_splits)
qed

lemma hostrange_cmp_order:
  assumes "hr_ok h1" "hr_ok h2" "hostrange_cmp h1 h2 = (c, g1, g2)"
  shows "same_range h1 g1" "same_range h2 g2" "sgn c = sgn (hr_order h1 h2)"
proof -
  have w: "0 \<le> hr_width h1" "0 \<le> hr_width h2"
    and lo: "unat (hr_lo h1) < 2 ^ 31" "unat (hr_lo h2) < 2 ^ 31"
    using assms(1,2) hr_ok_nat[of h1] hr_ok_nat[of h2] by (auto simp: hr_ok_def)
  obtain r k1 k2 where cm: "hostrange_width_combine h1 h2 = (r, k1, k2)"
    by (metis prod_cases3)
  note sm = width_combine_same[OF cm w]
  note fs = same_range_fields[OF sm(1)] same_range_fields[OF sm(2)]
  show "same_range h1 g1" "same_range h2 g2"
    using assms(3) cm sm by (auto simp: hostrange_cmp_def Let_def split: if_splits bool.splits)
  obtain w1 w2 where we: "width_equiv (hr_lo h1) (hr_width h1) (hr_lo h2) (hr_width h2) = (r, w1, w2)"
    and k: "k1 = h1\<lparr>hr_width := w1\<rparr>" "k2 = h2\<lparr>hr_width := w2\<rparr>"
    using cm by (auto simp: hostrange_width_combine_def split: prod.splits)
  note s = width_equiv_sound[OF we]
  let ?n1 = "unat (hr_lo h1)" and ?n2 = "unat (hr_lo h2)"
  let ?w1 = "nat (hr_width h1)" and ?w2 = "nat (hr_width h2)"
  have comb: "pad ?w1 ?n1 = pad ?w2 ?n1 \<or> pad ?w1 ?n2 = pad ?w2 ?n2" if r
  proof -
    have "w1 = w2" using s(5) that by simp
    with s(1-3) show ?thesis by auto
  qed
  then have comb': "pad ?w2 ?n2 = pad ?w1 ?n2 \<or> pad ?w2 ?n1 = pad ?w1 ?n1" if r
    using that by metis
  show "sgn c = sgn (hr_order h1 h2)"
  proof (cases "hostrange_prefix_cmp (Some h1) (Some h2) = 0")
    case False
    then show ?thesis
      using assms(3) by (auto simp: hostrange_cmp_def hostrange_prefix_cmp_def hr_order_def Let_def split: if_splits)
  next
    case True
    then have p: "strcmp (hr_prefix h1) (hr_prefix h2) = 0" "hr_single h1 = hr_single h2"
      by (auto simp: hostrange_prefix_cmp_def Let_def split: if_splits)
    then have o: "hr_order h1 h2 = int (num_rank ?w1 ?n1) - int (num_rank ?w2 ?n2)"
      by (simp add: hr_order_def)
    show ?thesis
    proof (cases r)
      case True
      then have "c = int ?n1 - int ?n2"
        using assms(3) cm \<open>hostrange_prefix_cmp _ _ = 0\<close> fs lo
        by (simp add: hostrange_cmp_def to_int_diff)
      then show ?thesis
        using rank_by_number(1)[OF comb[OF True] lo] rank_by_number(2)[OF comb[OF True] lo]
          rank_by_number(1)[OF comb'[OF True] lo(2,1)] unfolding o
        by (cases ?n1 ?n2 rule: linorder_cases)
           (simp_all add: word_less_nat_alt[symmetric] word_less_def)
    next
      case False
      then have c: "c = hr_width h1 - hr_width h2"
        using assms(3) cm \<open>hostrange_prefix_cmp _ _ = 0\<close> s(6) k
        by (auto simp: hostrange_cmp_def)
      note ne = s(6)[OF False]
      then have "?w1 \<noteq> ?w2" by auto
      then consider "?w1 < ?w2" | "?w2 < ?w1" by linarith
      then show ?thesis
      proof cases
        case 1
        with rank_by_width[of ?w1 ?n1 ?w2 ?n2] ne lo have "num_rank ?w1 ?n1 < num_rank ?w2 ?n2" by simp
        with 1 w o c show ?thesis by simp
      next
        case 2
        from ne have "pad ?w2 ?n2 \<noteq> pad ?w1 ?n2" "pad ?w2 ?n1 \<noteq> pad ?w1 ?n1" by auto
        from rank_by_width[OF this lo(2,1) 2] have "num_rank ?w2 ?n2 < num_rank ?w1 ?n1" .
        with 2 w o c show ?thesis by simp
      qed
    qed
  qed
qed

lemma num_rank_pad: "pad w n = pad w' n \<Longrightarrow> num_rank w n = num_rank w' n"
  unfolding pad_eq_iff num_rank_def max_def by (auto split: if_splits)

lemma hr_order_same:
  assumes "same_range h1 k1" "same_range h2 k2"
  shows "hr_order k1 k2 = hr_order h1 h2"
proof -
  have "num_rank (nat (hr_width k)) (unat (hr_lo h)) = num_rank (nat (hr_width h)) (unat (hr_lo h))"
    if "same_range h k" for h k
    using that by (intro num_rank_pad) (simp add: same_range_def)
  from this[OF assms(1)] this[OF assms(2)] show ?thesis
    by (simp add: hr_order_def Let_def same_range_fields(1-4)[OF assms(1)]
        same_range_fields(1-4)[OF assms(2)])
qed

section \<open>Joining\<close>

lemma prefix_cmp_0:
  "hostrange_prefix_cmp (Some h1) (Some h2) = 0 \<longleftrightarrow>
   hr_prefix h1 = hr_prefix h2 \<and> hr_single h1 = hr_single h2"
  by (auto simp: hostrange_prefix_cmp_def Let_def)

lemma prefix_cmp_same:
  "same_range h1 g1 \<Longrightarrow> same_range h2 g2 \<Longrightarrow>
   hostrange_prefix_cmp (Some g1) (Some g2) = hostrange_prefix_cmp (Some h1) (Some h2)"
  by (simp add: hostrange_prefix_cmp_def same_range_fields(1)[of h1 g1] same_range_fields(4)[of h1 g1]
      same_range_fields(1)[of h2 g2] same_range_fields(4)[of h2 g2])

lemma combine_order:
  assumes "hr_ok h1" "hr_ok h2" "hostrange_prefix_cmp (Some h1) (Some h2) = 0"
    "hostrange_width_combine h1 h2 = (True, g1, g2)" "hr_order h1 h2 \<le> 0"
  shows "hr_lo h1 \<le> hr_lo h2"
proof -
  have lo: "unat (hr_lo h1) < 2 ^ 31" "unat (hr_lo h2) < 2 ^ 31"
    using hr_ok_nat[OF assms(1)] hr_ok_nat[OF assms(2)] by auto
  have "hostrange_cmp h1 h2 = (to_int (hr_lo g1 - hr_lo g2), g1, g2)"
    using assms(3,4) by (simp add: hostrange_cmp_def)
  note co = hostrange_cmp_order[OF assms(1,2) this]
  have "sgn (to_int (hr_lo h1 - hr_lo h2)) = sgn (hr_order h1 h2)"
    using co(3) by (simp add: same_range_fields(2)[OF co(1)] same_range_fields(2)[OF co(2)])
  with assms(5) have "to_int (hr_lo h1 - hr_lo h2) \<le> 0"
    by (auto simp: sgn_if split: if_splits)
  with to_int_diff[OF lo] show ?thesis
    by (simp add: word_le_def)
qed

text \<open>The heart of \<open>hostrange_join\<close>: two numeric ranges printed alike.\<close>

definition hr_union :: "hostrange \<Rightarrow> hostrange \<Rightarrow> (int \<times> hostrange \<times> hostrange) option" where
  "hr_union g1 g2 =
    (if hr_hi g1 = hr_lo g2 - 1 then Some (0, g1\<lparr>hr_hi := hr_hi g2\<rparr>, g2)
     else if hr_hi g1 \<ge> hr_lo g2
     then (if hr_hi g1 < hr_hi g2
           then Some (to_int (hr_hi g1 - hr_lo g2 + 1), g1\<lparr>hr_hi := hr_hi g2\<rparr>, g2)
           else Some (to_int (hostrange_count g2), g1, g2))
     else Some (- 1, g1, g2))"

lemma unat_pred: "unat (b :: ulong) < 2 ^ 31 \<Longrightarrow> unat a < 2 ^ 31 \<Longrightarrow> a = b - 1 \<longleftrightarrow> Suc (unat a) = unat b"
proof -
  assume a: "unat a < 2 ^ 31" "unat b < 2 ^ 31"
  have "a = b - 1 \<longleftrightarrow> a + 1 = b" by auto
  also have "\<dots> \<longleftrightarrow> unat (a + 1) = unat b" by (simp add: word_unat_eq_iff)
  also have "unat (a + 1) = unat a + 1"
    using a by (subst unat_add_lem[THEN iffD1]) simp_all
  finally show ?thesis by simp
qed

lemma hr_hosts_image:
  "\<not> hr_single h \<Longrightarrow> set (hr_hosts h) =
   (\<lambda>n. hr_prefix h @ pad (nat (hr_width h)) n) ` {unat (hr_lo h) .. unat (hr_hi h)}"
  by (simp add: hr_hosts_def atLeastLessThanSuc_atLeastAtMost del: upt_Suc)

lemma hr_union_result:
  assumes ok: "hr_ok g1" "hr_ok g2" and "hr_prefix g2 = hr_prefix g1" "\<not> hr_single g1" "\<not> hr_single g2"
    "hr_width g2 = hr_width g1" "hr_lo g1 \<le> hr_lo g2"
  shows "\<exists>d g. hr_union g1 g2 = Some (d, g, g2) \<and> hr_ok g \<and> - 1 \<le> d \<and>
    hr_prefix g = hr_prefix g1 \<and> hr_lo g = hr_lo g1 \<and> hr_single g = hr_single g1 \<and>
    (if d < 0 then g = g1
     else set (hr_hosts g) = set (hr_hosts g1) \<union> set (hr_hosts g2) \<and>
          int (length (hr_hosts g)) = int (length (hr_hosts g1)) + int (length (hr_hosts g2)) - d)"
proof -
  let ?l1 = "unat (hr_lo g1)" and ?h1 = "unat (hr_hi g1)"
  let ?l2 = "unat (hr_lo g2)" and ?h2 = "unat (hr_hi g2)"
  have n: "?l1 \<le> ?h1" "?l2 \<le> ?h2" "?l1 \<le> ?l2" "?h1 < 2 ^ 31 - 1" "?h2 < 2 ^ 31 - 1"
    using hr_ok_nat[OF ok(1)] hr_ok_nat[OF ok(2)] assms(7) by (auto simp: word_le_nat_alt)
  let ?g = "g1\<lparr>hr_hi := hr_hi g2\<rparr>"
  have g: "hr_ok ?g" "\<not> hr_single ?g"
    using ok n assms(4) by (auto simp: hr_ok_def word_le_nat_alt)
  have im: "set (hr_hosts ?g) = set (hr_hosts g1) \<union> set (hr_hosts g2)" if "?l2 \<le> Suc ?h1" "?h1 \<le> ?h2"
  proof -
    have "{?l1 .. ?h2} = {?l1 .. ?h1} \<union> {?l2 .. ?h2}" using n that by auto
    then show ?thesis
      using assms(3-6) g(2) by (simp add: hr_hosts_image image_Un)
  qed
  have sub: "set (hr_hosts g2) \<subseteq> set (hr_hosts g1)" if "?h2 \<le> ?h1"
  proof -
    have "{?l2 .. ?h2} \<subseteq> {?l1 .. ?h1}" using n that by auto
    then show ?thesis
      using assms(3-6) by (simp add: hr_hosts_image image_mono)
  qed
  have len: "length (hr_hosts ?g) = Suc ?h2 - ?l1" "length (hr_hosts g1) = Suc ?h1 - ?l1"
    "length (hr_hosts g2) = Suc ?h2 - ?l2"
    using ok g assms(4,5) by simp_all
  have pred: "hr_hi g1 = hr_lo g2 - 1 \<longleftrightarrow> Suc ?h1 = ?l2"
    by (rule unat_pred) (use n in auto)
  consider (adj) "Suc ?h1 = ?l2" | (over) "?l2 \<le> ?h1" "?h1 < ?h2" | (inside) "?l2 \<le> ?h1" "?h2 \<le> ?h1"
    | (apart) "Suc ?h1 < ?l2" by linarith
  then show ?thesis
  proof cases
    case adj
    then show ?thesis
      using n g im len pred by (intro exI[of _ 0] exI[of _ ?g]) (auto simp: hr_union_def)
  next
    case over
    let ?k = "g2\<lparr>hr_hi := hr_hi g1\<rparr>"
    have k: "hr_ok ?k" "\<not> hr_single ?k"
      using ok over n assms(5) by (auto simp: hr_ok_def word_le_nat_alt)
    obtain e where e: "e = Suc ?h1 - ?l2" by blast
    have d: "to_int (hr_hi g1 - hr_lo g2 + 1) = int e"
      using count_int[OF k(1)] k assms(5) by (simp add: hostrange_count_def e)
    have "length (hr_hosts ?g) + e = length (hr_hosts g1) + length (hr_hosts g2)"
      unfolding len e using over n by linarith
    then have le: "int (length (hr_hosts ?g)) = int (length (hr_hosts g1)) + int (length (hr_hosts g2)) - int e"
      by linarith
    have u: "hr_union g1 g2 = Some (int e, ?g, g2)"
      using over pred d by (simp add: hr_union_def word_le_nat_alt word_less_nat_alt)
    show ?thesis
      using g(1) im over n le unfolding u
      by (intro exI[of _ "int e"] exI[of _ ?g]) simp
  next
    case inside
    obtain e where e: "e = length (hr_hosts g2)" by blast
    have u: "hr_union g1 g2 = Some (int e, g1, g2)"
      using inside n pred count_int[OF ok(2)] by (simp add: hr_union_def word_le_nat_alt word_less_nat_alt e)
    show ?thesis
      using inside(2) ok sub unfolding u
      by (intro exI[of _ "int e"] exI[of _ g1]) (auto simp: e)
  next
    case apart
    then show ?thesis
      using n ok pred by (intro exI[of _ "- 1"] exI[of _ g1]) (auto simp: hr_union_def word_le_nat_alt)
  qed
qed

text \<open>
  \<open>hostrange_join\<close> on ranges in order: a negative result leaves both as they were (up to
  immaterial widths); otherwise the first range denotes the union, and the result is the
  number of names that were in both.
\<close>

lemma hostrange_join_result:
  assumes ok: "hr_ok h1" "hr_ok h2" and ord: "hr_order h1 h2 \<le> 0"
  shows "\<exists>d g1 g2. hostrange_join h1 h2 = Some (d, g1, g2) \<and> same_range h2 g2 \<and> hr_ok g1 \<and> - 1 \<le> d \<and>
    hr_prefix g1 = hr_prefix h1 \<and> hr_lo g1 = hr_lo h1 \<and> hr_single g1 = hr_single h1 \<and>
    (if d < 0 then same_range h1 g1
     else set (hr_hosts g1) = set (hr_hosts h1) \<union> set (hr_hosts h2) \<and>
          int (length (hr_hosts g1)) = int (length (hr_hosts h1)) + int (length (hr_hosts h2)) - d)"
proof -
  obtain c k1 k2 where cm: "hostrange_cmp h1 h2 = (c, k1, k2)" by (metis prod_cases3)
  note co = hostrange_cmp_order[OF ok cm]
  note kf = same_range_fields[OF co(1)] same_range_fields[OF co(2)]
  have c: "\<not> c > 0" using co(3) ord by (auto simp: sgn_if split: if_splits)
  note pc = prefix_cmp_same[OF co(1,2)]
  show ?thesis
  proof (cases "hostrange_prefix_cmp (Some h1) (Some h2) = 0")
    case False
    with cm c pc show ?thesis
      using co kf ok by (simp add: hostrange_join_def)
  next
    case True
    obtain r g1 g2 where wc: "hostrange_width_combine k1 k2 = (r, g1, g2)" by (metis prod_cases3)
    have kok: "hr_ok k1" "hr_ok k2" using kf ok by simp_all
    then have kw: "0 \<le> hr_width k1" "0 \<le> hr_width k2" by (simp_all add: hr_ok_def)
    note gs = width_combine_same[OF wc kw]
    have s: "same_range h1 g1" "same_range h2 g2"
      using same_range_trans co gs by blast+
    note gf = same_range_fields[OF s(1)] same_range_fields[OF s(2)]
    have gok: "hr_ok g1" "hr_ok g2" using gf ok by simp_all
    from True have pf: "hr_prefix h2 = hr_prefix h1" "hr_single h2 = hr_single h1"
      by (simp_all add: prefix_cmp_0)
    show ?thesis
    proof (cases r)
      case False
      with cm c pc True wc show ?thesis
        using s gok gf by (simp add: hostrange_join_def)
    next
      case r: True
      have "hr_order k1 k2 \<le> 0"
        using ord hr_order_same[OF co(1,2)] by simp
      moreover have "hostrange_width_combine k1 k2 = (True, g1, g2)"
        using wc r by simp
      ultimately have "hr_lo k1 \<le> hr_lo k2"
        using combine_order[OF kok] True pc by simp
      then have lo: "hr_lo g1 \<le> hr_lo g2" using gf kf by simp
      show ?thesis
      proof (cases "hr_single g1")
        case True
        then have hs: "hr_single h1" "hr_single h2" using gf pf by simp_all
        then have "hr_hosts h1 = hr_hosts h2" using pf by (simp add: hr_hosts_def)
        moreover have "hostrange_join h1 h2 = Some (1, g1, g2)"
          using cm c pc wc r \<open>hostrange_prefix_cmp _ _ = 0\<close> True hs gf by (simp add: hostrange_join_def)
        ultimately show ?thesis
          using s gok gf hs by (intro exI[of _ 1] exI[of _ g1] exI[of _ g2]) simp
      next
        case False
        have j: "hostrange_join h1 h2 = hr_union g1 g2"
          using cm c pc wc r \<open>hostrange_prefix_cmp _ _ = 0\<close> False gf
          by (simp add: hostrange_join_def hr_union_def)
        have "hr_prefix g2 = hr_prefix g1" "\<not> hr_single g2" "hr_width g2 = hr_width g1"
          using gf pf False gs(3)[OF r] by simp_all
        from hr_union_result[OF gok this(1) False this(2,3) lo] obtain d g where
          u: "hr_union g1 g2 = Some (d, g, g2)" "hr_ok g" "- 1 \<le> d" "hr_prefix g = hr_prefix g1"
            "hr_lo g = hr_lo g1" "hr_single g = hr_single g1"
            "if d < 0 then g = g1 else set (hr_hosts g) = set (hr_hosts g1) \<union> set (hr_hosts g2) \<and>
              int (length (hr_hosts g)) = int (length (hr_hosts g1)) + int (length (hr_hosts g2)) - d"
          by blast
        have "hr_hosts g1 = hr_hosts h1" "hr_hosts g2 = hr_hosts h2" using gf by simp_all
        then show ?thesis
          using u s unfolding j gf(1,2,4)
          by (intro exI[of _ d] exI[of _ g] exI[of _ g2]) (simp split: if_splits)
      qed
    qed
  qed
qed

section \<open>Deleting, popping, shifting\<close>

lemma host_string_full:
  assumes "hr_ok h" "unat n < 2 ^ 31"
  shows "host_string (length (hr_prefix h) + nat (hr_width h) + 16) h n =
    hr_prefix h @ pad (nat (hr_width h)) (unat n)"
proof -
  have "length (dec (unat n)) \<le> Suc 9"
    by (rule dec_length_bound) (use assms(2) in simp)
  then show ?thesis
    by (simp add: host_string_def length_pad)
qed

lemma hr_hosts_nth:
  "hr_ok h \<Longrightarrow> \<not> hr_single h \<Longrightarrow> k < length (hr_hosts h) \<Longrightarrow>
   hr_hosts h ! k = hr_prefix h @ pad (nat (hr_width h)) (unat (hr_lo h) + k)"
  by (simp add: hr_hosts_def del: upt_Suc)

lemma unat_succ: "unat (a :: ulong) < 2 ^ 31 \<Longrightarrow> unat (a + 1) = Suc (unat a)"
  by (subst unat_add_lem[THEN iffD1]) simp_all

lemma unat_minus_one: "0 < unat (a :: ulong) \<Longrightarrow> unat (a - 1) = unat a - 1"
  using unat_sub[of 1 a] by (simp add: word_le_nat_alt)

lemma unat_ULONG_MAX [simp]: "unat ULONG_MAX = 2 ^ 64 - 1"
  by (simp add: ULONG_MAX_def unsigned_minus_1_eq_mask mask_eq_exp_minus_1)

lemma small_not_max: "unat a < 2 ^ 31 \<Longrightarrow> a \<noteq> ULONG_MAX"
  by auto

text \<open>Dropping an end of a range that keeps at least one name.\<close>

lemma drop_lowest:
  assumes "hr_ok h" "\<not> hr_single h" "hr_lo h < hr_hi h"
  shows "hr_ok (h\<lparr>hr_lo := hr_lo h + 1\<rparr>)" "hr_hosts (h\<lparr>hr_lo := hr_lo h + 1\<rparr>) = tl (hr_hosts h)"
    "\<not> hostrange_empty (h\<lparr>hr_lo := hr_lo h + 1\<rparr>)"
proof -
  have n: "unat (hr_lo h + 1) = Suc (unat (hr_lo h))" "unat (hr_lo h) < unat (hr_hi h)"
    "unat (hr_hi h) < 2 ^ 31 - 1"
    using assms hr_ok_nat[OF assms(1)] by (auto intro: unat_succ simp: word_less_nat_alt)
  show ok: "hr_ok (h\<lparr>hr_lo := hr_lo h + 1\<rparr>)"
    using assms n by (auto simp: hr_ok_def word_le_nat_alt)
  show "hr_hosts (h\<lparr>hr_lo := hr_lo h + 1\<rparr>) = tl (hr_hosts h)"
    using assms(2) n by (simp add: hr_hosts_def map_tl[symmetric] upt_conv_Cons del: upt_Suc)
  show "\<not> hostrange_empty (h\<lparr>hr_lo := hr_lo h + 1\<rparr>)"
    using n small_not_max[of "hr_hi h"] by (auto simp: hostrange_empty_def word_less_nat_alt)
qed

lemma drop_highest:
  assumes "hr_ok h" "\<not> hr_single h" "hr_lo h < hr_hi h"
  shows "hr_ok (h\<lparr>hr_hi := hr_hi h - 1\<rparr>)" "hr_hosts (h\<lparr>hr_hi := hr_hi h - 1\<rparr>) = butlast (hr_hosts h)"
    "\<not> hostrange_empty (h\<lparr>hr_hi := hr_hi h - 1\<rparr>)"
proof -
  have lt: "unat (hr_lo h) < unat (hr_hi h)" "unat (hr_hi h) < 2 ^ 31 - 1"
    using assms hr_ok_nat[OF assms(1)] by (auto simp: word_less_nat_alt)
  then have n: "Suc (unat (hr_hi h - 1)) = unat (hr_hi h)"
    using unat_minus_one[of "hr_hi h"] by simp
  then have m: "unat (hr_hi h - 1) < 2 ^ 31" using lt by simp
  show ok: "hr_ok (h\<lparr>hr_hi := hr_hi h - 1\<rparr>)"
    using assms n lt by (auto simp: hr_ok_def word_le_nat_alt)
  show "hr_hosts (h\<lparr>hr_hi := hr_hi h - 1\<rparr>) = butlast (hr_hosts h)"
    using assms(2) n lt by (simp add: hr_hosts_def map_butlast[symmetric])
  have "hr_hi h - 1 \<noteq> ULONG_MAX"
    using m by (rule small_not_max)
  then show "\<not> hostrange_empty (h\<lparr>hr_hi := hr_hi h - 1\<rparr>)"
    using n lt by (auto simp: hostrange_empty_def word_less_nat_alt)
qed

lemma hostrange_pop_result:
  assumes ok: "hr_ok h"
  shows "\<exists>g. hostrange_pop h = (Some (last (hr_hosts h)), g) \<and>
    (if length (hr_hosts h) = 1 then hostrange_empty g
     else \<not> hostrange_empty g \<and> hr_ok g \<and> hr_hosts g = butlast (hr_hosts h))"
proof (cases "hr_single h")
  case True
  then show ?thesis
    using ok by (auto simp: hostrange_pop_def hr_hosts_def hostrange_empty_def hr_ok_def)
next
  case False
  note n = hr_ok_nat[OF ok] and c = unat_count[OF ok]
  have l: "length (hr_hosts h) = Suc (unat (hr_hi h)) - unat (hr_lo h)"
    using ok False by simp
  have pos: "hostrange_count h > 0"
    using c(1) l n by (simp add: word_less_nat_alt)
  have "last (hr_hosts h) = hr_prefix h @ pad (nat (hr_width h)) (unat (hr_hi h))"
    using False n by (simp add: hr_hosts_def)
  then have p: "hostrange_pop h = (Some (last (hr_hosts h)), h\<lparr>hr_hi := hr_hi h - 1\<rparr>)"
    using False pos n host_string_full[OF ok, of "hr_hi h"] by (simp add: hostrange_pop_def)
  show ?thesis
  proof (cases "hr_lo h = hr_hi h")
    case True
    have "hostrange_empty (h\<lparr>hr_hi := hr_hi h - 1\<rparr>)"
    proof (cases "hr_hi h = 0")
      case False
      then have "hr_hi h - 1 < hr_hi h"
        using unat_minus_one[of "hr_hi h"] by (simp add: word_less_nat_alt unat_gt_0)
      then show ?thesis using True by (simp add: hostrange_empty_def)
    qed (simp add: hostrange_empty_def ULONG_MAX_def)
    with p l True show ?thesis by simp
  next
    case ne: False
    then have "hr_lo h < hr_hi h" using ok by (simp add: hr_ok_def order_less_le)
    from drop_highest[OF ok False this] p l this show ?thesis
      by (auto simp: word_less_nat_alt)
  qed
qed

lemma hostrange_shift_result:
  assumes ok: "hr_ok h"
  shows "\<exists>g. hostrange_shift h = (Some (hd (hr_hosts h)), g) \<and>
    (if length (hr_hosts h) = 1 then hostrange_empty g
     else \<not> hostrange_empty g \<and> hr_ok g \<and> hr_hosts g = tl (hr_hosts h))"
proof (cases "hr_single h")
  case True
  then show ?thesis
    using ok by (auto simp: hostrange_shift_def hr_hosts_def hostrange_empty_def hr_ok_def)
next
  case False
  note n = hr_ok_nat[OF ok] and c = unat_count[OF ok]
  have l: "length (hr_hosts h) = Suc (unat (hr_hi h)) - unat (hr_lo h)"
    using ok False by simp
  have pos: "hostrange_count h > 0"
    using c(1) l n by (simp add: word_less_nat_alt)
  have "hd (hr_hosts h) = hr_prefix h @ pad (nat (hr_width h)) (unat (hr_lo h))"
    using False n by (simp add: hr_hosts_def hd_map upt_conv_Cons del: upt_Suc)
  then have p: "hostrange_shift h = (Some (hd (hr_hosts h)), h\<lparr>hr_lo := hr_lo h + 1\<rparr>)"
    using False pos n host_string_full[OF ok, of "hr_lo h"] by (simp add: hostrange_shift_def)
  show ?thesis
  proof (cases "hr_lo h = hr_hi h")
    case True
    have "hr_lo h < hr_lo h + 1"
      using n unat_succ[of "hr_lo h"] by (simp add: word_less_nat_alt)
    with True have "hostrange_empty (h\<lparr>hr_lo := hr_lo h + 1\<rparr>)"
      by (simp add: hostrange_empty_def)
    with p l True show ?thesis by simp
  next
    case ne: False
    then have "hr_lo h < hr_hi h" using ok by (simp add: hr_ok_def order_less_le)
    from drop_lowest[OF ok False this] p l this show ?thesis
      by (auto simp: word_less_nat_alt)
  qed
qed

end
