(* ===== verification/Hostlist.thy ===== *)
theory Hostlist
  imports Hostrange
begin

text \<open>
  The host list of \<open>lib/hostlist.c\<close>: an array of pointers to range objects.  The array and
  the objects are kept apart (\<open>hl_hr\<close> holds pointers, \<open>hl_mem\<close> the objects), so that the
  pointers cached in iterators may go stale as they do in the code.  A pointer is \<open>None\<close>
  when it is NULL.  As the result of an operation \<open>None\<close> stands for a failed assertion, an
  index outside the array, or the use of a NULL or dangling pointer.
\<close>

section \<open>Data types\<close>

type_synonym hr_ptr = "nat option"

record hl_iterator =
  hi_idx :: int
  hi_hr :: hr_ptr
  hi_depth :: int

record hostlist =
  hl_size :: nat
  hl_nranges :: nat
  hl_nhosts :: int
  hl_hr :: "hr_ptr list"
  hl_ilist :: "(nat \<times> hl_iterator) list"
  hl_mem :: "nat \<rightharpoonup> hostrange"
  hl_brk :: nat

definition HOSTLIST_CHUNK :: nat where
  "HOSTLIST_CHUNK = 16"

definition hostlist_new :: hostlist where
  "hostlist_new =
    \<lparr>hl_size = HOSTLIST_CHUNK, hl_nranges = 0, hl_nhosts = 0,
     hl_hr = replicate HOSTLIST_CHUNK None, hl_ilist = [], hl_mem = Map.empty, hl_brk = 0\<rparr>"

section \<open>Access to slots and range objects\<close>

text \<open>\<open>hl->hr[i]\<close> as a pointer; the object it points to; stores to either.\<close>

definition slot :: "hostlist \<Rightarrow> nat \<Rightarrow> hr_ptr option" where
  "slot hl i = (if i < length (hl_hr hl) then Some (hl_hr hl ! i) else None)"

definition set_slot :: "hostlist \<Rightarrow> nat \<Rightarrow> hr_ptr \<Rightarrow> hostlist option" where
  "set_slot hl i p =
    (if i < length (hl_hr hl) then Some (hl\<lparr>hl_hr := (hl_hr hl)[i := p]\<rparr>) else None)"

definition obj :: "hostlist \<Rightarrow> hr_ptr \<Rightarrow> hostrange option" where
  "obj hl p = Option.bind p (hl_mem hl)"

definition set_obj :: "hostlist \<Rightarrow> hr_ptr \<Rightarrow> hostrange \<Rightarrow> hostlist" where
  "set_obj hl p r = (case p of None \<Rightarrow> hl | Some a \<Rightarrow> hl\<lparr>hl_mem := (hl_mem hl)(a \<mapsto> r)\<rparr>)"

definition range_at :: "hostlist \<Rightarrow> nat \<Rightarrow> hostrange option" where
  "range_at hl i = Option.bind (slot hl i) (obj hl)"

definition new_obj :: "hostlist \<Rightarrow> hostrange \<Rightarrow> hr_ptr \<times> hostlist" where
  "new_obj hl r =
    (Some (hl_brk hl), hl\<lparr>hl_mem := (hl_mem hl)(hl_brk hl \<mapsto> r), hl_brk := hl_brk hl + 1\<rparr>)"

definition hostrange_destroy :: "hostlist \<Rightarrow> hr_ptr \<Rightarrow> hostlist" where
  "hostrange_destroy hl p = (case p of None \<Rightarrow> hl | Some a \<Rightarrow> hl\<lparr>hl_mem := (hl_mem hl)(a := None)\<rparr>)"

text \<open>\<open>hl->nhosts += c\<close> for an \<open>unsigned long\<close> \<open>c\<close>.\<close>

definition add_hosts :: "int \<Rightarrow> ulong \<Rightarrow> int" where
  "add_hosts n c = to_int (word_of_int n + c)"

section \<open>Growing the array, pushing ranges\<close>

definition hostlist_resize :: "hostlist \<Rightarrow> nat \<Rightarrow> hostlist" where
  "hostlist_resize hl newsize =
    hl\<lparr>hl_size := newsize,
       hl_hr := take newsize (hl_hr hl) @ replicate (newsize - hl_size hl) None\<rparr>"

definition hostlist_expand :: "hostlist \<Rightarrow> hostlist" where
  "hostlist_expand hl = hostlist_resize hl (hl_size hl + HOSTLIST_CHUNK)"

text \<open>
  Whether the new range continues the last one; the widths of both may be adjusted.
\<close>

definition try_extend_tail ::
    "hostlist \<Rightarrow> hostrange \<Rightarrow> (bool \<times> hostlist \<times> hostrange) option" where
  "try_extend_tail hl hr =
    (if 0 < hl_nranges hl
     then do {
       p \<leftarrow> slot hl (hl_nranges hl - 1);
       tail \<leftarrow> obj hl p;
       if hostrange_prefix_cmp (Some tail) (Some hr) = 0 \<and> hr_hi tail = hr_lo hr - 1
       then (case hostrange_width_combine tail hr of
               (r, t, h) \<Rightarrow> Some (r, set_obj hl p (if r then t\<lparr>hr_hi := hr_hi h\<rparr> else t), h))
       else Some (False, hl, hr)
     }
     else Some (False, hl, hr))"

text \<open>The range is passed by address: its width may be adjusted.\<close>

definition hostlist_push_range ::
    "hostlist \<Rightarrow> hostrange \<Rightarrow> (int \<times> hostlist \<times> hostrange) option" where
  "hostlist_push_range hl0 hr0 =
    (let hl = (if hl_size hl0 = hl_nranges hl0 then hostlist_expand hl0 else hl0)
     in do {
       (joined, hl1, hr) \<leftarrow> try_extend_tail hl hr0;
       hl2 \<leftarrow> (if joined then Some hl1
              else (case new_obj hl1 (hostrange_copy hr) of
                      (p, hl') \<Rightarrow>
                        set_slot (hl'\<lparr>hl_nranges := hl_nranges hl' + 1\<rparr>) (hl_nranges hl') p));
       (let n = add_hosts (hl_nhosts hl2) (hostrange_count hr)
        in Some (n, hl2\<lparr>hl_nhosts := n\<rparr>, hr))
     })"

definition hostlist_push_hr ::
    "hostlist \<Rightarrow> string \<Rightarrow> ulong \<Rightarrow> ulong \<Rightarrow> int \<Rightarrow> (int \<times> hostlist) option" where
  "hostlist_push_hr hl prefix lo hi width =
    map_option (\<lambda>(n, hl', hr). (n, hl'))
      (hostlist_push_range hl (hostrange_create prefix lo hi width))"

section \<open>Iterators and shifts of the array\<close>

definition hostlist_iterator_reset :: "hostlist \<Rightarrow> hl_iterator \<Rightarrow> hl_iterator option" where
  "hostlist_iterator_reset hl i =
    do { p \<leftarrow> slot hl 0; Some (i\<lparr>hi_idx := 0, hi_hr := p, hi_depth := - 1\<rparr>) }"

fun map_iterators :: "(hl_iterator \<Rightarrow> hl_iterator option) \<Rightarrow> (nat \<times> hl_iterator) list \<Rightarrow>
    (nat \<times> hl_iterator) list option" where
  "map_iterators f [] = Some []"
| "map_iterators f ((a, i) # xs) =
    do { j \<leftarrow> f i; ys \<leftarrow> map_iterators f xs; Some ((a, j) # ys) }"

text \<open>The iterator moves to index \<open>n\<close> and caches the range there.\<close>

definition it_move :: "hostlist \<Rightarrow> hl_iterator \<Rightarrow> int \<Rightarrow> hl_iterator option" where
  "it_move hl i n =
    (if n < 0 then None
     else do { p \<leftarrow> slot hl (nat n); Some (i\<lparr>hi_idx := n, hi_hr := p\<rparr>) })"

definition shift_iterator :: "hostlist \<Rightarrow> int \<Rightarrow> int \<Rightarrow> int \<Rightarrow> hl_iterator \<Rightarrow> hl_iterator option" where
  "shift_iterator hl idx depth n i =
    (if n = 0
     then Some (if hi_idx i = idx \<and> hi_depth i \<ge> depth
                then i\<lparr>hi_depth := (if hi_depth i > - 1 then hi_depth i - 1 else - 1)\<rparr> else i)
     else if hi_idx i \<ge> idx
     then (if hi_idx i - n \<ge> 0 then it_move hl i (hi_idx i - n) else hostlist_iterator_reset hl i)
     else Some i)"

definition hostlist_shift_iterators :: "hostlist \<Rightarrow> int \<Rightarrow> int \<Rightarrow> int \<Rightarrow> hostlist option" where
  "hostlist_shift_iterators hl idx depth n =
    map_option (\<lambda>its. hl\<lparr>hl_ilist := its\<rparr>) (map_iterators (shift_iterator hl idx depth n) (hl_ilist hl))"

text \<open>The loops that move the slots \<open>i\<close>, \<open>i + 1\<close>, ... (\<open>k\<close> of them) up or down by one.\<close>

fun slots_up :: "hr_ptr list \<Rightarrow> nat \<Rightarrow> nat \<Rightarrow> hr_ptr \<Rightarrow> hr_ptr list" where
  "slots_up hr i 0 tmp = hr"
| "slots_up hr i (Suc k) tmp = slots_up (hr[i := tmp]) (i + 1) k (hr ! i)"

fun slots_down :: "hr_ptr list \<Rightarrow> nat \<Rightarrow> nat \<Rightarrow> hr_ptr list" where
  "slots_down hr i 0 = hr"
| "slots_down hr i (Suc k) = slots_down (hr[i := hr ! (i + 1)]) (i + 1) k"

definition hostlist_insert_range :: "hostlist \<Rightarrow> hostrange \<Rightarrow> nat \<Rightarrow> (int \<times> hostlist) option" where
  "hostlist_insert_range hl0 hr n =
    (if n > hl_nranges hl0 then Some (0, hl0)
     else (let hl = (if hl_size hl0 = hl_nranges hl0 then hostlist_expand hl0 else hl0)
           in do {
             tmp \<leftarrow> slot hl n;
             (case new_obj hl (hostrange_copy hr) of
                (p, hl1) \<Rightarrow>
                  if length (hl_hr hl1) \<le> hl_nranges hl1 then None
                  else (let hl2 = hl1\<lparr>hl_hr := slots_up ((hl_hr hl1)[n := p]) (n + 1) (hl_nranges hl1 - n) tmp,
                                     hl_nranges := hl_nranges hl1 + 1\<rparr>
                        in do {
                          its \<leftarrow> map_iterators
                            (\<lambda>i. if hi_idx i \<ge> int n then it_move hl2 i (hi_idx i + 1) else Some i)
                            (hl_ilist hl2);
                          Some (1, hl2\<lparr>hl_ilist := its\<rparr>)
                        }))
           }))"

definition hostlist_delete_range :: "hostlist \<Rightarrow> nat \<Rightarrow> hostlist option" where
  "hostlist_delete_range hl n =
    (if \<not> n < hl_nranges hl then None
     else do {
       old \<leftarrow> slot hl n;
       (let hl1 = hl\<lparr>hl_hr := slots_down (hl_hr hl) n (hl_nranges hl - 1 - n),
                     hl_nranges := hl_nranges hl - 1\<rparr>
        in do {
          hl2 \<leftarrow> set_slot hl1 (hl_nranges hl1) None;
          hl3 \<leftarrow> hostlist_shift_iterators hl2 (int n) 0 1;
          Some (hostrange_destroy hl3 old)
        })
     })"

section \<open>Host list operations\<close>

fun copy_ranges :: "hostlist \<Rightarrow> nat \<Rightarrow> nat \<Rightarrow> hostlist \<Rightarrow> hostlist option" where
  "copy_ranges hl i 0 new = Some new"
| "copy_ranges hl i (Suc k) new =
    do {
      r \<leftarrow> range_at hl i;
      new1 \<leftarrow> (case new_obj new (hostrange_copy r) of (p, n1) \<Rightarrow> set_slot n1 i p);
      copy_ranges hl (i + 1) k new1
    }"

definition hostlist_copy :: "hostlist \<Rightarrow> hostlist option" where
  "hostlist_copy hl =
    (let new = hostlist_new\<lparr>hl_nranges := hl_nranges hl, hl_nhosts := hl_nhosts hl\<rparr>;
         new1 = (if hl_nranges new > hl_size new then hostlist_resize new (hl_nranges new) else new)
     in copy_ranges hl 0 (hl_nranges hl) new1)"

text \<open>What is left after \<open>hostlist_destroy\<close>: no range object and no iterator.\<close>

fun destroy_ranges :: "hostlist \<Rightarrow> nat \<Rightarrow> nat \<Rightarrow> hostlist option" where
  "destroy_ranges hl i 0 = Some hl"
| "destroy_ranges hl i (Suc k) =
    do { p \<leftarrow> slot hl i; destroy_ranges (hostrange_destroy hl p) (i + 1) k }"

definition hostlist_destroy :: "hostlist \<Rightarrow> hostlist option" where
  "hostlist_destroy hl = destroy_ranges (hl\<lparr>hl_ilist := []\<rparr>) 0 (hl_nranges hl)"

definition hostlist_push_host :: "hostlist \<Rightarrow> string \<Rightarrow> (int \<times> hostlist) option" where
  "hostlist_push_host hl str =
    (let hn = hostname_create str;
         hr = (if hostname_suffix_is_valid hn
               then hostrange_create (hn_prefix hn) (hn_num hn) (hn_num hn) (hostname_suffix_width hn)
               else hostrange_create_single str)
     in do { (n, hl1, hr1) \<leftarrow> hostlist_push_range hl hr; Some (1, hl1) })"

fun push_list_loop :: "hostlist \<Rightarrow> hostlist \<Rightarrow> nat \<Rightarrow> nat \<Rightarrow> int \<Rightarrow> (int \<times> hostlist \<times> hostlist) option" where
  "push_list_loop h1 h2 i 0 n = Some (n, h1, h2)"
| "push_list_loop h1 h2 i (Suc k) n =
    do {
      p \<leftarrow> slot h2 i;
      r \<leftarrow> obj h2 p;
      (m, h1', r') \<leftarrow> hostlist_push_range h1 r;
      push_list_loop h1' (set_obj h2 p r') (i + 1) k (n + m)
    }"

definition hostlist_push_list :: "hostlist \<Rightarrow> hostlist \<Rightarrow> (int \<times> hostlist \<times> hostlist) option" where
  "hostlist_push_list h1 h2 = push_list_loop h1 h2 0 (hl_nranges h2) 0"

definition hostlist_pop :: "hostlist \<Rightarrow> (string option \<times> hostlist) option" where
  "hostlist_pop hl =
    (if hl_nhosts hl > 0
     then (if hl_nranges hl = 0 then None
       else do {
       p \<leftarrow> slot hl (hl_nranges hl - 1);
       r \<leftarrow> obj hl p;
       (case hostrange_pop r of
          (host, r1) \<Rightarrow>
            let hl1 = (set_obj hl p r1)\<lparr>hl_nhosts := hl_nhosts hl - 1\<rparr>
            in if hostrange_empty r1
               then do {
                 hl2 \<leftarrow> set_slot ((hostrange_destroy hl1 p)\<lparr>hl_nranges := hl_nranges hl - 1\<rparr>)
                          (hl_nranges hl - 1) None;
                 Some (host, hl2)
               }
               else Some (host, hl1))
     })
     else Some (None, hl))"

definition hostlist_shift :: "hostlist \<Rightarrow> (string option \<times> hostlist) option" where
  "hostlist_shift hl =
    (if hl_nhosts hl > 0
     then do {
       p \<leftarrow> slot hl 0;
       r \<leftarrow> obj hl p;
       (case hostrange_shift r of
          (host, r1) \<Rightarrow>
            let hl1 = (set_obj hl p r1)\<lparr>hl_nhosts := hl_nhosts hl - 1\<rparr>
            in do {
              hl2 \<leftarrow> (if hostrange_empty r1 then hostlist_delete_range hl1 0
                     else hostlist_shift_iterators hl1 0 0 0);
              Some (host, hl2)
            })
     }
     else Some (None, hl))"

text \<open>The name buffer of \<open>_hostrange_string\<close> has \<open>MAXHOSTNAMELEN + 16\<close> characters.\<close>

definition MAXHOSTNAMELEN :: nat where
  "MAXHOSTNAMELEN = 64"

definition hostrange_string :: "hostrange \<Rightarrow> int \<Rightarrow> string option" where
  "hostrange_string hr depth =
    (let len = length (hr_prefix hr);
         buf = take (MAXHOSTNAMELEN + 14) (hr_prefix hr)
     in if hr_single hr then Some buf
        else if len > MAXHOSTNAMELEN + 15 then None
        else Some (buf @ take (MAXHOSTNAMELEN + 15 - len - 1)
                     (pad (nat (hr_width hr)) (unat (hr_lo hr + word_of_int depth)))))"

fun nth_loop :: "hostlist \<Rightarrow> int \<Rightarrow> nat \<Rightarrow> nat \<Rightarrow> int \<Rightarrow> string option option" where
  "nth_loop hl n i 0 cnt = Some None"
| "nth_loop hl n i (Suc k) cnt =
    do {
      r \<leftarrow> range_at hl i;
      (let num_in_range = to_int (hostrange_count r)
       in if n \<le> num_in_range - 1 + cnt
          then map_option Some (hostrange_string r (n - cnt))
          else nth_loop hl n (i + 1) k (cnt + num_in_range))
    }"

definition hostlist_nth :: "hostlist \<Rightarrow> int \<Rightarrow> string option option" where
  "hostlist_nth hl n = nth_loop hl n 0 (hl_nranges hl) 0"

fun delete_nth_loop :: "hostlist \<Rightarrow> int \<Rightarrow> nat \<Rightarrow> nat \<Rightarrow> int \<Rightarrow> hostlist option" where
  "delete_nth_loop hl n i 0 cnt = Some hl"
| "delete_nth_loop hl n i (Suc k) cnt =
    do {
      p \<leftarrow> slot hl i;
      r \<leftarrow> obj hl p;
      (let num_in_range = to_int (hostrange_count r)
       in if n \<le> num_in_range - 1 + cnt
          then (let num = hr_lo r + word_of_int n - word_of_int cnt
                in if hr_single r then hostlist_delete_range hl i
                   else do {
                     (new, r1) \<leftarrow> hostrange_delete_host r num;
                     (let hl1 = set_obj hl p r1
                      in case new of
                           Some x \<Rightarrow> map_option snd (hostlist_insert_range hl1 x (i + 1))
                         | None \<Rightarrow> if hostrange_empty r1 then hostlist_delete_range hl1 i
                                   else Some hl1)
                   })
          else delete_nth_loop hl n (i + 1) k (cnt + num_in_range))
    }"

definition hostlist_delete_nth :: "hostlist \<Rightarrow> int \<Rightarrow> (int \<times> hostlist) option" where
  "hostlist_delete_nth hl n =
    (if \<not> (0 \<le> n \<and> n \<le> hl_nhosts hl) then None
     else do {
       hl1 \<leftarrow> delete_nth_loop hl n 0 (hl_nranges hl) 0;
       Some (1, hl1\<lparr>hl_nhosts := hl_nhosts hl1 - 1\<rparr>)
     })"

definition hostlist_count :: "hostlist \<Rightarrow> int" where
  "hostlist_count hl = hl_nhosts hl"

text \<open>\<open>ret = count + hn->num - hl->hr[i]->lo\<close> is computed as an \<open>unsigned long\<close>.\<close>

fun find_loop :: "hostlist \<Rightarrow> hostname \<Rightarrow> nat \<Rightarrow> nat \<Rightarrow> int \<Rightarrow> (int \<times> hostlist) option" where
  "find_loop hl hn i 0 cnt = Some (- 1, hl)"
| "find_loop hl hn i (Suc k) cnt =
    do {
      p \<leftarrow> slot hl i;
      r \<leftarrow> obj hl p;
      (case hostrange_hn_within r hn of
         (found, r1) \<Rightarrow>
           let hl1 = set_obj hl p r1
           in if found
              then Some (if hostname_suffix_is_valid hn \<and> \<not> hr_single r1
                         then to_int (word_of_int cnt + hn_num hn - hr_lo r1) else cnt, hl1)
              else find_loop hl1 hn (i + 1) k (add_hosts cnt (hostrange_count r1)))
    }"

definition hostlist_find :: "hostlist \<Rightarrow> string \<Rightarrow> (int \<times> hostlist) option" where
  "hostlist_find hl host = find_loop hl (hostname_create host) 0 (hl_nranges hl) 0"

definition hostlist_delete_host :: "hostlist \<Rightarrow> string \<Rightarrow> (int \<times> hostlist) option" where
  "hostlist_delete_host hl host =
    do {
      (n, hl1) \<leftarrow> hostlist_find hl host;
      if n \<ge> 0 then do { (x, hl2) \<leftarrow> hostlist_delete_nth hl1 n; Some (1, hl2) }
      else Some (0, hl1)
    }"

section \<open>Iterators\<close>

definition hi_get :: "hostlist \<Rightarrow> nat \<Rightarrow> hl_iterator option" where
  "hi_get hl i = map_of (hl_ilist hl) i"

definition hi_set :: "hostlist \<Rightarrow> nat \<Rightarrow> hl_iterator \<Rightarrow> hostlist" where
  "hi_set hl i it = hl\<lparr>hl_ilist := map (\<lambda>(a, j). (a, if a = i then it else j)) (hl_ilist hl)\<rparr>"

definition hostlist_iterator_create :: "hostlist \<Rightarrow> (nat \<times> hostlist) option" where
  "hostlist_iterator_create hl =
    do {
      p \<leftarrow> slot hl 0;
      Some (hl_brk hl,
            hl\<lparr>hl_brk := hl_brk hl + 1,
               hl_ilist := (hl_brk hl, \<lparr>hi_idx = 0, hi_hr = p, hi_depth = - 1\<rparr>) # hl_ilist hl\<rparr>)
    }"

definition iterator_reset :: "hostlist \<Rightarrow> nat \<Rightarrow> hostlist option" where
  "iterator_reset hl i =
    do { it \<leftarrow> hi_get hl i; it1 \<leftarrow> hostlist_iterator_reset hl it; Some (hi_set hl i it1) }"

definition hostlist_iterator_destroy :: "hostlist \<Rightarrow> nat \<Rightarrow> hostlist" where
  "hostlist_iterator_destroy hl i = hl\<lparr>hl_ilist := filter (\<lambda>(a, it). a \<noteq> i) (hl_ilist hl)\<rparr>"

text \<open>The comparison of the depth with \<open>hi - lo\<close> is one of \<open>unsigned long\<close>s.\<close>

definition iterator_advance :: "hostlist \<Rightarrow> hl_iterator \<Rightarrow> hl_iterator option" where
  "iterator_advance hl i =
    (if hi_idx i > int (hl_nranges hl) - 1 then Some i
     else do {
       r \<leftarrow> obj hl (hi_hr i);
       (let d = hi_depth i + 1
        in if (word_of_int d :: ulong) > hr_hi r - hr_lo r
           then it_move hl (i\<lparr>hi_depth := 0\<rparr>) (hi_idx i + 1)
           else Some (i\<lparr>hi_depth := d\<rparr>))
     })"

text \<open>The first index from \<open>j\<close> on whose range is not within the same brackets.\<close>

fun advance_range_loop :: "hostlist \<Rightarrow> hostrange option \<Rightarrow> nat \<Rightarrow> nat \<Rightarrow> nat option" where
  "advance_range_loop hl r j 0 = Some j"
| "advance_range_loop hl r j (Suc k) =
    do {
      s \<leftarrow> range_at hl j;
      if hostrange_within_range r (Some s) then advance_range_loop hl r (j + 1) k else Some j
    }"

definition iterator_advance_range :: "hostlist \<Rightarrow> hl_iterator \<Rightarrow> hl_iterator option" where
  "iterator_advance_range hl i =
    (let d = hi_depth i + 1
     in if d > 0
        then do {
          r \<leftarrow> (case hi_hr i of None \<Rightarrow> Some None | Some a \<Rightarrow> map_option Some (obj hl (Some a)));
          j \<leftarrow> (let j0 = nat (hi_idx i) + 1
                in advance_range_loop hl r j0 (hl_nranges hl - j0));
          it_move hl (i\<lparr>hi_depth := 0\<rparr>) (int j)
        }
        else Some (i\<lparr>hi_depth := d\<rparr>))"

definition hostlist_next :: "hostlist \<Rightarrow> nat \<Rightarrow> (string option \<times> hostlist) option" where
  "hostlist_next hl a =
    do {
      i \<leftarrow> hi_get hl a;
      i1 \<leftarrow> iterator_advance hl i;
      (let hl1 = hi_set hl a i1
       in if hi_idx i1 > int (hl_nranges hl) - 1 then Some (None, hl1)
          else do {
            r \<leftarrow> obj hl1 (hi_hr i1);
            (let suffix = (if hr_single r then []
                           else take 14 (pad (nat (hr_width r)) (unat (hr_lo r + word_of_int (hi_depth i1)))))
             in Some (Some (hr_prefix r @ suffix), hl1))
          })
    }"

definition hostlist_remove :: "hostlist \<Rightarrow> nat \<Rightarrow> (int \<times> hostlist) option" where
  "hostlist_remove hl a =
    do {
      i \<leftarrow> hi_get hl a;
      r \<leftarrow> obj hl (hi_hr i);
      (new, r1) \<leftarrow> hostrange_delete_host r (hr_lo r + word_of_int (hi_depth i));
      (let hl1 = set_obj hl (hi_hr i) r1
       in do {
         hl2 \<leftarrow> (case new of
             Some x \<Rightarrow> do {
               (ok, h) \<leftarrow> hostlist_insert_range hl1 x (nat (hi_idx i + 1));
               i1 \<leftarrow> hi_get h a;
               i2 \<leftarrow> it_move h i1 (hi_idx i1 + 1);
               Some (hi_set h a (i2\<lparr>hi_depth := - 1\<rparr>))
             }
           | None \<Rightarrow>
               if hostrange_empty r1 then hostlist_delete_range hl1 (nat (hi_idx i))
               else Some (hi_set hl1 a (i\<lparr>hi_depth := hi_depth i - 1\<rparr>)));
         Some (1, hl2\<lparr>hl_nhosts := hl_nhosts hl2 - 1\<rparr>)
       })
    }"

end
