(* ===== verification/HostlistText.thy ===== *)
theory HostlistText
  imports Hostlist
begin

text \<open>
  Printing and parsing of host lists (\<open>lib/hostlist.c\<close>): the \<open>_ranged_\<close> and \<open>_deranged_\<close>
  strings written into a caller's buffer, the operations that cut off a whole bracketed group,
  and \<open>hostlist_create\<close> with its tokeniser.
\<close>

section \<open>Printing\<close>

text \<open>
  \<open>hl->hr[i]\<close> as an argument that may be NULL: \<open>Some None\<close> is the NULL pointer.
\<close>

definition ref_at :: "hostlist \<Rightarrow> nat \<Rightarrow> hostrange option option" where
  "ref_at hl i =
    do {
      p \<leftarrow> slot hl i;
      (case p of None \<Rightarrow> Some None | Some a \<Rightarrow> map_option Some (hl_mem hl a))
    }"

fun deranged_loop :: "hostlist \<Rightarrow> nat \<Rightarrow> string \<Rightarrow> nat \<Rightarrow> nat \<Rightarrow> nat \<Rightarrow> (bool \<times> nat \<times> string) option" where
  "deranged_loop hl n buf len i 0 = Some (False, len, buf)"
| "deranged_loop hl n buf len i (Suc k) =
    (let m = n - len
     in do {
       r \<leftarrow> range_at hl i;
       (ret, buf1) \<leftarrow> hostrange_to_string r m buf len (Some (CHR '',''));
       if ret < 0 \<or> ret > int m then Some (True, n, buf1)
       else do {
         buf2 \<leftarrow> bwrite buf1 (len + nat ret) [CHR '',''];
         deranged_loop hl n buf2 (len + nat ret + 1) (i + 1) k
       }
     })"

definition hostlist_deranged_string :: "hostlist \<Rightarrow> nat \<Rightarrow> string \<Rightarrow> (int \<times> string) option" where
  "hostlist_deranged_string hl n buf =
    do {
      (truncated, len, buf1) \<leftarrow> deranged_loop hl n buf 0 0 (hl_nranges hl);
      (let len1 = (if len > 0 then len - 1 else len)
       in do {
         buf2 \<leftarrow> bwrite buf1 len1 [CHR 0x00];
         Some (if truncated \<or> len1 = n then - 1 else int len1, buf2)
       })
    }"

definition is_bracket_needed :: "hostlist \<Rightarrow> nat \<Rightarrow> bool option" where
  "is_bracket_needed hl i =
    do {
      h1 \<leftarrow> range_at hl i;
      h2 \<leftarrow> (if i + 1 < hl_nranges hl then ref_at hl (i + 1) else Some None);
      Some (hostrange_count h1 > 1 \<or> hostrange_within_range (Some h1) h2)
    }"

text \<open>
  The loop of \<open>_get_bracketed_list\<close>, a \<open>do ... while\<close>: the characters go to \<open>buf + off\<close>, of
  which \<open>n\<close> may be written; the result is the next index, the length and the buffer.
\<close>

fun bracketed_loop ::
    "hostlist \<Rightarrow> bool \<Rightarrow> nat \<Rightarrow> string \<Rightarrow> nat \<Rightarrow> nat \<Rightarrow> nat \<Rightarrow> nat \<Rightarrow> (nat \<times> nat \<times> string) option" where
  "bracketed_loop hl br n buf off len i 0 = None"
| "bracketed_loop hl br n buf off len i (Suc k) =
    do {
      r \<leftarrow> range_at hl i;
      (w, buf1) \<leftarrow> hostrange_numstr r (n - len) buf (off + len);
      if len + w \<ge> n then Some (i, len + w, buf1)
      else do {
        (len2, buf2) \<leftarrow> (if br then map_option (\<lambda>b. (len + w + 1, b)) (bwrite buf1 (off + len + w) [CHR '',''])
                        else Some (len + w, buf1));
        if i + 1 < hl_nranges hl
        then do {
          h \<leftarrow> ref_at hl (i + 1);
          if hostrange_within_range h (Some r)
          then bracketed_loop hl br n buf2 off len2 (i + 1) k
          else Some (i + 1, len2, buf2)
        }
        else Some (i + 1, len2, buf2)
      }
    }"

definition get_bracketed_list ::
    "hostlist \<Rightarrow> nat \<Rightarrow> nat \<Rightarrow> string \<Rightarrow> nat \<Rightarrow> (nat \<times> nat \<times> string) option" where
  "get_bracketed_list hl start n buf off =
    do {
      br \<leftarrow> is_bracket_needed hl start;
      h \<leftarrow> range_at hl start;
      buf1 \<leftarrow> snprintf_at buf off n (hr_prefix h);
      (let len = length (hr_prefix h)
       in if len > n then Some (start, n, buf1)
          else do {
            (len1, buf2) \<leftarrow> (if br \<and> len < n
                            then map_option (\<lambda>b. (len + 1, b)) (bwrite buf1 (off + len) [CHR ''[''])
                            else Some (len, buf1));
            (i, len2, buf3) \<leftarrow> bracketed_loop hl br n buf2 off len1 start (hl_nranges hl - start);
            buf4 \<leftarrow> (if br \<and> len2 < n \<and> len2 > 0
                    then do { b \<leftarrow> bwrite buf3 (off + len2 - 1) [CHR '']'']; bwrite b (off + len2) [CHR 0x00] }
                    else if len2 \<ge> n
                    then (if n > 0 then bwrite buf3 (off + n - 1) [CHR 0x00] else Some buf3)
                    else bwrite buf3 (off + len2) [CHR 0x00]);
            Some (i, len2, buf4)
          })
    }"

fun ranged_loop :: "hostlist \<Rightarrow> nat \<Rightarrow> string \<Rightarrow> nat \<Rightarrow> nat \<Rightarrow> nat \<Rightarrow> (nat \<times> string) option" where
  "ranged_loop hl n buf len i 0 = Some (len, buf)"
| "ranged_loop hl n buf len i (Suc k) =
    (if i < hl_nranges hl \<and> len < n
     then do {
       (i1, w, buf1) \<leftarrow> get_bracketed_list hl i (n - len) buf len;
       (if len + w > 0 \<and> len + w < n \<and> i1 < hl_nranges hl
        then do { buf2 \<leftarrow> bwrite buf1 (len + w) [CHR '','']; ranged_loop hl n buf2 (len + w + 1) i1 k }
        else ranged_loop hl n buf1 (len + w) i1 k)
     }
     else Some (len, buf))"

text \<open>
  Every round of the loop either prints a range or fills the buffer, so \<open>nranges + 1\<close> rounds
  suffice.
\<close>

definition hostlist_ranged_string :: "hostlist \<Rightarrow> nat \<Rightarrow> string \<Rightarrow> (int \<times> string) option" where
  "hostlist_ranged_string hl n buf =
    do {
      (len, buf1) \<leftarrow> ranged_loop hl n buf 0 0 (hl_nranges hl + 1);
      if len \<ge> n
      then (if n > 0 then map_option (\<lambda>b. (- 1, b)) (bwrite buf1 (n - 1) [CHR 0x00]) else Some (- 1, buf1))
      else map_option (\<lambda>b. (int len, b)) (bwrite buf1 len [CHR 0x00])
    }"

section \<open>Cutting off a bracketed group\<close>

definition MAXHOSTRANGELEN :: nat where
  "MAXHOSTRANGELEN = 1024"

text \<open>The ranges \<open>i\<close>, \<open>i + 1\<close>, ... (\<open>k\<close> of them) are copied to \<open>tmp\<close> and freed.\<close>

fun pop_range_loop :: "hostlist \<Rightarrow> hostlist \<Rightarrow> nat \<Rightarrow> nat \<Rightarrow> (hostlist \<times> hostlist) option" where
  "pop_range_loop hl tmp i 0 = Some (hl, tmp)"
| "pop_range_loop hl tmp i (Suc k) =
    do {
      p \<leftarrow> slot hl i;
      r \<leftarrow> obj hl p;
      (n, tmp1, r1) \<leftarrow> hostlist_push_range tmp r;
      hl1 \<leftarrow> set_slot (hostrange_destroy hl p) i None;
      pop_range_loop hl1 tmp1 (i + 1) k
    }"

text \<open>\<open>while (i >= 0 && hostrange_within_range (tail, hl->hr[i])) i--;\<close> with \<open>k = i + 1\<close>.\<close>

fun group_start :: "hostlist \<Rightarrow> hostrange \<Rightarrow> nat \<Rightarrow> nat option" where
  "group_start hl tail 0 = Some 0"
| "group_start hl tail (Suc i) =
    do {
      r \<leftarrow> range_at hl i;
      if hostrange_within_range (Some tail) (Some r) then group_start hl tail i else Some (Suc i)
    }"

text \<open>The buffers are uninitialised; any characters do.\<close>

definition hostlist_pop_range :: "hostlist \<Rightarrow> (string option \<times> hostlist) option" where
  "hostlist_pop_range hl =
    (if hl_nranges hl < 1 then Some (None, hl)
     else do {
       tail \<leftarrow> range_at hl (hl_nranges hl - 1);
       i \<leftarrow> group_start hl tail (hl_nranges hl - 1);
       (hl1, tmp) \<leftarrow> pop_range_loop hl hostlist_new i (hl_nranges hl - i);
       (n, buf) \<leftarrow> hostlist_ranged_string tmp MAXHOSTRANGELEN (replicate (MAXHOSTRANGELEN + 1) (CHR 0x00));
       Some (Some (cstr buf),
             hl1\<lparr>hl_nhosts := hl_nhosts hl1 - hl_nhosts tmp,
                 hl_nranges := hl_nranges hl1 - hl_nranges tmp\<rparr>)
     })"

fun shift_range_loop :: "hostlist \<Rightarrow> hostlist \<Rightarrow> nat \<Rightarrow> nat \<Rightarrow> (nat \<times> hostlist \<times> hostlist) option" where
  "shift_range_loop hl tmp i 0 = None"
| "shift_range_loop hl tmp i (Suc k) =
    do {
      p \<leftarrow> slot hl i;
      r \<leftarrow> obj hl p;
      (n, tmp1, r1) \<leftarrow> hostlist_push_range tmp r;
      (let hl1 = hostrange_destroy hl p
       in if i + 1 < hl_nranges hl1
          then do {
            t \<leftarrow> ref_at tmp1 0;
            h \<leftarrow> ref_at hl1 (i + 1);
            if hostrange_within_range t h then shift_range_loop hl1 tmp1 (i + 1) k
            else Some (i + 1, hl1, tmp1)
          }
          else Some (i + 1, hl1, tmp1))
    }"

fun shift_back :: "hr_ptr list \<Rightarrow> nat \<Rightarrow> nat \<Rightarrow> nat \<Rightarrow> hr_ptr list" where
  "shift_back hr t i 0 = hr"
| "shift_back hr t i (Suc k) = shift_back ((hr[i - t := hr ! i])[i := None]) t (i + 1) k"

definition hostlist_shift_range :: "hostlist \<Rightarrow> (string option \<times> hostlist) option" where
  "hostlist_shift_range hl =
    (if hl_nranges hl = 0 then Some (None, hl)
     else do {
       (i, hl1, tmp) \<leftarrow> shift_range_loop hl hostlist_new 0 (hl_nranges hl);
       hl2 \<leftarrow> hostlist_shift_iterators hl1 (int i) 0 (int (hl_nranges tmp));
       (if length (hl_hr hl2) < hl_nranges hl2 then None
        else (let hl3 = hl2\<lparr>hl_hr := shift_back (hl_hr hl2) (hl_nranges tmp) i (hl_nranges hl2 - i),
                           hl_nhosts := hl_nhosts hl2 - hl_nhosts tmp,
                           hl_nranges := hl_nranges hl2 - hl_nranges tmp\<rparr>
              in do {
                (n, buf) \<leftarrow> hostlist_ranged_string tmp 1024 (replicate 1024 (CHR 0x00));
                Some (Some (cstr buf), hl3)
              }))
     })"

definition hostlist_next_range :: "hostlist \<Rightarrow> nat \<Rightarrow> (string option \<times> hostlist) option" where
  "hostlist_next_range hl a =
    do {
      i \<leftarrow> hi_get hl a;
      i1 \<leftarrow> iterator_advance_range hl i;
      (let hl1 = hi_set hl a i1
       in if hi_idx i1 > int (hl_nranges hl) - 1 then Some (None, hl1)
          else do {
            (j, len, buf) \<leftarrow> get_bracketed_list hl1 (nat (hi_idx i1)) MAXHOSTRANGELEN
              (replicate (MAXHOSTRANGELEN + 1) (CHR 0x00)) 0;
            Some (Some (cstr buf), hl1)
          })
    }"

section \<open>Parsing\<close>

text \<open>
  \<open>_advance_past_brackets\<close>: the text between \<open>tok\<close> and \<open>*str\<close>, and the text from \<open>*str\<close> on.
\<close>

definition advance_past_brackets :: "string \<Rightarrow> string \<Rightarrow> (string \<times> string) option" where
  "advance_past_brackets tok str =
    (if CHR ''['' \<in> set tok \<and> CHR '']'' \<notin> set tok \<and> CHR '']'' \<in> set str \<and>
        CHR ''['' \<notin> set (takeWhile (\<lambda>c. c \<noteq> CHR '']'') str)
     then (let q = Suc (length (takeWhile (\<lambda>c. c \<noteq> CHR '']'') str))
           in Some (tok @ take q str, drop q str))
     else None)"

lemma advance_shorter: "advance_past_brackets t s = Some (t2, s2) \<Longrightarrow> length s2 < length s"
  by (cases s) (auto simp: advance_past_brackets_def Let_def split: if_splits)

text \<open>A second round never passes another bracket, so two rounds are all there are.\<close>

function hl_tok_loop :: "string \<Rightarrow> string \<Rightarrow> string \<Rightarrow> string \<times> string" where
  "hl_tok_loop sep tok str =
    (let tok1 = tok @ takeWhile (\<lambda>c. c \<notin> set sep) str;
         str1 = dropWhile (\<lambda>c. c \<notin> set sep) str
     in case advance_past_brackets tok1 str1 of
          None \<Rightarrow> (tok1, str1)
        | Some (tok2, str2) \<Rightarrow> hl_tok_loop sep tok2 str2)"
  by pat_completeness auto
termination
proof (relation "measure (\<lambda>(sep, tok, str). length str)")
  fix sep tok str t1 s1 y t2 s2
  assume a: "t1 = tok @ takeWhile (\<lambda>c. c \<notin> set sep) str" "s1 = dropWhile (\<lambda>c. c \<notin> set sep) str"
    "advance_past_brackets t1 s1 = Some y" "(t2, s2) = y"
  then have "length s2 < length s1" by (metis advance_shorter)
  also have "length s1 \<le> length str" using a(2) by (simp add: length_dropWhile_le)
  finally show "((sep, t2, s2), (sep, tok, str)) \<in> measure (\<lambda>(sep, tok, str). length str)"
    by simp
qed simp

declare hl_tok_loop.simps [simp del]

definition hl_next_tok :: "string \<Rightarrow> string \<Rightarrow> (string \<times> string) option" where
  "hl_next_tok sep str =
    (let s1 = dropWhile (\<lambda>c. c \<in> set sep) str
     in if s1 = [] then None
        else (case hl_tok_loop sep [] s1 of
                (tok, s2) \<Rightarrow> Some (tok, dropWhile (\<lambda>c. c \<in> set sep) s2)))"

definition MAX_RANGE :: ulong where
  "MAX_RANGE = 16384"

definition MAX_RANGES :: int where
  "MAX_RANGES = 10240"

record prange =
  pr_lo :: ulong
  pr_hi :: ulong
  pr_width :: int

definition parse_single_range :: "string \<Rightarrow> prange option" where
  "parse_single_range s =
    (let str = takeWhile (\<lambda>c. c \<noteq> CHR ''-'') s;
         p = (if CHR ''-'' \<in> set s then Some (tl (dropWhile (\<lambda>c. c \<noteq> CHR ''-'') s)) else None)
     in if (case p of Some (c # cs) \<Rightarrow> c = CHR ''-'' | _ \<Rightarrow> False) then None
        else (case strtoul str of
          (lo, q) \<Rightarrow>
            if length q = length str then None
            else (case (case p of
                     Some (c # cs) \<Rightarrow> (case strtoul (c # cs) of (hi, q') \<Rightarrow> (hi, q', length q' = length (c # cs)))
                   | _ \<Rightarrow> (lo, q, False)) of
              (hi, q', none) \<Rightarrow>
                if none \<or> q' \<noteq> [] then None
                else if lo > hi then None
                else if hi - lo + 1 > MAX_RANGE then None
                else Some \<lparr>pr_lo = lo, pr_hi = hi, pr_width = int (length str)\<rparr>)))"

function parse_range_list :: "string \<Rightarrow> int \<Rightarrow> int \<Rightarrow> prange list option" where
  "parse_range_list str cnt len =
    (if cnt = len then None
     else (case parse_single_range (takeWhile (\<lambda>c. c \<noteq> CHR '','') str) of
             None \<Rightarrow> None
           | Some r \<Rightarrow>
               if CHR '','' \<in> set str
               then map_option ((#) r)
                      (parse_range_list (tl (dropWhile (\<lambda>c. c \<noteq> CHR '','') str)) (cnt + 1) len)
               else Some [r]))"
  by pat_completeness auto
termination
proof (relation "measure (\<lambda>(str, cnt, len). length str)")
  fix str :: string and cnt len :: int and r
  assume "CHR '','' \<in> set str"
  then have "dropWhile (\<lambda>c. c \<noteq> CHR '','') str \<noteq> []" by auto
  then have "length (tl (dropWhile (\<lambda>c. c \<noteq> CHR '','') str)) < length (dropWhile (\<lambda>c. c \<noteq> CHR '','') str)"
    by simp
  also have "\<dots> \<le> length str" by (rule length_dropWhile_le)
  finally show "((tl (dropWhile (\<lambda>c. c \<noteq> CHR '','') str), cnt + 1, len), str, cnt, len)
    \<in> measure (\<lambda>(str, cnt, len). length str)" by simp
qed simp

declare parse_range_list.simps [simp del]

fun push_ranges :: "hostlist \<Rightarrow> string \<Rightarrow> prange list \<Rightarrow> hostlist option" where
  "push_ranges hl pfx [] = Some hl"
| "push_ranges hl pfx (r # rs) =
    do {
      (n, hl1) \<leftarrow> hostlist_push_hr hl pfx (pr_lo r) (pr_hi r) (pr_width r);
      push_ranges hl1 pfx rs
    }"

text \<open>The loop over \<open>j = lo .. hi\<close> does not end for \<open>hi = ULONG_MAX\<close>.\<close>

partial_function (option) push_suffixed ::
    "hostlist \<Rightarrow> string \<Rightarrow> string \<Rightarrow> int \<Rightarrow> ulong \<Rightarrow> ulong \<Rightarrow> hostlist option" where
  "push_suffixed hl pfx sfx width j hi =
    (if j \<le> hi
     then do {
       (n, hl1, r) \<leftarrow> hostlist_push_range hl
         (hostrange_create_single (take 4095 (pfx @ pad (nat width) (unat j) @ sfx)));
       push_suffixed hl1 pfx sfx width (j + 1) hi
     }
     else Some hl)"

declare push_suffixed.simps [code]

fun push_ranges_with_suffix :: "hostlist \<Rightarrow> string \<Rightarrow> string \<Rightarrow> prange list \<Rightarrow> hostlist option" where
  "push_ranges_with_suffix hl pfx sfx [] = Some hl"
| "push_ranges_with_suffix hl pfx sfx (r # rs) =
    do {
      hl1 \<leftarrow> push_suffixed hl pfx sfx (pr_width r) (pr_lo r) (pr_hi r);
      push_ranges_with_suffix hl1 pfx sfx rs
    }"

text \<open>
  One token: \<open>Some (Inl ())\<close> is a range that does not parse.  The copy \<open>cur_tok\<close> of a token of
  1024 characters or more is not terminated, and using it is an error.
\<close>

definition create_token :: "hostlist \<Rightarrow> string \<Rightarrow> (unit + hostlist) option" where
  "create_token new tok =
    (let push_cur = (if int (length tok) \<ge> 1024 then None
                     else map_option (Inr \<circ> snd) (hostlist_push_host new tok))
     in if CHR ''['' \<in> set tok
        then (let prefix = takeWhile (\<lambda>c. c \<noteq> CHR ''['') tok;
                  p = tl (dropWhile (\<lambda>c. c \<noteq> CHR ''['') tok)
              in if CHR '']'' \<in> set p
                 then (let body = takeWhile (\<lambda>c. c \<noteq> CHR '']'') p;
                           q = tl (dropWhile (\<lambda>c. c \<noteq> CHR '']'') p)
                       in case parse_range_list body 0 MAX_RANGES of
                            None \<Rightarrow> Some (Inl ())
                          | Some rs \<Rightarrow>
                              map_option Inr (if q \<noteq> [] then push_ranges_with_suffix new prefix q rs
                                              else push_ranges new prefix rs))
                 else push_cur)
        else push_cur)"

lemma hl_tok_loop_length: "hl_tok_loop sep tok str = (t, s) \<Longrightarrow> length s \<le> length str"
proof (induction sep tok str rule: hl_tok_loop.induct)
  case (1 sep tok str)
  let ?t = "tok @ takeWhile (\<lambda>c. c \<notin> set sep) str" and ?s = "dropWhile (\<lambda>c. c \<notin> set sep) str"
  show ?case
  proof (cases "advance_past_brackets ?t ?s")
    case None
    with 1(2) show ?thesis
      by (subst (asm) hl_tok_loop.simps) (auto simp: Let_def length_dropWhile_le)
  next
    case (Some y)
    then obtain t2 s2 where y: "advance_past_brackets ?t ?s = Some (t2, s2)" by (cases y) auto
    with 1(2) have "hl_tok_loop sep t2 s2 = (t, s)"
      by (subst (asm) hl_tok_loop.simps) (simp add: Let_def)
    with 1(1)[OF refl refl y refl] have "length s \<le> length s2" by simp
    also have "\<dots> \<le> length ?s"
      using advance_shorter[OF y] by simp
    finally show ?thesis using length_dropWhile_le[of _ str] order_trans by blast
  qed
qed

lemma hl_tok_loop_first:
  assumes "hl_tok_loop sep tok (c # cs) = (t, s)" "c \<notin> set sep"
  shows "length s \<le> length cs"
proof -
  let ?t = "tok @ takeWhile (\<lambda>c. c \<notin> set sep) (c # cs)" and ?s = "dropWhile (\<lambda>c. c \<notin> set sep) (c # cs)"
  have l: "length ?s \<le> length cs" using assms(2) by (simp add: length_dropWhile_le)
  show ?thesis
  proof (cases "advance_past_brackets ?t ?s")
    case None
    with assms(1) l show ?thesis by (subst (asm) hl_tok_loop.simps) (auto simp: Let_def)
  next
    case (Some y)
    then obtain t2 s2 where y: "advance_past_brackets ?t ?s = Some (t2, s2)" by (cases y) auto
    with assms(1) have "hl_tok_loop sep t2 s2 = (t, s)"
      by (subst (asm) hl_tok_loop.simps) (simp add: Let_def)
    then have "length s \<le> length s2" by (rule hl_tok_loop_length)
    also have "\<dots> \<le> length ?s"
      using advance_shorter[OF y] by simp
    finally show ?thesis using l by simp
  qed
qed

lemma hl_next_tok_shorter: "hl_next_tok sep str = Some (tok, rest) \<Longrightarrow> length rest < length str"
proof -
  assume a: "hl_next_tok sep str = Some (tok, rest)"
  let ?s1 = "dropWhile (\<lambda>c. c \<in> set sep) str"
  from a have "?s1 \<noteq> []" by (auto simp: hl_next_tok_def Let_def split: if_splits)
  then obtain c cs where s1: "?s1 = c # cs" by (cases ?s1) auto
  obtain t s where l: "hl_tok_loop sep [] ?s1 = (t, s)" by (cases "hl_tok_loop sep [] ?s1")
  have "length s \<le> length cs"
    using hl_tok_loop_first[of sep "[]" c cs t s] l s1 dropWhile_Cons_hd[OF s1] by auto
  moreover have "length (dropWhile (\<lambda>c. c \<in> set sep) s) \<le> length s" by (rule length_dropWhile_le)
  moreover have "rest = dropWhile (\<lambda>c. c \<in> set sep) s"
    using a l s1 by (simp add: hl_next_tok_def Let_def)
  moreover have "Suc (length cs) \<le> length str"
    using s1 length_dropWhile_le[of "\<lambda>c. c \<in> set sep" str] by simp
  ultimately show ?thesis by simp
qed

text \<open>\<open>Some None\<close>: NULL is returned (after the new list was destroyed).\<close>

function create_loop :: "string \<Rightarrow> hostlist \<Rightarrow> string \<Rightarrow> hostlist option option" where
  "create_loop sep new str =
    (case hl_next_tok sep str of
       None \<Rightarrow> Some (Some new)
     | Some (tok, rest) \<Rightarrow>
         (case create_token new tok of
            None \<Rightarrow> None
          | Some (Inl u) \<Rightarrow> Some None
          | Some (Inr new1) \<Rightarrow> create_loop sep new1 rest))"
  by pat_completeness auto
termination
  by (relation "measure (\<lambda>(sep, new, str). length str)") (auto dest: hl_next_tok_shorter)

declare create_loop.simps [simp del]

definition hostlist_create_bracketed :: "string option \<Rightarrow> string \<Rightarrow> hostlist option option" where
  "hostlist_create_bracketed str sep =
    (case str of
       None \<Rightarrow> Some (Some hostlist_new)
     | Some s \<Rightarrow> create_loop sep hostlist_new s)"

definition hostlist_create :: "string option \<Rightarrow> hostlist option option" where
  "hostlist_create str = hostlist_create_bracketed str [CHR 0x09, CHR '','', CHR '' '']"

section \<open>Operations that parse their argument\<close>

definition hostlist_push :: "hostlist \<Rightarrow> string option \<Rightarrow> (int \<times> hostlist) option" where
  "hostlist_push hl hosts =
    (if hosts = None then Some (0, hl)
     else do {
       new \<leftarrow> hostlist_create hosts;
       (case new of
          None \<Rightarrow> Some (0, hl)
        | Some h2 \<Rightarrow> do { (n, hl1, h3) \<leftarrow> hostlist_push_list hl h2; Some (hl_nhosts h2, hl1) })
     })"

text \<open>\<open>while ((hostname = hostlist_pop (tmp))) n += hostlist_delete_host (hl, hostname);\<close>\<close>

partial_function (option) delete_loop :: "hostlist \<Rightarrow> hostlist \<Rightarrow> int \<Rightarrow> (int \<times> hostlist) option" where
  "delete_loop hl tmp n =
    do {
      (host, tmp1) \<leftarrow> hostlist_pop tmp;
      (case host of
         None \<Rightarrow> Some (n, hl)
       | Some h \<Rightarrow> do { (m, hl1) \<leftarrow> hostlist_delete_host hl h; delete_loop hl1 tmp1 (n + m) })
    }"

declare delete_loop.simps [code]

definition hostlist_delete :: "hostlist \<Rightarrow> string option \<Rightarrow> (int \<times> hostlist) option" where
  "hostlist_delete hl hosts =
    do {
      new \<leftarrow> hostlist_create hosts;
      (case new of None \<Rightarrow> Some (0, hl) | Some tmp \<Rightarrow> delete_loop hl tmp 0)
    }"

end
