(* ===== verification/HostlistSort.thy ===== *)
theory HostlistSort
  imports HostlistText
begin

text \<open>
  Sorting, coalescing and uniting the ranges of a host list, and the host sets built on it
  (\<open>lib/hostlist.c\<close>).  \<open>qsort\<close> is the merge sort of the GNU C library; its comparison
  function adjusts widths of the objects it compares, so the elements are threaded through.
\<close>

section \<open>qsort\<close>

type_synonym elem = "hr_ptr \<times> hostrange"

fun qs_merge :: "elem list \<Rightarrow> elem list \<Rightarrow> elem list" where
  "qs_merge [] ys = ys"
| "qs_merge xs [] = xs"
| "qs_merge ((p, r) # xs) ((q, s) # ys) =
    (case hostrange_cmp r s of
       (c, r1, s1) \<Rightarrow>
         if c \<le> 0 then (p, r1) # qs_merge xs ((q, s1) # ys)
         else (q, s1) # qs_merge ((p, r1) # xs) ys)"

function qs_sort :: "elem list \<Rightarrow> elem list" where
  "qs_sort xs =
    (if length xs \<le> 1 then xs
     else (let n1 = length xs div 2 in qs_merge (qs_sort (take n1 xs)) (qs_sort (drop n1 xs))))"
  by pat_completeness auto
termination
  by (relation "measure length") auto

declare qs_sort.simps [simp del]

fun read_elems :: "hostlist \<Rightarrow> nat \<Rightarrow> nat \<Rightarrow> elem list option" where
  "read_elems hl i 0 = Some []"
| "read_elems hl i (Suc k) =
    do {
      p \<leftarrow> slot hl i;
      r \<leftarrow> obj hl p;
      rest \<leftarrow> read_elems hl (i + 1) k;
      Some ((p, r) # rest)
    }"

fun write_elems :: "hostlist \<Rightarrow> nat \<Rightarrow> elem list \<Rightarrow> hostlist" where
  "write_elems hl i [] = hl"
| "write_elems hl i ((p, r) # es) =
    write_elems ((set_obj hl p r)\<lparr>hl_hr := (hl_hr hl)[i := p]\<rparr>) (i + 1) es"

definition hl_qsort :: "hostlist \<Rightarrow> hostlist option" where
  "hl_qsort hl =
    do { es \<leftarrow> read_elems hl 0 (hl_nranges hl); Some (write_elems hl 0 (qs_sort es)) }"

section \<open>Coalescing\<close>

text \<open>\<open>for (i = nranges - 1; i > 0; i--)\<close>, here with \<open>i = Suc j\<close>.\<close>

fun collapse_loop :: "hostlist \<Rightarrow> nat \<Rightarrow> hostlist option" where
  "collapse_loop hl 0 = Some hl"
| "collapse_loop hl (Suc j) =
    do {
      pp \<leftarrow> slot hl j;
      hprev \<leftarrow> obj hl pp;
      pn \<leftarrow> slot hl (Suc j);
      hnext \<leftarrow> obj hl pn;
      hl1 \<leftarrow> (if hostrange_prefix_cmp (Some hprev) (Some hnext) = 0 \<and> hr_hi hprev = hr_lo hnext - 1
             then (case hostrange_width_combine hprev hnext of
                     (r, a, b) \<Rightarrow>
                       if r
                       then hostlist_delete_range
                              (set_obj (set_obj hl pp (a\<lparr>hr_hi := hr_hi b\<rparr>)) pn b) (Suc j)
                       else Some (set_obj (set_obj hl pp a) pn b))
             else Some hl);
      collapse_loop hl1 j
    }"

definition hostlist_collapse :: "hostlist \<Rightarrow> hostlist option" where
  "hostlist_collapse hl = collapse_loop hl (hl_nranges hl - 1)"

text \<open>
  The inner loop over the intersection \<open>new\<close>: \<open>pp\<close> and \<open>pn\<close> are the pointers \<open>hprev\<close> and
  \<open>hnext\<close>, which the insertions leave alone.
\<close>

partial_function (option) split_dups ::
    "hostlist \<Rightarrow> hostrange \<Rightarrow> hr_ptr \<Rightarrow> hr_ptr \<Rightarrow> nat \<Rightarrow> hostlist option" where
  "split_dups hl new pp pn j =
    (if hr_lo new \<le> hr_hi new
     then do {
       hprev \<leftarrow> obj hl pp;
       (let hr = hostrange_create (hr_prefix new) (hr_lo new) (hr_lo new) (hr_width new)
        in do {
          (n1, hl1, j1) \<leftarrow> (if hr_lo new > hr_hi hprev
            then map_option (\<lambda>(n, h). (n, h, j + 1)) (hostlist_insert_range hl hr j)
            else Some (0, hl, j));
          hnext \<leftarrow> obj hl1 pn;
          (n2, hl2, j2) \<leftarrow> (if hr_lo new < hr_lo hnext
            then map_option (\<lambda>(n, h). (n, h, j1 + 1)) (hostlist_insert_range hl1 hr j1)
            else Some (0, hl1, j1));
          split_dups hl2 (new\<lparr>hr_lo := hr_lo new + 1\<rparr>) pp pn j2
        })
     }
     else Some hl)"

declare split_dups.simps [code]

partial_function (option) coalesce_loop :: "hostlist \<Rightarrow> nat \<Rightarrow> hostlist option" where
  "coalesce_loop hl i =
    (if \<not> 0 < i then Some hl
     else do {
       pp \<leftarrow> slot hl (i - 1);
       h1 \<leftarrow> obj hl pp;
       pn \<leftarrow> slot hl i;
       h2 \<leftarrow> obj hl pn;
       (new, hprev, hnext) \<leftarrow> hostrange_intersect h1 h2;
       (case new of
          None \<Rightarrow> coalesce_loop (set_obj (set_obj hl pp hprev) pn hnext) (i - 1)
        | Some new \<Rightarrow>
            let hnext1 = (if hr_hi new < hr_hi hprev then hnext\<lparr>hr_hi := hr_hi hprev\<rparr> else hnext);
                hprev1 = hprev\<lparr>hr_hi := hr_lo new\<rparr>;
                hnext2 = hnext1\<lparr>hr_lo := hr_hi new\<rparr>;
                hl1 = set_obj (set_obj hl pp hprev1) pn hnext2
            in do {
              hl2 \<leftarrow> (if hostrange_empty hprev1 then hostlist_delete_range hl1 i else Some hl1);
              hl3 \<leftarrow> split_dups hl2 new pp pn i;
              coalesce_loop hl3 (hl_nranges hl3 - 1)
            })
     })"

declare coalesce_loop.simps [code]

definition hostlist_coalesce :: "hostlist \<Rightarrow> hostlist option" where
  "hostlist_coalesce hl =
    do { hl1 \<leftarrow> coalesce_loop hl (hl_nranges hl - 1); hostlist_collapse hl1 }"

definition reset_iterators :: "hostlist \<Rightarrow> hostlist option" where
  "reset_iterators hl =
    map_option (\<lambda>its. hl\<lparr>hl_ilist := its\<rparr>) (map_iterators (hostlist_iterator_reset hl) (hl_ilist hl))"

definition hostlist_sort :: "hostlist \<Rightarrow> hostlist option" where
  "hostlist_sort hl =
    (if hl_nranges hl \<le> 1 then Some hl
     else do {
       hl1 \<leftarrow> hl_qsort hl;
       hl2 \<leftarrow> reset_iterators hl1;
       hostlist_coalesce hl2
     })"

definition attempt_range_join :: "hostlist \<Rightarrow> nat \<Rightarrow> (int \<times> hostlist) option" where
  "attempt_range_join hl loc =
    (if \<not> (0 < loc \<and> loc < hl_nranges hl) then None
     else do {
       pp \<leftarrow> slot hl (loc - 1);
       h1 \<leftarrow> obj hl pp;
       pn \<leftarrow> slot hl loc;
       h2 \<leftarrow> obj hl pn;
       (ndup, g1, g2) \<leftarrow> hostrange_join h1 h2;
       (let hl1 = set_obj (set_obj hl pp g1) pn g2
        in if ndup \<ge> 0
           then do {
             hl2 \<leftarrow> hostlist_delete_range hl1 loc;
             Some (ndup, hl2\<lparr>hl_nhosts := hl_nhosts hl2 - ndup\<rparr>)
           }
           else Some (ndup, hl1))
     })"

partial_function (option) uniq_loop :: "hostlist \<Rightarrow> nat \<Rightarrow> hostlist option" where
  "uniq_loop hl i =
    (if i < hl_nranges hl
     then do {
       (ndup, hl1) \<leftarrow> attempt_range_join hl i;
       uniq_loop hl1 (if ndup < 0 then i + 1 else i)
     }
     else Some hl)"

declare uniq_loop.simps [code]

definition hostlist_uniq :: "hostlist \<Rightarrow> hostlist option" where
  "hostlist_uniq hl =
    (if hl_nranges hl \<le> 1 then Some hl
     else do {
       hl1 \<leftarrow> hl_qsort hl;
       hl2 \<leftarrow> uniq_loop hl1 1;
       reset_iterators hl2
     })"

section \<open>Host sets\<close>

record hostset =
  hs_hl :: hostlist

text \<open>\<open>Some None\<close> is the NULL that a string that does not parse gives.\<close>

definition hostset_create :: "string option \<Rightarrow> hostset option option" where
  "hostset_create str =
    do {
      hl \<leftarrow> hostlist_create str;
      (case hl of
         None \<Rightarrow> Some None
       | Some h \<Rightarrow> do { h1 \<leftarrow> hostlist_uniq h; Some (Some \<lparr>hs_hl = h1\<rparr>) })
    }"

definition hostset_copy :: "hostset \<Rightarrow> hostset option" where
  "hostset_copy set0 = map_option (\<lambda>h. \<lparr>hs_hl = h\<rparr>) (hostlist_copy (hs_hl set0))"

definition hostset_destroy :: "hostset \<Rightarrow> hostlist option" where
  "hostset_destroy set0 = hostlist_destroy (hs_hl set0)"

text \<open>The loop of \<open>hostset_insert_range\<close>: the number of duplicates once the range is placed.\<close>

fun set_insert_loop ::
    "hostlist \<Rightarrow> hostrange \<Rightarrow> int \<Rightarrow> nat \<Rightarrow> nat \<Rightarrow> ((int option \<times> hostlist \<times> hostrange) option)" where
  "set_insert_loop hl hr nhosts i 0 = Some (None, hl, hr)"
| "set_insert_loop hl hr nhosts i (Suc k) =
    do {
      p \<leftarrow> slot hl i;
      r \<leftarrow> obj hl p;
      (case hostrange_cmp hr r of
         (c, hr1, r1) \<Rightarrow>
           let hl1 = set_obj hl p r1
           in if c \<le> 0
              then do {
                (ndups, hr2, r2) \<leftarrow> hostrange_join hr1 r1;
                (let hl2 = set_obj hl1 p r2
                 in do {
                   hl3 \<leftarrow> (if ndups \<ge> 0 then hostlist_delete_range hl2 i else Some hl2);
                   (n, hl4) \<leftarrow> hostlist_insert_range hl3 hr2 i;
                   (m, hl5) \<leftarrow> (if i > 0 then attempt_range_join hl4 i else Some (0, hl4));
                   (let nd = (if ndups < 0 then 0 else ndups) + (if m > 0 then m else 0)
                    in Some (Some nd, hl5\<lparr>hl_nhosts := hl_nhosts hl5 + (nhosts - nd)\<rparr>, hr2))
                 })
              }
              else set_insert_loop hl1 hr1 nhosts (i + 1) k)
    }"

definition hostset_insert_range :: "hostset \<Rightarrow> hostrange \<Rightarrow> (int \<times> hostset) option" where
  "hostset_insert_range set0 hr =
    (let hl0 = hs_hl set0;
         hl = (if hl_size hl0 = hl_nranges hl0 then hostlist_expand hl0 else hl0);
         nhosts = to_int (hostrange_count hr)
     in do {
       (placed, hl1, hr1) \<leftarrow> set_insert_loop hl hr nhosts 0 (hl_nranges hl);
       (case placed of
          Some ndups \<Rightarrow> Some (nhosts - ndups, \<lparr>hs_hl = hl1\<rparr>)
        | None \<Rightarrow>
            do {
              hl2 \<leftarrow> (case new_obj hl1 (hostrange_copy hr1) of
                      (p, h) \<Rightarrow> set_slot (h\<lparr>hl_nranges := hl_nranges h + 1\<rparr>) (hl_nranges h) p);
              (let hl3 = hl2\<lparr>hl_nhosts := hl_nhosts hl2 + nhosts\<rparr>
               in if hl_nranges hl3 > 1
                  then do {
                    (d, hl4) \<leftarrow> attempt_range_join hl3 (hl_nranges hl3 - 1);
                    Some (nhosts - (if d \<le> 0 then 0 else d), \<lparr>hs_hl = hl4\<rparr>)
                  }
                  else Some (nhosts, \<lparr>hs_hl = hl3\<rparr>))
            })
     })"

fun insert_ranges :: "hostset \<Rightarrow> hostlist \<Rightarrow> nat \<Rightarrow> nat \<Rightarrow> int \<Rightarrow> (int \<times> hostset) option" where
  "insert_ranges set0 hl i 0 n = Some (n, set0)"
| "insert_ranges set0 hl i (Suc k) n =
    do {
      r \<leftarrow> range_at hl i;
      (m, set1) \<leftarrow> hostset_insert_range set0 r;
      insert_ranges set1 hl (i + 1) k (n + m)
    }"

definition hostset_insert :: "hostset \<Rightarrow> string option \<Rightarrow> (int \<times> hostset) option" where
  "hostset_insert set0 hosts =
    do {
      hl \<leftarrow> hostlist_create hosts;
      (case hl of
         None \<Rightarrow> Some (0, set0)
       | Some h \<Rightarrow> do { h1 \<leftarrow> hostlist_uniq h; insert_ranges set0 h1 0 (hl_nranges h1) 0 })
    }"

fun find_host_loop :: "hostlist \<Rightarrow> hostname \<Rightarrow> nat \<Rightarrow> nat \<Rightarrow> (bool \<times> hostlist) option" where
  "find_host_loop hl hn i 0 = Some (False, hl)"
| "find_host_loop hl hn i (Suc k) =
    do {
      p \<leftarrow> slot hl i;
      r \<leftarrow> obj hl p;
      (case hostrange_hn_within r hn of
         (found, r1) \<Rightarrow>
           if found then Some (True, set_obj hl p r1)
           else find_host_loop (set_obj hl p r1) hn (i + 1) k)
    }"

definition hostset_find_host :: "hostset \<Rightarrow> string \<Rightarrow> (bool \<times> hostset) option" where
  "hostset_find_host set0 host =
    map_option (\<lambda>(b, h). (b, \<lparr>hs_hl = h\<rparr>))
      (find_host_loop (hs_hl set0) (hostname_create host) 0 (hl_nranges (hs_hl set0)))"

partial_function (option) within_loop :: "hostset \<Rightarrow> hostlist \<Rightarrow> int \<Rightarrow> (int \<times> hostset) option" where
  "within_loop set0 hl n =
    do {
      (host, hl1) \<leftarrow> hostlist_pop hl;
      (case host of
         None \<Rightarrow> Some (n, set0)
       | Some h \<Rightarrow> do { (b, set1) \<leftarrow> hostset_find_host set0 h; within_loop set1 hl1 (n + of_bool b) })
    }"

declare within_loop.simps [code]

definition hostset_within :: "hostset \<Rightarrow> string option \<Rightarrow> (bool \<times> hostset) option" where
  "hostset_within set0 hosts =
    do {
      hl \<leftarrow> hostlist_create hosts;
      (case hl of
         None \<Rightarrow> Some (False, set0)
       | Some h \<Rightarrow> do { (nfound, set1) \<leftarrow> within_loop set0 h 0; Some (hostlist_count h = nfound, set1) })
    }"

text \<open>The remaining operations are those of the list underneath.\<close>

definition on_hl :: "(hostlist \<Rightarrow> ('r \<times> hostlist) option) \<Rightarrow> hostset \<Rightarrow> ('r \<times> hostset) option" where
  "on_hl f set0 = map_option (\<lambda>(r, h). (r, \<lparr>hs_hl = h\<rparr>)) (f (hs_hl set0))"

definition hostset_delete :: "hostset \<Rightarrow> string option \<Rightarrow> (int \<times> hostset) option" where
  "hostset_delete set0 hosts = on_hl (\<lambda>h. hostlist_delete h hosts) set0"

definition hostset_delete_host :: "hostset \<Rightarrow> string \<Rightarrow> (int \<times> hostset) option" where
  "hostset_delete_host set0 host = on_hl (\<lambda>h. hostlist_delete_host h host) set0"

definition hostset_shift :: "hostset \<Rightarrow> (string option \<times> hostset) option" where
  "hostset_shift set0 = on_hl hostlist_shift set0"

definition hostset_pop :: "hostset \<Rightarrow> (string option \<times> hostset) option" where
  "hostset_pop set0 = on_hl hostlist_pop set0"

definition hostset_shift_range :: "hostset \<Rightarrow> (string option \<times> hostset) option" where
  "hostset_shift_range set0 = on_hl hostlist_shift_range set0"

definition hostset_pop_range :: "hostset \<Rightarrow> (string option \<times> hostset) option" where
  "hostset_pop_range set0 = on_hl hostlist_pop_range set0"

definition hostset_count :: "hostset \<Rightarrow> int" where
  "hostset_count set0 = hostlist_count (hs_hl set0)"

definition hostset_iterator_create :: "hostset \<Rightarrow> (nat \<times> hostset) option" where
  "hostset_iterator_create set0 = on_hl hostlist_iterator_create set0"

definition hostset_ranged_string :: "hostset \<Rightarrow> nat \<Rightarrow> string \<Rightarrow> (int \<times> string) option" where
  "hostset_ranged_string set0 n buf = hostlist_ranged_string (hs_hl set0) n buf"

definition hostset_deranged_string :: "hostset \<Rightarrow> nat \<Rightarrow> string \<Rightarrow> (int \<times> string) option" where
  "hostset_deranged_string set0 n buf = hostlist_deranged_string (hs_hl set0) n buf"

end
