(* ===== verification/HostlistLaws.thy ===== *)
theory HostlistLaws
  imports HostrangeLaws HostlistSort
begin

text \<open>
  The representation of a host list: \<open>hl_rep hl ps rs\<close> says that the first slots hold the
  pointers \<open>ps\<close> to the range objects \<open>rs\<close>; \<open>hl_ok\<close> adds what the code maintains, and
  \<open>hl_hosts\<close> is the sequence of names the list denotes.  Each operation is then a function
  on that sequence.
\<close>

section \<open>Representation\<close>

definition hl_rep :: "hostlist \<Rightarrow> nat list \<Rightarrow> hostrange list \<Rightarrow> bool" where
  "hl_rep hl ps rs \<longleftrightarrow>
    length ps = hl_nranges hl \<and> take (hl_nranges hl) (hl_hr hl) = map Some ps \<and> distinct ps \<and>
    list_all2 (\<lambda>p r. hl_mem hl p = Some r) ps rs \<and> (\<forall>a r. hl_mem hl a = Some r \<longrightarrow> a < hl_brk hl) \<and>
    hl_size hl = length (hl_hr hl) \<and> 0 < hl_size hl \<and>
    (\<forall>(a, i)\<in>set (hl_ilist hl). 0 \<le> hi_idx i \<and> hi_idx i < int (length (hl_hr hl)))"

definition hl_ranges :: "hostlist \<Rightarrow> hostrange list" where
  "hl_ranges hl = map (\<lambda>p. the (obj hl p)) (take (hl_nranges hl) (hl_hr hl))"

definition names :: "hostrange list \<Rightarrow> string list" where
  "names rs = concat (map hr_hosts rs)"

definition hl_hosts :: "hostlist \<Rightarrow> string list" where
  "hl_hosts hl = names (hl_ranges hl)"

definition hl_ok :: "hostlist \<Rightarrow> bool" where
  "hl_ok hl \<longleftrightarrow> (\<exists>ps. hl_rep hl ps (hl_ranges hl)) \<and> (\<forall>r\<in>set (hl_ranges hl). hr_ok r) \<and>
    hl_nhosts hl = int (length (hl_hosts hl)) \<and> length (hl_hosts hl) < 2 ^ 31"

lemma repD:
  assumes "hl_rep hl ps rs"
  shows "length ps = hl_nranges hl" "take (hl_nranges hl) (hl_hr hl) = map Some ps" "distinct ps"
    "list_all2 (\<lambda>p r. hl_mem hl p = Some r) ps rs" "hl_mem hl a = Some r \<Longrightarrow> a < hl_brk hl"
    "hl_size hl = length (hl_hr hl)" "0 < hl_size hl"
    "(b, it) \<in> set (hl_ilist hl) \<Longrightarrow> 0 \<le> hi_idx it \<and> hi_idx it < int (length (hl_hr hl))"
    "i < hl_nranges hl \<Longrightarrow> hl_mem hl (ps ! i) = Some (rs ! i)"
  using assms unfolding hl_rep_def by (auto dest: list_all2_nthD)

lemma repI:
  assumes "length ps = hl_nranges hl" "take (hl_nranges hl) (hl_hr hl) = map Some ps" "distinct ps"
    "list_all2 (\<lambda>p r. hl_mem hl p = Some r) ps rs" "\<And>a r. hl_mem hl a = Some r \<Longrightarrow> a < hl_brk hl"
    "hl_size hl = length (hl_hr hl)" "0 < hl_size hl"
    "\<And>b it. (b, it) \<in> set (hl_ilist hl) \<Longrightarrow> 0 \<le> hi_idx it \<and> hi_idx it < int (length (hl_hr hl))"
  shows "hl_rep hl ps rs"
  using assms unfolding hl_rep_def by blast

lemma rep_length: "hl_rep hl ps rs \<Longrightarrow> length rs = hl_nranges hl \<and> length ps = hl_nranges hl"
  using repD(1,4)[of hl ps rs] by (auto dest: list_all2_lengthD)

lemma rep_ranges:
  assumes "hl_rep hl ps rs"
  shows "hl_ranges hl = rs"
proof (rule nth_equalityI)
  show "length (hl_ranges hl) = length rs"
    using rep_length[OF assms] repD(2)[OF assms] by (simp add: hl_ranges_def)
  fix i assume "i < length (hl_ranges hl)"
  then have "i < hl_nranges hl" by (simp add: hl_ranges_def)
  then show "hl_ranges hl ! i = rs ! i"
    using repD(9)[OF assms] rep_length[OF assms] unfolding hl_ranges_def repD(2)[OF assms]
    by (simp add: obj_def)
qed

lemma hl_okI:
  "hl_rep hl ps rs \<Longrightarrow> \<forall>r\<in>set rs. hr_ok r \<Longrightarrow> hl_nhosts hl = int (length (names rs)) \<Longrightarrow>
   length (names rs) < 2 ^ 31 \<Longrightarrow> hl_ok hl \<and> hl_hosts hl = names rs"
  using rep_ranges[of hl ps rs] by (auto simp: hl_ok_def hl_hosts_def)

lemma hl_okE:
  assumes "hl_ok hl"
  obtains ps rs where "hl_rep hl ps rs" "\<forall>r\<in>set rs. hr_ok r" "hl_hosts hl = names rs"
    "hl_nhosts hl = int (length (names rs))" "length (names rs) < 2 ^ 31" "hl_ranges hl = rs"
  using assms that by (auto simp: hl_ok_def hl_hosts_def)

lemma rep_nranges: "hl_rep hl ps rs \<Longrightarrow> hl_nranges hl \<le> length (hl_hr hl)"
proof -
  assume a: "hl_rep hl ps rs"
  then have "length (take (hl_nranges hl) (hl_hr hl)) = hl_nranges hl"
    by (simp add: hl_rep_def)
  then show ?thesis by (simp add: min_def split: if_splits)
qed

lemma rep_nth: "hl_rep hl ps rs \<Longrightarrow> i < hl_nranges hl \<Longrightarrow> hl_hr hl ! i = Some (ps ! i)"
  using arg_cong[OF repD(2)[of hl ps rs], of "\<lambda>xs. xs ! i"] rep_length[of hl ps rs] by simp

lemma rep_slot [simp]: "hl_rep hl ps rs \<Longrightarrow> i < hl_nranges hl \<Longrightarrow> slot hl i = Some (Some (ps ! i))"
  using rep_nranges[of hl ps rs] rep_nth[of hl ps rs i] by (simp add: slot_def)

lemma rep_obj [simp]: "hl_rep hl ps rs \<Longrightarrow> i < hl_nranges hl \<Longrightarrow> obj hl (Some (ps ! i)) = Some (rs ! i)"
  by (simp add: obj_def repD(9))

lemma rep_range_at [simp]: "hl_rep hl ps rs \<Longrightarrow> i < hl_nranges hl \<Longrightarrow> range_at hl i = Some (rs ! i)"
  by (simp add: range_at_def)

lemma rep_new: "hl_rep hostlist_new [] []"
  by (simp add: hl_rep_def hostlist_new_def HOSTLIST_CHUNK_def)

lemma new_ok: "hl_ok hostlist_new" "hl_hosts hostlist_new = []"
  using hl_okI[OF rep_new] by (simp_all add: names_def hostlist_new_def)

section \<open>Primitive steps\<close>

lemma set_obj_frame [simp]:
  "hl_nranges (set_obj hl p r) = hl_nranges hl" "hl_hr (set_obj hl p r) = hl_hr hl"
  "hl_nhosts (set_obj hl p r) = hl_nhosts hl" "hl_size (set_obj hl p r) = hl_size hl"
  "hl_ilist (set_obj hl p r) = hl_ilist hl" "hl_brk (set_obj hl p r) = hl_brk hl"
  by (simp_all add: set_obj_def split: option.splits)

lemma rep_nhosts: "hl_rep (hl\<lparr>hl_nhosts := n\<rparr>) ps rs = hl_rep hl ps rs"
  by (simp add: hl_rep_def)

lemma rep_set_obj:
  assumes "hl_rep hl ps rs" "i < hl_nranges hl"
  shows "hl_rep (set_obj hl (Some (ps ! i)) r) ps (rs[i := r])"
proof -
  note d = repD[OF assms(1)]
  have l: "length rs = length ps" "i < length ps"
    using rep_length[OF assms(1)] assms(2) by simp_all
  have "list_all2 (\<lambda>p s. ((hl_mem hl)(ps ! i \<mapsto> r)) p = Some s) ps (rs[i := r])"
    unfolding list_all2_conv_all_nth
    using d(1,3,9) l by (auto simp: nth_list_update nth_eq_iff_index_eq)
  moreover have "((hl_mem hl)(ps ! i \<mapsto> r)) a = Some s \<Longrightarrow> a < hl_brk hl" for a s
    using d(5,9) assms(2) by (auto split: if_splits)
  ultimately show ?thesis
    by (intro repI) (use d in \<open>simp_all add: set_obj_def\<close>)
qed

lemma rep_expand: "hl_rep hl ps rs \<Longrightarrow> hl_rep (hostlist_expand hl) ps rs"
  using rep_nranges[of hl ps rs]
  by (fastforce simp: hl_rep_def hostlist_expand_def hostlist_resize_def)

lemma expand_room:
  assumes "hl_rep hl ps rs"
  defines "hl' \<equiv> (if hl_size hl = hl_nranges hl then hostlist_expand hl else hl)"
  shows "hl_rep hl' ps rs" "hl_nranges hl' = hl_nranges hl" "hl_nhosts hl' = hl_nhosts hl"
    "hl_nranges hl' < length (hl_hr hl')" "hl_ilist hl' = hl_ilist hl"
proof -
  show "hl_rep hl' ps rs" using assms rep_expand by simp
  show "hl_nranges hl' = hl_nranges hl" "hl_nhosts hl' = hl_nhosts hl" "hl_ilist hl' = hl_ilist hl"
    by (simp_all add: hl'_def hostlist_expand_def hostlist_resize_def)
  show "hl_nranges hl' < length (hl_hr hl')"
    using assms(1) rep_nranges[OF assms(1)]
    by (auto simp: hl'_def hostlist_expand_def hostlist_resize_def HOSTLIST_CHUNK_def hl_rep_def)
qed

lemma rep_append:
  assumes "hl_rep hl ps rs" "hl_nranges hl < length (hl_hr hl)"
  shows "\<exists>hl'. (case new_obj hl r of (p, h) \<Rightarrow>
            set_slot (h\<lparr>hl_nranges := hl_nranges h + 1\<rparr>) (hl_nranges h) p) = Some hl' \<and>
      hl_rep hl' (ps @ [hl_brk hl]) (rs @ [r]) \<and> hl_nhosts hl' = hl_nhosts hl \<and>
      hl_ilist hl' = hl_ilist hl"
proof -
  let ?n = "hl_nranges hl"
  have t: "take (Suc ?n) ((hl_hr hl)[?n := Some (hl_brk hl)]) = map Some (ps @ [hl_brk hl])"
    using assms by (simp add: take_Suc_conv_app_nth hl_rep_def)
  note d = repD[OF assms(1)]
  have f: "hl_brk hl \<notin> set ps"
    using d(1,5,9) by (metis in_set_conv_nth less_irrefl)
  then have "list_all2 (\<lambda>p s. ((hl_mem hl)(hl_brk hl \<mapsto> r)) p = Some s) ps rs"
    using d(4) by (auto elim!: list.rel_mono_strong)
  then have "list_all2 (\<lambda>p s. ((hl_mem hl)(hl_brk hl \<mapsto> r)) p = Some s) (ps @ [hl_brk hl]) (rs @ [r])"
    by (simp add: list_all2_appendI)
  moreover have "((hl_mem hl)(hl_brk hl \<mapsto> r)) a = Some s \<Longrightarrow> a < Suc (hl_brk hl)" for a s
    using d(5)[of a s] by (auto split: if_splits)
  ultimately have "hl_rep (hl\<lparr>hl_mem := (hl_mem hl)(hl_brk hl \<mapsto> r), hl_brk := hl_brk hl + 1,
      hl_nranges := ?n + 1, hl_hr := (hl_hr hl)[?n := Some (hl_brk hl)]\<rparr>) (ps @ [hl_brk hl]) (rs @ [r])"
    by (intro repI) (use d t f in simp_all)
  then show ?thesis
    using assms(2) by (simp add: new_obj_def set_slot_def)
qed

section \<open>Names\<close>

lemma names_simps [simp]: "names [] = []" "names (r # rs) = hr_hosts r @ names rs"
  "names (xs @ ys) = names xs @ names ys"
  by (simp_all add: names_def)

lemma names_split:
  "i < length rs \<Longrightarrow> names rs = names (take i rs) @ hr_hosts (rs ! i) @ names (drop (Suc i) rs)"
  by (metis id_take_nth_drop names_simps(2,3))

lemma names_update:
  "i < length rs \<Longrightarrow> names (rs[i := r]) = names (take i rs) @ hr_hosts r @ names (drop (Suc i) rs)"
  by (simp add: upd_conv_take_nth_drop)

lemma names_same: "i < length rs \<Longrightarrow> hr_hosts r = hr_hosts (rs ! i) \<Longrightarrow> names (rs[i := r]) = names rs"
  by (simp add: names_update names_split[of i rs])

lemma names_del: "i < length rs \<Longrightarrow> names (del_at i rs) = names (take i rs) @ names (drop (Suc i) rs)"
  by (simp add: del_at_def)

lemma ok_update: "\<forall>r\<in>set rs. hr_ok r \<Longrightarrow> hr_ok r' \<Longrightarrow> \<forall>r\<in>set (rs[i := r']). hr_ok r"
  using set_update_subset_insert[of rs i r'] by blast

lemma upt_split: "i \<le> j \<Longrightarrow> j \<le> k \<Longrightarrow> [i..<k] = [i..<j] @ [j..<k]"
  using upt_add_eq_append[of i j "k - j"] by simp

lemma hr_hosts_join:
  assumes "hr_ok t" "hr_ok h" "hr_prefix t = hr_prefix h" "hr_single t = hr_single h"
    "hr_width t = hr_width h" "hr_hi t = hr_lo h - 1"
  shows "hr_ok (t\<lparr>hr_hi := hr_hi h\<rparr>)" "hr_hosts (t\<lparr>hr_hi := hr_hi h\<rparr>) = hr_hosts t @ hr_hosts h"
proof -
  note n = hr_ok_nat[OF assms(1)] hr_ok_nat[OF assms(2)]
  have p: "Suc (unat (hr_hi t)) = unat (hr_lo h)"
    using unat_pred[of "hr_lo h" "hr_hi t"] n assms(6) by auto
  have s: "\<not> hr_single t"
    using assms(1,2,4) p by (auto simp: hr_ok_def)
  show "hr_ok (t\<lparr>hr_hi := hr_hi h\<rparr>)"
    using assms(1,2) s n p by (auto simp: hr_ok_def word_le_nat_alt)
  have "[unat (hr_lo t)..<Suc (unat (hr_hi h))] =
      [unat (hr_lo t)..<unat (hr_lo h)] @ [unat (hr_lo h)..<Suc (unat (hr_hi h))]"
    using n p by (intro upt_split) auto
  then show "hr_hosts (t\<lparr>hr_hi := hr_hi h\<rparr>) = hr_hosts t @ hr_hosts h"
    using s assms(3-5) p by (simp add: hr_hosts_def)
qed

section \<open>Pushing\<close>

lemma try_extend_result:
  assumes rep: "hl_rep hl ps rs" and ok: "\<forall>r\<in>set rs. hr_ok r" "hr_ok h"
  shows "\<exists>b hl' h' rs'. try_extend_tail hl h = Some (b, hl', h') \<and> hl_rep hl' ps rs' \<and>
    same_range h h' \<and> (\<forall>r\<in>set rs'. hr_ok r) \<and>
    names rs' = (if b then names rs @ hr_hosts h else names rs) \<and>
    hl_nranges hl' = hl_nranges hl \<and> hl_nhosts hl' = hl_nhosts hl \<and> hl_hr hl' = hl_hr hl \<and>
    hl_ilist hl' = hl_ilist hl"
proof (cases "hl_nranges hl = 0")
  case True
  then have "try_extend_tail hl h = Some (False, hl, h)"
    by (simp add: try_extend_tail_def)
  then show ?thesis
    using rep ok by (intro exI[of _ False] exI[of _ hl] exI[of _ h] exI[of _ rs]) simp
next
  case False
  define k where "k = hl_nranges hl - 1"
  let ?t = "rs ! k"
  have k: "k < hl_nranges hl" "k < length rs" "Suc k = length rs"
    using False rep_length[OF rep] by (auto simp: k_def)
  have tok: "hr_ok ?t" using ok k by simp
  let ?c = "hostrange_prefix_cmp (Some ?t) (Some h) = 0 \<and> hr_hi ?t = hr_lo h - 1"
  obtain r t h' where wc: "hostrange_width_combine ?t h = (r, t, h')" by (metis prod_cases3)
  let ?h2 = "set_obj hl (Some (ps ! k)) (if r then t\<lparr>hr_hi := hr_hi h'\<rparr> else t)"
  have run: "try_extend_tail hl h = (if ?c then Some (r, ?h2, h') else Some (False, hl, h))"
    using rep_slot[OF rep k(1)] rep_obj[OF rep k(1)] False wc
    unfolding try_extend_tail_def k_def[symmetric] by simp
  show ?thesis
  proof (cases ?c)
    case False
    then show ?thesis
      unfolding run if_not_P[OF False] using rep ok
      by (intro exI[of _ False] exI[of _ hl] exI[of _ h] exI[of _ rs]) simp
  next
    case True
    have "0 \<le> hr_width ?t" "0 \<le> hr_width h" using tok ok(2) by (simp_all add: hr_ok_def)
    note s = width_combine_same[OF wc this]
    note f = same_range_fields[OF s(1)] same_range_fields[OF s(2)]
    let ?n = "if r then t\<lparr>hr_hi := hr_hi h'\<rparr> else t"
    have j: "hr_ok (t\<lparr>hr_hi := hr_hi h'\<rparr>) \<and> hr_hosts (t\<lparr>hr_hi := hr_hi h'\<rparr>) = hr_hosts t @ hr_hosts h'" if r
      using hr_hosts_join[of t h'] True s(3)[OF that] f tok ok(2) by (simp add: prefix_cmp_0)
    have nok: "hr_ok ?n" using j f tok by simp
    have nm: "names (rs[k := ?n]) = (if r then names rs @ hr_hosts h else names rs)"
      using k j f by (simp add: names_update names_split[of k rs])
    have "\<forall>r\<in>set (rs[k := ?n]). hr_ok r"
      by (rule ok_update[OF ok(1) nok])
    then show ?thesis
      unfolding run using True rep_set_obj[OF rep k(1), of ?n] s(2) nm
      by (intro exI[of _ r] exI[of _ ?h2] exI[of _ h'] exI[of _ "rs[k := ?n]"]) simp
  qed
qed

lemma copy_same [simp]: "hr_ok h \<Longrightarrow> hr_hosts (hostrange_copy h) = hr_hosts h"
  "hr_ok h \<Longrightarrow> hr_ok (hostrange_copy h)"
  by (auto simp: hostrange_copy_def hostrange_create_single_def hostrange_create_def hr_hosts_def hr_ok_def)

lemma add_hosts_int:
  assumes "0 \<le> n" "hr_ok h" "n + int (length (hr_hosts h)) < 2 ^ 31"
  shows "add_hosts n (hostrange_count h) = n + int (length (hr_hosts h))"
proof -
  have "hostrange_count h = word_of_int (int (length (hr_hosts h)))"
    by (simp flip: unat_count(1)[OF assms(2)])
  then have "word_of_int n + hostrange_count h = word_of_int (n + int (length (hr_hosts h)))"
    by simp
  then show ?thesis
    using assms by (simp only: add_hosts_def) (rule to_int_of_int, simp_all)
qed

lemma push_range_result:
  assumes ok: "hl_ok hl" "hr_ok h" and bound: "length (hl_hosts hl) + length (hr_hosts h) < 2 ^ 31"
  shows "\<exists>hl' h'. hostlist_push_range hl h = Some (int (length (hl_hosts hl')), hl', h') \<and>
    hl_ok hl' \<and> hl_hosts hl' = hl_hosts hl @ hr_hosts h \<and> same_range h h' \<and> hl_ilist hl' = hl_ilist hl"
proof -
  from ok(1) obtain ps rs where rep: "hl_rep hl ps rs" and rok: "\<forall>r\<in>set rs. hr_ok r"
    and hs: "hl_hosts hl = names rs" "hl_nhosts hl = int (length (names rs))" by (elim hl_okE)
  let ?hl = "if hl_size hl = hl_nranges hl then hostlist_expand hl else hl"
  note room = expand_room[OF rep]
  from try_extend_result[OF room(1) rok ok(2)] obtain b hl1 h' rs' where
    te: "try_extend_tail ?hl h = Some (b, hl1, h')" and r1: "hl_rep hl1 ps rs'" and
    sm: "same_range h h'" and ok1: "\<forall>r\<in>set rs'. hr_ok r" and
    nm: "names rs' = (if b then names rs @ hr_hosts h else names rs)" and
    fr: "hl_nranges hl1 = hl_nranges ?hl" "hl_nhosts hl1 = hl_nhosts ?hl" "hl_hr hl1 = hl_hr ?hl"
      "hl_ilist hl1 = hl_ilist ?hl" by blast
  note f = same_range_fields[OF sm]
  have cnt: "add_hosts (hl_nhosts hl) (hostrange_count h') = int (length (names rs @ hr_hosts h))"
    using add_hosts_int[of "hl_nhosts hl" h'] f ok(2) hs bound by simp
  have "\<exists>hl2 ps2 rs2. (if b then Some hl1
        else (case new_obj hl1 (hostrange_copy h') of (p, hl') \<Rightarrow>
                set_slot (hl'\<lparr>hl_nranges := hl_nranges hl' + 1\<rparr>) (hl_nranges hl') p)) = Some hl2 \<and>
      hl_rep hl2 ps2 rs2 \<and> hl_nhosts hl2 = hl_nhosts hl \<and> hl_ilist hl2 = hl_ilist hl \<and>
      (\<forall>r\<in>set rs2. hr_ok r) \<and> names rs2 = names rs @ hr_hosts h"
  proof (cases b)
    case True
    then show ?thesis using r1 fr room ok1 nm by auto
  next
    case False
    have "hl_nranges hl1 < length (hl_hr hl1)" using room(4) fr room(2) by simp
    from rep_append[OF r1 this, of "hostrange_copy h'"] False show ?thesis
      using fr room ok1 nm f ok(2) by (fastforce simp: copy_same)
  qed
  then obtain hl2 ps2 rs2 where s2:
    "(if b then Some hl1
        else (case new_obj hl1 (hostrange_copy h') of (p, hl') \<Rightarrow>
                set_slot (hl'\<lparr>hl_nranges := hl_nranges hl' + 1\<rparr>) (hl_nranges hl') p)) = Some hl2"
    "hl_rep hl2 ps2 rs2" "hl_nhosts hl2 = hl_nhosts hl" "hl_ilist hl2 = hl_ilist hl"
    "\<forall>r\<in>set rs2. hr_ok r" "names rs2 = names rs @ hr_hosts h" by blast
  let ?n = "int (length (names rs @ hr_hosts h))"
  have "hostlist_push_range hl h = Some (?n, hl2\<lparr>hl_nhosts := ?n\<rparr>, h')"
    using te s2(1,3) cnt unfolding hostlist_push_range_def Let_def by simp
  moreover have "hl_ok (hl2\<lparr>hl_nhosts := ?n\<rparr>) \<and> hl_hosts (hl2\<lparr>hl_nhosts := ?n\<rparr>) = names rs2"
    by (rule hl_okI[of _ ps2 rs2]) (use s2 bound hs in \<open>simp_all add: rep_nhosts\<close>)
  ultimately show ?thesis
    using s2(4,6) sm hs by auto
qed

end
