(* ===== verification/HostlistOps.thy ===== *)
theory HostlistOps
  imports HostlistLaws
begin

text \<open>
  The operations of \<open>lib/hostlist.c\<close> on the sequence of names: pushing names and lists,
  popping, shifting, indexing, deleting, searching and iterating.
\<close>

section \<open>A single name as a range\<close>

lemma dec_val_nonneg [simp]: "0 \<le> dec_val s"
  by (induction s rule: rev_induct) (simp_all add: dec_val_append, simp add: dec_val_def)

lemma digit_char_of_val: "isdigit c \<Longrightarrow> digit_char (digit_val c) = c"
proof -
  assume d: "isdigit c"
  then have "digit_val c < 10" by (auto simp: isdigit_def digit_val_def)
  then have "(of_char (digit_char (digit_val c)) :: nat) = of_char c"
    using d by (auto simp: of_digit_char isdigit_def digit_val_def)
  then show ?thesis by (metis of_char_eq_iff)
qed

lemma digit_val_less: "isdigit c \<Longrightarrow> digit_val c < 10"
  by (auto simp: isdigit_def digit_val_def)

lemma dec_small: "n < 10 \<Longrightarrow> dec n = [digit_char n]"
  by (subst dec.simps) simp

lemma dec_snoc: "0 < v \<Longrightarrow> d < 10 \<Longrightarrow> dec (10 * v + d) = dec v @ [digit_char d]"
  by (subst dec.simps) simp

lemma pad_dec_val:
  "s \<noteq> [] \<Longrightarrow> \<forall>c\<in>set s. isdigit c \<Longrightarrow> pad (length s) (nat (dec_val s)) = s"
proof (induction s rule: rev_induct)
  case (snoc c s)
  let ?d = "digit_val c" and ?v = "nat (dec_val s)"
  have d: "?d < 10" "digit_char ?d = c" using snoc.prems by (simp_all add: digit_val_less digit_char_of_val)
  have e: "nat (dec_val (s @ [c])) = 10 * ?v + ?d"
    by (simp add: dec_val_append nat_add_distrib nat_mult_distrib)
  show ?case
  proof (cases "s = []")
    case True
    then show ?thesis using d e by (simp add: pad_def dec_small dec_val_def)
  next
    case False
    then have IH: "pad (length s) ?v = s" using snoc by simp
    show ?thesis
    proof (cases "?v = 0")
      case True
      then have "replicate (length s - 1) (CHR ''0'') @ [digit_char 0] = s"
        using IH by (simp add: pad_def dec_small)
      moreover have "digit_char 0 = CHR ''0''" by (simp add: digit_char_def)
      ultimately have "s = replicate (length s) (CHR ''0'')"
        using False by (cases "length s") (simp_all add: replicate_append_same)
      then show ?thesis using True d e by (simp add: pad_def dec_small)
    next
      case nz: False
      then show ?thesis using IH d e by (simp add: pad_def dec_snoc)
    qed
  qed
qed simp

definition host_range :: "string \<Rightarrow> hostrange" where
  "host_range s =
    (let hn = hostname_create s
     in if hostname_suffix_is_valid hn
        then hostrange_create (hn_prefix hn) (hn_num hn) (hn_num hn) (hostname_suffix_width hn)
        else hostrange_create_single s)"

lemma strtoul_all_digits:
  assumes "s \<noteq> []" "\<forall>c\<in>set s. isdigit c" "strtoul s = (n, p)" "n \<le> MAX_HOST_SUFFIX"
  shows "p = []" "int (unat n) = dec_val s" "unat n \<le> 2 ^ 25"
proof -
  have st: "strtoul s = (if dec_val s < 2 ^ 64 then word_of_int (dec_val s) else ULONG_MAX, [])"
    using strtoul_digits[OF assms(1,2), of "[]"] by simp
  then show "p = []" using assms(3) by simp
  have m: "unat MAX_HOST_SUFFIX = 2 ^ 25" by (simp add: MAX_HOST_SUFFIX_def)
  then show n: "unat n \<le> 2 ^ 25" using assms(4) by (simp add: word_le_nat_alt)
  have "dec_val s < 2 ^ 64"
  proof (rule ccontr)
    assume "\<not> dec_val s < 2 ^ 64"
    then have "n = ULONG_MAX" using st assms(3) by simp
    with n show False by simp
  qed
  moreover from this have "n = word_of_int (dec_val s)" using st assms(3) by simp
  ultimately show "int (unat n) = dec_val s"
    by (simp add: unsigned_of_int take_bit_int_eq_self)
qed

lemma hostname_cases:
  fixes s :: string
  defines "k \<equiv> length (dropWhile isdigit (rev s))"
  shows "s = take k s @ drop k s" "\<forall>c\<in>set (drop k s). isdigit c" "k \<le> length s"
    "hostname_suffix_is_valid (hostname_create s) \<Longrightarrow>
       drop k s \<noteq> [] \<and> hn_prefix (hostname_create s) = take k s \<and>
       hn_suffix (hostname_create s) = Some (drop k s) \<and>
       int (unat (hn_num (hostname_create s))) = dec_val (drop k s) \<and>
       unat (hn_num (hostname_create s)) \<le> 2 ^ 25"
    "hn_hostname (hostname_create s) = s"
proof -
  show "s = take k s @ drop k s" by simp
  show kl: "k \<le> length s"
    unfolding k_def by (metis length_dropWhile_le length_rev)
  have rv: "rev s = takeWhile isdigit (rev s) @ dropWhile isdigit (rev s)" by simp
  have "s = rev (dropWhile isdigit (rev s)) @ rev (takeWhile isdigit (rev s))"
    by (metis rev_append rev_rev_ident takeWhile_dropWhile_id)
  then have "drop k s = rev (takeWhile isdigit (rev s))"
    unfolding k_def by (metis append_eq_conv_conj length_rev)
  then show digits: "\<forall>c\<in>set (drop k s). isdigit c"
    by (auto dest: set_takeWhileD)
  show "hn_hostname (hostname_create s) = s"
    by (simp add: hostname_create_def Let_def split: prod.splits)
  assume v: "hostname_suffix_is_valid (hostname_create s)"
  have idx: "host_prefix_end s = int k - 1" by (simp add: host_prefix_end_def k_def)
  have ne: "k \<noteq> length s"
    using v by (auto simp: hostname_create_def idx hostname_suffix_is_valid_def)
  then have dne: "drop k s \<noteq> []" using kl by simp
  obtain n p where st: "strtoul (drop k s) = (n, p)" by (cases "strtoul (drop k s)")
  have i: "int k - 1 \<noteq> int (length s) - 1" using ne by simp
  have c: "p = []" "n \<le> MAX_HOST_SUFFIX"
    using v i st by (auto simp: hostname_create_def idx Let_def hostname_suffix_is_valid_def split: if_splits)
  then have "hostname_create s = \<lparr>hn_hostname = s, hn_prefix = take k s, hn_num = n, hn_suffix = Some (drop k s)\<rparr>"
    using i st by (simp add: hostname_create_def idx Let_def)
  then show "drop k s \<noteq> [] \<and> hn_prefix (hostname_create s) = take k s \<and>
       hn_suffix (hostname_create s) = Some (drop k s) \<and>
       int (unat (hn_num (hostname_create s))) = dec_val (drop k s) \<and>
       unat (hn_num (hostname_create s)) \<le> 2 ^ 25"
    using dne strtoul_all_digits[OF dne digits st c(2)] by simp
qed

lemma host_range_ok: "hr_ok (host_range s)" "hr_hosts (host_range s) = [s]"
proof -
  let ?hn = "hostname_create s"
  define k where "k = length (dropWhile isdigit (rev s))"
  note c = hostname_cases[of s, folded k_def]
  have "hr_ok (host_range s) \<and> hr_hosts (host_range s) = [s]"
  proof (cases "hostname_suffix_is_valid ?hn")
    case False
    then show ?thesis
      by (simp add: host_range_def hostrange_create_single_def hr_ok_def hr_hosts_def Let_def)
  next
    case True
    note v = c(4)[OF True]
    have w: "hostname_suffix_width ?hn = int (length (drop k s))"
      using v by (simp add: hostname_suffix_width_def)
    have "unat (hn_num ?hn) = nat (dec_val (drop k s))" using v by (metis nat_int)
    then have "pad (length (drop k s)) (unat (hn_num ?hn)) = drop k s"
      using pad_dec_val v c(2) by metis
    then have "take k s @ pad (nat (hostname_suffix_width ?hn)) (unat (hn_num ?hn)) = s"
      using w c(1) by (simp del: length_drop)
    moreover have "hr_prefix (host_range s) = take k s" "hr_lo (host_range s) = hn_num ?hn"
      "hr_hi (host_range s) = hn_num ?hn" "hr_width (host_range s) = hostname_suffix_width ?hn"
      "\<not> hr_single (host_range s)"
      using True v by (simp_all add: host_range_def hostrange_create_def Let_def)
    moreover have "0 \<le> hostname_suffix_width ?hn" using w by simp
    ultimately show ?thesis
      using v by (simp add: hr_ok_def hr_hosts_def)
  qed
  then show "hr_ok (host_range s)" "hr_hosts (host_range s) = [s]" by auto
qed

section \<open>Pushing names and lists\<close>

lemma push_host_result:
  assumes "hl_ok hl" "length (hl_hosts hl) + 1 < 2 ^ 31"
  shows "\<exists>hl'. hostlist_push_host hl s = Some (1, hl') \<and> hl_ok hl' \<and>
    hl_hosts hl' = hl_hosts hl @ [s] \<and> hl_ilist hl' = hl_ilist hl"
proof -
  have "hostlist_push_host hl s = map_option (\<lambda>(n, h, r). (1, h)) (hostlist_push_range hl (host_range s))"
    by (simp add: hostlist_push_host_def host_range_def Let_def map_option_case split: option.splits)
  then show ?thesis
    using push_range_result[OF assms(1) host_range_ok(1)] assms(2) host_range_ok(2) by fastforce
qed

lemma push_list_loop_result:
  assumes "hl_rep h2 ps rs" "\<forall>r\<in>set rs. hr_ok r"
  shows "i + k = hl_nranges h2 \<Longrightarrow> hl_ok h1 \<Longrightarrow>
    length (hl_hosts h1) + length (names (drop i rs)) < 2 ^ 31 \<Longrightarrow>
    \<exists>m h1' h2' rs'. push_list_loop h1 h2 i k n = Some (m, h1', h2') \<and> hl_ok h1' \<and>
      hl_hosts h1' = hl_hosts h1 @ names (drop i rs) \<and> hl_rep h2' ps rs' \<and>
      (\<forall>r\<in>set rs'. hr_ok r) \<and> names rs' = names rs \<and> hl_nhosts h2' = hl_nhosts h2"
  using assms
proof (induction k arbitrary: h1 h2 i n rs)
  case 0
  then show ?case using rep_length[OF 0(4)] by auto
next
  case (Suc k)
  note rep = Suc.prems(4)
  have i: "i < hl_nranges h2" "i < length rs" using Suc.prems(1) rep_length[OF rep] by auto
  let ?r = "rs ! i"
  have rok: "hr_ok ?r" using Suc.prems(5) i by simp
  have d: "drop i rs = ?r # drop (Suc i) rs" using i by (simp add: Cons_nth_drop_Suc)
  have "length (hl_hosts h1) + length (hr_hosts ?r) < 2 ^ 31"
    using Suc.prems(3) unfolding d by simp
  from push_range_result[OF Suc.prems(2) rok this] obtain g r' where
    pr: "hostlist_push_range h1 ?r = Some (int (length (hl_hosts g)), g, r')" and
    g: "hl_ok g" "hl_hosts g = hl_hosts h1 @ hr_hosts ?r" and sm: "same_range ?r r'" by blast
  note f = same_range_fields[OF sm]
  let ?h2 = "set_obj h2 (Some (ps ! i)) r'"
  have rep': "hl_rep ?h2 ps (rs[i := r'])" by (rule rep_set_obj[OF rep i(1)])
  have ok': "\<forall>r\<in>set (rs[i := r']). hr_ok r" using ok_update[OF Suc.prems(5)] f rok by simp
  have nm: "names (rs[i := r']) = names rs" using names_same[OF i(2)] f by simp
  have dr: "drop (Suc i) (rs[i := r']) = drop (Suc i) rs" by simp
  have "Suc i + k = hl_nranges ?h2" using Suc.prems(1) by simp
  moreover have "length (hl_hosts g) + length (names (drop (Suc i) (rs[i := r']))) < 2 ^ 31"
    using Suc.prems(3) g unfolding d dr by simp
  ultimately obtain m h1' h2' rs' where
    "push_list_loop g ?h2 (Suc i) k (n + int (length (hl_hosts g))) = Some (m, h1', h2')" "hl_ok h1'"
    "hl_hosts h1' = hl_hosts g @ names (drop (Suc i) (rs[i := r']))" "hl_rep h2' ps rs'"
    "\<forall>r\<in>set rs'. hr_ok r" "names rs' = names (rs[i := r'])" "hl_nhosts h2' = hl_nhosts ?h2"
    using Suc.IH[OF _ g(1) _ rep' ok'] by blast
  then show ?case
    using rep_slot[OF rep i(1)] rep_obj[OF rep i(1)] pr g nm d dr by simp blast
qed

lemma push_list_result:
  assumes "hl_ok h1" "hl_ok h2" "length (hl_hosts h1) + length (hl_hosts h2) < 2 ^ 31"
  shows "\<exists>n h1' h2'. hostlist_push_list h1 h2 = Some (n, h1', h2') \<and> hl_ok h1' \<and> hl_ok h2' \<and>
    hl_hosts h1' = hl_hosts h1 @ hl_hosts h2 \<and> hl_hosts h2' = hl_hosts h2"
proof -
  from assms(2) obtain ps rs where rep: "hl_rep h2 ps rs" and rok: "\<forall>r\<in>set rs. hr_ok r"
    and hs: "hl_hosts h2 = names rs" "hl_nhosts h2 = int (length (names rs))" "length (names rs) < 2 ^ 31"
    by (elim hl_okE)
  from push_list_loop_result[OF rep rok, of 0 "hl_nranges h2" h1 0] assms(1,3) hs
  obtain m h1' h2' rs' where r: "hostlist_push_list h1 h2 = Some (m, h1', h2')" "hl_ok h1'"
    "hl_hosts h1' = hl_hosts h1 @ names rs" "hl_rep h2' ps rs'" "\<forall>r\<in>set rs'. hr_ok r"
    "names rs' = names rs" "hl_nhosts h2' = hl_nhosts h2"
    by (auto simp: hostlist_push_list_def)
  have "hl_ok h2' \<and> hl_hosts h2' = names rs'"
    by (rule hl_okI[OF r(4,5)]) (use r hs in simp_all)
  with r hs show ?thesis by auto
qed

section \<open>Moving slots\<close>

lemma slots_down_eq:
  "i + k < length hr \<Longrightarrow> slots_down hr i k = take i hr @ take k (drop (Suc i) hr) @ drop (i + k) hr"
proof (induction k arbitrary: hr i)
  case (Suc k)
  then have i: "Suc i < length hr" by simp
  have "drop (Suc i) hr = hr ! Suc i # drop (Suc (Suc i)) hr"
    using i by (simp add: Cons_nth_drop_Suc)
  moreover have "take (Suc i) (hr[i := x]) = take i hr @ [x]" for x
    using i by (simp add: take_Suc_conv_app_nth)
  ultimately show ?case
    using Suc i by simp
qed simp

lemma slots_up_eq:
  "i + k \<le> length hr \<Longrightarrow> slots_up hr i k tmp = take i hr @ take k (tmp # drop i hr) @ drop (i + k) hr"
proof (induction k arbitrary: hr i tmp)
  case (Suc k)
  then have i: "i < length hr" by simp
  have "drop i hr = hr ! i # drop (Suc i) hr" using i by (simp add: Cons_nth_drop_Suc)
  moreover have "take (Suc i) (hr[i := x]) = take i hr @ [x]" for x
    using i by (simp add: take_Suc_conv_app_nth)
  ultimately show ?case
    using Suc i by simp
qed simp

lemma map_iterators_ok:
  assumes "\<And>a i. (a, i) \<in> set xs \<Longrightarrow> \<exists>j. f i = Some j \<and> Q j"
  shows "\<exists>ys. map_iterators f xs = Some ys \<and> (\<forall>(a, j)\<in>set ys. Q j) \<and> map fst ys = map fst xs"
  using assms
proof (induction xs)
  case (Cons x xs)
  obtain a i where x: "x = (a, i)" by (cases x)
  obtain j where "f i = Some j" "Q j" using Cons.prems[of a i] x by auto
  moreover obtain ys where "map_iterators f xs = Some ys" "\<forall>(a, j)\<in>set ys. Q j" "map fst ys = map fst xs"
    using Cons.IH Cons.prems by auto
  ultimately show ?case by (simp add: x)
qed simp

lemma list_all2_del_at:
  "list_all2 P xs ys \<Longrightarrow> list_all2 P (del_at n xs) (del_at n ys)"
  by (simp add: del_at_def list_all2_appendI)

lemma list_all2_ins_at:
  "list_all2 P xs ys \<Longrightarrow> P x y \<Longrightarrow> list_all2 P (ins_at n x xs) (ins_at n y ys)"
  by (simp add: ins_at_def list_all2_appendI)

lemma map_ins_at: "map f (ins_at n x xs) = ins_at n (f x) (map f xs)"
  by (simp add: ins_at_def take_map drop_map)

lemma map_del_at: "map f (del_at n xs) = del_at n (map f xs)"
  by (simp add: del_at_def take_map drop_map)

section \<open>Deleting and inserting a range\<close>

lemma delete_range_rep:
  assumes rep: "hl_rep hl ps rs" and n: "n < hl_nranges hl"
  shows "\<exists>hl'. hostlist_delete_range hl n = Some hl' \<and> hl_rep hl' (del_at n ps) (del_at n rs) \<and>
    hl_nhosts hl' = hl_nhosts hl \<and> map fst (hl_ilist hl') = map fst (hl_ilist hl)"
proof -
  note d = repD[OF rep] and l = rep_length[OF rep] rep_nranges[OF rep]
  let ?N = "hl_nranges hl - 1"
  let ?hr = "slots_down (hl_hr hl) n (?N - n)"
  have e: "?hr = take n (hl_hr hl) @ take (?N - n) (drop (Suc n) (hl_hr hl)) @ drop ?N (hl_hr hl)"
    using slots_down_eq[of n "?N - n" "hl_hr hl"] n l by simp
  then have len: "length ?hr = length (hl_hr hl)" using n l by simp
  have tk: "take ?N ?hr = del_at n (take (hl_nranges hl) (hl_hr hl))"
    unfolding e del_at_def using n l by (simp add: take_drop)
  let ?hl2 = "hl\<lparr>hl_hr := ?hr[?N := None], hl_nranges := ?N\<rparr>"
  have ss: "set_slot (hl\<lparr>hl_hr := ?hr, hl_nranges := ?N\<rparr>) ?N None = Some ?hl2"
    using len n l by (simp add: set_slot_def)
  define Q where "Q i \<longleftrightarrow> 0 \<le> hi_idx i \<and> hi_idx i < int (length (hl_hr hl))" for i :: hl_iterator
  have "\<exists>j. shift_iterator ?hl2 (int n) 0 1 i = Some j \<and> Q j" if "(a, i) \<in> set (hl_ilist hl)" for a i
    using d(8)[OF that] d(6,7) len l n
    by (auto simp: shift_iterator_def it_move_def slot_def hostlist_iterator_reset_def Q_def)
  then have "\<exists>ys. map_iterators (shift_iterator ?hl2 (int n) 0 1) (hl_ilist hl) = Some ys \<and>
      (\<forall>(a, j)\<in>set ys. Q j) \<and> map fst ys = map fst (hl_ilist hl)"
    by (rule map_iterators_ok)
  then obtain its where
    its: "map_iterators (shift_iterator ?hl2 (int n) 0 1) (hl_ilist hl) = Some its"
      "\<forall>(a, j)\<in>set its. Q j" "map fst its = map fst (hl_ilist hl)" by blast
  let ?hl4 = "hostrange_destroy (?hl2\<lparr>hl_ilist := its\<rparr>) (Some (ps ! n))"
  have run: "hostlist_delete_range hl n = Some ?hl4"
    using n rep_slot[OF rep n] ss its(1)
    unfolding hostlist_delete_range_def Let_def hostlist_shift_iterators_def by simp
  have ps: "ps ! n \<notin> set (del_at n ps)" "distinct (del_at n ps)"
    using del_at_props[OF d(3), of n] n l by auto
  have l2: "list_all2 (\<lambda>p r. ((hl_mem hl)(ps ! n := None)) p = Some r) (del_at n ps) (del_at n rs)"
    using list_all2_del_at[OF d(4), of n] ps(1) by (auto elim!: list.rel_mono_strong)
  have "hl_rep ?hl4 (del_at n ps) (del_at n rs)"
  proof (rule repI)
    show "take (hl_nranges ?hl4) (hl_hr ?hl4) = map Some (del_at n ps)"
      using tk d(2) by (simp add: hostrange_destroy_def map_del_at)
    show "\<And>a r. hl_mem ?hl4 a = Some r \<Longrightarrow> a < hl_brk ?hl4"
      using d(5) by (auto simp: hostrange_destroy_def split: if_splits)
    show "\<And>b it. (b, it) \<in> set (hl_ilist ?hl4) \<Longrightarrow> 0 \<le> hi_idx it \<and> hi_idx it < int (length (hl_hr ?hl4))"
      using its(2) len by (auto simp: hostrange_destroy_def Q_def)
  qed (use l2 ps d(6,7) len n l in \<open>simp_all add: hostrange_destroy_def\<close>)
  then show ?thesis
    using run its(3) by (simp add: hostrange_destroy_def)
qed

lemma insert_range_rep:
  assumes rep: "hl_rep hl ps rs" and n: "n \<le> hl_nranges hl"
    and its: "\<And>a i. (a, i) \<in> set (hl_ilist hl) \<Longrightarrow> hi_idx i \<le> int (hl_nranges hl) - 1 \<or> hi_idx i < int n"
  shows "\<exists>hl' p. hostlist_insert_range hl r n = Some (1, hl') \<and>
    hl_rep hl' (ins_at n p ps) (ins_at n (hostrange_copy r) rs) \<and>
    hl_nhosts hl' = hl_nhosts hl \<and> map fst (hl_ilist hl') = map fst (hl_ilist hl)"
proof -
  define h where "h = (if hl_size hl = hl_nranges hl then hostlist_expand hl else hl)"
  note room = expand_room[OF rep, folded h_def]
  note d = repD[OF room(1)] and l = rep_length[OF room(1)] rep_nranges[OF room(1)]
  let ?p = "hl_brk h" and ?N = "hl_nranges h"
  let ?r = "hostrange_copy r"
  let ?hr = "slots_up ((hl_hr h)[n := Some ?p]) (n + 1) (?N - n) (hl_hr h ! n)"
  have n': "n \<le> ?N" "?N < length (hl_hr h)" using n room by simp_all
  have "n + 1 + (?N - n) \<le> length ((hl_hr h)[n := Some ?p])" using n' by simp
  from slots_up_eq[OF this, of "hl_hr h ! n"]
  have e: "?hr = take n (hl_hr h) @ Some ?p # take (?N - n) (drop n (hl_hr h)) @ drop (Suc ?N) (hl_hr h)"
    using n' by (simp add: take_Suc_conv_app_nth Cons_nth_drop_Suc)
  then have len: "length ?hr = length (hl_hr h)" using n' by simp
  have tk: "take (Suc ?N) ?hr = ins_at n (Some ?p) (take ?N (hl_hr h))"
    unfolding e ins_at_def using n' by (simp add: take_drop Suc_diff_le)
  let ?h2 = "h\<lparr>hl_mem := (hl_mem h)(?p \<mapsto> ?r), hl_brk := ?p + 1, hl_hr := ?hr, hl_nranges := ?N + 1\<rparr>"
  let ?f = "\<lambda>i. if hi_idx i \<ge> int n then it_move ?h2 i (hi_idx i + 1) else Some i"
  define Q where "Q i \<longleftrightarrow> 0 \<le> hi_idx i \<and> hi_idx i < int (length (hl_hr h))" for i :: hl_iterator
  have "\<exists>j. ?f i = Some j \<and> Q j" if "(a, i) \<in> set (hl_ilist h)" for a i
    using d(8)[OF that] its[of a i] that room n' len
    by (auto simp: it_move_def slot_def Q_def)
  then have "\<exists>ys. map_iterators ?f (hl_ilist h) = Some ys \<and>
      (\<forall>(a, j)\<in>set ys. Q j) \<and> map fst ys = map fst (hl_ilist h)"
    by (rule map_iterators_ok)
  then obtain jt where
    jt: "map_iterators ?f (hl_ilist h) = Some jt" "\<forall>(a, j)\<in>set jt. Q j" "map fst jt = map fst (hl_ilist h)"
    by blast
  let ?h3 = "?h2\<lparr>hl_ilist := jt\<rparr>"
  have run: "hostlist_insert_range hl r n = Some (1, ?h3)"
    using n n' jt(1) unfolding hostlist_insert_range_def h_def[symmetric] Let_def
    by (simp add: slot_def new_obj_def cong: if_cong)
  have f: "?p \<notin> set ps"
    using d(1,5,9) by (metis in_set_conv_nth less_irrefl)
  have "list_all2 (\<lambda>p s. ((hl_mem h)(?p \<mapsto> ?r)) p = Some s) ps rs"
    using d(4) f by (auto elim!: list.rel_mono_strong)
  then have l2: "list_all2 (\<lambda>p s. ((hl_mem h)(?p \<mapsto> ?r)) p = Some s) (ins_at n ?p ps) (ins_at n ?r rs)"
    by (rule list_all2_ins_at) simp
  have "hl_rep ?h3 (ins_at n ?p ps) (ins_at n ?r rs)"
  proof (rule repI)
    show "take (hl_nranges ?h3) (hl_hr ?h3) = map Some (ins_at n ?p ps)"
      using tk d(2) by (simp add: map_ins_at)
    show "\<And>a r. hl_mem ?h3 a = Some r \<Longrightarrow> a < hl_brk ?h3"
      using d(5) by (auto split: if_splits simp: less_Suc_eq)
    show "\<And>b it. (b, it) \<in> set (hl_ilist ?h3) \<Longrightarrow> 0 \<le> hi_idx it \<and> hi_idx it < int (length (hl_hr ?h3))"
      using jt(2) len by (auto simp: Q_def)
  qed (use l2 f d(3,6,7) len n' l in \<open>simp_all add: distinct_ins_at\<close>)
  then show ?thesis
    using run jt(3) room by (intro exI[of _ ?h3] exI[of _ ?p]) simp
qed

end
