(* ===== verification/HostlistAccess.thy ===== *)
theory HostlistAccess
  imports HostlistOps
begin

text \<open>
  Taking names off a host list and finding them: \<open>hostlist_pop\<close>, \<open>hostlist_shift\<close>,
  \<open>hostlist_nth\<close>, \<open>hostlist_find\<close>, \<open>hostlist_delete_nth\<close> and \<open>hostlist_delete_host\<close> as
  functions on the sequence of names.
\<close>

section \<open>Removing the last range\<close>

lemma rep_empty_iff:
  assumes "hl_rep hl ps rs" "\<forall>r\<in>set rs. hr_ok r"
  shows "names rs = [] \<longleftrightarrow> hl_nranges hl = 0"
proof -
  have "names rs = [] \<longleftrightarrow> rs = []"
    using assms(2) hr_hosts_nonempty by (cases rs) auto
  then show ?thesis using rep_length[OF assms(1)] by auto
qed

lemma rep_drop_last:
  assumes rep: "hl_rep hl (ps @ [p]) (rs @ [r])"
  shows "\<exists>hl'. set_slot ((hostrange_destroy hl (Some p))\<lparr>hl_nranges := hl_nranges hl - 1\<rparr>)
      (hl_nranges hl - 1) None = Some hl' \<and> hl_rep hl' ps rs \<and> hl_nhosts hl' = hl_nhosts hl \<and>
      hl_ilist hl' = hl_ilist hl"
proof -
  note d = repD[OF rep]
  have n: "hl_nranges hl = Suc (length ps)" "length ps < length (hl_hr hl)" "length ps = length rs"
    using d(1) rep_nranges[OF rep] rep_length[OF rep] by auto
  have tk: "take (length ps) (hl_hr hl) = map Some ps"
    using arg_cong[OF d(2), of "take (length ps)"] n by simp
  have "list_all2 (\<lambda>p r. hl_mem hl p = Some r) ps rs"
    using d(4) n(3) by (simp add: list_all2_append)
  then have l2: "list_all2 (\<lambda>q r. ((hl_mem hl)(p := None)) q = Some r) ps rs"
    using d(3) by (auto elim!: list.rel_mono_strong)
  let ?hl = "hl\<lparr>hl_mem := (hl_mem hl)(p := None), hl_nranges := length ps,
    hl_hr := (hl_hr hl)[length ps := None]\<rparr>"
  have "hl_rep ?hl ps rs"
  proof (rule repI)
    show "\<And>a r. hl_mem ?hl a = Some r \<Longrightarrow> a < hl_brk ?hl"
      using d(5) by (auto split: if_splits)
    show "\<And>b it. (b, it) \<in> set (hl_ilist ?hl) \<Longrightarrow> 0 \<le> hi_idx it \<and> hi_idx it < int (length (hl_hr ?hl))"
      using d(8) by simp
  qed (use l2 d(3,6,7) tk in simp_all)
  then show ?thesis
    using n by (simp add: set_slot_def hostrange_destroy_def)
qed

section \<open>Pop and shift\<close>

lemma pop_result:
  assumes ok: "hl_ok hl"
  shows "if hl_hosts hl = [] then hostlist_pop hl = Some (None, hl)
    else \<exists>hl'. hostlist_pop hl = Some (Some (last (hl_hosts hl)), hl') \<and> hl_ok hl' \<and>
           hl_hosts hl' = butlast (hl_hosts hl) \<and> hl_ilist hl' = hl_ilist hl"
proof (cases "hl_hosts hl = []")
  case True
  then show ?thesis using ok by (auto simp: hostlist_pop_def hl_ok_def)
next
  case False
  from ok obtain qs ss where rep0: "hl_rep hl qs ss" and rok0: "\<forall>r\<in>set ss. hr_ok r"
    and hs: "hl_hosts hl = names ss" "hl_nhosts hl = int (length (names ss))" "length (names ss) < 2 ^ 31"
    by (elim hl_okE)
  from False obtain rs r where ss: "ss = rs @ [r]" using hs(1) by (cases ss rule: rev_cases) auto
  obtain ps p where qs: "qs = ps @ [p]"
    using rep_length[OF rep0] ss by (cases qs rule: rev_cases) auto
  note rep = rep0[unfolded ss qs] and rok = rok0[unfolded ss]
  let ?k = "hl_nranges hl - 1"
  have k: "?k < hl_nranges hl" "hl_nranges hl = Suc (length ps)" "length ps = length rs"
    using rep_length[OF rep] by auto
  have at: "slot hl ?k = Some (Some p)" "obj hl (Some p) = Some r"
    using rep_slot[OF rep k(1)] rep_obj[OF rep k(1)] k by (simp_all add: nth_append)
  have r: "hr_ok r" using rok by simp
  from hostrange_pop_result[OF r] obtain g where
    g: "hostrange_pop r = (Some (last (hr_hosts r)), g)"
      "if length (hr_hosts r) = 1 then hostrange_empty g
       else \<not> hostrange_empty g \<and> hr_ok g \<and> hr_hosts g = butlast (hr_hosts r)" by blast
  let ?h1 = "(set_obj hl (Some p) g)\<lparr>hl_nhosts := hl_nhosts hl - 1\<rparr>"
  have rep1: "hl_rep ?h1 (ps @ [p]) (rs @ [g])"
    using rep_set_obj[OF rep k(1), of g] k by (simp add: rep_nhosts nth_append list_update_append)
  have n: "hl_nhosts hl - 1 = int (length (names rs) + length (butlast (hr_hosts r)))" "0 < hl_nhosts hl"
    using hs ss hr_hosts_nonempty[OF r] by (cases "hr_hosts r"; simp)+
  have last: "last (hl_hosts hl) = last (hr_hosts r)"
    "butlast (hl_hosts hl) = names rs @ butlast (hr_hosts r)"
    using hs ss hr_hosts_nonempty[OF r] by (simp_all add: butlast_append)
  have "\<exists>hl'. hostlist_pop hl = Some (Some (last (hr_hosts r)), hl') \<and> hl_ok hl' \<and>
      hl_hosts hl' = names rs @ butlast (hr_hosts r) \<and> hl_ilist hl' = hl_ilist hl"
  proof (cases "hostrange_empty g")
    case True
    then have one: "butlast (hr_hosts r) = []"
      using g(2) by (auto split: if_splits simp flip: length_0_conv)
    from rep_drop_last[OF rep1] obtain h where
      h: "set_slot ((hostrange_destroy ?h1 (Some p))\<lparr>hl_nranges := hl_nranges ?h1 - 1\<rparr>)
        (hl_nranges ?h1 - 1) None = Some h" "hl_rep h ps rs" "hl_nhosts h = hl_nhosts ?h1"
        "hl_ilist h = hl_ilist ?h1" by blast
    have "hostlist_pop hl = Some (Some (last (hr_hosts r)), h)"
      using True n(2) at g(1) h(1) k by (simp add: hostlist_pop_def)
    moreover have "hl_ok h \<and> hl_hosts h = names rs"
      by (rule hl_okI[OF h(2)]) (use rok h(3) n one hs ss in simp_all)
    ultimately show ?thesis using one h(4) by simp
  next
    case False
    then have b: "hr_ok g" "hr_hosts g = butlast (hr_hosts r)" using g(2) by (auto split: if_splits)
    have "hostlist_pop hl = Some (Some (last (hr_hosts r)), ?h1)"
      using False n(2) at g(1) k by (simp add: hostlist_pop_def)
    moreover have "hl_ok ?h1 \<and> hl_hosts ?h1 = names (rs @ [g])"
      by (rule hl_okI[OF rep1]) (use rok n b hs ss in simp_all)
    ultimately show ?thesis using b by simp
  qed
  then show ?thesis using False last by simp
qed

lemma shift_depths_rep:
  assumes "hl_rep hl ps rs"
  shows "\<exists>hl'. hostlist_shift_iterators hl i d 0 = Some hl' \<and> hl_rep hl' ps rs \<and>
    hl_nhosts hl' = hl_nhosts hl \<and> map fst (hl_ilist hl') = map fst (hl_ilist hl)"
proof -
  define Q where "Q j \<longleftrightarrow> 0 \<le> hi_idx j \<and> hi_idx j < int (length (hl_hr hl))" for j :: hl_iterator
  have "\<exists>j. shift_iterator hl i d 0 it = Some j \<and> Q j" if "(a, it) \<in> set (hl_ilist hl)" for a it
    using repD(8)[OF assms that] by (auto simp: shift_iterator_def Q_def)
  then have "\<exists>ys. map_iterators (shift_iterator hl i d 0) (hl_ilist hl) = Some ys \<and>
      (\<forall>(a, j)\<in>set ys. Q j) \<and> map fst ys = map fst (hl_ilist hl)"
    by (rule map_iterators_ok)
  then show ?thesis
    using assms by (fastforce simp: hostlist_shift_iterators_def hl_rep_def Q_def)
qed

lemma shift_result:
  assumes ok: "hl_ok hl"
  shows "if hl_hosts hl = [] then hostlist_shift hl = Some (None, hl)
    else \<exists>hl'. hostlist_shift hl = Some (Some (hd (hl_hosts hl)), hl') \<and> hl_ok hl' \<and>
           hl_hosts hl' = tl (hl_hosts hl) \<and> map fst (hl_ilist hl') = map fst (hl_ilist hl)"
proof (cases "hl_hosts hl = []")
  case True
  then show ?thesis using ok by (auto simp: hostlist_shift_def hl_ok_def)
next
  case False
  from ok obtain ps ss where rep0: "hl_rep hl ps ss" and rok0: "\<forall>r\<in>set ss. hr_ok r"
    and hs: "hl_hosts hl = names ss" "hl_nhosts hl = int (length (names ss))" "length (names ss) < 2 ^ 31"
    by (elim hl_okE)
  from False obtain rs r where ss: "ss = r # rs" using hs(1) by (cases ss) auto
  note rep = rep0[unfolded ss] and rok = rok0[unfolded ss]
  have k: "0 < hl_nranges hl" using rep_length[OF rep] by auto
  let ?p = "Some (ps ! 0)"
  have at: "slot hl 0 = Some ?p" "obj hl ?p = Some r"
    using rep_slot[OF rep k] rep_obj[OF rep k] by simp_all
  have r: "hr_ok r" using rok by simp
  from hostrange_shift_result[OF r] obtain g where
    g: "hostrange_shift r = (Some (hd (hr_hosts r)), g)"
      "if length (hr_hosts r) = 1 then hostrange_empty g
       else \<not> hostrange_empty g \<and> hr_ok g \<and> hr_hosts g = tl (hr_hosts r)" by blast
  let ?h1 = "(set_obj hl ?p g)\<lparr>hl_nhosts := hl_nhosts hl - 1\<rparr>"
  have rep1: "hl_rep ?h1 ps (g # rs)"
    using rep_set_obj[OF rep k, of g] by (simp add: rep_nhosts)
  have n: "hl_nhosts hl - 1 = int (length (tl (hr_hosts r)) + length (names rs))" "0 < hl_nhosts hl"
    using hs ss hr_hosts_nonempty[OF r] by (cases "hr_hosts r"; simp)+
  have hd: "hd (hl_hosts hl) = hd (hr_hosts r)" "tl (hl_hosts hl) = tl (hr_hosts r) @ names rs"
    using hs ss hr_hosts_nonempty[OF r] by simp_all
  have "\<exists>hl'. hostlist_shift hl = Some (Some (hd (hr_hosts r)), hl') \<and> hl_ok hl' \<and>
      hl_hosts hl' = tl (hr_hosts r) @ names rs \<and> map fst (hl_ilist hl') = map fst (hl_ilist hl)"
  proof (cases "hostrange_empty g")
    case True
    then have one: "tl (hr_hosts r) = []"
      using g(2) by (auto split: if_splits simp flip: length_0_conv)
    from delete_range_rep[OF rep1, of 0] k obtain h where
      h: "hostlist_delete_range ?h1 0 = Some h" "hl_rep h (del_at 0 ps) (del_at 0 (g # rs))"
        "hl_nhosts h = hl_nhosts ?h1" "map fst (hl_ilist h) = map fst (hl_ilist ?h1)" by auto
    have "hostlist_shift hl = Some (Some (hd (hr_hosts r)), h)"
      using True n(2) at g(1) h(1) by (simp add: hostlist_shift_def)
    moreover have "hl_ok h \<and> hl_hosts h = names (del_at 0 (g # rs))"
      by (rule hl_okI[OF h(2)]) (use rok h(3) n one hs ss in \<open>simp_all add: del_at_def\<close>)
    ultimately show ?thesis using one h(4) by (simp add: del_at_def)
  next
    case False
    then have b: "hr_ok g" "hr_hosts g = tl (hr_hosts r)" using g(2) by (auto split: if_splits)
    from shift_depths_rep[OF rep1, of 0 0] obtain h where
      h: "hostlist_shift_iterators ?h1 0 0 0 = Some h" "hl_rep h ps (g # rs)"
        "hl_nhosts h = hl_nhosts ?h1" "map fst (hl_ilist h) = map fst (hl_ilist ?h1)" by blast
    have "hostlist_shift hl = Some (Some (hd (hr_hosts r)), h)"
      using False n(2) at g(1) h(1) by (simp add: hostlist_shift_def)
    moreover have "hl_ok h \<and> hl_hosts h = names (g # rs)"
      by (rule hl_okI[OF h(2)]) (use rok h(3) n b hs ss in simp_all)
    ultimately show ?thesis using b h(4) by simp
  qed
  then show ?thesis using False hd by simp
qed

section \<open>The name at an index\<close>

lemma unat_add_nat: "unat (a :: ulong) + k < 2 ^ 64 \<Longrightarrow> unat (a + word_of_int (int k)) = unat a + k"
  by (simp add: unat_word_ariths unat_of_nat)

lemma hr_index:
  assumes "hr_ok r" "\<not> hr_single r" "k < length (hr_hosts r)"
  shows "unat (hr_lo r + word_of_int (int k)) = unat (hr_lo r) + k" "unat (hr_lo r) + k \<le> unat (hr_hi r)"
    "unat (hr_hi r) < 2 ^ 31 - 1"
proof -
  have "unat (hr_lo r) + k \<le> unat (hr_hi r)" "unat (hr_hi r) < 2 ^ 31 - 1"
    using assms hr_ok_nat[OF assms(1)] by auto
  then show "unat (hr_lo r + word_of_int (int k)) = unat (hr_lo r) + k"
    "unat (hr_lo r) + k \<le> unat (hr_hi r)" "unat (hr_hi r) < 2 ^ 31 - 1"
    using unat_add_nat[of "hr_lo r" k] by auto
qed

lemma hostrange_string_nth:
  assumes "hr_ok r" "k < length (hr_hosts r)" "length (hr_hosts r ! k) \<le> 78"
  shows "hostrange_string r (int k) = Some (hr_hosts r ! k)"
proof (cases "hr_single r")
  case True
  then show ?thesis
    using assms by (auto simp: hostrange_string_def Let_def hr_hosts_def MAXHOSTNAMELEN_def)
next
  case False
  note i = hr_index[OF assms(1) False assms(2)] and n = hr_hosts_nth[OF assms(1) False assms(2)]
  have "length (hr_prefix r) + length (pad (nat (hr_width r)) (unat (hr_lo r) + k)) \<le> 78"
    using assms(3) n by simp
  then show ?thesis
    using False n i(1) by (simp add: hostrange_string_def Let_def MAXHOSTNAMELEN_def)
qed

lemma names_take_Suc: "i < length rs \<Longrightarrow> names (take (Suc i) rs) = names (take i rs) @ hr_hosts (rs ! i)"
  by (simp add: take_Suc_conv_app_nth)

lemma names_nth:
  assumes "i < length rs" "length (names (take i rs)) \<le> n" "n < length (names (take (Suc i) rs))"
  shows "names rs ! n = hr_hosts (rs ! i) ! (n - length (names (take i rs)))"
    "n - length (names (take i rs)) < length (hr_hosts (rs ! i))"
  using assms(2,3) unfolding names_split[OF assms(1)] names_take_Suc[OF assms(1)]
  by (auto simp: nth_append)

lemma nth_loop_result:
  assumes "hl_rep hl ps rs" "\<forall>r\<in>set rs. hr_ok r"
  shows "i + k = hl_nranges hl \<Longrightarrow> length (names (take i rs)) \<le> n \<Longrightarrow>
    (n < length (names rs) \<Longrightarrow> length (names rs ! n) \<le> 78) \<Longrightarrow>
    nth_loop hl (int n) i k (int (length (names (take i rs)))) =
      Some (if n < length (names rs) then Some (names rs ! n) else None)"
proof (induction k arbitrary: i)
  case 0
  then show ?case using rep_length[OF assms(1)] by simp
next
  case (Suc k)
  have i: "i < hl_nranges hl" "i < length rs" using Suc.prems(1) rep_length[OF assms(1)] by auto
  have rok: "hr_ok (rs ! i)" using assms(2) i by simp
  let ?c = "length (names (take i rs))"
  have c: "length (names (take (Suc i) rs)) = ?c + length (hr_hosts (rs ! i))"
    by (simp add: names_take_Suc[OF i(2)])
  have le: "length (names (take (Suc i) rs)) \<le> length (names rs)"
    by (metis append_take_drop_id le_add1 length_append names_simps(3))
  show ?case
  proof (cases "n < length (names (take (Suc i) rs))")
    case True
    note nn = names_nth[OF i(2) Suc.prems(2) True]
    have "int n - int ?c = int (n - ?c)" using Suc.prems(2) by simp
    then show ?thesis
      using True c rep_range_at[OF assms(1) i(1)] count_int[OF rok] Suc.prems(2,3) le
        hostrange_string_nth[OF rok nn(2)] nn(1) by (simp add: Let_def)
  next
    case False
    then show ?thesis
      using c rep_range_at[OF assms(1) i(1)] count_int[OF rok] Suc.IH[of "Suc i"] Suc.prems
      by (simp add: Let_def)
  qed
qed

lemma nth_result:
  assumes "hl_ok hl" "n < length (hl_hosts hl) \<Longrightarrow> length (hl_hosts hl ! n) \<le> 78"
  shows "hostlist_nth hl (int n) =
    Some (if n < length (hl_hosts hl) then Some (hl_hosts hl ! n) else None)"
proof -
  from assms(1) obtain ps rs where "hl_rep hl ps rs" "\<forall>r\<in>set rs. hr_ok r" "hl_hosts hl = names rs"
    by (elim hl_okE)
  then show ?thesis
    using nth_loop_result[of hl ps rs 0 "hl_nranges hl" n] assms(2) by (simp add: hostlist_nth_def)
qed

section \<open>Deleting the name at an index\<close>

lemma delete_host_split:
  assumes "hr_ok r" "\<not> hr_single r" "k < length (hr_hosts r)"
  defines "n \<equiv> hr_lo r + word_of_int (int k)"
  shows "\<exists>new r1. hostrange_delete_host r n = Some (new, r1) \<and>
    (case new of
       Some x \<Rightarrow> hr_ok r1 \<and> hr_ok x \<and> hr_hosts r1 = take k (hr_hosts r) \<and>
                 hr_hosts x = drop (Suc k) (hr_hosts r)
     | None \<Rightarrow> if length (hr_hosts r) = 1 then hostrange_empty r1
               else \<not> hostrange_empty r1 \<and> hr_ok r1 \<and> hr_hosts r1 = del_at k (hr_hosts r))"
proof -
  note i = hr_index[OF assms(1-3), folded n_def] and o = hr_ok_nat[OF assms(1)]
  have l: "length (hr_hosts r) = Suc (unat (hr_hi r)) - unat (hr_lo r)"
    using assms(1,2) by simp
  have in_range: "hr_lo r \<le> n" "n \<le> hr_hi r" using i by (simp_all add: word_le_nat_alt)
  have eqs: "n = hr_lo r \<longleftrightarrow> k = 0" "n = hr_hi r \<longleftrightarrow> Suc k = length (hr_hosts r)"
    using i o l by (auto intro: word_unat_eq_iff[THEN iffD2])
  consider (lo) "k = 0" | (hi) "k \<noteq> 0" "Suc k = length (hr_hosts r)"
    | (mid) "k \<noteq> 0" "Suc k < length (hr_hosts r)" using assms(3) by linarith
  then show ?thesis
  proof cases
    case lo
    have "hostrange_delete_host r n = Some (None, r\<lparr>hr_lo := hr_lo r + 1\<rparr>)"
      using in_range eqs lo by (simp add: hostrange_delete_host_def)
    moreover have "hostrange_empty (r\<lparr>hr_lo := hr_lo r + 1\<rparr>)" if "length (hr_hosts r) = 1"
      using that l o unat_succ[of "hr_lo r"] by (auto simp: hostrange_empty_def word_less_nat_alt)
    moreover have "hr_lo r < hr_hi r" if "length (hr_hosts r) \<noteq> 1"
      using that l o assms(3) lo by (auto simp: word_less_nat_alt)
    ultimately show ?thesis
      using drop_lowest[OF assms(1,2)] lo by (auto simp: del_at_def drop_Suc)
  next
    case hi
    have lt: "hr_lo r < hr_hi r" using hi l by (simp add: word_less_nat_alt)
    have "hostrange_delete_host r n = Some (None, r\<lparr>hr_hi := hr_hi r - 1\<rparr>)"
      using in_range eqs hi by (simp add: hostrange_delete_host_def)
    moreover have "butlast (hr_hosts r) = del_at k (hr_hosts r)"
      using hi(2)[symmetric] by (simp add: del_at_def butlast_conv_take)
    ultimately show ?thesis
      using drop_highest[OF assms(1,2) lt] hi by auto
  next
    case mid
    let ?x = "(hostrange_copy r)\<lparr>hr_lo := n + 1\<rparr>" and ?r1 = "r\<lparr>hr_hi := n - 1\<rparr>"
    have run: "hostrange_delete_host r n = Some (Some ?x, ?r1)"
      using in_range eqs mid by (simp add: hostrange_delete_host_def)
    have u: "unat (n + 1) = unat (hr_lo r) + k + 1" "unat (n - 1) = unat (hr_lo r) + k - 1"
      using i mid unat_succ[of n] unat_minus_one[of n] by auto
    have b: "unat (hr_lo r) + k < unat (hr_hi r)" using mid l i by auto
    have x: "hr_ok ?x" "hr_hosts ?x = drop (Suc k) (hr_hosts r)"
      using assms(1,2) u b
      by (simp_all add: hostrange_copy_def hostrange_create_def hr_ok_def hr_hosts_def word_le_nat_alt
          drop_map add.commute)
    have "Suc (unat (n - 1)) = unat (hr_lo r) + k" using u(2) mid by simp
    moreover have "unat (hr_lo r) \<le> unat (n - 1)" "unat (n - 1) < 2 ^ 31 - 1"
      using u(2) b mid(1) i(3) by linarith+
    ultimately have r1: "hr_ok ?r1" "hr_hosts ?r1 = take k (hr_hosts r)"
      using assms(1,2) b mid
      by (simp_all add: hr_ok_def hr_hosts_def word_le_nat_alt take_map del: upt_Suc)
    show ?thesis using run x r1 by auto
  qed
qed

lemma names_del_nth:
  assumes "i < length rs" "length (names (take i rs)) \<le> n" "n < length (names (take (Suc i) rs))"
  shows "del_at n (names rs) =
    names (take i rs) @ del_at (n - length (names (take i rs))) (hr_hosts (rs ! i)) @ names (drop (Suc i) rs)"
proof -
  have "n - length (names (take i rs)) < length (hr_hosts (rs ! i))"
    by (rule names_nth(2)[OF assms])
  then show ?thesis
    using assms(2) unfolding names_split[OF assms(1)]
    by (simp add: del_at_def Suc_diff_le)
qed

lemma rep_slot_iterators:
  assumes "hl_rep hl ps rs" "(a, i) \<in> set (hl_ilist hl)"
  shows "hi_idx i < int (hl_size hl)"
  using repD(6,8)[OF assms(1)] assms(2) by simp

text \<open>The iterators of the list are not past its last range; then an insertion keeps them in bounds.\<close>

definition its_inside :: "hostlist \<Rightarrow> bool" where
  "its_inside hl \<longleftrightarrow> (\<forall>(a, i)\<in>set (hl_ilist hl). hi_idx i < int (hl_nranges hl))"

text \<open>What \<open>hostlist_delete_nth\<close> does with the range \<open>i\<close> that holds the name.\<close>

definition delete_in_range :: "hostlist \<Rightarrow> nat \<Rightarrow> ulong \<Rightarrow> hostlist option" where
  "delete_in_range hl i num =
    (case (slot hl i, range_at hl i) of
       (Some p, Some r) \<Rightarrow>
         if hr_single r then hostlist_delete_range hl i
         else (case hostrange_delete_host r num of
                 None \<Rightarrow> None
               | Some (Some x, r1) \<Rightarrow> map_option snd (hostlist_insert_range (set_obj hl p r1) x (i + 1))
               | Some (None, r1) \<Rightarrow>
                   if hostrange_empty r1 then hostlist_delete_range (set_obj hl p r1) i
                   else Some (set_obj hl p r1))
     | _ \<Rightarrow> None)"

lemma delete_in_range_result:
  assumes rep: "hl_rep hl ps rs" and rok: "\<forall>r\<in>set rs. hr_ok r" and i: "i < hl_nranges hl"
    and k: "k < length (hr_hosts (rs ! i))" and its: "its_inside hl"
  shows "\<exists>hl' ps' rs'. delete_in_range hl i (hr_lo (rs ! i) + word_of_int (int k)) = Some hl' \<and>
    hl_rep hl' ps' rs' \<and> (\<forall>r\<in>set rs'. hr_ok r) \<and> hl_nhosts hl' = hl_nhosts hl \<and>
    map fst (hl_ilist hl') = map fst (hl_ilist hl) \<and>
    names rs' = names (take i rs) @ del_at k (hr_hosts (rs ! i)) @ names (drop (Suc i) rs)"
proof -
  let ?r = "rs ! i" and ?p = "Some (ps ! i)"
  note at = rep_slot[OF rep i] rep_obj[OF rep i] rep_range_at[OF rep i]
  have il: "i < length rs" and rr: "hr_ok ?r" using i rep_length[OF rep] rok by auto
  have sub: "set (del_at i xs) \<subseteq> set xs" for xs :: "hostrange list"
    by (auto simp: del_at_def dest: in_set_takeD in_set_dropD)
  have gone: ?thesis if d: "delete_in_range hl i (hr_lo ?r + word_of_int (int k)) =
      hostlist_delete_range h i" "hl_rep h ps ss" "hl_nranges h = hl_nranges hl"
      "hl_nhosts h = hl_nhosts hl" "hl_ilist h = hl_ilist hl" "\<forall>r\<in>set (del_at i ss). hr_ok r"
      "del_at i ss = del_at i rs" "del_at k (hr_hosts ?r) = []" for h ss
  proof -
    from delete_range_rep[OF d(2), of i] d(3) i obtain h' where
      "hostlist_delete_range h i = Some h'" "hl_rep h' (del_at i ps) (del_at i ss)"
      "hl_nhosts h' = hl_nhosts h" "map fst (hl_ilist h') = map fst (hl_ilist h)" by auto
    then show ?thesis
      using d names_del[OF il] by (intro exI[of _ h'] exI[of _ "del_at i ps"] exI[of _ "del_at i ss"]) simp
  qed
  show ?thesis
  proof (cases "hr_single ?r")
    case True
    have dr: "delete_in_range hl i (hr_lo ?r + word_of_int (int k)) = hostlist_delete_range hl i"
      using True at by (simp add: delete_in_range_def)
    have "del_at k (hr_hosts ?r) = []"
      using True k by (simp add: hr_hosts_def del_at_def)
    then show ?thesis
      by (intro gone[OF dr rep]) (use rok sub in auto)
  next
    case False
    from delete_host_split[OF rr False k] obtain new r1 where
      dh: "hostrange_delete_host ?r (hr_lo ?r + word_of_int (int k)) = Some (new, r1)" and
      res: "case new of
       Some x \<Rightarrow> hr_ok r1 \<and> hr_ok x \<and> hr_hosts r1 = take k (hr_hosts ?r) \<and>
                 hr_hosts x = drop (Suc k) (hr_hosts ?r)
     | None \<Rightarrow> if length (hr_hosts ?r) = 1 then hostrange_empty r1
               else \<not> hostrange_empty r1 \<and> hr_ok r1 \<and> hr_hosts r1 = del_at k (hr_hosts ?r)" by blast
    let ?h = "set_obj hl ?p r1"
    have rep1: "hl_rep ?h ps (rs[i := r1])" by (rule rep_set_obj[OF rep i])
    show ?thesis
    proof (cases new)
      case (Some x)
      note res = res[unfolded Some option.case]
      have "i + 1 \<le> hl_nranges ?h" using i by simp
      from insert_range_rep[OF rep1 this, of x] its obtain h' p where
        h': "hostlist_insert_range ?h x (i + 1) = Some (1, h')"
          "hl_rep h' (ins_at (i + 1) p ps) (ins_at (i + 1) (hostrange_copy x) (rs[i := r1]))"
          "hl_nhosts h' = hl_nhosts ?h" "map fst (hl_ilist h') = map fst (hl_ilist ?h)"
        by (fastforce simp: its_inside_def)
      have "\<forall>r\<in>set (rs[i := r1]). hr_ok r" by (rule ok_update[OF rok]) (use res in simp)
      then have "\<forall>r\<in>set (ins_at (i + 1) (hostrange_copy x) (rs[i := r1])). hr_ok r"
        using res rok by (auto simp: ins_at_def dest: in_set_takeD in_set_dropD)
      moreover have "names (ins_at (i + 1) (hostrange_copy x) (rs[i := r1])) =
          names (take i rs) @ del_at k (hr_hosts ?r) @ names (drop (Suc i) rs)"
        using res il by (simp add: ins_at_def del_at_def take_Suc_conv_app_nth)
      ultimately show ?thesis
        using False at dh Some h'
        by (intro exI[of _ h'] exI[of _ "ins_at (i + 1) p ps"]
            exI[of _ "ins_at (i + 1) (hostrange_copy x) (rs[i := r1])"]) (simp add: delete_in_range_def)
    next
      case None
      note res = res[unfolded None option.case]
      show ?thesis
      proof (cases "length (hr_hosts ?r) = 1")
        case True
        then have dr: "delete_in_range hl i (hr_lo ?r + word_of_int (int k)) = hostlist_delete_range ?h i"
          using False at dh None res by (simp add: delete_in_range_def)
        have e: "del_at i (rs[i := r1]) = del_at i rs" by (simp add: del_at_def)
        have "del_at k (hr_hosts ?r) = []" using True k by (simp add: del_at_def)
        then show ?thesis
          by (intro gone[OF dr rep1]) (use rok sub[of rs] e in auto)
      next
        case False': False
        have "\<forall>r\<in>set (rs[i := r1]). hr_ok r" by (rule ok_update[OF rok]) (use res False' in simp)
        then show ?thesis
          using False False' at dh None res rep1 names_update[OF il, of r1]
          by (intro exI[of _ ?h] exI[of _ ps] exI[of _ "rs[i := r1]"]) (simp add: delete_in_range_def)
      qed
    qed
  qed
qed

lemma delete_nth_loop_result:
  assumes "hl_rep hl ps rs" "\<forall>r\<in>set rs. hr_ok r" "its_inside hl"
  shows "i + k = hl_nranges hl \<Longrightarrow> length (names (take i rs)) \<le> n \<Longrightarrow> n < length (names rs) \<Longrightarrow>
    \<exists>hl' ps' rs'. delete_nth_loop hl (int n) i k (int (length (names (take i rs)))) = Some hl' \<and>
      hl_rep hl' ps' rs' \<and> (\<forall>r\<in>set rs'. hr_ok r) \<and> hl_nhosts hl' = hl_nhosts hl \<and>
      map fst (hl_ilist hl') = map fst (hl_ilist hl) \<and> names rs' = del_at n (names rs)"
proof (induction k arbitrary: i)
  case 0
  then show ?case using rep_length[OF assms(1)] by simp
next
  case (Suc k)
  have i: "i < hl_nranges hl" "i < length rs" using Suc.prems(1) rep_length[OF assms(1)] by auto
  have rok: "hr_ok (rs ! i)" using assms(2) i by simp
  let ?c = "length (names (take i rs))" and ?r = "rs ! i"
  have c: "length (names (take (Suc i) rs)) = ?c + length (hr_hosts ?r)"
    by (simp add: names_take_Suc[OF i(2)])
  note at = rep_slot[OF assms(1) i(1)] rep_obj[OF assms(1) i(1)] rep_range_at[OF assms(1) i(1)]
  show ?case
  proof (cases "n < length (names (take (Suc i) rs))")
    case True
    define M where "M = hr_lo ?r + word_of_int (int (n - ?c))"
    have num: "hr_lo ?r + word_of_nat n - word_of_nat ?c = M"
      using Suc.prems(2) by (simp add: M_def of_nat_diff)
    have "delete_nth_loop hl (int n) i (Suc k) (int ?c) = delete_in_range hl i M"
      using at True c count_int[OF rok] num
      by (simp add: delete_in_range_def Let_def split: option.split)
    then show ?thesis
      using delete_in_range_result[OF assms(1,2) i(1) names_nth(2)[OF i(2) Suc.prems(2) True] assms(3)]
        names_del_nth[OF i(2) Suc.prems(2) True] unfolding M_def by simp
  next
    case False
    then show ?thesis
      using c at count_int[OF rok] Suc.IH[of "Suc i"] Suc.prems by (simp add: Let_def)
  qed
qed

lemma delete_nth_result:
  assumes ok: "hl_ok hl" and n: "n < length (hl_hosts hl)" and its: "its_inside hl"
  shows "\<exists>hl'. hostlist_delete_nth hl (int n) = Some (1, hl') \<and> hl_ok hl' \<and>
    hl_hosts hl' = del_at n (hl_hosts hl) \<and> map fst (hl_ilist hl') = map fst (hl_ilist hl)"
proof -
  from ok obtain ps rs where rep: "hl_rep hl ps rs" and rok: "\<forall>r\<in>set rs. hr_ok r"
    and hs: "hl_hosts hl = names rs" "hl_nhosts hl = int (length (names rs))" "length (names rs) < 2 ^ 31"
    by (elim hl_okE)
  from delete_nth_loop_result[OF rep rok its, of 0 "hl_nranges hl" n] n hs obtain h ps' rs' where
    h: "delete_nth_loop hl (int n) 0 (hl_nranges hl) 0 = Some h" "hl_rep h ps' rs'"
      "\<forall>r\<in>set rs'. hr_ok r" "hl_nhosts h = hl_nhosts hl" "map fst (hl_ilist h) = map fst (hl_ilist hl)"
      "names rs' = del_at n (names rs)" by auto
  let ?h = "h\<lparr>hl_nhosts := hl_nhosts h - 1\<rparr>"
  have l: "int (length (del_at n (names rs))) = int (length (names rs)) - 1"
    using n hs by (auto simp: del_at_def)
  have "hostlist_delete_nth hl (int n) = Some (1, ?h)"
    using h(1) n hs by (simp add: hostlist_delete_nth_def)
  moreover have "hl_ok ?h \<and> hl_hosts ?h = names rs'"
    by (rule hl_okI[of _ ps' rs']) (use h hs l in \<open>simp_all add: rep_nhosts\<close>)
  ultimately show ?thesis using h(5,6) hs by simp
qed

section \<open>Finding a name\<close>

text \<open>The name a parsed host name stands for in a range, and when it is found there.\<close>

lemma hn_within_result:
  assumes ok: "hr_ok r" and w: "hostrange_hn_within r (hostname_create s) = (b, g)"
  shows "same_range r g"
    "b \<Longrightarrow> \<not> hr_single r \<Longrightarrow> hostname_suffix_is_valid (hostname_create s)"
    "b \<Longrightarrow> hr_single r \<Longrightarrow> s = hr_prefix r"
    "b \<Longrightarrow> \<not> hr_single r \<Longrightarrow> hr_lo r \<le> hn_num (hostname_create s) \<and> hn_num (hostname_create s) \<le> hr_hi r \<and>
      s = hr_prefix r @ pad (nat (hr_width r)) (unat (hn_num (hostname_create s)))"
proof -
  let ?hn = "hostname_create s"
  define k where "k = length (dropWhile isdigit (rev s))"
  note c = hostname_cases[of s, folded k_def]
  show "same_range r g" by (rule hn_within_same[OF w]) (use ok in \<open>simp add: hr_ok_def\<close>)
  show "b \<Longrightarrow> \<not> hr_single r \<Longrightarrow> hostname_suffix_is_valid ?hn"
    using w by (auto simp: hostrange_hn_within_def split: if_splits)
  show "b \<Longrightarrow> hr_single r \<Longrightarrow> s = hr_prefix r"
    using w c(5) by (auto simp: hostrange_hn_within_def)
  assume b: b and ns: "\<not> hr_single r"
  from w b ns have v: "hostname_suffix_is_valid ?hn" and p: "hn_prefix ?hn = hr_prefix r"
    and n: "hr_lo r \<le> hn_num ?hn" "hn_num ?hn \<le> hr_hi r"
    by (auto simp: hostrange_hn_within_def split: if_splits)
  note cv = c(4)[OF v]
  have ti: "word_of_int (to_int (hn_num ?hn)) = hn_num ?hn"
  proof -
    have "unat (hn_num ?hn) < 2 ^ 31" using cv by (rule_tac le_less_trans[of _ "2 ^ 25"]) simp_all
    from to_int_small[OF this] show ?thesis by (simp only: flip: uint_nat) simp
  qed
  have sw: "hostname_suffix_width ?hn = int (length (drop k s))"
    using cv by (simp add: hostname_suffix_width_def)
  obtain w1 w2 where we: "width_equiv (hr_lo r) (hr_width r) (hn_num ?hn) (hostname_suffix_width ?hn) = (True, w1, w2)"
    using w b ns v p n ti by (auto simp: hostrange_hn_within_def Let_def split: if_splits prod.splits)
  note e = width_equiv_sound[OF we]
  have lo: "unat (hr_lo r) \<le> unat (hn_num ?hn)" using n(1) by (simp add: word_le_nat_alt)
  have "unat (hn_num ?hn) = nat (dec_val (drop k s))" using cv by (metis nat_int)
  then have "pad (length (drop k s)) (unat (hn_num ?hn)) = drop k s"
    using pad_dec_val cv c(2) by metis
  then have "drop k s = pad (nat w2) (unat (hn_num ?hn))"
    using e(2)[unfolded sw nat_int] by (rule_tac sym) (rule trans)
  also have "\<dots> = pad (nat (hr_width r)) (unat (hn_num ?hn))"
    using pad_stays[OF e(1) lo] e(5)[OF TrueI] by simp
  finally have "s = hr_prefix r @ pad (nat (hr_width r)) (unat (hn_num ?hn))"
    using c(1) p cv by metis
  then show "hr_lo r \<le> hn_num ?hn \<and> hn_num ?hn \<le> hr_hi r \<and>
      s = hr_prefix r @ pad (nat (hr_width r)) (unat (hn_num ?hn))" using n by simp
qed

lemma hn_within_index:
  assumes "hr_ok r" "hostrange_hn_within r (hostname_create s) = (True, g)"
  defines "k \<equiv> (if hr_single r then 0 else unat (hn_num (hostname_create s)) - unat (hr_lo r))"
  shows "k < length (hr_hosts r) \<and> hr_hosts r ! k = s"
proof (cases "hr_single r")
  case True
  then show ?thesis using hn_within_result(3)[OF assms(1,2)] by (simp add: k_def hr_hosts_def)
next
  case False
  note n = hn_within_result(4)[OF assms(1,2) TrueI False]
  have k: "unat (hr_lo r) + k = unat (hn_num (hostname_create s))"
    "unat (hn_num (hostname_create s)) \<le> unat (hr_hi r)"
    using n False by (auto simp: k_def word_le_nat_alt)
  then have "k < length (hr_hosts r)" using assms(1) False by auto
  then show ?thesis using hr_hosts_nth[OF assms(1) False] k n by auto
qed

text \<open>
  A range whose names are all found: the prefix does not end in a digit, and the numbers are at
  most \<open>MAX_HOST_SUFFIX\<close>.
\<close>

definition findable :: "hostrange \<Rightarrow> bool" where
  "findable r \<longleftrightarrow> hr_single r \<or>
    ((hr_prefix r = [] \<or> \<not> isdigit (last (hr_prefix r))) \<and> hr_hi r \<le> MAX_HOST_SUFFIX)"

lemma hostname_split:
  assumes "p = [] \<or> \<not> isdigit (last p)" "n \<le> 2 ^ 25"
  shows "hostname_create (p @ pad w n) =
    \<lparr>hn_hostname = p @ pad w n, hn_prefix = p, hn_num = word_of_int (int n), hn_suffix = Some (pad w n)\<rparr>"
proof -
  have "dropWhile isdigit (rev (p @ pad w n)) = dropWhile isdigit (rev p)"
    unfolding rev_append by (rule dropWhile_append2) (auto dest: pad_digits)
  also have "\<dots> = rev p" using assms(1) by (cases p rule: rev_cases) auto
  finally have e: "host_prefix_end (p @ pad w n) = int (length p) - 1"
    by (simp add: host_prefix_end_def)
  have "\<forall>c\<in>set (pad w n). isdigit c" using pad_digits by blast
  moreover have "int n < 2 ^ 64" using assms(2) by simp
  ultimately have st: "strtoul (pad w n) = (word_of_int (int n), [])"
    using strtoul_digits[of "pad w n" "[]"] by simp
  have "unat (word_of_int (int n) :: ulong) = n" using assms(2) by (simp add: unat_of_nat)
  then have "(word_of_int (int n) :: ulong) \<le> MAX_HOST_SUFFIX"
    using assms(2) by (simp add: word_le_nat_alt MAX_HOST_SUFFIX_def)
  then show ?thesis
    using e st by (simp add: hostname_create_def Let_def)
qed

lemma hn_within_complete:
  assumes ok: "hr_ok r" and f: "findable r" and s: "s \<in> set (hr_hosts r)"
    and w: "hostrange_hn_within r (hostname_create s) = (b, g)"
  shows b
proof (cases "hr_single r")
  case True
  then show ?thesis using s w hostname_cases(5)[of "hr_prefix r"] by (auto simp: hostrange_hn_within_def hr_hosts_def)
next
  case False
  then obtain n where n: "s = hr_prefix r @ pad (nat (hr_width r)) n" "unat (hr_lo r) \<le> n" "n \<le> unat (hr_hi r)"
    using s by (auto simp: hr_hosts_image)
  have "unat (hr_hi r) \<le> 2 ^ 25"
    using f False by (simp add: findable_def word_le_nat_alt MAX_HOST_SUFFIX_def)
  with n have n25: "n \<le> 2 ^ 25" by simp
  let ?num = "word_of_int (int n) :: ulong" and ?w = "nat (hr_width r)"
  have u: "unat ?num = n" using n25 by (simp add: unat_of_nat)
  have c: "hostname_create s = \<lparr>hn_hostname = s, hn_prefix = hr_prefix r, hn_num = ?num, hn_suffix = Some (pad ?w n)\<rparr>"
    unfolding n(1) by (rule hostname_split) (use f False n25 in \<open>auto simp: findable_def\<close>)
  have ti: "word_of_int (to_int ?num) = ?num" using to_int_small[of ?num] u n25 by simp
  obtain x w1 w2 where we: "width_equiv (hr_lo r) (hr_width r) ?num (int (length (pad ?w n))) = (x, w1, w2)"
    by (metis prod_cases3)
  have "pad ?w n = pad (length (pad ?w n)) n" by (simp add: pad_eq_iff length_pad)
  then have x using width_equiv_sound(6)[OF we] u by auto
  moreover have "hr_lo r \<le> ?num" "?num \<le> hr_hi r" using n u by (simp_all add: word_le_nat_alt)
  ultimately show ?thesis
    using w False we ti
    by (simp add: hostrange_hn_within_def c hostname_suffix_is_valid_def hostname_suffix_width_def)
qed

definition index_of :: "string \<Rightarrow> string list \<Rightarrow> int" where
  "index_of s xs = (if s \<in> set xs then int (length (takeWhile ((\<noteq>) s) xs)) else - 1)"

lemma index_of_append:
  "index_of s (xs @ ys) =
    (if s \<in> set xs then index_of s xs else if s \<in> set ys then int (length xs) + index_of s ys else - 1)"
  by (induction xs) (auto simp: index_of_def)

lemma index_of_distinct: "distinct xs \<Longrightarrow> k < length xs \<Longrightarrow> index_of (xs ! k) xs = int k"
  by (induction xs arbitrary: k) (auto simp: index_of_def nth_Cons split: nat.splits)

lemma hr_hosts_distinct: "distinct (hr_hosts r)"
  by (auto simp: hr_hosts_def distinct_map inj_on_def dest: pad_inj)

definition found_at :: "string \<Rightarrow> string list \<Rightarrow> int \<Rightarrow> bool" where
  "found_at s xs n \<longleftrightarrow> n = - 1 \<or> (0 \<le> n \<and> nat n < length xs \<and> xs ! nat n = s)"

lemma find_loop_result:
  assumes "hl_rep hl ps rs" "\<forall>r\<in>set rs. hr_ok r" "length (names rs) < 2 ^ 31"
  shows "i + k = hl_nranges hl \<Longrightarrow>
    \<exists>m hl' rs'. find_loop hl (hostname_create s) i k (int (length (names (take i rs)))) = Some (m, hl') \<and>
      hl_rep hl' ps rs' \<and> (\<forall>r\<in>set rs'. hr_ok r) \<and> names rs' = names rs \<and> hl_nhosts hl' = hl_nhosts hl \<and>
      hl_ilist hl' = hl_ilist hl \<and> hl_nranges hl' = hl_nranges hl \<and> found_at s (names rs) m \<and>
      ((\<forall>r\<in>set (drop i rs). findable r) \<longrightarrow>
        m = (if s \<in> set (names (drop i rs)) then int (length (names (take i rs))) + index_of s (names (drop i rs))
             else - 1))"
  using assms
proof (induction k arbitrary: hl rs i)
  case 0
  then show ?case using rep_length[OF 0(2)] by (auto simp: found_at_def)
next
  case (Suc k)
  note rep = Suc.prems(2) and rok = Suc.prems(3) and len = Suc.prems(4)
  have i: "i < hl_nranges hl" "i < length rs" using Suc.prems(1) rep_length[OF rep] by auto
  let ?r = "rs ! i" and ?c = "length (names (take i rs))" and ?hn = "hostname_create s"
  have rr: "hr_ok ?r" using rok i by simp
  obtain b g where w: "hostrange_hn_within ?r ?hn = (b, g)" by (cases "hostrange_hn_within ?r ?hn")
  note sm = hn_within_result(1)[OF rr w]
  note f = same_range_fields[OF sm]
  let ?h = "set_obj hl (Some (ps ! i)) g"
  have rep1: "hl_rep ?h ps (rs[i := g])" by (rule rep_set_obj[OF rep i(1)])
  have rok1: "\<forall>r\<in>set (rs[i := g]). hr_ok r" by (rule ok_update[OF rok]) (use f rr in simp)
  have nm: "names (rs[i := g]) = names rs" using names_same[OF i(2)] f by simp
  have d: "drop i rs = ?r # drop (Suc i) rs" using i by (simp add: Cons_nth_drop_Suc)
  have sp: "length (names rs) = ?c + length (hr_hosts ?r) + length (names (drop (Suc i) rs))"
    by (simp add: names_split[OF i(2)])
  note at = rep_slot[OF rep i(1)] rep_obj[OF rep i(1)]
  show ?case
  proof (cases b)
    case True
    let ?k = "if hr_single ?r then 0 else unat (hn_num ?hn) - unat (hr_lo ?r)"
    let ?m = "int (?c + ?k)"
    note ix = hn_within_index[OF rr w[unfolded eqTrueI[OF True]]]
    have nn: "names rs ! (?c + ?k) = s" "?c + ?k < length (names rs)"
      using ix sp by (simp_all only: names_split[OF i(2)]) (simp_all add: nth_append)
    have "to_int (word_of_int (int ?c) + hn_num ?hn - hr_lo ?r) = ?m" if "\<not> hr_single ?r"
    proof -
      have "hr_lo ?r \<le> hn_num ?hn" using hn_within_result(4)[OF rr w True that] by simp
      then have "hn_num ?hn - hr_lo ?r = word_of_int (int ?k)"
        using that by (simp add: word_le_nat_alt of_nat_diff)
      then have "word_of_int (int ?c) + hn_num ?hn - hr_lo ?r = word_of_int (int ?c) + word_of_int (int ?k)"
        by (simp add: add_diff_eq[symmetric])
      also have "\<dots> = word_of_int ?m" by simp
      finally have "word_of_int (int ?c) + hn_num ?hn - hr_lo ?r = word_of_int ?m" .
      moreover have "int (?c + ?k) < int (2 ^ 31)" using nn(2) len by (subst of_nat_less_iff) linarith
      ultimately show ?thesis by (simp only:) (rule to_int_of_int, simp_all)
    qed
    moreover have "hostname_suffix_is_valid ?hn" if "\<not> hr_single ?r"
      using hn_within_result(2)[OF rr w True that] .
    ultimately have run: "find_loop hl ?hn i (Suc k) (int ?c) = Some (?m, ?h)"
      using at w True f by simp
    have "s \<in> set (hr_hosts ?r)" "index_of s (hr_hosts ?r) = int ?k"
      using ix nth_mem[of ?k "hr_hosts ?r"] index_of_distinct[OF hr_hosts_distinct, of ?k ?r] by metis+
    then have "?m = int ?c + index_of s (names (drop i rs))" "s \<in> set (names (drop i rs))"
      unfolding d by (simp_all add: index_of_append)
    moreover have "found_at s (names rs) ?m"
      using nn by (simp only: found_at_def nat_int of_nat_0_le_iff simp_thms)
    ultimately have "find_loop hl ?hn i (Suc k) (int ?c) = Some (?m, ?h) \<and>
        hl_rep ?h ps (rs[i := g]) \<and> (\<forall>r\<in>set (rs[i := g]). hr_ok r) \<and> names (rs[i := g]) = names rs \<and>
        hl_nhosts ?h = hl_nhosts hl \<and> hl_ilist ?h = hl_ilist hl \<and> hl_nranges ?h = hl_nranges hl \<and>
        found_at s (names rs) ?m \<and> ((\<forall>r\<in>set (drop i rs). findable r) \<longrightarrow>
          ?m = (if s \<in> set (names (drop i rs)) then int ?c + index_of s (names (drop i rs)) else - 1))"
      using run rep1 rok1 nm by (simp only: set_obj_frame if_True simp_thms)
    then show ?thesis by (intro exI)
  next
    case False
    have cnt: "add_hosts (int ?c) (hostrange_count g) = int (length (names (take (Suc i) (rs[i := g]))))"
      using add_hosts_int[of "int ?c" g] f rr sp len i by (simp add: take_Suc_conv_app_nth)
    have no: "findable ?r \<Longrightarrow> s \<notin> set (hr_hosts ?r)"
      using hn_within_complete[OF rr _ _ w] False by auto
    have "Suc i + k = hl_nranges ?h" using Suc.prems(1) by simp
    from Suc.IH[OF this rep1 rok1] nm len obtain m h' rs' where
      m: "find_loop ?h ?hn (Suc i) k (int (length (names (take (Suc i) (rs[i := g]))))) = Some (m, h')"
        "hl_rep h' ps rs'" "\<forall>r\<in>set rs'. hr_ok r" "names rs' = names (rs[i := g])"
        "hl_nhosts h' = hl_nhosts ?h" "hl_ilist h' = hl_ilist ?h" "hl_nranges h' = hl_nranges ?h"
        "found_at s (names (rs[i := g])) m"
        "(\<forall>r\<in>set (drop (Suc i) rs). findable r) \<longrightarrow>
          m = (if s \<in> set (names (drop (Suc i) rs))
               then int (length (names (take (Suc i) (rs[i := g])))) + index_of s (names (drop (Suc i) rs)) else - 1)"
      by auto
    have "find_loop hl ?hn i (Suc k) (int ?c) = Some (m, h')"
      using at w False cnt m(1) by simp
    moreover have "length (names (take (Suc i) (rs[i := g]))) = ?c + length (hr_hosts ?r)"
      using f i by (simp add: take_Suc_conv_app_nth)
    ultimately show ?thesis
      using m nm no unfolding d
      by (intro exI[of _ m] exI[of _ h'] exI[of _ rs']) (auto simp: index_of_append)
  qed
qed

lemma find_result:
  assumes ok: "hl_ok hl"
  shows "\<exists>m hl'. hostlist_find hl s = Some (m, hl') \<and> hl_ok hl' \<and> hl_hosts hl' = hl_hosts hl \<and>
    hl_ilist hl' = hl_ilist hl \<and> hl_nranges hl' = hl_nranges hl \<and> found_at s (hl_hosts hl) m \<and>
    ((\<forall>r\<in>set (hl_ranges hl). findable r) \<longrightarrow> m = index_of s (hl_hosts hl))"
proof -
  from ok obtain ps rs where rep: "hl_rep hl ps rs" and rok: "\<forall>r\<in>set rs. hr_ok r"
    and hs: "hl_hosts hl = names rs" "hl_nhosts hl = int (length (names rs))" "length (names rs) < 2 ^ 31"
    and rs: "hl_ranges hl = rs" by (elim hl_okE)
  from find_loop_result[OF rep rok hs(3), of 0 "hl_nranges hl" s] obtain m h rs' where
    m: "find_loop hl (hostname_create s) 0 (hl_nranges hl) 0 = Some (m, h)"
      "hl_rep h ps rs'" "\<forall>r\<in>set rs'. hr_ok r" "names rs' = names rs" "hl_nhosts h = hl_nhosts hl"
      "hl_ilist h = hl_ilist hl" "hl_nranges h = hl_nranges hl" "found_at s (names rs) m"
      "(\<forall>r\<in>set rs. findable r) \<longrightarrow> m = (if s \<in> set (names rs) then index_of s (names rs) else - 1)" by auto
  have "hl_ok h \<and> hl_hosts h = names rs'"
    by (rule hl_okI[OF m(2,3)]) (use m hs in simp_all)
  then show ?thesis
    using m hs(1) rs by (intro exI[of _ m] exI[of _ h]) (auto simp: hostlist_find_def index_of_def)
qed

lemma delete_host_result:
  assumes ok: "hl_ok hl" and its: "its_inside hl"
  shows "\<exists>m hl'. hostlist_delete_host hl s = Some (m, hl') \<and> hl_ok hl' \<and>
    (m = 0 \<and> hl_hosts hl' = hl_hosts hl \<or>
     m = 1 \<and> (\<exists>j<length (hl_hosts hl). hl_hosts hl ! j = s \<and> hl_hosts hl' = del_at j (hl_hosts hl))) \<and>
    ((\<forall>r\<in>set (hl_ranges hl). findable r) \<longrightarrow>
      m = of_bool (s \<in> set (hl_hosts hl)) \<and> hl_hosts hl' = remove1 s (hl_hosts hl))"
proof -
  from find_result[OF ok, of s] obtain n h where
    n: "hostlist_find hl s = Some (n, h)" "hl_ok h" "hl_hosts h = hl_hosts hl" "hl_ilist h = hl_ilist hl"
      "hl_nranges h = hl_nranges hl" "found_at s (hl_hosts hl) n"
      "(\<forall>r\<in>set (hl_ranges hl). findable r) \<longrightarrow> n = index_of s (hl_hosts hl)" by blast
  show ?thesis
  proof (cases "n = - 1")
    case True
    then show ?thesis
      using n by (auto simp: hostlist_delete_host_def index_of_def remove1_idem split: if_splits)
  next
    case False
    then have j: "0 \<le> n" "nat n < length (hl_hosts hl)" "hl_hosts hl ! nat n = s"
      using n(6) by (auto simp: found_at_def)
    have "its_inside h" using its n(4,5) by (simp add: its_inside_def)
    from delete_nth_result[OF n(2) _ this, of "nat n"] j n(3) obtain h' where
      h': "hostlist_delete_nth h n = Some (1, h')" "hl_ok h'" "hl_hosts h' = del_at (nat n) (hl_hosts hl)"
      by auto
    have "remove1 s xs = del_at (nat (index_of s xs)) xs" if "s \<in> set xs" for xs
      using that by (induction xs) (auto simp: index_of_def del_at_def)
    then have "\<forall>r\<in>set (hl_ranges hl). findable r \<Longrightarrow> hl_hosts h' = remove1 s (hl_hosts hl)"
      using n(7) h'(3) j by (metis nth_mem)
    moreover have "s \<in> set (hl_hosts hl)" using j by (metis nth_mem)
    ultimately show ?thesis
      using n(1) h' j by (auto simp: hostlist_delete_host_def)
  qed
qed

end
