(* ===== verification/HostProps.thy ===== *)
theory HostProps
  imports HostlistAccess
begin

text \<open>
  The properties of host ranges and host lists (\<open>lib/hostlist.c\<close>).  Host lists are described by
  the sequence \<open>hl_hosts\<close> of the names they stand for; \<open>hl_ok\<close> is the invariant: the first
  \<open>nranges\<close> slots hold distinct live objects, every range is non-empty with numbers below
  \<open>INT_MAX\<close>, and \<open>nhosts\<close> is the number of names.
\<close>

section \<open>A list for the witnesses\<close>

definition demo :: hostlist where
  "demo = snd (the (hostlist_push_host (snd (the (hostlist_push_host (snd (the
     (hostlist_push_host hostlist_new ''f1''))) ''f2''))) ''g''))"

lemma demo_push:
  assumes "hl_ok hl" "length (hl_hosts hl) < 10"
  shows "hl_ok (snd (the (hostlist_push_host hl s)))"
    "hl_hosts (snd (the (hostlist_push_host hl s))) = hl_hosts hl @ [s]"
    "hl_ilist (snd (the (hostlist_push_host hl s))) = hl_ilist hl"
  using push_host_result[OF assms(1), of s] assms(2) by auto

lemma demo_facts: "hl_ok demo" "hl_hosts demo = [''f1'', ''f2'', ''g'']" "hl_ilist demo = []"
  unfolding demo_def by (simp_all add: demo_push new_ok) (simp add: hostlist_new_def)

lemma demo_inside: "its_inside demo"
  by (simp add: its_inside_def demo_facts)

section \<open>Host ranges\<close>

text \<open>
  C26: \<open>hostrange_cmp\<close> is a total preorder on well-formed host ranges: exchanging the arguments
  changes the sign, and it is transitive; and although it rewrites the width fields of its
  arguments, the names the two ranges stand for stay the same.
\<close>

theorem hostrange_cmp_preorder:
  assumes "hr_ok a" "hr_ok b" "hr_ok c"
  shows "sgn (fst (hostrange_cmp a b)) = - sgn (fst (hostrange_cmp b a)) \<and>
    (fst (hostrange_cmp a b) \<le> 0 \<and> fst (hostrange_cmp b c) \<le> 0 \<longrightarrow> fst (hostrange_cmp a c) \<le> 0) \<and>
    (case hostrange_cmp a b of (n, a', b') \<Rightarrow> hr_hosts a' = hr_hosts a \<and> hr_hosts b' = hr_hosts b)"
proof -
  have s: "sgn (fst (hostrange_cmp x y)) = sgn (hr_order x y)" if "hr_ok x" "hr_ok y" for x y
    using hostrange_cmp_order(3)[OF that, of "fst (hostrange_cmp x y)"] by (metis prod.collapse)
  have le: "x \<le> 0 \<longleftrightarrow> y \<le> 0" if "sgn x = sgn y" for x y :: int
    using that by (simp add: sgn_if split: if_splits)
  have "sgn (hr_order a b) = - sgn (hr_order b a)"
    using hr.anti[of a b] hr.anti[of b a] by (auto simp: sgn_if)
  moreover have "hr_order a b \<le> 0 \<and> hr_order b c \<le> 0 \<longrightarrow> hr_order a c \<le> 0"
    using hr.trans by blast
  moreover obtain n a' b' where r: "hostrange_cmp a b = (n, a', b')" by (metis prod_cases3)
  note sm = hostrange_cmp_order(1,2)[OF assms(1,2) r]
  ultimately show ?thesis
    using s[OF assms(1,2)] s[OF assms(2,1)] le[OF s[OF assms(1,2)]] le[OF s[OF assms(2,3)]]
      le[OF s[OF assms(1,3)]] same_range_fields(7)[OF sm(1)] same_range_fields(7)[OF sm(2)] r
    by simp
qed

definition r9 :: hostrange where "r9 = hostrange_create ''f'' 9 12 2"
definition r10 :: hostrange where "r10 = hostrange_create ''f'' 10 20 1"
definition r11 :: hostrange where "r11 = hostrange_create ''f'' 11 11 2"

lemma r_ok: "hr_ok r9" "hr_ok r10" "hr_ok r11"
  by (simp_all add: hr_ok_def r9_def r10_def r11_def hostrange_create_def)

theorem hostrange_cmp_preorder_witness:
  "sgn (fst (hostrange_cmp r9 r10)) = - sgn (fst (hostrange_cmp r10 r9)) \<and> fst (hostrange_cmp r9 r10) < 0"
proof -
  have "fst (hostrange_cmp r9 r10) < 0" by code_simp
  with hostrange_cmp_preorder[OF r_ok] show ?thesis by blast
qed

text \<open>
  \<open>hostrange_join\<close> of two ranges in order never fails its assertion.  Either it leaves both
  as they are and returns -1, or the first range becomes the union of the two, and the result
  is the number of names they have in common.
\<close>

theorem hostrange_join_union:
  assumes "hr_ok a" "hr_ok b" "fst (hostrange_cmp a b) \<le> 0"
  shows "\<exists>d a' b'. hostrange_join a b = Some (d, a', b') \<and> hr_ok a' \<and> hr_hosts b' = hr_hosts b \<and>
    (if d < 0 then d = - 1 \<and> hr_hosts a' = hr_hosts a
     else set (hr_hosts a') = set (hr_hosts a) \<union> set (hr_hosts b) \<and>
          d = int (card (set (hr_hosts a) \<inter> set (hr_hosts b))))"
proof -
  obtain n x y where c: "hostrange_cmp a b = (n, x, y)" by (metis prod_cases3)
  have "sgn n = sgn (hr_order a b)" by (rule hostrange_cmp_order(3)[OF assms(1,2) c])
  then have "hr_order a b \<le> 0" using assms(3) c by (simp add: sgn_if split: if_splits)
  from hostrange_join_result[OF assms(1,2) this] obtain d g1 g2 where
    j: "hostrange_join a b = Some (d, g1, g2)" "same_range b g2" "hr_ok g1" "- 1 \<le> d"
      "if d < 0 then same_range a g1
       else set (hr_hosts g1) = set (hr_hosts a) \<union> set (hr_hosts b) \<and>
            int (length (hr_hosts g1)) = int (length (hr_hosts a)) + int (length (hr_hosts b)) - d"
    by blast
  have "d = int (card (set (hr_hosts a) \<inter> set (hr_hosts b)))"
    if u: "set (hr_hosts g1) = set (hr_hosts a) \<union> set (hr_hosts b)"
      "int (length (hr_hosts g1)) = int (length (hr_hosts a)) + int (length (hr_hosts b)) - d"
  proof -
    note dc = distinct_card[OF hr_hosts_distinct]
    have "card (set (hr_hosts a)) + card (set (hr_hosts b)) =
        card (set (hr_hosts a) \<union> set (hr_hosts b)) + card (set (hr_hosts a) \<inter> set (hr_hosts b))"
      by (rule card_Un_Int) simp_all
    then show ?thesis using u dc[of a] dc[of b] dc[of g1] by simp
  qed
  then show ?thesis
    using j same_range_fields(7)[OF j(2)] same_range_fields(7)[of a g1]
    by (intro exI[of _ d] exI[of _ g1] exI[of _ g2]) (auto split: if_splits)
qed

theorem hostrange_join_union_witness:
  "\<exists>d a' b'. hostrange_join r9 r10 = Some (d, a', b') \<and> hr_ok a' \<and> d = 3"
proof -
  have "fst (hostrange_cmp r9 r10) \<le> 0" "map_option fst (hostrange_join r9 r10) = Some 3" by code_simp+
  with hostrange_join_union[OF r_ok(1,2)] show ?thesis by auto
qed

section \<open>Host lists as sequences of names\<close>

text \<open>
  \<open>hostlist_push_range\<close> appends the names of the range, whether it extends the last range of
  the list or takes a new slot; the running total it returns and stores is the new number of
  names; iterators are not touched.
\<close>

theorem hostlist_push_range_appends:
  assumes "hl_ok hl" "hr_ok r" "length (hl_hosts hl) + length (hr_hosts r) < 2 ^ 31"
  shows "\<exists>hl' r'. hostlist_push_range hl r = Some (hostlist_count hl', hl', r') \<and> hl_ok hl' \<and>
    hl_hosts hl' = hl_hosts hl @ hr_hosts r \<and> hostlist_count hl' = int (length (hl_hosts hl')) \<and>
    hl_ilist hl' = hl_ilist hl"
  using push_range_result[OF assms] by (auto simp: hl_ok_def hostlist_count_def)

theorem hostlist_push_range_appends_witness:
  "\<exists>hl' r'. hostlist_push_range demo r9 = Some (hostlist_count hl', hl', r') \<and>
    hl_hosts hl' = [''f1'', ''f2'', ''g'', ''f09'', ''f10'', ''f11'', ''f12'']"
proof -
  have h: "hr_hosts r9 = [''f09'', ''f10'', ''f11'', ''f12'']" by code_simp
  then have "length (hl_hosts demo) + length (hr_hosts r9) < 2 ^ 31" by (simp add: demo_facts)
  from hostlist_push_range_appends[OF demo_facts(1) r_ok(1) this] show ?thesis
    by (auto simp: demo_facts h)
qed

text \<open>
  \<open>hostlist_push_host\<close> appends one name, and \<open>hostlist_push_list\<close> all the names of another
  list, which keeps its own.
\<close>

theorem hostlist_push_names:
  assumes "hl_ok h1" "hl_ok h2" "length (hl_hosts h1) + length (hl_hosts h2) + 1 < 2 ^ 31"
  shows "(\<exists>h. hostlist_push_host h1 s = Some (1, h) \<and> hl_ok h \<and> hl_hosts h = hl_hosts h1 @ [s]) \<and>
    (\<exists>n h h'. hostlist_push_list h1 h2 = Some (n, h, h') \<and> hl_ok h \<and> hl_ok h' \<and>
       hl_hosts h = hl_hosts h1 @ hl_hosts h2 \<and> hl_hosts h' = hl_hosts h2)"
  using push_host_result[OF assms(1), of s] push_list_result[OF assms(1,2)] assms(3) by auto

theorem hostlist_push_names_witness:
  "\<exists>n h h'. hostlist_push_list demo demo = Some (n, h, h') \<and>
     hl_hosts h = [''f1'', ''f2'', ''g'', ''f1'', ''f2'', ''g'']"
  using hostlist_push_names[OF demo_facts(1,1), of "''x''"] by (auto simp: demo_facts(2))

text \<open>
  C27: \<open>hostlist_pop\<close> and \<open>hostlist_shift\<close> take off the last and the first name, whatever ranges they
  come from, and return NULL exactly when the list is empty.
\<close>

theorem hostlist_deque:
  assumes "hl_ok hl"
  shows "(if hl_hosts hl = [] then hostlist_pop hl = Some (None, hl) \<and> hostlist_shift hl = Some (None, hl)
     else (\<exists>h. hostlist_pop hl = Some (Some (last (hl_hosts hl)), h) \<and> hl_ok h \<and>
                hl_hosts h = butlast (hl_hosts hl)) \<and>
          (\<exists>h. hostlist_shift hl = Some (Some (hd (hl_hosts hl)), h) \<and> hl_ok h \<and>
                hl_hosts h = tl (hl_hosts hl)))"
  using pop_result[OF assms] shift_result[OF assms] by auto

theorem hostlist_deque_witness:
  "(\<exists>h. hostlist_pop demo = Some (Some ''g'', h) \<and> hl_hosts h = [''f1'', ''f2'']) \<and>
   (\<exists>h. hostlist_shift demo = Some (Some ''f1'', h) \<and> hl_hosts h = [''f2'', ''g''])"
  using hostlist_deque[OF demo_facts(1)] by (auto simp: demo_facts(2))

text \<open>
  \<open>hostlist_nth\<close> gives the name at an index, or NULL past the end, provided that the name has
  at most 78 characters (the buffer of \<open>_hostrange_string\<close> holds 79 and the NUL).
\<close>

theorem hostlist_nth_name:
  assumes "hl_ok hl" "n < length (hl_hosts hl) \<Longrightarrow> length (hl_hosts hl ! n) \<le> 78"
  shows "hostlist_nth hl (int n) =
    Some (if n < length (hl_hosts hl) then Some (hl_hosts hl ! n) else None)"
  using nth_result[OF assms] .

theorem hostlist_nth_name_witness:
  "hostlist_nth demo (int 1) = Some (Some ''f2'') \<and> hostlist_nth demo (int 3) = Some None"
  using hostlist_nth_name[OF demo_facts(1), of 1] hostlist_nth_name[OF demo_facts(1), of 3]
  by (simp add: demo_facts(2))

text \<open>
  \<open>hostlist_delete_nth\<close> removes the name at the index, splitting a range in two when the name is
  inside it; it needs the iterators of the list not to be at its end.
\<close>

theorem hostlist_delete_nth_removes:
  assumes "hl_ok hl" "n < length (hl_hosts hl)" "its_inside hl"
  shows "\<exists>h. hostlist_delete_nth hl (int n) = Some (1, h) \<and> hl_ok h \<and>
    hl_hosts h = take n (hl_hosts hl) @ drop (Suc n) (hl_hosts hl) \<and>
    hostlist_count h = hostlist_count hl - 1"
proof -
  from delete_nth_result[OF assms] obtain h where
    h: "hostlist_delete_nth hl (int n) = Some (1, h)" "hl_ok h" "hl_hosts h = del_at n (hl_hosts hl)"
    by blast
  then have "hostlist_count h = hostlist_count hl - 1"
    using assms(1,2) by (auto simp: hl_ok_def hostlist_count_def del_at_def)
  with h show ?thesis by (auto simp: del_at_def)
qed

theorem hostlist_delete_nth_removes_witness:
  "\<exists>h. hostlist_delete_nth demo (int 1) = Some (1, h) \<and> hl_hosts h = [''f1'', ''g'']"
proof -
  have "1 < length (hl_hosts demo)" by (simp add: demo_facts(2))
  from hostlist_delete_nth_removes[OF demo_facts(1) this demo_inside] show ?thesis
    by (auto simp: demo_facts(2))
qed

text \<open>
  an index \<open>hostlist_find\<close> returns is the index of the name, and -1 is its only other result.
  When the prefixes of the ranges do not end in a digit and the numbers are at most
  \<open>MAX_HOST_SUFFIX\<close>, the result is the first index of the name, and -1 only if it does not occur.
\<close>

theorem hostlist_find_index:
  assumes "hl_ok hl"
  shows "\<exists>n h. hostlist_find hl s = Some (n, h) \<and> hl_ok h \<and> hl_hosts h = hl_hosts hl \<and>
    (n = - 1 \<or> (0 \<le> n \<and> nat n < length (hl_hosts hl) \<and> hl_hosts hl ! nat n = s)) \<and>
    ((\<forall>r\<in>set (hl_ranges hl). findable r) \<longrightarrow>
       n = (if s \<in> set (hl_hosts hl) then int (length (takeWhile (\<lambda>x. x \<noteq> s) (hl_hosts hl))) else - 1))"
proof -
  have "takeWhile ((\<noteq>) s) xs = takeWhile (\<lambda>x. x \<noteq> s) xs" for xs :: "string list"
    by (intro arg_cong2[where f = takeWhile]) auto
  then show ?thesis
    using find_result[OF assms, of s] unfolding found_at_def index_of_def by fastforce
qed

lemma demo_findable: "\<forall>r\<in>set (hl_ranges demo). findable r"
  by code_simp

theorem hostlist_find_index_witness:
  "\<exists>h. hostlist_find demo ''g'' = Some (2, h) \<and> hl_hosts h = [''f1'', ''f2'', ''g'']"
  using hostlist_find_index[OF demo_facts(1), of "''g''"] demo_findable
  by (auto simp: demo_facts(2))

text \<open>
  \<open>hostlist_delete_host\<close> removes one occurrence of a name and returns 1, or changes nothing
  and returns 0; on findable ranges it removes the first occurrence if there is one.
\<close>

theorem hostlist_delete_host_removes:
  assumes "hl_ok hl" "its_inside hl"
  shows "\<exists>n h. hostlist_delete_host hl s = Some (n, h) \<and> hl_ok h \<and>
    (n = 0 \<and> hl_hosts h = hl_hosts hl \<or>
     n = 1 \<and> (\<exists>j<length (hl_hosts hl). hl_hosts hl ! j = s \<and>
       hl_hosts h = take j (hl_hosts hl) @ drop (Suc j) (hl_hosts hl))) \<and>
    ((\<forall>r\<in>set (hl_ranges hl). findable r) \<longrightarrow>
       n = of_bool (s \<in> set (hl_hosts hl)) \<and> hl_hosts h = remove1 s (hl_hosts hl))"
  using delete_host_result[OF assms, of s] unfolding del_at_def .

theorem hostlist_delete_host_removes_witness:
  "\<exists>h. hostlist_delete_host demo ''f1'' = Some (1, h) \<and> hl_hosts h = [''f2'', ''g'']"
  using hostlist_delete_host_removes[OF demo_facts(1) demo_inside, of "''f1''"] demo_findable
  by (auto simp: demo_facts(2))

end
