(* ===== verification/HostlistIter.thy ===== *)
theory HostlistIter
  imports HostlistOps
begin

text \<open>
  Iteration over a host list with \<open>hostlist_next\<close>: an iterator at \<open>it_at hl ps rs it xs\<close> has the
  names \<open>xs\<close> still before it.
\<close>

section \<open>The position of an iterator\<close>

definition it_at :: "hostlist \<Rightarrow> nat list \<Rightarrow> hostrange list \<Rightarrow> hl_iterator \<Rightarrow> string list \<Rightarrow> bool" where
  "it_at hl ps rs it xs \<longleftrightarrow>
    (\<exists>i d. i < hl_nranges hl \<and> hi_idx it = int i \<and> hi_hr it = Some (ps ! i) \<and> hi_depth it = int d - 1 \<and>
           d \<le> length (hr_hosts (rs ! i)) \<and> xs = drop d (hr_hosts (rs ! i)) @ names (drop (Suc i) rs))"

text \<open>The suffix of every name fits into the buffer of \<open>hostlist_next\<close>.\<close>

definition narrow :: "hostrange \<Rightarrow> bool" where
  "narrow r \<longleftrightarrow> hr_single r \<or> hr_width r \<le> 14"

lemma small_number_width: "n < 2 ^ 31 \<Longrightarrow> w \<le> 14 \<Longrightarrow> length (pad w n) \<le> 14"
  using dec_length_bound[of n 9] by (simp add: length_pad)

lemma it_get_set [simp]: "hi_get hl a = Some it \<Longrightarrow> hi_get (hi_set hl a j) a = Some j"
proof -
  have "map_of xs a = Some it \<Longrightarrow> map_of (map (\<lambda>(b, k). (b, if b = a then j else k)) xs) a = Some j" for xs
    by (induction xs) auto
  then show "hi_get hl a = Some it \<Longrightarrow> hi_get (hi_set hl a j) a = Some j"
    by (simp add: hi_get_def hi_set_def)
qed

lemma hi_set_frame [simp]:
  "hl_nranges (hi_set hl a j) = hl_nranges hl" "hl_hr (hi_set hl a j) = hl_hr hl"
  "hl_size (hi_set hl a j) = hl_size hl" "hl_nhosts (hi_set hl a j) = hl_nhosts hl"
  "hl_mem (hi_set hl a j) = hl_mem hl" "hl_brk (hi_set hl a j) = hl_brk hl"
  by (simp_all add: hi_set_def)

lemma obj_hi_set [simp]: "obj (hi_set hl a j) p = obj hl p"
  by (simp add: obj_def)

lemma rep_hi_set:
  assumes "hl_rep hl ps rs" "0 \<le> hi_idx j" "hi_idx j < int (length (hl_hr hl))"
  shows "hl_rep (hi_set hl a j) ps rs"
proof -
  have "\<forall>(b, k)\<in>set (map (\<lambda>(b, k). (b, if b = a then j else k)) (hl_ilist hl)).
      0 \<le> hi_idx k \<and> hi_idx k < int (length (hl_hr hl))"
    using assms repD(8)[OF assms(1)] by fastforce
  then show ?thesis
    using assms(1) by (auto simp: hl_rep_def hi_set_def)
qed

lemma it_at_hi_set [simp]: "it_at (hi_set hl a j) ps rs it xs = it_at hl ps rs it xs"
  by (simp add: it_at_def)

section \<open>One step\<close>

lemma range_span:
  assumes "hr_ok r" "d \<le> length (hr_hosts r)"
  shows "(word_of_int (int d) :: ulong) > hr_hi r - hr_lo r \<longleftrightarrow> d = length (hr_hosts r)"
proof -
  note n = hr_ok_nat[OF assms(1)] unat_count(2)[OF assms(1)]
  have "unat (hr_hi r - hr_lo r) = unat (hr_hi r) - unat (hr_lo r)"
    using n by (simp add: unat_sub word_le_nat_alt)
  also have "Suc \<dots> = length (hr_hosts r)"
    using assms(1) n by (auto simp: hr_ok_def hr_hosts_def)
  finally have "Suc (unat (hr_hi r - hr_lo r)) = length (hr_hosts r)" .
  moreover have "unat (word_of_int (int d) :: ulong) = d"
    using assms(2) n by (simp add: unat_of_nat)
  ultimately show ?thesis
    using assms(2) by (auto simp: word_less_nat_alt)
qed

lemma name_at:
  assumes "hr_ok r" "narrow r" "k < length (hr_hosts r)"
  shows "hr_prefix r @ (if hr_single r then []
      else take 14 (pad (nat (hr_width r)) (unat (hr_lo r + word_of_int (int k))))) = hr_hosts r ! k"
proof (cases "hr_single r")
  case True
  then show ?thesis using assms(3) by (simp add: hr_hosts_def)
next
  case False
  note n = hr_ok_nat[OF assms(1)]
  have k: "unat (hr_lo r) + k \<le> unat (hr_hi r)" using assms False by auto
  then have "unat (hr_lo r) + k < 2 ^ 64" using n by simp
  then have u: "unat (hr_lo r + word_of_int (int k)) = unat (hr_lo r) + k"
    by (simp add: unat_word_ariths unat_of_nat)
  have "length (pad (nat (hr_width r)) (unat (hr_lo r) + k)) \<le> 14"
    using k n False assms(2) by (intro small_number_width) (auto simp: narrow_def)
  then show ?thesis
    using u False hr_hosts_nth[OF assms(1) False assms(3)] by simp
qed

lemma next_step:
  assumes rep: "hl_rep hl ps rs" and ok: "\<forall>r\<in>set rs. hr_ok r \<and> narrow r"
    and room: "hl_nranges hl < hl_size hl" and get: "hi_get hl a = Some it" and at: "it_at hl ps rs it xs"
  shows "case xs of
      [] \<Rightarrow> \<exists>j. hostlist_next hl a = Some (None, hi_set hl a j) \<and> hi_idx j = int (hl_nranges hl)
    | s # ys \<Rightarrow> \<exists>j. hostlist_next hl a = Some (Some s, hi_set hl a j) \<and> it_at hl ps rs j ys"
proof -
  from at obtain i d where i: "i < hl_nranges hl" and it: "hi_idx it = int i" "hi_hr it = Some (ps ! i)"
    "hi_depth it = int d - 1" and d: "d \<le> length (hr_hosts (rs ! i))"
    and xs: "xs = drop d (hr_hosts (rs ! i)) @ names (drop (Suc i) rs)"
    by (auto simp: it_at_def)
  have len: "length rs = hl_nranges hl" using rep_length[OF rep] by simp
  let ?r = "rs ! i"
  have r: "hr_ok ?r" "narrow ?r" using ok i len by auto
  note o = rep_obj[OF rep i] and sp = range_span[OF r(1) d]
  show ?thesis
  proof (cases "d = length (hr_hosts ?r)")
    case False
    let ?j = "it\<lparr>hi_depth := int d\<rparr>"
    have adv: "iterator_advance hl it = Some ?j"
      using i it o sp False by (simp add: iterator_advance_def)
    have k: "d < length (hr_hosts ?r)" using False d by simp
    then have xs': "xs = hr_hosts ?r ! d # drop (Suc d) (hr_hosts ?r) @ names (drop (Suc i) rs)"
      using xs by (simp add: Cons_nth_drop_Suc)
    have "hostlist_next hl a = Some (Some (hr_hosts ?r ! d), hi_set hl a ?j)"
      using get adv i it o name_at[OF r k]
      by (cases "hr_single ?r") (simp_all add: hostlist_next_def Let_def)
    moreover have "it_at hl ps rs ?j (drop (Suc d) (hr_hosts ?r) @ names (drop (Suc i) rs))"
      unfolding it_at_def using i it k by (intro exI[of _ i] exI[of _ "Suc d"]) simp
    ultimately show ?thesis unfolding xs' by auto
  next
    case True
    let ?p = "hl_hr hl ! Suc i"
    let ?j = "it\<lparr>hi_depth := 0, hi_idx := int (Suc i), hi_hr := ?p\<rparr>"
    have "Suc i < length (hl_hr hl)" using i room repD(6)[OF rep] by simp
    then have adv: "iterator_advance hl it = Some ?j"
      using i it o sp True by (simp add: iterator_advance_def it_move_def slot_def nat_add_distrib)
    show ?thesis
    proof (cases "Suc i < hl_nranges hl")
      case False
      then have "xs = []" using xs True len by simp
      moreover have "hostlist_next hl a = Some (None, hi_set hl a ?j)"
        using get adv False by (simp add: hostlist_next_def Let_def)
      moreover have "int (Suc i) = int (hl_nranges hl)" using False i by simp
      ultimately show ?thesis by auto
    next
      case Suc: True
      let ?s = "rs ! Suc i"
      have s: "hr_ok ?s" "narrow ?s" using ok Suc len by auto
      have z: "0 < length (hr_hosts ?s)" using hr_hosts_nonempty[OF s(1)] by simp
      have p: "?p = Some (ps ! Suc i)" by (rule rep_nth[OF rep Suc])
      have "drop (Suc i) rs = ?s # drop (Suc (Suc i)) rs" using Suc len by (simp add: Cons_nth_drop_Suc)
      then have xs': "xs = hr_hosts ?s ! 0 # drop 1 (hr_hosts ?s) @ names (drop (Suc (Suc i)) rs)"
        using xs True z by (cases "hr_hosts ?s") auto
      have "hostlist_next hl a = Some (Some (hr_hosts ?s ! 0), hi_set hl a ?j)"
        using get adv Suc rep_obj[OF rep Suc] p name_at[OF s z]
        by (cases "hr_single ?s") (simp_all add: hostlist_next_def Let_def)
      moreover have "it_at hl ps rs ?j (drop 1 (hr_hosts ?s) @ names (drop (Suc (Suc i)) rs))"
        unfolding it_at_def using Suc p z by (intro exI[of _ "Suc i"] exI[of _ 1]) (simp add: Suc_le_eq)
      ultimately show ?thesis unfolding xs' by auto
    qed
  qed
qed

section \<open>Whole iterations\<close>

text \<open>\<open>while ((s = hostlist_next (i)))\<close>: the names seen.\<close>

partial_function (option) walk :: "hostlist \<Rightarrow> nat \<Rightarrow> (string list \<times> hostlist) option" where
  "walk hl a =
    do {
      (s, hl1) \<leftarrow> hostlist_next hl a;
      (case s of
         None \<Rightarrow> Some ([], hl1)
       | Some x \<Rightarrow> do { (xs, hl2) \<leftarrow> walk hl1 a; Some (x # xs, hl2) })
    }"

lemma walk_result:
  assumes "hl_rep hl ps rs" "\<forall>r\<in>set rs. hr_ok r \<and> narrow r" "hl_nranges hl < hl_size hl"
    "hi_get hl a = Some it" "it_at hl ps rs it xs"
  shows "\<exists>hl'. walk hl a = Some (xs, hl') \<and> hl_rep hl' ps rs \<and> hl_nhosts hl' = hl_nhosts hl"
  using assms
proof (induction xs arbitrary: hl it)
  case Nil
  from next_step[OF Nil] obtain j where
    j: "hostlist_next hl a = Some (None, hi_set hl a j)" "hi_idx j = int (hl_nranges hl)" by auto
  have "hl_rep (hi_set hl a j) ps rs"
    using Nil(1,3) j(2) repD(6)[OF Nil(1)] by (intro rep_hi_set) auto
  then show ?case using j(1) by (subst walk.simps) auto
next
  case (Cons x xs)
  from next_step[OF Cons.prems] obtain j where
    j: "hostlist_next hl a = Some (Some x, hi_set hl a j)" "it_at hl ps rs j xs" by auto
  have "hl_rep (hi_set hl a j) ps rs"
    using Cons.prems(1) j(2) rep_nranges[OF Cons.prems(1)] by (intro rep_hi_set) (auto simp: it_at_def)
  from Cons.IH[OF this _ _ it_get_set[OF Cons.prems(4)]] Cons.prems(2,3) j(2) obtain hl' where
    "walk (hi_set hl a j) a = Some (xs, hl')" "hl_rep hl' ps rs" "hl_nhosts hl' = hl_nhosts hl" by auto
  then show ?case using j(1) by (subst walk.simps) auto
qed

lemma iterate_result:
  assumes ok: "hl_ok hl" and nar: "\<forall>r\<in>set (hl_ranges hl). narrow r" and room: "hl_nranges hl < hl_size hl"
    and c: "hostlist_iterator_create hl = Some (a, hl1)"
  shows "\<exists>hl2. walk hl1 a = Some (hl_hosts hl, hl2) \<and> hl_ok hl2 \<and> hl_hosts hl2 = hl_hosts hl"
proof -
  from ok obtain ps rs where rep: "hl_rep hl ps rs" and rok: "\<forall>r\<in>set rs. hr_ok r"
    and hs: "hl_hosts hl = names rs" "hl_nhosts hl = int (length (names rs))" "length (names rs) < 2 ^ 31"
    and rs: "hl_ranges hl = rs" by (elim hl_okE)
  note d = repD[OF rep]
  let ?it = "\<lparr>hi_idx = 0, hi_hr = hl_hr hl ! 0, hi_depth = - 1\<rparr>"
  have h1: "hl1 = hl\<lparr>hl_brk := hl_brk hl + 1, hl_ilist := (hl_brk hl, ?it) # hl_ilist hl\<rparr>" "a = hl_brk hl"
    using c d(6,7) by (auto simp: hostlist_iterator_create_def slot_def)
  have rep1: "hl_rep hl1 ps rs"
    using rep d(6,7) unfolding h1 hl_rep_def by (auto simp: less_Suc_eq)
  have get: "hi_get hl1 a = Some ?it" by (simp add: h1 hi_get_def)
  have n1: "hl_nranges hl1 = hl_nranges hl" "hl_size hl1 = hl_size hl" "hl_nhosts hl1 = hl_nhosts hl"
    by (simp_all add: h1)
  have "\<exists>hl2. walk hl1 a = Some (names rs, hl2) \<and> hl_rep hl2 ps rs \<and> hl_nhosts hl2 = hl_nhosts hl1"
  proof (cases "hl_nranges hl = 0")
    case True
    then have rs0: "rs = []" using rep_length[OF rep] by simp
    have "hostlist_next hl1 a = Some (None, hi_set hl1 a ?it)"
      using get True n1 by (simp add: hostlist_next_def iterator_advance_def Let_def)
    moreover have "hl_rep (hi_set hl1 a ?it) ps rs"
      using rep_hi_set[OF rep1] repD(6,7)[OF rep1] by simp
    ultimately show ?thesis using rs0 by (subst walk.simps) auto
  next
    case False
    then have z: "0 < hl_nranges hl1" using n1 by simp
    have "hi_hr ?it = Some (ps ! 0)" using rep_nth[OF rep1 z] by (simp add: h1)
    moreover have "names rs = drop 0 (hr_hosts (rs ! 0)) @ names (drop (Suc 0) rs)"
      using names_split[of 0 rs] z rep_length[OF rep1] by simp
    ultimately have "it_at hl1 ps rs ?it (names rs)"
      unfolding it_at_def using z by (intro exI[of _ 0] exI[of _ "0 :: nat"]) simp
    from walk_result[OF rep1 _ _ get this] rok nar rs room n1 show ?thesis by auto
  qed
  then obtain hl2 where w: "walk hl1 a = Some (names rs, hl2)" "hl_rep hl2 ps rs" "hl_nhosts hl2 = hl_nhosts hl"
    using n1 by auto
  have "hl_ok hl2 \<and> hl_hosts hl2 = names rs" by (rule hl_okI[OF w(2) rok]) (use w(3) hs in simp_all)
  then show ?thesis using w(1) hs by auto
qed

end
