(* ===== verification/HostlistUniq.thy ===== *)
theory HostlistUniq
  imports HostlistAccess
begin

text \<open>
  \<open>qsort\<close> with \<open>hostrange_cmp\<close>, \<open>_attempt_range_join\<close> and \<open>hostlist_uniq\<close>: sorting permutes the
  ranges (their widths may change, their names do not) into the order \<open>hr_order\<close>, and uniting
  neighbours keeps the set of names.
\<close>

section \<open>What the comparison does to the signature of a range\<close>

definition sig :: "hostrange \<Rightarrow> string \<times> bool \<times> int" where
  "sig r = (hr_prefix r, hr_single r, hr_width r)"

lemma combine_sig:
  assumes "hostrange_width_combine a b = (x, a', b')" "hr_prefix b = hr_prefix a" "hr_single b = hr_single a"
  shows "{sig a', sig b'} \<subseteq> {sig a, sig b}"
proof -
  from assms(1) obtain w0 w1 where w: "width_equiv (hr_lo a) (hr_width a) (hr_lo b) (hr_width b) = (x, w0, w1)"
    and g: "a' = a\<lparr>hr_width := w0\<rparr>" "b' = b\<lparr>hr_width := w1\<rparr>"
    by (auto simp: hostrange_width_combine_def split: prod.splits)
  show ?thesis using width_equiv_sound(3,4)[OF w] assms(2,3) by (auto simp: sig_def g)
qed

lemma combine_equal:
  assumes "hr_width a = hr_width b"
  shows "hostrange_width_combine a b = (True, a, b)"
proof -
  have "width_equiv (hr_lo a) (hr_width a) (hr_lo b) (hr_width b) = (True, hr_width a, hr_width b)"
    using assms by (simp add: width_equiv_def Let_def)
  then show ?thesis by (simp add: hostrange_width_combine_def)
qed

lemma cmp_sig:
  assumes "hostrange_cmp a b = (c, a', b')"
  shows "{sig a', sig b'} \<subseteq> {sig a, sig b}"
proof (cases "hostrange_prefix_cmp (Some a) (Some b) = 0")
  case True
  obtain x k l where w: "hostrange_width_combine a b = (x, k, l)" by (metis prod_cases3)
  have "a' = k" "b' = l" using assms True w by (auto simp: hostrange_cmp_def split: bool.splits)
  then show ?thesis using combine_sig[OF w] True by (simp add: prefix_cmp_0)
next
  case False
  then show ?thesis using assms by (simp add: hostrange_cmp_def)
qed

lemma join_parts:
  assumes ok: "hr_ok a" "hr_ok b" and j: "hostrange_join a b = Some (d, g1, g2)"
  shows "{sig g1, sig g2} \<subseteq> {sig a, sig b}" "same_range a (g1\<lparr>hr_hi := hr_hi a\<rparr>)"
    "hr_hi g1 \<in> {hr_hi a, hr_hi b}"
    "d < 0 \<Longrightarrow> hr_prefix a = hr_prefix b \<Longrightarrow> hr_single a = hr_single b \<Longrightarrow> hr_width a = hr_width b \<Longrightarrow>
     \<not> hr_single a \<and> hr_hi a < hr_lo b"
proof -
  obtain c k1 k2 where cm: "hostrange_cmp a b = (c, k1, k2)" by (metis prod_cases3)
  note co = hostrange_cmp_order[OF ok cm] and cs = cmp_sig[OF cm]
  have c: "c \<le> 0" using j cm by (auto simp: hostrange_join_def split: if_splits)
  obtain r h1 h2 where wc: "hostrange_width_combine k1 k2 = (r, h1, h2)" by (metis prod_cases3)
  have kw: "0 \<le> hr_width k1" "0 \<le> hr_width k2"
    using same_range_fields(5)[OF co(1)] same_range_fields(5)[OF co(2)] ok by (simp_all add: hr_ok_def)
  note gs = width_combine_same[OF wc kw]
  have hi: "same_range h g \<Longrightarrow> g\<lparr>hr_hi := hr_hi h\<rparr> = g" for h g
    by (simp add: same_range_fields)
  have two: "same_range a h1" by (rule same_range_trans[OF co(1) gs(1)])
  have up: "(h1\<lparr>hr_hi := x\<rparr>)\<lparr>hr_hi := hr_hi a\<rparr> = h1" for x using hi[OF two] by simp
  have shape: "(g1 = k1 \<and> g2 = k2 \<or> g1 = h1 \<and> g2 = h2 \<or> g1 = h1\<lparr>hr_hi := hr_hi h2\<rparr> \<and> g2 = h2) \<and>
      (hostrange_prefix_cmp (Some k1) (Some k2) \<noteq> 0 \<longrightarrow> g1 = k1 \<and> g2 = k2)"
    using j cm wc c unfolding hostrange_join_def by (cases r) (auto split: if_splits)
  have "{sig h1, sig h2} \<subseteq> {sig k1, sig k2}" if "hostrange_prefix_cmp (Some k1) (Some k2) = 0"
    using combine_sig[OF wc] that by (simp add: prefix_cmp_0)
  moreover have "sig (h1\<lparr>hr_hi := x\<rparr>) = sig h1" for x by (simp add: sig_def)
  ultimately show "{sig g1, sig g2} \<subseteq> {sig a, sig b}" using shape cs by auto
  show "same_range a (g1\<lparr>hr_hi := hr_hi a\<rparr>)"
    using shape two co(1) up hi[OF two] hi[OF co(1)] by auto
  have "same_range b h2" by (rule same_range_trans[OF co(2) gs(2)])
  then show "hr_hi g1 \<in> {hr_hi a, hr_hi b}"
    using shape same_range_fields(3)[OF two] same_range_fields(3)[OF co(1)] same_range_fields(3)[of b h2]
    by auto
  assume d: "d < 0" and e: "hr_prefix a = hr_prefix b" "hr_single a = hr_single b" "hr_width a = hr_width b"
  have p: "hostrange_prefix_cmp (Some a) (Some b) = 0" using e by (simp add: prefix_cmp_0)
  then have k: "k1 = a" "k2 = b" using cm combine_equal[OF e(3)] by (simp_all add: hostrange_cmp_def)
  then have "h1 = a" "h2 = b" r using wc combine_equal[OF e(3)] by simp_all
  then have jj: "hostrange_join a b =
      (if hr_single a \<and> hr_single b then Some (1, a, b) else hr_union a b)"
    using cm c p wc k by (simp add: hostrange_join_def hr_union_def)
  then have ns: "\<not> hr_single a" using j d e(2) by (auto split: if_splits)
  have lh: "length (hr_hosts b) \<ge> 1" using hr_hosts_nonempty[OF ok(2)] by (cases "hr_hosts b") auto
  have "\<not> hr_lo b \<le> hr_hi a"
  proof
    assume l: "hr_lo b \<le> hr_hi a"
    have u: "unat (hr_lo b) \<le> unat (hr_hi a)" "unat (hr_hi a) < 2 ^ 31 - 1"
      using l hr_ok_nat[OF ok(1)] by (simp_all add: word_le_nat_alt)
    let ?k = "b\<lparr>hr_hi := hr_hi a\<rparr>"
    have kk: "hr_ok ?k" "\<not> hr_single ?k" using ok(2) u ns e(2) l by (auto simp: hr_ok_def)
    have "to_int (hr_hi a - hr_lo b + 1) = int (length (hr_hosts ?k))"
      using count_int[OF kk(1)] kk(2) by (simp add: hostrange_count_def)
    then show False
      using j d jj ns count_int[OF ok(2)] l by (auto simp: hr_union_def split: if_splits)
  qed
  then show "\<not> hr_single a \<and> hr_hi a < hr_lo b" using ns by simp
qed

section \<open>Sorting\<close>

definition same_elem :: "elem \<Rightarrow> elem \<Rightarrow> bool" where
  "same_elem x y \<longleftrightarrow> fst x = fst y \<and> same_range (snd x) (snd y)"

definition resorted :: "elem list \<Rightarrow> elem list \<Rightarrow> bool" where
  "resorted xs ys \<longleftrightarrow> rel_mset same_elem (mset xs) (mset ys)"

definition in_place :: "elem list \<Rightarrow> bool" where
  "in_place xs \<longleftrightarrow> sorted_wrt (\<lambda>x y. hr_order (snd x) (snd y) \<le> 0) xs"

lemma same_elem_trans: "same_elem x y \<Longrightarrow> same_elem y z \<Longrightarrow> same_elem x z"
  using same_range_trans by (auto simp: same_elem_def)

lemma same_elem_refl [simp]: "same_elem x x"
  by (simp add: same_elem_def)

lemma resorted_refl [simp]: "resorted xs xs"
  by (simp add: resorted_def multiset.rel_refl)

lemma resorted_mset: "mset xs = mset xs' \<Longrightarrow> mset ys = mset ys' \<Longrightarrow> resorted xs ys = resorted xs' ys'"
  by (simp add: resorted_def)

lemma resorted_trans: "resorted xs ys \<Longrightarrow> resorted ys zs \<Longrightarrow> resorted xs zs"
proof -
  have "transp same_elem" using same_elem_trans by (auto simp: transp_def)
  then have "transp (rel_mset same_elem)" by (rule multiset.rel_transp)
  then show "resorted xs ys \<Longrightarrow> resorted ys zs \<Longrightarrow> resorted xs zs"
    unfolding resorted_def by (rule transpD)
qed

lemma resorted_Cons: "same_elem x y \<Longrightarrow> resorted xs ys \<Longrightarrow> resorted (x # xs) (y # ys)"
  by (simp add: resorted_def rel_mset_Plus)

lemma resorted_append: "resorted xs ys \<Longrightarrow> resorted xs' ys' \<Longrightarrow> resorted (xs @ xs') (ys @ ys')"
  unfolding resorted_def mset_append rel_mset_def
  by (metis list_all2_appendI mset_append)

lemma resorted_mem:
  assumes "resorted xs ys" "y \<in> set ys"
  obtains x where "x \<in> set xs" "same_elem x y"
proof -
  from assms(1) obtain xs' ys' where "mset xs' = mset xs" "mset ys' = mset ys" "list_all2 same_elem xs' ys'"
    by (auto simp: resorted_def rel_mset_def)
  then show ?thesis
    using assms(2) that by (metis in_set_conv_nth list_all2_conv_all_nth mset_eq_setD)
qed

lemma order_same_elem:
  "same_elem x x' \<Longrightarrow> same_elem y y' \<Longrightarrow> hr_order (snd x') (snd y') = hr_order (snd x) (snd y)"
  by (auto simp: same_elem_def hr_order_same)

lemma in_place_Cons_same:
  assumes "in_place (x # xs)" "same_elem x y"
  shows "in_place (y # xs)"
  using assms order_same_elem[OF assms(2) same_elem_refl] by (simp add: in_place_def)

definition sound_elems :: "elem list \<Rightarrow> bool" where
  "sound_elems xs \<longleftrightarrow> (\<forall>x\<in>set xs. hr_ok (snd x))"

lemma resorted_sound: "resorted xs ys \<Longrightarrow> sound_elems xs \<Longrightarrow> sound_elems ys"
  unfolding sound_elems_def
  by (metis resorted_mem same_elem_def same_range_fields(5))

lemma in_place_below:
  fixes y :: elem
  assumes "\<forall>x\<in>set xs. hr_order (snd y) (snd x) \<le> 0" "resorted xs ys"
  shows "\<forall>x\<in>set ys. hr_order (snd y) (snd x) \<le> 0"
proof
  fix z assume "z \<in> set ys"
  from resorted_mem[OF assms(2) this] obtain x where "x \<in> set xs" "same_elem x z" .
  then show "hr_order (snd y) (snd z) \<le> 0"
    using assms(1) order_same_elem[OF same_elem_refl \<open>same_elem x z\<close>, of y] by simp
qed

lemma qs_merge_sorts:
  assumes "sound_elems xs" "sound_elems ys" "in_place xs" "in_place ys"
  shows "resorted (xs @ ys) (qs_merge xs ys) \<and> in_place (qs_merge xs ys)"
  using assms
proof (induction xs ys rule: qs_merge.induct)
  case (3 p r xs q s ys)
  let ?x = "(p, r)" and ?y = "(q, s)"
  obtain c r1 s1 where cm: "hostrange_cmp r s = (c, r1, s1)" by (metis prod_cases3)
  have ok: "hr_ok r" "hr_ok s" using 3(3,4) by (auto simp: sound_elems_def)
  note co = hostrange_cmp_order[OF ok cm]
  have sx: "same_elem ?x (p, r1)" and sy: "same_elem ?y (q, s1)" using co by (simp_all add: same_elem_def)
  have c: "c \<le> 0 \<longleftrightarrow> hr_order r s \<le> 0" using co(3) by (simp add: sgn_if split: if_splits)
  have o1: "hr_order r1 s1 = hr_order r s" by (rule hr_order_same[OF co(1,2)])
  have okx: "sound_elems xs" "sound_elems ((p, r1) # xs)" and oky: "sound_elems ys" "sound_elems ((q, s1) # ys)"
    using 3(3,4) same_range_fields(5)[OF co(1)] same_range_fields(5)[OF co(2)] by (simp_all add: sound_elems_def)
  have px: "in_place xs" "in_place ((p, r1) # xs)" and py: "in_place ys" "in_place ((q, s1) # ys)"
    using 3(5,6) in_place_Cons_same[OF 3(5) sx] in_place_Cons_same[OF 3(6) sy] by (simp_all add: in_place_def)
  show ?case
  proof (cases "c \<le> 0")
    case True
    from 3(1)[OF cm[symmetric] refl True okx(1) oky(2) px(1) py(2)]
    have ih: "resorted (xs @ (q, s1) # ys) (qs_merge xs ((q, s1) # ys))" "in_place (qs_merge xs ((q, s1) # ys))"
      by auto
    have "resorted (?x # xs @ ?y # ys) ((p, r1) # xs @ (q, s1) # ys)"
      by (intro resorted_Cons sx resorted_append resorted_refl sy)
    moreover have "resorted ((p, r1) # xs @ (q, s1) # ys) ((p, r1) # qs_merge xs ((q, s1) # ys))"
      by (intro resorted_Cons ih) simp
    ultimately have R: "resorted (?x # xs @ ?y # ys) ((p, r1) # qs_merge xs ((q, s1) # ys))"
      by (rule resorted_trans)
    have "\<forall>z\<in>set (xs @ (q, s1) # ys). hr_order r1 (snd z) \<le> 0"
    proof -
      have "hr_order r1 s1 \<le> 0" using True c o1 by simp
      moreover have "\<forall>z\<in>set ys. hr_order s1 (snd z) \<le> 0" using py(2) by (simp add: in_place_def)
      ultimately show ?thesis using px(2) hr.trans by (auto simp: in_place_def)
    qed
    then have "in_place ((p, r1) # qs_merge xs ((q, s1) # ys))"
      using in_place_below[OF _ ih(1), of "(p, r1)"] ih(2) by (simp add: in_place_def)
    with R show ?thesis using True cm by simp
  next
    case False
    from 3(2)[OF cm[symmetric] refl False okx(2) oky(1) px(2) py(1)]
    have ih: "resorted (((p, r1) # xs) @ ys) (qs_merge ((p, r1) # xs) ys)" "in_place (qs_merge ((p, r1) # xs) ys)"
      by auto
    have "resorted (?x # xs @ ?y # ys) ((p, r1) # xs @ (q, s1) # ys)"
      by (intro resorted_Cons sx resorted_append resorted_refl sy)
    moreover have "resorted ((p, r1) # xs @ (q, s1) # ys) ((q, s1) # ((p, r1) # xs) @ ys)"
      by (simp add: resorted_def multiset.rel_refl add_mset_commute)
    moreover have "resorted ((q, s1) # ((p, r1) # xs) @ ys) ((q, s1) # qs_merge ((p, r1) # xs) ys)"
      by (intro resorted_Cons ih) simp
    ultimately have R: "resorted (?x # xs @ ?y # ys) ((q, s1) # qs_merge ((p, r1) # xs) ys)"
      by (rule resorted_trans[OF resorted_trans])
    have "\<forall>z\<in>set (((p, r1) # xs) @ ys). hr_order s1 (snd z) \<le> 0"
    proof -
      have "hr_order s1 r1 \<le> 0" using False c o1 hr.anti[of s1 r1] by linarith
      moreover have "\<forall>z\<in>set xs. hr_order r1 (snd z) \<le> 0" using px(2) by (simp add: in_place_def)
      ultimately show ?thesis using py(2) hr.trans by (auto simp: in_place_def)
    qed
    then have "in_place ((q, s1) # qs_merge ((p, r1) # xs) ys)"
      using in_place_below[OF _ ih(1), of "(q, s1)"] ih(2) by (simp add: in_place_def)
    with R show ?thesis using False cm by simp
  qed
qed auto

lemma qs_sort_sorts:
  "sound_elems xs \<Longrightarrow> resorted xs (qs_sort xs) \<and> in_place (qs_sort xs)"
proof (induction xs rule: qs_sort.induct)
  case (1 xs)
  show ?case
  proof (cases "length xs \<le> 1")
    case True
    then show ?thesis by (subst qs_sort.simps, subst (2) qs_sort.simps) (cases xs; simp add: in_place_def)
  next
    case False
    let ?n = "length xs div 2"
    have s: "sound_elems (take ?n xs)" "sound_elems (drop ?n xs)"
      using 1(3) by (auto simp: sound_elems_def dest: in_set_takeD in_set_dropD)
    note ih = 1(1)[OF False refl s(1)] 1(2)[OF False refl s(2)]
    have e: "qs_sort xs = qs_merge (qs_sort (take ?n xs)) (qs_sort (drop ?n xs))"
      using False by (subst qs_sort.simps) (simp add: Let_def)
    have a: "resorted xs (qs_sort (take ?n xs) @ qs_sort (drop ?n xs))"
      using resorted_append[OF conjunct1[OF ih(1)] conjunct1[OF ih(2)]] by simp
    have m: "resorted (qs_sort (take ?n xs) @ qs_sort (drop ?n xs)) (qs_sort xs) \<and> in_place (qs_sort xs)"
      unfolding e
      by (rule qs_merge_sorts) (use ih s resorted_sound in blast)+
    then show ?thesis using resorted_trans[OF a] by blast
  qed
qed

lemma qs_merge_sig:
  "(sig \<circ> snd) ` set (qs_merge xs ys) \<subseteq> (sig \<circ> snd) ` set (xs @ ys)"
proof (induction xs ys rule: qs_merge.induct)
  case (3 p r xs q s ys)
  obtain c r1 s1 where cm: "hostrange_cmp r s = (c, r1, s1)" by (metis prod_cases3)
  note k = cmp_sig[OF cm]
  show ?case
  proof (cases "c \<le> 0")
    case True
    from 3(1)[OF cm[symmetric] refl True] show ?thesis using True cm k by auto
  next
    case False
    from 3(2)[OF cm[symmetric] refl False] show ?thesis using False cm k by auto
  qed
qed auto

lemma qs_sort_sig: "(sig \<circ> snd) ` set (qs_sort xs) \<subseteq> (sig \<circ> snd) ` set xs"
proof (induction xs rule: qs_sort.induct)
  case (1 xs)
  show ?case
  proof (cases "length xs \<le> 1")
    case True
    then show ?thesis by (subst qs_sort.simps) simp
  next
    case False
    let ?n = "length xs div 2"
    have e: "qs_sort xs = qs_merge (qs_sort (take ?n xs)) (qs_sort (drop ?n xs))"
      using False by (subst qs_sort.simps) (simp add: Let_def)
    let ?f = "sig \<circ> snd"
    have "?f ` set (qs_sort (take ?n xs)) \<subseteq> ?f ` set xs"
      using 1(1)[OF False refl] image_mono[OF set_take_subset] by (rule subset_trans)
    moreover have "?f ` set (qs_sort (drop ?n xs)) \<subseteq> ?f ` set xs"
      using 1(2)[OF False refl] image_mono[OF set_drop_subset] by (rule subset_trans)
    ultimately have "?f ` set (qs_sort (take ?n xs) @ qs_sort (drop ?n xs)) \<subseteq> ?f ` set xs"
      by (simp only: set_append image_Un Un_subset_iff)
    with qs_merge_sig show ?thesis unfolding e by (rule subset_trans)
  qed
qed

section \<open>qsort on the list\<close>

definition elems :: "nat list \<Rightarrow> hostrange list \<Rightarrow> elem list" where
  "elems ps rs = zip (map Some ps) rs"

lemma read_elems_rep:
  assumes "hl_rep hl ps rs"
  shows "i + k = hl_nranges hl \<Longrightarrow> read_elems hl i k = Some (elems (drop i ps) (drop i rs))"
proof (induction k arbitrary: i)
  case 0
  then show ?case using rep_length[OF assms] by (simp add: elems_def)
next
  case (Suc k)
  then have i: "i < hl_nranges hl" by simp
  have d: "drop i ps = ps ! i # drop (Suc i) ps" "drop i rs = rs ! i # drop (Suc i) rs"
    using i rep_length[OF assms] by (simp_all add: Cons_nth_drop_Suc)
  show ?case
    using Suc rep_slot[OF assms i] rep_obj[OF assms i] by (simp add: d elems_def)
qed

lemma write_elems_frame [simp]:
  "hl_nranges (write_elems hl i es) = hl_nranges hl" "hl_nhosts (write_elems hl i es) = hl_nhosts hl"
  "hl_size (write_elems hl i es) = hl_size hl" "hl_ilist (write_elems hl i es) = hl_ilist hl"
  "hl_brk (write_elems hl i es) = hl_brk hl" "length (hl_hr (write_elems hl i es)) = length (hl_hr hl)"
  by (induction hl i es rule: write_elems.induct) simp_all

lemma write_elems_hr:
  "i + length es \<le> length (hl_hr hl) \<Longrightarrow>
   hl_hr (write_elems hl i es) = take i (hl_hr hl) @ map fst es @ drop (i + length es) (hl_hr hl)"
proof (induction hl i es rule: write_elems.induct)
  case (2 hl i p r es)
  then have "take (Suc i) ((hl_hr hl)[i := p]) = take i (hl_hr hl) @ [p]"
    by (simp add: take_Suc_conv_app_nth)
  with 2 show ?case by simp
qed simp

lemma write_elems_mem:
  "distinct (map fst es) \<Longrightarrow> None \<notin> fst ` set es \<Longrightarrow>
   hl_mem (write_elems hl i es) a = (case map_of es (Some a) of None \<Rightarrow> hl_mem hl a | Some r \<Rightarrow> Some r)"
proof (induction hl i es rule: write_elems.induct)
  case (2 hl i p r es)
  then obtain b where p: "p = Some b" by (cases p) auto
  then have "map_of es (Some b) = None" using 2(2) by (simp add: map_of_eq_None_iff)
  with 2 p show ?case by (cases "a = b") (simp_all add: set_obj_def cong: option.case_cong)
qed simp

lemma rep_write_elems:
  assumes rep: "hl_rep hl ps rs" and es: "es = elems qs ss" "length qs = length ss"
    and perm: "mset qs = mset ps"
  shows "hl_rep (write_elems hl 0 es) qs ss"
proof -
  note d = repD[OF rep]
  have len: "length qs = hl_nranges hl" using d(1) perm by (metis size_mset)
  have m: "map fst es = map Some qs" using es by (simp add: elems_def)
  have dq: "distinct qs" "set qs = set ps" using d(3) perm by (metis mset_eq_imp_distinct_iff, metis mset_eq_setD)
  have dm: "distinct (map fst es)" "None \<notin> fst ` set es" using m dq(1)
    by (simp add: distinct_map) (metis m ex_map_conv image_set option.distinct(1))
  have le: "length es \<le> length (hl_hr hl)" "length es = hl_nranges hl"
    using rep_nranges[OF rep] len es by (simp_all add: elems_def)
  note mm = write_elems_mem[OF dm]
  show ?thesis
  proof (rule repI)
    show "take (hl_nranges (write_elems hl 0 es)) (hl_hr (write_elems hl 0 es)) = map Some qs"
      using le len by (simp add: write_elems_hr m)
    show "list_all2 (\<lambda>p r. hl_mem (write_elems hl 0 es) p = Some r) qs ss"
      unfolding list_all2_conv_all_nth
    proof (intro conjI allI impI)
      fix i assume i: "i < length qs"
      have "(Some (qs ! i), ss ! i) \<in> set es"
        using i es unfolding elems_def by (auto simp: set_zip intro!: exI[of _ i])
      then have "map_of es (Some (qs ! i)) = Some (ss ! i)"
        using dm(1) by (intro map_of_is_SomeI) simp_all
      then show "hl_mem (write_elems hl 0 es) (qs ! i) = Some (ss ! i)" by (simp add: mm)
    qed (rule es(2))
    fix a r assume a: "hl_mem (write_elems hl 0 es) a = Some r"
    show "a < hl_brk (write_elems hl 0 es)"
    proof (cases "a \<in> set ps")
      case True
      then obtain i where "i < hl_nranges hl" "ps ! i = a" using d(1) by (auto simp: in_set_conv_nth)
      then have "hl_mem hl a = Some (rs ! i)" using d(9) by auto
      then show ?thesis using d(5) by simp
    next
      case False
      then have "Some a \<notin> fst ` set es" using dq(2) m by (metis image_iff option.inject set_map)
      then have "map_of es (Some a) = None" by (simp add: map_of_eq_None_iff)
      then show ?thesis using a d(5) by (simp add: mm)
    qed
  qed (use d(6,7) dq(1) len in simp_all, use d(8) in blast)
qed

lemma qsort_result:
  assumes rep: "hl_rep hl ps rs" and ok: "\<forall>r\<in>set rs. hr_ok r"
  shows "\<exists>hl' qs ss. hl_qsort hl = Some hl' \<and> hl_rep hl' qs ss \<and> (\<forall>r\<in>set ss. hr_ok r) \<and>
    sorted_wrt (\<lambda>r s. hr_order r s \<le> 0) ss \<and> mset (map hr_hosts ss) = mset (map hr_hosts rs) \<and>
    sig ` set ss \<subseteq> sig ` set rs \<and> hr_hi ` set ss \<subseteq> hr_hi ` set rs \<and>
    hl_nhosts hl' = hl_nhosts hl \<and> hl_ilist hl' = hl_ilist hl"
proof -
  let ?es = "elems ps rs"
  have len: "length ps = length rs" "length rs = hl_nranges hl" using rep_length[OF rep] by auto
  then have sn: "map snd ?es = rs" "map fst ?es = map Some ps" by (simp_all add: elems_def)
  have rd: "read_elems hl 0 (hl_nranges hl) = Some ?es"
    using read_elems_rep[OF rep, of 0 "hl_nranges hl"] by simp
  have so: "sound_elems ?es" using ok by (auto simp: sound_elems_def elems_def dest: set_zip_rightD)
  note st = qs_sort_sorts[OF so]
  define fs where "fs = qs_sort ?es"
  have rel: "rel_mset same_elem (mset ?es) (mset fs)" and pl: "in_place fs"
    using st by (simp_all add: fs_def resorted_def)
  obtain xs ys where xy: "mset xs = mset ?es" "mset ys = mset fs" "list_all2 same_elem xs ys"
    using rel by (auto simp: rel_mset_def)
  have "map fst xs = map fst ys" "map (hr_hosts \<circ> snd) xs = map (hr_hosts \<circ> snd) ys"
    "map (hr_hi \<circ> snd) xs = map (hr_hi \<circ> snd) ys"
    using xy(3) by (induction rule: list_all2_induct) (auto simp: same_elem_def same_range_fields(3,7))
  then have mf: "mset (map fst fs) = mset (map fst ?es)"
    "mset (map (hr_hosts \<circ> snd) fs) = mset (map (hr_hosts \<circ> snd) ?es)"
    "mset (map (hr_hi \<circ> snd) fs) = mset (map (hr_hi \<circ> snd) ?es)"
    using xy(1,2) by (metis mset_map)+
  define qs where "qs = map (the \<circ> fst) fs"
  have fst_fs: "map fst fs = map Some qs"
  proof -
    have "set (map fst fs) = Some ` set ps" using mset_eq_setD[OF mf(1)] sn(2) by simp
    then have "\<forall>x\<in>set fs. \<exists>a. fst x = Some a" by auto
    then show ?thesis unfolding qs_def by auto
  qed
  then have fe: "fs = elems qs (map snd fs)"
    unfolding elems_def by (metis zip_map_fst_snd)
  have "mset (map Some qs) = mset (map Some ps)" using mf(1) fst_fs sn(2) by simp
  then have "image_mset the (image_mset Some (mset qs)) = image_mset the (image_mset Some (mset ps))" by simp
  then have pq: "mset qs = mset ps" by (simp add: image_mset.compositionality comp_def)
  have lq: "length qs = length (map snd fs)" by (simp add: qs_def)
  have ok': "\<forall>r\<in>set (map snd fs). hr_ok r"
    using resorted_sound[of ?es fs] st so by (auto simp: sound_elems_def fs_def)
  have "sorted_wrt (\<lambda>r s. hr_order r s \<le> 0) (map snd fs)"
    using pl by (simp add: in_place_def sorted_wrt_map)
  moreover have "mset (map hr_hosts (map snd fs)) = mset (map hr_hosts rs)"
    using mf(2) sn(1) by (metis map_map)
  moreover have "sig ` set (map snd fs) \<subseteq> sig ` set rs"
    using qs_sort_sig[of ?es] sn(1) unfolding fs_def by (metis image_comp set_map)
  moreover have "hr_hi ` set (map snd fs) \<subseteq> hr_hi ` set rs"
    using mset_eq_setD[OF mf(3)] sn(1) by (metis image_comp order_refl set_map)
  moreover have "hl_qsort hl = Some (write_elems hl 0 fs)"
    using rd by (simp add: hl_qsort_def fs_def)
  ultimately show ?thesis
    using rep_write_elems[OF rep fe lq pq] ok'
    by (intro exI[of _ "write_elems hl 0 fs"] exI[of _ qs] exI[of _ "map snd fs"]) simp
qed

section \<open>Uniting neighbours\<close>

lemma order_ignores_hi:
  "hr_order (a\<lparr>hr_hi := x\<rparr>) b = hr_order a b" "hr_order a (b\<lparr>hr_hi := x\<rparr>) = hr_order a b"
  by (simp_all add: hr_order_def)

lemma order_like:
  assumes "same_range a (g\<lparr>hr_hi := hr_hi a\<rparr>)"
  shows "hr_order g b = hr_order a b" "hr_order b g = hr_order b a"
  using hr_order_same[OF assms same_range_refl, of b] hr_order_same[OF same_range_refl assms, of b]
  by (simp_all add: order_ignores_hi)

abbreviation ascending :: "hostrange list \<Rightarrow> bool" where
  "ascending \<equiv> sorted_wrt (\<lambda>r s. hr_order r s \<le> 0)"

lemma ascending_update:
  assumes "ascending rs" "i < length rs" "\<And>b. hr_order g b = hr_order (rs ! i) b"
    "\<And>b. hr_order b g = hr_order b (rs ! i)"
  shows "ascending (rs[i := g])"
  unfolding sorted_wrt_iff_nth_less
proof (intro allI impI)
  fix k l assume kl: "k < l" "l < length (rs[i := g])"
  then have "hr_order (rs ! k) (rs ! l) \<le> 0"
    using assms(1) by (simp add: sorted_wrt_iff_nth_less)
  then show "hr_order (rs[i := g] ! k) (rs[i := g] ! l) \<le> 0"
    using kl assms(2-4) by (auto simp: nth_list_update)
qed

lemma ascending_del: "ascending rs \<Longrightarrow> ascending (del_at i rs)"
proof -
  assume "ascending rs"
  then have "ascending (take i rs @ drop i rs)" by simp
  then show "ascending (del_at i rs)"
    using set_drop_subset_set_drop[of i "Suc i" rs] sorted_wrt_drop[OF \<open>ascending rs\<close>, of "Suc i"]
    unfolding del_at_def sorted_wrt_append by auto
qed

text \<open>Two ranges apart from each other, in this order.\<close>

definition apart :: "hostrange \<Rightarrow> hostrange \<Rightarrow> bool" where
  "apart r s \<longleftrightarrow> hr_order r s \<le> 0 \<and>
    (hr_prefix r = hr_prefix s \<and> hr_single r = hr_single s \<longrightarrow> \<not> hr_single r \<and> hr_hi r < hr_lo s)"

definition uniform :: "hostrange list \<Rightarrow> bool" where
  "uniform rs \<longleftrightarrow> (\<forall>r\<in>set rs. \<forall>s\<in>set rs.
    hr_prefix r = hr_prefix s \<and> hr_single r = hr_single s \<longrightarrow> hr_width r = hr_width s)"

lemma uniform_sig: "sig ` set ss \<subseteq> sig ` set rs \<Longrightarrow> uniform rs \<Longrightarrow> uniform ss"
proof -
  assume a: "sig ` set ss \<subseteq> sig ` set rs" "uniform rs"
  have "\<exists>r\<in>set rs. hr_prefix r = hr_prefix s \<and> hr_single r = hr_single s \<and> hr_width r = hr_width s"
    if "s \<in> set ss" for s
    using a(1) that by (fastforce simp: sig_def image_subset_iff)
  with a(2) show ?thesis unfolding uniform_def by metis
qed

lemma image_two: "f x \<in> f ` A \<Longrightarrow> f y \<in> f ` A \<Longrightarrow> S \<subseteq> insert y (insert x A) \<Longrightarrow> f ` S \<subseteq> f ` A"
  by blast

lemma range_join_result:
  assumes rep: "hl_rep hl ps rs" and ok: "\<forall>r\<in>set rs. hr_ok r" and asc: "ascending rs"
    and loc: "0 < loc" "loc < hl_nranges hl"
  shows "\<exists>d hl' qs ss. attempt_range_join hl loc = Some (d, hl') \<and> hl_rep hl' qs ss \<and>
    (\<forall>r\<in>set ss. hr_ok r) \<and> ascending ss \<and> sig ` set ss \<subseteq> sig ` set rs \<and> hr_hi ` set ss \<subseteq> hr_hi ` set rs \<and>
    set (names ss) = set (names rs) \<and> length (names ss) \<le> length (names rs) \<and>
    hl_nhosts hl' - int (length (names ss)) = hl_nhosts hl - int (length (names rs)) \<and>
    map fst (hl_ilist hl') = map fst (hl_ilist hl) \<and>
    (if d < 0 then length ss = length rs \<and> (uniform rs \<longrightarrow> apart (ss ! (loc - 1)) (ss ! loc))
     else Suc (length ss) = length rs) \<and>
    (\<forall>k. k < loc - 1 \<longrightarrow> ss ! k = rs ! k) \<and>
    (\<forall>b. apart b (rs ! (loc - 1)) \<longrightarrow> apart b (ss ! (loc - 1)))"
proof -
  define j where "j = loc - 1"
  have j: "loc = Suc j" "j < hl_nranges hl" "Suc j < hl_nranges hl" using loc by (auto simp: j_def)
  have len: "length rs = hl_nranges hl" using rep_length[OF rep] by simp
  let ?a = "rs ! j" and ?b = "rs ! Suc j"
  have ab: "hr_ok ?a" "hr_ok ?b" using ok j len by auto
  have ord: "hr_order ?a ?b \<le> 0" using asc j len by (simp add: sorted_wrt_iff_nth_less)
  from hostrange_join_result[OF ab ord] obtain d g1 g2 where
    jn: "hostrange_join ?a ?b = Some (d, g1, g2)" and g2: "same_range ?b g2" and g1: "hr_ok g1" and
    d: "- 1 \<le> d" and res: "if d < 0 then same_range ?a g1
     else set (hr_hosts g1) = set (hr_hosts ?a) \<union> set (hr_hosts ?b) \<and>
          int (length (hr_hosts g1)) = int (length (hr_hosts ?a)) + int (length (hr_hosts ?b)) - d" by blast
  note jp = join_parts[OF ab jn]
  note like1 = order_like[OF jp(2)]
  have like2: "hr_order g2 c = hr_order ?b c" "hr_order c g2 = hr_order c ?b" for c
    using hr_order_same[OF g2 same_range_refl, of c] hr_order_same[OF same_range_refl g2, of c] by simp_all
  let ?h = "set_obj (set_obj hl (Some (ps ! j)) g1) (Some (ps ! Suc j)) g2"
  let ?ss = "rs[j := g1, Suc j := g2]"
  have rep1: "hl_rep ?h ps ?ss"
    using rep_set_obj[OF rep_set_obj[OF rep j(2), of g1], of "Suc j" g2] j(3) by simp
  have run: "attempt_range_join hl loc =
      (if d \<ge> 0 then do { hl2 \<leftarrow> hostlist_delete_range ?h loc; Some (d, hl2\<lparr>hl_nhosts := hl_nhosts hl2 - d\<rparr>) }
       else Some (d, ?h))"
    using loc j rep_slot[OF rep] rep_obj[OF rep] jn unfolding attempt_range_join_def by simp
  have ok1: "\<forall>r\<in>set ?ss. hr_ok r"
    by (intro ok_update ok g1) (use same_range_fields(5)[OF g2] ab in simp)
  have asc1: "ascending ?ss"
  proof (rule ascending_update)
    show "ascending (rs[j := g1])" by (rule ascending_update[OF asc]) (use j len like1 in auto)
  qed (use j len like2 in auto)
  have sup: "set ?ss \<subseteq> insert g2 (insert g1 (set rs))"
    using set_update_subset_insert[of "rs[j := g1]" "Suc j" g2] set_update_subset_insert[of rs j g1] by blast
  have hi: "hr_hi ` set ?ss \<subseteq> hr_hi ` set rs"
  proof -
    have "hr_hi ?a \<in> hr_hi ` set rs" "hr_hi ?b \<in> hr_hi ` set rs" using j len by auto
    then have "hr_hi g1 \<in> hr_hi ` set rs" "hr_hi g2 \<in> hr_hi ` set rs"
      using jp(3) same_range_fields(3)[OF g2] by auto
    then show ?thesis using sup by (rule image_two)
  qed
  have sg: "sig ` set ?ss \<subseteq> sig ` set rs"
  proof -
    have "sig ?a \<in> sig ` set rs" "sig ?b \<in> sig ` set rs" using j len by auto
    then have two: "sig g1 \<in> sig ` set rs" "sig g2 \<in> sig ` set rs"
      using jp(1) by (metis insert_subset insert_iff singletonD)+
    from two sup show ?thesis by (rule image_two)
  qed
  have dd: "drop j rs = ?a # ?b # drop (Suc (Suc j)) rs" using j len by (simp add: Cons_nth_drop_Suc)
  have split: "names rs = names (take j rs) @ hr_hosts ?a @ hr_hosts ?b @ names (drop (Suc (Suc j)) rs)"
    using arg_cong[OF append_take_drop_id[of j rs], of names] by (simp add: dd)
  have ss_eq: "?ss = take j rs @ g1 # g2 # drop (Suc (Suc j)) rs"
    using j len by (simp add: upd_conv_take_nth_drop take_Suc_conv_app_nth list_update_append)
  have apart_b: "apart c ?a \<longrightarrow> apart c g1" for c
  proof -
    have "hr_prefix g1 = hr_prefix ?a" "hr_single g1 = hr_single ?a" "hr_lo g1 = hr_lo ?a"
      using same_range_fields(1,2,4)[OF jp(2)] by simp_all
    then show ?thesis using like1 by (auto simp: apart_def)
  qed
  show ?thesis
  proof (cases "d < 0")
    case True
    have "same_range ?a g1" using res True by simp
    note f = same_range_fields[OF this] same_range_fields[OF g2]
    have "names ?ss = names rs" unfolding ss_eq split using f by simp
    moreover have "apart g1 g2" if "uniform rs"
    proof -
      have "hr_width ?a = hr_width ?b" if "hr_prefix ?a = hr_prefix ?b" "hr_single ?a = hr_single ?b"
      proof -
        have "?a \<in> set rs" "?b \<in> set rs" using j len by auto
        then show ?thesis using \<open>uniform rs\<close> that unfolding uniform_def by blast
      qed
      then have "hr_prefix ?a = hr_prefix ?b \<and> hr_single ?a = hr_single ?b \<longrightarrow>
          \<not> hr_single ?a \<and> hr_hi ?a < hr_lo ?b"
        using jp(4)[OF True] by blast
      moreover have "hr_order g1 g2 \<le> 0" using ord like1(1) like2(2) by simp
      ultimately show ?thesis unfolding apart_def f by blast
    qed
    ultimately show ?thesis
      using run True rep1 ok1 asc1 sg hi apart_b j len unfolding j(1)
      by (intro exI[of _ d] exI[of _ ?h] exI[of _ ps] exI[of _ ?ss]) (simp add: nth_list_update)
  next
    case False
    from delete_range_rep[OF rep1, of loc] j obtain h' where
      h': "hostlist_delete_range ?h loc = Some h'" "hl_rep h' (del_at loc ps) (del_at loc ?ss)"
        "hl_nhosts h' = hl_nhosts ?h" "map fst (hl_ilist h') = map fst (hl_ilist ?h)" by auto
    have de: "del_at loc ?ss = take j rs @ g1 # drop (Suc (Suc j)) rs"
      using j len unfolding ss_eq del_at_def j(1) by (simp add: min_def)
    have sub: "set (del_at loc ?ss) \<subseteq> set ?ss"
      by (auto simp: del_at_def dest: in_set_takeD in_set_dropD)
    note sh = subset_trans[OF image_mono[OF sub] sg] subset_trans[OF image_mono[OF sub] hi]
    have l: "Suc (length (del_at loc ?ss)) = length rs" unfolding de using j len by simp
    have nn: "set (names (del_at loc ?ss)) = set (names rs)"
      "int (length (names (del_at loc ?ss))) = int (length (names rs)) - d"
      unfolding de split using res False by auto
    then have le: "length (names (del_at loc ?ss)) \<le> length (names rs)" using False by linarith
    have nth: "del_at loc ?ss ! j = g1" "\<And>k. k < j \<Longrightarrow> del_at loc ?ss ! k = rs ! k"
      unfolding de using j len by (auto simp: nth_append)
    have "attempt_range_join hl loc = Some (d, h'\<lparr>hl_nhosts := hl_nhosts h' - d\<rparr>)"
      using run False h'(1) by simp
    then show ?thesis
      using False h' ok1 sub ascending_del[OF asc1, of loc] sh nn le l nth apart_b
      by (intro exI[of _ d] exI[of _ "h'\<lparr>hl_nhosts := hl_nhosts h' - d\<rparr>"] exI[of _ "del_at loc ps"]
          exI[of _ "del_at loc ?ss"]) (auto simp: rep_nhosts j_def)
  qed
qed

definition apart_upto :: "hostrange list \<Rightarrow> nat \<Rightarrow> bool" where
  "apart_upto rs i \<longleftrightarrow> (\<forall>k. Suc k < i \<longrightarrow> Suc k < length rs \<longrightarrow> apart (rs ! k) (rs ! Suc k))"

lemma uniq_loop_result:
  assumes "hl_rep hl ps rs" "\<forall>r\<in>set rs. hr_ok r" "ascending rs" "0 < i"
    "u \<longrightarrow> uniform rs \<and> apart_upto rs i"
  shows "\<exists>hl' qs ss. uniq_loop hl i = Some hl' \<and> hl_rep hl' qs ss \<and> (\<forall>r\<in>set ss. hr_ok r) \<and>
    sig ` set ss \<subseteq> sig ` set rs \<and> hr_hi ` set ss \<subseteq> hr_hi ` set rs \<and> set (names ss) = set (names rs) \<and>
    length (names ss) \<le> length (names rs) \<and>
    hl_nhosts hl' - int (length (names ss)) = hl_nhosts hl - int (length (names rs)) \<and>
    map fst (hl_ilist hl') = map fst (hl_ilist hl) \<and> length ss \<le> length rs \<and>
    (u \<longrightarrow> apart_upto ss (length ss))"
  using assms
proof (induction "2 * length rs - i" arbitrary: hl ps rs i rule: less_induct)
  case less
  note rep = less.prems(1)
  have len: "length rs = hl_nranges hl" using rep_length[OF rep] by simp
  show ?case
  proof (cases "i < hl_nranges hl")
    case False
    then have "uniq_loop hl i = Some hl" by (subst uniq_loop.simps) simp
    moreover have "u \<longrightarrow> apart_upto rs (length rs)"
      using less.prems(5) False len by (auto simp: apart_upto_def)
    ultimately show ?thesis using less.prems by auto
  next
    case True
    from range_join_result[OF less.prems(1-4) True] obtain d h qs ss where
      r: "attempt_range_join hl i = Some (d, h)" "hl_rep h qs ss" "\<forall>r\<in>set ss. hr_ok r" "ascending ss"
        "sig ` set ss \<subseteq> sig ` set rs" "hr_hi ` set ss \<subseteq> hr_hi ` set rs" "set (names ss) = set (names rs)"
        "length (names ss) \<le> length (names rs)"
        "hl_nhosts h - int (length (names ss)) = hl_nhosts hl - int (length (names rs))"
        "map fst (hl_ilist h) = map fst (hl_ilist hl)" and
      c: "if d < 0 then length ss = length rs \<and> (uniform rs \<longrightarrow> apart (ss ! (i - 1)) (ss ! i))
        else Suc (length ss) = length rs" and
      n0: "\<forall>k. k < i - 1 \<longrightarrow> ss ! k = rs ! k" "\<forall>b. apart b (rs ! (i - 1)) \<longrightarrow> apart b (ss ! (i - 1))"
      by (elim exE conjE) (rule that)
    note n = n0[rule_format]
    let ?i = "if d < 0 then i + 1 else i"
    have run: "uniq_loop hl i = uniq_loop h ?i"
      using True r(1) by (subst uniq_loop.simps) simp
    have ls: "length ss \<le> length rs" using c by (auto split: if_splits)
    have m: "2 * length ss - ?i < 2 * length rs - i"
      using c True len by (cases "d < 0") auto
    have keep: "apart (ss ! k) (ss ! Suc k)" if u "Suc k < i" "Suc k < length ss" for k
    proof -
      have a: "apart (rs ! k) (rs ! Suc k)"
        using less.prems(5) that ls by (auto simp: apart_upto_def)
      show ?thesis
      proof (cases "Suc k = i - 1")
        case True
        then show ?thesis using a n(1)[of k] n(2)[of "rs ! k"] by auto
      next
        case False
        then show ?thesis using a n(1)[of k] n(1)[of "Suc k"] that by auto
      qed
    qed
    have "uniform ss \<and> apart_upto ss ?i" if u: u
    proof -
      have ur: "uniform rs" using less.prems(5) u by blast
      have "apart (ss ! k) (ss ! Suc k)" if k: "Suc k < ?i" "Suc k < length ss" for k
      proof (cases "Suc k = i")
        case True
        then have "d < 0" using k by (auto split: if_splits)
        then show ?thesis using c ur True by auto
      next
        case False
        then show ?thesis using keep[OF u _ k(2)] k(1) by (auto split: if_splits)
      qed
      then show ?thesis using uniform_sig[OF r(5) ur] by (simp add: apart_upto_def)
    qed
    then have ap: "u \<longrightarrow> uniform ss \<and> apart_upto ss ?i" by blast
    have "0 < ?i" using less.prems(4) by simp
    from less.hyps[OF m r(2,3,4) this ap] obtain hl' qs' ss' where
      q: "uniq_loop h ?i = Some hl'" "hl_rep hl' qs' ss'" "\<forall>r\<in>set ss'. hr_ok r" "sig ` set ss' \<subseteq> sig ` set ss"
      "hr_hi ` set ss' \<subseteq> hr_hi ` set ss" "set (names ss') = set (names ss)" "length (names ss') \<le> length (names ss)"
      "hl_nhosts hl' - int (length (names ss')) = hl_nhosts h - int (length (names ss))"
      "map fst (hl_ilist hl') = map fst (hl_ilist h)" "length ss' \<le> length ss"
      "u \<longrightarrow> apart_upto ss' (length ss')" by (elim exE conjE) (rule that)
    show ?thesis
      unfolding run
      by (intro exI[of _ hl'] exI[of _ qs'] exI[of _ ss'] conjI q(1-3) subset_trans[OF q(4) r(5)]
          subset_trans[OF q(5) r(6)] trans[OF q(6) r(7)] order_trans[OF q(7) r(8)] trans[OF q(8) r(9)]
          trans[OF q(9) r(10)] order_trans[OF q(10) ls] q(11))
  qed
qed

section \<open>hostlist_uniq\<close>

text \<open>
  Ranges as \<open>hostlist_push_host\<close> makes them: a single host has no usable number, the others are
  findable.
\<close>

definition canonical :: "hostrange \<Rightarrow> bool" where
  "canonical r \<longleftrightarrow> findable r \<and>
    (hr_single r \<longrightarrow> \<not> hostname_suffix_is_valid (hostname_create (hr_prefix r)))"

lemma canonical_like:
  assumes "\<forall>r\<in>set rs. canonical r" "sig ` set ss \<subseteq> sig ` set rs" "hr_hi ` set ss \<subseteq> hr_hi ` set rs"
    "\<forall>r\<in>set rs. hr_hi r \<le> MAX_HOST_SUFFIX"
  shows "\<forall>r\<in>set ss. canonical r"
proof
  fix s assume s: "s \<in> set ss"
  have "sig s \<in> sig ` set rs" "hr_hi s \<in> hr_hi ` set rs"
    using subsetD[OF assms(2) imageI[OF s]] subsetD[OF assms(3) imageI[OF s]] .
  then obtain r t where r: "r \<in> set rs" "sig s = sig r" and t: "t \<in> set rs" "hr_hi s = hr_hi t"
    by (elim imageE) (rule that)
  have hi: "hr_hi s \<le> MAX_HOST_SUFFIX" unfolding t(2) by (rule assms(4)[THEN bspec, OF t(1)])
  have c: "canonical r" by (rule assms(1)[THEN bspec, OF r(1)])
  have e: "hr_prefix s = hr_prefix r" "hr_single s = hr_single r" using r(2) by (simp_all only: sig_def prod.inject)
  show "canonical s" using c hi unfolding canonical_def findable_def e by blast
qed

lemma name_decides:
  assumes ok: "hr_ok r" "hr_ok s" and c: "canonical r" "canonical s"
    and x: "x \<in> set (hr_hosts r)" "x \<in> set (hr_hosts s)"
  shows "hr_prefix r = hr_prefix s \<and> hr_single r = hr_single s \<and>
    (\<not> hr_single r \<longrightarrow> hr_lo s \<le> hr_hi r)"
proof -
  have hn: "hostname_suffix_is_valid (hostname_create x) \<and> hn_prefix (hostname_create x) = hr_prefix t \<and>
      hr_lo t \<le> hn_num (hostname_create x) \<and> hn_num (hostname_create x) \<le> hr_hi t"
    if "hr_ok t" "canonical t" "x \<in> set (hr_hosts t)" "\<not> hr_single t" for t
  proof -
    obtain b g where w: "hostrange_hn_within t (hostname_create x) = (b, g)"
      by (cases "hostrange_hn_within t (hostname_create x)")
    have b using hn_within_complete[OF that(1) _ that(3) w] that(2) by (simp add: canonical_def)
    then have "hn_prefix (hostname_create x) = hr_prefix t"
      using w that(4) by (auto simp: hostrange_hn_within_def split: if_splits)
    then show ?thesis
      using hn_within_result(2,4)[OF that(1) w \<open>b\<close> that(4)] by blast
  qed
  have single: "x = hr_prefix t \<and> \<not> hostname_suffix_is_valid (hostname_create x)"
    if "canonical t" "x \<in> set (hr_hosts t)" "hr_single t" for t
    using that by (simp add: canonical_def hr_hosts_def)
  show ?thesis
  proof (cases "hr_single r")
    case True
    then show ?thesis
      using single[OF c(1) x(1)] single[OF c(2) x(2)] hn[OF ok(2) c(2) x(2)] by auto
  next
    case False
    note nr = hn[OF ok(1) c(1) x(1) False]
    then have "\<not> hr_single s" using single[OF c(2) x(2)] by auto
    then show ?thesis using nr hn[OF ok(2) c(2) x(2)] False by auto
  qed
qed

lemma strcmp_sandwich:
  assumes "strcmp s t \<le> 0" "strcmp t u \<le> 0" "s = u"
  shows "s = t"
  using assms strcmp_anti[of s t] strcmp_eq_0[of s t] by auto

lemma apart_trans:
  assumes "hr_ok s" "apart r s" "apart s t"
  shows "apart r t"
proof -
  have o: "hr_order r t \<le> 0" using assms(2,3) hr.trans by (auto simp: apart_def)
  have pre: "strcmp (hr_prefix x) (hr_prefix y) \<le> 0" if "hr_order x y \<le> 0" for x y
    using that by (auto simp: hr_order_def Let_def split: if_splits)
  have "\<not> hr_single r \<and> hr_hi r < hr_lo t" if e: "hr_prefix r = hr_prefix t" "hr_single r = hr_single t"
  proof -
    have p: "hr_prefix r = hr_prefix s"
      using strcmp_sandwich[OF pre pre e(1), of s] assms(2,3) by (simp add: apart_def)
    have "hr_single r = hr_single s"
      using assms(2,3) p e by (auto simp: apart_def hr_order_def Let_def split: if_splits)
    then have "\<not> hr_single r" "hr_hi r < hr_lo s" "hr_hi s < hr_lo t"
      using assms(2,3) p e by (auto simp: apart_def)
    moreover have "hr_lo s \<le> hr_hi s" using assms(1) by (simp add: hr_ok_def)
    ultimately show ?thesis by simp
  qed
  then show ?thesis using o by (auto simp: apart_def)
qed

lemma apart_all:
  assumes "\<forall>r\<in>set rs. hr_ok r" "apart_upto rs (length rs)"
  shows "sorted_wrt apart rs"
proof -
  let ?R = "\<lambda>r s. hr_ok r \<and> hr_ok s \<and> apart r s"
  have "transp ?R" using apart_trans by (auto simp: transp_def)
  moreover have "\<forall>k. Suc k < length rs \<longrightarrow> ?R (rs ! k) (rs ! Suc k)"
    using assms by (auto simp: apart_upto_def)
  ultimately have "sorted_wrt ?R rs" by (simp add: sorted_wrt_iff_nth_Suc_transp)
  then show ?thesis by (rule sorted_wrt_mono_rel[rotated]) auto
qed

lemma apart_distinct:
  assumes "\<forall>r\<in>set rs. hr_ok r \<and> canonical r" "sorted_wrt apart rs"
  shows "distinct (names rs)"
  using assms
proof (induction rs)
  case (Cons r rs)
  have "set (hr_hosts r) \<inter> set (hr_hosts s) = {}" if "s \<in> set rs" for s
  proof (rule ccontr)
    assume "set (hr_hosts r) \<inter> set (hr_hosts s) \<noteq> {}"
    then obtain x where x: "x \<in> set (hr_hosts r)" "x \<in> set (hr_hosts s)" by blast
    have a: "apart r s" using Cons.prems(2) that by simp
    have "hr_ok r" "hr_ok s" "canonical r" "canonical s" using Cons.prems(1) that by simp_all
    note d = name_decides[OF this x]
    then have "\<not> hr_single r" "hr_hi r < hr_lo s" using a by (auto simp: apart_def)
    with d show False by (meson leD)
  qed
  then have "set (hr_hosts r) \<inter> set (names rs) = {}" by (auto simp: names_def)
  then show ?case using Cons hr_hosts_distinct by simp
qed simp

lemma reset_iterators_result:
  assumes rep: "hl_rep hl ps rs"
  shows "\<exists>hl'. reset_iterators hl = Some hl' \<and> hl_rep hl' ps rs \<and> hl_nhosts hl' = hl_nhosts hl \<and>
    map fst (hl_ilist hl') = map fst (hl_ilist hl) \<and> (\<forall>(a, i)\<in>set (hl_ilist hl'). hi_idx i = 0)"
proof -
  have "0 < length (hl_hr hl)" using repD(6,7)[OF rep] by simp
  then have "\<exists>j. hostlist_iterator_reset hl i = Some j \<and> hi_idx j = 0" for i
    by (simp add: hostlist_iterator_reset_def slot_def)
  then have "\<exists>ys. map_iterators (hostlist_iterator_reset hl) (hl_ilist hl) = Some ys \<and>
      (\<forall>(a, j)\<in>set ys. hi_idx j = 0) \<and> map fst ys = map fst (hl_ilist hl)"
    by (rule map_iterators_ok)
  then obtain ys where y: "map_iterators (hostlist_iterator_reset hl) (hl_ilist hl) = Some ys"
    "\<forall>(a, j)\<in>set ys. hi_idx j = 0" "map fst ys = map fst (hl_ilist hl)" by blast
  have "hl_rep (hl\<lparr>hl_ilist := ys\<rparr>) ps rs"
    using rep y(2) \<open>0 < length (hl_hr hl)\<close> unfolding hl_rep_def by auto
  then show ?thesis using y by (simp add: reset_iterators_def)
qed

lemma uniq_result:
  assumes ok: "hl_ok hl"
  shows "\<exists>hl'. hostlist_uniq hl = Some hl' \<and> hl_ok hl' \<and> set (hl_hosts hl') = set (hl_hosts hl) \<and>
    length (hl_hosts hl') \<le> length (hl_hosts hl) \<and>
    map fst (hl_ilist hl') = map fst (hl_ilist hl) \<and>
    ((\<forall>r\<in>set (hl_ranges hl). canonical r) \<and> uniform (hl_ranges hl) \<longrightarrow>
      (\<forall>r\<in>set (hl_ranges hl'). canonical r) \<and> uniform (hl_ranges hl') \<and> distinct (hl_hosts hl'))"
proof -
  from ok obtain ps rs where rep: "hl_rep hl ps rs" and rok: "\<forall>r\<in>set rs. hr_ok r"
    and hs: "hl_hosts hl = names rs" "hl_nhosts hl = int (length (names rs))" "length (names rs) < 2 ^ 31"
    and rs: "hl_ranges hl = rs" by (elim hl_okE)
  show ?thesis
  proof (cases "hl_nranges hl \<le> 1")
    case True
    then have "length rs \<le> 1" using rep_length[OF rep] by simp
    then have "distinct (names rs)" using hr_hosts_distinct by (cases rs) auto
    then show ?thesis using ok hs True rs by (simp add: hostlist_uniq_def)
  next
    case False
    from qsort_result[OF rep rok] obtain h1 qs ss where
      q: "hl_qsort hl = Some h1" "hl_rep h1 qs ss" "\<forall>r\<in>set ss. hr_ok r" "ascending ss"
        "mset (map hr_hosts ss) = mset (map hr_hosts rs)" "sig ` set ss \<subseteq> sig ` set rs"
        "hr_hi ` set ss \<subseteq> hr_hi ` set rs" "hl_nhosts h1 = hl_nhosts hl" "hl_ilist h1 = hl_ilist hl"
      by (elim exE conjE) (rule that)
    let ?u = "(\<forall>r\<in>set rs. canonical r) \<and> uniform rs"
    have "?u \<longrightarrow> uniform ss \<and> apart_upto ss 1"
      using uniform_sig[OF q(6)] by (auto simp: apart_upto_def)
    from uniq_loop_result[OF q(2-4) zero_less_one this] obtain h2 qs' ts where
      t: "uniq_loop h1 1 = Some h2" "hl_rep h2 qs' ts" "\<forall>r\<in>set ts. hr_ok r" "sig ` set ts \<subseteq> sig ` set ss"
        "hr_hi ` set ts \<subseteq> hr_hi ` set ss" "set (names ts) = set (names ss)"
        "length (names ts) \<le> length (names ss)" "hl_nhosts h2 - int (length (names ts)) = hl_nhosts h1 - int (length (names ss))"
        "map fst (hl_ilist h2) = map fst (hl_ilist h1)" "length ts \<le> length ss"
        "?u \<longrightarrow> apart_upto ts (length ts)"
      by (elim exE conjE) (rule that)
    from reset_iterators_result[OF t(2)] obtain h3 where
      r: "reset_iterators h2 = Some h3" "hl_rep h3 qs' ts" "hl_nhosts h3 = hl_nhosts h2"
        "map fst (hl_ilist h3) = map fst (hl_ilist h2)" by blast
    have "set (map hr_hosts ss) = set (map hr_hosts rs)" by (rule mset_eq_setD[OF q(5)])
    then have sn: "set (names ss) = set (names rs)" by (simp add: names_def)
    have "mset (map length (map hr_hosts ss)) = mset (map length (map hr_hosts rs))"
      using q(5) by (metis mset_map)
    then have ln: "length (names ss) = length (names rs)"
      unfolding names_def length_concat by (metis sum_mset_sum_list)
    have n3: "hl_nhosts h3 = int (length (names ts))" using t(8) r(3) q(8) hs(2) ln by simp
    have ok3: "hl_ok h3 \<and> hl_hosts h3 = names ts"
      by (rule hl_okI[OF r(2) t(3) n3]) (use t(7) ln hs(3) in simp)
    have "(\<forall>r\<in>set ts. canonical r) \<and> uniform ts \<and> distinct (names ts)" if u: ?u
    proof -
      have "hr_hi r \<le> MAX_HOST_SUFFIX" if "r \<in> set rs" for r
        using u rok that by (auto simp: canonical_def findable_def hr_ok_def)
      then have c: "\<forall>r\<in>set ts. canonical r"
        using u by (intro canonical_like[OF _ subset_trans[OF t(4) q(6)] subset_trans[OF t(5) q(7)]]) auto
      moreover have "uniform ts"
        using u uniform_sig[OF subset_trans[OF t(4) q(6)]] by blast
      moreover have "distinct (names ts)"
        using apart_distinct[of ts] apart_all[OF t(3)] t(3,11) u c by blast
      ultimately show ?thesis by blast
    qed
    moreover have "hostlist_uniq hl = Some h3"
      using False q(1) t(1) r(1) by (simp add: hostlist_uniq_def)
    moreover have "set (names ts) = set (names rs)" "length (names ts) \<le> length (names rs)"
      "map fst (hl_ilist h3) = map fst (hl_ilist hl)"
      using t(6,7,9) sn ln r(4) q(9) by simp_all
    moreover have "hl_ranges h3 = ts" by (rule rep_ranges[OF r(2)])
    ultimately show ?thesis
      using ok3 hs(1) rs by (intro exI[of _ h3]) simp
  qed
qed

end
