(* ===== verification/HostsetLaws.thy ===== *)
theory HostsetLaws
  imports HostlistUniq
begin

text \<open>
  Host sets: membership (\<open>hostset_find_host\<close>) and inclusion (\<open>hostset_within\<close>).
\<close>

lemma find_host_loop_result:
  assumes "hl_rep hl ps rs" "\<forall>r\<in>set rs. hr_ok r"
  shows "i + k = hl_nranges hl \<Longrightarrow>
    \<exists>b hl' rs'. find_host_loop hl (hostname_create s) i k = Some (b, hl') \<and> hl_rep hl' ps rs' \<and>
      (\<forall>r\<in>set rs'. hr_ok r) \<and> names rs' = names rs \<and> hl_nhosts hl' = hl_nhosts hl \<and>
      hl_ilist hl' = hl_ilist hl \<and> ((\<forall>r\<in>set rs. findable r) \<longrightarrow> (\<forall>r\<in>set rs'. findable r)) \<and>
      (b \<longrightarrow> s \<in> set (names (drop i rs))) \<and>
      ((\<forall>r\<in>set (drop i rs). findable r) \<longrightarrow> b = (s \<in> set (names (drop i rs))))"
  using assms
proof (induction k arbitrary: hl rs i)
  case 0
  then show ?case using rep_length[OF 0(2)] by auto
next
  case (Suc k)
  note rep = Suc.prems(2) and rok = Suc.prems(3)
  have i: "i < hl_nranges hl" "i < length rs" using Suc.prems(1) rep_length[OF rep] by auto
  let ?r = "rs ! i" and ?hn = "hostname_create s"
  have rr: "hr_ok ?r" using rok i by simp
  obtain b g where w: "hostrange_hn_within ?r ?hn = (b, g)" by (cases "hostrange_hn_within ?r ?hn")
  note sm = hn_within_result(1)[OF rr w]
  note f = same_range_fields[OF sm]
  let ?h = "set_obj hl (Some (ps ! i)) g"
  have rep1: "hl_rep ?h ps (rs[i := g])" by (rule rep_set_obj[OF rep i(1)])
  have rok1: "\<forall>r\<in>set (rs[i := g]). hr_ok r" by (rule ok_update[OF rok]) (use f rr in simp)
  have nm: "names (rs[i := g]) = names rs" using names_same[OF i(2)] f by simp
  have fi: "(\<forall>r\<in>set rs. findable r) \<longrightarrow> (\<forall>r\<in>set (rs[i := g]). findable r)"
  proof
    assume a: "\<forall>r\<in>set rs. findable r"
    then have "findable g" using i f by (simp add: findable_def)
    then show "\<forall>r\<in>set (rs[i := g]). findable r"
      using a set_update_subset_insert[of rs i g] by blast
  qed
  have d: "drop i rs = ?r # drop (Suc i) rs" using i by (simp add: Cons_nth_drop_Suc)
  note at = rep_slot[OF rep i(1)] rep_obj[OF rep i(1)]
  show ?case
  proof (cases b)
    case True
    then have "find_host_loop hl ?hn i (Suc k) = Some (True, ?h)" using at w by simp
    moreover have "s \<in> set (hr_hosts ?r)"
      using hn_within_index[OF rr w[unfolded eqTrueI[OF True]]] by (metis nth_mem)
    ultimately show ?thesis
      using rep1 rok1 nm fi unfolding d by (intro exI[of _ True] exI[of _ ?h] exI[of _ "rs[i := g]"]) simp
  next
    case False
    have no: "findable ?r \<Longrightarrow> s \<notin> set (hr_hosts ?r)"
      using hn_within_complete[OF rr _ _ w] False by auto
    have "Suc i + k = hl_nranges ?h" using Suc.prems(1) by simp
    from Suc.IH[OF this rep1 rok1] obtain c h' rs' where
      c: "find_host_loop ?h ?hn (Suc i) k = Some (c, h')" "hl_rep h' ps rs'" "\<forall>r\<in>set rs'. hr_ok r"
        "names rs' = names (rs[i := g])" "hl_nhosts h' = hl_nhosts ?h" "hl_ilist h' = hl_ilist ?h"
        "(\<forall>r\<in>set (rs[i := g]). findable r) \<longrightarrow> (\<forall>r\<in>set rs'. findable r)"
        "c \<longrightarrow> s \<in> set (names (drop (Suc i) rs))"
        "(\<forall>r\<in>set (drop (Suc i) rs). findable r) \<longrightarrow> c = (s \<in> set (names (drop (Suc i) rs)))"
      by auto
    have run: "find_host_loop hl ?hn i (Suc k) = Some (c, h')" using at w False c(1) by simp
    have snd: "c \<longrightarrow> s \<in> set (names (drop i rs))" using c(8) by (simp add: d)
    have cmp: "(\<forall>r\<in>set (drop i rs). findable r) \<longrightarrow> c = (s \<in> set (names (drop i rs)))"
      using c(9) no by (simp add: d)
    have keep: "(\<forall>r\<in>set rs. findable r) \<longrightarrow> (\<forall>r\<in>set rs'. findable r)"
      using c(7) fi by (rule_tac impI) (drule (1) mp)+
    show ?thesis
      using c(2,3,4,5,6) nm
      by (intro exI[of _ c] exI[of _ h'] exI[of _ rs'] conjI run snd cmp keep) simp_all
  qed
qed

lemma find_host_result:
  assumes "hl_ok (hs_hl set0)"
  shows "\<exists>b set1. hostset_find_host set0 s = Some (b, set1) \<and> hl_ok (hs_hl set1) \<and>
    hl_hosts (hs_hl set1) = hl_hosts (hs_hl set0) \<and> (b \<longrightarrow> s \<in> set (hl_hosts (hs_hl set0))) \<and>
    ((\<forall>r\<in>set (hl_ranges (hs_hl set0)). findable r) \<longrightarrow>
      (\<forall>r\<in>set (hl_ranges (hs_hl set1)). findable r) \<and> b = (s \<in> set (hl_hosts (hs_hl set0))))"
proof -
  let ?hl = "hs_hl set0"
  from assms obtain ps rs where rep: "hl_rep ?hl ps rs" and rok: "\<forall>r\<in>set rs. hr_ok r"
    and hs: "hl_hosts ?hl = names rs" "hl_nhosts ?hl = int (length (names rs))" "length (names rs) < 2 ^ 31"
    and rs: "hl_ranges ?hl = rs" by (elim hl_okE)
  from find_host_loop_result[OF rep rok, of 0 "hl_nranges ?hl" s] obtain b h rs' where
    m: "find_host_loop ?hl (hostname_create s) 0 (hl_nranges ?hl) = Some (b, h)"
      "hl_rep h ps rs'" "\<forall>r\<in>set rs'. hr_ok r" "names rs' = names rs" "hl_nhosts h = hl_nhosts ?hl"
      "(\<forall>r\<in>set rs. findable r) \<longrightarrow> (\<forall>r\<in>set rs'. findable r)" "b \<longrightarrow> s \<in> set (names rs)"
      "(\<forall>r\<in>set rs. findable r) \<longrightarrow> b = (s \<in> set (names rs))" by auto
  have "hl_ok h \<and> hl_hosts h = names rs'" by (rule hl_okI[OF m(2,3)]) (use m hs in simp_all)
  then show ?thesis
    using m hs(1) rs rep_ranges[OF m(2)]
    by (intro exI[of _ b] exI[of _ "\<lparr>hs_hl = h\<rparr>"]) (auto simp: hostset_find_host_def)
qed

lemma within_loop_result:
  assumes "hl_ok hl" "hl_ok (hs_hl set0)" "\<forall>r\<in>set (hl_ranges (hs_hl set0)). findable r"
  shows "\<exists>set1. within_loop set0 hl n =
      Some (n + int (length (filter (\<lambda>x. x \<in> set (hl_hosts (hs_hl set0))) (hl_hosts hl))), set1) \<and>
    hl_ok (hs_hl set1) \<and> hl_hosts (hs_hl set1) = hl_hosts (hs_hl set0)"
  using assms
proof (induction "length (hl_hosts hl)" arbitrary: hl set0 n)
  case 0
  then have "hostlist_pop hl = Some (None, hl)" using pop_result[of hl] by simp
  then show ?case using 0 by (subst within_loop.simps) simp
next
  case (Suc k)
  then have ne: "hl_hosts hl \<noteq> []" by auto
  with pop_result[OF Suc.prems(1)] obtain h where
    h: "hostlist_pop hl = Some (Some (last (hl_hosts hl)), h)" "hl_ok h" "hl_hosts h = butlast (hl_hosts hl)"
    by auto
  let ?x = "last (hl_hosts hl)" and ?S = "set (hl_hosts (hs_hl set0))"
  from find_host_result[OF Suc.prems(2), of ?x] Suc.prems(3) obtain set1 where
    f: "hostset_find_host set0 ?x = Some (?x \<in> ?S, set1)" "hl_ok (hs_hl set1)"
      "hl_hosts (hs_hl set1) = hl_hosts (hs_hl set0)" "\<forall>r\<in>set (hl_ranges (hs_hl set1)). findable r"
    by blast
  have l: "k = length (hl_hosts h)" using Suc.hyps(2) h(3) by simp
  from Suc.hyps(1)[OF l h(2) f(2,4), of "n + of_bool (?x \<in> ?S)"] obtain set2 where
    g: "within_loop set1 h (n + of_bool (?x \<in> ?S)) =
        Some (n + of_bool (?x \<in> ?S) + int (length (filter (\<lambda>x. x \<in> ?S) (hl_hosts h))), set2)"
      "hl_ok (hs_hl set2)" "hl_hosts (hs_hl set2) = hl_hosts (hs_hl set0)"
    unfolding f(3) by blast
  have "filter (\<lambda>x. x \<in> ?S) (hl_hosts hl) =
      filter (\<lambda>x. x \<in> ?S) (butlast (hl_hosts hl)) @ filter (\<lambda>x. x \<in> ?S) [?x]"
    using ne by (metis append_butlast_last_id filter_append)
  then show ?case
    using h f(1) g by (subst within_loop.simps) (simp add: add.assoc)
qed

lemma within_result:
  assumes "hl_ok (hs_hl set0)" "\<forall>r\<in>set (hl_ranges (hs_hl set0)). findable r"
    and "hostlist_create hosts = Some (Some h)" "hl_ok h"
  shows "\<exists>set1. hostset_within set0 hosts =
      Some (set (hl_hosts h) \<subseteq> set (hl_hosts (hs_hl set0)), set1) \<and> hl_ok (hs_hl set1) \<and>
    hl_hosts (hs_hl set1) = hl_hosts (hs_hl set0)"
proof -
  let ?S = "set (hl_hosts (hs_hl set0))"
  from within_loop_result[OF assms(4,1,2), of 0] obtain set1 where
    w: "within_loop set0 h 0 = Some (int (length (filter (\<lambda>x. x \<in> ?S) (hl_hosts h))), set1)"
      "hl_ok (hs_hl set1)" "hl_hosts (hs_hl set1) = hl_hosts (hs_hl set0)" by auto
  have "hostlist_count h = int (length (hl_hosts h))"
    using assms(4) by (simp add: hl_ok_def hostlist_count_def)
  moreover have "length (hl_hosts h) = length (filter (\<lambda>x. x \<in> ?S) (hl_hosts h)) \<longleftrightarrow> set (hl_hosts h) \<subseteq> ?S"
    by (metis filter_True length_filter_less nat_less_le subset_code(1))
  ultimately show ?thesis
    using assms(3) w by (simp add: hostset_within_def)
qed

end
