(* ===== verification/HostlistParse.thy ===== *)
theory HostlistParse
  imports HostlistAccess
begin

text \<open>
  \<open>hostlist_create\<close> on the host list syntax: comma separated items, each a plain name or a prefix
  with a bracketed list of numbers and ranges of numbers.
\<close>

section \<open>Syntax\<close>

text \<open>A range of numbers \<open>lo - hi\<close> written with a width; an item; what an item stands for.\<close>

datatype host_item = Name string | Group string "(nat \<times> nat \<times> nat) list"

fun range_text :: "nat \<times> nat \<times> nat \<Rightarrow> string" where
  "range_text (w, lo, hi) = pad w lo @ (if lo < hi then CHR ''-'' # pad w hi else [])"

fun commas :: "string list \<Rightarrow> string" where
  "commas [] = []"
| "commas [x] = x"
| "commas (x # y # xs) = x @ CHR '','' # commas (y # xs)"

fun item_text :: "host_item \<Rightarrow> string" where
  "item_text (Name s) = s"
| "item_text (Group p rs) = p @ CHR ''['' # commas (map range_text rs) @ '']''"

fun range_names :: "string \<Rightarrow> nat \<times> nat \<times> nat \<Rightarrow> string list" where
  "range_names p (w, lo, hi) = map (\<lambda>n. p @ pad w n) [lo ..< Suc hi]"

fun item_names :: "host_item \<Rightarrow> string list" where
  "item_names (Name s) = [s]"
| "item_names (Group p rs) = concat (map (range_names p) rs)"

abbreviation host_seps :: string where
  "host_seps \<equiv> [CHR 0x09, CHR '','', CHR '' '']"

fun range_valid :: "nat \<times> nat \<times> nat \<Rightarrow> bool" where
  "range_valid (w, lo, hi) \<longleftrightarrow> lo \<le> hi \<and> hi < lo + 16384 \<and> hi < 2 ^ 31 - 1"

fun item_valid :: "host_item \<Rightarrow> bool" where
  "item_valid (Name s) \<longleftrightarrow> s \<noteq> [] \<and> length s < 1024 \<and> set s \<inter> set host_seps = {} \<and> CHR ''['' \<notin> set s"
| "item_valid (Group p rs) \<longleftrightarrow> rs \<noteq> [] \<and> length rs \<le> 10240 \<and> (\<forall>r\<in>set rs. range_valid r) \<and>
    set p \<inter> set host_seps = {} \<and> CHR ''['' \<notin> set p \<and> CHR '']'' \<notin> set p"

section \<open>A single range, a list of ranges\<close>

lemma digit_not: "isdigit c \<Longrightarrow> c \<noteq> CHR ''-'' \<and> c \<noteq> CHR '','' \<and> c \<noteq> CHR ''['' \<and> c \<noteq> CHR '']'' \<and>
    c \<noteq> CHR '' '' \<and> c \<noteq> CHR 0x09"
  by (auto simp: isdigit_def)

lemma pad_not: "CHR ''-'' \<notin> set (pad w n)" "CHR '','' \<notin> set (pad w n)" "CHR ''['' \<notin> set (pad w n)"
  "CHR '']'' \<notin> set (pad w n)" "CHR '' '' \<notin> set (pad w n)" "CHR 0x09 \<notin> set (pad w n)"
  using digit_not pad_digits by blast+

lemma range_text_not: "CHR '','' \<notin> set (range_text r)" "CHR ''['' \<notin> set (range_text r)"
  "CHR '']'' \<notin> set (range_text r)" "CHR '' '' \<notin> set (range_text r)" "CHR 0x09 \<notin> set (range_text r)"
  "range_text r \<noteq> []"
  by (cases r; auto simp: pad_not)+

lemma strtoul_pad: "n < 2 ^ 31 \<Longrightarrow> strtoul (pad w n) = (word_of_int (int n), [])"
proof -
  assume n: "n < 2 ^ 31"
  have "\<forall>c\<in>set (pad w n). isdigit c" using pad_digits by blast
  moreover have "int n < 2 ^ 64" using n by simp
  ultimately show ?thesis using strtoul_digits[of "pad w n" "[]"] by simp
qed

lemma takeWhile_all: "x \<notin> set s \<Longrightarrow> takeWhile (\<lambda>c. c \<noteq> x) (s @ x # t) = s"
  "x \<notin> set s \<Longrightarrow> dropWhile (\<lambda>c. c \<noteq> x) (s @ x # t) = x # t"
  "x \<notin> set s \<Longrightarrow> takeWhile (\<lambda>c. c \<noteq> x) s = s"
  by (induction s) auto

lemma parse_range_text:
  assumes "range_valid (w, lo, hi)"
  shows "parse_single_range (range_text (w, lo, hi)) =
    Some \<lparr>pr_lo = word_of_int (int lo), pr_hi = word_of_int (int hi), pr_width = int (length (pad w lo))\<rparr>"
proof -
  have v: "lo \<le> hi" "hi < lo + 16384" "hi < 2 ^ 31" "lo < 2 ^ 31" using assms by auto
  let ?lo = "word_of_int (int lo) :: ulong" and ?hi = "word_of_int (int hi) :: ulong"
  have u: "unat ?lo = lo" "unat ?hi = hi" using v by (simp_all add: unat_of_nat)
  have "unat (?hi - ?lo) = hi - lo" using u v by (simp add: unat_sub word_le_nat_alt)
  then have "unat (?hi - ?lo + 1) = hi - lo + 1" using v unat_succ[of "?hi - ?lo"] by simp
  then have c: "\<not> ?hi - ?lo + 1 > MAX_RANGE" "\<not> ?lo > ?hi"
    using u v by (simp_all add: word_less_nat_alt MAX_RANGE_def)
  note st = strtoul_pad[OF v(4), of w] strtoul_pad[OF v(3), of w]
  show ?thesis
  proof (cases "lo < hi")
    case True
    have d: "takeWhile (\<lambda>c. c \<noteq> CHR ''-'') (range_text (w, lo, hi)) = pad w lo"
      "dropWhile (\<lambda>c. c \<noteq> CHR ''-'') (range_text (w, lo, hi)) = CHR ''-'' # pad w hi"
      "CHR ''-'' \<in> set (range_text (w, lo, hi))"
      using True by (simp_all add: takeWhile_all pad_not)
    obtain e es where e: "pad w hi = e # es" by (cases "pad w hi") auto
    then have "e \<noteq> CHR ''-''" using pad_not(1)[of w hi] by auto
    then show ?thesis
      unfolding parse_single_range_def d using st e c d(3) by (simp add: Let_def)
  next
    case False
    then have eq: "hi = lo" using v by simp
    have d: "takeWhile (\<lambda>c. c \<noteq> CHR ''-'') (range_text (w, lo, hi)) = pad w lo"
      "CHR ''-'' \<notin> set (range_text (w, lo, hi))"
      using False by (simp_all add: takeWhile_all pad_not)
    show ?thesis
      unfolding parse_single_range_def d using st c d(2) eq by (simp add: Let_def)
  qed
qed

definition prange_of :: "nat \<times> nat \<times> nat \<Rightarrow> prange" where
  "prange_of r = (case r of (w, lo, hi) \<Rightarrow>
    \<lparr>pr_lo = word_of_int (int lo), pr_hi = word_of_int (int hi), pr_width = int (length (pad w lo))\<rparr>)"

lemma parse_text: "range_valid r \<Longrightarrow> parse_single_range (range_text r) = Some (prange_of r)"
  by (cases r) (simp only: parse_range_text prange_of_def prod.case)

lemma parse_ranges_text:
  "rs \<noteq> [] \<Longrightarrow> \<forall>r\<in>set rs. range_valid r \<Longrightarrow> cnt + int (length rs) \<le> len \<Longrightarrow>
   parse_range_list (commas (map range_text rs)) cnt len = Some (map prange_of rs)"
proof (induction rs arbitrary: cnt)
  case (Cons r rs)
  note n = range_text_not(1)[of r]
  show ?case
  proof (cases rs)
    case Nil
    then show ?thesis
      using Cons.prems n parse_text[of r] by (subst parse_range_list.simps) (simp add: takeWhile_all)
  next
    case (Cons s ss)
    have "commas (map range_text (r # rs)) = range_text r @ CHR '','' # commas (map range_text rs)"
      using Cons by simp
    then show ?thesis
      using Cons.IH[of "cnt + 1"] Cons.prems Cons n parse_text[of r]
      by (subst parse_range_list.simps) (simp add: takeWhile_all)
  qed
qed simp

section \<open>Pushing what was parsed\<close>

lemma parsed_range:
  assumes "range_valid (w, lo, hi)"
  shows "hr_ok (hostrange_create p (pr_lo (prange_of (w, lo, hi))) (pr_hi (prange_of (w, lo, hi))) (pr_width (prange_of (w, lo, hi))))"
    "hr_hosts (hostrange_create p (pr_lo (prange_of (w, lo, hi))) (pr_hi (prange_of (w, lo, hi))) (pr_width (prange_of (w, lo, hi)))) =
     range_names p (w, lo, hi)"
proof -
  have v: "lo \<le> hi" "hi < 2 ^ 31 - 1" using assms by auto
  have u: "unat (word_of_int (int lo) :: ulong) = lo" "unat (word_of_int (int hi) :: ulong) = hi"
    using v by (simp_all add: unat_of_nat)
  show "hr_ok (hostrange_create p (pr_lo (prange_of (w, lo, hi))) (pr_hi (prange_of (w, lo, hi))) (pr_width (prange_of (w, lo, hi))))"
    using u v by (simp add: hr_ok_def hostrange_create_def prange_of_def word_le_nat_alt)
  have "pad (length (pad w lo)) lo = pad w lo" by (simp add: pad_eq_iff length_pad)
  then have "pad (length (pad w lo)) n = pad w n" if "lo \<le> n" for n
    using pad_stays that by blast
  then show "hr_hosts (hostrange_create p (pr_lo (prange_of (w, lo, hi))) (pr_hi (prange_of (w, lo, hi))) (pr_width (prange_of (w, lo, hi)))) =
     range_names p (w, lo, hi)"
    using u v(1) by (auto simp: hr_hosts_def hostrange_create_def prange_of_def)
qed

lemma push_ranges_result:
  "\<forall>r\<in>set rs. range_valid r \<Longrightarrow> hl_ok hl \<Longrightarrow>
   length (hl_hosts hl) + length (item_names (Group p rs)) < 2 ^ 31 \<Longrightarrow>
   \<exists>hl'. push_ranges hl p (map prange_of rs) = Some hl' \<and> hl_ok hl' \<and>
     hl_hosts hl' = hl_hosts hl @ item_names (Group p rs)"
proof (induction rs arbitrary: hl)
  case (Cons r rs)
  obtain w lo hi where r: "r = (w, lo, hi)" by (metis prod_cases3)
  let ?q = "prange_of r"
  let ?h = "hostrange_create p (pr_lo ?q) (pr_hi ?q) (pr_width ?q)"
  have v: "range_valid (w, lo, hi)" using Cons.prems(1) r by simp
  note pr = parsed_range[OF v, of p, folded r]
  have "length (hl_hosts hl) + length (hr_hosts ?h) < 2 ^ 31"
    using Cons.prems(3) unfolding pr(2) by simp
  from push_range_result[OF Cons.prems(2) pr(1) this] obtain g h' where
    g: "hostlist_push_range hl ?h = Some (int (length (hl_hosts g)), g, h')" "hl_ok g"
      "hl_hosts g = hl_hosts hl @ range_names p r" unfolding pr(2) by blast
  have "\<forall>r\<in>set rs. range_valid r" "length (hl_hosts g) + length (item_names (Group p rs)) < 2 ^ 31"
    using Cons.prems(1,3) g(3) by simp_all
  from Cons.IH[OF this(1) g(2) this(2)] show ?case
    using g by (auto simp: hostlist_push_hr_def)
qed simp

lemma create_token_result:
  assumes "item_valid it" "hl_ok hl" "length (hl_hosts hl) + length (item_names it) < 2 ^ 31"
  shows "\<exists>hl'. create_token hl (item_text it) = Some (Inr hl') \<and> hl_ok hl' \<and>
    hl_hosts hl' = hl_hosts hl @ item_names it"
proof (cases it)
  case (Name s)
  then show ?thesis
    using assms push_host_result[OF assms(2), of s] by (auto simp: create_token_def)
next
  case (Group p rs)
  let ?b = "commas (map range_text rs)"
  have n: "CHR ''['' \<notin> set p" "CHR '']'' \<notin> set p" using assms(1) Group by auto
  have nb: "CHR '']'' \<notin> set ?b"
    by (induction rs rule: induct_list012) (auto simp: range_text_not)
  have t: "item_text it = p @ CHR ''['' # (?b @ CHR '']'' # [])" using Group by simp
  have d: "takeWhile (\<lambda>c. c \<noteq> CHR ''['') (item_text it) = p"
    "tl (dropWhile (\<lambda>c. c \<noteq> CHR ''['') (item_text it)) = ?b @ CHR '']'' # []"
    unfolding t takeWhile_all(1)[OF n(1)] takeWhile_all(2)[OF n(1)] by simp_all
  have e: "takeWhile (\<lambda>c. c \<noteq> CHR '']'') (?b @ CHR '']'' # []) = ?b"
    "tl (dropWhile (\<lambda>c. c \<noteq> CHR '']'') (?b @ CHR '']'' # [])) = []"
    unfolding takeWhile_all(1)[OF nb] takeWhile_all(2)[OF nb] by simp_all
  have i: "CHR ''['' \<in> set (item_text it)" "CHR '']'' \<in> set (?b @ CHR '']'' # [])" unfolding t by simp_all
  have "parse_range_list ?b 0 MAX_RANGES = Some (map prange_of rs)"
    by (rule parse_ranges_text) (use assms(1) Group in \<open>auto simp: MAX_RANGES_def\<close>)
  then have "create_token hl (item_text it) = map_option Inr (push_ranges hl p (map prange_of rs))"
    unfolding create_token_def Let_def d e if_P[OF i(1)] if_P[OF i(2)] by simp
  then show ?thesis
    using push_ranges_result[of rs hl p] assms Group by auto
qed

section \<open>The tokeniser\<close>

lemma take_until_sep:
  assumes "set t \<inter> set seps = {}" "rest = [] \<or> hd rest \<in> set seps"
  shows "takeWhile (\<lambda>c. c \<notin> set seps) (t @ rest) = t" "dropWhile (\<lambda>c. c \<notin> set seps) (t @ rest) = rest"
proof -
  have "\<forall>c\<in>set t. c \<notin> set seps" using assms(1) by blast
  moreover have "takeWhile (\<lambda>c. c \<notin> set seps) rest = []" "dropWhile (\<lambda>c. c \<notin> set seps) rest = rest"
    using assms(2) by (cases rest; simp)+
  ultimately show "takeWhile (\<lambda>c. c \<notin> set seps) (t @ rest) = t"
    "dropWhile (\<lambda>c. c \<notin> set seps) (t @ rest) = rest"
    by (simp_all add: takeWhile_append2 dropWhile_append2)
qed

lemma commas_split:
  assumes "rs \<noteq> []"
  obtains t u where "commas (map range_text rs) = t @ u" "set t \<inter> set host_seps = {}"
    "CHR ''['' \<notin> set t" "CHR '']'' \<notin> set t" "u = [] \<or> hd u = CHR '',''"
    "CHR ''['' \<notin> set u" "CHR '']'' \<notin> set u"
proof -
  obtain r ss where rs: "rs = r # ss" using assms by (cases rs) auto
  have n: "CHR ''['' \<notin> set (commas (map range_text xs))" "CHR '']'' \<notin> set (commas (map range_text xs))" for xs
    by (induction xs rule: induct_list012) (auto simp: range_text_not)
  have c: "commas (map range_text rs) = range_text r @ (if ss = [] then [] else CHR '','' # commas (map range_text ss))"
    unfolding rs by (cases ss) auto
  show ?thesis
    by (rule that[OF c]) (use n[of ss] in \<open>auto simp: range_text_not\<close>)
qed

lemma tok_loop_steps:
  assumes "takeWhile (\<lambda>c. c \<notin> set sep) s = t" "dropWhile (\<lambda>c. c \<notin> set sep) s = r"
  shows "advance_past_brackets (tok @ t) r = None \<Longrightarrow> hl_tok_loop sep tok s = (tok @ t, r)"
    "advance_past_brackets (tok @ t) r = Some (t', s') \<Longrightarrow> hl_tok_loop sep tok s = hl_tok_loop sep t' s'"
  using assms by (subst hl_tok_loop.simps; simp add: Let_def)+

lemma tok_loop_item:
  assumes v: "item_valid it" and r: "rest = [] \<or> hd rest \<in> set host_seps"
  shows "hl_tok_loop host_seps [] (item_text it @ rest) = (item_text it, rest)"
proof (cases it)
  case (Name s)
  then have s: "set s \<inter> set host_seps = {}" "CHR ''['' \<notin> set s" using v by auto
  have "advance_past_brackets s rest = None" using s(2) by (simp add: advance_past_brackets_def)
  then show ?thesis
    using tok_loop_steps(1)[OF take_until_sep[OF s(1) r], of "[]"] Name by simp
next
  case (Group p rs)
  then have p: "set p \<inter> set host_seps = {}" "CHR ''['' \<notin> set p" "CHR '']'' \<notin> set p" and ne: "rs \<noteq> []"
    using v by auto
  from commas_split[OF ne] obtain t u where
    c: "commas (map range_text rs) = t @ u" "set t \<inter> set host_seps = {}" "CHR ''['' \<notin> set t"
      "CHR '']'' \<notin> set t" and u: "u = [] \<or> hd u = CHR '',''" "CHR ''['' \<notin> set u" "CHR '']'' \<notin> set u" .
  have full: "advance_past_brackets (item_text it) s = None" for s
    using Group by (simp add: advance_past_brackets_def)
  have last: "hl_tok_loop host_seps (item_text it) rest = (item_text it, rest)"
  proof -
    have "set [] \<inter> set host_seps = {}" by simp
    note t = take_until_sep[OF this r, unfolded append_Nil]
    show ?thesis using tok_loop_steps(1)[OF t, of "item_text it"] full by (simp only: append_Nil2)
  qed
  show ?thesis
  proof (cases "u = []")
    case True
    have "set (item_text it) \<inter> set host_seps = {}" using Group c p True by auto
    from tok_loop_steps(1)[OF take_until_sep[OF this r], of "[]"] full show ?thesis by simp
  next
    case False
    let ?t = "p @ CHR ''['' # t" and ?r = "u @ CHR '']'' # rest"
    have it: "item_text it @ rest = ?t @ ?r" "?t @ u @ '']'' = item_text it" using Group c by simp_all
    have "set ?t \<inter> set host_seps = {}" using p c by auto
    moreover have "?r = [] \<or> hd ?r \<in> set host_seps" using u(1) False by (cases u) auto
    ultimately have tw: "takeWhile (\<lambda>c. c \<notin> set host_seps) (?t @ ?r) = ?t"
      "dropWhile (\<lambda>c. c \<notin> set host_seps) (?t @ ?r) = ?r" by (rule take_until_sep)+
    have "takeWhile (\<lambda>c. c \<noteq> CHR '']'') ?r = u" by (rule takeWhile_all(1)[OF u(3)])
    then have "advance_past_brackets ?t ?r = Some (item_text it, rest)"
      using p(3) c(3,4) u(2) it(2) by (auto simp: advance_past_brackets_def Let_def)
    then show ?thesis
      unfolding it(1) using tok_loop_steps(2)[OF tw, of "[]"] last by (simp only: append_Nil)
  qed
qed

lemma item_text_start:
  assumes "item_valid it"
  shows "item_text it \<noteq> []" "hd (item_text it) \<notin> set host_seps"
proof -
  show "item_text it \<noteq> []" using assms by (cases it) auto
  show "hd (item_text it) \<notin> set host_seps"
  proof (cases it)
    case (Name s)
    then show ?thesis using assms by (cases s) auto
  next
    case (Group p rs)
    then show ?thesis using assms by (cases p) auto
  qed
qed

lemma next_tok_item:
  assumes "item_valid it" "rest = [] \<or> (\<exists>jt r. rest = CHR '','' # item_text jt @ r \<and> item_valid jt)"
  shows "hl_next_tok host_seps (item_text it @ rest) = Some (item_text it, drop 1 rest)"
proof -
  have d: "dropWhile (\<lambda>c. c \<in> set host_seps) (item_text i @ s) = item_text i @ s" if "item_valid i" for i s
    using item_text_start[OF that] by (cases "item_text i") auto
  have "rest = [] \<or> hd rest \<in> set host_seps" using assms(2) by auto
  note t = tok_loop_item[OF assms(1) this]
  have "dropWhile (\<lambda>c. c \<in> set host_seps) rest = drop 1 rest"
  proof (cases "rest = []")
    case False
    then obtain jt r where j: "rest = CHR '','' # item_text jt @ r" "item_valid jt" using assms(2) by auto
    show ?thesis using d[OF j(2), of r] unfolding j(1) by simp
  qed simp
  moreover have "item_text it @ rest \<noteq> []" using item_text_start(1)[OF assms(1)] by simp
  ultimately show ?thesis
    unfolding hl_next_tok_def Let_def d[OF assms(1)] t by (simp only: if_False prod.case)
qed

lemma create_loop_result:
  "\<forall>it\<in>set its. item_valid it \<Longrightarrow> hl_ok hl \<Longrightarrow>
   length (hl_hosts hl) + length (concat (map item_names its)) < 2 ^ 31 \<Longrightarrow>
   \<exists>hl'. create_loop host_seps hl (commas (map item_text its)) = Some (Some hl') \<and> hl_ok hl' \<and>
     hl_hosts hl' = hl_hosts hl @ concat (map item_names its)"
proof (induction its arbitrary: hl)
  case Nil
  then show ?case by (subst create_loop.simps) (simp add: hl_next_tok_def)
next
  case (Cons it its)
  define rest where "rest = (if its = [] then [] else CHR '','' # commas (map item_text its))"
  have tx: "commas (map item_text (it # its)) = item_text it @ rest"
    unfolding rest_def by (cases its) auto
  have dr: "drop 1 rest = commas (map item_text its)" unfolding rest_def by simp
  have "rest = [] \<or> (\<exists>jt r. rest = CHR '','' # item_text jt @ r \<and> item_valid jt)"
  proof (cases its)
    case (Cons jt js)
    have "\<exists>r. commas (map item_text its) = item_text jt @ r" unfolding Cons by (cases js) auto
    then show ?thesis using Cons.prems(1) Cons unfolding rest_def by auto
  qed (simp add: rest_def)
  note nt = next_tok_item[OF _ this, of it, unfolded dr]
  have v: "item_valid it" using Cons.prems(1) by simp
  have "length (hl_hosts hl) + length (item_names it) < 2 ^ 31" using Cons.prems(3) by simp
  from create_token_result[OF v Cons.prems(2) this] obtain g where
    g: "create_token hl (item_text it) = Some (Inr g)" "hl_ok g" "hl_hosts g = hl_hosts hl @ item_names it" by blast
  have "create_loop host_seps hl (item_text it @ rest) = create_loop host_seps g (commas (map item_text its))"
    using nt[OF v] g(1) by (subst create_loop.simps) simp
  then show ?case
    using Cons.IH[of g] Cons.prems(1,3) g unfolding tx by (auto simp: add.assoc)
qed

lemma create_result:
  assumes "\<forall>it\<in>set its. item_valid it" "length (concat (map item_names its)) < 2 ^ 31"
  shows "\<exists>hl. hostlist_create (Some (commas (map item_text its))) = Some (Some hl) \<and> hl_ok hl \<and>
    hl_hosts hl = concat (map item_names its)"
  using create_loop_result[OF assms(1) new_ok(1)] assms(2)
  by (simp add: hostlist_create_def hostlist_create_bracketed_def new_ok(2))

end
