(* ===== verification/HostlistPrint.thy ===== *)
theory HostlistPrint
  imports HostlistParse
begin

text \<open>
  \<open>hostlist_ranged_string\<close>: the text it writes, as a list of items of the host list syntax, and
  the safety of every write into the caller's buffer.
\<close>

section \<open>The text of a list\<close>

definition triple :: "hostrange \<Rightarrow> nat \<times> nat \<times> nat" where
  "triple r = (nat (hr_width r), unat (hr_lo r), unat (hr_hi r))"

definition num_text :: "hostrange \<Rightarrow> string" where
  "num_text r = (if hr_single r then [] else range_text (triple r))"

text \<open>How many of the following ranges go into the same brackets.\<close>

fun more :: "hostrange \<Rightarrow> hostrange list \<Rightarrow> nat" where
  "more r [] = 0"
| "more r (s # ss) = (if hostrange_within_range (Some s) (Some r) then Suc (more s ss) else 0)"

definition brackets :: "hostrange \<Rightarrow> hostrange list \<Rightarrow> bool" where
  "brackets r ss \<longleftrightarrow> hostrange_count r > 1 \<or> 0 < more r ss"

definition first_item :: "hostrange \<Rightarrow> hostrange list \<Rightarrow> host_item" where
  "first_item r ss =
    (if brackets r ss then Group (hr_prefix r) (map triple (r # take (more r ss) ss))
     else Name (hr_prefix r @ num_text r))"

function items :: "hostrange list \<Rightarrow> host_item list" where
  "items [] = []"
| "items (r # ss) = first_item r ss # items (drop (more r ss) ss)"
  by pat_completeness auto
termination by (relation "measure length") auto

definition hl_text :: "hostrange list \<Rightarrow> string" where
  "hl_text rs = commas (map item_text (items rs))"

lemma more_le: "more r ss \<le> length ss"
  by (induction r ss rule: more.induct) auto

lemma within_sym: "hostrange_within_range (Some r) (Some s) = hostrange_within_range (Some s) (Some r)"
  by (auto simp: hostrange_within_range_def prefix_cmp_0)

lemma more_single: "hr_single r \<Longrightarrow> more r ss = 0"
  by (cases ss) (auto simp: hostrange_within_range_def)

lemma numstr_ok:
  assumes "off + m \<le> length b"
  shows "\<exists>w b'. hostrange_numstr r m b off = Some (w, b') \<and> length b' = length b \<and> take off b' = take off b \<and>
    (if length (num_text r) < m then w = length (num_text r) \<and> take (off + w) b' = take off b @ num_text r
     else m \<le> w)"
proof (cases "hr_single r \<or> m = 0")
  case True
  then show ?thesis by (auto simp: hostrange_numstr_def num_text_def)
next
  case False
  let ?s = "pad (nat (hr_width r)) (unat (hr_lo r))"
  from snprintf_ok[OF assms, of ?s] obtain b1 where
    b1: "snprintf_at b off m ?s = Some b1" "length b1 = length b" "take off b1 = take off b"
      "length ?s < m \<longrightarrow> take (off + length ?s + 1) b1 = take off b @ ?s @ [CHR 0x00]" by blast
  show ?thesis
  proof (cases "length ?s < m \<and> hr_lo r < hr_hi r")
    case small: False
    have "num_text r = ?s" if "length ?s < m" using False small that
      by (simp add: num_text_def triple_def word_less_nat_alt)
    moreover have "length (num_text r) \<ge> length ?s" using False by (simp add: num_text_def triple_def)
    moreover have "take (off + length ?s) b1 = take off b @ ?s" if "length ?s < m"
    proof -
      have "take (off + length ?s) (take (off + length ?s + 1) b1) = take off b @ ?s"
        using b1(4) that assms by simp
      then show ?thesis by (simp add: min_def)
    qed
    moreover have "hostrange_numstr r m b off = Some (length ?s, b1)"
      using False b1(1) small unfolding hostrange_numstr_def Let_def by auto
    ultimately show ?thesis using b1
      by (cases "length ?s < m"; intro exI[of _ "length ?s"] exI[of _ b1]) auto
  next
    case True
    let ?t = "CHR ''-'' # pad (nat (hr_width r)) (unat (hr_hi r))"
    have nt: "num_text r = ?s @ ?t" using False True by (simp add: num_text_def triple_def word_less_nat_alt)
    have "off + length ?s + (m - length ?s) \<le> length b1" using assms True b1(2) by simp
    from snprintf_ok[OF this, of ?t] obtain b2 where
      b2: "snprintf_at b1 (off + length ?s) (m - length ?s) ?t = Some b2" "length b2 = length b1"
        "take (off + length ?s) b2 = take (off + length ?s) b1"
        "length ?t < m - length ?s \<longrightarrow>
           take (off + length ?s + length ?t + 1) b2 = take (off + length ?s) b1 @ ?t @ [CHR 0x00]" by blast
    have p: "take (off + length ?s) b1 = take off b @ ?s"
    proof -
      have "take (off + length ?s) (take (off + length ?s + 1) b1) = take off b @ ?s"
        using b1(4) True assms by simp
      then show ?thesis by (simp add: min_def)
    qed
    have run: "hostrange_numstr r m b off = Some (length ?s + length ?t, b2)"
      using False True b1(1) b2(1) unfolding hostrange_numstr_def Let_def by simp
    have "take off b2 = take off b1" using take_shorter[OF b2(3)] by simp
    moreover have "take (off + length ?s + length ?t) b2 = take off b @ ?s @ ?t"
      if "length ?t < m - length ?s"
    proof -
      have "take (off + length ?s + length ?t) (take (off + length ?s + length ?t + 1) b2) = take off b @ ?s @ ?t"
        using b2(4) that p b1(2) b2(2) assms True by simp
      then show ?thesis by (simp add: min_def)
    qed
    moreover have "length (num_text r) = length ?s + length ?t" using nt by simp
    ultimately show ?thesis
      using run b1(2,3) b2(2) nt
      by (intro exI[of _ "length ?s + length ?t"] exI[of _ b2]) (auto simp: add.assoc)
  qed
qed

section \<open>A bracketed group\<close>

lemma ref_at_rep: "hl_rep hl ps rs \<Longrightarrow> i < hl_nranges hl \<Longrightarrow> ref_at hl i = Some (Some (rs ! i))"
  by (simp add: ref_at_def repD(9))

definition group_text :: "hostrange list \<Rightarrow> string" where
  "group_text g = concat (map (\<lambda>r. num_text r @ '','') g)"

lemma bracketed_loop_ok:
  assumes rep: "hl_rep hl ps rs"
  shows "i + k = hl_nranges hl \<Longrightarrow> 0 < k \<Longrightarrow> len \<le> n \<Longrightarrow> off + n \<le> length b \<Longrightarrow>
    \<exists>j l b'. bracketed_loop hl True n b off len i k = Some (j, l, b') \<and> length b' = length b \<and>
      take (off + len) b' = take (off + len) b \<and>
      (let g = rs ! i # take (more (rs ! i) (drop (Suc i) rs)) (drop (Suc i) rs)
       in if len + length (group_text g) \<le> n
          then j = i + length g \<and> l = len + length (group_text g) \<and>
               take (off + l) b' = take (off + len) b @ group_text g
          else n \<le> l)"
proof (induction k arbitrary: i len b)
  case (Suc k)
  let ?r = "rs ! i" and ?t = "num_text (rs ! i)"
  have i: "i < hl_nranges hl" "length rs = hl_nranges hl" using Suc.prems(1) rep_length[OF rep] by auto
  have "off + len + (n - len) \<le> length b" using Suc.prems by simp
  from numstr_ok[OF this, of ?r] obtain w b1 where
    b1: "hostrange_numstr ?r (n - len) b (off + len) = Some (w, b1)" "length b1 = length b"
      "take (off + len) b1 = take (off + len) b"
      "if length ?t < n - len then w = length ?t \<and> take (off + len + w) b1 = take (off + len) b @ ?t
       else n - len \<le> w" by blast
  define g where "g = ?r # take (more ?r (drop (Suc i) rs)) (drop (Suc i) rs)"
  have gt: "length (group_text g) \<ge> length ?t + 1" by (simp add: g_def group_text_def)
  show ?case
  proof (cases "len + w \<ge> n")
    case True
    then have "bracketed_loop hl True n b off len i (Suc k) = Some (i, len + w, b1)"
      using b1(1) rep_range_at[OF rep i(1)] by simp
    moreover have "\<not> len + length (group_text g) \<le> n" using True b1(4) gt by (auto split: if_splits)
    ultimately show ?thesis using b1 True unfolding g_def by (intro exI) (auto simp: Let_def)
  next
    case False
    then have w: "w = length ?t" "take (off + len + w) b1 = take (off + len) b @ ?t" "len + w < n"
      using b1(4) by (auto split: if_splits)
    have "off + len + w + length [CHR '',''] \<le> length b1" using w(3) Suc.prems(4) b1(2) by simp
    from bwrite_ok[OF this] obtain b2 where
      b2: "bwrite b1 (off + len + w) [CHR '',''] = Some b2" "length b2 = length b1"
        "take (off + len + w + 1) b2 = take (off + len) b @ ?t @ '',''" using w(2) by auto
    have pre: "take (off + len) b2 = take (off + len) b"
    proof -
      have "take (off + len) (take (off + len + w + 1) b2) = take (off + len) b"
        using b2(3) Suc.prems(3,4) by simp
      then show ?thesis by (simp add: min_def)
    qed
    have step: "bracketed_loop hl True n b off len i (Suc k) =
        (if i + 1 < hl_nranges hl \<and> hostrange_within_range (Some (rs ! (i + 1))) (Some ?r)
         then bracketed_loop hl True n b2 off (len + w + 1) (i + 1) k
         else Some (i + 1, len + w + 1, b2))"
      using b1(1) b2(1) False rep_range_at[OF rep i(1)] ref_at_rep[OF rep, of "Suc i"] by simp
    show ?thesis
    proof (cases "i + 1 < hl_nranges hl \<and> hostrange_within_range (Some (rs ! (i + 1))) (Some ?r)")
      case stop: False
      have "more ?r (drop (Suc i) rs) = 0"
        using stop i by (cases "Suc i < length rs") (auto simp: Cons_nth_drop_Suc[symmetric])
      then have "g = [?r]" by (simp add: g_def)
      then have gt: "group_text g = ?t @ '',''" "length g = 1" by (simp_all add: group_text_def)
      have "bracketed_loop hl True n b off len i (Suc k) = Some (i + 1, len + w + 1, b2)"
        unfolding step using stop by argo
      then show ?thesis
        unfolding g_def[symmetric] Let_def using gt b2 b1(2) w pre
        by (intro exI[of _ "i + 1"] exI[of _ "len + w + 1"] exI[of _ b2]) (auto simp: add.assoc)
    next
      case go: True
      let ?h = "rs ! Suc i # take (more (rs ! Suc i) (drop (Suc (Suc i)) rs)) (drop (Suc (Suc i)) rs)"
      have d: "drop (Suc i) rs = rs ! Suc i # drop (Suc (Suc i)) rs" using go i by (simp add: Cons_nth_drop_Suc)
      have g: "g = ?r # ?h" using go unfolding g_def d by simp
      have gl: "group_text g = ?t @ '','' @ group_text ?h" unfolding g by (simp add: group_text_def)
      have "Suc i + k = hl_nranges hl" "0 < k" "len + w + 1 \<le> n" "off + n \<le> length b2"
        using Suc.prems go w b1(2) b2(2) by auto
      from Suc.IH[OF this] obtain j l b' where
        r: "bracketed_loop hl True n b2 off (len + w + 1) (Suc i) k = Some (j, l, b')" "length b' = length b2"
          "take (off + (len + w + 1)) b' = take (off + (len + w + 1)) b2"
          "if len + w + 1 + length (group_text ?h) \<le> n
           then j = Suc i + length ?h \<and> l = len + w + 1 + length (group_text ?h) \<and>
                take (off + l) b' = take (off + (len + w + 1)) b2 @ group_text ?h
           else n \<le> l"
        unfolding Let_def by blast
      have keep: "take (off + len) b' = take (off + len) b"
        using take_shorter[OF r(3), of "off + len"] pre by simp
      have e: "len + length (group_text g) = len + w + 1 + length (group_text ?h)"
        using gl w(1) by simp
      have t: "take (off + len) b @ group_text g = take (off + (len + w + 1)) b2 @ group_text ?h"
        using b2(3) gl by (simp add: add.assoc)
      have lg: "i + length g = Suc i + length ?h" using g by simp
      have "bracketed_loop hl True n b off len i (Suc k) = Some (j, l, b')" unfolding step using go r(1) by simp
      moreover have "length b' = length b" using r(2) b1(2) b2(2) by simp
      moreover have "if len + length (group_text g) \<le> n
        then j = i + length g \<and> l = len + length (group_text g) \<and>
          take (off + l) b' = take (off + len) b @ group_text g
        else n \<le> l" unfolding e t lg by (rule r(4))
      ultimately show ?thesis unfolding g_def[symmetric] Let_def using keep by blast
    qed
  qed
qed simp

section \<open>An item\<close>

lemma group_text_butlast:
  assumes "\<forall>r\<in>set g. \<not> hr_single r" "g \<noteq> []"
  shows "group_text g = commas (map range_text (map triple g)) @ '',''"
  using assms
proof (induction g)
  case (Cons r g)
  have r: "num_text r = range_text (triple r)" using Cons.prems by (simp add: num_text_def)
  show ?case
  proof (cases g)
    case Nil
    then show ?thesis using r by (simp add: group_text_def)
  next
    case (Cons s g')
    then have "group_text g = commas (map range_text (map triple g)) @ '',''"
      using Cons.IH Cons.prems by simp
    then show ?thesis using r Cons by (simp add: group_text_def)
  qed
qed simp

lemma within_multi: "hostrange_within_range (Some s) (Some r) \<Longrightarrow> \<not> hr_single s \<and> \<not> hr_single r"
  by (simp add: hostrange_within_range_def split: if_splits)

lemma more_take_single: "\<forall>s\<in>set (take (more r ss) ss). \<not> hr_single s"
proof (induction r ss rule: more.induct)
  case (2 r s ss)
  then show ?case using within_multi[of s r] by simp
qed simp

lemma brackets_single: "brackets r ss \<Longrightarrow> \<not> hr_single r"
  using more_single[of r ss] by (auto simp: brackets_def hostrange_count_def)

lemma bracket_text:
  assumes "brackets r ss" "g = r # take (more r ss) ss"
  shows "item_text (first_item r ss) = hr_prefix r @ ''['' @ butlast (group_text g) @ '']''"
    "length (item_text (first_item r ss)) = length (hr_prefix r) + 1 + length (group_text g)"
proof -
  have "group_text g = commas (map range_text (map triple g)) @ '',''"
    using group_text_butlast[of g] more_take_single[of r ss] brackets_single[OF assms(1)] assms(2) by simp
  moreover have "map triple g = triple r # map triple (take (more r ss) ss)" using assms(2) by simp
  ultimately show "item_text (first_item r ss) = hr_prefix r @ ''['' @ butlast (group_text g) @ '']''"
    "length (item_text (first_item r ss)) = length (hr_prefix r) + 1 + length (group_text g)"
    using assms(1) by (simp_all add: first_item_def)
qed

lemma bracket_needed:
  assumes rep: "hl_rep hl ps rs" and i: "i < hl_nranges hl"
  shows "is_bracket_needed hl i = Some (brackets (rs ! i) (drop (Suc i) rs))"
proof (cases "Suc i < hl_nranges hl")
  case True
  then have "drop (Suc i) rs = rs ! Suc i # drop (Suc (Suc i)) rs"
    using rep_length[OF rep] by (simp add: Cons_nth_drop_Suc)
  then show ?thesis
    using True i within_sym rep_range_at[OF rep i] ref_at_rep[OF rep True]
    by (simp add: is_bracket_needed_def brackets_def)
next
  case False
  then have "drop (Suc i) rs = []" using rep_length[OF rep] by simp
  then show ?thesis
    using False i rep_range_at[OF rep i]
    by (simp add: is_bracket_needed_def brackets_def hostrange_within_range_def)
qed

text \<open>The end of \<open>_get_bracketed_list\<close>: the buffer holds the text and its NUL, or is full.\<close>

lemma close_full:
  assumes "n \<le> l" "off + n \<le> length b"
  shows "\<exists>b'. (if br \<and> l < n \<and> l > 0 then x else if l \<ge> n
      then (if n > 0 then bwrite b (off + n - 1) [CHR 0x00] else Some b)
      else bwrite b (off + l) [CHR 0x00]) = Some b' \<and> length b' = length b \<and> take off b' = take off b"
proof (cases "n > 0")
  case True
  then have "off + n - 1 + length [CHR 0x00] \<le> length b" using assms(2) by simp
  from bwrite_at[OF this] obtain b' where "bwrite b (off + n - 1) [CHR 0x00] = Some b'" "length b' = length b"
    "\<forall>k\<le>off + n - 1. take k b' = take k b" by blast
  then show ?thesis using assms(1) True by auto
next
  case False
  then show ?thesis using assms(1) by auto
qed

definition item_at :: "hostrange list \<Rightarrow> nat \<Rightarrow> string" where
  "item_at rs i = item_text (first_item (rs ! i) (drop (Suc i) rs))"

lemma get_bracketed_plain:
  assumes rep: "hl_rep hl ps rs" and i: "i < hl_nranges hl" and len: "off + n \<le> length b"
    and br: "\<not> brackets (rs ! i) (drop (Suc i) rs)"
  shows "\<exists>j w b'. get_bracketed_list hl i n b off = Some (j, w, b') \<and> length b' = length b \<and>
    take off b' = take off b \<and>
    (if length (item_at rs i) < n
     then j = Suc i \<and> w = length (item_at rs i) \<and> take (off + w) b' = take off b @ item_at rs i
     else n \<le> w)"
proof -
  let ?r = "rs ! i" and ?p = "hr_prefix (rs ! i)"
  have g: "item_at rs i = ?p @ num_text ?r" using br by (simp add: item_at_def first_item_def)
  have brn: "is_bracket_needed hl i = Some False" using bracket_needed[OF rep i] br by simp
  from snprintf_ok[OF len, of ?p] obtain b1 where
    b1: "snprintf_at b off n ?p = Some b1" "length b1 = length b" "take off b1 = take off b"
      "length ?p < n \<longrightarrow> take (off + length ?p + 1) b1 = take off b @ ?p @ [CHR 0x00]" by blast
  show ?thesis
  proof (cases "length ?p > n")
    case True
    then have "get_bracketed_list hl i n b off = Some (i, n, b1)"
      using b1(1) brn rep_range_at[OF rep i] by (simp add: get_bracketed_list_def)
    then show ?thesis using True b1 g by (intro exI[of _ i] exI[of _ n] exI[of _ b1]) simp
  next
    case small: False
    have "off + length ?p + (n - length ?p) \<le> length b1" using small len b1(2) by simp
    from numstr_ok[OF this, of ?r] obtain w b2 where
      b2: "hostrange_numstr ?r (n - length ?p) b1 (off + length ?p) = Some (w, b2)" "length b2 = length b1"
        "take (off + length ?p) b2 = take (off + length ?p) b1"
        "if length (num_text ?r) < n - length ?p
         then w = length (num_text ?r) \<and> take (off + length ?p + w) b2 = take (off + length ?p) b1 @ num_text ?r
         else n - length ?p \<le> w" by blast
    have next_: "\<not> (Suc i < hl_nranges hl \<and> hostrange_within_range (Some (rs ! Suc i)) (Some ?r))"
    proof
      assume a: "Suc i < hl_nranges hl \<and> hostrange_within_range (Some (rs ! Suc i)) (Some ?r)"
      then have "drop (Suc i) rs = rs ! Suc i # drop (Suc (Suc i)) rs"
        using rep_length[OF rep] by (simp add: Cons_nth_drop_Suc)
      then show False using a br by (simp add: brackets_def)
    qed
    obtain k where k: "hl_nranges hl - i = Suc k" using i by (cases "hl_nranges hl - i") auto
    have loop: "bracketed_loop hl False n b1 off (length ?p) i (hl_nranges hl - i) =
        Some (if n \<le> length ?p + w then i else Suc i, length ?p + w, b2)"
      using next_ b2(1) rep_range_at[OF rep i] ref_at_rep[OF rep, of "Suc i"] unfolding k by auto
    have keep: "take off b2 = take off b" using take_shorter[OF b2(3), of off] b1(3) by simp
    show ?thesis
    proof (cases "n \<le> length ?p + w")
      case True
      obtain b3 where b3: "(if False \<and> length ?p + w < n \<and> length ?p + w > 0 then None
          else if length ?p + w \<ge> n
          then (if n > 0 then bwrite b2 (off + n - 1) [CHR 0x00] else Some b2)
          else bwrite b2 (off + (length ?p + w)) [CHR 0x00]) = Some b3" "length b3 = length b2"
          "take off b3 = take off b2"
        using close_full[OF True, of off b2 False None] len b1(2) b2(2) by auto
      have "get_bracketed_list hl i n b off = Some (i, length ?p + w, b3)"
        using b1(1) brn rep_range_at[OF rep i] small loop b3(1) True
        by (simp add: get_bracketed_list_def split: if_splits)
      moreover have "\<not> length (item_at rs i) < n" using True b2(4) g small by (auto split: if_splits)
      ultimately show ?thesis using True b3 b2(2) b1(2) keep
        by (intro exI[of _ i] exI[of _ "length ?p + w"] exI[of _ b3]) simp
    next
      case False
      then have w: "w = length (num_text ?r)"
        "take (off + length ?p + w) b2 = take (off + length ?p) b1 @ num_text ?r"
        using b2(4) by (auto split: if_splits)
      have "off + (length ?p + w) + length [CHR 0x00] \<le> length b2" using False len b1(2) b2(2) by simp
      from bwrite_at[OF this] obtain b3 where
        b3: "bwrite b2 (off + (length ?p + w)) [CHR 0x00] = Some b3" "length b3 = length b2"
          "\<forall>k\<le>off + (length ?p + w). take k b3 = take k b2" by blast
      have "get_bracketed_list hl i n b off = Some (Suc i, length ?p + w, b3)"
        using b1(1) brn rep_range_at[OF rep i] small loop b3(1) False
        by (simp add: get_bracketed_list_def)
      moreover have "take (off + length ?p) b1 = take off b @ ?p"
      proof -
        have "take (off + length ?p) (take (off + length ?p + 1) b1) = take off b @ ?p"
          using b1(4) False len by simp
        then show ?thesis by (simp add: min_def)
      qed
      ultimately show ?thesis
        using False b3(2,3) b2(2) b1(2) keep w g
        by (intro exI[of _ "Suc i"] exI[of _ "length ?p + w"] exI[of _ b3]) (simp add: add.assoc)
    qed
  qed
qed

lemma get_bracketed_group:
  assumes rep: "hl_rep hl ps rs" and i: "i < hl_nranges hl" and len: "off + n \<le> length b"
    and br: "brackets (rs ! i) (drop (Suc i) rs)"
  shows "\<exists>j w b'. get_bracketed_list hl i n b off = Some (j, w, b') \<and> length b' = length b \<and>
    take off b' = take off b \<and>
    (if length (item_at rs i) < n
     then j = i + Suc (more (rs ! i) (drop (Suc i) rs)) \<and> w = length (item_at rs i) \<and>
          take (off + w) b' = take off b @ item_at rs i
     else n \<le> w)"
proof -
  let ?r = "rs ! i" and ?p = "hr_prefix (rs ! i)"
  define g where "g = ?r # take (more ?r (drop (Suc i) rs)) (drop (Suc i) rs)"
  have it: "item_at rs i = ?p @ ''['' @ butlast (group_text g) @ '']''"
    "length (item_at rs i) = length ?p + 1 + length (group_text g)"
    using bracket_text[OF br g_def] by (simp_all add: item_at_def)
  have lg: "length g = Suc (more ?r (drop (Suc i) rs))" using more_le[of ?r "drop (Suc i) rs"] by (simp add: g_def)
  have gt: "0 < length (group_text g)" by (simp add: g_def group_text_def)
  have brn: "is_bracket_needed hl i = Some True" using bracket_needed[OF rep i] br by simp
  from snprintf_ok[OF len, of ?p] obtain b1 where
    b1: "snprintf_at b off n ?p = Some b1" "length b1 = length b" "take off b1 = take off b"
      "length ?p < n \<longrightarrow> take (off + length ?p + 1) b1 = take off b @ ?p @ [CHR 0x00]" by blast
  show ?thesis
  proof (cases "length ?p < n")
    case big: False
    show ?thesis
    proof (cases "length ?p > n")
      case True
      then have "get_bracketed_list hl i n b off = Some (i, n, b1)"
        using b1(1) brn rep_range_at[OF rep i] by (simp add: get_bracketed_list_def)
      then show ?thesis using True b1 it(2) by (intro exI[of _ i] exI[of _ n] exI[of _ b1]) simp
    next
      case False
      then have n: "length ?p = n" using big by simp
      have "i + (hl_nranges hl - i) = hl_nranges hl" "0 < hl_nranges hl - i" "n \<le> n" "off + n \<le> length b1"
        using i len b1(2) by auto
      from bracketed_loop_ok[OF rep this] obtain j l b3 where
        l: "bracketed_loop hl True n b1 off n i (hl_nranges hl - i) = Some (j, l, b3)" "length b3 = length b1"
          "take (off + n) b3 = take (off + n) b1" "n \<le> l"
        unfolding g_def[symmetric] Let_def using gt by auto
      obtain b4 where b4: "(if True \<and> l < n \<and> l > 0 then None else if l \<ge> n
          then (if n > 0 then bwrite b3 (off + n - 1) [CHR 0x00] else Some b3)
          else bwrite b3 (off + l) [CHR 0x00]) = Some b4" "length b4 = length b3" "take off b4 = take off b3"
        using close_full[OF l(4), of off b3 True None] len b1(2) l(2) by auto
      have "get_bracketed_list hl i n b off = Some (j, l, b4)"
        using b1(1) brn rep_range_at[OF rep i] n l(1,4) b4(1)
        by (simp add: get_bracketed_list_def split: if_splits)
      then show ?thesis
        using b4(2,3) l b1(2,3) it(2) n take_shorter[OF l(3), of off]
        by (intro exI[of _ j] exI[of _ l] exI[of _ b4]) simp
    qed
  next
    case small: True
    have "off + length ?p + length [CHR ''[''] \<le> length b1" using small len b1(2) by simp
    from bwrite_at[OF this] obtain b2 where
      b2: "bwrite b1 (off + length ?p) [CHR ''[''] = Some b2" "length b2 = length b1"
        "take (off + length ?p + 1) b2 = take (off + length ?p) b1 @ ''[''"
        "\<forall>k\<le>off + length ?p. take k b2 = take k b1" by auto
    have p1: "take (off + length ?p) b1 = take off b @ ?p"
    proof -
      have "take (off + length ?p) (take (off + length ?p + 1) b1) = take off b @ ?p"
        using b1(4) small len by simp
      then show ?thesis by (simp add: min_def)
    qed
    have "i + (hl_nranges hl - i) = hl_nranges hl" "0 < hl_nranges hl - i" "length ?p + 1 \<le> n" "off + n \<le> length b2"
      using i len b1(2) b2(2) small by auto
    from bracketed_loop_ok[OF rep this] obtain j l b3 where
      l: "bracketed_loop hl True n b2 off (length ?p + 1) i (hl_nranges hl - i) = Some (j, l, b3)"
        "length b3 = length b2" "take (off + (length ?p + 1)) b3 = take (off + (length ?p + 1)) b2"
        "if length ?p + 1 + length (group_text g) \<le> n
         then j = i + length g \<and> l = length ?p + 1 + length (group_text g) \<and>
              take (off + l) b3 = take (off + (length ?p + 1)) b2 @ group_text g
         else n \<le> l"
      unfolding g_def[symmetric] Let_def by blast
    have keep: "take off b3 = take off b" using take_shorter[OF l(3), of off] b2(4) b1(3) by simp
    show ?thesis
    proof (cases "n \<le> l")
      case True
      obtain b4 where b4: "(if True \<and> l < n \<and> l > 0 then None else if l \<ge> n
          then (if n > 0 then bwrite b3 (off + n - 1) [CHR 0x00] else Some b3)
          else bwrite b3 (off + l) [CHR 0x00]) = Some b4" "length b4 = length b3" "take off b4 = take off b3"
        using close_full[OF True, of off b3 True None] len b1(2) b2(2) l(2) by auto
      have "get_bracketed_list hl i n b off = Some (j, l, b4)"
        using b1(1) b2(1) brn rep_range_at[OF rep i] small l(1) True b4(1)
        by (simp add: get_bracketed_list_def split: if_splits)
      moreover have "\<not> length (item_at rs i) < n" using True l(4) it(2) by (auto split: if_splits)
      ultimately show ?thesis using True b4 l(2) b2(2) b1(2) keep
        by (intro exI[of _ j] exI[of _ l] exI[of _ b4]) simp
    next
      case False
      then have f: "j = i + length g" "l = length ?p + 1 + length (group_text g)"
        "take (off + l) b3 = take (off + (length ?p + 1)) b2 @ group_text g"
        using l(4) by (auto split: if_splits)
      have "off + l - 1 + length [CHR '']''] \<le> length b3" using False len b1(2) b2(2) l(2) f(2) by simp
      from bwrite_at[OF this] obtain b4 where
        b4: "bwrite b3 (off + l - 1) [CHR '']''] = Some b4" "length b4 = length b3"
          "take (off + l - 1 + 1) b4 = take (off + l - 1) b3 @ '']''"
          "\<forall>k\<le>off + l - 1. take k b4 = take k b3" by auto
      have "off + l + length [CHR 0x00] \<le> length b4" using False len b1(2) b2(2) l(2) b4(2) by simp
      from bwrite_at[OF this] obtain b5 where
        b5: "bwrite b4 (off + l) [CHR 0x00] = Some b5" "length b5 = length b4"
          "\<forall>k\<le>off + l. take k b5 = take k b4" by blast
      have run: "get_bracketed_list hl i n b off = Some (j, l, b5)"
        using b1(1) b2(1) brn rep_range_at[OF rep i] small l(1) False b4(1) b5(1) f(2)
        by (simp add: get_bracketed_list_def)
      have "take (off + l - 1) b3 = butlast (take (off + l) b3)"
        using False len b1(2) b2(2) l(2) by (simp add: butlast_take)
      also have "\<dots> = take off b @ ?p @ ''['' @ butlast (group_text g)"
        using f(3) gt b2(3) p1 by (simp add: butlast_append)
      finally have "take (off + l) b5 = take off b @ item_at rs i"
        using b5(3) b4(3) f(2) it(1) by simp
      moreover have "take off b5 = take off b" using b5(3) b4(4) keep f(2) by simp
      ultimately show ?thesis
        using run False b5(2) b4(2) l(2) b2(2) b1(2) f lg it(2)
        by (intro exI[of _ j] exI[of _ l] exI[of _ b5]) simp
    qed
  qed
qed

lemma get_bracketed_ok:
  assumes "hl_rep hl ps rs" "i < hl_nranges hl" "off + n \<le> length b"
  shows "\<exists>j w b'. get_bracketed_list hl i n b off = Some (j, w, b') \<and> length b' = length b \<and>
    take off b' = take off b \<and>
    (if length (item_at rs i) < n
     then j = i + Suc (more (rs ! i) (drop (Suc i) rs)) \<and> w = length (item_at rs i) \<and>
          take (off + w) b' = take off b @ item_at rs i
     else n \<le> w)"
proof (cases "brackets (rs ! i) (drop (Suc i) rs)")
  case False
  then have "more (rs ! i) (drop (Suc i) rs) = 0" by (simp add: brackets_def)
  then have j: "i + Suc (more (rs ! i) (drop (Suc i) rs)) = Suc i" by simp
  show ?thesis unfolding j by (rule get_bracketed_plain[OF assms False])
qed (rule get_bracketed_group[OF assms])

section \<open>The whole list\<close>

lemma items_at:
  assumes "i < length rs"
  shows "items (drop i rs) = first_item (rs ! i) (drop (Suc i) rs) #
    items (drop (i + Suc (more (rs ! i) (drop (Suc i) rs))) rs)"
  using assms by (simp add: Cons_nth_drop_Suc[symmetric] add.commute)

lemma hl_text_at:
  assumes "i < length rs"
  shows "hl_text (drop i rs) = (let j = i + Suc (more (rs ! i) (drop (Suc i) rs)) in
    item_at rs i @ (if j < length rs then '','' @ hl_text (drop j rs) else []))"
proof -
  let ?j = "i + Suc (more (rs ! i) (drop (Suc i) rs))"
  show ?thesis
  proof (cases "?j < length rs")
    case True
    then obtain x xs where "items (drop ?j rs) = x # xs" using items_at by blast
    then show ?thesis unfolding hl_text_def items_at[OF assms] item_at_def Let_def using True by simp
  next
    case False
    then show ?thesis unfolding hl_text_def items_at[OF assms] item_at_def Let_def by simp
  qed
qed

lemma ranged_loop_full: "n \<le> len \<Longrightarrow> ranged_loop hl n b len i k = Some (len, b)"
  by (cases k) auto

lemma range_text_ne: "range_text t \<noteq> []"
  by (rule range_text_not(6))

definition printable :: "hostrange \<Rightarrow> bool" where
  "printable r \<longleftrightarrow> \<not> (hr_single r \<and> hr_prefix r = [])"

lemma item_at_ne:
  assumes "printable (rs ! i)"
  shows "item_at rs i \<noteq> []"
  using assms range_text_ne by (auto simp: item_at_def first_item_def printable_def num_text_def)

lemma ranged_loop_ok:
  assumes rep: "hl_rep hl ps rs" and pr: "\<forall>r\<in>set rs. printable r"
  shows "i \<le> hl_nranges hl \<Longrightarrow> hl_nranges hl - i < k \<Longrightarrow> n \<le> length b \<Longrightarrow>
    \<exists>l b'. ranged_loop hl n b len i k = Some (l, b') \<and> length b' = length b \<and>
      (if len + length (hl_text (drop i rs)) < n
       then l = len + length (hl_text (drop i rs)) \<and> take l b' = take len b @ hl_text (drop i rs)
       else n \<le> l)"
proof (induction k arbitrary: i len b)
  case (Suc k)
  have lr: "length rs = hl_nranges hl" using rep_length[OF rep] by simp
  show ?case
  proof (cases "n \<le> len")
    case True
    then show ?thesis using ranged_loop_full[OF True, of hl b i "Suc k"] by simp
  next
    case small: False
    show ?thesis
    proof (cases "i < hl_nranges hl")
      case False
      then show ?thesis using small lr by (simp add: hl_text_def)
    next
      case i: True
      define j where "j = i + Suc (more (rs ! i) (drop (Suc i) rs))"
      have j: "j \<le> hl_nranges hl" "i < j" using more_le[of "rs ! i" "drop (Suc i) rs"] i lr by (auto simp: j_def)
      have tx: "hl_text (drop i rs) = item_at rs i @ (if j < length rs then '','' @ hl_text (drop j rs) else [])"
        using hl_text_at[of i rs] i lr by (simp add: j_def Let_def)
      have ne: "0 < length (item_at rs i)" using item_at_ne[of rs i] pr i lr by simp
      have "len + (n - len) \<le> length b" using small Suc.prems by simp
      from get_bracketed_ok[OF rep i this] obtain j1 w b1 where
        g: "get_bracketed_list hl i (n - len) b len = Some (j1, w, b1)" "length b1 = length b"
          "if length (item_at rs i) < n - len
           then j1 = j \<and> w = length (item_at rs i) \<and> take (len + w) b1 = take len b @ item_at rs i
           else n - len \<le> w" unfolding j_def[symmetric] by blast
      show ?thesis
      proof (cases "length (item_at rs i) < n - len")
        case False
        then have "n \<le> len + w" "\<not> len + length (hl_text (drop i rs)) < n" using g(3) tx by auto
        then show ?thesis
          using g(1,2) i small ranged_loop_full[of n "len + w" hl b1 j1 k]
          by (intro exI[of _ "len + w"] exI[of _ b1]) simp
      next
        case True
        then have w: "j1 = j" "w = length (item_at rs i)" "take (len + w) b1 = take len b @ item_at rs i"
          using g(3) by auto
        show ?thesis
        proof (cases "j < hl_nranges hl")
          case last: False
          then have e: "j = hl_nranges hl" using j by simp
          have "ranged_loop hl n b1 (len + w) j k = Some (len + w, b1)" unfolding e by (cases k) auto
          then show ?thesis
            using g(1,2) i small w True last tx lr by (intro exI[of _ "len + w"] exI[of _ b1]) simp
        next
          case go: True
          have "len + w + length [CHR '',''] \<le> length b1" using True w(2) g(2) Suc.prems(3) by simp
          from bwrite_at[OF this] obtain b2 where
            b2: "bwrite b1 (len + w) [CHR '',''] = Some b2" "length b2 = length b1"
              "take (len + w + 1) b2 = take (len + w) b1 @ '',''" by auto
          have "hl_nranges hl - j < k" "n \<le> length b2" using Suc.prems j i b2(2) g(2) by auto
          from Suc.IH[OF j(1) this, of "len + w + 1"] obtain l b3 where
            r: "ranged_loop hl n b2 (len + w + 1) j k = Some (l, b3)" "length b3 = length b2"
              "if len + w + 1 + length (hl_text (drop j rs)) < n
               then l = len + w + 1 + length (hl_text (drop j rs)) \<and>
                    take l b3 = take (len + w + 1) b2 @ hl_text (drop j rs)
               else n \<le> l" by blast
          have "ranged_loop hl n b len i (Suc k) = Some (l, b3)"
            using g(1) i small w(1) less_diff_conv[of w n len] w(2) True ne go b2(1) r(1)
            by (simp add: add.commute)
          moreover have e: "len + length (hl_text (drop i rs)) = len + w + 1 + length (hl_text (drop j rs))"
            using tx go lr w(2) by simp
          have t: "take len b @ hl_text (drop i rs) = take (len + w + 1) b2 @ hl_text (drop j rs)"
            using tx go lr w(3) b2(3) by simp
          have "if len + length (hl_text (drop i rs)) < n
            then l = len + length (hl_text (drop i rs)) \<and> take l b3 = take len b @ hl_text (drop i rs)
            else n \<le> l" unfolding e t by (rule r(3))
          moreover have "length b3 = length b" using r(2) b2(2) g(2) by simp
          ultimately show ?thesis by blast
        qed
      qed
    qed
  qed
qed simp

text \<open>What \<open>hostlist_ranged_string\<close> returns and leaves in a buffer of \<open>n\<close> characters or more.\<close>

lemma ranged_string_result:
  assumes rep: "hl_rep hl ps rs" and pr: "\<forall>r\<in>set rs. printable r" and n: "0 < n" "n \<le> length b"
  shows "\<exists>ret b'. hostlist_ranged_string hl n b = Some (ret, b') \<and> length b' = length b \<and>
    (if length (hl_text rs) < n
     then ret = int (length (hl_text rs)) \<and> take (length (hl_text rs) + 1) b' = hl_text rs @ [CHR 0x00]
     else ret = - 1 \<and> b' ! (n - 1) = CHR 0x00)"
proof -
  obtain l b1 where r: "ranged_loop hl n b 0 0 (hl_nranges hl + 1) = Some (l, b1)" "length b1 = length b"
    "if length (hl_text rs) < n then l = length (hl_text rs) \<and> take l b1 = hl_text rs else n \<le> l"
    using ranged_loop_ok[OF rep pr, of 0 "hl_nranges hl + 1" n b 0] n
    unfolding drop_0 take_0 add_0 append_Nil by (metis diff_zero less_add_one zero_le)
  show ?thesis
  proof (cases "length (hl_text rs) < n")
    case True
    then have l: "l = length (hl_text rs)" "take l b1 = hl_text rs" using r(3) by auto
    have "l + length [CHR 0x00] \<le> length b1" using True l(1) n r(2) by simp
    from bwrite_at[OF this] obtain b2 where
      "bwrite b1 l [CHR 0x00] = Some b2" "length b2 = length b1" "take (l + 1) b2 = take l b1 @ [CHR 0x00]"
      by auto
    then show ?thesis using True r l by (simp add: hostlist_ranged_string_def)
  next
    case False
    then have l: "n \<le> l" using r(3) by simp
    have "n - 1 + length [CHR 0x00] \<le> length b1" using n r(2) by simp
    from bwrite_at[OF this] obtain b2 where
      b2: "bwrite b1 (n - 1) [CHR 0x00] = Some b2" "length b2 = length b1"
        "take (n - 1 + 1) b2 = take (n - 1) b1 @ [CHR 0x00]" by auto
    have "b2 ! (n - 1) = take (n - 1 + 1) b2 ! (n - 1)" by simp
    also have "\<dots> = CHR 0x00" unfolding b2(3) using n r(2) by (simp add: nth_append)
    finally show ?thesis using False r l b2 n by (simp add: hostlist_ranged_string_def)
  qed
qed

section \<open>Printing and parsing\<close>

text \<open>The items name the hosts of the ranges.\<close>

lemma range_names_eq: "\<not> hr_single r \<Longrightarrow> range_names (hr_prefix r) (triple r) = hr_hosts r"
  by (simp add: hr_hosts_def triple_def)

lemma single_names:
  assumes "hr_ok r" "\<not> hostrange_count r > 1"
  shows "hr_hosts r = [hr_prefix r @ num_text r]"
proof (cases "hr_single r")
  case False
  have "length (hr_hosts r) \<le> 1"
    using assms(2) unat_count(1)[OF assms(1)] by (simp add: word_less_nat_alt)
  moreover have "unat (hr_lo r) \<le> unat (hr_hi r)" using assms(1) by (simp add: hr_ok_def word_le_nat_alt)
  ultimately have "unat (hr_hi r) = unat (hr_lo r)" using False by (simp add: hr_hosts_def)
  then show ?thesis using False by (simp add: hr_hosts_def num_text_def triple_def)
qed (simp add: hr_hosts_def num_text_def)

lemma more_names:
  assumes "\<not> hr_single r"
  shows "concat (map (range_names (hr_prefix r)) (map triple (take (more r ss) ss))) = names (take (more r ss) ss)"
  using assms
proof (induction r ss rule: more.induct)
  case (2 r s ss)
  show ?case
  proof (cases "hostrange_within_range (Some s) (Some r)")
    case True
    then have s: "hr_prefix s = hr_prefix r" "\<not> hr_single s"
      using within_multi[OF True] by (auto simp: hostrange_within_range_def prefix_cmp_0 split: if_splits)
    then show ?thesis using True 2 range_names_eq[OF s(2)] by (simp add: names_def)
  qed (simp add: names_def)
qed (simp add: names_def)

lemma first_item_names:
  assumes "hr_ok r"
  shows "item_names (first_item r ss) = names (r # take (more r ss) ss)"
proof (cases "brackets r ss")
  case True
  then show ?thesis
    using more_names[OF brackets_single[OF True], of ss] range_names_eq[OF brackets_single[OF True]]
    by (simp add: first_item_def names_def)
next
  case False
  then show ?thesis using single_names[OF assms] by (simp add: first_item_def names_def brackets_def)
qed

lemma items_names:
  assumes "\<forall>r\<in>set rs. hr_ok r"
  shows "concat (map item_names (items rs)) = names rs"
  using assms
proof (induction rs rule: items.induct)
  case (2 r ss)
  have "\<forall>s\<in>set (drop (more r ss) ss). hr_ok s" using 2(2) by (auto dest: in_set_dropD)
  then have "concat (map item_names (items (drop (more r ss) ss))) = names (drop (more r ss) ss)" by (rule 2(1))
  then have "concat (map item_names (items (r # ss))) = hr_hosts r @ names (take (more r ss) ss) @ names (drop (more r ss) ss)"
    using first_item_names[of r ss] 2(2) by (simp add: names_def)
  also have "names (take (more r ss) ss) @ names (drop (more r ss) ss) = names ss"
    unfolding names_def by (simp flip: concat_append map_append)
  finally show ?case by (simp add: names_def)
qed (simp add: names_def)

text \<open>The ranges whose text the parser reads back.\<close>

definition clean :: "hostrange \<Rightarrow> bool" where
  "clean r \<longleftrightarrow> printable r \<and> set (hr_prefix r) \<inter> set (CHR 0x00 # host_seps @ ''[]'') = {} \<and>
    (\<forall>h\<in>set (hr_hosts r). length h < 1024) \<and> unat (hr_hi r) < unat (hr_lo r) + 16384"

lemma clean_range: "hr_ok r \<Longrightarrow> clean r \<Longrightarrow> range_valid (triple r)"
  by (auto simp: hr_ok_def clean_def triple_def word_le_nat_alt)

lemma first_item_valid:
  assumes "hr_ok r" "clean r" "\<forall>s\<in>set ss. hr_ok s \<and> clean s" "length ss < 10240"
  shows "item_valid (first_item r ss)"
proof (cases "brackets r ss")
  case True
  let ?g = "r # take (more r ss) ss"
  have "\<forall>s\<in>set ?g. range_valid (triple s)" using assms clean_range by (auto dest: in_set_takeD)
  moreover have "length ?g \<le> 10240" using assms(4) by simp
  moreover have "set (hr_prefix r) \<inter> set host_seps = {}" "CHR ''['' \<notin> set (hr_prefix r)" "CHR '']'' \<notin> set (hr_prefix r)"
    using assms(2) by (auto simp: clean_def)
  ultimately show ?thesis using True by (simp add: first_item_def)
next
  case False
  let ?s = "hr_prefix r @ num_text r"
  have h: "hr_hosts r = [?s]" using False single_names[OF assms(1)] by (simp add: brackets_def)
  have "?s \<noteq> []" using assms(2) range_text_ne by (auto simp: clean_def printable_def num_text_def)
  moreover have "length ?s < 1024" using assms(2) h by (simp add: clean_def)
  moreover have "set (num_text r) \<inter> set host_seps = {}" "CHR ''['' \<notin> set (num_text r)"
    using range_text_not[of "triple r"] by (auto simp: num_text_def)
  moreover have "set (hr_prefix r) \<inter> set host_seps = {}" "CHR ''['' \<notin> set (hr_prefix r)"
    using assms(2) by (auto simp: clean_def)
  ultimately show ?thesis using False by (simp add: first_item_def Int_Un_distrib2)
qed

lemma items_valid:
  assumes "\<forall>r\<in>set rs. hr_ok r \<and> clean r" "length rs \<le> 10240"
  shows "\<forall>it\<in>set (items rs). item_valid it"
  using assms
proof (induction rs rule: items.induct)
  case (2 r ss)
  have "item_valid (first_item r ss)" using first_item_valid[of r ss] 2(2,3) by simp
  moreover have "\<forall>s\<in>set (drop (more r ss) ss). hr_ok s \<and> clean s" using 2(2) by (auto dest: in_set_dropD)
  then have "\<forall>it\<in>set (items (drop (more r ss) ss)). item_valid it" using 2(1,3) by simp
  ultimately show ?case by simp
qed simp

lemma print_parse:
  assumes "hl_ok hl" "\<forall>r\<in>set (hl_ranges hl). clean r" "hl_nranges hl \<le> 10240"
  shows "\<exists>hl'. hostlist_create (Some (hl_text (hl_ranges hl))) = Some (Some hl') \<and> hl_ok hl' \<and>
    hl_hosts hl' = hl_hosts hl"
proof -
  obtain ps where rep: "hl_rep hl ps (hl_ranges hl)" and ok: "\<forall>r\<in>set (hl_ranges hl). hr_ok r"
    and small: "length (hl_hosts hl) < 2 ^ 31" using assms(1) by (auto simp: hl_ok_def)
  have n: "concat (map item_names (items (hl_ranges hl))) = hl_hosts hl"
    using items_names[OF ok] by (simp add: hl_hosts_def)
  have "\<forall>it\<in>set (items (hl_ranges hl)). item_valid it"
    by (rule items_valid) (use ok assms(2,3) rep_length[OF rep] in auto)
  from create_result[OF this] n small show ?thesis by (simp add: hl_text_def)
qed

lemma set_commas: "set (commas xs) \<subseteq> insert (CHR '','') (\<Union>x\<in>set xs. set x)"
  by (induction xs rule: commas.induct) auto

lemma range_text_nul: "CHR 0x00 \<notin> set (range_text t)"
proof -
  have "\<not> isdigit (CHR 0x00)" by (simp add: isdigit_def)
  then have "CHR 0x00 \<notin> set (pad w n)" for w n using pad_digits by blast
  then show ?thesis by (cases t) simp
qed

lemma commas_nul: "\<forall>x\<in>set xs. CHR 0x00 \<notin> set x \<Longrightarrow> CHR 0x00 \<notin> set (commas xs)"
  using set_commas[of xs] by auto

lemma hl_text_nul:
  assumes "\<forall>r\<in>set rs. CHR 0x00 \<notin> set (hr_prefix r)"
  shows "CHR 0x00 \<notin> set (hl_text rs)"
proof -
  have "CHR 0x00 \<notin> set (item_text (first_item r ss))" if "CHR 0x00 \<notin> set (hr_prefix r)" for r ss
  proof -
    have "CHR 0x00 \<notin> set (commas (map range_text (map triple (r # take (more r ss) ss))))"
      by (rule commas_nul) (use range_text_nul in auto)
    then show ?thesis
      using that range_text_nul[of "triple r"] by (auto simp: first_item_def num_text_def)
  qed
  then have "\<forall>x\<in>set (items rs). CHR 0x00 \<notin> set (item_text x)"
    using assms by (induction rs rule: items.induct) (auto dest: in_set_dropD)
  then show ?thesis unfolding hl_text_def by (intro commas_nul) auto
qed

lemma clean_printable: "clean r \<Longrightarrow> printable r \<and> CHR 0x00 \<notin> set (hr_prefix r)"
  by (auto simp: clean_def)

end
