(* ===== verification/HostTextProps.thy ===== *)
theory HostTextProps
  imports HostProps HostlistIter HostsetLaws HostlistPrint
begin

text \<open>
  The properties of host lists as text, as sets and under iteration: the parser, the printer and
  its bounds, \<open>hostlist_uniq\<close>, \<open>hostset_find_host\<close> and \<open>hostset_within\<close>, \<open>hostlist_next\<close>.
\<close>

section \<open>Text\<close>

text \<open>
  C7: \<open>hostlist_create\<close> of a comma-separated list of names and bracketed groups
  (\<open>prefix[1-3,007]\<close>) succeeds, and the list holds exactly the names the items stand for, in
  order, leading zeros kept.
\<close>

theorem hostlist_create_names:
  assumes "\<forall>it\<in>set its. item_valid it" "length (concat (map item_names its)) < 2 ^ 31"
  shows "\<exists>hl. hostlist_create (Some (commas (map item_text its))) = Some (Some hl) \<and> hl_ok hl \<and>
    hl_hosts hl = concat (map item_names its)"
  by (rule create_result[OF assms])

theorem hostlist_create_names_witness:
  "\<exists>hl. hostlist_create (Some ''n[08-10,3],login,io7'') = Some (Some hl) \<and>
     hl_hosts hl = [''n08'', ''n09'', ''n10'', ''n3'', ''login'', ''io7'']"
proof -
  let ?its = "[Group ''n'' [(2, 8, 10), (1, 3, 3)], Name ''login'', Name ''io7'']"
  have t: "commas (map item_text ?its) = ''n[08-10,3],login,io7''"
    and n: "concat (map item_names ?its) = [''n08'', ''n09'', ''n10'', ''n3'', ''login'', ''io7'']"
    by code_simp+
  have "\<forall>it\<in>set ?its. item_valid it" by simp
  from hostlist_create_names[OF this] show ?thesis unfolding t n by auto
qed

text \<open>
  C28: \<open>hostlist_ranged_string\<close> never writes outside a buffer of \<open>n\<close> characters.  When the text of
  the list and its NUL fit it writes them and returns the length of the text; otherwise it
  returns -1 and ends the buffer with a NUL.
\<close>

theorem hostlist_ranged_string_bounds:
  assumes "hl_ok hl" "\<forall>r\<in>set (hl_ranges hl). printable r" "0 < n" "n \<le> length b"
  shows "\<exists>ret b'. hostlist_ranged_string hl n b = Some (ret, b') \<and> length b' = length b \<and>
    (let t = hl_text (hl_ranges hl) in
     if length t < n then ret = int (length t) \<and> take (length t + 1) b' = t @ [CHR 0x00]
     else ret = - 1 \<and> b' ! (n - 1) = CHR 0x00)"
proof -
  obtain ps where rep: "hl_rep hl ps (hl_ranges hl)" using assms(1) by (auto simp: hl_ok_def)
  show ?thesis unfolding Let_def by (rule ranged_string_result[OF rep assms(2-4)])
qed

lemma demo_list: "hl_ranges demo = [hostrange_create ''f'' 1 2 1, hostrange_create_single ''g'']"
  by code_simp

lemma demo_ranges: "\<forall>r\<in>set (hl_ranges demo). clean r" "hl_text (hl_ranges demo) = ''f[1-2],g''"
  "hl_nranges demo = 2" "\<forall>r\<in>set (hl_ranges demo). narrow r" "hl_size demo = 16"
  "\<forall>r\<in>set (hl_ranges demo). canonical r" "uniform (hl_ranges demo)"
  subgoal
    by (simp add: demo_list clean_def printable_def hr_hosts_def hostrange_create_def
        hostrange_create_single_def upt_rec length_pad dec_small)
  subgoal by code_simp
  subgoal by code_simp
  subgoal by code_simp
  subgoal by code_simp
  subgoal by code_simp
  subgoal by code_simp
  done

theorem hostlist_ranged_string_bounds_witness:
  "\<exists>b'. hostlist_ranged_string demo 9 ''..........'' = Some (8, b') \<and> take 9 b' = ''f[1-2],g'' @ [CHR 0x00]"
  using hostlist_ranged_string_bounds[OF demo_facts(1), of 9 "''..........''"] demo_ranges(1) clean_printable
  by (auto simp: demo_ranges(2) eval_nat_numeral)



section \<open>Iteration\<close>

text \<open>
  C29: when its array has room for one more range and the numbers of its names have at most 14
  digits, padding included, a new iterator of a list gives every name of the list once, in order,
  and then NULL: the loop \<open>while ((h = hostlist_next (i)))\<close> ends.  (With a full array, as for exactly
  16 ranges, the code reads behind it, and longer numbers are cut by its suffix buffer.)
\<close>

theorem hostlist_iteration_complete:
  assumes "hl_ok hl" "\<forall>r\<in>set (hl_ranges hl). narrow r" "hl_nranges hl < hl_size hl"
  shows "\<exists>a hl1 hl2. hostlist_iterator_create hl = Some (a, hl1) \<and>
    walk hl1 a = Some (hl_hosts hl, hl2) \<and> hl_ok hl2 \<and> hl_hosts hl2 = hl_hosts hl"
proof -
  obtain ps where rep: "hl_rep hl ps (hl_ranges hl)" using assms(1) by (auto simp: hl_ok_def)
  obtain a hl1 where c: "hostlist_iterator_create hl = Some (a, hl1)"
    using repD(6,7)[OF rep] by (auto simp: hostlist_iterator_create_def slot_def)
  with iterate_result[OF assms c] show ?thesis by blast
qed

theorem hostlist_iteration_complete_witness:
  "\<exists>a hl1 hl2. hostlist_iterator_create demo = Some (a, hl1) \<and>
     walk hl1 a = Some ([''f1'', ''f2'', ''g''], hl2)"
  using hostlist_iteration_complete[OF demo_facts(1) demo_ranges(4)]
  by (auto simp: demo_ranges(3,5) demo_facts(2))

section \<open>Sets\<close>

text \<open>
  C30: \<open>hostlist_uniq\<close> neither loses nor invents a name and never makes the list longer.  Each name
  is left once when every range is split the way the parser splits a single name (no prefix of
  numbers ends in a digit, no number is above the largest suffix, a host without a number has no
  suffix that could be one) and names with the same prefix are written with the same width;
  otherwise a name may stay twice.
\<close>

theorem hostlist_uniq_keeps:
  assumes "hl_ok hl"
  shows "\<exists>hl'. hostlist_uniq hl = Some hl' \<and> hl_ok hl' \<and> set (hl_hosts hl') = set (hl_hosts hl) \<and>
    length (hl_hosts hl') \<le> length (hl_hosts hl) \<and>
    ((\<forall>r\<in>set (hl_ranges hl). canonical r) \<and> uniform (hl_ranges hl) \<longrightarrow> distinct (hl_hosts hl'))"
  using uniq_result[OF assms] by blast

definition twice :: hostlist where
  "twice = fst (snd (the (hostlist_push_list demo demo)))"

lemma twice_facts: "hl_ok twice" "hl_hosts twice = [''f1'', ''f2'', ''g'', ''f1'', ''f2'', ''g'']"
  "\<forall>r\<in>set (hl_ranges twice). canonical r" "uniform (hl_ranges twice)"
proof -
  show "hl_ok twice" "hl_hosts twice = [''f1'', ''f2'', ''g'', ''f1'', ''f2'', ''g'']"
    using push_list_result[OF demo_facts(1,1)] by (auto simp: demo_facts(2) twice_def)
  show "\<forall>r\<in>set (hl_ranges twice). canonical r" "uniform (hl_ranges twice)" by code_simp+
qed

theorem hostlist_uniq_keeps_witness:
  "\<exists>hl'. hostlist_uniq twice = Some hl' \<and> set (hl_hosts hl') = {''f1'', ''f2'', ''g''} \<and> distinct (hl_hosts hl')"
  using hostlist_uniq_keeps[OF twice_facts(1)] twice_facts(3,4) by (auto simp: twice_facts(2))

text \<open>
  C31: on a set whose ranges are findable, that is, no prefix of numbers ends in a digit and no
  number is above the largest suffix, \<open>hostset_find_host\<close> decides membership, and \<open>hostset_within\<close>
  decides whether every host of a host list text is in the set; both keep the names of the set.
  (In other ranges names are missed, as \<open>f12\<close> in \<open>f1[2-3]\<close>.)
\<close>

theorem hostset_membership:
  assumes "hl_ok (hs_hl set0)" "\<forall>r\<in>set (hl_ranges (hs_hl set0)). findable r"
    and "\<forall>it\<in>set its. item_valid it" "length (concat (map item_names its)) < 2 ^ 31"
  shows "(\<exists>set1. hostset_find_host set0 s = Some (s \<in> set (hl_hosts (hs_hl set0)), set1) \<and>
      hl_hosts (hs_hl set1) = hl_hosts (hs_hl set0)) \<and>
    (\<exists>set1. hostset_within set0 (Some (commas (map item_text its))) =
        Some (set (concat (map item_names its)) \<subseteq> set (hl_hosts (hs_hl set0)), set1) \<and>
      hl_hosts (hs_hl set1) = hl_hosts (hs_hl set0))"
proof
  show "\<exists>set1. hostset_find_host set0 s = Some (s \<in> set (hl_hosts (hs_hl set0)), set1) \<and>
      hl_hosts (hs_hl set1) = hl_hosts (hs_hl set0)"
    using find_host_result[OF assms(1), of s] assms(2) by blast
  from create_result[OF assms(3,4)] obtain h where
    h: "hostlist_create (Some (commas (map item_text its))) = Some (Some h)" "hl_ok h"
      "hl_hosts h = concat (map item_names its)" by blast
  from within_result[OF assms(1,2) h(1,2)] show "\<exists>set1. hostset_within set0 (Some (commas (map item_text its))) =
        Some (set (concat (map item_names its)) \<subseteq> set (hl_hosts (hs_hl set0)), set1) \<and>
      hl_hosts (hs_hl set1) = hl_hosts (hs_hl set0)" unfolding h(3) by blast
qed

theorem hostset_membership_witness:
  "(\<exists>set1. hostset_find_host \<lparr>hs_hl = demo\<rparr> ''f2'' = Some (True, set1)) \<and>
   (\<exists>set1. hostset_within \<lparr>hs_hl = demo\<rparr> (Some ''f[2-3]'') = Some (False, set1))"
proof -
  have t: "commas (map item_text [Group ''f'' [(1, 2, 3)]]) = ''f[2-3]''"
    and n: "concat (map item_names [Group ''f'' [(1, 2, 3)]]) = [''f2'', ''f3'']" by code_simp+
  have "hl_ok (hs_hl \<lparr>hs_hl = demo\<rparr>)" "\<forall>r\<in>set (hl_ranges (hs_hl \<lparr>hs_hl = demo\<rparr>)). findable r"
    using demo_facts(1) demo_findable by simp_all
  from hostset_membership[OF this, of "[Group ''f'' [(1, 2, 3)]]" "''f2''"]
  show ?thesis unfolding t n by (simp add: demo_facts(2)) blast
qed

end
