(* ===== verification/HostFindings.thy ===== *)
theory HostFindings
  imports HostTextProps
begin

text \<open>
  Inputs on which the code of \<open>lib/hostlist.c\<close> does not do what its comments say, evaluated on
  the model: each lemma is a run of the functions on a concrete list.
\<close>

definition made :: "string \<Rightarrow> hostlist" where
  "made s = the (the (hostlist_create (Some s)))"

text \<open>
  \<open>hostlist_deranged_string\<close> compares \<open>ret > m\<close> where \<open>snprintf\<close> truncates at \<open>ret >= m\<close>: the comma
  and the final NUL then go past the end of a buffer of 3 characters.
\<close>

lemma deranged_string_overflow:
  "hostlist_deranged_string (made ''abc,de,fg'') 3 (replicate 3 (CHR ''.'')) = None"
  by code_simp

text \<open>
  \<open>hostlist_shift_range\<close> subtracts the number of ranges of the coalesced copy: after \<open>g\<close> is deleted
  from \<open>f1,g,f2\<close> the list is left with a range count of 1 and no names.
\<close>

lemma shift_range_count:
  "map_option (\<lambda>r. case r of (s, hl) \<Rightarrow> (s, hl_nranges hl, hl_nhosts hl))
     (hostlist_shift_range (snd (the (hostlist_delete_nth (made ''f1,g,f2'') 1)))) =
   Some (Some ''f[1-2]'', 1, 0)"
  by code_simp

text \<open>\<open>hostlist_find\<close> misses \<open>f12\<close> when the range has the prefix \<open>f1\<close>.\<close>

lemma find_misses: "map_option fst (hostlist_find (made ''f1[2-3]'') ''f12'') = Some (- 1)"
  by code_simp

text \<open>\<open>hostlist_delete_nth\<close> accepts the index \<open>nhosts\<close>, deletes nothing and decrements the count.\<close>

lemma delete_nth_past_end:
  "map_option (\<lambda>r. case r of (n, hl) \<Rightarrow> (n, hl_nhosts hl, hl_hosts hl)) (hostlist_delete_nth (made ''f[1-2]'') 2) =
   Some (1, 1, [''f1'', ''f2''])"
  by code_simp

text \<open>\<open>hostlist_uniq\<close> keeps \<open>f100\<close> twice when one of its ranges is padded to three digits.\<close>

lemma uniq_keeps_duplicate:
  "map_option hl_hosts (hostlist_uniq (made ''f[98-100],f[099-100]'')) =
   Some [''f98'', ''f99'', ''f100'', ''f099'', ''f100'']"
  by code_simp

text \<open>
  \<open>hostset_insert_range\<close> subtracts the duplicates that \<open>_attempt_range_join\<close> has already
  subtracted: the set holds five names and counts three.
\<close>

lemma set_insert_count:
  "map_option (\<lambda>r. case r of (n, s) \<Rightarrow> (n, hl_nhosts (hs_hl s), hl_hosts (hs_hl s)))
     (hostset_insert \<lparr>hs_hl = made ''f[1-3],f9''\<rparr> (Some ''f[2-4]'')) =
   Some (1, 3, [''f1'', ''f2'', ''f3'', ''f4'', ''f9''])"
  by code_simp

text \<open>
  The prefix \<open>f1\<close> of \<open>f1[2-3]\<close> ends in a digit, while \<open>f12\<close> alone is split into \<open>f\<close> and 12: \<open>hostlist_uniq\<close>
  keeps \<open>f12\<close> twice although all widths are the same.
\<close>

lemma uniq_split_prefix:
  "map_option hl_hosts (hostlist_uniq (made ''f1[2-3],f12'')) = Some [''f12'', ''f12'', ''f13'']"
  by code_simp

text \<open>
  A list of exactly 16 ranges fills its array.  \<open>_iterator_advance\<close> loads the range behind the last
  one without looking at the number of ranges: the call that should return NULL reads \<open>hr[16]\<close>, behind
  the array.
\<close>

primrec next_hosts :: "nat \<Rightarrow> hostlist \<Rightarrow> nat \<Rightarrow> string option list option" where
  "next_hosts 0 hl a = Some []"
| "next_hosts (Suc n) hl a =
    (case hostlist_next hl a of None \<Rightarrow> None | Some (s, hl1) \<Rightarrow> map_option ((#) s) (next_hosts n hl1 a))"

definition sixteen :: hostlist where
  "sixteen = made ''a,b,c,d,e,f,g,h,i,j,k,l,m,n,o,p''"

lemma full_array_overrun:
  "hl_nranges sixteen = 16" "hl_size sixteen = 16"
  "Option.bind (hostlist_iterator_create sixteen) (\<lambda>(a, hl). map_option last (next_hosts 16 hl a)) = Some (Some ''p'')"
  "Option.bind (hostlist_iterator_create sixteen) (\<lambda>(a, hl). next_hosts 17 hl a) = None"
  by code_simp+

end
