(* ===== verification/HostSystem.thy ===== *)
theory HostSystem
  imports HostProps
begin

text \<open>
  A host list as an abstract data type: any sequence of the operations that build, read and
  shorten a list gives the answers it would give on a plain list of names.  The contract of one
  operation is a locale; the simulation of whole sequences is proved in it once, and
  \<open>lib/hostlist.c\<close> is its interpretation.
\<close>

section \<open>The specification: a list of names\<close>

datatype host_op =
    Push_host string
  | Push_range hostrange
  | Pop_host
  | Shift_host
  | Nth_host nat
  | Delete_nth nat
  | Count_hosts
  | Is_empty

datatype host_answer = Int_answer int | Host_answer "string option" | Bool_answer bool

fun spec_op :: "string list \<Rightarrow> host_op \<Rightarrow> host_answer \<times> string list" where
  "spec_op xs (Push_host s) = (Int_answer 1, xs @ [s])"
| "spec_op xs (Push_range r) = (Int_answer (int (length xs + length (hr_hosts r))), xs @ hr_hosts r)"
| "spec_op xs Pop_host = (Host_answer (if xs = [] then None else Some (last xs)), butlast xs)"
| "spec_op xs Shift_host = (Host_answer (if xs = [] then None else Some (hd xs)), tl xs)"
| "spec_op xs (Nth_host n) = (Host_answer (if n < length xs then Some (xs ! n) else None), xs)"
| "spec_op xs (Delete_nth n) = (Int_answer 1, take n xs @ drop (Suc n) xs)"
| "spec_op xs Count_hosts = (Int_answer (int (length xs)), xs)"
| "spec_op xs Is_empty = (Bool_answer (xs = []), xs)"

text \<open>
  When an operation may be called: the number of hosts is an \<open>int\<close>, the buffer of
  \<open>_hostrange_string\<close> holds 79 characters, and \<open>hostlist_delete_nth\<close> needs an index in range.
\<close>

fun op_legal :: "string list \<Rightarrow> host_op \<Rightarrow> bool" where
  "op_legal xs (Push_host s) = (length xs + 1 < 2 ^ 31)"
| "op_legal xs (Push_range r) = (hr_ok r \<and> length xs + length (hr_hosts r) < 2 ^ 31)"
| "op_legal xs (Nth_host n) = (n < length xs \<longrightarrow> length (xs ! n) \<le> 78)"
| "op_legal xs (Delete_nth n) = (n < length xs)"
| "op_legal xs _ = True"

fun spec_ops :: "string list \<Rightarrow> host_op list \<Rightarrow> host_answer list \<times> string list" where
  "spec_ops xs [] = ([], xs)"
| "spec_ops xs (c # cs) =
    (case spec_op xs c of (a, xs1) \<Rightarrow> case spec_ops xs1 cs of (as, xs2) \<Rightarrow> (a # as, xs2))"

fun ops_legal :: "string list \<Rightarrow> host_op list \<Rightarrow> bool" where
  "ops_legal xs [] = True"
| "ops_legal xs (c # cs) = (op_legal xs c \<and> ops_legal (snd (spec_op xs c)) cs)"

section \<open>The interface\<close>

fun run_seq :: "('s \<Rightarrow> host_op \<Rightarrow> (host_answer \<times> 's) option) \<Rightarrow> 's \<Rightarrow> host_op list \<Rightarrow>
    (host_answer list \<times> 's) option" where
  "run_seq step s [] = Some ([], s)"
| "run_seq step s (c # cs) =
    (case step s c of
       None \<Rightarrow> None
     | Some (a, s1) \<Rightarrow>
         (case run_seq step s1 cs of None \<Rightarrow> None | Some (as, s2) \<Rightarrow> Some (a # as, s2)))"

locale name_list =
  fixes step :: "'s \<Rightarrow> host_op \<Rightarrow> (host_answer \<times> 's) option"
    and inv :: "'s \<Rightarrow> bool"
    and names_of :: "'s \<Rightarrow> string list"
  assumes step_refines: "inv s \<Longrightarrow> op_legal (names_of s) c \<Longrightarrow>
    \<exists>s'. step s c = Some (fst (spec_op (names_of s) c), s') \<and> inv s' \<and>
      names_of s' = snd (spec_op (names_of s) c)"
begin

lemma seq_refines:
  assumes "inv s" "ops_legal (names_of s) cs"
  shows "\<exists>s'. run_seq step s cs = Some (fst (spec_ops (names_of s) cs), s') \<and> inv s' \<and>
    names_of s' = snd (spec_ops (names_of s) cs)"
  using assms
proof (induction cs arbitrary: s)
  case (Cons c cs)
  from step_refines[OF Cons.prems(1), of c] Cons.prems(2) obtain s1 where
    s1: "step s c = Some (fst (spec_op (names_of s) c), s1)" "inv s1"
      "names_of s1 = snd (spec_op (names_of s) c)" by auto
  then have "ops_legal (names_of s1) cs" using Cons.prems(2) by simp
  from Cons.IH[OF s1(2) this] s1 show ?case by (auto split: prod.splits)
qed simp

end

section \<open>The operations of \<open>lib/hostlist.c\<close>\<close>

fun host_step :: "hostlist \<Rightarrow> host_op \<Rightarrow> (host_answer \<times> hostlist) option" where
  "host_step hl (Push_host s) = map_option (\<lambda>(n, h). (Int_answer n, h)) (hostlist_push_host hl s)"
| "host_step hl (Push_range r) = map_option (\<lambda>(n, h, r'). (Int_answer n, h)) (hostlist_push_range hl r)"
| "host_step hl Pop_host = map_option (\<lambda>(a, h). (Host_answer a, h)) (hostlist_pop hl)"
| "host_step hl Shift_host = map_option (\<lambda>(a, h). (Host_answer a, h)) (hostlist_shift hl)"
| "host_step hl (Nth_host n) = map_option (\<lambda>a. (Host_answer a, hl)) (hostlist_nth hl (int n))"
| "host_step hl (Delete_nth n) = map_option (\<lambda>(n, h). (Int_answer n, h)) (hostlist_delete_nth hl (int n))"
| "host_step hl Count_hosts = Some (Int_answer (hostlist_count hl), hl)"
| "host_step hl Is_empty = Some (Bool_answer (hostlist_count hl = 0), hl)"

definition host_inv :: "hostlist \<Rightarrow> bool" where
  "host_inv hl \<longleftrightarrow> hl_ok hl \<and> hl_ilist hl = []"

lemma host_invD:
  assumes "host_inv hl"
  shows "hl_ok hl" "hl_ilist hl = []" "its_inside hl" "hl_nhosts hl = int (length (hl_hosts hl))"
  using assms by (auto simp: host_inv_def its_inside_def hl_ok_def)

lemma host_step_refines:
  assumes "host_inv hl" "op_legal (hl_hosts hl) c"
  shows "\<exists>hl'. host_step hl c = Some (fst (spec_op (hl_hosts hl) c), hl') \<and> host_inv hl' \<and>
    hl_hosts hl' = snd (spec_op (hl_hosts hl) c)"
proof -
  note inv = host_invD[OF assms(1)]
  show ?thesis
  proof (cases c)
    case (Push_host s)
    then show ?thesis using push_host_result[OF inv(1), of s] assms(2) inv(2) by (auto simp: host_inv_def)
  next
    case (Push_range r)
    then show ?thesis using push_range_result[OF inv(1), of r] assms(2) inv(2) by (auto simp: host_inv_def)
  next
    case Pop_host
    then show ?thesis using pop_result[OF inv(1)] assms(1) inv(2) by (auto simp: host_inv_def split: if_splits)
  next
    case Shift_host
    then show ?thesis using shift_result[OF inv(1)] assms(1) inv(2) by (auto simp: host_inv_def split: if_splits)
  next
    case (Nth_host n)
    then show ?thesis using nth_result[OF inv(1), of n] assms by auto
  next
    case (Delete_nth n)
    then show ?thesis using delete_nth_result[OF inv(1) _ inv(3), of n] assms(2) inv(2)
      by (auto simp: host_inv_def del_at_def)
  next
    case Count_hosts
    then show ?thesis using assms(1) inv(4) by (simp add: hostlist_count_def)
  next
    case Is_empty
    then show ?thesis using assms(1) inv(4) by (simp add: hostlist_count_def)
  qed
qed

interpretation hn: name_list host_step host_inv hl_hosts
  by unfold_locales (rule host_step_refines)

section \<open>Refinement\<close>

text \<open>
  C6: the functions of \<open>lib/hostlist.c\<close> refine a list of names: any sequence of pushes, pops,
  shifts, indexed reads and deletions on a list without iterators runs to its end with the
  answers the plain list gives, and leaves a well-formed list that stands for the same names.
\<close>

theorem hostlist_refines_names:
  assumes "host_inv hl" "ops_legal (hl_hosts hl) cs"
  shows "\<exists>hl'. run_seq host_step hl cs = Some (fst (spec_ops (hl_hosts hl) cs), hl') \<and> host_inv hl' \<and>
    hl_hosts hl' = snd (spec_ops (hl_hosts hl) cs)"
  by (rule hn.seq_refines[OF assms])

theorem hostlist_refines_names_witness:
  "\<exists>hl'. run_seq host_step hostlist_new
      [Push_host ''n8'', Push_host ''n9'', Push_host ''login'', Delete_nth 1, Shift_host, Count_hosts] =
     Some ([Int_answer 1, Int_answer 1, Int_answer 1, Int_answer 1, Host_answer (Some ''n8''), Int_answer 1], hl') \<and>
     hl_hosts hl' = [''login'']"
proof -
  have "host_inv hostlist_new" by (simp add: host_inv_def new_ok) (simp add: hostlist_new_def)
  from hostlist_refines_names[OF this, of "[Push_host ''n8'', Push_host ''n9'', Push_host ''login'',
      Delete_nth 1, Shift_host, Count_hosts]"]
  show ?thesis by (auto simp: new_ok(2))
qed

end
