(* ===== verification/CpuMask.thy ===== *)
theory CpuMask
  imports CString
begin

text \<open>
  CPU masks and their two text formats (\<open>lua/lua-schedutils/cpuset-str.c\<close>, from which the
  parsing functions of \<open>auto-affinity.c\<close> are copied): lists of ranges with strides such as
  \<open>0-3,8,16-31:2\<close> and chunks of hexadecimal digits such as \<open>000000ff,00000001\<close>.

  A \<open>cpu_set_t\<close> is the set of its CPU numbers; the macros of the C library ignore numbers
  outside the mask.  A \<open>const char *\<close> into a string is the text from there on, so that of two
  pointers into the same string the one with the longer text comes first.
\<close>

unbundle bit_operations_syntax

section \<open>The mask\<close>

type_synonym cpu_set = "nat set"

definition CPU_SETSIZE :: nat where
  "CPU_SETSIZE = 1024"

definition CPU_SET :: "int \<Rightarrow> cpu_set \<Rightarrow> cpu_set" where
  "CPU_SET c m = (if 0 \<le> c \<and> c < int CPU_SETSIZE then insert (nat c) m else m)"

definition CPU_ISSET :: "int \<Rightarrow> cpu_set \<Rightarrow> bool" where
  "CPU_ISSET c m \<longleftrightarrow> 0 \<le> c \<and> c < int CPU_SETSIZE \<and> nat c \<in> m"

section \<open>Lists of ranges\<close>

text \<open>The inner loop: how many CPUs after \<open>i\<close> are set in a row (\<open>k\<close> are left to look at).\<close>

fun run_length :: "cpu_set \<Rightarrow> nat \<Rightarrow> nat \<Rightarrow> nat" where
  "run_length m j 0 = 0"
| "run_length m j (Suc k) = (if CPU_ISSET (int j) m then Suc (run_length m (j + 1) k) else 0)"

text \<open>The characters \<open>cpuset_to_cstr\<close> has written when its loop is done.\<close>

function to_cstr_loop :: "cpu_set \<Rightarrow> nat \<Rightarrow> string" where
  "to_cstr_loop m i =
    (if i < CPU_SETSIZE
     then (if CPU_ISSET (int i) m
           then (let run = run_length m (i + 1) (CPU_SETSIZE - (i + 1))
                 in if run = 0 then dec i @ '','' @ to_cstr_loop m (i + 1)
                    else if run = 1 then dec i @ '','' @ dec (i + 1) @ '','' @ to_cstr_loop m (i + 1 + 1)
                    else dec i @ ''-'' @ dec (i + run) @ '','' @ to_cstr_loop m (i + run + 1))
           else to_cstr_loop m (i + 1))
     else [])"
  by pat_completeness auto
termination by (relation "measure (\<lambda>(m, i). CPU_SETSIZE - i)") auto

declare to_cstr_loop.simps [simp del]

text \<open>
  The text \<open>cpuset_to_cstr\<close> leaves in \<open>str\<close>: the last comma is overwritten with the NUL when
  there was an entry.
\<close>

definition cpuset_to_cstr :: "cpu_set \<Rightarrow> string" where
  "cpuset_to_cstr m = butlast (to_cstr_loop m 0)"

fun nexttoken :: "string option \<Rightarrow> char \<Rightarrow> string option" where
  "nexttoken None sep = None"
| "nexttoken (Some p) sep = (case dropWhile (\<lambda>c. c \<noteq> sep) p of [] \<Rightarrow> None | c # cs \<Rightarrow> Some cs)"

lemma nexttoken_shorter: "nexttoken (Some p) sep = Some q \<Longrightarrow> length q < length p"
  using length_dropWhile_le[of "\<lambda>c. c \<noteq> sep" p] by (auto split: list.splits)

declare nexttoken.simps(2) [simp del]

text \<open>\<open>c1 < c2\<close> or \<open>c2\<close> is NULL.\<close>

definition before :: "string \<Rightarrow> string option \<Rightarrow> bool" where
  "before c1 c2 = (case c2 of None \<Rightarrow> True | Some c \<Rightarrow> length c < length c1)"

definition leading_zero :: "ulong \<Rightarrow> string \<Rightarrow> bool" where
  "leading_zero a p \<longleftrightarrow> (a \<noteq> 0 \<and> take 1 p = ''0'') \<or> (a = 0 \<and> take 2 p = ''00'')"

text \<open>
  One entry of the list at \<open>p\<close>: first and last CPU, stride and the final \<open>endptr\<close>; \<open>None\<close> when
  the function returns 1.
\<close>

definition cstr_entry :: "string \<Rightarrow> (ulong \<times> ulong \<times> ulong \<times> string) option" where
  "cstr_entry p =
    (case strtoul p of
       (a, e) \<Rightarrow>
         if length e = length p \<or> a \<ge> 1024 then None
         else if leading_zero a p then None
         else (let c2 = nexttoken (Some p) (CHR '','')
               in case nexttoken (Some p) (CHR ''-'') of
                    None \<Rightarrow> Some (a, a, 1, e)
                  | Some c1 \<Rightarrow>
                      if \<not> before c1 c2 then Some (a, a, 1, e)
                      else if length e \<noteq> length c1 + 1 then None
                      else (case strtoul c1 of
                        (b, e1) \<Rightarrow>
                          if length e1 = length c1 \<or> b \<ge> 1024 then None
                          else (case nexttoken (Some c1) (CHR '':'') of
                                  None \<Rightarrow> Some (a, b, 1, e1)
                                | Some c3 \<Rightarrow>
                                    if \<not> before c3 c2 then Some (a, b, 1, e1)
                                    else (case strtoul c3 of
                                      (s, e2) \<Rightarrow>
                                        if length e2 = length c3 \<or> b \<ge> 1024 then None
                                        else Some (a, b, s, e2))))))"

text \<open>The loop \<open>while (a <= b)\<close>; it does not end for a stride of 0.\<close>

partial_function (option) stride_set :: "ulong \<Rightarrow> ulong \<Rightarrow> ulong \<Rightarrow> cpu_set \<Rightarrow> cpu_set option" where
  "stride_set a b s m =
    (if a \<le> b then stride_set (a + s) b s (CPU_SET (int (unat a)) m) else Some m)"

function cstr_loop :: "cpu_set \<Rightarrow> string \<Rightarrow> (int \<times> cpu_set) option" where
  "cstr_loop m p =
    (case cstr_entry p of
       None \<Rightarrow> Some (1, m)
     | Some (a, b, s, e) \<Rightarrow>
         if \<not> a \<le> b then Some (1, m)
         else (case stride_set a b s m of
                 None \<Rightarrow> None
               | Some m1 \<Rightarrow>
                   (case nexttoken (Some p) (CHR '','') of
                      None \<Rightarrow> Some (if e \<noteq> [] then 1 else 0, m1)
                    | Some q \<Rightarrow> cstr_loop m1 q)))"
  by pat_completeness auto
termination by (relation "measure (\<lambda>(m, p). length p)") (auto dest: nexttoken_shorter simp del: nexttoken.simps)

declare cstr_loop.simps [simp del]

definition cstr_to_cpuset :: "string \<Rightarrow> (int \<times> cpu_set) option" where
  "cstr_to_cpuset str = (if str = [] then Some (0, {}) else cstr_loop {} str)"

section \<open>Hexadecimal chunks\<close>

definition HEXCHARSIZE :: nat where
  "HEXCHARSIZE = 8"

definition HEXCHUNKSZ :: nat where
  "HEXCHUNKSZ = 32"

text \<open>\<open>k\<close> is \<open>i + 1\<close>.\<close>

fun last_bit_loop :: "cpu_set \<Rightarrow> nat \<Rightarrow> nat" where
  "last_bit_loop m 0 = 0"
| "last_bit_loop m (Suc i) = (if CPU_ISSET (int i) m then i else last_bit_loop m i)"

definition cpuset_last_bit :: "cpu_set \<Rightarrow> nat" where
  "cpuset_last_bit m = last_bit_loop m CPU_SETSIZE"

text \<open>\<open>%0*x\<close>.\<close>

fun hex :: "nat \<Rightarrow> string" where
  "hex n = (if n < 16 then [''0123456789abcdef'' ! n] else hex (n div 16) @ [''0123456789abcdef'' ! (n mod 16)])"

declare hex.simps [simp del]

definition padx :: "nat \<Rightarrow> nat \<Rightarrow> string" where
  "padx w n = replicate (w - length (hex n)) (CHR ''0'') @ hex n"

text \<open>The loop over the bits of a chunk; \<open>k\<close> is \<open>bit + 1\<close>.\<close>

fun chunk_loop :: "cpu_set \<Rightarrow> nat \<Rightarrow> 32 word \<Rightarrow> nat \<Rightarrow> 32 word" where
  "chunk_loop m chunk val 0 = val"
| "chunk_loop m chunk val (Suc bt) =
    chunk_loop m chunk (push_bit 1 val OR of_bool (CPU_ISSET (int (chunk * HEXCHUNKSZ + bt)) m)) bt"

text \<open>
  The room passed to \<open>snprintf\<close>, \<open>max (len - cnt, 0)\<close>, is computed in \<open>size_t\<close>: it never is
  negative.  \<open>k\<close> is \<open>chunk + 1\<close>.
\<close>

definition hex_room :: "nat \<Rightarrow> nat \<Rightarrow> nat" where
  "hex_room len cnt = unat (word_of_int (int len - int cnt) :: ulong)"

fun to_hex_loop :: "cpu_set \<Rightarrow> nat \<Rightarrow> nat \<Rightarrow> string \<Rightarrow> string \<Rightarrow> nat \<Rightarrow> (int \<times> string) option" where
  "to_hex_loop m len cnt sep buf 0 = Some (int cnt, buf)"
| "to_hex_loop m len cnt sep buf (Suc chunk) =
    (let s = sep @ padx HEXCHARSIZE (unat (chunk_loop m chunk 0 HEXCHUNKSZ))
     in case snprintf_at buf cnt (hex_room len cnt) s of
          None \<Rightarrow> None
        | Some buf1 \<Rightarrow> to_hex_loop m len (cnt + length s) '','' buf1 chunk)"

definition cpuset_to_hex :: "cpu_set \<Rightarrow> string \<Rightarrow> nat \<Rightarrow> (int \<times> string) option" where
  "cpuset_to_hex m str len =
    (if len = 0 then Some (0, str)
     else (case bwrite str 0 [CHR 0x00] of
             None \<Rightarrow> None
           | Some buf \<Rightarrow> to_hex_loop m len 0 [] buf (cpuset_last_bit m div HEXCHUNKSZ + 1)))"

definition char_to_val :: "char \<Rightarrow> int" where
  "char_to_val ch =
    (let c = of_char ch :: int;
         cl = (if 65 \<le> c \<and> c \<le> 90 then c + 32 else c)
     in if 48 \<le> c \<and> c \<le> 57 then c - 48
        else if 97 \<le> cl \<and> cl \<le> 102 then cl + (10 - 97)
        else - 1)"

definition set_nibble :: "cpu_set \<Rightarrow> int \<Rightarrow> int \<Rightarrow> cpu_set" where
  "set_nibble m base val =
    (let m1 = (if val AND 1 \<noteq> 0 then CPU_SET base m else m);
         m2 = (if val AND 2 \<noteq> 0 then CPU_SET (base + 1) m1 else m1);
         m3 = (if val AND 4 \<noteq> 0 then CPU_SET (base + 2) m2 else m2)
     in if val AND 8 \<noteq> 0 then CPU_SET (base + 3) m3 else m3)"

text \<open>The loop runs from the last character of the string to the first.\<close>

fun nibble_loop :: "cpu_set \<Rightarrow> int \<Rightarrow> string \<Rightarrow> int \<times> cpu_set" where
  "nibble_loop m base [] = (0, m)"
| "nibble_loop m base (c # cs) =
    (let val = char_to_val c
     in if val = - 1 then (- 1, m) else nibble_loop (set_nibble m base val) (base + 4) cs)"

definition s_to_cpuset :: "cpu_set \<Rightarrow> string \<Rightarrow> nat \<Rightarrow> int \<times> cpu_set" where
  "s_to_cpuset m str len = nibble_loop m 0 (rev (take len str))"

text \<open>\<open>strtoul (s, &q, 16)\<close>.\<close>

definition isxdigit :: "char \<Rightarrow> bool" where
  "isxdigit c \<longleftrightarrow> char_to_val c \<noteq> - 1"

definition hex_val :: "string \<Rightarrow> int" where
  "hex_val s = foldl (\<lambda>n c. 16 * n + char_to_val c) 0 s"

definition strtoul16 :: "string \<Rightarrow> ulong \<times> string" where
  "strtoul16 s =
    (let s1 = dropWhile isspace s;
         neg = (s1 \<noteq> [] \<and> hd s1 = CHR ''-'');
         s2 = (if s1 \<noteq> [] \<and> (hd s1 = CHR ''-'' \<or> hd s1 = CHR ''+'') then tl s1 else s1);
         s3 = (case s2 of
                 z # x # h # r \<Rightarrow>
                   if z = CHR ''0'' \<and> (x = CHR ''x'' \<or> x = CHR ''X'') \<and> isxdigit h then h # r else s2
               | _ \<Rightarrow> s2);
         ds = takeWhile isxdigit s3;
         v = hex_val ds
     in if ds = [] then (0, s)
        else (if v < 2 ^ 64 then (if neg then - word_of_int v else word_of_int v) else ULONG_MAX,
              dropWhile isxdigit s3))"

function count_tokens :: "string \<Rightarrow> nat" where
  "count_tokens p = (case nexttoken (Some p) (CHR '','') of None \<Rightarrow> 1 | Some q \<Rightarrow> count_tokens q + 1)"
  by pat_completeness auto
termination by (relation "measure length") (auto dest: nexttoken_shorter simp del: nexttoken.simps)

declare count_tokens.simps [simp del]

text \<open>The loop over the bits of a chunk; \<open>k\<close> is \<open>bit + 1\<close>, \<open>None\<close> is \<open>goto err\<close>.\<close>

fun chunk_set :: "cpu_set \<Rightarrow> int \<Rightarrow> 32 word \<Rightarrow> nat \<Rightarrow> cpu_set option" where
  "chunk_set m chunk val 0 = Some m"
| "chunk_set m chunk val (Suc bt) =
    (let n = chunk * int HEXCHUNKSZ + int bt
     in if n \<ge> int CPU_SETSIZE then None
        else chunk_set (if drop_bit bt val AND 1 \<noteq> 0 then CPU_SET n m else m) chunk val bt)"

function hex_loop :: "cpu_set \<Rightarrow> int \<Rightarrow> string \<Rightarrow> int \<times> cpu_set" where
  "hex_loop m chunk p =
    (let q = nexttoken (Some p) (CHR '','')
     in case strtoul16 p of
          (v, e) \<Rightarrow>
            (case (if length p - length e > HEXCHARSIZE
                   then (case s_to_cpuset m p (length p - length e) of
                           (r, m1) \<Rightarrow> if r < 0 then None else Some m1)
                   else if (case q of Some q' \<Rightarrow> int (length e) - int (length q') \<noteq> 1 | None \<Rightarrow> e \<noteq> [])
                   then None
                   else chunk_set m chunk (ucast v) HEXCHUNKSZ) of
               None \<Rightarrow> (- 1, {})
             | Some m1 \<Rightarrow> (case q of None \<Rightarrow> (0, m1) | Some q' \<Rightarrow> hex_loop m1 (chunk - 1) q')))"
  by pat_completeness auto
termination by (relation "measure (\<lambda>(m, c, p). length p)") (auto dest!: nexttoken_shorter[OF sym] simp del: nexttoken.simps)

declare hex_loop.simps [simp del]

definition hex_to_cpuset :: "string \<Rightarrow> int \<times> cpu_set" where
  "hex_to_cpuset str0 =
    (if str0 = [] then (0, {})
     else (let str = (if take 2 str0 = ''0x'' then drop 2 str0 else str0)
           in if count_tokens str = 1 then s_to_cpuset {} str (length str)
              else hex_loop {} (int (count_tokens str) - 1) str))"

end
