(* ===== verification/AutoAffinity.thy ===== *)
theory AutoAffinity
  imports CpuMask Split "HOL-Library.Signed_Division"
begin

text \<open>
  The plugin \<open>auto-affinity.c\<close>: the parsing of its options, the map from CPU positions to CPU
  numbers, the decision whether to set an affinity and the mask of each task.

  The global variables are the record \<open>affinity\<close>; every function takes it and returns it.  What
  the plugin asks SLURM, \<open>sysfs\<close> and the kernel is an argument: a \<open>spank_get_item\<close> is an
  option (\<open>None\<close> for a failure), the topology files are functions from CPU numbers to what
  \<open>read_file_int\<close> returns, \<open>sched_getaffinity\<close> is an optional mask.  Messages are left out.
  The value \<open>None\<close> of a function that has no other use for it is undefined behaviour (a
  division by zero, a read outside an array, a loop that does not end).
\<close>

section \<open>Global variables\<close>

record affinity =
  ncpus :: int
  ntasks :: int
  enabled :: bool
  disabled :: bool
  verbose :: bool
  is_reverse :: bool
  startcpu :: int
  requested_cpus_per_task :: int
  nlist_elements :: int
  cpus_list :: "string option"
  cpu_mask_list :: "cpu_set list option"
  exclusive_only :: bool
  multiples_only :: bool
  cpus_available :: cpu_set
  ncpus_available :: int
  cpu_position_map :: "int option list option"

definition affinity_start :: affinity where
  "affinity_start =
    \<lparr>ncpus = - 1, ntasks = - 1, enabled = True, disabled = False, verbose = False, is_reverse = False,
     startcpu = 0, requested_cpus_per_task = 0, nlist_elements = 0, cpus_list = None,
     cpu_mask_list = None, exclusive_only = False, multiples_only = False, cpus_available = {},
     ncpus_available = 0, cpu_position_map = None\<rparr>"

section \<open>CPU lists and masks\<close>

text \<open>\<open>sscanf (p, "%u", &a)\<close>: \<open>None\<close> when no number was converted.\<close>

definition sscanf_u :: "string \<Rightarrow> 32 word option" where
  "sscanf_u p = (case strtoul p of (v, e) \<Rightarrow> if length e = length p then None else Some (ucast v))"

text \<open>
  One entry of a CPU list: first, last and stride, or the value the function returns at once;
  \<open>err\<close> is -1 in \<open>cstr_count\<close> and -11 in \<open>cstr_to_cpu_id\<close>.
\<close>

definition scan_entry :: "int \<Rightarrow> string \<Rightarrow> int + (32 word \<times> 32 word \<times> 32 word)" where
  "scan_entry err p =
    (case sscanf_u p of
       None \<Rightarrow> Inl 1
     | Some a \<Rightarrow>
         (let c2 = nexttoken (Some p) (CHR '','')
          in case nexttoken (Some p) (CHR ''-'') of
               None \<Rightarrow> Inr (a, a, 1)
             | Some c1 \<Rightarrow>
                 if \<not> before c1 c2 then Inr (a, a, 1)
                 else (case sscanf_u c1 of
                         None \<Rightarrow> Inl err
                       | Some b \<Rightarrow>
                           (case nexttoken (Some c1) (CHR '':'') of
                              None \<Rightarrow> Inr (a, b, 1)
                            | Some c3 \<Rightarrow>
                                if \<not> before c3 c2 then Inr (a, b, 1)
                                else (case sscanf_u c3 of None \<Rightarrow> Inl err | Some s \<Rightarrow> Inr (a, b, s))))))"

partial_function (option) count_stride :: "32 word \<Rightarrow> 32 word \<Rightarrow> 32 word \<Rightarrow> int \<Rightarrow> int option" where
  "count_stride a b s cnt = (if a \<le> b then count_stride (a + s) b s (cnt + 1) else Some cnt)"

function count_loop :: "int \<Rightarrow> string \<Rightarrow> int option" where
  "count_loop cnt p =
    (case scan_entry (- 1) p of
       Inl r \<Rightarrow> Some r
     | Inr (a, b, s) \<Rightarrow>
         if \<not> a \<le> b then Some 1
         else (case count_stride a b s cnt of
                 None \<Rightarrow> None
               | Some cnt1 \<Rightarrow>
                   (case nexttoken (Some p) (CHR '','') of
                      None \<Rightarrow> Some cnt1
                    | Some q \<Rightarrow> count_loop cnt1 q)))"
  by pat_completeness auto
termination by (relation "measure (\<lambda>(n, p). length p)") (auto dest: nexttoken_shorter simp del: nexttoken.simps)

declare count_loop.simps [simp del]

definition cstr_count :: "string \<Rightarrow> int option" where
  "cstr_count str = count_loop 0 str"

text \<open>The loop that looks for index \<open>n\<close>: the CPU found (\<open>Inl\<close>) or the next index.\<close>

partial_function (option) id_stride ::
    "32 word \<Rightarrow> 32 word \<Rightarrow> 32 word \<Rightarrow> int \<Rightarrow> int \<Rightarrow> (int + int) option" where
  "id_stride a b s index n =
    (if a \<le> b
     then if index = n then Some (Inl (sint a)) else id_stride (a + s) b s (index + 1) n
     else Some (Inr index))"

function id_loop :: "int \<Rightarrow> int \<Rightarrow> string \<Rightarrow> int option" where
  "id_loop index n p =
    (case scan_entry (- 11) p of
       Inl r \<Rightarrow> Some r
     | Inr (a, b, s) \<Rightarrow>
         if \<not> a \<le> b then Some 1
         else (case id_stride a b s index n of
                 None \<Rightarrow> None
               | Some (Inl c) \<Rightarrow> Some c
               | Some (Inr index1) \<Rightarrow>
                   (case nexttoken (Some p) (CHR '','') of
                      None \<Rightarrow> Some (- 1)
                    | Some q \<Rightarrow> id_loop index1 n q)))"
  by pat_completeness auto
termination by (relation "measure (\<lambda>(i, n, p). length p)") (auto dest: nexttoken_shorter simp del: nexttoken.simps)

declare id_loop.simps [simp del]

definition cstr_to_cpu_id :: "string \<Rightarrow> int \<Rightarrow> int option" where
  "cstr_to_cpu_id str n = id_loop 0 n str"

definition str_to_cpuset :: "string \<Rightarrow> int \<times> cpu_set" where
  "str_to_cpuset str =
    nibble_loop {} 0 (rev (if length str > 1 \<and> take 2 str = ''0x'' then drop 2 str else str))"

text \<open>\<open>k\<close> numbers from \<open>i\<close> on are left to look at.\<close>

fun set_count_loop :: "cpu_set \<Rightarrow> nat \<Rightarrow> int \<Rightarrow> nat \<Rightarrow> int" where
  "set_count_loop m i n 0 = n"
| "set_count_loop m i n (Suc k) = set_count_loop m (i + 1) (if CPU_ISSET (int i) m then n + 1 else n) k"

definition cpu_set_count :: "cpu_set \<Rightarrow> int" where
  "cpu_set_count setp = set_count_loop setp 0 0 CPU_SETSIZE"

section \<open>Options\<close>

definition str2int :: "string \<Rightarrow> int" where
  "str2int str = (case strtol str of (l, p) \<Rightarrow> if p \<noteq> [] then - 1 else long_to_int l)"

text \<open>\<open>None\<close>: the help text is printed and the process exits.\<close>

definition parse_option :: "string \<Rightarrow> bool \<Rightarrow> affinity \<Rightarrow> (int \<times> affinity) option" where
  "parse_option opt remote st =
    (if opt = ''off'' then Some (0, st\<lparr>disabled := True\<rparr>)
     else if opt = ''reverse'' \<or> opt = ''rev'' then Some (0, st\<lparr>is_reverse := True\<rparr>)
     else if take 4 opt = ''cpt=''
     then (let n = str2int (drop 4 opt)
           in Some (if n < 0 then - 1 else 0, st\<lparr>requested_cpus_per_task := n\<rparr>))
     else if take 14 opt = ''cpus_per_task=''
     then (let n = str2int (drop 14 opt)
           in Some (if n < 0 then - 1 else 0, st\<lparr>requested_cpus_per_task := n\<rparr>))
     else if take 6 opt = ''start=''
     then (let n = str2int (drop 6 opt) in Some (if n < 0 then - 1 else 0, st\<lparr>startcpu := n\<rparr>))
     else if opt = ''verbose'' \<or> opt = ''v'' then Some (0, st\<lparr>verbose := True\<rparr>)
     else if opt = ''help'' \<and> \<not> remote then None
     else Some (0, st))"

partial_function (option) list_clear :: "string clist \<Rightarrow> string clist option" where
  "list_clear l = (case list_pop l of (None, l1) \<Rightarrow> Some l1 | (Some s, l1) \<Rightarrow> list_clear l1)"

definition parse_cpus_list :: "string clist \<Rightarrow> affinity \<Rightarrow> (int \<times> string clist \<times> affinity) option" where
  "parse_cpus_list l st =
    (case list_join 4096 '','' l of
       None \<Rightarrow> None
     | Some (n, str, l1) \<Rightarrow>
         (case cstr_count str of
            None \<Rightarrow> None
          | Some c \<Rightarrow>
              (let st1 = st\<lparr>nlist_elements := c\<rparr>
               in if c < 0 then Some (- 1, l1, st1)
                  else if c = 0 then Some (- 1, l1, st1)
                  else map_option (\<lambda>l2. (0, l2, st1\<lparr>cpus_list := Some str\<rparr>)) (list_clear l1))))"

fun append_n :: "string clist \<Rightarrow> string \<Rightarrow> nat \<Rightarrow> string clist" where
  "append_n m s 0 = m"
| "append_n m s (Suc k) = append_n (snd (list_append m s)) s k"

text \<open>\<open>atoi\<close> is \<open>(int) strtol\<close>.\<close>

partial_function (option) mask_expand_loop ::
    "string clist \<Rightarrow> string clist \<Rightarrow> (string clist \<times> string clist) option" where
  "mask_expand_loop l m =
    (case list_pop l of
       (None, l1) \<Rightarrow> Some (l1, m)
     | (Some s, l1) \<Rightarrow>
         if CHR ''*'' \<in> set s
         then (let rep = tl (dropWhile (\<lambda>c. c \<noteq> CHR ''*'') s);
                   n = long_to_int (fst (strtol rep))
               in mask_expand_loop l1 (append_n m (takeWhile (\<lambda>c. c \<noteq> CHR ''*'') s) (nat n)))
         else mask_expand_loop l1 (snd (list_append m s)))"

text \<open>The masks are stored in the order of the list; the result is that of the last one.\<close>

partial_function (option) mask_parse_loop ::
    "string clist \<Rightarrow> int \<Rightarrow> cpu_set list \<Rightarrow> (int \<times> cpu_set list) option" where
  "mask_parse_loop m rc masks =
    (case list_pop m of
       (None, m1) \<Rightarrow> Some (rc, masks)
     | (Some s, m1) \<Rightarrow>
         (case str_to_cpuset s of (r, setp) \<Rightarrow> mask_parse_loop m1 r (masks @ [setp])))"

text \<open>
  The memory a call may use: how many strings can be copied, and the free lists of
  \<open>lib/list.c\<close>.
\<close>

type_synonym list_mem = "nat \<times> freelist \<times> freelist \<times> freelist"

definition parse_cpu_mask_list ::
    "list_mem \<Rightarrow> string clist \<Rightarrow> affinity \<Rightarrow> (int \<times> string clist \<times> affinity) option" where
  "parse_cpu_mask_list mem l st =
    (case mem of (h, lf, nf, itf) \<Rightarrow>
      (case list_create True lf nf itf of
         (None, lf1) \<Rightarrow> None
       | (Some m0, lf1) \<Rightarrow>
           (case mask_expand_loop l m0 of
              None \<Rightarrow> None
            | Some (l1, m) \<Rightarrow>
                (case mask_parse_loop m 0 [] of
                   None \<Rightarrow> None
                 | Some (rc, masks) \<Rightarrow>
                     Some (rc, l1, st\<lparr>nlist_elements := list_count m, cpu_mask_list := Some masks\<rparr>)))))"

partial_function (option) user_option_loop ::
    "list_mem \<Rightarrow> bool \<Rightarrow> string clist \<Rightarrow> int \<Rightarrow> affinity \<Rightarrow> (int \<times> affinity) option" where
  "user_option_loop mem remote l rc st =
    (case list_pop l of
       (None, l1) \<Rightarrow> Some (rc, st)
     | (Some str, l1) \<Rightarrow>
         if take 5 str = ''cpus=''
         then (case parse_cpus_list (snd (list_push l1 (drop 5 str))) st of
                 None \<Rightarrow> None
               | Some (rc1, l2, st1) \<Rightarrow> user_option_loop mem remote l2 rc1 st1)
         else if take 6 str = ''masks=''
         then (case parse_cpu_mask_list mem (snd (list_push l1 (drop 6 str))) st of
                 None \<Rightarrow> None
               | Some (rc1, l2, st1) \<Rightarrow> user_option_loop mem remote l2 rc1 st1)
         else (case parse_option str remote st of
                 None \<Rightarrow> None
               | Some (rc1, st1) \<Rightarrow> user_option_loop mem remote l1 rc1 st1))"

definition parse_user_option ::
    "list_mem \<Rightarrow> string option \<Rightarrow> bool \<Rightarrow> affinity \<Rightarrow> (int \<times> affinity) option" where
  "parse_user_option mem arg remote st =
    (case arg of
       None \<Rightarrow> Some (0, st)
     | Some str \<Rightarrow>
         (case mem of (h, lf, nf, itf) \<Rightarrow>
           (case snd (list_split h lf nf itf (Some '','') str) of
              Split_list l \<Rightarrow> user_option_loop mem remote l 1 st
            | Split_null m \<Rightarrow> None
            | Split_nolist \<Rightarrow> None)))"

fun parse_argv :: "string list \<Rightarrow> affinity \<Rightarrow> int \<times> affinity" where
  "parse_argv [] st = (0, st)"
| "parse_argv (a # av) st =
    (if a = ''off'' then parse_argv av (st\<lparr>disabled := True\<rparr>)
     else if a = ''exclusive_only'' then parse_argv av (st\<lparr>exclusive_only := True\<rparr>)
     else if a = ''multiples_only'' then parse_argv av (st\<lparr>multiples_only := True\<rparr>)
     else (- 1, st))"

section \<open>The CPU position map\<close>

record cpu_info =
  ci_id :: int
  ci_pkgid :: int
  ci_coreid :: int

type_synonym topology = "(int \<Rightarrow> int) \<times> (int \<Rightarrow> int)"

text \<open>\<open>None\<close>: one of the files could not be read, and the CPU is not created.\<close>

definition cpu_info_create :: "topology \<Rightarrow> int \<Rightarrow> cpu_info option" where
  "cpu_info_create topo cid =
    (case topo of (pkg, core) \<Rightarrow>
       if pkg cid < 0 then None
       else if core cid < 0 then None
       else Some \<lparr>ci_id = cid, ci_pkgid = pkg cid, ci_coreid = core cid\<rparr>)"

definition cpu_info_cmp :: "cpu_info \<Rightarrow> cpu_info \<Rightarrow> int" where
  "cpu_info_cmp cpu1 cpu2 =
    (if ci_pkgid cpu1 = ci_pkgid cpu2 then ci_coreid cpu1 - ci_coreid cpu2
     else ci_pkgid cpu1 - ci_pkgid cpu2)"

text \<open>\<open>None\<close>: a CPU could not be created.\<close>

fun push_cpus :: "topology \<Rightarrow> cpu_info clist \<Rightarrow> nat \<Rightarrow> nat \<Rightarrow> cpu_info clist option" where
  "push_cpus topo l i 0 = Some l"
| "push_cpus topo l i (Suc k) =
    (case cpu_info_create topo (int i) of
       None \<Rightarrow> None
     | Some cpu \<Rightarrow> push_cpus topo (snd (list_push l cpu)) (i + 1) k)"

text \<open>The entries of the array are undefined (\<open>None\<close>) until the loop stores them.\<close>

definition create_cpu_position_map :: "list_mem \<Rightarrow> topology \<Rightarrow> int \<Rightarrow> affinity \<Rightarrow> (int \<times> affinity) option" where
  "create_cpu_position_map mem topo n st =
    (case mem of (h, lf, nf, itf) \<Rightarrow>
      (case list_create True lf nf itf of
         (None, lf1) \<Rightarrow> None
       | (Some l0, lf1) \<Rightarrow>
           (case push_cpus topo l0 0 (nat n) of
              None \<Rightarrow> Some (- 1, st)
            | Some l1 \<Rightarrow>
                (case list_sort l1 cpu_info_cmp of
                   None \<Rightarrow> None
                 | Some l2 \<Rightarrow>
                     (case list_iterator_create l2 of
                        (None, l3) \<Rightarrow> None
                      | (Some it, l3) \<Rightarrow>
                          (case while_next list_next (\<lambda>cpu (i, a). (i + 1, a[i := Some (ci_id cpu)])) l3 it
                                  (0, replicate (nat n) None) of
                             None \<Rightarrow> None
                           | Some ((i, a), l4) \<Rightarrow> Some (0, st\<lparr>cpu_position_map := Some a\<rparr>)))))))"

definition cpu_position_to_id :: "affinity \<Rightarrow> int \<Rightarrow> int option" where
  "cpu_position_to_id st n =
    (case cpu_position_map st of
       None \<Rightarrow> None
     | Some a \<Rightarrow> if 0 \<le> n \<and> n < int (length a) then a ! nat n else None)"

section \<open>Masks of tasks\<close>

definition get_cpus_per_task :: "affinity \<Rightarrow> int option" where
  "get_cpus_per_task st =
    (if requested_cpus_per_task st \<noteq> 0 then Some (requested_cpus_per_task st)
     else if ntasks st = 0 then None
     else Some (ncpus_available st sdiv ntasks st))"

text \<open>\<open>k\<close> CPUs from \<open>i\<close> on are left to look at; \<open>j\<close> of those before \<open>i\<close> are available.\<close>

fun to_available_loop :: "cpu_set \<Rightarrow> int \<Rightarrow> nat \<Rightarrow> int \<Rightarrow> nat \<Rightarrow> int" where
  "to_available_loop avail cpu i j 0 = - 1"
| "to_available_loop avail cpu i j (Suc k) =
    (if CPU_ISSET (int i) avail
     then (if cpu = j then int i else to_available_loop avail cpu (i + 1) (j + 1) k)
     else to_available_loop avail cpu (i + 1) j k)"

definition mask_to_available :: "affinity \<Rightarrow> int \<Rightarrow> int" where
  "mask_to_available st cpu = to_available_loop (cpus_available st) cpu 0 0 (nat (ncpus st))"

fun phys_loop :: "affinity \<Rightarrow> cpu_set \<Rightarrow> cpu_set \<Rightarrow> nat \<Rightarrow> nat \<Rightarrow> cpu_set option" where
  "phys_loop st lcpus setp i 0 = Some setp"
| "phys_loop st lcpus setp i (Suc k) =
    (if CPU_ISSET (int i) lcpus
     then (case cpu_position_to_id st (int i) of
             None \<Rightarrow> None
           | Some cpu \<Rightarrow> phys_loop st lcpus (CPU_SET (mask_to_available st cpu) setp) (i + 1) k)
     else phys_loop st lcpus setp (i + 1) k)"

definition cpu_set_physical_to_logical :: "affinity \<Rightarrow> cpu_set \<Rightarrow> cpu_set option" where
  "cpu_set_physical_to_logical st lcpus = phys_loop st lcpus {} 0 CPU_SETSIZE"

text \<open>The loop of \<open>generate_mask\<close>, \<open>k\<close> rounds; the result is the return code and the mask.\<close>

fun mask_loop :: "affinity \<Rightarrow> cpu_set \<Rightarrow> int \<Rightarrow> nat \<Rightarrow> (int \<times> cpu_set) option" where
  "mask_loop st setp cpu 0 = Some (0, setp)"
| "mask_loop st setp cpu (Suc k) =
    (case cpu_position_to_id st cpu of
       None \<Rightarrow> None
     | Some n \<Rightarrow>
         (let bt = mask_to_available st n
          in if bt < 0 then Some (- 1, setp)
             else mask_loop st (CPU_SET bt setp) ((cpu + 1) smod ncpus_available st) k))"

definition generate_mask :: "affinity \<Rightarrow> cpu_set \<Rightarrow> int \<Rightarrow> (int \<times> cpu_set) option" where
  "generate_mask st setp localid =
    (case get_cpus_per_task st of
       None \<Rightarrow> None
     | Some cpt \<Rightarrow>
         if cpt = 1
         then (case cpu_position_to_id st (localid + startcpu st) of
                 None \<Rightarrow> None
               | Some n \<Rightarrow>
                   (let cpu = mask_to_available st n
                    in if cpu < 0 then Some (- 1, setp) else Some (0, CPU_SET cpu setp)))
         else if ncpus_available st = 0 then None
         else mask_loop st setp ((localid * cpt + startcpu st) smod ncpus_available st) (nat cpt))"

fun mask_reverse_loop :: "affinity \<Rightarrow> cpu_set \<Rightarrow> int \<Rightarrow> nat \<Rightarrow> (int \<times> cpu_set) option" where
  "mask_reverse_loop st setp cpu 0 = Some (0, setp)"
| "mask_reverse_loop st setp cpu (Suc k) =
    (case cpu_position_to_id st cpu of
       None \<Rightarrow> None
     | Some n \<Rightarrow>
         (let bt = mask_to_available st n
          in if bt < 0 then Some (- 1, setp)
             else mask_reverse_loop st (CPU_SET bt setp)
                    (if cpu - 1 \<ge> 0 then cpu - 1 else ncpus_available st - 1) k))"

definition generate_mask_reverse :: "affinity \<Rightarrow> cpu_set \<Rightarrow> int \<Rightarrow> (int \<times> cpu_set) option" where
  "generate_mask_reverse st setp localid =
    (case get_cpus_per_task st of
       None \<Rightarrow> None
     | Some cpt \<Rightarrow>
         (let lastcpu = ncpus_available st - 1
          in if ncpus_available st = 0 then None
             else if cpt = 1
             then (case cpu_position_to_id st (lastcpu - (localid + startcpu st) smod ncpus_available st) of
                     None \<Rightarrow> None
                   | Some n \<Rightarrow>
                       (let cpu = mask_to_available st n
                        in if cpu < 0 then Some (- 1, setp) else Some (0, CPU_SET cpu setp)))
             else mask_reverse_loop st setp
                    (lastcpu - (localid * cpt + startcpu st) smod ncpus_available st) (nat cpt)))"

fun list_mask_loop :: "string \<Rightarrow> int \<Rightarrow> cpu_set \<Rightarrow> int \<Rightarrow> nat \<Rightarrow> cpu_set option" where
  "list_mask_loop cpus n setp idx 0 = Some setp"
| "list_mask_loop cpus n setp idx (Suc k) =
    (case cstr_to_cpu_id cpus (idx smod n) of
       None \<Rightarrow> None
     | Some c \<Rightarrow> list_mask_loop cpus n (CPU_SET c setp) (idx + 1) k)"

definition generate_mask_from_cpus_list :: "affinity \<Rightarrow> string \<Rightarrow> cpu_set \<Rightarrow> int \<Rightarrow> cpu_set option" where
  "generate_mask_from_cpus_list st cpus setp localid =
    (if nlist_elements st = 0 then None
     else if requested_cpus_per_task st \<noteq> 0
     then list_mask_loop cpus (nlist_elements st) setp (localid * requested_cpus_per_task st)
            (nat (requested_cpus_per_task st))
     else (case cstr_to_cpu_id cpus (localid smod nlist_elements st) of
             None \<Rightarrow> None
           | Some c \<Rightarrow> Some (CPU_SET c setp)))"

section \<open>Callbacks\<close>

text \<open>
  What SLURM says about the job: whether this is the remote side, the step id, the CPUs the
  job has on the node according to its environment and to the controller (-1 for a failed
  query), the CPUs per task of the step and the number of local tasks.
\<close>

record spank =
  sp_remote :: bool
  sp_stepid :: "32 word option"
  sp_env_cpus :: "string option"
  sp_query_cpus :: int
  sp_cpus_per_task :: "int option"
  sp_local_tasks :: "int option"

definition job_is_exclusive :: "spank \<Rightarrow> affinity \<Rightarrow> bool" where
  "job_is_exclusive sp st =
    (case sp_env_cpus sp of
       None \<Rightarrow> if sp_query_cpus sp < 0 then False else sp_query_cpus sp = ncpus st
     | Some val \<Rightarrow> (let n = str2int val in if n < 0 then False else n = ncpus st))"

definition job_step_is_batch :: "spank \<Rightarrow> bool" where
  "job_step_is_batch sp =
    (case sp_stepid sp of None \<Rightarrow> False | Some stepid \<Rightarrow> stepid = 0xfffffffe)"

definition slurm_spank_init ::
    "list_mem \<Rightarrow> topology \<Rightarrow> int \<Rightarrow> spank \<Rightarrow> string list \<Rightarrow> affinity \<Rightarrow> (int \<times> affinity) option" where
  "slurm_spank_init mem topo online sp av st =
    (if \<not> sp_remote sp then Some (0, st)
     else (case parse_argv av st of
       (r, st1) \<Rightarrow>
         if r < 0 then Some (- 1, st1)
         else (let st2 = st1\<lparr>ncpus := long_to_int online\<rparr>
               in if ncpus st2 < 0 then Some (- 1, st2)
                  else (case create_cpu_position_map mem topo (ncpus st2) st2 of
                          None \<Rightarrow> None
                        | Some (r2, st3) \<Rightarrow>
                            if r2 < 0 then Some (- 1, st3)
                            else (case sp_local_tasks sp of
                                    None \<Rightarrow> Some (- 1, st3)
                                  | Some n \<Rightarrow> Some (0, st3\<lparr>ntasks := n\<rparr>))))))"

definition slurm_spank_user_init :: "spank \<Rightarrow> affinity \<Rightarrow> (int \<times> affinity) option" where
  "slurm_spank_user_init sp st0 =
    (if \<not> sp_remote sp then Some (0, st0)
     else if job_step_is_batch sp then Some (0, st0)
     else (let st = st0\<lparr>enabled := False\<rparr>
       in if exclusive_only st \<and> \<not> job_is_exclusive sp st then Some (0, st)
          else (let st1 = (if requested_cpus_per_task st = 0
                           then (case sp_cpus_per_task sp of
                                   None \<Rightarrow> st
                                 | Some cpt \<Rightarrow> if cpt > 1 then st\<lparr>requested_cpus_per_task := cpt\<rparr> else st)
                           else st)
            in if requested_cpus_per_task st1 \<noteq> 0 \<or> cpus_list st1 \<noteq> None \<or> cpu_mask_list st1 \<noteq> None
               then Some (0, st1\<lparr>enabled := True\<rparr>)
               else if ntasks st1 > ncpus_available st1 then Some (0, st1)
               else if ntasks st1 = 0 then None
               else if ncpus_available st1 smod ntasks st1 = 0 then Some (0, st1\<lparr>enabled := True\<rparr>)
               else if multiples_only st1 \<or> ncpus_available st1 sdiv ntasks st1 = 1 then Some (0, st1)
               else Some (0, st1\<lparr>requested_cpus_per_task := ncpus_available st1 sdiv ntasks st1,
                                 enabled := True\<rparr>))))"

text \<open>\<open>aff\<close> is the mask of \<open>sched_getaffinity\<close>, \<open>None\<close> when the call fails.\<close>

definition get_cpus_available :: "cpu_set option \<Rightarrow> affinity \<Rightarrow> int \<times> affinity" where
  "get_cpus_available aff st =
    (case aff of
       None \<Rightarrow> (- 1, st)
     | Some m \<Rightarrow> (cpu_set_count m, st\<lparr>cpus_available := m\<rparr>))"

definition slurm_spank_init_post_opt :: "spank \<Rightarrow> cpu_set option \<Rightarrow> affinity \<Rightarrow> int \<times> affinity" where
  "slurm_spank_init_post_opt sp aff st =
    (if \<not> sp_remote sp then (0, st)
     else (case get_cpus_available aff st of (n, st1) \<Rightarrow> (0, st1\<lparr>ncpus_available := n\<rparr>)))"

definition check_task_cpus_available :: "cpu_set option \<Rightarrow> affinity \<Rightarrow> int \<times> affinity" where
  "check_task_cpus_available aff st =
    (case get_cpus_available aff st of
       (n, st1) \<Rightarrow>
         if n \<noteq> 0 \<and> n \<noteq> ncpus_available st1
         then (if ncpus_available st1 > 0 then (- 1, st1) else (0, st1\<lparr>ncpus_available := n\<rparr>))
         else (0, st1))"

text \<open>
  The result: the return code, the state, and the mask given to \<open>sched_setaffinity\<close> when it is
  called; \<open>set_ok\<close> says whether that call succeeds.
\<close>

definition slurm_spank_task_init ::
    "cpu_set option \<Rightarrow> bool \<Rightarrow> int \<Rightarrow> affinity \<Rightarrow> (int \<times> affinity \<times> cpu_set option) option" where
  "slurm_spank_task_init aff set_ok localid st0 =
    (if \<not> enabled st0 \<or> disabled st0 then Some (0, st0, None)
     else (case check_task_cpus_available aff st0 of
       (r, st) \<Rightarrow>
         if r < 0 then Some (0, st, None)
         else if ncpus_available st \<le> 1 then Some (0, st, None)
         else if ntasks st \<le> 1 \<and> requested_cpus_per_task st = 0 then Some (0, st, None)
         else if ntasks st > ncpus_available st then Some (0, st, None)
         else (let st1 = (if requested_cpus_per_task st > ncpus_available st
                          then st\<lparr>requested_cpus_per_task := 0\<rparr> else st)
               in case (case cpus_list st1 of
                          Some cpus \<Rightarrow>
                            Option.bind (generate_mask_from_cpus_list st1 cpus {} localid)
                              (cpu_set_physical_to_logical st1)
                        | None \<Rightarrow>
                            (case cpu_mask_list st1 of
                               Some masks \<Rightarrow>
                                 (if nlist_elements st1 = 0 then None
                                  else (let i = localid smod nlist_elements st1
                                        in if 0 \<le> i \<and> i < int (length masks)
                                           then cpu_set_physical_to_logical st1 (masks ! nat i)
                                           else None))
                             | None \<Rightarrow>
                                 map_option snd
                                   (if is_reverse st1 then generate_mask_reverse st1 {} localid
                                    else generate_mask st1 {} localid))) of
                    None \<Rightarrow> None
                  | Some setp \<Rightarrow> Some (if set_ok then 0 else - 1, st1, Some setp))))"

end
