(* ===== verification/CpuMaskLaws.thy ===== *)
theory CpuMaskLaws
  imports CpuMask
begin

text \<open>
  What the parsers of \<open>cpuset-str.c\<close> do with a comma-separated list of entries
  \<open>first-last:stride\<close>, and which entries \<open>cpuset_to_cstr\<close> writes.
\<close>

section \<open>Entries\<close>

type_synonym entry = "nat \<times> nat \<times> nat"

fun entry_text :: "entry \<Rightarrow> string" where
  "entry_text (a, b, s) =
    dec a @ (if a < b then ''-'' @ dec b @ (if s \<noteq> 1 then '':'' @ dec s else []) else [])"

fun entry_cpus :: "entry \<Rightarrow> nat list" where
  "entry_cpus (a, b, s) = map (\<lambda>k. a + k * s) [0 ..< Suc ((b - a) div s)]"

fun entry_valid :: "entry \<Rightarrow> bool" where
  "entry_valid (a, b, s) \<longleftrightarrow> a \<le> b \<and> b < CPU_SETSIZE \<and> 0 < s \<and> s < 2 ^ 31"

fun comma_list :: "string list \<Rightarrow> string" where
  "comma_list [] = []"
| "comma_list [x] = x"
| "comma_list (x # y # xs) = x @ '','' @ comma_list (y # xs)"

lemma comma_list_Cons: "comma_list (x # xs) = x @ (if xs = [] then [] else '','' @ comma_list xs)"
  by (cases xs) auto

lemma entry_cpus_set: "0 < s \<Longrightarrow> a \<le> b \<Longrightarrow> set (entry_cpus (a, b, s)) = {x. \<exists>k. x = a + k * s \<and> x \<le> b}"
proof -
  assume s: "0 < s" "a \<le> b"
  have "k \<le> (b - a) div s \<longleftrightarrow> a + k * s \<le> b" for k
    unfolding less_eq_div_iff_mult_less_eq[OF s(1)] le_diff_conv2[OF s(2)] add.commute[of a] ..
  then have "(\<lambda>k. a + k * s) ` {k. k \<le> (b - a) div s} = {x. \<exists>k. x = a + k * s \<and> x \<le> b}" by blast
  moreover have "set [0 ..< Suc n] = {k. k \<le> n}" for n by auto
  ultimately show ?thesis by (simp only: entry_cpus.simps set_map)
qed

lemma entry_cpus_step:
  assumes "0 < s"
  shows "entry_cpus (a, b, s) = a # (if a + s \<le> b then entry_cpus (a + s, b, s) else [])"
proof (cases "a + s \<le> b")
  case True
  then have "(b - a) div s = Suc ((b - (a + s)) div s)"
    using assms le_div_geq[of s "b - a"] by simp
  moreover have "[0 ..< Suc (Suc n)] = 0 # map Suc [0 ..< Suc n]" for n
    by (simp add: map_Suc_upt upt_conv_Cons del: upt_Suc)
  ultimately show ?thesis using True by (simp add: o_def add.assoc del: upt_Suc)
next
  case False
  then have "(b - a) div s = 0" using assms by (simp add: div_eq_0_iff)
  then show ?thesis using False by simp
qed

section \<open>Tokens\<close>

lemma dec_not: "\<not> isdigit c \<Longrightarrow> c \<notin> set (dec n)"
  using dec_digits by blast

lemma sep_digits: "\<not> isdigit (CHR '','')" "\<not> isdigit (CHR ''-'')" "\<not> isdigit (CHR '':'')"
  by (simp_all add: isdigit_def)

lemmas dec_seps = sep_digits[THEN dec_not]

lemma next_skip: "c \<notin> set xs \<Longrightarrow> nexttoken (Some (xs @ ys)) c = nexttoken (Some ys) c"
proof -
  assume "c \<notin> set xs"
  then have "dropWhile (\<lambda>d. d \<noteq> c) (xs @ ys) = dropWhile (\<lambda>d. d \<noteq> c) ys"
    by (intro dropWhile_append2) auto
  then show ?thesis by (simp only: nexttoken.simps)
qed

lemma next_here [simp]: "nexttoken (Some (c # ys)) c = Some ys"
  by (simp add: nexttoken.simps)

lemma next_nil [simp]: "nexttoken (Some []) c = None"
  by (simp add: nexttoken.simps)

lemma next_other: "c \<noteq> d \<Longrightarrow> nexttoken (Some (d # ys)) c = nexttoken (Some ys) c"
  by (simp add: nexttoken.simps)

definition tail_ok :: "string \<Rightarrow> bool" where
  "tail_ok r \<longleftrightarrow> r = [] \<or> (\<exists>q. r = CHR '','' # q)"

lemma tail_not_digit: "tail_ok r \<Longrightarrow> r = [] \<or> \<not> isdigit (hd r)"
  using sep_digits by (auto simp: tail_ok_def)

lemma tail_not_before:
  assumes "tail_ok r" "nexttoken (Some r) c = Some c1" "c \<noteq> CHR '',''"
  shows "\<not> before c1 (nexttoken (Some r) (CHR '',''))"
proof -
  from assms obtain q where r: "r = CHR '','' # q" by (auto simp: tail_ok_def)
  then have "nexttoken (Some q) c = Some c1" using assms(2,3) by (simp add: next_other)
  then have "length c1 < length q" by (rule nexttoken_shorter)
  then show ?thesis using r by (simp add: before_def)
qed

lemma tail_before:
  assumes "tail_ok r"
  shows "before (xs @ r) (nexttoken (Some r) (CHR '',''))"
  using assms by (auto simp: tail_ok_def before_def)

lemma strtoul_dec:
  assumes "n < 2 ^ 64" "r = [] \<or> \<not> isdigit (hd r)"
  shows "strtoul (dec n @ r) = (word_of_nat n, r)"
proof -
  have "int n < 2 ^ 64" using assms(1) by simp
  moreover have "\<forall>c\<in>set (dec n). isdigit c" using dec_digits by blast
  ultimately show ?thesis using strtoul_digits[of "dec n" r] assms(2) by simp
qed

lemma dec_head: "take 1 (dec n @ r) = ''0'' \<longleftrightarrow> n = 0"
proof -
  have "hd (dec n) = CHR ''0'' \<longleftrightarrow> n = 0"
  proof (induction n rule: dec.induct)
    case (1 n)
    show ?case
    proof (cases "n < 10")
      case True
      from less_10_cases[OF this] show ?thesis by (subst dec.simps) (auto simp: digit_char_def)
    next
      case False
      then show ?thesis using 1 by (subst dec.simps) auto
    qed
  qed
  moreover obtain c cs where "dec n = c # cs" using dec_ne by (meson list.exhaust)
  ultimately show ?thesis by simp
qed

lemma dec_0: "dec 0 = ''0''"
  by (subst dec.simps) (simp add: digit_char_def)

lemma not_leading_zero:
  assumes "(word_of_nat a :: ulong) = 0 \<longleftrightarrow> a = 0" "x = [] \<or> hd x \<noteq> CHR ''0''"
  shows "\<not> leading_zero (word_of_nat a) (dec a @ x)"
proof (cases "a = 0")
  case True
  then show ?thesis using assms by (cases x) (auto simp: leading_zero_def dec_0)
next
  case False
  then show ?thesis using assms dec_head[of a x] by (simp add: leading_zero_def)
qed

lemma of_nat_small:
  assumes "n < 2 ^ 31"
  shows "unat (word_of_nat n :: ulong) = n"
  using assms by (simp add: unat_of_nat)

lemma cstr_entry_text:
  assumes "entry_valid (a, b, s)" "tail_ok r"
  shows "cstr_entry (entry_text (a, b, s) @ r) =
    Some (word_of_nat a, word_of_nat b, if a < b then word_of_nat s else 1, r)"
proof -
  have v: "a \<le> b" "b < 1024" "a < 1024" "0 < s" "s < 2 ^ 31" using assms(1) by (auto simp: CPU_SETSIZE_def)
  have ua: "unat (word_of_nat a :: ulong) = a" "unat (word_of_nat b :: ulong) = b"
    using v by (simp_all add: of_nat_small)
  have nge: "\<not> (word_of_nat a :: ulong) \<ge> 1024" "\<not> (word_of_nat b :: ulong) \<ge> 1024"
    using v ua by (simp_all add: word_le_nat_alt)
  have z: "(word_of_nat a :: ulong) = 0 \<longleftrightarrow> a = 0" using ua(1) unat_eq_0[of "word_of_nat a :: ulong"] by argo
  note nd = tail_not_digit[OF assms(2)]
  show ?thesis
  proof (cases "a < b")
    case False
    then have ab: "a = b" using v by simp
    have t: "entry_text (a, b, s) @ r = dec a @ r" using False by simp
    have st: "strtoul (dec a @ r) = (word_of_nat a, r)" using strtoul_dec[OF _ nd, of a] v by simp
    have z2: "\<not> leading_zero (word_of_nat a) (dec a @ r)"
      using not_leading_zero[OF z, of r] assms(2) by (auto simp: tail_ok_def)
    have c: "nexttoken (Some (dec a @ r)) (CHR ''-'') = nexttoken (Some r) (CHR ''-'')"
      "nexttoken (Some (dec a @ r)) (CHR '','') = nexttoken (Some r) (CHR '','')"
      using dec_seps by (simp_all add: next_skip)
    show ?thesis
      unfolding t cstr_entry_def st c using nge z2 tail_not_before[OF assms(2), of "CHR ''-''"] ab
      by (auto simp: Let_def split: option.splits)
  next
    case True
    define u where "u = (if s \<noteq> 1 then '':'' @ dec s else []) @ r"
    have t: "entry_text (a, b, s) @ r = dec a @ CHR ''-'' # dec b @ u" using True by (simp add: u_def)
    have ndu: "u = [] \<or> \<not> isdigit (hd u)" using nd sep_digits by (auto simp: u_def)
    have st: "strtoul (dec a @ CHR ''-'' # dec b @ u) = (word_of_nat a, CHR ''-'' # dec b @ u)"
      using strtoul_dec[of a "CHR ''-'' # dec b @ u"] v sep_digits by simp
    have st1: "strtoul (dec b @ u) = (word_of_nat b, u)" using strtoul_dec[OF _ ndu, of b] v by simp
    have c1: "nexttoken (Some (dec a @ CHR ''-'' # dec b @ u)) (CHR ''-'') = Some (dec b @ u)"
      using dec_seps by (simp add: next_skip)
    have cu: "nexttoken (Some u) (CHR '','') = nexttoken (Some r) (CHR '','')"
      using dec_seps by (simp add: u_def next_skip next_other)
    have c2: "nexttoken (Some (dec a @ CHR ''-'' # dec b @ u)) (CHR '','') = nexttoken (Some r) (CHR '','')"
      using dec_seps cu by (simp add: next_skip next_other)
    have bf: "before (dec b @ u) (nexttoken (Some r) (CHR '',''))"
      using tail_before[OF assms(2), of "dec b @ (if s \<noteq> 1 then '':'' @ dec s else [])"] by (simp add: u_def)
    have z2: "\<not> leading_zero (word_of_nat a) (dec a @ CHR ''-'' # dec b @ u)"
      using not_leading_zero[OF z, of "CHR ''-'' # dec b @ u"] by simp
    have e: "cstr_entry (entry_text (a, b, s) @ r) = (case nexttoken (Some (dec b @ u)) (CHR '':'') of
        None \<Rightarrow> Some (word_of_nat a, word_of_nat b, 1, u)
      | Some c3 \<Rightarrow>
          if \<not> before c3 (nexttoken (Some r) (CHR '','')) then Some (word_of_nat a, word_of_nat b, 1, u)
          else (case strtoul c3 of
            (s, e2) \<Rightarrow> if length e2 = length c3 then None else Some (word_of_nat a, word_of_nat b, s, e2)))"
      unfolding t cstr_entry_def st c1 c2 using nge z2 bf st1
      by (simp add: Let_def cong: if_cong option.case_cong)
    show ?thesis
    proof (cases "s = 1")
      case s1: True
      then have u: "u = r" by (simp add: u_def)
      have "nexttoken (Some (dec b @ u)) (CHR '':'') = nexttoken (Some r) (CHR '':'')"
        using dec_seps u by (simp add: next_skip)
      then show ?thesis
        unfolding e using s1 True u tail_not_before[OF assms(2), of "CHR '':''"] by (auto split: option.splits)
    next
      case False
      then have u: "u = CHR '':'' # dec s @ r" by (simp add: u_def)
      have "nexttoken (Some (dec b @ u)) (CHR '':'') = Some (dec s @ r)"
        using dec_seps u by (simp add: next_skip)
      moreover have "strtoul (dec s @ r) = (word_of_nat s, r)" using strtoul_dec[OF _ nd, of s] v by simp
      ultimately show ?thesis
        unfolding e using True tail_before[OF assms(2), of "dec s"] by simp
    qed
  qed
qed

section \<open>The loops of cstr_to_cpuset\<close>

lemma stride_set_result:
  assumes "a \<le> b" "b < CPU_SETSIZE" "0 < s" "s < 2 ^ 31"
  shows "stride_set (word_of_nat a) (word_of_nat b) (word_of_nat s) m = Some (m \<union> set (entry_cpus (a, b, s)))"
  using assms(1)
proof (induction "b - a" arbitrary: a m rule: less_induct)
  case less
  have bd: "a < 2 ^ 31" "b < 2 ^ 31" "a < 1024" "a + s < 2 ^ 64"
    using less.prems assms by (auto simp: CPU_SETSIZE_def)
  have u: "unat (word_of_nat a :: ulong) = a" "unat (word_of_nat b :: ulong) = b"
    using bd by (simp_all only: of_nat_small)
  have le: "(word_of_nat a :: ulong) \<le> word_of_nat b" using less.prems u by (simp only: word_le_nat_alt)
  have us: "unat (word_of_nat (a + s) :: ulong) = a + s" using bd(4) by (simp add: unat_of_nat del: of_nat_add)
  have step: "stride_set (word_of_nat a) (word_of_nat b) (word_of_nat s) m =
      stride_set (word_of_nat (a + s)) (word_of_nat b) (word_of_nat s) (insert a m)"
    using le u(1) bd(3) by (subst stride_set.simps) (simp add: CPU_SET_def CPU_SETSIZE_def)
  show ?case
  proof (cases "a + s \<le> b")
    case True
    then have "stride_set (word_of_nat (a + s)) (word_of_nat b) (word_of_nat s) (insert a m) =
        Some (insert a m \<union> set (entry_cpus (a + s, b, s)))"
      using less.hyps[of "a + s" "insert a m"] assms(3) less.prems by simp
    then show ?thesis
      unfolding step using True entry_cpus_step[OF assms(3), of a b] by (simp del: entry_cpus.simps)
  next
    case False
    then have "\<not> (word_of_nat (a + s) :: ulong) \<le> word_of_nat b" by (simp only: word_le_nat_alt us u not_False_eq_True)
    then show ?thesis
      unfolding step using False entry_cpus_step[OF assms(3), of a b]
      by (subst stride_set.simps) (simp del: entry_cpus.simps of_nat_add)
  qed
qed

lemma comma_list_tail:
  "comma_list (map entry_text (t # ts)) =
    entry_text t @ (if ts = [] then [] else CHR '','' # comma_list (map entry_text ts))"
  by (cases ts) auto

lemma entry_text_next:
  "nexttoken (Some (entry_text t @ r)) (CHR '','') = nexttoken (Some r) (CHR '','')"
proof -
  obtain a b s where t: "t = (a, b, s)" by (cases t)
  have "CHR '','' \<notin> set (entry_text t)" using dec_seps(1) by (auto simp: t)
  then show ?thesis by (rule next_skip)
qed

lemma entry_stride:
  assumes "entry_valid (a, b, s)"
  shows "stride_set (word_of_nat a) (word_of_nat b) (if a < b then word_of_nat s else 1) m =
    Some (m \<union> set (entry_cpus (a, b, s)))"
proof (cases "a < b")
  case True
  then show ?thesis using assms stride_set_result[of a b s] by simp
next
  case False
  then have ab: "a = b" "b < CPU_SETSIZE" "0 < s" using assms by auto
  then show ?thesis using stride_set_result[of a b 1 m] by simp
qed

lemma cstr_loop_result:
  assumes "ts \<noteq> []" "\<forall>t\<in>set ts. entry_valid t"
  shows "cstr_loop m (comma_list (map entry_text ts)) = Some (0, m \<union> (\<Union>t\<in>set ts. set (entry_cpus t)))"
  using assms
proof (induction ts arbitrary: m)
  case (Cons t ts)
  obtain a b s where t: "t = (a, b, s)" by (cases t)
  have v: "entry_valid (a, b, s)" using Cons.prems(2) t by simp
  then have ab: "a \<le> b" "b < 2 ^ 31" by (auto simp: CPU_SETSIZE_def)
  let ?r = "if ts = [] then [] else CHR '','' # comma_list (map entry_text ts)"
  have tl: "tail_ok ?r" by (auto simp: tail_ok_def)
  have le: "(word_of_nat a :: ulong) \<le> word_of_nat b"
    using ab by (simp only: word_le_nat_alt of_nat_small[of a] of_nat_small[of b] order_le_less_trans)
  note step = cstr_loop.simps[of m "entry_text t @ ?r"]
  show ?case
  proof (cases "ts = []")
    case True
    then show ?thesis
      unfolding comma_list_tail step entry_text_next unfolding t cstr_entry_text[OF v tl]
      using le entry_stride[OF v, of m] by (simp del: entry_cpus.simps entry_text.simps)
  next
    case False
    have "cstr_loop (m \<union> set (entry_cpus t)) (comma_list (map entry_text ts)) =
        Some (0, m \<union> set (entry_cpus t) \<union> (\<Union>t\<in>set ts. set (entry_cpus t)))"
      by (rule Cons.IH) (use False Cons.prems(2) in auto)
    then show ?thesis
      unfolding comma_list_tail step entry_text_next unfolding t cstr_entry_text[OF v tl]
      using le entry_stride[OF v, of m] False by (simp del: entry_cpus.simps entry_text.simps add: Un_assoc)
  qed
qed simp

lemma entry_text_ne: "entry_text t \<noteq> []"
  by (cases t) auto

lemma cstr_to_cpuset_result:
  assumes "\<forall>t\<in>set ts. entry_valid t"
  shows "cstr_to_cpuset (comma_list (map entry_text ts)) = Some (0, \<Union>t\<in>set ts. set (entry_cpus t))"
proof (cases ts)
  case Nil
  then show ?thesis by (simp add: cstr_to_cpuset_def)
next
  case (Cons t us)
  have "comma_list (map entry_text ts) \<noteq> []"
    unfolding Cons comma_list_tail using entry_text_ne by simp
  then show ?thesis using cstr_loop_result[of ts "{}"] assms Cons by (simp add: cstr_to_cpuset_def)
qed

section \<open>What cpuset_to_cstr writes\<close>

function cstr_entries :: "cpu_set \<Rightarrow> nat \<Rightarrow> entry list" where
  "cstr_entries m i =
    (if i < CPU_SETSIZE
     then (if i \<in> m
           then (let run = run_length m (i + 1) (CPU_SETSIZE - (i + 1))
                 in if run = 0 then (i, i, 1) # cstr_entries m (i + 1)
                    else if run = 1 then (i, i, 1) # (i + 1, i + 1, 1) # cstr_entries m (i + 1 + 1)
                    else (i, i + run, 1) # cstr_entries m (i + run + 1))
           else cstr_entries m (i + 1))
     else [])"
  by pat_completeness auto
termination by (relation "measure (\<lambda>(m, i). CPU_SETSIZE - i)") auto

declare cstr_entries.simps [simp del]

lemma isset_nat: "i < CPU_SETSIZE \<Longrightarrow> CPU_ISSET (int i) m \<longleftrightarrow> i \<in> m"
  by (simp add: CPU_ISSET_def)

lemma run_length_spec:
  "j + k \<le> CPU_SETSIZE \<Longrightarrow>
    run_length m j k \<le> k \<and> {j ..< j + run_length m j k} \<subseteq> m \<and>
    (run_length m j k < k \<longrightarrow> j + run_length m j k \<notin> m)"
proof (induction k arbitrary: j)
  case (Suc k)
  show ?case
  proof (cases "j \<in> m")
    case True
    have "run_length m j (Suc k) = Suc (run_length m (Suc j) k)"
      using True Suc.prems by (simp add: isset_nat)
    moreover have "{j ..< j + Suc n} = insert j {Suc j ..< Suc j + n}" for n by auto
    ultimately show ?thesis using Suc.IH[of "Suc j"] Suc.prems True by auto
  next
    case False
    then show ?thesis using Suc.prems by (simp add: isset_nat)
  qed
qed simp

lemma to_cstr_entries: "to_cstr_loop m i = concat (map (\<lambda>t. entry_text t @ '','') (cstr_entries m i))"
proof (induction m i rule: to_cstr_loop.induct)
  case (1 m i)
  show ?case
    using 1 isset_nat[of i m]
    by (subst to_cstr_loop.simps, subst cstr_entries.simps) (auto simp: Let_def)
qed

lemma cstr_entries_spec:
  "(\<forall>t\<in>set (cstr_entries m i). entry_valid t) \<and>
    (\<Union>t\<in>set (cstr_entries m i). set (entry_cpus t)) = {x\<in>m. i \<le> x \<and> x < CPU_SETSIZE}"
proof (induction m i rule: cstr_entries.induct)
  case (1 m i)
  show ?case
  proof (cases "i < CPU_SETSIZE \<and> i \<in> m")
    case False
    have "i < CPU_SETSIZE \<Longrightarrow> {x\<in>m. i \<le> x \<and> x < CPU_SETSIZE} = {x\<in>m. i + 1 \<le> x \<and> x < CPU_SETSIZE}"
      using False by (auto simp: Suc_le_eq order_le_less)
    moreover have "cstr_entries m i = (if i < CPU_SETSIZE then cstr_entries m (i + 1) else [])"
      using False by (subst cstr_entries.simps) auto
    ultimately show ?thesis using 1(4) False by (cases "i < CPU_SETSIZE") (simp_all del: entry_cpus.simps entry_valid.simps)
  next
    case True
    define run where "run = run_length m (i + 1) (CPU_SETSIZE - (i + 1))"
    have r: "i + run < CPU_SETSIZE" "{i + 1 ..< i + 1 + run} \<subseteq> m"
      using run_length_spec[of "i + 1" "CPU_SETSIZE - (i + 1)" m] True by (auto simp: run_def)
    have one: "set (entry_cpus (a, b, 1)) = {a .. b}" if "a \<le> b" for a b
      using entry_cpus_set[of 1 a b] that by (auto simp: le_iff_add simp del: entry_cpus.simps)
    have "x \<in> m" if "i \<le> x" "x \<le> i + run" for x
      using that r(2) True by (cases "x = i") auto
    then have split: "{x\<in>m. i \<le> x \<and> x < CPU_SETSIZE} = {i .. i + run} \<union> {x\<in>m. i + run + 1 \<le> x \<and> x < CPU_SETSIZE}"
      using r(1) by auto
    consider "run = 0" | "run = 1" | "run \<noteq> 0" "run \<noteq> 1" by blast
    then show ?thesis
    proof cases
      case a: 1
      have "cstr_entries m i = (i, i, 1) # cstr_entries m (i + 1)"
        using True a by (subst cstr_entries.simps, unfold run_def[symmetric]) (simp add: Let_def)
      then show ?thesis
        using 1(1)[OF _ _ run_def] True a one[of i i] split by (simp del: entry_cpus.simps)
    next
      case b: 2
      have "cstr_entries m i = (i, i, 1) # (i + 1, i + 1, 1) # cstr_entries m (i + 1 + 1)"
        using True b by (subst cstr_entries.simps, unfold run_def[symmetric]) (simp add: Let_def)
      moreover have "{i .. i + 1} = {i} \<union> {i + 1}" by auto
      ultimately show ?thesis
        using 1(2)[OF _ _ run_def] True b one[of i i] one[of "i + 1" "i + 1"] split r(1)
        by (simp del: entry_cpus.simps)
    next
      case c: 3
      have "cstr_entries m i = (i, i + run, 1) # cstr_entries m (i + run + 1)"
        using True c by (subst cstr_entries.simps, unfold run_def[symmetric]) (simp add: Let_def)
      then show ?thesis
        using 1(3)[OF _ _ run_def] True c one[of i "i + run"] split r(1) by (simp del: entry_cpus.simps)
    qed
  qed
qed

lemma concat_commas: "ts \<noteq> [] \<Longrightarrow> concat (map (\<lambda>t. f t @ '','') ts) = comma_list (map f ts) @ '',''"
  by (induction ts) (auto simp: comma_list_Cons)

lemma cpuset_to_cstr_text: "cpuset_to_cstr m = comma_list (map entry_text (cstr_entries m 0))"
proof (cases "cstr_entries m 0 = []")
  case True
  then show ?thesis by (simp add: cpuset_to_cstr_def to_cstr_entries)
next
  case False
  then show ?thesis using concat_commas[OF False, of entry_text] by (simp add: cpuset_to_cstr_def to_cstr_entries)
qed

lemma cstr_round:
  assumes "m \<subseteq> {..< CPU_SETSIZE}"
  shows "cstr_to_cpuset (cpuset_to_cstr m) = Some (0, m)"
proof -
  have "{x\<in>m. 0 \<le> x \<and> x < CPU_SETSIZE} = m" using assms by auto
  then show ?thesis
    unfolding cpuset_to_cstr_text
    using cstr_to_cpuset_result[of "cstr_entries m 0"] cstr_entries_spec[of m 0] by simp
qed

text \<open>
  No list is longer than 3415 characters, the comma that is overwritten included: two entries
  of at most 5 characters take at least three CPU numbers, one takes at least two.
\<close>

lemma dec_len: "n < CPU_SETSIZE \<Longrightarrow> length (dec n) \<le> 4"
  using dec_length_bound[of n 3] by (simp add: CPU_SETSIZE_def)

lemma to_cstr_skip: "i < CPU_SETSIZE \<Longrightarrow> i \<notin> m \<Longrightarrow> to_cstr_loop m i = to_cstr_loop m (i + 1)"
  by (subst to_cstr_loop.simps) (simp add: isset_nat)

lemma to_cstr_length: "i \<le> CPU_SETSIZE \<Longrightarrow> 3 * length (to_cstr_loop m i) \<le> 10 * (CPU_SETSIZE + 1 - i)"
proof (induction "CPU_SETSIZE - i" arbitrary: i rule: less_induct)
  case less
  show ?case
  proof (cases "i < CPU_SETSIZE")
    case False
    then show ?thesis by (subst to_cstr_loop.simps) simp
  next
    case i: True
    show ?thesis
    proof (cases "i \<in> m")
      case False
      then have "to_cstr_loop m i = to_cstr_loop m (i + 1)"
        using i by (rule to_cstr_skip[rotated])
      moreover have "3 * length (to_cstr_loop m (i + 1)) \<le> 10 * (CPU_SETSIZE + 1 - (i + 1))"
        using less.hyps[of "i + 1"] i by simp
      ultimately show ?thesis by simp
    next
      case True
      define run where "run = run_length m (i + 1) (CPU_SETSIZE - (i + 1))"
      have r: "i + run < CPU_SETSIZE" "i + 1 + run < CPU_SETSIZE \<longrightarrow> i + 1 + run \<notin> m"
        using run_length_spec[of "i + 1" "CPU_SETSIZE - (i + 1)" m] i by (auto simp: run_def)
      have gap: "3 * length (to_cstr_loop m (i + run + 1)) \<le> 10 * (CPU_SETSIZE - (i + run + 1))"
      proof (cases "i + run + 1 < CPU_SETSIZE")
        case True
        then have "to_cstr_loop m (i + run + 1) = to_cstr_loop m (i + run + 1 + 1)"
          using r(2) to_cstr_skip[of "i + run + 1" m] by simp
        then show ?thesis using less.hyps[of "i + run + 1 + 1"] True by simp
      next
        case False
        then show ?thesis by (subst to_cstr_loop.simps) simp
      qed
      have d: "length (dec i) \<le> 4" "length (dec (i + run)) \<le> 4" using dec_len r(1) by simp_all
      have "to_cstr_loop m i = (if run = 0 then dec i @ '','' @ to_cstr_loop m (i + 1)
          else if run = 1 then dec i @ '','' @ dec (i + 1) @ '','' @ to_cstr_loop m (i + 1 + 1)
          else dec i @ ''-'' @ dec (i + run) @ '','' @ to_cstr_loop m (i + run + 1))"
        using True i by (subst to_cstr_loop.simps, unfold run_def[symmetric]) (simp add: isset_nat Let_def)
      then show ?thesis using d gap r(1) by (simp split: if_splits)
    qed
  qed
qed

end
