(* ===== verification/CpuHexLaws.thy ===== *)
theory CpuHexLaws
  imports CpuMaskLaws
begin

text \<open>
  Hexadecimal masks: the value \<open>s_to_cpuset\<close> reads, the chunks \<open>cpuset_to_hex\<close> writes and what
  \<open>hex_to_cpuset\<close> makes of them.
\<close>

section \<open>Digits\<close>

definition hex_char :: "nat \<Rightarrow> char" where
  "hex_char n = ''0123456789abcdef'' ! n"

lemma less_16_cases: "n < 16 \<Longrightarrow> n \<in> {0, 1, 2, 3, 4, 5, 6, 7, 8, 9, 10, 11, 12, 13, 14, 15 :: nat}"
  by (simp, presburger)

lemma hex_char_val [simp]: "n < 16 \<Longrightarrow> char_to_val (hex_char n) = int n"
  by (drule less_16_cases) (auto simp: hex_char_def char_to_val_def)

lemma char_to_val_range: "char_to_val c = - 1 \<or> 0 \<le> char_to_val c \<and> char_to_val c < 16"
  by (auto simp: char_to_val_def Let_def)

lemma hex_unfold: "hex n = (if n < 16 then [hex_char n] else hex (n div 16) @ [hex_char (n mod 16)])"
  unfolding hex_char_def by (subst hex.simps) simp

lemma hex_val_append: "hex_val (s @ [c]) = 16 * hex_val s + char_to_val c"
  by (simp add: hex_val_def)

lemma hex_val_hex [simp]: "hex_val (hex n) = int n"
proof (induction n rule: hex.induct)
  case (1 n)
  then show ?case
    by (subst hex_unfold) (auto simp: hex_val_append zdiv_int zmod_int, simp add: hex_val_def)
qed

lemma hex_digits: "c \<in> set (hex n) \<Longrightarrow> isxdigit c"
proof (induction n rule: hex.induct)
  case (1 n)
  then show ?case by (subst (asm) (2) hex_unfold) (auto simp: isxdigit_def split: if_splits)
qed

lemma hex_length: "n < 16 ^ Suc k \<Longrightarrow> length (hex n) \<le> Suc k"
proof (induction k arbitrary: n)
  case 0
  then show ?case by (subst hex_unfold) simp
next
  case (Suc k)
  then have "length (hex (n div 16)) \<le> Suc k" by auto
  then show ?case by (subst hex_unfold) simp
qed

lemma zero_xdigit: "char_to_val (CHR ''0'') = 0"
  by (simp add: char_to_val_def)

lemma hex_val_zeros: "hex_val (replicate k (CHR ''0'') @ s) = hex_val s"
  by (induction k) (simp_all add: hex_val_def zero_xdigit)

lemma padx_props:
  "hex_val (padx w n) = int n" "\<forall>c\<in>set (padx w n). isxdigit c"
  "n < 16 ^ 8 \<Longrightarrow> length (padx 8 n) = 8"
  using hex_digits hex_length[of n 7]
  by (auto simp: padx_def hex_val_zeros isxdigit_def zero_xdigit)

section \<open>A mask as one number\<close>

lemma nibble_bits:
  assumes "0 \<le> v" "v < 16"
  shows "(v AND 1 \<noteq> 0 \<longleftrightarrow> bit v 0) \<and> (v AND 2 \<noteq> 0 \<longleftrightarrow> bit v 1) \<and>
    (v AND 4 \<noteq> 0 \<longleftrightarrow> bit v 2) \<and> (v AND 8 \<noteq> 0 \<longleftrightarrow> bit (v :: int) 3)"
proof -
  obtain n where n: "v = int n" "n < 16" using assms nonneg_int_cases[of v] by auto
  from less_16_cases[OF n(2)] show ?thesis unfolding n(1) by (elim insertE emptyE; simp)
qed

lemma set_nibble_bits:
  assumes "0 \<le> v" "v < 16" "0 \<le> base"
  shows "set_nibble m base v = m \<union> {i. base \<le> int i \<and> int i < base + 4 \<and> i < CPU_SETSIZE \<and> bit v (i - nat base)}"
proof -
  have b: "v AND 1 \<noteq> 0 \<longleftrightarrow> bit v 0" "v AND 2 \<noteq> 0 \<longleftrightarrow> bit v 1" "v AND 4 \<noteq> 0 \<longleftrightarrow> bit v 2"
    "v AND 8 \<noteq> 0 \<longleftrightarrow> bit v 3"
    using nibble_bits[OF assms(1,2)] by blast+
  obtain n where n: "base = int n" using assms(3) nonneg_int_cases by blast
  have c: "x \<in> (if P then CPU_SET (int n + int k) M else M) \<longleftrightarrow> x \<in> M \<or> P \<and> x = n + k \<and> x < CPU_SETSIZE"
    for P k M x by (auto simp: CPU_SET_def nat_int_add simp flip: of_nat_add)
  have k: "x \<in> (if P then CPU_SET (int n) M else M) \<longleftrightarrow> x \<in> M \<or> P \<and> x = n \<and> x < CPU_SETSIZE"
    "x \<in> (if P then CPU_SET (int n + 1) M else M) \<longleftrightarrow> x \<in> M \<or> P \<and> x = n + 1 \<and> x < CPU_SETSIZE"
    "x \<in> (if P then CPU_SET (int n + 2) M else M) \<longleftrightarrow> x \<in> M \<or> P \<and> x = n + 2 \<and> x < CPU_SETSIZE"
    "x \<in> (if P then CPU_SET (int n + 3) M else M) \<longleftrightarrow> x \<in> M \<or> P \<and> x = n + 3 \<and> x < CPU_SETSIZE"
    for P M x using c[of x P 0 M] c[of x P 1 M] c[of x P 2 M] c[of x P 3 M]
    unfolding semiring_1_class.of_nat_0 of_nat_1 of_nat_numeral add_0_right by - assumption+
  have r: "int n \<le> int i \<and> int i < int n + 4 \<and> i < CPU_SETSIZE \<and> bit v (i - nat (int n)) \<longleftrightarrow>
    i < CPU_SETSIZE \<and> (bit v 0 \<and> i = n \<or> bit v 1 \<and> i = n + 1 \<or> bit v 2 \<and> i = n + 2 \<or> bit v 3 \<and> i = n + 3)" for i
  proof -
    have "int n \<le> int i \<and> int i < int n + 4 \<longleftrightarrow> i = n \<or> i = n + 1 \<or> i = n + 2 \<or> i = n + 3" by auto
    then show ?thesis by (auto simp del: bit_0)
  qed
  show ?thesis
    unfolding set_nibble_def b n Let_def by (rule set_eqI) (unfold k Un_iff mem_Collect_eq r, blast)
qed

lemma nibble_loop_result:
  assumes "\<forall>c\<in>set s. isxdigit c" "0 \<le> base"
  shows "nibble_loop m base (rev s) =
    (0, m \<union> {i. base \<le> int i \<and> i < CPU_SETSIZE \<and> bit (hex_val s) (i - nat base)})"
  using assms
proof (induction s arbitrary: m base rule: rev_induct)
  case Nil
  then show ?case by (simp add: hex_val_def)
next
  case (snoc c s)
  let ?v = "char_to_val c"
  have v: "0 \<le> ?v" "?v < 16" using snoc.prems(1) char_to_val_range[of c] by (auto simp: isxdigit_def)
  have b: "bit (hex_val (s @ [c])) k = (if k < 4 then bit ?v k else bit (hex_val s) (k - 4))" for k
  proof (cases "k < 4")
    case True
    have "bit (hex_val (s @ [c])) k = bit (take_bit 4 (hex_val (s @ [c]))) k" using True by (simp add: bit_take_bit_iff)
    also have "take_bit 4 (hex_val (s @ [c])) = ?v"
      using v by (simp add: hex_val_append take_bit_eq_mod)
    finally show ?thesis using True by simp
  next
    case False
    have "bit (hex_val (s @ [c])) k = bit (drop_bit 4 (hex_val (s @ [c]))) (k - 4)"
      using False by (simp add: bit_drop_bit_eq)
    also have "drop_bit 4 (hex_val (s @ [c])) = hex_val s"
      using v by (simp add: hex_val_append drop_bit_eq_div)
    finally show ?thesis using False by simp
  qed
  have "nibble_loop m base (rev (s @ [c])) = nibble_loop (set_nibble m base ?v) (base + 4) (rev s)"
    using v by simp
  also have "\<dots> = (0, set_nibble m base ?v \<union>
      {i. base + 4 \<le> int i \<and> i < CPU_SETSIZE \<and> bit (hex_val s) (i - nat (base + 4))})"
    using snoc by simp
  also have "set_nibble m base ?v \<union> {i. base + 4 \<le> int i \<and> i < CPU_SETSIZE \<and> bit (hex_val s) (i - nat (base + 4))} =
      m \<union> {i. base \<le> int i \<and> i < CPU_SETSIZE \<and> bit (hex_val (s @ [c])) (i - nat base)}"
  proof -
    have e: "i - nat (base + 4) = i - nat base - 4" for i using snoc.prems(2) by (simp add: nat_add_distrib)
    have l: "base \<le> int i \<Longrightarrow> i - nat base < 4 \<longleftrightarrow> int i < base + 4" for i using snoc.prems(2) by linarith
    have "base \<le> int i \<and> int i < base + 4 \<and> i < CPU_SETSIZE \<and> bit ?v (i - nat base) \<or>
        base + 4 \<le> int i \<and> i < CPU_SETSIZE \<and> bit (hex_val s) (i - nat base - 4) \<longleftrightarrow>
        base \<le> int i \<and> i < CPU_SETSIZE \<and> bit (hex_val (s @ [c])) (i - nat base)" for i
      unfolding b using l[of i] by auto
    then show ?thesis unfolding set_nibble_bits[OF v snoc.prems(2)] e by blast
  qed
  finally show ?case .
qed

lemma s_to_cpuset_result:
  assumes "\<forall>c\<in>set s. isxdigit c"
  shows "s_to_cpuset m (s @ r) (length s) = (0, m \<union> {i. i < CPU_SETSIZE \<and> bit (hex_val s) i})"
  using nibble_loop_result[OF assms, of 0 m] by (simp add: s_to_cpuset_def)

section \<open>Chunks\<close>

definition chunk_bits :: "cpu_set \<Rightarrow> nat \<Rightarrow> nat set" where
  "chunk_bits m chunk = {b. b < HEXCHUNKSZ \<and> chunk * HEXCHUNKSZ + b \<in> m}"

lemma chunk_loop_bits:
  "k \<le> HEXCHUNKSZ \<Longrightarrow> chunk * HEXCHUNKSZ + k \<le> CPU_SETSIZE \<Longrightarrow>
    bit (chunk_loop m chunk v k) j \<longleftrightarrow> j < 32 \<and> (if j < k then chunk * HEXCHUNKSZ + j \<in> m else bit v (j - k))"
proof (induction k arbitrary: v)
  case 0
  then show ?case by (auto dest: bit_imp_le_length)
next
  case (Suc k)
  have "CPU_ISSET (int (chunk * HEXCHUNKSZ + k)) m \<longleftrightarrow> chunk * HEXCHUNKSZ + k \<in> m"
    using Suc.prems by (intro isset_nat) simp
  then have "bit (chunk_loop m chunk v (Suc k)) j \<longleftrightarrow>
      j < 32 \<and> (if j < k then chunk * HEXCHUNKSZ + j \<in> m
        else bit (push_bit 1 v OR of_bool (chunk * HEXCHUNKSZ + k \<in> m)) (j - k))"
    using Suc by simp
  moreover have "j < 32 \<Longrightarrow> \<not> j < k \<Longrightarrow> bit (push_bit 1 v OR of_bool (chunk * HEXCHUNKSZ + k \<in> m)) (j - k) \<longleftrightarrow>
      (if j = k then chunk * HEXCHUNKSZ + j \<in> m else bit v (j - Suc k))"
    unfolding bit_or_iff bit_push_bit_iff bit_of_bool_iff by auto
  ultimately show ?case by auto
qed

lemma chunk_word:
  assumes "chunk * HEXCHUNKSZ + HEXCHUNKSZ \<le> CPU_SETSIZE"
  shows "bit (chunk_loop m chunk 0 HEXCHUNKSZ) j \<longleftrightarrow> j \<in> chunk_bits m chunk"
  using chunk_loop_bits[of HEXCHUNKSZ chunk m 0 j] assms by (auto simp: chunk_bits_def HEXCHUNKSZ_def)

lemma chunk_set_result:
  "k \<le> HEXCHUNKSZ \<Longrightarrow> chunk * HEXCHUNKSZ + HEXCHUNKSZ \<le> CPU_SETSIZE \<Longrightarrow>
    chunk_set m (int chunk) v k = Some (m \<union> {chunk * HEXCHUNKSZ + b | b. b < k \<and> bit v b})"
proof (induction k arbitrary: m)
  case (Suc k)
  have "int chunk * int HEXCHUNKSZ + int k = int (chunk * HEXCHUNKSZ + k)" by simp
  moreover have lt: "chunk * HEXCHUNKSZ + k < CPU_SETSIZE" using Suc.prems by simp
  moreover have "drop_bit k v AND 1 \<noteq> 0 \<longleftrightarrow> bit v k"
    by (simp add: and_one_eq odd_iff_mod_2_eq_one[symmetric] bit_iff_odd_drop_bit)
  ultimately have "chunk_set m (int chunk) v (Suc k) =
      chunk_set (if bit v k then insert (chunk * HEXCHUNKSZ + k) m else m) (int chunk) v k"
    by (simp add: CPU_SET_def del: of_nat_add of_nat_mult)
  then show ?case using Suc by (auto simp: less_Suc_eq)
qed simp

section \<open>Writing and reading chunks\<close>

fun hex_text :: "cpu_set \<Rightarrow> string \<Rightarrow> nat \<Rightarrow> string" where
  "hex_text m sep 0 = []"
| "hex_text m sep (Suc chunk) =
    sep @ padx HEXCHARSIZE (unat (chunk_loop m chunk 0 HEXCHUNKSZ)) @ hex_text m '','' chunk"

lemma chunk_padx:
  fixes w :: "32 word"
  shows "length (padx HEXCHARSIZE (unat w)) = 8"
  using padx_props(3)[of "unat w"] unsigned_less[of w] by (simp add: HEXCHARSIZE_def)

lemma hex_text_length: "length (hex_text m sep k) \<le> length sep + 9 * k"
proof (induction k arbitrary: sep)
  case (Suc k)
  then show ?case using Suc[of "'',''"] by (simp add: chunk_padx)
qed simp

lemma hex_room_small: "cnt \<le> len \<Longrightarrow> len < 2 ^ 64 \<Longrightarrow> hex_room len cnt = len - cnt"
proof -
  assume a: "cnt \<le> len" "len < 2 ^ 64"
  then have "int len - int cnt = int (len - cnt)" by simp
  moreover have "unat (word_of_nat (len - cnt) :: ulong) = len - cnt" using a by (simp add: unat_of_nat del: of_nat_diff)
  ultimately show ?thesis unfolding hex_room_def by (simp only: of_int_of_nat_eq)
qed

lemma to_hex_loop_result:
  "len \<le> length buf \<Longrightarrow> len < 2 ^ 64 \<Longrightarrow> cnt + length (hex_text m sep k) < len \<Longrightarrow> 0 < k \<Longrightarrow>
    \<exists>buf'. to_hex_loop m len cnt sep buf k = Some (int (cnt + length (hex_text m sep k)), buf') \<and>
      length buf' = length buf \<and>
      take (cnt + length (hex_text m sep k) + 1) buf' = take cnt buf @ hex_text m sep k @ [CHR 0x00]"
proof (induction k arbitrary: cnt sep buf)
  case (Suc k)
  let ?s = "sep @ padx HEXCHARSIZE (unat (chunk_loop m k 0 HEXCHUNKSZ))"
  have ht: "hex_text m sep (Suc k) = ?s @ hex_text m '','' k" by simp
  have room: "hex_room len cnt = len - cnt" by (rule hex_room_small) (use Suc.prems in auto)
  have "cnt + (len - cnt) \<le> length buf" using Suc.prems by simp
  from snprintf_ok[OF this, of ?s] obtain b1 where
    b1: "snprintf_at buf cnt (len - cnt) ?s = Some b1" "length b1 = length buf"
      "length ?s < len - cnt \<longrightarrow> take (cnt + length ?s + 1) b1 = take cnt buf @ ?s @ [CHR 0x00]" by blast
  have lt: "length ?s < len - cnt" using Suc.prems(3) unfolding ht by simp
  show ?case
  proof (cases "k = 0")
    case True
    then show ?thesis using b1 lt room unfolding ht by (simp add: Let_def)
  next
    case False
    have "cnt + length ?s + length (hex_text m '','' k) < len" using Suc.prems(3) unfolding ht by simp
    from Suc.IH[of b1 "cnt + length ?s" "'',''", OF _ Suc.prems(2) this] False Suc.prems(1) b1(2) obtain b2 where
      b2: "to_hex_loop m len (cnt + length ?s) '','' b1 k =
          Some (int (cnt + length ?s + length (hex_text m '','' k)), b2)" "length b2 = length b1"
        "take (cnt + length ?s + length (hex_text m '','' k) + 1) b2 =
          take (cnt + length ?s) b1 @ hex_text m '','' k @ [CHR 0x00]" by auto
    have "take (cnt + length ?s) b1 = take (cnt + length ?s) (take (cnt + length ?s + 1) b1)"
      by (simp add: min_def)
    also have "\<dots> = take cnt buf @ ?s" using b1(3) lt Suc.prems(1) by simp
    finally have p: "take (cnt + length ?s) b1 = take cnt buf @ ?s" .
    have "to_hex_loop m len cnt sep buf (Suc k) = to_hex_loop m len (cnt + length ?s) '','' b1 k"
      using room b1(1) by (simp add: Let_def)
    then show ?thesis
      using b2 b1(2) p unfolding ht by (intro exI[of _ b2]) (simp add: add.assoc)
  qed
qed simp

lemma isspace_int: "isspace c \<longleftrightarrow> (of_char c :: int) = 32 \<or> 9 \<le> (of_char c :: int) \<and> (of_char c :: int) \<le> 13"
proof -
  have "(of_char c :: int) = int (of_char c)" by (rule of_nat_of_char[symmetric])
  then show ?thesis unfolding isspace_def by linarith
qed

lemma xdigit_not: "isxdigit c \<Longrightarrow> c \<noteq> CHR ''x'' \<and> c \<noteq> CHR ''X'' \<and> c \<noteq> CHR ''-'' \<and> c \<noteq> CHR ''+'' \<and>
    c \<noteq> CHR '','' \<and> \<not> isspace c \<and> c \<noteq> CHR 0x00"
  by (auto simp: isxdigit_def char_to_val_def isspace_int Let_def split: if_splits)

lemma strtoul16_digits:
  assumes "2 \<le> length s" "\<forall>c\<in>set s. isxdigit c" "t = [] \<or> \<not> isxdigit (hd t)" "hex_val s < 2 ^ 64"
  shows "strtoul16 (s @ t) = (word_of_int (hex_val s), t)"
proof -
  obtain c d cs where s: "s = c # d # cs" using assms(1) by (cases s; cases "tl s") auto
  have c: "isxdigit c" "isxdigit d" using assms(2) s by auto
  have dw: "dropWhile isspace (s @ t) = s @ t" using xdigit_not[OF c(1)] s by simp
  have tw: "takeWhile isxdigit (s @ t) = s" "dropWhile isxdigit (s @ t) = t"
    using assms(2,3) by (cases t; simp add: takeWhile_append2)+
  have hd: "hd (s @ t) \<noteq> CHR ''-''" "hd (s @ t) \<noteq> CHR ''+''" using xdigit_not[OF c(1)] s by auto
  have pre: "(case s @ t of z # x # h # r \<Rightarrow>
      if z = CHR ''0'' \<and> (x = CHR ''x'' \<or> x = CHR ''X'') \<and> isxdigit h then h # r else s @ t
    | _ \<Rightarrow> s @ t) = s @ t"
    using xdigit_not[OF c(2)] s by (auto split: list.splits)
  show ?thesis
    unfolding strtoul16_def dw Let_def using hd pre tw s assms(4) by (auto simp del: append_Cons)
qed

lemma padx_text:
  fixes w :: "32 word"
  defines "s \<equiv> padx HEXCHARSIZE (unat w)"
  assumes "t = [] \<or> hd t = CHR '',''"
  shows "strtoul16 (s @ t) = (word_of_nat (unat w), t)" "nexttoken (Some (s @ t)) (CHR '','') = nexttoken (Some t) (CHR '','')"
    "take 2 (s @ t) \<noteq> ''0x''"
proof -
  have l: "length s = 8" using chunk_padx by (simp add: s_def)
  have x: "\<forall>c\<in>set s. isxdigit c" and v: "hex_val s = int (unat w)" using padx_props by (simp_all add: s_def)
  have "t = [] \<or> \<not> isxdigit (hd t)" using assms(2) by (auto simp: isxdigit_def char_to_val_def)
  moreover have "unat w < 2 ^ 64" using unsigned_less[of w, where 'a = nat] by simp
  then have "int (unat w) < int (2 ^ 64)" by (simp only: of_nat_less_iff)
  then have "hex_val s < 2 ^ 64" unfolding v by (simp only: of_nat_power of_nat_numeral)
  ultimately show "strtoul16 (s @ t) = (word_of_nat (unat w), t)"
    using strtoul16_digits[of s t] l x unfolding v by (simp only: of_int_of_nat_eq)
  have "CHR '','' \<notin> set s" using x xdigit_not by blast
  then show "nexttoken (Some (s @ t)) (CHR '','') = nexttoken (Some t) (CHR '','')" by (rule next_skip)
  obtain c d cs where s: "s = c # d # cs" using l by (cases s; cases "tl s") auto
  then have "d \<noteq> CHR ''x''" using x xdigit_not by auto
  then show "take 2 (s @ t) \<noteq> ''0x''" using s by simp
qed

lemma hex_text_tail: "hex_text m '','' k = [] \<or> hd (hex_text m '','' k) = CHR '',''"
  by (cases k) auto

lemma hex_text_comma: "hex_text m '','' (Suc k) = CHR '','' # hex_text m [] (Suc k)"
  by simp

lemma hex_loop_step:
  assumes "strtoul16 p = (v, e)" "length p - length e \<le> HEXCHARSIZE" "nexttoken (Some p) (CHR '','') = q"
    "case q of Some q' \<Rightarrow> length e = Suc (length q') | None \<Rightarrow> e = []"
    "chunk_set m c (ucast v) HEXCHUNKSZ = Some m1"
  shows "hex_loop m c p = (case q of None \<Rightarrow> (0, m1) | Some q' \<Rightarrow> hex_loop m1 (c - 1) q')"
  using assms by (subst hex_loop.simps) (simp split: option.splits)

lemma hex_loop_result:
  "Suc c * HEXCHUNKSZ \<le> CPU_SETSIZE \<Longrightarrow>
    hex_loop M (int c) (hex_text m [] (Suc c)) = (0, M \<union> {x\<in>m. x < Suc c * HEXCHUNKSZ})"
proof (induction c arbitrary: M)
  case (Suc c)
  let ?w = "chunk_loop m (Suc c) 0 HEXCHUNKSZ" and ?t = "hex_text m '','' (Suc c)"
  have b: "Suc c * HEXCHUNKSZ + HEXCHUNKSZ \<le> CPU_SETSIZE" using Suc.prems by simp
  have cs: "chunk_set M (int (Suc c)) (ucast (word_of_nat (unat ?w) :: ulong)) HEXCHUNKSZ =
      Some (M \<union> {x\<in>m. Suc c * HEXCHUNKSZ \<le> x \<and> x < Suc (Suc c) * HEXCHUNKSZ})"
  proof -
    have "ucast (word_of_nat (unat ?w) :: ulong) = ?w"
      by (rule bit_word_eqI) (auto simp: bit_simps)
    moreover have "{Suc c * HEXCHUNKSZ + j | j. j < HEXCHUNKSZ \<and> bit ?w j} =
        {x\<in>m. Suc c * HEXCHUNKSZ \<le> x \<and> x < Suc (Suc c) * HEXCHUNKSZ}"
      unfolding chunk_word[OF b] chunk_bits_def by (auto simp: le_iff_add)
    ultimately show ?thesis using chunk_set_result[of HEXCHUNKSZ "Suc c" M ?w] b by simp
  qed
  have tx: "hex_text m [] (Suc (Suc c)) = padx HEXCHARSIZE (unat ?w) @ ?t" by simp
  have nx: "nexttoken (Some ?t) (CHR '','') = Some (hex_text m [] (Suc c))"
    unfolding hex_text_comma by (rule next_here)
  have lt: "length ?t = Suc (length (hex_text m [] (Suc c)))" unfolding hex_text_comma by simp
  note pt = padx_text[of ?t ?w, OF hex_text_tail]
  have "hex_loop M (int (Suc c)) (hex_text m [] (Suc (Suc c))) =
      hex_loop (M \<union> {x\<in>m. Suc c * HEXCHUNKSZ \<le> x \<and> x < Suc (Suc c) * HEXCHUNKSZ}) (int c) (hex_text m [] (Suc c))"
    unfolding tx using hex_loop_step[OF pt(1) _ pt(2)[unfolded nx] _ cs] lt chunk_padx[of ?w]
    by (simp add: HEXCHARSIZE_def del: hex_text.simps)
  also have "\<dots> = (0, M \<union> {x\<in>m. Suc c * HEXCHUNKSZ \<le> x \<and> x < Suc (Suc c) * HEXCHUNKSZ} \<union>
      {x\<in>m. x < Suc c * HEXCHUNKSZ})"
    by (rule Suc.IH) (use Suc.prems in simp)
  also have "\<dots> = (0, M \<union> {x\<in>m. x < Suc (Suc c) * HEXCHUNKSZ})" by auto
  finally show ?case .
next
  case 0
  let ?w = "chunk_loop m 0 0 HEXCHUNKSZ"
  have b: "0 * HEXCHUNKSZ + HEXCHUNKSZ \<le> CPU_SETSIZE" by (simp add: HEXCHUNKSZ_def CPU_SETSIZE_def)
  have "ucast (word_of_nat (unat ?w) :: ulong) = ?w"
    by (rule bit_word_eqI) (auto simp: bit_simps)
  moreover have "{0 * HEXCHUNKSZ + j | j. j < HEXCHUNKSZ \<and> bit ?w j} = {x\<in>m. x < HEXCHUNKSZ}"
    unfolding chunk_word[OF b] chunk_bits_def by auto
  ultimately have "chunk_set M 0 (ucast (word_of_nat (unat ?w) :: ulong)) HEXCHUNKSZ = Some (M \<union> {x\<in>m. x < HEXCHUNKSZ})"
    using chunk_set_result[of HEXCHUNKSZ 0 M ?w] b by simp
  then show ?case
    using hex_loop_step[OF padx_text(1)[of "[]" ?w] _ padx_text(2)[of "[]" ?w]] chunk_padx[of ?w]
    by (simp add: HEXCHARSIZE_def)
qed

lemma count_hex_text: "count_tokens (hex_text m [] (Suc c)) = Suc c"
proof (induction c)
  case 0
  show ?case
    using padx_text(2)[of "[]" "chunk_loop m 0 0 HEXCHUNKSZ"] by (subst count_tokens.simps) simp
next
  case (Suc c)
  have "nexttoken (Some (hex_text m [] (Suc (Suc c)))) (CHR '','') = Some (hex_text m [] (Suc c))"
  proof -
    have "hex_text m [] (Suc (Suc c)) =
        padx HEXCHARSIZE (unat (chunk_loop m (Suc c) 0 HEXCHUNKSZ)) @ hex_text m '','' (Suc c)" by simp
    then show ?thesis
      unfolding hex_text_comma using padx_text(2)[of "CHR '','' # hex_text m [] (Suc c)"] by simp
  qed
  then show ?case using Suc by (subst count_tokens.simps) simp
qed

lemma last_bit_spec: "x \<in> m \<Longrightarrow> x < k \<Longrightarrow> k \<le> CPU_SETSIZE \<Longrightarrow> x \<le> last_bit_loop m k"
  by (induction k) (auto simp: isset_nat less_Suc_eq)

lemma last_bit_less: "0 < k \<Longrightarrow> last_bit_loop m k < k"
  by (induction k) (auto, metis last_bit_loop.simps(1) less_Suc_eq neq0_conv)

lemma hex_text_round:
  assumes "m \<subseteq> {..< CPU_SETSIZE}"
  defines "k \<equiv> cpuset_last_bit m div HEXCHUNKSZ + 1"
  shows "hex_to_cpuset (hex_text m [] k) = (0, m)" "k * HEXCHUNKSZ \<le> CPU_SETSIZE"
    "CHR 0x00 \<notin> set (hex_text m [] k)"
proof -
  obtain c where k: "k = Suc c" by (simp add: k_def)
  have "cpuset_last_bit m < CPU_SETSIZE"
    unfolding cpuset_last_bit_def by (rule last_bit_less) (simp add: CPU_SETSIZE_def)
  then show kb: "k * HEXCHUNKSZ \<le> CPU_SETSIZE" by (simp add: k_def HEXCHUNKSZ_def CPU_SETSIZE_def)
  have all: "{x\<in>m. x < Suc c * HEXCHUNKSZ} = m"
  proof -
    have "x < k * HEXCHUNKSZ" if "x \<in> m" for x
    proof -
      have "x \<le> cpuset_last_bit m"
        unfolding cpuset_last_bit_def by (rule last_bit_spec[OF that]) (use that assms(1) in auto)
      then show ?thesis by (simp add: k_def HEXCHUNKSZ_def)
    qed
    then show ?thesis using k by blast
  qed
  let ?w = "chunk_loop m c 0 HEXCHUNKSZ"
  have tx: "hex_text m [] (Suc c) = padx HEXCHARSIZE (unat ?w) @ hex_text m '','' c" by simp
  have t2: "take 2 (hex_text m [] (Suc c)) \<noteq> ''0x''" unfolding tx by (rule padx_text(3)[OF hex_text_tail])
  have ne: "hex_text m [] (Suc c) \<noteq> []" unfolding tx using chunk_padx[of ?w] by auto
  show "hex_to_cpuset (hex_text m [] k) = (0, m)"
  proof (cases "c = 0")
    case False
    have "hex_to_cpuset (hex_text m [] (Suc c)) = hex_loop {} (int c) (hex_text m [] (Suc c))"
      using ne t2 False count_hex_text[of m c] by (simp add: hex_to_cpuset_def Let_def del: hex_text.simps)
    then show ?thesis using hex_loop_result[of c "{}" m] kb all k by simp
  next
    case True
    let ?s = "padx HEXCHARSIZE (unat ?w)"
    have "hex_to_cpuset (hex_text m [] (Suc c)) = s_to_cpuset {} (hex_text m [] (Suc c)) (length (hex_text m [] (Suc c)))"
      using ne t2 True count_hex_text[of m c] by (simp add: hex_to_cpuset_def Let_def del: hex_text.simps)
    also have "\<dots> = (0, {i. i < CPU_SETSIZE \<and> bit (hex_val ?s) i})"
      using s_to_cpuset_result[of ?s "{}" "[]"] padx_props(2) True by (simp add: HEXCHARSIZE_def)
    also have "{i. i < CPU_SETSIZE \<and> bit (hex_val ?s) i} = m"
    proof -
      have b: "0 * HEXCHUNKSZ + HEXCHUNKSZ \<le> CPU_SETSIZE" using kb k True by simp
      have "bit (hex_val ?s) i \<longleftrightarrow> i \<in> chunk_bits m c" for i
        using chunk_word[OF b, of m i] True by (simp add: padx_props(1) HEXCHARSIZE_def bit_uint_iff flip: bit_iff_odd)
          (auto dest: bit_imp_le_length)
      then show ?thesis using all True assms(1) by (auto simp: chunk_bits_def)
    qed
    finally show ?thesis using k by simp
  qed
  have "CHR 0x00 \<notin> set (padx HEXCHARSIZE n)" for n
    using padx_props(2) xdigit_not by (auto simp: HEXCHARSIZE_def)
  then have "CHR 0x00 \<notin> set sep \<Longrightarrow> CHR 0x00 \<notin> set (hex_text m sep j)" for sep j
    by (induction j arbitrary: sep) auto
  then show "CHR 0x00 \<notin> set (hex_text m [] k)" by simp
qed

lemma cpuset_to_hex_result:
  assumes "length (hex_text m [] (cpuset_last_bit m div HEXCHUNKSZ + 1)) < len" "len \<le> length buf" "len < 2 ^ 64"
  shows "\<exists>buf'. cpuset_to_hex m buf len =
      Some (int (length (hex_text m [] (cpuset_last_bit m div HEXCHUNKSZ + 1))), buf') \<and>
    length buf' = length buf \<and>
    take (length (hex_text m [] (cpuset_last_bit m div HEXCHUNKSZ + 1)) + 1) buf' =
      hex_text m [] (cpuset_last_bit m div HEXCHUNKSZ + 1) @ [CHR 0x00]"
proof -
  have "0 + length [CHR 0x00] \<le> length buf" using assms(1,2) by simp
  from bwrite_at[OF this] obtain b where b: "bwrite buf 0 [CHR 0x00] = Some b" "length b = length buf" by blast
  from to_hex_loop_result[of len b 0 m "[]" "cpuset_last_bit m div HEXCHUNKSZ + 1"] assms b(2) obtain b' where
    "to_hex_loop m len 0 [] b (cpuset_last_bit m div HEXCHUNKSZ + 1) =
      Some (int (length (hex_text m [] (cpuset_last_bit m div HEXCHUNKSZ + 1))), b')"
    "length b' = length b"
    "take (length (hex_text m [] (cpuset_last_bit m div HEXCHUNKSZ + 1)) + 1) b' =
      hex_text m [] (cpuset_last_bit m div HEXCHUNKSZ + 1) @ [CHR 0x00]"
    by (auto simp del: to_hex_loop.simps hex_text.simps)
  then show ?thesis
    using b assms(1) by (intro exI[of _ b']) (simp add: cpuset_to_hex_def del: to_hex_loop.simps hex_text.simps)
qed

end
