(* ===== verification/AutoAffinityLaws.thy ===== *)
theory AutoAffinityLaws
  imports AutoAffinity CpuHexLaws
begin

text \<open>
  The CPU position map is a permutation of the CPUs in the order of the machine; the masks of
  the tasks are disjoint; \<open>cstr_count\<close> and \<open>cstr_to_cpu_id\<close> count and index the same list.
\<close>

section \<open>The CPU position map\<close>

interpretation ci: comparison cpu_info_cmp
  by unfold_locales (auto simp: cpu_info_cmp_def split: if_splits)

definition readable :: "topology \<Rightarrow> int \<Rightarrow> bool" where
  "readable topo c \<longleftrightarrow> 0 \<le> fst topo c \<and> 0 \<le> snd topo c"

definition info :: "topology \<Rightarrow> int \<Rightarrow> cpu_info" where
  "info topo c = \<lparr>ci_id = c, ci_pkgid = fst topo c, ci_coreid = snd topo c\<rparr>"

lemma cpu_info_create_eq: "cpu_info_create topo c = (if readable topo c then Some (info topo c) else None)"
  by (cases topo) (auto simp: cpu_info_create_def readable_def info_def)

lemma push_cpus_data:
  "list_ok l \<Longrightarrow> k \<le> fl_cap (l_nfree l) \<Longrightarrow>
    (if \<forall>c\<in>{i ..< i + k}. readable topo (int c)
     then \<exists>l'. push_cpus topo l i k = Some l' \<and> list_ok l' \<and> l_ifree l' = l_ifree l \<and>
       list_data l' = rev (map (\<lambda>c. info topo (int c)) [i ..< i + k]) @ list_data l
     else push_cpus topo l i k = None)"
proof (induction k arbitrary: l i)
  case (Suc k)
  show ?case
  proof (cases "readable topo (int i)")
    case False
    then show ?thesis by (auto simp: cpu_info_create_eq)
  next
    case True
    from push_cap[of l "info topo (int i)"] Suc.prems(2) obtain l1 where
      l1: "list_push l (info topo (int i)) = (Some (info topo (int i)), l1)" "k \<le> fl_cap (l_nfree l1)"
        "l_ifree l1 = l_ifree l" by auto
    have d: "list_ok l1" "list_data l1 = info topo (int i) # list_data l"
      using list_push_data[OF Suc.prems(1) l1(1)] by auto
    have r: "(\<forall>c\<in>{i ..< i + Suc k}. readable topo (int c)) \<longleftrightarrow> (\<forall>c\<in>{i + 1 ..< i + 1 + k}. readable topo (int c))"
      using True by (auto simp: Suc_le_eq le_less)
    have u: "[i ..< i + Suc k] = i # [i + 1 ..< i + 1 + k]" by (simp add: upt_conv_Cons)
    show ?thesis
      unfolding r u using Suc.IH[OF d(1) l1(2), of "i + 1"] l1 d(2) True
      by (auto simp: cpu_info_create_eq split: if_splits)
  qed
qed simp

lemma fill_array:
  "length a = i + length xs \<Longrightarrow>
    fold (\<lambda>cpu (i, a). (i + 1, a[i := Some (ci_id cpu)])) xs (i, a) =
      (i + length xs, take i a @ map (\<lambda>c. Some (ci_id c)) xs)"
proof (induction xs arbitrary: i a)
  case (Cons x xs)
  have "take (i + 1) (a[i := Some (ci_id x)]) = take i a @ [Some (ci_id x)]"
    using Cons.prems by (simp add: take_Suc_conv_app_nth)
  then show ?case using Cons.IH[of "a[i := Some (ci_id x)]" "i + 1"] Cons.prems by simp
qed simp

definition position_order :: "topology \<Rightarrow> int list \<Rightarrow> bool" where
  "position_order topo ids \<longleftrightarrow> sorted_wrt (\<lambda>x y. fst topo x < fst topo y \<or>
    fst topo x = fst topo y \<and> snd topo x \<le> snd topo y) ids"

lemma position_map_result:
  assumes "mem = (h, lf, nf, itf)" "0 < fl_cap lf" "nat n \<le> fl_cap nf" "0 < fl_cap itf" "fl_ok {} nf" "fl_ok {} itf"
  shows "if \<forall>c\<in>{0 ..< n}. readable topo c
    then \<exists>ids. create_cpu_position_map mem topo n st = Some (0, st\<lparr>cpu_position_map := Some (map Some ids)\<rparr>) \<and>
      mset ids = mset (map int [0 ..< nat n]) \<and> position_order topo ids
    else create_cpu_position_map mem topo n st = Some (- 1, st)"
proof -
  obtain l0 :: "cpu_info clist" and lf1 where c: "list_create True lf nf itf = (Some l0, lf1)"
    and l0: "l_nfree l0 = nf" "l_ifree l0 = itf"
    using alloc_cap[OF assms(2)] by (auto simp: list_create_def list_fresh_def)
  note ok0 = list_create_ok[OF assms(5,6) c]
  have all: "(\<forall>c\<in>{0 ..< n}. readable topo c) \<longleftrightarrow> (\<forall>c\<in>{0 ..< 0 + nat n}. readable topo (int c))"
  proof -
    have "{0 ..< n} = int ` {0 ..< nat n}"
      unfolding image_int_atLeastLessThan by (cases "0 \<le> n") auto
    then show ?thesis by simp
  qed
  have cap: "nat n \<le> fl_cap (l_nfree l0)" using assms(3) l0(1) by simp
  note p = push_cpus_data[OF conjunct1[OF ok0] cap, of 0 topo]
  show ?thesis
  proof (cases "\<forall>c\<in>{0 ..< n}. readable topo c")
    case False
    then have "push_cpus topo l0 0 (nat n) = None" using p all by simp
    then show ?thesis using False c assms(1) by (simp add: create_cpu_position_map_def)
  next
    case True
    let ?xs = "rev (map (\<lambda>c. info topo (int c)) [0 ..< nat n])"
    from p True all obtain l1 where l1: "push_cpus topo l0 0 (nat n) = Some l1" "list_ok l1" "l_ifree l1 = l_ifree l0"
      "list_data l1 = ?xs" using ok0 by auto
    from list_sort_data[OF l1(2), of cpu_info_cmp] obtain l2 where
      l2: "list_sort l1 cpu_info_cmp = Some l2" "list_ok l2" "list_data l2 = isort cpu_info_cmp ?xs"
        "l_ifree l2 = l_ifree l1" using l1(4) by auto
    obtain it f where "list_alloc_aux (l_ifree l2) = (Some it, f)"
      using alloc_cap[of "l_ifree l2"] assms(4) l0(2) l1(3) l2(4) by auto
    then obtain l3 where l3: "list_iterator_create l2 = (Some it, l3)" by (simp add: list_iterator_create_def)
    let ?f = "\<lambda>cpu (i, a). (i + 1, a[i := Some (ci_id cpu)])"
    from cli.iterate_all[OF l2(2) l3, of ?f "(0, replicate (nat n) None)"] obtain l4 where
      l4: "while_next list_next ?f l3 it (0, replicate (nat n) None) =
        Some (fold ?f (list_data l2) (0, replicate (nat n) None), l4)" by blast
    have m: "mset (list_data l2) = mset ?xs" unfolding l2(3) by (rule mset_isort)
    then have len: "length (list_data l2) = nat n" by (metis length_map length_rev length_upt mset_eq_length diff_zero)
    let ?ids = "map ci_id (list_data l2)"
    have "fold ?f (list_data l2) (0, replicate (nat n) None) = (nat n, map Some ?ids)"
      using fill_array[of "replicate (nat n) None" 0 "list_data l2"] len by (simp add: o_def)
    then have run: "create_cpu_position_map mem topo n st = Some (0, st\<lparr>cpu_position_map := Some (map Some ?ids)\<rparr>)"
      using c assms(1) l1(1) l2(1) l3 l4 by (simp add: create_cpu_position_map_def)
    have "mset ?ids = image_mset ci_id (mset (list_data l2))" by simp
    also have "\<dots> = mset (map int [0 ..< nat n])"
      unfolding m by (simp add: info_def image_mset.compositionality o_def flip: mset_map)
    finally have ms: "mset ?ids = mset (map int [0 ..< nat n])" .
    have inf: "\<forall>x\<in>set (list_data l2). x = info topo (ci_id x)"
      using mset_eq_setD[OF m] by (auto simp: info_def)
    have "sorted_wrt (\<lambda>x y. cpu_info_cmp x y \<le> 0) (list_data l2)"
      unfolding l2(3) using ci.isort_in_order unfolding ci.in_order_def .
    then have "sorted_wrt (\<lambda>x y. fst topo (ci_id x) < fst topo (ci_id y) \<or>
        fst topo (ci_id x) = fst topo (ci_id y) \<and> snd topo (ci_id x) \<le> snd topo (ci_id y)) (list_data l2)"
    proof (rule sorted_wrt_mono_rel[rotated])
      fix x y
      assume "x \<in> set (list_data l2)" "y \<in> set (list_data l2)" and c: "cpu_info_cmp x y \<le> 0"
      then have "ci_pkgid x = fst topo (ci_id x)" "ci_coreid x = snd topo (ci_id x)"
        "ci_pkgid y = fst topo (ci_id y)" "ci_coreid y = snd topo (ci_id y)"
        using inf by (metis cpu_info.simps(2,3) info_def)+
      with c show "fst topo (ci_id x) < fst topo (ci_id y) \<or>
          fst topo (ci_id x) = fst topo (ci_id y) \<and> snd topo (ci_id x) \<le> snd topo (ci_id y)"
        by (auto simp: cpu_info_cmp_def split: if_splits)
    qed
    then have "position_order topo ?ids" by (simp add: position_order_def sorted_wrt_map)
    with run ms have "\<exists>ids. create_cpu_position_map mem topo n st = Some (0, st\<lparr>cpu_position_map := Some (map Some ids)\<rparr>) \<and>
        mset ids = mset (map int [0 ..< nat n]) \<and> position_order topo ids" by blast
    then show ?thesis by (subst if_P[OF True])
  qed
qed

section \<open>Available CPUs\<close>

lemma to_available_spec:
  assumes "i + k \<le> CPU_SETSIZE"
  shows "let xs = filter (\<lambda>c. c \<in> avail) [i ..< i + k] in
    to_available_loop avail cpu i j k =
      (if j \<le> cpu \<and> nat (cpu - j) < length xs then int (xs ! nat (cpu - j)) else - 1)"
  using assms
proof (induction k arbitrary: i j)
  case (Suc k)
  let ?xs = "filter (\<lambda>c. c \<in> avail) [i + 1 ..< i + 1 + k]"
  have u: "[i ..< i + Suc k] = i # [i + 1 ..< i + 1 + k]" by (simp add: upt_conv_Cons)
  note IH = Suc.IH[of "i + 1", unfolded Let_def]
  show ?case
  proof (cases "i \<in> avail")
    case False
    then show ?thesis using IH[of j] Suc.prems unfolding u by (simp add: isset_nat)
  next
    case True
    show ?thesis
    proof (cases "cpu = j")
      case True
      then show ?thesis using \<open>i \<in> avail\<close> Suc.prems unfolding u by (simp add: isset_nat)
    next
      case ne: False
      have "j + 1 \<le> cpu \<longleftrightarrow> j \<le> cpu" using ne by auto
      moreover have "j \<le> cpu \<Longrightarrow> nat (cpu - j) = Suc (nat (cpu - (j + 1)))" using ne by linarith
      ultimately show ?thesis
        using IH[of "j + 1"] True ne Suc.prems unfolding u by (auto simp: isset_nat)
    qed
  qed
qed simp

definition avail_list :: "affinity \<Rightarrow> nat list" where
  "avail_list st = filter (\<lambda>c. c \<in> cpus_available st) [0 ..< nat (ncpus st)]"

lemma mask_to_available_nth:
  assumes "ncpus st \<le> int CPU_SETSIZE"
  shows "mask_to_available st cpu =
    (if 0 \<le> cpu \<and> nat cpu < length (avail_list st) then int (avail_list st ! nat cpu) else - 1)"
  using to_available_spec[of 0 "nat (ncpus st)" "cpus_available st" cpu 0] assms
  by (simp add: mask_to_available_def avail_list_def Let_def)

lemma set_count_spec: "i + k \<le> CPU_SETSIZE \<Longrightarrow> set_count_loop m i n k = n + int (card (m \<inter> {i ..< i + k}))"
proof (induction k arbitrary: i n)
  case (Suc k)
  have "{i ..< i + Suc k} = insert i {i + 1 ..< i + 1 + k}" by auto
  then have "m \<inter> {i ..< i + Suc k} = (if i \<in> m then insert i (m \<inter> {i + 1 ..< i + 1 + k}) else m \<inter> {i + 1 ..< i + 1 + k})"
    by auto
  then show ?case using Suc.IH[of "i + 1"] Suc.prems by (simp add: isset_nat)
qed simp

lemma cpu_set_count_card: "m \<subseteq> {..< CPU_SETSIZE} \<Longrightarrow> cpu_set_count m = int (card m)"
proof -
  assume "m \<subseteq> {..< CPU_SETSIZE}"
  then have "m \<inter> {0 ..< 0 + CPU_SETSIZE} = m" by auto
  then show ?thesis using set_count_spec[of 0 CPU_SETSIZE m 0] by (simp add: cpu_set_count_def)
qed

section \<open>The masks of the tasks\<close>

text \<open>
  A state in which the first positions are mapped to the available CPUs: what
  \<open>create_cpu_position_map\<close> and \<open>get_cpus_available\<close> leave when all CPUs are available.
\<close>

definition placed :: "affinity \<Rightarrow> int list \<Rightarrow> bool" where
  "placed st ids \<longleftrightarrow> 0 < ncpus_available st \<and> ncpus st \<le> int CPU_SETSIZE \<and>
    length (avail_list st) = nat (ncpus_available st) \<and> cpu_position_map st = Some (map Some ids) \<and>
    nat (ncpus_available st) \<le> length ids \<and> distinct (take (nat (ncpus_available st)) ids) \<and>
    (\<forall>c\<in>set (take (nat (ncpus_available st)) ids). 0 \<le> c \<and> c < ncpus_available st)"

text \<open>The CPU that position \<open>p\<close> stands for.\<close>

definition cpu_of :: "affinity \<Rightarrow> int list \<Rightarrow> int \<Rightarrow> nat" where
  "cpu_of st ids p = avail_list st ! nat (ids ! nat p)"

lemma position_cpu:
  assumes "placed st ids" "0 \<le> p" "p < ncpus_available st"
  shows "cpu_position_to_id st p = Some (ids ! nat p)"
    "mask_to_available st (ids ! nat p) = int (cpu_of st ids p)"
    "cpu_of st ids p \<in> cpus_available st" "cpu_of st ids p < CPU_SETSIZE"
proof -
  have n: "nat p < nat (ncpus_available st)" "nat p < length ids" using assms by (auto simp: placed_def)
  then have "ids ! nat p \<in> set (take (nat (ncpus_available st)) ids)"
    by (auto simp: in_set_conv_nth intro!: exI[of _ "nat p"])
  then have i: "0 \<le> ids ! nat p" "ids ! nat p < ncpus_available st" using assms(1) by (auto simp: placed_def)
  show "cpu_position_to_id st p = Some (ids ! nat p)"
    using assms n by (simp add: cpu_position_to_id_def placed_def)
  have l: "nat (ids ! nat p) < length (avail_list st)" using i assms(1) by (simp add: placed_def)
  then show "mask_to_available st (ids ! nat p) = int (cpu_of st ids p)"
    using i assms(1) by (simp add: mask_to_available_nth placed_def cpu_of_def)
  have "cpu_of st ids p \<in> set (avail_list st)" unfolding cpu_of_def using l by simp
  then show "cpu_of st ids p \<in> cpus_available st" "cpu_of st ids p < CPU_SETSIZE"
    using assms(1) by (auto simp: avail_list_def placed_def)
qed

lemma cpu_of_inj:
  assumes "placed st ids" "0 \<le> p" "p < ncpus_available st" "0 \<le> q" "q < ncpus_available st"
    "cpu_of st ids p = cpu_of st ids q"
  shows "p = q"
proof -
  let ?n = "nat (ncpus_available st)"
  have l: "nat p < ?n" "nat q < ?n" "?n \<le> length ids" using assms by (auto simp: placed_def)
  have m: "ids ! nat x \<in> set (take ?n ids)" if "nat x < ?n" for x
    using that l(3) by (auto simp: in_set_conv_nth intro!: exI[of _ "nat x"])
  then have b: "0 \<le> ids ! nat p" "ids ! nat p < ncpus_available st" "0 \<le> ids ! nat q" "ids ! nat q < ncpus_available st"
    using assms(1) l by (auto simp: placed_def)
  have "distinct (avail_list st)" by (simp add: avail_list_def)
  moreover have "nat (ids ! nat p) < length (avail_list st)" "nat (ids ! nat q) < length (avail_list st)"
    using b assms(1) by (auto simp: placed_def)
  ultimately have "nat (ids ! nat p) = nat (ids ! nat q)"
    using assms(6) unfolding cpu_of_def by (simp add: nth_eq_iff_index_eq)
  then have "ids ! nat p = ids ! nat q" using b(1,3) by linarith
  then have "take ?n ids ! nat p = take ?n ids ! nat q" using l by simp
  moreover have "distinct (take ?n ids)" using assms(1) by (simp add: placed_def)
  moreover have "nat p < length (take ?n ids)" "nat q < length (take ?n ids)" using l by auto
  ultimately have "nat p = nat q" using nth_eq_iff_index_eq by blast
  then show ?thesis using assms(2,4) by linarith
qed

text \<open>The positions task \<open>l\<close> uses: \<open>c\<close> of them, counted from either end of the map.\<close>

definition task_positions :: "int \<Rightarrow> int \<Rightarrow> int \<Rightarrow> int \<Rightarrow> int set" where
  "task_positions n c s l = (\<lambda>t. (l * c + s + t) mod n) ` {0 ..< c}"

definition task_positions_rev :: "int \<Rightarrow> int \<Rightarrow> int \<Rightarrow> int \<Rightarrow> int set" where
  "task_positions_rev n c s l = (\<lambda>p. n - 1 - p) ` task_positions n c s l"

lemma smod_nonneg: "0 \<le> a \<Longrightarrow> 0 < n \<Longrightarrow> a smod n = (a :: int) mod n"
  by (auto simp: smod_int_alt_def sgn_if)

lemma CPU_SET_nat: "c < CPU_SETSIZE \<Longrightarrow> CPU_SET (int c) m = insert c m"
  by (simp add: CPU_SET_def)

lemma upto_shift: "(\<lambda>t. f (a + t)) ` {0 ..< int (Suc k)} = insert (f a) ((\<lambda>t. f (a + 1 + t)) ` {0 ..< int k})"
proof -
  have "{0 ..< int (Suc k)} = insert 0 ((+) 1 ` {0 ..< int k})"
  proof (rule set_eqI)
    fix t
    show "t \<in> {0 ..< int (Suc k)} \<longleftrightarrow> t \<in> insert 0 ((+) 1 ` {0 ..< int k})"
      by (cases "t = 0") (auto intro!: image_eqI[of _ _ "t - 1"])
  qed
  then have "(\<lambda>t. f (a + t)) ` {0 ..< int (Suc k)} = (\<lambda>t. f (a + t)) ` insert 0 ((+) 1 ` {0 ..< int k})" by (rule arg_cong)
  then show ?thesis unfolding image_insert image_image by (simp only: add_0_right add.assoc)
qed

lemma mask_loop_result:
  assumes "placed st ids"
  shows "0 \<le> a \<Longrightarrow> mask_loop st S (a mod ncpus_available st) k =
    Some (0, S \<union> cpu_of st ids ` (\<lambda>t. (a + t) mod ncpus_available st) ` {0 ..< int k})"
proof (induction k arbitrary: a S)
  case (Suc k)
  let ?n = "ncpus_available st"
  have n: "0 < ?n" using assms by (simp add: placed_def)
  have p: "0 \<le> a mod ?n" "a mod ?n < ?n" using n by auto
  note pc = position_cpu[OF assms p]
  have "(a mod ?n + 1) smod ?n = (a + 1) mod ?n"
    using smod_nonneg[of "a mod ?n + 1" ?n] p n by (simp add: mod_add_left_eq)
  then have "mask_loop st S (a mod ?n) (Suc k) = mask_loop st (insert (cpu_of st ids (a mod ?n)) S) ((a + 1) mod ?n) k"
    using pc by (simp add: CPU_SET_nat)
  also have "\<dots> = Some (0, insert (cpu_of st ids (a mod ?n)) S \<union>
      cpu_of st ids ` (\<lambda>t. (a + 1 + t) mod ?n) ` {0 ..< int k})"
    by (rule Suc.IH) (use Suc.prems in simp)
  finally show ?case using upto_shift[of "\<lambda>x. x mod ?n" a k] by simp
qed simp

lemma mask_reverse_loop_result:
  assumes "placed st ids"
  shows "0 \<le> a \<Longrightarrow> mask_reverse_loop st S (ncpus_available st - 1 - a mod ncpus_available st) k =
    Some (0, S \<union> cpu_of st ids ` (\<lambda>t. ncpus_available st - 1 - (a + t) mod ncpus_available st) ` {0 ..< int k})"
proof (induction k arbitrary: a S)
  case (Suc k)
  let ?n = "ncpus_available st"
  have n: "0 < ?n" using assms by (simp add: placed_def)
  have p: "0 \<le> ?n - 1 - a mod ?n" "?n - 1 - a mod ?n < ?n"
    using n pos_mod_bound[OF n, of a] pos_mod_sign[OF n, of a] by linarith+
  note pc = position_cpu[OF assms p]
  have "(if ?n - 1 - a mod ?n - 1 \<ge> 0 then ?n - 1 - a mod ?n - 1 else ?n - 1) = ?n - 1 - (a + 1) mod ?n"
  proof (cases "a mod ?n = ?n - 1")
    case True
    then have "(a + 1) mod ?n = 0" by (metis diff_add_cancel mod_add_left_eq mod_self)
    then show ?thesis using True by simp
  next
    case False
    then have "a mod ?n + 1 < ?n" using pos_mod_bound[OF n, of a] by linarith
    then have "(a + 1) mod ?n = a mod ?n + 1"
      using mod_add_left_eq[of a ?n 1] pos_mod_sign[OF n, of a] by simp
    then show ?thesis using \<open>a mod ?n + 1 < ?n\<close> by simp
  qed
  then have "mask_reverse_loop st S (?n - 1 - a mod ?n) (Suc k) =
      mask_reverse_loop st (insert (cpu_of st ids (?n - 1 - a mod ?n)) S) (?n - 1 - (a + 1) mod ?n) k"
    using pc by (simp add: CPU_SET_nat)
  also have "\<dots> = Some (0, insert (cpu_of st ids (?n - 1 - a mod ?n)) S \<union>
      cpu_of st ids ` (\<lambda>t. ?n - 1 - (a + 1 + t) mod ?n) ` {0 ..< int k})"
    by (rule Suc.IH) (use Suc.prems in simp)
  finally show ?case using upto_shift[of "\<lambda>x. ?n - 1 - x mod ?n" a k] by simp
qed simp

lemma generate_mask_result:
  assumes "placed st ids" "get_cpus_per_task st = Some c" "0 < c" "0 \<le> l" "0 \<le> startcpu st"
    and "c = 1 \<Longrightarrow> l + startcpu st < ncpus_available st"
  shows "generate_mask st {} l = Some (0, cpu_of st ids ` task_positions (ncpus_available st) c (startcpu st) l)"
proof (cases "c = 1")
  case True
  have p: "0 \<le> l + startcpu st" "l + startcpu st < ncpus_available st" using assms True by auto
  have "{0 ..< 1 :: int} = {0}" by auto
  then show ?thesis
    using position_cpu[OF assms(1) p] p True assms(2)
    by (simp add: generate_mask_def task_positions_def CPU_SET_nat)
next
  case False
  let ?n = "ncpus_available st"
  have n: "0 < ?n" using assms by (simp add: placed_def)
  have a: "0 \<le> l * c + startcpu st" using assms by simp
  have "generate_mask st {} l = mask_loop st {} ((l * c + startcpu st) mod ?n) (nat c)"
    using False assms(2) n smod_nonneg[OF a n] by (simp add: generate_mask_def)
  then show ?thesis using mask_loop_result[OF assms(1) a, of "{}" "nat c"] assms(3) by (simp add: task_positions_def)
qed

lemma generate_mask_reverse_result:
  assumes "placed st ids" "get_cpus_per_task st = Some c" "0 < c" "0 \<le> l" "0 \<le> startcpu st"
  shows "generate_mask_reverse st {} l =
    Some (0, cpu_of st ids ` task_positions_rev (ncpus_available st) c (startcpu st) l)"
proof -
  let ?n = "ncpus_available st"
  have n: "0 < ?n" using assms by (simp add: placed_def)
  have a: "0 \<le> l * c + startcpu st" using assms by simp
  show ?thesis
  proof (cases "c = 1")
    case True
    have p: "0 \<le> ?n - 1 - (l + startcpu st) mod ?n" "?n - 1 - (l + startcpu st) mod ?n < ?n"
      using n pos_mod_bound[OF n, of "l + startcpu st"] pos_mod_sign[OF n, of "l + startcpu st"] by linarith+
    have "{0 ..< 1 :: int} = {0}" by auto
    then show ?thesis
      using position_cpu[OF assms(1) p] True assms(2,4,5) n smod_nonneg[of "l + startcpu st" ?n]
      by (simp add: generate_mask_reverse_def task_positions_rev_def task_positions_def CPU_SET_nat Let_def)
  next
    case False
    have "generate_mask_reverse st {} l = mask_reverse_loop st {} (?n - 1 - (l * c + startcpu st) mod ?n) (nat c)"
      using False assms(2) n smod_nonneg[OF a n] by (simp add: generate_mask_reverse_def Let_def)
    then show ?thesis
      using mask_reverse_loop_result[OF assms(1) a, of "{}" "nat c"] assms(3)
      by (simp add: task_positions_rev_def task_positions_def image_image)
  qed
qed

lemma task_positions_range: "0 < n \<Longrightarrow> task_positions n c s l \<subseteq> {0 ..< n}" "0 < n \<Longrightarrow> task_positions_rev n c s l \<subseteq> {0 ..< n}"
proof -
  assume n: "0 < n"
  then show r: "task_positions n c s l \<subseteq> {0 ..< n}" by (auto simp: task_positions_def)
  show "task_positions_rev n c s l \<subseteq> {0 ..< n}"
  proof
    fix q
    assume "q \<in> task_positions_rev n c s l"
    then obtain p where "q = n - 1 - p" "p \<in> task_positions n c s l" by (auto simp: task_positions_rev_def)
    then show "q \<in> {0 ..< n}" using subsetD[OF r, of p] by auto
  qed
qed

text \<open>Two of the numbers \<open>0 .. n - 1\<close> shifted by the same amount stay different modulo \<open>n\<close>.\<close>

lemma mod_shift_inj:
  fixes x y s n :: int
  assumes "(x + s) mod n = (y + s) mod n" "0 \<le> x" "x < n" "0 \<le> y" "y < n"
  shows "x = y"
proof -
  have "(x + s - s) mod n = (y + s - s) mod n" using assms(1) mod_diff_left_eq by metis
  then show ?thesis using assms by simp
qed

lemma task_positions_card:
  assumes "0 < c" "0 \<le> l" "l * c + c \<le> n"
  shows "card (task_positions n c s l) = nat c"
proof -
  have "inj_on (\<lambda>t. (l * c + s + t) mod n) {0 ..< c}"
  proof (rule inj_onI)
    fix x y
    assume x: "x \<in> {0 ..< c}" and y: "y \<in> {0 ..< c}" and e: "(l * c + s + x) mod n = (l * c + s + y) mod n"
    have "((l * c + x) + s) mod n = ((l * c + y) + s) mod n" using e by (simp add: algebra_simps)
    moreover have "0 \<le> l * c" using assms by simp
    ultimately have "l * c + x = l * c + y" using mod_shift_inj[of "l * c + x" s n "l * c + y"] x y assms by auto
    then show "x = y" by simp
  qed
  then show ?thesis unfolding task_positions_def by (simp add: card_image)
qed

lemma task_positions_disjoint:
  assumes "0 < c" "0 \<le> l" "0 \<le> k" "l * c + c \<le> n" "k * c + c \<le> n" "l \<noteq> k"
  shows "task_positions n c s l \<inter> task_positions n c s k = {}"
proof (rule ccontr)
  assume "\<not> ?thesis"
  then obtain x y where x: "0 \<le> x" "x < c" and y: "0 \<le> y" "y < c"
    and e: "(l * c + s + x) mod n = (k * c + s + y) mod n"
    by (auto simp: task_positions_def)
  have "((l * c + x) + s) mod n = ((k * c + y) + s) mod n" using e by (simp add: algebra_simps)
  moreover have "0 \<le> l * c" "0 \<le> k * c" using assms by simp_all
  ultimately have q: "l * c + x = k * c + y" using mod_shift_inj[of "l * c + x" s n "k * c + y"] x y assms by auto
  have "(l * c + x) div c = l" "(k * c + y) div c = k" using x y assms(1) by simp_all
  with q assms(6) show False by simp
qed

lemma cpu_of_image:
  assumes "placed st ids" "A \<subseteq> {0 ..< ncpus_available st}"
  shows "cpu_of st ids ` A \<subseteq> cpus_available st" "card (cpu_of st ids ` A) = card A"
    "B \<subseteq> {0 ..< ncpus_available st} \<Longrightarrow> A \<inter> B = {} \<Longrightarrow> cpu_of st ids ` A \<inter> cpu_of st ids ` B = {}"
proof -
  show "cpu_of st ids ` A \<subseteq> cpus_available st" using position_cpu(3)[OF assms(1)] assms(2) by auto
  have inj: "inj_on (cpu_of st ids) {0 ..< ncpus_available st}"
    using cpu_of_inj[OF assms(1)] by (auto intro!: inj_onI)
  then show "card (cpu_of st ids ` A) = card A" using assms(2) by (meson card_image inj_on_subset)
  show "cpu_of st ids ` A \<inter> cpu_of st ids ` B = {}" if "B \<subseteq> {0 ..< ncpus_available st}" "A \<inter> B = {}"
    using inj_on_image_Int[OF inj assms(2) that(1)] that(2) by simp
qed

lemma task_positions_rev_facts:
  "card (task_positions_rev n c s l) = card (task_positions n c s l)"
  "task_positions n c s l \<inter> task_positions n c s k = {} \<Longrightarrow> task_positions_rev n c s l \<inter> task_positions_rev n c s k = {}"
proof -
  have inj: "inj (\<lambda>p :: int. n - 1 - p)" by (auto intro!: injI)
  then show "card (task_positions_rev n c s l) = card (task_positions n c s l)"
    unfolding task_positions_rev_def by (meson card_image inj_on_subset subset_UNIV)
  show "task_positions n c s l \<inter> task_positions n c s k = {} \<Longrightarrow> task_positions_rev n c s l \<inter> task_positions_rev n c s k = {}"
    unfolding task_positions_rev_def using inj by (simp add: image_Int[OF inj, symmetric])
qed

text \<open>Two tasks that together with the others fit into the available CPUs.\<close>

lemma masks_apart:
  assumes pl: "placed st ids" and cpt: "get_cpus_per_task st = Some c" "0 < c" and start: "0 \<le> startcpu st"
    and tasks: "0 \<le> i" "i < n" "0 \<le> j" "j < n" "n * c \<le> ncpus_available st"
    and one: "c = 1 \<Longrightarrow> is_reverse st \<or> n + startcpu st \<le> ncpus_available st"
  defines "gen \<equiv> (if is_reverse st then generate_mask_reverse st {} else generate_mask st {})"
  shows "\<exists>A B. gen i = Some (0, A) \<and> gen j = Some (0, B) \<and> A \<subseteq> cpus_available st \<and> B \<subseteq> cpus_available st \<and>
    card A = nat c \<and> card B = nat c \<and> (i \<noteq> j \<longrightarrow> A \<inter> B = {})"
proof -
  let ?n = "ncpus_available st" and ?s = "startcpu st"
  have n: "0 < ?n" using pl by (simp add: placed_def)
  have fit: "l * c + c \<le> ?n" if "0 \<le> l" "l < n" for l
  proof -
    have "(l + 1) * c \<le> n * c" using that cpt(2) by (intro mult_right_mono) auto
    then show ?thesis using tasks(5) by (simp add: algebra_simps)
  qed
  let ?P = "if is_reverse st then task_positions_rev ?n c ?s else task_positions ?n c ?s"
  have g: "gen l = Some (0, cpu_of st ids ` ?P l)" if "0 \<le> l" "l < n" for l
  proof (cases "is_reverse st")
    case False
    then have "c = 1 \<Longrightarrow> l + startcpu st < ncpus_available st" using one that by auto
    then show ?thesis using generate_mask_result[OF pl cpt that(1) start] False by (simp add: gen_def)
  qed (use generate_mask_reverse_result[OF pl cpt that(1) start] in \<open>simp add: gen_def\<close>)
  have r: "?P l \<subseteq> {0 ..< ?n}" for l using task_positions_range[OF n] by simp
  have cd: "card (?P l) = nat c" if "0 \<le> l" "l < n" for l
    using task_positions_card[OF cpt(2) that(1) fit[OF that], of ?s] by (simp add: task_positions_rev_facts(1))
  have "?P i \<inter> ?P j = {}" if "i \<noteq> j"
    using task_positions_disjoint[OF cpt(2) tasks(1,3) fit[OF tasks(1,2)] fit[OF tasks(3,4)] that, of ?s]
      task_positions_rev_facts(2)[of ?n c ?s i j] by simp
  then show ?thesis
    using g[OF tasks(1,2)] g[OF tasks(3,4)] cpu_of_image[OF pl r] cd[OF tasks(1,2)] cd[OF tasks(3,4)] r
    by (intro exI[of _ "cpu_of st ids ` ?P i"] exI[of _ "cpu_of st ids ` ?P j"]) auto
qed

section \<open>Lists of CPUs\<close>

lemma sscanf_dec:
  assumes "n < 2 ^ 31" "r = [] \<or> \<not> isdigit (hd r)"
  shows "sscanf_u (dec n @ r) = Some (word_of_nat n)"
proof -
  have "strtoul (dec n @ r) = (word_of_nat n, r)" using strtoul_dec[OF _ assms(2), of n] assms(1) by simp
  moreover have "ucast (word_of_nat n :: ulong) = (word_of_nat n :: 32 word)" by (rule bit_word_eqI) (auto simp: bit_simps)
  ultimately show ?thesis by (simp add: sscanf_u_def)
qed

lemma scan_entry_text:
  assumes "entry_valid (a, b, s)" "tail_ok r"
  shows "scan_entry err (entry_text (a, b, s) @ r) =
    Inr (word_of_nat a, word_of_nat b, if a < b then word_of_nat s else 1)"
proof -
  have v: "a \<le> b" "b < 2 ^ 31" "a < 2 ^ 31" "s < 2 ^ 31" using assms(1) by (auto simp: CPU_SETSIZE_def)
  note nd = tail_not_digit[OF assms(2)]
  show ?thesis
  proof (cases "a < b")
    case False
    then have ab: "a = b" using v by simp
    have t: "entry_text (a, b, s) @ r = dec a @ r" using False by simp
    have c: "nexttoken (Some (dec a @ r)) (CHR ''-'') = nexttoken (Some r) (CHR ''-'')"
      "nexttoken (Some (dec a @ r)) (CHR '','') = nexttoken (Some r) (CHR '','')"
      using dec_seps by (simp_all add: next_skip)
    show ?thesis
      unfolding t scan_entry_def sscanf_dec[OF v(3) nd] c
      using tail_not_before[OF assms(2), of "CHR ''-''"] ab by (auto simp: Let_def split: option.splits)
  next
    case True
    define u where "u = (if s \<noteq> 1 then '':'' @ dec s else []) @ r"
    have t: "entry_text (a, b, s) @ r = dec a @ CHR ''-'' # dec b @ u" using True by (simp add: u_def)
    have ndu: "u = [] \<or> \<not> isdigit (hd u)" using nd sep_digits by (auto simp: u_def)
    have st: "sscanf_u (dec a @ CHR ''-'' # dec b @ u) = Some (word_of_nat a)"
      using sscanf_dec[OF v(3), of "CHR ''-'' # dec b @ u"] sep_digits by simp
    have st1: "sscanf_u (dec b @ u) = Some (word_of_nat b)" using sscanf_dec[OF v(2) ndu] .
    have c1: "nexttoken (Some (dec a @ CHR ''-'' # dec b @ u)) (CHR ''-'') = Some (dec b @ u)"
      using dec_seps by (simp add: next_skip)
    have cu: "nexttoken (Some u) (CHR '','') = nexttoken (Some r) (CHR '','')"
      using dec_seps by (simp add: u_def next_skip next_other)
    have c2: "nexttoken (Some (dec a @ CHR ''-'' # dec b @ u)) (CHR '','') = nexttoken (Some r) (CHR '','')"
      using dec_seps cu by (simp add: next_skip next_other)
    have bf: "before (dec b @ u) (nexttoken (Some r) (CHR '',''))"
      using tail_before[OF assms(2), of "dec b @ (if s \<noteq> 1 then '':'' @ dec s else [])"] by (simp add: u_def)
    have e: "scan_entry err (entry_text (a, b, s) @ r) = (case nexttoken (Some (dec b @ u)) (CHR '':'') of
        None \<Rightarrow> Inr (word_of_nat a, word_of_nat b, 1)
      | Some c3 \<Rightarrow>
          if \<not> before c3 (nexttoken (Some r) (CHR '','')) then Inr (word_of_nat a, word_of_nat b, 1)
          else (case sscanf_u c3 of None \<Rightarrow> Inl err | Some s \<Rightarrow> Inr (word_of_nat a, word_of_nat b, s)))"
      unfolding t scan_entry_def st c1 c2 using bf st1 by (simp add: Let_def cong: if_cong option.case_cong)
    show ?thesis
    proof (cases "s = 1")
      case s1: True
      then have u: "u = r" by (simp add: u_def)
      have "nexttoken (Some (dec b @ u)) (CHR '':'') = nexttoken (Some r) (CHR '':'')"
        using dec_seps u by (simp add: next_skip)
      then show ?thesis
        unfolding e using s1 True u tail_not_before[OF assms(2), of "CHR '':''"] by (auto split: option.splits)
    next
      case False
      then have u: "u = CHR '':'' # dec s @ r" by (simp add: u_def)
      have "nexttoken (Some (dec b @ u)) (CHR '':'') = Some (dec s @ r)"
        using dec_seps u by (simp add: next_skip)
      then show ?thesis
        unfolding e using True tail_before[OF assms(2), of "dec s"] sscanf_dec[OF v(4) nd] by simp
    qed
  qed
qed

lemma u32_small: "n < 2 ^ 31 \<Longrightarrow> unat (word_of_nat n :: 32 word) = n"
  by (simp add: unat_of_nat)

lemma stride_step:
  assumes "a \<le> b" "b < CPU_SETSIZE" "s < 2 ^ 31"
  shows "(word_of_nat a :: 32 word) \<le> word_of_nat b" "sint (word_of_nat a :: 32 word) = int a"
    "(word_of_nat (a + s) :: 32 word) \<le> word_of_nat b \<longleftrightarrow> a + s \<le> b"
proof -
  have u: "unat (word_of_nat a :: 32 word) = a" "unat (word_of_nat b :: 32 word) = b"
    by (rule u32_small, use assms in \<open>simp add: CPU_SETSIZE_def\<close>)+
  have us: "unat (word_of_nat (a + s) :: 32 word) = a + s"
    using assms by (simp add: unat_of_nat CPU_SETSIZE_def del: of_nat_add)
  show "(word_of_nat a :: 32 word) \<le> word_of_nat b" using assms(1) by (simp only: word_le_nat_alt u)
  show "(word_of_nat (a + s) :: 32 word) \<le> word_of_nat b \<longleftrightarrow> a + s \<le> b" by (simp only: word_le_nat_alt u us)
  have "signed_take_bit 31 (int a) = int a" using assms by (intro signed_take_bit_int_eq_self) (auto simp: CPU_SETSIZE_def)
  moreover have "word_of_nat a = (word_of_int (int a) :: 32 word)" by simp
  ultimately show "sint (word_of_nat a :: 32 word) = int a" by (simp only: sint_sbintrunc') simp
qed

lemma count_stride_result:
  assumes "a \<le> b" "b < CPU_SETSIZE" "0 < s" "s < 2 ^ 31"
  shows "count_stride (word_of_nat a) (word_of_nat b) (word_of_nat s) n = Some (n + int (length (entry_cpus (a, b, s))))"
  using assms(1)
proof (induction "b - a" arbitrary: a n rule: less_induct)
  case less
  note st = stride_step[OF less.prems assms(2,4)]
  have step: "count_stride (word_of_nat a) (word_of_nat b) (word_of_nat s) n =
      count_stride (word_of_nat (a + s)) (word_of_nat b) (word_of_nat s) (n + 1)"
    using st(1) by (subst count_stride.simps) simp
  show ?case
  proof (cases "a + s \<le> b")
    case True
    then show ?thesis
      unfolding step using less.hyps[of "a + s" "n + 1"] assms(3) less.prems entry_cpus_step[OF assms(3), of a b]
      by (simp del: entry_cpus.simps of_nat_add)
  next
    case False
    then show ?thesis
      unfolding step using st(3) entry_cpus_step[OF assms(3), of a b]
      by (subst count_stride.simps) (simp del: entry_cpus.simps of_nat_add)
  qed
qed

lemma id_stride_result:
  assumes "a \<le> b" "b < CPU_SETSIZE" "0 < s" "s < 2 ^ 31" "i \<le> n"
  shows "id_stride (word_of_nat a) (word_of_nat b) (word_of_nat s) (int i) (int n) =
    (let xs = entry_cpus (a, b, s) in
     Some (if n - i < length xs then Inl (int (xs ! (n - i))) else Inr (int (i + length xs))))"
  using assms(1,5)
proof (induction "b - a" arbitrary: a i rule: less_induct)
  case less
  note st = stride_step[OF less.prems(1) assms(2,4)]
  note xs = entry_cpus_step[OF assms(3), of a b]
  show ?case
  proof (cases "i = n")
    case True
    then show ?thesis
      using st(1,2) unfolding xs Let_def by (subst id_stride.simps) (simp del: entry_cpus.simps)
  next
    case False
    then have lt: "Suc i \<le> n" using less.prems(2) by simp
    then have nd: "n - i = Suc (n - Suc i)" by simp
    have step: "id_stride (word_of_nat a) (word_of_nat b) (word_of_nat s) (int i) (int n) =
        id_stride (word_of_nat (a + s)) (word_of_nat b) (word_of_nat s) (int (Suc i)) (int n)"
      using st(1) False by (subst id_stride.simps) (simp add: add.commute)
    show ?thesis
    proof (cases "a + s \<le> b")
      case True
      have "id_stride (word_of_nat (a + s)) (word_of_nat b) (word_of_nat s) (int (Suc i)) (int n) =
          (let xs = entry_cpus (a + s, b, s) in
           Some (if n - Suc i < length xs then Inl (int (xs ! (n - Suc i))) else Inr (int (Suc i + length xs))))"
        by (rule less.hyps) (use True assms(3) less.prems(1) lt in auto)
      then show ?thesis unfolding step xs Let_def nd using True by (simp del: entry_cpus.simps of_nat_add)
    next
      case False
      then show ?thesis
        unfolding step xs Let_def nd using st(3) by (subst id_stride.simps) (simp del: of_nat_add)
    qed
  qed
qed

lemma entry_stride32:
  assumes "entry_valid (a, b, s)"
  shows "(word_of_nat a :: 32 word) \<le> word_of_nat b"
    "count_stride (word_of_nat a) (word_of_nat b) (if a < b then word_of_nat s else 1) n =
      Some (n + int (length (entry_cpus (a, b, s))))"
    "i \<le> k \<Longrightarrow> id_stride (word_of_nat a) (word_of_nat b) (if a < b then word_of_nat s else 1) (int i) (int k) =
      (let xs = entry_cpus (a, b, s) in
       Some (if k - i < length xs then Inl (int (xs ! (k - i))) else Inr (int (i + length xs))))"
proof -
  have v: "a \<le> b" "b < CPU_SETSIZE" "0 < s" "s < 2 ^ 31" using assms by auto
  show "(word_of_nat a :: 32 word) \<le> word_of_nat b" by (rule stride_step(1)[OF v(1,2,4)])
  show "count_stride (word_of_nat a) (word_of_nat b) (if a < b then word_of_nat s else 1) n =
      Some (n + int (length (entry_cpus (a, b, s))))"
    using count_stride_result[OF v, of n] count_stride_result[OF v(1,2), of 1 n] v(1) by (cases "a < b") simp_all
  show "i \<le> k \<Longrightarrow> id_stride (word_of_nat a) (word_of_nat b) (if a < b then word_of_nat s else 1) (int i) (int k) =
      (let xs = entry_cpus (a, b, s) in
       Some (if k - i < length xs then Inl (int (xs ! (k - i))) else Inr (int (i + length xs))))"
    using id_stride_result[OF v, of i k] id_stride_result[OF v(1,2), of 1 i k] v(1) by (cases "a < b") simp_all
qed

lemma count_loop_result:
  assumes "ts \<noteq> []" "\<forall>t\<in>set ts. entry_valid t"
  shows "count_loop n (comma_list (map entry_text ts)) = Some (n + int (length (concat (map entry_cpus ts))))"
  using assms
proof (induction ts arbitrary: n)
  case (Cons t ts)
  obtain a b s where t: "t = (a, b, s)" by (cases t)
  have v: "entry_valid (a, b, s)" using Cons.prems(2) t by simp
  let ?r = "if ts = [] then [] else CHR '','' # comma_list (map entry_text ts)"
  have tl: "tail_ok ?r" by (auto simp: tail_ok_def)
  have step: "count_loop n (entry_text t @ ?r) =
      (case nexttoken (Some ?r) (CHR '','') of
         None \<Rightarrow> Some (n + int (length (entry_cpus t)))
       | Some q \<Rightarrow> count_loop (n + int (length (entry_cpus t))) q)"
    using entry_stride32(1)[OF v] entry_stride32(2)[OF v, of n]
    by (subst count_loop.simps) (simp add: entry_text_next t scan_entry_text[OF v tl] del: entry_text.simps entry_cpus.simps)
  show ?case
  proof (cases "ts = []")
    case True
    then show ?thesis unfolding comma_list_tail step by (simp del: entry_cpus.simps)
  next
    case False
    then have "count_loop (n + int (length (entry_cpus t))) (comma_list (map entry_text ts)) =
        Some (n + int (length (entry_cpus t)) + int (length (concat (map entry_cpus ts))))"
      using Cons.IH Cons.prems(2) by simp
    then show ?thesis unfolding comma_list_tail step using False by (simp del: entry_cpus.simps)
  qed
qed simp

lemma id_loop_result:
  assumes "ts \<noteq> []" "\<forall>t\<in>set ts. entry_valid t" "i \<le> k"
  shows "id_loop (int i) (int k) (comma_list (map entry_text ts)) =
    (let xs = concat (map entry_cpus ts) in Some (if k - i < length xs then int (xs ! (k - i)) else - 1))"
  using assms
proof (induction ts arbitrary: i)
  case (Cons t ts)
  obtain a b s where t: "t = (a, b, s)" by (cases t)
  have v: "entry_valid (a, b, s)" using Cons.prems(2) t by simp
  let ?r = "if ts = [] then [] else CHR '','' # comma_list (map entry_text ts)" and ?xs = "entry_cpus t"
  have tl: "tail_ok ?r" by (auto simp: tail_ok_def)
  have step: "id_loop (int i) (int k) (entry_text t @ ?r) =
      (if k - i < length ?xs then Some (int (?xs ! (k - i)))
       else (case nexttoken (Some ?r) (CHR '','') of
               None \<Rightarrow> Some (- 1)
             | Some q \<Rightarrow> id_loop (int (i + length ?xs)) (int k) q))"
    using entry_stride32(1)[OF v] entry_stride32(3)[OF v Cons.prems(3)]
    by (subst id_loop.simps)
      (simp add: entry_text_next t scan_entry_text[OF v tl] Let_def del: entry_text.simps entry_cpus.simps of_nat_add)
  show ?case
  proof (cases "k - i < length ?xs")
    case True
    then show ?thesis unfolding comma_list_tail step Let_def by (simp add: nth_append del: entry_cpus.simps)
  next
    case far: False
    show ?thesis
    proof (cases "ts = []")
      case True
      then show ?thesis unfolding comma_list_tail step using far by (simp del: entry_cpus.simps)
    next
      case False
      have "i + length ?xs \<le> k" using far Cons.prems(3) by linarith
      then have "id_loop (int (i + length ?xs)) (int k) (comma_list (map entry_text ts)) =
          (let xs = concat (map entry_cpus ts) in
           Some (if k - (i + length ?xs) < length xs then int (xs ! (k - (i + length ?xs))) else - 1))"
        using Cons.IH[of "i + length ?xs"] Cons.prems(2) False by simp
      then show ?thesis
        unfolding comma_list_tail step Let_def using far False
        by (auto simp: nth_append diff_diff_left add.commute simp del: entry_cpus.simps of_nat_add)
    qed
  qed
qed simp

end
