(* ===== verification/CpuProps.thy ===== *)
theory CpuProps
  imports AutoAffinityLaws
begin

text \<open>
  The properties of CPU masks (\<open>cpuset-str.c\<close>) and of the plugin \<open>auto-affinity.c\<close>.
\<close>

section \<open>Masks as text\<close>

text \<open>
  C32: the list format is read back: \<open>cstr_to_cpuset\<close> of what \<open>cpuset_to_cstr\<close> wrote ends,
  returns 0 and gives the same mask.
\<close>

theorem cpuset_cstr_roundtrip:
  assumes "m \<subseteq> {..< CPU_SETSIZE}"
  shows "cstr_to_cpuset (cpuset_to_cstr m) = Some (0, m)"
  by (rule cstr_round[OF assms])

theorem cpuset_cstr_roundtrip_witness:
  "cstr_to_cpuset (cpuset_to_cstr {0, 1, 2, 3, 8, 10, 11}) = Some (0, {0, 1, 2, 3, 8, 10, 11})"
  by (rule cpuset_cstr_roundtrip) (simp add: CPU_SETSIZE_def)

text \<open>
  no mask needs more than 3416 characters, NUL and the comma that is overwritten included,
  so the buffers of 4096 characters the callers pass to \<open>cpuset_to_cstr\<close> are large enough.
\<close>

theorem cpuset_cstr_bounds:
  "length (to_cstr_loop m 0) + 1 \<le> 3417 \<and> length (cpuset_to_cstr m) + 1 \<le> 3417"
  using to_cstr_length[of 0 m] by (simp add: CPU_SETSIZE_def cpuset_to_cstr_def)

text \<open>
  C34: for a list of entries \<open>first-last:stride\<close> the three parsers agree: \<open>cstr_to_cpuset\<close> sets
  the CPUs of the entries, \<open>cstr_count\<close> counts them, and \<open>cstr_to_cpu_id\<close> gives the one at an
  index and -1 past the end.
\<close>

theorem cstr_parsers_agree:
  assumes "ts \<noteq> []" "\<forall>t\<in>set ts. entry_valid t"
  shows "let str = comma_list (map entry_text ts); xs = concat (map entry_cpus ts) in
    cstr_to_cpuset str = Some (0, set xs) \<and> cstr_count str = Some (int (length xs)) \<and>
    cstr_to_cpu_id str (int n) = Some (if n < length xs then int (xs ! n) else - 1)"
  using cstr_to_cpuset_result[OF assms(2)] count_loop_result[OF assms, of 0] id_loop_result[OF assms, of 0 n]
  by (simp add: cstr_count_def cstr_to_cpu_id_def Let_def del: entry_text.simps entry_cpus.simps)

theorem cstr_parsers_agree_witness:
  "cstr_to_cpuset ''4-8:2,1'' = Some (0, {1, 4, 6, 8}) \<and> cstr_count ''4-8:2,1'' = Some 4 \<and>
   cstr_to_cpu_id ''4-8:2,1'' (int 3) = Some 1"
proof -
  let ?ts = "[(4, 8, 2), (1, 1, 1)]"
  have t: "comma_list (map entry_text ?ts) = ''4-8:2,1''" and x: "concat (map entry_cpus ?ts) = [4, 6, 8, 1]"
    by code_simp+
  have "\<forall>t\<in>set ?ts. entry_valid t" by (simp add: CPU_SETSIZE_def)
  from cstr_parsers_agree[OF _ this, of 3] show ?thesis unfolding t x Let_def by auto
qed

text \<open>
  C33: a mask of any CPUs written by \<open>cpuset_to_hex\<close> into a buffer that holds its chunks of eight
  digits is read back by \<open>hex_to_cpuset\<close>; the count it returns is the length of the text.
\<close>

theorem cpuset_hex_roundtrip:
  assumes "m \<subseteq> {..< CPU_SETSIZE}" "9 * (cpuset_last_bit m div 32 + 1) < len" "len \<le> length buf" "len < 2 ^ 64"
  shows "\<exists>n buf'. cpuset_to_hex m buf len = Some (n, buf') \<and> n = int (length (cstr buf')) \<and>
    hex_to_cpuset (cstr buf') = (0, m)"
proof -
  let ?k = "cpuset_last_bit m div HEXCHUNKSZ + 1"
  have l: "length (hex_text m [] ?k) < len"
    using hex_text_length[of m "[]" ?k] assms(2) by (simp add: HEXCHUNKSZ_def del: hex_text.simps)
  from cpuset_to_hex_result[OF l assms(3,4)] obtain buf' where
    b: "cpuset_to_hex m buf len = Some (int (length (hex_text m [] ?k)), buf')"
      "take (length (hex_text m [] ?k) + 1) buf' = hex_text m [] ?k @ [CHR 0x00]" by blast
  have "cstr buf' = hex_text m [] ?k" by (rule cstr_take[OF b(2) hex_text_round(3)[OF assms(1)]])
  then show ?thesis using b(1) hex_text_round(1)[OF assms(1)] by auto
qed

lemma last_bit_le: "\<forall>x\<in>m. x \<le> b \<Longrightarrow> last_bit_loop m k \<le> b"
  by (induction k) (auto simp: CPU_ISSET_def)

theorem cpuset_hex_roundtrip_witness:
  "\<exists>n buf'. cpuset_to_hex {0, 5, 40} (replicate 30 (CHR ''.'')) 30 = Some (n, buf') \<and>
     hex_to_cpuset (cstr buf') = (0, {0, 5, 40})"
proof -
  have "cpuset_last_bit {0, 5, 40} \<le> 40" unfolding cpuset_last_bit_def by (rule last_bit_le) simp
  then have "cpuset_last_bit {0, 5, 40} div 32 \<le> 40 div 32" by (rule div_le_mono)
  then have "9 * (cpuset_last_bit {0, 5, 40} div 32 + 1) < 30" by simp
  then show ?thesis
    using cpuset_hex_roundtrip[of "{0, 5, 40}" 30 "replicate 30 (CHR ''.'')"] by (simp add: CPU_SETSIZE_def) blast
qed

lemma nibble_loop_error: "\<exists>c\<in>set s. \<not> isxdigit c \<Longrightarrow> fst (nibble_loop m base s) = - 1"
  by (induction s arbitrary: m base) (auto simp: isxdigit_def Let_def)

text \<open>
  \<open>str_to_cpuset\<close> of hexadecimal digits, with or without \<open>0x\<close>, is the mask of the bits of
  their value below 1024; any other character makes it return -1.
\<close>

theorem str_to_cpuset_value:
  assumes "ds \<noteq> []"
  shows "if \<forall>c\<in>set ds. isxdigit c
    then str_to_cpuset ds = (0, {i. i < CPU_SETSIZE \<and> bit (hex_val ds) i}) \<and>
         str_to_cpuset (''0x'' @ ds) = (0, {i. i < CPU_SETSIZE \<and> bit (hex_val ds) i})
    else fst (str_to_cpuset (''0x'' @ ds)) = - 1"
proof (cases "\<forall>c\<in>set ds. isxdigit c")
  case True
  have "take 2 ds \<noteq> ''0x''"
  proof
    assume "take 2 ds = ''0x''"
    then have "CHR ''x'' \<in> set (take 2 ds)" by simp
    then have "isxdigit (CHR ''x'')" using True in_set_takeD by fast
    then show False using xdigit_not by blast
  qed
  then show ?thesis using True nibble_loop_result[OF True, of 0 "{}"] assms by (simp add: str_to_cpuset_def)
next
  case False
  then have "\<exists>c\<in>set (rev ds). \<not> isxdigit c" by auto
  from nibble_loop_error[OF this, of "{}" 0] have "fst (str_to_cpuset (''0x'' @ ds)) = - 1"
    using assms by (simp add: str_to_cpuset_def)
  then show ?thesis using False by auto
qed

theorem str_to_cpuset_value_witness:
  "str_to_cpuset ''f01'' = (0, {i. i < CPU_SETSIZE \<and> bit (hex_val ''f01'') i}) \<and> fst (str_to_cpuset ''0x1g'') = - 1"
proof -
  have "\<forall>c\<in>set ''f01''. isxdigit c" "\<not> (\<forall>c\<in>set ''1g''. isxdigit c)" by code_simp+
  then show ?thesis using str_to_cpuset_value[of "''f01''"] str_to_cpuset_value[of "''1g''"] by simp
qed

section \<open>Automatic affinity\<close>

text \<open>
  when the topology of every CPU can be read \<open>create_cpu_position_map\<close> stores a permutation
  of the CPU numbers ordered by package and core; otherwise it returns -1 and stores nothing.
\<close>

theorem cpu_position_map_permutes:
  assumes "mem = (h, lf, nf, itf)" "0 < fl_cap lf" "nat n \<le> fl_cap nf" "0 < fl_cap itf" "fl_ok {} nf" "fl_ok {} itf"
  shows "if \<forall>c\<in>{0 ..< n}. readable topo c
    then \<exists>ids. create_cpu_position_map mem topo n st = Some (0, st\<lparr>cpu_position_map := Some (map Some ids)\<rparr>) \<and>
      mset ids = mset (map int [0 ..< nat n]) \<and> position_order topo ids
    else create_cpu_position_map mem topo n st = Some (- 1, st)"
  by (rule position_map_result[OF assms])

definition two_packages :: topology where
  "two_packages = (\<lambda>c. c mod 2, \<lambda>c. c div 2)"

theorem cpu_position_map_permutes_witness:
  "\<exists>ids. create_cpu_position_map (0, some_heap, some_heap, some_heap) two_packages 4 affinity_start =
      Some (0, affinity_start\<lparr>cpu_position_map := Some (map Some ids)\<rparr>) \<and>
    mset ids = mset (map int [0 ..< 4]) \<and> position_order two_packages ids"
proof -
  have "\<forall>c\<in>{0 ..< 4}. readable two_packages c" by (auto simp: readable_def two_packages_def)
  moreover have "fl_cap some_heap = 32" by (simp add: some_heap_facts)
  moreover have "fl_ok {} some_heap" by (simp add: some_heap_facts)
  ultimately show ?thesis
    using cpu_position_map_permutes[of "(0, some_heap, some_heap, some_heap)" 0 some_heap some_heap some_heap 4
        two_packages affinity_start] by simp
qed

text \<open>
  \<open>generate_mask\<close> and \<open>generate_mask_reverse\<close>: when the tasks with \<open>c\<close> CPUs each fit into
  the available CPUs, every task gets \<open>c\<close> of them and no CPU is given to two tasks.
\<close>

theorem task_masks_disjoint:
  assumes "placed st ids" "get_cpus_per_task st = Some c" "0 < c" "0 \<le> startcpu st"
    and "0 \<le> i" "i < n" "0 \<le> j" "j < n" "n * c \<le> ncpus_available st"
    and "c = 1 \<Longrightarrow> is_reverse st \<or> n + startcpu st \<le> ncpus_available st"
  shows "let gen = (if is_reverse st then generate_mask_reverse st {} else generate_mask st {}) in
    \<exists>A B. gen i = Some (0, A) \<and> gen j = Some (0, B) \<and> A \<subseteq> cpus_available st \<and> B \<subseteq> cpus_available st \<and>
      card A = nat c \<and> card B = nat c \<and> (i \<noteq> j \<longrightarrow> A \<inter> B = {})"
  unfolding Let_def by (rule masks_apart[OF assms])

text \<open>
  A node all of whose CPUs are available to the step: the affinity mask of the step has them all,
  and the position map, which was made for all of them, is a permutation.
\<close>

definition whole_node :: "affinity \<Rightarrow> bool" where
  "whole_node st \<longleftrightarrow> 0 < ncpus st \<and> ncpus st \<le> int CPU_SETSIZE \<and>
    cpus_available st = {0 ..< nat (ncpus st)} \<and> ncpus_available st = ncpus st \<and>
    (\<exists>ids. cpu_position_map st = Some (map Some ids) \<and> mset ids = mset (map int [0 ..< nat (ncpus st)]))"


text \<open>
  This is what \<open>slurm_spank_init\<close> without arguments and \<open>slurm_spank_init_post_opt\<close> leave when the
  topology of every CPU can be read and the mask of the step has all of them.
\<close>

lemma init_whole_node:
  assumes "mem = (h, lf, nf, itf)" "0 < fl_cap lf" "nat n \<le> fl_cap nf" "0 < fl_cap itf" "fl_ok {} nf" "fl_ok {} itf"
    and n: "0 < n" "n \<le> int CPU_SETSIZE" "\<forall>c\<in>{0 ..< n}. readable topo c"
    and sp: "sp_remote sp" "sp_local_tasks sp = Some t"
  shows "\<exists>st1 st2. slurm_spank_init mem topo n sp [] affinity_start = Some (0, st1) \<and>
    slurm_spank_init_post_opt sp (Some {0 ..< nat n}) st1 = (0, st2) \<and> whole_node st2 \<and> ntasks st2 = t"
proof -
  have "long_to_int n = n"
    unfolding long_to_int_def sint_sbintrunc' using n(1,2) by (simp add: signed_take_bit_int_eq_self CPU_SETSIZE_def)
  moreover obtain ids where "create_cpu_position_map mem topo n (affinity_start\<lparr>ncpus := n\<rparr>) =
      Some (0, affinity_start\<lparr>ncpus := n, cpu_position_map := Some (map Some ids)\<rparr>)"
    "mset ids = mset (map int [0 ..< nat n])"
    using position_map_result[OF assms(1-6), of topo "affinity_start\<lparr>ncpus := n\<rparr>"] n(3) by auto
  moreover have "cpu_set_count {0 ..< nat n} = n"
    using cpu_set_count_card[of "{0 ..< nat n}"] n(1,2) by (auto simp: atLeast0LessThan)
  ultimately show ?thesis
    using sp n(1,2) by (simp add: slurm_spank_init_def slurm_spank_init_post_opt_def get_cpus_available_def
        whole_node_def Let_def)
qed

definition six_cpus :: affinity where
  "six_cpus = affinity_start\<lparr>ncpus := 6, ntasks := 3, cpus_available := {0 ..< 6}, ncpus_available := 6,
     cpu_position_map := Some (map Some [4, 2, 0, 5, 3, 1])\<rparr>"

lemma six_placed: "placed six_cpus [4, 2, 0, 5, 3, 1]"
  by (simp add: placed_def six_cpus_def affinity_start_def avail_list_def CPU_SETSIZE_def)

lemma six_fields: "ncpus_available six_cpus = 6" "is_reverse six_cpus = False" "startcpu six_cpus = 0"
  "ntasks six_cpus = 3" "disabled six_cpus = False" "enabled six_cpus = True"
  "requested_cpus_per_task six_cpus = 0" "cpus_list six_cpus = None" "cpu_mask_list six_cpus = None"
  "cpus_available six_cpus = {0 ..< 6}" "ncpus six_cpus = 6"
  by (simp_all add: six_cpus_def affinity_start_def)


theorem task_masks_disjoint_witness:
  "\<exists>A B. generate_mask six_cpus {} 0 = Some (0, A) \<and> generate_mask six_cpus {} 2 = Some (0, B) \<and>
     card A = 2 \<and> card B = 2 \<and> A \<inter> B = {}"
proof -
  have "get_cpus_per_task six_cpus = Some 2" by code_simp
  from task_masks_disjoint[OF six_placed this, of 0 3 2] show ?thesis
    unfolding six_fields Let_def by auto
qed




section \<open>Where the code surprises\<close>

text \<open>
  The position map has the numbers of all CPUs of the node, but \<open>mask_to_available\<close> takes its entries
  for positions among the available CPUs.  With two CPUs of four available, the second entry may be
  2: the second task then gets no mask.
\<close>

definition two_of_four :: affinity where
  "two_of_four = affinity_start\<lparr>ncpus := 4, ntasks := 2, cpus_available := {0, 1}, ncpus_available := 2,
     cpu_position_map := Some (map Some [0, 2, 1, 3])\<rparr>"

lemma part_of_node_fails:
  "generate_mask two_of_four {} 0 = Some (0, {0})" "mask_to_available two_of_four 2 = - 1"
  "generate_mask two_of_four {} 1 = Some (- 1, {})"
  by code_simp+

end
