(* ===== verification/CpusetConf.thy ===== *)
theory CpusetConf
  imports CString
begin

text \<open>
  The configuration of the cpuset plugin: the record and the setters of \<open>cpuset/conf.c\<close>, the
  options of \<open>--use-cpusets\<close>, and the actions the grammar of \<open>cpuset/conf-parser.y\<close> runs.  The
  scanner and the parser flex and bison generate are not under \<open>src\<close>: what they make of a file
  is an argument.
\<close>

section \<open>Names without regard to case\<close>

definition tolower :: "char \<Rightarrow> char" where
  "tolower c = (let n = (of_char c :: nat) in if 65 \<le> n \<and> n \<le> 90 then char_of (n + 32) else c)"

text \<open>\<open>strcasecmp (s, t) == 0\<close>.\<close>

definition same_nocase :: "string \<Rightarrow> string \<Rightarrow> bool" where
  "same_nocase s t \<longleftrightarrow> map tolower s = map tolower t"

section \<open>The configuration\<close>

datatype fit_policy = BEST_FIT | FIRST_FIT | WORST_FIT

record cpuset_conf =
  cf_filename :: string
  cf_policy :: fit_policy
  cf_filename_valid :: bool
  cf_reverse_order :: bool
  cf_alloc_idle_nodes :: bool
  cf_use_idle_if_multiple :: bool
  cf_constrain_mems :: bool
  cf_kill_orphans :: bool

text \<open>The filename is an array of 1024 characters.\<close>

definition cpuset_conf_create :: cpuset_conf where
  "cpuset_conf_create =
    \<lparr>cf_filename = replicate 1024 (CHR 0x00), cf_policy = BEST_FIT, cf_filename_valid = False,
     cf_reverse_order = False, cf_alloc_idle_nodes = True, cf_use_idle_if_multiple = True,
     cf_constrain_mems = True, cf_kill_orphans = False\<rparr>"

definition cpuset_conf_alloc_idle_gt :: "cpuset_conf \<Rightarrow> bool" where
  "cpuset_conf_alloc_idle_gt conf \<longleftrightarrow> cf_alloc_idle_nodes conf \<and> \<not> cf_use_idle_if_multiple conf"

definition cpuset_conf_alloc_idle_multiple :: "cpuset_conf \<Rightarrow> bool" where
  "cpuset_conf_alloc_idle_multiple conf \<longleftrightarrow> cf_alloc_idle_nodes conf \<and> cf_use_idle_if_multiple conf"

text \<open>
  The setters take a pointer that may be NULL.  The flags are bit fields of one bit: only the
  lowest bit of the value is kept.
\<close>

definition cpuset_conf_set_policy :: "cpuset_conf option \<Rightarrow> fit_policy \<Rightarrow> int \<times> cpuset_conf option" where
  "cpuset_conf_set_policy conf p =
    (case conf of None \<Rightarrow> (- 1, None) | Some c \<Rightarrow> (0, Some (c\<lparr>cf_policy := p\<rparr>)))"

definition cpuset_conf_set_alloc_idle :: "cpuset_conf option \<Rightarrow> int \<Rightarrow> int \<times> cpuset_conf option" where
  "cpuset_conf_set_alloc_idle conf alloc_idle =
    (case conf of None \<Rightarrow> (- 1, None) | Some c \<Rightarrow> (0, Some (c\<lparr>cf_alloc_idle_nodes := odd alloc_idle\<rparr>)))"

definition cpuset_conf_set_alloc_idle_mode :: "cpuset_conf option \<Rightarrow> int \<Rightarrow> int \<times> cpuset_conf option" where
  "cpuset_conf_set_alloc_idle_mode conf multiple_only =
    (case conf of None \<Rightarrow> (- 1, None) | Some c \<Rightarrow> (0, Some (c\<lparr>cf_use_idle_if_multiple := odd multiple_only\<rparr>)))"

definition cpuset_conf_set_constrain_mem :: "cpuset_conf option \<Rightarrow> int \<Rightarrow> int \<times> cpuset_conf option" where
  "cpuset_conf_set_constrain_mem conf constrain_mem =
    (case conf of None \<Rightarrow> (- 1, None) | Some c \<Rightarrow> (0, Some (c\<lparr>cf_constrain_mems := odd constrain_mem\<rparr>)))"

definition cpuset_conf_set_kill_orphans :: "cpuset_conf option \<Rightarrow> int \<Rightarrow> int \<times> cpuset_conf option" where
  "cpuset_conf_set_kill_orphans conf kill_orphans =
    (case conf of None \<Rightarrow> (- 1, None) | Some c \<Rightarrow> (0, Some (c\<lparr>cf_kill_orphans := odd kill_orphans\<rparr>)))"

definition cpuset_conf_set_order :: "cpuset_conf option \<Rightarrow> int \<Rightarrow> int \<times> cpuset_conf option" where
  "cpuset_conf_set_order conf reverse =
    (case conf of None \<Rightarrow> (- 1, None) | Some c \<Rightarrow> (0, Some (c\<lparr>cf_reverse_order := odd reverse\<rparr>)))"

definition cpuset_conf_set_policy_string :: "cpuset_conf option \<Rightarrow> string \<Rightarrow> int \<times> cpuset_conf option" where
  "cpuset_conf_set_policy_string conf name =
    (if name = ''best-fit'' then cpuset_conf_set_policy conf BEST_FIT
     else if name = ''worst-fit'' then cpuset_conf_set_policy conf WORST_FIT
     else if name = ''first-fit'' then cpuset_conf_set_policy conf FIRST_FIT
     else (- 1, conf))"

definition cpuset_conf_set_alloc_idle_string :: "cpuset_conf option \<Rightarrow> string \<Rightarrow> int \<times> cpuset_conf option" where
  "cpuset_conf_set_alloc_idle_string conf s =
    (if s = ''0'' \<or> same_nocase s ''never'' \<or> same_nocase s ''no'' then cpuset_conf_set_alloc_idle conf 0
     else if s = ''1'' \<or> same_nocase s ''yes'' then cpuset_conf_set_alloc_idle conf 1
     else if same_nocase s ''multiple'' \<or> same_nocase s ''mult'' then cpuset_conf_set_alloc_idle_mode conf 1
     else if same_nocase s ''gt'' \<or> same_nocase s ''greater'' then cpuset_conf_set_alloc_idle_mode conf 0
     else (- 1, conf))"

text \<open>
  \<open>strncpy\<close> pads with NULs and leaves no NUL when the name has 1024 characters or more.  A NULL
  configuration is dereferenced here, which is \<open>None\<close>.
\<close>

definition cpuset_conf_set_file :: "cpuset_conf \<Rightarrow> string \<Rightarrow> cpuset_conf" where
  "cpuset_conf_set_file conf file =
    conf\<lparr>cf_filename := take 1024 (file @ replicate 1024 (CHR 0x00)), cf_filename_valid := True\<rparr>"

definition cpuset_conf_file :: "cpuset_conf \<Rightarrow> string option" where
  "cpuset_conf_file conf = (if cf_filename_valid conf then Some (cf_filename conf) else None)"

section \<open>Configuration files\<close>

text \<open>
  The statements of the grammar and their actions; a negative result is \<open>YYABORT\<close>.
\<close>

datatype conf_stmt =
    Policy_stmt string
  | Use_idle_string string
  | Use_idle_bool bool
  | Const_mem bool
  | Kill_orphs bool
  | Order_stmt string

definition cf_set_order :: "string \<Rightarrow> cpuset_conf option \<Rightarrow> int \<times> cpuset_conf option" where
  "cf_set_order s conf =
    (if same_nocase s ''reverse'' then cpuset_conf_set_order conf 1
     else if same_nocase s ''normal'' then cpuset_conf_set_order conf 0
     else (- 1, conf))"

fun cf_stmt :: "conf_stmt \<Rightarrow> cpuset_conf option \<Rightarrow> int \<times> cpuset_conf option" where
  "cf_stmt (Policy_stmt s) conf = cpuset_conf_set_policy_string conf s"
| "cf_stmt (Use_idle_string s) conf = cpuset_conf_set_alloc_idle_string conf s"
| "cf_stmt (Use_idle_bool v) conf = cpuset_conf_set_alloc_idle_string conf (if v then ''yes'' else ''no'')"
| "cf_stmt (Const_mem v) conf = cpuset_conf_set_constrain_mem conf (of_bool v)"
| "cf_stmt (Kill_orphs v) conf = cpuset_conf_set_kill_orphans conf (of_bool v)"
| "cf_stmt (Order_stmt s) conf = cf_set_order s conf"

fun run_stmts :: "conf_stmt list \<Rightarrow> cpuset_conf option \<Rightarrow> bool \<times> cpuset_conf option" where
  "run_stmts [] conf = (True, conf)"
| "run_stmts (s # ss) conf =
    (case cf_stmt s conf of (r, conf1) \<Rightarrow> if r < 0 then (False, conf1) else run_stmts ss conf1)"

text \<open>
  A file: \<open>None\<close> when it cannot be opened, otherwise the statements the parser reduces and whether
  it then reaches the end of the file without a syntax error.
\<close>

type_synonym conf_files = "string \<Rightarrow> (conf_stmt list \<times> bool) option"

definition cpuset_conf_parse :: "conf_files \<Rightarrow> cpuset_conf option \<Rightarrow> string \<Rightarrow> (int \<times> cpuset_conf option) option" where
  "cpuset_conf_parse files conf path =
    (case conf of
       None \<Rightarrow> None
     | Some c \<Rightarrow>
         (let c1 = cpuset_conf_set_file c path
          in case files path of
               None \<Rightarrow> Some (- 1, Some c1)
             | Some (ss, complete) \<Rightarrow>
                 (case run_stmts ss (Some c1) of
                    (ok, c2) \<Rightarrow> Some (if ok \<and> complete then 0 else - 1, c2))))"

text \<open>\<open>access\<close>: whether the file exists and whether it can be read.\<close>

definition parse_if_exists ::
    "(string \<Rightarrow> bool \<times> bool) \<Rightarrow> conf_files \<Rightarrow> cpuset_conf option \<Rightarrow> string \<Rightarrow> (int \<times> cpuset_conf option) option" where
  "parse_if_exists access files conf file =
    (if \<not> fst (access file) then Some (0, conf)
     else if \<not> snd (access file) then Some (- 1, conf)
     else map_option (\<lambda>(r, c). (if r < 0 then - 1 else 0, c)) (cpuset_conf_parse files conf file))"

definition cpuset_conf_parse_system ::
    "(string \<Rightarrow> bool \<times> bool) \<Rightarrow> conf_files \<Rightarrow> cpuset_conf option \<Rightarrow> (int \<times> cpuset_conf option) option" where
  "cpuset_conf_parse_system access files conf = parse_if_exists access files conf ''/etc/slurm/slurm-cpuset.conf''"

section \<open>Options\<close>

definition simple_opt :: "cpuset_conf option \<Rightarrow> string \<Rightarrow> int \<times> cpuset_conf option" where
  "simple_opt conf opt =
    (if opt = ''!idle-1st'' \<or> opt = ''no-idle'' then cpuset_conf_set_alloc_idle conf 0
     else if take 9 opt = ''idle-1st='' then cpuset_conf_set_alloc_idle_string conf (drop 9 opt)
     else if take 11 opt = ''idle-first='' then cpuset_conf_set_alloc_idle_string conf (drop 11 opt)
     else if opt = ''!mem'' \<or> opt = ''nomem'' \<or> opt = ''!constrain-mem'' then cpuset_conf_set_constrain_mem conf 0
     else if opt = ''mem'' \<or> opt = ''constrain-mem'' then cpuset_conf_set_constrain_mem conf 1
     else if opt = ''reverse'' \<or> opt = ''order=reverse'' then cpuset_conf_set_order conf 1
     else if opt = ''order=normal'' then cpuset_conf_set_order conf 0
     else (- 1, conf))"

definition cpuset_conf_parse_opt :: "conf_files \<Rightarrow> cpuset_conf option \<Rightarrow> string \<Rightarrow> (int \<times> cpuset_conf option) option" where
  "cpuset_conf_parse_opt files conf opt =
    (case cpuset_conf_set_policy_string conf opt of
       (r, conf1) \<Rightarrow>
         if r = 0 then Some (0, conf1)
         else if take 7 opt = ''policy='' \<and> fst (cpuset_conf_set_policy_string conf1 (drop 7 opt)) < 0
         then Some (- 1, snd (cpuset_conf_set_policy_string conf1 (drop 7 opt)))
         else (let conf2 = (if take 7 opt = ''policy=''
                            then snd (cpuset_conf_set_policy_string conf1 (drop 7 opt)) else conf1)
               in if take 5 opt = ''conf='' then cpuset_conf_parse files conf2 (drop 5 opt)
                  else Some (simple_opt conf2 opt)))"

section \<open>Behaviour that differs from the manual page\<close>

text \<open>An accepted policy is set, and then the option is reported as unknown.\<close>

lemma policy_option_rejected:
  "cpuset_conf_parse_opt files (Some cpuset_conf_create) ''policy=first-fit'' =
    Some (- 1, Some (cpuset_conf_create\<lparr>cf_policy := FIRST_FIT\<rparr>))"
  by (simp add: cpuset_conf_parse_opt_def simple_opt_def cpuset_conf_set_policy_string_def
      cpuset_conf_set_policy_def Let_def)

text \<open>Choosing when idle nodes are used does not switch their use on.\<close>

lemma idle_mode_only:
  "cpuset_conf_set_alloc_idle_string (Some (cpuset_conf_create\<lparr>cf_alloc_idle_nodes := False\<rparr>)) ''multiple'' =
    (0, Some (cpuset_conf_create\<lparr>cf_alloc_idle_nodes := False, cf_use_idle_if_multiple := True\<rparr>))"
  by code_simp

end
