(* ===== verification/Nodemap.thy ===== *)
theory Nodemap
  imports ListSystem CpusetConf "HOL-Library.Signed_Division"
begin

text \<open>
  The map of NUMA nodes of \<open>cpuset/nodemap.c\<close> and the allocation of CPUs from it, with the scan
  of used CPUs of \<open>cpuset/util.c\<close>.  The bitmasks of libbitmask and the answers of libcpuset are
  arguments; the list of nodes is the list of \<open>lib/list.c\<close> and holds addresses of nodes.
  \<open>None\<close> is a division by zero, a NULL pointer that is followed, or a loop that does not end.
\<close>

section \<open>Bitmasks\<close>

text \<open>
  The operations of libbitmask the code calls, and what their manual page says of them.
  \<open>bm_isbitset\<close> is false outside of the mask; \<open>bm_copy d s\<close> is \<open>d\<close> after \<open>bitmask_copy (d, s)\<close>.
\<close>

record 'b bitmask_ops =
  bm_alloc :: "int \<Rightarrow> 'b"
  bm_nbits :: "'b \<Rightarrow> int"
  bm_setbit :: "'b \<Rightarrow> int \<Rightarrow> 'b"
  bm_isbitset :: "'b \<Rightarrow> int \<Rightarrow> bool"
  bm_weight :: "'b \<Rightarrow> int"
  bm_first :: "'b \<Rightarrow> int"
  bm_copy :: "'b \<Rightarrow> 'b \<Rightarrow> 'b"
  bm_complement :: "'b \<Rightarrow> 'b"
  bm_or :: "'b \<Rightarrow> 'b \<Rightarrow> 'b"

definition bits :: "'b bitmask_ops \<Rightarrow> 'b \<Rightarrow> int set" where
  "bits B b = {i. bm_isbitset B b i}"

definition bitmask_laws :: "'b bitmask_ops \<Rightarrow> bool" where
  "bitmask_laws B \<longleftrightarrow>
    (\<forall>n. bits B (bm_alloc B n) = {}) \<and> (\<forall>n\<ge>0. bm_nbits B (bm_alloc B n) = n) \<and>
    (\<forall>b. bits B b \<subseteq> {0 ..< bm_nbits B b}) \<and>
    (\<forall>b i. 0 \<le> i \<and> i < bm_nbits B b \<longrightarrow> bits B (bm_setbit B b i) = insert i (bits B b)) \<and>
    (\<forall>b i. bm_nbits B (bm_setbit B b i) = bm_nbits B b) \<and>
    (\<forall>b. bm_weight B b = int (card (bits B b))) \<and>
    (\<forall>b. bits B b \<noteq> {} \<longrightarrow> bm_first B b \<in> bits B b \<and> (\<forall>i\<in>bits B b. bm_first B b \<le> i)) \<and>
    (\<forall>d s. bits B (bm_copy B d s) = bits B s \<inter> {0 ..< bm_nbits B d} \<and> bm_nbits B (bm_copy B d s) = bm_nbits B d) \<and>
    (\<forall>b. bits B (bm_complement B b) = {0 ..< bm_nbits B b} - bits B b \<and> bm_nbits B (bm_complement B b) = bm_nbits B b) \<and>
    (\<forall>a b. bm_nbits B a = bm_nbits B b \<longrightarrow>
       bits B (bm_or B a b) = bits B a \<union> bits B b \<and> bm_nbits B (bm_or B a b) = bm_nbits B a)"

section \<open>Nodes, the map, an allocation\<close>

text \<open>The pointer \<open>map\<close> of a node back to its map is the map whose store holds the node.\<close>

record 'b node =
  nd_nodeid :: int
  nd_ncpus :: int
  nd_navail :: int
  nd_localcpus :: 'b
  nd_usedcpus :: 'b

record policy =
  pl_reverse :: bool
  pl_best_fit :: bool
  pl_first_fit :: bool
  pl_worst_fit :: bool
  pl_alloc_idle_first :: bool
  pl_alloc_idle_multiples_only :: bool

definition default_policy :: policy where
  "default_policy = \<lparr>pl_reverse = False, pl_best_fit = True, pl_first_fit = False, pl_worst_fit = False,
     pl_alloc_idle_first = True, pl_alloc_idle_multiples_only = False\<rparr>"

record 'b nodemap =
  nm_policy :: policy
  nm_nnodes :: int
  nm_ncpus :: int
  nm_navail :: int
  nm_usedcpus :: 'b
  nm_cpus :: 'b
  nm_nodelist :: "addr clist"
  nm_nodes :: "addr \<rightharpoonup> 'b node"

record 'b allocation =
  al_ntasks :: int
  al_nleft :: int
  al_allocated_cpus :: 'b

definition nodemap_policy_update :: "'b nodemap \<Rightarrow> cpuset_conf \<Rightarrow> 'b nodemap" where
  "nodemap_policy_update m cf =
    m\<lparr>nm_policy := (nm_policy m)\<lparr>
        pl_best_fit := (cf_policy cf = BEST_FIT), pl_worst_fit := (cf_policy cf = WORST_FIT),
        pl_first_fit := (cf_policy cf = FIRST_FIT), pl_alloc_idle_first := cf_alloc_idle_nodes cf,
        pl_alloc_idle_multiples_only := cpuset_conf_alloc_idle_multiple cf,
        pl_reverse := cf_reverse_order cf\<rparr>\<rparr>"

section \<open>What the system answers\<close>

text \<open>
  \<open>mc_query name\<close> is the answer of \<open>cpuset_query\<close> and \<open>cpuset_getcpus\<close> for a cpuset: \<open>None\<close> when
  the query fails, \<open>Some None\<close> when only its CPUs cannot be had.  \<open>mc_localmems\<close> is \<open>None\<close> when
  \<open>cpuset_localmems\<close> fails.  \<open>mc_path\<close> is the
  path \<open>cpuset_getcpusetpath\<close> gives for the current cpuset and \<open>mc_dir\<close> the entries
  of a directory, if it can be opened.
\<close>

record 'b machine =
  mc_ncpus :: int
  mc_nmems :: int
  mc_current :: 'b
  mc_localcpus :: "'b \<Rightarrow> 'b"
  mc_localmems :: "'b \<Rightarrow> 'b option"
  mc_path :: "string option"
  mc_dir :: "string \<Rightarrow> string list option"
  mc_query :: "string \<Rightarrow> 'b option option"

text \<open>\<open>cpuset_getcpusetpath\<close> has written the path after the first 11 characters of a buffer of 4096.\<close>

definition current_cpuset_path :: "'b machine \<Rightarrow> string option" where
  "current_cpuset_path mc =
    (case mc_path mc of
       None \<Rightarrow> None
     | Some s \<Rightarrow>
         (let p = ''/dev/cpuset'' @ s in Some (if p = ''/dev/cpuset/'' then p @ ''slurm'' else p)))"

definition cpuset_path_to_name :: "string \<Rightarrow> string" where
  "cpuset_path_to_name p = drop 11 p"

fun used_loop ::
    "'b bitmask_ops \<Rightarrow> (string \<Rightarrow> 'b option option) \<Rightarrow> string \<Rightarrow> string list \<Rightarrow> 'b \<Rightarrow> 'b \<Rightarrow> 'b" where
  "used_loop B query current [] b used = used"
| "used_loop B query current (d # ds) b used =
    (if take 1 d = ''.'' then used_loop B query current ds b used
     else if take 7 d = ''orphan:'' then used_loop B query current ds b used
     else (case query (take 4095 (current @ ''/'' @ d)) of
             None \<Rightarrow> used_loop B query current ds b used
           | Some r \<Rightarrow>
               (let b1 = (case r of None \<Rightarrow> b | Some c \<Rightarrow> bm_copy B b c)
                in used_loop B query current ds b1 (bm_or B b1 used))))"

definition used_cpus_bitmask_path :: "'b bitmask_ops \<Rightarrow> 'b machine \<Rightarrow> string option \<Rightarrow> bool \<Rightarrow> 'b option" where
  "used_cpus_bitmask_path B mc pth clearall =
    (case (case pth of None \<Rightarrow> current_cpuset_path mc | Some p \<Rightarrow> Some p) of
       None \<Rightarrow> None
     | Some p \<Rightarrow>
         (case mc_dir mc p of
            None \<Rightarrow> None
          | Some ds \<Rightarrow>
              (let current = cpuset_path_to_name p;
                   b = bm_alloc B (mc_ncpus mc);
                   u0 = bm_alloc B (mc_ncpus mc);
                   u1 = (case mc_query mc current of Some (Some c) \<Rightarrow> bm_copy B u0 c | _ \<Rightarrow> u0);
                   used = (if clearall then u0 else bm_complement B u1)
               in Some (used_loop B (mc_query mc) current ds b used))))"

section \<open>Creating the map\<close>

fun node_used_loop :: "'b bitmask_ops \<Rightarrow> 'b \<Rightarrow> int \<Rightarrow> int \<Rightarrow> nat \<Rightarrow> 'b \<Rightarrow> 'b" where
  "node_used_loop B used offset i 0 u = u"
| "node_used_loop B used offset i (Suc k) u =
    node_used_loop B used offset (i + 1) k (if bm_isbitset B used (offset + i) then bm_setbit B u i else u)"

definition node_create :: "'b bitmask_ops \<Rightarrow> 'b machine \<Rightarrow> 'b nodemap \<Rightarrow> int \<Rightarrow> 'b node" where
  "node_create B mc m i =
    (let mems = bm_setbit B (bm_alloc B (mc_nmems mc)) i;
         localcpus = bm_copy B (bm_alloc B (mc_ncpus mc)) (mc_localcpus mc mems);
         n = bm_weight B localcpus;
         usedcpus = node_used_loop B (nm_usedcpus m) (bm_first B localcpus) 0 (nat n) (bm_alloc B n)
     in \<lparr>nd_nodeid = i, nd_ncpus = n, nd_navail = n - bm_weight B usedcpus,
         nd_localcpus = localcpus, nd_usedcpus = usedcpus\<rparr>)"

definition node_cpus_available :: "'b bitmask_ops \<Rightarrow> 'b machine \<Rightarrow> 'b nodemap \<Rightarrow> int \<Rightarrow> int" where
  "node_cpus_available B mc m i =
    (case mc_localmems mc (nm_cpus m) of
       None \<Rightarrow> - 1
     | Some mems \<Rightarrow> of_bool (bm_isbitset B mems i))"

text \<open>The node created in round \<open>i\<close> gets the address \<open>i\<close>; the result of \<open>list_push\<close> is ignored.\<close>

fun create_loop :: "'b bitmask_ops \<Rightarrow> 'b machine \<Rightarrow> 'b nodemap \<Rightarrow> nat \<Rightarrow> nat \<Rightarrow> 'b nodemap" where
  "create_loop B mc m i 0 = m"
| "create_loop B mc m i (Suc k) =
    (if node_cpus_available B mc m (int i) = 0 then create_loop B mc m (i + 1) k
     else create_loop B mc
       (m\<lparr>nm_nodes := (nm_nodes m)(i \<mapsto> node_create B mc m (int i)),
          nm_nodelist := snd (list_push (nm_nodelist m) i)\<rparr>) (i + 1) k)"

text \<open>The result is \<open>Some None\<close> when \<open>nodemap_create\<close> returns NULL.\<close>

definition nodemap_create ::
    "'b bitmask_ops \<Rightarrow> 'b machine \<Rightarrow> freelist \<times> freelist \<times> freelist \<Rightarrow> cpuset_conf \<Rightarrow> 'b option \<Rightarrow>
     'b nodemap option option" where
  "nodemap_create B mc mem cf used =
    (case mem of (lf, nf, itf) \<Rightarrow>
      (case list_create True lf nf itf of
         (None, lf1) \<Rightarrow> None
       | (Some l0, lf1) \<Rightarrow>
           (case (case used of
                    Some u \<Rightarrow> Some (bm_copy B (bm_alloc B (bm_weight B u)) u)
                  | None \<Rightarrow> used_cpus_bitmask_path B mc None False) of
              None \<Rightarrow> Some None
            | Some u \<Rightarrow>
                (let m0 = \<lparr>nm_policy = default_policy, nm_nnodes = mc_nmems mc, nm_ncpus = mc_ncpus mc,
                           nm_navail = 0, nm_usedcpus = u, nm_cpus = mc_current mc, nm_nodelist = l0,
                           nm_nodes = Map.empty\<rparr>;
                     m1 = create_loop B mc m0 0 (nat (nm_nnodes m0));
                     m2 = m1\<lparr>nm_navail := nm_ncpus m1 - bm_weight B (nm_usedcpus m1)\<rparr>
                 in Some (Some (nodemap_policy_update m2 cf))))))"

definition node_destroy :: "addr \<Rightarrow> (addr \<rightharpoonup> 'b node) \<Rightarrow> (addr \<rightharpoonup> 'b node)" where
  "node_destroy p nodes = nodes(p := None)"

text \<open>What is left after \<open>nodemap_destroy\<close>: the store of nodes and the list memory.\<close>

definition nodemap_destroy :: "'b nodemap \<Rightarrow> ((addr \<rightharpoonup> 'b node) \<times> addr clist) option" where
  "nodemap_destroy m =
    (case list_destroy (nm_nodelist m) of
       None \<Rightarrow> None
     | Some l \<Rightarrow> Some (fold node_destroy (l_deleted l) (nm_nodes m), l))"

section \<open>Allocating CPUs of a node\<close>

definition node_cpu_to_global :: "'b bitmask_ops \<Rightarrow> 'b node \<Rightarrow> int \<Rightarrow> int" where
  "node_cpu_to_global B n cpu = bm_first B (nd_localcpus n) + cpu"

definition node_allocate_cpu :: "'b bitmask_ops \<Rightarrow> 'b nodemap \<Rightarrow> addr \<Rightarrow> int \<Rightarrow> (int \<times> 'b nodemap) option" where
  "node_allocate_cpu B m p cpu =
    (case nm_nodes m p of
       None \<Rightarrow> None
     | Some n \<Rightarrow>
         if bm_isbitset B (nd_usedcpus n) cpu then Some (- 1, m)
         else (let gcpu = node_cpu_to_global B n cpu
               in if bm_isbitset B (nm_usedcpus m) gcpu then Some (- 1, m)
                  else Some (gcpu,
                    m\<lparr>nm_nodes := (nm_nodes m)(p \<mapsto>
                         n\<lparr>nd_usedcpus := bm_setbit B (nd_usedcpus n) cpu, nd_navail := nd_navail n - 1\<rparr>),
                      nm_usedcpus := bm_setbit B (nm_usedcpus m) gcpu,
                      nm_navail := nm_navail m - 1\<rparr>)))"

definition allocation_add_cpu :: "'b bitmask_ops \<Rightarrow> 'b allocation \<Rightarrow> int \<Rightarrow> 'b allocation" where
  "allocation_add_cpu B a cpu =
    a\<lparr>al_allocated_cpus := bm_setbit B (al_allocated_cpus a) cpu, al_nleft := al_nleft a - 1\<rparr>"

definition try_alloc ::
    "'b bitmask_ops \<Rightarrow> addr \<Rightarrow> int \<Rightarrow> 'b nodemap \<times> 'b allocation \<Rightarrow> (int \<times> 'b nodemap \<times> 'b allocation) option" where
  "try_alloc B p cpu s =
    (case s of (m, a) \<Rightarrow>
      (case node_allocate_cpu B m p cpu of
         None \<Rightarrow> None
       | Some (globalcpu, m1) \<Rightarrow>
           if globalcpu < 0 then Some (- 1, m1, a) else Some (0, m1, allocation_add_cpu B a globalcpu)))"

text \<open>The two loops of \<open>node_allocate_n\<close>, over the CPUs they have still to try.\<close>

fun alloc_loop ::
    "'b bitmask_ops \<Rightarrow> addr \<Rightarrow> int \<Rightarrow> int list \<Rightarrow> int \<Rightarrow> 'b nodemap \<times> 'b allocation \<Rightarrow>
     (int \<times> 'b nodemap \<times> 'b allocation) option" where
  "alloc_loop B p cnt [] nalloc s = Some (nalloc, s)"
| "alloc_loop B p cnt (i # todo) nalloc s =
    (if al_nleft (snd s) \<noteq> 0 \<and> nalloc < cnt
     then (case try_alloc B p i s of
             None \<Rightarrow> None
           | Some (r, s1) \<Rightarrow> alloc_loop B p cnt todo (if r < 0 then nalloc else nalloc + 1) s1)
     else Some (nalloc, s))"

definition node_allocate_n ::
    "'b bitmask_ops \<Rightarrow> addr \<Rightarrow> int \<Rightarrow> 'b nodemap \<times> 'b allocation \<Rightarrow> (int \<times> 'b nodemap \<times> 'b allocation) option" where
  "node_allocate_n B p cnt s =
    (if al_nleft (snd s) = 0 then Some (0, s)
     else (case nm_nodes (fst s) p of
             None \<Rightarrow> None
           | Some n \<Rightarrow>
               alloc_loop B p (if cnt < 0 then nd_navail n else cnt)
                 (if pl_reverse (nm_policy (fst s)) then rev [0 .. nd_ncpus n - 1] else [0 .. nd_ncpus n - 1]) 0 s))"

definition node_allocate_all ::
    "'b bitmask_ops \<Rightarrow> addr \<Rightarrow> 'b nodemap \<times> 'b allocation \<Rightarrow> (int \<times> 'b nodemap \<times> 'b allocation) option" where
  "node_allocate_all B p s = node_allocate_n B p (- 1) s"

section \<open>Idle nodes\<close>

text \<open>The callbacks of \<open>list_find_first\<close>; \<open>None\<close> is the division by a node without CPUs.\<close>

definition find_multiple_of_node_size :: "'b nodemap \<Rightarrow> addr \<Rightarrow> int \<Rightarrow> int option" where
  "find_multiple_of_node_size m p np =
    (case nm_nodes m p of
       None \<Rightarrow> None
     | Some n \<Rightarrow>
         if nd_ncpus n = 0 then None
         else Some (of_bool (np smod nd_ncpus n = 0 \<and> nd_navail n = nd_ncpus n)))"

definition find_node_lt_size :: "'b nodemap \<Rightarrow> addr \<Rightarrow> int \<Rightarrow> int option" where
  "find_node_lt_size m p np =
    (case nm_nodes m p of
       None \<Rightarrow> None
     | Some n \<Rightarrow> Some (of_bool (np \<ge> nd_ncpus n \<and> nd_navail n = nd_ncpus n)))"

text \<open>A callback that fails ends the walk over the list where it fails.\<close>

definition stops :: "int option \<Rightarrow> int" where
  "stops r = (case r of None \<Rightarrow> 1 | Some v \<Rightarrow> v)"

definition should_allocate_idle_nodes :: "'b nodemap \<Rightarrow> int \<Rightarrow> int option" where
  "should_allocate_idle_nodes m cnt =
    (if \<not> pl_alloc_idle_first (nm_policy m) then Some 0
     else (let f = (if pl_alloc_idle_multiples_only (nm_policy m) then find_multiple_of_node_size m
                    else find_node_lt_size m)
           in case list_find_first (nm_nodelist m) (\<lambda>p np. stops (f p np)) cnt of
                None \<Rightarrow> None
              | Some None \<Rightarrow> Some 0
              | Some (Some p) \<Rightarrow> if f p cnt = None then None else Some 1))"

text \<open>
  One round of the loop of \<open>alloc_idle_nodes\<close> for the node \<open>p\<close>; the divisor is not 0 because a
  node without available CPUs is skipped before.
\<close>

definition idle_step ::
    "'b bitmask_ops \<Rightarrow> addr \<Rightarrow> int \<Rightarrow> 'b nodemap \<times> 'b allocation \<Rightarrow> (int \<times> 'b nodemap \<times> 'b allocation) option" where
  "idle_step B p nalloc s =
    (case nm_nodes (fst s) p of
       None \<Rightarrow> None
     | Some n \<Rightarrow>
         if nd_navail n = 0 then Some (nalloc, s)
         else if pl_alloc_idle_multiples_only (nm_policy (fst s)) \<and> al_nleft (snd s) smod nd_navail n \<noteq> 0
         then Some (nalloc, s)
         else if nd_navail n = nd_ncpus n \<and> al_nleft (snd s) \<ge> nd_navail n
         then (case node_allocate_n B p (nd_ncpus n) s of
                 None \<Rightarrow> None
               | Some (r, s1) \<Rightarrow> Some (nalloc + r, s1))
         else Some (nalloc, s))"

partial_function (option) idle_loop ::
    "'b bitmask_ops \<Rightarrow> addr \<Rightarrow> int \<Rightarrow> 'b nodemap \<times> 'b allocation \<Rightarrow> (int \<times> 'b nodemap \<times> 'b allocation) option" where
  "idle_loop B i nalloc s =
    (case list_next (nm_nodelist (fst s)) i of
       (None, l) \<Rightarrow> Some (nalloc, (fst s)\<lparr>nm_nodelist := l\<rparr>, snd s)
     | (Some p, l) \<Rightarrow>
         if al_nleft (snd s) > 0
         then (case idle_step B p nalloc ((fst s)\<lparr>nm_nodelist := l\<rparr>, snd s) of
                 None \<Rightarrow> None
               | Some (nalloc1, s1) \<Rightarrow> idle_loop B i nalloc1 s1)
         else Some (nalloc, (fst s)\<lparr>nm_nodelist := l\<rparr>, snd s))"

declare idle_loop.simps [code]

text \<open>The iterator is never destroyed: it stays in the chain of the list.\<close>

definition alloc_idle_nodes ::
    "'b bitmask_ops \<Rightarrow> 'b nodemap \<times> 'b allocation \<Rightarrow> (int \<times> 'b nodemap \<times> 'b allocation) option" where
  "alloc_idle_nodes B s =
    (case list_iterator_create (nm_nodelist (fst s)) of
       (None, l) \<Rightarrow> None
     | (Some i, l) \<Rightarrow> idle_loop B i 0 ((fst s)\<lparr>nm_nodelist := l\<rparr>, snd s))"

section \<open>Policies\<close>

definition node_cmp_free :: "'b node \<Rightarrow> 'b node \<Rightarrow> int" where
  "node_cmp_free n1 n2 =
    (if nd_navail n1 = nd_navail n2 then 0 else if nd_navail n1 < nd_navail n2 then - 1 else 1)"

definition node_cmp_avail :: "'b node \<Rightarrow> 'b node \<Rightarrow> int" where
  "node_cmp_avail n1 n2 = - node_cmp_free n1 n2"

definition node_cmp_nodeid :: "'b node \<Rightarrow> 'b node \<Rightarrow> int" where
  "node_cmp_nodeid n1 n2 =
    (if nd_nodeid n1 < nd_nodeid n2 then - 1 else if nd_nodeid n1 > nd_nodeid n2 then 1 else 0)"

definition node_cmp_reverse :: "'b node \<Rightarrow> 'b node \<Rightarrow> int" where
  "node_cmp_reverse n1 n2 = - node_cmp_nodeid n1 n2"

text \<open>A comparison of nodes, applied to the pointers the list holds.\<close>

definition by_node :: "'b nodemap \<Rightarrow> ('b node \<Rightarrow> 'b node \<Rightarrow> int) \<Rightarrow> addr \<Rightarrow> addr \<Rightarrow> int" where
  "by_node m f p q = (case (nm_nodes m p, nm_nodes m q) of (Some x, Some y) \<Rightarrow> f x y | _ \<Rightarrow> 0)"

definition sort_nodes :: "('b node \<Rightarrow> 'b node \<Rightarrow> int) \<Rightarrow> 'b nodemap \<Rightarrow> 'b nodemap option" where
  "sort_nodes f m = map_option (\<lambda>l. m\<lparr>nm_nodelist := l\<rparr>) (list_sort (nm_nodelist m) (by_node m f))"

text \<open>The callback of \<open>list_for_each\<close> works on the map and the allocation, or has failed.\<close>

definition allocate_callback ::
    "'b bitmask_ops \<Rightarrow> addr \<Rightarrow> ('b nodemap \<times> 'b allocation) option \<Rightarrow> int \<times> ('b nodemap \<times> 'b allocation) option" where
  "allocate_callback B p st =
    (case st of
       None \<Rightarrow> (- 1, None)
     | Some s \<Rightarrow> (case node_allocate_all B p s of None \<Rightarrow> (- 1, None) | Some (r, s1) \<Rightarrow> (r, Some s1)))"

definition do_allocation ::
    "'b bitmask_ops \<Rightarrow> ('b node \<Rightarrow> 'b node \<Rightarrow> int) option \<Rightarrow> 'b nodemap \<times> 'b allocation \<Rightarrow>
     (int \<times> 'b nodemap \<times> 'b allocation) option" where
  "do_allocation B sort_f s =
    (case (case sort_f of None \<Rightarrow> Some (fst s) | Some f \<Rightarrow> sort_nodes f (fst s)) of
       None \<Rightarrow> None
     | Some m \<Rightarrow>
         (case list_for_each (nm_nodelist m) (allocate_callback B) (Some (m, snd s)) of
            None \<Rightarrow> None
          | Some (n, st) \<Rightarrow> map_option (\<lambda>s1. (0, s1)) st))"

definition allocation_best_fit ::
    "'b bitmask_ops \<Rightarrow> 'b nodemap \<times> 'b allocation \<Rightarrow> (int \<times> 'b nodemap \<times> 'b allocation) option" where
  "allocation_best_fit B s = do_allocation B (Some node_cmp_free) s"

definition allocation_first_fit ::
    "'b bitmask_ops \<Rightarrow> 'b nodemap \<times> 'b allocation \<Rightarrow> (int \<times> 'b nodemap \<times> 'b allocation) option" where
  "allocation_first_fit B s = do_allocation B None s"

partial_function (option) allocation_worst_fit ::
    "'b bitmask_ops \<Rightarrow> 'b nodemap \<times> 'b allocation \<Rightarrow> (int \<times> 'b nodemap \<times> 'b allocation) option" where
  "allocation_worst_fit B s =
    (if al_nleft (snd s) = 0 then Some (0, s)
     else (case sort_nodes node_cmp_avail (fst s) of
             None \<Rightarrow> None
           | Some m \<Rightarrow>
               (case list_peek (nm_nodelist m) of
                  None \<Rightarrow> None
                | Some p \<Rightarrow>
                    (case node_allocate_n B p 1 (m, snd s) of
                       None \<Rightarrow> None
                     | Some (r, s1) \<Rightarrow> if r < 0 then Some (- 1, s1) else allocation_worst_fit B s1))))"

declare allocation_worst_fit.simps [code]

definition allocation_create :: "'b bitmask_ops \<Rightarrow> 'b nodemap \<Rightarrow> int \<Rightarrow> 'b allocation" where
  "allocation_create B m ntasks =
    \<lparr>al_ntasks = ntasks, al_nleft = ntasks, al_allocated_cpus = bm_alloc B (nm_ncpus m)\<rparr>"

definition allocate_by_policy ::
    "'b bitmask_ops \<Rightarrow> 'b nodemap \<times> 'b allocation \<Rightarrow> ('b nodemap \<times> 'b allocation) option" where
  "allocate_by_policy B s =
    (let pl = nm_policy (fst s)
     in if pl_best_fit pl then map_option snd (allocation_best_fit B s)
        else if pl_first_fit pl then map_option snd (allocation_first_fit B s)
        else if pl_worst_fit pl then map_option snd (allocation_worst_fit B s)
        else Some s)"

text \<open>The result is the mask or NULL, and the map.\<close>

definition nodemap_allocate :: "'b bitmask_ops \<Rightarrow> 'b nodemap \<Rightarrow> int \<Rightarrow> ('b option \<times> 'b nodemap) option" where
  "nodemap_allocate B m n =
    (if n > nm_navail m then Some (None, m)
     else (case sort_nodes (if pl_reverse (nm_policy m) then node_cmp_reverse else node_cmp_nodeid) m of
             None \<Rightarrow> None
           | Some m1 \<Rightarrow>
               (let a = allocation_create B m1 n
                in case should_allocate_idle_nodes m1 n of
                     None \<Rightarrow> None
                   | Some idle \<Rightarrow>
                       (case (if idle \<noteq> 0 then map_option snd (alloc_idle_nodes B (m1, a)) else Some (m1, a)) of
                          None \<Rightarrow> None
                        | Some s \<Rightarrow>
                            (case (if al_nleft (snd s) > 0 then allocate_by_policy B s else Some s) of
                               None \<Rightarrow> None
                             | Some (m2, a2) \<Rightarrow> Some (Some (al_allocated_cpus a2), m2))))))"

definition nodemap_used :: "'b nodemap \<Rightarrow> 'b" where
  "nodemap_used m = nm_usedcpus m"

end
