(* ===== verification/NodemapLaws.thy ===== *)
theory NodemapLaws
  imports Nodemap Split
begin

text \<open>
  Allocation from the node map: every step takes CPUs that were free and marks them used in
  both masks, so that the map stays consistent; how many a loop takes; that the loops end.
\<close>

section \<open>Bitmasks\<close>

lemma bitmask_lawsD:
  assumes "bitmask_laws B"
  shows "bits B (bm_alloc B n) = {}" "0 \<le> n \<Longrightarrow> bm_nbits B (bm_alloc B n) = n"
    "bits B b \<subseteq> {0 ..< bm_nbits B b}"
    "0 \<le> i \<Longrightarrow> i < bm_nbits B b \<Longrightarrow> bits B (bm_setbit B b i) = insert i (bits B b)"
    "bm_nbits B (bm_setbit B b i) = bm_nbits B b"
    "bm_weight B b = int (card (bits B b))"
    "bits B b \<noteq> {} \<Longrightarrow> bm_first B b \<in> bits B b" "i \<in> bits B b \<Longrightarrow> bm_first B b \<le> i"
    "bits B (bm_copy B d b) = bits B b \<inter> {0 ..< bm_nbits B d}" "bm_nbits B (bm_copy B d b) = bm_nbits B d"
    "bits B (bm_complement B b) = {0 ..< bm_nbits B b} - bits B b" "bm_nbits B (bm_complement B b) = bm_nbits B b"
    "bm_nbits B a = bm_nbits B b \<Longrightarrow> bits B (bm_or B a b) = bits B a \<union> bits B b"
    "bm_nbits B a = bm_nbits B b \<Longrightarrow> bm_nbits B (bm_or B a b) = bm_nbits B a"
proof -
  note L = assms[unfolded bitmask_laws_def]
  note L1 = L[THEN conjunct1] and R1 = L[THEN conjunct2]
  note L2 = R1[THEN conjunct1] and R2 = R1[THEN conjunct2]
  note L3 = R2[THEN conjunct1] and R3 = R2[THEN conjunct2]
  note L4 = R3[THEN conjunct1] and R4 = R3[THEN conjunct2]
  note L5 = R4[THEN conjunct1] and R5 = R4[THEN conjunct2]
  note L6 = R5[THEN conjunct1] and R6 = R5[THEN conjunct2]
  note L7 = R6[THEN conjunct1] and R7 = R6[THEN conjunct2]
  note L8 = R7[THEN conjunct1] and R8 = R7[THEN conjunct2]
  show "bits B (bm_alloc B n) = {}" using L1 by (rule spec)
  show "0 \<le> n \<Longrightarrow> bm_nbits B (bm_alloc B n) = n" using L2 by blast
  show "bits B b \<subseteq> {0 ..< bm_nbits B b}" using L3 by (rule spec)
  show "0 \<le> i \<Longrightarrow> i < bm_nbits B b \<Longrightarrow> bits B (bm_setbit B b i) = insert i (bits B b)" using L4 by blast
  show "bm_nbits B (bm_setbit B b i) = bm_nbits B b" using L5 by blast
  show "bm_weight B b = int (card (bits B b))" using L6 by (rule spec)
  show "bits B b \<noteq> {} \<Longrightarrow> bm_first B b \<in> bits B b" "i \<in> bits B b \<Longrightarrow> bm_first B b \<le> i"
    using L7 by blast+
  show "bits B (bm_copy B d b) = bits B b \<inter> {0 ..< bm_nbits B d}" "bm_nbits B (bm_copy B d b) = bm_nbits B d"
    using L8 by blast+
  show "bits B (bm_complement B b) = {0 ..< bm_nbits B b} - bits B b"
    "bm_nbits B (bm_complement B b) = bm_nbits B b"
    using R8[THEN conjunct1] by blast+
  show "bm_nbits B a = bm_nbits B b \<Longrightarrow> bits B (bm_or B a b) = bits B a \<union> bits B b"
    "bm_nbits B a = bm_nbits B b \<Longrightarrow> bm_nbits B (bm_or B a b) = bm_nbits B a"
    using R8[THEN conjunct2] by blast+
qed

lemma isbitset_bits: "bm_isbitset B b i \<longleftrightarrow> i \<in> bits B b"
  by (simp add: bits_def)

lemma finite_bits [simp]: "bitmask_laws B \<Longrightarrow> finite (bits B b)"
  by (rule finite_subset[OF bitmask_lawsD(3)]) simp_all

section \<open>The invariant\<close>

definition node_base :: "'b bitmask_ops \<Rightarrow> 'b node \<Rightarrow> int" where
  "node_base B n = bm_first B (nd_localcpus n)"

definition node_cpus :: "'b bitmask_ops \<Rightarrow> 'b node \<Rightarrow> int set" where
  "node_cpus B n = {node_base B n ..< node_base B n + nd_ncpus n}"

text \<open>
  The CPUs of a node are contiguous; its mask \<open>usedcpus\<close> is the part of the mask \<open>u\<close> of the map
  that belongs to it; \<open>navail\<close> counts its free CPUs.
\<close>

definition node_ok :: "'b bitmask_ops \<Rightarrow> 'b \<Rightarrow> 'b node \<Rightarrow> bool" where
  "node_ok B u n \<longleftrightarrow>
    0 < nd_ncpus n \<and> node_cpus B n \<subseteq> {0 ..< bm_nbits B u} \<and> bm_nbits B (nd_usedcpus n) = nd_ncpus n \<and>
    bits B (nd_usedcpus n) = {i. 0 \<le> i \<and> i < nd_ncpus n \<and> node_base B n + i \<in> bits B u} \<and>
    nd_navail n = int (card (node_cpus B n - bits B u))"

definition nodes_of :: "'b nodemap \<Rightarrow> addr list" where
  "nodes_of m = list_data (nm_nodelist m)"

definition node_at :: "'b nodemap \<Rightarrow> addr \<Rightarrow> 'b node" where
  "node_at m p = the (nm_nodes m p)"

definition cpus_at :: "'b bitmask_ops \<Rightarrow> 'b nodemap \<Rightarrow> addr \<Rightarrow> int set" where
  "cpus_at B m p = node_cpus B (node_at m p)"

definition nodemap_ok :: "'b bitmask_ops \<Rightarrow> 'b nodemap \<Rightarrow> bool" where
  "nodemap_ok B m \<longleftrightarrow>
    list_ok (nm_nodelist m) \<and> distinct (nodes_of m) \<and>
    (\<forall>p\<in>set (nodes_of m). nm_nodes m p \<noteq> None \<and> node_ok B (nm_usedcpus m) (node_at m p)) \<and>
    (\<forall>p\<in>set (nodes_of m). \<forall>q\<in>set (nodes_of m). p \<noteq> q \<longrightarrow> cpus_at B m p \<inter> cpus_at B m q = {}) \<and>
    0 \<le> nm_ncpus m \<and> bm_nbits B (nm_usedcpus m) = nm_ncpus m"

definition free_cpus :: "'b bitmask_ops \<Rightarrow> 'b nodemap \<Rightarrow> int set" where
  "free_cpus B m = (\<Union>p\<in>set (nodes_of m). cpus_at B m p) - bits B (nm_usedcpus m)"

lemma nodemap_okD:
  assumes "nodemap_ok B m" "p \<in> set (nodes_of m)"
  shows "nm_nodes m p = Some (node_at m p)" "node_ok B (nm_usedcpus m) (node_at m p)"
    "q \<in> set (nodes_of m) \<Longrightarrow> p \<noteq> q \<Longrightarrow> cpus_at B m p \<inter> cpus_at B m q = {}"
    "cpus_at B m p \<subseteq> {0 ..< nm_ncpus m}"
    "nd_navail (node_at m p) = int (card (cpus_at B m p - bits B (nm_usedcpus m)))"
proof -
  have n: "nm_nodes m p \<noteq> None" "node_ok B (nm_usedcpus m) (node_at m p)" "bm_nbits B (nm_usedcpus m) = nm_ncpus m"
    using assms unfolding nodemap_ok_def by blast+
  then show "nm_nodes m p = Some (node_at m p)" "node_ok B (nm_usedcpus m) (node_at m p)"
    "cpus_at B m p \<subseteq> {0 ..< nm_ncpus m}"
    "nd_navail (node_at m p) = int (card (cpus_at B m p - bits B (nm_usedcpus m)))"
    by (auto simp only: node_at_def option.sel not_None_eq node_ok_def cpus_at_def)
  show "cpus_at B m p \<inter> cpus_at B m q = {}" if "q \<in> set (nodes_of m)" "p \<noteq> q"
    using assms that unfolding nodemap_ok_def by blast
qed

lemma finite_cpus_at [simp]: "finite (cpus_at B m p)"
  by (simp add: cpus_at_def node_cpus_def)

lemma finite_free [simp]: "finite (free_cpus B m)"
  by (simp add: free_cpus_def)

section \<open>Taking CPUs\<close>

type_synonym 'b nstate = "'b nodemap \<times> 'b allocation"

text \<open>
  The step from \<open>s\<close> to \<open>s'\<close> has taken the CPUs \<open>X\<close>: they were free, and are now used and
  allocated; the nodes are the same.
\<close>

definition same_nodes :: "'b bitmask_ops \<Rightarrow> 'b nodemap \<Rightarrow> 'b nodemap \<Rightarrow> bool" where
  "same_nodes B m m' \<longleftrightarrow> set (nodes_of m') = set (nodes_of m) \<and> nm_policy m' = nm_policy m \<and>
    nm_ncpus m' = nm_ncpus m \<and>
    (\<forall>p\<in>set (nodes_of m). cpus_at B m' p = cpus_at B m p \<and>
       nd_ncpus (node_at m' p) = nd_ncpus (node_at m p) \<and> nd_nodeid (node_at m' p) = nd_nodeid (node_at m p))"

definition took :: "'b bitmask_ops \<Rightarrow> int set \<Rightarrow> 'b nstate \<Rightarrow> 'b nstate \<Rightarrow> bool" where
  "took B X s s' \<longleftrightarrow>
    nodemap_ok B (fst s') \<and> X \<subseteq> free_cpus B (fst s) \<and>
    bits B (nm_usedcpus (fst s')) = bits B (nm_usedcpus (fst s)) \<union> X \<and>
    bits B (al_allocated_cpus (snd s')) = bits B (al_allocated_cpus (snd s)) \<union> X \<and>
    bm_nbits B (al_allocated_cpus (snd s')) = bm_nbits B (al_allocated_cpus (snd s)) \<and>
    al_nleft (snd s') = al_nleft (snd s) - int (card X) \<and>
    nm_navail (fst s') = nm_navail (fst s) - int (card X) \<and> same_nodes B (fst s) (fst s')"

lemma same_nodes_trans: "same_nodes B m m' \<Longrightarrow> same_nodes B m' m'' \<Longrightarrow> same_nodes B m m''"
  by (simp add: same_nodes_def)

lemma took_none: "nodemap_ok B (fst s) \<Longrightarrow> took B {} s s"
  by (simp add: took_def same_nodes_def)

lemma took_free: "took B X s s' \<Longrightarrow> free_cpus B (fst s') = free_cpus B (fst s) - X"
  by (auto simp: took_def free_cpus_def same_nodes_def)

lemma took_finite: "took B X s s' \<Longrightarrow> finite X"
  unfolding took_def using finite_free finite_subset by blast

lemma took_trans:
  assumes "took B X s s'" "took B Y s' s''"
  shows "took B (X \<union> Y) s s''"
proof -
  have "Y \<subseteq> free_cpus B (fst s) - X" using assms(2) took_free[OF assms(1)] by (simp add: took_def)
  moreover from this have "card (X \<union> Y) = card X + card Y"
    using took_finite[OF assms(1)] took_finite[OF assms(2)] by (intro card_Un_disjoint) auto
  ultimately show ?thesis
    using assms same_nodes_trans[of B "fst s" "fst s'" "fst s''"] by (auto simp: took_def)
qed

lemma took_navail:
  assumes "took B X s s'" "nodemap_ok B (fst s)" "p \<in> set (nodes_of (fst s))"
  shows "nd_navail (node_at (fst s') p) = nd_navail (node_at (fst s) p) - int (card (X \<inter> cpus_at B (fst s) p))"
proof -
  let ?u = "bits B (nm_usedcpus (fst s))" and ?c = "cpus_at B (fst s) p"
  have s: "p \<in> set (nodes_of (fst s'))" "cpus_at B (fst s') p = ?c" "nodemap_ok B (fst s')"
    using assms by (auto simp: took_def same_nodes_def)
  have d: "X \<inter> ?c \<subseteq> ?c - ?u" using assms(1) by (auto simp: took_def free_cpus_def)
  have "?c - (?u \<union> X) = (?c - ?u) - (X \<inter> ?c)" by blast
  then have "card (?c - (?u \<union> X)) = card (?c - ?u) - card (X \<inter> ?c)"
    using d by (simp add: card_Diff_subset)
  moreover have "card (X \<inter> ?c) \<le> card (?c - ?u)" by (rule card_mono) (use d in auto)
  ultimately show ?thesis
    using nodemap_okD(5)[OF s(3,1)] nodemap_okD(5)[OF assms(2,3)] assms(1) s(2) by (simp add: took_def)
qed

section \<open>One CPU\<close>

lemma node_cpu_in: "0 \<le> i \<Longrightarrow> i < nd_ncpus n \<Longrightarrow> node_base B n + i \<in> node_cpus B n"
  by (simp add: node_cpus_def)

lemma node_ok_other:
  assumes "node_ok B u n" "g \<notin> node_cpus B n" "bits B u' = insert g (bits B u)" "bm_nbits B u' = bm_nbits B u"
  shows "node_ok B u' n"
proof -
  have "node_cpus B n - insert g (bits B u) = node_cpus B n - bits B u" using assms(2) by blast
  moreover have "node_base B n + i \<noteq> g" if "0 \<le> i" "i < nd_ncpus n" for i
    using node_cpu_in[OF that] assms(2) by blast
  ultimately show ?thesis using assms(1,3,4) by (auto simp: node_ok_def)
qed

lemma node_ok_set:
  assumes laws: "bitmask_laws B" and ok: "node_ok B u n" and i: "0 \<le> i" "i < nd_ncpus n"
    and g: "node_base B n + i \<notin> bits B u"
    and u': "bits B u' = insert (node_base B n + i) (bits B u)" "bm_nbits B u' = bm_nbits B u"
  shows "node_ok B u' (n\<lparr>nd_usedcpus := bm_setbit B (nd_usedcpus n) i, nd_navail := nd_navail n - 1\<rparr>)"
proof -
  let ?g = "node_base B n + i"
  let ?n = "n\<lparr>nd_usedcpus := bm_setbit B (nd_usedcpus n) i, nd_navail := nd_navail n - 1\<rparr>"
  have same: "node_base B ?n = node_base B n" "node_cpus B ?n = node_cpus B n" "nd_ncpus ?n = nd_ncpus n"
    by (simp_all add: node_base_def node_cpus_def)
  have "i < bm_nbits B (nd_usedcpus n)" using ok i(2) by (simp add: node_ok_def)
  note sb = bitmask_lawsD(4)[OF laws i(1) this] bitmask_lawsD(5)[OF laws, of "nd_usedcpus n" i]
  have "bits B (nd_usedcpus ?n) = {j. 0 \<le> j \<and> j < nd_ncpus n \<and> node_base B n + j \<in> bits B u'}"
    using ok i u'(1) sb(1) by (auto simp: node_ok_def)
  moreover have "int (card (node_cpus B n - bits B u')) = nd_navail n - 1"
  proof -
    have "node_cpus B n - bits B u' = (node_cpus B n - bits B u) - {?g}" using u'(1) by blast
    moreover have gin: "?g \<in> node_cpus B n - bits B u" using g node_cpu_in[OF i] by blast
    moreover have "finite (node_cpus B n - bits B u)" by (simp add: node_cpus_def)
    then have "0 < card (node_cpus B n - bits B u)" using gin by (simp only: card_gt_0_iff) blast
    ultimately show ?thesis using ok by (simp add: node_ok_def card_Diff_singleton)
  qed
  ultimately show ?thesis using ok u'(2) sb(2) same by (simp add: node_ok_def)
qed

lemma try_alloc_used:
  assumes "nodemap_ok B m" "p \<in> set (nodes_of m)" "0 \<le> i" "i < nd_ncpus (node_at m p)"
    and "node_base B (node_at m p) + i \<in> bits B (nm_usedcpus m)"
  shows "try_alloc B p i (m, a) = Some (- 1, m, a)"
  using nodemap_okD(1,2)[OF assms(1,2)] assms(3-5)
  by (auto simp: try_alloc_def node_allocate_cpu_def isbitset_bits node_ok_def)

lemma try_alloc_free:
  assumes laws: "bitmask_laws B" and ok: "nodemap_ok B m" and p: "p \<in> set (nodes_of m)"
    and i: "0 \<le> i" "i < nd_ncpus (node_at m p)"
    and g: "node_base B (node_at m p) + i \<notin> bits B (nm_usedcpus m)"
    and room: "bm_nbits B (al_allocated_cpus a) = nm_ncpus m"
  shows "\<exists>m' a'. try_alloc B p i (m, a) = Some (0, m', a') \<and>
    took B {node_base B (node_at m p) + i} (m, a) (m', a') \<and> nm_nodelist m' = nm_nodelist m"
proof -
  let ?n = "node_at m p" and ?g = "node_base B (node_at m p) + i"
  let ?n' = "?n\<lparr>nd_usedcpus := bm_setbit B (nd_usedcpus ?n) i, nd_navail := nd_navail ?n - 1\<rparr>"
  let ?u' = "bm_setbit B (nm_usedcpus m) ?g"
  let ?m' = "m\<lparr>nm_nodes := (nm_nodes m)(p \<mapsto> ?n'), nm_usedcpus := ?u', nm_navail := nm_navail m - 1\<rparr>"
  let ?a' = "allocation_add_cpu B a ?g"
  note n = nodemap_okD[OF ok p]
  have gin: "?g \<in> cpus_at B m p" using node_cpu_in[OF i] by (simp add: cpus_at_def)
  then have gr: "0 \<le> ?g" "?g < nm_ncpus m" using n(4) by auto
  then have u': "bits B ?u' = insert ?g (bits B (nm_usedcpus m))" "bm_nbits B ?u' = bm_nbits B (nm_usedcpus m)"
    and a': "bits B (al_allocated_cpus ?a') = insert ?g (bits B (al_allocated_cpus a))"
      "bm_nbits B (al_allocated_cpus ?a') = bm_nbits B (al_allocated_cpus a)"
    using ok room bitmask_lawsD(4,5)[OF laws] by (simp_all add: nodemap_ok_def allocation_add_cpu_def)
  have "i \<notin> bits B (nd_usedcpus ?n)" using n(2) g by (simp add: node_ok_def)
  then have run: "try_alloc B p i (m, a) = Some (0, ?m', ?a')"
    using n(1) g gr by (simp add: try_alloc_def node_allocate_cpu_def node_cpu_to_global_def isbitset_bits
        Let_def flip: node_base_def)
  have nodes: "nodes_of ?m' = nodes_of m" "node_at ?m' q = (if q = p then ?n' else node_at m q)" for q
    by (simp_all add: nodes_of_def node_at_def)
  have cp: "cpus_at B ?m' q = cpus_at B m q" for q
    unfolding cpus_at_def nodes(2) by (simp add: node_cpus_def node_base_def)
  have "node_ok B ?u' (node_at ?m' q)" if q: "q \<in> set (nodes_of m)" for q
  proof (cases "q = p")
    case True
    then show ?thesis using node_ok_set[OF laws n(2) i g u'] by (simp add: nodes(2))
  next
    case False
    then have "?g \<notin> node_cpus B (node_at m q)" using n(3)[OF q] gin by (auto simp: cpus_at_def)
    from node_ok_other[OF nodemap_okD(2)[OF ok q] this u'] show ?thesis using False by (simp add: nodes(2))
  qed
  then have "nodemap_ok B ?m'" using ok u'(2) by (simp add: nodemap_ok_def nodes(1) cp)
  moreover have "same_nodes B m ?m'" by (simp add: same_nodes_def nodes cp)
  moreover have "?g \<in> free_cpus B m" using p gin g by (auto simp: free_cpus_def)
  ultimately have "took B {?g} (m, a) (?m', ?a')"
    using u'(1) a' by (simp add: took_def allocation_add_cpu_def)
  with run show ?thesis by auto
qed

section \<open>The CPUs of a node\<close>

text \<open>
  What the loops of \<open>node_allocate_n\<close> take: as many of the free CPUs among those they have still
  to try as are wanted.
\<close>

definition free_among :: "'b bitmask_ops \<Rightarrow> 'b nodemap \<Rightarrow> addr \<Rightarrow> int list \<Rightarrow> int list" where
  "free_among B m p todo = filter (\<lambda>i. node_base B (node_at m p) + i \<notin> bits B (nm_usedcpus m)) todo"

lemma alloc_loop_result:
  assumes laws: "bitmask_laws B"
  shows "nodemap_ok B m \<Longrightarrow> p \<in> set (nodes_of m) \<Longrightarrow> bm_nbits B (al_allocated_cpus a) = nm_ncpus m \<Longrightarrow>
    distinct todo \<Longrightarrow> set todo \<subseteq> {0 ..< nd_ncpus (node_at m p)} \<Longrightarrow> 0 \<le> al_nleft a \<Longrightarrow>
    \<exists>m' a' X. alloc_loop B p cnt todo nalloc (m, a) = Some (nalloc + int (card X), m', a') \<and>
      took B X (m, a) (m', a') \<and> X \<subseteq> cpus_at B m p \<and> nm_nodelist m' = nm_nodelist m \<and>
      int (card X) = min (min (al_nleft a) (max 0 (cnt - nalloc))) (int (length (free_among B m p todo)))"
proof (induction todo arbitrary: nalloc m a)
  case Nil
  have "took B {} (m, a) (m, a)" using took_none Nil(1) by fastforce
  then show ?case using Nil by (intro exI[of _ m] exI[of _ a] exI[of _ "{}"]) (simp add: free_among_def)
next
  case (Cons i todo)
  let ?g = "node_base B (node_at m p) + i"
  have i: "0 \<le> i" "i < nd_ncpus (node_at m p)" using Cons.prems(5) by auto
  have t: "distinct todo" "set todo \<subseteq> {0 ..< nd_ncpus (node_at m p)}" using Cons.prems(4,5) by auto
  show ?case
  proof (cases "al_nleft a \<noteq> 0 \<and> nalloc < cnt")
    case False
    have "took B {} (m, a) (m, a)" using took_none Cons.prems(1) by fastforce
    with False Cons.prems(6) show ?thesis by (intro exI[of _ m] exI[of _ a] exI[of _ "{}"]) auto
  next
    case True
    show ?thesis
    proof (cases "?g \<in> bits B (nm_usedcpus m)")
      case used: True
      have "free_among B m p (i # todo) = free_among B m p todo" using used by (simp add: free_among_def)
      then show ?thesis
        using Cons.IH[OF Cons.prems(1-3) t Cons.prems(6), of nalloc] True
          try_alloc_used[OF Cons.prems(1,2) i used, of a] by simp
    next
      case free: False
      from try_alloc_free[OF laws Cons.prems(1,2) i free Cons.prems(3)] obtain m1 a1 where
        s1: "try_alloc B p i (m, a) = Some (0, m1, a1)" "took B {?g} (m, a) (m1, a1)"
          "nm_nodelist m1 = nm_nodelist m" by blast
      then have ok1: "nodemap_ok B m1" "nodes_of m1 = nodes_of m" "bm_nbits B (al_allocated_cpus a1) = nm_ncpus m1"
        "al_nleft a1 = al_nleft a - 1" "cpus_at B m1 p = cpus_at B m p"
        "nd_ncpus (node_at m1 p) = nd_ncpus (node_at m p)"
        "bits B (nm_usedcpus m1) = insert ?g (bits B (nm_usedcpus m))"
        using Cons.prems(2,3) by (auto simp: took_def same_nodes_def nodes_of_def)
      have "0 < nd_ncpus (node_at m p)" using i by simp
      then have base: "node_base B (node_at m1 p) = node_base B (node_at m p)"
        using ok1(5,6) by (simp add: cpus_at_def node_cpus_def atLeastLessThan_eq_iff)
      have "free_among B m1 p todo = free_among B m p todo"
        using Cons.prems(4) unfolding free_among_def base ok1(7) by (intro filter_cong) auto
      then have f: "length (free_among B m p (i # todo)) = Suc (length (free_among B m1 p todo))"
        using free by (simp add: free_among_def)
      have "p \<in> set (nodes_of m1)" "set todo \<subseteq> {0 ..< nd_ncpus (node_at m1 p)}" "0 \<le> al_nleft a1"
        using Cons.prems(2,6) ok1 t(2) True by auto
      from Cons.IH[OF ok1(1) this(1) ok1(3) t(1) this(2,3), of "nalloc + 1"] obtain m' a' X where
        x: "alloc_loop B p cnt todo (nalloc + 1) (m1, a1) = Some (nalloc + 1 + int (card X), m', a')"
          "took B X (m1, a1) (m', a')" "X \<subseteq> cpus_at B m1 p" "nm_nodelist m' = nm_nodelist m1"
          "int (card X) = min (min (al_nleft a1) (max 0 (cnt - (nalloc + 1)))) (int (length (free_among B m1 p todo)))"
        by blast
      note tk = took_trans[OF s1(2) x(2)]
      have "?g \<notin> X" using x(2) ok1(7) by (auto simp: took_def free_cpus_def)
      then have c: "card ({?g} \<union> X) = Suc (card X)" using took_finite[OF x(2)] by simp
      have "?g \<in> cpus_at B m p" using node_cpu_in[OF i] by (simp add: cpus_at_def)
      then have "{?g} \<union> X \<subseteq> cpus_at B m p" using x(3) ok1(5) by blast
      moreover have "alloc_loop B p cnt (i # todo) nalloc (m, a) = Some (nalloc + int (card ({?g} \<union> X)), m', a')"
        unfolding c using True s1(1) x(1) by simp
      moreover have "int (card ({?g} \<union> X)) =
          min (min (al_nleft a) (max 0 (cnt - nalloc))) (int (length (free_among B m p (i # todo))))"
        unfolding c f using x(5) ok1(4) True Cons.prems(6) by linarith
      ultimately show ?thesis using tk x(4) s1(3) by (metis (no_types, lifting))
    qed
  qed
qed

definition st_ok :: "'b bitmask_ops \<Rightarrow> 'b nstate \<Rightarrow> bool" where
  "st_ok B s \<longleftrightarrow> nodemap_ok B (fst s) \<and> bm_nbits B (al_allocated_cpus (snd s)) = nm_ncpus (fst s) \<and>
    0 \<le> al_nleft (snd s)"

lemma took_st: "took B X s s' \<Longrightarrow> st_ok B s \<Longrightarrow> 0 \<le> al_nleft (snd s') \<Longrightarrow> st_ok B s'"
  by (simp add: took_def st_ok_def same_nodes_def)

lemma free_among_all:
  assumes "nodemap_ok B m" "p \<in> set (nodes_of m)"
    "todo = [0 .. nd_ncpus (node_at m p) - 1] \<or> todo = rev [0 .. nd_ncpus (node_at m p) - 1]"
  shows "int (length (free_among B m p todo)) = nd_navail (node_at m p)"
proof -
  let ?n = "node_at m p" and ?u = "bits B (nm_usedcpus m)"
  let ?P = "\<lambda>i. node_base B ?n + i \<notin> ?u"
  have "length (free_among B m p todo) = length (filter ?P [0 .. nd_ncpus ?n - 1])"
    using assms(3) by (auto simp: free_among_def simp flip: rev_filter)
  also have "\<dots> = card (set (filter ?P [0 .. nd_ncpus ?n - 1]))"
    by (rule distinct_card[symmetric]) simp
  also have "\<dots> = card ((\<lambda>i. node_base B ?n + i) ` set (filter ?P [0 .. nd_ncpus ?n - 1]))"
    by (rule card_image[symmetric]) (simp add: inj_on_def)
  also have "(\<lambda>i. node_base B ?n + i) ` set (filter ?P [0 .. nd_ncpus ?n - 1]) = cpus_at B m p - ?u"
  proof
    show "cpus_at B m p - ?u \<subseteq> (\<lambda>i. node_base B ?n + i) ` set (filter ?P [0 .. nd_ncpus ?n - 1])"
    proof
      fix c assume "c \<in> cpus_at B m p - ?u"
      then show "c \<in> (\<lambda>i. node_base B ?n + i) ` set (filter ?P [0 .. nd_ncpus ?n - 1])"
        by (intro image_eqI[of _ _ "c - node_base B ?n"]) (auto simp: cpus_at_def node_cpus_def)
    qed
  qed (auto simp: cpus_at_def node_cpus_def)
  finally show ?thesis using nodemap_okD(5)[OF assms(1,2)] by simp
qed

lemma node_allocate_n_result:
  assumes laws: "bitmask_laws B" and ok: "st_ok B s" and p: "p \<in> set (nodes_of (fst s))"
  shows "\<exists>s' X. node_allocate_n B p cnt s = Some (int (card X), s') \<and> took B X s s' \<and>
    X \<subseteq> cpus_at B (fst s) p \<and> nm_nodelist (fst s') = nm_nodelist (fst s) \<and> st_ok B s' \<and>
    int (card X) = min (al_nleft (snd s))
      (min (if cnt < 0 then nd_navail (node_at (fst s) p) else cnt) (nd_navail (node_at (fst s) p)))"
proof -
  obtain m a where s: "s = (m, a)" by fastforce
  let ?n = "node_at m p"
  let ?todo = "if pl_reverse (nm_policy m) then rev [0 .. nd_ncpus ?n - 1] else [0 .. nd_ncpus ?n - 1]"
  let ?cnt = "if cnt < 0 then nd_navail ?n else cnt"
  from ok s have m: "nodemap_ok B m" "bm_nbits B (al_allocated_cpus a) = nm_ncpus m" "0 \<le> al_nleft a"
    by (simp_all add: st_ok_def)
  have p': "p \<in> set (nodes_of m)" using p s by simp
  note n = nodemap_okD[OF m(1) p']
  have nav: "0 \<le> nd_navail ?n" unfolding n(5) by simp
  show ?thesis
  proof (cases "al_nleft a = 0")
    case True
    then show ?thesis using took_none[of B s] ok nav s
      by (intro exI[of _ s] exI[of _ "{}"]) (auto simp: node_allocate_n_def st_ok_def)
  next
    case False
    have td: "distinct ?todo" "set ?todo \<subseteq> {0 ..< nd_ncpus ?n}" by auto
    from alloc_loop_result[OF laws m(1) p' m(2) td m(3), of ?cnt 0] obtain m' a' X where
      x: "alloc_loop B p ?cnt ?todo 0 (m, a) = Some (0 + int (card X), m', a')" "took B X (m, a) (m', a')"
        "X \<subseteq> cpus_at B m p" "nm_nodelist m' = nm_nodelist m"
        "int (card X) = min (min (al_nleft a) (max 0 (?cnt - 0))) (int (length (free_among B m p ?todo)))" by blast
    have "int (length (free_among B m p ?todo)) = nd_navail ?n"
      by (rule free_among_all[OF m(1) p']) simp
    then have c: "int (card X) = min (al_nleft a) (min ?cnt (nd_navail ?n))" using x(5) nav by auto
    have "node_allocate_n B p cnt s = Some (int (card X), m', a')"
      using False x(1) n(1) by (simp add: node_allocate_n_def s)
    moreover have "st_ok B (m', a')" using took_st[OF x(2)] ok s x(2) c by (simp add: took_def)
    ultimately show ?thesis using x(2-4) c s by (intro exI[of _ "(m', a')"] exI[of _ X]) simp
  qed
qed

section \<open>Sorting the nodes\<close>

lemma took_relist:
  assumes "nodemap_ok B m" "list_ok l" "mset (list_data l) = mset (nodes_of m)"
  shows "took B {} (m, a) (m\<lparr>nm_nodelist := l\<rparr>, a)"
proof -
  let ?m = "m\<lparr>nm_nodelist := l\<rparr>"
  have st: "set (list_data l) = set (nodes_of m)" "distinct (list_data l)"
    using assms(1) mset_eq_setD[OF assms(3)] mset_eq_imp_distinct_iff[OF assms(3)] by (simp_all add: nodemap_ok_def)
  have "nodes_of ?m = list_data l" "node_at ?m = node_at m" "cpus_at B ?m = cpus_at B m"
    by (auto simp: nodes_of_def node_at_def cpus_at_def)
  then show ?thesis using assms(1,2) st by (simp add: took_def same_nodes_def nodemap_ok_def)
qed

lemma s_insert_map:
  assumes "\<forall>y\<in>set S. f' x y = f (g x) (g y)" "S \<noteq> []"
  shows "map g (s_insert f' S x) = s_insert f (map g S) (g x)"
proof -
  have "takeWhile (\<lambda>y. 0 \<le> f' x y) S = takeWhile ((\<lambda>y. 0 \<le> f (g x) y) \<circ> g) S"
    "dropWhile (\<lambda>y. 0 \<le> f' x y) S = dropWhile ((\<lambda>y. 0 \<le> f (g x) y) \<circ> g) S"
    using assms(1) by (auto intro: takeWhile_cong dropWhile_cong)
  moreover have "f' x (last S) = f (g x) (last (map g S))" using assms by (simp add: last_map)
  ultimately show ?thesis by (simp add: s_insert_def takeWhile_map dropWhile_map)
qed

lemma isort_map:
  assumes "\<forall>x\<in>set xs. \<forall>y\<in>set xs. f' x y = f (g x) (g y)"
  shows "map g (isort f' xs) = isort f (map g xs)"
proof -
  have "map g (foldl (s_insert f') S ys) = foldl (s_insert f) (map g S) (map g ys)"
    if "S \<noteq> []" "\<forall>x\<in>set ys. \<forall>y\<in>set S \<union> set ys. f' x y = f (g x) (g y)" for S ys
    using that
  proof (induction ys arbitrary: S)
    case (Cons y ys)
    have "set (s_insert f' S y) = insert y (set S)" using mset_s_insert[of f' S y] by (metis set_mset_mset set_mset_add_mset_insert)
    moreover have "map g (s_insert f' S y) = s_insert f (map g S) (g y)"
      using Cons.prems by (intro s_insert_map) auto
    ultimately show ?case using Cons.IH[of "s_insert f' S y"] Cons.prems by simp
  qed simp
  from this[of "[hd xs]" "tl xs"] assms show ?thesis by (cases xs) auto
qed

interpretation nf: comparison node_cmp_free
  by unfold_locales (auto simp: node_cmp_free_def split: if_splits)

interpretation na: comparison node_cmp_avail
  by unfold_locales (auto simp: node_cmp_avail_def node_cmp_free_def split: if_splits)

interpretation ni: comparison node_cmp_nodeid
  by unfold_locales (auto simp: node_cmp_nodeid_def split: if_splits)

interpretation nr: comparison node_cmp_reverse
  by unfold_locales (auto simp: node_cmp_reverse_def node_cmp_nodeid_def split: if_splits)

lemma sort_nodes_result:
  assumes "nodemap_ok B m"
  shows "\<exists>m'. sort_nodes f m = Some m' \<and> took B {} (m, a) (m', a) \<and> nm_nodes m' = nm_nodes m \<and>
    l_ifree (nm_nodelist m') = l_ifree (nm_nodelist m) \<and>
    map (node_at m) (nodes_of m') = isort f (map (node_at m) (nodes_of m))"
proof -
  have l: "list_ok (nm_nodelist m)" using assms by (simp add: nodemap_ok_def)
  from list_sort_data[OF l, of "by_node m f"] obtain l' where
    l': "list_sort (nm_nodelist m) (by_node m f) = Some l'" "list_ok l'"
      "list_data l' = isort (by_node m f) (nodes_of m)" "l_ifree l' = l_ifree (nm_nodelist m)"
    by (auto simp: nodes_of_def)
  have "\<forall>x\<in>set (nodes_of m). \<forall>y\<in>set (nodes_of m). by_node m f x y = f (node_at m x) (node_at m y)"
    using nodemap_okD(1)[OF assms] by (simp add: by_node_def)
  from isort_map[of _ _ _ "node_at m", OF this] have "map (node_at m) (list_data l') = isort f (map (node_at m) (nodes_of m))"
    by (simp add: l'(3))
  moreover have "took B {} (m, a) (m\<lparr>nm_nodelist := l'\<rparr>, a)"
    by (rule took_relist[OF assms l'(2)]) (simp add: l'(3) mset_isort)
  ultimately show ?thesis using l'(1,4)
    by (intro exI[of _ "m\<lparr>nm_nodelist := l'\<rparr>"]) (simp add: sort_nodes_def nodes_of_def)
qed

section \<open>The loop over all nodes\<close>

lemma for_each_nodes:
  assumes laws: "bitmask_laws B"
  shows "st_ok B s \<Longrightarrow> set ps \<subseteq> set (nodes_of (fst s)) \<Longrightarrow> distinct ps \<Longrightarrow>
    \<exists>s' X. for_each_list (allocate_callback B) ps k (Some s) = (k + int (length ps), Some s') \<and>
      took B X s s' \<and> st_ok B s' \<and> nm_nodelist (fst s') = nm_nodelist (fst s) \<and>
      X \<subseteq> (\<Union>p\<in>set ps. cpus_at B (fst s) p) \<and>
      (al_nleft (snd s') \<noteq> 0 \<longrightarrow> (\<forall>p\<in>set ps. nd_navail (node_at (fst s') p) = 0)) \<and>
      sorted_wrt (\<lambda>p q. X \<inter> cpus_at B (fst s) q \<noteq> {} \<longrightarrow> nd_navail (node_at (fst s') p) = 0) ps"
proof (induction ps arbitrary: s k)
  case Nil
  then show ?case by (intro exI[of _ s] exI[of _ "{}"]) (simp add: took_none st_ok_def)
next
  case (Cons p ps)
  have p: "p \<in> set (nodes_of (fst s))" and ps: "set ps \<subseteq> set (nodes_of (fst s))" "p \<notin> set ps" "distinct ps"
    using Cons.prems(2,3) by auto
  have ok: "nodemap_ok B (fst s)" using Cons.prems(1) by (simp add: st_ok_def)
  from node_allocate_n_result[OF laws Cons.prems(1) p, of "- 1"] obtain s1 X1 where
    s1: "node_allocate_n B p (- 1) s = Some (int (card X1), s1)" "took B X1 s s1" "X1 \<subseteq> cpus_at B (fst s) p"
      "nm_nodelist (fst s1) = nm_nodelist (fst s)" "st_ok B s1"
      "int (card X1) = min (al_nleft (snd s)) (nd_navail (node_at (fst s) p))" by auto
  have nodes1: "nodes_of (fst s1) = nodes_of (fst s)" "\<forall>q\<in>set (nodes_of (fst s)). cpus_at B (fst s1) q = cpus_at B (fst s) q"
    using s1(2,4) by (simp_all add: nodes_of_def took_def same_nodes_def)
  have "set ps \<subseteq> set (nodes_of (fst s1))" using ps(1) nodes1(1) by simp
  from Cons.IH[OF s1(5) this ps(3), of "k + 1"] obtain s' X2 where
    s': "for_each_list (allocate_callback B) ps (k + 1) (Some s1) = (k + 1 + int (length ps), Some s')"
      "took B X2 s1 s'" "st_ok B s'" "nm_nodelist (fst s') = nm_nodelist (fst s1)"
      "X2 \<subseteq> (\<Union>p\<in>set ps. cpus_at B (fst s1) p)"
      "al_nleft (snd s') \<noteq> 0 \<longrightarrow> (\<forall>p\<in>set ps. nd_navail (node_at (fst s') p) = 0)"
      "sorted_wrt (\<lambda>p q. X2 \<inter> cpus_at B (fst s1) q \<noteq> {} \<longrightarrow> nd_navail (node_at (fst s') p) = 0) ps" by blast
  note tk = took_trans[OF s1(2) s'(2)]
  have "(\<Union>p\<in>set ps. cpus_at B (fst s1) p) = (\<Union>p\<in>set ps. cpus_at B (fst s) p)"
    using nodes1(2) ps(1) by (intro SUP_cong) auto
  then have X2: "X2 \<subseteq> (\<Union>p\<in>set ps. cpus_at B (fst s) p)" using s'(5) by (simp only:)
  have disj: "cpus_at B (fst s) p \<inter> cpus_at B (fst s) q = {}" if "q \<in> set ps" for q
    using nodemap_okD(3)[OF ok p] that ps(1,2) by blast
  have head: "(X1 \<union> X2) \<inter> cpus_at B (fst s) p = X1" using X2 s1(3) disj by blast
  have rest: "(X1 \<union> X2) \<inter> cpus_at B (fst s) q = X2 \<inter> cpus_at B (fst s) q" if "q \<in> set ps" for q
    using s1(3) disj[OF that] by blast
  have full: "nd_navail (node_at (fst s') p) = 0" if "al_nleft (snd s1) \<noteq> 0"
  proof -
    have "al_nleft (snd s1) = al_nleft (snd s) - int (card X1)" using s1(2) by (simp add: took_def)
    then have "int (card X1) = nd_navail (node_at (fst s) p)" using that s1(6) by linarith
    then show ?thesis using took_navail[OF tk ok p] by (simp add: head)
  qed
  have mono: "al_nleft (snd s') = al_nleft (snd s1) - int (card X2)" using s'(2) by (simp add: took_def)
  have left: "al_nleft (snd s1) \<noteq> 0" if "X2 \<noteq> {}"
  proof -
    have "0 < card X2" using that took_finite[OF s'(2)] by (simp add: card_gt_0_iff)
    then show ?thesis using mono s'(3) by (simp add: st_ok_def)
  qed
  have "al_nleft (snd s1) \<noteq> 0" if "al_nleft (snd s') \<noteq> 0"
    using that mono s1(5) s'(3) unfolding st_ok_def by linarith
  then have "al_nleft (snd s') \<noteq> 0 \<longrightarrow> (\<forall>q\<in>set (p # ps). nd_navail (node_at (fst s') q) = 0)"
    using full s'(6) by simp
  moreover have "sorted_wrt (\<lambda>p q. (X1 \<union> X2) \<inter> cpus_at B (fst s) q \<noteq> {} \<longrightarrow> nd_navail (node_at (fst s') p) = 0) (p # ps)"
  proof -
    have "sorted_wrt (\<lambda>p q. (X1 \<union> X2) \<inter> cpus_at B (fst s) q \<noteq> {} \<longrightarrow> nd_navail (node_at (fst s') p) = 0) ps"
      using nodes1(2) ps(1) by (intro sorted_wrt_mono_rel[OF _ s'(7)]) (auto simp: rest)
    moreover have "nd_navail (node_at (fst s') p) = 0" if "q \<in> set ps" "(X1 \<union> X2) \<inter> cpus_at B (fst s) q \<noteq> {}" for q
      using that rest[OF that(1)] left full by blast
    ultimately show ?thesis by simp
  qed
  moreover have "X1 \<union> X2 \<subseteq> (\<Union>q\<in>set (p # ps). cpus_at B (fst s) q)" using s1(3) X2 by auto
  moreover have "for_each_list (allocate_callback B) (p # ps) k (Some s) = (k + int (length (p # ps)), Some s')"
    using s1(1) s'(1) by (simp add: allocate_callback_def node_allocate_all_def)
  ultimately show ?case using tk s'(3,4) s1(4) by (intro exI[of _ s'] exI[of _ "X1 \<union> X2"]) simp
qed

text \<open>When CPUs are still wanted after a round over all nodes, nothing is free any more.\<close>

lemma no_free:
  assumes "nodemap_ok B m" "\<forall>p\<in>set (nodes_of m). nd_navail (node_at m p) = 0"
  shows "free_cpus B m = {}"
proof -
  have "cpus_at B m p - bits B (nm_usedcpus m) = {}" if "p \<in> set (nodes_of m)" for p
    using nodemap_okD(5)[OF assms(1) that] assms(2) that by simp
  then show ?thesis by (auto simp: free_cpus_def)
qed

lemma exhausted:
  assumes "took B X s s'" "st_ok B s" "0 \<le> al_nleft (snd s')"
    "al_nleft (snd s') \<noteq> 0 \<longrightarrow> free_cpus B (fst s') = {}"
  shows "int (card X) = min (al_nleft (snd s)) (int (card (free_cpus B (fst s))))"
proof -
  have sub: "X \<subseteq> free_cpus B (fst s)" and l: "al_nleft (snd s') = al_nleft (snd s) - int (card X)"
    using assms(1) by (auto simp: took_def)
  have "card X \<le> card (free_cpus B (fst s))" by (rule card_mono[OF finite_free sub])
  moreover have "card X = card (free_cpus B (fst s))" if "al_nleft (snd s') \<noteq> 0"
    using that assms(4) took_free[OF assms(1)] sub by (metis Diff_eq_empty_iff subset_antisym)
  ultimately show ?thesis using l assms(3) by (cases "al_nleft (snd s') = 0") auto
qed

lemma do_allocation_result:
  assumes laws: "bitmask_laws B" and ok: "st_ok B s"
  shows "\<exists>s' X qs. do_allocation B f s = Some (0, s') \<and> took B X s s' \<and> st_ok B s' \<and>
    int (card X) = min (al_nleft (snd s)) (int (card (free_cpus B (fst s)))) \<and>
    set qs = set (nodes_of (fst s)) \<and>
    map (node_at (fst s)) qs =
      (case f of None \<Rightarrow> map (node_at (fst s)) (nodes_of (fst s)) | Some g \<Rightarrow> isort g (map (node_at (fst s)) (nodes_of (fst s)))) \<and>
    sorted_wrt (\<lambda>p q. X \<inter> cpus_at B (fst s) q \<noteq> {} \<longrightarrow> nd_navail (node_at (fst s') p) = 0) qs"
proof -
  have n: "nodemap_ok B (fst s)" using ok by (simp add: st_ok_def)
  obtain m where m: "(case f of None \<Rightarrow> Some (fst s) | Some g \<Rightarrow> sort_nodes g (fst s)) = Some m"
    "took B {} s (m, snd s)" "nm_nodes m = nm_nodes (fst s)"
    "map (node_at (fst s)) (nodes_of m) =
      (case f of None \<Rightarrow> map (node_at (fst s)) (nodes_of (fst s)) | Some g \<Rightarrow> isort g (map (node_at (fst s)) (nodes_of (fst s))))"
  proof (cases f)
    case None
    then show thesis using that[of "fst s"] took_none[OF n] by simp
  next
    case (Some g)
    from sort_nodes_result[OF n, of g "snd s"] Some show thesis using that by auto
  qed
  have okm: "st_ok B (m, snd s)" using took_st[OF m(2) ok] ok by (simp add: st_ok_def)
  then have nm: "nodemap_ok B m" by (simp add: st_ok_def)
  have at_m: "node_at m = node_at (fst s)" "cpus_at B m = cpus_at B (fst s)"
    using m(3) by (auto simp: node_at_def cpus_at_def)
  have setm: "set (nodes_of m) = set (nodes_of (fst s))" using m(2) by (simp add: took_def same_nodes_def)
  have "set (nodes_of m) \<subseteq> set (nodes_of (fst (m, snd s)))" "distinct (nodes_of m)"
    using nm by (simp_all add: nodemap_ok_def)
  from for_each_nodes[OF laws okm this, of 0] obtain s' X where
    x: "for_each_list (allocate_callback B) (nodes_of m) 0 (Some (m, snd s)) = (0 + int (length (nodes_of m)), Some s')"
      "took B X (m, snd s) s'" "st_ok B s'"
      "al_nleft (snd s') \<noteq> 0 \<longrightarrow> (\<forall>p\<in>set (nodes_of m). nd_navail (node_at (fst s') p) = 0)"
      "sorted_wrt (\<lambda>p q. X \<inter> cpus_at B (fst s) q \<noteq> {} \<longrightarrow> nd_navail (node_at (fst s') p) = 0) (nodes_of m)"
    unfolding fst_conv at_m(2) by blast
  have tk: "took B X s s'" using took_trans[OF m(2) x(2)] by simp
  have "al_nleft (snd s') \<noteq> 0 \<longrightarrow> free_cpus B (fst s') = {}"
    using no_free[of B "fst s'"] x(2,3,4) by (auto simp: st_ok_def took_def same_nodes_def)
  then have c: "int (card X) = min (al_nleft (snd s)) (int (card (free_cpus B (fst s))))"
    using exhausted[OF tk ok] x(3) by (simp add: st_ok_def)
  have "list_for_each (nm_nodelist m) (allocate_callback B) (Some (m, snd s)) =
      Some (int (length (nodes_of m)), Some s')"
    using list_for_each_data[of "nm_nodelist m" "allocate_callback B"] nm x(1) by (simp add: nodemap_ok_def nodes_of_def)
  then have "do_allocation B f s = Some (0, s')" using m(1) by (simp add: do_allocation_def)
  then show ?thesis using tk x(3,5) c setm m(4) by (intro exI[of _ s'] exI[of _ X] exI[of _ "nodes_of m"]) simp
qed

section \<open>Idle nodes\<close>

text \<open>Only whole nodes are taken.\<close>

definition whole :: "'b bitmask_ops \<Rightarrow> int set \<Rightarrow> 'b nodemap \<Rightarrow> bool" where
  "whole B X m \<longleftrightarrow> (\<forall>p\<in>set (nodes_of m). X \<inter> cpus_at B m p = {} \<or> cpus_at B m p \<subseteq> X)"

lemma whole_empty: "whole B {} m"
  by (simp add: whole_def)

lemma whole_Un: "whole B X m \<Longrightarrow> whole B Y m' \<Longrightarrow> same_nodes B m m' \<Longrightarrow> whole B (X \<union> Y) m"
  unfolding whole_def same_nodes_def by (metis Int_Un_distrib2 Un_empty le_supI1 le_supI2)

lemma card_cpus_at: "nodemap_ok B m \<Longrightarrow> p \<in> set (nodes_of m) \<Longrightarrow> int (card (cpus_at B m p)) = nd_ncpus (node_at m p)"
  using nodemap_okD(2)[of B m p] by (simp add: cpus_at_def node_cpus_def node_ok_def)

lemma idle_step_result:
  assumes laws: "bitmask_laws B" and ok: "st_ok B s" and p: "p \<in> set (nodes_of (fst s))"
  shows "\<exists>k s' X. idle_step B p nalloc s = Some (k, s') \<and> took B X s s' \<and> st_ok B s' \<and>
    nm_nodelist (fst s') = nm_nodelist (fst s) \<and> whole B X (fst s)"
proof -
  have n: "nodemap_ok B (fst s)" using ok by (simp add: st_ok_def)
  let ?n = "node_at (fst s) p"
  let ?idle = "nd_navail ?n = nd_ncpus ?n \<and> nd_navail ?n \<le> al_nleft (snd s)"
  from node_allocate_n_result[OF laws ok p, of "nd_ncpus ?n"] obtain s1 X where
    x: "node_allocate_n B p (nd_ncpus ?n) s = Some (int (card X), s1)" "took B X s s1" "st_ok B s1"
      "nm_nodelist (fst s1) = nm_nodelist (fst s)" "X \<subseteq> cpus_at B (fst s) p"
      "int (card X) = min (al_nleft (snd s)) (min (if nd_ncpus ?n < 0 then nd_navail ?n else nd_ncpus ?n) (nd_navail ?n))"
    by blast
  have "whole B X (fst s)" if ?idle
  proof -
    have "int (card X) = int (card (cpus_at B (fst s) p))"
      unfolding card_cpus_at[OF n p] x(6) using that by auto
    then have "X = cpus_at B (fst s) p" using x(5) by (intro card_subset_eq) auto
    then show ?thesis using nodemap_okD(3)[OF n p] unfolding whole_def by blast
  qed
  moreover have "idle_step B p nalloc s = Some (nalloc, s) \<or>
      ?idle \<and> idle_step B p nalloc s =
        (case node_allocate_n B p (nd_ncpus ?n) s of None \<Rightarrow> None | Some (r, s1) \<Rightarrow> Some (nalloc + r, s1))"
    unfolding idle_step_def nodemap_okD(1)[OF n p] option.case by (simp split: if_split)
  then have "idle_step B p nalloc s = Some (nalloc, s) \<or>
      ?idle \<and> idle_step B p nalloc s = Some (nalloc + int (card X), s1)"
    using x(1) by simp
  ultimately show ?thesis using took_none[OF n] ok x(2-4) whole_empty by blast
qed

lemma relist_st:
  assumes "st_ok B s" "list_ok l" "mset (list_data l) = mset (nodes_of (fst s))"
  shows "took B {} s ((fst s)\<lparr>nm_nodelist := l\<rparr>, snd s)" "st_ok B ((fst s)\<lparr>nm_nodelist := l\<rparr>, snd s)"
proof -
  show t: "took B {} s ((fst s)\<lparr>nm_nodelist := l\<rparr>, snd s)"
    using took_relist[of B "fst s" l "snd s"] assms by (simp add: st_ok_def)
  show "st_ok B ((fst s)\<lparr>nm_nodelist := l\<rparr>, snd s)"
    using took_st[OF t assms(1)] assms(1) by (simp add: st_ok_def)
qed

lemma idle_loop_result:
  assumes laws: "bitmask_laws B"
  shows "st_ok B s \<Longrightarrow> it_get (nm_nodelist (fst s)) i \<noteq> None \<Longrightarrow>
    it_view (nm_nodelist (fst s)) i = (before, cur, rest) \<Longrightarrow> set rest \<subseteq> set (nodes_of (fst s)) \<Longrightarrow>
    \<exists>k s' X. idle_loop B i nalloc s = Some (k, s') \<and> took B X s s' \<and> st_ok B s' \<and>
      nodes_of (fst s') = nodes_of (fst s) \<and> whole B X (fst s)"
proof (induction rest arbitrary: s before cur nalloc)
  case Nil
  have l: "list_ok (nm_nodelist (fst s))" using Nil.prems(1) by (simp add: st_ok_def nodemap_ok_def)
  from list_next_view[OF l Nil.prems(2,3)] obtain l' where
    l': "list_next (nm_nodelist (fst s)) i = (None, l')" "list_ok l'" "list_data l' = nodes_of (fst s)"
    by (auto simp: nodes_of_def)
  note r = relist_st[OF Nil.prems(1) l'(2)]
  have "idle_loop B i nalloc s = Some (nalloc, (fst s)\<lparr>nm_nodelist := l'\<rparr>, snd s)"
    using l'(1) by (subst idle_loop.simps) simp
  moreover have "nodes_of (fst ((fst s)\<lparr>nm_nodelist := l'\<rparr>, snd s)) = nodes_of (fst s)"
    using l'(3) by (simp add: nodes_of_def)
  ultimately show ?case using r l'(3) whole_empty by fastforce
next
  case (Cons p rest)
  have l: "list_ok (nm_nodelist (fst s))" using Cons.prems(1) by (simp add: st_ok_def nodemap_ok_def)
  from list_next_view[OF l Cons.prems(2,3)] obtain l' where
    l': "list_next (nm_nodelist (fst s)) i = (Some p, l')" "list_ok l'" "list_data l' = nodes_of (fst s)"
      "it_get l' i \<noteq> None" "it_view l' i = (before @ cur, [p], rest)"
    by (auto simp: nodes_of_def)
  let ?s = "((fst s)\<lparr>nm_nodelist := l'\<rparr>, snd s)"
  have r: "took B {} s ?s" "st_ok B ?s" using relist_st[OF Cons.prems(1) l'(2)] l'(3) by simp_all
  have no: "nodes_of (fst ?s) = nodes_of (fst s)" using l'(3) by (simp add: nodes_of_def)
  then have p: "p \<in> set (nodes_of (fst ?s))" "set rest \<subseteq> set (nodes_of (fst ?s))"
    using Cons.prems(4) by auto
  show ?case
  proof (cases "al_nleft (snd s) > 0")
    case False
    then have "idle_loop B i nalloc s = Some (nalloc, ?s)" using l'(1) by (subst idle_loop.simps) simp
    then show ?thesis using r no whole_empty by blast
  next
    case True
    from idle_step_result[OF laws r(2) p(1), of nalloc] obtain k s1 X1 where
      s1: "idle_step B p nalloc ?s = Some (k, s1)" "took B X1 ?s s1" "st_ok B s1"
        "nm_nodelist (fst s1) = nm_nodelist (fst ?s)" "whole B X1 (fst ?s)" by blast
    have "it_get (nm_nodelist (fst s1)) i \<noteq> None"
      "it_view (nm_nodelist (fst s1)) i = (before @ cur, [p], rest)" "set rest \<subseteq> set (nodes_of (fst s1))"
      using s1(4) l'(4,5) p(2) by (simp_all add: nodes_of_def)
    from Cons.IH[OF s1(3) this, of k] obtain k' s' X2 where
      s': "idle_loop B i k s1 = Some (k', s')" "took B X2 s1 s'" "st_ok B s'"
        "nodes_of (fst s') = nodes_of (fst s1)" "whole B X2 (fst s1)" by blast
    have "idle_loop B i nalloc s = Some (k', s')"
      using l'(1) True s1(1) s'(1) by (subst idle_loop.simps) simp
    moreover have "nodes_of (fst s') = nodes_of (fst s)" using s'(4) s1(4) no by (simp add: nodes_of_def)
    moreover have "whole B ({} \<union> (X1 \<union> X2)) (fst s)"
      using whole_Un[OF whole_empty whole_Un[OF s1(5) s'(5)]] r(1) s1(2) unfolding took_def by blast
    ultimately show ?thesis using took_trans[OF r(1) took_trans[OF s1(2) s'(2)]] s'(3) by blast
  qed
qed

lemma alloc_idle_result:
  assumes laws: "bitmask_laws B" and ok: "st_ok B s" and mem: "0 < fl_cap (l_ifree (nm_nodelist (fst s)))"
  shows "\<exists>k s' X. alloc_idle_nodes B s = Some (k, s') \<and> took B X s s' \<and> st_ok B s' \<and>
    nodes_of (fst s') = nodes_of (fst s) \<and> whole B X (fst s)"
proof -
  have l: "list_ok (nm_nodelist (fst s))" using ok by (simp add: st_ok_def nodemap_ok_def)
  obtain i f where "list_alloc_aux (l_ifree (nm_nodelist (fst s))) = (Some i, f)" using alloc_cap[OF mem] by blast
  then obtain l' where c: "list_iterator_create (nm_nodelist (fst s)) = (Some i, l')"
    by (simp add: list_iterator_create_def)
  note v = list_iterator_create_view[OF l c]
  let ?s = "((fst s)\<lparr>nm_nodelist := l'\<rparr>, snd s)"
  have r: "took B {} s ?s" "st_ok B ?s" using relist_st[OF ok v(1)] v(2) by (simp_all add: nodes_of_def)
  have "list_data l' = nodes_of (fst ?s)" by (simp add: nodes_of_def)
  moreover have "it_view l' i = ([], [], list_data l')"
    using cli.new_cursor[OF l c] v(2) by simp
  ultimately have "it_get (nm_nodelist (fst ?s)) i \<noteq> None"
    "it_view (nm_nodelist (fst ?s)) i = ([], [], nodes_of (fst ?s))" using v(5) by simp_all
  from idle_loop_result[OF laws r(2) this, of 0] obtain k s' X where
    x: "idle_loop B i 0 ?s = Some (k, s')" "took B X ?s s'" "st_ok B s'"
      "nodes_of (fst s') = nodes_of (fst ?s)" "whole B X (fst ?s)" by blast
  have "alloc_idle_nodes B s = Some (k, s')" using c x(1) by (simp add: alloc_idle_nodes_def)
  moreover have "nodes_of (fst s') = nodes_of (fst s)" using x(4) v(2) by (simp add: nodes_of_def)
  moreover have "whole B ({} \<union> X) (fst s)" using whole_Un[OF whole_empty x(5)] r(1) by (simp add: took_def)
  ultimately show ?thesis using took_trans[OF r(1) x(2)] x(3) by blast
qed

section \<open>Worst fit\<close>

definition balanced :: "'b bitmask_ops \<Rightarrow> int set \<Rightarrow> 'b nodemap \<Rightarrow> 'b nodemap \<Rightarrow> bool" where
  "balanced B X m m' \<longleftrightarrow> (\<forall>p\<in>set (nodes_of m). \<forall>q\<in>set (nodes_of m).
     X \<inter> cpus_at B m p \<noteq> {} \<longrightarrow> nd_navail (node_at m' q) \<le> nd_navail (node_at m' p) + 1)"

lemma worst_fit_round:
  assumes laws: "bitmask_laws B" and ok: "st_ok B s" and f: "free_cpus B (fst s) \<noteq> {}" and l: "0 < al_nleft (snd s)"
  shows "\<exists>m p s1 X. sort_nodes node_cmp_avail (fst s) = Some m \<and> list_peek (nm_nodelist m) = Some p \<and>
    node_allocate_n B p 1 (m, snd s) = Some (1, s1) \<and> took B X s s1 \<and> st_ok B s1 \<and> card X = 1 \<and>
    X \<subseteq> cpus_at B (fst s) p \<and> p \<in> set (nodes_of (fst s)) \<and>
    (\<forall>q\<in>set (nodes_of (fst s)). nd_navail (node_at (fst s) q) \<le> nd_navail (node_at (fst s) p))"
proof -
  have n: "nodemap_ok B (fst s)" using ok by (simp add: st_ok_def)
  from sort_nodes_result[OF n, of node_cmp_avail "snd s"] obtain m where
    m: "sort_nodes node_cmp_avail (fst s) = Some m" "took B {} s (m, snd s)" "nm_nodes m = nm_nodes (fst s)"
      "map (node_at (fst s)) (nodes_of m) = isort node_cmp_avail (map (node_at (fst s)) (nodes_of (fst s)))" by auto
  have okm: "st_ok B (m, snd s)" using took_st[OF m(2) ok] ok by (simp add: st_ok_def)
  then have lm: "list_ok (nm_nodelist m)" by (simp add: st_ok_def nodemap_ok_def)
  have at_m: "node_at m = node_at (fst s)" "cpus_at B m = cpus_at B (fst s)"
    using m(3) by (auto simp: node_at_def cpus_at_def)
  have setm: "set (nodes_of m) = set (nodes_of (fst s))" using m(2) by (simp add: took_def same_nodes_def)
  from f obtain q0 where q0: "q0 \<in> set (nodes_of m)" "cpus_at B (fst s) q0 - bits B (nm_usedcpus (fst s)) \<noteq> {}"
    by (auto simp: free_cpus_def setm)
  then obtain p ps where ps: "nodes_of m = p # ps" by (cases "nodes_of m") auto
  then have peek: "list_peek (nm_nodelist m) = Some p" using list_peek_data[OF lm] by (simp add: nodes_of_def)
  have "sorted_wrt (\<lambda>x y. node_cmp_avail x y \<le> 0) (map (node_at (fst s)) (p # ps))"
    using na.isort_in_order[of "map (node_at (fst s)) (nodes_of (fst s))"]
    unfolding na.in_order_def m(4)[symmetric] ps .
  then have mx: "\<forall>q\<in>set (nodes_of (fst s)). nd_navail (node_at (fst s) q) \<le> nd_navail (node_at (fst s) p)"
    unfolding setm[symmetric] ps by (auto simp: node_cmp_avail_def node_cmp_free_def split: if_splits)
  have "0 < nd_navail (node_at (fst s) q0)"
    using nodemap_okD(5)[OF n, of q0] q0 setm by (simp add: card_gt_0_iff)
  then have av: "0 < nd_navail (node_at (fst s) p)" using mx q0(1) setm by force
  have "p \<in> set (nodes_of (fst (m, snd s)))" using ps by simp
  from node_allocate_n_result[OF laws okm this, of 1] obtain s1 X where
    x: "node_allocate_n B p 1 (m, snd s) = Some (int (card X), s1)" "took B X (m, snd s) s1" "st_ok B s1"
      "X \<subseteq> cpus_at B (fst s) p" "int (card X) = min (al_nleft (snd s)) (min 1 (nd_navail (node_at (fst s) p)))"
    by (auto simp: at_m)
  have c: "card X = 1" using x(5) l av by simp
  then have run: "node_allocate_n B p 1 (m, snd s) = Some (1, s1)" using x(1) by simp
  have tk: "took B X s s1" using took_trans[OF m(2) x(2)] by simp
  have "p \<in> set (nodes_of (fst s))" using ps setm by auto
  with m(1) peek run tk x(3,4) c mx show ?thesis by blast
qed

lemma worst_fit_result:
  assumes laws: "bitmask_laws B"
  shows "st_ok B s \<Longrightarrow> al_nleft (snd s) \<le> int (card (free_cpus B (fst s))) \<Longrightarrow>
    \<exists>s' X. allocation_worst_fit B s = Some (0, s') \<and> took B X s s' \<and> st_ok B s' \<and>
      int (card X) = al_nleft (snd s) \<and> balanced B X (fst s) (fst s')"
proof (induction "nat (al_nleft (snd s))" arbitrary: s)
  case 0
  then have z: "al_nleft (snd s) = 0" by (simp add: st_ok_def)
  have "allocation_worst_fit B s = Some (0, s)" using z by (subst allocation_worst_fit.simps) simp
  moreover have "balanced B {} (fst s) (fst s)" by (simp add: balanced_def)
  ultimately show ?case
    using took_none[of B s] z 0(2) by (intro exI[of _ s] exI[of _ "{}"]) (simp add: st_ok_def)
next
  case (Suc k)
  have l: "0 < al_nleft (snd s)" using Suc(2) by simp
  then have "free_cpus B (fst s) \<noteq> {}" using Suc(4) by auto
  from worst_fit_round[OF laws Suc(3) this l] obtain m p s1 X where
    r: "sort_nodes node_cmp_avail (fst s) = Some m" "list_peek (nm_nodelist m) = Some p"
      "node_allocate_n B p 1 (m, snd s) = Some (1, s1)" "took B X s s1" "st_ok B s1" "card X = 1"
      "X \<subseteq> cpus_at B (fst s) p" "p \<in> set (nodes_of (fst s))"
      "\<forall>q\<in>set (nodes_of (fst s)). nd_navail (node_at (fst s) q) \<le> nd_navail (node_at (fst s) p)" by blast
  have n: "nodemap_ok B (fst s)" "nodemap_ok B (fst s1)" using Suc(3) r(5) by (simp_all add: st_ok_def)
  have left: "al_nleft (snd s1) = al_nleft (snd s) - 1" using r(4,6) by (simp add: took_def)
  have fr: "free_cpus B (fst s1) = free_cpus B (fst s) - X" "X \<subseteq> free_cpus B (fst s)"
    using took_free[OF r(4)] r(4) by (auto simp: took_def)
  then have "int (card (free_cpus B (fst s1))) = int (card (free_cpus B (fst s))) - 1"
    using card_mono[OF finite_free fr(2)] r(6) took_finite[OF r(4)] by (simp add: card_Diff_subset)
  then have "al_nleft (snd s1) \<le> int (card (free_cpus B (fst s1)))" "k = nat (al_nleft (snd s1))"
    using Suc(2,4) left by auto
  from Suc(1)[OF this(2) r(5) this(1)] obtain s' Y where
    s': "allocation_worst_fit B s1 = Some (0, s')" "took B Y s1 s'" "st_ok B s'"
      "int (card Y) = al_nleft (snd s1)" "balanced B Y (fst s1) (fst s')" by blast
  note tk = took_trans[OF r(4) s'(2)]
  have sn: "set (nodes_of (fst s1)) = set (nodes_of (fst s))"
    "\<forall>q\<in>set (nodes_of (fst s)). cpus_at B (fst s1) q = cpus_at B (fst s) q"
    using r(4) by (simp_all add: took_def same_nodes_def)
  have "nd_navail (node_at (fst s') y) \<le> nd_navail (node_at (fst s') x) + 1"
    if x: "x \<in> set (nodes_of (fst s))" and y: "y \<in> set (nodes_of (fst s))" and t: "(X \<union> Y) \<inter> cpus_at B (fst s) x \<noteq> {}"
    for x y
  proof (cases "Y \<inter> cpus_at B (fst s1) x = {}")
    case False
    then show ?thesis using s'(5) x y sn unfolding balanced_def by simp
  next
    case True
    then have "X \<inter> cpus_at B (fst s) x \<noteq> {}" using t sn(2) x by auto
    then have xp: "x = p" using nodemap_okD(3)[OF n(1) r(8) x] r(7) by blast
    have "(X \<union> Y) \<inter> cpus_at B (fst s) x = X" using True sn(2) x r(7) xp by auto
    then have "nd_navail (node_at (fst s') x) = nd_navail (node_at (fst s) p) - 1"
      using took_navail[OF tk n(1) x] r(6) xp by simp
    moreover have "nd_navail (node_at (fst s') y) \<le> nd_navail (node_at (fst s) y)"
      using took_navail[OF tk n(1) y] by simp
    ultimately show ?thesis using r(9) y by force
  qed
  then have "balanced B (X \<union> Y) (fst s) (fst s')" by (simp add: balanced_def)
  moreover have "int (card (X \<union> Y)) = al_nleft (snd s)"
  proof -
    have "al_nleft (snd s') = al_nleft (snd s) - int (card (X \<union> Y))" using tk by (simp add: took_def)
    moreover have "al_nleft (snd s') = al_nleft (snd s1) - int (card Y)" using s'(2) by (simp add: took_def)
    ultimately show ?thesis using s'(4) by simp
  qed
  moreover have "allocation_worst_fit B s = Some (0, s')"
    using l r(1-3) s'(1) by (subst allocation_worst_fit.simps) simp
  ultimately show ?case using tk s'(3) by blast
qed

end
