(* ===== verification/NodemapCreate.thy ===== *)
theory NodemapCreate
  imports NodemapLaws
begin

text \<open>
  The scan of the used CPUs, and that \<open>nodemap_create\<close> makes a consistent map of a machine whose
  nodes have contiguous and disjoint CPUs.
\<close>

section \<open>Used CPUs\<close>

definition job_entry :: "string \<Rightarrow> bool" where
  "job_entry d \<longleftrightarrow> take 1 d \<noteq> ''.'' \<and> take 7 d \<noteq> ''orphan:''"

text \<open>The CPUs of the cpusets below \<open>current\<close> that hold jobs.\<close>

definition child_cpus :: "'b bitmask_ops \<Rightarrow> (string \<Rightarrow> 'b option option) \<Rightarrow> string \<Rightarrow> string list \<Rightarrow> int set" where
  "child_cpus B query current ds =
    \<Union> {bits B c | c d. d \<in> set ds \<and> job_entry d \<and> query (take 4095 (current @ ''/'' @ d)) = Some (Some c)}"

lemma child_cpus_Cons:
  "child_cpus B query current (d # ds) =
    (case query (take 4095 (current @ ''/'' @ d)) of
       Some (Some c) \<Rightarrow> (if job_entry d then bits B c else {}) | _ \<Rightarrow> {}) \<union> child_cpus B query current ds"
  unfolding child_cpus_def by (auto split: option.splits)

lemma used_loop_result:
  assumes laws: "bitmask_laws B"
  shows "bm_nbits B b = n \<Longrightarrow> bm_nbits B used = n \<Longrightarrow> bits B b \<subseteq> bits B used \<Longrightarrow>
    bm_nbits B (used_loop B query current ds b used) = n \<and>
    bits B (used_loop B query current ds b used) =
      bits B used \<union> (child_cpus B query current ds \<inter> {0 ..< n})"
proof (induction ds arbitrary: b used)
  case Nil
  then show ?case by (simp add: child_cpus_def)
next
  case (Cons d ds)
  let ?q = "query (take 4095 (current @ ''/'' @ d))"
  consider (skip) "\<not> job_entry d \<or> ?q = None" | (none) "job_entry d" "?q = Some None"
    | (some) c where "job_entry d" "?q = Some (Some c)" by (cases ?q) fastforce+
  then show ?case
  proof cases
    case skip
    then have "used_loop B query current (d # ds) b used = used_loop B query current ds b used"
      by (auto simp: job_entry_def)
    then show ?thesis
      using Cons.IH[OF Cons.prems] skip by (auto simp: child_cpus_Cons split: option.splits)
  next
    case none
    note o = bitmask_lawsD(13,14)[OF laws, of b used]
    have "bm_nbits B (bm_or B b used) = n" "bits B (bm_or B b used) = bits B used"
      using o Cons.prems by auto
    then show ?thesis
      using Cons.IH[OF Cons.prems(1), of "bm_or B b used"] Cons.prems(3) none
      by (simp add: child_cpus_Cons job_entry_def Let_def)
  next
    case (some c)
    let ?b = "bm_copy B b c"
    note cp = bitmask_lawsD(9,10)[OF laws, of b c] and o = bitmask_lawsD(13,14)[OF laws, of ?b used]
    have "bm_nbits B ?b = n" "bm_nbits B (bm_or B ?b used) = n"
      "bits B (bm_or B ?b used) = (bits B c \<inter> {0 ..< n}) \<union> bits B used" "bits B ?b \<subseteq> bits B (bm_or B ?b used)"
      using o cp Cons.prems by auto
    then show ?thesis
      using Cons.IH[of ?b "bm_or B ?b used"] some by (auto simp: child_cpus_Cons job_entry_def Let_def)
  qed
qed

text \<open>The CPUs in use as seen from a cpuset: those outside of it, and those of the jobs in it.\<close>

definition cpus_in_use :: "'b bitmask_ops \<Rightarrow> 'b machine \<Rightarrow> string \<Rightarrow> string list \<Rightarrow> bool \<Rightarrow> int set" where
  "cpus_in_use B mc pth ds clearall =
    (if clearall then {}
     else {0 ..< mc_ncpus mc} - (case mc_query mc (cpuset_path_to_name pth) of Some (Some c) \<Rightarrow> bits B c | _ \<Rightarrow> {})) \<union>
    (child_cpus B (mc_query mc) (cpuset_path_to_name pth) ds \<inter> {0 ..< mc_ncpus mc})"

lemma used_cpus_result:
  assumes laws: "bitmask_laws B" and n: "0 \<le> mc_ncpus mc" and ds: "mc_dir mc pth = Some ds"
  shows "\<exists>u. used_cpus_bitmask_path B mc (Some pth) clearall = Some u \<and> bm_nbits B u = mc_ncpus mc \<and>
    bits B u = cpus_in_use B mc pth ds clearall"
proof -
  let ?n = "mc_ncpus mc" and ?cur = "cpuset_path_to_name pth"
  let ?u0 = "bm_alloc B ?n"
  let ?u1 = "case mc_query mc ?cur of Some (Some c) \<Rightarrow> bm_copy B ?u0 c | _ \<Rightarrow> ?u0"
  let ?used = "if clearall then ?u0 else bm_complement B ?u1"
  note a = bitmask_lawsD(1)[OF laws, of ?n] bitmask_lawsD(2)[OF laws n]
  have u1: "bm_nbits B ?u1 = ?n"
    "bits B ?u1 = (case mc_query mc ?cur of Some (Some c) \<Rightarrow> bits B c | _ \<Rightarrow> {}) \<inter> {0 ..< ?n}"
    using a bitmask_lawsD(9,10)[OF laws] by (auto split: option.split)
  have used: "bm_nbits B ?used = ?n" "bits B ?used = (if clearall then {} else {0 ..< ?n} - bits B ?u1)"
    using a u1(1) bitmask_lawsD(11,12)[OF laws, of ?u1] by auto
  have e: "bits B ?u0 \<subseteq> bits B ?used" using a(1) by simp
  note r = used_loop_result[OF laws a(2) used(1) e, of "mc_query mc" ?cur ds]
  have "used_cpus_bitmask_path B mc (Some pth) clearall = Some (used_loop B (mc_query mc) ?cur ds ?u0 ?used)"
    using ds by (simp add: used_cpus_bitmask_path_def Let_def)
  moreover have "bits B (used_loop B (mc_query mc) ?cur ds ?u0 ?used) = cpus_in_use B mc pth ds clearall"
    using r used(2) u1(2) by (auto simp: cpus_in_use_def)
  ultimately show ?thesis using r by blast
qed

section \<open>Creating nodes\<close>

definition mem_cpus :: "'b bitmask_ops \<Rightarrow> 'b machine \<Rightarrow> int \<Rightarrow> int set" where
  "mem_cpus B mc i = bits B (mc_localcpus mc (bm_setbit B (bm_alloc B (mc_nmems mc)) i))"

definition mem_available :: "'b bitmask_ops \<Rightarrow> 'b machine \<Rightarrow> int \<Rightarrow> bool" where
  "mem_available B mc i \<longleftrightarrow> (case mc_localmems mc (mc_current mc) of None \<Rightarrow> True | Some mems \<Rightarrow> i \<in> bits B mems)"

text \<open>
  What the documentation of libcpuset gives: every memory node has CPUs of the machine, and no CPU
  belongs to two of them.
\<close>

definition topology_ok :: "'b bitmask_ops \<Rightarrow> 'b machine \<Rightarrow> bool" where
  "topology_ok B mc \<longleftrightarrow> 0 \<le> mc_ncpus mc \<and> 0 \<le> mc_nmems mc \<and>
    (\<forall>i\<in>{0 ..< mc_nmems mc}. mem_cpus B mc i \<noteq> {} \<and> mem_cpus B mc i \<subseteq> {0 ..< mc_ncpus mc}) \<and>
    (\<forall>i\<in>{0 ..< mc_nmems mc}. \<forall>j\<in>{0 ..< mc_nmems mc}. i \<noteq> j \<longrightarrow> mem_cpus B mc i \<inter> mem_cpus B mc j = {})"

text \<open>
  What the code relies on besides: it takes the CPUs of a node for the numbers from the first one
  on (\<open>firstcpu + cpu\<close>), so the CPUs of each node have to be consecutive numbers.  libcpuset does not
  promise this, and machines that number their CPUs across the nodes do not have it.
\<close>

definition contiguous_nodes :: "'b bitmask_ops \<Rightarrow> 'b machine \<Rightarrow> bool" where
  "contiguous_nodes B mc \<longleftrightarrow> (\<forall>i\<in>{0 ..< mc_nmems mc}. \<exists>a k. mem_cpus B mc i = {a ..< a + k})"

text \<open>Both together, with the first CPU and the number of CPUs of each node.\<close>

definition machine_ok :: "'b bitmask_ops \<Rightarrow> 'b machine \<Rightarrow> bool" where
  "machine_ok B mc \<longleftrightarrow> 0 \<le> mc_ncpus mc \<and> 0 \<le> mc_nmems mc \<and>
    (\<forall>i\<in>{0 ..< mc_nmems mc}. \<exists>a k. 0 \<le> a \<and> 0 < k \<and> a + k \<le> mc_ncpus mc \<and> mem_cpus B mc i = {a ..< a + k}) \<and>
    (\<forall>i\<in>{0 ..< mc_nmems mc}. \<forall>j\<in>{0 ..< mc_nmems mc}. i \<noteq> j \<longrightarrow> mem_cpus B mc i \<inter> mem_cpus B mc j = {})"

lemma interval_bounds:
  fixes a k n :: int
  assumes "{a ..< a + k} \<noteq> {}" "{a ..< a + k} \<subseteq> {0 ..< n}"
  shows "0 \<le> a \<and> 0 < k \<and> a + k \<le> n"
proof -
  have k: "0 < k" using assms(1) by auto
  then have "a \<in> {a ..< a + k}" "a + k - 1 \<in> {a ..< a + k}" by auto
  with assms(2) have "a \<in> {0 ..< n}" "a + k - 1 \<in> {0 ..< n}" by blast+
  with k show ?thesis by simp
qed

lemma machine_ok_parts: "machine_ok B mc \<longleftrightarrow> topology_ok B mc \<and> contiguous_nodes B mc"
proof
  assume m: "machine_ok B mc"
  have "mem_cpus B mc i \<noteq> {} \<and> mem_cpus B mc i \<subseteq> {0 ..< mc_ncpus mc} \<and> (\<exists>a k. mem_cpus B mc i = {a ..< a + k})"
    if "i \<in> {0 ..< mc_nmems mc}" for i
  proof -
    from m that obtain a k where "0 \<le> a" "0 < k" "a + k \<le> mc_ncpus mc" "mem_cpus B mc i = {a ..< a + k}"
      unfolding machine_ok_def by blast
    then show ?thesis by auto
  qed
  with m show "topology_ok B mc \<and> contiguous_nodes B mc"
    unfolding machine_ok_def topology_ok_def contiguous_nodes_def by blast
next
  assume t: "topology_ok B mc \<and> contiguous_nodes B mc"
  have "\<exists>a k. 0 \<le> a \<and> 0 < k \<and> a + k \<le> mc_ncpus mc \<and> mem_cpus B mc i = {a ..< a + k}"
    if i: "i \<in> {0 ..< mc_nmems mc}" for i
  proof -
    obtain a k where "mem_cpus B mc i = {a ..< a + k}" using t i unfolding contiguous_nodes_def by blast
    moreover have "mem_cpus B mc i \<noteq> {}" "mem_cpus B mc i \<subseteq> {0 ..< mc_ncpus mc}"
      using t i unfolding topology_ok_def by blast+
    ultimately show ?thesis using interval_bounds[of a k] by metis
  qed
  with t show "machine_ok B mc" unfolding machine_ok_def topology_ok_def by blast
qed

lemma node_used_loop_result:
  assumes laws: "bitmask_laws B"
  shows "0 \<le> i \<Longrightarrow> i + int k \<le> bm_nbits B u \<Longrightarrow>
    bm_nbits B (node_used_loop B used offset i k u) = bm_nbits B u \<and>
    bits B (node_used_loop B used offset i k u) = bits B u \<union> {j. i \<le> j \<and> j < i + int k \<and> offset + j \<in> bits B used}"
proof (induction k arbitrary: i u)
  case (Suc k)
  let ?u = "if bm_isbitset B used (offset + i) then bm_setbit B u i else u"
  have u: "bm_nbits B ?u = bm_nbits B u" "bits B ?u = bits B u \<union> (if offset + i \<in> bits B used then {i} else {})"
    using Suc.prems bitmask_lawsD(4)[OF laws, of i u] bitmask_lawsD(5)[OF laws, of u i] by (auto simp: isbitset_bits)
  have "{j. i \<le> j \<and> j < i + int (Suc k) \<and> offset + j \<in> bits B used} =
      (if offset + i \<in> bits B used then {i} else {}) \<union>
      {j. i + 1 \<le> j \<and> j < i + 1 + int k \<and> offset + j \<in> bits B used}" (is "?A = ?C \<union> ?D")
  proof
    show "?A \<subseteq> ?C \<union> ?D"
    proof
      fix j assume "j \<in> ?A"
      then show "j \<in> ?C \<union> ?D" by (cases "j = i") auto
    qed
  qed (auto split: if_splits)
  then show ?case using Suc.IH[of "i + 1" ?u] Suc.prems u by (simp add: Un_assoc)
qed auto

lemma interval_first:
  assumes laws: "bitmask_laws B" and b: "bits B b = {a ..< a + k}" "0 < k"
  shows "bm_first B b = a"
proof -
  have "a \<in> bits B b" using b by simp
  then have "bm_first B b \<le> a" "bm_first B b \<in> bits B b" using bitmask_lawsD(7,8)[OF laws] by blast+
  then show ?thesis using b(1) by simp
qed

lemma node_create_result:
  assumes laws: "bitmask_laws B" and mok: "machine_ok B mc" and i: "0 \<le> i" "i < mc_nmems mc"
    and u: "bm_nbits B (nm_usedcpus m) = mc_ncpus mc"
  shows "node_ok B (nm_usedcpus m) (node_create B mc m i)" "node_cpus B (node_create B mc m i) = mem_cpus B mc i"
    "nd_nodeid (node_create B mc m i) = i"
proof -
  from mok i obtain a k where ak: "0 \<le> a" "0 < k" "a + k \<le> mc_ncpus mc" "mem_cpus B mc i = {a ..< a + k}"
    unfolding machine_ok_def by (meson atLeastLessThan_iff)
  let ?c = "bm_copy B (bm_alloc B (mc_ncpus mc)) (mc_localcpus mc (bm_setbit B (bm_alloc B (mc_nmems mc)) i))"
  let ?w = "bm_weight B ?c"
  let ?u = "node_used_loop B (nm_usedcpus m) (bm_first B ?c) 0 (nat ?w) (bm_alloc B ?w)"
  have nb: "bm_nbits B (bm_alloc B (mc_ncpus mc)) = mc_ncpus mc"
    using bitmask_lawsD(2)[OF laws] mok by (simp add: machine_ok_def)
  have c: "bits B ?c = {a ..< a + k}"
    using bitmask_lawsD(9)[OF laws] ak nb by (auto simp: mem_cpus_def)
  then have w: "?w = k" and f: "bm_first B ?c = a"
    using bitmask_lawsD(6)[OF laws, of ?c] interval_first[OF laws c ak(2)] ak(2) by simp_all
  have alloc: "bits B (bm_alloc B ?w) = {}" "bm_nbits B (bm_alloc B ?w) = k"
    using bitmask_lawsD(1,2)[OF laws] w ak(2) by simp_all
  have ul: "bm_nbits B ?u = k" "bits B ?u = {j. 0 \<le> j \<and> j < k \<and> a + j \<in> bits B (nm_usedcpus m)}"
    using node_used_loop_result[OF laws, of 0 "nat ?w" "bm_alloc B ?w" "nm_usedcpus m" "bm_first B ?c"] alloc w f ak(2)
    by simp_all
  have n: "node_create B mc m i = \<lparr>nd_nodeid = i, nd_ncpus = k, nd_navail = k - bm_weight B ?u, nd_localcpus = ?c, nd_usedcpus = ?u\<rparr>"
    using w by (simp add: node_create_def Let_def)
  show nc: "node_cpus B (node_create B mc m i) = mem_cpus B mc i" "nd_nodeid (node_create B mc m i) = i"
    using f ak(4) unfolding n node_cpus_def node_base_def by simp_all
  have "k - bm_weight B ?u = int (card ({a ..< a + k} - bits B (nm_usedcpus m)))"
  proof -
    have im: "(\<lambda>j. a + j) ` bits B ?u = {a ..< a + k} \<inter> bits B (nm_usedcpus m)" (is "?I = ?J")
    proof
      show "?J \<subseteq> ?I"
      proof
        fix x assume "x \<in> ?J"
        then show "x \<in> ?I" by (intro image_eqI[of _ _ "x - a"]) (auto simp: ul(2))
      qed
    qed (auto simp: ul(2))
    have "card (bits B ?u) = card ?J" unfolding im[symmetric] by (rule card_image[symmetric]) (simp add: inj_on_def)
    moreover have "card ?J \<le> card {a ..< a + k}" by (intro card_mono) auto
    moreover have "card ({a ..< a + k} - bits B (nm_usedcpus m)) = card {a ..< a + k} - card ?J"
      by (rule card_Diff_subset_Int) simp
    ultimately show ?thesis using bitmask_lawsD(6)[OF laws, of ?u] ak(2) by simp
  qed
  moreover have "bits B ?u = {j. 0 \<le> j \<and> j < k \<and> node_base B (node_create B mc m i) + j \<in> bits B (nm_usedcpus m)}"
    using ul(2) f unfolding n node_base_def by simp
  ultimately show "node_ok B (nm_usedcpus m) (node_create B mc m i)"
    using ak u ul(1) nc(1) unfolding node_ok_def by (simp add: n)
qed

section \<open>Creating the map\<close>

text \<open>After \<open>i\<close> rounds the list holds the available nodes below \<open>i\<close>, each at its number.\<close>

definition nodes_made :: "'b bitmask_ops \<Rightarrow> 'b machine \<Rightarrow> nat \<Rightarrow> addr set" where
  "nodes_made B mc i = {p. p < i \<and> mem_available B mc (int p)}"

definition created :: "'b bitmask_ops \<Rightarrow> 'b machine \<Rightarrow> nat \<Rightarrow> 'b nodemap \<Rightarrow> bool" where
  "created B mc i m \<longleftrightarrow> nodemap_ok B m \<and> nm_ncpus m = mc_ncpus mc \<and> nm_cpus m = mc_current mc \<and>
    set (nodes_of m) = nodes_made B mc i \<and>
    (\<forall>p\<in>set (nodes_of m). cpus_at B m p = mem_cpus B mc (int p) \<and> nd_nodeid (node_at m p) = int p)"

lemma node_cpus_available_eq:
  "nm_cpus m = mc_current mc \<Longrightarrow> node_cpus_available B mc m i = 0 \<longleftrightarrow> \<not> mem_available B mc i"
  by (simp add: node_cpus_available_def mem_available_def isbitset_bits split: option.split)

lemma add_node:
  assumes laws: "bitmask_laws B" and mok: "machine_ok B mc" and i: "int i < mc_nmems mc"
    and c: "created B mc i m" and av: "mem_available B mc (int i)" and cap: "0 < fl_cap (l_nfree (nm_nodelist m))"
  shows "\<exists>l'. snd (list_push (nm_nodelist m) i) = l' \<and> fl_cap (l_nfree l') = fl_cap (l_nfree (nm_nodelist m)) - 1 \<and>
    l_ifree l' = l_ifree (nm_nodelist m) \<and>
    created B mc (i + 1) (m\<lparr>nm_nodes := (nm_nodes m)(i \<mapsto> node_create B mc m (int i)), nm_nodelist := l'\<rparr>)"
proof -
  have ok: "nodemap_ok B m" and cpus: "nm_ncpus m = mc_ncpus mc" and st: "set (nodes_of m) = nodes_made B mc i"
    and at: "\<And>p. p \<in> set (nodes_of m) \<Longrightarrow> cpus_at B m p = mem_cpus B mc (int p) \<and> nd_nodeid (node_at m p) = int p"
    using c by (auto simp: created_def)
  from push_cap[OF cap, of i] obtain l' where
    l': "list_push (nm_nodelist m) i = (Some i, l')" "fl_cap (l_nfree l') = fl_cap (l_nfree (nm_nodelist m)) - 1"
      "l_ifree l' = l_ifree (nm_nodelist m)" by blast
  have lo: "list_ok (nm_nodelist m)" using ok by (simp add: nodemap_ok_def)
  have d: "list_ok l'" "list_data l' = i # nodes_of m"
    using list_push_data[OF lo l'(1)] by (simp_all add: nodes_of_def)
  let ?n = "node_create B mc m (int i)"
  let ?m = "m\<lparr>nm_nodes := (nm_nodes m)(i \<mapsto> ?n), nm_nodelist := l'\<rparr>"
  have nb: "bm_nbits B (nm_usedcpus m) = mc_ncpus mc" using ok cpus by (simp add: nodemap_ok_def)
  note nc = node_create_result[OF laws mok _ i nb]
  have nodes: "nodes_of ?m = i # nodes_of m" "node_at ?m p = (if p = i then ?n else node_at m p)" for p
    using d(2) by (simp_all add: nodes_of_def node_at_def)
  have i_new: "i \<notin> set (nodes_of m)" and below: "\<And>p. p \<in> set (nodes_of m) \<Longrightarrow> p < i"
    using st by (auto simp: nodes_made_def)
  have cp: "cpus_at B ?m p = mem_cpus B mc (int p)" "nd_nodeid (node_at ?m p) = int p"
    "nm_nodes ?m p \<noteq> None" "node_ok B (nm_usedcpus m) (node_at ?m p)" if "p \<in> set (nodes_of ?m)" for p
  proof -
    have "cpus_at B ?m p = mem_cpus B mc (int p) \<and> nd_nodeid (node_at ?m p) = int p \<and>
      nm_nodes ?m p \<noteq> None \<and> node_ok B (nm_usedcpus m) (node_at ?m p)"
    proof (cases "p = i")
      case True
      then show ?thesis using nc by (simp add: cpus_at_def nodes(2))
    next
      case False
      then have p: "p \<in> set (nodes_of m)" using that nodes(1) by simp
      then show ?thesis using at[OF p] nodemap_okD(1,2)[OF ok p] False by (simp add: cpus_at_def nodes(2))
    qed
    then show "cpus_at B ?m p = mem_cpus B mc (int p)" "nd_nodeid (node_at ?m p) = int p"
      "nm_nodes ?m p \<noteq> None" "node_ok B (nm_usedcpus m) (node_at ?m p)" by blast+
  qed
  have "cpus_at B ?m p \<inter> cpus_at B ?m q = {}"
    if "p \<in> set (nodes_of ?m)" "q \<in> set (nodes_of ?m)" "p \<noteq> q" for p q
  proof -
    have "p < i \<or> p = i" "q < i \<or> q = i" using that(1,2) below unfolding nodes(1) by auto
    then have "int p \<in> {0 ..< mc_nmems mc}" "int q \<in> {0 ..< mc_nmems mc}" using i by auto
    then show ?thesis
      using mok that(3) unfolding cp(1)[OF that(1)] cp(1)[OF that(2)] machine_ok_def by simp
  qed
  then have "nodemap_ok B ?m"
    using ok d(1) i_new cp(3,4) unfolding nodemap_ok_def nodes(1) by simp
  moreover have "set (nodes_of ?m) = nodes_made B mc (i + 1)"
    unfolding nodes(1) using st av by (auto simp: nodes_made_def less_Suc_eq)
  ultimately have "created B mc (i + 1) ?m"
    using c cp(1,2) by (simp add: created_def)
  then show ?thesis using l' by (intro exI[of _ l']) simp
qed

lemma node_loop_result:
  assumes laws: "bitmask_laws B" and mok: "machine_ok B mc"
  shows "created B mc i m \<Longrightarrow> int i + int k \<le> mc_nmems mc \<Longrightarrow> k \<le> fl_cap (l_nfree (nm_nodelist m)) \<Longrightarrow>
    created B mc (i + k) (create_loop B mc m i k) \<and>
    nm_usedcpus (create_loop B mc m i k) = nm_usedcpus m \<and>
    l_ifree (nm_nodelist (create_loop B mc m i k)) = l_ifree (nm_nodelist m)"
proof (induction k arbitrary: i m)
  case (Suc k)
  have cur: "nm_cpus m = mc_current mc" using Suc.prems(1) by (simp add: created_def)
  show ?case
  proof (cases "mem_available B mc (int i)")
    case False
    then have "nodes_made B mc (i + 1) = nodes_made B mc i" by (auto simp: nodes_made_def less_Suc_eq)
    then have "created B mc (i + 1) m" using Suc.prems(1) by (simp add: created_def)
    then show ?thesis
      using Suc.IH[of "i + 1" m] Suc.prems False node_cpus_available_eq[OF cur] by simp
  next
    case True
    have "int i < mc_nmems mc" "0 < fl_cap (l_nfree (nm_nodelist m))" using Suc.prems by simp_all
    from add_node[OF laws mok this(1) Suc.prems(1) True this(2)] obtain l' where
      l': "snd (list_push (nm_nodelist m) i) = l'" "fl_cap (l_nfree l') = fl_cap (l_nfree (nm_nodelist m)) - 1"
        "l_ifree l' = l_ifree (nm_nodelist m)"
        "created B mc (i + 1) (m\<lparr>nm_nodes := (nm_nodes m)(i \<mapsto> node_create B mc m (int i)), nm_nodelist := l'\<rparr>)" by blast
    from Suc.IH[OF l'(4)] Suc.prems l'(1-3) True node_cpus_available_eq[OF cur] show ?thesis by simp
  qed
qed simp

text \<open>The CPUs of the nodes the current cpuset can use.\<close>

definition local_cpus :: "'b bitmask_ops \<Rightarrow> 'b machine \<Rightarrow> int set" where
  "local_cpus B mc = (\<Union>i\<in>{i. 0 \<le> i \<and> i < mc_nmems mc \<and> mem_available B mc i}. mem_cpus B mc i)"

lemma nodemap_create_result:
  assumes laws: "bitmask_laws B" and mok: "machine_ok B mc"
    and mem: "0 < fl_cap lf" "nat (mc_nmems mc) \<le> fl_cap nf" "fl_ok {} nf" "fl_ok {} itf"
    and path: "current_cpuset_path mc = Some pth" "mc_dir mc pth = Some ds"
  shows "\<exists>m. nodemap_create B mc (lf, nf, itf) cf None = Some (Some m) \<and> nodemap_ok B m \<and>
    free_cpus B m = local_cpus B mc - cpus_in_use B mc pth ds False \<and>
    bits B (nm_usedcpus m) = cpus_in_use B mc pth ds False \<and>
    nm_navail m = mc_ncpus mc - int (card (cpus_in_use B mc pth ds False)) \<and>
    nm_policy m = \<lparr>pl_reverse = cf_reverse_order cf, pl_best_fit = (cf_policy cf = BEST_FIT),
      pl_first_fit = (cf_policy cf = FIRST_FIT), pl_worst_fit = (cf_policy cf = WORST_FIT),
      pl_alloc_idle_first = cf_alloc_idle_nodes cf,
      pl_alloc_idle_multiples_only = cpuset_conf_alloc_idle_multiple cf\<rparr> \<and>
    l_ifree (nm_nodelist m) = itf \<and> nm_ncpus m = mc_ncpus mc"
proof -
  have n: "0 \<le> mc_ncpus mc" using mok by (simp add: machine_ok_def)
  from used_cpus_result[OF laws n path(2), of False] obtain u where
    u: "used_cpus_bitmask_path B mc (Some pth) False = Some u" "bm_nbits B u = mc_ncpus mc"
      "bits B u = cpus_in_use B mc pth ds False" by blast
  have u0: "used_cpus_bitmask_path B mc None False = Some u"
    using u(1) path(1) by (simp add: used_cpus_bitmask_path_def)
  obtain l0 :: "addr clist" and lf1 where l0: "list_create True lf nf itf = (Some l0, lf1)"
      "l_nfree l0 = nf" "l_ifree l0 = itf"
    using alloc_cap[OF mem(1)] by (auto simp: list_create_def list_fresh_def)
  note lo = list_create_ok[OF mem(3,4) l0(1)]
  let ?start = "\<lparr>nm_policy = default_policy, nm_nnodes = mc_nmems mc, nm_ncpus = mc_ncpus mc, nm_navail = 0,
     nm_usedcpus = u, nm_cpus = mc_current mc, nm_nodelist = l0, nm_nodes = Map.empty\<rparr>"
  define made where "made = create_loop B mc ?start 0 (nat (mc_nmems mc))"
  define m where "m = nodemap_policy_update (made\<lparr>nm_navail := nm_ncpus made - bm_weight B (nm_usedcpus made)\<rparr>) cf"
  have "nodes_of ?start = []" using lo by (simp add: nodes_of_def)
  then have start: "created B mc 0 ?start" using lo u(2) n by (simp add: created_def nodemap_ok_def nodes_made_def)
  have k: "int 0 + int (nat (mc_nmems mc)) \<le> mc_nmems mc" using mok by (simp add: machine_ok_def)
  have cap: "nat (mc_nmems mc) \<le> fl_cap (l_nfree (nm_nodelist ?start))" using mem(2) l0(2) by simp
  have r: "created B mc (nat (mc_nmems mc)) made" "nm_usedcpus made = u" "l_ifree (nm_nodelist made) = itf"
    using node_loop_result[OF laws mok start k cap] l0(3) unfolding made_def by simp_all
  have same: "nodes_of m = nodes_of made" "node_at m = node_at made" "cpus_at B m = cpus_at B made"
    "nm_usedcpus m = nm_usedcpus made" "nm_nodes m = nm_nodes made" "nm_nodelist m = nm_nodelist made" "nm_ncpus m = nm_ncpus made"
    by (auto simp: m_def nodemap_policy_update_def nodes_of_def node_at_def cpus_at_def)
  have ok: "nodemap_ok B m" using r(1) unfolding created_def nodemap_ok_def same by blast
  have "(\<Union>p\<in>set (nodes_of m). cpus_at B m p) = local_cpus B mc"
  proof -
    have "(\<Union>p\<in>set (nodes_of m). cpus_at B m p) = (\<Union>p\<in>nodes_made B mc (nat (mc_nmems mc)). mem_cpus B mc (int p))"
      using r(1) by (simp add: same created_def)
    also have "\<dots> = (\<Union>i\<in>int ` nodes_made B mc (nat (mc_nmems mc)). mem_cpus B mc i)" by simp
    also have "int ` nodes_made B mc (nat (mc_nmems mc)) = {i. 0 \<le> i \<and> i < mc_nmems mc \<and> mem_available B mc i}"
    proof -
      have "i \<in> int ` nodes_made B mc (nat (mc_nmems mc))" if "0 \<le> i" "i < mc_nmems mc" "mem_available B mc i" for i
        using that by (intro image_eqI[of _ _ "nat i"]) (simp_all add: nodes_made_def)
      then show ?thesis by (auto simp: nodes_made_def)
    qed
    finally show ?thesis by (simp add: local_cpus_def)
  qed
  then have "free_cpus B m = local_cpus B mc - cpus_in_use B mc pth ds False"
    using r(2) u(3) by (simp add: free_cpus_def same)
  moreover have "nodemap_create B mc (lf, nf, itf) cf None = Some (Some m)"
    using l0(1) u0 by (simp add: nodemap_create_def Let_def made_def m_def)
  moreover have "nm_navail m = mc_ncpus mc - int (card (cpus_in_use B mc pth ds False))"
    using r(1,2) u(3) bitmask_lawsD(6)[OF laws, of u] by (simp add: m_def nodemap_policy_update_def created_def)
  moreover have "nm_ncpus made = mc_ncpus mc" using r(1) by (simp add: created_def)
  ultimately show ?thesis
    using ok r(2,3) u(3) by (intro exI[of _ m]) (simp add: same(4,6,7), simp add: m_def nodemap_policy_update_def)
qed

end
