(* ===== verification/NodemapProps.thy ===== *)
theory NodemapProps
  imports NodemapCreate
begin

text \<open>
  The properties of \<open>cpuset/nodemap.c\<close>: \<open>nodemap_allocate\<close> hands out exactly the CPUs asked for, and
  where; \<open>nodemap_create\<close> makes a consistent map.
\<close>

section \<open>Where the policies take CPUs\<close>

definition node_before :: "policy \<Rightarrow> 'b node \<Rightarrow> 'b node \<Rightarrow> bool" where
  "node_before pl n1 n2 \<longleftrightarrow>
    (if pl_reverse pl then nd_nodeid n2 < nd_nodeid n1 else nd_nodeid n1 < nd_nodeid n2)"

definition chosen :: "'b bitmask_ops \<Rightarrow> int set \<Rightarrow> 'b nodemap \<Rightarrow> 'b nodemap \<Rightarrow> bool" where
  "chosen B Y m m' \<longleftrightarrow>
    (\<forall>p\<in>set (nodes_of m). \<forall>q\<in>set (nodes_of m).
      if pl_best_fit (nm_policy m)
      then Y \<inter> cpus_at B m q \<noteq> {} \<and> nd_navail (node_at m p) < nd_navail (node_at m q) \<longrightarrow>
        nd_navail (node_at m' p) = 0
      else if pl_first_fit (nm_policy m)
      then Y \<inter> cpus_at B m q \<noteq> {} \<and> node_before (nm_policy m) (node_at m p) (node_at m q) \<longrightarrow>
        nd_navail (node_at m' p) = 0
      else Y \<inter> cpus_at B m p \<noteq> {} \<longrightarrow> nd_navail (node_at m' q) \<le> nd_navail (node_at m' p) + 1)"

definition has_policy :: "policy \<Rightarrow> bool" where
  "has_policy pl \<longleftrightarrow> pl_best_fit pl \<or> pl_first_fit pl \<or> pl_worst_fit pl"

definition in_node_order :: "'b nodemap \<Rightarrow> bool" where
  "in_node_order m \<longleftrightarrow>
    sorted_wrt (\<lambda>p q. \<not> node_before (nm_policy m) (node_at m q) (node_at m p)) (nodes_of m)"

lemma sorted_before:
  assumes "sorted_wrt R qs" "sorted_wrt Q qs" "p \<in> set qs" "q \<in> set qs" "\<not> R q p" "p \<noteq> q"
  shows "Q p q"
proof -
  from assms(3,4) obtain i j where ij: "i < length qs" "p = qs ! i" "j < length qs" "q = qs ! j"
    by (auto simp: in_set_conv_nth)
  then have "i \<noteq> j" using assms(6) by auto
  moreover have "\<not> j < i" using sorted_wrt_nth_less[OF assms(1)] ij assms(5) by blast
  ultimately have "i < j" by simp
  then show ?thesis using sorted_wrt_nth_less[OF assms(2)] ij by blast
qed

lemma policy_result:
  assumes laws: "bitmask_laws B" and ok: "st_ok B s"
    and l: "al_nleft (snd s) \<le> int (card (free_cpus B (fst s)))"
    and pl: "has_policy (nm_policy (fst s))" and ord: "in_node_order (fst s)"
  shows "\<exists>s' Y. allocate_by_policy B s = Some s' \<and> took B Y s s' \<and> st_ok B s' \<and>
    int (card Y) = al_nleft (snd s) \<and> chosen B Y (fst s) (fst s')"
proof -
  let ?m = "fst s"
  consider (best) "pl_best_fit (nm_policy ?m)" | (first) "\<not> pl_best_fit (nm_policy ?m)" "pl_first_fit (nm_policy ?m)"
    | (worst) "\<not> pl_best_fit (nm_policy ?m)" "\<not> pl_first_fit (nm_policy ?m)" "pl_worst_fit (nm_policy ?m)"
    using pl by (auto simp: has_policy_def)
  then show ?thesis
  proof cases
    case best
    from do_allocation_result[OF laws ok, of "Some node_cmp_free"] obtain s' Y qs where
      y: "do_allocation B (Some node_cmp_free) s = Some (0, s')" "took B Y s s'" "st_ok B s'"
        "int (card Y) = min (al_nleft (snd s)) (int (card (free_cpus B ?m)))" "set qs = set (nodes_of ?m)"
        "map (node_at ?m) qs = isort node_cmp_free (map (node_at ?m) (nodes_of ?m))"
        "sorted_wrt (\<lambda>p q. Y \<inter> cpus_at B ?m q \<noteq> {} \<longrightarrow> nd_navail (node_at (fst s') p) = 0) qs" by auto
    have "sorted_wrt (\<lambda>x y. node_cmp_free x y \<le> 0) (map (node_at ?m) qs)"
      using nf.isort_in_order unfolding nf.in_order_def y(6) by blast
    then have so: "sorted_wrt (\<lambda>p q. node_cmp_free (node_at ?m p) (node_at ?m q) \<le> 0) qs"
      by (simp add: sorted_wrt_map)
    have "chosen B Y ?m (fst s')"
      unfolding chosen_def if_P[OF best]
    proof (intro ballI impI)
      fix p q
      assume pq: "p \<in> set (nodes_of ?m)" "q \<in> set (nodes_of ?m)"
        and c: "Y \<inter> cpus_at B ?m q \<noteq> {} \<and> nd_navail (node_at ?m p) < nd_navail (node_at ?m q)"
      then have "\<not> node_cmp_free (node_at ?m q) (node_at ?m p) \<le> 0" "p \<noteq> q"
        by (auto simp: node_cmp_free_def)
      from sorted_before[OF so y(7) _ _ this] pq c y(5) show "nd_navail (node_at (fst s') p) = 0" by blast
    qed
    then show ?thesis using y(1-4) l best by (auto simp: allocate_by_policy_def allocation_best_fit_def)
  next
    case first
    from do_allocation_result[OF laws ok, of None] obtain s' Y qs where
      y: "do_allocation B None s = Some (0, s')" "took B Y s s'" "st_ok B s'"
        "int (card Y) = min (al_nleft (snd s)) (int (card (free_cpus B ?m)))" "set qs = set (nodes_of ?m)"
        "map (node_at ?m) qs = map (node_at ?m) (nodes_of ?m)"
        "sorted_wrt (\<lambda>p q. Y \<inter> cpus_at B ?m q \<noteq> {} \<longrightarrow> nd_navail (node_at (fst s') p) = 0) qs" by auto
    let ?R = "\<lambda>x y. \<not> node_before (nm_policy ?m) y x"
    have "sorted_wrt ?R (map (node_at ?m) qs)"
      unfolding y(6) using ord by (simp add: in_node_order_def sorted_wrt_map)
    then have so: "sorted_wrt (\<lambda>p q. ?R (node_at ?m p) (node_at ?m q)) qs" by (simp add: sorted_wrt_map)
    have "chosen B Y ?m (fst s')"
      unfolding chosen_def if_not_P[OF first(1)] if_P[OF first(2)]
    proof (intro ballI impI)
      fix p q
      assume pq: "p \<in> set (nodes_of ?m)" "q \<in> set (nodes_of ?m)"
        and c: "Y \<inter> cpus_at B ?m q \<noteq> {} \<and> node_before (nm_policy ?m) (node_at ?m p) (node_at ?m q)"
      then have "\<not> ?R (node_at ?m q) (node_at ?m p)" "p \<noteq> q" by (auto simp: node_before_def split: if_splits)
      from sorted_before[OF so y(7) _ _ this] pq c y(5) show "nd_navail (node_at (fst s') p) = 0" by blast
    qed
    then show ?thesis using y(1-4) l first by (auto simp: allocate_by_policy_def allocation_first_fit_def)
  next
    case worst
    from worst_fit_result[OF laws ok l] obtain s' Y where
      y: "allocation_worst_fit B s = Some (0, s')" "took B Y s s'" "st_ok B s'"
        "int (card Y) = al_nleft (snd s)" "balanced B Y ?m (fst s')" by blast
    have "chosen B Y ?m (fst s')"
      unfolding chosen_def if_not_P[OF worst(1)] if_not_P[OF worst(2)] using y(5) by (simp add: balanced_def)
    then show ?thesis using y(1-4) worst by (auto simp: allocate_by_policy_def)
  qed
qed

section \<open>Allocation\<close>

lemma should_idle_result:
  assumes "nodemap_ok B m"
  shows "\<exists>v. should_allocate_idle_nodes m n = Some v \<and> (\<not> pl_alloc_idle_first (nm_policy m) \<longrightarrow> v = 0)"
proof (cases "pl_alloc_idle_first (nm_policy m)")
  case False
  then show ?thesis by (simp add: should_allocate_idle_nodes_def)
next
  case True
  define f where "f = (if pl_alloc_idle_multiples_only (nm_policy m) then find_multiple_of_node_size m else find_node_lt_size m)"
  have some: "f p n \<noteq> None" if "p \<in> set (nodes_of m)" for p
    using nodemap_okD(1,2)[OF assms that]
    by (auto simp: f_def find_multiple_of_node_size_def find_node_lt_size_def node_ok_def)
  have run: "should_allocate_idle_nodes m n =
      (case List.find (\<lambda>p. stops (f p n) \<noteq> 0) (nodes_of m) of
         None \<Rightarrow> Some 0 | Some p \<Rightarrow> if f p n = None then None else Some 1)"
    using True assms list_find_first_data[of "nm_nodelist m" "\<lambda>p np. stops (f p np)" n]
    by (simp add: should_allocate_idle_nodes_def nodemap_ok_def nodes_of_def Let_def flip: f_def split: option.split)
  show ?thesis
  proof (cases "List.find (\<lambda>p. stops (f p n) \<noteq> 0) (nodes_of m)")
    case None
    then show ?thesis using run by simp
  next
    case (Some p)
    then have "p \<in> set (nodes_of m)" by (auto simp: find_Some_iff)
    then show ?thesis using run Some some True by simp
  qed
qed

lemma allocation_start:
  assumes laws: "bitmask_laws B" and ok: "nodemap_ok B m" and n: "0 \<le> n"
  shows "st_ok B (m, allocation_create B m n)" "bits B (al_allocated_cpus (allocation_create B m n)) = {}"
    "al_nleft (allocation_create B m n) = n"
  using ok n bitmask_lawsD(1,2)[OF laws] by (simp_all add: st_ok_def allocation_create_def nodemap_ok_def)

lemma sorted_by_id:
  assumes "nodemap_ok B m" "sort_nodes (if pl_reverse (nm_policy m) then node_cmp_reverse else node_cmp_nodeid) m = Some m1"
    "map (node_at m) (nodes_of m1) =
      isort (if pl_reverse (nm_policy m) then node_cmp_reverse else node_cmp_nodeid) (map (node_at m) (nodes_of m))"
    "nm_nodes m1 = nm_nodes m" "nm_policy m1 = nm_policy m"
  shows "in_node_order m1"
proof -
  have at1: "node_at m1 = node_at m" using assms(4) by (auto simp: node_at_def)
  have "sorted_wrt (\<lambda>x y. \<not> node_before (nm_policy m) y x) (map (node_at m) (nodes_of m1))"
  proof (cases "pl_reverse (nm_policy m)")
    case True
    have "sorted_wrt (\<lambda>x y. node_cmp_reverse x y \<le> 0) (map (node_at m) (nodes_of m1))"
      unfolding assms(3) if_P[OF True] using nr.isort_in_order unfolding nr.in_order_def .
    then show ?thesis
      using True by (elim sorted_wrt_mono_rel[rotated])
        (auto simp: node_before_def node_cmp_reverse_def node_cmp_nodeid_def split: if_splits)
  next
    case False
    have "sorted_wrt (\<lambda>x y. node_cmp_nodeid x y \<le> 0) (map (node_at m) (nodes_of m1))"
      unfolding assms(3) if_not_P[OF False] using ni.isort_in_order unfolding ni.in_order_def .
    then show ?thesis
      using False by (elim sorted_wrt_mono_rel[rotated])
        (auto simp: node_before_def node_cmp_nodeid_def split: if_splits)
  qed
  then show ?thesis by (simp add: in_node_order_def sorted_wrt_map at1 assms(5))
qed

text \<open>
  Where an allocation puts its CPUs, on the free CPUs of the nodes: \<open>X\<close> is taken from idle nodes
  first, \<open>Y\<close> by the policy.
\<close>

definition spare :: "'b bitmask_ops \<Rightarrow> 'b nodemap \<Rightarrow> int set \<Rightarrow> addr \<Rightarrow> nat" where
  "spare B m X p = card (cpus_at B m p - bits B (nm_usedcpus m) - X)"

definition placed :: "'b bitmask_ops \<Rightarrow> int set \<Rightarrow> int set \<Rightarrow> 'b nodemap \<Rightarrow> bool" where
  "placed B X Y m \<longleftrightarrow>
    (\<forall>p\<in>set (nodes_of m). \<forall>q\<in>set (nodes_of m).
      if pl_best_fit (nm_policy m)
      then Y \<inter> cpus_at B m q \<noteq> {} \<and> spare B m X p < spare B m X q \<longrightarrow> spare B m (X \<union> Y) p = 0
      else if pl_first_fit (nm_policy m)
      then Y \<inter> cpus_at B m q \<noteq> {} \<and> node_before (nm_policy m) (node_at m p) (node_at m q) \<longrightarrow>
        spare B m (X \<union> Y) p = 0
      else Y \<inter> cpus_at B m p \<noteq> {} \<longrightarrow> spare B m (X \<union> Y) q \<le> spare B m (X \<union> Y) p + 1)"

lemma navail_spare:
  assumes "took B X s s'" "nodemap_ok B (fst s)" "p \<in> set (nodes_of (fst s))"
  shows "nd_navail (node_at (fst s') p) = int (spare B (fst s) X p)"
proof -
  have "p \<in> set (nodes_of (fst s'))" "cpus_at B (fst s') p = cpus_at B (fst s) p" "nodemap_ok B (fst s')"
    "bits B (nm_usedcpus (fst s')) = bits B (nm_usedcpus (fst s)) \<union> X"
    using assms by (auto simp: took_def same_nodes_def)
  moreover have "A - (U \<union> X) = A - U - X" for A U :: "int set" by blast
  ultimately show ?thesis using nodemap_okD(5)[of B "fst s'" p] by (simp add: spare_def)
qed

lemma chosen_placed:
  assumes tX: "took B X s s1" and tY: "took B Y s1 s'" and ok: "nodemap_ok B (fst s)"
    and c: "chosen B Y (fst s1) (fst s')"
  shows "placed B X Y (fst s)"
proof -
  have sn: "set (nodes_of (fst s1)) = set (nodes_of (fst s))" "nm_policy (fst s1) = nm_policy (fst s)"
    and sc: "\<And>p. p \<in> set (nodes_of (fst s)) \<Longrightarrow> cpus_at B (fst s1) p = cpus_at B (fst s) p \<and>
      nd_nodeid (node_at (fst s1) p) = nd_nodeid (node_at (fst s) p)"
    using tX by (auto simp: took_def same_nodes_def)
  note t = took_trans[OF tX tY]
  have nv: "nd_navail (node_at (fst s1) p) = int (spare B (fst s) X p)"
    "nd_navail (node_at (fst s') p) = int (spare B (fst s) (X \<union> Y) p)" if "p \<in> set (nodes_of (fst s))" for p
    by (rule navail_spare[OF tX ok that], rule navail_spare[OF t ok that])
  have nb: "node_before pl (node_at (fst s1) p) (node_at (fst s1) q) = node_before pl (node_at (fst s) p) (node_at (fst s) q)"
    if "p \<in> set (nodes_of (fst s))" "q \<in> set (nodes_of (fst s))" for p q pl
    using sc[OF that(1)] sc[OF that(2)] by (simp add: node_before_def)
  show ?thesis
    unfolding placed_def
  proof (intro ballI)
    fix p q
    assume p: "p \<in> set (nodes_of (fst s))" and q: "q \<in> set (nodes_of (fst s))"
    have "p \<in> set (nodes_of (fst s1))" "q \<in> set (nodes_of (fst s1))" using p q sn by simp_all
    from c[unfolded chosen_def, rule_format, OF this]
    show "if pl_best_fit (nm_policy (fst s))
      then Y \<inter> cpus_at B (fst s) q \<noteq> {} \<and> spare B (fst s) X p < spare B (fst s) X q \<longrightarrow> spare B (fst s) (X \<union> Y) p = 0
      else if pl_first_fit (nm_policy (fst s))
      then Y \<inter> cpus_at B (fst s) q \<noteq> {} \<and> node_before (nm_policy (fst s)) (node_at (fst s) p) (node_at (fst s) q) \<longrightarrow>
        spare B (fst s) (X \<union> Y) p = 0
      else Y \<inter> cpus_at B (fst s) p \<noteq> {} \<longrightarrow> spare B (fst s) (X \<union> Y) q \<le> spare B (fst s) (X \<union> Y) p + 1"
      unfolding sn(2) nv[OF p] nv[OF q] nb[OF p q] conjunct1[OF sc[OF p]] conjunct1[OF sc[OF q]]
      by (cases "pl_best_fit (nm_policy (fst s))"; cases "pl_first_fit (nm_policy (fst s))") auto
  qed
qed

text \<open>The first half of \<open>nodemap_allocate\<close>: sorting and idle nodes.\<close>

lemma idle_first_result:
  assumes laws: "bitmask_laws B" and ok: "nodemap_ok B m" and n: "0 \<le> n"
    and mem: "0 < fl_cap (l_ifree (nm_nodelist m))"
  shows "\<exists>m1 v s X. sort_nodes (if pl_reverse (nm_policy m) then node_cmp_reverse else node_cmp_nodeid) m = Some m1 \<and>
    should_allocate_idle_nodes m1 n = Some v \<and>
    (if v \<noteq> 0 then map_option snd (alloc_idle_nodes B (m1, allocation_create B m1 n))
     else Some (m1, allocation_create B m1 n)) = Some s \<and>
    took B X (m, allocation_create B m n) s \<and> st_ok B s \<and> in_node_order (fst s) \<and> whole B X m \<and>
    (\<not> pl_alloc_idle_first (nm_policy m) \<longrightarrow> X = {})"
proof -
  let ?f = "if pl_reverse (nm_policy m) then node_cmp_reverse else node_cmp_nodeid"
  from sort_nodes_result[OF ok, of ?f "allocation_create B m n"] obtain m1 where
    m1: "sort_nodes ?f m = Some m1" "took B {} (m, allocation_create B m n) (m1, allocation_create B m n)"
      "nm_nodes m1 = nm_nodes m" "l_ifree (nm_nodelist m1) = l_ifree (nm_nodelist m)"
      "map (node_at m) (nodes_of m1) = isort ?f (map (node_at m) (nodes_of m))" by blast
  have sn: "same_nodes B m m1" and ok1: "nodemap_ok B m1" using m1(2) by (simp_all add: took_def)
  then have pl: "nm_policy m1 = nm_policy m" and al: "allocation_create B m1 n = allocation_create B m n"
    by (simp_all add: same_nodes_def allocation_create_def)
  let ?s = "(m1, allocation_create B m n)"
  have st: "st_ok B ?s" using allocation_start(1)[OF laws ok1 n] by (simp add: al)
  have ord: "in_node_order m1" by (rule sorted_by_id[OF ok m1(1,5,3) pl])
  obtain v where v: "should_allocate_idle_nodes m1 n = Some v" "\<not> pl_alloc_idle_first (nm_policy m) \<longrightarrow> v = 0"
    using should_idle_result[OF ok1, of n] pl by auto
  show ?thesis
  proof (cases "v = 0")
    case True
    then show ?thesis using m1(1,2) v st ord whole_empty al by auto
  next
    case False
    from alloc_idle_result[OF laws st] mem m1(4) obtain k s X where
      s: "alloc_idle_nodes B ?s = Some (k, s)" "took B X ?s s" "st_ok B s" "nodes_of (fst s) = nodes_of m1" "whole B X m1"
      by auto
    have "same_nodes B m1 (fst s)" using s(2) by (simp add: took_def)
    then have "in_node_order (fst s)"
      using ord unfolding in_node_order_def s(4) same_nodes_def node_before_def
      by (elim sorted_wrt_mono_rel[rotated]) (simp split: if_splits)
    moreover have "whole B X m" using whole_Un[OF whole_empty s(5) sn] by simp
    moreover have "took B X (m, allocation_create B m n) s" using took_trans[OF m1(2) s(2)] by simp
    moreover have "(if v \<noteq> 0 then map_option snd (alloc_idle_nodes B (m1, allocation_create B m1 n))
        else Some (m1, allocation_create B m1 n)) = Some s"
      using False s(1) al by simp
    moreover have "\<not> pl_alloc_idle_first (nm_policy m) \<longrightarrow> X = {}" using v(2) False by blast
    ultimately show ?thesis using m1(1) v(1) s(3) by blast
  qed
qed

lemma allocate_result:
  assumes laws: "bitmask_laws B" and ok: "nodemap_ok B m"
    and n: "0 \<le> n" "n \<le> nm_navail m" "n \<le> int (card (free_cpus B m))"
    and pl: "has_policy (nm_policy m)" and mem: "0 < fl_cap (l_ifree (nm_nodelist m))"
  shows "\<exists>b m' a a' X Y. nodemap_allocate B m n = Some (Some b, m') \<and> bits B b = X \<union> Y \<and>
    took B (X \<union> Y) (m, a) (m', a') \<and> int (card (X \<union> Y)) = n \<and> whole B X m \<and>
    (\<not> pl_alloc_idle_first (nm_policy m) \<longrightarrow> X = {}) \<and> X \<inter> Y = {} \<and> placed B X Y m \<and>
    bm_nbits B b = nm_ncpus m"
proof -
  let ?a = "allocation_create B m n"
  from idle_first_result[OF laws ok n(1) mem] obtain m1 v s X where
    s: "sort_nodes (if pl_reverse (nm_policy m) then node_cmp_reverse else node_cmp_nodeid) m = Some m1"
      "should_allocate_idle_nodes m1 n = Some v"
      "(if v \<noteq> 0 then map_option snd (alloc_idle_nodes B (m1, allocation_create B m1 n))
        else Some (m1, allocation_create B m1 n)) = Some s"
      "took B X (m, ?a) s" "st_ok B s" "in_node_order (fst s)" "whole B X m"
      "\<not> pl_alloc_idle_first (nm_policy m) \<longrightarrow> X = {}" by blast
  note a0 = allocation_start(2,3)[OF laws ok n(1)]
  have l: "al_nleft (snd s) = n - int (card X)" "X \<subseteq> free_cpus B m" "nm_policy (fst s) = nm_policy m"
    using s(4) a0(2) by (auto simp: took_def same_nodes_def)
  have fr: "free_cpus B (fst s) = free_cpus B m - X" using took_free[OF s(4)] by simp
  have "int (card (free_cpus B (fst s))) = int (card (free_cpus B m)) - int (card X)"
    unfolding fr using l(2) took_finite[OF s(4)] card_mono[OF finite_free l(2)] by (simp add: card_Diff_subset)
  then have room: "al_nleft (snd s) \<le> int (card (free_cpus B (fst s)))" using l(1) n(3) by simp
  have pl': "has_policy (nm_policy (fst s))" using pl l(3) by simp
  obtain s' Y where y: "(if al_nleft (snd s) > 0 then allocate_by_policy B s else Some s) = Some s'"
    "took B Y s s'" "int (card Y) = al_nleft (snd s)" "chosen B Y (fst s) (fst s')"
  proof (cases "al_nleft (snd s) > 0")
    case True
    then show thesis using that policy_result[OF laws s(5) room pl' s(6)] by auto
  next
    case False
    have "nodemap_ok B (fst s)" "al_nleft (snd s) = 0" using s(5) False by (simp_all add: st_ok_def)
    moreover have "chosen B {} (fst s) (fst s)" by (auto simp: chosen_def)
    ultimately show thesis using that[of s "{}"] took_none[of B s] by simp
  qed
  note t = took_trans[OF s(4) y(2)]
  have disj: "X \<inter> Y = {}" using y(2) fr by (auto simp: took_def)
  have "nodemap_allocate B m n = Some (Some (al_allocated_cpus (snd s')), fst s')"
    using n(2) s(1-3) y(1) by (simp add: nodemap_allocate_def case_prod_beta)
  moreover have "bits B (al_allocated_cpus (snd s')) = X \<union> Y" using t a0(1) by (simp add: took_def)
  moreover have "int (card (X \<union> Y)) = n"
    using disj took_finite[OF s(4)] took_finite[OF y(2)] y(3) l(1) by (simp add: card_Un_disjoint)
  moreover have "placed B X Y m" using chosen_placed[OF s(4) y(2) _ y(4)] ok by simp
  moreover have "took B (X \<union> Y) (m, ?a) (fst s', snd s')" using t by simp
  moreover have "bm_nbits B (al_allocated_cpus (snd s')) = nm_ncpus m"
    using t allocation_start(1)[OF laws ok n(1)] by (simp add: took_def st_ok_def)
  ultimately show ?thesis using disj s(7,8) by blast
qed

section \<open>A machine for the witnesses\<close>

text \<open>Masks as lists of bits.\<close>

definition list_bitmask :: "bool list bitmask_ops" where
  "list_bitmask =
    \<lparr>bm_alloc = (\<lambda>n. replicate (nat n) False), bm_nbits = (\<lambda>b. int (length b)),
     bm_setbit = (\<lambda>b i. if 0 \<le> i then b[nat i := True] else b),
     bm_isbitset = (\<lambda>b i. 0 \<le> i \<and> i < int (length b) \<and> b ! nat i),
     bm_weight = (\<lambda>b. int (length (filter (\<lambda>x. x) b))),
     bm_first = (\<lambda>b. int (length (takeWhile (\<lambda>x. \<not> x) b))),
     bm_copy = (\<lambda>d s. map (\<lambda>k. k < length s \<and> s ! k) [0 ..< length d]),
     bm_complement = map Not, bm_or = map2 (\<or>)\<rparr>"

lemma list_bitmask_bits: "bits list_bitmask b = {i. 0 \<le> i \<and> i < int (length b) \<and> b ! nat i}"
  by (simp add: bits_def list_bitmask_def)

lemma bits_image: "{i. 0 \<le> i \<and> i < int (length b) \<and> b ! nat i} = int ` {k. k < length b \<and> b ! k}"
proof -
  have "i \<in> int ` {k. k < length b \<and> b ! k}" if "0 \<le> i" "i < int (length b)" "b ! nat i" for i
    using that by (intro image_eqI[of _ _ "nat i"]) auto
  then show ?thesis by auto
qed

lemma first_true:
  assumes "k < length b" "b ! k"
  shows "length (takeWhile (\<lambda>x. \<not> x) b) \<le> k" "length (takeWhile (\<lambda>x. \<not> x) b) < length b"
    "b ! length (takeWhile (\<lambda>x. \<not> x) b)"
proof -
  show l: "length (takeWhile (\<lambda>x. \<not> x) b) \<le> k"
  proof (rule ccontr)
    assume "\<not> ?thesis"
    then have k: "k < length (takeWhile (\<lambda>x. \<not> x) b)" by simp
    then have "takeWhile (\<lambda>x. \<not> x) b ! k \<in> set (takeWhile (\<lambda>x. \<not> x) b)" by (rule nth_mem)
    then have "\<not> takeWhile (\<lambda>x. \<not> x) b ! k" by (auto dest: set_takeWhileD)
    then show False using assms(2) takeWhile_nth[OF k] by simp
  qed
  then show "length (takeWhile (\<lambda>x. \<not> x) b) < length b" using assms(1) by simp
  then show "b ! length (takeWhile (\<lambda>x. \<not> x) b)" using nth_length_takeWhile by fastforce
qed

lemma list_bitmask_laws: "bitmask_laws list_bitmask"
  unfolding bitmask_laws_def
proof (intro conjI allI impI ballI)
  let ?B = list_bitmask
  fix n i :: int and a b d s :: "bool list"
  show "bits ?B (bm_alloc ?B n) = {}" by (auto simp: bits_def list_bitmask_def)
  show "0 \<le> n \<Longrightarrow> bm_nbits ?B (bm_alloc ?B n) = n" by (simp add: list_bitmask_def)
  show "bits ?B b \<subseteq> {0 ..< bm_nbits ?B b}" by (auto simp: list_bitmask_bits) (simp add: list_bitmask_def)
  show "0 \<le> i \<and> i < bm_nbits ?B b \<Longrightarrow> bits ?B (bm_setbit ?B b i) = insert i (bits ?B b)"
    by (auto simp: bits_def list_bitmask_def nth_list_update split: if_splits)
  show "bm_nbits ?B (bm_setbit ?B b i) = bm_nbits ?B b" by (simp add: list_bitmask_def)
  show "bm_weight ?B b = int (card (bits ?B b))"
  proof -
    have "card (bits ?B b) = card {k. k < length b \<and> b ! k}"
      unfolding list_bitmask_bits bits_image by (rule card_image) simp
    then show ?thesis by (simp add: list_bitmask_def length_filter_conv_card)
  qed
  show "bits ?B (bm_copy ?B d s) = bits ?B s \<inter> {0 ..< bm_nbits ?B d}" "bm_nbits ?B (bm_copy ?B d s) = bm_nbits ?B d"
    by (auto simp: bits_def list_bitmask_def nat_less_iff)
  show "bits ?B (bm_complement ?B b) = {0 ..< bm_nbits ?B b} - bits ?B b"
    "bm_nbits ?B (bm_complement ?B b) = bm_nbits ?B b"
    by (auto simp: bits_def list_bitmask_def)
  show "bm_nbits ?B a = bm_nbits ?B b \<Longrightarrow> bits ?B (bm_or ?B a b) = bits ?B a \<union> bits ?B b"
    "bm_nbits ?B a = bm_nbits ?B b \<Longrightarrow> bm_nbits ?B (bm_or ?B a b) = bm_nbits ?B a"
    by (auto simp: bits_def list_bitmask_def)
next
  fix b :: "bool list" and i
  assume "bits list_bitmask b \<noteq> {}"
  then obtain k where "k < length b" "b ! k" unfolding list_bitmask_bits bits_image by blast
  from first_true[OF this] show "bm_first list_bitmask b \<in> bits list_bitmask b"
    by (simp add: bits_def list_bitmask_def)
next
  fix b :: "bool list" and i
  assume "i \<in> bits list_bitmask b"
  then have "nat i < length b" "b ! nat i" "0 \<le> i" by (auto simp: list_bitmask_bits)
  from first_true(1)[OF this(1,2)] this(3) show "bm_first list_bitmask b \<le> i" by (simp add: list_bitmask_def)
qed

definition mask_of :: "nat \<Rightarrow> nat list \<Rightarrow> bool list" where
  "mask_of n xs = map (\<lambda>k. k \<in> set xs) [0 ..< n]"

text \<open>Eight CPUs on four nodes; a job of another user has the CPUs 0 and 1.\<close>

definition four_nodes :: "bool list machine" where
  "four_nodes =
    \<lparr>mc_ncpus = 8, mc_nmems = 4, mc_current = mask_of 8 [0 ..< 8],
     mc_localcpus = (\<lambda>mems. concat (map (\<lambda>b. [b, b]) mems)), mc_localmems = (\<lambda>cpus. Some (mask_of 4 [0 ..< 4])),
     mc_path = Some ''/'', mc_dir = (\<lambda>p. Some [''.'', ''100'', ''orphan:7'']),
     mc_query = (\<lambda>name. if name = ''/slurm'' then Some (Some (mask_of 8 [0 ..< 8]))
       else if name = ''/slurm/100'' then Some (Some (mask_of 8 [0, 1])) else None)\<rparr>"

lemma mask_bits: "bits list_bitmask (mask_of n xs) = int ` (set xs \<inter> {..< n})"
proof -
  have "{k. k < length (mask_of n xs) \<and> mask_of n xs ! k} = set xs \<inter> {..< n}" by (auto simp: mask_of_def)
  then show ?thesis by (simp add: list_bitmask_bits bits_image)
qed

lemma four_mems:
  assumes "i \<in> {0, 1, 2, 3}"
  shows "mem_cpus list_bitmask four_nodes i = {2 * i ..< 2 * i + 2}"
proof -
  have "mc_localcpus four_nodes (bm_setbit list_bitmask (bm_alloc list_bitmask (mc_nmems four_nodes)) i) =
      mask_of 8 [nat (2 * i), nat (2 * i) + 1]"
    using assms by (auto simp: four_nodes_def list_bitmask_def mask_of_def upt_rec eval_nat_numeral)
  moreover have "int ` (set [nat (2 * i), nat (2 * i) + 1] \<inter> {..< 8}) = {2 * i ..< 2 * i + 2}"
    using assms by auto
  ultimately show ?thesis by (simp add: mem_cpus_def mask_bits)
qed

lemma four_range: "{0 ..< 4 :: int} = {0, 1, 2, 3}" "mc_nmems four_nodes = 4" "mc_ncpus four_nodes = 8"
  by (auto simp: four_nodes_def)

lemma four_nodes_ok: "machine_ok list_bitmask four_nodes"
  unfolding machine_ok_def four_range
proof (intro conjI ballI impI)
  fix i :: int
  assume i: "i \<in> {0, 1, 2, 3}"
  show "\<exists>a k. 0 \<le> a \<and> 0 < k \<and> a + k \<le> 8 \<and> mem_cpus list_bitmask four_nodes i = {a ..< a + k}"
    unfolding four_mems[OF i] using i by (intro exI[of _ "2 * i"] exI[of _ 2]) auto
next
  fix i j :: int
  assume i: "i \<in> {0, 1, 2, 3}" and j: "j \<in> {0, 1, 2, 3}" and "i \<noteq> j"
  then show "mem_cpus list_bitmask four_nodes i \<inter> mem_cpus list_bitmask four_nodes j = {}"
    unfolding four_mems[OF i] four_mems[OF j] by auto
qed simp_all

lemma four_name: "cpuset_path_to_name ''/dev/cpuset/slurm'' = ''/slurm''"
  by code_simp

lemma four_query: "mc_query four_nodes ''/slurm'' = Some (Some (mask_of 8 [0 ..< 8]))"
  "bits list_bitmask (mask_of 8 [0 ..< 8]) = {0 ..< 8}" "mc_ncpus four_nodes = 8"
proof -
  show "mc_query four_nodes ''/slurm'' = Some (Some (mask_of 8 [0 ..< 8]))" by (simp add: four_nodes_def)
  have "set [0 ..< 8] \<inter> {..< 8} = {0 ..< 8}" by auto
  then show "bits list_bitmask (mask_of 8 [0 ..< 8]) = {0 ..< 8}"
    by (simp add: mask_bits image_int_atLeastLessThan del: set_upt)
qed (simp add: four_nodes_def)

lemma four_sets: "local_cpus list_bitmask four_nodes = {0 ..< 8}"
  "cpus_in_use list_bitmask four_nodes ''/dev/cpuset/slurm'' [''.'', ''100'', ''orphan:7''] False = {0, 1}"
  "child_cpus list_bitmask (mc_query four_nodes) ''/slurm'' [''.'', ''100'', ''orphan:7''] = {0, 1}"
proof -
  have "mem_available list_bitmask four_nodes i" if "0 \<le> i" "i < 4" for i
  proof -
    have "i = int (nat i)" "nat i \<in> set [0 ..< 4] \<inter> {..< 4}" using that by auto
    then show ?thesis by (simp add: four_nodes_def mem_available_def mask_bits del: set_upt int_nat_eq nat_0_le)
  qed
  then have "{i. 0 \<le> i \<and> i < mc_nmems four_nodes \<and> mem_available list_bitmask four_nodes i} = {0, 1, 2, 3}"
    unfolding four_range(2) by auto
  then have "local_cpus list_bitmask four_nodes = (\<Union>i\<in>{0, 1, 2, 3}. mem_cpus list_bitmask four_nodes i)"
    by (simp only: local_cpus_def)
  also have "\<dots> = {0 ..< 2} \<union> {2 ..< 4} \<union> {4 ..< 6} \<union> {6 ..< 8}" by (simp add: four_mems Un_assoc)
  also have "\<dots> = {0 ..< 8}" by (rule set_eqI, simp only: Un_iff atLeastLessThan_iff, presburger)
  finally show "local_cpus list_bitmask four_nodes = {0 ..< 8}" .
  show c: "child_cpus list_bitmask (mc_query four_nodes) ''/slurm'' [''.'', ''100'', ''orphan:7''] = {0, 1}"
    by (simp add: child_cpus_Cons child_cpus_def[of _ _ _ "[]"] four_nodes_def job_entry_def mask_bits eval_nat_numeral)
  show "cpus_in_use list_bitmask four_nodes ''/dev/cpuset/slurm'' [''.'', ''100'', ''orphan:7''] False = {0, 1}"
    unfolding cpus_in_use_def four_name c by (simp only: four_query option.case if_False) auto
qed

definition four_map :: "cpuset_conf \<Rightarrow> bool list nodemap" where
  "four_map cf = the (the (nodemap_create list_bitmask four_nodes (some_heap, some_heap, some_heap) cf None))"

lemma four_path: "current_cpuset_path four_nodes = Some ''/dev/cpuset/slurm''"
  "mc_dir four_nodes ''/dev/cpuset/slurm'' = Some [''.'', ''100'', ''orphan:7'']"
  by (simp_all add: current_cpuset_path_def four_nodes_def)

lemma four_map_facts: "nodemap_ok list_bitmask (four_map cf)" "free_cpus list_bitmask (four_map cf) = {2 ..< 8}"
  "bits list_bitmask (nm_usedcpus (four_map cf)) = {0, 1}" "nm_navail (four_map cf) = 6"
  "l_ifree (nm_nodelist (four_map cf)) = some_heap"
  "nm_policy (four_map cf) = \<lparr>pl_reverse = cf_reverse_order cf, pl_best_fit = (cf_policy cf = BEST_FIT),
      pl_first_fit = (cf_policy cf = FIRST_FIT), pl_worst_fit = (cf_policy cf = WORST_FIT),
      pl_alloc_idle_first = cf_alloc_idle_nodes cf,
      pl_alloc_idle_multiples_only = cpuset_conf_alloc_idle_multiple cf\<rparr>"
proof -
  have "0 < fl_cap some_heap" "nat (mc_nmems four_nodes) \<le> fl_cap some_heap"
    by (simp_all add: some_heap_facts four_range)
  from nodemap_create_result[OF list_bitmask_laws four_nodes_ok this some_heap_facts(2,2) four_path, of cf]
  obtain m where m: "nodemap_create list_bitmask four_nodes (some_heap, some_heap, some_heap) cf None = Some (Some m)"
    and facts: "nodemap_ok list_bitmask m" "free_cpus list_bitmask m = {0 ..< 8} - {0, 1}"
      "bits list_bitmask (nm_usedcpus m) = {0, 1}" "nm_navail m = 8 - int (card {0 :: int, 1})"
      "l_ifree (nm_nodelist m) = some_heap"
      "nm_policy m = \<lparr>pl_reverse = cf_reverse_order cf, pl_best_fit = (cf_policy cf = BEST_FIT),
        pl_first_fit = (cf_policy cf = FIRST_FIT), pl_worst_fit = (cf_policy cf = WORST_FIT),
        pl_alloc_idle_first = cf_alloc_idle_nodes cf,
        pl_alloc_idle_multiples_only = cpuset_conf_alloc_idle_multiple cf\<rparr>"
    unfolding four_sets four_range by blast
  have "four_map cf = m" by (simp add: four_map_def m)
  moreover have "{0 ..< 8} - {0, 1} = {2 ..< 8 :: int}" by auto
  ultimately
  show "nodemap_ok list_bitmask (four_map cf)" "free_cpus list_bitmask (four_map cf) = {2 ..< 8}"
    "bits list_bitmask (nm_usedcpus (four_map cf)) = {0, 1}" "nm_navail (four_map cf) = 6"
    "l_ifree (nm_nodelist (four_map cf)) = some_heap"
    "nm_policy (four_map cf) = \<lparr>pl_reverse = cf_reverse_order cf, pl_best_fit = (cf_policy cf = BEST_FIT),
      pl_first_fit = (cf_policy cf = FIRST_FIT), pl_worst_fit = (cf_policy cf = WORST_FIT),
      pl_alloc_idle_first = cf_alloc_idle_nodes cf,
      pl_alloc_idle_multiples_only = cpuset_conf_alloc_idle_multiple cf\<rparr>"
    using facts by simp_all
qed

section \<open>Properties\<close>

text \<open>
  C35: \<open>nodemap_allocate\<close> on a consistent map, for \<open>n\<close> not negative: more CPUs than \<open>navail\<close> give NULL
  and leave the map alone; otherwise, provided that the nodes of the map have \<open>n\<close> free CPUs
  (\<open>navail\<close> also counts CPUs of nodes that are not in the map), it ends under each policy with a
  mask of exactly \<open>n\<close> CPUs that were free, marks them used and leaves the map consistent.
\<close>

theorem nodemap_allocate_exact:
  assumes "bitmask_laws B" "nodemap_ok B m" "0 \<le> n" "n \<le> nm_navail m \<Longrightarrow> n \<le> int (card (free_cpus B m))"
    and "has_policy (nm_policy m)" "0 < fl_cap (l_ifree (nm_nodelist m))"
  shows "if n > nm_navail m then nodemap_allocate B m n = Some (None, m)
    else \<exists>b m'. nodemap_allocate B m n = Some (Some b, m') \<and> nodemap_ok B m' \<and>
      bits B b \<subseteq> free_cpus B m \<and> int (card (bits B b)) = n \<and>
      bits B (nodemap_used m') = bits B (nodemap_used m) \<union> bits B b \<and>
      free_cpus B m' = free_cpus B m - bits B b \<and> nm_navail m' = nm_navail m - n"
proof (cases "n > nm_navail m")
  case False
  then have n: "n \<le> nm_navail m" by simp
  from allocate_result[OF assms(1-3) n assms(4)[OF n] assms(5,6)] obtain b m' a a' X Y where
    r: "nodemap_allocate B m n = Some (Some b, m')" "bits B b = X \<union> Y" "took B (X \<union> Y) (m, a) (m', a')"
      "int (card (X \<union> Y)) = n" by blast
  have "free_cpus B m' = free_cpus B m - bits B b" using took_free[OF r(3)] r(2) by simp
  then show ?thesis using False r by (simp add: took_def nodemap_used_def)
qed (simp add: nodemap_allocate_def)

theorem nodemap_allocate_exact_witness:
  "nodemap_allocate list_bitmask (four_map cpuset_conf_create) 7 = Some (None, four_map cpuset_conf_create) \<and>
   (\<exists>b m'. nodemap_allocate list_bitmask (four_map cpuset_conf_create) 3 = Some (Some b, m') \<and>
      bits list_bitmask b \<subseteq> {2 ..< 8} \<and> card (bits list_bitmask b) = 3)"
proof -
  have "has_policy (nm_policy (four_map cpuset_conf_create))"
    "0 < fl_cap (l_ifree (nm_nodelist (four_map cpuset_conf_create)))"
    by (simp_all add: four_map_facts has_policy_def cpuset_conf_create_def some_heap_facts)
  note r = nodemap_allocate_exact[OF list_bitmask_laws four_map_facts(1) _ _ this]
  show ?thesis using r[of 7] r[of 3] by (auto simp: four_map_facts)
qed

text \<open>
  where \<open>nodemap_allocate\<close> puts the CPUs.  The part \<open>X\<close> of the mask consists of whole idle nodes
  and is empty unless idle nodes are used first.  The rest \<open>Y\<close> follows the policy: best fit uses a
  node only when every node with fewer free CPUs is full, first fit only when every node before it
  in the order of node numbers is full, and worst fit leaves no node with two free CPUs more than
  a node it took from.
\<close>

theorem nodemap_allocate_places:
  assumes "bitmask_laws B" "nodemap_ok B m" "0 \<le> n" "n \<le> nm_navail m" "n \<le> int (card (free_cpus B m))"
    and "has_policy (nm_policy m)" "0 < fl_cap (l_ifree (nm_nodelist m))"
  shows "\<exists>b m' X Y. nodemap_allocate B m n = Some (Some b, m') \<and> bits B b = X \<union> Y \<and> X \<inter> Y = {} \<and>
    whole B X m \<and> (\<not> pl_alloc_idle_first (nm_policy m) \<longrightarrow> X = {}) \<and> placed B X Y m"
  using allocate_result[OF assms] by blast

theorem nodemap_allocate_places_witness:
  "\<exists>b m'. nodemap_allocate list_bitmask
      (four_map (cpuset_conf_create\<lparr>cf_policy := FIRST_FIT, cf_alloc_idle_nodes := False\<rparr>)) 3 = Some (Some b, m') \<and>
    placed list_bitmask {} (bits list_bitmask b)
      (four_map (cpuset_conf_create\<lparr>cf_policy := FIRST_FIT, cf_alloc_idle_nodes := False\<rparr>))"
proof -
  let ?cf = "cpuset_conf_create\<lparr>cf_policy := FIRST_FIT, cf_alloc_idle_nodes := False\<rparr>"
  have p: "has_policy (nm_policy (four_map ?cf))" "0 < fl_cap (l_ifree (nm_nodelist (four_map ?cf)))"
    "\<not> pl_alloc_idle_first (nm_policy (four_map ?cf))"
    by (simp_all add: four_map_facts has_policy_def some_heap_facts)
  have "3 \<le> nm_navail (four_map ?cf)" "3 \<le> int (card (free_cpus list_bitmask (four_map ?cf)))"
    by (simp_all add: four_map_facts)
  from nodemap_allocate_places[OF list_bitmask_laws four_map_facts(1) _ this p(1,2)] p(3) show ?thesis by auto
qed

text \<open>
  C3: the CPUs of a job are its own.  On a machine whose memory nodes have disjoint CPUs, and where
  the CPUs of each node are consecutive numbers, \<open>nodemap_create\<close> and \<open>nodemap_allocate\<close> give, when
  enough are left, exactly \<open>n\<close> CPUs of available nodes: all in the current cpuset, none in the
  cpuset of another job below it.
\<close>

theorem nodemap_job_cpus:
  assumes "bitmask_laws B" and topology: "topology_ok B mc" "contiguous_nodes B mc"
    and "0 < fl_cap lf" "nat (mc_nmems mc) \<le> fl_cap nf" "fl_ok {} nf" "fl_ok {} itf" "0 < fl_cap itf"
    and "current_cpuset_path mc = Some pth" "mc_dir mc pth = Some ds"
    and "mc_query mc (cpuset_path_to_name pth) = Some (Some cur)" "0 \<le> n"
    and "n \<le> int (card (local_cpus B mc - cpus_in_use B mc pth ds False))"
    and "n + int (card (cpus_in_use B mc pth ds False)) \<le> mc_ncpus mc"
  shows "\<exists>m b m'. nodemap_create B mc (lf, nf, itf) cf None = Some (Some m) \<and> nodemap_ok B m \<and>
    nodemap_allocate B m n = Some (Some b, m') \<and> nodemap_ok B m' \<and> int (card (bits B b)) = n \<and>
    bits B b \<subseteq> local_cpus B mc \<inter> bits B cur \<and>
    bits B b \<inter> child_cpus B (mc_query mc) (cpuset_path_to_name pth) ds = {}"
proof -
  have mok: "machine_ok B mc" using topology by (simp add: machine_ok_parts)
  from nodemap_create_result[OF assms(1) mok assms(4-7,9,10), of cf] obtain m where
    m: "nodemap_create B mc (lf, nf, itf) cf None = Some (Some m)" "nodemap_ok B m"
      "free_cpus B m = local_cpus B mc - cpus_in_use B mc pth ds False"
      "nm_navail m = mc_ncpus mc - int (card (cpus_in_use B mc pth ds False))"
      "nm_policy m = \<lparr>pl_reverse = cf_reverse_order cf, pl_best_fit = (cf_policy cf = BEST_FIT),
        pl_first_fit = (cf_policy cf = FIRST_FIT), pl_worst_fit = (cf_policy cf = WORST_FIT),
        pl_alloc_idle_first = cf_alloc_idle_nodes cf,
        pl_alloc_idle_multiples_only = cpuset_conf_alloc_idle_multiple cf\<rparr>"
      "l_ifree (nm_nodelist m) = itf" by blast
  have pl: "has_policy (nm_policy m)" using m(5) by (cases "cf_policy cf") (simp_all add: has_policy_def)
  have c: "n \<le> nm_navail m" "n \<le> int (card (free_cpus B m))" "0 < fl_cap (l_ifree (nm_nodelist m))"
    using assms(8,13,14) m(3,4,6) by simp_all
  from allocate_result[OF assms(1) m(2) assms(12) c(1,2) pl c(3)] obtain b m' a a' X Y where
    r: "nodemap_allocate B m n = Some (Some b, m')" "bits B b = X \<union> Y" "took B (X \<union> Y) (m, a) (m', a')"
      "int (card (X \<union> Y)) = n" by blast
  have b: "bits B b \<subseteq> free_cpus B m" "nodemap_ok B m'" using r(2,3) by (simp_all add: took_def)
  have "free_cpus B m \<subseteq> {0 ..< mc_ncpus mc}"
  proof -
    have "mem_cpus B mc i \<subseteq> {0 ..< mc_ncpus mc}" if i: "0 \<le> i" "i < mc_nmems mc" for i
    proof -
      from mok i obtain a k where "0 \<le> a" "a + k \<le> mc_ncpus mc" "mem_cpus B mc i = {a ..< a + k}"
        unfolding machine_ok_def by (meson atLeastLessThan_iff)
      then show ?thesis by auto
    qed
    then show ?thesis unfolding m(3) local_cpus_def by blast
  qed
  then have "bits B b \<subseteq> local_cpus B mc \<inter> bits B cur"
    "bits B b \<inter> child_cpus B (mc_query mc) (cpuset_path_to_name pth) ds = {}"
    using b(1) assms(11) unfolding m(3) cpus_in_use_def by auto
  then show ?thesis using m(1,2) r b(2) by (intro exI[of _ m] exI[of _ b] exI[of _ m']) simp
qed

theorem nodemap_job_cpus_witness:
  "\<exists>m b m'. nodemap_create list_bitmask four_nodes (some_heap, some_heap, some_heap) cpuset_conf_create None =
      Some (Some m) \<and> nodemap_allocate list_bitmask m 6 = Some (Some b, m') \<and> card (bits list_bitmask b) = 6 \<and>
    bits list_bitmask b \<inter> {0, 1} = {}"
proof -
  have s: "0 < fl_cap some_heap" "nat (mc_nmems four_nodes) \<le> fl_cap some_heap"
    by (simp_all add: some_heap_facts four_range)
  have q: "mc_query four_nodes (cpuset_path_to_name ''/dev/cpuset/slurm'') = Some (Some (mask_of 8 [0 ..< 8]))"
    by (simp only: four_name four_query)
  have "{0 ..< 8} - {0, 1} = {2 ..< 8 :: int}" by auto
  then have n: "6 \<le> int (card (local_cpus list_bitmask four_nodes -
      cpus_in_use list_bitmask four_nodes ''/dev/cpuset/slurm'' [''.'', ''100'', ''orphan:7''] False))"
    "6 + int (card (cpus_in_use list_bitmask four_nodes ''/dev/cpuset/slurm'' [''.'', ''100'', ''orphan:7''] False))
      \<le> mc_ncpus four_nodes"
    by (simp_all add: four_sets four_query)
  have top: "topology_ok list_bitmask four_nodes" "contiguous_nodes list_bitmask four_nodes"
    using four_nodes_ok by (simp_all add: machine_ok_parts)
  have "(0 :: int) \<le> 6" by simp
  from nodemap_job_cpus[OF list_bitmask_laws top s some_heap_facts(2,2) s(1) four_path q this n,
      of cpuset_conf_create]
  obtain m b m' where "nodemap_create list_bitmask four_nodes (some_heap, some_heap, some_heap)
        cpuset_conf_create None = Some (Some m)" "nodemap_allocate list_bitmask m 6 = Some (Some b, m')"
      "int (card (bits list_bitmask b)) = 6" "bits list_bitmask b \<inter> {0, 1} = {}"
    unfolding four_name four_sets by blast
  moreover from this(3) have "card (bits list_bitmask b) = 6" by simp
  ultimately show ?thesis by blast
qed

section \<open>Where the code surprises\<close>

text \<open>
  Four CPUs on two nodes, numbered across them: 0 and 2 on the first, 1 and 3 on the second.  The
  code takes the first node for the CPUs 0 and 1 and the second one for 1 and 2: a request of four
  CPUs is answered with three, and CPU 3 can never be had.
\<close>

definition mixed_nodes :: "bool list machine" where
  "mixed_nodes = four_nodes\<lparr>mc_ncpus := 4, mc_nmems := 2, mc_current := mask_of 4 [0 ..< 4],
     mc_localcpus := (\<lambda>m. if list_ex id (take 1 m) then mask_of 4 [0, 2] else mask_of 4 [1, 3]),
     mc_localmems := (\<lambda>c. Some (mask_of 2 [0, 1])), mc_dir := (\<lambda>p. Some []),
     mc_query := (\<lambda>n. Some (Some (mask_of 4 [0 ..< 4])))\<rparr>"

lemma mixed_nodes_short:
  "(case nodemap_create list_bitmask mixed_nodes (some_heap, some_heap, some_heap) cpuset_conf_create None of
     Some (Some m) \<Rightarrow> map_option fst (nodemap_allocate list_bitmask m 4) | _ \<Rightarrow> None) =
   Some (Some [True, True, True, False])"
  by code_simp

end
