(* ===== verification/PreserveEnv.thy ===== *)
theory PreserveEnv
  imports ListMemory CString
begin

text \<open>
  \<open>preserve-env.c\<close>: srun saves the variables \<open>SLURM_*\<close> of its environment as \<open>save_SLURM_*\<close>, and
  every task removes the ones SLURM has set and takes the saved ones back.
\<close>

section \<open>Environments\<close>

text \<open>
  An environment is the array of its entries \<open>NAME=value\<close>.  \<open>setenv\<close> (with overwriting) and
  \<open>unsetenv\<close> of the C library, for names without \<open>=\<close>.
\<close>

definition entry_name :: "string \<Rightarrow> string" where
  "entry_name e = takeWhile (\<lambda>c. c \<noteq> CHR ''='') e"

definition is_var :: "string \<Rightarrow> string \<Rightarrow> bool" where
  "is_var n e \<longleftrightarrow> CHR ''='' \<in> set e \<and> entry_name e = n"

definition env_get :: "string list \<Rightarrow> string \<Rightarrow> string option" where
  "env_get es n = map_option (\<lambda>e. drop (length n + 1) e) (List.find (is_var n) es)"

fun setenv :: "string \<Rightarrow> string \<Rightarrow> string list \<Rightarrow> string list" where
  "setenv n v [] = [n @ ''='' @ v]"
| "setenv n v (e # es) = (if is_var n e then (n @ ''='' @ v) # es else e # setenv n v es)"

definition unsetenv :: "string \<Rightarrow> string list \<Rightarrow> string list" where
  "unsetenv n es = filter (\<lambda>e. \<not> is_var n e) es"

text \<open>\<open>strncmp (s, p, strlen (p)) == 0\<close>.\<close>

definition has_prefix :: "string \<Rightarrow> string \<Rightarrow> bool" where
  "has_prefix p s \<longleftrightarrow> take (length p) s = p"

text \<open>
  The environment of a job belongs to SLURM: \<open>spank_get_item\<close> with \<open>S_JOB_ENV\<close> (\<open>None\<close> when it
  fails), \<open>spank_setenv\<close> with overwriting and \<open>spank_unsetenv\<close>.
\<close>

record 'e spank_env =
  se_env :: "'e \<Rightarrow> string list option"
  se_set :: "'e \<Rightarrow> string \<Rightarrow> string \<Rightarrow> bool \<times> 'e"
  se_unset :: "'e \<Rightarrow> string \<Rightarrow> bool \<times> 'e"

section \<open>Saving\<close>

record preserve_globals =
  pe_enabled :: bool
  pe_debug :: bool

text \<open>
  The loop of \<open>get_env_var\<close>: every \<open>=\<close> is copied as a NUL and \<open>*valp\<close> is left behind the last
  one.  The buffer is filled with NULs before, so one follows the copy.
\<close>

fun env_var_loop :: "string \<Rightarrow> string \<Rightarrow> nat option \<Rightarrow> string \<times> nat option" where
  "env_var_loop [] buf v = (buf, v)"
| "env_var_loop (c # p) buf v =
    (if c = CHR ''='' then env_var_loop p (buf @ [CHR 0x00]) (Some (length buf + 1))
     else env_var_loop p (buf @ [c]) v)"

definition get_env_var :: "string \<Rightarrow> string \<times> string option" where
  "get_env_var entry =
    (case env_var_loop entry [] None of
       (buf, v) \<Rightarrow> (let b = buf @ [CHR 0x00] in (cstr b, map_option (\<lambda>i. cstr (drop i b)) v)))"

text \<open>\<open>None\<close> when \<open>setenv\<close> would be given a NULL value; \<open>newvar\<close> has 1024 characters.\<close>

definition preserve_slurm_var :: "string \<Rightarrow> string list \<Rightarrow> (int \<times> string list) option" where
  "preserve_slurm_var entry env =
    (case get_env_var entry of
       (var, val) \<Rightarrow>
         (let newvar = ''save_'' @ var
          in if length newvar \<ge> 1023 then Some (- 1, env)
             else (case val of None \<Rightarrow> None | Some v \<Rightarrow> Some (0, setenv newvar v env))))"

text \<open>The loops that put the entries with a property on a list; the result of \<open>list_push\<close> is ignored.\<close>

fun collect :: "(string \<Rightarrow> bool) \<Rightarrow> string list \<Rightarrow> string clist \<Rightarrow> string clist" where
  "collect P [] l = l"
| "collect P (e # es) l = collect P es (if P e then snd (list_push l e) else l)"

definition preserved :: "string \<Rightarrow> bool" where
  "preserved e \<longleftrightarrow> has_prefix ''SLURM_'' e \<and> \<not> has_prefix ''SLURM_RLIMIT'' e \<and>
    \<not> has_prefix ''SLURM_UMASK'' e \<and> \<not> has_prefix ''SLURM_PRIO'' e"

partial_function (option) preserve_loop ::
    "string clist \<Rightarrow> string list \<Rightarrow> (int \<times> string clist \<times> string list) option" where
  "preserve_loop l env =
    (case list_pop l of
       (None, l1) \<Rightarrow> Some (0, l1, env)
     | (Some entry, l1) \<Rightarrow>
         (case preserve_slurm_var entry env of
            None \<Rightarrow> None
          | Some (r, env1) \<Rightarrow> if r < 0 then Some (- 1, l1, env1) else preserve_loop l1 env1))"

declare preserve_loop.simps [code]

definition preserve_slurm_env ::
    "freelist \<times> freelist \<times> freelist \<Rightarrow> string list \<Rightarrow> (int \<times> string list) option" where
  "preserve_slurm_env mem env =
    (case mem of (lf, nf, itf) \<Rightarrow>
      (case list_create False lf nf itf of
         (None, lf1) \<Rightarrow> None
       | (Some l, lf1) \<Rightarrow>
           (case preserve_loop (collect preserved env l) env of
              None \<Rightarrow> None
            | Some (r, l1, env1) \<Rightarrow>
                if r < 0 then Some (- 1, env1)
                else (case list_destroy l1 of None \<Rightarrow> None | Some l2 \<Rightarrow> Some (0, env1)))))"

text \<open>\<open>optarg && (strcmp (optarg, "verbose") || strcmp (optarg, "v"))\<close>\<close>

definition preserve_opt_process ::
    "freelist \<times> freelist \<times> freelist \<Rightarrow> string option \<Rightarrow> bool \<Rightarrow> preserve_globals \<times> string list \<Rightarrow>
     (int \<times> preserve_globals \<times> string list) option" where
  "preserve_opt_process mem optarg remote st =
    (case st of (g, env) \<Rightarrow>
      (let g1 = g\<lparr>pe_enabled := True\<rparr>;
           g2 = (case optarg of
                   None \<Rightarrow> g1
                 | Some s \<Rightarrow> if strcmp s ''verbose'' \<noteq> 0 \<or> strcmp s ''v'' \<noteq> 0 then g1\<lparr>pe_debug := True\<rparr> else g1)
       in if remote then Some (0, g2, env)
          else (case preserve_slurm_env mem env of
                  None \<Rightarrow> None
                | Some (r, env1) \<Rightarrow> Some (0, g2, env1))))"

section \<open>Restoring\<close>

definition unwanted :: "string \<Rightarrow> bool" where
  "unwanted e \<longleftrightarrow> has_prefix ''SLURM_'' e \<or> has_prefix ''MPIRUN_'' e"

definition saved :: "string \<Rightarrow> bool" where
  "saved e \<longleftrightarrow> has_prefix ''save_SLURM_'' e"

definition unset_var :: "'e spank_env \<Rightarrow> string \<Rightarrow> 'e \<Rightarrow> 'e" where
  "unset_var E entry s = snd (se_unset E s (fst (get_env_var entry)))"

text \<open>
  Without an \<open>=\<close> in the entry \<open>val\<close> has no value, or one that points into freed memory; a
  failing \<open>spank_setenv\<close> is only reported.
\<close>

definition restore_var :: "'e spank_env \<Rightarrow> string \<Rightarrow> 'e option \<Rightarrow> 'e option" where
  "restore_var E entry so =
    (case so of
       None \<Rightarrow> None
     | Some s \<Rightarrow>
         (case get_env_var entry of
            (var, None) \<Rightarrow> None
          | (var, Some val) \<Rightarrow> Some (snd (se_unset E (snd (se_set E s (drop 5 var) val)) var))))"

definition preserve_env_task_init ::
    "'e spank_env \<Rightarrow> freelist \<times> freelist \<times> freelist \<Rightarrow> preserve_globals \<Rightarrow> 'e \<Rightarrow> (int \<times> 'e) option" where
  "preserve_env_task_init E mem g s =
    (if \<not> pe_enabled g then Some (0, s)
     else (case mem of (lf, nf, itf) \<Rightarrow>
       (case list_create False lf nf itf of
          (None, lf1) \<Rightarrow> None
        | (Some l, lf1) \<Rightarrow>
            (case se_env E s of
               None \<Rightarrow> Some (- 1, s)
             | Some env \<Rightarrow>
                 (case while_pop list_pop (unset_var E) (collect unwanted env l) s of
                    None \<Rightarrow> None
                  | Some (s1, l1) \<Rightarrow>
                      (case se_env E s1 of
                         None \<Rightarrow> Some (- 1, s1)
                       | Some env1 \<Rightarrow>
                           (case while_pop list_pop (restore_var E) (collect saved env1 l1) (Some s1) of
                              Some (Some s2, l2) \<Rightarrow>
                                (case list_destroy l2 of None \<Rightarrow> None | Some l3 \<Rightarrow> Some (0, s2))
                            | _ \<Rightarrow> None)))))))"

end
