(* ===== verification/PreserveEnvProps.thy ===== *)
theory PreserveEnvProps
  imports PreserveEnv
begin

text \<open>
  Which variables a task of \<open>preserve-env.c\<close> ends up with, and that they are those of srun.
\<close>

section \<open>Entries and lookups\<close>

definition env_wf :: "string list \<Rightarrow> bool" where
  "env_wf es \<longleftrightarrow> (\<forall>e\<in>set es. CHR ''='' \<in> set e \<and> CHR 0x00 \<notin> set e)"

text \<open>What follows the last \<open>=\<close>.\<close>

definition after_eq :: "string \<Rightarrow> string" where
  "after_eq v = rev (takeWhile (\<lambda>c. c \<noteq> CHR ''='') (rev v))"

lemma after_eq_id: "CHR ''='' \<notin> set v \<Longrightarrow> after_eq v = v"
  unfolding after_eq_def by (subst takeWhile_eq_all_conv[THEN iffD2]) auto

lemma after_eq_Cons: "CHR ''='' \<in> set v \<Longrightarrow> after_eq (c # v) = after_eq v"
  unfolding after_eq_def by (simp add: takeWhile_append1)

lemma after_eq_split: "after_eq (u @ CHR ''='' # v) = after_eq v"
  by (induction u) (simp_all add: after_eq_Cons, simp add: after_eq_def takeWhile_tail)

lemma after_eq_clean: "CHR ''='' \<notin> set (after_eq v)"
  unfolding after_eq_def by (auto dest: set_takeWhileD)

lemma entry_split: "CHR ''='' \<in> set e \<Longrightarrow> e = entry_name e @ CHR ''='' # drop (length (entry_name e) + 1) e"
  unfolding entry_name_def by (induction e) auto

lemma entry_name_clean: "CHR ''='' \<notin> set (entry_name e)"
  unfolding entry_name_def by (auto dest: set_takeWhileD)

lemma entry_name_eq [simp]: "CHR ''='' \<notin> set n \<Longrightarrow> entry_name (n @ CHR ''='' # v) = n"
  unfolding entry_name_def by (induction n) auto

lemma prefix_name:
  "CHR ''='' \<notin> set p \<Longrightarrow> has_prefix p (entry_name e) = has_prefix p e"
  unfolding has_prefix_def entry_name_def
proof (induction p arbitrary: e)
  case (Cons c p)
  then show ?case by (cases e) auto
qed simp

lemma is_var_new [simp]: "CHR ''='' \<notin> set n \<Longrightarrow> is_var m (n @ CHR ''='' # v) \<longleftrightarrow> m = n"
  by (auto simp: is_var_def)

lemma is_var_unique: "is_var n e \<Longrightarrow> is_var m e \<longleftrightarrow> m = n"
  by (auto simp: is_var_def)

lemma env_get_Nil [simp]: "env_get [] n = None"
  by (simp add: env_get_def)

lemma env_get_Cons: "env_get (e # es) n = (if is_var n e then Some (drop (length n + 1) e) else env_get es n)"
  by (simp add: env_get_def)

lemma drop_name [simp]: "drop (Suc (length n)) (n @ c # v) = v"
  by simp

lemma env_get_setenv:
  "CHR ''='' \<notin> set n \<Longrightarrow> env_get (setenv n v es) m = (if m = n then Some v else env_get es m)"
proof (induction es)
  case (Cons e es)
  then show ?case by (cases "is_var n e"; cases "m = n") (simp_all add: env_get_Cons is_var_unique)
qed (auto simp: env_get_Cons)

lemma env_get_unsetenv: "env_get (unsetenv n es) m = (if m = n then None else env_get es m)"
proof (induction es)
  case (Cons e es)
  then show ?case
    by (cases "is_var n e"; cases "m = n") (simp_all add: unsetenv_def env_get_Cons is_var_unique)
qed (simp add: unsetenv_def)

lemma env_wf_setenv:
  "env_wf es \<Longrightarrow> CHR 0x00 \<notin> set n \<Longrightarrow> CHR 0x00 \<notin> set v \<Longrightarrow> env_wf (setenv n v es)"
  unfolding env_wf_def by (induction es) simp_all

lemma env_wf_unsetenv: "env_wf es \<Longrightarrow> env_wf (unsetenv n es)"
  by (auto simp: env_wf_def unsetenv_def)

lemma env_var_loop_split:
  "CHR 0x00 \<notin> set p \<Longrightarrow> env_var_loop p buf v =
    (buf @ map (\<lambda>c. if c = CHR ''='' then CHR 0x00 else c) p,
     if CHR ''='' \<in> set p then Some (length buf + length p - length (after_eq p)) else v)"
proof (induction p arbitrary: buf v)
  case (Cons c p)
  have "length (after_eq p) \<le> length p" unfolding after_eq_def by (metis length_rev length_takeWhile_le)
  moreover have "after_eq (c # p) = p" if "c = CHR ''=''" "CHR ''='' \<notin> set p"
    using that after_eq_split[of "[]" p] by (simp add: after_eq_id)
  ultimately show ?case using Cons by (auto simp: after_eq_Cons)
qed simp

lemma get_env_var_eq:
  assumes "CHR ''='' \<in> set e" "CHR 0x00 \<notin> set e"
  shows "get_env_var e = (entry_name e, Some (after_eq e))"
proof -
  let ?f = "\<lambda>c. if c = CHR ''='' then CHR 0x00 else c"
  have 1: "cstr (map ?f e @ [CHR 0x00]) = entry_name e"
    using assms(2) unfolding cstr_def entry_name_def by (induction e) auto
  have le: "length (after_eq e) \<le> length e"
    unfolding after_eq_def by (metis length_rev length_takeWhile_le)
  have "rev (take (length (after_eq e)) (rev e)) = after_eq e"
    unfolding after_eq_def by (simp flip: takeWhile_eq_take)
  then have drop: "drop (length e - length (after_eq e)) e = after_eq e" by (simp add: take_rev)
  have clean: "map ?f (after_eq e) = after_eq e" "CHR 0x00 \<notin> set (after_eq e)"
  proof -
    show "map ?f (after_eq e) = after_eq e" using after_eq_clean[of e] by (intro map_idI) auto
    show "CHR 0x00 \<notin> set (after_eq e)" using assms(2) by (auto simp: after_eq_def dest: set_takeWhileD)
  qed
  have "drop (length e - length (after_eq e)) (map ?f e @ [CHR 0x00]) = after_eq e @ [CHR 0x00]"
    using le by (simp add: drop_map drop clean(1))
  moreover have "cstr (after_eq e @ [CHR 0x00]) = after_eq e"
    using clean(2) by (intro cstr_take) simp_all
  ultimately show ?thesis using assms 1 by (simp add: get_env_var_def env_var_loop_split Let_def)
qed

section \<open>The lists of entries\<close>

lemma collect_view:
  "list_ok l \<Longrightarrow> length (filter P es) \<le> fl_cap (l_nfree l) \<Longrightarrow>
   list_ok (collect P es l) \<and> list_data (collect P es l) = rev (filter P es) @ list_data l \<and>
   fl_cap (l_nfree (collect P es l)) = fl_cap (l_nfree l) - length (filter P es)"
proof (induction es arbitrary: l)
  case (Cons e es)
  show ?case
  proof (cases "P e")
    case True
    then have c: "0 < fl_cap (l_nfree l)" using Cons.prems(2) by simp
    from push_cap[OF c, of e] obtain l1 where
      l1: "list_push l e = (Some e, l1)" "fl_cap (l_nfree l1) = fl_cap (l_nfree l) - 1" by blast
    note v = list_push_data[OF Cons.prems(1) l1(1)]
    have "length (filter P es) \<le> fl_cap (l_nfree l1)" using Cons.prems(2) True l1(2) by simp
    from Cons.IH[OF v(1) this] v(3) show ?thesis using True l1 by simp
  qed (use Cons in simp)
qed simp

section \<open>Restoring\<close>

definition name_ok :: "string \<Rightarrow> bool" where
  "name_ok n \<longleftrightarrow> n \<noteq> [] \<and> CHR ''='' \<notin> set n \<and> CHR 0x00 \<notin> set n"

text \<open>What \<open>spank.h\<close> documents: setting and unsetting change the one variable and nothing else.\<close>

definition spank_env_laws :: "'e spank_env \<Rightarrow> bool" where
  "spank_env_laws E \<longleftrightarrow>
    (\<forall>s es n. se_env E s = Some es \<and> env_wf es \<and> name_ok n \<longrightarrow>
      (\<forall>v. CHR 0x00 \<notin> set v \<longrightarrow> (\<exists>es'. se_env E (snd (se_set E s n v)) = Some es' \<and> env_wf es' \<and>
         (\<forall>m. env_get es' m = (if m = n then Some v else env_get es m)))) \<and>
      (\<exists>es'. se_env E (snd (se_unset E s n)) = Some es' \<and> env_wf es' \<and> length es' \<le> length es \<and>
         (\<forall>m. env_get es' m = (if m = n then None else env_get es m))))"

lemma spank_set:
  assumes "spank_env_laws E" "se_env E s = Some es" "env_wf es" "name_ok n" "CHR 0x00 \<notin> set v"
  obtains es' where "se_env E (snd (se_set E s n v)) = Some es'" "env_wf es'"
    "\<And>m. env_get es' m = (if m = n then Some v else env_get es m)"
  using assms unfolding spank_env_laws_def by blast

lemma spank_unset:
  assumes "spank_env_laws E" "se_env E s = Some es" "env_wf es" "name_ok n"
  obtains es' where "se_env E (snd (se_unset E s n)) = Some es'" "env_wf es'" "length es' \<le> length es"
    "\<And>m. env_get es' m = (if m = n then None else env_get es m)"
  using assms unfolding spank_env_laws_def by blast

lemma prefix_ne: "has_prefix p s \<Longrightarrow> p \<noteq> [] \<Longrightarrow> s \<noteq> []"
  by (auto simp: has_prefix_def)

lemma entry_ok:
  assumes "CHR ''='' \<in> set e" "CHR 0x00 \<notin> set e" "has_prefix p e" "p \<noteq> []" "CHR ''='' \<notin> set p"
  shows "name_ok (entry_name e)" "CHR 0x00 \<notin> set (after_eq e)" "get_env_var e = (entry_name e, Some (after_eq e))"
    "has_prefix p (entry_name e)"
proof -
  show h: "has_prefix p (entry_name e)" using prefix_name[OF assms(5)] assms(3) by simp
  show "name_ok (entry_name e)" using prefix_ne[OF h assms(4)] assms(2) entry_name_clean[of e]
    by (auto simp: name_ok_def entry_name_def dest: set_takeWhileD)
  show "CHR 0x00 \<notin> set (after_eq e)" using assms(2) by (auto simp: after_eq_def dest: set_takeWhileD)
  show "get_env_var e = (entry_name e, Some (after_eq e))" by (rule get_env_var_eq[OF assms(1,2)])
qed

lemma fold_unset:
  assumes laws: "spank_env_laws E" and "se_env E s = Some es" "env_wf es"
    and "\<forall>e\<in>set xs. CHR ''='' \<in> set e \<and> CHR 0x00 \<notin> set e \<and> unwanted e"
  shows "\<exists>es'. se_env E (fold (unset_var E) xs s) = Some es' \<and> env_wf es' \<and> length es' \<le> length es \<and>
    (\<forall>m. env_get es' m = (if \<exists>e\<in>set xs. is_var m e then None else env_get es m))"
  using assms(2-)
proof (induction xs arbitrary: s es)
  case (Cons x xs)
  have x: "CHR ''='' \<in> set x" "CHR 0x00 \<notin> set x" "unwanted x" using Cons.prems(3) by simp_all
  have n: "name_ok (entry_name x)" "get_env_var x = (entry_name x, Some (after_eq x))"
    using x(3) entry_ok(1,3)[OF x(1,2), of "''SLURM_''"] entry_ok(1,3)[OF x(1,2), of "''MPIRUN_''"]
    by (auto simp: unwanted_def)
  from spank_unset[OF laws Cons.prems(1,2) n(1)] obtain es1 where
    e1: "se_env E (unset_var E x s) = Some es1" "env_wf es1" "length es1 \<le> length es"
      "\<And>m. env_get es1 m = (if m = entry_name x then None else env_get es m)"
    unfolding unset_var_def n(2) by auto
  from Cons.IH[OF e1(1,2)] Cons.prems(3) obtain es' where
    e2: "se_env E (fold (unset_var E) xs (unset_var E x s)) = Some es'" "env_wf es'" "length es' \<le> length es1"
      "\<And>m. env_get es' m = (if \<exists>e\<in>set xs. is_var m e then None else env_get es1 m)" by auto
  have "env_get es' m = (if \<exists>e\<in>set (x # xs). is_var m e then None else env_get es m)" for m
    using x(1) by (simp add: e2(4) e1(4)) (auto simp: is_var_def)
  then show ?case using e1(3) e2(1-3) by (intro exI[of _ es']) simp
qed simp

lemma saved_name:
  assumes "has_prefix ''save_SLURM_'' n"
  obtains w where "n = ''save_'' @ w" "has_prefix ''SLURM_'' w"
proof -
  from assms obtain t where "n = ''save_SLURM_'' @ t" unfolding has_prefix_def by (metis append_take_drop_id)
  then show thesis by (intro that[of "''SLURM_'' @ t"]) (simp_all add: has_prefix_def)
qed

lemma fold_restore:
  assumes laws: "spank_env_laws E" and "se_env E s = Some es" "env_wf es"
    and "\<forall>e\<in>set xs. CHR ''='' \<in> set e \<and> CHR 0x00 \<notin> set e \<and> saved e"
  shows "\<exists>s' es'. fold (restore_var E) xs (Some s) = Some s' \<and> se_env E s' = Some es' \<and> env_wf es' \<and>
    (\<forall>m. env_get es' m =
      (if \<exists>e\<in>set xs. is_var m e then None
       else case List.find (is_var (''save_'' @ m)) (rev xs) of Some e \<Rightarrow> Some (after_eq e) | None \<Rightarrow> env_get es m))"
  using assms(4)
proof (induction xs rule: rev_induct)
  case (snoc x xs)
  then obtain s1 es1 where e1: "fold (restore_var E) xs (Some s) = Some s1" "se_env E s1 = Some es1" "env_wf es1"
    "\<And>m. env_get es1 m =
      (if \<exists>e\<in>set xs. is_var m e then None
       else case List.find (is_var (''save_'' @ m)) (rev xs) of Some e \<Rightarrow> Some (after_eq e) | None \<Rightarrow> env_get es m)"
    by auto
  have x: "CHR ''='' \<in> set x" "CHR 0x00 \<notin> set x" "has_prefix ''save_SLURM_'' x"
    using snoc.prems by (simp_all add: saved_def)
  have n: "name_ok (entry_name x)" "CHR 0x00 \<notin> set (after_eq x)" "get_env_var x = (entry_name x, Some (after_eq x))"
    "has_prefix ''save_SLURM_'' (entry_name x)"
    by (rule entry_ok[OF x]; simp)+
  obtain w where w: "entry_name x = ''save_'' @ w" "has_prefix ''SLURM_'' w" by (rule saved_name[OF n(4)])
  have wn: "name_ok w" using n(1) w prefix_ne[OF w(2)] by (simp add: name_ok_def)
  from spank_set[OF laws e1(2,3) wn n(2)] obtain es2 where e2:
    "se_env E (snd (se_set E s1 w (after_eq x))) = Some es2" "env_wf es2"
    "\<And>m. env_get es2 m = (if m = w then Some (after_eq x) else env_get es1 m)" by blast
  from spank_unset[OF laws e2(1,2) n(1)] obtain es3 where e3:
    "se_env E (snd (se_unset E (snd (se_set E s1 w (after_eq x))) (entry_name x))) = Some es3" "env_wf es3"
    "\<And>m. env_get es3 m = (if m = entry_name x then None else env_get es2 m)" by blast
  have r: "fold (restore_var E) (xs @ [x]) (Some s) =
      Some (snd (se_unset E (snd (se_set E s1 w (after_eq x))) (entry_name x)))"
    by (simp add: e1(1) restore_var_def n(3) w(1))
  have v: "is_var m x \<longleftrightarrow> m = ''save_'' @ w" "is_var (''save_'' @ m) x \<longleftrightarrow> m = w" for m
    using x(1) w(1) by (auto simp: is_var_def)
  have nw: "\<not> is_var w e" if "e \<in> set xs" for e
  proof
    assume "is_var w e"
    moreover have "has_prefix ''save_SLURM_'' (entry_name e)"
      using snoc.prems that by (simp add: saved_def prefix_name)
    ultimately have "has_prefix ''save_SLURM_'' w" by (simp add: is_var_def)
    with w(2) show False by (cases w) (simp_all add: has_prefix_def)
  qed
  have "env_get es3 m =
      (if \<exists>e\<in>set (xs @ [x]). is_var m e then None
       else case List.find (is_var (''save_'' @ m)) (rev (xs @ [x])) of Some e \<Rightarrow> Some (after_eq e) | None \<Rightarrow> env_get es m)"
    for m
  proof (cases "m = ''save_'' @ w")
    case True
    then show ?thesis by (simp add: e3(3) w(1) v(1))
  next
    case False
    show ?thesis
    proof (cases "m = w")
      case True
      then show ?thesis using False nw by (auto simp: e3(3) e2(3) w(1) v)
    next
      case m: False
      then show ?thesis using False by (simp add: e3(3) e2(3) e1(4) w(1) v)
    qed
  qed
  then show ?case using r e3(1,2) by blast
qed (use assms in auto)

section \<open>Saving\<close>

lemma find_var:
  "map_option after_eq (List.find (is_var n) es) = map_option after_eq (env_get es n)"
proof (cases "List.find (is_var n) es")
  case (Some e)
  then have "is_var n e" by (auto simp: find_Some_iff)
  then have "after_eq e = after_eq (drop (length n + 1) e)"
    using entry_split[of e] after_eq_split by (metis is_var_def)
  then show ?thesis using Some by (simp add: env_get_def)
qed (simp add: env_get_def)

lemma preserve_loop_fold:
  "list_ok l \<Longrightarrow> \<forall>e\<in>set (list_data l). CHR ''='' \<in> set e \<and> CHR 0x00 \<notin> set e \<and> length (entry_name e) < 1018 \<Longrightarrow>
   \<exists>l'. preserve_loop l env =
     Some (0, l', fold (\<lambda>e. setenv (''save_'' @ entry_name e) (after_eq e)) (list_data l) env) \<and> list_ok l'"
proof (induction "list_data l" arbitrary: l env)
  case Nil
  obtain r l1 where p: "list_pop l = (r, l1)" by (cases "list_pop l") auto
  with list_pop_ok[OF Nil(2) p] Nil(1)[symmetric] show ?case by (subst preserve_loop.simps) simp
next
  case (Cons x xs)
  obtain r l1 where p: "list_pop l = (r, l1)" by (cases "list_pop l") auto
  have r: "r = Some x" "xs = list_data l1" using list_pop_ok(2,3)[OF Cons(3) p] Cons(2)[symmetric] by simp_all
  have x: "CHR ''='' \<in> set x" "CHR 0x00 \<notin> set x" "length (entry_name x) < 1018"
    using Cons.prems(2) unfolding Cons(2)[symmetric] by simp_all
  have "preserve_slurm_var x env = Some (0, setenv (''save_'' @ entry_name x) (after_eq x) env)"
    using x(3) by (simp add: preserve_slurm_var_def get_env_var_eq[OF x(1,2)])
  then have w: "preserve_loop l env = preserve_loop l1 (setenv (''save_'' @ entry_name x) (after_eq x) env)"
    using p r(1) by (subst preserve_loop.simps) simp
  have "\<forall>e\<in>set (list_data l1). CHR ''='' \<in> set e \<and> CHR 0x00 \<notin> set e \<and> length (entry_name e) < 1018"
    using Cons.prems(2) unfolding Cons(2)[symmetric] r(2)[symmetric] by simp
  from Cons(1)[OF r(2) list_pop_ok(1)[OF Cons(3) p] this] show ?case
    unfolding w Cons(2)[symmetric] using r(2) by simp
qed

lemma fold_save:
  "env_get (fold (\<lambda>e. setenv (''save_'' @ entry_name e) (after_eq e)) xs env) (''save_'' @ n) =
    (case List.find (\<lambda>e. entry_name e = n) (rev xs) of
       Some e \<Rightarrow> Some (after_eq e) | None \<Rightarrow> env_get env (''save_'' @ n))"
proof (induction xs rule: rev_induct)
  case (snoc x xs)
  have "CHR ''='' \<notin> set (''save_'' @ entry_name x)" using entry_name_clean[of x] by simp
  from env_get_setenv[OF this] snoc show ?case by simp
qed simp

lemma find_filter_imp: "(\<And>x. Q x \<Longrightarrow> x \<in> set xs \<Longrightarrow> P x) \<Longrightarrow> List.find Q (filter P xs) = List.find Q xs"
  by (induction xs) auto

lemma find_cong_on: "(\<And>x. x \<in> set xs \<Longrightarrow> P x = Q x) \<Longrightarrow> List.find P xs = List.find Q xs"
  by (induction xs) auto

lemma preserve_env_result:
  assumes "mem = (lf, nf, itf)" "0 < fl_cap lf" "fl_ok {} nf" "fl_ok {} itf" "length env \<le> fl_cap nf"
    and "env_wf env" "\<forall>e\<in>set env. length (entry_name e) < 1018"
  shows "\<exists>env'. preserve_slurm_env mem env = Some (0, env') \<and>
    (\<forall>n. preserved n \<longrightarrow> env_get env n \<noteq> None \<longrightarrow>
       env_get env' (''save_'' @ n) = map_option after_eq (env_get env n))"
proof -
  obtain l lf1 where c: "list_create False lf nf itf = (Some (l :: string clist), lf1)"
    and ok: "list_ok l" "list_data l = []" "l_nfree l = nf"
    using fresh_list[OF assms(2-4)] by metis
  have "length (filter preserved env) \<le> fl_cap (l_nfree l)"
    using assms(5) ok(3) by (simp add: le_trans[OF length_filter_le])
  from collect_view[OF ok(1) this] ok(2) have v:
    "list_ok (collect preserved env l)" "list_data (collect preserved env l) = rev (filter preserved env)" by simp_all
  have "\<forall>e\<in>set (list_data (collect preserved env l)).
      CHR ''='' \<in> set e \<and> CHR 0x00 \<notin> set e \<and> length (entry_name e) < 1018"
    using assms(6,7) unfolding v(2) env_wf_def by auto
  from preserve_loop_fold[OF v(1) this, of env] obtain l1 where
    l1: "preserve_loop (collect preserved env l) env =
        Some (0, l1, fold (\<lambda>e. setenv (''save_'' @ entry_name e) (after_eq e)) (rev (filter preserved env)) env)"
      "list_ok l1" unfolding v(2) by blast
  from list_destroy_data[OF l1(2)] obtain l2 where l2: "list_destroy l1 = Some l2" by blast
  have "env_get (fold (\<lambda>e. setenv (''save_'' @ entry_name e) (after_eq e)) (rev (filter preserved env)) env) (''save_'' @ n) =
      map_option after_eq (env_get env n)" if n: "preserved n" "env_get env n \<noteq> None" for n
  proof -
    have "preserved e" if "entry_name e = n" for e
      using n(1) that unfolding preserved_def that[symmetric] by (simp add: prefix_name)
    then have "List.find (\<lambda>e. entry_name e = n) (filter preserved env) = List.find (\<lambda>e. entry_name e = n) env"
      by (intro find_filter_imp) simp
    also have "\<dots> = List.find (is_var n) env"
      using assms(6) by (intro find_cong_on) (auto simp: is_var_def env_wf_def)
    finally have f: "List.find (\<lambda>e. entry_name e = n) (filter preserved env) = List.find (is_var n) env" .
    from n(2) obtain e where e: "List.find (is_var n) env = Some e" by (auto simp: env_get_def)
    have "env_get (fold (\<lambda>e. setenv (''save_'' @ entry_name e) (after_eq e)) (rev (filter preserved env)) env) (''save_'' @ n) =
        map_option after_eq (List.find (is_var n) env)"
      unfolding fold_save rev_rev_ident f by (simp add: e)
    then show ?thesis by (simp only: find_var)
  qed
  then show ?thesis using assms(1) c l1(1) l2 by (simp add: preserve_slurm_env_def)
qed

section \<open>What is restored\<close>

lemma var_prefix: "is_var n e \<Longrightarrow> CHR ''='' \<notin> set p \<Longrightarrow> has_prefix p e = has_prefix p n"
  using prefix_name[of p e] by (simp add: is_var_def)

lemma env_get_None: "env_get es n = None \<longleftrightarrow> (\<forall>e\<in>set es. \<not> is_var n e)"
  by (auto simp: env_get_def find_None_iff)

lemma save_prefix: "has_prefix ''save_SLURM_'' (''save_'' @ n) = has_prefix ''SLURM_'' n"
  by (simp add: has_prefix_def)

lemma saved_var: "is_var n e \<Longrightarrow> saved e \<longleftrightarrow> has_prefix ''save_SLURM_'' n"
  by (simp add: saved_def var_prefix)

lemma unwanted_var: "is_var n e \<Longrightarrow> unwanted e \<longleftrightarrow> has_prefix ''SLURM_'' n \<or> has_prefix ''MPIRUN_'' n"
  by (simp add: unwanted_def var_prefix)

lemma restored_lookup:
  assumes "env_wf es1"
    and "\<And>n. env_get es1 n = (if \<exists>e\<in>set (rev (filter unwanted es)). is_var n e then None else env_get es n)"
  shows "(if \<exists>e\<in>set (rev (filter saved es1)). is_var n e then None
       else case List.find (is_var (''save_'' @ n)) (filter saved es1) of
              Some e \<Rightarrow> Some (after_eq e) | None \<Rightarrow> env_get es1 n) =
      (if has_prefix ''save_SLURM_'' n then None
       else if has_prefix ''SLURM_'' n then map_option after_eq (env_get es (''save_'' @ n))
       else if has_prefix ''MPIRUN_'' n then None else env_get es n)"
proof -
  have g: "env_get es1 n = (if has_prefix ''SLURM_'' n \<or> has_prefix ''MPIRUN_'' n then None else env_get es n)" for n
    using unwanted_var[of n] env_get_None[of es n] by (auto simp: assms(2))
  have s: "(\<exists>e\<in>set (rev (filter saved es1)). is_var n e) \<longleftrightarrow> has_prefix ''save_SLURM_'' n \<and> env_get es1 n \<noteq> None"
    using saved_var[of n] env_get_None[of es1 n] by auto
  have "List.find (is_var (''save_'' @ n)) (filter saved es1) = List.find (is_var (''save_'' @ n)) es1"
    if "has_prefix ''SLURM_'' n"
    by (intro find_filter_imp) (use that saved_var save_prefix in blast)
  moreover have "List.find (is_var (''save_'' @ n)) (filter saved es1) = None" if "\<not> has_prefix ''SLURM_'' n"
    unfolding find_None_iff using that saved_var[of "''save_'' @ n"] save_prefix[of n] by auto
  moreover have "env_get es1 (''save_'' @ n) = env_get es (''save_'' @ n)"
    unfolding g by (simp add: has_prefix_def)
  moreover have "\<not> has_prefix ''SLURM_'' n" if "has_prefix ''save_SLURM_'' n"
    using that by (cases n) (simp_all add: has_prefix_def)
  ultimately show ?thesis
    using find_var[of "''save_'' @ n" es1] unfolding s g
    by (cases "List.find (is_var (''save_'' @ n)) es1") auto
qed

lemma task_env_result:
  assumes "spank_env_laws E" "se_env E s = Some es" "env_wf es" "pe_enabled g"
    and "mem = (lf, nf, itf)" "0 < fl_cap lf" "fl_ok {} nf" "fl_ok {} itf" "length es \<le> fl_cap nf"
  shows "\<exists>s' es'. preserve_env_task_init E mem g s = Some (0, s') \<and> se_env E s' = Some es' \<and> env_wf es' \<and>
    (\<forall>n. env_get es' n =
      (if has_prefix ''save_SLURM_'' n then None
       else if has_prefix ''SLURM_'' n then map_option after_eq (env_get es (''save_'' @ n))
       else if has_prefix ''MPIRUN_'' n then None else env_get es n))"
proof -
  obtain l lf1 where c: "list_create False lf nf itf = (Some (l :: string clist), lf1)"
    and ok: "list_ok l" "list_data l = []" "l_nfree l = nf"
    using fresh_list[OF assms(6-8)] by metis
  have m: "length (filter unwanted es) \<le> fl_cap (l_nfree l)"
    using assms(9) ok(3) by (simp add: le_trans[OF length_filter_le])
  note v = collect_view[OF ok(1) m]
  from while_pop_cap[OF conjunct1[OF v], of "unset_var E" s] obtain l1 where
    l1: "while_pop list_pop (unset_var E) (collect unwanted es l) s =
        Some (fold (unset_var E) (rev (filter unwanted es)) s, l1)"
      "list_ok l1" "list_data l1 = []" "fl_cap (l_nfree l1) = fl_cap nf"
    using v ok(2,3) m by auto
  from fold_unset[OF assms(1-3), of "rev (filter unwanted es)"] assms(3) obtain es1 where
    e1: "se_env E (fold (unset_var E) (rev (filter unwanted es)) s) = Some es1" "env_wf es1" "length es1 \<le> length es"
      "\<And>n. env_get es1 n = (if \<exists>e\<in>set (rev (filter unwanted es)). is_var n e then None else env_get es n)"
    unfolding env_wf_def by auto
  have m1: "length (filter saved es1) \<le> fl_cap (l_nfree l1)"
    using assms(9) l1(4) e1(3) by (simp add: le_trans[OF length_filter_le])
  note v1 = collect_view[OF l1(2) m1]
  from while_pop_cap[OF conjunct1[OF v1], of "restore_var E" "Some (fold (unset_var E) (rev (filter unwanted es)) s)"]
  obtain l2 where l2: "while_pop list_pop (restore_var E) (collect saved es1 l1)
        (Some (fold (unset_var E) (rev (filter unwanted es)) s)) =
        Some (fold (restore_var E) (rev (filter saved es1)) (Some (fold (unset_var E) (rev (filter unwanted es)) s)), l2)"
      "list_ok l2" using v1 l1(3) by auto
  have "\<forall>e\<in>set (rev (filter saved es1)). CHR ''='' \<in> set e \<and> CHR 0x00 \<notin> set e \<and> saved e"
    using e1(2) by (auto simp: env_wf_def)
  from fold_restore[OF assms(1) e1(1,2) this, unfolded rev_rev_ident] obtain s2 es2 where
    e2: "fold (restore_var E) (rev (filter saved es1)) (Some (fold (unset_var E) (rev (filter unwanted es)) s)) = Some s2"
      "se_env E s2 = Some es2" "env_wf es2"
      "\<And>n. env_get es2 n = (if \<exists>e\<in>set (rev (filter saved es1)). is_var n e then None
         else case List.find (is_var (''save_'' @ n)) (filter saved es1) of
                Some e \<Rightarrow> Some (after_eq e) | None \<Rightarrow> env_get es1 n)" by blast
  from list_destroy_data[OF l2(2)] obtain l3 where l3: "list_destroy l2 = Some l3" by blast
  have "preserve_env_task_init E mem g s = Some (0, s2)"
    by (simp add: preserve_env_task_init_def assms(2,4,5) c l1(1) e1(1) l2(1) e2(1) l3)
  moreover have "env_get es2 n =
      (if has_prefix ''save_SLURM_'' n then None
       else if has_prefix ''SLURM_'' n then map_option after_eq (env_get es (''save_'' @ n))
       else if has_prefix ''MPIRUN_'' n then None else env_get es n)" for n
    unfolding e2(4) by (rule restored_lookup[OF e1(2) e1(4)])
  ultimately show ?thesis using e2(2,3) by blast
qed

section \<open>Properties\<close>

text \<open>
  the environment of a task when \<open>--preserve-slurm-env\<close> was given.  \<open>MPIRUN_*\<close> and the
  \<open>SLURM_*\<close> that were not saved are gone, \<open>SLURM_X\<close> has the value of \<open>save_SLURM_X\<close> (what
  follows its last \<open>=\<close>), no \<open>save_SLURM_*\<close> is left, and nothing else has changed.
\<close>

theorem preserve_env_task:
  assumes "spank_env_laws E" "se_env E s = Some es" "env_wf es" "pe_enabled g"
    and "mem = (lf, nf, itf)" "0 < fl_cap lf" "fl_ok {} nf" "fl_ok {} itf" "length es \<le> fl_cap nf"
  shows "\<exists>s' es'. preserve_env_task_init E mem g s = Some (0, s') \<and> se_env E s' = Some es' \<and> env_wf es' \<and>
    (\<forall>n. env_get es' n =
      (if has_prefix ''save_SLURM_'' n then None
       else if has_prefix ''SLURM_'' n then map_option after_eq (env_get es (''save_'' @ n))
       else if has_prefix ''MPIRUN_'' n then None else env_get es n))"
  by (rule task_env_result[OF assms])

definition c_env :: "string list spank_env" where
  "c_env = \<lparr>se_env = Some, se_set = (\<lambda>es n v. (True, setenv n v es)), se_unset = (\<lambda>es n. (True, unsetenv n es))\<rparr>"

lemma c_env_laws: "spank_env_laws c_env"
  by (simp add: spank_env_laws_def c_env_def name_ok_def env_wf_setenv env_wf_unsetenv env_get_setenv env_get_unsetenv)
    (simp add: unsetenv_def)

lemma prefix_eval: "has_prefix p (c # s) \<longleftrightarrow> (case p of [] \<Rightarrow> True | d # q \<Rightarrow> c = d \<and> has_prefix q s)"
  "has_prefix p [] \<longleftrightarrow> p = []"
  by (auto simp: has_prefix_def split: list.splits)

theorem preserve_env_task_witness:
  "\<exists>es'. preserve_env_task_init c_env (some_heap, some_heap, some_heap) \<lparr>pe_enabled = True, pe_debug = False\<rparr>
      [''SLURM_NNODES=1'', ''PATH=/bin'', ''save_SLURM_NNODES=4''] = Some (0, es') \<and>
    env_get es' ''SLURM_NNODES'' = Some ''4'' \<and> env_get es' ''PATH'' = Some ''/bin''"
proof -
  let ?es = "[''SLURM_NNODES=1'', ''PATH=/bin'', ''save_SLURM_NNODES=4'']"
  have es: "se_env c_env ?es = Some ?es" "env_wf ?es" "length ?es \<le> fl_cap some_heap"
    by (simp_all add: c_env_def env_wf_def some_heap_facts)
  have c: "0 < fl_cap some_heap" by (simp add: some_heap_facts)
  have en: "pe_enabled \<lparr>pe_enabled = True, pe_debug = False\<rparr>" by simp
  have l: "env_get ?es ''save_SLURM_NNODES'' = Some ''4''" "env_get ?es ''PATH'' = Some ''/bin''" by code_simp+
  from preserve_env_task[OF c_env_laws es(1,2) en refl c some_heap_facts(2,2) es(3)] obtain s' es' where
    r: "preserve_env_task_init c_env (some_heap, some_heap, some_heap) \<lparr>pe_enabled = True, pe_debug = False\<rparr> ?es =
        Some (0, s')" "se_env c_env s' = Some es'"
      "env_get es' ''SLURM_NNODES'' = map_option after_eq (env_get ?es (''save_'' @ ''SLURM_NNODES''))"
      "env_get es' ''PATH'' = env_get ?es ''PATH''"
    by (auto simp: prefix_eval)
  have "s' = es'" using r(2) by (simp add: c_env_def)
  then show ?thesis using r l by (auto simp: after_eq_def)
qed

text \<open>
  C36: a variable survives the way from srun to a task.  srun saves its environment; whatever
  SLURM then does to the environment of the job, as long as the saved variables arrive, a task has
  every \<open>SLURM_*\<close> variable srun had with its value, except for the limits, umask and priority
  (\<open>SLURM_RLIMIT_*\<close>, \<open>SLURM_UMASK\<close>, \<open>SLURM_PRIO_PROCESS\<close>), which are not saved, and for values with
  an \<open>=\<close> in them, which are cut.  Names are shorter than 1018 characters, which is what the buffers
  hold.
\<close>

theorem preserve_env_roundtrip:
  assumes "mem = (lf, nf, itf)" "0 < fl_cap lf" "fl_ok {} nf" "fl_ok {} itf" "length env \<le> fl_cap nf"
    and "env_wf env" "\<forall>e\<in>set env. length (entry_name e) < 1018" "spank_env_laws E"
  shows "\<exists>g1 env1. preserve_opt_process mem optarg False (g, env) = Some (0, g1, env1) \<and> pe_enabled g1 \<and>
    (\<forall>s es. se_env E s = Some es \<and> env_wf es \<and> length es \<le> fl_cap nf \<and>
       (\<forall>n. has_prefix ''save_SLURM_'' n \<longrightarrow> env_get es n = env_get env1 n) \<longrightarrow>
       (\<exists>s' es'. preserve_env_task_init E mem g1 s = Some (0, s') \<and> se_env E s' = Some es' \<and>
         (\<forall>n v. preserved n \<and> env_get env n = Some v \<and> CHR ''='' \<notin> set v \<longrightarrow> env_get es' n = Some v)))"
proof -
  from preserve_env_result[OF assms(1-7)] obtain env1 where
    e: "preserve_slurm_env mem env = Some (0, env1)"
      "\<And>n. preserved n \<Longrightarrow> env_get env n \<noteq> None \<Longrightarrow>
         env_get env1 (''save_'' @ n) = map_option after_eq (env_get env n)" by blast
  obtain g1 where g1: "preserve_opt_process mem optarg False (g, env) = Some (0, g1, env1)" "pe_enabled g1"
    by (cases optarg) (auto simp: preserve_opt_process_def e(1) Let_def)
  have "\<exists>s' es'. preserve_env_task_init E mem g1 s = Some (0, s') \<and> se_env E s' = Some es' \<and>
      (\<forall>n v. preserved n \<and> env_get env n = Some v \<and> CHR ''='' \<notin> set v \<longrightarrow> env_get es' n = Some v)"
    if s: "se_env E s = Some es" "env_wf es" "length es \<le> fl_cap nf"
      "\<And>n. has_prefix ''save_SLURM_'' n \<Longrightarrow> env_get es n = env_get env1 n" for s es
  proof -
    from task_env_result[OF assms(8) s(1,2) g1(2) assms(1-4) s(3)] obtain s' es' where
      t: "preserve_env_task_init E mem g1 s = Some (0, s')" "se_env E s' = Some es'"
        "\<And>n. env_get es' n =
          (if has_prefix ''save_SLURM_'' n then None
           else if has_prefix ''SLURM_'' n then map_option after_eq (env_get es (''save_'' @ n))
           else if has_prefix ''MPIRUN_'' n then None else env_get es n)" by blast
    have "env_get es' n = Some v" if n: "preserved n" "env_get env n = Some v" "CHR ''='' \<notin> set v" for n v
    proof -
      have p: "has_prefix ''SLURM_'' n" "\<not> has_prefix ''save_SLURM_'' n"
        using n(1) by (cases n; simp add: preserved_def prefix_eval)+
      then have "env_get es' n = map_option after_eq (env_get env1 (''save_'' @ n))"
        unfolding t(3) using s(4) save_prefix by presburger
      also have "\<dots> = Some v" using e(2)[OF n(1)] n(2) after_eq_id[OF n(3)] by simp
      finally show ?thesis .
    qed
    then show ?thesis using t(1,2) by blast
  qed
  then show ?thesis using g1 by blast
qed

theorem preserve_env_roundtrip_witness:
  "\<exists>g1 env1 es'. preserve_opt_process (some_heap, some_heap, some_heap) None False
      (\<lparr>pe_enabled = False, pe_debug = False\<rparr>, [''PATH=/bin'', ''SLURM_NNODES=4'']) = Some (0, g1, env1) \<and>
    preserve_env_task_init c_env (some_heap, some_heap, some_heap) g1
      [''SLURM_NNODES=1'', ''save_SLURM_NNODES=4''] = Some (0, es') \<and>
    env_get es' ''SLURM_NNODES'' = Some ''4''"
proof -
  let ?env = "[''PATH=/bin'', ''SLURM_NNODES=4'']" and ?es = "[''SLURM_NNODES=1'', ''save_SLURM_NNODES=4'']"
  let ?mem = "(some_heap, some_heap, some_heap)" and ?g = "\<lparr>pe_enabled = False, pe_debug = False\<rparr>"
  have e: "0 < fl_cap some_heap" "length ?env \<le> fl_cap some_heap" "env_wf ?env"
    "\<forall>e\<in>set ?env. length (entry_name e) < 1018"
    by (simp_all add: some_heap_facts env_wf_def entry_name_def)
  have s: "se_env c_env ?es = Some ?es" "env_wf ?es" "length ?es \<le> fl_cap some_heap"
    by (simp_all add: c_env_def env_wf_def some_heap_facts)
  from preserve_env_roundtrip[OF refl e(1) some_heap_facts(2,2) e(2-4) c_env_laws, of None ?g] obtain g1 env1 where
    g1: "preserve_opt_process ?mem None False (?g, ?env) = Some (0, g1, env1)"
    and r: "\<And>s es. se_env c_env s = Some es \<Longrightarrow> env_wf es \<Longrightarrow> length es \<le> fl_cap some_heap \<Longrightarrow>
       (\<And>n. has_prefix ''save_SLURM_'' n \<Longrightarrow> env_get es n = env_get env1 n) \<Longrightarrow>
       \<exists>s' es'. preserve_env_task_init c_env ?mem g1 s = Some (0, s') \<and> se_env c_env s' = Some es' \<and>
         (\<forall>n v. preserved n \<and> env_get ?env n = Some v \<and> CHR ''='' \<notin> set v \<longrightarrow> env_get es' n = Some v)"
    by blast
  have "preserve_opt_process ?mem None False (?g, ?env) =
      Some (0, \<lparr>pe_enabled = True, pe_debug = False\<rparr>, [''PATH=/bin'', ''SLURM_NNODES=4'', ''save_SLURM_NNODES=4''])"
    by code_simp
  then have env1: "env1 = [''PATH=/bin'', ''SLURM_NNODES=4'', ''save_SLURM_NNODES=4'']" using g1 by simp
  have "env_get ?es n = env_get env1 n" if "has_prefix ''save_SLURM_'' n" for n
    using that unfolding env1 by (cases n) (simp_all add: env_get_Cons is_var_def entry_name_def prefix_eval)
  from r[OF s this] obtain s' es' where
    t: "preserve_env_task_init c_env ?mem g1 ?es = Some (0, s')" "se_env c_env s' = Some es'"
      "preserved ''SLURM_NNODES'' \<and> env_get ?env ''SLURM_NNODES'' = Some ''4'' \<and> CHR ''='' \<notin> set ''4'' \<Longrightarrow>
       env_get es' ''SLURM_NNODES'' = Some ''4''" by metis
  have "env_get ?env ''SLURM_NNODES'' = Some ''4''" "preserved ''SLURM_NNODES''" by code_simp+
  then have "env_get es' ''SLURM_NNODES'' = Some ''4''" using t(3) by simp
  moreover have "s' = es'" using t(2) by (simp add: c_env_def)
  ultimately show ?thesis using g1 t(1) by blast
qed

text \<open>A value is cut off at its last \<open>=\<close>.\<close>

lemma preserve_value_cut:
  "preserve_slurm_var ''SLURM_X=a=b'' [] = Some (0, [''save_SLURM_X=b''])"
  by code_simp

text \<open>Any argument of the option switches the messages on, not only \<open>verbose\<close> and \<open>v\<close>.\<close>

lemma preserve_any_argument_verbose:
  "preserve_opt_process mem (Some s) True (g, env) = Some (0, g\<lparr>pe_enabled := True, pe_debug := True\<rparr>, env)"
  by (auto simp: preserve_opt_process_def Let_def)

end
