(* ===== verification/Overcommit.thy ===== *)
theory Overcommit
  imports CString
begin

text \<open>
  The plugin \<open>overcommit-memory\<close>: the slurmstepd processes of a node share a file under
  \<open>/tmp\<close> that counts the job steps with a wish for the memory overcommit mode of the kernel
  (\<open>overcommit.c\<close>), and the option of the plugin (\<open>overcommit-memory.c\<close>).
\<close>

section \<open>The shared file\<close>

record job_info =
  ji_jobid :: int
  ji_stepid :: int
  ji_used :: int

definition no_job :: job_info where
  "no_job = \<lparr>ji_jobid = 0, ji_stepid = 0, ji_used = 0\<rparr>"

record shared_info =
  si_sem :: int
  si_value :: int
  si_prev_ratio :: int
  si_nusers :: int
  si_users :: "job_info list"

text \<open>
  A file: whether it has our user as its owner, whether a process holds its lock, whether it has
  its full size, and what the processes that map it share.  The name \<open>/tmp/spank-overcommit-memory\<close> is \<open>sy_file\<close>; a file
  whose name is gone lives on in \<open>sy_mem\<close>, as the code never shows when the last mapping goes.
  \<open>sy_proc\<close> says whether the files under \<open>/proc/sys/vm\<close> can be opened.
\<close>

record shared_file =
  sf_owned :: bool
  sf_locked :: bool
  sf_sized :: bool
  sf_info :: shared_info

record system =
  sy_file :: "nat option"
  sy_mem :: "nat \<rightharpoonup> shared_file"
  sy_next :: nat
  sy_proc :: bool
  sy_overcommit :: int
  sy_ratio :: int

record overcommit_ctx =
  oc_file :: nat
  oc_jobid :: int
  oc_stepid :: int

definition zero_info :: shared_info where
  "zero_info = \<lparr>si_sem = 0, si_value = 0, si_prev_ratio = 0, si_nusers = 0, si_users = replicate 64 no_job\<rparr>"

definition the_info :: "system \<Rightarrow> overcommit_ctx \<Rightarrow> shared_info option" where
  "the_info sy c = map_option sf_info (sy_mem sy (oc_file c))"

definition put_info :: "overcommit_ctx \<Rightarrow> shared_info \<Rightarrow> system \<Rightarrow> system" where
  "put_info c i sy =
    sy\<lparr>sy_mem := (sy_mem sy)(oc_file c := map_option (\<lambda>f. f\<lparr>sf_info := i\<rparr>) (sy_mem sy (oc_file c)))\<rparr>"

section \<open>The kernel\<close>

definition overcommit_memory_get_current_state :: "system \<Rightarrow> int" where
  "overcommit_memory_get_current_state sy = (if sy_proc sy then sy_overcommit sy else - 1)"

definition overcommit_memory_set_current_state :: "int \<Rightarrow> system \<Rightarrow> int \<times> system" where
  "overcommit_memory_set_current_state v sy =
    (if v > 2 \<or> v < 0 then (- 1, sy)
     else if \<not> sy_proc sy then (- 1, sy) else (0, sy\<lparr>sy_overcommit := v\<rparr>))"

definition overcommit_ratio_set :: "int \<Rightarrow> system \<Rightarrow> int \<times> system" where
  "overcommit_ratio_set v sy = (if \<not> sy_proc sy then (- 1, sy) else (0, sy\<lparr>sy_ratio := v\<rparr>))"

definition overcommit_ratio_get :: "system \<Rightarrow> int" where
  "overcommit_ratio_get sy = (if sy_proc sy then sy_ratio sy else - 1)"

section \<open>Job steps in the shared file\<close>

text \<open>
  The loops run to \<open>sizeof (users) / sizeof (int)\<close>, which is 192 for an array of 64: a loop that
  finds nothing reads behind the array, which is \<open>None\<close>.
\<close>

fun unregister_loop :: "overcommit_ctx \<Rightarrow> job_info list \<Rightarrow> job_info list option" where
  "unregister_loop c [] = None"
| "unregister_loop c (j # js) =
    (if ji_jobid j = oc_jobid c \<and> (oc_stepid c < 0 \<or> ji_stepid j = oc_stepid c) then Some (no_job # js)
     else map_option ((#) j) (unregister_loop c js))"

definition unregister_job :: "overcommit_ctx \<Rightarrow> shared_info \<Rightarrow> (int \<times> shared_info) option" where
  "unregister_job c i =
    map_option (\<lambda>us. (0, i\<lparr>si_users := us, si_nusers := si_nusers i - 1\<rparr>)) (unregister_loop c (si_users i))"

fun register_loop :: "overcommit_ctx \<Rightarrow> job_info list \<Rightarrow> job_info list option" where
  "register_loop c [] = None"
| "register_loop c (j # js) =
    (if ji_used j = 0 then Some (\<lparr>ji_jobid = oc_jobid c, ji_stepid = oc_stepid c, ji_used = 1\<rparr> # js)
     else map_option ((#) j) (register_loop c js))"

definition register_job :: "overcommit_ctx \<Rightarrow> shared_info \<Rightarrow> (int \<times> shared_info) option" where
  "register_job c i =
    map_option (\<lambda>us. (0, i\<lparr>si_users := us, si_nusers := si_nusers i + 1\<rparr>)) (register_loop c (si_users i))"

section \<open>Contexts\<close>

definition sem_post :: "overcommit_ctx \<Rightarrow> system \<Rightarrow> system option" where
  "sem_post c sy = map_option (\<lambda>i. put_info c (i\<lparr>si_sem := si_sem i + 1\<rparr>) sy) (the_info sy c)"

text \<open>\<open>None\<close> when \<open>sem_wait\<close> would block.\<close>

definition sem_wait :: "overcommit_ctx \<Rightarrow> system \<Rightarrow> system option" where
  "sem_wait c sy =
    (case the_info sy c of
       None \<Rightarrow> None
     | Some i \<Rightarrow> if si_sem i > 0 then Some (put_info c (i\<lparr>si_sem := si_sem i - 1\<rparr>) sy) else None)"

text \<open>
  The lock of \<open>lib/fd.c\<close>: \<open>F_SETLK\<close> does not wait, and fails while another process holds the lock.
  Releasing a lock one does not hold changes nothing.
\<close>

definition change_file :: "(shared_file \<Rightarrow> shared_file) \<Rightarrow> overcommit_ctx \<Rightarrow> system \<Rightarrow> system" where
  "change_file g c sy =
    sy\<lparr>sy_mem := (sy_mem sy)(oc_file c := map_option g (sy_mem sy (oc_file c)))\<rparr>"

definition fd_get_write_lock :: "overcommit_ctx \<Rightarrow> system \<Rightarrow> int \<times> system" where
  "fd_get_write_lock c sy =
    (case sy_mem sy (oc_file c) of
       None \<Rightarrow> (- 1, sy)
     | Some f \<Rightarrow> if sf_locked f then (- 1, sy) else (0, change_file (\<lambda>f. f\<lparr>sf_locked := True\<rparr>) c sy))"

definition fd_release_lock :: "bool \<Rightarrow> overcommit_ctx \<Rightarrow> system \<Rightarrow> system" where
  "fd_release_lock held c sy = (if held then change_file (\<lambda>f. f\<lparr>sf_locked := False\<rparr>) c sy else sy)"

text \<open>
  \<open>overcommit_shared_info_init\<close>, piece by piece.  A lock that is refused is only reported, and the
  code goes on without it; mapping the file is taken to succeed.
\<close>

definition overcommit_shared_file_initialized :: "shared_file \<Rightarrow> int" where
  "overcommit_shared_file_initialized f = (if \<not> sf_owned f then - 1 else if sf_sized f then 1 else 0)"

definition size_file :: "overcommit_ctx \<Rightarrow> system \<Rightarrow> system" where
  "size_file = change_file (\<lambda>f. f\<lparr>sf_sized := True\<rparr>)"

definition clear_info :: "overcommit_ctx \<Rightarrow> system \<Rightarrow> system" where
  "clear_info = change_file (\<lambda>f. f\<lparr>sf_info := zero_info\<rparr>)"

definition init_sem :: "overcommit_ctx \<Rightarrow> system \<Rightarrow> system" where
  "init_sem = change_file (\<lambda>f. f\<lparr>sf_info := (sf_info f)\<lparr>si_sem := 1\<rparr>\<rparr>)"

definition overcommit_shared_info_init :: "overcommit_ctx \<Rightarrow> system \<Rightarrow> int \<times> system" where
  "overcommit_shared_info_init c sy =
    (case fd_get_write_lock c sy of
       (r, sy1) \<Rightarrow>
        (case sy_mem sy1 (oc_file c) of
           None \<Rightarrow> (- 1, sy1)
         | Some f \<Rightarrow>
             (let initialized = overcommit_shared_file_initialized f
              in if initialized < 0 then (- 1, sy1)
                 else (0, fd_release_lock (r = 0) c
                   (if initialized = 0 then init_sem c (clear_info c (size_file c sy1)) else sy1)))))"

text \<open>
  Opening the file up to the \<open>sem_wait\<close>: \<open>O_EXCL\<close> creates it and fails when the name exists, where
  it is opened as it is.  When \<open>overcommit_shared_info_init\<close> fails, \<open>overcommit_shared_ctx_destroy\<close>
  follows the NULL pointer \<open>ctx->shared\<close>, which is \<open>None\<close>.  This is the run of a process whom no other
  one interrupts; \<open>OvercommitSteps\<close> interleaves the pieces.
\<close>

definition open_excl :: "system \<Rightarrow> (nat \<times> system) option" where
  "open_excl sy =
    (case sy_file sy of
       Some a \<Rightarrow> None
     | None \<Rightarrow>
         Some (sy_next sy,
           sy\<lparr>sy_file := Some (sy_next sy), sy_next := sy_next sy + 1,
              sy_mem := (sy_mem sy)(sy_next sy \<mapsto>
                \<lparr>sf_owned = True, sf_locked = False, sf_sized = False, sf_info = zero_info\<rparr>)\<rparr>))"

definition ctx_open :: "int \<Rightarrow> int \<Rightarrow> system \<Rightarrow> (overcommit_ctx \<times> system) option" where
  "ctx_open jobid stepid sy =
    (case (case open_excl sy of Some x \<Rightarrow> Some x | None \<Rightarrow> map_option (\<lambda>a. (a, sy)) (sy_file sy)) of
       None \<Rightarrow> None
     | Some (a, sy1) \<Rightarrow>
         (let c = \<lparr>oc_file = a, oc_jobid = jobid, oc_stepid = stepid\<rparr>
          in case overcommit_shared_info_init c sy1 of
               (r, sy2) \<Rightarrow> if r < 0 then None else Some (c, sy2)))"

definition overcommit_shared_ctx_create :: "int \<Rightarrow> int \<Rightarrow> system \<Rightarrow> (overcommit_ctx \<times> system) option" where
  "overcommit_shared_ctx_create jobid stepid sy =
    (case ctx_open jobid stepid sy of
       None \<Rightarrow> None
     | Some (c, sy1) \<Rightarrow> map_option (Pair c) (sem_wait c sy1))"

text \<open>\<open>overcommit_shared_ctx_destroy\<close>, in the two parts before and after the file has lost its name.\<close>

definition destroy_unlink :: "overcommit_ctx \<Rightarrow> system \<Rightarrow> (bool \<times> system) option" where
  "destroy_unlink c sy =
    map_option (\<lambda>i. if si_nusers i = 0 then (True, sy\<lparr>sy_file := None\<rparr>) else (False, sy)) (the_info sy c)"

definition destroy_reset :: "overcommit_ctx \<Rightarrow> bool \<Rightarrow> system \<Rightarrow> system option" where
  "destroy_reset c none sy =
    (case the_info sy c of
       None \<Rightarrow> None
     | Some i \<Rightarrow>
         sem_post c
           (if none
            then snd (overcommit_ratio_set (si_prev_ratio i)
                   (if overcommit_memory_get_current_state sy \<noteq> 0
                    then snd (overcommit_memory_set_current_state 0 sy) else sy))
            else sy))"

definition overcommit_shared_ctx_destroy :: "overcommit_ctx \<Rightarrow> system \<Rightarrow> system option" where
  "overcommit_shared_ctx_destroy c sy =
    (case destroy_unlink c sy of None \<Rightarrow> None | Some (none, sy1) \<Rightarrow> destroy_reset c none sy1)"

text \<open>The part of \<open>overcommit_shared_ctx_unregister\<close> that follows its \<open>sem_wait\<close>.\<close>

definition unregister_ctx :: "overcommit_ctx \<Rightarrow> system \<Rightarrow> system option" where
  "unregister_ctx c sy =
    (case the_info sy c of
       None \<Rightarrow> None
     | Some i \<Rightarrow> map_option (\<lambda>(r, i1). put_info c i1 sy) (unregister_job c i))"

definition overcommit_shared_ctx_unregister :: "overcommit_ctx \<Rightarrow> system \<Rightarrow> system option" where
  "overcommit_shared_ctx_unregister c sy =
    (case sem_wait c sy of
       None \<Rightarrow> None
     | Some sy1 \<Rightarrow>
         (case unregister_ctx c sy1 of None \<Rightarrow> None | Some sy2 \<Rightarrow> overcommit_shared_ctx_destroy c sy2))"

definition overcommit_in_use :: "overcommit_ctx \<Rightarrow> int \<Rightarrow> system \<Rightarrow> (int \<times> system) option" where
  "overcommit_in_use c v sy =
    (case the_info sy c of
       None \<Rightarrow> None
     | Some i \<Rightarrow>
         if si_nusers i > 0 \<and> si_value i \<noteq> v then map_option (Pair 1) (sem_post c sy)
         else (let i1 = (if si_nusers i = 0
                         then i\<lparr>si_value := v, si_prev_ratio := overcommit_ratio_get sy\<rparr> else i)
               in case register_job c i1 of
                    None \<Rightarrow> None
                  | Some (r, i2) \<Rightarrow> map_option (Pair 0) (sem_post c (put_info c i2 sy))))"

definition overcommit_shared_cleanup :: "int \<Rightarrow> int \<Rightarrow> system \<Rightarrow> (int \<times> system) option" where
  "overcommit_shared_cleanup jobid stepid sy =
    (case overcommit_shared_ctx_create jobid stepid sy of
       None \<Rightarrow> None
     | Some (c, sy1) \<Rightarrow>
         (case the_info sy1 c of
            None \<Rightarrow> None
          | Some i \<Rightarrow>
              (case unregister_job c i of
                 None \<Rightarrow> None
               | Some (r, i1) \<Rightarrow>
                   map_option (Pair r) (overcommit_shared_ctx_destroy c (put_info c i1 sy1)))))"

text \<open>The call that would set the ratio to 50 comes after the \<open>return\<close>.\<close>

definition overcommit_force_cleanup :: "system \<Rightarrow> int \<times> system" where
  "overcommit_force_cleanup sy =
    (let sy1 = sy\<lparr>sy_file := None\<rparr>
     in if overcommit_memory_get_current_state sy1 \<noteq> 0 then overcommit_memory_set_current_state 0 sy1
        else (0, sy1))"

section \<open>The plugin\<close>

text \<open>\<open>og_ctx\<close> keeps its value when the context it points to is freed, which \<open>og_freed\<close> records.\<close>

record overcommit_globals =
  og_jobid :: int
  og_stepid :: int
  og_ratio :: int
  og_ctx :: "overcommit_ctx option"
  og_freed :: bool

text \<open>What the plugin does once it may: errors are only reported.\<close>

definition apply_policy :: "int \<Rightarrow> int \<Rightarrow> system \<Rightarrow> system" where
  "apply_policy ratio v sy =
    (case overcommit_memory_set_current_state v sy of
       (r, sy1) \<Rightarrow> if r < 0 then sy1 else snd (overcommit_ratio_set ratio sy1))"

definition set_overcommit_policy ::
    "int \<Rightarrow> overcommit_globals \<times> system \<Rightarrow> (int \<times> overcommit_globals \<times> system) option" where
  "set_overcommit_policy v st =
    (case st of (g, sy) \<Rightarrow>
      (case overcommit_shared_ctx_create (og_jobid g) (og_stepid g) sy of
         None \<Rightarrow> None
       | Some (c, sy1) \<Rightarrow>
           (case overcommit_in_use c v sy1 of
              None \<Rightarrow> None
            | Some (used, sy2) \<Rightarrow>
                if used \<noteq> 0
                then map_option (\<lambda>sy3. (0, g\<lparr>og_ctx := Some c, og_freed := True\<rparr>, sy3))
                       (overcommit_shared_ctx_destroy c sy2)
                else Some (0, g\<lparr>og_ctx := Some c, og_freed := False\<rparr>, apply_policy (og_ratio g) v sy2))))"

definition overcommit_mode :: "string \<Rightarrow> int option" where
  "overcommit_mode arg =
    (if arg \<in> {''off'', ''no'', ''never'', ''2''} then Some 2
     else if arg \<in> {''always'', ''1''} then Some 1
     else if arg \<in> {''on'', ''yes'', ''0''} then Some 0 else None)"

text \<open>In srun only the flag \<open>SPANK_OVERCOMMIT_MEMORY_FLAG\<close> is set in the environment.\<close>

definition overcommit_opt_process ::
    "string \<Rightarrow> bool \<Rightarrow> bool \<Rightarrow> overcommit_globals \<times> system \<Rightarrow>
     (int \<times> bool \<times> overcommit_globals \<times> system) option" where
  "overcommit_opt_process arg remote flag st =
    (case overcommit_mode arg of
       None \<Rightarrow> Some (- 1, flag, st)
     | Some m \<Rightarrow>
         if \<not> remote then Some (0, True, st)
         else map_option (\<lambda>(r, st1). (if r < 0 then - 1 else 0, flag, st1)) (set_overcommit_policy m st))"

text \<open>
  \<open>check_env\<close> sees whether the flag is set and the value of \<open>SLURM_OVERCOMMIT_MEMORY\<close>, if there is one
  of at most 63 characters.
\<close>

definition check_env ::
    "string option \<Rightarrow> bool \<Rightarrow> bool \<Rightarrow> overcommit_globals \<times> system \<Rightarrow>
     (int \<times> bool \<times> overcommit_globals \<times> system) option" where
  "check_env var remote flag st =
    (if flag then Some (0, False, st)
     else (case var of
             None \<Rightarrow> Some (0, flag, st)
           | Some buf \<Rightarrow>
               map_option (\<lambda>(r, st1). (if r < 0 then - 1 else 0, st1)) (overcommit_opt_process buf remote flag st)))"

definition overcommit_str2int :: "string \<Rightarrow> int" where
  "overcommit_str2int str = (case strtol str of (l, p) \<Rightarrow> if p \<noteq> [] then - 1 else long_to_int l)"

text \<open>The options go on being read after an invalid one; the invalid ratio stays.\<close>

fun overcommit_options :: "string list \<Rightarrow> int \<Rightarrow> overcommit_globals \<Rightarrow> int \<times> overcommit_globals" where
  "overcommit_options [] retval g = (retval, g)"
| "overcommit_options (a # av) retval g =
    (if take 6 a = ''ratio=''
     then (let n = overcommit_str2int (drop 6 a)
           in overcommit_options av (if n < 0 then - 1 else retval) (g\<lparr>og_ratio := n\<rparr>))
     else overcommit_options av (- 1) g)"

definition overcommit_init ::
    "string list \<Rightarrow> bool \<Rightarrow> int \<Rightarrow> int \<Rightarrow> string option \<Rightarrow> bool \<Rightarrow> overcommit_globals \<times> system \<Rightarrow>
     (int \<times> bool \<times> overcommit_globals \<times> system) option" where
  "overcommit_init av remote jobid stepid var flag st =
    (case overcommit_options av 0 (fst st) of
       (r, g) \<Rightarrow>
         if r < 0 then Some (- 1, flag, g, snd st)
         else if \<not> remote then check_env var False flag (g, snd st)
         else check_env var True flag (g\<lparr>og_jobid := jobid, og_stepid := stepid\<rparr>, snd st))"

text \<open>\<open>None\<close> also when the context has been freed before.\<close>

definition overcommit_exit :: "bool \<Rightarrow> overcommit_globals \<times> system \<Rightarrow> (int \<times> system) option" where
  "overcommit_exit remote st =
    (case og_ctx (fst st) of
       None \<Rightarrow> Some (0, snd st)
     | Some c \<Rightarrow>
         if \<not> remote then Some (0, snd st)
         else if og_freed (fst st) then None
         else map_option (Pair 0) (overcommit_shared_ctx_unregister c (snd st)))"

end
