(* ===== verification/OvercommitLaws.thy ===== *)
theory OvercommitLaws
  imports Overcommit
begin

text \<open>
  Runs of \<open>overcommit-memory\<close> in which each call finishes before the next one starts: the users in
  the shared file are the job steps that were granted their mode and have not ended.
\<close>

section \<open>The array of users\<close>

definition used_ids :: "job_info list \<Rightarrow> (int \<times> int) list" where
  "used_ids us = map (\<lambda>j. (ji_jobid j, ji_stepid j)) (filter (\<lambda>j. ji_used j \<noteq> 0) us)"

definition users_ok :: "job_info list \<Rightarrow> bool" where
  "users_ok us \<longleftrightarrow> (\<forall>j\<in>set us. j = no_job \<or> ji_used j = 1 \<and> ji_jobid j \<noteq> 0)"

lemma used_ids_Cons:
  "used_ids (j # us) = (if ji_used j \<noteq> 0 then [(ji_jobid j, ji_stepid j)] else []) @ used_ids us"
  by (simp add: used_ids_def)

lemma register_loop_result:
  assumes "oc_jobid c \<noteq> 0"
  shows "users_ok us \<Longrightarrow> length (used_ids us) < length us \<Longrightarrow>
    \<exists>us'. register_loop c us = Some us' \<and> users_ok us' \<and> length us' = length us \<and>
      mset (used_ids us') = add_mset (oc_jobid c, oc_stepid c) (mset (used_ids us))"
proof (induction us)
  case (Cons j us)
  show ?case
  proof (cases "ji_used j = 0")
    case True
    then show ?thesis using Cons.prems assms by (simp add: used_ids_Cons users_ok_def)
  next
    case False
    then have "users_ok us" "length (used_ids us) < length us"
      using Cons.prems by (simp_all add: used_ids_Cons users_ok_def)
    from Cons.IH[OF this] obtain us' where
      "register_loop c us = Some us'" "users_ok us'" "length us' = length us"
      "mset (used_ids us') = add_mset (oc_jobid c, oc_stepid c) (mset (used_ids us))" by blast
    then show ?thesis using False Cons.prems by (auto simp: used_ids_Cons users_ok_def)
  qed
qed simp

lemma unregister_loop_result:
  assumes "oc_jobid c \<noteq> 0" "0 \<le> oc_stepid c"
  shows "users_ok us \<Longrightarrow> (oc_jobid c, oc_stepid c) \<in> set (used_ids us) \<Longrightarrow>
    \<exists>us'. unregister_loop c us = Some us' \<and> users_ok us' \<and> length us' = length us \<and>
      mset (used_ids us') = mset (used_ids us) - {#(oc_jobid c, oc_stepid c)#}"
proof (induction us)
  case (Cons j us)
  show ?case
  proof (cases "ji_jobid j = oc_jobid c \<and> ji_stepid j = oc_stepid c")
    case True
    then have "ji_used j = 1" using Cons.prems(1) assms(1) by (auto simp: users_ok_def no_job_def)
    then show ?thesis using Cons.prems True by (auto simp: used_ids_Cons users_ok_def no_job_def)
  next
    case False
    then have "users_ok us" "(oc_jobid c, oc_stepid c) \<in> set (used_ids us)"
      using Cons.prems by (auto simp: used_ids_Cons users_ok_def split: if_splits)
    from Cons.IH[OF this] obtain us' where us':
      "unregister_loop c us = Some us'" "users_ok us'" "length us' = length us"
      "mset (used_ids us') = mset (used_ids us) - {#(oc_jobid c, oc_stepid c)#}" by blast
    have "ji_jobid j \<noteq> oc_jobid c \<or> \<not> (oc_stepid c < 0 \<or> ji_stepid j = oc_stepid c)" using False assms(2) by auto
    then show ?thesis using us' Cons.prems False
      by (auto simp: used_ids_Cons users_ok_def)
  qed
qed (simp add: used_ids_def)

section \<open>One call on a file in use\<close>

definition at_file :: "system \<Rightarrow> nat \<Rightarrow> shared_info \<Rightarrow> bool" where
  "at_file sy a i \<longleftrightarrow> sy_mem sy a = Some \<lparr>sf_owned = True, sf_locked = False, sf_sized = True, sf_info = i\<rparr>"

lemma at_file_info: "at_file sy (oc_file c) i \<Longrightarrow> the_info sy c = Some i"
  by (simp add: at_file_def the_info_def)

lemma put_info_at:
  assumes "at_file sy (oc_file c) i"
  shows "at_file (put_info c i' sy) (oc_file c) i'" "sy_file (put_info c i' sy) = sy_file sy"
    "sy_proc (put_info c i' sy) = sy_proc sy" "sy_overcommit (put_info c i' sy) = sy_overcommit sy"
    "sy_ratio (put_info c i' sy) = sy_ratio sy"
  using assms by (simp_all add: at_file_def put_info_def)

text \<open>The rest of a system, apart from the shared memory.\<close>

definition same_kernel :: "system \<Rightarrow> system \<Rightarrow> bool" where
  "same_kernel sy sy' \<longleftrightarrow> sy_file sy' = sy_file sy \<and> sy_proc sy' = sy_proc sy \<and>
    sy_overcommit sy' = sy_overcommit sy \<and> sy_ratio sy' = sy_ratio sy"

lemma sem_wait_at:
  assumes "at_file sy (oc_file c) i" "0 < si_sem i"
  obtains sy' where "sem_wait c sy = Some sy'" "at_file sy' (oc_file c) (i\<lparr>si_sem := si_sem i - 1\<rparr>)"
    "same_kernel sy sy'"
  using assms put_info_at[OF assms(1)] by (simp add: sem_wait_def at_file_info same_kernel_def)

lemma sem_post_at:
  assumes "at_file sy (oc_file c) i"
  obtains sy' where "sem_post c sy = Some sy'" "at_file sy' (oc_file c) (i\<lparr>si_sem := si_sem i + 1\<rparr>)"
    "same_kernel sy sy'"
  using put_info_at[OF assms] by (simp add: sem_post_def at_file_info[OF assms] same_kernel_def)

lemmas opening_defs = overcommit_shared_info_init_def fd_get_write_lock_def fd_release_lock_def change_file_def
  size_file_def clear_info_def init_sem_def overcommit_shared_file_initialized_def

lemma create_at:
  assumes "sy_file sy = Some a" "at_file sy a i" "0 < si_sem i"
  obtains sy' where "overcommit_shared_ctx_create j s sy = Some (\<lparr>oc_file = a, oc_jobid = j, oc_stepid = s\<rparr>, sy')"
    "at_file sy' a (i\<lparr>si_sem := si_sem i - 1\<rparr>)" "same_kernel sy sy'"
proof -
  let ?c = "\<lparr>oc_file = a, oc_jobid = j, oc_stepid = s\<rparr>"
  have "ctx_open j s sy = Some (?c, sy)"
    using assms(1,2) by (cases sy) (simp add: ctx_open_def open_excl_def opening_defs at_file_def fun_upd_idem Let_def)
  moreover obtain sy' where "sem_wait ?c sy = Some sy'" "at_file sy' (oc_file ?c) (i\<lparr>si_sem := si_sem i - 1\<rparr>)"
    "same_kernel sy sy'"
    using sem_wait_at[of sy ?c i] assms(2,3) by auto
  ultimately show thesis by (intro that[of sy']) (simp_all add: overcommit_shared_ctx_create_def)
qed

lemma create_new:
  assumes "sy_file sy = None"
  obtains sy' where
    "overcommit_shared_ctx_create j s sy = Some (\<lparr>oc_file = sy_next sy, oc_jobid = j, oc_stepid = s\<rparr>, sy')"
    "at_file sy' (sy_next sy) zero_info" "sy_file sy' = Some (sy_next sy)" "sy_proc sy' = sy_proc sy"
    "sy_overcommit sy' = sy_overcommit sy" "sy_ratio sy' = sy_ratio sy"
proof -
  let ?c = "\<lparr>oc_file = sy_next sy, oc_jobid = j, oc_stepid = s\<rparr>"
  define sy1 where "sy1 = sy\<lparr>sy_file := Some (sy_next sy), sy_next := sy_next sy + 1,
      sy_mem := (sy_mem sy)(sy_next sy \<mapsto>
        \<lparr>sf_owned = True, sf_locked = False, sf_sized = True, sf_info = zero_info\<lparr>si_sem := 1\<rparr>\<rparr>)\<rparr>"
  have o: "ctx_open j s sy = Some (?c, sy1)"
    using assms by (simp add: ctx_open_def open_excl_def opening_defs sy1_def Let_def)
  have "at_file sy1 (oc_file ?c) (zero_info\<lparr>si_sem := 1\<rparr>)" by (simp add: sy1_def at_file_def)
  from sem_wait_at[OF this] obtain sy' where "sem_wait ?c sy1 = Some sy'"
    "at_file sy' (sy_next sy) ((zero_info\<lparr>si_sem := 1\<rparr>)\<lparr>si_sem := 0\<rparr>)" "same_kernel sy1 sy'" by auto
  then show thesis using o
    by (intro that[of sy']) (simp_all add: overcommit_shared_ctx_create_def same_kernel_def sy1_def zero_info_def)
qed

definition users_are :: "shared_info \<Rightarrow> (int \<times> int) multiset \<Rightarrow> int \<Rightarrow> int \<Rightarrow> bool" where
  "users_are i M v r \<longleftrightarrow> users_ok (si_users i) \<and> length (si_users i) = 64 \<and> mset (used_ids (si_users i)) = M \<and>
    si_nusers i = int (size M) \<and> si_value i = v \<and> si_prev_ratio i = r"

lemma users_are_sem: "users_are (i\<lparr>si_sem := k\<rparr>) M v r = users_are i M v r"
  by (simp add: users_are_def)

lemma users_are_zero: "users_are zero_info {#} 0 0"
  by (simp add: users_are_def zero_info_def users_ok_def used_ids_def no_job_def)

lemma in_use_grant:
  assumes at: "at_file sy (oc_file c) i" and u: "users_are i M v0 r0" "size M < 64" "oc_jobid c \<noteq> 0"
    and v: "M = {#} \<or> v0 = v"
  obtains sy' i' where "overcommit_in_use c v sy = Some (0, sy')" "at_file sy' (oc_file c) i'"
    "users_are i' (add_mset (oc_jobid c, oc_stepid c) M) v (if M = {#} then overcommit_ratio_get sy else r0)"
    "si_sem i' = si_sem i + 1" "same_kernel sy sy'"
proof -
  define i1 where "i1 = (if si_nusers i = 0 then i\<lparr>si_value := v, si_prev_ratio := overcommit_ratio_get sy\<rparr> else i)"
  have i1: "users_are i1 M v (if M = {#} then overcommit_ratio_get sy else r0)" "si_sem i1 = si_sem i"
    using u(1) v by (auto simp: i1_def users_are_def)
  have us: "users_ok (si_users i1)" "length (si_users i1) = 64" "mset (used_ids (si_users i1)) = M"
    using i1(1) by (simp_all add: users_are_def)
  have "length (used_ids (si_users i1)) < length (si_users i1)" using us u(2) by (metis size_mset)
  from register_loop_result[OF u(3) us(1) this] us obtain us' where us':
    "register_loop c (si_users i1) = Some us'" "users_ok us'" "length us' = 64"
    "mset (used_ids us') = add_mset (oc_jobid c, oc_stepid c) M" by auto
  define i2 where "i2 = i1\<lparr>si_users := us', si_nusers := si_nusers i1 + 1\<rparr>"
  have r: "register_job c i1 = Some (0, i2)" by (simp add: register_job_def us'(1) i2_def)
  have i2: "users_are i2 (add_mset (oc_jobid c, oc_stepid c) M) v (if M = {#} then overcommit_ratio_get sy else r0)"
    "si_sem i2 = si_sem i"
    using i1 us' by (simp_all add: users_are_def i2_def)
  note p = put_info_at[OF at, of i2]
  from sem_post_at[OF p(1)] obtain sy' where s: "sem_post c (put_info c i2 sy) = Some sy'"
    "at_file sy' (oc_file c) (i2\<lparr>si_sem := si_sem i2 + 1\<rparr>)" "same_kernel (put_info c i2 sy) sy'" .
  have n: "\<not> (si_nusers i > 0 \<and> si_value i \<noteq> v)" using u(1) v by (auto simp: users_are_def)
  have "overcommit_in_use c v sy = Some (0, sy')"
    unfolding overcommit_in_use_def at_file_info[OF at] option.case if_not_P[OF n] Let_def i1_def[symmetric] r
    by (simp add: s(1))
  then show thesis using s(2,3) p(2-5) i2
    by (intro that[of sy' "i2\<lparr>si_sem := si_sem i2 + 1\<rparr>"]) (simp_all add: users_are_sem same_kernel_def)
qed

lemma in_use_refuse:
  assumes at: "at_file sy (oc_file c) i" and u: "users_are i M v0 r0" "M \<noteq> {#}" "v0 \<noteq> v"
  obtains sy' where "overcommit_in_use c v sy = Some (1, sy')"
    "at_file sy' (oc_file c) (i\<lparr>si_sem := si_sem i + 1\<rparr>)" "same_kernel sy sy'"
proof -
  have "si_nusers i > 0 \<and> si_value i \<noteq> v" using u by (auto simp: users_are_def)
  moreover obtain sy' where "sem_post c sy = Some sy'"
    "at_file sy' (oc_file c) (i\<lparr>si_sem := si_sem i + 1\<rparr>)" "same_kernel sy sy'" using sem_post_at[OF at] .
  ultimately show thesis by (intro that[of sy']) (simp_all add: overcommit_in_use_def at_file_info[OF at])
qed

lemma destroy_used:
  assumes at: "at_file sy (oc_file c) i" and "si_nusers i \<noteq> 0"
  obtains sy' where "overcommit_shared_ctx_destroy c sy = Some sy'"
    "at_file sy' (oc_file c) (i\<lparr>si_sem := si_sem i + 1\<rparr>)" "same_kernel sy sy'"
proof -
  obtain sy' where "sem_post c sy = Some sy'"
    "at_file sy' (oc_file c) (i\<lparr>si_sem := si_sem i + 1\<rparr>)" "same_kernel sy sy'" using sem_post_at[OF at] .
  then show thesis using assms(2)
    by (intro that[of sy']) (simp_all add: overcommit_shared_ctx_destroy_def destroy_unlink_def destroy_reset_def
        at_file_info[OF at])
qed

lemma destroy_unused:
  assumes at: "at_file sy (oc_file c) i" and "si_nusers i = 0" "sy_proc sy"
  obtains sy' where "overcommit_shared_ctx_destroy c sy = Some sy'" "sy_file sy' = None" "sy_proc sy'"
    "sy_overcommit sy' = 0" "sy_ratio sy' = si_prev_ratio i"
proof -
  define sy1 where "sy1 = sy\<lparr>sy_file := None, sy_overcommit := 0, sy_ratio := si_prev_ratio i\<rparr>"
  have at1: "at_file sy1 (oc_file c) i" "the_info (sy\<lparr>sy_file := None\<rparr>) c = Some i"
    using at by (simp_all add: at_file_def sy1_def the_info_def)
  have "snd (overcommit_ratio_set (si_prev_ratio i)
      (if overcommit_memory_get_current_state (sy\<lparr>sy_file := None\<rparr>) \<noteq> 0
       then snd (overcommit_memory_set_current_state 0 (sy\<lparr>sy_file := None\<rparr>)) else sy\<lparr>sy_file := None\<rparr>)) = sy1"
    using assms(3) by (cases sy) (simp add: overcommit_ratio_set_def overcommit_memory_get_current_state_def
        overcommit_memory_set_current_state_def sy1_def)
  then have "overcommit_shared_ctx_destroy c sy = sem_post c sy1"
    using assms(2) by (simp add: overcommit_shared_ctx_destroy_def destroy_unlink_def destroy_reset_def
        at_file_info[OF at] at1(2))
  moreover obtain sy' where "sem_post c sy1 = Some sy'" "same_kernel sy1 sy'" using sem_post_at[OF at1(1)] .
  ultimately show thesis using assms(3) by (intro that[of sy']) (simp_all add: same_kernel_def sy1_def)
qed

section \<open>Setting a policy and leaving\<close>

lemma apply_policy_kernel:
  assumes "sy_proc sy" "v \<in> {0, 1, 2}"
  shows "apply_policy ratio v sy = sy\<lparr>sy_overcommit := v, sy_ratio := ratio\<rparr>"
  using assms by (auto simp: apply_policy_def overcommit_memory_set_current_state_def overcommit_ratio_set_def)

definition granted :: "overcommit_globals \<Rightarrow> nat \<Rightarrow> overcommit_globals" where
  "granted g a = g\<lparr>og_ctx := Some \<lparr>oc_file = a, oc_jobid = og_jobid g, oc_stepid = og_stepid g\<rparr>, og_freed := False\<rparr>"

definition in_force :: "system \<Rightarrow> nat \<Rightarrow> (int \<times> int) multiset \<Rightarrow> int \<Rightarrow> int \<Rightarrow> int \<Rightarrow> bool" where
  "in_force sy a M v ratio r0 \<longleftrightarrow> sy_file sy = Some a \<and> sy_proc sy \<and> sy_overcommit sy = v \<and> sy_ratio sy = ratio \<and>
    (\<exists>i. at_file sy a i \<and> users_are i M v r0 \<and> 0 < si_sem i)"

lemma policy_first:
  assumes "sy_file sy = None" "sy_proc sy" "v \<in> {0, 1, 2}" "og_jobid g \<noteq> 0"
  obtains sy' where "set_overcommit_policy v (g, sy) = Some (0, granted g (sy_next sy), sy')"
    "in_force sy' (sy_next sy) {#(og_jobid g, og_stepid g)#} v (og_ratio g) (sy_ratio sy)"
proof -
  let ?c = "\<lparr>oc_file = sy_next sy, oc_jobid = og_jobid g, oc_stepid = og_stepid g\<rparr>"
  obtain sy1 where c: "overcommit_shared_ctx_create (og_jobid g) (og_stepid g) sy = Some (?c, sy1)"
    and sy1: "at_file sy1 (oc_file ?c) zero_info" "sy_file sy1 = Some (sy_next sy)" "sy_proc sy1 = sy_proc sy"
      "sy_overcommit sy1 = sy_overcommit sy" "sy_ratio sy1 = sy_ratio sy"
    using create_new[OF assms(1), of "og_jobid g" "og_stepid g"] by auto
  obtain sy2 i where u: "overcommit_in_use ?c v sy1 = Some (0, sy2)" "at_file sy2 (oc_file ?c) i"
    "users_are i {#(og_jobid g, og_stepid g)#} v (overcommit_ratio_get sy1)" "si_sem i = si_sem zero_info + 1"
    "same_kernel sy1 sy2"
    using in_use_grant[OF sy1(1) users_are_zero, of v] assms(4) by auto
  have p: "sy_proc sy2" using u(5) sy1(3) assms(2) by (simp add: same_kernel_def)
  have at: "at_file (sy2\<lparr>sy_overcommit := v, sy_ratio := og_ratio g\<rparr>) (sy_next sy) i"
    using u(2) by (simp add: at_file_def)
  have "overcommit_ratio_get sy1 = sy_ratio sy" using sy1(3,5) assms(2) by (simp add: overcommit_ratio_get_def)
  then show thesis using c u(1,3,4,5) at p sy1(2)
    by (intro that[of "sy2\<lparr>sy_overcommit := v, sy_ratio := og_ratio g\<rparr>"])
      (auto simp: set_overcommit_policy_def apply_policy_kernel[OF p assms(3)] granted_def in_force_def
        same_kernel_def zero_info_def)
qed

lemma policy_join:
  assumes f: "in_force sy a M v ratio r0" and m: "M \<noteq> {#}" "size M < 64" and v: "v \<in> {0, 1, 2}" "og_jobid g \<noteq> 0"
  obtains sy' where "set_overcommit_policy v (g, sy) = Some (0, granted g a, sy')"
    "in_force sy' a (add_mset (og_jobid g, og_stepid g) M) v (og_ratio g) r0"
proof -
  from f obtain i where i: "sy_file sy = Some a" "sy_proc sy" "at_file sy a i" "users_are i M v r0" "0 < si_sem i"
    unfolding in_force_def by blast
  let ?c = "\<lparr>oc_file = a, oc_jobid = og_jobid g, oc_stepid = og_stepid g\<rparr>"
  obtain sy1 where c: "overcommit_shared_ctx_create (og_jobid g) (og_stepid g) sy = Some (?c, sy1)"
    and sy1: "at_file sy1 (oc_file ?c) (i\<lparr>si_sem := si_sem i - 1\<rparr>)" "same_kernel sy sy1"
    using create_at[OF i(1,3,5), of "og_jobid g" "og_stepid g"] by auto
  have j: "oc_jobid ?c \<noteq> 0" using v(2) by simp
  obtain sy2 i2 where u: "overcommit_in_use ?c v sy1 = Some (0, sy2)" "at_file sy2 (oc_file ?c) i2"
    "users_are i2 (add_mset (og_jobid g, og_stepid g) M) v r0" "si_sem i2 = si_sem i" "same_kernel sy1 sy2"
    using in_use_grant[OF sy1(1) _ m(2) j, of v r0 v] i(4) m(1) by (auto simp: users_are_sem)
  have p: "sy_proc sy2" using u(5) sy1(2) i(2) by (simp add: same_kernel_def)
  have at: "at_file (sy2\<lparr>sy_overcommit := v, sy_ratio := og_ratio g\<rparr>) a i2"
    using u(2) by (simp add: at_file_def)
  then show thesis using c u(1,3,4,5) p sy1(2) i(1,5)
    by (intro that[of "sy2\<lparr>sy_overcommit := v, sy_ratio := og_ratio g\<rparr>"])
      (auto simp: set_overcommit_policy_def apply_policy_kernel[OF p v(1)] granted_def in_force_def same_kernel_def)
qed

lemma policy_refused:
  assumes f: "in_force sy a M v ratio r0" and m: "M \<noteq> {#}" and "v' \<noteq> v"
  obtains g' sy' where "set_overcommit_policy v' (g, sy) = Some (0, g', sy')" "og_freed g'" "og_ctx g' \<noteq> None"
    "in_force sy' a M v ratio r0"
proof -
  from f obtain i where i: "sy_file sy = Some a" "sy_proc sy" "sy_overcommit sy = v" "sy_ratio sy = ratio"
    "at_file sy a i" "users_are i M v r0" "0 < si_sem i"
    unfolding in_force_def by blast
  let ?c = "\<lparr>oc_file = a, oc_jobid = og_jobid g, oc_stepid = og_stepid g\<rparr>"
  obtain sy1 where c: "overcommit_shared_ctx_create (og_jobid g) (og_stepid g) sy = Some (?c, sy1)"
    and sy1: "at_file sy1 (oc_file ?c) (i\<lparr>si_sem := si_sem i - 1\<rparr>)" "same_kernel sy sy1"
    using create_at[OF i(1,5,7), of "og_jobid g" "og_stepid g"] by auto
  obtain sy2 where u: "overcommit_in_use ?c v' sy1 = Some (1, sy2)" "at_file sy2 (oc_file ?c) i" "same_kernel sy1 sy2"
    using in_use_refuse[OF sy1(1) _ m, of v r0 v'] i(6) assms(3) by (auto simp: users_are_sem)
  have n: "si_nusers i \<noteq> 0" using i(6) m by (auto simp: users_are_def)
  obtain sy3 where d: "overcommit_shared_ctx_destroy ?c sy2 = Some sy3"
    "at_file sy3 (oc_file ?c) (i\<lparr>si_sem := si_sem i + 1\<rparr>)" "same_kernel sy2 sy3"
    using destroy_used[OF u(2) n] .
  show thesis using c u(1,3) d sy1(2) i
    by (intro that[of "g\<lparr>og_ctx := Some ?c, og_freed := True\<rparr>" sy3])
      (auto simp: set_overcommit_policy_def in_force_def same_kernel_def users_are_sem)
qed

lemma exit_step:
  assumes f: "in_force sy a M v ratio r0" and m: "(og_jobid g, og_stepid g) \<in># M" "og_jobid g \<noteq> 0" "0 \<le> og_stepid g"
  obtains sy' where "overcommit_exit True (granted g a, sy) = Some (0, sy')"
    "if M = {#(og_jobid g, og_stepid g)#}
     then sy_file sy' = None \<and> sy_proc sy' \<and> sy_overcommit sy' = 0 \<and> sy_ratio sy' = r0
     else in_force sy' a (M - {#(og_jobid g, og_stepid g)#}) v ratio r0"
proof -
  from f obtain i where i: "sy_file sy = Some a" "sy_proc sy" "sy_overcommit sy = v" "sy_ratio sy = ratio"
    "at_file sy a i" "users_are i M v r0" "0 < si_sem i"
    unfolding in_force_def by blast
  let ?c = "\<lparr>oc_file = a, oc_jobid = og_jobid g, oc_stepid = og_stepid g\<rparr>"
  obtain sy1 where w: "sem_wait ?c sy = Some sy1" "at_file sy1 (oc_file ?c) (i\<lparr>si_sem := si_sem i - 1\<rparr>)"
    "same_kernel sy sy1"
    using sem_wait_at[of sy ?c i] i(5,7) by auto
  have us: "users_ok (si_users i)" "(oc_jobid ?c, oc_stepid ?c) \<in> set (used_ids (si_users i))"
    using i(6) m(1) by (auto simp: users_are_def)
  obtain us' where us': "unregister_loop ?c (si_users i) = Some us'" "users_ok us'" "length us' = 64"
    "mset (used_ids us') = M - {#(og_jobid g, og_stepid g)#}"
    using unregister_loop_result[OF _ _ us] m(2,3) i(6) by (auto simp: users_are_def)
  define i2 where "i2 = i\<lparr>si_sem := si_sem i - 1, si_users := us', si_nusers := si_nusers i - 1\<rparr>"
  have i2: "users_are i2 (M - {#(og_jobid g, og_stepid g)#}) v r0"
  proof -
    have "int (size M) - 1 = int (size (M - {#(og_jobid g, og_stepid g)#}))"
      using multi_member_split[OF m(1)] by auto
    then show ?thesis using i(6) us' by (simp add: users_are_def i2_def)
  qed
  have un: "unregister_ctx ?c sy1 = Some (put_info ?c i2 sy1)"
    by (simp add: unregister_ctx_def at_file_info[OF w(2)] unregister_job_def us'(1) i2_def)
  note p = put_info_at[OF w(2), of i2]
  have x: "overcommit_exit True (granted g a, sy) =
      map_option (Pair 0) (overcommit_shared_ctx_destroy ?c (put_info ?c i2 sy1))"
    by (simp add: overcommit_exit_def granted_def overcommit_shared_ctx_unregister_def w(1) un)
  show thesis
  proof (cases "M = {#(og_jobid g, og_stepid g)#}")
    case True
    have "si_nusers i2 = 0" "si_prev_ratio i2 = r0" using i2 True by (simp_all add: users_are_def)
    moreover have "sy_proc (put_info ?c i2 sy1)" using p w(3) i(2) by (simp add: same_kernel_def)
    ultimately show thesis using destroy_unused[OF p(1)] x True that by (metis option.simps(9))
  next
    case False
    have ne: "M - {#(og_jobid g, og_stepid g)#} \<noteq> {#}"
      using False m(1) by (metis insert_DiffM)
    then have "si_nusers i2 \<noteq> 0" using i2 by (auto simp: users_are_def)
    from destroy_used[OF p(1) this] obtain sy' where d:
      "overcommit_shared_ctx_destroy ?c (put_info ?c i2 sy1) = Some sy'"
      "at_file sy' (oc_file ?c) (i2\<lparr>si_sem := si_sem i2 + 1\<rparr>)" "same_kernel (put_info ?c i2 sy1) sy'" .
    have "in_force sy' a (M - {#(og_jobid g, og_stepid g)#}) v ratio r0"
    proof -
      have "users_are (i2\<lparr>si_sem := si_sem i2 + 1\<rparr>) (M - {#(og_jobid g, og_stepid g)#}) v r0"
        "0 < si_sem (i2\<lparr>si_sem := si_sem i2 + 1\<rparr>)"
        using i2 i(7) by (simp_all add: users_are_sem) (simp add: i2_def)
      then show ?thesis using d(2,3) p(2-5) w(3) i(1-4)
        unfolding in_force_def same_kernel_def overcommit_ctx.simps by metis
    qed
    then show thesis using x d(1) False by (intro that[of sy']) simp_all
  qed
qed

section \<open>Calls one after the other\<close>

text \<open>
  The job steps that were granted the mode they asked for and have not ended, with the modes.  Job 0
  does not exist; a negative step number is a wildcard of \<open>unregister_job\<close>.
\<close>

inductive seq_run :: "int \<Rightarrow> int \<Rightarrow> system \<Rightarrow> (overcommit_globals \<times> int) list \<Rightarrow> bool" for ratio r0 where
  start: "sy_file sy = None \<Longrightarrow> sy_proc sy \<Longrightarrow> sy_overcommit sy = 0 \<Longrightarrow> sy_ratio sy = r0 \<Longrightarrow>
    seq_run ratio r0 sy []"
| policy: "seq_run ratio r0 sy rs \<Longrightarrow> v \<in> {0, 1, 2} \<Longrightarrow> og_ratio g = ratio \<Longrightarrow> og_jobid g \<noteq> 0 \<Longrightarrow>
    0 \<le> og_stepid g \<Longrightarrow> length rs < 64 \<Longrightarrow> set_overcommit_policy v (g, sy) = Some (r, g1, sy1) \<Longrightarrow>
    seq_run ratio r0 sy1 (if og_freed g1 then rs else (g1, v) # rs)"
| leave: "seq_run ratio r0 sy (rs @ (g, v) # rs') \<Longrightarrow> overcommit_exit True (g, sy) = Some (r, sy1) \<Longrightarrow>
    seq_run ratio r0 sy1 (rs @ rs')"

definition step_id :: "overcommit_globals \<times> int \<Rightarrow> int \<times> int" where
  "step_id x = (og_jobid (fst x), og_stepid (fst x))"

definition granted_all :: "nat \<Rightarrow> int \<Rightarrow> (overcommit_globals \<times> int) list \<Rightarrow> bool" where
  "granted_all a v rs \<longleftrightarrow> (\<forall>x\<in>set rs. snd x = v \<and> granted (fst x) a = fst x \<and>
    og_jobid (fst x) \<noteq> 0 \<and> 0 \<le> og_stepid (fst x))"

definition seq_inv :: "int \<Rightarrow> int \<Rightarrow> system \<Rightarrow> (overcommit_globals \<times> int) list \<Rightarrow> bool" where
  "seq_inv ratio r0 sy rs \<longleftrightarrow>
    (if rs = [] then sy_file sy = None \<and> sy_proc sy \<and> sy_overcommit sy = 0 \<and> sy_ratio sy = r0
     else \<exists>a v. in_force sy a (mset (map step_id rs)) v ratio r0 \<and>
       granted_all a v rs)"

lemma seq_invI: "rs \<noteq> [] \<Longrightarrow> in_force sy a (mset (map step_id rs)) v ratio r0 \<Longrightarrow> granted_all a v rs \<Longrightarrow>
    seq_inv ratio r0 sy rs"
  unfolding seq_inv_def by auto

lemma seq_inv_cases:
  assumes "seq_inv ratio r0 sy rs" "rs \<noteq> []"
  obtains a v where "in_force sy a (mset (map step_id rs)) v ratio r0" "granted_all a v rs"
  using assms unfolding seq_inv_def by auto

lemma granted_all_simps:
  "granted_all a v (x # rs) \<longleftrightarrow> (snd x = v \<and> granted (fst x) a = fst x \<and> og_jobid (fst x) \<noteq> 0 \<and> 0 \<le> og_stepid (fst x)) \<and>
    granted_all a v rs"
  "granted_all a v (rs @ rs') \<longleftrightarrow> granted_all a v rs \<and> granted_all a v rs'"
  by (auto simp: granted_all_def)

lemma granted_all_mode: "granted_all a u rs \<Longrightarrow> rs \<noteq> [] \<Longrightarrow> (\<exists>x\<in>set rs. snd x \<noteq> v) \<longleftrightarrow> u \<noteq> v"
  by (cases rs) (auto simp: granted_all_def)

lemma granted_granted [simp]: "granted (granted g a) a = granted g a"
  "og_jobid (granted g a) = og_jobid g" "og_stepid (granted g a) = og_stepid g" "\<not> og_freed (granted g a)"
  by (simp_all add: granted_def)

lemma seq_inv_policy:
  assumes inv: "seq_inv ratio r0 sy rs" and v: "v \<in> {0, 1, 2}" "og_ratio g = ratio" "og_jobid g \<noteq> 0" "0 \<le> og_stepid g"
    and len: "length rs < 64"
  shows "\<exists>g1 sy1. set_overcommit_policy v (g, sy) = Some (0, g1, sy1) \<and>
    og_freed g1 = (\<exists>x\<in>set rs. snd x \<noteq> v) \<and> (og_freed g1 \<longrightarrow> sy_overcommit sy1 = sy_overcommit sy \<and>
      sy_ratio sy1 = sy_ratio sy) \<and>
    seq_inv ratio r0 sy1 (if og_freed g1 then rs else (g1, v) # rs)"
proof (cases "rs = []")
  case True
  then have "sy_file sy = None" "sy_proc sy" "sy_ratio sy = r0" using inv by (simp_all add: seq_inv_def)
  from policy_first[OF this(1,2) v(1,3)] this(3) v(2) obtain sy1 where
    s: "set_overcommit_policy v (g, sy) = Some (0, granted g (sy_next sy), sy1)"
      "in_force sy1 (sy_next sy) {#(og_jobid g, og_stepid g)#} v ratio r0" by metis
  have "seq_inv ratio r0 sy1 [(granted g (sy_next sy), v)]"
    by (rule seq_invI[of _ _ "sy_next sy" v]) (use s(2) v in \<open>simp_all add: step_id_def granted_all_def\<close>)
  then show ?thesis using s(1) True by (intro exI[of _ "granted g (sy_next sy)"] exI[of _ sy1]) simp
next
  case False
  obtain a u where f: "in_force sy a (mset (map step_id rs)) u ratio r0" and g: "granted_all a u rs"
    using seq_inv_cases[OF inv False] .
  have M: "mset (map step_id rs) \<noteq> {#}" "size (mset (map step_id rs)) < 64" using False len by simp_all
  show ?thesis
  proof (cases "u = v")
    case True
    from policy_join[OF f[unfolded True] M v(1,3)] v(2) obtain sy1 where
      s: "set_overcommit_policy v (g, sy) = Some (0, granted g a, sy1)"
        "in_force sy1 a (add_mset (og_jobid g, og_stepid g) (mset (map step_id rs))) v ratio r0" by metis
    have "seq_inv ratio r0 sy1 ((granted g a, v) # rs)"
      by (rule seq_invI[of _ _ a v]) (use s(2) g True v in \<open>simp_all add: step_id_def granted_all_simps\<close>)
    then show ?thesis using s(1) granted_all_mode[OF g False, of v] True
      by (intro exI[of _ "granted g a"] exI[of _ sy1]) simp
  next
    case u: False
    from policy_refused[OF f M(1), of v] u obtain g1 sy1 where
      s: "set_overcommit_policy v (g, sy) = Some (0, g1, sy1)" "og_freed g1"
        "in_force sy1 a (mset (map step_id rs)) u ratio r0" by metis
    have "sy_overcommit sy1 = sy_overcommit sy" "sy_ratio sy1 = sy_ratio sy"
      using f s(3) by (simp_all add: in_force_def)
    then show ?thesis using s(1,2) granted_all_mode[OF g False, of v] u seq_invI[OF False s(3) g]
      by (intro exI[of _ g1] exI[of _ sy1]) simp
  qed
qed

lemma seq_inv_leave:
  assumes inv: "seq_inv ratio r0 sy (rs @ (g, v) # rs')"
  shows "\<exists>sy1. overcommit_exit True (g, sy) = Some (0, sy1) \<and> seq_inv ratio r0 sy1 (rs @ rs')"
proof -
  obtain a u where f: "in_force sy a (mset (map step_id (rs @ (g, v) # rs'))) u ratio r0"
    and g: "granted_all a u (rs @ (g, v) # rs')"
    using seq_inv_cases[OF inv] by blast
  let ?M = "mset (map step_id (rs @ (g, v) # rs'))"
  have M: "?M = add_mset (og_jobid g, og_stepid g) (mset (map step_id (rs @ rs')))"
    by (simp add: step_id_def)
  have gg: "granted g a = g" "og_jobid g \<noteq> 0" "0 \<le> og_stepid g" "granted_all a u (rs @ rs')"
    using g by (simp_all add: granted_all_simps)
  have "(og_jobid g, og_stepid g) \<in># ?M" unfolding M by simp
  from exit_step[OF f this gg(2,3)] obtain sy1 where
    e: "overcommit_exit True (g, sy) = Some (0, sy1)"
      "if ?M = {#(og_jobid g, og_stepid g)#}
       then sy_file sy1 = None \<and> sy_proc sy1 \<and> sy_overcommit sy1 = 0 \<and> sy_ratio sy1 = r0
       else in_force sy1 a (?M - {#(og_jobid g, og_stepid g)#}) u ratio r0"
    unfolding gg(1) by blast
  have m: "?M = {#(og_jobid g, og_stepid g)#} \<longleftrightarrow> rs @ rs' = []"
    "?M - {#(og_jobid g, og_stepid g)#} = mset (map step_id (rs @ rs'))" unfolding M by simp_all
  have "seq_inv ratio r0 sy1 (rs @ rs')"
  proof (cases "rs @ rs' = []")
    case True
    then show ?thesis using e(2) m(1) by (simp add: seq_inv_def)
  next
    case False
    have "in_force sy1 a (mset (map step_id (rs @ rs'))) u ratio r0"
      using e(2) unfolding m if_not_P[OF False] .
    then show ?thesis by (rule seq_invI[OF False _ gg(4)])
  qed
  then show ?thesis using e(1) by blast
qed

lemma seq_run_inv: "seq_run ratio r0 sy rs \<Longrightarrow> seq_inv ratio r0 sy rs"
proof (induction rule: seq_run.induct)
  case (policy sy rs v g r g1 sy1)
  from seq_inv_policy[OF policy(8,2-6)] policy(7) show ?case by auto
next
  case (leave sy rs g v rs' r sy1)
  from seq_inv_leave[OF leave(3)] leave(2) show ?case by auto
qed (simp add: seq_inv_def)

end
