(* ===== verification/OvercommitSteps.thy ===== *)
theory OvercommitSteps
  imports OvercommitLaws
begin

text \<open>
  The slurmstepd processes of a node as a step relation: between the pieces of code that the
  semaphore or the file lock separates, any other process may run.
\<close>

section \<open>Interleaved steps\<close>

text \<open>
  A slurmstepd process that asks for a mode and later exits, in the pieces between which other
  processes may run: the two calls of \<open>open\<close>, the lock (held or refused, then the code goes on
  without it), \<open>fstat\<close>, \<open>ftruncate\<close>, \<open>memset\<close>, \<open>sem_init\<close> and the release of the lock; \<open>sem_wait\<close>,
  the code up to \<open>sem_post\<close>, the writes under \<open>/proc\<close>, and \<open>overcommit_shared_ctx_destroy\<close> before and
  after the file has lost its name.
\<close>

datatype stage =
    Start
  | Name_exists
  | Descriptor overcommit_ctx
  | Asked overcommit_ctx bool
  | Unsized overcommit_ctx bool
  | Sized overcommit_ctx bool
  | Cleared overcommit_ctx bool
  | Ready overcommit_ctx bool
  | Opened overcommit_ctx
  | Inside overcommit_ctx
  | Granted overcommit_ctx
  | Running overcommit_ctx
  | Leaving overcommit_ctx
  | Unlinked overcommit_ctx bool
  | Refused overcommit_ctx
  | Refused_unlinked overcommit_ctx bool
  | Done

record request =
  rq_jobid :: int
  rq_stepid :: int
  rq_mode :: int
  rq_ratio :: int

definition request_ctx :: "request \<Rightarrow> nat \<Rightarrow> overcommit_ctx" where
  "request_ctx q a = \<lparr>oc_file = a, oc_jobid = rq_jobid q, oc_stepid = rq_stepid q\<rparr>"

fun process_step :: "request \<Rightarrow> stage \<Rightarrow> system \<Rightarrow> (stage \<times> system) option" where
  "process_step q Start sy =
    (case open_excl sy of
       None \<Rightarrow> Some (Name_exists, sy)
     | Some (a, sy1) \<Rightarrow> Some (Descriptor (request_ctx q a), sy1))"
| "process_step q Name_exists sy =
    map_option (\<lambda>a. (Descriptor (request_ctx q a), sy)) (sy_file sy)"
| "process_step q (Descriptor c) sy =
    (case fd_get_write_lock c sy of (r, sy1) \<Rightarrow> Some (Asked c (r = 0), sy1))"
| "process_step q (Asked c b) sy =
    (case sy_mem sy (oc_file c) of
       None \<Rightarrow> None
     | Some f \<Rightarrow>
         (let initialized = overcommit_shared_file_initialized f
          in if initialized < 0 then None
             else Some (if initialized = 0 then Unsized c b else Ready c b, sy)))"
| "process_step q (Unsized c b) sy = Some (Sized c b, size_file c sy)"
| "process_step q (Sized c b) sy = Some (Cleared c b, clear_info c sy)"
| "process_step q (Cleared c b) sy = Some (Ready c b, init_sem c sy)"
| "process_step q (Ready c b) sy = Some (Opened c, fd_release_lock b c sy)"
| "process_step q (Opened c) sy = map_option (Pair (Inside c)) (sem_wait c sy)"
| "process_step q (Inside c) sy =
    map_option (\<lambda>(r, sy1). (if r \<noteq> 0 then Refused c else Granted c, sy1)) (overcommit_in_use c (rq_mode q) sy)"
| "process_step q (Granted c) sy = Some (Running c, apply_policy (rq_ratio q) (rq_mode q) sy)"
| "process_step q (Running c) sy = map_option (Pair (Leaving c)) (sem_wait c sy)"
| "process_step q (Leaving c) sy =
    (case unregister_ctx c sy of
       None \<Rightarrow> None
     | Some sy1 \<Rightarrow> map_option (\<lambda>(b, sy2). (Unlinked c b, sy2)) (destroy_unlink c sy1))"
| "process_step q (Unlinked c b) sy = map_option (Pair Done) (destroy_reset c b sy)"
| "process_step q (Refused c) sy = map_option (\<lambda>(b, sy1). (Refused_unlinked c b, sy1)) (destroy_unlink c sy)"
| "process_step q (Refused_unlinked c b) sy = map_option (Pair Done) (destroy_reset c b sy)"
| "process_step q Done sy = None"

text \<open>The flag says whether a process has been refused the lock of a file so far.\<close>

definition lock_refused :: "stage \<Rightarrow> bool" where
  "lock_refused p \<longleftrightarrow> (case p of Asked c b \<Rightarrow> \<not> b | _ \<Rightarrow> False)"

inductive interleaved :: "request list \<Rightarrow> bool \<Rightarrow> stage list \<Rightarrow> system \<Rightarrow> bool" for qs where
  boot: "sy_file sy = None \<Longrightarrow> sy_mem sy = Map.empty \<Longrightarrow> interleaved qs False (replicate (length qs) Start) sy"
| turn: "interleaved qs b ps sy \<Longrightarrow> i < length ps \<Longrightarrow> process_step (qs ! i) (ps ! i) sy = Some (p, sy1) \<Longrightarrow>
    interleaved qs (b \<or> lock_refused p) (ps[i := p]) sy1"

text \<open>A process that nobody interrupts opens the file as \<open>ctx_open\<close> does.\<close>

fun alone :: "request \<Rightarrow> nat \<Rightarrow> stage \<times> system \<Rightarrow> (stage \<times> system) option" where
  "alone q 0 st = Some st"
| "alone q (Suc n) st = (case process_step q (fst st) (snd st) of None \<Rightarrow> None | Some st1 \<Rightarrow> alone q n st1)"

lemma alone_descriptor:
  assumes "overcommit_shared_info_init c sy = (r, sy1)" "0 \<le> r"
  shows "\<exists>n. alone q n (Descriptor c, sy) = Some (Opened c, sy1)"
proof -
  obtain r1 sy2 where l: "fd_get_write_lock c sy = (r1, sy2)" by fastforce
  obtain f where f: "sy_mem sy2 (oc_file c) = Some f" using assms l
    by (auto simp: overcommit_shared_info_init_def split: option.splits)
  let ?i = "overcommit_shared_file_initialized f"
  have i: "\<not> ?i < 0" and sy1: "sy1 = fd_release_lock (r1 = 0) c
      (if ?i = 0 then init_sem c (clear_info c (size_file c sy2)) else sy2)"
    using assms l f by (auto simp: overcommit_shared_info_init_def Let_def split: if_splits)
  show ?thesis
  proof (cases "?i = 0")
    case True
    then have "alone q (Suc (Suc (Suc (Suc (Suc (Suc 0)))))) (Descriptor c, sy) = Some (Opened c, sy1)"
      using l f sy1 by simp
    then show ?thesis ..
  next
    case False
    then have "alone q (Suc (Suc (Suc 0))) (Descriptor c, sy) = Some (Opened c, sy1)"
      using l f i sy1 by simp
    then show ?thesis ..
  qed
qed

lemma alone_opens:
  assumes "ctx_open (rq_jobid q) (rq_stepid q) sy = Some (c, sy')"
  shows "\<exists>n. alone q n (Start, sy) = Some (Opened c, sy')"
proof -
  have later: "\<exists>n. alone q n (Start, sy) = Some (Opened c, sy')"
    if "alone q k (Start, sy) = Some (Descriptor c, sy1)" "overcommit_shared_info_init c sy1 = (r, sy')" "0 \<le> r" for k sy1 r
  proof -
    note t = that
    obtain n where n: "alone q n (Descriptor c, sy1) = Some (Opened c, sy')"
      using alone_descriptor[OF t(2,3)] by blast
    have "alone q (k + n) st = (case alone q k st of None \<Rightarrow> None | Some st1 \<Rightarrow> alone q n st1)" for k n st
      by (induction k arbitrary: st) (auto split: option.split)
    with n t(1) have "alone q (k + n) (Start, sy) = Some (Opened c, sy')" by simp
    then show ?thesis ..
  qed
  show ?thesis
  proof (cases "open_excl sy")
    case None
    then obtain a where a: "sy_file sy = Some a" by (auto simp: open_excl_def split: option.splits)
    have "alone q (Suc (Suc 0)) (Start, sy) = Some (Descriptor (request_ctx q a), sy)" using None a by simp
    moreover have "c = request_ctx q a"
      using assms None a by (auto simp: ctx_open_def request_ctx_def Let_def split: prod.splits if_splits)
    ultimately show ?thesis
      using later[of "Suc (Suc 0)" sy] assms None a
      by (auto simp: ctx_open_def request_ctx_def Let_def not_less split: prod.splits if_splits)
  next
    case (Some x)
    obtain a sy1 where x: "x = (a, sy1)" by (cases x)
    have "alone q (Suc 0) (Start, sy) = Some (Descriptor (request_ctx q a), sy1)" using Some x by simp
    moreover have "c = request_ctx q a"
      using assms Some x by (auto simp: ctx_open_def request_ctx_def Let_def split: prod.splits if_splits)
    ultimately show ?thesis
      using later[of "Suc 0" sy1] assms Some x
      by (auto simp: ctx_open_def request_ctx_def Let_def not_less split: prod.splits if_splits)
  qed
qed

section \<open>Counting processes\<close>

definition in_section :: "nat \<Rightarrow> stage \<Rightarrow> bool" where
  "in_section a p \<longleftrightarrow> (case p of Inside c \<Rightarrow> oc_file c = a | Leaving c \<Rightarrow> oc_file c = a | Unlinked c b \<Rightarrow> oc_file c = a | _ \<Rightarrow> False)"

definition registered :: "nat \<Rightarrow> stage \<Rightarrow> bool" where
  "registered a p \<longleftrightarrow> (case p of Granted c \<Rightarrow> oc_file c = a | Running c \<Rightarrow> oc_file c = a | Leaving c \<Rightarrow> oc_file c = a | _ \<Rightarrow> False)"

text \<open>Where a process is with a file: it has the lock, has found the file empty, or is making it.\<close>

definition waiting :: "nat \<Rightarrow> stage \<Rightarrow> bool" where
  "waiting a p \<longleftrightarrow> (case p of Asked c b \<Rightarrow> oc_file c = a | Ready c b \<Rightarrow> oc_file c = a | _ \<Rightarrow> False)"

definition early :: "nat \<Rightarrow> stage \<Rightarrow> bool" where
  "early a p \<longleftrightarrow> (case p of Unsized c b \<Rightarrow> oc_file c = a | _ \<Rightarrow> False)"

definition late :: "nat \<Rightarrow> stage \<Rightarrow> bool" where
  "late a p \<longleftrightarrow> (case p of Sized c b \<Rightarrow> oc_file c = a | Cleared c b \<Rightarrow> oc_file c = a | _ \<Rightarrow> False)"

fun stage_file :: "stage \<Rightarrow> nat option" where
  "stage_file Start = None" | "stage_file Name_exists = None" | "stage_file Done = None"
| "stage_file (Descriptor c) = Some (oc_file c)" | "stage_file (Asked c b) = Some (oc_file c)"
| "stage_file (Unsized c b) = Some (oc_file c)" | "stage_file (Sized c b) = Some (oc_file c)"
| "stage_file (Cleared c b) = Some (oc_file c)" | "stage_file (Ready c b) = Some (oc_file c)"
| "stage_file (Opened c) = Some (oc_file c)" | "stage_file (Inside c) = Some (oc_file c)"
| "stage_file (Granted c) = Some (oc_file c)" | "stage_file (Running c) = Some (oc_file c)"
| "stage_file (Leaving c) = Some (oc_file c)" | "stage_file (Unlinked c b) = Some (oc_file c)"
| "stage_file (Refused c) = Some (oc_file c)" | "stage_file (Refused_unlinked c b) = Some (oc_file c)"

fun in_opening :: "stage \<Rightarrow> bool" where
  "in_opening (Descriptor c) = True" | "in_opening (Asked c b) = True" | "in_opening (Unsized c b) = True"
| "in_opening (Sized c b) = True" | "in_opening (Cleared c b) = True"
| "in_opening p = False"

text \<open>A process that may look at what the file holds.\<close>

definition working :: "nat \<Rightarrow> stage \<Rightarrow> bool" where
  "working a p \<longleftrightarrow> stage_file p = Some a \<and> \<not> in_opening p"

definition not_refused :: "stage \<Rightarrow> bool" where
  "not_refused p \<longleftrightarrow> (case p of Refused c \<Rightarrow> False | Refused_unlinked c b \<Rightarrow> False | _ \<Rightarrow> True)"

definition lock_held :: "stage \<Rightarrow> bool" where
  "lock_held p \<longleftrightarrow> (case p of Asked c b \<Rightarrow> b | Unsized c b \<Rightarrow> b | Sized c b \<Rightarrow> b | Cleared c b \<Rightarrow> b | Ready c b \<Rightarrow> b | _ \<Rightarrow> True)"

lemmas stage_defs = in_section_def registered_def waiting_def early_def late_def working_def not_refused_def lock_held_def

lemma off_file:
  assumes "stage_file p \<noteq> Some a"
  shows "\<not> in_section a p" "\<not> registered a p" "\<not> waiting a p" "\<not> early a p" "\<not> late a p" "\<not> working a p"
  using assms by (cases p; simp add: stage_defs)+

lemma on_its_file: "in_section a p \<Longrightarrow> stage_file p = Some a" "registered a p \<Longrightarrow> stage_file p = Some a"
  using off_file by blast+

lemma at_work: "working a p \<Longrightarrow> \<not> waiting a p \<Longrightarrow> \<not> early a p \<and> \<not> late a p"
  by (cases p) (simp_all add: stage_defs)

lemma working_section: "in_section a p \<Longrightarrow> working a p" "registered a p \<Longrightarrow> working a p"
  by (cases p; simp add: stage_defs)+

definition how_many :: "(stage \<Rightarrow> bool) \<Rightarrow> stage list \<Rightarrow> int" where
  "how_many P ps = int (length (filter P ps))"

lemma how_many_nonneg: "0 \<le> how_many P ps"
  by (simp add: how_many_def)

lemma how_many_update:
  "i < length ps \<Longrightarrow> how_many P (ps[i := p]) = how_many P ps - of_bool (P (ps ! i)) + of_bool (P p)"
proof (induction ps arbitrary: i)
  case (Cons q ps)
  then show ?case by (cases i) (auto simp: how_many_def)
qed simp

lemma how_many_pos: "i < length ps \<Longrightarrow> P (ps ! i) \<Longrightarrow> 1 \<le> how_many P ps"
proof (induction ps arbitrary: i)
  case (Cons q ps)
  then show ?case by (cases i) (auto simp: how_many_def)
qed simp

lemma how_many_mono: "(\<And>p. P p \<Longrightarrow> Q p) \<Longrightarrow> how_many P ps \<le> how_many Q ps"
  by (induction ps) (auto simp: how_many_def)

lemma how_many_zero: "(\<And>p. p \<in> set ps \<Longrightarrow> \<not> P p) \<Longrightarrow> how_many P ps = 0"
  by (simp add: how_many_def filter_empty_conv)

section \<open>The invariant\<close>

text \<open>
  A file whose lock nobody has been refused: the lock is held by the one process that looks at the
  file or makes it; until it is made nobody works with it, and from then on the semaphore and the
  processes inside are one.
\<close>

definition file_ok :: "int \<Rightarrow> nat \<Rightarrow> stage list \<Rightarrow> shared_file \<Rightarrow> bool" where
  "file_ok m a ps f \<longleftrightarrow> sf_owned f \<and>
    of_bool (sf_locked f) = how_many (waiting a) ps + how_many (early a) ps + how_many (late a) ps \<and>
    (sf_sized f \<longrightarrow> how_many (early a) ps = 0) \<and> (\<not> sf_sized f \<longrightarrow> how_many (late a) ps = 0) \<and>
    (if sf_sized f \<and> how_many (late a) ps = 0
     then 0 \<le> si_sem (sf_info f) \<and> si_sem (sf_info f) + how_many (in_section a) ps = 1 \<and>
       si_nusers (sf_info f) = how_many (registered a) ps \<and>
       (si_nusers (sf_info f) > 0 \<longrightarrow> si_value (sf_info f) = m)
     else sf_info f = zero_info \<and> how_many (working a) ps = 0)"

definition conc_inv :: "int \<Rightarrow> stage list \<Rightarrow> system \<Rightarrow> bool" where
  "conc_inv m ps sy \<longleftrightarrow> (\<forall>a. sy_next sy \<le> a \<longrightarrow> sy_mem sy a = None) \<and>
    (\<forall>a. sy_file sy = Some a \<longrightarrow> sy_mem sy a \<noteq> None) \<and>
    (\<forall>p\<in>set ps. not_refused p \<and> lock_held p \<and> (\<forall>a. stage_file p = Some a \<longrightarrow> sy_mem sy a \<noteq> None)) \<and>
    (\<forall>a f. sy_mem sy a = Some f \<longrightarrow> file_ok m a ps f)"

lemma conc_invD:
  assumes "conc_inv m ps sy"
  shows "sy_next sy \<le> a \<Longrightarrow> sy_mem sy a = None" "sy_file sy = Some a \<Longrightarrow> sy_mem sy a \<noteq> None"
    "p \<in> set ps \<Longrightarrow> not_refused p" "p \<in> set ps \<Longrightarrow> lock_held p"
    "p \<in> set ps \<Longrightarrow> stage_file p = Some a \<Longrightarrow> sy_mem sy a \<noteq> None"
    "sy_mem sy a = Some f \<Longrightarrow> file_ok m a ps f"
  using assms unfolding conc_inv_def by blast+

text \<open>What the invariant says of the users and the semaphore, made or not.\<close>

lemma file_ok_counts:
  assumes "file_ok m a ps f"
  shows "si_nusers (sf_info f) = how_many (registered a) ps"
    "how_many (in_section a) ps \<le> 1"
proof -
  note w = how_many_mono[of "in_section a" "working a" ps] how_many_mono[of "registered a" "working a" ps]
    how_many_nonneg[of "in_section a" ps] how_many_nonneg[of "registered a" ps]
  have "si_nusers (sf_info f) = how_many (registered a) ps \<and> how_many (in_section a) ps \<le> 1"
  proof (cases "sf_sized f \<and> how_many (late a) ps = 0")
    case True
    then show ?thesis using assms by (simp add: file_ok_def)
  next
    case False
    then have "sf_info f = zero_info" "how_many (working a) ps = 0" using assms by (auto simp: file_ok_def split: if_splits)
    then show ?thesis using w working_section by (auto simp: zero_info_def)
  qed
  then show "si_nusers (sf_info f) = how_many (registered a) ps" "how_many (in_section a) ps \<le> 1" by simp_all
qed

lemma other_file:
  assumes "i < length ps" "stage_file (ps ! i) \<noteq> Some b" "stage_file p \<noteq> Some b"
  shows "file_ok m b (ps[i := p]) f = file_ok m b ps f"
  using off_file[OF assms(2)] off_file[OF assms(3)] by (simp add: file_ok_def how_many_update[OF assms(1)])

lemma conc_inv_touch:
  assumes inv: "conc_inv m ps sy" and i: "i < length ps" and a: "sy_mem sy a = Some f"
    and p: "stage_file (ps ! i) = None \<or> stage_file (ps ! i) = Some a" "stage_file p = None \<or> stage_file p = Some a"
      "not_refused p" "lock_held p"
    and sy': "sy_mem sy' = (sy_mem sy)(a \<mapsto> f')" "sy_next sy' = sy_next sy" "sy_file sy' = sy_file sy \<or> sy_file sy' = None"
    and f': "file_ok m a (ps[i := p]) f'"
  shows "conc_inv m (ps[i := p]) sy'"
  unfolding conc_inv_def
proof (intro conjI allI impI ballI)
  fix b assume "sy_next sy' \<le> b"
  then show "sy_mem sy' b = None" using conc_invD(1)[OF inv] a sy'(1,2) by (auto simp: fun_upd_def)
next
  fix b assume "sy_file sy' = Some b"
  then show "sy_mem sy' b \<noteq> None" using conc_invD(2)[OF inv] sy'(1,3) by auto
next
  fix r assume "r \<in> set (ps[i := p])"
  then have r: "r = p \<or> r \<in> set ps" using set_update_subset_insert by fastforce
  then show "not_refused r" "lock_held r" using p(3,4) conc_invD(3,4)[OF inv] by blast+
  fix b assume "stage_file r = Some b"
  then show "sy_mem sy' b \<noteq> None" using r p(2) conc_invD(5)[OF inv] sy'(1) by auto
next
  fix b g assume g: "sy_mem sy' b = Some g"
  show "file_ok m b (ps[i := p]) g"
  proof (cases "b = a")
    case True
    then show ?thesis using g sy'(1) f' by simp
  next
    case False
    then have "sy_mem sy b = Some g" "stage_file (ps ! i) \<noteq> Some b" "stage_file p \<noteq> Some b" using g sy'(1) p(1,2) by auto
    then show ?thesis using conc_invD(6)[OF inv] other_file[OF i] by blast
  qed
qed

text \<open>A step of a process that works with a file.\<close>

lemma conc_inv_work:
  assumes inv: "conc_inv m ps sy" and i: "i < length ps" and a: "working a (ps ! i)" "\<not> waiting a (ps ! i)" "sy_mem sy a = Some f"
    and sy': "sy_mem sy' = (sy_mem sy)(a \<mapsto> f')" "sy_next sy' = sy_next sy" "sy_file sy' = sy_file sy \<or> sy_file sy' = None"
    and f': "sf_owned f' = sf_owned f" "sf_locked f' = sf_locked f" "sf_sized f' = sf_sized f"
    and I: "0 \<le> si_sem (sf_info f) \<Longrightarrow> si_sem (sf_info f) + how_many (in_section a) ps = 1 \<Longrightarrow>
      si_nusers (sf_info f) = how_many (registered a) ps \<Longrightarrow> (0 < si_nusers (sf_info f) \<Longrightarrow> si_value (sf_info f) = m) \<Longrightarrow>
      0 \<le> si_sem (sf_info f') \<and>
      si_sem (sf_info f') + of_bool (in_section a p) = si_sem (sf_info f) + of_bool (in_section a (ps ! i)) \<and>
      si_nusers (sf_info f') - of_bool (registered a p) = si_nusers (sf_info f) - of_bool (registered a (ps ! i)) \<and>
      (0 < si_nusers (sf_info f') \<longrightarrow> si_value (sf_info f') = m)"
    and p: "not_refused p" "p = Done \<or> working a p \<and> \<not> waiting a p"
  shows "conc_inv m (ps[i := p]) sy'"
proof (rule conc_inv_touch[OF inv i a(3) _ _ p(1) _ sy'])
  show "stage_file (ps ! i) = None \<or> stage_file (ps ! i) = Some a" using a(1) by (simp add: working_def)
  show "stage_file p = None \<or> stage_file p = Some a" using p(2) by (auto simp: working_def)
  show "lock_held p" using p(2) by (cases p) (auto simp: stage_defs)
  have n: "\<not> early a (ps ! i)" "\<not> late a (ps ! i)" "\<not> early a p" "\<not> late a p" "\<not> waiting a p"
    using a(1,2) p(2) at_work by (auto simp: stage_defs)
  have w: "1 \<le> how_many (working a) ps" using how_many_pos[of i ps "working a"] i a(1) by blast
  have ok: "file_ok m a ps f" by (rule conc_invD(6)[OF inv a(3)])
  then have s: "sf_sized f" "how_many (late a) ps = 0" using w by (auto simp: file_ok_def split: if_splits)
  with ok have "0 \<le> si_sem (sf_info f)" "si_sem (sf_info f) + how_many (in_section a) ps = 1"
    "si_nusers (sf_info f) = how_many (registered a) ps" "0 < si_nusers (sf_info f) \<Longrightarrow> si_value (sf_info f) = m"
    by (simp_all add: file_ok_def)
  note I' = I[OF this]
  show "file_ok m a (ps[i := p]) f'"
    using ok s n a(2) f' I' by (simp add: file_ok_def how_many_update[OF i])
qed

lemma put_info_mem:
  "sy_mem sy (oc_file c) = Some f \<Longrightarrow> sy_mem (put_info c i sy) = (sy_mem sy)(oc_file c \<mapsto> f\<lparr>sf_info := i\<rparr>)"
  "sy_next (put_info c i sy) = sy_next sy" "sy_file (put_info c i sy) = sy_file sy"
  by (simp_all add: put_info_def)

lemma info_mem: "sy_mem sy (oc_file c) = Some f \<Longrightarrow> the_info sy c = Some (sf_info f)"
  by (simp add: the_info_def)

lemma post_mem:
  "sem_post c sy = Some sy' \<Longrightarrow> sy_mem sy (oc_file c) = Some f \<Longrightarrow>
   sy_mem sy' = (sy_mem sy)(oc_file c \<mapsto> f\<lparr>sf_info := (sf_info f)\<lparr>si_sem := si_sem (sf_info f) + 1\<rparr>\<rparr>) \<and>
   sy_next sy' = sy_next sy \<and> sy_file sy' = sy_file sy"
  by (auto simp: sem_post_def info_mem put_info_mem)

lemma wait_mem:
  "sem_wait c sy = Some sy' \<Longrightarrow> sy_mem sy (oc_file c) = Some f \<Longrightarrow>
   sy_mem sy' = (sy_mem sy)(oc_file c \<mapsto> f\<lparr>sf_info := (sf_info f)\<lparr>si_sem := si_sem (sf_info f) - 1\<rparr>\<rparr>) \<and>
   sy_next sy' = sy_next sy \<and> sy_file sy' = sy_file sy \<and> 0 < si_sem (sf_info f)"
  by (auto simp: sem_wait_def info_mem put_info_mem split: if_splits)

lemma kernel_mem:
  "sy_mem (snd (overcommit_memory_set_current_state v sy)) = sy_mem sy"
  "sy_next (snd (overcommit_memory_set_current_state v sy)) = sy_next sy"
  "sy_mem (snd (overcommit_ratio_set v sy)) = sy_mem sy" "sy_next (snd (overcommit_ratio_set v sy)) = sy_next sy"
  "sy_mem (apply_policy ratio v sy) = sy_mem sy" "sy_next (apply_policy ratio v sy) = sy_next sy"
  "sy_file (snd (overcommit_memory_set_current_state v sy)) = sy_file sy" "sy_file (snd (overcommit_ratio_set v sy)) = sy_file sy"
  "sy_file (apply_policy ratio v sy) = sy_file sy"
  by (simp_all add: overcommit_memory_set_current_state_def overcommit_ratio_set_def apply_policy_def)

lemma use_mem:
  assumes "overcommit_in_use c v sy = Some (r, sy')" "sy_mem sy (oc_file c) = Some f"
    and "0 < si_nusers (sf_info f) \<Longrightarrow> si_value (sf_info f) = v"
  shows "r = 0 \<and> (\<exists>i. sy_mem sy' = (sy_mem sy)(oc_file c \<mapsto> f\<lparr>sf_info := i\<rparr>) \<and> sy_next sy' = sy_next sy \<and> sy_file sy' = sy_file sy \<and>
    si_sem i = si_sem (sf_info f) + 1 \<and> si_nusers i = si_nusers (sf_info f) + 1 \<and>
    (si_nusers (sf_info f) \<ge> 0 \<longrightarrow> si_value i = v))"
proof -
  define i1 where "i1 = (if si_nusers (sf_info f) = 0
    then (sf_info f)\<lparr>si_value := v, si_prev_ratio := overcommit_ratio_get sy\<rparr> else sf_info f)"
  have n: "\<not> (si_nusers (sf_info f) > 0 \<and> si_value (sf_info f) \<noteq> v)" using assms(3) by blast
  obtain us where us: "register_loop c (si_users i1) = Some us"
    and post: "sem_post c (put_info c (i1\<lparr>si_users := us, si_nusers := si_nusers i1 + 1\<rparr>) sy) = Some sy'" "r = 0"
    using assms(1) unfolding overcommit_in_use_def info_mem[OF assms(2)] option.case if_not_P[OF n] Let_def i1_def[symmetric]
    by (auto simp: register_job_def split: option.splits)
  define i2 where "i2 = i1\<lparr>si_users := us, si_nusers := si_nusers i1 + 1\<rparr>"
  note pm = put_info_mem(1)[OF assms(2), of i2] put_info_mem(2,3)[of c i2 sy]
  have "sy_mem (put_info c i2 sy) (oc_file c) = Some (f\<lparr>sf_info := i2\<rparr>)" using pm by simp
  from post_mem[OF post(1)[folded i2_def] this] pm have
    "sy_mem sy' = (sy_mem sy)(oc_file c \<mapsto> f\<lparr>sf_info := i2\<lparr>si_sem := si_sem i2 + 1\<rparr>\<rparr>)" "sy_next sy' = sy_next sy" "sy_file sy' = sy_file sy"
    by simp_all
  moreover have "si_sem i2 = si_sem (sf_info f)" "si_nusers i2 = si_nusers (sf_info f) + 1"
    "si_nusers (sf_info f) \<ge> 0 \<longrightarrow> si_value i2 = v"
    using assms(3) by (auto simp: i2_def i1_def)
  ultimately show ?thesis using post(2) by (intro conjI exI[of _ "i2\<lparr>si_sem := si_sem i2 + 1\<rparr>"]) simp_all
qed

lemma change_mem:
  "sy_mem sy (oc_file c) = Some f \<Longrightarrow> sy_mem (change_file g c sy) = (sy_mem sy)(oc_file c \<mapsto> g f)"
  "sy_next (change_file g c sy) = sy_next sy" "sy_file (change_file g c sy) = sy_file sy"
  by (simp_all add: change_file_def)

lemma conc_inv_change:
  assumes "conc_inv m ps sy" "i < length ps" "sy_mem sy (oc_file c) = Some f"
    and "stage_file (ps ! i) = Some (oc_file c)" "stage_file p = Some (oc_file c)" "not_refused p" "lock_held p"
    and "file_ok m (oc_file c) (ps[i := p]) (h f)"
  shows "conc_inv m (ps[i := p]) (change_file h c sy)"
  by (rule conc_inv_touch[OF assms(1-3)]) (use assms in \<open>simp_all add: change_mem\<close>)

section \<open>Opening\<close>

lemma excl_inv:
  assumes inv: "conc_inv m ps sy" and i: "i < length ps" "ps ! i = Start"
    and o: "open_excl sy = Some (a, sy')" and c: "oc_file c = a"
  shows "conc_inv m (ps[i := Descriptor c]) sy'"
proof -
  let ?f = "\<lparr>sf_owned = True, sf_locked = False, sf_sized = False, sf_info = zero_info\<rparr>"
  have r: "a = sy_next sy" "sy_mem sy' = (sy_mem sy)(a \<mapsto> ?f)" "sy_next sy' = a + 1" "sy_file sy' = Some a"
    using o by (auto simp: open_excl_def split: option.splits)
  have new: "sy_mem sy a = None" using conc_invD(1)[OF inv] r(1) by simp
  then have none: "stage_file p \<noteq> Some a" if "p \<in> set ps" for p using conc_invD(5)[OF inv that] by blast
  then have z: "how_many (waiting a) ps = 0" "how_many (early a) ps = 0" "how_many (late a) ps = 0" "how_many (working a) ps = 0"
    using off_file by (auto intro!: how_many_zero)
  show ?thesis unfolding conc_inv_def
  proof (intro conjI allI impI ballI)
    fix b assume "sy_next sy' \<le> b"
    then show "sy_mem sy' b = None" using conc_invD(1)[OF inv, of b] r by simp
  next
    fix b assume "sy_file sy' = Some b"
    then show "sy_mem sy' b \<noteq> None" using r by simp
  next
    fix p assume "p \<in> set (ps[i := Descriptor c])"
    then have p: "p = Descriptor c \<or> p \<in> set ps" using set_update_subset_insert by fastforce
    then show "not_refused p" "lock_held p" using conc_invD(3,4)[OF inv] by (auto simp: stage_defs)
    fix b assume "stage_file p = Some b"
    then show "sy_mem sy' b \<noteq> None" using p conc_invD(5)[OF inv] r(2) c by auto
  next
    fix b f assume f: "sy_mem sy' b = Some f"
    show "file_ok m b (ps[i := Descriptor c]) f"
    proof (cases "b = a")
      case True
      then have "f = ?f" using f r(2) by simp
      then show ?thesis using True z i(2) by (simp add: file_ok_def how_many_update[OF i(1)] stage_defs)
    next
      case False
      then have "sy_mem sy b = Some f" using f r(2) by simp
      then show ?thesis using False c i(2) conc_invD(6)[OF inv] other_file[OF i(1)] by simp
    qed
  qed
qed

lemma opening_inv:
  assumes inv: "conc_inv m ps sy" and i: "i < length ps" and o: "in_opening (ps ! i) \<or> ps ! i = Ready c b"
    and st: "process_step q (ps ! i) sy = Some (p, sy')" and l: "\<not> lock_refused p"
  shows "conc_inv m (ps[i := p]) sy'"
proof -
  have mem: "ps ! i \<in> set ps" using i by simp
  note its = conc_invD(5)[OF inv mem]
  have held: "lock_held (ps ! i)" using conc_invD(4)[OF inv mem] .
  note up = how_many_update[OF i]
  note pos = how_many_pos[OF i] and nn = how_many_nonneg
  show ?thesis
  proof (cases "ps ! i")
    case (Descriptor c)
    then obtain f where f: "sy_mem sy (oc_file c) = Some f" using its[of "oc_file c"] by auto
    have g: "\<not> sf_locked f" "p = Asked c True" "sy' = change_file (\<lambda>f. f\<lparr>sf_locked := True\<rparr>) c sy"
      using st l Descriptor f by (auto simp: fd_get_write_lock_def lock_refused_def split: if_splits)
    note ok = conc_invD(6)[OF inv f]
    show ?thesis
      unfolding g(3) by (rule conc_inv_change[OF inv i f])
        (use Descriptor g ok in \<open>simp_all add: change_mem stage_defs file_ok_def up\<close>)
  next
    case (Asked c b)
    then obtain f where f: "sy_mem sy (oc_file c) = Some f" using its[of "oc_file c"] by auto
    note ok = conc_invD(6)[OF inv f]
    have b: "b" using held Asked by (simp add: lock_held_def)
    have g: "p = (if sf_sized f then Ready c b else Unsized c b)" "sy' = sy"
      using st Asked f ok by (auto simp: overcommit_shared_file_initialized_def file_ok_def Let_def split: if_splits)
    have w: "1 \<le> how_many (waiting (oc_file c)) ps" using pos[of "waiting (oc_file c)"] Asked by (simp add: stage_defs)
    have c: "how_many (waiting (oc_file c)) ps = 1" "how_many (early (oc_file c)) ps = 0" "how_many (late (oc_file c)) ps = 0"
      using ok w nn[of "early (oc_file c)" ps] nn[of "late (oc_file c)" ps] by (auto simp: file_ok_def of_bool_def split: if_splits)
    have sy': "sy_mem sy' = (sy_mem sy)(oc_file c \<mapsto> f)" using f g(2) by (simp add: fun_upd_idem)
    show ?thesis
      by (rule conc_inv_touch[OF inv i f _ _ _ _ sy'])
        (use Asked g ok b c in \<open>auto simp: stage_defs file_ok_def up split: if_splits\<close>)
  next
    case (Unsized c b)
    then obtain f where f: "sy_mem sy (oc_file c) = Some f" using its[of "oc_file c"] by auto
    note ok = conc_invD(6)[OF inv f]
    have b: "b" using held Unsized by (simp add: lock_held_def)
    have g: "p = Sized c b" "sy' = change_file (\<lambda>f. f\<lparr>sf_sized := True\<rparr>) c sy"
      using st Unsized by (simp_all add: size_file_def)
    have w: "1 \<le> how_many (early (oc_file c)) ps" using pos[of "early (oc_file c)"] Unsized by (simp add: stage_defs)
    have c: "how_many (waiting (oc_file c)) ps = 0" "how_many (early (oc_file c)) ps = 1" "how_many (late (oc_file c)) ps = 0"
      using ok w nn[of "waiting (oc_file c)" ps] nn[of "late (oc_file c)" ps] by (auto simp: file_ok_def of_bool_def split: if_splits)
    show ?thesis
      unfolding g(2) by (rule conc_inv_change[OF inv i f])
        (use Unsized g ok b c in \<open>auto simp: change_mem stage_defs file_ok_def up split: if_splits\<close>)
  next
    case (Sized c b)
    then obtain f where f: "sy_mem sy (oc_file c) = Some f" using its[of "oc_file c"] by auto
    note ok = conc_invD(6)[OF inv f]
    have b: "b" using held Sized by (simp add: lock_held_def)
    have g: "p = Cleared c b" "sy' = change_file (\<lambda>f. f\<lparr>sf_info := zero_info\<rparr>) c sy"
      using st Sized by (simp_all add: clear_info_def)
    have w: "1 \<le> how_many (late (oc_file c)) ps" using pos[of "late (oc_file c)"] Sized by (simp add: stage_defs)
    show ?thesis
      unfolding g(2) by (rule conc_inv_change[OF inv i f])
        (use Sized g ok b w in \<open>auto simp: change_mem stage_defs file_ok_def up split: if_splits\<close>)
  next
    case (Cleared c b)
    then obtain f where f: "sy_mem sy (oc_file c) = Some f" using its[of "oc_file c"] by auto
    note ok = conc_invD(6)[OF inv f]
    have b: "b" using held Cleared by (simp add: lock_held_def)
    have g: "p = Ready c b" "sy' = change_file (\<lambda>f. f\<lparr>sf_info := (sf_info f)\<lparr>si_sem := 1\<rparr>\<rparr>) c sy"
      using st Cleared by (simp_all add: init_sem_def)
    let ?a = "oc_file c"
    have w: "1 \<le> how_many (late ?a) ps" using pos[of "late ?a"] Cleared by (simp add: stage_defs)
    then have c: "how_many (waiting ?a) ps = 0" "how_many (early ?a) ps = 0" "how_many (late ?a) ps = 1" "sf_sized f"
      "sf_info f = zero_info" "how_many (working ?a) ps = 0" "sf_locked f"
      using ok nn[of "waiting ?a" ps] nn[of "early ?a" ps] by (auto simp: file_ok_def of_bool_def split: if_splits)
    have "how_many (in_section ?a) ps = 0" "how_many (registered ?a) ps = 0"
      using c(6) how_many_mono[of "in_section ?a" "working ?a" ps] how_many_mono[of "registered ?a" "working ?a" ps]
        nn[of "in_section ?a" ps] nn[of "registered ?a" ps] working_section by auto
    then show ?thesis
      unfolding g(2) by (intro conc_inv_change[OF inv i f])
        (use Cleared g ok b c in \<open>auto simp: change_mem stage_defs file_ok_def up zero_info_def\<close>)
  next
    case (Ready c b)
    then obtain f where f: "sy_mem sy (oc_file c) = Some f" using its[of "oc_file c"] by auto
    note ok = conc_invD(6)[OF inv f]
    have b: "b" using held Ready by (simp add: lock_held_def)
    have g: "p = Opened c" "sy' = change_file (\<lambda>f. f\<lparr>sf_locked := False\<rparr>) c sy"
      using st Ready b by (simp_all add: fd_release_lock_def)
    let ?a = "oc_file c"
    have w: "1 \<le> how_many (waiting ?a) ps" "1 \<le> how_many (working ?a) ps"
      using pos[of "waiting ?a"] pos[of "working ?a"] Ready by (simp_all add: stage_defs)
    have c: "how_many (waiting ?a) ps = 1" "how_many (early ?a) ps = 0" "how_many (late ?a) ps = 0"
      using ok w nn[of "early ?a" ps] nn[of "late ?a" ps] by (auto simp: file_ok_def of_bool_def split: if_splits)
    show ?thesis
      unfolding g(2) by (rule conc_inv_change[OF inv i f])
        (use Ready g ok b c w in \<open>auto simp: change_mem stage_defs file_ok_def up split: if_splits\<close>)
  qed (use o in simp_all)
qed

section \<open>Every step keeps the invariant\<close>

lemma conc_inv_idle:
  assumes inv: "conc_inv m ps sy" and i: "i < length ps" "stage_file (ps ! i) = None"
    and p: "not_refused p" "lock_held p" "stage_file p = None"
  shows "conc_inv m (ps[i := p]) sy"
  unfolding conc_inv_def
proof (intro conjI allI impI ballI)
  fix r assume "r \<in> set (ps[i := p])"
  then have r: "r = p \<or> r \<in> set ps" using set_update_subset_insert by fastforce
  then show "not_refused r" "lock_held r" using p conc_invD(3,4)[OF inv] by blast+
  fix b assume "stage_file r = Some b"
  then show "sy_mem sy b \<noteq> None" using r p(3) conc_invD(5)[OF inv] by auto
next
  fix b f assume "sy_mem sy b = Some f"
  then show "file_ok m b (ps[i := p]) f" using conc_invD(6)[OF inv] other_file[OF i(1)] i(2) p(3) by simp
qed (use conc_invD(1,2)[OF inv] in auto)

lemma open_inv:
  assumes inv: "conc_inv m ps sy" and i: "i < length ps" "ps ! i = Start \<or> ps ! i = Name_exists"
    and st: "process_step q (ps ! i) sy = Some (p, sy')"
  shows "conc_inv m (ps[i := p]) sy'"
proof (cases "ps ! i = Start \<and> open_excl sy \<noteq> None")
  case True
  then show ?thesis using st excl_inv[OF inv i(1)] by (auto simp: request_ctx_def)
next
  case False
  show ?thesis
  proof (cases "ps ! i = Start")
    case True
    then have "open_excl sy = None" using False by (cases "open_excl sy") auto
    then have "p = Name_exists" "sy' = sy" using True st by simp_all
    then show ?thesis using True conc_inv_idle[OF inv i(1)] by (simp add: stage_defs)
  next
    case n: False
    then obtain a where a: "sy_file sy = Some a" "p = Descriptor (request_ctx q a)" "sy' = sy" using i(2) st by auto
    obtain f where f: "sy_mem sy a = Some f" using conc_invD(2)[OF inv a(1)] by blast
    have sy': "sy_mem sy' = (sy_mem sy)(a \<mapsto> f)" using f a(3) by (simp add: fun_upd_idem)
    show ?thesis
      by (rule conc_inv_touch[OF inv i(1) f _ _ _ _ sy'])
        (use n i(2) a conc_invD(6)[OF inv f] in \<open>auto simp: stage_defs file_ok_def how_many_update[OF i(1)] request_ctx_def\<close>)
  qed
qed

lemma process_step_inv:
  assumes inv: "conc_inv m ps sy" and i: "i < length ps" and m: "rq_mode q = m"
    and st: "process_step q (ps ! i) sy = Some (p, sy')" and l: "\<not> lock_refused p"
  shows "conc_inv m (ps[i := p]) sy'"
proof -
  have mem: "ps ! i \<in> set ps" using i by simp
  note its = conc_invD(5)[OF inv mem]
  note in_work = conc_inv_work[OF inv i]
  show ?thesis
  proof (cases "ps ! i")
    case (Opened c)
    then obtain f where f: "sy_mem sy (oc_file c) = Some f" using its[of "oc_file c"] by auto
    have w: "sem_wait c sy = Some sy'" "p = Inside c" using st Opened by auto
    note wait = wait_mem[OF w(1) f]
    show ?thesis
      by (rule in_work[OF _ _ f conjunct1[OF wait]])
        (use wait Opened w(2) in \<open>simp_all add: stage_defs\<close>)
  next
    case (Inside c)
    then obtain f where f: "sy_mem sy (oc_file c) = Some f" using its[of "oc_file c"] by auto
    have wk: "1 \<le> how_many (working (oc_file c)) ps" using how_many_pos[OF i] Inside by (simp add: stage_defs)
    have D: "0 < si_nusers (sf_info f) \<Longrightarrow> si_value (sf_info f) = m" "0 \<le> si_nusers (sf_info f)"
      using conc_invD(6)[OF inv f] wk how_many_nonneg[of "registered (oc_file c)" ps] by (auto simp: file_ok_def split: if_splits)
    obtain r where u: "overcommit_in_use c m sy = Some (r, sy')" "p = (if r \<noteq> 0 then Refused c else Granted c)"
      using st Inside m by auto
    obtain i1 where r: "r = 0" and i1: "sy_mem sy' = (sy_mem sy)(oc_file c \<mapsto> f\<lparr>sf_info := i1\<rparr>)"
      "sy_next sy' = sy_next sy" "sy_file sy' = sy_file sy"
      "si_sem i1 = si_sem (sf_info f) + 1" "si_nusers i1 = si_nusers (sf_info f) + 1" "si_value i1 = m"
      using use_mem[OF u(1) f] D by auto
    show ?thesis
      by (rule in_work[OF _ _ f i1(1,2)]) (use i1 Inside u(2) r in \<open>simp_all add: stage_defs\<close>)
  next
    case (Granted c)
    then obtain f where f: "sy_mem sy (oc_file c) = Some f" using its[of "oc_file c"] by auto
    have w: "sy' = apply_policy (rq_ratio q) (rq_mode q) sy" "p = Running c" using st Granted by auto
    have sy': "sy_mem sy' = (sy_mem sy)(oc_file c \<mapsto> f)" "sy_next sy' = sy_next sy"
      using f by (auto simp: w(1) kernel_mem fun_upd_idem)
    show ?thesis
      by (rule in_work[OF _ _ f sy']) (use Granted w in \<open>simp_all add: kernel_mem stage_defs\<close>)
  next
    case (Running c)
    then obtain f where f: "sy_mem sy (oc_file c) = Some f" using its[of "oc_file c"] by auto
    have w: "sem_wait c sy = Some sy'" "p = Leaving c" using st Running by auto
    note wait = wait_mem[OF w(1) f]
    show ?thesis
      by (rule in_work[OF _ _ f conjunct1[OF wait]])
        (use wait Running w(2) in \<open>simp_all add: stage_defs\<close>)
  next
    case (Leaving c)
    then obtain f where f: "sy_mem sy (oc_file c) = Some f" using its[of "oc_file c"] by auto
    obtain us b where u: "unregister_loop c (si_users (sf_info f)) = Some us" "p = Unlinked c b"
      and sy': "sy_mem sy' = sy_mem (put_info c ((sf_info f)\<lparr>si_users := us, si_nusers := si_nusers (sf_info f) - 1\<rparr>) sy)"
        "sy_next sy' = sy_next sy" "sy_file sy' = sy_file sy \<or> sy_file sy' = None"
      using st Leaving by (auto simp: unregister_ctx_def info_mem[OF f] unregister_job_def destroy_unlink_def put_info_mem
          split: option.splits if_splits)
    show ?thesis
      by (rule in_work[OF _ _ f sy'(1)[unfolded put_info_mem(1)[OF f]] sy'(2,3)])
        (use Leaving u(2) in \<open>auto simp: stage_defs\<close>)
  next
    case (Unlinked c b)
    then obtain f where f: "sy_mem sy (oc_file c) = Some f" using its[of "oc_file c"] by auto
    obtain sy1 where s: "sem_post c sy1 = Some sy'" "sy_mem sy1 = sy_mem sy" "sy_next sy1 = sy_next sy"
      "sy_file sy1 = sy_file sy" and p: "p = Done"
      using st Unlinked by (auto simp: destroy_reset_def info_mem[OF f] kernel_mem split: if_splits)
    have f1: "sy_mem sy1 (oc_file c) = Some f" using f s(2) by simp
    note post = post_mem[OF s(1) f1, unfolded s(2-4)]
    show ?thesis
      by (rule in_work[OF _ _ f conjunct1[OF post]])
        (use post Unlinked p in \<open>simp_all add: stage_defs\<close>)
  next
    case Start
    then show ?thesis using open_inv[OF inv i _ st] by simp
  next
    case Name_exists
    then show ?thesis using open_inv[OF inv i _ st] by simp
  next
    case Done
    then show ?thesis using st by simp
  next
    case (Refused c)
    then show ?thesis using conc_invD(3)[OF inv mem] by (simp add: not_refused_def)
  next
    case (Refused_unlinked c b)
    then show ?thesis using conc_invD(3)[OF inv mem] by (simp add: not_refused_def)
  qed (use opening_inv[OF inv i _ st l] in auto)
qed

lemma interleaved_inv:
  "interleaved qs b ps sy \<Longrightarrow> \<forall>q\<in>set qs. rq_mode q = m \<Longrightarrow> (\<not> b \<longrightarrow> conc_inv m ps sy) \<and> length ps = length qs"
proof (induction rule: interleaved.induct)
  case (boot sy)
  then show ?case by (auto simp: conc_inv_def stage_defs)
next
  case (turn b ps sy i p sy1)
  then have "rq_mode (qs ! i) = m" by simp
  with turn process_step_inv[of m ps sy i "qs ! i" p sy1] show ?case by simp
qed

text \<open>Schedules: which process moves next.\<close>

fun run_schedule ::
    "request list \<Rightarrow> nat list \<Rightarrow> bool \<times> stage list \<times> system \<Rightarrow> (bool \<times> stage list \<times> system) option" where
  "run_schedule qs [] st = Some st"
| "run_schedule qs (i # is) (b, ps, sy) =
    (if i < length ps
     then (case process_step (qs ! i) (ps ! i) sy of
             None \<Rightarrow> None
           | Some (p, sy1) \<Rightarrow> run_schedule qs is (b \<or> lock_refused p, ps[i := p], sy1))
     else None)"

lemma run_schedule_interleaved:
  "run_schedule qs is (b, ps, sy) = Some (b', ps', sy') \<Longrightarrow> interleaved qs b ps sy \<Longrightarrow> interleaved qs b' ps' sy'"
proof (induction "is" arbitrary: b ps sy)
  case (Cons i "is")
  then obtain p sy1 where "i < length ps" "process_step (qs ! i) (ps ! i) sy = Some (p, sy1)"
    "run_schedule qs is (b \<or> lock_refused p, ps[i := p], sy1) = Some (b', ps', sy')"
    by (auto split: if_splits option.splits)
  with Cons show ?case by (blast intro: interleaved.turn)
qed simp

definition quiet :: system where
  "quiet = \<lparr>sy_file = None, sy_mem = Map.empty, sy_next = 0, sy_proc = True, sy_overcommit = 0, sy_ratio = 50\<rparr>"

lemma quiet_run:
  "run_schedule qs is (False, replicate (length qs) Start, quiet) = Some (b, ps, sy) \<Longrightarrow> interleaved qs b ps sy"
  using run_schedule_interleaved[OF _ interleaved.boot] by (simp add: quiet_def)

end
