(* ===== verification/OvercommitProps.thy ===== *)
theory OvercommitProps
  imports OvercommitSteps
begin

text \<open>
  Properties of \<open>overcommit-memory\<close>: which mode is in force while calls follow each other, what
  the semaphore guarantees when the steps of several processes interleave, and where it fails.
\<close>

section \<open>Properties\<close>

text \<open>
  C9: the mode in force.  In every run in which each call ends before the next begins, the kernel
  has the mode and the ratio that every job step with a granted request asked for; when the last of
  them has left, the default mode and the ratio found at the start are back and the file is gone.
\<close>

theorem overcommit_mode_in_force:
  assumes "seq_run ratio r0 sy rs"
  shows "(\<forall>x\<in>set rs. sy_overcommit sy = snd x \<and> sy_ratio sy = ratio) \<and>
    (rs = [] \<longrightarrow> sy_overcommit sy = 0 \<and> sy_ratio sy = r0 \<and> sy_file sy = None)"
proof
  note inv = seq_run_inv[OF assms]
  show "rs = [] \<longrightarrow> sy_overcommit sy = 0 \<and> sy_ratio sy = r0 \<and> sy_file sy = None"
    using inv by (simp add: seq_inv_def)
  show "\<forall>x\<in>set rs. sy_overcommit sy = snd x \<and> sy_ratio sy = ratio"
  proof (cases "rs = []")
    case False
    from seq_inv_cases[OF inv this] show ?thesis by (metis granted_all_def in_force_def)
  qed simp
qed

definition job7 :: overcommit_globals where
  "job7 = \<lparr>og_jobid = 7, og_stepid = 0, og_ratio = 60, og_ctx = None, og_freed = False\<rparr>"

theorem overcommit_mode_in_force_witness:
  "\<exists>g1 sy1. set_overcommit_policy 2 (job7, quiet) = Some (0, g1, sy1) \<and> \<not> og_freed g1 \<and>
    sy_overcommit sy1 = 2 \<and> sy_ratio sy1 = 60"
proof -
  have q: "seq_run 60 50 quiet []" by (rule seq_run.start) (simp_all add: quiet_def)
  have g: "(2 :: int) \<in> {0, 1, 2}" "og_ratio job7 = 60" "og_jobid job7 \<noteq> 0" "0 \<le> og_stepid job7"
    by (simp_all add: job7_def)
  have len: "length ([] :: (overcommit_globals \<times> int) list) < 64" by simp
  obtain g1 sy1 where s: "set_overcommit_policy 2 (job7, quiet) = Some (0, g1, sy1)" "\<not> og_freed g1"
    using seq_inv_policy[OF seq_run_inv[OF q] g len] by auto
  from seq_run.policy[OF q g len s(1)] s(2) have "seq_run 60 50 sy1 [(g1, 2)]" by simp
  from overcommit_mode_in_force[OF this] s show ?thesis by auto
qed

text \<open>
  Every call returns, in runs of whole calls, one after the other, for steps with numbers from 0 on.
  With fewer than 64 steps running a request is answered: it is refused, and changes nothing in the
  kernel, exactly when a step with another mode is running; and every step that was granted its
  mode can leave.  (A step that was refused and runs on does not survive its exit.)
\<close>

theorem overcommit_requests_answered:
  assumes "seq_run ratio r0 sy rs" "length rs < 64"
    and "v \<in> {0, 1, 2}" "og_ratio g = ratio" "og_jobid g \<noteq> 0" "0 \<le> og_stepid g"
  shows "(\<exists>g1 sy1. set_overcommit_policy v (g, sy) = Some (0, g1, sy1) \<and>
      og_freed g1 = (\<exists>x\<in>set rs. snd x \<noteq> v) \<and>
      (og_freed g1 \<longrightarrow> sy_overcommit sy1 = sy_overcommit sy \<and> sy_ratio sy1 = sy_ratio sy)) \<and>
    (\<forall>x\<in>set rs. \<exists>sy1. overcommit_exit True (fst x, sy) = Some (0, sy1))"
proof -
  note inv = seq_run_inv[OF assms(1)]
  have "\<exists>sy1. overcommit_exit True (fst x, sy) = Some (0, sy1)" if "x \<in> set rs" for x
  proof -
    from split_list[OF that] obtain xs ys where "rs = xs @ (fst x, snd x) # ys" by auto
    with inv seq_inv_leave show ?thesis by blast
  qed
  then show ?thesis using seq_inv_policy[OF inv assms(3-6,2)] by blast
qed

theorem overcommit_requests_answered_witness:
  "\<exists>g1 sy1. set_overcommit_policy 1 (job7, quiet) = Some (0, g1, sy1) \<and> \<not> og_freed g1"
proof -
  have "seq_run 60 50 quiet []" by (rule seq_run.start) (simp_all add: quiet_def)
  from overcommit_requests_answered[OF this, of 1 job7] show ?thesis by (auto simp: job7_def)
qed

text \<open>
  C10: mutual exclusion.  When all processes ask for the same mode, and no process is refused the
  lock of the file (which is not waited for, and whose refusal the code ignores), then, however
  their steps interleave, also those of creating, sizing, clearing and initialising the file, no
  two processes are between \<open>sem_wait\<close> and \<open>sem_post\<close> of the same file, none is refused its mode,
  and \<open>nusers\<close> of a file is the number of processes registered in it.
\<close>

theorem overcommit_mutual_exclusion:
  assumes "interleaved qs lock_was_refused ps sy" "\<not> lock_was_refused" "\<forall>q\<in>set qs. rq_mode q = m"
  shows "(\<forall>a i j. i < length ps \<and> j < length ps \<and> in_section a (ps ! i) \<and> in_section a (ps ! j) \<longrightarrow> i = j) \<and>
    (\<forall>p\<in>set ps. not_refused p) \<and>
    (\<forall>a f. sy_mem sy a = Some f \<longrightarrow> si_nusers (sf_info f) = how_many (registered a) ps)"
proof -
  have inv: "conc_inv m ps sy" using interleaved_inv[OF assms(1,3)] assms(2) by blast
  have "i = j" if ij: "i < length ps" "j < length ps" "in_section a (ps ! i)" "in_section a (ps ! j)" for a i j
  proof (rule ccontr)
    assume "i \<noteq> j"
    have "ps ! i \<in> set ps" using ij(1) by simp
    then obtain f where f: "sy_mem sy a = Some f"
      using conc_invD(5)[OF inv _ on_its_file(1)[OF ij(3)]] by blast
    have "{i, j} \<subseteq> {k. k < length ps \<and> in_section a (ps ! k)}" using ij by simp
    then have "card {i, j} \<le> length (filter (in_section a) ps)"
      unfolding length_filter_conv_card by (intro card_mono) auto
    then have "2 \<le> how_many (in_section a) ps" using \<open>i \<noteq> j\<close> by (simp add: how_many_def)
    with file_ok_counts(2)[OF conc_invD(6)[OF inv f]] show False by simp
  qed
  then show ?thesis using conc_invD(3)[OF inv] file_ok_counts(1)[OF conc_invD(6)[OF inv]] by blast
qed

definition same_mode :: "request list" where
  "same_mode = [\<lparr>rq_jobid = 7, rq_stepid = 0, rq_mode = 1, rq_ratio = 60\<rparr>,
     \<lparr>rq_jobid = 8, rq_stepid = 0, rq_mode = 1, rq_ratio = 60\<rparr>]"

lemma schedule_result:
  assumes "map_option (\<lambda>(b, ps, sy). (b, ps, sy_overcommit sy))
      (run_schedule qs is (False, replicate (length qs) Start, quiet)) = Some (b, ps, k)"
  shows "\<exists>sy. interleaved qs b ps sy \<and> sy_overcommit sy = k"
  using assms quiet_run[of qs "is"] by fastforce

theorem overcommit_mutual_exclusion_witness:
  "\<exists>ps sy. interleaved same_mode False ps sy \<and> in_section 0 (ps ! 0) \<and> \<not> in_section 0 (ps ! 1)"
proof -
  let ?ps = "[Inside \<lparr>oc_file = 0, oc_jobid = 7, oc_stepid = 0\<rparr>, Opened \<lparr>oc_file = 0, oc_jobid = 8, oc_stepid = 0\<rparr>]"
  have "map_option (\<lambda>(b, ps, sy). (b, ps, sy_overcommit sy))
      (run_schedule same_mode [0, 1, 1, 0, 0, 0, 0, 0, 0, 1, 1, 1, 0] (False, replicate (length same_mode) Start, quiet)) =
    Some (False, ?ps, 0)"
    by code_simp
  from schedule_result[OF this] obtain sy where i: "interleaved same_mode False ?ps sy" by blast
  have m: "\<forall>q\<in>set same_mode. rq_mode q = 1" by (simp add: same_mode_def)
  have "in_section 0 (?ps ! 0) \<Longrightarrow> in_section 0 (?ps ! 1) \<Longrightarrow> (0 :: nat) = 1"
    using overcommit_mutual_exclusion[OF i _ m] by fastforce
  moreover have *: "in_section 0 (?ps ! 0)" by (simp add: in_section_def)
  ultimately have "\<not> in_section 0 (?ps ! 1)" by (metis zero_neq_one)
  with i * show ?thesis by blast
qed

section \<open>Where the plugin goes wrong\<close>

text \<open>
  Without the lock the exclusion is lost.  The second process opens the new file while the first
  holds its lock: it is refused, finds the file empty as well and clears it and initialises its
  semaphore when the first is already inside.
\<close>

lemma exclusion_lost_without_lock:
  "\<exists>sy c c'. interleaved same_mode True [Inside c, Inside c'] sy \<and> oc_file c = oc_file c'"
proof -
  have "map_option (\<lambda>(b, ps, sy). (b, ps, sy_overcommit sy))
      (run_schedule same_mode [0, 0, 1, 1, 1, 1, 0, 0, 0, 0, 0, 0, 1, 1, 1, 1, 1]
        (False, replicate (length same_mode) Start, quiet)) =
    Some (True, [Inside \<lparr>oc_file = 0, oc_jobid = 7, oc_stepid = 0\<rparr>, Inside \<lparr>oc_file = 0, oc_jobid = 8, oc_stepid = 0\<rparr>], 0)"
    by code_simp
  from schedule_result[OF this] show ?thesis by fastforce
qed

text \<open>
  A process that is refused its mode posts the semaphore twice.  After that a process that leaves
  and one that registers can be inside at the same time.
\<close>

lemma exclusion_lost_after_refusal:
  "\<exists>sy c c'. interleaved
      [\<lparr>rq_jobid = 7, rq_stepid = 0, rq_mode = 1, rq_ratio = 60\<rparr>,
       \<lparr>rq_jobid = 8, rq_stepid = 0, rq_mode = 2, rq_ratio = 60\<rparr>,
       \<lparr>rq_jobid = 9, rq_stepid = 0, rq_mode = 1, rq_ratio = 60\<rparr>] False [Leaving c, Done, Inside c'] sy \<and>
    oc_file c = oc_file c'"
proof -
  let ?qs = "[\<lparr>rq_jobid = 7, rq_stepid = 0, rq_mode = 1, rq_ratio = 60\<rparr>,
       \<lparr>rq_jobid = 8, rq_stepid = 0, rq_mode = 2, rq_ratio = 60\<rparr>,
       \<lparr>rq_jobid = 9, rq_stepid = 0, rq_mode = 1, rq_ratio = 60\<rparr>]"
  have "map_option (\<lambda>(b, ps, sy). (b, ps, sy_overcommit sy))
      (run_schedule ?qs (replicate 7 0 @ [0, 0, 0] @ replicate 5 1 @ [1, 1, 1, 1] @ [0] @ replicate 5 2 @ [2])
        (False, replicate (length ?qs) Start, quiet)) =
    Some (False, [Leaving \<lparr>oc_file = 0, oc_jobid = 7, oc_stepid = 0\<rparr>, Done,
        Inside \<lparr>oc_file = 0, oc_jobid = 9, oc_stepid = 0\<rparr>], 1)" by code_simp
  from schedule_result[OF this] show ?thesis by fastforce
qed

text \<open>
  The last process to leave takes the name of the file away before it resets the kernel: one that
  starts in between finds its mode gone.
\<close>

lemma mode_lost_in_race:
  "\<exists>sy c. interleaved same_mode False [Done, Running c] sy \<and> sy_overcommit sy = 0"
proof -
  have "map_option (\<lambda>(b, ps, sy). (b, ps, sy_overcommit sy))
      (run_schedule same_mode (replicate 7 0 @ [0, 0, 0, 0, 0] @ replicate 7 1 @ [1, 1, 1] @ [0])
        (False, replicate (length same_mode) Start, quiet)) =
    Some (False, [Done, Running \<lparr>oc_file = 1, oc_jobid = 8, oc_stepid = 0\<rparr>], 0)" by code_simp
  from schedule_result[OF this] show ?thesis by blast
qed

text \<open>A refused step keeps a pointer to its freed context and follows it when it exits.\<close>

lemma refused_step_exit:
  "set_overcommit_policy v (g, sy) = Some (r, g1, sy1) \<Longrightarrow> og_freed g1 \<Longrightarrow> overcommit_exit True (g1, sy2) = None"
  by (auto simp: set_overcommit_policy_def overcommit_exit_def split: option.splits prod.splits if_splits)

text \<open>A job that is not registered is looked for behind the array.\<close>

lemma unregister_reads_behind:
  "(\<forall>j\<in>set us. ji_jobid j \<noteq> oc_jobid c) \<Longrightarrow> unregister_loop c us = None"
  by (induction us) simp_all

text \<open>The batch step, number -2, unregisters any step of its job.\<close>

lemma batch_step_unregisters_other:
  "unregister_loop \<lparr>oc_file = 0, oc_jobid = 7, oc_stepid = - 2\<rparr>
     [\<lparr>ji_jobid = 7, ji_stepid = 0, ji_used = 1\<rparr>, \<lparr>ji_jobid = 7, ji_stepid = - 2, ji_used = 1\<rparr>] =
   Some [no_job, \<lparr>ji_jobid = 7, ji_stepid = - 2, ji_used = 1\<rparr>]"
  by simp

lemma foreign_file_crashes:
  "sy_file sy = Some a \<Longrightarrow> sy_mem sy a = Some f \<Longrightarrow> \<not> sf_owned f \<Longrightarrow> overcommit_shared_ctx_create j s sy = None"
  by (simp add: overcommit_shared_ctx_create_def ctx_open_def open_excl_def opening_defs Let_def split: if_splits)

lemma force_cleanup_keeps_ratio: "sy_ratio (snd (overcommit_force_cleanup sy)) = sy_ratio sy"
  by (simp add: overcommit_force_cleanup_def overcommit_memory_set_current_state_def Let_def)

end
