(* ===== verification/Renice.thy ===== *)
theory Renice
  imports CString
begin

text \<open>
  \<open>renice.c\<close>: the priority the tasks of a job run with, from the arguments of the plugin, the
  option \<open>--renice\<close> and the variable \<open>SLURM_RENICE\<close>.
\<close>

definition PRIO_NOT_SET :: int where
  "PRIO_NOT_SET = 42"

record renice_globals =
  rn_min_prio :: int
  rn_default_prio :: int
  rn_prio :: int

definition renice_start :: renice_globals where
  "renice_start = \<lparr>rn_min_prio = - 20, rn_default_prio = 0, rn_prio = PRIO_NOT_SET\<rparr>"

text \<open>\<open>_str2prio\<close>; \<open>None\<close> when it returns -1 and leaves \<open>*p2int\<close> alone.\<close>

definition str2prio :: "string \<Rightarrow> int option" where
  "str2prio str = (case strtol str of (l, p) \<Rightarrow> if p \<noteq> [] \<or> l < - 20 \<or> l > 20 then None else Some (long_to_int l))"

fun renice_init :: "string list \<Rightarrow> renice_globals \<Rightarrow> renice_globals" where
  "renice_init [] g = g"
| "renice_init (a # av) g =
    renice_init av
      (if take 9 a = ''min_prio='' then (case str2prio (drop 9 a) of None \<Rightarrow> g | Some n \<Rightarrow> g\<lparr>rn_min_prio := n\<rparr>)
       else if take 8 a = ''default='' then (case str2prio (drop 8 a) of None \<Rightarrow> g | Some n \<Rightarrow> g\<lparr>rn_default_prio := n\<rparr>)
       else g)"

definition renice_opt_process :: "string option \<Rightarrow> renice_globals \<Rightarrow> int \<times> renice_globals" where
  "renice_opt_process optarg g =
    (case optarg of
       None \<Rightarrow> (- 1, g)
     | Some s \<Rightarrow> (case str2prio s of None \<Rightarrow> (- 1, g) | Some n \<Rightarrow> (0, g\<lparr>rn_prio := n\<rparr>)))"

text \<open>\<open>spank_getenv\<close> fails for a value of 1024 characters or more.\<close>

definition renice_check_env :: "string option \<Rightarrow> renice_globals \<Rightarrow> int \<times> renice_globals" where
  "renice_check_env val g =
    (case val of
       None \<Rightarrow> (- 1, g)
     | Some s \<Rightarrow>
         if length s \<ge> 1024 then (- 1, g)
         else (case str2prio s of None \<Rightarrow> (- 1, g) | Some n \<Rightarrow> (0, g\<lparr>rn_prio := n\<rparr>)))"

text \<open>
  \<open>now\<close> is the priority the task has and \<open>ok\<close> whether \<open>setpriority\<close> succeeds; the last result is the
  priority it is called with, if it is.
\<close>

definition renice_task_post_fork ::
    "string option \<Rightarrow> int \<Rightarrow> bool \<Rightarrow> renice_globals \<Rightarrow> int \<times> renice_globals \<times> int option" where
  "renice_task_post_fork val now ok g =
    (let g1 = (if rn_prio g = PRIO_NOT_SET
               then (case renice_check_env val g of (r, g0) \<Rightarrow> if r < 0 then g0\<lparr>rn_prio := rn_default_prio g0\<rparr> else g0)
               else g);
         g2 = (if rn_prio g1 < rn_min_prio g1 then g1\<lparr>rn_prio := rn_min_prio g1\<rparr> else g1)
     in if rn_prio g2 = now then (0, g2, None)
        else if ok then (0, g2, Some (rn_prio g2)) else (- 1, g2, Some (rn_prio g2)))"

section \<open>The range of priorities\<close>

lemma str2prio_range:
  assumes "str2prio s = Some n"
  shows "- 20 \<le> n \<and> n \<le> 20"
proof -
  obtain l where l: "n = long_to_int l" "- 20 \<le> l" "l \<le> 20"
    using assms by (auto simp: str2prio_def split: prod.splits if_splits)
  have "signed_take_bit 31 l = l" using l(2,3) by (intro signed_take_bit_int_eq_self) simp_all
  then show ?thesis using l by (simp add: long_to_int_def sint_sbintrunc')
qed

definition prios_ok :: "renice_globals \<Rightarrow> bool" where
  "prios_ok g \<longleftrightarrow> rn_min_prio g \<in> {-20..20} \<and> rn_default_prio g \<in> {-20..20} \<and> rn_prio g \<in> {-20..20} \<union> {PRIO_NOT_SET}"

lemma init_ok: "prios_ok g \<Longrightarrow> prios_ok (renice_init av g)"
proof (induction av arbitrary: g)
  case (Cons a av)
  have "prios_ok (if take 9 a = ''min_prio='' then (case str2prio (drop 9 a) of None \<Rightarrow> g | Some n \<Rightarrow> g\<lparr>rn_min_prio := n\<rparr>)
       else if take 8 a = ''default='' then (case str2prio (drop 8 a) of None \<Rightarrow> g | Some n \<Rightarrow> g\<lparr>rn_default_prio := n\<rparr>)
       else g)"
    using Cons.prems str2prio_range by (auto simp: prios_ok_def split: option.splits)
  from Cons.IH[OF this] show ?case by simp
qed simp

lemma init_prio: "rn_prio (renice_init av g) = rn_prio g"
  by (induction av arbitrary: g) (auto split: option.splits)

lemma opt_ok: "prios_ok g \<Longrightarrow> prios_ok (snd (renice_opt_process arg g))"
  using str2prio_range by (auto simp: renice_opt_process_def prios_ok_def split: option.splits)

text \<open>The calls of a slurmstepd after \<open>slurm_spank_init\<close>.\<close>

datatype renice_call = Option "string option" | Task "string option" int bool

fun renice_calls :: "renice_call list \<Rightarrow> renice_globals \<Rightarrow> int option list \<times> renice_globals" where
  "renice_calls [] g = ([], g)"
| "renice_calls (Option arg # cs) g = renice_calls cs (snd (renice_opt_process arg g))"
| "renice_calls (Task val now ok # cs) g =
    (case renice_task_post_fork val now ok g of
       (r, g1, p) \<Rightarrow> (case renice_calls cs g1 of (ps, g2) \<Rightarrow> (p # ps, g2)))"

lemma post_fork_result:
  assumes "prios_ok g"
  shows "\<exists>g1 r p. renice_task_post_fork val now ok g = (r, g1, p) \<and> prios_ok g1 \<and> rn_min_prio g1 = rn_min_prio g \<and>
    rn_prio g1 \<in> {-20..20} \<and>
    rn_prio g1 = max (rn_min_prio g)
      (if rn_prio g \<noteq> PRIO_NOT_SET then rn_prio g
       else case val of None \<Rightarrow> rn_default_prio g
            | Some s \<Rightarrow> if length s < 1024 \<and> str2prio s \<noteq> None then the (str2prio s) else rn_default_prio g) \<and>
    p = (if rn_prio g1 = now then None else Some (rn_prio g1))"
proof -
  define c where "c = (if rn_prio g \<noteq> PRIO_NOT_SET then rn_prio g
       else case val of None \<Rightarrow> rn_default_prio g
            | Some s \<Rightarrow> if length s < 1024 \<and> str2prio s \<noteq> None then the (str2prio s) else rn_default_prio g)"
  have c: "c \<in> {-20..20}"
    using assms str2prio_range by (fastforce simp: c_def prios_ok_def split: option.splits)
  have "(if rn_prio g = PRIO_NOT_SET
       then (case renice_check_env val g of (r, g0) \<Rightarrow> if r < 0 then g0\<lparr>rn_prio := rn_default_prio g0\<rparr> else g0)
       else g) = g\<lparr>rn_prio := c\<rparr>"
    by (auto simp: c_def renice_check_env_def split: option.splits)
  then have "renice_task_post_fork val now ok g =
      (if rn_prio (g\<lparr>rn_prio := max (rn_min_prio g) c\<rparr>) = now \<or> ok then 0 else - 1, g\<lparr>rn_prio := max (rn_min_prio g) c\<rparr>,
       if max (rn_min_prio g) c = now then None else Some (max (rn_min_prio g) c))"
    unfolding renice_task_post_fork_def Let_def by (auto simp: max_def)
  then show ?thesis using assms c unfolding c_def[symmetric] by (auto simp: prios_ok_def max_def)
qed

lemma post_fork_bounds:
  assumes "prios_ok g" "renice_task_post_fork val now ok g = (r, g1, p)"
  shows "prios_ok g1" "rn_min_prio g1 = rn_min_prio g" "rn_prio g1 \<noteq> PRIO_NOT_SET" "rn_min_prio g \<le> rn_prio g1"
    "rn_prio g1 \<le> 20" "p = None \<or> p = Some (rn_prio g1)"
    "rn_prio g \<noteq> PRIO_NOT_SET \<Longrightarrow> rn_min_prio g \<le> rn_prio g \<Longrightarrow> rn_prio g1 = rn_prio g"
  using post_fork_result[OF assms(1), of val now ok] assms(2) by (auto simp: PRIO_NOT_SET_def)

lemma calls_floor:
  "prios_ok g \<Longrightarrow> renice_calls cs g = (ps, g') \<Longrightarrow> Some p \<in> set ps \<Longrightarrow> rn_min_prio g \<le> p \<and> p \<le> 20"
proof (induction cs arbitrary: g ps)
  case (Cons c cs)
  show ?case
  proof (cases c)
    case (Option arg)
    have "rn_min_prio (snd (renice_opt_process arg g)) = rn_min_prio g"
      by (simp add: renice_opt_process_def split: option.splits)
    with Cons.IH[OF opt_ok[OF Cons.prems(1), of arg], of ps] Cons.prems(2,3) Option show ?thesis by simp
  next
    case (Task val now ok)
    obtain r g1 q where f: "renice_task_post_fork val now ok g = (r, g1, q)"
      by (cases "renice_task_post_fork val now ok g") auto
    note b = post_fork_bounds[OF Cons.prems(1) f]
    obtain ps' where ps: "renice_calls cs g1 = (ps', g')" "ps = q # ps'"
      using Cons.prems(2) Task f by (simp split: prod.splits)
    show ?thesis using Cons.IH[OF b(1) ps(1)] Cons.prems(3) b(2,4,5,6) unfolding ps(2) by auto
  qed
qed simp

lemma tasks_same:
  "prios_ok g \<Longrightarrow> rn_prio g \<noteq> PRIO_NOT_SET \<Longrightarrow> rn_min_prio g \<le> rn_prio g \<Longrightarrow> renice_calls cs g = (ps, g') \<Longrightarrow>
   \<forall>c\<in>set cs. \<exists>val now ok. c = Task val now ok \<Longrightarrow> Some p \<in> set ps \<Longrightarrow> p = rn_prio g"
proof (induction cs arbitrary: g ps)
  case (Cons c cs)
  obtain val now ok where c: "c = Task val now ok" using Cons.prems(5) by auto
  obtain r g1 q where f: "renice_task_post_fork val now ok g = (r, g1, q)"
    by (cases "renice_task_post_fork val now ok g") auto
  note b = post_fork_bounds[OF Cons.prems(1) f]
  have e: "rn_prio g1 = rn_prio g" using b(7) Cons.prems(2,3) by blast
  obtain ps' where ps: "renice_calls cs g1 = (ps', g')" "ps = q # ps'"
    using Cons.prems(4) c f by (simp split: prod.splits)
  have "rn_min_prio g1 \<le> rn_prio g1" using b(2,4) by simp
  from Cons.IH[OF b(1,3) this ps(1)] Cons.prems(5,6) b(6) e show ?case unfolding ps(2) by auto
qed simp

section \<open>Property\<close>

text \<open>
  no task gets a better priority than the administrator allows.  Whatever the arguments, the
  options and the variables of the user are, every \<open>setpriority\<close> is called with a priority
  between \<open>min_prio\<close> and 20, and all tasks get the same one unless an option comes between them.
\<close>

theorem renice_floor:
  assumes "renice_calls cs (renice_init av renice_start) = (ps, g)"
  shows "(\<forall>p. Some p \<in> set ps \<longrightarrow> rn_min_prio (renice_init av renice_start) \<le> p \<and> p \<le> 20) \<and>
    ((\<forall>c\<in>set cs. \<exists>val now ok. c = Task val now ok) \<longrightarrow> (\<forall>p q. Some p \<in> set ps \<and> Some q \<in> set ps \<longrightarrow> p = q))"
proof -
  have ok: "prios_ok (renice_init av renice_start)"
    by (rule init_ok) (simp add: prios_ok_def renice_start_def)
  have "p = q" if t: "\<forall>c\<in>set cs. \<exists>val now ok. c = Task val now ok" and pq: "Some p \<in> set ps" "Some q \<in> set ps" for p q
  proof (cases cs)
    case (Cons c cs')
    obtain val now k where c: "c = Task val now k" using t Cons by auto
    obtain r g1 x where f: "renice_task_post_fork val now k (renice_init av renice_start) = (r, g1, x)"
      by (cases "renice_task_post_fork val now k (renice_init av renice_start)") auto
    note b = post_fork_bounds[OF ok f]
    obtain ps' where ps: "renice_calls cs' g1 = (ps', g)" "ps = x # ps'"
      using assms Cons c f by (simp split: prod.splits)
    have "rn_min_prio g1 \<le> rn_prio g1" using b(2,4) by simp
    from tasks_same[OF b(1,3) this ps(1)] t Cons have "p = rn_prio g1" if "Some p \<in> set ps'" for p using that by simp
    then show ?thesis using pq b(6) unfolding ps(2) by auto
  qed (use assms pq in simp)
  then show ?thesis using calls_floor[OF ok assms] by blast
qed

theorem renice_floor_witness:
  "\<exists>ps g. renice_calls [Option (Some ''-20''), Task None 0 True, Task None 0 True] (renice_init [''min_prio=-5''] renice_start) = (ps, g) \<and>
    ps = [Some (- 5), Some (- 5)] \<and> (\<forall>p. Some p \<in> set ps \<longrightarrow> - 5 \<le> p)"
proof -
  have "fst (renice_calls [Option (Some ''-20''), Task None 0 True, Task None 0 True] (renice_init [''min_prio=-5''] renice_start)) =
      [Some (- 5), Some (- 5)]" by code_simp
  then obtain g where r: "renice_calls [Option (Some ''-20''), Task None 0 True, Task None 0 True]
      (renice_init [''min_prio=-5''] renice_start) = ([Some (- 5), Some (- 5)], g)"
    by (cases "renice_calls [Option (Some ''-20''), Task None 0 True, Task None 0 True]
      (renice_init [''min_prio=-5''] renice_start)") auto
  have "rn_min_prio (renice_init [''min_prio=-5''] renice_start) = - 5" by code_simp
  with renice_floor[OF r] r show ?thesis by auto
qed

text \<open>An empty text is taken for the priority 0.\<close>

lemma empty_priority: "str2prio [] = Some 0"
  by code_simp

end
