(* ===== verification/SmallPlugins.thy ===== *)
theory SmallPlugins
  imports CString
begin

text \<open>
  The plugins that only read their options and make one call: \<open>setsched.c\<close>,
  \<open>addr-no-randomize.c\<close>, \<open>system-safe.c\<close> and \<open>tmpdir.c\<close>.  Messages are left out; a call of the
  system that a plugin makes is part of the result.
\<close>

section \<open>setsched\<close>

record setsched_globals =
  ss_pol :: int
  ss_prio :: int
  ss_default :: bool

definition setsched_start :: setsched_globals where
  "setsched_start = \<lparr>ss_pol = 0, ss_prio = 0, ss_default = False\<rparr>"

definition setsched_str2int :: "string \<Rightarrow> int option" where
  "setsched_str2int str =
    (case strtol str of (l, p) \<Rightarrow> if l = - (2 ^ 63) \<or> l = 2 ^ 63 - 1 then None else Some (long_to_int l))"

definition setsched_opt_process :: "string option \<Rightarrow> setsched_globals \<Rightarrow> int \<times> setsched_globals" where
  "setsched_opt_process optarg g =
    (case optarg of
       None \<Rightarrow> (0, g)
     | Some s \<Rightarrow>
         if take 2 s = ''no'' then (0, g\<lparr>ss_default := False\<rparr>)
         else if take 3 s = ''yes'' then (0, g\<lparr>ss_default := True\<rparr>)
         else if take 4 s \<noteq> ''auto'' then (- 1, g) else (0, g))"

fun setsched_args :: "string list \<Rightarrow> int \<Rightarrow> int \<Rightarrow> bool \<Rightarrow> int \<times> int \<times> bool" where
  "setsched_args [] pol prio d = (pol, prio, d)"
| "setsched_args (a # av) pol prio d =
    (if take 7 a = ''policy='' then setsched_args av (case setsched_str2int (drop 7 a) of None \<Rightarrow> pol | Some n \<Rightarrow> n) prio d
     else if take 9 a = ''priority='' then setsched_args av pol (case setsched_str2int (drop 9 a) of None \<Rightarrow> prio | Some n \<Rightarrow> n) d
     else if take 15 a = ''default=enabled'' then setsched_args av pol prio True
     else if take 16 a = ''default=disabled'' then setsched_args av pol prio False
     else setsched_args av pol prio d)"

definition setsched_init :: "bool \<Rightarrow> string list \<Rightarrow> setsched_globals \<Rightarrow> setsched_globals" where
  "setsched_init remote av g =
    (if \<not> remote then g
     else (case setsched_args av 0 0 (ss_default g) of
             (pol, prio, d) \<Rightarrow>
               (if pol > 0 \<or> prio > 0 then \<lparr>ss_pol = pol, ss_prio = prio, ss_default = d\<rparr>
                else g\<lparr>ss_default := d\<rparr>)))"

text \<open>The call of \<open>sched_setscheduler\<close>, if there is one; its status is the result.\<close>

definition setsched_task_post_fork :: "int \<Rightarrow> setsched_globals \<Rightarrow> int \<times> (int \<times> int) option" where
  "setsched_task_post_fork status g =
    (if ss_default g \<and> (ss_pol g > 0 \<or> ss_prio g > 0) then (status, Some (ss_pol g, ss_prio g)) else (0, None))"

text \<open>Without an option of the user nothing is called unless the plugin is enabled and configured.\<close>

lemma setsched_disabled:
  "setsched_task_post_fork status (snd (setsched_opt_process (Some (''no'' @ s)) g)) = (0, None)"
  by (simp add: setsched_opt_process_def setsched_task_post_fork_def)

lemma setsched_unconfigured:
  "(\<forall>a\<in>set av. take 7 a \<noteq> ''policy='' \<and> take 9 a \<noteq> ''priority='') \<Longrightarrow>
   setsched_task_post_fork status (setsched_init True av setsched_start) = (0, None)"
proof -
  assume a: "\<forall>a\<in>set av. take 7 a \<noteq> ''policy='' \<and> take 9 a \<noteq> ''priority=''"
  have "\<exists>d'. setsched_args av 0 0 d = (0, 0, d')" for d
    using a by (induction av arbitrary: d) auto
  then obtain d' where "setsched_args av 0 0 (ss_default setsched_start) = (0, 0, d')" by blast
  then show ?thesis by (simp add: setsched_init_def setsched_task_post_fork_def setsched_start_def)
qed

text \<open>Characters behind a number are not noticed.\<close>

lemma setsched_trailing: "setsched_args [''policy=1x''] 0 0 False = (1, 0, False)"
  by code_simp

section \<open>addr-no-randomize\<close>

record randomize_globals =
  ra_default :: int
  ra_randomize :: int

definition randomize_start :: randomize_globals where
  "randomize_start = \<lparr>ra_default = 0, ra_randomize = - 1\<rparr>"

text \<open>
  Only the first 8 characters are compared, and then character 18 is read: \<open>None\<close> when the argument
  is shorter.
\<close>

fun randomize_args :: "string list \<Rightarrow> int \<Rightarrow> int option" where
  "randomize_args [] d = Some d"
| "randomize_args (a # av) d =
    (if take 8 a = ''default_''
     then (if length a < 18 then None
           else randomize_args av (if take 1 (drop 18 a) = ''0'' then 0 else if take 1 (drop 18 a) = ''1'' then 1 else d))
     else randomize_args av d)"

definition randomize_init :: "string list \<Rightarrow> randomize_globals \<Rightarrow> randomize_globals option" where
  "randomize_init av g = map_option (\<lambda>d. \<lparr>ra_default = d, ra_randomize = d\<rparr>) (randomize_args av (ra_default g))"

definition randomize_process_opts :: "int \<Rightarrow> randomize_globals \<Rightarrow> randomize_globals" where
  "randomize_process_opts val g =
    g\<lparr>ra_randomize := (if val = 1 then 1 else if val = 2 then 0 else ra_default g)\<rparr>"

text \<open>Whether \<open>personality (ADDR_NO_RANDOMIZE)\<close> is called.\<close>

definition randomize_task_init :: "randomize_globals \<Rightarrow> bool \<times> randomize_globals" where
  "randomize_task_init g =
    (let g1 = (if ra_randomize g = - 1 then g\<lparr>ra_randomize := ra_default g\<rparr> else g) in (ra_randomize g1 = 0, g1))"

text \<open>The last option of the user decides, and without one the argument of the plugin.\<close>

lemma randomize_last_option:
  assumes "randomize_init av g = Some g1" "set vals \<subseteq> {1, 2}"
  shows "fst (randomize_task_init (fold randomize_process_opts vals g1)) =
    (if vals = [] then ra_default g1 = 0 else last vals = 2)"
proof (cases vals rule: rev_cases)
  case Nil
  have "ra_randomize g1 = ra_default g1" using assms(1) by (auto simp: randomize_init_def)
  then show ?thesis using Nil by (simp add: randomize_task_init_def Let_def)
next
  case (snoc vs v)
  then have "v = 1 \<or> v = 2" using assms(2) by auto
  then show ?thesis using snoc by (auto simp: randomize_task_init_def randomize_process_opts_def Let_def)
qed

lemma randomize_short_argument: "randomize_init [''default_x''] randomize_start = None"
  by code_simp

section \<open>system-safe\<close>

record safe_globals =
  sf_enabled :: bool
  sf_opt_enable :: bool
  sf_opt_disable :: bool

fun safe_args :: "string list \<Rightarrow> bool \<Rightarrow> bool" where
  "safe_args [] e = e"
| "safe_args (a # av) e =
    safe_args av (if take 7 a = ''enabled'' then True else if take 8 a = ''disabled'' then False else e)"

definition safe_init :: "bool \<Rightarrow> string list \<Rightarrow> safe_globals \<Rightarrow> safe_globals" where
  "safe_init remote av g = (if \<not> remote then g else g\<lparr>sf_enabled := safe_args av (sf_enabled g)\<rparr>)"

text \<open>The option \<open>--no-system-safe\<close> stores 0 where 1 was meant.\<close>

definition safe_opt_process :: "int \<Rightarrow> safe_globals \<Rightarrow> safe_globals" where
  "safe_opt_process val g = (if val = 0 then g\<lparr>sf_opt_enable := True\<rparr> else g\<lparr>sf_opt_disable := False\<rparr>)"

text \<open>
  The value \<open>LD_PRELOAD\<close> is set to, if it is.  \<open>junk\<close> is what the buffer of 4096 characters on the
  stack holds before: \<open>strncpy\<close> of exactly the length of the name writes no NUL.  The other branch
  prints the buffer into itself, which C leaves undefined: \<open>overlap v\<close> is the text this gives.
\<close>

definition safe_user_init :: "(string \<Rightarrow> string) \<Rightarrow> string option \<Rightarrow> string \<Rightarrow> safe_globals \<Rightarrow> string option" where
  "safe_user_init overlap preload junk g =
    (if sf_opt_disable g \<or> \<not> sf_enabled g \<and> \<not> sf_opt_enable g then None
     else Some (case preload of
                  Some v \<Rightarrow> overlap v
                | None \<Rightarrow> cstr (''system-safe-preload.so'' @ drop 22 junk)))"

lemma no_system_safe_ignored:
  "safe_user_init overlap p junk (safe_opt_process 1 \<lparr>sf_enabled = True, sf_opt_enable = False, sf_opt_disable = False\<rparr>) \<noteq> None"
  by (simp add: safe_user_init_def safe_opt_process_def)

lemma system_safe_unterminated:
  "safe_user_init overlap None (replicate 4095 (CHR ''x'') @ [CHR 0x00])
     \<lparr>sf_enabled = True, sf_opt_enable = False, sf_opt_disable = False\<rparr> \<noteq> Some ''system-safe-preload.so''"
proof -
  have "drop 22 (replicate 4095 (CHR ''x'') @ [CHR 0x00]) = CHR ''x'' # replicate 4072 (CHR ''x'') @ [CHR 0x00]"
    by (simp add: replicate_Suc[symmetric] del: replicate_Suc)
  then show ?thesis by (simp add: safe_user_init_def cstr_def)
qed

section \<open>tmpdir\<close>

text \<open>
  The numbers of the job and the step, when SLURM gives them, \<open>TMPDIR\<close> and whether \<open>setenv\<close>
  succeeds; the second result is the value \<open>setenv\<close> is called with.
\<close>

definition tmpdir_local_user_init ::
    "nat option \<Rightarrow> nat option \<Rightarrow> string option \<Rightarrow> bool \<Rightarrow> int \<times> string option" where
  "tmpdir_local_user_init jobid stepid tmpdir ok =
    (case jobid of
       None \<Rightarrow> (- 1, None)
     | Some j \<Rightarrow>
         (case stepid of
            None \<Rightarrow> (- 1, None)
          | Some s \<Rightarrow>
              (let buf = (case tmpdir of None \<Rightarrow> ''/tmp'' | Some t \<Rightarrow> t) @ ''/'' @ dec j @ ''.'' @ dec s
               in if length buf > 1023 then (- 1, None)
                  else (if ok then 0 else - 1, Some buf))))"

text \<open>
  \<open>tmp\<close> is what \<open>spank_getenv\<close> finds, \<open>uid\<close> the user of the job (printed with \<open>%d\<close>) and \<open>status\<close>
  the result of \<open>system\<close>; the second result is the command.
\<close>

definition tmpdir_exit :: "bool \<Rightarrow> string option \<Rightarrow> nat option \<Rightarrow> int \<Rightarrow> int \<times> string option" where
  "tmpdir_exit remote tmp uid status =
    (if \<not> remote then (0, None)
     else (case tmp of
             None \<Rightarrow> (- 1, None)
           | Some t \<Rightarrow>
               if length t \<ge> 1024 then (- 1, None)
               else (case uid of
                       None \<Rightarrow> (- 1, None)
                     | Some u \<Rightarrow>
                         (let cmd = ''/usr/bin/sudo -u '' @ [CHR 0x5C] @ ''#'' @
                            (if u < 2 ^ 31 then dec u else ''-'' @ dec (2 ^ 32 - u)) @ '' /bin/rm -rf '' @ t
                          in if length cmd > 4095 then (- 1, None)
                             else (if status = 0 then 0 else - 1, Some cmd)))))"

text \<open>The directory that is removed is the one that was named.\<close>

lemma tmpdir_removes_own:
  assumes "tmpdir_local_user_init (Some j) (Some s) tmpdir True = (0, Some v)" "u < 2 ^ 31"
  shows "tmpdir_exit True (Some v) (Some u) 0 =
    (0, Some (''/usr/bin/sudo -u '' @ [CHR 0x5C] @ ''#'' @ dec u @ '' /bin/rm -rf '' @ v))"
proof -
  have v: "length v \<le> 1023" using assms(1) by (auto simp: tmpdir_local_user_init_def Let_def split: if_splits)
  have "length (dec u) \<le> 10" using assms(2) dec_length_bound[of u 9] by simp
  with v assms(2) show ?thesis by (simp add: tmpdir_exit_def Let_def)
qed

text \<open>The name is not quoted: a blank in it ends the name for the shell.\<close>

lemma tmpdir_unquoted:
  "tmpdir_exit True (Some ''/home x'') (Some 7) 0 = (0, Some (''/usr/bin/sudo -u '' @ [CHR 0x5C] @ ''#7 /bin/rm -rf /home x''))"
  by (simp add: tmpdir_exit_def Let_def dec.simps digit_char_def)

end
