(* ===== verification/PrivateMount.thy ===== *)
theory PrivateMount
  imports Split
begin

text \<open>
  \<open>private-mount.c\<close>: file systems that root mounts for a job or a task in a name space of its own,
  for the users the administrator lists.
\<close>

type_synonym mount_mem = "nat \<times> freelist \<times> freelist \<times> freelist"

datatype ns_mode = NS_SYSTEM | NS_TASK | NS_JOB

record mount_globals =
  pm_ns_mode :: ns_mode
  pm_mounts :: "string clist option"
  pm_allowed :: bool

definition mount_start :: mount_globals where
  "mount_start = \<lparr>pm_ns_mode = NS_SYSTEM, pm_mounts = None, pm_allowed = False\<rparr>"

section \<open>Who may use the plugin\<close>

text \<open>The list of the option \<open>allowuser\<close>; the first result is -1 after an error.\<close>

fun allow_args :: "mount_mem \<Rightarrow> string list \<Rightarrow> string clist option \<Rightarrow> int \<times> string clist option" where
  "allow_args mem [] u = (0, u)"
| "allow_args mem (a # av) u =
    (if take 10 a = ''allowuser=''
     then (if u \<noteq> None then (- 1, u)
           else (case mem of (h, lf, nf, itf) \<Rightarrow>
             (case snd (list_split h lf nf itf (Some '','') (drop 10 a)) of
                Split_list l \<Rightarrow> allow_args mem av (Some l)
              | _ \<Rightarrow> (- 1, u))))
     else (- 1, u))"

text \<open>\<open>getpwnam\<close> gives the number of a user, if there is one of that name.\<close>

definition allow_step :: "(string \<Rightarrow> int option) \<Rightarrow> int \<Rightarrow> string \<Rightarrow> bool \<Rightarrow> bool \<times> bool" where
  "allow_step getpwnam uid user allowed =
    (case getpwnam user of
       None \<Rightarrow> (False, allowed)
     | Some u \<Rightarrow> if uid = u then (True, True) else (False, allowed))"

text \<open>
  \<open>uid\<close> is the user of the job, or of srun itself; \<open>None\<close> when SLURM cannot tell.  The result is
  \<open>None\<close> when \<open>list_destroy\<close> does not end.
\<close>

definition mount_init ::
    "mount_mem \<Rightarrow> (string \<Rightarrow> int option) \<Rightarrow> int option \<Rightarrow> string list \<Rightarrow> mount_globals \<Rightarrow> (int \<times> mount_globals) option" where
  "mount_init mem getpwnam uid av g =
    (case allow_args mem av None of
       (r, None) \<Rightarrow> Some (r, g)
     | (r, Some l) \<Rightarrow>
         (case (if r < 0 then Some (r, g, l)
                else (case uid of
                        None \<Rightarrow> Some (- 1, g, l)
                      | Some k \<Rightarrow>
                          (case list_iterator_create l of
                             (None, l1) \<Rightarrow> Some (- 1, g, l1)
                           | (Some i, l1) \<Rightarrow>
                               (case until_next list_next (allow_step getpwnam k) l1 i (pm_allowed g) of
                                  None \<Rightarrow> None
                                | Some (b, l2) \<Rightarrow> Some (0, g\<lparr>pm_allowed := b\<rparr>, list_iterator_destroy l2 i))))) of
            None \<Rightarrow> None
          | Some (r1, g1, l3) \<Rightarrow> map_option (\<lambda>l4. (r1, g1)) (list_destroy l3)))"

section \<open>Options\<close>

text \<open>The directories of \<open>/etc/slurm/fstab\<close>, if it can be opened.\<close>

definition mnt_lookup :: "string list option \<Rightarrow> string \<Rightarrow> bool" where
  "mnt_lookup fstab name = (case fstab of None \<Rightarrow> False | Some ds \<Rightarrow> name \<in> set ds)"

definition opt_fs_namespace :: "string option \<Rightarrow> mount_globals \<Rightarrow> int \<times> mount_globals" where
  "opt_fs_namespace optarg g =
    (if \<not> pm_allowed g then (- 1, g)
     else (case optarg of
             None \<Rightarrow> (- 1, g)
           | Some s \<Rightarrow>
               if s = ''task'' then (0, g\<lparr>pm_ns_mode := NS_TASK\<rparr>)
               else if s = ''job'' then (0, g\<lparr>pm_ns_mode := NS_JOB\<rparr>)
               else (- 1, g)))"

text \<open>
  \<open>None\<close> also when \<open>list_split\<close> gives no list: the code then tests and destroys the iterator
  \<open>itr\<close>, which it has not set.
\<close>

definition opt_private_mount ::
    "mount_mem \<Rightarrow> string list option \<Rightarrow> string option \<Rightarrow> mount_globals \<Rightarrow> (int \<times> mount_globals) option" where
  "opt_private_mount mem fstab optarg g =
    (if \<not> pm_allowed g then Some (- 1, g)
     else (case optarg of
             None \<Rightarrow> Some (- 1, g)
           | Some s \<Rightarrow>
               if pm_mounts g \<noteq> None then Some (- 1, g)
               else (let g1 = (if pm_ns_mode g = NS_SYSTEM then g\<lparr>pm_ns_mode := NS_JOB\<rparr> else g)
                     in case mem of (h, lf, nf, itf) \<Rightarrow>
                       (case snd (list_split h lf nf itf (Some '','') s) of
                          Split_list l \<Rightarrow>
                            (case list_iterator_create l of
                               (None, l1) \<Rightarrow> map_option (\<lambda>l2. (- 1, g1)) (list_destroy l1)
                             | (Some i, l1) \<Rightarrow>
                                 (case while_next list_next (\<lambda>name rc. if mnt_lookup fstab name then rc else - 1) l1 i 0 of
                                    None \<Rightarrow> None
                                  | Some (rc, l2) \<Rightarrow>
                                      (let l3 = list_iterator_destroy l2 i
                                       in if rc = - 1 then map_option (\<lambda>l4. (- 1, g1)) (list_destroy l3)
                                          else Some (rc, g1\<lparr>pm_mounts := Some l3\<rparr>))))
                        | _ \<Rightarrow> None))))"

section \<open>Mounting\<close>

text \<open>
  What the plugin does as root, and what the system answers: \<open>unshare\<close>, the bind mount of the
  alternative table, and for a directory \<open>_mkdir_p\<close>, \<open>mount -n\<close> and \<open>statfs\<close>.
\<close>

datatype mount_action = Unshare | Bind_fstab | Mkdir string | Mount string | Statfs string

definition mount_one ::
    "(mount_action \<Rightarrow> bool) \<Rightarrow> string list option \<Rightarrow> string \<Rightarrow> int \<times> mount_action list \<Rightarrow> bool \<times> int \<times> mount_action list" where
  "mount_one ok fstab name st =
    (case st of (rc, log) \<Rightarrow>
      if \<not> mnt_lookup fstab name then (True, - 1, log)
      else if \<not> ok (Mkdir name) then (True, - 1, log @ [Mkdir name])
      else if \<not> ok (Mount name) then (True, - 1, log @ [Mkdir name, Mount name])
      else if \<not> ok (Statfs name) then (True, - 1, log @ [Mkdir name, Mount name, Statfs name])
      else (False, rc, log @ [Mkdir name, Mount name, Statfs name]))"

definition private_mount ::
    "(mount_action \<Rightarrow> bool) \<Rightarrow> string list option \<Rightarrow> mount_globals \<Rightarrow> (int \<times> mount_action list \<times> mount_globals) option" where
  "private_mount ok fstab g =
    (if \<not> ok Unshare then Some (- 1, [Unshare], g)
     else (case pm_mounts g of
             None \<Rightarrow> Some (0, [Unshare], g)
           | Some l \<Rightarrow>
               if \<not> ok Bind_fstab then Some (- 1, [Unshare, Bind_fstab], g)
               else (case list_iterator_create l of
                       (None, l1) \<Rightarrow> Some (- 1, [Unshare, Bind_fstab], g\<lparr>pm_mounts := Some l1\<rparr>)
                     | (Some i, l1) \<Rightarrow>
                         (case until_next list_next (mount_one ok fstab) l1 i (0, [Unshare, Bind_fstab]) of
                            None \<Rightarrow> None
                          | Some ((rc, log), l2) \<Rightarrow>
                              Some (rc, log, g\<lparr>pm_mounts := Some (list_iterator_destroy l2 i)\<rparr>)))))"

text \<open>\<open>slurm_spank_task_init_privileged\<close> and \<open>slurm_spank_init_post_opt\<close> differ in the mode they wait for.\<close>

definition mount_for ::
    "ns_mode \<Rightarrow> (mount_action \<Rightarrow> bool) \<Rightarrow> string list option \<Rightarrow> mount_globals \<Rightarrow>
     (int \<times> mount_action list \<times> mount_globals) option" where
  "mount_for mode ok fstab g =
    (if pm_ns_mode g \<noteq> mode then Some (0, [], g)
     else if \<not> pm_allowed g then Some (- 1, [], g) else private_mount ok fstab g)"

definition task_init_privileged ::
    "(mount_action \<Rightarrow> bool) \<Rightarrow> string list option \<Rightarrow> mount_globals \<Rightarrow>
     (int \<times> mount_action list \<times> mount_globals) option" where
  "task_init_privileged = mount_for NS_TASK"

definition mount_init_post_opt ::
    "bool \<Rightarrow> (mount_action \<Rightarrow> bool) \<Rightarrow> string list option \<Rightarrow> mount_globals \<Rightarrow>
     (int \<times> mount_action list \<times> mount_globals) option" where
  "mount_init_post_opt remote ok fstab g =
    (if \<not> remote then Some (0, [], g) else mount_for NS_JOB ok fstab g)"

definition mount_exit :: "mount_globals \<Rightarrow> (int \<times> mount_globals) option" where
  "mount_exit g =
    (case pm_mounts g of
       None \<Rightarrow> Some (0, g)
     | Some l \<Rightarrow> map_option (\<lambda>l1. (0, g\<lparr>pm_mounts := None\<rparr>)) (list_destroy l))"

end
