(* ===== verification/PrivateMountProps.thy ===== *)
theory PrivateMountProps
  imports PrivateMount
begin

text \<open>
  \<open>private-mount.c\<close> acts as root only for a user the administrator lists, and mounts only what both
  the user asked for and the administrator's table has.
\<close>

section \<open>Lists of names\<close>

definition mem_ok :: "mount_mem \<Rightarrow> bool" where
  "mem_ok mem \<longleftrightarrow> (case mem of (h, lf, nf, itf) \<Rightarrow> fl_ok {} nf \<and> fl_ok {} itf)"

lemma list_split_view:
  assumes "mem_ok (h, lf, nf, itf)" "snd (list_split h lf nf itf (Some sep) str) = Split_list l"
  shows "list_ok l" "list_data l = tokens sep str"
  using list_split_data[OF _ _ assms(2)] assms(1) by (simp_all add: mem_ok_def)

lemma allow_args_view:
  assumes "mem_ok mem"
  shows "allow_args mem av u = (r, Some l) \<Longrightarrow>
    u = Some l \<or> list_ok l \<and> (\<exists>a\<in>set av. take 10 a = ''allowuser='' \<and> list_data l = tokens '','' (drop 10 a))"
proof (induction av arbitrary: u)
  case (Cons a av)
  obtain h lf nf itf where m: "mem = (h, lf, nf, itf)" by (cases mem) auto
  show ?case
  proof (cases "take 10 a = ''allowuser='' \<and> u = None")
    case False
    then have "u = Some l" using Cons.prems by (auto split: if_splits)
    then show ?thesis by simp
  next
    case True
    show ?thesis
    proof (cases "snd (list_split h lf nf itf (Some '','') (drop 10 a))")
      case (Split_list l1)
      with Cons.prems True m have "allow_args mem av (Some l1) = (r, Some l)" by simp
      from Cons.IH[OF this] list_split_view[OF assms[unfolded m] Split_list] True show ?thesis by auto
    qed (use Cons.prems True m in simp_all)
  qed
qed simp

lemma allow_fold:
  "fold_until (allow_step pw k) us b \<longleftrightarrow> b \<or> (\<exists>u\<in>set us. pw u = Some k)"
  by (induction us arbitrary: b) (auto simp: allow_step_def split: option.splits)

lemma mount_init_allowed:
  assumes "mem_ok mem" "mount_init mem pw uid av mount_start = Some (r, g)"
  shows "pm_mounts g = None \<and> pm_ns_mode g = NS_SYSTEM \<and> (pm_allowed g \<longrightarrow>
    (\<exists>a k user. a \<in> set av \<and> take 10 a = ''allowuser='' \<and> uid = Some k \<and>
       user \<in> set (tokens '','' (drop 10 a)) \<and> pw user = Some k))"
proof -
  obtain r0 u where a: "allow_args mem av None = (r0, u)" by (cases "allow_args mem av None") auto
  show ?thesis
  proof (cases u)
    case None
    then show ?thesis using assms(2) a by (auto simp: mount_init_def mount_start_def)
  next
    case (Some l)
    from allow_args_view[OF assms(1) a[unfolded Some]] obtain arg where
      l: "list_ok l" "arg \<in> set av" "take 10 arg = ''allowuser=''" "list_data l = tokens '','' (drop 10 arg)" by auto
    show ?thesis
    proof (cases "r0 < 0 \<or> uid = None \<or> fst (list_iterator_create l) = None")
      case True
      then have "g = mount_start" using assms(2) a Some by (auto simp: mount_init_def split: prod.splits option.splits if_splits)
      then show ?thesis by (simp add: mount_start_def)
    next
      case False
      then obtain k i l1 where k: "uid = Some k" "list_iterator_create l = (Some i, l1)" "\<not> r0 < 0"
        by (cases "list_iterator_create l") auto
      from cli.iterate_until[OF l(1) k(2), of "allow_step pw k" False] obtain l2 where
        "until_next list_next (allow_step pw k) l1 i False = Some (fold_until (allow_step pw k) (list_data l) False, l2)"
        by blast
      then have "g = mount_start\<lparr>pm_allowed := fold_until (allow_step pw k) (list_data l) False\<rparr>"
        using assms(2) a Some k by (auto simp: mount_init_def mount_start_def)
      then show ?thesis using l k(1) by (auto simp: mount_start_def allow_fold)
    qed
  qed
qed

section \<open>Mounting\<close>

lemma mount_one_log:
  assumes "mount_one ok fstab name (rc, log) = (stop, rc', log')" "Mount n \<in> set log'"
  shows "Mount n \<in> set log \<or> n = name \<and> mnt_lookup fstab name"
  using assms by (auto simp: mount_one_def split: if_splits)

lemma mount_fold_log:
  "fold_until (mount_one ok fstab) names (rc, log) = (rc', log') \<Longrightarrow> Mount n \<in> set log' \<Longrightarrow>
   Mount n \<in> set log \<or> n \<in> set names \<and> mnt_lookup fstab n"
proof (induction names arbitrary: rc log)
  case (Cons x xs)
  obtain stop rc1 log1 where f: "mount_one ok fstab x (rc, log) = (stop, rc1, log1)"
    by (cases "mount_one ok fstab x (rc, log)") auto
  show ?case
  proof (cases stop)
    case True
    then show ?thesis using Cons.prems f mount_one_log[OF f, of n] by auto
  next
    case False
    then have "fold_until (mount_one ok fstab) xs (rc1, log1) = (rc', log')" using Cons.prems(1) f by simp
    from Cons.IH[OF this Cons.prems(2)] show ?thesis using mount_one_log[OF f, of n] by auto
  qed
qed simp

text \<open>The names the user gave: \<open>asked\<close> is what the options so far contain.\<close>

definition mounts_ok :: "string set \<Rightarrow> mount_globals \<Rightarrow> bool" where
  "mounts_ok asked g \<longleftrightarrow> (\<forall>l. pm_mounts g = Some l \<longrightarrow> list_ok l \<and> set (list_data l) \<subseteq> asked)"

lemma mount_for_result:
  assumes "mounts_ok asked g" "mount_for mode ok fstab g = Some (r, log, g')"
  shows "mounts_ok asked g' \<and> pm_allowed g' = pm_allowed g \<and> (log \<noteq> [] \<longrightarrow> pm_allowed g) \<and>
    (\<forall>n. Mount n \<in> set log \<longrightarrow> n \<in> asked \<and> mnt_lookup fstab n)"
proof (cases "pm_ns_mode g \<noteq> mode \<or> \<not> pm_allowed g \<or> \<not> ok Unshare \<or> pm_mounts g = None \<or> \<not> ok Bind_fstab")
  case True
  then show ?thesis using assms by (auto simp: mount_for_def private_mount_def split: if_splits option.splits)
next
  case False
  then obtain l where l: "pm_mounts g = Some l" by auto
  then have ok: "list_ok l" "set (list_data l) \<subseteq> asked" using assms(1) by (simp_all add: mounts_ok_def)
  show ?thesis
  proof (cases "list_iterator_create l")
    case (Pair x l1)
    show ?thesis
    proof (cases x)
      case None
      then have "list_ok l1 \<and> list_data l1 = list_data l"
        using list_iterator_create_ok[OF ok(1) Pair] Pair
        by (auto simp: list_iterator_create_def dest: alloc_fail split: prod.splits option.splits)
      then show ?thesis using assms(2) False l Pair None ok(2)
        by (auto simp: mount_for_def private_mount_def mounts_ok_def)
    next
      case (Some i)
      from cli.iterate_until[OF ok(1) Pair[unfolded Some], of "mount_one ok fstab" "(0, [Unshare, Bind_fstab])"] obtain l2 where
        l2: "until_next list_next (mount_one ok fstab) l1 i (0, [Unshare, Bind_fstab]) =
            Some (fold_until (mount_one ok fstab) (list_data l) (0, [Unshare, Bind_fstab]), l2)"
          "list_ok (list_iterator_destroy l2 i)" "list_data (list_iterator_destroy l2 i) = list_data l" by blast
      obtain rc lg where f: "fold_until (mount_one ok fstab) (list_data l) (0, [Unshare, Bind_fstab]) = (rc, lg)"
        by (cases "fold_until (mount_one ok fstab) (list_data l) (0, [Unshare, Bind_fstab])") auto
      have "log = lg" "g' = g\<lparr>pm_mounts := Some (list_iterator_destroy l2 i)\<rparr>"
        using assms(2) False l Pair Some l2(1) f by (simp_all add: mount_for_def private_mount_def)
      then show ?thesis using mount_fold_log[OF f] ok(2) l2(2,3) False by (auto simp: mounts_ok_def)
    qed
  qed
qed

lemma option_result:
  assumes "mounts_ok asked g" "mem_ok mem" "opt_private_mount mem fstab arg g = Some (r, g')"
  shows "mounts_ok (asked \<union> (case arg of None \<Rightarrow> {} | Some s \<Rightarrow> set (tokens '','' s))) g' \<and> pm_allowed g' = pm_allowed g"
proof (cases "\<not> pm_allowed g \<or> arg = None \<or> pm_mounts g \<noteq> None")
  case True
  then have "g' = g" using assms(3) by (auto simp: opt_private_mount_def split: option.splits if_splits)
  then show ?thesis using assms(1) by (auto simp: mounts_ok_def)
next
  case False
  then obtain s where s: "arg = Some s" by auto
  obtain h lf nf itf where m: "mem = (h, lf, nf, itf)" by (cases mem) auto
  define g1 where "g1 = (if pm_ns_mode g = NS_SYSTEM then g\<lparr>pm_ns_mode := NS_JOB\<rparr> else g)"
  have g1: "pm_mounts g1 = None" "pm_allowed g1 = pm_allowed g" using False by (simp_all add: g1_def)
  have o: "Some (r, g') = (case snd (list_split h lf nf itf (Some '','') s) of
      Split_list l \<Rightarrow>
        (case list_iterator_create l of
           (None, l1) \<Rightarrow> map_option (\<lambda>l2. (- 1, g1)) (list_destroy l1)
         | (Some i, l1) \<Rightarrow>
             (case while_next list_next (\<lambda>name rc. if mnt_lookup fstab name then rc else - 1) l1 i 0 of
                None \<Rightarrow> None
              | Some (rc, l2) \<Rightarrow>
                  (let l3 = list_iterator_destroy l2 i
                   in if rc = - 1 then map_option (\<lambda>l4. (- 1, g1)) (list_destroy l3)
                      else Some (rc, g1\<lparr>pm_mounts := Some l3\<rparr>))))
    | _ \<Rightarrow> None)"
    using assms(3) False s m unfolding opt_private_mount_def g1_def[symmetric] Let_def by simp
  show ?thesis
  proof (cases "\<exists>l. g' = g1\<lparr>pm_mounts := Some l\<rparr>")
    case F: False
    have "g' = g1" using o[symmetric] F by (auto simp: Let_def split: split_result.splits prod.splits option.splits if_splits)
    then show ?thesis using g1 by (simp add: mounts_ok_def)
  next
    case True
    then have new: "pm_mounts g' \<noteq> None" by auto
    obtain l where l: "snd (list_split h lf nf itf (Some '','') s) = Split_list l"
      using o new g1(1) by (cases "snd (list_split h lf nf itf (Some '','') s)") auto
    note v = list_split_view[OF assms(2)[unfolded m] l]
    obtain i l1 where i: "list_iterator_create l = (Some i, l1)"
      using o[symmetric] new g1(1) l by (cases "list_iterator_create l"; cases "fst (list_iterator_create l)") auto
    define rc where "rc = fold (\<lambda>name rc. if mnt_lookup fstab name then rc else - 1) (list_data l) (0 :: int)"
    obtain l2 where
      w: "while_next list_next (\<lambda>name rc. if mnt_lookup fstab name then rc else - 1) l1 i 0 = Some (rc, l2)"
        "list_ok (list_iterator_destroy l2 i)" "list_data (list_iterator_destroy l2 i) = list_data l"
      using cli.iterate_all[OF v(1) i, of "\<lambda>name rc. if mnt_lookup fstab name then rc else - 1" "0 :: int"]
      unfolding rc_def by blast
    have "g' = g1\<lparr>pm_mounts := Some (list_iterator_destroy l2 i)\<rparr>"
      using o[symmetric] new g1(1) l i w(1) by (auto simp: Let_def split: if_splits)
    then show ?thesis using w(2,3) v(2) s g1(2) by (simp add: mounts_ok_def)
  qed
qed

section \<open>Property\<close>

text \<open>The calls that follow \<open>slurm_spank_init\<close>, and everything they did to the system.\<close>

datatype mount_call =
    Fs_namespace "string option"
  | Private_mount mount_mem "string option"
  | Task_start
  | Job_start bool

fun mount_calls ::
    "(mount_action \<Rightarrow> bool) \<Rightarrow> string list option \<Rightarrow> mount_call list \<Rightarrow> mount_globals \<Rightarrow> mount_action list option" where
  "mount_calls ok fstab [] g = Some []"
| "mount_calls ok fstab (Fs_namespace arg # cs) g = mount_calls ok fstab cs (snd (opt_fs_namespace arg g))"
| "mount_calls ok fstab (Private_mount mem arg # cs) g =
    (case opt_private_mount mem fstab arg g of
       None \<Rightarrow> None
     | Some (r, g1) \<Rightarrow> mount_calls ok fstab cs g1)"
| "mount_calls ok fstab (Task_start # cs) g =
    (case task_init_privileged ok fstab g of
       None \<Rightarrow> None
     | Some (r, log, g1) \<Rightarrow> map_option ((@) log) (mount_calls ok fstab cs g1))"
| "mount_calls ok fstab (Job_start remote # cs) g =
    (case mount_init_post_opt remote ok fstab g of
       None \<Rightarrow> None
     | Some (r, log, g1) \<Rightarrow> map_option ((@) log) (mount_calls ok fstab cs g1))"

fun asked_of :: "mount_call \<Rightarrow> string set" where
  "asked_of (Private_mount mem (Some s)) = set (tokens '','' s)"
| "asked_of c = {}"

definition asked_by :: "mount_call list \<Rightarrow> string set" where
  "asked_by cs = (\<Union>c\<in>set cs. asked_of c)"

fun call_ok :: "mount_call \<Rightarrow> bool" where
  "call_ok (Private_mount mem arg) = mem_ok mem"
| "call_ok c = True"

lemma mount_calls_log:
  "mount_calls ok fstab cs g = Some log \<Longrightarrow> mounts_ok asked g \<Longrightarrow> \<forall>c\<in>set cs. call_ok c \<Longrightarrow>
   (log \<noteq> [] \<longrightarrow> pm_allowed g) \<and> (\<forall>n. Mount n \<in> set log \<longrightarrow> n \<in> asked \<union> asked_by cs \<and> mnt_lookup fstab n)"
proof (induction cs arbitrary: g log asked)
  case (Cons c cs)
  have mem: "\<forall>c\<in>set cs. call_ok c" using Cons.prems(3) by simp
  have sub: "asked_by cs \<subseteq> asked_by (c # cs)" by (auto simp: asked_by_def)
  have run: "(log \<noteq> [] \<longrightarrow> pm_allowed g) \<and> (\<forall>n. Mount n \<in> set log \<longrightarrow> n \<in> asked \<union> asked_by (c # cs) \<and> mnt_lookup fstab n)"
    if "mount_for mode ok fstab g = Some (r, log1, g1)" "mount_calls ok fstab cs g1 = Some log2" "log = log1 @ log2"
    for mode r log1 g1 log2
  proof -
    note f = mount_for_result[OF Cons.prems(2) that(1)]
    from Cons.IH[OF that(2) conjunct1[OF f] mem] f that(3) sub show ?thesis by auto
  qed
  show ?case
  proof (cases c)
    case (Fs_namespace arg)
    have g1: "mounts_ok asked (snd (opt_fs_namespace arg g))" "pm_allowed (snd (opt_fs_namespace arg g)) = pm_allowed g"
      using Cons.prems(2) by (auto simp: opt_fs_namespace_def mounts_ok_def split: option.splits)
    have "mount_calls ok fstab cs (snd (opt_fs_namespace arg g)) = Some log" using Cons.prems(1) Fs_namespace by simp
    from Cons.IH[OF this g1(1) mem] g1(2) sub show ?thesis by auto
  next
    case (Private_mount mem1 arg)
    obtain r g1 where o: "opt_private_mount mem1 fstab arg g = Some (r, g1)" "mount_calls ok fstab cs g1 = Some log"
      using Cons.prems(1) Private_mount by (auto split: option.splits)
    have "mem_ok mem1" using Cons.prems(3) Private_mount by simp
    note g1 = option_result[OF Cons.prems(2) this o(1)]
    have "(case arg of None \<Rightarrow> {} | Some s \<Rightarrow> set (tokens '','' s)) \<subseteq> asked_by (c # cs)"
      unfolding Private_mount by (cases arg) (auto simp: asked_by_def)
    with Cons.IH[OF o(2) conjunct1[OF g1] mem] g1 sub show ?thesis by auto
  next
    case Task_start
    then obtain r log1 g1 log2 where "mount_for NS_TASK ok fstab g = Some (r, log1, g1)"
      "mount_calls ok fstab cs g1 = Some log2" "log = log1 @ log2"
      using Cons.prems(1) by (auto simp: task_init_privileged_def split: option.splits)
    then show ?thesis by (rule run)
  next
    case (Job_start remote)
    show ?thesis
    proof (cases remote)
      case True
      then obtain r log1 g1 log2 where "mount_for NS_JOB ok fstab g = Some (r, log1, g1)"
        "mount_calls ok fstab cs g1 = Some log2" "log = log1 @ log2"
        using Cons.prems(1) Job_start by (auto simp: mount_init_post_opt_def split: option.splits)
      then show ?thesis by (rule run)
    next
      case False
      then obtain log2 where "mount_calls ok fstab cs g = Some log2" "log = log2"
        using Cons.prems(1) Job_start by (auto simp: mount_init_post_opt_def)
      with Cons.IH[OF _ Cons.prems(2) mem] sub show ?thesis by auto
    qed
  qed
qed simp

text \<open>
  C12: root acts only for listed users, and mounts only what is in the table.  If any name space is
  split off or anything is mounted then an \<open>allowuser\<close> argument names a user with the number of the
  job's user; every mounted directory is one the user asked for and one of \<open>/etc/slurm/fstab\<close>.
\<close>

theorem private_mount_authorised:
  assumes "mem_ok mem" "mount_init mem pw uid av mount_start = Some (r, g)"
    and "\<forall>c\<in>set cs. call_ok c" "mount_calls ok fstab cs g = Some log"
  shows "(log \<noteq> [] \<longrightarrow> (\<exists>a k user. a \<in> set av \<and> take 10 a = ''allowuser='' \<and> uid = Some k \<and>
      user \<in> set (tokens '','' (drop 10 a)) \<and> pw user = Some k)) \<and>
    (\<forall>n. Mount n \<in> set log \<longrightarrow> n \<in> asked_by cs \<and> mnt_lookup fstab n)"
proof -
  note i = mount_init_allowed[OF assms(1,2)]
  have "mounts_ok {} g" using i by (simp add: mounts_ok_def)
  from mount_calls_log[OF assms(4) this assms(3)] i show ?thesis by auto
qed

definition mount_heap :: mount_mem where
  "mount_heap = (9, some_heap, some_heap, some_heap)"

theorem private_mount_authorised_witness:
  "\<exists>r g log. mount_init mount_heap (\<lambda>u. if u = ''ann'' then Some 7 else None) (Some 7) [''allowuser=bob,ann''] mount_start = Some (r, g) \<and>
    mount_calls (\<lambda>a. True) (Some [''/scratch'']) [Private_mount mount_heap (Some ''/scratch''), Job_start True] g = Some log \<and>
    Mount ''/scratch'' \<in> set log \<and> ''/scratch'' \<in> asked_by [Private_mount mount_heap (Some ''/scratch''), Job_start True]"
proof -
  let ?pw = "\<lambda>u. if u = ''ann'' then Some (7 :: int) else None"
  let ?cs = "[Private_mount mount_heap (Some ''/scratch''), Job_start True]"
  let ?i = "mount_init mount_heap ?pw (Some 7) [''allowuser=bob,ann''] mount_start"
  have m: "mem_ok mount_heap" by (simp add: mem_ok_def mount_heap_def some_heap_facts)
  have "map_option (\<lambda>(r, g). mount_calls (\<lambda>a. True) (Some [''/scratch'']) ?cs g) ?i =
      Some (Some [Unshare, Bind_fstab, Mkdir ''/scratch'', Mount ''/scratch'', Statfs ''/scratch''])" by code_simp
  then obtain r g where i: "?i = Some (r, g)"
    and c: "mount_calls (\<lambda>a. True) (Some [''/scratch'']) ?cs g =
      Some [Unshare, Bind_fstab, Mkdir ''/scratch'', Mount ''/scratch'', Statfs ''/scratch'']" by auto
  have "\<forall>c\<in>set ?cs. call_ok c" using m by simp
  from private_mount_authorised[OF m i this c] have "''/scratch'' \<in> asked_by ?cs" by simp
  with i c show ?thesis by auto
qed

end
