(* ===== verification/CpusetCreate.thy ===== *)
theory CpusetCreate
  imports Nodemap
begin

text \<open>
  \<open>cpuset/create.c\<close> and the rest of \<open>cpuset/util.c\<close>: the cpusets of users, jobs, steps and tasks
  below \<open>/dev/cpuset/slurm\<close>, their cleaning and the lock.
\<close>

section \<open>The system\<close>

text \<open>
  The operations of libcpuset and of the kernel the code calls.  \<open>'s\<close> is the state of the system;
  \<open>co_machine\<close> gives what its queries answer in that state (with \<open>mc_path\<close> for the calling
  process).  A cpuset is handed over as its CPUs and its memories.
\<close>

datatype made = Made | Exists | Not_made

datatype modified = Modified | Busy | Not_modified

datatype opened = Opened int | Open_exists | Not_opened

record ('s, 'b) cpuset_ops =
  co_machine :: "'s \<Rightarrow> 'b machine"
  co_getmems :: "'s \<Rightarrow> 'b option"
  co_create :: "string \<Rightarrow> 'b \<times> 'b \<Rightarrow> 's \<Rightarrow> bool \<times> 's"
  co_modify :: "string \<Rightarrow> 'b \<times> 'b \<Rightarrow> 's \<Rightarrow> modified \<times> 's"
  co_query_all :: "'s \<Rightarrow> ('b \<times> 'b) option"
  co_mkdir :: "string \<Rightarrow> 's \<Rightarrow> made \<times> 's"
  co_rename :: "string \<Rightarrow> string \<Rightarrow> 's \<Rightarrow> bool \<times> 's"
  co_rmdir :: "string \<Rightarrow> 's \<Rightarrow> 's"
  co_move :: "int \<Rightarrow> string \<Rightarrow> 's \<Rightarrow> bool \<times> 's"
  co_pidlist :: "string \<Rightarrow> 's \<Rightarrow> int list option"
  co_kill :: "int \<Rightarrow> 's \<Rightarrow> 's"
  co_fts :: "'s \<Rightarrow> string list option"
  co_jobs :: "'s \<Rightarrow> (int \<times> bool) list option"
  co_open :: "string \<Rightarrow> 's \<Rightarrow> opened \<times> 's"
  co_unlink :: "string \<Rightarrow> 's \<Rightarrow> 's"
  co_flock :: "int \<Rightarrow> 's \<Rightarrow> bool \<times> 's"
  co_close :: "int \<Rightarrow> 's \<Rightarrow> 's"

section \<open>Names\<close>

text \<open>\<open>str2int\<close>\<close>

definition cpuset_str2int :: "string \<Rightarrow> int" where
  "cpuset_str2int str = (case strtol str of (l, p) \<Rightarrow> if p \<noteq> [] then - 1 else long_to_int l)"

definition user_name :: "int \<Rightarrow> string" where
  "user_name uid = ''/slurm/'' @ dec_int uid"

definition user_path :: "int \<Rightarrow> string" where
  "user_path uid = ''/dev/cpuset/slurm/'' @ dec_int uid"

definition orphan_path :: "int \<Rightarrow> string" where
  "orphan_path uid = ''/dev/cpuset/slurm/orphan:'' @ dec_int uid"

text \<open>
  \<open>job_cpuset_path\<close> for a buffer of 4096 characters.  Its own buffer has 64; a longer path makes
  \<open>cpuset_getcpusetpath\<close> return NULL, which is not noticed: then the buffer holds \<open>junk\<close>.
\<close>

definition job_cpuset_path :: "'b machine \<Rightarrow> string \<Rightarrow> nat \<Rightarrow> int \<Rightarrow> string option" where
  "job_cpuset_path mc junk ident uid =
    (let buf = (case mc_path mc of None \<Rightarrow> junk | Some p \<Rightarrow> if length p < 64 then p else junk);
         buf1 = (if buf = ''/'' \<or> buf = ''/slurm'' then take 63 (user_name uid) else buf);
         p = buf1 @ ''/'' @ dec ident
     in if length p \<ge> 4096 then None else Some p)"

section \<open>Creating\<close>

text \<open>The CPUs and memories of the new cpuset; \<open>None\<close> is NULL.\<close>

definition do_cpuset_create ::
    "'b bitmask_ops \<Rightarrow> ('s, 'b) cpuset_ops \<Rightarrow> cpuset_conf \<Rightarrow> 'b \<Rightarrow> 's \<Rightarrow> ('b \<times> 'b) option" where
  "do_cpuset_create B C cf alloc s =
    (case (if cf_constrain_mems cf then mc_localmems (co_machine C s) alloc else co_getmems C s) of
       None \<Rightarrow> None
     | Some mems \<Rightarrow> Some (alloc, bm_copy B (bm_alloc B (mc_nmems (co_machine C s))) mems))"

definition job_cpuset_exists :: "'b machine \<Rightarrow> string \<Rightarrow> nat \<Rightarrow> int \<Rightarrow> bool" where
  "job_cpuset_exists mc junk jobid uid =
    (case job_cpuset_path mc junk jobid uid of None \<Rightarrow> False | Some p \<Rightarrow> mc_query mc p \<noteq> None)"

text \<open>
  \<open>rc0\<close> is what the variable \<open>rc\<close> holds, which the code never sets on failure.  \<open>None\<close> is the
  result when NULL is handed to \<open>cpuset_create\<close>: the test of \<open>do_cpuset_create\<close> for a negative
  pointer never holds.
\<close>

definition job_cpuset_create ::
    "'b bitmask_ops \<Rightarrow> ('s, 'b) cpuset_ops \<Rightarrow> cpuset_conf \<Rightarrow> string \<Rightarrow> int \<Rightarrow> nat \<Rightarrow> int \<Rightarrow> 'b \<Rightarrow> 's \<Rightarrow> (int \<times> 's) option" where
  "job_cpuset_create B C cf junk rc0 jobid uid alloc s =
    (case job_cpuset_path (co_machine C s) junk jobid uid of
       None \<Rightarrow> Some (rc0, s)
     | Some p \<Rightarrow>
         (case do_cpuset_create B C cf alloc s of
            None \<Rightarrow> None
          | Some cp \<Rightarrow> (case co_create C p cp s of (ok, s1) \<Rightarrow> Some (if ok then 0 else rc0, s1))))"

section \<open>The cpuset of a user\<close>

definition user_cpuset_orphan :: "('s, 'b) cpuset_ops \<Rightarrow> int \<Rightarrow> string \<Rightarrow> 's \<Rightarrow> 's" where
  "user_cpuset_orphan C uid pth s = snd (co_rename C pth (orphan_path uid) s)"

definition kill_orphan :: "('s, 'b) cpuset_ops \<Rightarrow> string \<Rightarrow> 's \<Rightarrow> 's" where
  "kill_orphan C name s =
    (case co_pidlist C name s of None \<Rightarrow> s | Some pids \<Rightarrow> fold (co_kill C) pids s)"

definition user_cpuset_unorphan :: "('s, 'b) cpuset_ops \<Rightarrow> int \<Rightarrow> string \<Rightarrow> 's \<Rightarrow> bool \<times> 's" where
  "user_cpuset_unorphan C uid pth s = co_rename C (orphan_path uid) pth s"

definition user_cpuset_create :: "('s, 'b) cpuset_ops \<Rightarrow> string \<Rightarrow> 's \<Rightarrow> int \<times> 's" where
  "user_cpuset_create C pth s =
    (case co_mkdir C pth s of (r, s1) \<Rightarrow> (if r = Not_made then - 1 else 0, s1))"

text \<open>The loop at the label \<open>again\<close>: \<open>None\<close> when the cpuset stays busy for ever.\<close>

partial_function (option) modify_loop ::
    "('s, 'b) cpuset_ops \<Rightarrow> string \<Rightarrow> 'b \<times> 'b \<Rightarrow> 's \<Rightarrow> (int \<times> 's) option" where
  "modify_loop C name cp s =
    (case co_modify C name cp s of
       (Busy, s1) \<Rightarrow> modify_loop C name cp s1
     | (Modified, s1) \<Rightarrow> Some (0, s1)
     | (Not_modified, s1) \<Rightarrow> Some (- 1, s1))"

declare modify_loop.simps [code]

text \<open>
  \<open>bitmask_clearall\<close> leaves an empty mask of the same size.  \<open>None\<close> when \<open>used_cpus_bitmask_path\<close>
  returns NULL, which is not tested before it is used.
\<close>

definition user_cpuset_update ::
    "'b bitmask_ops \<Rightarrow> ('s, 'b) cpuset_ops \<Rightarrow> cpuset_conf \<Rightarrow> int \<Rightarrow> 'b option \<Rightarrow> 's \<Rightarrow> (int \<times> 's) option" where
  "user_cpuset_update B C cf uid alloc s =
    (let pth = user_path uid; name = cpuset_path_to_name pth
     in case user_cpuset_unorphan C uid pth s of
          (orphan, s1) \<Rightarrow>
            (case (if orphan then (0, s1) else user_cpuset_create C pth s1) of
               (r, s2) \<Rightarrow>
                 (if r < 0 then Some (- 1, s2)
                  else (case used_cpus_bitmask_path B (co_machine C s2) (Some pth) True of
                          None \<Rightarrow> None
                        | Some u \<Rightarrow>
                            (let u1 = (if orphan then bm_alloc B (bm_nbits B u) else u);
                                 used = (case alloc of None \<Rightarrow> u1 | Some a \<Rightarrow> bm_or B u1 a)
                             in if bm_weight B used = 0
                                then Some (0, if cf_kill_orphans cf then kill_orphan C name s2
                                              else user_cpuset_orphan C uid pth s2)
                                else (case do_cpuset_create B C cf used s2 of
                                        None \<Rightarrow> Some (- 1, s2)
                                      | Some cp \<Rightarrow> modify_loop C name cp s2))))))"

fun update_loop ::
    "'b bitmask_ops \<Rightarrow> ('s, 'b) cpuset_ops \<Rightarrow> cpuset_conf \<Rightarrow> string list \<Rightarrow> 's \<Rightarrow> 's option" where
  "update_loop B C cf [] s = Some s"
| "update_loop B C cf (d # ds) s =
    (if cpuset_str2int d < 0 then update_loop B C cf ds s
     else (case user_cpuset_update B C cf (cpuset_str2int d) None s of
             None \<Rightarrow> None
           | Some (r, s1) \<Rightarrow> update_loop B C cf ds s1))"

text \<open>The entries of the directory are those it has when it is opened.\<close>

definition update_user_cpusets ::
    "'b bitmask_ops \<Rightarrow> ('s, 'b) cpuset_ops \<Rightarrow> cpuset_conf \<Rightarrow> 's \<Rightarrow> (int \<times> 's) option" where
  "update_user_cpusets B C cf s =
    (case mc_dir (co_machine C s) ''/dev/cpuset/slurm'' of
       None \<Rightarrow> Some (- 1, s)
     | Some ds \<Rightarrow> map_option (\<lambda>s1. (0, s1)) (update_loop B C cf ds s))"

section \<open>Creating a cpuset with a number of CPUs\<close>

text \<open>\<open>mem\<close> is the memory of the lists; \<open>(int) uid\<close> is -1 for steps and tasks.\<close>

definition create_cpuset ::
    "'b bitmask_ops \<Rightarrow> ('s, 'b) cpuset_ops \<Rightarrow> freelist \<times> freelist \<times> freelist \<Rightarrow> string \<Rightarrow> int \<Rightarrow> cpuset_conf \<Rightarrow>
     nat \<Rightarrow> int \<Rightarrow> int \<Rightarrow> 's \<Rightarrow> (int \<times> 's) option" where
  "create_cpuset B C mem junk rc0 cf ident uid ncpus s =
    (case nodemap_create B (co_machine C s) mem cf None of
       None \<Rightarrow> None
     | Some None \<Rightarrow> Some (- 1, s)
     | Some (Some m) \<Rightarrow>
         (case nodemap_allocate B m ncpus of
            None \<Rightarrow> None
          | Some (None, m1) \<Rightarrow> map_option (\<lambda>_. (- 1, s)) (nodemap_destroy m1)
          | Some (Some alloc, m1) \<Rightarrow>
              (case (if uid \<ge> 0 then user_cpuset_update B C cf uid (Some alloc) s else Some (0, s)) of
                 None \<Rightarrow> None
               | Some (r, s1) \<Rightarrow>
                   (if r < 0 then map_option (\<lambda>_. (- 1, s1)) (nodemap_destroy m1)
                    else (case job_cpuset_create B C cf junk rc0 ident uid alloc s1 of
                            None \<Rightarrow> None
                          | Some (r2, s2) \<Rightarrow>
                              map_option (\<lambda>_. (if r2 < 0 then - 1 else 0, s2)) (nodemap_destroy m1))))))"

definition create_cpuset_for_job ::
    "'b bitmask_ops \<Rightarrow> ('s, 'b) cpuset_ops \<Rightarrow> freelist \<times> freelist \<times> freelist \<Rightarrow> string \<Rightarrow> int \<Rightarrow> cpuset_conf \<Rightarrow>
     nat \<Rightarrow> int \<Rightarrow> int \<Rightarrow> 's \<Rightarrow> (int \<times> 's) option" where
  "create_cpuset_for_job B C mem junk rc0 cf jobid uid ncpus s = create_cpuset B C mem junk rc0 cf jobid uid ncpus s"

definition create_cpuset_for_step ::
    "'b bitmask_ops \<Rightarrow> ('s, 'b) cpuset_ops \<Rightarrow> freelist \<times> freelist \<times> freelist \<Rightarrow> string \<Rightarrow> int \<Rightarrow> cpuset_conf \<Rightarrow>
     nat \<Rightarrow> int \<Rightarrow> 's \<Rightarrow> (int \<times> 's) option" where
  "create_cpuset_for_step B C mem junk rc0 cf stepid ncpus s = create_cpuset B C mem junk rc0 cf stepid (- 1) ncpus s"

definition create_cpuset_for_task ::
    "'b bitmask_ops \<Rightarrow> ('s, 'b) cpuset_ops \<Rightarrow> freelist \<times> freelist \<times> freelist \<Rightarrow> string \<Rightarrow> int \<Rightarrow> cpuset_conf \<Rightarrow>
     nat \<Rightarrow> int \<Rightarrow> 's \<Rightarrow> (int \<times> 's) option" where
  "create_cpuset_for_task B C mem junk rc0 cf taskid ncpus s = create_cpuset B C mem junk rc0 cf taskid (- 1) ncpus s"

section \<open>Cleaning\<close>

text \<open>
  What \<open>sscanf (name, "/slurm/%d/%d/%d", ...)\<close> converts.  A directive \<open>%d\<close> skips white space, as
  \<open>strtol\<close> does, and fails when there is no number.
\<close>

fun scan_numbers :: "nat \<Rightarrow> string \<Rightarrow> int list" where
  "scan_numbers 0 s = []"
| "scan_numbers (Suc k) s =
    (case s of
       c # s1 \<Rightarrow>
         (if c \<noteq> CHR ''/'' then []
          else (case strtol s1 of (l, p) \<Rightarrow> if length p = length s1 then [] else long_to_int l # scan_numbers k p))
     | [] \<Rightarrow> [])"

definition scan_job_name :: "string \<Rightarrow> int list" where
  "scan_job_name name = (if take 6 name = ''/slurm'' then scan_numbers 3 (drop 6 name) else [])"

definition cpuset_ntasks :: "('s, 'b) cpuset_ops \<Rightarrow> string \<Rightarrow> 's \<Rightarrow> int" where
  "cpuset_ntasks C name s = (case co_pidlist C name s of None \<Rightarrow> - 1 | Some pids \<Rightarrow> int (length pids))"

text \<open>\<open>co_jobs\<close> is the table of jobs, with those that are running marked, if SLURM gives it in four tries.\<close>

definition slurm_jobid_is_valid :: "('s, 'b) cpuset_ops \<Rightarrow> int \<Rightarrow> 's \<Rightarrow> bool" where
  "slurm_jobid_is_valid C jobid s =
    (case co_jobs C s of
       None \<Rightarrow> True
     | Some js \<Rightarrow> jobid \<noteq> - 1 \<and> (jobid, True) \<in> set js)"

definition slurm_cpuset_clean_path :: "('s, 'b) cpuset_ops \<Rightarrow> string \<Rightarrow> 's \<Rightarrow> 's" where
  "slurm_cpuset_clean_path C pth s =
    (case scan_job_name (cpuset_path_to_name pth) of
       [userid, jobid] \<Rightarrow>
         (if cpuset_ntasks C (user_name userid) s > 0 \<and> slurm_jobid_is_valid C jobid s then s
          else co_rmdir C pth s)
     | _ \<Rightarrow> co_rmdir C pth s)"

fun clean_loop :: "('s, 'b) cpuset_ops \<Rightarrow> string list \<Rightarrow> 's \<Rightarrow> 's" where
  "clean_loop C [] s = s"
| "clean_loop C (name # names) s =
    (if name = ''/slurm'' then clean_loop C names s
     else clean_loop C names (slurm_cpuset_clean_path C (take 4095 (''/dev/cpuset'' @ name)) s))"

text \<open>\<open>co_fts\<close> lists the cpusets below \<open>/slurm\<close>, children before their parents.\<close>

definition slurm_cpuset_clean ::
    "'b bitmask_ops \<Rightarrow> ('s, 'b) cpuset_ops \<Rightarrow> cpuset_conf \<Rightarrow> 's \<Rightarrow> (int \<times> 's) option" where
  "slurm_cpuset_clean B C cf s =
    (case co_fts C s of
       None \<Rightarrow> Some (- 1, s)
     | Some names \<Rightarrow> map_option (\<lambda>(r, s1). (0, s1)) (update_user_cpusets B C cf (clean_loop C names s)))"

section \<open>The lock and the cpuset of SLURM\<close>

text \<open>
  \<open>first\<close> is the static variable: after the error \<open>EEXIST\<close> (\<open>Open_exists\<close>) the file is removed once.
\<close>

definition lock_opened :: "('s, 'b) cpuset_ops \<Rightarrow> opened \<Rightarrow> bool \<Rightarrow> 's \<Rightarrow> int \<times> bool \<times> 's" where
  "lock_opened C r first s =
    (case r of
       Opened fd \<Rightarrow> (case co_flock C fd s of (ok, s1) \<Rightarrow> if ok then (fd, first, s1) else (- 1, first, co_close C fd s1))
     | _ \<Rightarrow> (- 1, first, s))"

definition do_cpuset_lock :: "('s, 'b) cpuset_ops \<Rightarrow> string \<Rightarrow> bool \<Rightarrow> 's \<Rightarrow> int \<times> bool \<times> 's" where
  "do_cpuset_lock C name first s =
    (let pth = ''/var/lock/'' @ name @ ''-cpuset''
     in case co_open C pth s of
          (r, s1) \<Rightarrow>
            (if r = Open_exists \<and> first
             then (case co_open C pth (co_unlink C pth s1) of (r2, s2) \<Rightarrow> lock_opened C r2 False s2)
             else lock_opened C r first s1))"

definition do_cpuset_unlock :: "('s, 'b) cpuset_ops \<Rightarrow> int \<Rightarrow> 's \<Rightarrow> 's" where
  "do_cpuset_unlock C fd s = (if fd < 0 then s else co_close C fd s)"

definition slurm_cpuset_lock :: "('s, 'b) cpuset_ops \<Rightarrow> bool \<Rightarrow> 's \<Rightarrow> int \<times> bool \<times> 's" where
  "slurm_cpuset_lock C first s = do_cpuset_lock C ''/slurm'' first s"

definition slurm_cpuset_unlock :: "('s, 'b) cpuset_ops \<Rightarrow> int \<Rightarrow> 's \<Rightarrow> 's" where
  "slurm_cpuset_unlock C fd s = do_cpuset_unlock C fd s"

text \<open>
  The result is the descriptor of the lock.  \<open>co_query_all\<close> gives the CPUs and memories of the
  root cpuset.  On the later failures the lock stays open.
\<close>

definition create_and_lock_cpuset_dir ::
    "'b bitmask_ops \<Rightarrow> ('s, 'b) cpuset_ops \<Rightarrow> cpuset_conf \<Rightarrow> string \<Rightarrow> bool \<Rightarrow> 's \<Rightarrow> (int \<times> bool \<times> 's) option" where
  "create_and_lock_cpuset_dir B C cf name first s =
    (case do_cpuset_lock C name first s of
       (fd, first1, s1) \<Rightarrow>
         (if fd < 0 then Some (- 1, first1, s1)
          else (case co_mkdir C (''/dev/cpuset'' @ name) s1 of
                  (Exists, s2) \<Rightarrow> map_option (\<lambda>(r, s3). (fd, first1, s3)) (slurm_cpuset_clean B C cf s2)
                | (Not_made, s2) \<Rightarrow> Some (- 1, first1, s2)
                | (Made, s2) \<Rightarrow>
                    (case co_query_all C s2 of
                       None \<Rightarrow> Some (- 1, first1, s2)
                     | Some cp \<Rightarrow>
                         (case co_modify C name cp s2 of
                            (r, s3) \<Rightarrow> Some (if r = Modified then fd else - 1, first1, s3))))))"

definition slurm_cpuset_create ::
    "'b bitmask_ops \<Rightarrow> ('s, 'b) cpuset_ops \<Rightarrow> cpuset_conf \<Rightarrow> bool \<Rightarrow> 's \<Rightarrow> (int \<times> bool \<times> 's) option" where
  "slurm_cpuset_create B C cf first s = create_and_lock_cpuset_dir B C cf ''/slurm'' first s"

end
