(* ===== verification/CpusetPlugin.thy ===== *)
theory CpusetPlugin
  imports CpusetCreate Split ListMemory
begin

text \<open>
  The programs on top of \<open>create.c\<close>: the SPANK plugin \<open>cpuset/cpuset.c\<close>, the PAM module
  \<open>cpuset/pam_slurm_cpuset.c\<close> and the program \<open>cpuset/release-agent.c\<close>.  Messages are left out.
\<close>

section \<open>Moving processes\<close>

text \<open>
  The cpuset a job is moved to.  \<open>junk\<close> is what the buffer holds when \<open>cpuset_getcpusetpath\<close>
  fails, which is not noticed.
\<close>

definition migrate_path :: "'b machine \<Rightarrow> string \<Rightarrow> nat \<Rightarrow> int \<Rightarrow> string" where
  "migrate_path mc junk jobid uid =
    (let p = (case mc_path mc of None \<Rightarrow> junk | Some p \<Rightarrow> p);
         p1 = (if take 6 p \<noteq> ''/slurm'' then user_name uid else p)
     in take 4095 (p1 @ ''/'' @ dec jobid))"

definition migrate_job_to_cpuset ::
    "('s, 'b) cpuset_ops \<Rightarrow> string \<Rightarrow> nat \<Rightarrow> int \<Rightarrow> int \<Rightarrow> 's \<Rightarrow> int \<times> 's" where
  "migrate_job_to_cpuset C junk jobid uid pid s =
    (case co_move C pid (migrate_path (co_machine C s) junk jobid uid) s of (ok, s1) \<Rightarrow> (if ok then 0 else - 1, s1))"

definition migrate_to_user_cpuset :: "('s, 'b) cpuset_ops \<Rightarrow> int \<Rightarrow> 's \<Rightarrow> int \<times> 's" where
  "migrate_to_user_cpuset C uid s =
    (case co_move C 0 (user_name uid) s of (ok, s1) \<Rightarrow> (if ok then 0 else - 1, s1))"

section \<open>What SLURM answers\<close>

text \<open>
  The items of a step; \<open>None\<close> when \<open>spank_get_item\<close> or \<open>spank_getenv\<close> fails.  \<open>sk_jobs\<close> is the
  table \<open>slurm_load_job\<close> gives, each job with the CPUs it has on a node.
\<close>

record cpuset_spank =
  sk_remote :: bool
  sk_jobid :: "nat option"
  sk_stepid :: "nat option"
  sk_uid :: "int option"
  sk_ncpus :: "int option"
  sk_jobs :: "(nat \<times> (int \<Rightarrow> int)) list option"
  sk_nodeid :: "int option"
  sk_cpus_per_task :: "string option"
  sk_local_tasks :: "nat option"
  sk_task_id :: "nat option"
  sk_task_pid :: "int option"
  sk_post_opt :: bool

text \<open>The number is kept in 16 bits.\<close>

definition query_ncpus_per_node :: "cpuset_spank \<Rightarrow> nat \<Rightarrow> int" where
  "query_ncpus_per_node sk jobid =
    (case sk_ncpus sk of
       Some n \<Rightarrow> n
     | None \<Rightarrow>
         (case sk_jobs sk of
            None \<Rightarrow> - 1
          | Some js \<Rightarrow>
              (case find (\<lambda>j. fst j = jobid) js of
                 None \<Rightarrow> 0
               | Some (j, cpus_on) \<Rightarrow>
                   (case sk_nodeid sk of
                      None \<Rightarrow> 0
                    | Some nodeid \<Rightarrow> if nodeid \<ge> 0 then cpus_on nodeid mod 2 ^ 16 else 0))))"

section \<open>The state of the plugin\<close>

text \<open>
  \<open>pg_user_options\<close> is whether the pointer \<open>user_options\<close> is not NULL; the list it points to is
  destroyed as soon as the options are read.  \<open>pg_lock_first\<close>, \<open>pg_ntasks\<close> and \<open>pg_nexited\<close> are
  static variables of functions.
\<close>

record cpuset_plugin =
  pg_conf :: "cpuset_conf option"
  pg_user_options :: bool
  pg_per_task :: bool
  pg_jobid :: nat
  pg_stepid :: nat
  pg_step_ncpus :: int
  pg_ncpus_per_task :: int
  pg_debug :: int
  pg_user_debug :: int
  pg_lock_first :: bool
  pg_ntasks :: nat
  pg_nexited :: int

definition plugin_start :: cpuset_plugin where
  "plugin_start =
    \<lparr>pg_conf = None, pg_user_options = False, pg_per_task = False, pg_jobid = 0, pg_stepid = 0, pg_step_ncpus = - 1,
     pg_ncpus_per_task = - 1, pg_debug = 0, pg_user_debug = 0, pg_lock_first = True, pg_ntasks = 0, pg_nexited = 0\<rparr>"

definition parse_one_option :: "conf_files \<Rightarrow> string \<Rightarrow> cpuset_plugin \<Rightarrow> (int \<times> cpuset_plugin) option" where
  "parse_one_option files opt g =
    (if take 6 opt = ''debug='' then Some (0, g\<lparr>pg_debug := cpuset_str2int (drop 6 opt)\<rparr>)
     else if opt = ''debug'' then Some (0, g\<lparr>pg_debug := 1\<rparr>)
     else map_option (\<lambda>(r, c). (r, g\<lparr>pg_conf := c\<rparr>)) (cpuset_conf_parse_opt files (pg_conf g) opt))"

fun plugin_options :: "conf_files \<Rightarrow> string list \<Rightarrow> cpuset_plugin \<Rightarrow> cpuset_plugin option" where
  "plugin_options files [] g = Some g"
| "plugin_options files (a # av) g =
    (case parse_one_option files a g of None \<Rightarrow> None | Some (r, g1) \<Rightarrow> plugin_options files av g1)"

text \<open>\<open>spank_getenv\<close> fails for a value of 128 characters or more.\<close>

definition job_ncpus_per_task :: "cpuset_spank \<Rightarrow> cpuset_plugin \<Rightarrow> int \<times> cpuset_plugin" where
  "job_ncpus_per_task sk g =
    (if pg_ncpus_per_task g < 0
     then (case sk_cpus_per_task sk of
             None \<Rightarrow> (- 1, g)
           | Some v \<Rightarrow>
               if length v \<ge> 128 then (- 1, g)
               else (cpuset_str2int v, g\<lparr>pg_ncpus_per_task := cpuset_str2int v\<rparr>))
     else (pg_ncpus_per_task g, g))"

text \<open>The product is unsigned and becomes an \<open>int\<close> again.\<close>

definition job_step_ncpus :: "cpuset_spank \<Rightarrow> cpuset_plugin \<Rightarrow> int \<times> cpuset_plugin" where
  "job_step_ncpus sk g =
    (case sk_local_tasks sk of
       None \<Rightarrow> (- 1, g)
     | Some ntasks \<Rightarrow> (case job_ncpus_per_task sk g of (n, g1) \<Rightarrow> (long_to_int (n * int ntasks), g1)))"

section \<open>Starting a step\<close>

text \<open>
  The part of \<open>slurm_spank_init\<close> that runs with the lock held; the first result is \<open>rc\<close>.
\<close>

definition join_job_cpuset ::
    "'b bitmask_ops \<Rightarrow> ('s, 'b) cpuset_ops \<Rightarrow> freelist \<times> freelist \<times> freelist \<Rightarrow> string \<Rightarrow> int \<Rightarrow> cpuset_spank \<Rightarrow>
     nat \<Rightarrow> int \<Rightarrow> cpuset_plugin \<Rightarrow> 's \<Rightarrow> (int \<times> cpuset_plugin \<times> 's) option" where
  "join_job_cpuset B C mem junk rc0 sk jobid uid g s =
    (let joined = (\<lambda>(r :: int) s. case job_step_ncpus sk g of (n, g1) \<Rightarrow> Some (r, g1\<lparr>pg_step_ncpus := n\<rparr>, s))
     in case migrate_job_to_cpuset C junk jobid uid 0 s of
          (r, s1) \<Rightarrow>
            (if r = 0 then joined r s1
             else (case pg_conf g of
                     None \<Rightarrow> None
                   | Some cf \<Rightarrow>
                       (case create_cpuset_for_job B C mem junk rc0 cf jobid uid (query_ncpus_per_node sk jobid) s1 of
                          None \<Rightarrow> None
                        | Some (r2, s2) \<Rightarrow>
                            (if r2 < 0 then Some (r2, g, s2)
                             else (case migrate_job_to_cpuset C junk jobid uid 0 s2 of
                                     (r3, s3) \<Rightarrow> if r3 < 0 then Some (r3, g, s3) else joined r3 s3))))))"

definition cpuset_spank_init ::
    "'b bitmask_ops \<Rightarrow> ('s, 'b) cpuset_ops \<Rightarrow> freelist \<times> freelist \<times> freelist \<Rightarrow> string \<Rightarrow> int \<Rightarrow>
     (string \<Rightarrow> bool \<times> bool) \<Rightarrow> conf_files \<Rightarrow> cpuset_spank \<Rightarrow> string list \<Rightarrow> cpuset_plugin \<Rightarrow> 's \<Rightarrow>
     (int \<times> cpuset_plugin \<times> 's) option" where
  "cpuset_spank_init B C mem junk rc0 access files sk av g s =
    (if \<not> sk_remote sk then Some (0, g, s)
     else (case cpuset_conf_parse_system access files (Some cpuset_conf_create) of
             None \<Rightarrow> None
           | Some (r, c) \<Rightarrow>
               (case plugin_options files av (g\<lparr>pg_conf := c\<rparr>) of
                  None \<Rightarrow> None
                | Some g1 \<Rightarrow>
                    (case (sk_jobid sk, sk_stepid sk, sk_uid sk, pg_conf g1) of
                       (None, _) \<Rightarrow> Some (- 1, g1, s)
                     | (Some jobid, None, _) \<Rightarrow> Some (- 1, g1\<lparr>pg_jobid := jobid\<rparr>, s)
                     | (Some jobid, Some stepid, None, _) \<Rightarrow> Some (- 1, g1\<lparr>pg_jobid := jobid, pg_stepid := stepid\<rparr>, s)
                     | (Some jobid, Some stepid, Some uid, None) \<Rightarrow> None
                     | (Some jobid, Some stepid, Some uid, Some cf) \<Rightarrow>
                         (case slurm_cpuset_create B C cf (pg_lock_first g1) s of
                            None \<Rightarrow> None
                          | Some (fd, first, s1) \<Rightarrow>
                              (let g2 = g1\<lparr>pg_jobid := jobid, pg_stepid := stepid, pg_lock_first := first\<rparr>
                               in if fd < 0 then Some (- 1, g2, s1)
                                  else (case join_job_cpuset B C mem junk rc0 sk jobid uid g2 s1 of
                                          None \<Rightarrow> None
                                        | Some (rc, g3, s2) \<Rightarrow> Some (rc, g3, slurm_cpuset_unlock C fd s2))))))))"

section \<open>The option \<open>--use-cpusets\<close>\<close>

text \<open>
  The state of the loop over the options: the result so far, the end of the program after \<open>help\<close>,
  or a failure of the parser (a file is read without a configuration).
\<close>

datatype options_state = Options int cpuset_plugin | Help_shown | Options_failed

definition user_option :: "conf_files \<Rightarrow> bool \<Rightarrow> string \<Rightarrow> options_state \<Rightarrow> bool \<times> options_state" where
  "user_option files remote opt st =
    (case st of
       Options rc g \<Rightarrow>
         (if \<not> remote \<and> opt = ''help'' then (True, Help_shown)
          else if opt = ''tasks'' then (False, Options rc (g\<lparr>pg_per_task := True\<rparr>))
          else if take 6 opt = ''debug='' then (False, Options rc (g\<lparr>pg_user_debug := cpuset_str2int (drop 6 opt)\<rparr>))
          else if opt = ''debug'' then (False, Options rc (g\<lparr>pg_user_debug := 1\<rparr>))
          else (case parse_one_option files opt g of
                  None \<Rightarrow> (True, Options_failed)
                | Some (r, g1) \<Rightarrow> (False, Options (if r < 0 then - 1 else rc) g1)))
     | _ \<Rightarrow> (True, st))"

text \<open>\<open>opts\<close> is the list \<open>user_options\<close>, if there is one; \<open>list_iterator_create\<close> is taken to succeed.\<close>

definition set_user_options :: "conf_files \<Rightarrow> bool \<Rightarrow> string clist option \<Rightarrow> cpuset_plugin \<Rightarrow> options_state" where
  "set_user_options files remote opts g =
    (case opts of
       None \<Rightarrow> Options 0 g
     | Some l \<Rightarrow>
         (case list_iterator_create l of
            (None, l1) \<Rightarrow> Options_failed
          | (Some i, l1) \<Rightarrow>
              (case until_next list_next (user_option files remote) l1 i (Options 0 g) of
                 None \<Rightarrow> Options_failed
               | Some (st, l2) \<Rightarrow> (case list_destroy l2 of None \<Rightarrow> Options_failed | Some l3 \<Rightarrow> st))))"

text \<open>The cpuset of the step, made and joined; the lock is not tested by \<open>parse_user_option\<close>.\<close>

definition join_step_cpuset ::
    "'b bitmask_ops \<Rightarrow> ('s, 'b) cpuset_ops \<Rightarrow> freelist \<times> freelist \<times> freelist \<Rightarrow> string \<Rightarrow> int \<Rightarrow>
     cpuset_plugin \<Rightarrow> 's \<Rightarrow> (int \<times> cpuset_plugin \<times> 's) option" where
  "join_step_cpuset B C mem junk rc0 g s =
    (case pg_conf g of
       None \<Rightarrow> None
     | Some cf \<Rightarrow>
         (case create_cpuset_for_step B C mem junk rc0 cf (pg_stepid g) (pg_step_ncpus g) s of
            None \<Rightarrow> None
          | Some (rc, s1) \<Rightarrow>
              (if rc < 0 then Some (rc, g\<lparr>pg_per_task := False\<rparr>, s1)
               else (case migrate_job_to_cpuset C junk (pg_stepid g) (- 1) 0 s1 of (r, s2) \<Rightarrow> Some (r, g, s2)))))"

definition parse_user_option ::
    "'b bitmask_ops \<Rightarrow> ('s, 'b) cpuset_ops \<Rightarrow> nat \<Rightarrow> freelist \<times> freelist \<times> freelist \<Rightarrow> string \<Rightarrow> int \<Rightarrow> conf_files \<Rightarrow>
     cpuset_spank \<Rightarrow> bool \<Rightarrow> string option \<Rightarrow> cpuset_plugin \<Rightarrow> 's \<Rightarrow> (int \<times> cpuset_plugin \<times> 's) option" where
  "parse_user_option B C h mem junk rc0 files sk remote optarg g s =
    (case (case optarg of
             None \<Rightarrow> Options 1 g
           | Some str \<Rightarrow>
               (case mem of (lf, nf, itf) \<Rightarrow>
                 (let opts = (case snd (list_split h lf nf itf (Some '','') str) of Split_list l \<Rightarrow> Some l | _ \<Rightarrow> None);
                      c = (case pg_conf g of None \<Rightarrow> Some cpuset_conf_create | Some c \<Rightarrow> Some c)
                  in case set_user_options files remote opts (g\<lparr>pg_user_options := (opts \<noteq> None), pg_conf := c\<rparr>) of
                       Options r g1 \<Rightarrow> Options (if r < 0 then - 1 else 1) g1
                     | st \<Rightarrow> st))) of
       Options rc g1 \<Rightarrow>
         (if rc < 0 then Some (- 1, g1, s)
          else if remote \<and> \<not> sk_post_opt sk
          then (case slurm_cpuset_lock C (pg_lock_first g1) s of
                  (fd, first, s1) \<Rightarrow>
                    map_option (\<lambda>(r, g2, s2). (r, g2, slurm_cpuset_unlock C fd s2))
                      (join_step_cpuset B C mem junk rc0 (g1\<lparr>pg_lock_first := first\<rparr>) s1))
          else Some (rc, g1, s))
     | _ \<Rightarrow> None)"

definition cpuset_init_post_opt ::
    "'b bitmask_ops \<Rightarrow> ('s, 'b) cpuset_ops \<Rightarrow> freelist \<times> freelist \<times> freelist \<Rightarrow> string \<Rightarrow> int \<Rightarrow>
     cpuset_spank \<Rightarrow> cpuset_plugin \<Rightarrow> 's \<Rightarrow> (int \<times> cpuset_plugin \<times> 's) option" where
  "cpuset_init_post_opt B C mem junk rc0 sk g s =
    (if \<not> sk_remote sk \<or> \<not> pg_user_options g then Some (0, g, s)
     else (case slurm_cpuset_lock C (pg_lock_first g) s of
             (fd, first, s1) \<Rightarrow>
               (let g1 = g\<lparr>pg_lock_first := first\<rparr>
                in if fd < 0 then Some (- 1, g1, s1)
                   else map_option (\<lambda>(r, g2, s2). (r, g2, slurm_cpuset_unlock C fd s2))
                     (join_step_cpuset B C mem junk rc0 g1 s1))))"

section \<open>Tasks\<close>

definition cpuset_task_post_fork ::
    "'b bitmask_ops \<Rightarrow> ('s, 'b) cpuset_ops \<Rightarrow> freelist \<times> freelist \<times> freelist \<Rightarrow> string \<Rightarrow> int \<Rightarrow>
     cpuset_spank \<Rightarrow> cpuset_plugin \<Rightarrow> 's \<Rightarrow> (int \<times> cpuset_plugin \<times> 's) option" where
  "cpuset_task_post_fork B C mem junk rc0 sk g s =
    (if \<not> pg_per_task g then Some (0, g, s)
     else (case (sk_task_id sk, sk_task_pid sk, pg_conf g) of
             (Some taskid, Some pid, Some cf) \<Rightarrow>
               (case slurm_cpuset_lock C (pg_lock_first g) s of
                  (fd, first, s1) \<Rightarrow>
                    (let g1 = g\<lparr>pg_lock_first := first\<rparr>
                     in if fd < 0 then Some (- 1, g1, s1)
                        else (case job_ncpus_per_task sk g1 of
                                (n, g2) \<Rightarrow>
                                  (case create_cpuset_for_task B C mem junk rc0 cf taskid n s1 of
                                     None \<Rightarrow> None
                                   | Some (rc, s2) \<Rightarrow>
                                       (case (if rc = 0 then migrate_job_to_cpuset C junk taskid (- 1) pid s2 else (rc, s2)) of
                                          (r, s3) \<Rightarrow> Some (r, g2, slurm_cpuset_unlock C fd s3))))))
           | (Some taskid, Some pid, None) \<Rightarrow> None
           | _ \<Rightarrow> Some (- 1, g, s)))"

text \<open>When the last task of the step has ended, the daemon moves to the cpuset of the user.\<close>

definition cpuset_task_exit :: "('s, 'b) cpuset_ops \<Rightarrow> cpuset_spank \<Rightarrow> cpuset_plugin \<Rightarrow> 's \<Rightarrow> int \<times> cpuset_plugin \<times> 's" where
  "cpuset_task_exit C sk g s =
    (case (if pg_ntasks g = 0 then sk_local_tasks sk else Some (pg_ntasks g)) of
       None \<Rightarrow> (0, g, s)
     | Some n \<Rightarrow>
         (let g1 = g\<lparr>pg_ntasks := n, pg_nexited := pg_nexited g + 1\<rparr>
          in if pg_nexited g1 < int n then (0, g1, s)
             else (case sk_uid sk of
                     None \<Rightarrow> (- 1, g1, s)
                   | Some uid \<Rightarrow> (0, g1, snd (migrate_to_user_cpuset C uid s)))))"

section \<open>The PAM module\<close>

datatype pam_result = PAM_SUCCESS | PAM_USER_UNKNOWN | PAM_SYSTEM_ERR | PAM_PERM_DENIED

definition in_user_cpuset :: "'b machine \<Rightarrow> int \<Rightarrow> bool" where
  "in_user_cpuset mc uid =
    (case mc_path mc of
       None \<Rightarrow> False
     | Some p \<Rightarrow> length p < 1024 \<and> take (length (user_name uid)) p = user_name uid)"

text \<open>The jobs of SLURM: number, user, whether it runs, and its CPUs on a node.\<close>

record pam_job =
  pj_id :: nat
  pj_uid :: int
  pj_running :: bool
  pj_cpus :: "string \<Rightarrow> int"

fun create_job_cpusets ::
    "'b bitmask_ops \<Rightarrow> ('s, 'b) cpuset_ops \<Rightarrow> freelist \<times> freelist \<times> freelist \<Rightarrow> string \<Rightarrow> int \<Rightarrow> cpuset_conf \<Rightarrow>
     string \<Rightarrow> int \<Rightarrow> pam_job list \<Rightarrow> int \<Rightarrow> 's \<Rightarrow> (int \<times> 's) option" where
  "create_job_cpusets B C mem junk rc0 cf host uid [] ncpus s = Some (ncpus, s)"
| "create_job_cpusets B C mem junk rc0 cf host uid (j # js) ncpus s =
    (let next = create_job_cpusets B C mem junk rc0 cf host uid js; n = pj_cpus j host
     in if pj_uid j \<noteq> uid \<or> \<not> pj_running j then next ncpus s
        else if n \<le> 0 then next ncpus s
        else if job_cpuset_exists (co_machine C s) junk (pj_id j) (pj_uid j) then next (ncpus + n) s
        else (case create_cpuset_for_job B C mem junk rc0 cf (pj_id j) (pj_uid j) n s of
                None \<Rightarrow> None
              | Some (r, s1) \<Rightarrow> if r < 0 then next ncpus s1 else next (ncpus + n) s1))"

text \<open>\<open>hostname\<close> is what \<open>gethostname\<close> gives; the name is cut at its first dot.\<close>

definition create_all_job_cpusets ::
    "'b bitmask_ops \<Rightarrow> ('s, 'b) cpuset_ops \<Rightarrow> freelist \<times> freelist \<times> freelist \<Rightarrow> string \<Rightarrow> int \<Rightarrow> cpuset_conf \<Rightarrow>
     string option \<Rightarrow> pam_job list option \<Rightarrow> int \<Rightarrow> 's \<Rightarrow> (int \<times> 's) option" where
  "create_all_job_cpusets B C mem junk rc0 cf hostname jobs uid s =
    (case hostname of
       None \<Rightarrow> Some (- 1, s)
     | Some h \<Rightarrow>
         (case jobs of
            None \<Rightarrow> Some (- 1, s)
          | Some js \<Rightarrow> create_job_cpusets B C mem junk rc0 cf (takeWhile (\<lambda>c. c \<noteq> CHR ''.'') h) uid js 0 s))"

fun pam_options :: "conf_files \<Rightarrow> string list \<Rightarrow> cpuset_conf option \<Rightarrow> int \<Rightarrow> (int \<times> cpuset_conf option \<times> int) option" where
  "pam_options files [] conf level = Some (0, conf, level)"
| "pam_options files (a # av) conf level =
    (if a = ''debug'' then pam_options files av conf (level + 1)
     else if take 6 a = ''debug='' then pam_options files av conf (1 + cpuset_str2int (drop 6 a))
     else (case cpuset_conf_parse_opt files conf a of
             None \<Rightarrow> None
           | Some (r, conf1) \<Rightarrow> if r < 0 then Some (- 1, conf1, level) else pam_options files av conf1 level))"

text \<open>
  \<open>user\<close> is the name PAM gives and \<open>getpwnam\<close> its number.  The lock is released on every path on
  which it was taken.
\<close>

definition pam_admit ::
    "'b bitmask_ops \<Rightarrow> ('s, 'b) cpuset_ops \<Rightarrow> freelist \<times> freelist \<times> freelist \<Rightarrow> string \<Rightarrow> int \<Rightarrow> cpuset_conf \<Rightarrow>
     string option \<Rightarrow> pam_job list option \<Rightarrow> int \<Rightarrow> bool \<Rightarrow> 's \<Rightarrow> (pam_result \<times> 's) option" where
  "pam_admit B C mem junk rc0 cf hostname jobs uid first s =
    (case slurm_cpuset_create B C cf first s of
       None \<Rightarrow> None
     | Some (fd, first1, s1) \<Rightarrow>
         (if fd < 0 then Some (PAM_SYSTEM_ERR, s1)
          else (case create_all_job_cpusets B C mem junk rc0 cf hostname jobs uid s1 of
                  None \<Rightarrow> None
                | Some (n, s2) \<Rightarrow>
                    (if n < 0 then Some (PAM_SYSTEM_ERR, slurm_cpuset_unlock C fd s2)
                     else if n = 0 then Some (PAM_PERM_DENIED, slurm_cpuset_unlock C fd s2)
                     else (case migrate_to_user_cpuset C uid s2 of
                             (r, s3) \<Rightarrow> Some (if r < 0 then PAM_SYSTEM_ERR else PAM_SUCCESS, slurm_cpuset_unlock C fd s3))))))"

definition pam_sm_acct_mgmt ::
    "'b bitmask_ops \<Rightarrow> ('s, 'b) cpuset_ops \<Rightarrow> freelist \<times> freelist \<times> freelist \<Rightarrow> string \<Rightarrow> int \<Rightarrow>
     (string \<Rightarrow> bool \<times> bool) \<Rightarrow> conf_files \<Rightarrow> string list \<Rightarrow> (string \<Rightarrow> int option) \<Rightarrow> string option \<Rightarrow>
     string option \<Rightarrow> pam_job list option \<Rightarrow> bool \<Rightarrow> 's \<Rightarrow> (pam_result \<times> 's) option" where
  "pam_sm_acct_mgmt B C mem junk rc0 access files av getpwnam user hostname jobs first s =
    (case user of
       None \<Rightarrow> Some (PAM_USER_UNKNOWN, s)
     | Some u \<Rightarrow>
         (case (if u = [] then None else getpwnam u) of
            None \<Rightarrow> Some (PAM_USER_UNKNOWN, s)
          | Some uid \<Rightarrow>
              (if uid = 0 \<or> in_user_cpuset (co_machine C s) uid then Some (PAM_SUCCESS, s)
               else (case pam_options files av (Some cpuset_conf_create) 1 of
                       None \<Rightarrow> None
                     | Some (r, conf, level) \<Rightarrow>
                         (if r < 0 then Some (PAM_SYSTEM_ERR, s)
                          else (case (if conf \<noteq> None \<and> cpuset_conf_file (the conf) \<noteq> None then Some (0, conf)
                                      else cpuset_conf_parse_system access files conf) of
                                  Some (r1, Some cf) \<Rightarrow> pam_admit B C mem junk rc0 cf hostname jobs uid first s
                                | _ \<Rightarrow> None))))))"

section \<open>The release agent\<close>

definition release_agent_main ::
    "'b bitmask_ops \<Rightarrow> ('s, 'b) cpuset_ops \<Rightarrow> (string \<Rightarrow> bool \<times> bool) \<Rightarrow> conf_files \<Rightarrow> string list \<Rightarrow> 's \<Rightarrow>
     (int \<times> 's) option" where
  "release_agent_main B C access files av s =
    (if length av < 2 then Some (1, s)
     else (case cpuset_conf_parse_system access files (Some cpuset_conf_create) of
             Some (r, Some cf) \<Rightarrow>
               (case slurm_cpuset_create B C cf True s of
                  None \<Rightarrow> None
                | Some (fd, first, s1) \<Rightarrow>
                    (if fd < 0 then Some (1, s1)
                     else map_option (\<lambda>(r1, s2). (0, slurm_cpuset_unlock C fd s2)) (update_user_cpusets B C cf s1)))
           | _ \<Rightarrow> None))"

section \<open>Where a job goes\<close>

text \<open>
  The cpuset a job is moved to is the one that was made for it exactly when the caller runs in the
  root cpuset or in one below \<open>/slurm\<close>, but not in \<open>/slurm\<close> itself.
\<close>

definition below_slurm :: "string \<Rightarrow> bool" where
  "below_slurm p \<longleftrightarrow> p = ''/'' \<or> take 6 p = ''/slurm'' \<and> p \<noteq> ''/slurm''"

end
