(* ===== verification/CpusetLaws.thy ===== *)
theory CpusetLaws
  imports CpusetCreate NodemapProps
begin

text \<open>
  What the cpuset plugin relies on about the cpuset file system, and the effect of the operations of
  \<open>CpusetCreate\<close> on the cpusets of users and jobs.
\<close>

section \<open>Names below \<open>/slurm\<close>\<close>

definition sub :: "string \<Rightarrow> string" where
  "sub e = ''/slurm/'' @ e"

definition subsub :: "string \<Rightarrow> string \<Rightarrow> string" where
  "subsub e d = sub e @ CHR ''/'' # d"

definition plain :: "string \<Rightarrow> bool" where
  "plain e \<longleftrightarrow> CHR ''/'' \<notin> set e"

text \<open>A name is that of a cpuset or of one inside it.\<close>

definition under :: "string \<Rightarrow> string \<Rightarrow> bool" where
  "under a n \<longleftrightarrow> n = a \<or> take (Suc (length a)) n = a @ ''/''"

lemma plain_split:
  assumes "plain a" "plain b"
  shows "a @ CHR ''/'' # x = b @ CHR ''/'' # y \<longleftrightarrow> a = b \<and> x = y"
proof
  assume e: "a @ CHR ''/'' # x = b @ CHR ''/'' # y"
  have t: "takeWhile (\<lambda>c. c \<noteq> CHR ''/'') (e @ CHR ''/'' # z) = e" if "plain e" for e z
    using that by (subst takeWhile_append2) (auto simp: plain_def)
  have "a = b" using arg_cong[OF e, of "takeWhile (\<lambda>c. c \<noteq> CHR ''/'')"] t assms by simp
  with e show "a = b \<and> x = y" by simp
qed simp

lemma sub_eq [simp]: "sub a = sub b \<longleftrightarrow> a = b"
  by (simp add: sub_def)

lemma subsub_eq [simp]: "plain a \<Longrightarrow> plain b \<Longrightarrow> subsub a x = subsub b y \<longleftrightarrow> a = b \<and> x = y"
  by (simp add: subsub_def sub_def plain_split)

lemma sub_subsub [simp]: "plain a \<Longrightarrow> sub a \<noteq> subsub b x" "plain a \<Longrightarrow> subsub b x \<noteq> sub a"
  by (auto simp: subsub_def sub_def plain_def)

lemma under_sub: "plain b \<Longrightarrow> under (sub a) (sub b) \<longleftrightarrow> a = b"
proof -
  assume b: "plain b"
  have "take (Suc (length (sub a))) (sub b) \<noteq> sub a @ ''/''"
  proof
    assume t: "take (Suc (length (sub a))) (sub b) = sub a @ ''/''"
    have "CHR ''/'' \<in> set (drop 7 (take (Suc (length (sub a))) (sub b)))"
      unfolding t by (simp add: sub_def)
    moreover have "drop 7 (take (Suc (length (sub a))) (sub b)) = take (Suc (length a)) b"
      by (simp add: sub_def drop_take)
    ultimately show False using b set_take_subset[of "Suc (length a)" b] by (auto simp: plain_def)
  qed
  then show ?thesis by (auto simp: under_def)
qed

lemma under_subsub:
  assumes "plain a" "plain b"
  shows "under (sub a) (subsub b x) \<longleftrightarrow> a = b"
proof
  assume u: "under (sub a) (subsub b x)"
  then have "take (Suc (length (sub a))) (subsub b x) = sub a @ ''/''"
    using sub_subsub(1)[OF assms(1), of b x] by (auto simp: under_def)
  then have "subsub b x = (sub a @ ''/'') @ drop (Suc (length (sub a))) (subsub b x)"
    by (metis append_take_drop_id)
  then have "subsub b x = subsub a (drop (Suc (length (sub a))) (subsub b x))" by (simp add: subsub_def)
  then show "a = b" using subsub_eq[OF assms(2,1)] by blast
qed (simp add: under_def subsub_def)

text \<open>Queries after a cpuset was renamed with everything in it.\<close>

definition moved :: "string \<Rightarrow> string \<Rightarrow> (string \<Rightarrow> 'a option) \<Rightarrow> string \<Rightarrow> 'a option" where
  "moved a b q n = (if under b n then q (a @ drop (length b) n) else if under a n then None else q n)"

lemma moved_subsub:
  assumes "plain a" "plain b" "plain e"
  shows "moved (sub a) (sub b) q (subsub e d) = (if e = b then q (subsub a d) else if e = a then None else q (subsub e d))"
  using under_subsub[OF assms(2,3)] under_subsub[OF assms(1,3)] by (auto simp: moved_def subsub_def)

lemma moved_sub:
  assumes "plain e"
  shows "moved (sub a) (sub b) q (sub e) = (if e = b then q (sub a) else if e = a then None else q (sub e))"
  using under_sub[OF assms] by (auto simp: moved_def)

section \<open>Numbers in names\<close>

lemma digits_plain: "(\<And>c. c \<in> set e \<Longrightarrow> isdigit c) \<Longrightarrow> plain e"
proof -
  assume d: "\<And>c. c \<in> set e \<Longrightarrow> isdigit c"
  have "\<not> isdigit (CHR ''/'')" by (simp add: isdigit_def)
  with d show "plain e" unfolding plain_def by blast
qed

lemma dec_plain [simp]: "plain (dec n)"
  using digits_plain dec_digits by blast

lemma dec_inj [simp]: "dec a = dec b \<longleftrightarrow> a = b"
  by (metis dec_val_dec of_nat_eq_iff)

lemma dec_int_nonneg: "0 \<le> n \<Longrightarrow> dec_int n = dec (nat n)"
  by (simp add: dec_int_def)

lemma dec_int_plain [simp]: "0 \<le> n \<Longrightarrow> plain (dec_int n)"
  by (simp add: dec_int_nonneg)

lemma dec_int_inj: "0 \<le> m \<Longrightarrow> 0 \<le> n \<Longrightarrow> dec_int m = dec_int n \<longleftrightarrow> m = n"
  by (auto simp: dec_int_nonneg)

definition orphan_entry :: "int \<Rightarrow> string" where
  "orphan_entry u = ''orphan:'' @ dec_int u"

lemma orphan_plain [simp]: "0 \<le> u \<Longrightarrow> plain (orphan_entry u)"
  using dec_int_plain[of u] by (simp add: orphan_entry_def plain_def)

lemma dec_first_digit: "isdigit (hd (dec n))"
  using dec_digits[of "hd (dec n)" n] by simp

lemma orphan_not_user [simp]:
  "0 \<le> u \<Longrightarrow> dec_int u \<noteq> orphan_entry v" "0 \<le> u \<Longrightarrow> orphan_entry v \<noteq> dec_int u"
proof -
  assume u: "0 \<le> u"
  have "hd (orphan_entry v) = CHR ''o''" by (simp add: orphan_entry_def)
  moreover have "hd (dec_int u) \<noteq> CHR ''o''"
    using dec_first_digit[of "nat u"] u by (auto simp: dec_int_nonneg isdigit_def)
  ultimately show "dec_int u \<noteq> orphan_entry v" "orphan_entry v \<noteq> dec_int u" by metis+
qed

lemma orphan_inj: "0 \<le> m \<Longrightarrow> 0 \<le> n \<Longrightarrow> orphan_entry m = orphan_entry n \<longleftrightarrow> m = n"
  by (simp add: orphan_entry_def dec_int_inj)

lemma dec_job_entry: "job_entry (dec n)"
proof -
  obtain c s where d: "dec n = c # s" by (cases "dec n") auto
  then have "isdigit c" using dec_first_digit[of n] by simp
  then have "c \<noteq> CHR ''.''" "c \<noteq> CHR ''o''" by (auto simp: isdigit_def)
  then show ?thesis by (simp add: job_entry_def d)
qed

lemma user_names: "user_name u = sub (dec_int u)" "user_path u = ''/dev/cpuset'' @ sub (dec_int u)"
    "orphan_path u = ''/dev/cpuset'' @ sub (orphan_entry u)" "cpuset_path_to_name (user_path u) = sub (dec_int u)"
  by (simp_all add: user_name_def user_path_def orphan_path_def sub_def orphan_entry_def cpuset_path_to_name_def)

definition job_name :: "int \<Rightarrow> nat \<Rightarrow> string" where
  "job_name u j = subsub (dec_int u) (dec j)"

definition uid_ok :: "int \<Rightarrow> bool" where
  "uid_ok u \<longleftrightarrow> 0 \<le> u \<and> u < 2 ^ 31"

definition jobid_ok :: "nat \<Rightarrow> bool" where
  "jobid_ok j \<longleftrightarrow> j < 2 ^ 32"

lemma uid_plain [simp]: "uid_ok u \<Longrightarrow> plain (dec_int u)" "uid_ok u \<Longrightarrow> plain (orphan_entry u)"
  by (simp_all add: uid_ok_def)

lemma name_lengths:
  assumes "uid_ok u" "jobid_ok j"
  shows "length (user_name u) \<le> 17" "length (job_name u j) \<le> 28" "length (sub (dec_int u)) \<le> 17"
proof -
  have "length (dec (nat u)) \<le> 10" using assms(1) dec_length_bound[of "nat u" 9] by (auto simp: uid_ok_def)
  moreover have "length (dec j) \<le> 10" using assms(2) dec_length_bound[of j 9] by (simp add: jobid_ok_def)
  ultimately show "length (user_name u) \<le> 17" "length (job_name u j) \<le> 28" "length (sub (dec_int u)) \<le> 17"
    using assms(1) by (simp_all add: user_name_def job_name_def subsub_def sub_def uid_ok_def dec_int_nonneg)
qed

lemma job_path:
  assumes "mc_path mc = Some ''/''" "uid_ok u" "jobid_ok j"
  shows "job_cpuset_path mc junk j u = Some (job_name u j)"
  using assms(1) name_lengths[OF assms(2,3)] dec_length_bound[of j 9] assms(3)
  by (simp add: job_cpuset_path_def Let_def user_names job_name_def subsub_def jobid_ok_def)

section \<open>The laws of the cpuset file system\<close>

definition queries :: "('s, 'b) cpuset_ops \<Rightarrow> 's \<Rightarrow> string \<Rightarrow> 'b option option" where
  "queries C s = mc_query (co_machine C s)"

text \<open>
  The plugin runs in the root cpuset of a machine all CPUs of which belong to memory nodes in use.
  A query of an existing cpuset gives its CPUs; a directory lists the cpusets in it.  An operation
  that succeeds changes the cpuset it names, and one that fails changes nothing.
\<close>

definition cpuset_fs_laws :: "'b bitmask_ops \<Rightarrow> ('s, 'b) cpuset_ops \<Rightarrow> int \<Rightarrow> bool" where
  "cpuset_fs_laws B C N \<longleftrightarrow>
    (\<forall>s. machine_ok B (co_machine C s) \<and> mc_path (co_machine C s) = Some ''/'' \<and> mc_ncpus (co_machine C s) = N \<and>
         local_cpus B (co_machine C s) = {0 ..< N}) \<and>
    (\<forall>s n r. queries C s n = Some r \<longrightarrow> (\<exists>c. r = Some c \<and> bits B c \<subseteq> {0 ..< N})) \<and>
    (\<forall>s n d ds. mc_dir (co_machine C s) (''/dev/cpuset'' @ n) = Some ds \<and> plain d \<and>
         queries C s (n @ ''/'' @ d) \<noteq> None \<longrightarrow> d \<in> set ds) \<and>
    (\<forall>s n cp. queries C (snd (co_create C n cp s)) =
         (if fst (co_create C n cp s) then (queries C s)(n \<mapsto> Some (fst cp)) else queries C s)) \<and>
    (\<forall>s n cp. queries C (snd (co_modify C n cp s)) =
         (if fst (co_modify C n cp s) = Modified then (queries C s)(n \<mapsto> Some (fst cp)) else queries C s)) \<and>
    (\<forall>s n. if fst (co_mkdir C (''/dev/cpuset'' @ n) s) = Made
         then (\<exists>e. bits B e = {} \<and> queries C s n = None \<and> queries C (snd (co_mkdir C (''/dev/cpuset'' @ n) s)) = (queries C s)(n \<mapsto> Some e))
         else queries C (snd (co_mkdir C (''/dev/cpuset'' @ n) s)) = queries C s) \<and>
    (\<forall>s a b. queries C (snd (co_rename C (''/dev/cpuset'' @ a) (''/dev/cpuset'' @ b) s)) =
         (if fst (co_rename C (''/dev/cpuset'' @ a) (''/dev/cpuset'' @ b) s) then moved a b (queries C s) else queries C s)) \<and>
    (\<forall>s a b n. fst (co_rename C (''/dev/cpuset'' @ a) (''/dev/cpuset'' @ b) s) \<longrightarrow>
         queries C s a \<noteq> None \<and> (under b n \<longrightarrow> queries C s n = None)) \<and>
    (\<forall>s p. queries C (co_rmdir C p s) = queries C s \<or>
         (\<exists>n. queries C (co_rmdir C p s) = (queries C s)(n := None) \<and> (\<forall>d. queries C s (n @ ''/'' @ d) = None))) \<and>
    (\<forall>s p. queries C (co_kill C p s) = queries C s)"

lemma fs_laws:
  assumes "cpuset_fs_laws B C N"
  shows "machine_ok B (co_machine C s)" "mc_path (co_machine C s) = Some ''/''" "mc_ncpus (co_machine C s) = N"
    "local_cpus B (co_machine C s) = {0 ..< N}"
    "queries C s n = Some r \<Longrightarrow> \<exists>c. r = Some c \<and> bits B c \<subseteq> {0 ..< N}"
    "mc_dir (co_machine C s) (''/dev/cpuset'' @ n) = Some ds \<Longrightarrow> plain d \<Longrightarrow> queries C s (n @ ''/'' @ d) \<noteq> None \<Longrightarrow> d \<in> set ds"
    "co_create C n cp s = (ok, s1) \<Longrightarrow> queries C s1 = (if ok then (queries C s)(n \<mapsto> Some (fst cp)) else queries C s)"
    "co_modify C n cp s = (m, s1) \<Longrightarrow> queries C s1 = (if m = Modified then (queries C s)(n \<mapsto> Some (fst cp)) else queries C s)"
    "co_mkdir C (''/dev/cpuset'' @ n) s = (Made, s1) \<Longrightarrow>
       \<exists>e. bits B e = {} \<and> queries C s n = None \<and> queries C s1 = (queries C s)(n \<mapsto> Some e)"
    "co_mkdir C (''/dev/cpuset'' @ n) s = (x, s1) \<Longrightarrow> x \<noteq> Made \<Longrightarrow> queries C s1 = queries C s"
    "co_rename C (''/dev/cpuset'' @ a) (''/dev/cpuset'' @ b) s = (ok, s1) \<Longrightarrow>
       queries C s1 = (if ok then moved a b (queries C s) else queries C s)"
    "co_rename C (''/dev/cpuset'' @ a) (''/dev/cpuset'' @ b) s = (True, s1) \<Longrightarrow> under b n \<Longrightarrow> queries C s n = None"
    "co_rename C (''/dev/cpuset'' @ a) (''/dev/cpuset'' @ b) s = (True, s1) \<Longrightarrow> queries C s a \<noteq> None"
    "queries C (co_rmdir C p s) = queries C s \<or>
       (\<exists>n. queries C (co_rmdir C p s) = (queries C s)(n := None) \<and> (\<forall>d. queries C s (n @ ''/'' @ d) = None))"
    "queries C (co_kill C pid s) = queries C s"
proof -
  note L = assms[unfolded cpuset_fs_laws_def]
  note L1 = L[THEN conjunct1] and R1 = L[THEN conjunct2]
  note L2 = R1[THEN conjunct1] and R2 = R1[THEN conjunct2]
  note L3 = R2[THEN conjunct1] and R3 = R2[THEN conjunct2]
  note L4 = R3[THEN conjunct1] and R4 = R3[THEN conjunct2]
  note L5 = R4[THEN conjunct1] and R5 = R4[THEN conjunct2]
  note L6 = R5[THEN conjunct1] and R6 = R5[THEN conjunct2]
  note L7 = R6[THEN conjunct1] and R7 = R6[THEN conjunct2]
  note L8 = R7[THEN conjunct1] and R8 = R7[THEN conjunct2]
  show "machine_ok B (co_machine C s)" "mc_path (co_machine C s) = Some ''/''" "mc_ncpus (co_machine C s) = N"
    "local_cpus B (co_machine C s) = {0 ..< N}" using L1 by blast+
  show "queries C s n = Some r \<Longrightarrow> \<exists>c. r = Some c \<and> bits B c \<subseteq> {0 ..< N}" using L2 by blast
  show "mc_dir (co_machine C s) (''/dev/cpuset'' @ n) = Some ds \<Longrightarrow> plain d \<Longrightarrow> queries C s (n @ ''/'' @ d) \<noteq> None \<Longrightarrow> d \<in> set ds"
    using L3 by blast
  show "co_create C n cp s = (ok, s1) \<Longrightarrow> queries C s1 = (if ok then (queries C s)(n \<mapsto> Some (fst cp)) else queries C s)"
    using L4[rule_format, of n cp s] by simp
  show "co_modify C n cp s = (m, s1) \<Longrightarrow> queries C s1 = (if m = Modified then (queries C s)(n \<mapsto> Some (fst cp)) else queries C s)"
    using L5[rule_format, of n cp s] by simp
  show "co_mkdir C (''/dev/cpuset'' @ n) s = (Made, s1) \<Longrightarrow>
       \<exists>e. bits B e = {} \<and> queries C s n = None \<and> queries C s1 = (queries C s)(n \<mapsto> Some e)"
    using L6[THEN spec, THEN spec, of n s] by (metis fst_conv snd_conv)
  show "co_mkdir C (''/dev/cpuset'' @ n) s = (x, s1) \<Longrightarrow> x \<noteq> Made \<Longrightarrow> queries C s1 = queries C s"
    using L6[THEN spec, THEN spec, of n s] by (metis fst_conv snd_conv)
  show "co_rename C (''/dev/cpuset'' @ a) (''/dev/cpuset'' @ b) s = (ok, s1) \<Longrightarrow>
       queries C s1 = (if ok then moved a b (queries C s) else queries C s)"
    using L7[THEN spec, THEN spec, THEN spec, of a b s] by (metis fst_conv snd_conv)
  show "co_rename C (''/dev/cpuset'' @ a) (''/dev/cpuset'' @ b) s = (True, s1) \<Longrightarrow> under b n \<Longrightarrow> queries C s n = None"
    using L8 by (metis fst_conv)
  show "co_rename C (''/dev/cpuset'' @ a) (''/dev/cpuset'' @ b) s = (True, s1) \<Longrightarrow> queries C s a \<noteq> None"
    using L8 by (metis fst_conv)
  show "queries C (co_rmdir C p s) = queries C s \<or>
       (\<exists>n. queries C (co_rmdir C p s) = (queries C s)(n := None) \<and> (\<forall>d. queries C s (n @ ''/'' @ d) = None))"
    using R8[THEN conjunct1] by blast
  show "queries C (co_kill C pid s) = queries C s" using R8[THEN conjunct2] by blast
qed

section \<open>Who has which CPUs\<close>

definition cpus_of :: "'b bitmask_ops \<Rightarrow> (string \<Rightarrow> 'b option option) \<Rightarrow> string \<Rightarrow> int set" where
  "cpus_of B q n = (case q n of Some (Some c) \<Rightarrow> bits B c | _ \<Rightarrow> {})"

definition job_cpus :: "'b bitmask_ops \<Rightarrow> (string \<Rightarrow> 'b option option) \<Rightarrow> int \<Rightarrow> nat \<Rightarrow> int set" where
  "job_cpus B q u j = cpus_of B q (job_name u j)"

definition user_cpus :: "'b bitmask_ops \<Rightarrow> (string \<Rightarrow> 'b option option) \<Rightarrow> int \<Rightarrow> int set" where
  "user_cpus B q u = cpus_of B q (sub (dec_int u))"

text \<open>
  The jobs of a user have CPUs of the user's cpuset, no two jobs share one, and a cpuset put aside
  as an orphan has no jobs with CPUs.
\<close>

definition jobs_ok :: "'b bitmask_ops \<Rightarrow> (string \<Rightarrow> 'b option option) \<Rightarrow> bool" where
  "jobs_ok B q \<longleftrightarrow>
    (\<forall>u j. uid_ok u \<and> jobid_ok j \<longrightarrow> job_cpus B q u j \<subseteq> user_cpus B q u) \<and>
    (\<forall>u j v k. uid_ok u \<and> jobid_ok j \<and> uid_ok v \<and> jobid_ok k \<and> (u, j) \<noteq> (v, k) \<longrightarrow>
       job_cpus B q u j \<inter> job_cpus B q v k = {}) \<and>
    (\<forall>u j. uid_ok u \<and> jobid_ok j \<longrightarrow> cpus_of B q (subsub (orphan_entry u) (dec j)) = {})"

lemma jobs_okD:
  assumes "jobs_ok B q" "uid_ok u" "jobid_ok j"
  shows "job_cpus B q u j \<subseteq> user_cpus B q u" "cpus_of B q (subsub (orphan_entry u) (dec j)) = {}"
    "uid_ok v \<Longrightarrow> jobid_ok k \<Longrightarrow> (u, j) \<noteq> (v, k) \<Longrightarrow> job_cpus B q u j \<inter> job_cpus B q v k = {}"
  using assms by (simp_all add: jobs_ok_def)

lemma jobs_okI:
  assumes "jobs_ok B q"
    and "\<And>u j. uid_ok u \<Longrightarrow> jobid_ok j \<Longrightarrow> job_cpus B q' u j \<subseteq> job_cpus B q u j"
    and "\<And>u j. uid_ok u \<Longrightarrow> jobid_ok j \<Longrightarrow> job_cpus B q' u j \<subseteq> user_cpus B q' u"
    and "\<And>u j. uid_ok u \<Longrightarrow> jobid_ok j \<Longrightarrow> cpus_of B q' (subsub (orphan_entry u) (dec j)) = {}"
  shows "jobs_ok B q'"
  unfolding jobs_ok_def
proof (intro conjI allI impI)
  fix u j v k
  assume "uid_ok u \<and> jobid_ok j \<and> uid_ok v \<and> jobid_ok k \<and> (u, j) \<noteq> (v, k)"
  then show "job_cpus B q' u j \<inter> job_cpus B q' v k = {}"
    using jobs_okD(3)[OF assms(1), of u j v k] assms(2)[of u j] assms(2)[of v k] by blast
qed (use assms(3,4) in auto)

lemma uids: "uid_ok u \<Longrightarrow> uid_ok v \<Longrightarrow> dec_int u = dec_int v \<longleftrightarrow> u = v"
    "uid_ok u \<Longrightarrow> uid_ok v \<Longrightarrow> orphan_entry u = orphan_entry v \<longleftrightarrow> u = v"
    "uid_ok u \<Longrightarrow> dec_int u \<noteq> orphan_entry v" "uid_ok u \<Longrightarrow> orphan_entry v \<noteq> dec_int u"
  by (simp_all add: uid_ok_def dec_int_inj orphan_inj)

lemma cpus_upd: "cpus_of B (q(n := r)) m = (if m = n then (case r of Some (Some c) \<Rightarrow> bits B c | _ \<Rightarrow> {}) else cpus_of B q m)"
  by (simp add: cpus_of_def)

lemma job_name_eq: "uid_ok u \<Longrightarrow> uid_ok v \<Longrightarrow> job_name u j = job_name v k \<longleftrightarrow> u = v \<and> j = k"
  by (simp add: job_name_def uids)

text \<open>The names of the jobs, users and orphans.\<close>

lemmas names = job_name_def uids

lemma set_user:
  assumes "jobs_ok B q" "uid_ok u" "\<And>j. jobid_ok j \<Longrightarrow> job_cpus B q u j \<subseteq> bits B c"
  shows "jobs_ok B (q(sub (dec_int u) \<mapsto> Some c))" "job_cpus B (q(sub (dec_int u) \<mapsto> Some c)) = job_cpus B q"
    "user_cpus B (q(sub (dec_int u) \<mapsto> Some c)) u = bits B c"
proof -
  let ?q = "q(sub (dec_int u) \<mapsto> Some c)"
  show j: "job_cpus B ?q = job_cpus B q"
    using assms(2) by (auto simp: fun_eq_iff job_cpus_def cpus_upd job_name_def)
  show uc: "user_cpus B ?q u = bits B c" by (simp add: user_cpus_def cpus_upd)
  show "jobs_ok B ?q"
  proof (rule jobs_okI[OF assms(1)])
    fix v k
    assume v: "uid_ok v" "jobid_ok k"
    show "job_cpus B ?q v k \<subseteq> user_cpus B ?q v"
    proof (cases "v = u")
      case False
      then have "user_cpus B ?q v = user_cpus B q v" using uids(1)[OF v(1) assms(2)] by (simp add: user_cpus_def cpus_upd)
      then show ?thesis using jobs_okD(1)[OF assms(1) v] j by simp
    qed (use assms(3) j v uc in simp)
    show "cpus_of B ?q (subsub (orphan_entry v) (dec k)) = {}"
      using jobs_okD(2)[OF assms(1) v] assms(2) by (simp add: cpus_upd)
  qed (simp add: j)
qed

lemma set_job:
  assumes "jobs_ok B q" "uid_ok u" "jobid_ok j" "bits B c \<subseteq> user_cpus B q u"
    and "\<And>v k. uid_ok v \<Longrightarrow> jobid_ok k \<Longrightarrow> bits B c \<inter> job_cpus B q v k = {}"
  shows "jobs_ok B (q(job_name u j \<mapsto> Some c))"
proof -
  let ?q = "q(job_name u j \<mapsto> Some c)"
  have jc: "job_cpus B ?q v k = (if v = u \<and> k = j then bits B c else job_cpus B q v k)" if "uid_ok v" for v k
    using job_name_eq[OF that assms(2)] by (simp add: job_cpus_def cpus_upd)
  have uc: "user_cpus B ?q v = user_cpus B q v" if "uid_ok v" for v
    using that by (simp add: user_cpus_def cpus_upd job_name_def)
  have oc: "cpus_of B ?q (subsub (orphan_entry v) (dec k)) = cpus_of B q (subsub (orphan_entry v) (dec k))" if "uid_ok v" for v k
    using that assms(2) uids(4)[OF assms(2)] by (simp add: cpus_upd job_name_def)
  show ?thesis
    unfolding jobs_ok_def
  proof (intro conjI allI impI)
    fix v k w l
    assume a: "uid_ok v \<and> jobid_ok k \<and> uid_ok w \<and> jobid_ok l \<and> (v, k) \<noteq> (w, l)"
    then show "job_cpus B ?q v k \<inter> job_cpus B ?q w l = {}"
      using jc[of v k] jc[of w l] jobs_okD(3)[OF assms(1), of v k w l] assms(5)[of v k] assms(5)[of w l] by auto
  next
    fix v k
    assume a: "uid_ok v \<and> jobid_ok k"
    then show "job_cpus B ?q v k \<subseteq> user_cpus B ?q v"
      using jc[of v k] uc[of v] jobs_okD(1)[OF assms(1), of v k] assms(4) by auto
    show "cpus_of B ?q (subsub (orphan_entry v) (dec k)) = {}"
      using a oc[of v k] jobs_okD(2)[OF assms(1), of v k] by simp
  qed
qed

lemma drop_cpuset:
  assumes "jobs_ok B q" "\<And>d. q (n @ ''/'' @ d) = None"
  shows "jobs_ok B (q(n := None))" "job_cpus B (q(n := None)) u j \<subseteq> job_cpus B q u j"
proof -
  show sub: "job_cpus B (q(n := None)) u j \<subseteq> job_cpus B q u j" for u j by (simp add: job_cpus_def cpus_upd)
  show "jobs_ok B (q(n := None))"
  proof (rule jobs_okI[OF assms(1) sub])
    fix v k
    assume v: "uid_ok v" "jobid_ok k"
    show "job_cpus B (q(n := None)) v k \<subseteq> user_cpus B (q(n := None)) v"
    proof (cases "n = sub (dec_int v)")
      case True
      then have "job_cpus B q v k = {}" using assms(2)[of "dec k"] by (simp add: job_cpus_def cpus_of_def job_name_def subsub_def)
      then show ?thesis using sub by blast
    next
      case False
      then have "user_cpus B (q(n := None)) v = user_cpus B q v" by (auto simp: user_cpus_def cpus_upd)
      then show ?thesis using sub jobs_okD(1)[OF assms(1) v] by blast
    qed
    show "cpus_of B (q(n := None)) (subsub (orphan_entry v) (dec k)) = {}"
      using jobs_okD(2)[OF assms(1) v] by (simp add: cpus_upd)
  qed
qed

text \<open>Taking a cpuset back from the orphans, and putting one with no CPUs in its jobs there.\<close>

lemma cpus_moved:
  assumes "plain a" "plain b" "plain e"
  shows "cpus_of B (moved (sub a) (sub b) q) (subsub e d) =
    (if e = b then cpus_of B q (subsub a d) else if e = a then {} else cpus_of B q (subsub e d))"
    "cpus_of B (moved (sub a) (sub b) q) (sub e) =
    (if e = b then cpus_of B q (sub a) else if e = a then {} else cpus_of B q (sub e))"
  using assms by (simp_all add: cpus_of_def moved_subsub moved_sub)

lemma take_back:
  assumes "jobs_ok B q" "uid_ok u"
  shows "jobs_ok B (moved (sub (orphan_entry u)) (sub (dec_int u)) q)" (is "jobs_ok B ?q")
    "uid_ok v \<Longrightarrow> jobid_ok k \<Longrightarrow>
     job_cpus B (moved (sub (orphan_entry u)) (sub (dec_int u)) q) v k = (if v = u then {} else job_cpus B q v k)"
proof -
  have j: "job_cpus B ?q v k = (if v = u then {} else job_cpus B q v k)" if v: "uid_ok v" "jobid_ok k" for v k
    using v assms jobs_okD(2)[OF assms v(2)] uids by (auto simp: job_cpus_def job_name_def cpus_moved)
  show "job_cpus B ?q v k = (if v = u then {} else job_cpus B q v k)" if "uid_ok v" "jobid_ok k" by (rule j[OF that])
  show "jobs_ok B ?q"
  proof (rule jobs_okI[OF assms(1)])
    fix v k
    assume v: "uid_ok v" "jobid_ok k"
    show "job_cpus B ?q v k \<subseteq> job_cpus B q v k" using j[OF v] by simp
    have "user_cpus B ?q v = user_cpus B q v" if "v \<noteq> u"
      using that v assms(2) uids by (auto simp: user_cpus_def cpus_moved)
    then show "job_cpus B ?q v k \<subseteq> user_cpus B ?q v" using j[OF v] jobs_okD(1)[OF assms(1) v] by auto
    show "cpus_of B ?q (subsub (orphan_entry v) (dec k)) = {}"
      using v assms(2) uids jobs_okD(2)[OF assms(1) v] by (auto simp: cpus_moved)
  qed
qed

lemma put_aside:
  assumes "jobs_ok B q" "uid_ok u" "\<And>j. jobid_ok j \<Longrightarrow> job_cpus B q u j = {}"
  shows "jobs_ok B (moved (sub (dec_int u)) (sub (orphan_entry u)) q)" (is "jobs_ok B ?q")
    "uid_ok v \<Longrightarrow> jobid_ok k \<Longrightarrow>
     job_cpus B (moved (sub (dec_int u)) (sub (orphan_entry u)) q) v k = job_cpus B q v k"
proof -
  have j: "job_cpus B ?q v k = job_cpus B q v k" if v: "uid_ok v" "jobid_ok k" for v k
    using v assms(2) assms(3)[OF v(2)] uids by (auto simp: job_cpus_def job_name_def cpus_moved)
  show "job_cpus B ?q v k = job_cpus B q v k" if "uid_ok v" "jobid_ok k" by (rule j[OF that])
  show "jobs_ok B ?q"
  proof (rule jobs_okI[OF assms(1)])
    fix v k
    assume v: "uid_ok v" "jobid_ok k"
    show "job_cpus B ?q v k \<subseteq> job_cpus B q v k" using j[OF v] by simp
    have "user_cpus B ?q v = user_cpus B q v" if "v \<noteq> u"
      using that v assms(2) uids by (auto simp: user_cpus_def cpus_moved)
    then show "job_cpus B ?q v k \<subseteq> user_cpus B ?q v"
      using j[OF v] jobs_okD(1)[OF assms(1) v] assms(3)[OF v(2)] by auto
    show "cpus_of B ?q (subsub (orphan_entry v) (dec k)) = {}"
      using v assms(2) assms(3)[OF v(2)] uids jobs_okD(2)[OF assms(1) v]
      by (auto simp: cpus_moved job_cpus_def job_name_def)
  qed
qed

end
