(* ===== verification/CpusetJobs.thy ===== *)
theory CpusetJobs
  imports CpusetLaws
begin

text \<open>
  What \<open>user_cpuset_update\<close>, \<open>create_cpuset_for_job\<close> and the cleaning do to the CPUs of jobs, and
  that the jobs of a node keep their CPUs to themselves.
\<close>

section \<open>Updating the cpuset of a user\<close>

lemma child_cpusI:
  "d \<in> set ds \<Longrightarrow> job_entry d \<Longrightarrow> query (take 4095 (current @ ''/'' @ d)) = Some (Some c) \<Longrightarrow>
   bits B c \<subseteq> child_cpus B query current ds"
  unfolding child_cpus_def by blast

lemma jobs_listed:
  assumes fs: "cpuset_fs_laws B C N" and v: "uid_ok u" "jobid_ok j"
    and d: "mc_dir (co_machine C s) (user_path u) = Some ds"
  shows "job_cpus B (queries C s) u j \<subseteq> child_cpus B (mc_query (co_machine C s)) (sub (dec_int u)) ds \<inter> {0 ..< N}"
proof
  fix i
  assume "i \<in> job_cpus B (queries C s) u j"
  then obtain c where q: "queries C s (job_name u j) = Some (Some c)" "i \<in> bits B c"
    by (auto simp: job_cpus_def cpus_of_def split: option.splits)
  have n: "job_name u j = sub (dec_int u) @ ''/'' @ dec j" by (simp add: job_name_def subsub_def)
  have "dec j \<in> set ds"
    using fs_laws(6)[OF fs d[unfolded user_names(2)] dec_plain] q(1) unfolding n by blast
  moreover have "take 4095 (sub (dec_int u) @ ''/'' @ dec j) = job_name u j"
    using name_lengths(2)[OF v] unfolding n by simp
  ultimately have "i \<in> child_cpus B (mc_query (co_machine C s)) (sub (dec_int u)) ds"
    using child_cpusI[of "dec j" ds "mc_query (co_machine C s)" "sub (dec_int u)" c B] q dec_job_entry[of j]
    unfolding queries_def by auto
  moreover have "i \<in> {0 ..< N}" using fs_laws(5)[OF fs q(1)] q(2) by blast
  ultimately show "i \<in> child_cpus B (mc_query (co_machine C s)) (sub (dec_int u)) ds \<inter> {0 ..< N}" by simp
qed

lemma kill_keeps: "cpuset_fs_laws B C N \<Longrightarrow> queries C (kill_orphan C name s) = queries C s"
proof -
  assume fs: "cpuset_fs_laws B C N"
  have "queries C (fold (co_kill C) pids s) = queries C s" for pids
    by (induction pids arbitrary: s) (simp_all add: fs_laws(15)[OF fs])
  then show ?thesis by (simp add: kill_orphan_def split: option.split)
qed

text \<open>What a state keeps of the jobs of an earlier one.\<close>

definition keeps :: "'b bitmask_ops \<Rightarrow> (string \<Rightarrow> 'b option option) \<Rightarrow> (string \<Rightarrow> 'b option option) \<Rightarrow> bool" where
  "keeps B q q' \<longleftrightarrow> jobs_ok B q' \<and> (\<forall>v k. uid_ok v \<and> jobid_ok k \<longrightarrow> job_cpus B q' v k = job_cpus B q v k)"

lemma keeps_refl: "jobs_ok B q \<Longrightarrow> keeps B q q"
  by (simp add: keeps_def)

lemma keeps_trans: "keeps B q q' \<Longrightarrow> keeps B q' q'' \<Longrightarrow> keeps B q q''"
  by (simp add: keeps_def)

definition modify_spec :: "('s, 'b) cpuset_ops \<Rightarrow> string \<Rightarrow> 'b \<times> 'b \<Rightarrow> 's \<Rightarrow> int \<times> 's \<Rightarrow> bool" where
  "modify_spec C name cp s p \<longleftrightarrow>
    queries C (snd p) = (if fst p = 0 then (queries C s)(name \<mapsto> Some (fst cp)) else queries C s) \<and> (fst p = 0 \<or> fst p = - 1)"

lemma modify_result:
  assumes fs: "cpuset_fs_laws B C N" and m: "modify_loop C name cp s = Some p"
  shows "modify_spec C name cp s p"
proof -
  have "cpuset_fs_laws B C N \<longrightarrow> modify_spec C name cp s p"
  proof (rule modify_loop.raw_induct[OF _ m])
    fix loop :: "('b, 'a) cpuset_ops \<Rightarrow> string \<Rightarrow> 'a \<times> 'a \<Rightarrow> 'b \<Rightarrow> (int \<times> 'b) option"
      and C :: "('b, 'a) cpuset_ops" and name cp s p
    assume IH: "\<And>C name cp s p. loop C name cp s = Some p \<Longrightarrow> cpuset_fs_laws B C N \<longrightarrow> modify_spec C name cp s p"
      and r: "(case co_modify C name cp s of
         (Modified, s1) \<Rightarrow> Some (0, s1) | (Busy, s1) \<Rightarrow> loop C name cp s1 | (Not_modified, s1) \<Rightarrow> Some (- 1, s1)) = Some p"
    show "cpuset_fs_laws B C N \<longrightarrow> modify_spec C name cp s p"
    proof
      assume fs: "cpuset_fs_laws B C N"
      obtain x s1 where m: "co_modify C name cp s = (x, s1)" by (cases "co_modify C name cp s")
      note q = fs_laws(8)[OF fs m]
      show "modify_spec C name cp s p"
        using IH[of C name cp s1 p] r fs q m by (cases x) (auto simp: modify_spec_def)
    qed
  qed
  with fs show ?thesis by blast
qed

lemma modify_keeps:
  assumes fs: "cpuset_fs_laws B C N" and u: "uid_ok u" and m: "modify_loop C (sub (dec_int u)) cp s = Some (r, s')"
    and ok: "jobs_ok B (queries C s)" and c: "\<And>j. jobid_ok j \<Longrightarrow> job_cpus B (queries C s) u j \<subseteq> bits B (fst cp)"
  shows "keeps B (queries C s) (queries C s')" "0 \<le> r \<Longrightarrow> user_cpus B (queries C s') u = bits B (fst cp)"
    "r = 0 \<or> r = - 1"
  using modify_result[OF fs m] set_user[OF ok u, of "fst cp"] c keeps_refl[OF ok]
  by (auto simp: modify_spec_def keeps_def split: if_splits)

lemma mask_empty:
  assumes "bitmask_laws B" "bm_weight B b = 0"
  shows "bits B b = {}"
  using bitmask_lawsD(6)[OF assms(1), of b] finite_bits[OF assms(1), of b] assms(2) by simp

text \<open>The cpuset of a user is taken back or made.\<close>

lemma user_cpuset_made:
  assumes fs: "cpuset_fs_laws B C N" and ok: "jobs_ok B (queries C s)" and u: "uid_ok u"
    and o: "user_cpuset_unorphan C u (user_path u) s = (orphan, s1)"
    and c: "(if orphan then (0, s1) else user_cpuset_create C (user_path u) s1) = (r, s2)"
  shows "keeps B (queries C s) (queries C s2)"
    "orphan \<Longrightarrow> jobid_ok k \<Longrightarrow> job_cpus B (queries C s2) u k = {}"
proof -
  note q1 = fs_laws(11)[OF fs o[unfolded user_cpuset_unorphan_def user_names]]
  note tb = take_back[OF ok u]
  show "orphan \<Longrightarrow> jobid_ok k \<Longrightarrow> job_cpus B (queries C s2) u k = {}"
    using q1 c tb(2)[OF u] by simp
  show "keeps B (queries C s) (queries C s2)"
  proof (cases orphan)
    case True
    have "job_cpus B (queries C s) u k = {}" for k
    proof -
      have "under (sub (dec_int u)) (job_name u k)" using u by (simp add: job_name_def under_subsub)
      then have "queries C s (job_name u k) = None"
        using fs_laws(12)[OF fs, of "sub (orphan_entry u)" "sub (dec_int u)" s] o True
        by (simp add: user_cpuset_unorphan_def user_names)
      then show ?thesis by (simp add: job_cpus_def cpus_of_def)
    qed
    then show ?thesis using True q1 c tb by (simp add: keeps_def)
  next
    case False
    obtain x where m: "co_mkdir C (''/dev/cpuset'' @ sub (dec_int u)) s1 = (x, s2)"
      using c False by (auto simp: user_cpuset_create_def user_names split: prod.splits)
    have q: "queries C s1 = queries C s" using q1 False by simp
    show ?thesis
    proof (cases "x = Made")
      case True
      then obtain e where e: "bits B e = {}" "queries C s1 (sub (dec_int u)) = None"
        "queries C s2 = (queries C s1)(sub (dec_int u) \<mapsto> Some e)"
        using fs_laws(9)[OF fs m[unfolded True]] by blast
      have "job_cpus B (queries C s) u j \<subseteq> bits B e" if "jobid_ok j" for j
        using jobs_okD(1)[OF ok u that] e(2) unfolding q by (simp add: user_cpus_def cpus_of_def)
      from set_user[OF ok u this] show ?thesis unfolding e(3) q by (simp add: keeps_def)
    next
      case False
      then show ?thesis using fs_laws(10)[OF fs m] ok unfolding q by (simp add: keeps_refl)
    qed
  qed
qed

text \<open>The mask of CPUs the user is to have contains those of its jobs.\<close>

lemma used_by_user:
  assumes laws: "bitmask_laws B" and fs: "cpuset_fs_laws B C N" and u: "uid_ok u"
    and e: "\<And>k. orphan \<Longrightarrow> jobid_ok k \<Longrightarrow> job_cpus B (queries C s) u k = {}"
    and a: "\<And>a. alloc = Some a \<Longrightarrow> bm_nbits B a = N"
    and b: "used_cpus_bitmask_path B (co_machine C s) (Some (user_path u)) True = Some b"
    and used: "used = (case alloc of None \<Rightarrow> (if orphan then bm_alloc B (bm_nbits B b) else b)
      | Some a \<Rightarrow> bm_or B (if orphan then bm_alloc B (bm_nbits B b) else b) a)"
  shows "jobid_ok k \<Longrightarrow> job_cpus B (queries C s) u k \<subseteq> bits B used" "alloc = Some a \<Longrightarrow> bits B a \<subseteq> bits B used"
    "bm_nbits B used = N"
proof -
  have N: "0 \<le> N" using fs_laws(1,3)[OF fs, of s] by (simp add: machine_ok_def)
  obtain ds where ds: "mc_dir (co_machine C s) (user_path u) = Some ds"
    using b by (auto simp: used_cpus_bitmask_path_def split: option.splits)
  have nN: "0 \<le> mc_ncpus (co_machine C s)" using fs_laws(3)[OF fs] N by simp
  from used_cpus_result[OF laws nN ds, of True] b have
    b': "bm_nbits B b = N" "bits B b = child_cpus B (mc_query (co_machine C s)) (sub (dec_int u)) ds \<inter> {0 ..< N}"
    using fs_laws(3)[OF fs, of s] by (auto simp: cpus_in_use_def user_names(4))
  let ?b1 = "if orphan then bm_alloc B (bm_nbits B b) else b"
  have b1: "bm_nbits B ?b1 = N" using bitmask_lawsD(2)[OF laws N] b'(1) by simp
  have j: "job_cpus B (queries C s) u k \<subseteq> bits B ?b1" if "jobid_ok k" for k
    using jobs_listed[OF fs u that ds] e[OF _ that] b'(2) by auto
  have "bits B used = bits B ?b1 \<union> (case alloc of None \<Rightarrow> {} | Some a \<Rightarrow> bits B a)"
  proof (cases alloc)
    case (Some a)
    then have "bm_nbits B ?b1 = bm_nbits B a" using a b1 by simp
    from bitmask_lawsD(13)[OF laws this] show ?thesis unfolding used Some by simp
  qed (simp add: used)
  then show "jobid_ok k \<Longrightarrow> job_cpus B (queries C s) u k \<subseteq> bits B used" "alloc = Some a \<Longrightarrow> bits B a \<subseteq> bits B used"
    using j[of k] by (blast, simp)
  show "bm_nbits B used = N"
  proof (cases alloc)
    case (Some a)
    then have "bm_nbits B ?b1 = bm_nbits B a" using a b1 by simp
    from bitmask_lawsD(14)[OF laws this] show ?thesis using b1 unfolding used Some by simp
  qed (use b1 in \<open>simp add: used\<close>)
qed

lemma user_update:
  assumes laws: "bitmask_laws B" and fs: "cpuset_fs_laws B C N" and ok: "jobs_ok B (queries C s)" and u: "uid_ok u"
    and a: "\<And>a. alloc = Some a \<Longrightarrow> bm_nbits B a = N"
    and up: "user_cpuset_update B C cf u alloc s = Some (r, s')"
  shows "keeps B (queries C s) (queries C s') \<and>
    (0 \<le> r \<longrightarrow> (\<forall>a. alloc = Some a \<longrightarrow> bits B a \<subseteq> user_cpus B (queries C s') u \<or> bits B a = {}))"
proof -
  obtain orphan s1 where o: "user_cpuset_unorphan C u (user_path u) s = (orphan, s1)"
    by (cases "user_cpuset_unorphan C u (user_path u) s")
  obtain r0 s2 where c: "(if orphan then (0, s1) else user_cpuset_create C (user_path u) s1) = (r0, s2)"
    by (cases "if orphan then (0, s1) else user_cpuset_create C (user_path u) s1")
  note made = user_cpuset_made[OF fs ok u o c]
  have ok2: "jobs_ok B (queries C s2)" using made(1) by (simp add: keeps_def)
  show ?thesis
  proof (cases "r0 < 0")
    case True
    then have "r = - 1" "s' = s2" using up o c by (simp_all add: user_cpuset_update_def Let_def)
    then show ?thesis using made(1) by simp
  next
    case False
    then obtain b where b: "used_cpus_bitmask_path B (co_machine C s2) (Some (user_path u)) True = Some b"
      using up o c by (auto simp: user_cpuset_update_def Let_def split: option.splits)
    define used where "used = (case alloc of None \<Rightarrow> (if orphan then bm_alloc B (bm_nbits B b) else b)
      | Some a \<Rightarrow> bm_or B (if orphan then bm_alloc B (bm_nbits B b) else b) a)"
    have us: "jobid_ok k \<Longrightarrow> job_cpus B (queries C s2) u k \<subseteq> bits B used"
      "alloc = Some x \<Longrightarrow> bits B x \<subseteq> bits B used" for k x
      by (rule used_by_user[OF laws fs u _ _ b used_def]; use made(2) a in blast)+
    note up1 = up[unfolded user_cpuset_update_def Let_def o prod.case c if_not_P[OF False] b option.case]
    note up' = up1[unfolded user_names(4), folded used_def]
    show ?thesis
    proof (cases "bm_weight B used = 0")
      case True
      note em = mask_empty[OF laws True]
      have none: "job_cpus B (queries C s2) u k = {}" if "jobid_ok k" for k using us(1)[OF that] em by blast
      have "keeps B (queries C s2) (queries C s')"
      proof (cases "cf_kill_orphans cf")
        case False
        then obtain x where x: "co_rename C (''/dev/cpuset'' @ sub (dec_int u)) (''/dev/cpuset'' @ sub (orphan_entry u)) s2 = (x, s')"
          using up' True by (auto simp: user_cpuset_orphan_def user_names prod_eq_iff)
        show ?thesis
          using fs_laws(11)[OF fs x] put_aside[OF ok2 u none] keeps_refl[OF ok2] by (simp add: keeps_def)
      qed (use up' True kill_keeps[OF fs] keeps_refl[OF ok2] in auto)
      then show ?thesis using keeps_trans[OF made(1)] us(2) em by blast
    next
      case ne: False
      show ?thesis
      proof (cases "do_cpuset_create B C cf used s2")
        case None
        then have "r = - 1" "s' = s2" using up' ne by simp_all
        then show ?thesis using made(1) by simp
      next
        case (Some cp)
        have f: "fst cp = used" using Some by (auto simp: do_cpuset_create_def split: option.splits)
        have m: "modify_loop C (sub (dec_int u)) cp s2 = Some (r, s')" using up' ne Some by simp
        have j: "job_cpus B (queries C s2) u k \<subseteq> bits B (fst cp)" if "jobid_ok k" for k
          using us(1)[OF that] f by blast
        note mk = modify_keeps[OF fs u m ok2 j]
        show ?thesis using keeps_trans[OF made(1) mk(1)] mk(2) us(2) f by blast
      qed
    qed
  qed
qed

section \<open>Creating the cpuset of a job\<close>

definition mem_for :: "('s, 'b) cpuset_ops \<Rightarrow> 's \<Rightarrow> freelist \<times> freelist \<times> freelist \<Rightarrow> bool" where
  "mem_for C s mem \<longleftrightarrow> (case mem of (lf, nf, itf) \<Rightarrow>
     0 < fl_cap lf \<and> nat (mc_nmems (co_machine C s)) \<le> fl_cap nf \<and> fl_ok {} nf \<and> fl_ok {} itf \<and> 0 < fl_cap itf)"

lemma user_cpus_used:
  assumes fs: "cpuset_fs_laws B C N" and ds: "mc_dir (co_machine C s) ''/dev/cpuset/slurm'' = Some ds" and u: "uid_ok u"
  shows "user_cpus B (queries C s) u \<subseteq> cpus_in_use B (co_machine C s) ''/dev/cpuset/slurm'' ds False"
proof
  let ?mc = "co_machine C s"
  fix i
  assume "i \<in> user_cpus B (queries C s) u"
  then obtain c where c: "queries C s (sub (dec_int u)) = Some (Some c)" "i \<in> bits B c"
    by (auto simp: user_cpus_def cpus_of_def split: option.splits)
  have sn: "sub (dec_int u) = ''/slurm'' @ ''/'' @ dec_int u" by (simp add: sub_def)
  have d: "dec_int u = dec (nat u)" using u by (simp add: uid_ok_def dec_int_nonneg)
  have "mc_dir ?mc (''/dev/cpuset'' @ ''/slurm'') = Some ds" using ds by simp
  then have "dec_int u \<in> set ds" using fs_laws(6)[OF fs _ uid_plain(1)[OF u], of s "''/slurm''" ds] c(1) unfolding sn by blast
  moreover have "take 4095 (''/slurm'' @ ''/'' @ dec_int u) = sub (dec_int u)"
    using name_lengths(3)[OF u, of 0] unfolding sn[symmetric] by (simp add: jobid_ok_def)
  ultimately have "i \<in> child_cpus B (mc_query ?mc) ''/slurm'' ds"
    using child_cpusI[of "dec_int u" ds "mc_query ?mc" "''/slurm''" c B] c dec_job_entry[of "nat u"] d
    unfolding queries_def by auto
  moreover have "cpuset_path_to_name ''/dev/cpuset/slurm'' = ''/slurm''" by (simp add: cpuset_path_to_name_def)
  ultimately show "i \<in> cpus_in_use B ?mc ''/dev/cpuset/slurm'' ds False"
    using fs_laws(5)[OF fs c(1)] c(2) fs_laws(3)[OF fs, of s] by (auto simp: cpus_in_use_def)
qed

lemma nodemap_of_machine:
  assumes laws: "bitmask_laws B" and fs: "cpuset_fs_laws B C N" and mem: "mem_for C s mem"
    and ds: "mc_dir (co_machine C s) ''/dev/cpuset/slurm'' = Some ds"
  shows "\<exists>m. nodemap_create B (co_machine C s) mem cf None = Some (Some m) \<and> nodemap_ok B m \<and>
    free_cpus B m = {0 ..< N} - cpus_in_use B (co_machine C s) ''/dev/cpuset/slurm'' ds False \<and>
    nm_navail m = int (card (free_cpus B m)) \<and>
    nm_navail m = N - int (card (cpus_in_use B (co_machine C s) ''/dev/cpuset/slurm'' ds False)) \<and>
    0 < fl_cap (l_ifree (nm_nodelist m)) \<and> nm_ncpus m = N \<and> has_policy (nm_policy m)"
proof -
  let ?mc = "co_machine C s" and ?pth = "''/dev/cpuset/slurm''"
  let ?used = "cpus_in_use B ?mc ?pth ds False"
  obtain lf nf itf where mem': "mem = (lf, nf, itf)" by (cases mem)
  note f = fs_laws(1-4)[OF fs, of s]
  have N: "0 \<le> N" using f(1,3) by (simp add: machine_ok_def)
  have pth: "current_cpuset_path ?mc = Some ?pth" using f(2) by (simp add: current_cpuset_path_def)
  from nodemap_create_result[OF laws f(1) _ _ _ _ pth ds, of lf nf itf cf] mem[unfolded mem' mem_for_def] obtain m where
    r: "nodemap_create B ?mc (lf, nf, itf) cf None = Some (Some m)" "nodemap_ok B m"
    "free_cpus B m = local_cpus B ?mc - ?used" "nm_navail m = mc_ncpus ?mc - int (card ?used)"
    "l_ifree (nm_nodelist m) = itf" "nm_ncpus m = mc_ncpus ?mc"
    "nm_policy m = \<lparr>pl_reverse = cf_reverse_order cf, pl_best_fit = (cf_policy cf = BEST_FIT),
      pl_first_fit = (cf_policy cf = FIRST_FIT), pl_worst_fit = (cf_policy cf = WORST_FIT),
      pl_alloc_idle_first = cf_alloc_idle_nodes cf,
      pl_alloc_idle_multiples_only = cpuset_conf_alloc_idle_multiple cf\<rparr>" by auto
  have pl: "has_policy (nm_policy m)" using r(7) by (cases "cf_policy cf") (simp_all add: has_policy_def)
  have sub: "?used \<subseteq> {0 ..< N}" using f(3) by (auto simp: cpus_in_use_def)
  have fin: "finite ?used" by (rule finite_subset[OF sub]) simp
  have "int (card (free_cpus B m)) = N - int (card ?used)"
    using card_Diff_subset[OF fin sub] card_mono[OF _ sub] N r(3) f(4) by simp
  then show ?thesis using r pl mem f(3,4) by (intro exI[of _ m]) (simp add: mem' mem_for_def)
qed

lemma nodemap_destroyed: "nodemap_ok B m \<Longrightarrow> nodemap_destroy m \<noteq> None"
  using list_destroy_data[of "nm_nodelist m"] by (auto simp: nodemap_ok_def nodemap_destroy_def)

text \<open>A job is given CPUs exactly when enough are not in use.\<close>

lemma job_allocated:
  assumes laws: "bitmask_laws B" and fs: "cpuset_fs_laws B C N" and mem: "mem_for C s mem" and n: "0 \<le> n"
    and ds: "mc_dir (co_machine C s) ''/dev/cpuset/slurm'' = Some ds"
  shows "\<exists>m b m1. nodemap_create B (co_machine C s) mem cf None = Some (Some m) \<and>
    nodemap_allocate B m n = Some (b, m1) \<and> nodemap_destroy m1 \<noteq> None \<and>
    (b = None \<longleftrightarrow> N - int (card (cpus_in_use B (co_machine C s) ''/dev/cpuset/slurm'' ds False)) < n) \<and>
    (\<forall>alloc. b = Some alloc \<longrightarrow> bm_nbits B alloc = N \<and> int (card (bits B alloc)) = n \<and>
      bits B alloc \<subseteq> {0 ..< N} - cpus_in_use B (co_machine C s) ''/dev/cpuset/slurm'' ds False)"
proof -
  from nodemap_of_machine[OF laws fs mem ds, of cf] obtain m where
    m: "nodemap_create B (co_machine C s) mem cf None = Some (Some m)" "nodemap_ok B m"
      "free_cpus B m = {0 ..< N} - cpus_in_use B (co_machine C s) ''/dev/cpuset/slurm'' ds False"
      "nm_navail m = int (card (free_cpus B m))"
      "nm_navail m = N - int (card (cpus_in_use B (co_machine C s) ''/dev/cpuset/slurm'' ds False))"
      "0 < fl_cap (l_ifree (nm_nodelist m))" "nm_ncpus m = N" "has_policy (nm_policy m)" by blast
  show ?thesis
  proof (cases "n \<le> nm_navail m")
    case True
    then have "n \<le> int (card (free_cpus B m))" using m(4) by simp
    from allocate_result[OF laws m(2) n True this m(8,6)] obtain b m1 x x' X Y where
      r: "nodemap_allocate B m n = Some (Some b, m1)" "bits B b = X \<union> Y" "took B (X \<union> Y) (m, x) (m1, x')"
        "int (card (X \<union> Y)) = n" "bm_nbits B b = nm_ncpus m" by blast
    have "bits B b \<subseteq> {0 ..< N} - cpus_in_use B (co_machine C s) ''/dev/cpuset/slurm'' ds False" "nodemap_ok B m1"
      using r(2,3) m(3) by (auto simp: took_def)
    then show ?thesis
      using m(1,5,7) r(1,2,4,5) True nodemap_destroyed by (intro exI[of _ m] exI[of _ "Some b"] exI[of _ m1]) auto
  next
    case False
    then have "nodemap_allocate B m n = Some (None, m)" by (simp add: nodemap_allocate_def)
    then show ?thesis
      using m(1,2,5) False nodemap_destroyed by (intro exI[of _ m] exI[of _ None] exI[of _ m]) auto
  qed
qed

lemma nodemap_for_job:
  assumes laws: "bitmask_laws B" and fs: "cpuset_fs_laws B C N" and mem: "mem_for C s mem" and n: "0 \<le> n"
    and m: "nodemap_create B (co_machine C s) mem cf None = Some (Some m)"
    and a: "nodemap_allocate B m n = Some (Some alloc, m1)"
  shows "bm_nbits B alloc = N" "int (card (bits B alloc)) = n"
    "uid_ok u \<Longrightarrow> bits B alloc \<inter> user_cpus B (queries C s) u = {}"
proof -
  have "current_cpuset_path (co_machine C s) = Some ''/dev/cpuset/slurm''"
    using fs_laws(2)[OF fs] by (simp add: current_cpuset_path_def)
  then obtain ds where ds: "mc_dir (co_machine C s) ''/dev/cpuset/slurm'' = Some ds"
    using m by (auto simp: nodemap_create_def used_cpus_bitmask_path_def split: option.splits prod.splits)
  from job_allocated[OF laws fs mem n ds, of cf] m a have
    r: "bm_nbits B alloc = N" "int (card (bits B alloc)) = n"
      "bits B alloc \<subseteq> {0 ..< N} - cpus_in_use B (co_machine C s) ''/dev/cpuset/slurm'' ds False" by auto
  then show "bm_nbits B alloc = N" "int (card (bits B alloc)) = n" by simp_all
  show "uid_ok u \<Longrightarrow> bits B alloc \<inter> user_cpus B (queries C s) u = {}"
    using r(3) user_cpus_used[OF fs ds] by blast
qed

lemma job_cpuset_result:
  assumes fs: "cpuset_fs_laws B C N" and ok: "jobs_ok B (queries C s)" and u: "uid_ok u" "jobid_ok j"
    and a: "bits B alloc \<subseteq> user_cpus B (queries C s) u"
    and dis: "\<And>v k. uid_ok v \<Longrightarrow> jobid_ok k \<Longrightarrow> bits B alloc \<inter> job_cpus B (queries C s) v k = {}"
    and jc: "job_cpuset_create B C cf junk rc0 j u alloc s = Some (r, s')"
  shows "jobs_ok B (queries C s') \<and> (r = 0 \<longrightarrow> rc0 < 0 \<longrightarrow> job_cpus B (queries C s') u j = bits B alloc) \<and>
    (\<forall>v k. uid_ok v \<and> jobid_ok k \<and> (v, k) \<noteq> (u, j) \<longrightarrow> job_cpus B (queries C s') v k = job_cpus B (queries C s) v k)"
proof -
  have pth: "job_cpuset_path (co_machine C s) junk j u = Some (job_name u j)"
    by (rule job_path[OF fs_laws(2)[OF fs] u])
  then obtain cp where cp: "do_cpuset_create B C cf alloc s = Some cp"
    using jc by (auto simp: job_cpuset_create_def split: option.splits)
  have f: "fst cp = alloc" using cp by (auto simp: do_cpuset_create_def split: option.splits)
  obtain b where co: "co_create C (job_name u j) cp s = (b, s')" "r = (if b then 0 else rc0)"
    using jc pth cp by (auto simp: job_cpuset_create_def split: prod.splits)
  note q = fs_laws(7)[OF fs co(1), unfolded f]
  show ?thesis
  proof (cases b)
    case True
    have "job_cpus B (queries C s') v k = (if v = u \<and> k = j then bits B alloc else job_cpus B (queries C s) v k)"
      if "uid_ok v" for v k
      using job_name_eq[OF that u(1)] q True by (simp add: job_cpus_def cpus_upd)
    then show ?thesis using set_job[OF ok u a dis] q True u by simp
  qed (use q co(2) ok in simp)
qed

text \<open>
  A job that is created has as many CPUs as it asked for, none of which belonged to a user before;
  all other jobs keep theirs.  \<open>rc0\<close>, the value of a variable that is not set, decides what is
  returned when \<open>cpuset_create\<close> fails.
\<close>

definition job_result ::
    "'b bitmask_ops \<Rightarrow> (string \<Rightarrow> 'b option option) \<Rightarrow> int \<Rightarrow> nat \<Rightarrow> int \<Rightarrow> int \<Rightarrow> int \<Rightarrow> (string \<Rightarrow> 'b option option) \<Rightarrow> bool" where
  "job_result B q u j n rc0 r q' \<longleftrightarrow> jobs_ok B q' \<and>
    (\<forall>v k. uid_ok v \<and> jobid_ok k \<and> (v, k) \<noteq> (u, j) \<longrightarrow> job_cpus B q' v k = job_cpus B q v k) \<and>
    (r = 0 \<and> rc0 < 0 \<longrightarrow> int (card (job_cpus B q' u j)) = n \<and>
       (\<forall>v. uid_ok v \<longrightarrow> job_cpus B q' u j \<inter> user_cpus B q v = {}))"

lemma job_failed: "keeps B q q' \<Longrightarrow> job_result B q u j n rc0 (- 1) q'"
  by (simp add: job_result_def keeps_def)

lemma alloc_created:
  assumes laws: "bitmask_laws B" and fs: "cpuset_fs_laws B C N" and ok: "jobs_ok B (queries C s)"
    and u: "uid_ok u" "jobid_ok j" and a: "bm_nbits B alloc = N" "int (card (bits B alloc)) = n"
    and dis: "\<And>v. uid_ok v \<Longrightarrow> bits B alloc \<inter> user_cpus B (queries C s) v = {}"
    and up: "user_cpuset_update B C cf u (Some alloc) s = Some (r1, s1)" "0 \<le> r1"
    and jc: "job_cpuset_create B C cf junk rc0 j u alloc s1 = Some (r2, s2)"
  shows "job_result B (queries C s) u j n rc0 (if r2 < 0 then - 1 else r2) (queries C s2)"
proof -
  have ue: "keeps B (queries C s) (queries C s1)" "bits B alloc \<subseteq> user_cpus B (queries C s1) u"
    using user_update[OF laws fs ok u(1) _ up(1)] a(1) up(2) by auto
  have same: "job_cpus B (queries C s1) v k = job_cpus B (queries C s) v k" if "uid_ok v" "jobid_ok k" for v k
    using ue(1) that by (simp add: keeps_def)
  have d: "bits B alloc \<inter> job_cpus B (queries C s1) v k = {}" if "uid_ok v" "jobid_ok k" for v k
    using dis[OF that(1)] jobs_okD(1)[OF ok that] same[OF that] by blast
  have ok1: "jobs_ok B (queries C s1)" using ue(1) by (simp add: keeps_def)
  from job_cpuset_result[OF fs ok1 u ue(2) d jc] show ?thesis
    using same dis a(2) u unfolding job_result_def by (simp split: if_splits)
qed

lemma job_created:
  assumes laws: "bitmask_laws B" and fs: "cpuset_fs_laws B C N" and ok: "jobs_ok B (queries C s)"
    and u: "uid_ok u" "jobid_ok j" and mem: "mem_for C s mem" and n: "0 \<le> n"
    and cr: "create_cpuset_for_job B C mem junk rc0 cf j u n s = Some (r, s')"
  shows "job_result B (queries C s) u j n rc0 r (queries C s')"
proof (cases "nodemap_create B (co_machine C s) mem cf None")
  case (Some m0)
  note cr' = cr[unfolded create_cpuset_for_job_def create_cpuset_def Some option.case]
  have u0: "0 \<le> u" using u(1) by (simp add: uid_ok_def)
  note same = job_failed[OF keeps_refl[OF ok]]
  show ?thesis
  proof (cases m0)
    case m: (Some m)
    note nc = Some[unfolded m]
    obtain x m1 where al: "nodemap_allocate B m n = Some (x, m1)"
      using cr' m by (cases "nodemap_allocate B m n") auto
    show ?thesis
    proof (cases x)
      case a: (Some alloc)
      note nm = nodemap_for_job[OF laws fs mem n nc al[unfolded a]]
      obtain r1 s1 where up: "user_cpuset_update B C cf u (Some alloc) s = Some (r1, s1)"
        using cr' m al a u0 by (cases "user_cpuset_update B C cf u (Some alloc) s") auto
      show ?thesis
      proof (cases "r1 < 0")
        case True
        have "keeps B (queries C s) (queries C s1)" using user_update[OF laws fs ok u(1) _ up] nm(1) by auto
        then show ?thesis using cr' m al a u0 up job_failed True by auto
      next
        case False
        obtain r2 s2 where jc: "job_cpuset_create B C cf junk rc0 j u alloc s1 = Some (r2, s2)"
          using cr' m al a u0 up False by (cases "job_cpuset_create B C cf junk rc0 j u alloc s1") auto
        have r: "r = (if r2 < 0 then - 1 else 0)" "s' = s2" using cr' m al a u0 up False jc by auto
        have "job_result B (queries C s) u j n rc0 (if r2 < 0 then - 1 else r2) (queries C s2)"
          by (rule alloc_created[OF laws fs ok u nm(1,2) nm(3) up _ jc]) (use False in simp_all)
        moreover have "r2 = 0 \<or> r2 = rc0"
          using jc by (auto simp: job_cpuset_create_def split: option.splits prod.splits)
        ultimately show ?thesis using r by (auto simp: job_result_def)
      qed
    qed (use cr' m al same in auto)
  qed (use cr' same in auto)
qed (use cr in \<open>simp add: create_cpuset_for_job_def create_cpuset_def\<close>)

end
