(* ===== verification/CpusetSystem.thy ===== *)
theory CpusetSystem
  imports CpusetLaws
begin

text \<open>
  A small cpuset file system that has the laws: the names that exist and the CPUs of each, on the
  machine of eight CPUs and four memory nodes.
\<close>

type_synonym small_fs = "string list \<times> (string \<Rightarrow> bool list)"

definition eight :: "bool list \<Rightarrow> bool list" where
  "eight c = take 8 (c @ replicate 8 False)"

definition small_query :: "small_fs \<Rightarrow> string \<Rightarrow> bool list option option" where
  "small_query s n = (if n \<in> set (fst s) then Some (Some (eight (snd s n))) else None)"

definition entries :: "string list \<Rightarrow> string \<Rightarrow> string list" where
  "entries names n =
    filter (\<lambda>d. CHR ''/'' \<notin> set d) (map (drop (Suc (length n))) (filter (\<lambda>m. take (Suc (length n)) m = n @ ''/'') names))"

definition small_machine :: "small_fs \<Rightarrow> bool list machine" where
  "small_machine s = four_nodes\<lparr>mc_dir := (\<lambda>p. Some (entries (fst s) (drop 11 p))), mc_query := small_query s\<rparr>"

definition small_put :: "string \<Rightarrow> bool list \<Rightarrow> small_fs \<Rightarrow> small_fs" where
  "small_put n c s = (n # fst s, (snd s)(n := c))"

definition small_rename :: "string \<Rightarrow> string \<Rightarrow> small_fs \<Rightarrow> bool \<times> small_fs" where
  "small_rename a b s =
    (if a \<notin> set (fst s) \<or> list_ex (under b) (fst s) \<or> under a b then (False, s)
     else (True, map (\<lambda>m. if under a m then b @ drop (length a) m else m) (fst s),
       \<lambda>n. if under b n then snd s (a @ drop (length b) n) else snd s n))"

definition small_rmdir :: "string \<Rightarrow> small_fs \<Rightarrow> small_fs" where
  "small_rmdir n s =
    (if list_ex (\<lambda>m. take (Suc (length n)) m = n @ ''/'') (fst s) then s
     else (filter (\<lambda>m. m \<noteq> n) (fst s), snd s))"

definition small_ops :: "(small_fs, bool list) cpuset_ops" where
  "small_ops =
    \<lparr>co_machine = small_machine, co_getmems = (\<lambda>s. Some (replicate 4 True)),
     co_create = (\<lambda>n cp s. if n \<in> set (fst s) \<or> length (fst cp) \<noteq> 8 then (False, s) else (True, small_put n (fst cp) s)),
     co_modify = (\<lambda>n cp s. if n \<notin> set (fst s) \<or> length (fst cp) \<noteq> 8 then (Not_modified, s)
       else (Modified, small_put n (fst cp) s)),
     co_query_all = (\<lambda>s. Some (replicate 8 True, replicate 4 True)),
     co_mkdir = (\<lambda>p s. if drop 11 p \<in> set (fst s) then (Exists, s) else (Made, small_put (drop 11 p) [] s)),
     co_rename = (\<lambda>p q s. small_rename (drop 11 p) (drop 11 q) s), co_rmdir = (\<lambda>p s. small_rmdir (drop 11 p) s),
     co_move = (\<lambda>pid n s. (n \<in> set (fst s), s)),
     co_pidlist = (\<lambda>n s. Some []), co_kill = (\<lambda>pid s. s), co_fts = (\<lambda>s. Some (rev (fst s))), co_jobs = (\<lambda>s. Some []),
     co_open = (\<lambda>p s. (Opened 3, s)), co_unlink = (\<lambda>p s. s), co_flock = (\<lambda>fd s. (True, s)), co_close = (\<lambda>fd s. s)\<rparr>"

lemma small_queries: "queries small_ops s = small_query s"
  by (simp add: queries_def small_ops_def small_machine_def)

lemma eight_id: "length c = 8 \<Longrightarrow> eight c = c"
  by (simp add: eight_def)

lemma eight_bits: "bits list_bitmask (eight c) \<subseteq> {0 ..< 8}"
  by (auto simp: list_bitmask_bits eight_def)

lemma small_put_query: "small_query (small_put n c s) = (small_query s)(n \<mapsto> Some (eight c))"
  by (auto simp: small_query_def small_put_def fun_eq_iff)

lemma under_append: "under a n \<longleftrightarrow> n = a \<or> (\<exists>x. n = a @ ''/'' @ x)"
proof -
  have "take (Suc (length a)) n = a @ ''/'' \<longleftrightarrow> (\<exists>x. n = a @ ''/'' @ x)"
  proof
    assume "take (Suc (length a)) n = a @ ''/''"
    then have "n = (a @ ''/'') @ drop (Suc (length a)) n" by (metis append_take_drop_id)
    then show "\<exists>x. n = a @ ''/'' @ x" by (metis append_assoc)
  qed auto
  then show ?thesis by (simp add: under_def)
qed

lemma under_drop: "under a n \<Longrightarrow> a @ drop (length a) n = n"
  by (auto simp: under_append)

lemma under_swap: "under b n \<Longrightarrow> under a (a @ drop (length b) n)"
  by (auto simp: under_append)

lemma small_rename_query:
  assumes "small_rename a b s = (True, s')"
  shows "small_query s' = moved a b (small_query s)" "a \<in> set (fst s)" "under b n \<Longrightarrow> n \<notin> set (fst s)"
proof -
  have c: "a \<in> set (fst s)" "\<And>m. m \<in> set (fst s) \<Longrightarrow> \<not> under b m" "\<not> under a b"
    and s': "s' = (map (\<lambda>m. if under a m then b @ drop (length a) m else m) (fst s),
       \<lambda>n. if under b n then snd s (a @ drop (length b) n) else snd s n)"
    using assms by (auto simp: small_rename_def list_ex_iff split: if_splits)
  show "a \<in> set (fst s)" by (rule c(1))
  show "under b n \<Longrightarrow> n \<notin> set (fst s)" using c(2) by blast
  have "n \<in> set (fst s') \<longleftrightarrow> (if under b n then a @ drop (length b) n \<in> set (fst s) else \<not> under a n \<and> n \<in> set (fst s))" for n
  proof (cases "under b n")
    case True
    have "n = b @ drop (length b) n" using under_drop[OF True] by simp
    then have "n \<in> set (fst s')" if "a @ drop (length b) n \<in> set (fst s)"
      using that under_swap[OF True, of a] by (auto simp: s' intro!: image_eqI[of _ _ "a @ drop (length b) n"])
    moreover have "a @ drop (length b) n \<in> set (fst s)" if n: "n \<in> set (fst s')"
    proof -
      from n obtain m where m: "m \<in> set (fst s)" "n = (if under a m then b @ drop (length a) m else m)" by (auto simp: s')
      then show ?thesis using c(2)[OF m(1)] True under_drop[of a m] by (auto split: if_splits)
    qed
    ultimately show ?thesis using True by auto
  next
    case False
    have "\<not> under a n \<and> n \<in> set (fst s)" if n: "n \<in> set (fst s')"
    proof -
      from n obtain m where m: "m \<in> set (fst s)" "n = (if under a m then b @ drop (length a) m else m)" by (auto simp: s')
      then show ?thesis using False under_swap[of a m b] by (auto split: if_splits)
    qed
    moreover have "n \<in> set (fst s')" if "\<not> under a n" "n \<in> set (fst s)"
      using that by (auto simp: s' intro!: image_eqI[of _ _ n])
    ultimately show ?thesis using False by auto
  qed
  then show "small_query s' = moved a b (small_query s)"
    by (auto simp: fun_eq_iff small_query_def moved_def s')
qed

lemma small_machine_facts: "machine_ok list_bitmask (small_machine s)" "mc_path (small_machine s) = Some ''/''"
    "mc_ncpus (small_machine s) = 8" "local_cpus list_bitmask (small_machine s) = {0 ..< 8}"
proof -
  have m: "mem_cpus list_bitmask (small_machine s) = mem_cpus list_bitmask four_nodes"
    "mem_available list_bitmask (small_machine s) = mem_available list_bitmask four_nodes"
    by (simp_all add: fun_eq_iff mem_cpus_def mem_available_def small_machine_def)
  show "machine_ok list_bitmask (small_machine s)"
    using four_nodes_ok unfolding machine_ok_def m by (simp add: small_machine_def)
  show "mc_path (small_machine s) = Some ''/''" "mc_ncpus (small_machine s) = 8"
    by (simp_all add: small_machine_def four_nodes_def)
  have "local_cpus list_bitmask (small_machine s) = local_cpus list_bitmask four_nodes"
    unfolding local_cpus_def m by (simp add: small_machine_def)
  then show "local_cpus list_bitmask (small_machine s) = {0 ..< 8}" by (simp add: four_sets)
qed

lemma small_laws: "cpuset_fs_laws list_bitmask small_ops 8"
  unfolding cpuset_fs_laws_def
proof (intro conjI allI impI)
  fix s :: small_fs and n r d ds cp a b p
  let ?C = small_ops
  show "machine_ok list_bitmask (co_machine ?C s)" "mc_path (co_machine ?C s) = Some ''/''" "mc_ncpus (co_machine ?C s) = 8"
    "local_cpus list_bitmask (co_machine ?C s) = {0 ..< 8}"
    using small_machine_facts by (simp_all add: small_ops_def)
  show "queries ?C s n = Some r \<Longrightarrow> \<exists>c. r = Some c \<and> bits list_bitmask c \<subseteq> {0 ..< 8}"
    unfolding small_queries using eight_bits by (auto simp: small_query_def split: if_splits)
  show "queries ?C (snd (co_create ?C n cp s)) =
      (if fst (co_create ?C n cp s) then (queries ?C s)(n \<mapsto> Some (fst cp)) else queries ?C s)"
    unfolding small_queries by (simp add: small_ops_def small_put_query eight_id)
  show "queries ?C (snd (co_modify ?C n cp s)) =
      (if fst (co_modify ?C n cp s) = Modified then (queries ?C s)(n \<mapsto> Some (fst cp)) else queries ?C s)"
    unfolding small_queries by (simp add: small_ops_def small_put_query eight_id)
  show "if fst (co_mkdir ?C (''/dev/cpuset'' @ n) s) = Made
      then \<exists>e. bits list_bitmask e = {} \<and> queries ?C s n = None \<and>
        queries ?C (snd (co_mkdir ?C (''/dev/cpuset'' @ n) s)) = (queries ?C s)(n \<mapsto> Some e)
      else queries ?C (snd (co_mkdir ?C (''/dev/cpuset'' @ n) s)) = queries ?C s"
  proof -
    have "bits list_bitmask (eight []) = {}" by (auto simp: list_bitmask_bits eight_def)
    then show ?thesis unfolding small_queries by (auto simp: small_ops_def small_put_query small_query_def)
  qed
  show "queries ?C (snd (co_rename ?C (''/dev/cpuset'' @ a) (''/dev/cpuset'' @ b) s)) =
      (if fst (co_rename ?C (''/dev/cpuset'' @ a) (''/dev/cpuset'' @ b) s) then moved a b (queries ?C s) else queries ?C s)"
  proof (cases "fst (small_rename a b s)")
    case True
    then have "small_rename a b s = (True, snd (small_rename a b s))" by (simp add: prod_eq_iff)
    from small_rename_query(1)[OF this] show ?thesis unfolding small_queries by (simp add: small_ops_def True)
  next
    case False
    then have "snd (small_rename a b s) = s" by (auto simp: small_rename_def)
    then show ?thesis unfolding small_queries by (simp add: small_ops_def False)
  qed
  show "queries ?C (co_kill ?C p s) = queries ?C s" for p by (simp add: small_ops_def)
next
  fix s :: small_fs and a b n
  assume f: "fst (co_rename small_ops (''/dev/cpuset'' @ a) (''/dev/cpuset'' @ b) s)"
  then have r: "small_rename a b s = (True, snd (small_rename a b s))" by (simp add: small_ops_def prod_eq_iff)
  show "queries small_ops s a \<noteq> None" "under b n \<Longrightarrow> queries small_ops s n = None"
    using small_rename_query(2)[OF r] small_rename_query(3)[OF r, of n] unfolding small_queries by (auto simp: small_query_def)
next
  fix s :: small_fs and n d ds
  assume a: "mc_dir (co_machine small_ops s) (''/dev/cpuset'' @ n) = Some ds \<and> plain d \<and> queries small_ops s (n @ ''/'' @ d) \<noteq> None"
  then have ds: "ds = entries (fst s) n" by (simp add: small_ops_def small_machine_def)
  have "n @ ''/'' @ d \<in> set (fst s)" using a unfolding small_queries by (auto simp: small_query_def split: if_splits)
  then have "n @ ''/'' @ d \<in> set (filter (\<lambda>m. take (Suc (length n)) m = n @ ''/'') (fst s))" by simp
  then have "drop (Suc (length n)) (n @ ''/'' @ d) \<in>
      set (map (drop (Suc (length n))) (filter (\<lambda>m. take (Suc (length n)) m = n @ ''/'') (fst s)))"
    unfolding set_map by (rule imageI)
  then show "d \<in> set ds" using a by (simp add: ds entries_def plain_def)
next
  fix s :: small_fs and p :: string
  let ?n = "drop 11 p"
  have "small_query (small_rmdir ?n s) = small_query s \<or>
    (small_query (small_rmdir ?n s) = (small_query s)(?n := None) \<and> (\<forall>d. small_query s (?n @ ''/'' @ d) = None))"
  proof (cases "list_ex (\<lambda>m. take (Suc (length ?n)) m = ?n @ ''/'') (fst s)")
    case False
    have "?n @ ''/'' @ d \<notin> set (fst s)" for d
    proof
      assume "?n @ ''/'' @ d \<in> set (fst s)"
      moreover have "take (Suc (length ?n)) (?n @ ''/'' @ d) = ?n @ ''/''" by simp
      ultimately show False using False unfolding list_ex_iff by blast
    qed
    then show ?thesis using False by (auto simp: small_rmdir_def small_query_def fun_eq_iff)
  qed (simp add: small_rmdir_def)
  then show "queries small_ops (co_rmdir small_ops p s) = queries small_ops s \<or>
      (\<exists>n. queries small_ops (co_rmdir small_ops p s) = (queries small_ops s)(n := None) \<and>
        (\<forall>d. queries small_ops s (n @ ''/'' @ d) = None))"
    unfolding small_queries by (auto simp: small_ops_def)
qed

text \<open>It also works, and the heap of the examples has room for the lists.\<close>

definition small_start :: small_fs where
  "small_start = ([''/slurm''], \<lambda>n. replicate 8 True)"

definition small_mem :: "freelist \<times> freelist \<times> freelist" where
  "small_mem = (some_heap, some_heap, some_heap)"

lemma small_dir: "\<exists>ds. mc_dir (co_machine small_ops s) p = Some ds"
  by (simp add: small_ops_def small_machine_def)

end
