(* ===== verification/CpusetProps.thy ===== *)
theory CpusetProps
  imports CpusetJobs CpusetSystem
begin

text \<open>
  Whole histories of a node: jobs that start, cpusets that are updated and cleaned.  The properties
  of \<open>create.c\<close> and \<open>util.c\<close>.
\<close>

section \<open>Updates and cleaning\<close>

lemma cpuset_str2int_bound: "cpuset_str2int d < 2 ^ 31"
proof -
  have "long_to_int l < 2 ^ 31" for l
    unfolding long_to_int_def using sint_lt[of "word_of_int l :: 32 word"] by simp
  then show ?thesis by (auto simp: cpuset_str2int_def split: prod.split)
qed

lemma update_loop_keeps:
  assumes laws: "bitmask_laws B" and fs: "cpuset_fs_laws B C N"
  shows "jobs_ok B (queries C s) \<Longrightarrow> update_loop B C cf ds s = Some s' \<Longrightarrow> keeps B (queries C s) (queries C s')"
proof (induction ds arbitrary: s)
  case (Cons d ds)
  show ?case
  proof (cases "cpuset_str2int d < 0")
    case False
    then have u: "uid_ok (cpuset_str2int d)" using cpuset_str2int_bound[of d] by (simp add: uid_ok_def)
    obtain r s1 where up: "user_cpuset_update B C cf (cpuset_str2int d) None s = Some (r, s1)"
      "update_loop B C cf ds s1 = Some s'"
      using Cons.prems(2) False by (auto split: option.splits)
    have k: "keeps B (queries C s) (queries C s1)" using user_update[OF laws fs Cons.prems(1) u _ up(1)] by simp
    from Cons.IH[OF _ up(2)] keeps_trans[OF k] k show ?thesis by (simp add: keeps_def)
  qed (use Cons in simp)
qed (simp add: keeps_refl)

lemma updates_keep:
  assumes "bitmask_laws B" "cpuset_fs_laws B C N" "jobs_ok B (queries C s)" "update_user_cpusets B C cf s = Some (r, s')"
  shows "keeps B (queries C s) (queries C s')"
  using assms(4) update_loop_keeps[OF assms(1-3)] keeps_refl[OF assms(3)]
  by (auto simp: update_user_cpusets_def split: option.splits)

text \<open>Cleaning takes CPUs from jobs at most.\<close>

definition shrinks :: "'b bitmask_ops \<Rightarrow> (string \<Rightarrow> 'b option option) \<Rightarrow> (string \<Rightarrow> 'b option option) \<Rightarrow> bool" where
  "shrinks B q q' \<longleftrightarrow> jobs_ok B q' \<and> (\<forall>v k. uid_ok v \<and> jobid_ok k \<longrightarrow> job_cpus B q' v k \<subseteq> job_cpus B q v k)"

lemma shrinks_trans: "shrinks B q q' \<Longrightarrow> shrinks B q' q'' \<Longrightarrow> shrinks B q q''"
  unfolding shrinks_def by blast

lemma keeps_shrinks: "keeps B q q' \<Longrightarrow> shrinks B q q'"
  by (simp add: keeps_def shrinks_def)

lemma rmdir_shrinks:
  assumes fs: "cpuset_fs_laws B C N" and ok: "jobs_ok B (queries C s)"
  shows "shrinks B (queries C s) (queries C (co_rmdir C p s))"
proof (cases "queries C (co_rmdir C p s) = queries C s")
  case False
  then obtain n where "queries C (co_rmdir C p s) = (queries C s)(n := None)" "\<And>d. queries C s (n @ ''/'' @ d) = None"
    using fs_laws(14)[OF fs, of p s] by blast
  with drop_cpuset[OF ok this(2)] show ?thesis by (simp add: shrinks_def)
qed (use ok in \<open>simp add: shrinks_def\<close>)

lemma clean_path_shrinks:
  assumes fs: "cpuset_fs_laws B C N" and ok: "jobs_ok B (queries C s)"
  shows "shrinks B (queries C s) (queries C (slurm_cpuset_clean_path C p s))"
  using rmdir_shrinks[OF fs ok] keeps_shrinks[OF keeps_refl[OF ok]]
  by (auto simp: slurm_cpuset_clean_path_def split: list.split)

lemma clean_loop_shrinks:
  assumes fs: "cpuset_fs_laws B C N"
  shows "jobs_ok B (queries C s) \<Longrightarrow> shrinks B (queries C s) (queries C (clean_loop C names s))"
proof (induction names arbitrary: s)
  case (Cons name names)
  show ?case
  proof (cases "name = ''/slurm''")
    case False
    let ?s = "slurm_cpuset_clean_path C (take 4095 (''/dev/cpuset'' @ name)) s"
    note c = clean_path_shrinks[OF fs Cons.prems, of "take 4095 (''/dev/cpuset'' @ name)"]
    then have "jobs_ok B (queries C ?s)" by (simp add: shrinks_def)
    from shrinks_trans[OF c Cons.IH[OF this]] show ?thesis unfolding clean_loop.simps if_not_P[OF False] .
  qed (use Cons in simp)
qed (simp add: keeps_shrinks keeps_refl)

lemma clean_shrinks:
  assumes "bitmask_laws B" "cpuset_fs_laws B C N" "jobs_ok B (queries C s)" "slurm_cpuset_clean B C cf s = Some (r, s')"
  shows "shrinks B (queries C s) (queries C s')"
proof (cases "co_fts C s")
  case (Some names)
  then obtain r1 where u: "update_user_cpusets B C cf (clean_loop C names s) = Some (r1, s')"
    using assms(4) by (auto simp: slurm_cpuset_clean_def)
  note c = clean_loop_shrinks[OF assms(2,3), of names]
  then have "jobs_ok B (queries C (clean_loop C names s))" by (simp add: shrinks_def)
  from shrinks_trans[OF c keeps_shrinks[OF updates_keep[OF assms(1,2) this u]]] show ?thesis .
qed (use assms(3,4) keeps_shrinks[OF keeps_refl] in \<open>auto simp: slurm_cpuset_clean_def\<close>)

section \<open>Histories\<close>

text \<open>
  A job starts with the memory of the lists, the values of the two variables that are not set, the
  configuration, its number, its user and its number of CPUs.
\<close>

datatype cpuset_event =
    Job_starts "freelist \<times> freelist \<times> freelist" string int cpuset_conf nat int int
  | Cpusets_updated cpuset_conf
  | Cpusets_cleaned cpuset_conf
  | Cpuset_removed string

fun cpuset_event_ok :: "('s, 'b) cpuset_ops \<Rightarrow> cpuset_event \<Rightarrow> bool" where
  "cpuset_event_ok C (Job_starts mem junk rc0 cf j u n) \<longleftrightarrow> (\<forall>s. mem_for C s mem) \<and> uid_ok u \<and> jobid_ok j \<and> 0 \<le> n"
| "cpuset_event_ok C _ \<longleftrightarrow> True"

fun cpuset_step :: "'b bitmask_ops \<Rightarrow> ('s, 'b) cpuset_ops \<Rightarrow> cpuset_event \<Rightarrow> 's \<Rightarrow> 's option" where
  "cpuset_step B C (Job_starts mem junk rc0 cf j u n) s = map_option snd (create_cpuset_for_job B C mem junk rc0 cf j u n s)"
| "cpuset_step B C (Cpusets_updated cf) s = map_option snd (update_user_cpusets B C cf s)"
| "cpuset_step B C (Cpusets_cleaned cf) s = map_option snd (slurm_cpuset_clean B C cf s)"
| "cpuset_step B C (Cpuset_removed p) s = Some (co_rmdir C p s)"

fun cpuset_history :: "'b bitmask_ops \<Rightarrow> ('s, 'b) cpuset_ops \<Rightarrow> cpuset_event list \<Rightarrow> 's \<Rightarrow> 's option" where
  "cpuset_history B C [] s = Some s"
| "cpuset_history B C (e # es) s = (case cpuset_step B C e s of None \<Rightarrow> None | Some s1 \<Rightarrow> cpuset_history B C es s1)"

lemma step_ok:
  assumes "bitmask_laws B" "cpuset_fs_laws B C N" "jobs_ok B (queries C s)" "cpuset_event_ok C e" "cpuset_step B C e s = Some s'"
  shows "jobs_ok B (queries C s')"
proof (cases e)
  case (Job_starts mem junk rc0 cf j u n)
  then obtain r where "create_cpuset_for_job B C mem junk rc0 cf j u n s = Some (r, s')" using assms(5) by auto
  from job_created[OF assms(1-3) _ _ _ _ this] assms(4) Job_starts show ?thesis by (simp add: job_result_def)
next
  case (Cpusets_updated cf)
  then obtain r where "update_user_cpusets B C cf s = Some (r, s')" using assms(5) by auto
  from updates_keep[OF assms(1-3) this] show ?thesis by (simp add: keeps_def)
next
  case (Cpusets_cleaned cf)
  then obtain r where "slurm_cpuset_clean B C cf s = Some (r, s')" using assms(5) by auto
  from clean_shrinks[OF assms(1-3) this] show ?thesis by (simp add: shrinks_def)
next
  case (Cpuset_removed p)
  then show ?thesis using rmdir_shrinks[OF assms(2,3), of p] assms(5) by (simp add: shrinks_def)
qed

lemma history_ok:
  assumes "bitmask_laws B" "cpuset_fs_laws B C N"
  shows "jobs_ok B (queries C s) \<Longrightarrow> \<forall>e\<in>set es. cpuset_event_ok C e \<Longrightarrow> cpuset_history B C es s = Some s' \<Longrightarrow>
    jobs_ok B (queries C s')"
proof (induction es arbitrary: s)
  case (Cons e es)
  then obtain s1 where "cpuset_step B C e s = Some s1" "cpuset_history B C es s1 = Some s'"
    by (auto split: option.splits)
  with Cons.IH[of s1] step_ok[OF assms Cons.prems(1), of e s1] Cons.prems(2) show ?case by simp
qed simp

text \<open>A node on which nothing is below \<open>/slurm\<close>.\<close>

definition no_cpusets :: "('s, 'b) cpuset_ops \<Rightarrow> 's \<Rightarrow> bool" where
  "no_cpusets C s \<longleftrightarrow> (\<forall>e. queries C s (sub e) = None)"

lemma no_cpusets_ok: "no_cpusets C s \<Longrightarrow> jobs_ok B (queries C s)"
proof -
  assume n: "no_cpusets C s"
  have "queries C s (subsub e d) = None" for e d
    using n unfolding no_cpusets_def subsub_def sub_def by (metis append_assoc)
  then show ?thesis using n by (simp add: jobs_ok_def job_cpus_def user_cpus_def cpus_of_def job_name_def no_cpusets_def)
qed

section \<open>A file system that works\<close>

text \<open>The state after a number of attempts to modify a cpuset.\<close>

definition tried :: "('s, 'b) cpuset_ops \<Rightarrow> string \<Rightarrow> 'b \<times> 'b \<Rightarrow> nat \<Rightarrow> 's \<Rightarrow> 's" where
  "tried C n cp i s = ((\<lambda>s. snd (co_modify C n cp s)) ^^ i) s"

text \<open>
  What is needed for a job to get its cpuset: directories can be read and made, a cpuset that is
  there answers busy only finitely often and is modified then, one that is not there can be made,
  and the memories of CPUs can be had.
\<close>

definition cpuset_fs_works :: "'b bitmask_ops \<Rightarrow> ('s, 'b) cpuset_ops \<Rightarrow> int \<Rightarrow> bool" where
  "cpuset_fs_works B C N \<longleftrightarrow>
    (\<forall>s n. queries C s n \<noteq> None \<longrightarrow> mc_dir (co_machine C s) (''/dev/cpuset'' @ n) \<noteq> None) \<and>
    (\<forall>s n. fst (co_mkdir C (''/dev/cpuset'' @ n) s) = Exists \<longrightarrow> queries C s n \<noteq> None) \<and>
    (\<forall>s n. fst (co_mkdir C (''/dev/cpuset'' @ n) s) \<noteq> Not_made) \<and>
    (\<forall>s n cp. queries C s n \<noteq> None \<and> bm_nbits B (fst cp) = N \<longrightarrow>
       (\<exists>k. (\<forall>i<k. fst (co_modify C n cp (tried C n cp i s)) = Busy) \<and>
         fst (co_modify C n cp (tried C n cp k s)) = Modified)) \<and>
    (\<forall>s n cp. queries C s n = None \<and> bm_nbits B (fst cp) = N \<longrightarrow> fst (co_create C n cp s)) \<and>
    (\<forall>s c. mc_localmems (co_machine C s) c \<noteq> None) \<and> (\<forall>s. co_getmems C s \<noteq> None)"

text \<open>The loop at \<open>again\<close> returns as soon as the cpuset is not busy.\<close>

lemma modify_loop_returns:
  assumes "\<forall>i<k. fst (co_modify C n cp (tried C n cp i s)) = Busy" "fst (co_modify C n cp (tried C n cp k s)) = Modified"
  shows "modify_loop C n cp s = Some (0, tried C n cp (Suc k) s)"
  using assms
proof (induction k arbitrary: s)
  case 0
  then show ?case
    by (subst modify_loop.simps) (auto simp: tried_def split: prod.split modified.split)
next
  case (Suc k)
  let ?s = "snd (co_modify C n cp s)"
  have t: "tried C n cp (Suc i) s = tried C n cp i ?s" for i
    by (simp add: tried_def funpow_Suc_right del: funpow.simps)
  have "fst (co_modify C n cp s) = Busy" using Suc.prems(1) by (auto simp: tried_def)
  then have "modify_loop C n cp s = modify_loop C n cp ?s"
    by (subst modify_loop.simps) (auto split: prod.split)
  moreover have "\<forall>i<k. fst (co_modify C n cp (tried C n cp i ?s)) = Busy"
    using Suc.prems(1) t by fastforce
  ultimately show ?case using Suc.IH Suc.prems(2) unfolding t by simp
qed

lemma fs_works:
  assumes "cpuset_fs_works B C N"
  shows "queries C s n \<noteq> None \<Longrightarrow> mc_dir (co_machine C s) (''/dev/cpuset'' @ n) \<noteq> None"
    "fst (co_mkdir C (''/dev/cpuset'' @ n) s) = Exists \<Longrightarrow> queries C s n \<noteq> None"
    "fst (co_mkdir C (''/dev/cpuset'' @ n) s) \<noteq> Not_made"
    "queries C s n \<noteq> None \<Longrightarrow> bm_nbits B (fst cp) = N \<Longrightarrow> \<exists>s'. modify_loop C n cp s = Some (0, s')"
    "queries C s n = None \<Longrightarrow> bm_nbits B (fst cp) = N \<Longrightarrow> fst (co_create C n cp s)"
    "\<exists>mems. do_cpuset_create B C cf a s = Some (a, mems)"
proof -
  note L = assms[unfolded cpuset_fs_works_def]
  show "queries C s n \<noteq> None \<Longrightarrow> mc_dir (co_machine C s) (''/dev/cpuset'' @ n) \<noteq> None"
    "fst (co_mkdir C (''/dev/cpuset'' @ n) s) = Exists \<Longrightarrow> queries C s n \<noteq> None"
    "fst (co_mkdir C (''/dev/cpuset'' @ n) s) \<noteq> Not_made"
    "queries C s n = None \<Longrightarrow> bm_nbits B (fst cp) = N \<Longrightarrow> fst (co_create C n cp s)"
    using L by blast+
  have "\<exists>k. (\<forall>i<k. fst (co_modify C n cp (tried C n cp i s)) = Busy) \<and>
      fst (co_modify C n cp (tried C n cp k s)) = Modified"
    if "queries C s n \<noteq> None" "bm_nbits B (fst cp) = N" using L that by blast
  then show "queries C s n \<noteq> None \<Longrightarrow> bm_nbits B (fst cp) = N \<Longrightarrow> \<exists>s'. modify_loop C n cp s = Some (0, s')"
    by (metis modify_loop_returns)
  have "mc_localmems (co_machine C s) a \<noteq> None" "co_getmems C s \<noteq> None" using L by blast+
  then show "\<exists>mems. do_cpuset_create B C cf a s = Some (a, mems)" by (auto simp: do_cpuset_create_def)
qed

text \<open>The names that do not belong to a user.\<close>

definition outside :: "int \<Rightarrow> string \<Rightarrow> bool" where
  "outside u x \<longleftrightarrow> \<not> under (sub (dec_int u)) x \<and> \<not> under (sub (orphan_entry u)) x"

lemma outside_ne: "outside u x \<Longrightarrow> x \<noteq> sub (dec_int u)" "uid_ok u \<Longrightarrow> outside u x \<Longrightarrow> x \<noteq> job_name u j"
  by (auto simp: outside_def under_def job_name_def subsub_def)

lemma outside_user:
  assumes "uid_ok u" "uid_ok v" "v \<noteq> u"
  shows "outside u (sub (dec_int v))" "outside u (job_name v k)" "outside u (subsub (orphan_entry v) d)"
  using assms uids(1,2)[OF assms(1,2)] uids(3,4)[OF assms(1)] uids(3,4)[OF assms(2)]
  by (simp_all add: outside_def under_sub under_subsub job_name_def)

lemma user_cpuset_there:
  assumes fs: "cpuset_fs_laws B C N" and w: "cpuset_fs_works B C N" and u: "uid_ok u"
    and o: "user_cpuset_unorphan C u (user_path u) s = (orphan, s1)"
    and none: "queries C s (job_name u j) = None" "queries C s (subsub (orphan_entry u) (dec j)) = None"
  shows "\<exists>s2. (if orphan then (0, s1) else user_cpuset_create C (user_path u) s1) = (0, s2) \<and>
    queries C s2 (sub (dec_int u)) \<noteq> None \<and> queries C s2 (job_name u j) = None \<and>
    (\<forall>x. outside u x \<longrightarrow> queries C s2 x = queries C s x)"
proof -
  have o': "co_rename C (''/dev/cpuset'' @ sub (orphan_entry u)) (''/dev/cpuset'' @ sub (dec_int u)) s = (orphan, s1)"
    using o by (simp add: user_cpuset_unorphan_def user_names)
  note q1 = fs_laws(11)[OF fs o']
  show ?thesis
  proof (cases orphan)
    case True
    have "queries C s (sub (orphan_entry u)) \<noteq> None" using fs_laws(13)[OF fs, of "sub (orphan_entry u)" "sub (dec_int u)" s s1] o' True by simp
    then show ?thesis using True q1 u uids none by (simp add: moved_sub moved_subsub job_name_def) (simp add: moved_def outside_def)
  next
    case False
    obtain x s2 where m: "co_mkdir C (''/dev/cpuset'' @ sub (dec_int u)) s1 = (x, s2)"
      by (cases "co_mkdir C (''/dev/cpuset'' @ sub (dec_int u)) s1")
    have x: "x \<noteq> Not_made" using fs_works(3)[OF w, of "sub (dec_int u)" s1] m by simp
    have c: "user_cpuset_create C (user_path u) s1 = (0, s2)" using m x by (simp add: user_cpuset_create_def user_names)
    have "queries C s2 (sub (dec_int u)) \<noteq> None \<and> queries C s2 (job_name u j) = None \<and>
      (\<forall>x. outside u x \<longrightarrow> queries C s2 x = queries C s x)"
    proof (cases x)
      case Made
      then obtain e where "queries C s2 = (queries C s1)(sub (dec_int u) \<mapsto> Some e)" using fs_laws(9)[OF fs] m by blast
      then show ?thesis using none q1 False u outside_ne(1) by (auto simp: job_name_def)
    next
      case Exists
      have "queries C s1 (sub (dec_int u)) \<noteq> None" using fs_works(2)[OF w, of "sub (dec_int u)" s1] m Exists by simp
      then show ?thesis using fs_laws(10)[OF fs m] Exists q1 False none by simp
    qed (use x in simp)
    then show ?thesis using c False by simp
  qed
qed

lemma user_update_works:
  assumes laws: "bitmask_laws B" and fs: "cpuset_fs_laws B C N" and w: "cpuset_fs_works B C N" and u: "uid_ok u"
    and a: "bm_nbits B a = N" "bits B a \<noteq> {}" and ok: "jobs_ok B (queries C s)"
    and none: "queries C s (job_name u j) = None" "queries C s (subsub (orphan_entry u) (dec j)) = None"
  shows "\<exists>s'. user_cpuset_update B C cf u (Some a) s = Some (0, s') \<and> queries C s' (job_name u j) = None \<and>
    (\<forall>x. outside u x \<longrightarrow> queries C s' x = queries C s x)"
proof -
  obtain orphan s1 where o: "user_cpuset_unorphan C u (user_path u) s = (orphan, s1)"
    by (cases "user_cpuset_unorphan C u (user_path u) s")
  from user_cpuset_there[OF fs w u o none] obtain s2 where
    c: "(if orphan then (0, s1) else user_cpuset_create C (user_path u) s1) = (0, s2)"
      "queries C s2 (sub (dec_int u)) \<noteq> None" "queries C s2 (job_name u j) = None"
      "\<forall>x. outside u x \<longrightarrow> queries C s2 x = queries C s x" by blast
  from fs_works(1)[OF w c(2)] obtain ds where ds: "mc_dir (co_machine C s2) (user_path u) = Some ds"
    by (auto simp: user_names)
  have "0 \<le> mc_ncpus (co_machine C s2)" using fs_laws(1)[OF fs] by (simp add: machine_ok_def)
  from used_cpus_result[OF laws this ds, of True] obtain b where
    b: "used_cpus_bitmask_path B (co_machine C s2) (Some (user_path u)) True = Some b" by blast
  define used where "used = bm_or B (if orphan then bm_alloc B (bm_nbits B b) else b) a"
  have us: "bits B a \<subseteq> bits B used" "bm_nbits B used = N"
    by (rule used_by_user[OF laws fs u _ _ b, of orphan "Some a"];
      use user_cpuset_made(2)[OF fs ok u o c(1)] a in \<open>simp add: used_def\<close>)+
  have "bm_weight B used \<noteq> 0" using mask_empty[OF laws, of used] us(1) a(2) by blast
  moreover obtain mems where dc: "do_cpuset_create B C cf used s2 = Some (used, mems)" using fs_works(6)[OF w] by blast
  moreover obtain s' where m: "modify_loop C (sub (dec_int u)) (used, mems) s2 = Some (0, s')"
    using fs_works(4)[OF w c(2), of "(used, mems)"] us(2) by auto
  have z: "\<not> (0 :: int) < 0" by simp
  ultimately have "user_cpuset_update B C cf u (Some a) s = Some (0, s')"
    unfolding user_cpuset_update_def Let_def o prod.case c(1) if_not_P[OF z] b option.case used_def[symmetric] user_names(4)
    by (simp add: m)
  moreover have "queries C s' (job_name u j) = None" "\<forall>x. outside u x \<longrightarrow> queries C s' x = queries C s x"
    using modify_result[OF fs m] c(3,4) u outside_ne(1) by (auto simp: modify_spec_def job_name_def)
  ultimately show ?thesis by blast
qed

text \<open>The job is created, or refused with nothing changed.\<close>

lemma create_job_works:
  assumes laws: "bitmask_laws B" and fs: "cpuset_fs_laws B C N" and w: "cpuset_fs_works B C N"
    and ok: "jobs_ok B (queries C s)" and u: "uid_ok u" "jobid_ok j" and mem: "mem_for C s mem" and n: "0 < n"
    and ds: "mc_dir (co_machine C s) ''/dev/cpuset/slurm'' = Some ds"
    and none: "queries C s (job_name u j) = None" "queries C s (subsub (orphan_entry u) (dec j)) = None"
  shows "if n \<le> N - int (card (cpus_in_use B (co_machine C s) ''/dev/cpuset/slurm'' ds False))
    then \<exists>s'. create_cpuset_for_job B C mem junk rc0 cf j u n s = Some (0, s') \<and>
      job_result B (queries C s) u j n (- 1) 0 (queries C s') \<and>
      (\<forall>x. outside u x \<longrightarrow> queries C s' x = queries C s x)
    else create_cpuset_for_job B C mem junk rc0 cf j u n s = Some (- 1, s)"
proof -
  have u0: "0 \<le> u" using u(1) by (simp add: uid_ok_def)
  have n0: "0 \<le> n" using n by simp
  from job_allocated[OF laws fs mem n0 ds, of cf] obtain m b m1 where
    m: "nodemap_create B (co_machine C s) mem cf None = Some (Some m)" "nodemap_allocate B m n = Some (b, m1)"
      "nodemap_destroy m1 \<noteq> None"
      "b = None \<longleftrightarrow> N - int (card (cpus_in_use B (co_machine C s) ''/dev/cpuset/slurm'' ds False)) < n"
      "\<forall>alloc. b = Some alloc \<longrightarrow> bm_nbits B alloc = N \<and> int (card (bits B alloc)) = n \<and>
        bits B alloc \<subseteq> {0 ..< N} - cpus_in_use B (co_machine C s) ''/dev/cpuset/slurm'' ds False" by blast
  show ?thesis
  proof (cases b)
    case None
    then have "\<not> n \<le> N - int (card (cpus_in_use B (co_machine C s) ''/dev/cpuset/slurm'' ds False))" using m(4) by simp
    moreover have "create_cpuset_for_job B C mem junk rc0 cf j u n s = Some (- 1, s)"
      using m(1-3) None by (auto simp: create_cpuset_for_job_def create_cpuset_def)
    ultimately show ?thesis by simp
  next
    case (Some alloc)
    have a: "bm_nbits B alloc = N" "int (card (bits B alloc)) = n"
      "bits B alloc \<inter> user_cpus B (queries C s) v = {}" if "uid_ok v" for v
      using m(5) Some user_cpus_used[OF fs ds that] by auto
    have ne: "bits B alloc \<noteq> {}" using a(2)[OF u(1)] n by auto
    from user_update_works[OF laws fs w u(1) a(1)[OF u(1)] ne ok none, of cf] obtain s1 where
      s1: "user_cpuset_update B C cf u (Some alloc) s = Some (0, s1)" "queries C s1 (job_name u j) = None"
      "\<forall>x. outside u x \<longrightarrow> queries C s1 x = queries C s x" by blast
    obtain mems where cp: "do_cpuset_create B C cf alloc s1 = Some (alloc, mems)" using fs_works(6)[OF w] by blast
    have "fst (co_create C (job_name u j) (alloc, mems) s1)" using fs_works(5)[OF w s1(2), of "(alloc, mems)"] a(1)[OF u(1)] by simp
    then obtain s2 where co: "co_create C (job_name u j) (alloc, mems) s1 = (True, s2)" by (metis prod.collapse)
    have pth: "job_cpuset_path (co_machine C s1) junk j u = Some (job_name u j)" by (rule job_path[OF fs_laws(2)[OF fs] u])
    have jc: "job_cpuset_create B C cf junk rc j u alloc s1 = Some (0, s2)" for rc
      by (simp add: job_cpuset_create_def pth cp co)
    have "job_result B (queries C s) u j n (- 1) (if (0 :: int) < 0 then - 1 else 0) (queries C s2)"
      by (rule alloc_created[OF laws fs ok u a(1)[OF u(1)] a(2)[OF u(1)] a(3) s1(1) _ jc]) simp_all
    moreover have "create_cpuset_for_job B C mem junk rc0 cf j u n s = Some (0, s2)"
      using m(1-3) Some u0 s1(1) jc[of rc0] by (auto simp: create_cpuset_for_job_def create_cpuset_def)
    moreover have "\<forall>x. outside u x \<longrightarrow> queries C s2 x = queries C s x"
      using fs_laws(7)[OF fs co] s1(3) outside_ne(2)[OF u(1)] by auto
    moreover have "n \<le> N - int (card (cpus_in_use B (co_machine C s) ''/dev/cpuset/slurm'' ds False))"
      using m(4) Some by simp
    ultimately show ?thesis by simp
  qed
qed

section \<open>A node for the witnesses\<close>

lemma small_works: "cpuset_fs_works list_bitmask small_ops 8"
  unfolding cpuset_fs_works_def
proof (intro conjI allI impI)
  fix s :: small_fs and n and cp :: "bool list \<times> bool list"
  assume a: "queries small_ops s n \<noteq> None \<and> bm_nbits list_bitmask (fst cp) = 8"
  then have "n \<in> set (fst s)" "length (fst cp) = 8"
    unfolding small_queries by (auto simp: small_query_def list_bitmask_def split: if_splits)
  then have "fst (co_modify small_ops n cp (tried small_ops n cp 0 s)) = Modified"
    by (simp add: small_ops_def tried_def)
  then show "\<exists>k. (\<forall>i<k. fst (co_modify small_ops n cp (tried small_ops n cp i s)) = Busy) \<and>
      fst (co_modify small_ops n cp (tried small_ops n cp k s)) = Modified" by blast
next
  fix s :: small_fs and n and cp :: "bool list \<times> bool list"
  assume a: "queries small_ops s n = None \<and> bm_nbits list_bitmask (fst cp) = 8"
  then show "fst (co_create small_ops n cp s)"
    unfolding small_queries by (auto simp: small_query_def list_bitmask_def small_ops_def split: if_splits)
next
  fix s :: small_fs and n
  assume "fst (co_mkdir small_ops (''/dev/cpuset'' @ n) s) = Exists"
  then show "queries small_ops s n \<noteq> None"
    unfolding small_queries by (auto simp: small_query_def small_ops_def split: if_splits)
qed (auto simp: small_ops_def small_machine_def four_nodes_def)

lemma small_mem_for: "mem_for small_ops s small_mem"
  by (simp add: mem_for_def small_mem_def some_heap_facts small_ops_def small_machine_def four_nodes_def)

lemma small_start_facts:
  "no_cpusets small_ops small_start" "queries small_ops small_start (subsub e d) = None"
  "mc_dir (co_machine small_ops small_start) ''/dev/cpuset/slurm'' = Some []"
  "cpus_in_use list_bitmask (co_machine small_ops small_start) ''/dev/cpuset/slurm'' [] False = {}"
proof -
  have q: "queries small_ops small_start = (\<lambda>n. if n = ''/slurm'' then Some (Some (replicate 8 True)) else None)"
    unfolding small_queries by (simp add: fun_eq_iff small_query_def small_start_def eight_id)
  show "no_cpusets small_ops small_start" "queries small_ops small_start (subsub e d) = None"
    unfolding no_cpusets_def q by (simp_all add: sub_def subsub_def)
  show "mc_dir (co_machine small_ops small_start) ''/dev/cpuset/slurm'' = Some []"
    by (simp add: small_ops_def small_machine_def small_start_def entries_def)
  have "mc_query (co_machine small_ops small_start) ''/slurm'' = Some (Some (replicate 8 True))"
    using q unfolding queries_def by simp
  moreover have "bits list_bitmask (replicate 8 True) = {0 ..< 8}" by (auto simp: list_bitmask_bits)
  moreover have "mc_ncpus (co_machine small_ops small_start) = 8" by (simp add: small_ops_def small_machine_facts)
  ultimately show "cpus_in_use list_bitmask (co_machine small_ops small_start) ''/dev/cpuset/slurm'' [] False = {}"
    by (simp add: cpus_in_use_def child_cpus_def cpuset_path_to_name_def)
qed

lemma small_ids: "uid_ok 100" "uid_ok 200" "jobid_ok 7" "jobid_ok 8"
  by (simp_all add: uid_ok_def jobid_ok_def)

text \<open>Two jobs of two users start.\<close>

definition small_events :: "cpuset_event list" where
  "small_events = [Job_starts small_mem [] (- 1) cpuset_conf_create 7 100 3, Job_starts small_mem [] (- 1) cpuset_conf_create 8 200 2]"

lemma small_history:
  "\<exists>s. cpuset_history list_bitmask small_ops small_events small_start = Some s \<and>
    card (job_cpus list_bitmask (queries small_ops s) 100 7) = 3"
proof -
  let ?B = list_bitmask and ?C = small_ops
  note laws = list_bitmask_laws small_laws small_works
  have ok: "jobs_ok ?B (queries ?C small_start)" by (rule no_cpusets_ok[OF small_start_facts(1)])
  have n: "(0 :: int) < 3" "(0 :: int) < 2" by simp_all
  from create_job_works[OF laws ok small_ids(1,3) small_mem_for n(1) small_start_facts(3), of "[]" "- 1" cpuset_conf_create]
  obtain s1 where s1: "create_cpuset_for_job ?B ?C small_mem [] (- 1) cpuset_conf_create 7 100 3 small_start = Some (0, s1)"
      "job_result ?B (queries ?C small_start) 100 7 3 (- 1) 0 (queries ?C s1)"
      "\<forall>x. outside 100 x \<longrightarrow> queries ?C s1 x = queries ?C small_start x"
    by (auto simp: small_start_facts(2,4) job_name_def)
  have ok1: "jobs_ok ?B (queries ?C s1)" "card (job_cpus ?B (queries ?C s1) 100 7) = 3"
    using s1(2) by (simp_all add: job_result_def)
  obtain ds where ds: "mc_dir (co_machine ?C s1) ''/dev/cpuset/slurm'' = Some ds" using small_dir by blast
  have none: "queries ?C s1 (job_name 200 8) = None" "queries ?C s1 (subsub (orphan_entry 200) (dec 8)) = None"
    using s1(3) outside_user(2,3)[OF small_ids(1,2)] small_start_facts(2) by (simp_all add: job_name_def)
  from create_job_works[OF laws ok1(1) small_ids(2,4) small_mem_for n(2) ds none, of "[]" "- 1" cpuset_conf_create]
  obtain r s2 where s2: "create_cpuset_for_job ?B ?C small_mem [] (- 1) cpuset_conf_create 8 200 2 s1 = Some (r, s2)"
    by (auto split: if_splits)
  from job_created[OF laws(1,2) ok1(1) small_ids(2,4) small_mem_for _ s2]
  have "job_cpus ?B (queries ?C s2) 100 7 = job_cpus ?B (queries ?C s1) 100 7"
    using small_ids by (simp add: job_result_def)
  then show ?thesis using ok1(2) s1(1) s2 by (simp add: small_events_def)
qed

section \<open>Properties\<close>

text \<open>
  C1: jobs keep their CPUs to themselves.  On a node that starts without cpusets, after any history
  of jobs that start, cpusets that are removed, cleaned and updated, no two jobs share a CPU, and a
  job has no CPU that is not in the cpuset of its user, whichever calls of the system fail.
\<close>

theorem cpuset_jobs_apart:
  assumes "bitmask_laws B" "cpuset_fs_laws B C N" "no_cpusets C s"
    and "\<forall>e\<in>set es. cpuset_event_ok C e" "cpuset_history B C es s = Some s'"
    and "uid_ok u" "jobid_ok j" "uid_ok v" "jobid_ok k" "(u, j) \<noteq> (v, k)"
  shows "job_cpus B (queries C s') u j \<inter> job_cpus B (queries C s') v k = {} \<and>
    job_cpus B (queries C s') u j \<subseteq> user_cpus B (queries C s') u"
  using jobs_okD[OF history_ok[OF assms(1,2) no_cpusets_ok[OF assms(3)] assms(4,5)]] assms(6-10) by blast

theorem cpuset_jobs_apart_witness:
  "\<exists>s. cpuset_history list_bitmask small_ops small_events small_start = Some s \<and>
    card (job_cpus list_bitmask (queries small_ops s) 100 7) = 3 \<and>
    job_cpus list_bitmask (queries small_ops s) 100 7 \<inter> job_cpus list_bitmask (queries small_ops s) 200 8 = {} \<and>
    job_cpus list_bitmask (queries small_ops s) 100 7 \<subseteq> user_cpus list_bitmask (queries small_ops s) 100"
proof -
  obtain s where s: "cpuset_history list_bitmask small_ops small_events small_start = Some s"
      "card (job_cpus list_bitmask (queries small_ops s) 100 7) = 3" using small_history by blast
  have "\<forall>e\<in>set small_events. cpuset_event_ok small_ops e"
    using small_ids small_mem_for by (simp add: small_events_def)
  from cpuset_jobs_apart[OF list_bitmask_laws small_laws small_start_facts(1) this s(1) small_ids(1,3,2,4)] s show ?thesis
    by auto
qed

text \<open>
  C2: a job that fits gets its cpuset.  On a node whose memory nodes have consecutive CPUs, on which
  directories and cpusets can be read and made and a cpuset is busy only finitely often, after any
  such history, \<open>create_cpuset_for_job\<close>, its loop over busy answers included, returns: 0 when as
  many CPUs as the job wants are not in use, and then the job has exactly that many, none of them
  of a user before, while the CPUs of all other jobs and users are unchanged; and -1 otherwise,
  with nothing changed.
\<close>

theorem cpuset_job_fits:
  assumes "bitmask_laws B" "cpuset_fs_laws B C N" "cpuset_fs_works B C N" "no_cpusets C s0"
    and "\<forall>e\<in>set es. cpuset_event_ok C e" "cpuset_history B C es s0 = Some s"
    and "uid_ok u" "jobid_ok j" "mem_for C s mem" "0 < n"
    and "mc_dir (co_machine C s) ''/dev/cpuset/slurm'' = Some ds"
    and "queries C s (job_name u j) = None" "queries C s (subsub (orphan_entry u) (dec j)) = None"
  shows "if n \<le> N - int (card (cpus_in_use B (co_machine C s) ''/dev/cpuset/slurm'' ds False))
    then \<exists>s'. create_cpuset_for_job B C mem junk rc0 cf j u n s = Some (0, s') \<and>
      int (card (job_cpus B (queries C s') u j)) = n \<and>
      (\<forall>v. uid_ok v \<longrightarrow> job_cpus B (queries C s') u j \<inter> user_cpus B (queries C s) v = {}) \<and>
      (\<forall>v k. uid_ok v \<and> jobid_ok k \<and> (v, k) \<noteq> (u, j) \<longrightarrow>
         job_cpus B (queries C s') v k = job_cpus B (queries C s) v k) \<and>
      (\<forall>v. uid_ok v \<and> v \<noteq> u \<longrightarrow> user_cpus B (queries C s') v = user_cpus B (queries C s) v)
    else create_cpuset_for_job B C mem junk rc0 cf j u n s = Some (- 1, s)"
proof -
  have ok: "jobs_ok B (queries C s)" by (rule history_ok[OF assms(1,2) no_cpusets_ok[OF assms(4)] assms(5,6)])
  from create_job_works[OF assms(1-3) ok assms(7-13), of junk rc0 cf] show ?thesis
    using outside_user(1)[OF assms(7)] unfolding job_result_def user_cpus_def cpus_of_def by (auto split: if_splits)
qed

theorem cpuset_job_fits_witness:
  "\<exists>s. create_cpuset_for_job list_bitmask small_ops small_mem [] (- 1) cpuset_conf_create 7 100 8 small_start = Some (0, s) \<and>
    card (job_cpus list_bitmask (queries small_ops s) 100 7) = 8 \<and>
    create_cpuset_for_job list_bitmask small_ops small_mem [] (- 1) cpuset_conf_create 7 100 9 small_start =
      Some (- 1, small_start)"
proof -
  have h: "\<forall>e\<in>set []. cpuset_event_ok small_ops e" "cpuset_history list_bitmask small_ops [] small_start = Some small_start"
    by simp_all
  have none: "queries small_ops small_start (job_name 100 7) = None" by (simp add: job_name_def small_start_facts(2))
  have n: "(0 :: int) < 8" "(0 :: int) < 9" by simp_all
  note f = cpuset_job_fits[OF list_bitmask_laws small_laws small_works small_start_facts(1) h small_ids(1,3) small_mem_for _
      small_start_facts(3) none small_start_facts(2), of _ "[]" "- 1" cpuset_conf_create]
  from f[OF n(1)] f[OF n(2)] show ?thesis unfolding small_start_facts(4) by auto
qed

end
