(* ===== verification/CpusetPluginProps.thy ===== *)
theory CpusetPluginProps
  imports CpusetPlugin CpusetProps
begin

text \<open>Properties of the cpuset plugin and of its PAM module.\<close>

section \<open>Paths\<close>

lemma user_name_length: "\<bar>u\<bar> < 2 ^ 31 \<Longrightarrow> length (user_name u) \<le> 18"
proof -
  assume u: "\<bar>u\<bar> < 2 ^ 31"
  then have "nat u < 10 ^ Suc 9" "nat (- u) < 10 ^ Suc 9" by (simp; arith)+
  from this[THEN dec_length_bound] show ?thesis by (simp add: user_name_def dec_int_def)
qed

lemma user_name_slurm: "take 6 (user_name u) = ''/slurm''" "user_name u \<noteq> ''/slurm''"
  by (simp_all add: user_name_def)

lemma job_path_cases:
  assumes "mc_path mc = Some p" "length p < 64" "\<bar>u\<bar> < 2 ^ 31" "jobid_ok j"
  shows "job_cpuset_path mc junk j u = Some ((if p = ''/'' \<or> p = ''/slurm'' then user_name u else p) @ ''/'' @ dec j)"
    "migrate_path mc junk j u = (if take 6 p \<noteq> ''/slurm'' then user_name u else p) @ ''/'' @ dec j"
proof -
  have d: "length (dec j) \<le> 10" using dec_length_bound[of j 9] assms(4) by (simp add: jobid_ok_def)
  note l = user_name_length[OF assms(3)]
  show "job_cpuset_path mc junk j u = Some ((if p = ''/'' \<or> p = ''/slurm'' then user_name u else p) @ ''/'' @ dec j)"
    using assms(1,2) d l by (simp add: job_cpuset_path_def Let_def)
  have "take 4095 (x @ ''/'' @ dec j) = x @ ''/'' @ dec j" if "length x < 64" for x
    using that d by simp
  then show "migrate_path mc junk j u = (if take 6 p \<noteq> ''/slurm'' then user_name u else p) @ ''/'' @ dec j"
    using assms(1,2) l unfolding migrate_path_def Let_def by simp
qed

text \<open>Two numbers of users one of which begins with the other.\<close>

lemma in_user_cpuset_prefix: "mc_path mc = Some ''/slurm/100'' \<Longrightarrow> in_user_cpuset mc 10"
  by (simp add: in_user_cpuset_def user_name_def dec_int_def dec.simps digit_char_def)

section \<open>The numbers of CPUs\<close>

text \<open>Without \<open>SLURM_CPUS_PER_TASK\<close> a step asks for a negative number of CPUs.\<close>

lemma step_ncpus_negative:
  assumes "sk_cpus_per_task sk = None" "pg_ncpus_per_task g < 0" "sk_local_tasks sk = Some n" "n < 2 ^ 31"
  shows "job_step_ncpus sk g = (- int n, g)"
proof -
  have "long_to_int (- int n) = - int n"
    unfolding long_to_int_def sint_sbintrunc' using assms(4) by (intro signed_take_bit_int_eq_self) simp_all
  then show ?thesis using assms by (simp add: job_step_ncpus_def job_ncpus_per_task_def)
qed

text \<open>The option without arguments asks for nothing when SLURM calls \<open>slurm_spank_init_post_opt\<close>.\<close>

lemma use_cpusets_without_arguments:
  assumes "sk_post_opt sk" "\<not> pg_user_options g"
  shows "\<exists>g1. parse_user_option B C h mem junk rc0 files sk remote None g s = Some (1, g1, s) \<and>
    cpuset_init_post_opt B C mem junk rc0 sk g1 s = Some (0, g1, s)"
  using assms by (simp add: parse_user_option_def cpuset_init_post_opt_def)

text \<open>A cpuset that could not be created is reported as created when the unset variable is not negative.\<close>

lemma create_failure_unnoticed:
  assumes "job_cpuset_path (co_machine C s) junk j u = Some p" "do_cpuset_create B C cf alloc s = Some cp"
    and "co_create C p cp s = (False, s1)"
  shows "job_cpuset_create B C cf junk rc0 j u alloc s = Some (rc0, s1)"
  using assms by (simp add: job_cpuset_create_def)

section \<open>Jobs of a user\<close>

definition runs_on :: "string \<Rightarrow> int \<Rightarrow> pam_job \<Rightarrow> bool" where
  "runs_on host uid j \<longleftrightarrow> pj_uid j = uid \<and> pj_running j \<and> 0 < pj_cpus j host"

lemma create_job_cpusets_count:
  "create_job_cpusets B C mem junk rc0 cf host uid js n s = Some (n', s') \<Longrightarrow>
   n \<le> n' \<and> n' \<le> n + (\<Sum>j\<leftarrow>filter (runs_on host uid) js. pj_cpus j host) \<and> (n < n' \<longrightarrow> (\<exists>j\<in>set js. runs_on host uid j))"
proof (induction js arbitrary: n s)
  case (Cons j js)
  show ?case
  proof (cases "runs_on host uid j")
    case False
    then have "create_job_cpusets B C mem junk rc0 cf host uid js n s = Some (n', s')"
      using Cons.prems by (auto simp: runs_on_def Let_def split: if_splits)
    from Cons.IH[OF this] False show ?thesis by auto
  next
    case True
    then obtain s1 k where k: "create_job_cpusets B C mem junk rc0 cf host uid js k s1 = Some (n', s')"
        "k = n \<or> k = n + pj_cpus j host"
      using Cons.prems by (auto simp: runs_on_def Let_def split: if_splits option.splits)
    from Cons.IH[OF k(1)] k(2) True show ?thesis by (auto simp: runs_on_def)
  qed
qed simp

lemma pam_admit_success:
  assumes "pam_admit B C mem junk rc0 cf hostname jobs uid first s = Some (PAM_SUCCESS, s')"
  shows "\<exists>h js j. hostname = Some h \<and> jobs = Some js \<and> j \<in> set js \<and> runs_on (takeWhile (\<lambda>c. c \<noteq> CHR ''.'') h) uid j"
proof -
  obtain fd first1 s1 where a: "slurm_cpuset_create B C cf first s = Some (fd, first1, s1)" "\<not> fd < 0"
    using assms by (auto simp: pam_admit_def split: option.splits if_splits)
  obtain n s2 where b: "create_all_job_cpusets B C mem junk rc0 cf hostname jobs uid s1 = Some (n, s2)" "0 < n"
    using assms a by (auto simp: pam_admit_def split: option.splits if_splits)
  then obtain h js where "hostname = Some h" "jobs = Some js"
    "create_job_cpusets B C mem junk rc0 cf (takeWhile (\<lambda>c. c \<noteq> CHR ''.'') h) uid js 0 s1 = Some (n, s2)"
    by (auto simp: create_all_job_cpusets_def split: option.splits)
  with create_job_cpusets_count[OF this(3)] b(2) show ?thesis by blast
qed

section \<open>Properties\<close>

text \<open>
  a job is moved to the cpuset that was made for it exactly when the caller is in the root
  cpuset or in one below \<open>/slurm\<close>: \<open>job_cpuset_path\<close> and \<open>migrate_job_to_cpuset\<close> build the
  same path there, and different ones everywhere else, \<open>/slurm\<close> itself included.
\<close>

theorem cpuset_move_target:
  assumes "mc_path mc = Some p" "length p < 64" "\<bar>u\<bar> < 2 ^ 31" "jobid_ok j"
  shows "job_cpuset_path mc junk j u = Some (migrate_path mc junk j u) \<longleftrightarrow> below_slurm p"
proof -
  note c = job_path_cases[OF assms, of junk]
  consider "p = ''/''" | "p = ''/slurm''" | "take 6 p = ''/slurm''" "p \<noteq> ''/slurm''" | "p \<noteq> ''/''" "take 6 p \<noteq> ''/slurm''" by blast
  then show ?thesis
  proof cases
    case 2
    have "length (user_name u @ ''/'' @ dec j) \<noteq> length (''/slurm'' @ ''/'' @ dec j)" by (simp add: user_name_def)
    then have "user_name u @ ''/'' @ dec j \<noteq> ''/slurm'' @ ''/'' @ dec j" by metis
    then show ?thesis unfolding c using 2 by (simp add: below_slurm_def)
  next
    case 4
    have "p \<noteq> user_name u" using user_name_slurm(1) 4(2) by metis
    moreover have "p \<noteq> ''/slurm''" using 4(2) by auto
    ultimately show ?thesis unfolding c using 4 by (simp add: below_slurm_def)
  qed (unfold c, auto simp: below_slurm_def)
qed

theorem cpuset_move_target_witness:
  "job_cpuset_path (four_nodes\<lparr>mc_path := Some ''/slurm''\<rparr>) [] 7 100 \<noteq>
     Some (migrate_path (four_nodes\<lparr>mc_path := Some ''/slurm''\<rparr>) [] 7 100) \<and>
   job_cpuset_path four_nodes [] 7 100 = Some (migrate_path four_nodes [] 7 100)"
  using cpuset_move_target[of "four_nodes\<lparr>mc_path := Some ''/slurm''\<rparr>" "''/slurm''" 100 7 "[]"]
    cpuset_move_target[of four_nodes "''/''" 100 7 "[]"]
  by (simp add: below_slurm_def jobid_ok_def four_nodes_def)

text \<open>
  C38: who may log in.  When the PAM module grants access then the name is that of a user who is
  root, who is taken to be in the user's cpuset already, or who has a running job with CPUs on this
  node.
\<close>

theorem pam_access:
  assumes "pam_sm_acct_mgmt B C mem junk rc0 access files av getpwnam user hostname jobs first s = Some (PAM_SUCCESS, s')"
  shows "\<exists>name uid. user = Some name \<and> name \<noteq> [] \<and> getpwnam name = Some uid \<and>
    (uid = 0 \<or> in_user_cpuset (co_machine C s) uid \<or>
     (\<exists>h js j. hostname = Some h \<and> jobs = Some js \<and> j \<in> set js \<and> runs_on (takeWhile (\<lambda>c. c \<noteq> CHR ''.'') h) uid j))"
proof -
  obtain name uid where u: "user = Some name" "name \<noteq> []" "getpwnam name = Some uid"
    using assms by (auto simp: pam_sm_acct_mgmt_def split: option.splits if_splits)
  show ?thesis
  proof (cases "uid = 0 \<or> in_user_cpuset (co_machine C s) uid")
    case False
    then obtain cf where "pam_admit B C mem junk rc0 cf hostname jobs uid first s = Some (PAM_SUCCESS, s')"
      using assms u by (auto simp: pam_sm_acct_mgmt_def split: option.splits if_splits prod.splits)
    from pam_admit_success[OF this] u show ?thesis by blast
  qed (use u in blast)
qed

definition quiet_ops :: "(small_fs, bool list) cpuset_ops" where
  "quiet_ops = small_ops\<lparr>co_fts := (\<lambda>s. None)\<rparr>"

definition job_seven :: pam_job where
  "job_seven = \<lparr>pj_id = 7, pj_uid = 100, pj_running = True, pj_cpus = (\<lambda>h. if h = ''n1'' then 2 else 0)\<rparr>"

theorem pam_access_witness:
  "\<exists>s. pam_sm_acct_mgmt list_bitmask quiet_ops small_mem [] (- 1) (\<lambda>p. (False, False)) (\<lambda>p. None) []
      (\<lambda>n. if n = ''ann'' then Some 100 else None) (Some ''ann'') (Some ''n1.site'') (Some [job_seven]) True
      ([''/slurm'', ''/slurm/100'', ''/slurm/100/7''], \<lambda>n. replicate 8 True) = Some (PAM_SUCCESS, s) \<and>
    runs_on ''n1'' 100 job_seven"
proof -
  let ?s = "([''/slurm'', ''/slurm/100'', ''/slurm/100/7''], \<lambda>n. replicate 8 True) :: small_fs"
  let ?pw = "\<lambda>n. if n = ''ann'' then Some 100 else None :: int option"
  let ?r = "pam_sm_acct_mgmt list_bitmask quiet_ops small_mem [] (- 1) (\<lambda>p. (False, False)) (\<lambda>p. None) []
      ?pw (Some ''ann'') (Some ''n1.site'') (Some [job_seven]) True ?s"
  have "map_option fst ?r = Some PAM_SUCCESS" by code_simp
  then obtain s where s: "?r = Some (PAM_SUCCESS, s)" by auto
  have "\<not> in_user_cpuset (co_machine quiet_ops ?s) 100" by code_simp
  moreover have "takeWhile (\<lambda>c. c \<noteq> CHR ''.'') ''n1.site'' = ''n1''" by simp
  ultimately show ?thesis using pam_access[OF s] s by auto
qed

end
