(* ===== verification/CpusetLog.thy ===== *)
theory CpusetLog
  imports ListMemory
begin

text \<open>
  \<open>cpuset/log.c\<close>: the destinations of messages, and how a message is built in a buffer of 4096
  characters.
\<close>

section \<open>Destinations\<close>

text \<open>A logger is reached through its address, as \<open>log_update\<close> changes it in the list.\<close>

record logger =
  lg_level :: int
  lg_fn :: nat

record log_state =
  lg_list :: "addr clist option"
  lg_store :: "addr \<rightharpoonup> logger"

text \<open>
  \<open>p\<close> is the address \<open>malloc\<close> gives, if it gives one.  \<open>None\<close> when \<open>list_create\<close> returns NULL,
  which is not tested.
\<close>

definition log_add_dest ::
    "freelist \<times> freelist \<times> freelist \<Rightarrow> addr option \<Rightarrow> int \<Rightarrow> nat \<Rightarrow> log_state \<Rightarrow> (int \<times> log_state) option" where
  "log_add_dest mem p level fn st =
    (case (case lg_list st of
             Some l \<Rightarrow> Some l
           | None \<Rightarrow> (case mem of (lf, nf, itf) \<Rightarrow> fst (list_create True lf nf itf))) of
       None \<Rightarrow> (if p = None then Some (- 1, st) else None)
     | Some l \<Rightarrow>
         (case p of
            None \<Rightarrow> Some (- 1, st\<lparr>lg_list := Some l\<rparr>)
          | Some a \<Rightarrow>
              Some (0, st\<lparr>lg_list := Some (snd (list_push l a)),
                          lg_store := (lg_store st)(a \<mapsto> \<lparr>lg_level = level, lg_fn = fn\<rparr>)\<rparr>)))"

definition find_fn :: "log_state \<Rightarrow> addr \<Rightarrow> nat \<Rightarrow> int" where
  "find_fn st a fn = (case lg_store st a of None \<Rightarrow> 0 | Some l \<Rightarrow> of_bool (lg_fn l = fn))"

text \<open>\<open>None\<close> when there is no list yet: \<open>list_find_first\<close> is then called with NULL.\<close>

definition log_update :: "int \<Rightarrow> nat \<Rightarrow> log_state \<Rightarrow> (int \<times> log_state) option" where
  "log_update level fn st =
    (case lg_list st of
       None \<Rightarrow> None
     | Some l \<Rightarrow>
         (case list_find_first l (find_fn st) fn of
            None \<Rightarrow> None
          | Some None \<Rightarrow> Some (- 1, st)
          | Some (Some a) \<Rightarrow>
              Some (0, st\<lparr>lg_store := (lg_store st)(a := map_option (\<lambda>g. g\<lparr>lg_level := level\<rparr>) (lg_store st a))\<rparr>)))"

definition log_cleanup :: "log_state \<Rightarrow> log_state option" where
  "log_cleanup st = (case lg_list st of None \<Rightarrow> None | Some l \<Rightarrow> map_option (\<lambda>l1. st\<lparr>lg_list := Some l1\<rparr>) (list_destroy l))"

text \<open>The functions \<open>do_log_all\<close> calls, in order.\<close>

definition log_call :: "log_state \<Rightarrow> int \<Rightarrow> addr \<Rightarrow> nat list \<Rightarrow> nat list" where
  "log_call st level a calls =
    (case lg_store st a of None \<Rightarrow> calls | Some g \<Rightarrow> if lg_level g \<ge> level then calls @ [lg_fn g] else calls)"

definition do_log_all :: "log_state \<Rightarrow> int \<Rightarrow> (nat list \<times> log_state) option" where
  "do_log_all st level =
    (case lg_list st of
       None \<Rightarrow> None
     | Some l \<Rightarrow>
         (case list_iterator_create l of
            (None, l1) \<Rightarrow> None
          | (Some i, l1) \<Rightarrow>
              (case while_next list_next (log_call st level) l1 i [] of
                 None \<Rightarrow> None
               | Some (calls, l2) \<Rightarrow> Some (calls, st\<lparr>lg_list := Some (list_iterator_destroy l2 i)\<rparr>))))"

section \<open>Messages\<close>

text \<open>The text so far and the variable \<open>len\<close>; \<open>snprintf\<close> writes at most \<open>len - 1\<close> characters.\<close>

definition log_put :: "string \<Rightarrow> string \<times> nat \<Rightarrow> string \<times> nat" where
  "log_put t st =
    (case st of (buf, len) \<Rightarrow>
      if len = 0 then (buf, len)
      else if length t \<ge> len then (buf @ take (len - 1) t, 0) else (buf @ t, len - length t))"

definition log_text :: "string \<Rightarrow> string option \<Rightarrow> string option \<Rightarrow> string" where
  "log_text facility prefix msg =
    (let st0 = ([], 4096);
         st1 = (if facility = [] then st0 else log_put (facility @ '': '') st0);
         st2 = (case prefix of None \<Rightarrow> st1 | Some p \<Rightarrow> log_put (p @ '': '') st1);
         st3 = (case msg of None \<Rightarrow> st2 | Some m \<Rightarrow> log_put m st2)
     in if snd st3 = 0 then take 4094 (fst st3) @ ''+'' else fst st3)"

text \<open>The calls and the text they get; nothing happens before the first destination is added.\<close>

definition vlog_msg ::
    "string \<Rightarrow> string option \<Rightarrow> int \<Rightarrow> string option \<Rightarrow> log_state \<Rightarrow> ((nat \<times> string) list \<times> log_state) option" where
  "vlog_msg facility prefix level msg st =
    (if lg_list st = None then Some ([], st)
     else map_option (\<lambda>(calls, st1). (map (\<lambda>f. (f, log_text facility prefix msg)) calls, st1)) (do_log_all st level))"

text \<open>The message is complete, or its first 4094 characters and a \<open>+\<close>: the buffer is never overrun.\<close>

lemma log_puts:
  "fold log_put ts ([], 4096) =
    (if length (concat ts) < 4096 then (concat ts, 4096 - length (concat ts)) else (take 4095 (concat ts), 0))"
proof (induction ts rule: rev_induct)
  case (snoc t ts)
  let ?x = "length (concat ts)" and ?y = "length t"
  consider "?x + ?y < 4096" | "?x < 4096" "\<not> ?x + ?y < 4096" | "\<not> ?x < 4096" by linarith
  then show ?case
  proof cases
    case 1
    then have "\<not> 4096 - ?x \<le> ?y" "4096 - ?x \<noteq> 0" by simp_all
    then show ?thesis using snoc 1 by (simp add: log_put_def)
  next
    case 2
    have "take 4095 (concat ts @ t) = concat ts @ take (4095 - ?x) t" using 2 by simp
    moreover have "4096 - ?x \<le> ?y" "4096 - ?x \<noteq> 0" using 2 by simp_all
    ultimately show ?thesis using snoc 2 by (simp add: log_put_def)
  qed (use snoc in \<open>simp_all add: log_put_def\<close>)
qed simp

lemma log_text_result:
  "log_text facility prefix msg =
    (let full = (if facility = [] then [] else facility @ '': '') @ (case prefix of None \<Rightarrow> [] | Some p \<Rightarrow> p @ '': '') @
       (case msg of None \<Rightarrow> [] | Some m \<Rightarrow> m)
     in if length full \<le> 4095 then full else take 4094 full @ ''+'')"
proof -
  let ?ts = "(if facility = [] then [] else [facility @ '': '']) @ (case prefix of None \<Rightarrow> [] | Some p \<Rightarrow> [p @ '': '']) @
    (case msg of None \<Rightarrow> [] | Some m \<Rightarrow> [m])"
  obtain full where full: "concat ?ts = full" by blast
  have "log_text facility prefix msg =
      (case fold log_put ?ts ([], 4096) of (b, n) \<Rightarrow> if n = 0 then take 4094 b @ ''+'' else b)"
    by (simp add: log_text_def Let_def case_prod_beta split: option.split)
  then have "log_text facility prefix msg = (if length full \<le> 4095 then full else take 4094 full @ ''+'')"
    unfolding log_puts full by (cases "length full < 4096") simp_all
  moreover have "full = (if facility = [] then [] else facility @ '': '') @
      (case prefix of None \<Rightarrow> [] | Some p \<Rightarrow> p @ '': '') @ (case msg of None \<Rightarrow> [] | Some m \<Rightarrow> m)"
    unfolding full[symmetric] by (simp split: option.split)
  ultimately show ?thesis by (simp only: Let_def)
qed

end
