(* ===== verification/UseEnvSym.thy ===== *)
theory UseEnvSym
  imports PreserveEnv
begin

text \<open>
  The \<open>use-env\<close> plugin, first part: the syntax of its configuration files, the symbol tables and
  the items of \<open>use-env-parser.l\<close>, and the access to the environment of \<open>use-env-parser.y\<close>.
\<close>

section \<open>Syntax\<close>

text \<open>
  What the scanner and the parser that flex and bison generate deliver: statements in the order
  of the grammar, whose items are still as they are written.  A \<open>Word\<close> is a quoted string or what
  follows an operator, \<open>Num\<close>, \<open>Name\<close> and \<open>Sym\<close> are digits, a plain identifier and \<open>$id\<close> or \<open>${id}\<close>.
\<close>

datatype piece = Ch char | Home | Var string

datatype raw = Word "piece list" | Num string | Name string | Sym string

datatype comparison_op = LT | GT | LE | GE | EQ | NE

datatype assign_op = ASSIGN | COND_SET | APPEND | PREPEND

datatype test =
    TCmp raw comparison_op raw
  | TDefined raw
  | TItem raw
  | TParen test
  | TNot test
  | TMatch raw raw

datatype tests = TAnd tests test | TOr tests test | TOne test

datatype stmt =
    SEmpty
  | SAssign raw assign_op raw
  | SUnset raw
  | SSet raw raw
  | SDump raw
  | SDef raw raw
  | SUndef raw
  | SPrint raw
  | SInclude raw
  | SIf tests "stmt list" if_tail
  | STask "stmt list"
and if_tail =
    Endif
  | Else "stmt list"
  | ElseIf tests "stmt list" if_tail

section \<open>State\<close>

datatype sym_type = SYM_INT | SYM_STR

datatype item_type = TYPE_STR | TYPE_INT | TYPE_SYM

text \<open>A symbol; \<open>sy_low\<close> is the low half of its address, as the \<open>int\<close> the union \<open>val\<close> reads.\<close>

record sym =
  sy_name :: string
  sy_type :: sym_type
  sy_val :: int
  sy_string :: string
  sy_low :: int

datatype item_union = VStr | VNum int | VSym "sym option"

record lex_item =
  it_name :: string
  it_type :: item_type
  it_str :: string
  it_val :: item_union

record cond =
  c_val :: bool
  c_fallthru :: bool

text \<open>
  The variables of the parser: the environment of the process, the environment of the job as
  \<open>spank_getenv\<close> and its companions see it, \<open>ctx.ops\<close> (set or not) and \<open>ctx.in_task\<close>, the three
  symbol tables and the condition stack (lists of \<open>lib/list.c\<close>, as the sequences they hold, \<open>None\<close>
  when they do not exist), the symbols created so far, the lines printed, the level of messages.
\<close>

record 'e uenv =
  ue_env :: "string list"
  ue_job :: 'e
  ue_ops :: bool
  ue_in_task :: int
  ue_keytab :: "sym list option"
  ue_symtab :: "sym list option"
  ue_envtab :: "sym list option"
  ue_count :: nat
  ue_cond :: "cond list option"
  ue_out :: "string list"
  ue_verbose :: int

text \<open>
  The world around the parser: \<open>spank_getenv\<close> with the size of the buffer (\<open>None\<close> when it fails),
  \<open>spank_setenv\<close> (whose value may be NULL) with its overwrite flag, \<open>spank_unsetenv\<close>, the
  low half of the address of the n-th symbol, \<open>fnmatch (pattern, string, 0) == 0\<close>, and the
  files that can be read, parsed.
\<close>

record 'e world =
  w_get :: "'e \<Rightarrow> string \<Rightarrow> nat \<Rightarrow> string option"
  w_set :: "'e \<Rightarrow> string \<Rightarrow> string option \<Rightarrow> bool \<Rightarrow> bool \<times> 'e"
  w_unset :: "'e \<Rightarrow> string \<Rightarrow> bool \<times> 'e"
  w_addr :: "nat \<Rightarrow> int"
  w_fnmatch :: "string \<Rightarrow> string \<Rightarrow> bool"
  w_files :: "string \<Rightarrow> stmt list option"

section \<open>Environment\<close>

definition use_env_getenv :: "'e world \<Rightarrow> 'e \<Rightarrow> string \<Rightarrow> string option" where
  "use_env_getenv W e name = w_get W e name 4096"

definition use_env_unsetenv :: "'e world \<Rightarrow> string \<Rightarrow> 'e \<Rightarrow> int \<times> 'e" where
  "use_env_unsetenv W name e = (case w_unset W e name of (ok, e1) \<Rightarrow> (if ok then 0 else - 1, e1))"

definition use_env_setenv ::
    "'e world \<Rightarrow> string \<Rightarrow> string option \<Rightarrow> bool \<Rightarrow> 'e \<Rightarrow> int \<times> 'e" where
  "use_env_setenv W name v overwrite e =
    (case w_set W e name v overwrite of (ok, e1) \<Rightarrow> (if \<not> ok \<and> overwrite then - 1 else 0, e1))"

definition xgetenv :: "'e world \<Rightarrow> 'e uenv \<Rightarrow> string \<Rightarrow> string option" where
  "xgetenv W st name =
    (if ue_ops st then use_env_getenv W (ue_job st) name else env_get (ue_env st) name)"

definition xunsetenv :: "'e world \<Rightarrow> string \<Rightarrow> 'e uenv \<Rightarrow> int \<times> 'e uenv" where
  "xunsetenv W name st =
    (if ue_ops st
     then (case use_env_unsetenv W name (ue_job st) of (r, e) \<Rightarrow> (r, st\<lparr>ue_job := e\<rparr>))
     else (0, st\<lparr>ue_env := unsetenv name (ue_env st)\<rparr>))"

text \<open>\<open>setenv\<close> of the C library does not survive a NULL value.\<close>

definition xsetenv ::
    "'e world \<Rightarrow> string \<Rightarrow> string option \<Rightarrow> bool \<Rightarrow> 'e uenv \<Rightarrow> (int \<times> 'e uenv) option" where
  "xsetenv W name v overwrite st =
    (if ue_ops st
     then (case use_env_setenv W name v overwrite (ue_job st) of (r, e) \<Rightarrow>
             Some (r, st\<lparr>ue_job := e\<rparr>))
     else (case v of
             None \<Rightarrow> None
           | Some x \<Rightarrow>
               Some (0, if \<not> overwrite \<and> env_get (ue_env st) name \<noteq> None then st
                        else st\<lparr>ue_env := setenv name x (ue_env st)\<rparr>)))"

section \<open>Symbols\<close>

definition sym_find :: "string \<Rightarrow> sym \<Rightarrow> bool" where
  "sym_find name s \<longleftrightarrow> strcmp (sy_name s) name = 0"

definition sym_reset_value :: "string \<Rightarrow> sym \<Rightarrow> sym" where
  "sym_reset_value v s =
    (case strtol v of (n, rest) \<Rightarrow>
       s\<lparr>sy_string := v, sy_type := (if rest = [] then SYM_INT else SYM_STR),
         sy_val := (if rest = [] then long_to_int n else - 1)\<rparr>)"

definition sym_create :: "'e world \<Rightarrow> string \<Rightarrow> string \<Rightarrow> 'e uenv \<Rightarrow> sym \<times> 'e uenv" where
  "sym_create W name v st =
    (sym_reset_value v \<lparr>sy_name = name, sy_type = SYM_INT, sy_val = 0, sy_string = [],
       sy_low = w_addr W (ue_count st)\<rparr>,
     st\<lparr>ue_count := ue_count st + 1\<rparr>)"

definition sym_lookup :: "sym list option \<Rightarrow> string \<Rightarrow> sym option" where
  "sym_lookup t name = (case t of None \<Rightarrow> None | Some l \<Rightarrow> List.find (sym_find name) l)"

definition drop_named :: "string \<Rightarrow> sym list option \<Rightarrow> sym list option" where
  "drop_named name = map_option (filter (\<lambda>s. \<not> sym_find name s))"

definition sym_delete :: "string \<Rightarrow> 'e uenv \<Rightarrow> 'e uenv" where
  "sym_delete name st = st\<lparr>ue_symtab := drop_named name (ue_symtab st)\<rparr>"

definition env_cache_delete :: "string \<Rightarrow> 'e uenv \<Rightarrow> 'e uenv" where
  "env_cache_delete name st = st\<lparr>ue_envtab := drop_named name (ue_envtab st)\<rparr>"

text \<open>\<open>list_prepend\<close> on a table that is created when it does not exist.\<close>

definition prepend :: "sym \<Rightarrow> sym list option \<Rightarrow> sym list option" where
  "prepend s t = Some (case t of None \<Rightarrow> [s] | Some l \<Rightarrow> s # l)"

definition keyword_define :: "'e world \<Rightarrow> string \<Rightarrow> string \<Rightarrow> 'e uenv \<Rightarrow> sym \<times> 'e uenv" where
  "keyword_define W name v st =
    (case sym_create W name v st of (s, st1) \<Rightarrow>
       (s, st1\<lparr>ue_keytab := prepend s (drop_named name (ue_keytab st1))\<rparr>))"

text \<open>The symbol that is found is changed in place.\<close>

fun update_first :: "('a \<Rightarrow> bool) \<Rightarrow> ('a \<Rightarrow> 'a) \<Rightarrow> 'a list \<Rightarrow> 'a list" where
  "update_first P f [] = []"
| "update_first P f (x # xs) = (if P x then f x # xs else x # update_first P f xs)"

definition sym_define :: "'e world \<Rightarrow> string \<Rightarrow> string \<Rightarrow> 'e uenv \<Rightarrow> sym option \<times> 'e uenv" where
  "sym_define W name v st =
    (if sym_lookup (ue_keytab st) name \<noteq> None then (None, st)
     else (case sym_lookup (ue_symtab st) name of
             Some s \<Rightarrow>
               (Some (sym_reset_value v s),
                st\<lparr>ue_symtab := map_option (update_first (sym_find name) (sym_reset_value v)) (ue_symtab st)\<rparr>)
           | None \<Rightarrow>
               (case sym_create W name v st of (s, st1) \<Rightarrow>
                  (Some s, st1\<lparr>ue_symtab := prepend s (ue_symtab st1)\<rparr>))))"

definition env_sym_create :: "'e world \<Rightarrow> string \<Rightarrow> string \<Rightarrow> 'e uenv \<Rightarrow> sym \<times> 'e uenv" where
  "env_sym_create W name v st =
    (case sym_create W name v st of (s, st1) \<Rightarrow>
       (s, st1\<lparr>ue_envtab := prepend s (ue_envtab st1)\<rparr>))"

definition sym_of :: "'e world \<Rightarrow> string \<Rightarrow> 'e uenv \<Rightarrow> sym option \<times> 'e uenv" where
  "sym_of W name st =
    (case sym_lookup (ue_keytab st) name of
       Some s \<Rightarrow> (Some s, st)
     | None \<Rightarrow>
        (case sym_lookup (ue_symtab st) name of
           Some s \<Rightarrow> (Some s, st)
         | None \<Rightarrow>
            (case xgetenv W st name of
               None \<Rightarrow> (None, st)
             | Some v \<Rightarrow> (case env_sym_create W name v st of (s, st1) \<Rightarrow> (Some s, st1)))))"

definition symtab_destroy :: "'e uenv \<Rightarrow> 'e uenv" where
  "symtab_destroy st = st\<lparr>ue_symtab := None, ue_envtab := None\<rparr>"

definition keytab_destroy :: "'e uenv \<Rightarrow> 'e uenv" where
  "keytab_destroy st = st\<lparr>ue_keytab := None\<rparr>"

section \<open>Items\<close>

definition isalpha :: "char \<Rightarrow> bool" where
  "isalpha c \<longleftrightarrow> (let n = of_char c :: nat in 65 \<le> n \<and> n \<le> 90 \<or> 97 \<le> n \<and> n \<le> 122)"

definition is_valid_identifier :: "string \<Rightarrow> bool" where
  "is_valid_identifier s =
    (case s of
       [] \<Rightarrow> False
     | c # p \<Rightarrow> (isalpha c \<or> c = CHR ''_'') \<and> list_all (\<lambda>d. isalpha d \<or> isdigit d \<or> d = CHR ''_'') p)"

definition atoi :: "string \<Rightarrow> int" where
  "atoi s = long_to_int (fst (strtol s))"

text \<open>
  An item keeps copies of what \<open>val\<close> and \<open>str\<close> point to: no symbol changes between the scanning
  of an item and the end of its statement.
\<close>

definition lex_item_create :: "'e world \<Rightarrow> string \<Rightarrow> item_type \<Rightarrow> 'e uenv \<Rightarrow> lex_item \<times> 'e uenv" where
  "lex_item_create W name t st =
    (case t of
       TYPE_STR \<Rightarrow> (\<lparr>it_name = name, it_type = t, it_str = name, it_val = VStr\<rparr>, st)
     | TYPE_INT \<Rightarrow> (\<lparr>it_name = name, it_type = t, it_str = name, it_val = VNum (atoi name)\<rparr>, st)
     | TYPE_SYM \<Rightarrow>
        (case sym_of W name st of (s, st1) \<Rightarrow>
           (\<lparr>it_name = name, it_type = t,
              it_str = (case s of None \<Rightarrow> [] | Some x \<Rightarrow> sy_string x), it_val = VSym s\<rparr>, st1)))"

definition item_type_int :: "lex_item \<Rightarrow> bool" where
  "item_type_int i \<longleftrightarrow>
    it_type i = TYPE_INT \<or>
    it_type i = TYPE_SYM \<and> (case it_val i of VSym (Some s) \<Rightarrow> sy_type s = SYM_INT | _ \<Rightarrow> False)"

text \<open>\<open>item->val.num\<close>, whatever the item is, and \<open>item_val\<close> (\<open>None\<close> when its assertion fails).\<close>

definition val_num :: "lex_item \<Rightarrow> int" where
  "val_num i = (case it_val i of VNum n \<Rightarrow> n | VSym (Some s) \<Rightarrow> sy_low s | _ \<Rightarrow> 0)"

definition item_val :: "lex_item \<Rightarrow> int option" where
  "item_val i =
    (if \<not> item_type_int i then None
     else Some (if it_type i = TYPE_INT then val_num i
                else (case it_val i of VSym (Some s) \<Rightarrow> sy_val s | _ \<Rightarrow> 0)))"

definition item_strcmp :: "lex_item \<Rightarrow> lex_item \<Rightarrow> int" where
  "item_strcmp x y = strcmp (it_str x) (it_str y)"

definition item_cmp :: "comparison_op \<Rightarrow> lex_item \<Rightarrow> lex_item \<Rightarrow> int" where
  "item_cmp op x y =
    (case (item_val x, item_val y) of
       (Some m, Some n) \<Rightarrow>
         of_bool (case op of LT \<Rightarrow> m < n | GT \<Rightarrow> m > n | LE \<Rightarrow> m \<le> n | GE \<Rightarrow> m \<ge> n | EQ \<Rightarrow> m = n
                  | NE \<Rightarrow> val_num x \<noteq> val_num y)
     | _ \<Rightarrow>
        (case op of
           EQ \<Rightarrow> of_bool (item_strcmp x y = 0)
         | NE \<Rightarrow> of_bool (item_strcmp x y \<noteq> 0)
         | _ \<Rightarrow> - 1))"

section \<open>Scanning\<close>

text \<open>
  The text of a \<open>Word\<close>, collected in the buffer of 4096 characters; \<open>None\<close> when it does not fit.
  \<open>~\<close> is the home directory only at the start.
\<close>

fun scan_word :: "'e world \<Rightarrow> piece list \<Rightarrow> string \<Rightarrow> 'e uenv \<Rightarrow> (string \<times> 'e uenv) option" where
  "scan_word W [] buf st = (if length buf \<ge> 4096 then None else Some (buf, st))"
| "scan_word W (p # ps) buf st =
    (if length buf \<ge> 4096 then None
     else (case p of
             Ch c \<Rightarrow> scan_word W ps (buf @ [c]) st
           | Home \<Rightarrow>
               scan_word W ps
                 (buf @ (case env_get (ue_env st) ''HOME'' of
                           Some h \<Rightarrow> if buf = [] then h else ''~''
                         | None \<Rightarrow> ''~'')) st
           | Var name \<Rightarrow>
               (case sym_of W name st of
                  (None, st1) \<Rightarrow> scan_word W ps buf st1
                | (Some s, st1) \<Rightarrow> scan_word W ps (buf @ sy_string s) st1)))"

definition scan :: "'e world \<Rightarrow> raw \<Rightarrow> 'e uenv \<Rightarrow> (lex_item \<times> 'e uenv) option" where
  "scan W r st =
    (case r of
       Word ps \<Rightarrow>
         (case scan_word W ps [] st of
            None \<Rightarrow> None
          | Some (buf, st1) \<Rightarrow> Some (lex_item_create W buf TYPE_STR st1))
     | Num s \<Rightarrow> Some (lex_item_create W s TYPE_INT st)
     | Name s \<Rightarrow> Some (lex_item_create W s TYPE_STR st)
     | Sym s \<Rightarrow> Some (lex_item_create W s TYPE_SYM st))"

end
