(* ===== verification/UseEnvParse.thy ===== *)
theory UseEnvParse
  imports UseEnvSym
begin

text \<open>
  The \<open>use-env\<close> plugin, second part: the actions of \<open>use-env-parser.y\<close> with their condition
  stack, the files that include one another (\<open>use-env-parser.l\<close>), and the parser as the order in
  which the grammar runs the actions.  A function that gets the condition as an argument stands for
  one that asks \<open>condition ()\<close>; \<open>None\<close> is a run that does not survive.
\<close>

section \<open>The condition stack\<close>

definition cond_create :: "int \<Rightarrow> cond" where
  "cond_create v = \<lparr>c_val = odd v, c_fallthru = False\<rparr>"

definition list_peek_cond :: "'e uenv \<Rightarrow> cond option" where
  "list_peek_cond st = (case ue_cond st of Some (c # cs) \<Rightarrow> Some c | _ \<Rightarrow> None)"

definition set_fallthru :: "bool \<Rightarrow> 'e uenv \<Rightarrow> 'e uenv option" where
  "set_fallthru b st =
    (case ue_cond st of
       Some (c # cs) \<Rightarrow> Some (st\<lparr>ue_cond := Some (c\<lparr>c_fallthru := b\<rparr> # cs)\<rparr>)
     | _ \<Rightarrow> None)"

definition condition_fallthru :: "'e uenv \<Rightarrow> bool option" where
  "condition_fallthru st = map_option c_fallthru (list_peek_cond st)"

definition condition :: "'e uenv \<Rightarrow> bool option" where
  "condition st = map_option (\<lambda>c. c_val c \<and> \<not> c_fallthru c) (list_peek_cond st)"

definition condition_push_val :: "int \<Rightarrow> 'e uenv \<Rightarrow> 'e uenv option" where
  "condition_push_val v st =
    (case ue_cond st of None \<Rightarrow> None | Some cs \<Rightarrow> Some (st\<lparr>ue_cond := Some (cond_create v # cs)\<rparr>))"

definition condition_init :: "'e uenv \<Rightarrow> 'e uenv" where
  "condition_init st =
    st\<lparr>ue_cond := Some [cond_create (if ue_in_task st \<noteq> 0 then 0 else 1)]\<rparr>"

definition condition_fini :: "'e uenv \<Rightarrow> 'e uenv" where
  "condition_fini st = st\<lparr>ue_cond := None\<rparr>"

definition condition_pop :: "'e uenv \<Rightarrow> (int \<times> 'e uenv) option" where
  "condition_pop st =
    (case ue_cond st of
       None \<Rightarrow> None
     | Some [] \<Rightarrow> Some (- 1, st)
     | Some (c # cs) \<Rightarrow> Some (of_bool (c_val c), st\<lparr>ue_cond := Some cs\<rparr>))"

definition condition_pop_endif :: "'e uenv \<Rightarrow> 'e uenv option" where
  "condition_pop_endif st =
    (case condition_pop st of None \<Rightarrow> None | Some (r, st1) \<Rightarrow> set_fallthru False st1)"

definition condition_push_if :: "int \<Rightarrow> 'e uenv \<Rightarrow> 'e uenv option" where
  "condition_push_if v st =
    (case (if v \<noteq> 0 then set_fallthru True st else Some st) of
       None \<Rightarrow> None
     | Some st1 \<Rightarrow> condition_push_val v st1)"

definition condition_push_else :: "'e uenv \<Rightarrow> 'e uenv option" where
  "condition_push_else st =
    (case condition_pop st of
       None \<Rightarrow> None
     | Some (v, st1) \<Rightarrow>
        (case (condition st1, condition_fallthru st1) of
           (Some c, Some f) \<Rightarrow> condition_push_val (if c \<and> \<not> f then 1 else 0) st1
         | _ \<Rightarrow> None))"

definition condition_push_else_if :: "int \<Rightarrow> 'e uenv \<Rightarrow> 'e uenv option" where
  "condition_push_else_if v st =
    (case (condition st, condition_fallthru st) of
       (Some c, Some f) \<Rightarrow>
         (if \<not> c \<or> f then condition_push_val 0 st
          else (case (if v \<noteq> 0 then set_fallthru True st else Some st) of
                  None \<Rightarrow> None
                | Some st1 \<Rightarrow> condition_push_val v st1))
     | _ \<Rightarrow> None)"

definition in_task_begin :: "'e uenv \<Rightarrow> 'e uenv option" where
  "in_task_begin st = condition_push_val (ue_in_task st) st"

definition in_task_end :: "'e uenv \<Rightarrow> 'e uenv option" where
  "in_task_end st = map_option snd (condition_pop st)"

section \<open>Tests\<close>

definition do_fnmatch :: "'e world \<Rightarrow> bool \<Rightarrow> lex_item \<Rightarrow> lex_item \<Rightarrow> int" where
  "do_fnmatch W c x y = (if c then of_bool (w_fnmatch W (it_str x) (it_str y)) else 0)"

definition item_defined :: "bool \<Rightarrow> lex_item \<Rightarrow> int" where
  "item_defined c i =
    (if it_type i \<noteq> TYPE_SYM then - 1
     else if c then of_bool (it_val i \<noteq> VSym None) else 0)"

definition test_item :: "bool \<Rightarrow> lex_item \<Rightarrow> int" where
  "test_item c i =
    (if \<not> c then 0
     else (case item_val i of Some n \<Rightarrow> of_bool (n \<noteq> 0) | None \<Rightarrow> of_bool (it_str i \<noteq> [])))"

definition cmp_items :: "bool \<Rightarrow> comparison_op \<Rightarrow> lex_item \<Rightarrow> lex_item \<Rightarrow> int" where
  "cmp_items c op x y = (if \<not> c then 0 else item_cmp op x y)"

text \<open>
  A test gives its value and the state, a negative value when the parser gives up.  The first
  argument is \<open>condition ()\<close>, which no test changes.
\<close>

fun eval_test :: "'e world \<Rightarrow> bool \<Rightarrow> test \<Rightarrow> 'e uenv \<Rightarrow> (int \<times> 'e uenv) option" where
  "eval_test W c (TCmp a op b) st =
    (case scan W a st of
       None \<Rightarrow> None
     | Some (x, st1) \<Rightarrow>
        (case scan W b st1 of
           None \<Rightarrow> None
         | Some (y, st2) \<Rightarrow> Some (cmp_items c op x y, st2)))"
| "eval_test W c (TDefined a) st =
    (case scan W a st of None \<Rightarrow> None | Some (x, st1) \<Rightarrow> Some (item_defined c x, st1))"
| "eval_test W c (TItem a) st =
    (case scan W a st of None \<Rightarrow> None | Some (x, st1) \<Rightarrow> Some (test_item c x, st1))"
| "eval_test W c (TParen t) st = eval_test W c t st"
| "eval_test W c (TNot t) st =
    (case eval_test W c t st of
       None \<Rightarrow> None
     | Some (v, st1) \<Rightarrow>
         if v < 0 then Some (v, st1) else Some (if c then of_bool (v = 0) else 0, st1))"
| "eval_test W c (TMatch a b) st =
    (case scan W a st of
       None \<Rightarrow> None
     | Some (x, st1) \<Rightarrow>
        (case scan W b st1 of
           None \<Rightarrow> None
         | Some (y, st2) \<Rightarrow> Some (do_fnmatch W c y x, st2)))"

fun eval_tests :: "'e world \<Rightarrow> bool \<Rightarrow> tests \<Rightarrow> 'e uenv \<Rightarrow> (int \<times> 'e uenv) option" where
  "eval_tests W c (TOne t) st = eval_test W c t st"
| "eval_tests W c (TAnd ts t) st =
    (case eval_tests W c ts st of
       None \<Rightarrow> None
     | Some (v, st1) \<Rightarrow>
         if v < 0 then Some (v, st1)
         else (case eval_test W c t st1 of
                 None \<Rightarrow> None
               | Some (u, st2) \<Rightarrow> Some (if u < 0 then u else of_bool (v \<noteq> 0 \<and> u \<noteq> 0), st2)))"
| "eval_tests W c (TOr ts t) st =
    (case eval_tests W c ts st of
       None \<Rightarrow> None
     | Some (v, st1) \<Rightarrow>
         if v < 0 then Some (v, st1)
         else (case eval_test W c t st1 of
                 None \<Rightarrow> None
               | Some (u, st2) \<Rightarrow> Some (if u < 0 then u else of_bool (v \<noteq> 0 \<or> u \<noteq> 0), st2)))"

section \<open>Statements\<close>

definition env_var_add :: "nat \<Rightarrow> string \<Rightarrow> string \<Rightarrow> bool \<Rightarrow> string option" where
  "env_var_add len orig v at_end =
    (if length v \<ge> len then None
     else if orig = [] then Some v
     else if length v + length orig + 2 > len then None
     else Some (if at_end then orig @ '':'' @ v else v @ '':'' @ orig))"

definition env_var_set ::
    "'e world \<Rightarrow> bool \<Rightarrow> string \<Rightarrow> string \<Rightarrow> assign_op \<Rightarrow> 'e uenv \<Rightarrow> (int \<times> 'e uenv) option" where
  "env_var_set W c name v op st =
    (if \<not> is_valid_identifier name then Some (- 1, st)
     else if \<not> c then Some (0, st)
     else (let newval = (case (op = APPEND \<or> op = PREPEND, xgetenv W st name) of
                           (True, Some orig) \<Rightarrow> env_var_add 4096 orig v (op = APPEND)
                         | _ \<Rightarrow> Some v)
           in xsetenv W name newval (op \<noteq> COND_SET) (env_cache_delete name st)))"

definition env_var_unset :: "'e world \<Rightarrow> bool \<Rightarrow> string \<Rightarrow> 'e uenv \<Rightarrow> int \<times> 'e uenv" where
  "env_var_unset W c name st =
    (if \<not> is_valid_identifier name then (- 1, st)
     else if \<not> c then (0, st)
     else xunsetenv W name (env_cache_delete name st))"

definition set_parser_option :: "bool \<Rightarrow> string \<Rightarrow> lex_item \<Rightarrow> 'e uenv \<Rightarrow> int \<times> 'e uenv" where
  "set_parser_option c option x st =
    (if \<not> c then (0, st)
     else if strcmp option ''debuglevel'' \<noteq> 0 then (- 1, st)
     else (case item_val x of
             None \<Rightarrow> (- 1, st)
           | Some n \<Rightarrow> (0, st\<lparr>ue_verbose := n\<rparr>)))"

definition define_symbol :: "'e world \<Rightarrow> bool \<Rightarrow> string \<Rightarrow> lex_item \<Rightarrow> 'e uenv \<Rightarrow> int \<times> 'e uenv" where
  "define_symbol W c name x st =
    (if \<not> is_valid_identifier name then (- 1, st)
     else if \<not> c then (0, st)
     else (case sym_define W name (it_str x) st of (s, st1) \<Rightarrow> (of_bool (s \<noteq> None), st1)))"

text \<open>
  A statement without statements in it: the state, and whether the parser gives up.  What
  \<open>dump\<close> writes goes to the messages.
\<close>

definition run_simple :: "'e world \<Rightarrow> bool \<Rightarrow> stmt \<Rightarrow> 'e uenv \<Rightarrow> (bool \<times> 'e uenv) option" where
  "run_simple W c s st =
    (case s of
       SAssign a op b \<Rightarrow>
         (case scan W a st of
            None \<Rightarrow> None
          | Some (x, st1) \<Rightarrow>
             (case scan W b st1 of
                None \<Rightarrow> None
              | Some (y, st2) \<Rightarrow>
                  map_option (\<lambda>(r, st3). (False, st3)) (env_var_set W c (it_name x) (it_str y) op st2)))
     | SUnset a \<Rightarrow>
         (case scan W a st of
            None \<Rightarrow> None
          | Some (x, st1) \<Rightarrow> Some (False, snd (env_var_unset W c (it_name x) st1)))
     | SSet a b \<Rightarrow>
         (case scan W a st of
            None \<Rightarrow> None
          | Some (x, st1) \<Rightarrow>
             (case scan W b st1 of
                None \<Rightarrow> None
              | Some (y, st2) \<Rightarrow> Some (False, snd (set_parser_option c (it_name x) y st2))))
     | SDef a b \<Rightarrow>
         (case scan W a st of
            None \<Rightarrow> None
          | Some (x, st1) \<Rightarrow>
             (case scan W b st1 of
                None \<Rightarrow> None
              | Some (y, st2) \<Rightarrow>
                  (case define_symbol W c (it_name x) y st2 of (r, st3) \<Rightarrow> Some (r < 0, st3))))
     | SUndef a \<Rightarrow>
         (case scan W a st of
            None \<Rightarrow> None
          | Some (x, st1) \<Rightarrow> Some (False, if c then sym_delete (it_name x) st1 else st1))
     | SPrint a \<Rightarrow>
         (case scan W a st of
            None \<Rightarrow> None
          | Some (x, st1) \<Rightarrow>
              Some (False, if c then st1\<lparr>ue_out := ue_out st1 @ [it_str x]\<rparr> else st1))
     | SDump a \<Rightarrow> map_option (\<lambda>(x, st1). (False, st1)) (scan W a st)
     | _ \<Rightarrow> Some (False, st))"

section \<open>Included files\<close>

text \<open>\<open>dirname\<close> of the C library, and the path an include names.\<close>

definition dirname :: "string \<Rightarrow> string" where
  "dirname p =
    (let slash = (\<lambda>c. c = CHR ''/'');
         q = rev (dropWhile slash (rev p));
         d = rev (dropWhile slash (dropWhile (\<lambda>c. \<not> slash c) (rev q)))
     in if p \<noteq> [] \<and> q = [] then ''/''
        else if CHR ''/'' \<notin> set q then ''.''
        else if d = [] then ''/'' else d)"

definition full_path :: "string \<Rightarrow> string \<Rightarrow> string" where
  "full_path cur inc =
    (if inc \<noteq> [] \<and> hd inc = CHR ''/'' then inc
     else take 4095 ((if strcmp ''stdin'' cur = 0 then ''.'' else dirname cur) @ ''/'' @ inc))"

text \<open>
  The file an include switches to, \<open>None\<close> when it cannot: the argument \<open>includes\<close> is the list of
  the files that are being included, without \<open>cur\<close>, the current one.
\<close>

definition lex_include_push ::
    "'e world \<Rightarrow> string list \<Rightarrow> string \<Rightarrow> string \<Rightarrow> (string \<times> stmt list) option" where
  "lex_include_push W includes cur inc =
    (let f = full_path cur inc
     in case w_files W f of
          None \<Rightarrow> None
        | Some ss \<Rightarrow>
            if (\<exists>g \<in> set includes. strcmp g f = 0) \<or> length includes > 20 then None
            else Some (f, ss))"

lemma lex_include_push_depth: "lex_include_push W inc cur n = Some (f, ss) \<Longrightarrow> length inc \<le> 20"
  by (auto simp: lex_include_push_def Let_def split: option.splits if_splits)

section \<open>The parser\<close>

text \<open>
  The actions in the order of the grammar.  \<open>inc\<close> is the stack of files that are being
  included and \<open>cur\<close> the current file: the end of an included file pops the stack, so the
  statements behind an include run with the stack as it was.
\<close>

function run_stmts ::
    "'e world \<Rightarrow> string list \<Rightarrow> string \<Rightarrow> stmt list \<Rightarrow> 'e uenv \<Rightarrow> (bool \<times> 'e uenv) option"
  and run_stmt ::
    "'e world \<Rightarrow> string list \<Rightarrow> string \<Rightarrow> stmt \<Rightarrow> 'e uenv \<Rightarrow> (bool \<times> 'e uenv) option"
  and run_tail ::
    "'e world \<Rightarrow> string list \<Rightarrow> string \<Rightarrow> if_tail \<Rightarrow> 'e uenv \<Rightarrow> (bool \<times> 'e uenv) option" where
  "run_stmts W inc cur [] st = Some (False, st)"
| "run_stmts W inc cur (s # ss) st =
    (case run_stmt W inc cur s st of
       None \<Rightarrow> None
     | Some (stop, st1) \<Rightarrow> if stop then Some (True, st1) else run_stmts W inc cur ss st1)"
| "run_stmt W inc cur s st =
    (case s of
       SIf t body els \<Rightarrow>
         (case condition st of
            None \<Rightarrow> None
          | Some c \<Rightarrow>
             (case eval_tests W c t st of
                None \<Rightarrow> None
              | Some (v, st1) \<Rightarrow>
                  if v < 0 then Some (True, st1)
                  else (case condition_push_if v st1 of
                          None \<Rightarrow> None
                        | Some st2 \<Rightarrow>
                           (case run_stmts W inc cur body st2 of
                              None \<Rightarrow> None
                            | Some (stop, st3) \<Rightarrow>
                                if stop then Some (True, st3) else run_tail W inc cur els st3))))
     | STask body \<Rightarrow>
         (case in_task_begin st of
            None \<Rightarrow> None
          | Some st1 \<Rightarrow>
             (case run_stmts W inc cur body st1 of
                None \<Rightarrow> None
              | Some (stop, st2) \<Rightarrow>
                  if stop then Some (True, st2)
                  else map_option (Pair False) (in_task_end st2)))
     | SInclude a \<Rightarrow>
         (case scan W a st of
            None \<Rightarrow> None
          | Some (x, st1) \<Rightarrow>
             (case condition st1 of
                None \<Rightarrow> None
              | Some c \<Rightarrow>
                  if \<not> c then Some (False, st1)
                  else (case lex_include_push W inc cur (it_name x) of
                          None \<Rightarrow> Some (True, st1)
                        | Some (f, ss) \<Rightarrow> run_stmts W (cur # inc) f ss st1)))
     | SEmpty \<Rightarrow> Some (False, st)
     | _ \<Rightarrow> (case condition st of None \<Rightarrow> None | Some c \<Rightarrow> run_simple W c s st))"
| "run_tail W inc cur Endif st = map_option (Pair False) (condition_pop_endif st)"
| "run_tail W inc cur (Else body) st =
    (case condition_push_else st of
       None \<Rightarrow> None
     | Some st1 \<Rightarrow>
        (case run_stmts W inc cur body st1 of
           None \<Rightarrow> None
         | Some (stop, st2) \<Rightarrow>
             if stop then Some (True, st2) else map_option (Pair False) (condition_pop_endif st2)))"
| "run_tail W inc cur (ElseIf t body els) st =
    (case condition_pop st of
       None \<Rightarrow> None
     | Some (r, st1) \<Rightarrow>
        (case condition st1 of
           None \<Rightarrow> None
         | Some c \<Rightarrow>
            (case eval_tests W c t st1 of
               None \<Rightarrow> None
             | Some (v, st2) \<Rightarrow>
                 if v < 0 then Some (True, st2)
                 else (case condition_push_else_if v st2 of
                         None \<Rightarrow> None
                       | Some st3 \<Rightarrow>
                          (case run_stmts W inc cur body st3 of
                             None \<Rightarrow> None
                           | Some (stop, st4) \<Rightarrow>
                               if stop then Some (True, st4) else run_tail W inc cur els st4)))))"
  by pat_completeness auto

termination
  by (relation "measures
        [\<lambda>x. case x of Inl (W, inc, p, ss, st) \<Rightarrow> 21 - length inc
            | Inr (Inl (W, inc, p, s, st)) \<Rightarrow> 21 - length inc
            | Inr (Inr (W, inc, p, t, st)) \<Rightarrow> 21 - length inc,
         \<lambda>x. case x of Inl (W, inc, p, ss, st) \<Rightarrow> size_list size ss
            | Inr (Inl (W, inc, p, s, st)) \<Rightarrow> size s
            | Inr (Inr (W, inc, p, t, st)) \<Rightarrow> size t]")
    (auto dest: lex_include_push_depth)

end
