(* ===== verification/UseEnvLaws.thy ===== *)
theory UseEnvLaws
  imports UseEnvParse
begin

text \<open>
  What a configuration file of \<open>use-env\<close> means, without a condition stack: \<open>exec_stmts\<close> and its
  companions run the statements of a block that is on or not, and go through the branches of
  an \<open>if\<close> knowing whether one has been taken.  The actions of the parser agree with it.
\<close>

section \<open>Blocks\<close>

function exec_stmts ::
    "'e world \<Rightarrow> string list \<Rightarrow> string \<Rightarrow> bool \<Rightarrow> stmt list \<Rightarrow> 'e uenv \<Rightarrow> (bool \<times> 'e uenv) option"
  and exec_stmt ::
    "'e world \<Rightarrow> string list \<Rightarrow> string \<Rightarrow> bool \<Rightarrow> stmt \<Rightarrow> 'e uenv \<Rightarrow> (bool \<times> 'e uenv) option"
  and exec_tail ::
    "'e world \<Rightarrow> string list \<Rightarrow> string \<Rightarrow> bool \<Rightarrow> bool \<Rightarrow> if_tail \<Rightarrow> 'e uenv \<Rightarrow> (bool \<times> 'e uenv) option" where
  "exec_stmts W inc cur on [] st = Some (False, st)"
| "exec_stmts W inc cur on (s # ss) st =
    (case exec_stmt W inc cur on s st of
       None \<Rightarrow> None
     | Some (stop, st1) \<Rightarrow> if stop then Some (True, st1) else exec_stmts W inc cur on ss st1)"
| "exec_stmt W inc cur on s st =
    (case s of
       SIf t body els \<Rightarrow>
         (case eval_tests W on t st of
            None \<Rightarrow> None
          | Some (v, st1) \<Rightarrow>
              if v < 0 then Some (True, st1)
              else (case exec_stmts W inc cur (v \<noteq> 0) body st1 of
                      None \<Rightarrow> None
                    | Some (stop, st2) \<Rightarrow>
                        if stop then Some (True, st2) else exec_tail W inc cur on (v \<noteq> 0) els st2))
     | STask body \<Rightarrow> exec_stmts W inc cur (odd (ue_in_task st)) body st
     | SInclude a \<Rightarrow>
         (case scan W a st of
            None \<Rightarrow> None
          | Some (x, st1) \<Rightarrow>
              if \<not> on then Some (False, st1)
              else (case lex_include_push W inc cur (it_name x) of
                      None \<Rightarrow> Some (True, st1)
                    | Some (f, ss) \<Rightarrow> exec_stmts W (cur # inc) f on ss st1))
     | _ \<Rightarrow> run_simple W on s st)"
| "exec_tail W inc cur on taken Endif st = Some (False, st)"
| "exec_tail W inc cur on taken (Else body) st = exec_stmts W inc cur (on \<and> \<not> taken) body st"
| "exec_tail W inc cur on taken (ElseIf t body els) st =
    (case eval_tests W (on \<and> \<not> taken) t st of
       None \<Rightarrow> None
     | Some (v, st1) \<Rightarrow>
         if v < 0 then Some (True, st1)
         else (case exec_stmts W inc cur (v \<noteq> 0) body st1 of
                 None \<Rightarrow> None
               | Some (stop, st2) \<Rightarrow>
                   if stop then Some (True, st2)
                   else exec_tail W inc cur on (taken \<or> v \<noteq> 0) els st2))"
  by pat_completeness auto

termination
  by (relation "measures
        [\<lambda>x. case x of Inl (W, inc, p, l, ss, st) \<Rightarrow> 21 - length inc
            | Inr (Inl (W, inc, p, l, s, st)) \<Rightarrow> 21 - length inc
            | Inr (Inr (W, inc, p, l, k, t, st)) \<Rightarrow> 21 - length inc,
         \<lambda>x. case x of Inl (W, inc, p, l, ss, st) \<Rightarrow> size_list size ss
            | Inr (Inl (W, inc, p, l, s, st)) \<Rightarrow> size s
            | Inr (Inr (W, inc, p, l, k, t, st)) \<Rightarrow> size t]")
    (auto dest: lex_include_push_depth)

section \<open>Everything but the parser leaves the stack alone\<close>

named_theorems cond_free

lemma xgetenv_cond [cond_free]: "xgetenv W (st\<lparr>ue_cond := k\<rparr>) n = xgetenv W st n"
  by (simp add: xgetenv_def)

lemma xunsetenv_cond [cond_free]:
  "xunsetenv W n (st\<lparr>ue_cond := k\<rparr>) = apsnd (ue_cond_update (\<lambda>_. k)) (xunsetenv W n st)"
  by (auto simp: xunsetenv_def split: prod.split)

lemma xsetenv_cond [cond_free]:
  "xsetenv W n v b (st\<lparr>ue_cond := k\<rparr>) = map_option (apsnd (ue_cond_update (\<lambda>_. k))) (xsetenv W n v b st)"
  by (auto simp: xsetenv_def split: prod.split option.split)

lemma sym_create_cond [cond_free]:
  "sym_create W n v (st\<lparr>ue_cond := k\<rparr>) = apsnd (ue_cond_update (\<lambda>_. k)) (sym_create W n v st)"
  by (simp add: sym_create_def)

lemma sym_delete_cond [cond_free]: "sym_delete n (st\<lparr>ue_cond := k\<rparr>) = (sym_delete n st)\<lparr>ue_cond := k\<rparr>"
  by (simp add: sym_delete_def)

lemma env_cache_delete_cond [cond_free]:
  "env_cache_delete n (st\<lparr>ue_cond := k\<rparr>) = (env_cache_delete n st)\<lparr>ue_cond := k\<rparr>"
  by (simp add: env_cache_delete_def)

lemma sym_define_cond [cond_free]:
  "sym_define W n v (st\<lparr>ue_cond := k\<rparr>) = apsnd (ue_cond_update (\<lambda>_. k)) (sym_define W n v st)"
  by (auto simp: sym_define_def cond_free split: prod.split option.split)

lemma sym_of_cond [cond_free]:
  "sym_of W n (st\<lparr>ue_cond := k\<rparr>) = apsnd (ue_cond_update (\<lambda>_. k)) (sym_of W n st)"
  by (auto simp: sym_of_def env_sym_create_def cond_free split: prod.split option.split)

lemma lex_item_create_cond [cond_free]:
  "lex_item_create W n t (st\<lparr>ue_cond := k\<rparr>) = apsnd (ue_cond_update (\<lambda>_. k)) (lex_item_create W n t st)"
  by (auto simp: lex_item_create_def cond_free split: prod.split item_type.split)

lemma scan_word_cond [cond_free]:
  "scan_word W ps b (st\<lparr>ue_cond := k\<rparr>) = map_option (apsnd (ue_cond_update (\<lambda>_. k))) (scan_word W ps b st)"
  by (induction W ps b st rule: scan_word.induct)
    (auto simp: cond_free split: prod.split option.split piece.split)

lemma scan_cond [cond_free]:
  "scan W r (st\<lparr>ue_cond := k\<rparr>) = map_option (apsnd (ue_cond_update (\<lambda>_. k))) (scan W r st)"
  by (auto simp: scan_def cond_free split: prod.split option.split raw.split)

lemma eval_test_cond [cond_free]:
  "eval_test W c t (st\<lparr>ue_cond := k\<rparr>) = map_option (apsnd (ue_cond_update (\<lambda>_. k))) (eval_test W c t st)"
  by (induction t arbitrary: st) (auto simp: cond_free split: prod.split option.split)

lemma eval_tests_cond [cond_free]:
  "eval_tests W c t (st\<lparr>ue_cond := k\<rparr>) = map_option (apsnd (ue_cond_update (\<lambda>_. k))) (eval_tests W c t st)"
  by (induction t arbitrary: st) (auto simp: cond_free split: prod.split option.split)

lemma env_var_set_cond [cond_free]:
  "env_var_set W c n v op (st\<lparr>ue_cond := k\<rparr>) =
    map_option (apsnd (ue_cond_update (\<lambda>_. k))) (env_var_set W c n v op st)"
  by (simp add: env_var_set_def cond_free)

lemma env_var_unset_cond [cond_free]:
  "env_var_unset W c n (st\<lparr>ue_cond := k\<rparr>) = apsnd (ue_cond_update (\<lambda>_. k)) (env_var_unset W c n st)"
  by (simp add: env_var_unset_def cond_free)

lemma set_parser_option_cond [cond_free]:
  "set_parser_option c n x (st\<lparr>ue_cond := k\<rparr>) = apsnd (ue_cond_update (\<lambda>_. k)) (set_parser_option c n x st)"
  by (auto simp: set_parser_option_def split: option.split)

lemma define_symbol_cond [cond_free]:
  "define_symbol W c n x (st\<lparr>ue_cond := k\<rparr>) = apsnd (ue_cond_update (\<lambda>_. k)) (define_symbol W c n x st)"
  by (auto simp: define_symbol_def cond_free split: prod.split)

lemma run_simple_cond [cond_free]:
  "run_simple W c s (st\<lparr>ue_cond := k\<rparr>) = map_option (apsnd (ue_cond_update (\<lambda>_. k))) (run_simple W c s st)"
  by (cases s) (auto simp: run_simple_def cond_free option.map_comp o_def case_prod_unfold split: option.split)

section \<open>The value of a test\<close>

lemma eval_test_value: "eval_test W c t st = Some (v, st1) \<Longrightarrow> v \<le> of_bool c"
  by (induction t arbitrary: st v)
    (auto simp: cmp_items_def item_cmp_def item_defined_def test_item_def do_fnmatch_def
      split: if_splits option.splits prod.splits comparison_op.splits)

lemma eval_tests_value: "eval_tests W c t st = Some (v, st1) \<Longrightarrow> v \<le> of_bool c"
proof (induction t arbitrary: st v st1)
  case (TAnd ts t)
  then show ?case
    by (cases c) (force split: if_splits option.splits prod.splits dest: eval_test_value)+
next
  case (TOr ts t)
  then show ?case
    by (cases c) (force split: if_splits option.splits prod.splits dest: eval_test_value)+
qed (auto dest: eval_test_value)

section \<open>The parser agrees\<close>

text \<open>
  \<open>agrees k e r\<close>: the parser's result \<open>r\<close> is \<open>e\<close> with the stack \<open>k\<close>, or with any stack when
  the parser has given up.
\<close>

definition agrees :: "cond list option \<Rightarrow> (bool \<times> 'e uenv) option \<Rightarrow> (bool \<times> 'e uenv) option \<Rightarrow> bool" where
  "agrees k e r \<longleftrightarrow>
    (case e of
       None \<Rightarrow> r = None
     | Some (stop, st) \<Rightarrow> (\<exists>j. r = Some (stop, st\<lparr>ue_cond := j\<rparr>) \<and> (stop \<or> j = k)))"

lemma agrees_simps [simp]:
  "agrees k None r \<longleftrightarrow> r = None"
  "agrees k (Some (False, st)) r \<longleftrightarrow> r = Some (False, st\<lparr>ue_cond := k\<rparr>)"
  "agrees k (Some (True, st)) r \<longleftrightarrow> (\<exists>j. r = Some (True, st\<lparr>ue_cond := j\<rparr>))"
  by (simp_all add: agrees_def)

lemma agrees_map: "(\<And>st1. e \<noteq> Some (True, st1)) \<Longrightarrow> agrees k e (map_option (apsnd (ue_cond_update (\<lambda>_. k))) e)"
  by (auto simp: agrees_def split: option.split)

lemma agrees_stop: "agrees k (Some (stop, st)) (Some (stop, st\<lparr>ue_cond := k\<rparr>))"
  by (cases stop) auto

lemma agrees_cases:
  assumes "agrees k e r"
  obtains "e = None" "r = None"
  | st j where "e = Some (True, st)" "r = Some (True, st\<lparr>ue_cond := j\<rparr>)"
  | st where "e = Some (False, st)" "r = Some (False, st\<lparr>ue_cond := k\<rparr>)"
  using assms by (cases e) (auto simp: agrees_def)

lemmas stack_defs =
  list_peek_cond_def set_fallthru_def condition_fallthru_def condition_def condition_push_val_def
  cond_create_def condition_pop_def condition_pop_endif_def condition_push_if_def
  condition_push_else_def condition_push_else_if_def in_task_begin_def in_task_end_def

abbreviation block :: "bool \<Rightarrow> cond list \<Rightarrow> cond list option" where
  "block on cs \<equiv> Some (\<lparr>c_val = on, c_fallthru = False\<rparr> # cs)"

text \<open>The stack after the branches of an \<open>if\<close> so far.\<close>

abbreviation branch :: "bool \<Rightarrow> bool \<Rightarrow> bool \<Rightarrow> cond list \<Rightarrow> cond list option" where
  "branch b on taken cs \<equiv> Some (\<lparr>c_val = b, c_fallthru = False\<rparr> # \<lparr>c_val = on, c_fallthru = taken\<rparr> # cs)"

lemma condition_block [simp]: "condition (st\<lparr>ue_cond := block on cs\<rparr>) = Some on"
  by (simp add: stack_defs)

lemma push_if_block:
  assumes "0 \<le> v" "v \<le> 1"
  shows "condition_push_if v (st\<lparr>ue_cond := block on cs\<rparr>) = Some (st\<lparr>ue_cond := branch (v \<noteq> 0) on (v \<noteq> 0) cs\<rparr>)"
proof -
  from assms have "v = 0 \<or> v = 1" by auto
  then show ?thesis by (auto simp: stack_defs)
qed

lemma push_else_branch:
  "condition_push_else (st\<lparr>ue_cond := branch b on taken cs\<rparr>) =
    Some (st\<lparr>ue_cond := branch (on \<and> \<not> taken) on taken cs\<rparr>)"
  by (auto simp: stack_defs)

lemma pop_branch:
  "condition_pop (st\<lparr>ue_cond := branch b on taken cs\<rparr>) =
    Some (of_bool b, st\<lparr>ue_cond := Some (\<lparr>c_val = on, c_fallthru = taken\<rparr> # cs)\<rparr>)"
  by (simp add: stack_defs)

lemma condition_popped:
  "condition (st\<lparr>ue_cond := Some (\<lparr>c_val = on, c_fallthru = taken\<rparr> # cs)\<rparr>) = Some (on \<and> \<not> taken)"
  by (simp add: stack_defs)

lemma push_else_if_branch:
  assumes "0 \<le> v" "v \<le> of_bool (on \<and> \<not> taken)"
  shows "condition_push_else_if v (st\<lparr>ue_cond := Some (\<lparr>c_val = on, c_fallthru = taken\<rparr> # cs)\<rparr>) =
    Some (st\<lparr>ue_cond := branch (v \<noteq> 0) on (taken \<or> v \<noteq> 0) cs\<rparr>)"
proof -
  from assms have "v = 0 \<or> v = 1 \<and> on \<and> \<not> taken" by (cases on; cases taken) auto
  then show ?thesis by (auto simp: stack_defs)
qed

lemma pop_endif_branch:
  "condition_pop_endif (st\<lparr>ue_cond := branch b on taken cs\<rparr>) = Some (st\<lparr>ue_cond := block on cs\<rparr>)"
  by (simp add: stack_defs)

lemma in_task_block:
  "in_task_begin (st\<lparr>ue_cond := Some cs\<rparr>) = Some (st\<lparr>ue_cond := block (odd (ue_in_task st)) cs\<rparr>)"
  "in_task_end (st\<lparr>ue_cond := block b cs\<rparr>) = Some (st\<lparr>ue_cond := Some cs\<rparr>)"
  by (simp_all add: stack_defs)

lemmas agree_simps = cond_free push_if_block push_else_branch pop_branch condition_popped
  push_else_if_branch pop_endif_branch in_task_block

text \<open>A block that is run with a stack below it, and what follows it.\<close>

lemma agrees_then:
  assumes "agrees k e r"
    and "\<And>st. e = Some (False, st) \<Longrightarrow> agrees k' (f st) (g (st\<lparr>ue_cond := k\<rparr>))"
  shows "agrees k' (case e of None \<Rightarrow> None | Some (stop, st) \<Rightarrow> if stop then Some (True, st) else f st)
    (case r of None \<Rightarrow> None | Some (stop, st) \<Rightarrow> if stop then Some (True, st) else g st)"
  using assms by (auto elim!: agrees_cases)

lemma agrees_end:
  assumes "agrees k e r" and "\<And>st. e = Some (False, st) \<Longrightarrow> g (st\<lparr>ue_cond := k\<rparr>) = Some (st\<lparr>ue_cond := k'\<rparr>)"
  shows "agrees k' e
    (case r of None \<Rightarrow> None | Some (stop, st) \<Rightarrow> if stop then Some (True, st) else map_option (Pair False) (g st))"
  using assms by (auto elim!: agrees_cases)

lemma agrees_test:
  assumes "\<And>v st1. eval_tests W c t st = Some (v, st1) \<Longrightarrow> 0 \<le> v \<Longrightarrow> v \<le> of_bool c \<Longrightarrow>
      agrees k' (f v st1) (g v (st1\<lparr>ue_cond := k\<rparr>))"
  shows "agrees k'
    (case eval_tests W c t st of None \<Rightarrow> None
     | Some (v, st1) \<Rightarrow> if v < 0 then Some (True, st1) else f v st1)
    (case eval_tests W c t (st\<lparr>ue_cond := k\<rparr>) of None \<Rightarrow> None
     | Some (v, st1) \<Rightarrow> if v < 0 then Some (True, st1) else g v st1)"
  using assms eval_tests_value by (fastforce simp: cond_free split: option.split)

lemma run_simple_agrees:
  "agrees k (run_simple W c s st) (run_simple W c s (st\<lparr>ue_cond := k\<rparr>))"
  by (auto simp: agrees_def cond_free split: option.split)

lemma run_agrees:
  "agrees (block on cs) (exec_stmts W inc cur on ss st) (run_stmts W inc cur ss (st\<lparr>ue_cond := block on cs\<rparr>))"
  "agrees (block on cs) (exec_stmt W inc cur on s st) (run_stmt W inc cur s (st\<lparr>ue_cond := block on cs\<rparr>))"
  "agrees (block on cs) (exec_tail W inc cur on taken els st)
    (run_tail W inc cur els (st\<lparr>ue_cond := branch b on taken cs\<rparr>))"
proof (induction W inc cur on ss st and W inc cur on s st and W inc cur on taken els st
    arbitrary: cs and cs and cs b rule: exec_stmts_exec_stmt_exec_tail.induct)
  case (2 W inc cur on s ss st)
  show ?case
    by (simp only: exec_stmts.simps run_stmts.simps) (rule agrees_then, rule 2(1), rule 2(2), auto)
next
  case (3 W inc cur on s st)
  show ?case
  proof (cases s)
    case (SIf t body els)
    show ?thesis
      unfolding exec_stmt.simps run_stmt.simps SIf stmt.case condition_block option.case
    proof (rule agrees_test)
      fix v st1 assume v: "eval_tests W on t st = Some (v, st1)" "0 \<le> v" "v \<le> of_bool on"
      then have p: "condition_push_if v (st1\<lparr>ue_cond := block on cs\<rparr>) =
          Some (st1\<lparr>ue_cond := branch (v \<noteq> 0) on (v \<noteq> 0) cs\<rparr>)"
        by (intro push_if_block) (cases on; simp)+
      have n: "\<not> v < 0" using v(2) by simp
      note ih = 3(2,3)[OF SIf v(1) refl n]
      show "agrees (block on cs)
         (case exec_stmts W inc cur (v \<noteq> 0) body st1 of None \<Rightarrow> None
          | Some (stop, st2) \<Rightarrow> if stop then Some (True, st2) else exec_tail W inc cur on (v \<noteq> 0) els st2)
         (case condition_push_if v (st1\<lparr>ue_cond := block on cs\<rparr>) of None \<Rightarrow> None
          | Some st2 \<Rightarrow>
              (case run_stmts W inc cur body st2 of None \<Rightarrow> None
               | Some (stop, st3) \<Rightarrow> if stop then Some (True, st3) else run_tail W inc cur els st3))"
        unfolding p option.case by (rule agrees_then[OF ih(1)], rule ih(2)) auto
    qed
  next
    case (STask body)
    show ?thesis
      unfolding exec_stmt.simps run_stmt.simps STask stmt.case
      by (simp add: in_task_block(1)) (rule agrees_end[OF 3(4)[OF STask]], simp add: in_task_block)
  next
    case (SInclude a)
    show ?thesis
      using 3(1)[OF SInclude]
      by (auto simp: SInclude cond_free split: option.split)
  next
    case SEmpty
    then show ?thesis by (simp add: run_simple_def)
  qed (auto simp: run_simple_agrees)
next
  case (5 W inc cur on taken body st)
  show ?case
    unfolding exec_tail.simps run_tail.simps push_else_branch option.case
    by (rule agrees_end[OF 5]) (simp add: pop_endif_branch)
next
  case (6 W inc cur on taken t body els st)
  show ?case
    unfolding exec_tail.simps run_tail.simps pop_branch option.case prod.case condition_popped
  proof (rule agrees_test)
    fix v st1 assume v: "eval_tests W (on \<and> \<not> taken) t st = Some (v, st1)" "0 \<le> v" "v \<le> of_bool (on \<and> \<not> taken)"
    note p = push_else_if_branch[OF v(2,3)]
    have n: "\<not> v < 0" using v(2) by simp
    note ih = 6[OF v(1) refl n]
    show "agrees (block on cs)
       (case exec_stmts W inc cur (v \<noteq> 0) body st1 of None \<Rightarrow> None
        | Some (stop, st2) \<Rightarrow>
            if stop then Some (True, st2) else exec_tail W inc cur on (taken \<or> v \<noteq> 0) els st2)
       (case condition_push_else_if v (st1\<lparr>ue_cond := Some (\<lparr>c_val = on, c_fallthru = taken\<rparr> # cs)\<rparr>) of
          None \<Rightarrow> None
        | Some st3 \<Rightarrow>
            (case run_stmts W inc cur body st3 of None \<Rightarrow> None
             | Some (stop, st4) \<Rightarrow> if stop then Some (True, st4) else run_tail W inc cur els st4))"
      unfolding p option.case by (rule agrees_then[OF ih(1)], rule ih(2)) auto
  qed
qed (simp_all add: agree_simps)

end
