(* ===== verification/UseEnvDead.thy ===== *)
theory UseEnvDead
  imports UseEnvLaws
begin

text \<open>
  What a block of a \<open>use-env\<close> file that is not live does: nothing that can be seen; and what no
  statement does: change a keyword.
\<close>

section \<open>Reading\<close>

text \<open>Everything but the cache of environment variables, the count of symbols and the stack.\<close>

definition visible ::
    "'e uenv \<Rightarrow> string list \<times> 'e \<times> bool \<times> int \<times> sym list option \<times> sym list option \<times> string list \<times> int" where
  "visible st = (ue_env st, ue_job st, ue_ops st, ue_in_task st, ue_keytab st, ue_symtab st, ue_out st, ue_verbose st)"

lemma visible_updates [simp]:
  "visible (st\<lparr>ue_envtab := t\<rparr>) = visible st"
  "visible (st\<lparr>ue_count := k\<rparr>) = visible st"
  "visible (st\<lparr>ue_cond := c\<rparr>) = visible st"
  by (simp_all add: visible_def)

lemma visible_eqD:
  "visible st1 = visible st \<Longrightarrow> ue_env st1 = ue_env st \<and> ue_job st1 = ue_job st \<and> ue_ops st1 = ue_ops st \<and>
    ue_in_task st1 = ue_in_task st \<and> ue_keytab st1 = ue_keytab st \<and> ue_symtab st1 = ue_symtab st"
  by (simp add: visible_def)

lemma sym_of_visible: "sym_of W n st = (s, st1) \<Longrightarrow> visible st1 = visible st"
  by (auto simp: sym_of_def env_sym_create_def sym_create_def split: option.splits prod.splits)

lemma lex_item_create_visible: "lex_item_create W n t st = (x, st1) \<Longrightarrow> visible st1 = visible st"
  by (auto simp: lex_item_create_def split: item_type.splits prod.splits dest: sym_of_visible)

lemma scan_word_visible: "scan_word W ps b st = Some (buf, st1) \<Longrightarrow> visible st1 = visible st"
proof (induction W ps b st rule: scan_word.induct)
  case (2 W p ps buf st)
  then show ?case
    by (auto split: if_splits piece.splits option.splits prod.splits dest: sym_of_visible)
qed (auto split: if_splits)

lemma scan_visible: "scan W r st = Some (x, st1) \<Longrightarrow> visible st1 = visible st"
  by (auto simp: scan_def split: raw.splits option.splits prod.splits
      dest!: lex_item_create_visible scan_word_visible)

lemma eval_test_visible: "eval_test W c t st = Some (v, st1) \<Longrightarrow> visible st1 = visible st"
  by (induction t arbitrary: st v st1)
    (auto split: option.splits prod.splits if_splits dest!: scan_visible)

lemma eval_tests_visible: "eval_tests W c t st = Some (v, st1) \<Longrightarrow> visible st1 = visible st"
  by (induction t arbitrary: st v st1)
    (auto split: option.splits prod.splits if_splits dest!: eval_test_visible)

lemma run_simple_dead: "run_simple W False s st = Some (stop, st1) \<Longrightarrow> visible st1 = visible st"
  by (cases s)
    (auto simp: run_simple_def env_var_set_def env_var_unset_def set_parser_option_def define_symbol_def
      split: option.splits prod.splits if_splits dest!: scan_visible)

section \<open>Blocks that are not live\<close>

fun has_task :: "stmt \<Rightarrow> bool" and tail_task :: "if_tail \<Rightarrow> bool" where
  "has_task (STask ss) = True"
| "has_task (SIf t ss els) = (list_ex has_task ss \<or> tail_task els)"
| "has_task s = False"
| "tail_task Endif = False"
| "tail_task (Else ss) = list_ex has_task ss"
| "tail_task (ElseIf t ss els) = (list_ex has_task ss \<or> tail_task els)"

text \<open>No block in it will be live: it has no task block, or those are not for this context.\<close>

abbreviation quiet :: "'e uenv \<Rightarrow> bool \<Rightarrow> bool" where
  "quiet st tasks \<equiv> even (ue_in_task st) \<or> \<not> tasks"

lemma exec_dead:
  "exec_stmts W inc cur on ss st = Some (stop, st1) \<Longrightarrow> \<not> on \<Longrightarrow> quiet st (list_ex has_task ss) \<Longrightarrow>
    visible st1 = visible st"
  "exec_stmt W inc cur on s st = Some (stop, st1) \<Longrightarrow> \<not> on \<Longrightarrow> quiet st (has_task s) \<Longrightarrow>
    visible st1 = visible st"
  "exec_tail W inc cur on taken els st = Some (stop, st1) \<Longrightarrow> \<not> on \<Longrightarrow> quiet st (tail_task els) \<Longrightarrow>
    visible st1 = visible st"
proof (induction W inc cur on ss st and W inc cur on s st and W inc cur on taken els st
    arbitrary: stop st1 and stop st1 and stop st1 rule: exec_stmts_exec_stmt_exec_tail.induct)
  case (2 W inc cur on s ss st)
  then show ?case
    by (auto split: option.splits prod.splits if_splits dest!: visible_eqD)
next
  case (3 W inc cur on s st)
  show ?case
  proof (cases s)
    case (SIf t body els)
    with 3(5,6) obtain v st2 where t: "eval_tests W on t st = Some (v, st2)"
      by (auto split: option.splits)
    show ?thesis
    proof (cases "v < 0")
      case True
      with t 3(5) SIf show ?thesis by (auto dest: eval_tests_visible)
    next
      case False
      with eval_tests_value[OF t] 3(6) have v: "v = 0" by simp
      note ih = 3(2)[OF SIf t refl] 3(3)[OF SIf t refl]
      have vis: "visible st2 = visible st" by (rule eval_tests_visible[OF t])
      from 3(5) SIf t v obtain b st3 where b: "exec_stmts W inc cur (v \<noteq> 0) body st2 = Some (b, st3)"
        by (auto split: option.splits)
      with ih(1)[OF False b] v SIf 3(7) vis have vis3: "visible st3 = visible st"
        by (auto dest!: visible_eqD)
      show ?thesis
      proof (cases b)
        case True
        with b v t 3(5) SIf vis3 show ?thesis by auto
      next
        case b0: False
        with 3(5) SIf t v b have "exec_tail W inc cur on (v \<noteq> 0) els st3 = Some (stop, st1)" by auto
        from ih(2)[OF False b refl b0 this] 3(6,7) SIf vis3 show ?thesis
          by (auto dest: visible_eqD)
      qed
    qed
  next
    case (STask body)
    with 3(7) have "even (ue_in_task st)" by simp
    with 3(4)[OF STask, of stop st1] 3(5) STask show ?thesis by simp
  next
    case (SInclude a)
    with 3(5,6) show ?thesis by (auto split: option.splits dest: scan_visible)
  qed (use 3(5,6) in \<open>auto dest: run_simple_dead\<close>)
next
  case (5 W inc cur on taken body st)
  then show ?case by simp
next
  case (6 W inc cur on taken t body els st)
  from 6(3) obtain v st2 where t: "eval_tests W (on \<and> \<not> taken) t st = Some (v, st2)"
    by (auto split: option.splits)
  show ?case
  proof (cases "v < 0")
    case True
    with t 6(3) show ?thesis by (auto dest: eval_tests_visible)
  next
    case False
    with eval_tests_value[OF t] 6(4) have v: "v = 0" by simp
    have vis: "visible st2 = visible st" by (rule eval_tests_visible[OF t])
    from 6(3) t v obtain b st3 where b: "exec_stmts W inc cur (v \<noteq> 0) body st2 = Some (b, st3)"
      by (auto split: option.splits)
    with 6(1)[OF t refl False b] v 6(5) vis have vis3: "visible st3 = visible st"
      by (auto dest!: visible_eqD)
    show ?thesis
    proof (cases b)
      case True
      with b v t 6(3) vis3 show ?thesis by auto
    next
      case b0: False
      with 6(3) t v b have "exec_tail W inc cur on (taken \<or> v \<noteq> 0) els st3 = Some (stop, st1)" by auto
      from 6(2)[OF t refl False b refl b0 this] 6(4,5) vis3 show ?thesis
        by (auto dest: visible_eqD)
    qed
  qed
qed auto

section \<open>Keywords\<close>

named_theorems keytab_kept

lemma xunsetenv_keytab [keytab_kept]: "ue_keytab (snd (xunsetenv W n st)) = ue_keytab st"
  by (auto simp: xunsetenv_def split: prod.splits)

lemma xsetenv_keytab: "xsetenv W n v b st = Some (r, st1) \<Longrightarrow> ue_keytab st1 = ue_keytab st"
  by (auto simp: xsetenv_def split: if_splits prod.splits option.splits)

lemma cache_keytab [keytab_kept]:
  "ue_keytab (env_cache_delete n st) = ue_keytab st" "ue_keytab (sym_delete n st) = ue_keytab st"
  by (simp_all add: env_cache_delete_def sym_delete_def)

lemma sym_define_keytab: "sym_define W n v st = (r, st1) \<Longrightarrow> ue_keytab st1 = ue_keytab st"
  by (auto simp: sym_define_def sym_create_def split: if_splits option.splits)

lemma env_var_set_keytab: "env_var_set W c n v op st = Some (r, st1) \<Longrightarrow> ue_keytab st1 = ue_keytab st"
  by (auto simp: env_var_set_def Let_def keytab_kept split: if_splits dest: xsetenv_keytab)

lemma commands_keytab [keytab_kept]:
  "ue_keytab (snd (env_var_unset W c n st)) = ue_keytab st"
  "ue_keytab (snd (set_parser_option c n x st)) = ue_keytab st"
  by (auto simp: env_var_unset_def set_parser_option_def keytab_kept split: option.splits)

lemma define_symbol_keytab: "define_symbol W c n x st = (r, st1) \<Longrightarrow> ue_keytab st1 = ue_keytab st"
  by (auto simp: define_symbol_def split: if_splits prod.splits dest: sym_define_keytab)

lemma visible_keytab: "visible st1 = visible st \<Longrightarrow> ue_keytab st1 = ue_keytab st"
  by (simp add: visible_def)

lemmas scan_keytab = scan_visible[THEN visible_keytab]

lemma run_simple_keytab: "run_simple W c s st = Some (stop, st1) \<Longrightarrow> ue_keytab st1 = ue_keytab st"
  by (cases s)
    (auto simp: run_simple_def keytab_kept split: option.splits prod.splits if_splits
      dest!: scan_keytab env_var_set_keytab define_symbol_keytab)

text \<open>
  The interface between the statements and the blocks: what scanning, tests and simple statements
  keep, every block keeps.
\<close>

locale kept =
  fixes W :: "'e world" and P :: "'e uenv \<Rightarrow> bool"
  assumes scan_kept: "scan W a st = Some (x, st1) \<Longrightarrow> P st \<Longrightarrow> P st1"
    and tests_kept: "eval_tests W c t st = Some (v, st1) \<Longrightarrow> P st \<Longrightarrow> P st1"
    and simple_kept: "run_simple W c s st = Some (stop, st1) \<Longrightarrow> P st \<Longrightarrow> P st1"
begin

lemma branch_kept:
  assumes t: "eval_tests W c t st = Some (v, st2)" and P: "P st"
    and r: "(if v < 0 then Some (True, st2) else
        (case e of None \<Rightarrow> None | Some (stop, st3) \<Rightarrow> if stop then Some (True, st3) else f st3)) = Some (stop, st1)"
    and e: "\<And>b st3. \<not> v < 0 \<Longrightarrow> e = Some (b, st3) \<Longrightarrow> P st2 \<Longrightarrow> P st3"
    and f: "\<And>b st3. \<not> v < 0 \<Longrightarrow> e = Some (b, st3) \<Longrightarrow> \<not> b \<Longrightarrow> f st3 = Some (stop, st1) \<Longrightarrow> P st3 \<Longrightarrow> P st1"
  shows "P st1"
proof -
  have p: "P st2" by (rule tests_kept[OF t P])
  show ?thesis
  proof (cases "v < 0")
    case True
    with r p show ?thesis by simp
  next
    case False
    with r obtain b st3 where b: "e = Some (b, st3)" by (auto split: option.splits)
    have p3: "P st3" by (rule e[OF False b p])
    show ?thesis
    proof (cases b)
      case True
      with r b False p3 show ?thesis by simp
    next
      case b0: False
      with r b False have "f st3 = Some (stop, st1)" by simp
      from f[OF False b b0 this p3] show ?thesis .
    qed
  qed
qed

lemma exec_kept:
  "V = W \<Longrightarrow> exec_stmts V inc cur on ss st = Some (stop, st1) \<Longrightarrow> P st \<Longrightarrow> P st1"
  "V = W \<Longrightarrow> exec_stmt V inc cur on s st = Some (stop, st1) \<Longrightarrow> P st \<Longrightarrow> P st1"
  "V = W \<Longrightarrow> exec_tail V inc cur on taken els st = Some (stop, st1) \<Longrightarrow> P st \<Longrightarrow> P st1"
proof (induction V inc cur on ss st and V inc cur on s st and V inc cur on taken els st
    arbitrary: stop st1 and stop st1 and stop st1 rule: exec_stmts_exec_stmt_exec_tail.induct)
  case (2 V inc cur on s ss st)
  from 2(4) obtain b st2 where b: "exec_stmt V inc cur on s st = Some (b, st2)"
    by (auto split: option.splits)
  with 2(1)[OF 2(3) b 2(5)] 2(2)[OF b refl _ 2(3)] 2(4) show ?case by (auto split: if_splits)
next
  case (3 V inc cur on s st)
  show ?case
  proof (cases s)
    case (SIf t body els)
    from 3(6) SIf obtain v st2 where t: "eval_tests V on t st = Some (v, st2)"
      by (auto split: option.splits)
    show ?thesis
    proof (rule branch_kept[OF t[unfolded 3(5)] 3(7)])
      show "(if v < 0 then Some (True, st2) else
          (case exec_stmts V inc cur (v \<noteq> 0) body st2 of None \<Rightarrow> None
           | Some (stop, st3) \<Rightarrow> if stop then Some (True, st3) else exec_tail V inc cur on (v \<noteq> 0) els st3))
        = Some (stop, st1)"
        using 3(6) SIf t by simp
    qed (rule 3(2)[OF SIf t refl _ 3(5)], assumption+, rule 3(3)[OF SIf t refl _ _ refl _ 3(5)], assumption+)
  next
    case (STask body)
    with 3(4)[OF STask 3(5), of stop st1] 3(6,7) show ?thesis by simp
  next
    case (SInclude a)
    from 3(6) SInclude obtain x st2 where x: "scan V a st = Some (x, st2)"
      by (auto split: option.splits)
    have p: "P st2" by (rule scan_kept[OF x[unfolded 3(5)] 3(7)])
    from 3(6) SInclude x p 3(1)[OF SInclude x refl _ _ refl 3(5) _ p] show ?thesis
      by (auto split: if_splits option.splits)
  qed (use 3(5,6,7) simple_kept in auto)
next
  case (5 V inc cur on taken body st)
  then show ?case by simp
next
  case (6 V inc cur on taken t body els st)
  from 6(4) obtain v st2 where t: "eval_tests V (on \<and> \<not> taken) t st = Some (v, st2)"
    by (auto split: option.splits)
  show ?case
  proof (rule branch_kept[OF t[unfolded 6(3)] 6(5)])
    show "(if v < 0 then Some (True, st2) else
        (case exec_stmts V inc cur (v \<noteq> 0) body st2 of None \<Rightarrow> None
         | Some (stop, st3) \<Rightarrow>
             if stop then Some (True, st3) else exec_tail V inc cur on (taken \<or> v \<noteq> 0) els st3))
      = Some (stop, st1)"
      using 6(4) t by simp
  qed (rule 6(1)[OF t refl _ 6(3)], assumption+, rule 6(2)[OF t refl _ _ refl _ 6(3)], assumption+)
qed auto

end

interpretation keyword_table: kept W "\<lambda>st. ue_keytab st = K" for W :: "'e world" and K
  by unfold_locales
    (simp_all add: scan_keytab eval_tests_visible[THEN visible_keytab] run_simple_keytab)

section \<open>From blocks to the parser\<close>

text \<open>A parser at the start of a statement: the block it is in, and no branch half taken.\<close>

lemma run_stmts_exec:
  assumes "ue_cond st = Some (c # cs)" "\<not> c_fallthru c"
  shows "agrees (ue_cond st) (exec_stmts W inc cur (c_val c) ss st) (run_stmts W inc cur ss st)"
proof -
  have k: "ue_cond st = block (c_val c) cs" using assms by (cases c) simp
  then have "st\<lparr>ue_cond := block (c_val c) cs\<rparr> = st" by simp
  with run_agrees(1)[of "c_val c" cs W inc cur ss st] k show ?thesis by simp
qed

lemma run_stmts_obtain:
  assumes "ue_cond st = Some (c # cs)" "\<not> c_fallthru c" "run_stmts W inc cur ss st = Some (stop, st1)"
  obtains st2 j where "exec_stmts W inc cur (c_val c) ss st = Some (stop, st2)" "st1 = st2\<lparr>ue_cond := j\<rparr>"
  using run_stmts_exec[OF assms(1,2), of W inc cur ss] assms(3) by (auto elim!: agrees_cases)

end
