(* ===== verification/UseEnvProps.thy ===== *)
theory UseEnvProps
  imports UseEnvDead PreserveEnvProps
begin

text \<open>
  The properties of the configuration files of \<open>use-env\<close>: blocks, what is ignored in a context,
  assignments, keywords; and what the comparison \<open>!=\<close> compares.
\<close>

text \<open>A world and a state on which the properties are run: the environment of a job is a map.\<close>

definition demo_world :: "(string \<Rightarrow> string option) world" where
  "demo_world =
    \<lparr>w_get = \<lambda>e n len. (case e n of None \<Rightarrow> None | Some v \<Rightarrow> if length v < len then Some v else None),
     w_set = \<lambda>e n v ow. (ow \<or> e n = None,
       case v of None \<Rightarrow> e | Some x \<Rightarrow> if ow \<or> e n = None then e(n \<mapsto> x) else e),
     w_unset = \<lambda>e n. (True, e(n := None)),
     w_addr = \<lambda>k. 16 * int k + 4096,
     w_fnmatch = (\<lambda>p s. p = s),
     w_files = (\<lambda>f. if f = ''/etc/b'' then Some [SAssign (Name ''B'') ASSIGN (Word [Ch CHR ''y''])] else None)\<rparr>"

definition demo_state :: "bool \<Rightarrow> (string \<Rightarrow> string option) uenv" where
  "demo_state on =
    \<lparr>ue_env = [''A=5''], ue_job = (\<lambda>_. None), ue_ops = False, ue_in_task = 0,
     ue_keytab = Some [\<lparr>sy_name = ''K'', sy_type = SYM_INT, sy_val = 2, sy_string = ''2'', sy_low = 64\<rparr>],
     ue_symtab = None, ue_envtab = None, ue_count = 0, ue_cond = Some [cond_create (of_bool on)],
     ue_out = [], ue_verbose = 0\<rparr>"

text \<open>\<open>if ($A < 3) A = 1 else if ($K == 2) include b else unset A endif\<close>\<close>

definition demo_file :: "stmt list" where
  "demo_file =
    [SIf (TOne (TCmp (Sym ''A'') LT (Num ''3''))) [SAssign (Name ''A'') ASSIGN (Word [Ch CHR ''1''])]
       (ElseIf (TOne (TCmp (Sym ''K'') EQ (Num ''2''))) [SInclude (Word [Ch CHR ''b''])]
          (Else [SUnset (Name ''A'')]))]"

definition env_after :: "(bool \<times> 'e uenv) option \<Rightarrow> (bool \<times> string list) option" where
  "env_after r = map_option (\<lambda>(stop, st). (stop, ue_env st)) r"

section \<open>Blocks\<close>

text \<open>C4: Whatever a file contains, the condition stack of the parser makes it run the statements of a
  live block, of the first branch of an \<open>if\<close> in it whose test holds, of the \<open>else\<close> branch when none
  does, and of the files a live statement includes: the actions of the parser give the state that
  the statements mean (\<open>exec_stmts\<close>), give up exactly when it says so, and otherwise leave the stack
  as it was.\<close>

theorem use_env_blocks:
  assumes "ue_cond st = Some (c # cs)" "\<not> c_fallthru c"
  shows "case exec_stmts W inc cur (c_val c) ss st of
      None \<Rightarrow> run_stmts W inc cur ss st = None
    | Some (stop, st1) \<Rightarrow>
        \<exists>k. run_stmts W inc cur ss st = Some (stop, st1\<lparr>ue_cond := k\<rparr>) \<and> (stop \<or> k = ue_cond st)"
  using run_stmts_exec[OF assms, of W inc cur ss] by (auto elim!: agrees_cases)

theorem use_env_blocks_witness:
  "env_after (run_stmts demo_world [] ''/etc/a'' demo_file (demo_state True)) =
    Some (False, [''A=5'', ''B=y''])"
proof -
  have "env_after (exec_stmts demo_world [] ''/etc/a'' True demo_file (demo_state True)) =
      Some (False, [''A=5'', ''B=y''])"
    by code_simp
  then show ?thesis
    using use_env_blocks[of "demo_state True" "cond_create 1" "[]" demo_world "[]" "''/etc/a''" demo_file]
    by (auto simp: demo_state_def cond_create_def env_after_def split: option.splits)
qed

section \<open>What is ignored\<close>

text \<open>C11: In a block that is not live the statements change nothing that can be seen (neither environment,
  symbols, keywords, output nor options), whatever they are, unless they contain a task block and
  the file is read by a task: a task ignores all but its task blocks, and srun ignores those.\<close>

theorem use_env_ignored:
  assumes "ue_cond st = Some (c # cs)" "\<not> c_fallthru c" "\<not> c_val c"
    and "even (ue_in_task st) \<or> \<not> list_ex has_task ss"
    and "run_stmts W inc cur ss st = Some (stop, st1)"
  shows "visible st1 = visible st"
proof -
  obtain st2 j where "exec_stmts W inc cur (c_val c) ss st = Some (stop, st2)" "st1 = st2\<lparr>ue_cond := j\<rparr>"
    by (rule run_stmts_obtain[OF assms(1,2,5)])
  with exec_dead(1)[of W inc cur "c_val c" ss st stop st2] assms(3,4) show ?thesis by simp
qed

theorem use_env_ignored_witness:
  "\<exists>st1. run_stmts demo_world [] ''/etc/a'' demo_file (demo_state False) = Some (False, st1) \<and>
    visible st1 = visible (demo_state False)"
proof -
  have "map_option fst (run_stmts demo_world [] ''/etc/a'' demo_file (demo_state False)) = Some False"
    by code_simp
  then obtain st1 where r: "run_stmts demo_world [] ''/etc/a'' demo_file (demo_state False) = Some (False, st1)"
    by (auto simp del: run_stmts.simps)
  have "visible st1 = visible (demo_state False)"
    by (rule use_env_ignored[OF _ _ _ _ r]) (auto simp: demo_state_def cond_create_def)
  with r show ?thesis by blast
qed

section \<open>Keywords\<close>

text \<open>C39: No file can change a keyword: after any statements, \<open>$NAME\<close> of a keyword still gives the keyword
  with the value SLURM has given it, whatever symbols and environment variables have that name.\<close>

theorem use_env_keywords:
  assumes "ue_cond st = Some (c # cs)" "\<not> c_fallthru c"
    and "sym_lookup (ue_keytab st) name = Some s"
    and "run_stmts W inc cur ss st = Some (stop, st1)"
  shows "sym_of W name st1 = (Some s, st1)"
proof -
  obtain st2 j where e: "exec_stmts W inc cur (c_val c) ss st = Some (stop, st2)" "st1 = st2\<lparr>ue_cond := j\<rparr>"
    by (rule run_stmts_obtain[OF assms(1,2,4)])
  have "ue_keytab st2 = ue_keytab st"
    by (rule keyword_table.exec_kept(1)[OF refl e(1) refl])
  with e(2) assms(3) show ?thesis by (simp add: sym_of_def)
qed

theorem use_env_keywords_witness:
  "\<exists>st1. run_stmts demo_world [] ''/etc/a'' [SAssign (Name ''K'') ASSIGN (Word [Ch CHR ''7''])] (demo_state True) =
      Some (False, st1) \<and> map_option sy_string (fst (sym_of demo_world ''K'' st1)) = Some ''2''"
proof -
  let ?ss = "[SAssign (Name ''K'') ASSIGN (Word [Ch CHR ''7''])]"
  have "map_option fst (run_stmts demo_world [] ''/etc/a'' ?ss (demo_state True)) = Some False"
    by code_simp
  then obtain st1 where r: "run_stmts demo_world [] ''/etc/a'' ?ss (demo_state True) = Some (False, st1)"
    by (auto simp del: run_stmts.simps)
  have k: "sym_lookup (ue_keytab (demo_state True)) ''K'' =
      Some \<lparr>sy_name = ''K'', sy_type = SYM_INT, sy_val = 2, sy_string = ''2'', sy_low = 64\<rparr>"
    by (simp add: demo_state_def sym_lookup_def sym_find_def)
  have "sym_of demo_world ''K'' st1 =
      (Some \<lparr>sy_name = ''K'', sy_type = SYM_INT, sy_val = 2, sy_string = ''2'', sy_low = 64\<rparr>, st1)"
    by (rule use_env_keywords[OF _ _ k r]) (auto simp: demo_state_def cond_create_def)
  with r show ?thesis by auto
qed

section \<open>Assignments\<close>

text \<open>
  What \<open>spank_getenv\<close>, \<open>spank_setenv\<close> and \<open>spank_unsetenv\<close> document, for the variables \<open>vars\<close> of the
  environment of a job; and the variables the parser works on.
\<close>

definition job_env_laws :: "'e world \<Rightarrow> ('e \<Rightarrow> string \<Rightarrow> string option) \<Rightarrow> bool" where
  "job_env_laws W vars \<longleftrightarrow>
    (\<forall>e n len. w_get W e n len =
       (case vars e n of None \<Rightarrow> None | Some v \<Rightarrow> if length v < len then Some v else None)) \<and>
    (\<forall>e n v ow. vars (snd (w_set W e n (Some v) ow)) =
       (if ow \<or> vars e n = None then (vars e)(n \<mapsto> v) else vars e)) \<and>
    (\<forall>e n. vars (snd (w_unset W e n)) = (vars e)(n := None))"

definition variables :: "('e \<Rightarrow> string \<Rightarrow> string option) \<Rightarrow> 'e uenv \<Rightarrow> string \<Rightarrow> string option" where
  "variables vars st = (if ue_ops st then vars (ue_job st) else env_get (ue_env st))"

definition assigned :: "assign_op \<Rightarrow> string option \<Rightarrow> string \<Rightarrow> string" where
  "assigned op old v =
    (case old of
       None \<Rightarrow> v
     | Some w \<Rightarrow>
        (case op of
           ASSIGN \<Rightarrow> v
         | COND_SET \<Rightarrow> w
         | APPEND \<Rightarrow> if w = [] then v else w @ '':'' @ v
         | PREPEND \<Rightarrow> if w = [] then v else v @ '':'' @ w))"

lemma identifier_name: "is_valid_identifier n \<Longrightarrow> CHR ''='' \<notin> set n"
  by (auto simp: is_valid_identifier_def isalpha_def isdigit_def Let_def list_all_iff of_char_def
      split: list.splits)

lemma scan_word_length: "scan_word W ps b st = Some (buf, st1) \<Longrightarrow> length buf < 4096"
  by (induction W ps b st rule: scan_word.induct)
    (auto split: if_splits piece.splits option.splits prod.splits)

lemma xgetenv_variables:
  assumes "job_env_laws W vars" "\<And>w. variables vars st n = Some w \<Longrightarrow> length w < 4096"
  shows "xgetenv W st n = variables vars st n"
  using assms by (auto simp: xgetenv_def variables_def use_env_getenv_def job_env_laws_def split: option.split)

lemma xsetenv_variables:
  assumes "job_env_laws W vars" "is_valid_identifier n"
  shows "\<exists>r st1. xsetenv W n (Some v) ow st = Some (r, st1) \<and> variables vars st1 =
    (variables vars st)(n \<mapsto> (if ow \<or> variables vars st n = None then v else the (variables vars st n)))"
proof (cases "ue_ops st")
  case True
  obtain ok e where e: "w_set W (ue_job st) n (Some v) ow = (ok, e)" by (cases "w_set W (ue_job st) n (Some v) ow")
  have "vars e = (if ow \<or> vars (ue_job st) n = None then (vars (ue_job st))(n \<mapsto> v) else vars (ue_job st))"
    using assms(1) e unfolding job_env_laws_def by (metis snd_conv)
  with True e show ?thesis
    by (auto simp: xsetenv_def use_env_setenv_def variables_def fun_eq_iff)
next
  case False
  have "env_get (setenv n v (ue_env st)) = (env_get (ue_env st))(n \<mapsto> v)"
    by (simp add: fun_eq_iff env_get_setenv identifier_name[OF assms(2)])
  with False show ?thesis
    by (auto simp: xsetenv_def variables_def fun_eq_iff)
qed

lemma cache_variables [simp]: "variables vars (env_cache_delete n st) = variables vars st"
  by (simp add: variables_def env_cache_delete_def)

lemma visible_variables: "visible st1 = visible st \<Longrightarrow> variables vars st1 = variables vars st"
  by (simp add: visible_def variables_def)

text \<open>C14: A live assignment, for any of the four operators, succeeds and gives the variable the value the
  operator documents (set, set when it is not set, append or prepend with a colon but without
  one to an empty value), and changes no other variable, in srun as in a task.\<close>

theorem use_env_assign:
  assumes laws: "job_env_laws W vars" and live: "condition st = Some True"
    and n: "is_valid_identifier n"
    and scan: "scan W (Word ps) st = Some (x, st1)"
    and fits: "\<And>w. variables vars st n = Some w \<Longrightarrow> length w + length (it_str x) + 2 \<le> 4096"
  shows "\<exists>st2. run_stmt W inc cur (SAssign (Name n) op (Word ps)) st = Some (False, st2) \<and>
    variables vars st2 = (variables vars st)(n \<mapsto> assigned op (variables vars st n) (it_str x))"
proof -
  have len: "length (it_str x) < 4096"
    using scan by (auto simp: scan_def lex_item_create_def dest: scan_word_length split: option.splits)
  have same: "variables vars st1 = variables vars st" by (rule visible_variables[OF scan_visible[OF scan]])
  have get: "xgetenv W st1 n = variables vars st n"
    using xgetenv_variables[OF laws, of st1 n] fits same by fastforce
  let ?new = "case (op = APPEND \<or> op = PREPEND, xgetenv W st1 n) of
      (True, Some orig) \<Rightarrow> env_var_add 4096 orig (it_str x) (op = APPEND) | _ \<Rightarrow> Some (it_str x)"
  have new: "?new = Some (if op = COND_SET then it_str x else assigned op (variables vars st n) (it_str x))"
    unfolding get using fits len
    by (cases op) (auto simp: env_var_add_def assigned_def split: option.split)
  obtain r st2 where set: "xsetenv W n ?new (op \<noteq> COND_SET) (env_cache_delete n st1) = Some (r, st2)"
    "variables vars st2 = (variables vars st)(n \<mapsto> assigned op (variables vars st n) (it_str x))"
    using xsetenv_variables[OF laws n, of "if op = COND_SET then it_str x else assigned op (variables vars st n) (it_str x)"
        "op \<noteq> COND_SET" "env_cache_delete n st1"] unfolding new
    by (cases op) (auto simp: same assigned_def fun_upd_idem split: option.split_asm if_splits)
  have "scan W (Name n) st = Some (\<lparr>it_name = n, it_type = TYPE_STR, it_str = n, it_val = VStr\<rparr>, st)"
    by (simp add: scan_def lex_item_create_def)
  with live scan n set show ?thesis
    by (simp add: run_simple_def env_var_set_def Let_def)
qed

theorem use_env_assign_witness:
  "\<exists>st2. run_stmt demo_world [] ''/etc/a'' (SAssign (Name ''A'') APPEND (Word [Ch CHR ''z''])) (demo_state True) =
      Some (False, st2) \<and> variables id st2 ''A'' = Some ''5:z''"
proof -
  have laws: "job_env_laws demo_world id"
    by (auto simp: job_env_laws_def demo_world_def split: option.split)
  have v: "variables id (demo_state True) ''A'' = Some ''5''"
    by code_simp
  have live: "condition (demo_state True) = Some True" by code_simp
  have n: "is_valid_identifier ''A''" by code_simp
  obtain x st1 where scan: "scan demo_world (Word [Ch CHR ''z'']) (demo_state True) = Some (x, st1)" "it_str x = ''z''"
    by (simp add: scan_def lex_item_create_def)
  have "\<exists>st2. run_stmt demo_world [] ''/etc/a'' (SAssign (Name ''A'') APPEND (Word [Ch CHR ''z''])) (demo_state True) =
      Some (False, st2) \<and> variables id st2 =
        (variables id (demo_state True))(''A'' \<mapsto> assigned APPEND (variables id (demo_state True) ''A'') (it_str x))"
    by (rule use_env_assign[OF laws live n scan(1)]) (simp add: v scan(2))
  then show ?thesis by (auto simp: v scan(2) assigned_def)
qed

section \<open>Where the code surprises\<close>

text \<open>
  \<open>!=\<close> on two integers compares the numbers of the union: for symbols, halves of their addresses.
  A variable of the environment that is read twice is two symbols, so it differs from itself.
\<close>

lemma not_equal_addresses:
  "item_val x = Some m \<Longrightarrow> item_val y = Some n \<Longrightarrow> item_cmp NE x y = of_bool (val_num x \<noteq> val_num y)"
  by (simp add: item_cmp_def)

lemma variable_differs_from_itself:
  "map_option fst (eval_test demo_world True (TCmp (Sym ''A'') NE (Sym ''A'')) (demo_state True)) = Some 1"
  "map_option fst (eval_test demo_world True (TCmp (Sym ''A'') NE (Num ''5'')) (demo_state True)) = Some 1"
  by code_simp+

text \<open>An empty variable is the integer 0.\<close>

lemma empty_is_zero: "sy_type (sym_reset_value [] s) = SYM_INT \<and> sy_val (sym_reset_value [] s) = 0"
  by (simp add: sym_reset_value_def strtol_def long_to_int_def)

text \<open>
  A task block runs in a task whatever the \<open>if\<close> around it says; \<open>PATH += dir\<close> on a value too long
  for the buffer does not survive in srun, and in a task replaces a value that \<open>spank_getenv\<close>
  cannot deliver.
\<close>

lemma task_block_unconditional:
  assumes "odd (ue_in_task st)"
  shows "exec_stmts W inc cur False [SIf (TOne (TItem (Num d))) [STask ss] Endif] st =
    exec_stmts W inc cur True ss st"
  using assms by (auto simp: scan_def lex_item_create_def test_item_def split: option.split)

lemma long_append_crashes:
  assumes "\<not> ue_ops st" "is_valid_identifier n" "env_get (ue_env st) n = Some w" "w \<noteq> []"
    "length v + length w + 2 > 4096"
  shows "env_var_set W True n v APPEND st = None"
  using assms
  by (simp add: env_var_set_def xgetenv_def env_var_add_def xsetenv_def env_cache_delete_def)

lemma long_value_replaced:
  assumes "job_env_laws W vars" "ue_ops st" "is_valid_identifier n"
    "vars (ue_job st) n = Some w" "length w \<ge> 4096"
  shows "\<exists>r st1. env_var_set W True n v APPEND st = Some (r, st1) \<and> variables vars st1 n = Some v"
proof -
  have "xgetenv W st n = None"
    using assms by (simp add: xgetenv_def use_env_getenv_def job_env_laws_def)
  with assms(3) xsetenv_variables[OF assms(1,3), of v True "env_cache_delete n st"] show ?thesis
    by (fastforce simp: env_var_set_def)
qed

end
