(* ===== verification/UseEnv.thy ===== *)
theory UseEnv
  imports UseEnvParse Split
begin

text \<open>
  The \<open>use-env\<close> plugin, third part: \<open>use-env.c\<close> and the entry points of the parser.  The list of
  files is a list of \<open>lib/list.c\<close>, the names of an option come from \<open>lib/split.c\<close>.
\<close>

section \<open>State and world\<close>

datatype spank_item =
    S_JOB_NNODES
  | S_JOB_TOTAL_TASK_COUNT
  | S_JOB_ID
  | S_JOB_STEPID
  | S_TASK_GLOBAL_ID
  | S_TASK_ID
  | S_JOB_NODEID
  | S_JOB_UID

text \<open>
  What SLURM and the system answer: \<open>spank_remote\<close>, whether \<open>slurm_spank_local_user_init\<close> is
  supported, \<open>spank_get_item\<close> (\<open>None\<close> when it fails) for numbers and for the argument vector, the
  name of a user, \<open>access (path, R_OK) >= 0\<close>, and the memory of the lists.
\<close>

record answers =
  an_remote :: int
  an_local_cb :: bool
  an_item :: "spank_item \<Rightarrow> int option"
  an_argv :: "string list option"
  an_user :: "int \<Rightarrow> string option"
  an_readable :: "string \<Rightarrow> bool"
  an_mem :: "nat \<times> freelist \<times> freelist \<times> freelist"

text \<open>
  The static variables.  \<open>u_list\<close> is \<open>None\<close> when there is no list, or none any more; \<open>u_broken\<close>
  says that the scanner was left in the middle of a file.
\<close>

record 'e use_env =
  u_parser :: "'e uenv"
  u_local_cb :: bool
  u_disabled :: bool
  u_disable_in_task :: bool
  u_default :: string
  u_list :: "string clist option"
  u_home :: "string option"
  u_broken :: bool

definition SYSCONFDIR :: string where
  "SYSCONFDIR = ''/etc/slurm/''"

section \<open>Entry points of the parser\<close>

definition use_env_parser_init :: "int \<Rightarrow> 'e uenv \<Rightarrow> 'e uenv" where
  "use_env_parser_init in_task p = condition_init (p\<lparr>ue_in_task := in_task\<rparr>)"

definition use_env_parser_fini :: "'e uenv \<Rightarrow> 'e uenv" where
  "use_env_parser_fini p = keytab_destroy (condition_fini p)"

text \<open>
  What a file does that is read while the scanner is in the middle of another depends on generated
  code; it is left undefined.
\<close>

definition use_env_parse ::
    "'e world \<Rightarrow> string \<Rightarrow> 'e use_env \<Rightarrow> (int \<times> 'e use_env) option" where
  "use_env_parse W f st =
    (case w_files W f of
       None \<Rightarrow> Some (- 1, st)
     | Some ss \<Rightarrow>
         if u_broken st then None
         else (case run_stmts W [] f ss (u_parser st) of
                 None \<Rightarrow> None
               | Some (stop, p) \<Rightarrow>
                   if stop then Some (- 1, st\<lparr>u_parser := p, u_broken := True\<rparr>)
                   else Some (0, st\<lparr>u_parser := symtab_destroy p\<rparr>)))"

definition do_env_override ::
    "'e world \<Rightarrow> string \<Rightarrow> 'e use_env \<Rightarrow> (int \<times> 'e use_env) option" where
  "do_env_override W f st =
    (case use_env_parse W f st of
       None \<Rightarrow> None
     | Some (r, st1) \<Rightarrow> Some (if r < 0 then - 1 else 0, st1))"

text \<open>
  The callbacks of \<open>list_for_each\<close> work on the state, or have failed.
\<close>

definition callback ::
    "(string \<Rightarrow> 's \<Rightarrow> (int \<times> 's) option) \<Rightarrow> string \<Rightarrow> 's option \<Rightarrow> int \<times> 's option" where
  "callback f x s =
    (case s of
       None \<Rightarrow> (- 1, None)
     | Some st \<Rightarrow> (case f x st of None \<Rightarrow> (- 1, None) | Some (r, st1) \<Rightarrow> (r, Some st1)))"

definition list_for_each_env ::
    "(string \<Rightarrow> 's \<Rightarrow> (int \<times> 's) option) \<Rightarrow> string clist \<Rightarrow> 's \<Rightarrow> (int \<times> 's) option" where
  "list_for_each_env f l st =
    (case list_for_each l (callback f) (Some st) of
       Some (r, Some st1) \<Rightarrow> Some (r, st1)
     | _ \<Rightarrow> None)"

text \<open>\<open>list_for_each (env_list, do_env_override, ...)\<close>, then \<open>list_destroy (env_list)\<close>.\<close>

definition override_all :: "'e world \<Rightarrow> 'e use_env \<Rightarrow> 'e use_env option" where
  "override_all W st =
    (case u_list st of
       None \<Rightarrow> None
     | Some l \<Rightarrow>
        (case list_for_each_env (do_env_override W) l st of
           None \<Rightarrow> None
         | Some (r, st1) \<Rightarrow>
            (case list_destroy l of None \<Rightarrow> None | Some l1 \<Rightarrow> Some (st1\<lparr>u_list := None\<rparr>))))"

section \<open>Finding files\<close>

definition env_override_file_search ::
    "string option \<Rightarrow> (string \<Rightarrow> bool) \<Rightarrow> string \<Rightarrow> bool \<Rightarrow> bool \<Rightarrow> string option" where
  "env_override_file_search home readable name check_user check_sys =
    (let user = (case home of
           None \<Rightarrow> []
         | Some h \<Rightarrow> if check_user then [h @ ''/.slurm/environment/'' @ name, h @ ''/.slurm/env-'' @ name @ ''.conf'']
                     else []);
         sys = (if check_sys then [SYSCONFDIR @ ''/environment/'' @ name, SYSCONFDIR @ ''/env-'' @ name @ ''.conf'']
                else [])
     in List.find readable (map (take 4095) (user @ sys)))"

definition path_cmp :: "string \<Rightarrow> string \<Rightarrow> int" where
  "path_cmp x y = of_bool (strcmp x y = 0)"

section \<open>Options\<close>

definition check_and_append_env_opt ::
    "'e world \<Rightarrow> answers \<Rightarrow> string \<Rightarrow> 'e use_env \<Rightarrow> (int \<times> 'e use_env) option" where
  "check_and_append_env_opt W A name st =
    (case env_override_file_search (u_home st) (an_readable A) name True True of
       None \<Rightarrow> Some (- 1, st)
     | Some f \<Rightarrow>
        if \<not> u_local_cb st then do_env_override W f st
        else (case u_list st of
                None \<Rightarrow> None
              | Some l \<Rightarrow>
                 (case list_find_first l path_cmp f of
                    None \<Rightarrow> None
                  | Some (Some x) \<Rightarrow> Some (0, st)
                  | Some None \<Rightarrow> Some (0, st\<lparr>u_list := Some (snd (list_append l f))\<rparr>))))"

definition use_env_opt_process ::
    "'e world \<Rightarrow> answers \<Rightarrow> string option \<Rightarrow> 'e use_env \<Rightarrow> (int \<times> 'e use_env) option" where
  "use_env_opt_process W A optarg st =
    (case optarg of
       None \<Rightarrow> Some (- 1, st)
     | Some arg \<Rightarrow>
        (case an_mem A of (h, lf, nf, itf) \<Rightarrow>
          (case snd (list_split h lf nf itf (Some '','') arg) of
             Split_list l \<Rightarrow>
               (case list_for_each_env (check_and_append_env_opt W A) l st of
                  None \<Rightarrow> None
                | Some (r, st1) \<Rightarrow>
                    if r < 0 then Some (- 1, st1)
                    else (case list_destroy l of None \<Rightarrow> None | Some l1 \<Rightarrow> Some (0, st1)))
           | _ \<Rightarrow> None)))"

fun process_args :: "string list \<Rightarrow> 'e use_env \<Rightarrow> int \<times> 'e use_env" where
  "process_args [] st = (0, st)"
| "process_args (a # av) st =
    (if has_prefix ''default='' a then process_args av (st\<lparr>u_default := drop 8 a\<rparr>)
     else if strcmp ''disable_in_task'' a = 0 then process_args av (st\<lparr>u_disable_in_task := True\<rparr>)
     else (- 1, st))"

section \<open>Keywords\<close>

definition define_use_env_keyword ::
    "'e world \<Rightarrow> answers \<Rightarrow> string \<Rightarrow> spank_item \<Rightarrow> 'e uenv \<Rightarrow> int \<times> 'e uenv" where
  "define_use_env_keyword W A name item p =
    (case an_item A item of
       None \<Rightarrow> (- 1, p)
     | Some v \<Rightarrow> (0, snd (keyword_define W name (dec (unat (word_of_int v :: 32 word))) p)))"

definition define_argv ::
    "'e world \<Rightarrow> string list \<Rightarrow> 'e uenv \<Rightarrow> 'e uenv" where
  "define_argv W av p =
    fold (\<lambda>(i, a) q. snd (keyword_define W (''SLURM_ARGV'' @ dec i) a q)) (zip [0..<length av] av) p"

text \<open>Without an argument \<open>av[0]\<close> is NULL, which \<open>strcat\<close> follows.\<close>

definition set_argv_keywords ::
    "'e world \<Rightarrow> answers \<Rightarrow> 'e uenv \<Rightarrow> (int \<times> 'e uenv) option" where
  "set_argv_keywords W A p =
    (case an_argv A of
       None \<Rightarrow> Some (- 1, p)
     | Some av \<Rightarrow>
        (let p1 = snd (keyword_define W ''SLURM_ARGC'' (dec (length av)) p);
             p2 = define_argv W av p1
         in case av of
              [] \<Rightarrow> None
            | a # as \<Rightarrow>
                Some (0, snd (keyword_define W ''SLURM_CMDLINE'' (a @ concat (map (\<lambda>b. '' '' @ b) as)) p2))))"

fun define_keywords ::
    "'e world \<Rightarrow> answers \<Rightarrow> (string \<times> spank_item) list \<Rightarrow> 'e uenv \<Rightarrow> int \<times> 'e uenv" where
  "define_keywords W A [] p = (0, p)"
| "define_keywords W A ((name, item) # ks) p =
    (case define_use_env_keyword W A name item p of (r, p1) \<Rightarrow>
       if r < 0 then (- 1, p1) else define_keywords W A ks p1)"

definition define_all_keywords ::
    "'e world \<Rightarrow> answers \<Rightarrow> 'e uenv \<Rightarrow> (int \<times> 'e uenv) option" where
  "define_all_keywords W A p =
    (case define_keywords W A
            [(''SLURM_NNODES'', S_JOB_NNODES), (''SLURM_NPROCS'', S_JOB_TOTAL_TASK_COUNT),
             (''SLURM_JOBID'', S_JOB_ID), (''SLURM_STEPID'', S_JOB_STEPID)] p of
       (r, p1) \<Rightarrow>
         if r < 0 then Some (- 1, p1)
         else (case set_argv_keywords W A p1 of
                 None \<Rightarrow> None
               | Some (r2, p2) \<Rightarrow>
                   if r2 < 0 then Some (- 1, p2)
                   else if an_remote A = 0 then Some (0, p2)
                   else (case define_keywords W A
                                [(''SLURM_PROCID'', S_TASK_GLOBAL_ID), (''SLURM_LOCALID'', S_TASK_ID),
                                 (''SLURM_NODEID'', S_JOB_NODEID), (''SLURM_JOBUID'', S_JOB_UID)] p2 of
                           (r3, p3) \<Rightarrow>
                             if r3 < 0 then Some (- 1, p3)
                             else (case Option.bind (an_item A S_JOB_UID) (an_user A) of
                                     None \<Rightarrow> Some (- 1, p3)
                                   | Some u \<Rightarrow>
                                       Some (0, snd (keyword_define W ''SLURM_JOB_USERNAME'' u p3))))))"

section \<open>Callbacks\<close>

definition use_env_debuglevel :: "'e world \<Rightarrow> 'e uenv \<Rightarrow> int" where
  "use_env_debuglevel W p =
    (case xgetenv W p ''SPANK_USE_ENV_DEBUG'' of
       None \<Rightarrow> 0
     | Some v \<Rightarrow> (case strtol v of (n, rest) \<Rightarrow> if rest = [] then long_to_int n else 0))"

text \<open>\<open>list_append\<close> asserts that there is a list.\<close>

definition append_found :: "string option \<Rightarrow> string clist option \<Rightarrow> string clist option option" where
  "append_found f l =
    (case f of
       None \<Rightarrow> Some l
     | Some x \<Rightarrow> map_option (\<lambda>k. Some (snd (list_append k x))) l)"

definition use_env_spank_init ::
    "'e world \<Rightarrow> answers \<Rightarrow> string list \<Rightarrow> 'e use_env \<Rightarrow> (int \<times> 'e use_env) option" where
  "use_env_spank_init W A av st0 =
    (let st = (if an_local_cb A then st0\<lparr>u_local_cb := True\<rparr> else st0)
     in case process_args av st of (r, st1) \<Rightarrow>
          if r < 0 then Some (- 1, st1)
          else (case an_mem A of (h, lf, nf, itf) \<Rightarrow>
            (let l = fst (list_create True lf nf itf);
                 remote = an_remote A;
                 p = (if remote \<noteq> 0 then (u_parser st1)\<lparr>ue_ops := True\<rparr> else u_parser st1);
                 st2 = st1\<lparr>u_list := l, u_parser := p, u_home := xgetenv W p ''HOME''\<rparr>;
                 search = env_override_file_search (u_home st2) (an_readable A)
             in if u_home st2 = None then Some (0, st2\<lparr>u_disabled := True\<rparr>)
                else (case Option.bind (append_found (search (u_default st2) False True) l)
                             (append_found (search ''default'' True False)) of
                        None \<Rightarrow> None
                      | Some l1 \<Rightarrow>
                         (let p1 = use_env_parser_init remote p;
                              p2 = p1\<lparr>ue_verbose := use_env_debuglevel W p1\<rparr>;
                              st3 = st2\<lparr>u_list := l1, u_parser := p2\<rparr>
                          in if \<not> u_local_cb st3 \<and> remote = 0
                             then map_option (Pair 0) (override_all W st3)
                             else Some (0, st3))))))"

text \<open>Defining the keywords of the current context, then reading the files.\<close>

definition define_and_override ::
    "'e world \<Rightarrow> answers \<Rightarrow> 'e use_env \<Rightarrow> (int \<times> 'e use_env) option" where
  "define_and_override W A st =
    (case define_all_keywords W A (u_parser st) of
       None \<Rightarrow> None
     | Some (r, p) \<Rightarrow>
         if r < 0 then Some (- 1, st\<lparr>u_parser := p\<rparr>)
         else map_option (Pair 0) (override_all W (st\<lparr>u_parser := p\<rparr>)))"

definition use_env_local_user_init ::
    "'e world \<Rightarrow> answers \<Rightarrow> 'e use_env \<Rightarrow> (int \<times> 'e use_env) option" where
  "use_env_local_user_init W A st =
    (if u_disabled st then Some (0, st) else define_and_override W A st)"

definition use_env_task_init ::
    "'e world \<Rightarrow> answers \<Rightarrow> 'e use_env \<Rightarrow> (int \<times> 'e use_env) option" where
  "use_env_task_init W A st =
    define_and_override W A (st\<lparr>u_parser := (u_parser st)\<lparr>ue_ops := True\<rparr>\<rparr>)"

definition use_env_spank_exit :: "'e use_env \<Rightarrow> int \<times> 'e use_env" where
  "use_env_spank_exit st =
    (0, if u_disabled st then st else st\<lparr>u_parser := use_env_parser_fini (u_parser st)\<rparr>)"

end
