(* ===== verification/UseEnvPluginProps.thy ===== *)
theory UseEnvPluginProps
  imports UseEnvProps UseEnv
begin

text \<open>
  The properties of the \<open>use-env\<close> plugin: which files its options put on the list, and that a
  context reads the files of the list in order, as the statements in them mean.
\<close>

text \<open>Answers and a plugin on which the properties are run.\<close>

definition demo_answers :: answers where
  "demo_answers =
    \<lparr>an_remote = 0, an_local_cb = True, an_item = (\<lambda>_. Some 1), an_argv = Some [''x''], an_user = (\<lambda>_. None),
     an_readable = (\<lambda>f. f \<in> set [''/h/.slurm/environment/a'', ''/etc/slurm//env-b.conf'']),
     an_mem = (9, some_heap, some_heap, some_heap)\<rparr>"

definition demo_plugin :: "string clist \<Rightarrow> (string \<Rightarrow> string option) use_env" where
  "demo_plugin l =
    \<lparr>u_parser = demo_state True, u_local_cb = True, u_disabled = False, u_disable_in_task = False,
     u_default = ''default'', u_list = Some l, u_home = Some ''/h'', u_broken = False\<rparr>"

definition demo_list :: "string clist" where
  "demo_list = the (fst (list_create True some_heap some_heap some_heap))"

lemma some_heap_ok: "fl_ok {} some_heap" "0 < fl_cap some_heap" "9 \<le> fl_cap some_heap"
  by (simp add: some_heap_def fl_ok_def) code_simp+

lemma demo_list_ok: "list_ok demo_list" "list_data demo_list = []" "l_nfree demo_list = some_heap"
proof -
  obtain l lf1 where "list_create True some_heap some_heap some_heap = (Some (l :: string clist), lf1)"
    "list_ok l" "list_data l = []" "l_nfree l = some_heap"
    by (rule fresh_list[OF some_heap_ok(2,1,1), of True]) blast
  then show "list_ok demo_list" "list_data demo_list = []" "l_nfree demo_list = some_heap"
    by (simp_all add: demo_list_def)
qed

section \<open>Options\<close>

text \<open>The files of the names up to the first one that is not found, each once.\<close>

fun add_files :: "(string \<Rightarrow> string option) \<Rightarrow> string list \<Rightarrow> string list \<Rightarrow> string list" where
  "add_files search [] fs = fs"
| "add_files search (n # ns) fs =
    (case search n of
       None \<Rightarrow> fs
     | Some f \<Rightarrow> add_files search ns (if f \<in> set fs then fs else fs @ [f]))"

lemma find_path: "List.find (\<lambda>x. path_cmp x f \<noteq> 0) fs = (if f \<in> set fs then Some f else None)"
  by (induction fs) (auto simp: path_cmp_def)

lemma callback_options:
  assumes "u_local_cb st" "u_list st = Some l" "list_ok l" "length ns \<le> fl_cap (l_nfree l)"
  shows "\<exists>r st1 l1. for_each_list (callback (check_and_append_env_opt W A)) ns k (Some st) = (r, Some st1) \<and>
    u_list st1 = Some l1 \<and> list_ok l1 \<and> st1 = st\<lparr>u_list := Some l1\<rparr> \<and>
    list_data l1 = add_files (\<lambda>n. env_override_file_search (u_home st) (an_readable A) n True True) ns (list_data l) \<and>
    (0 \<le> k \<longrightarrow> (0 \<le> r \<longleftrightarrow> (\<forall>n\<in>set ns. env_override_file_search (u_home st) (an_readable A) n True True \<noteq> None)))"
  using assms
proof (induction ns arbitrary: k l st)
  case Nil
  then show ?case by (intro exI[of _ k] exI[of _ st] exI[of _ l]) (cases st, auto)
next
  case (Cons n ns)
  show ?case
  proof (cases "env_override_file_search (u_home st) (an_readable A) n True True")
    case None
    then show ?thesis using Cons.prems
      by (intro exI[of _ "- (k + 1)"] exI[of _ st] exI[of _ l]) (cases st, auto simp: callback_def check_and_append_env_opt_def)
  next
    case (Some f)
    show ?thesis
    proof (cases "f \<in> set (list_data l)")
      case True
      with Some Cons.prems(1-3) have "check_and_append_env_opt W A n st = Some (0, st)"
        by (simp add: check_and_append_env_opt_def list_find_first_data find_path)
      then have f: "for_each_list (callback (check_and_append_env_opt W A)) (n # ns) k (Some st) =
          for_each_list (callback (check_and_append_env_opt W A)) ns (k + 1) (Some st)"
        by (simp add: callback_def)
      from Cons.IH[OF Cons.prems(1-3), of "k + 1"] Cons.prems(4) Some True show ?thesis unfolding f by auto
    next
      case False
      obtain l2 where l2: "list_append l f = (Some f, l2)" "fl_cap (l_nfree l2) = fl_cap (l_nfree l) - 1"
        using append_cap[of l f] Cons.prems(4) by auto
      have ok: "list_ok l2" "list_data l2 = list_data l @ [f]"
        using list_append_data(1,3)[OF Cons.prems(3) l2(1)] by auto
      let ?st = "st\<lparr>u_list := Some l2\<rparr>"
      from Some False Cons.prems(1-3) l2 have "check_and_append_env_opt W A n st = Some (0, ?st)"
        by (simp add: check_and_append_env_opt_def list_find_first_data find_path)
      then have f: "for_each_list (callback (check_and_append_env_opt W A)) (n # ns) k (Some st) =
          for_each_list (callback (check_and_append_env_opt W A)) ns (k + 1) (Some ?st)"
        by (simp add: callback_def)
      have "length ns \<le> fl_cap (l_nfree l2)" using Cons.prems(4) l2(2) by simp
      from Cons.IH[of ?st l2 "k + 1", OF _ _ ok(1) this] Cons.prems(1) Some False ok(2) show ?thesis
        unfolding f by auto
    qed
  qed
qed

text \<open>
  Where SLURM has no callback \<open>slurm_spank_local_user_init\<close> an option reads its files at once, and
  fails when one of them does.
\<close>

lemma option_read_at_once:
  "\<not> u_local_cb st \<Longrightarrow> env_override_file_search (u_home st) (an_readable A) n True True = Some f \<Longrightarrow>
   check_and_append_env_opt W A n st = do_env_override W f st"
  by (simp add: check_and_append_env_opt_def)

text \<open>C40: Where SLURM has the callback \<open>slurm_spank_local_user_init\<close>, and once the list of files has been
  made, \<open>--use-env=a,b,...\<close> returns and changes nothing but the list of files to read later: it appends
  the file of each name, searched in the home directory and then in the system directory, in order
  and each file once, and fails exactly when a name has no file, with the files before it on the
  list.  (Without the callback the files are parsed at once instead, as the lemma above says.)\<close>

theorem use_env_options:
  assumes mem: "an_mem A = (h, lf, nf, itf)" "fl_ok {} nf" "fl_ok {} itf" "0 < fl_cap lf"
      "length (tokens '','' arg) \<le> h" "length (tokens '','' arg) \<le> fl_cap nf"
    and st: "u_local_cb st" "u_list st = Some l" "list_ok l" "length (tokens '','' arg) \<le> fl_cap (l_nfree l)"
  defines "search \<equiv> \<lambda>n. env_override_file_search (u_home st) (an_readable A) n True True"
  shows "\<exists>r l1. use_env_opt_process W A (Some arg) st = Some (r, st\<lparr>u_list := Some l1\<rparr>) \<and> list_ok l1 \<and>
    list_data l1 = add_files search (tokens '','' arg) (list_data l) \<and>
    (r = 0 \<longleftrightarrow> (\<forall>n\<in>set (tokens '','' arg). search n \<noteq> None))"
proof -
  obtain t where t: "snd (list_split h lf nf itf (Some '','') arg) = Split_list t" "list_ok t"
    "list_data t = tokens '','' arg"
    by (rule list_split_works[OF mem(4,2,3,5,6)])
  obtain r st1 l1 where f: "for_each_list (callback (check_and_append_env_opt W A)) (tokens '','' arg) 0 (Some st) = (r, Some st1)"
      "list_ok l1" "st1 = st\<lparr>u_list := Some l1\<rparr>" "list_data l1 = add_files search (tokens '','' arg) (list_data l)"
      "0 \<le> r \<longleftrightarrow> (\<forall>n\<in>set (tokens '','' arg). search n \<noteq> None)"
    using callback_options[OF st, of W A 0] unfolding search_def by blast
  obtain m where "list_destroy t = Some m" using list_destroy_data[OF t(2)] by blast
  with f mem(1) t show ?thesis
    by (cases "r < 0")
      (auto simp: use_env_opt_process_def list_for_each_env_def list_for_each_data[OF t(2)])
qed

theorem use_env_options_witness:
  "\<exists>l1. use_env_opt_process demo_world demo_answers (Some ''a,b,a'') (demo_plugin demo_list) =
      Some (0, (demo_plugin demo_list)\<lparr>u_list := Some l1\<rparr>) \<and>
    list_data l1 = [''/h/.slurm/environment/a'', ''/etc/slurm//env-b.conf'']"
proof -
  have t: "tokens '','' ''a,b,a'' = [''a'', ''b'', ''a'']" by code_simp
  let ?s = "\<lambda>n. env_override_file_search (Some ''/h'') (an_readable demo_answers) n True True"
  have s: "?s ''a'' = Some ''/h/.slurm/environment/a''" "?s ''b'' = Some ''/etc/slurm//env-b.conf''"
    by (simp_all add: env_override_file_search_def demo_answers_def SYSCONFDIR_def)
  have "\<exists>r l1. use_env_opt_process demo_world demo_answers (Some ''a,b,a'') (demo_plugin demo_list) =
      Some (r, (demo_plugin demo_list)\<lparr>u_list := Some l1\<rparr>) \<and> list_ok l1 \<and>
      list_data l1 = add_files (\<lambda>n. env_override_file_search (u_home (demo_plugin demo_list)) (an_readable demo_answers) n True True)
        (tokens '','' ''a,b,a'') (list_data demo_list) \<and>
      (r = 0 \<longleftrightarrow> (\<forall>n\<in>set (tokens '','' ''a,b,a'').
        env_override_file_search (u_home (demo_plugin demo_list)) (an_readable demo_answers) n True True \<noteq> None))"
    by (rule use_env_options[where h = 9 and lf = some_heap and nf = some_heap and itf = some_heap])
      (use some_heap_ok demo_list_ok in \<open>simp_all add: demo_answers_def demo_plugin_def t\<close>)
  then show ?thesis
    unfolding t by (auto simp: s demo_list_ok demo_plugin_def)
qed

section \<open>Reading the files\<close>

text \<open>The files in order, as their statements mean, up to one that cannot be read or gives up.\<close>

fun exec_files :: "'e world \<Rightarrow> bool \<Rightarrow> string list \<Rightarrow> 'e uenv \<Rightarrow> 'e uenv option" where
  "exec_files W on [] p = Some p"
| "exec_files W on (f # fs) p =
    (case w_files W f of
       None \<Rightarrow> Some p
     | Some ss \<Rightarrow>
        (case exec_stmts W [] f on ss p of
           None \<Rightarrow> None
         | Some (stop, p1) \<Rightarrow> if stop then Some p1 else exec_files W on fs (symtab_destroy p1)))"

lemma kept_cond:
  assumes "f (st\<lparr>ue_cond := ue_cond st\<rparr>) = map_option (apsnd (ue_cond_update (\<lambda>_. ue_cond st))) (f st)"
    "f st = Some (x, st1)"
  shows "ue_cond st1 = ue_cond st"
proof -
  have "apsnd (ue_cond_update (\<lambda>_. ue_cond st)) (x, st1) = (x, st1)"
    using assms by simp
  then have "st1\<lparr>ue_cond := ue_cond st\<rparr> = st1" by simp
  then show ?thesis by (metis uenv.select_convs(9) uenv.surjective uenv.update_convs(9))
qed

interpretation stack: kept W "\<lambda>st. ue_cond st = K" for W :: "'e world" and K
proof
  show "scan W a st = Some (x, st1) \<Longrightarrow> ue_cond st = K \<Longrightarrow> ue_cond st1 = K" for a st x st1
    using kept_cond[of "scan W a" st x st1] scan_cond by blast
  show "eval_tests W c t st = Some (v, st1) \<Longrightarrow> ue_cond st = K \<Longrightarrow> ue_cond st1 = K" for c t st v st1
    using kept_cond[of "eval_tests W c t" st v st1] eval_tests_cond by blast
  show "run_simple W c s st = Some (stop, st1) \<Longrightarrow> ue_cond st = K \<Longrightarrow> ue_cond st1 = K" for c s st stop st1
    using kept_cond[of "run_simple W c s" st stop st1] run_simple_cond by blast
qed

definition same_plugin :: "'e use_env \<Rightarrow> 'e use_env \<Rightarrow> bool" where
  "same_plugin st st1 \<longleftrightarrow> u_local_cb st1 = u_local_cb st \<and> u_disabled st1 = u_disabled st \<and>
    u_disable_in_task st1 = u_disable_in_task st \<and> u_default st1 = u_default st \<and> u_home st1 = u_home st"

definition reads :: "'e use_env \<Rightarrow> 'e uenv \<Rightarrow> 'e use_env \<Rightarrow> bool" where
  "reads st p st1 \<longleftrightarrow> same_plugin st st1 \<and> (\<exists>k. u_parser st1 = p\<lparr>ue_cond := k\<rparr>)"

lemma reads_self: "reads st (u_parser st) st"
  unfolding reads_def same_plugin_def by (simp, rule exI[of _ "ue_cond (u_parser st)"]) simp

lemma reads_stop: "u_parser st1 = p\<lparr>ue_cond := j\<rparr> \<Longrightarrow> same_plugin st st1 \<Longrightarrow> reads st p st1"
  unfolding reads_def by blast

lemma reads_from: "same_plugin st st1 \<Longrightarrow> reads st1 p st2 \<Longrightarrow> reads st p st2"
  by (auto simp: reads_def same_plugin_def)

lemma callback_files:
  assumes "\<not> u_broken st" "ue_cond (u_parser st) = Some [c]" "\<not> c_fallthru c"
  shows "case exec_files W (c_val c) fs (u_parser st) of
      None \<Rightarrow> \<exists>r. for_each_list (callback (do_env_override W)) fs k (Some st) = (r, None)
    | Some p \<Rightarrow> \<exists>r st1. for_each_list (callback (do_env_override W)) fs k (Some st) = (r, Some st1) \<and> reads st p st1"
  using assms
proof (induction fs arbitrary: k st)
  case Nil
  show ?case by (simp add: reads_self)
next
  case (Cons f fs)
  show ?case
  proof (cases "w_files W f")
    case None
    then have "for_each_list (callback (do_env_override W)) (f # fs) k (Some st) = (- (k + 1), Some st)"
      by (simp add: callback_def do_env_override_def use_env_parse_def)
    with None show ?thesis by (simp add: reads_self)
  next
    case (Some ss)
    have a: "agrees (ue_cond (u_parser st)) (exec_stmts W [] f (c_val c) ss (u_parser st)) (run_stmts W [] f ss (u_parser st))"
      by (rule run_stmts_exec[OF Cons.prems(2,3)])
    then show ?thesis
    proof (cases rule: agrees_cases)
      case 1
      with Some Cons.prems(1) show ?thesis
        by (simp add: callback_def do_env_override_def use_env_parse_def)
    next
      case (2 p j)
      let ?st = "st\<lparr>u_parser := p\<lparr>ue_cond := j\<rparr>, u_broken := True\<rparr>"
      have "for_each_list (callback (do_env_override W)) (f # fs) k (Some st) = (- (k + 1), Some ?st)"
        using Some Cons.prems(1) 2(2) by (simp add: callback_def do_env_override_def use_env_parse_def)
      moreover have "reads st p ?st" by (rule reads_stop[where j = j]) (simp_all add: same_plugin_def)
      moreover have "exec_files W (c_val c) (f # fs) (u_parser st) = Some p"
        using Some 2(1) by simp
      ultimately show ?thesis by simp
    next
      case (3 p)
      have "ue_cond p = ue_cond (u_parser st)"
        by (rule stack.exec_kept(1)[OF refl 3(1) refl])
      then have p: "p\<lparr>ue_cond := ue_cond (u_parser st)\<rparr> = p" by simp
      let ?st = "st\<lparr>u_parser := symtab_destroy p\<rparr>"
      have f: "for_each_list (callback (do_env_override W)) (f # fs) k (Some st) =
          for_each_list (callback (do_env_override W)) fs (k + 1) (Some ?st)"
        using 3(2) Some Cons.prems(1) unfolding p by (simp add: callback_def do_env_override_def use_env_parse_def)
      have "ue_cond (u_parser ?st) = Some [c]"
        using \<open>ue_cond p = _\<close> Cons.prems(2) by (simp add: symtab_destroy_def)
      note ih = Cons.IH[of ?st "k + 1", OF _ this Cons.prems(3)]
      have e: "exec_files W (c_val c) (f # fs) (u_parser st) = exec_files W (c_val c) fs (u_parser ?st)"
        by (simp add: Some 3(1))
      have "reads st q st1" if "reads ?st q st1" for q st1
        by (rule reads_from[OF _ that]) (simp add: same_plugin_def)
      with ih Cons.prems(1) show ?thesis unfolding f e by (auto split: option.splits)
    qed
  qed
qed

lemma keyword_define_cond [simp]: "ue_cond (snd (keyword_define W n v p)) = ue_cond p"
  by (simp add: keyword_define_def sym_create_def)

lemma define_keywords_cond: "define_keywords W A ks p = (r, q) \<Longrightarrow> ue_cond p = K \<Longrightarrow> ue_cond q = K"
  by (induction W A ks p rule: define_keywords.induct)
    (auto simp: define_use_env_keyword_def split: option.splits if_splits)

lemma define_argv_cond: "ue_cond (define_argv W av p) = ue_cond p"
proof -
  have "ue_cond (fold (\<lambda>(i, a) q. snd (keyword_define W (''SLURM_ARGV'' @ dec i) a q)) xs q) = ue_cond q" for xs q
    by (induction xs arbitrary: q) auto
  then show ?thesis by (simp add: define_argv_def)
qed

lemma set_argv_cond: "set_argv_keywords W A p = Some (r, q) \<Longrightarrow> ue_cond p = K \<Longrightarrow> ue_cond q = K"
  by (auto simp: set_argv_keywords_def Let_def define_argv_cond split: option.splits list.splits)

lemma define_all_cond: "define_all_keywords W A p = Some (r, q) \<Longrightarrow> ue_cond p = K \<Longrightarrow> ue_cond q = K"
  using define_keywords_cond[of W A _ p _ _ K] set_argv_cond[of W A _ _ _ K] define_keywords_cond[of W A _ _ _ _ K]
  unfolding define_all_keywords_def
  by (clarsimp simp del: define_keywords.simps split: prod.splits option.splits if_splits; blast)

text \<open>C13: When srun or a task reads its files, the keywords of its context are defined first, then the files on
  the list are read in their order, each with the meaning of its statements at the top level
  (live in srun, not in a task) and with the symbols of the file before it forgotten, up to a
  file that cannot be read or gives up; the list is gone afterwards.\<close>

theorem use_env_files_in_order:
  assumes st: "u_list st = Some l" "list_ok l" "\<not> u_broken st" "ue_cond (u_parser st) = Some [c]" "\<not> c_fallthru c"
    and keys: "define_all_keywords W A (u_parser st) = Some (0, p)"
  shows "case exec_files W (c_val c) (list_data l) p of
      None \<Rightarrow> define_and_override W A st = None
    | Some q \<Rightarrow> \<exists>st1. define_and_override W A st = Some (0, st1) \<and> reads st q st1 \<and> u_list st1 = None"
proof -
  have "ue_cond p = Some [c]"
    by (rule define_all_cond[OF keys st(4)])
  obtain m where m: "list_destroy l = Some m" using list_destroy_data[OF st(2)] by blast
  let ?st = "st\<lparr>u_parser := p\<rparr>"
  let ?f = "for_each_list (callback (do_env_override W)) (list_data l) 0 (Some ?st)"
  have all: "define_and_override W A st =
      (case ?f of (r, Some st1) \<Rightarrow> Some (0, st1\<lparr>u_list := None\<rparr>) | (r, None) \<Rightarrow> None)"
    using st m by (auto simp: define_and_override_def keys override_all_def list_for_each_env_def
        list_for_each_data[OF st(2)] split: prod.split option.split)
  have "\<not> u_broken ?st" "ue_cond (u_parser ?st) = Some [c]" using st(3) \<open>ue_cond p = _\<close> by simp_all
  note files = callback_files[OF this st(5), of W "list_data l" 0]
  have list: "reads st q (st1\<lparr>u_list := None\<rparr>)" if "reads ?st q st1" for q st1
    using that by (simp add: reads_def same_plugin_def)
  show ?thesis
  proof (cases "exec_files W (c_val c) (list_data l) p")
    case None
    with files all show ?thesis by auto
  next
    case (Some q)
    with files obtain r st1 where f: "?f = (r, Some st1)" "reads ?st q st1" by auto
    show ?thesis
      unfolding all f(1) Some option.case prod.case using list[OF f(2)] by simp
  qed
qed

theorem use_env_files_in_order_witness:
  "\<exists>l st1. list_data l = [''/etc/b''] \<and>
    define_and_override demo_world demo_answers (demo_plugin l) = Some (0, st1) \<and>
    ue_env (u_parser st1) = [''A=5'', ''B=y'']"
proof -
  obtain l where l: "list_append demo_list ''/etc/b'' = (Some ''/etc/b'', l)"
    using append_cap[of demo_list "''/etc/b''"] some_heap_ok(2) demo_list_ok(3) by auto
  have ok: "list_ok l" "list_data l = [''/etc/b'']"
    using list_append_data(1,3)[OF demo_list_ok(1) l] by (simp_all add: demo_list_ok(2))
  have "(case define_all_keywords demo_world demo_answers (demo_state True) of
      Some (r, p) \<Rightarrow> r = 0 \<and> map_option ue_env (exec_files demo_world True [''/etc/b''] p) = Some [''A=5'', ''B=y'']
    | None \<Rightarrow> False)"
    by code_simp
  then obtain p where p: "define_all_keywords demo_world demo_answers (demo_state True) = Some (0, p)"
      "map_option ue_env (exec_files demo_world True [''/etc/b''] p) = Some [''A=5'', ''B=y'']"
    by (cases "define_all_keywords demo_world demo_answers (demo_state True)")
      (auto simp del: exec_files.simps map_option_eq_Some)
  have "case exec_files demo_world (c_val (cond_create 1)) (list_data l) p of
      None \<Rightarrow> define_and_override demo_world demo_answers (demo_plugin l) = None
    | Some q \<Rightarrow> \<exists>st1. define_and_override demo_world demo_answers (demo_plugin l) = Some (0, st1) \<and>
        reads (demo_plugin l) q st1 \<and> u_list st1 = None"
    by (rule use_env_files_in_order[OF _ ok(1)])
      (simp_all add: demo_plugin_def p(1), simp_all add: demo_state_def cond_create_def)
  with p(2) ok(2) have "\<exists>st1. define_and_override demo_world demo_answers (demo_plugin l) = Some (0, st1) \<and>
      ue_env (u_parser st1) = [''A=5'', ''B=y'']"
    by (auto simp: cond_create_def reads_def simp del: exec_files.simps)
  with ok(2) show ?thesis by blast
qed

section \<open>Where the code surprises\<close>

text \<open>
  Without \<open>HOME\<close> the plugin is disabled and the parser has no condition stack, but
  \<open>slurm_spank_task_init\<close> does not ask and reads the files the options have put on the list: the
  first statement follows a NULL list.
\<close>

lemma no_stack_crashes:
  assumes "ue_cond p = None" "s \<noteq> SEmpty"
  shows "run_stmt W inc cur s p = None"
proof -
  have "condition q = None" if "ue_cond q = None" for q :: "'a uenv"
    using that by (simp add: stack_defs)
  moreover have "ue_cond q = None" if "scan W a p = Some (x, q)" for a x q
    by (rule stack.scan_kept[OF that assms(1)])
  ultimately show ?thesis
    using assms by (cases s) (auto simp: in_task_begin_def condition_push_val_def split: option.split)
qed

lemma disabled_task_crashes:
  assumes "u_disabled st" "\<not> u_broken st" "u_list st = Some l" "list_ok l" "list_data l = f # fs"
    and "ue_cond (u_parser st) = None" "w_files W f = Some (s # ss)" "s \<noteq> SEmpty"
    and "define_all_keywords W A ((u_parser st)\<lparr>ue_ops := True\<rparr>) = Some (0, p)"
  shows "use_env_task_init W A st = None"
proof -
  have "ue_cond p = None" by (rule define_all_cond[OF assms(9)]) (simp add: assms(6))
  from no_stack_crashes[OF this assms(8)] assms show ?thesis
    by (simp add: use_env_task_init_def define_and_override_def override_all_def list_for_each_env_def
        list_for_each_data callback_def do_env_override_def use_env_parse_def del: run_stmt.simps)
qed

end
