(* ===== verification/SystemSafe.thy ===== *)
theory SystemSafe
  imports CString
begin

text \<open>
  \<open>system-safe-preload.c\<close>: a process that cannot fork safely hands the commands of \<open>system\<close> to a
  server it started before, over a pair of sockets.  The bytes under way in one direction are a
  string.  How much a call of \<open>read\<close> or \<open>write\<close> transfers is what the kernel answers: a list of
  answers is used up call by call, and \<open>None\<close> is a run that waits for more of them or does not
  survive.
\<close>

section \<open>Transfers\<close>

datatype io_answer = Interrupted | Failed | Moved nat

type_synonym io = "io_answer list"

text \<open>\<open>write (fd, p, n)\<close>: what it returns (negative when it fails) and the bytes it has sent.\<close>

definition wrote :: "nat \<Rightarrow> string \<Rightarrow> string" where
  "wrote k p = take k p"

fun write_loop :: "io \<Rightarrow> string \<Rightarrow> string \<Rightarrow> (bool \<times> io \<times> string) option" where
  "write_loop as [] ch = Some (True, as, ch)"
| "write_loop [] (b # p) ch = None"
| "write_loop (Interrupted # as) (b # p) ch = write_loop as (b # p) ch"
| "write_loop (Failed # as) (b # p) ch = Some (False, as, ch)"
| "write_loop (Moved k # as) (b # p) ch =
    write_loop as (drop k (b # p)) (ch @ wrote k (b # p))"

definition write_n :: "io \<Rightarrow> string \<Rightarrow> string \<Rightarrow> (int \<times> io \<times> string) option" where
  "write_n as buf ch =
    (case write_loop as buf ch of
       None \<Rightarrow> None
     | Some (ok, as1, ch1) \<Rightarrow> Some (if ok then int (length buf) else - 1, as1, ch1))"

text \<open>
  \<open>read\<close> takes at most what is wanted and what is there; nothing means that the other end is
  closed.
\<close>

fun read_loop :: "io \<Rightarrow> nat \<Rightarrow> string \<Rightarrow> string \<Rightarrow> (bool \<times> string \<times> io \<times> string) option" where
  "read_loop as 0 got ch = Some (True, got, as, ch)"
| "read_loop [] (Suc n) got ch = None"
| "read_loop (Interrupted # as) (Suc n) got ch = read_loop as (Suc n) got ch"
| "read_loop (Failed # as) (Suc n) got ch = Some (False, got, as, ch)"
| "read_loop (Moved k # as) (Suc n) got ch =
    (let bs = take (min k (Suc n)) ch
     in if bs = [] then Some (True, got, as, ch)
        else read_loop as (Suc n - length bs) (got @ bs) (drop (length bs) ch))"

definition read_n :: "io \<Rightarrow> nat \<Rightarrow> string \<Rightarrow> (int \<times> string \<times> io \<times> string) option" where
  "read_n as n ch =
    (case read_loop as n [] ch of
       None \<Rightarrow> None
     | Some (ok, got, as1, ch1) \<Rightarrow> Some (if ok then int (length got) else - 1, got, as1, ch1))"

section \<open>Numbers and strings\<close>

text \<open>The four bytes of an \<open>int\<close>; reading fewer leaves the others as they were, which is 0.\<close>

definition int_bytes :: "int \<Rightarrow> string" where
  "int_bytes i = (let n = nat (i mod 2 ^ 32) in map char_of [n, n div 256, n div 65536, n div 16777216])"

definition bytes_int :: "string \<Rightarrow> int" where
  "bytes_int bs =
    (let b = (\<lambda>i. if i < length bs then of_char (bs ! i) else 0 :: int)
     in sint (word_of_int (b 0 + 256 * b 1 + 65536 * b 2 + 16777216 * b 3) :: 32 word))"

text \<open>
  What the pointer of \<open>read_string\<close> points to: nothing, memory that was allocated and not
  written (not all of it), or a string.
\<close>

datatype buffer = Null | Unset | Str string

definition read_string :: "io \<Rightarrow> string \<Rightarrow> (int \<times> buffer \<times> io \<times> string) option" where
  "read_string as ch =
    (case read_n as 4 ch of
       None \<Rightarrow> None
     | Some (rc, got, as1, ch1) \<Rightarrow>
         if rc < 0 then Some (- 1, Null, as1, ch1)
         else if rc = 0 then Some (0, Null, as1, ch1)
         else (let len = bytes_int got
               in if len = - 1 then None
                  else if len < 0 then Some (- 1, Null, as1, ch1)
                  else (case read_n as1 (nat len) ch1 of
                          None \<Rightarrow> None
                        | Some (rc2, str, as2, ch2) \<Rightarrow>
                            if rc2 < 0 then Some (- 1, Unset, as2, ch2)
                            else if rc2 = 0 then Some (0, Unset, as2, ch2)
                            else Some (len, if rc2 = len then Str str else Unset, as2, ch2))))"

definition write_string :: "io \<Rightarrow> string \<Rightarrow> string \<Rightarrow> (int \<times> io \<times> string) option" where
  "write_string as str ch =
    (case write_n as (int_bytes (int (length str))) ch of
       None \<Rightarrow> None
     | Some (rc, as1, ch1) \<Rightarrow>
         if rc < 0 then Some (- 1, as1, ch1) else write_n as1 str ch1)"

section \<open>The server\<close>

text \<open>
  \<open>strncmp ("LD_PRELOAD=", entry, 10) == 0\<close>, then \<open>entry [11] = '\0'\<close>, which is outside an entry of
  ten characters.
\<close>

definition clear_preload :: "string \<Rightarrow> string option" where
  "clear_preload e =
    (if take 10 e \<noteq> ''LD_PRELOAD'' then Some e
     else if length e < 11 then None
     else Some (take 11 e))"

fun read_env_loop :: "io \<Rightarrow> nat \<Rightarrow> string list \<Rightarrow> string \<Rightarrow> (int \<times> string list \<times> io \<times> string) option" where
  "read_env_loop as 0 env ch = Some (0, env, as, ch)"
| "read_env_loop as (Suc n) env ch =
    (case read_string as ch of
       None \<Rightarrow> None
     | Some (rc, buf, as1, ch1) \<Rightarrow>
         if rc < 0 then Some (- 1, env, as1, ch1)
         else (case buf of
                 Str e \<Rightarrow>
                   (case clear_preload e of
                      None \<Rightarrow> None
                    | Some e1 \<Rightarrow> read_env_loop as1 n (env @ [e1]) ch1)
               | _ \<Rightarrow> None))"

definition read_env :: "io \<Rightarrow> string \<Rightarrow> (int \<times> string list \<times> io \<times> string) option" where
  "read_env as ch =
    (case read_n as 4 ch of
       None \<Rightarrow> None
     | Some (rc, got, as1, ch1) \<Rightarrow>
         if rc < 0 then Some (- 1, [], as1, ch1)
         else if bytes_int got < - 1 then Some (- 1, [], as1, ch1)
         else if bytes_int got < 0 then None
         else read_env_loop as1 (nat (bytes_int got)) [] ch1)"

text \<open>
  One request: the server exits, or it runs the command in the directory (\<open>Null\<close> when there is
  none, where \<open>chdir\<close> fails) with the environment, and sends the result of \<open>system\<close> back.
\<close>

datatype served = Exits | Runs string "string option" "string list"

definition handle_system_request :: "io \<Rightarrow> string \<Rightarrow> (served \<times> io \<times> string) option" where
  "handle_system_request as ch =
    (case read_string as ch of
       None \<Rightarrow> None
     | Some (rc, cmd, as1, ch1) \<Rightarrow>
         if rc \<le> 0 then Some (Exits, as1, ch1)
         else (case read_string as1 ch1 of
                 None \<Rightarrow> None
               | Some (rc2, dir, as2, ch2) \<Rightarrow>
                   if rc2 < 0 then Some (Exits, as2, ch2)
                   else (case read_env as2 ch2 of
                           None \<Rightarrow> None
                         | Some (rc3, env, as3, ch3) \<Rightarrow>
                             if rc3 < 0 then Some (Exits, as3, ch3)
                             else (case (cmd, dir) of
                                     (Str c, Str d) \<Rightarrow> Some (Runs c (Some d) env, as3, ch3)
                                   | (Str c, Null) \<Rightarrow> Some (Runs c None env, as3, ch3)
                                   | _ \<Rightarrow> None))))"

definition send_result :: "io \<Rightarrow> int \<Rightarrow> string \<Rightarrow> (io \<times> string) option" where
  "send_result as rc ch = map_option snd (write_n as (int_bytes rc) ch)"

section \<open>The client\<close>

fun write_entries :: "io \<Rightarrow> string list \<Rightarrow> string \<Rightarrow> (io \<times> string) option" where
  "write_entries as [] ch = Some (as, ch)"
| "write_entries as (e # es) ch =
    (case write_string as e ch of
       None \<Rightarrow> None
     | Some (rc, as1, ch1) \<Rightarrow> write_entries as1 es ch1)"

text \<open>The number of entries is sent by a single \<open>write\<close> whose result is ignored.\<close>

definition write_env :: "io \<Rightarrow> string list \<Rightarrow> string \<Rightarrow> (io \<times> string) option" where
  "write_env as env ch =
    (case as of
       [] \<Rightarrow> None
     | Moved k # as1 \<Rightarrow> write_entries as1 env (ch @ wrote k (int_bytes (int (length env))))
     | _ # as1 \<Rightarrow> write_entries as1 env ch)"

text \<open>
  What \<open>system\<close> sends; \<open>None\<close> also when \<open>getcwd\<close> has failed, whose NULL \<open>write_string\<close> follows.
\<close>

definition system_request ::
    "io \<Rightarrow> string \<Rightarrow> string option \<Rightarrow> string list \<Rightarrow> string \<Rightarrow> (io \<times> string) option" where
  "system_request as cmd dir env ch =
    (case write_string as cmd ch of
       None \<Rightarrow> None
     | Some (r1, as1, ch1) \<Rightarrow>
        (case dir of
           None \<Rightarrow> None
         | Some d \<Rightarrow>
            (case write_string as1 d ch1 of
               None \<Rightarrow> None
             | Some (r2, as2, ch2) \<Rightarrow> write_env as2 env ch2)))"

text \<open>The answer is read by a single \<open>read\<close> into a variable that is not set before.\<close>

definition system_result :: "io \<Rightarrow> string \<Rightarrow> (int \<times> io \<times> string) option" where
  "system_result as ch =
    (case as of
       [] \<Rightarrow> None
     | Moved k # as1 \<Rightarrow>
         if min k (length ch) < 4 then None
         else Some (bytes_int (take 4 ch), as1, drop 4 ch)
     | _ # as1 \<Rightarrow> Some (- 1, as1, ch))"

end
