(* ===== verification/SystemSafeProps.thy ===== *)
theory SystemSafeProps
  imports SystemSafe
begin

text \<open>
  Commands go through the sockets of \<open>system-safe-preload.c\<close> unchanged, however the kernel cuts the
  transfers; and what the protocol cannot carry.
\<close>

section \<open>Numbers\<close>

lemma length_int_bytes [simp]: "length (int_bytes i) = 4"
  by (simp add: int_bytes_def Let_def)

lemma digits_256:
  fixes n :: nat assumes "n < 2 ^ 32"
  shows "n mod 256 + 256 * (n div 256 mod 256) + 65536 * (n div 65536 mod 256) + 16777216 * (n div 16777216 mod 256) = n"
proof -
  have d: "n div 65536 = n div 256 div 256" "n div 16777216 = n div 256 div 256 div 256"
    by (simp_all add: div_mult2_eq[symmetric])
  have "n div 16777216 < 256" using assms by simp
  then have m: "n div 16777216 mod 256 = n div 16777216" by simp
  show ?thesis
    unfolding m unfolding d
    using mult_div_mod_eq[of 256 n] mult_div_mod_eq[of 256 "n div 256"] mult_div_mod_eq[of 256 "n div 256 div 256"]
    by linarith
qed

lemma of_char_char_of_int: "(of_char (char_of (n :: nat)) :: int) = int (n mod 256)"
  by (metis of_char_of of_nat_of_char)

lemma bytes_int_sum:
  "bytes_int (map char_of [n, n div 256, n div 65536, n div 16777216]) =
    sint (word_of_int (int (n mod 256 + 256 * (n div 256 mod 256) + 65536 * (n div 65536 mod 256) +
      16777216 * (n div 16777216 mod 256))) :: 32 word)"
proof -
  have "bytes_int [a, b, c, d] = sint (word_of_int (of_char a + 256 * of_char b + 65536 * of_char c +
      16777216 * of_char d :: int) :: 32 word)" for a b c d
    by (simp add: bytes_int_def)
  then show ?thesis
    by (simp only: list.map of_char_char_of_int of_nat_add of_nat_mult of_nat_numeral)
qed

lemma bytes_int_bytes:
  assumes "- (2 ^ 31) \<le> i" "i < 2 ^ 31"
  shows "bytes_int (int_bytes i) = i"
proof -
  have n: "nat (i mod 2 ^ 32) < 2 ^ 32" by (simp add: nat_less_iff)
  have "bytes_int (int_bytes i) = sint (word_of_int (int (nat (i mod 2 ^ 32))) :: 32 word)"
    unfolding int_bytes_def Let_def bytes_int_sum digits_256[OF n] ..
  also have "\<dots> = sint (word_of_int i :: 32 word)"
  proof -
    have "(word_of_int (int (nat (i mod 2 ^ 32))) :: 32 word) = word_of_int i"
      by (simp add: word_of_int_eq_iff take_bit_eq_mod)
    then show ?thesis by (rule arg_cong)
  qed
  also have "\<dots> = i"
    using assms by (simp add: sint_sbintrunc' signed_take_bit_int_eq_self)
  finally show ?thesis .
qed

section \<open>Transfers\<close>

text \<open>Answers without a failure and without an end of file, and how many of them transfer something.\<close>

definition smooth :: "io \<Rightarrow> bool" where
  "smooth as \<longleftrightarrow> Failed \<notin> set as \<and> Moved 0 \<notin> set as"

definition moves :: "io \<Rightarrow> nat" where
  "moves as = length (filter (\<lambda>a. a \<noteq> Interrupted) as)"

text \<open>
  The answers left when blocks of the given lengths have been transferred one after the other,
  each by as many calls as it takes.
\<close>

fun answers_after :: "nat \<Rightarrow> io \<Rightarrow> io" where
  "answers_after 0 as = as"
| "answers_after (Suc n) [] = []"
| "answers_after (Suc n) (Moved k # as) = answers_after (Suc n - k) as"
| "answers_after (Suc n) (a # as) = answers_after (Suc n) as"

definition answers_after_all :: "nat list \<Rightarrow> io \<Rightarrow> io" where
  "answers_after_all ns as = foldl (\<lambda>as n. answers_after n as) as ns"

lemma smooth_simps [simp]:
  "smooth (Interrupted # as) = smooth as" "\<not> smooth (Failed # as)"
  "smooth (Moved k # as) \<longleftrightarrow> 0 < k \<and> smooth as"
  by (auto simp: smooth_def)

lemma moves_simps [simp]:
  "moves [] = 0" "moves (Interrupted # as) = moves as" "moves (Moved k # as) = Suc (moves as)"
  by (simp_all add: moves_def)

lemma write_loop_all:
  "smooth as \<Longrightarrow> length p \<le> moves as \<Longrightarrow> \<exists>as1. write_loop as p ch = Some (True, as1, ch @ p) \<and>
     smooth as1 \<and> moves as \<le> moves as1 + length p \<and> as1 = answers_after (length p) as"
proof (induction as p ch rule: write_loop.induct)
  case (5 k as b p ch)
  then have "\<exists>as1. write_loop as (drop k (b # p)) (ch @ wrote k (b # p)) =
      Some (True, as1, (ch @ wrote k (b # p)) @ drop k (b # p)) \<and>
     smooth as1 \<and> moves as \<le> moves as1 + length (drop k (b # p)) \<and>
     as1 = answers_after (length (drop k (b # p))) as"
    by (intro 5(1)) auto
  with 5(2) show ?case by (fastforce simp: wrote_def)
qed auto

lemma read_loop_all:
  "smooth as \<Longrightarrow> n \<le> moves as \<Longrightarrow> n \<le> length ch \<Longrightarrow>
     \<exists>as1. read_loop as n got ch = Some (True, got @ take n ch, as1, drop n ch) \<and>
       smooth as1 \<and> moves as \<le> moves as1 + n"
proof (induction as n got ch rule: read_loop.induct)
  case (5 k as n got ch)
  let ?m = "min k (Suc n)"
  have m: "length (take ?m ch) = ?m" "take ?m ch \<noteq> []" using 5(2,4) by auto
  have "\<exists>as1. read_loop as (Suc n - ?m) (got @ take ?m ch) (drop ?m ch) =
      Some (True, (got @ take ?m ch) @ take (Suc n - ?m) (drop ?m ch), as1, drop (Suc n - ?m) (drop ?m ch)) \<and>
       smooth as1 \<and> moves as \<le> moves as1 + (Suc n - ?m)"
    using 5(1)[OF refl m(2)] 5(2-4) m(1) by auto
  moreover have "take ?m ch @ take (Suc n - ?m) (drop ?m ch) = take (Suc n) ch"
    by (metis add_diff_inverse_nat le_add_diff_inverse min.cobounded2 take_add)
  ultimately show ?case using 5(2) m by (fastforce simp: Let_def)
qed auto

lemma write_n_all:
  assumes "smooth as" "length p \<le> moves as"
  obtains as1 where "write_n as p ch = Some (int (length p), as1, ch @ p)" "smooth as1"
    "moves as \<le> moves as1 + length p" "as1 = answers_after (length p) as"
  using write_loop_all[OF assms, of ch] by (auto simp: write_n_def)

lemma read_n_all:
  assumes "smooth as" "n \<le> moves as" "n \<le> length ch"
  obtains as1 where "read_n as n ch = Some (int n, take n ch, as1, drop n ch)" "smooth as1"
    "moves as \<le> moves as1 + n"
  using read_loop_all[OF assms, of "[]"] assms(3) by (auto simp: read_n_def)

section \<open>Strings\<close>

text \<open>What a string looks like under way.\<close>

definition frame :: "string \<Rightarrow> string" where
  "frame s = int_bytes (int (length s)) @ s"

lemma length_frame [simp]: "length (frame s) = 4 + length s"
  by (simp add: frame_def)

lemma write_string_all:
  assumes "smooth as" "length (frame s) \<le> moves as"
  obtains as1 where "write_string as s ch = Some (int (length s), as1, ch @ frame s)" "smooth as1"
    "moves as \<le> moves as1 + length (frame s)" "as1 = answers_after_all [4, length s] as"
proof -
  obtain as2 where 2: "write_n as (int_bytes (int (length s))) ch = Some (4, as2, ch @ int_bytes (int (length s)))"
    "smooth as2" "moves as \<le> moves as2 + 4" "as2 = answers_after 4 as"
    using write_n_all[OF assms(1), of "int_bytes (int (length s))" ch] assms(2) by auto
  obtain as1 where "write_n as2 s (ch @ int_bytes (int (length s))) =
      Some (int (length s), as1, (ch @ int_bytes (int (length s))) @ s)"
    "smooth as1" "moves as2 \<le> moves as1 + length s" "as1 = answers_after (length s) as2"
    using write_n_all[OF 2(2), of s "ch @ int_bytes (int (length s))"] assms(2) 2(3) by auto
  with 2 show thesis by (intro that[of as1]) (auto simp: write_string_def frame_def answers_after_all_def)
qed

lemma read_string_all:
  assumes "smooth as" "length (frame s) \<le> moves as" "s \<noteq> []" "length s < 2 ^ 31"
  obtains as1 where "read_string as (frame s @ ch) = Some (int (length s), Str s, as1, ch)" "smooth as1"
    "moves as \<le> moves as1 + length (frame s)"
proof -
  have take4: "take 4 (frame s @ ch) = int_bytes (int (length s))" "drop 4 (frame s @ ch) = s @ ch"
    by (simp_all add: frame_def)
  obtain as2 where 2: "read_n as 4 (frame s @ ch) = Some (4, int_bytes (int (length s)), as2, s @ ch)"
    "smooth as2" "moves as \<le> moves as2 + 4"
    using read_n_all[OF assms(1), of 4 "frame s @ ch"] assms(2) unfolding take4 by auto
  obtain as1 where 1: "read_n as2 (length s) (s @ ch) = Some (int (length s), s, as1, ch)" "smooth as1"
    "moves as2 \<le> moves as1 + length s"
    using read_n_all[OF 2(2), of "length s" "s @ ch"] assms(2) 2(3) by auto
  have "bytes_int (int_bytes (int (length s))) = int (length s)"
    using assms(4) by (intro bytes_int_bytes) auto
  with 1 2 assms(3) show thesis by (intro that[of as1]) (auto simp: read_string_def)
qed

section \<open>Requests\<close>

definition request :: "string \<Rightarrow> string \<Rightarrow> string list \<Rightarrow> string" where
  "request cmd dir env = frame cmd @ frame dir @ int_bytes (int (length env)) @ concat (map frame env)"

lemma write_entries_all:
  "smooth as \<Longrightarrow> length (concat (map frame es)) \<le> moves as \<Longrightarrow>
    \<exists>as1. write_entries as es ch = Some (as1, ch @ concat (map frame es))"
proof (induction es arbitrary: as ch)
  case (Cons e es)
  obtain as1 where "write_string as e ch = Some (int (length e), as1, ch @ frame e)" "smooth as1"
    "moves as \<le> moves as1 + length (frame e)"
    using write_string_all[OF Cons.prems(1), of e ch] Cons.prems(2) by auto
  with Cons.IH[of as1 "ch @ frame e"] Cons.prems(2) show ?case by auto
qed simp

lemma read_entries_all:
  "smooth as \<Longrightarrow> length (concat (map frame es)) \<le> moves as \<Longrightarrow>
   (\<forall>e\<in>set es. e \<noteq> [] \<and> length e < 2 ^ 31 \<and> (take 10 e = ''LD_PRELOAD'' \<longrightarrow> 11 \<le> length e)) \<Longrightarrow>
    \<exists>as1. read_env_loop as (length es) env (concat (map frame es) @ ch) =
      Some (0, env @ map (\<lambda>e. if take 10 e = ''LD_PRELOAD'' then take 11 e else e) es, as1, ch)"
proof (induction es arbitrary: as env)
  case (Cons e es)
  obtain as1 where "read_string as (frame e @ concat (map frame es) @ ch) =
      Some (int (length e), Str e, as1, concat (map frame es) @ ch)" "smooth as1"
    "moves as \<le> moves as1 + length (frame e)"
    using read_string_all[OF Cons.prems(1), of e] Cons.prems(2,3) by auto
  moreover define e1 where "e1 = (if take 10 e = ''LD_PRELOAD'' then take 11 e else e)"
  moreover have "clear_preload e = Some e1" using Cons.prems(3) by (auto simp: clear_preload_def e1_def)
  moreover have "\<exists>as2. read_env_loop as1 (length es) (env @ [e1]) (concat (map frame es) @ ch) =
      Some (0, (env @ [e1]) @ map (\<lambda>e. if take 10 e = ''LD_PRELOAD'' then take 11 e else e) es, as2, ch)"
    using Cons.prems(2,3) calculation(2,3) by (intro Cons.IH) auto
  ultimately show ?case by auto
qed simp

text \<open>C19: However the kernel cuts and interrupts the transfers, a request that \<open>system\<close> sends is served
  as it was sent: the server runs the same command in the same directory with the same variables
  in the same order, and takes nothing from the requests behind it.  A variable whose name begins
  with \<open>LD_PRELOAD\<close> is cut after eleven characters, which empties \<open>LD_PRELOAD\<close> itself.  The transfers
  must not fail and must be enough, and the one \<open>write\<close> that sends the number of variables, the
  first call after the two strings, must take its four bytes, as its result is not looked at.\<close>

theorem system_request_served:
  assumes cmd: "cmd \<noteq> []" "length cmd < 2 ^ 31" and dir: "dir \<noteq> []" "length dir < 2 ^ 31"
    and env: "length env < 2 ^ 31"
      "\<forall>e\<in>set env. e \<noteq> [] \<and> length e < 2 ^ 31 \<and> (take 10 e = ''LD_PRELOAD'' \<longrightarrow> 11 \<le> length e)"
    and client: "smooth was" "length (request cmd dir env) \<le> moves was"
    and count: "answers_after_all [4, length cmd, 4, length dir] was = Moved k # was3" "4 \<le> k"
    and server: "smooth ras" "length (request cmd dir env) \<le> moves ras"
  shows "\<exists>was1 sent ras1. system_request was cmd (Some dir) env ch = Some (was1, ch @ sent) \<and>
    handle_system_request ras (sent @ rest) =
      Some (Runs cmd (Some dir) (map (\<lambda>e. if take 10 e = ''LD_PRELOAD'' then take 11 e else e) env), ras1, rest)"
proof -
  note len = client(2)[unfolded request_def] server(2)[unfolded request_def]
  obtain w1 where w1: "write_string was cmd ch = Some (int (length cmd), w1, ch @ frame cmd)" "smooth w1"
    "moves was \<le> moves w1 + length (frame cmd)" "w1 = answers_after_all [4, length cmd] was"
    using write_string_all[OF client(1), of cmd ch] len by auto
  obtain w2 where w2: "write_string w1 dir (ch @ frame cmd) = Some (int (length dir), w2, (ch @ frame cmd) @ frame dir)"
    "smooth w2" "moves w1 \<le> moves w2 + length (frame dir)" "w2 = answers_after_all [4, length dir] w1"
    using write_string_all[OF w1(2), of dir "ch @ frame cmd"] len w1(3) by auto
  have k: "w2 = Moved k # was3" using count(1) w1(4) w2(4) by (simp add: answers_after_all_def)
  have m2: "4 + length (concat (map frame env)) \<le> moves w2" using len(1) w1(3) w2(3) by simp
  have "smooth was3" "length (concat (map frame env)) \<le> moves was3" using w2(2) m2 k by auto
  then obtain w4 where "write_entries was3 env (((ch @ frame cmd) @ frame dir) @ int_bytes (int (length env))) =
      Some (w4, (((ch @ frame cmd) @ frame dir) @ int_bytes (int (length env))) @ concat (map frame env))"
    using write_entries_all by blast
  then have sent: "system_request was cmd (Some dir) env ch = Some (w4, ch @ request cmd dir env)"
    using w1(1) w2(1) k count(2) by (simp add: system_request_def write_env_def wrote_def request_def)
  let ?env = "int_bytes (int (length env)) @ concat (map frame env) @ rest"
  obtain r1 where r1: "read_string ras (frame cmd @ frame dir @ ?env) = Some (int (length cmd), Str cmd, r1, frame dir @ ?env)"
    "smooth r1" "moves ras \<le> moves r1 + length (frame cmd)"
    using read_string_all[OF server(1), of cmd] cmd len(2) by auto
  obtain r2 where r2: "read_string r1 (frame dir @ ?env) = Some (int (length dir), Str dir, r2, ?env)"
    "smooth r2" "moves r1 \<le> moves r2 + length (frame dir)"
    using read_string_all[OF r1(2), of dir] dir len(2) r1(3) by auto
  obtain r3 where r3: "read_n r2 4 ?env = Some (4, int_bytes (int (length env)), r3, concat (map frame env) @ rest)"
    "smooth r3" "moves r2 \<le> moves r3 + 4"
    using read_n_all[OF r2(2), of 4 ?env] len(2) r1(3) r2(3) by auto
  have n: "bytes_int (int_bytes (int (length env))) = int (length env)"
    using env(1) by (intro bytes_int_bytes) auto
  obtain r4 where "read_env_loop r3 (length env) [] (concat (map frame env) @ rest) =
      Some (0, map (\<lambda>e. if take 10 e = ''LD_PRELOAD'' then take 11 e else e) env, r4, rest)"
    using read_entries_all[OF r3(2) _ env(2), of "[]" rest] len(2) r1(3) r2(3) r3(3) by auto
  with r1(1) r2(1) r3(1) n cmd(1) have
    "handle_system_request ras (request cmd dir env @ rest) =
      Some (Runs cmd (Some dir) (map (\<lambda>e. if take 10 e = ''LD_PRELOAD'' then take 11 e else e) env), r4, rest)"
    by (simp add: handle_system_request_def read_env_def request_def)
  with sent show ?thesis by blast
qed

text \<open>The client's calls take three bytes, every other one is interrupted, the one of the number takes four.\<close>

definition demo_writes :: io where
  "demo_writes = [Moved 3, Interrupted, Moved 3, Moved 1, Moved 1, Interrupted, Moved 4, Moved 3, Moved 4] @
     concat (replicate 50 [Interrupted, Moved 3])"

theorem system_request_served_witness:
  "\<exists>was1 sent ras1. system_request demo_writes ''ls'' (Some ''/'') [''A=1'', ''LD_PRELOAD=x''] [] =
      Some (was1, sent) \<and>
    handle_system_request (replicate 60 (Moved 3)) sent =
      Some (Runs ''ls'' (Some ''/'') [''A=1'', ''LD_PRELOAD=''], ras1, [])"
proof -
  have "\<exists>was1 sent ras1. system_request demo_writes ''ls'' (Some ''/'') [''A=1'', ''LD_PRELOAD=x''] [] =
      Some (was1, [] @ sent) \<and>
    handle_system_request (replicate 60 (Moved 3)) (sent @ []) =
      Some (Runs ''ls'' (Some ''/'') (map (\<lambda>e. if take 10 e = ''LD_PRELOAD'' then take 11 e else e)
        [''A=1'', ''LD_PRELOAD=x'']), ras1, [])"
  proof (rule system_request_served)
    show "smooth demo_writes" by (simp add: smooth_def demo_writes_def)
    show "length (request ''ls'' ''/'' [''A=1'', ''LD_PRELOAD=x'']) \<le> moves demo_writes"
      by (simp add: request_def moves_def demo_writes_def eval_nat_numeral)
    show "answers_after_all [4, length ''ls'', 4, length ''/''] demo_writes =
        Moved 4 # concat (replicate 50 [Interrupted, Moved 3])"
      by (simp add: answers_after_all_def demo_writes_def eval_nat_numeral)
    show "smooth (replicate 60 (Moved 3))" by (simp add: smooth_def)
    show "length (request ''ls'' ''/'' [''A=1'', ''LD_PRELOAD=x'']) \<le> moves (replicate 60 (Moved 3))"
      by (simp add: request_def moves_def)
  qed simp_all
  then show ?thesis by simp
qed

text \<open>The result comes back by a single \<open>read\<close>, which has to give its four bytes.\<close>

lemma result_returned:
  assumes "- (2 ^ 31) \<le> rc" "rc < 2 ^ 31" "smooth as" "4 \<le> moves as" "4 \<le> k"
  shows "\<exists>as1. send_result as rc [] = Some (as1, int_bytes rc) \<and>
    system_result (Moved k # bs) (int_bytes rc) = Some (rc, bs, [])"
proof -
  obtain as1 where "write_n as (int_bytes rc) [] = Some (int (length (int_bytes rc)), as1, [] @ int_bytes rc)"
    using write_n_all[OF assms(3), of "int_bytes rc" "[]"] assms(4) by auto
  then show ?thesis
    using assms by (simp add: send_result_def system_result_def bytes_int_bytes)
qed

section \<open>Where the protocol fails\<close>

text \<open>The server takes the empty command for the end of the client, and exits.\<close>

lemma empty_command_stops_server:
  assumes "smooth ras" "4 \<le> moves ras"
  shows "\<exists>ras1. handle_system_request ras (frame [] @ rest) = Some (Exits, ras1, rest)"
proof -
  obtain r1 where "read_n ras 4 (frame [] @ rest) = Some (4, int_bytes 0, r1, rest)"
    using read_n_all[OF assms(1), of 4 "frame [] @ rest"] assms(2) by (auto simp: frame_def)
  then show ?thesis
    by (simp add: handle_system_request_def read_string_def bytes_int_bytes read_n_def)
qed

text \<open>An empty entry of the environment is compared in memory that has not been written.\<close>

lemma empty_entry_unset:
  assumes "smooth ras" "4 \<le> moves ras"
  shows "read_env_loop ras (Suc n) env (frame [] @ rest) = None"
proof -
  obtain r1 where "read_n ras 4 (frame [] @ rest) = Some (4, int_bytes 0, r1, rest)"
    using read_n_all[OF assms(1), of 4 "frame [] @ rest"] assms(2) by (auto simp: frame_def)
  then show ?thesis
    by (simp add: read_string_def bytes_int_bytes read_n_def)
qed

text \<open>
  Ten characters are compared where eleven were meant: variables whose names continue
  \<open>LD_PRELOAD\<close> are cut, and an entry \<open>LD_PRELOAD\<close> without \<open>=\<close> is written behind its end.
\<close>

lemma preload_prefix:
  "clear_preload ''LD_PRELOAD_64=/lib/x.so'' = Some ''LD_PRELOAD_''" "clear_preload ''LD_PRELOAD'' = None"
  by (simp_all add: clear_preload_def)

text \<open>A short write of the number of entries is not noticed: the bytes that are missing are never sent.\<close>

lemma short_count_unnoticed:
  "write_env (Moved 2 # as) env ch = write_entries as env (ch @ take 2 (int_bytes (int (length env))))"
  by (simp add: write_env_def wrote_def)

end
