(* ===== verification/OomDetect.thy ===== *)
theory OomDetect
  imports Split CString "HOL-Library.Signed_Division"
begin

text \<open>
  \<open>oom-detect.c\<close>: when a task of a job exits, the processes of the job that the kernel lists in
  \<open>/proc/oomkilled\<close> are reported, each once.
\<close>

section \<open>The file\<close>

record oomkilled_data =
  oo_jobid :: "64 word"
  oo_pid :: int
  oo_vmsize :: int
  oo_rss :: int
  oo_comm :: string

text \<open>A directive \<open>%lu\<close> or \<open>%ld\<close> of \<open>sscanf\<close>: the value and the rest, or no conversion.\<close>

definition scan_lu :: "string \<Rightarrow> (64 word \<times> string) option" where
  "scan_lu s = (case strtoul s of (v, rest) \<Rightarrow> if rest = s then None else Some (v, rest))"

definition scan_ld :: "string \<Rightarrow> (int \<times> string) option" where
  "scan_ld s = (case strtol s of (v, rest) \<Rightarrow> if rest = s then None else Some (v, rest))"

text \<open>\<open>sscanf (line, "%lu %d %ld %ld %15c", ...) == 5\<close>\<close>

definition scan_line :: "string \<Rightarrow> oomkilled_data option" where
  "scan_line line =
    (case scan_lu line of
       None \<Rightarrow> None
     | Some (jobid, s1) \<Rightarrow>
        (case scan_ld s1 of
           None \<Rightarrow> None
         | Some (pid, s2) \<Rightarrow>
            (case scan_ld s2 of
               None \<Rightarrow> None
             | Some (vmsize, s3) \<Rightarrow>
                (case scan_ld s3 of
                   None \<Rightarrow> None
                 | Some (rss, s4) \<Rightarrow>
                    (let s5 = dropWhile isspace s4
                     in if s5 = [] then None
                        else Some \<lparr>oo_jobid = jobid, oo_pid = long_to_int pid, oo_vmsize = vmsize,
                                   oo_rss = rss, oo_comm = take 15 s5\<rparr>)))))"

text \<open>The loop over the lines; a negative count when there are too many or one is not as it should be.\<close>

fun parse_lines :: "nat \<Rightarrow> string list \<Rightarrow> oomkilled_data list \<Rightarrow> int \<times> oomkilled_data list" where
  "parse_lines room [] ds = (int (length ds), ds)"
| "parse_lines room (l # ls) ds =
    (if length ds \<ge> room then (- 1, ds)
     else (case scan_line l of None \<Rightarrow> (- 1, ds) | Some d \<Rightarrow> parse_lines room ls (ds @ [d])))"

text \<open>
  The text of the file, \<open>None\<close> when it cannot be read.  A text that fills the buffer has no NUL:
  \<open>strtok_r\<close> leaves the buffer behind the last line that ends in it, which the run does not survive.
  It does not survive a text of empty lines only either, for which \<open>strtok_r\<close> returns NULL.
\<close>

definition ended_lines :: "string \<Rightarrow> string list" where
  "ended_lines t =
    (let ls = tokens [CHR 0x0A] t in if last t = CHR 0x0A then ls else butlast ls)"

definition parse_oomkilled :: "string option \<Rightarrow> nat \<Rightarrow> (int \<times> oomkilled_data list) option" where
  "parse_oomkilled txt room =
    (case txt of
       None \<Rightarrow> Some (- 1, [])
     | Some t \<Rightarrow>
         if t = [] then Some (0, [])
         else if length t \<ge> 4096 then
           (case parse_lines room (ended_lines (take 4096 t)) [] of
              (n, ds) \<Rightarrow> if n < 0 then Some (n, ds) else None)
         else (case tokens [CHR 0x0A] t of
                 [] \<Rightarrow> None
               | l # ls \<Rightarrow> Some (parse_lines room (l # ls) [])))"

fun collect_job :: "64 word \<Rightarrow> nat \<Rightarrow> oomkilled_data list \<Rightarrow> oomkilled_data list \<Rightarrow> int \<times> oomkilled_data list" where
  "collect_job jid len [] ds = (int (length ds), ds)"
| "collect_job jid len (d # xs) ds =
    (if oo_jobid d \<noteq> jid then collect_job jid len xs ds
     else if length ds \<ge> len then (- 1, ds)
     else collect_job jid len xs (ds @ [d]))"

definition oomkilled_pids ::
    "string option \<Rightarrow> 64 word \<Rightarrow> nat \<Rightarrow> (int \<times> oomkilled_data list) option" where
  "oomkilled_pids txt jid len =
    (case parse_oomkilled txt 64 of
       None \<Rightarrow> None
     | Some (cnt, data) \<Rightarrow> if cnt < 0 then Some (- 1, []) else Some (collect_job jid len data []))"

section \<open>Reports\<close>

text \<open>The static table of process ids, 0 where it is free; the loop from an index on.\<close>

fun pid_reported :: "int \<Rightarrow> int list \<Rightarrow> int \<times> int list" where
  "pid_reported pid [] = (0, [])"
| "pid_reported pid (p # ps) =
    (if p = 0 then (0, pid # ps)
     else if p = pid then (1, p # ps)
     else (case pid_reported pid ps of (r, qs) \<Rightarrow> (r, p # qs)))"

text \<open>The lines of a report; \<open>taskid\<close> is what \<open>spank_get_item\<close> leaves in the variable, as an \<open>int\<close>.\<close>

definition usage_text :: "oomkilled_data \<Rightarrow> string" where
  "usage_text d =
    (let t = (if oo_vmsize d \<noteq> 0 then '' VmSize: '' @ dec_int (oo_vmsize d sdiv 1024) @ ''M'' else []) @
             (if oo_rss d \<noteq> 0 then '' RSS: '' @ dec_int (oo_rss d sdiv 1024) @ ''M'' else [])
     in if length t \<ge> 256 then take 254 t @ ''+'' else t)"

definition print_oomkilled_error :: "oomkilled_data \<Rightarrow> int \<Rightarrow> string list" where
  "print_oomkilled_error d taskid =
    (if taskid \<ge> 0
     then (''task'' @ dec_int taskid @ '': ['' @ oo_comm d @ ''] terminated by OOM killer.'') #
          (if oo_vmsize d \<noteq> 0 \<or> oo_rss d \<noteq> 0 then [''task'' @ dec_int taskid @ '':'' @ usage_text d] else [])
     else (''pid '' @ dec_int (oo_pid d) @ '': ['' @ oo_comm d @ ''] (task id unknown) terminated by OOM killer.'' @ [CHR 0x0A]) #
          (if oo_vmsize d \<noteq> 0 \<or> oo_rss d \<noteq> 0 then [''pid '' @ dec_int (oo_pid d) @ '':'' @ usage_text d] else []))"

section \<open>The plugin\<close>

text \<open>The static variables, what has been reported, and how often \<open>syslog\<close> and \<open>sleep\<close> were called.\<close>

record oom =
  od_do_syslog :: bool
  od_jid :: "64 word"
  od_ntasks :: "32 word"
  od_nexited :: int
  od_pids :: "int list"
  od_reports :: "int list"
  od_lines :: "string list"
  od_syslogs :: nat
  od_sleeps :: nat

definition oom_start :: oom where
  "oom_start = \<lparr>od_do_syslog = False, od_jid = - 1, od_ntasks = - 1, od_nexited = 0,
     od_pids = replicate 64 0, od_reports = [], od_lines = [], od_syslogs = 0, od_sleeps = 0\<rparr>"

text \<open>
  \<open>slurm_spank_init\<close>: \<open>libjob\<close> says whether the library and its function are found, then the
  container of the process, and the number of local tasks if SLURM gives it.
\<close>

definition oom_init ::
    "bool \<Rightarrow> string list \<Rightarrow> bool \<Rightarrow> 64 word \<Rightarrow> 32 word option \<Rightarrow> oom \<Rightarrow> int \<times> oom" where
  "oom_init remote av libjob container cnt st =
    (if \<not> remote then (0, st)
     else (let st1 = (if av \<noteq> [] \<and> strcmp (hd av) ''do_syslog'' = 0 then st\<lparr>od_do_syslog := True\<rparr> else st)
           in if \<not> libjob then (- 1, st1)
              else (0, st1\<lparr>od_jid := container, od_ntasks := (case cnt of None \<Rightarrow> 1 | Some n \<Rightarrow> n)\<rparr>)))"

fun report_loop :: "(int \<Rightarrow> int) \<Rightarrow> oomkilled_data list \<Rightarrow> oom \<Rightarrow> oom" where
  "report_loop task_of [] st = st"
| "report_loop task_of (d # ds) st =
    (case pid_reported (oo_pid d) (od_pids st) of
       (r, ps) \<Rightarrow>
         (let st1 = st\<lparr>od_pids := ps\<rparr>
          in if r \<noteq> 0 then report_loop task_of ds st1
             else report_loop task_of ds
                    (st1\<lparr>od_reports := od_reports st1 @ [oo_pid d],
                         od_lines := od_lines st1 @ print_oomkilled_error d (task_of (oo_pid d))\<rparr>)))"

text \<open>\<open>job\<close> says whether SLURM gives the job, the step and the user for the message.\<close>

definition send_syslog_oom_msg :: "bool \<Rightarrow> oom \<Rightarrow> oom" where
  "send_syslog_oom_msg job st = (if job then st\<lparr>od_syslogs := od_syslogs st + 1\<rparr> else st)"

definition oom_task_exit ::
    "string option \<Rightarrow> (int \<Rightarrow> int) \<Rightarrow> bool \<Rightarrow> oom \<Rightarrow> (int \<times> oom) option" where
  "oom_task_exit txt task_of job st =
    (if od_jid st = - 1 \<or> od_ntasks st = - 1 then Some (0, st)
     else (let st1 = st\<lparr>od_nexited := od_nexited st + 1\<rparr>
           in case oomkilled_pids txt (od_jid st) 16 of
                None \<Rightarrow> None
              | Some (n, killed) \<Rightarrow>
                  if n = 0 then Some (0, st1)
                  else (let st2 = report_loop task_of (take (nat n) killed) st1
                        in if word_of_int (od_nexited st2) \<noteq> od_ntasks st2 then Some (0, st2)
                           else (let st3 = (if od_do_syslog st2 then send_syslog_oom_msg job st2 else st2)
                                 in Some (0, st3\<lparr>od_sleeps := od_sleeps st3 + 1\<rparr>)))))"

end
