(* ===== verification/OomDetectProps.thy ===== *)
theory OomDetectProps
  imports OomDetect
begin

text \<open>
  \<open>oom-detect.c\<close>: the text of \<open>/proc/oomkilled\<close> is read back as the entries it lists, every killed
  process of the job is reported once; what happens when the file has too many entries or cannot
  be read.
\<close>

section \<open>The file\<close>

text \<open>
  An entry of the file, written by the kernel as a line: the job, the process, its sizes and its
  command.
\<close>

record oom_entry =
  e_job :: nat
  e_pid :: nat
  e_vmsize :: nat
  e_rss :: nat
  e_comm :: string

definition entry_line :: "oom_entry \<Rightarrow> string" where
  "entry_line e = dec (e_job e) @ '' '' @ dec (e_pid e) @ '' '' @ dec (e_vmsize e) @ '' '' @
     dec (e_rss e) @ '' '' @ e_comm e"

definition file_text :: "oom_entry list \<Rightarrow> string" where
  "file_text es = concat (map (\<lambda>e. entry_line e @ [CHR 0x0A]) es)"

definition entry_ok :: "oom_entry \<Rightarrow> bool" where
  "entry_ok e \<longleftrightarrow> e_job e < 2 ^ 64 \<and> 0 < e_pid e \<and> e_pid e < 2 ^ 31 \<and> e_vmsize e < 2 ^ 63 \<and>
     e_rss e < 2 ^ 63 \<and> e_comm e \<noteq> [] \<and> \<not> isspace (hd (e_comm e)) \<and> CHR 0x0A \<notin> set (e_comm e) \<and>
     CHR 0x00 \<notin> set (e_comm e)"

text \<open>The entries of a job, and what the code is to keep of one: 15 characters of the command.\<close>

definition of_job :: "64 word \<Rightarrow> oom_entry list \<Rightarrow> oom_entry list" where
  "of_job jid es = filter (\<lambda>e. word_of_nat (e_job e) = jid) es"

definition entry_data :: "oom_entry \<Rightarrow> oomkilled_data" where
  "entry_data e = \<lparr>oo_jobid = word_of_nat (e_job e), oo_pid = int (e_pid e), oo_vmsize = int (e_vmsize e),
     oo_rss = int (e_rss e), oo_comm = take 15 (e_comm e)\<rparr>"

text \<open>
  What the arrays of the code have room for: a text below 4096 bytes, 64 entries, 16 of the job.
\<close>

definition file_fits :: "64 word \<Rightarrow> oom_entry list \<Rightarrow> bool" where
  "file_fits jid es \<longleftrightarrow> length (file_text es) < 4096 \<and> length es \<le> 64 \<and> length (of_job jid es) \<le> 16"

lemma strtoul_entry: "n < 2 ^ 64 \<Longrightarrow> strtoul (dec n @ CHR '' '' # r) = (word_of_nat n, CHR '' '' # r)"
proof -
  assume "n < 2 ^ 64"
  then have "int n < 2 ^ 64" by simp
  moreover have "\<forall>c\<in>set (dec n). isdigit c" using dec_digits by blast
  ultimately show ?thesis
    using strtoul_digits[of "dec n" "CHR '' '' # r"] by (simp add: isdigit_def)
qed

lemma strtol_entry:
  assumes "n < 2 ^ 63"
  shows "strtol (CHR '' '' # dec n @ CHR '' '' # r) = (int n, CHR '' '' # r)"
proof -
  obtain c cs where d: "dec n = c # cs" by (meson dec_ne list.exhaust)
  have dig: "\<forall>x\<in>set (dec n). isdigit x" using dec_digits by blast
  then have c: "isdigit c" by (simp add: d)
  have sp: "isspace (CHR '' '')" "\<not> isdigit (CHR '' '')" by (simp_all add: isspace_def isdigit_def)
  have dw: "dropWhile isspace (CHR '' '' # dec n @ CHR '' '' # r) = dec n @ CHR '' '' # r"
    using isspace_digit[OF c] sp by (simp add: d)
  have tw: "takeWhile isdigit (dec n @ CHR '' '' # r) = dec n"
    "dropWhile isdigit (dec n @ CHR '' '' # r) = CHR '' '' # r"
    using dig sp by (simp_all add: takeWhile_append2)
  have hd: "hd (dec n @ CHR '' '' # r) \<noteq> CHR ''-''" "hd (dec n @ CHR '' '' # r) \<noteq> CHR ''+''"
    using sign_digit[OF c] by (auto simp: d)
  have b: "max (- (2 ^ 63)) (min (2 ^ 63 - 1) (int n)) = int n" using assms by auto
  show ?thesis
    unfolding strtol_def dw Let_def using hd tw b by simp
qed

lemma long_to_int_small: "n < 2 ^ 31 \<Longrightarrow> long_to_int (int n) = int n"
  unfolding long_to_int_def sint_sbintrunc' by (simp add: signed_take_bit_int_eq_self)

lemma scan_entry:
  assumes "entry_ok e"
  shows "scan_line (entry_line e) = Some (entry_data e)"
proof -
  let ?s4 = "CHR '' '' # e_comm e"
  let ?s3 = "CHR '' '' # dec (e_rss e) @ ?s4"
  let ?s2 = "CHR '' '' # dec (e_vmsize e) @ ?s3"
  let ?s1 = "CHR '' '' # dec (e_pid e) @ ?s2"
  have l: "entry_line e = dec (e_job e) @ ?s1" by (simp add: entry_line_def)
  have ne: "x \<noteq> dec n @ x" "x \<noteq> CHR '' '' # dec n @ x" for n x by (simp_all add: append_self_conv2)
  have 1: "scan_lu (entry_line e) = Some (word_of_nat (e_job e), ?s1)"
    using assms ne(1) unfolding scan_lu_def l by (simp add: strtoul_entry entry_ok_def)
  have d: "scan_ld (CHR '' '' # dec n @ CHR '' '' # r) = Some (int n, CHR '' '' # r)" if "n < 2 ^ 63" for n r
    using ne(2)[of "CHR '' '' # r" n] strtol_entry[OF that, of r] by (simp add: scan_ld_def)
  have 2: "scan_ld ?s1 = Some (int (e_pid e), ?s2)" "scan_ld ?s2 = Some (int (e_vmsize e), ?s3)"
    "scan_ld ?s3 = Some (int (e_rss e), ?s4)"
    using assms by (simp_all add: d entry_ok_def)
  obtain c cs where c: "e_comm e = c # cs" "\<not> isspace c" using assms by (cases "e_comm e") (auto simp: entry_ok_def)
  have "isspace (CHR '' '')" by (simp add: isspace_def)
  with c have "dropWhile isspace ?s4 = e_comm e" by simp
  with 1 2 c(1) assms show ?thesis
    by (simp add: scan_line_def entry_data_def long_to_int_small entry_ok_def)
qed

lemma line_no_newline: "entry_ok e \<Longrightarrow> CHR 0x0A \<notin> set (entry_line e)"
  using dec_digits[of "CHR 0x0A"] by (auto simp: entry_line_def entry_ok_def isdigit_def)

lemma line_ne: "entry_line e \<noteq> []"
  by (simp add: entry_line_def)

lemma tokens_file: "\<forall>e\<in>set es. entry_ok e \<Longrightarrow> tokens [CHR 0x0A] (file_text es) = map entry_line es"
proof (induction es)
  case Nil
  show ?case by (simp add: file_text_def tokens_def)
next
  case (Cons e es)
  have skip: "tokens [CHR 0x0A] (CHR 0x0A # s) = tokens [CHR 0x0A] s" for s
    using tokens_skip[of "[CHR 0x0A]" "CHR 0x0A # s"] tokens_skip[of "[CHR 0x0A]" s] by simp
  have "file_text (e # es) = entry_line e @ CHR 0x0A # file_text es" by (simp add: file_text_def)
  then have "tokens [CHR 0x0A] (file_text (e # es)) = entry_line e # tokens [CHR 0x0A] (CHR 0x0A # file_text es)"
    using Cons.prems line_no_newline[of e] line_ne by (intro tokens_first) auto
  with Cons skip show ?case by simp
qed

lemma parse_entries:
  "\<forall>e\<in>set es. entry_ok e \<Longrightarrow> length ds + length es \<le> room \<Longrightarrow>
   parse_lines room (map entry_line es) ds = (int (length ds + length es), ds @ map entry_data es)"
  by (induction es arbitrary: ds) (simp_all add: scan_entry)

lemma collect_entries:
  "length ds + length (of_job jid es) \<le> len \<Longrightarrow>
   collect_job jid len (map entry_data es) ds =
     (int (length ds + length (of_job jid es)), ds @ map entry_data (of_job jid es))"
  by (induction es arbitrary: ds) (auto simp: of_job_def entry_data_def split: if_splits)

text \<open>The file is read back: the code gets the entries of the job, in the order of the file.\<close>

lemma oomkilled_pids_file:
  assumes "\<forall>e\<in>set es. entry_ok e" "file_fits jid es"
  shows "oomkilled_pids (Some (file_text es)) jid 16 =
    Some (int (length (of_job jid es)), map entry_data (of_job jid es))"
proof -
  have p: "parse_oomkilled (Some (file_text es)) 64 = Some (int (length es), map entry_data es)"
  proof (cases es)
    case (Cons e es')
    then have "file_text es \<noteq> []" by (simp add: file_text_def)
    then show ?thesis
      using assms tokens_file[OF assms(1)] parse_entries[OF assms(1), of "[]" 64] Cons
      by (simp add: parse_oomkilled_def file_fits_def)
  qed (simp add: parse_oomkilled_def file_text_def)
  show ?thesis
    using assms(2) collect_entries[of "[]" jid es 16] p by (simp add: oomkilled_pids_def file_fits_def)
qed

section \<open>The table\<close>

text \<open>The table after the processes \<open>ps\<close>.\<close>

definition table :: "int list \<Rightarrow> int list" where
  "table ps = ps @ replicate (64 - length ps) 0"

lemma pid_reported_table:
  assumes "0 \<notin> set ps" "pid \<noteq> 0" "length ps < 64"
  shows "pid_reported pid (table ps) =
    (if pid \<in> set ps then (1, table ps) else (0, table (ps @ [pid])))"
proof -
  have "pid_reported pid (ps @ replicate (Suc n) 0) =
      (if pid \<in> set ps then (1, ps @ replicate (Suc n) 0) else (0, ps @ pid # replicate n 0))" for n
    using assms(1,2) by (induction ps) auto
  moreover have n: "64 - length ps = Suc (63 - length ps)" using assms(3) by simp
  ultimately show ?thesis
    by (simp add: table_def n del: replicate_Suc)
qed

lemma pid_reported_full:
  assumes "0 \<notin> set ps" "pid \<in> set ps"
  shows "pid_reported pid (table ps) = (1, table ps)"
proof -
  have "pid_reported pid (ps @ qs) = (1, ps @ qs)" for qs
    using assms by (induction ps) auto
  then show ?thesis by (simp add: table_def)
qed

section \<open>Reports\<close>

text \<open>The report of an entry, for the task SLURM gives for the process.\<close>

definition report :: "(int \<Rightarrow> int) \<Rightarrow> oom_entry \<Rightarrow> string list" where
  "report task_of e = print_oomkilled_error (entry_data e) (task_of (int (e_pid e)))"

text \<open>What holds of the plugin once the entries \<open>rs\<close> have been reported.\<close>

definition reported :: "(int \<Rightarrow> int) \<Rightarrow> oom_entry list \<Rightarrow> oom \<Rightarrow> bool" where
  "reported task_of rs st \<longleftrightarrow> od_pids st = table (map (\<lambda>e. int (e_pid e)) rs) \<and>
     od_lines st = concat (map (report task_of) rs) \<and> distinct (map e_pid rs) \<and> (\<forall>e\<in>set rs. entry_ok e)"

lemma reported_fits:
  assumes "reported task_of rs st" "e_pid e \<notin> e_pid ` set rs" "card (e_pid ` (set rs \<union> set (e # es))) \<le> 64"
  shows "length rs < 64"
proof -
  have "card (insert (e_pid e) (e_pid ` set rs)) \<le> card (e_pid ` (set rs \<union> set (e # es)))"
    by (intro card_mono) auto
  moreover have "card (e_pid ` set rs) = length rs"
    using assms(1) distinct_card[of "map e_pid rs"] by (simp add: reported_def)
  ultimately show ?thesis using assms(2,3) by simp
qed

lemma report_loop_once:
  assumes "reported task_of rs st" "\<forall>e\<in>set es. entry_ok e" "card (e_pid ` (set rs \<union> set es)) \<le> 64"
  shows "\<exists>rs'. reported task_of rs' (report_loop task_of (map entry_data es) st) \<and> set rs' \<subseteq> set rs \<union> set es \<and>
    e_pid ` set rs' = e_pid ` (set rs \<union> set es) \<and>
    od_jid (report_loop task_of (map entry_data es) st) = od_jid st \<and>
    od_ntasks (report_loop task_of (map entry_data es) st) = od_ntasks st"
  using assms
proof (induction es arbitrary: st rs)
  case Nil
  then show ?case by (auto intro!: exI[of _ rs])
next
  case (Cons e es)
  let ?ps = "map (\<lambda>e. int (e_pid e)) rs"
  have z: "0 \<notin> set ?ps" "e_pid e \<noteq> 0" and tab: "od_pids st = table ?ps"
    using Cons.prems(1,2) by (auto simp: reported_def entry_ok_def)
  show ?case
  proof (cases "e_pid e \<in> e_pid ` set rs")
    case True
    then have "pid_reported (int (e_pid e)) (od_pids st) = (1, od_pids st)"
      using z(1) unfolding tab by (intro pid_reported_full) auto
    then have r: "report_loop task_of (map entry_data (e # es)) st = report_loop task_of (map entry_data es) st"
      by (simp add: entry_data_def)
    have u: "e_pid ` (set rs \<union> set (e # es)) = e_pid ` (set rs \<union> set es)" using True by auto
    with Cons.IH[OF Cons.prems(1)] Cons.prems(2,3) show ?thesis unfolding r u by auto
  next
    case False
    let ?st = "st\<lparr>od_pids := table (?ps @ [int (e_pid e)]), od_reports := od_reports st @ [int (e_pid e)],
      od_lines := od_lines st @ report task_of e\<rparr>"
    have "length ?ps < 64" using reported_fits[OF Cons.prems(1) False Cons.prems(3)] by simp
    then have "pid_reported (int (e_pid e)) (od_pids st) = (0, table (?ps @ [int (e_pid e)]))"
      using z False unfolding tab by (subst pid_reported_table) auto
    then have r: "report_loop task_of (map entry_data (e # es)) st = report_loop task_of (map entry_data es) ?st"
      by (simp add: entry_data_def report_def Let_def)
    have ok: "reported task_of (rs @ [e]) ?st"
      using Cons.prems(1,2) False by (auto simp: reported_def)
    have u: "set (rs @ [e]) \<union> set es = set rs \<union> set (e # es)" by auto
    show ?thesis
      using Cons.IH[OF ok] Cons.prems(2,3) unfolding r u by simp
  qed
qed

section \<open>A job\<close>

text \<open>The exits of the tasks of a job, each with what the file contains then.\<close>

fun oom_exits :: "(int \<Rightarrow> int) \<Rightarrow> bool \<Rightarrow> string option list \<Rightarrow> oom \<Rightarrow> oom option" where
  "oom_exits task_of job [] st = Some st"
| "oom_exits task_of job (t # ts) st =
    (case oom_task_exit t task_of job st of None \<Rightarrow> None | Some (r, st1) \<Rightarrow> oom_exits task_of job ts st1)"

text \<open>The entries of the job that the file lists at one of the exits.\<close>

definition entries_of :: "64 word \<Rightarrow> oom_entry list list \<Rightarrow> oom_entry set" where
  "entries_of jid fs = {e. \<exists>es\<in>set fs. e \<in> set es \<and> word_of_nat (e_job e) = jid}"

lemma finite_entries [simp]: "finite (entries_of jid fs)"
  by (rule finite_subset[of _ "\<Union> (set ` set fs)"]) (auto simp: entries_of_def)

lemma entries_cons: "entries_of jid (es # fs) = set (of_job jid es) \<union> entries_of jid fs"
  by (auto simp: entries_of_def of_job_def)

lemma oom_exits_once:
  assumes "reported task_of rs st" "od_jid st = jid" "jid \<noteq> - 1" "od_ntasks st \<noteq> - 1"
    "\<forall>es\<in>set fs. (\<forall>e\<in>set es. entry_ok e) \<and> file_fits jid es"
    "card (e_pid ` (set rs \<union> entries_of jid fs)) \<le> 64"
  shows "\<exists>st1 rs1. oom_exits task_of job (map (\<lambda>es. Some (file_text es)) fs) st = Some st1 \<and> reported task_of rs1 st1 \<and>
    set rs1 \<subseteq> set rs \<union> entries_of jid fs \<and> e_pid ` set rs1 = e_pid ` (set rs \<union> entries_of jid fs)"
  using assms
proof (induction fs arbitrary: st rs)
  case Nil
  then show ?case by (auto simp: entries_of_def intro!: exI[of _ rs])
next
  case (Cons es fs)
  let ?js = "of_job jid es" and ?st = "st\<lparr>od_nexited := od_nexited st + 1\<rparr>"
  have ok: "\<forall>e\<in>set ?js. entry_ok e" using Cons.prems(5) by (auto simp: of_job_def)
  have d: "oomkilled_pids (Some (file_text es)) jid 16 = Some (int (length ?js), map entry_data ?js)"
    using Cons.prems(5) by (intro oomkilled_pids_file) auto
  have r: "reported task_of rs ?st" using Cons.prems(1) by (simp add: reported_def)
  have "card (e_pid ` (set rs \<union> set ?js)) \<le> card (e_pid ` (set rs \<union> entries_of jid (es # fs)))"
    by (intro card_mono) (auto simp: entries_cons)
  then have "card (e_pid ` (set rs \<union> set ?js)) \<le> 64" using Cons.prems(6) by simp
  from report_loop_once[OF r ok this] obtain rs' where l:
    "reported task_of rs' (report_loop task_of (map entry_data ?js) ?st)" "set rs' \<subseteq> set rs \<union> set ?js"
    "e_pid ` set rs' = e_pid ` (set rs \<union> set ?js)"
    "od_jid (report_loop task_of (map entry_data ?js) ?st) = jid"
    "od_ntasks (report_loop task_of (map entry_data ?js) ?st) = od_ntasks st"
    using Cons.prems(2) by auto
  have "\<exists>r st1. oom_task_exit (Some (file_text es)) task_of job st = Some (r, st1) \<and> reported task_of rs' st1 \<and>
      od_jid st1 = jid \<and> od_ntasks st1 = od_ntasks st"
    using l Cons.prems(2-4) d
    by (cases "?js = []") (auto simp: oom_task_exit_def Let_def send_syslog_oom_msg_def reported_def)
  then obtain r1 st1 where 1: "oom_task_exit (Some (file_text es)) task_of job st = Some (r1, st1)"
    "reported task_of rs' st1" "od_jid st1 = jid" "od_ntasks st1 = od_ntasks st" by blast
  have u: "e_pid ` (set rs' \<union> entries_of jid fs) = e_pid ` (set rs \<union> entries_of jid (es # fs))"
    using l(3) unfolding entries_cons image_Un by blast
  have "\<forall>es\<in>set fs. (\<forall>e\<in>set es. entry_ok e) \<and> file_fits jid es" using Cons.prems(5) by simp
  from Cons.IH[OF 1(2,3) Cons.prems(3) _ this] 1(4) Cons.prems(4,6) u obtain st2 rs2 where
    "oom_exits task_of job (map (\<lambda>es. Some (file_text es)) fs) st1 = Some st2" "reported task_of rs2 st2"
    "set rs2 \<subseteq> set rs' \<union> entries_of jid fs" "e_pid ` set rs2 = e_pid ` (set rs \<union> entries_of jid (es # fs))"
    by auto
  with 1(1) l(2) show ?case by (intro exI[of _ st2] exI[of _ rs2]) (auto simp: entries_cons)
qed

text \<open>C20: Let each exit of a task of a job find \<open>/proc/oomkilled\<close> with some entries, as the lines the
  kernel writes for them, below 4096 bytes, at most 64 entries and at most 16 of the job, and let
  the entries of the job name at most 64 processes over all exits.  Then what the plugin prints is
  the report of some of the entries of the job, one for each process of the job that an entry
  names: every killed process of the job is reported once, and no process of another job.\<close>

theorem oom_reported_once:
  assumes init: "oom_init True av True jid cnt oom_start = (r, st)" "jid \<noteq> - 1" "od_ntasks st \<noteq> - 1"
    and lines: "\<forall>es\<in>set fs. \<forall>e\<in>set es. entry_ok e"
    and room: "\<forall>es\<in>set fs. file_fits jid es" "card (e_pid ` entries_of jid fs) \<le> 64"
  shows "\<exists>st1 rs. oom_exits task_of job (map (\<lambda>es. Some (file_text es)) fs) st = Some st1 \<and>
    od_lines st1 = concat (map (report task_of) rs) \<and> set rs \<subseteq> entries_of jid fs \<and>
    distinct (map e_pid rs) \<and> e_pid ` set rs = e_pid ` entries_of jid fs"
proof -
  have st: "od_jid st = jid" "reported task_of [] st"
    using init(1) by (auto simp: oom_init_def oom_start_def reported_def table_def Let_def split: if_splits)
  have "\<forall>es\<in>set fs. (\<forall>e\<in>set es. entry_ok e) \<and> file_fits jid es" using lines room(1) by blast
  from oom_exits_once[OF st(2,1) init(2,3) this, of job] room(2) show ?thesis
    unfolding reported_def by auto
qed

definition demo_entries :: "oom_entry list" where
  "demo_entries = [\<lparr>e_job = 7, e_pid = 42, e_vmsize = 2048, e_rss = 1024, e_comm = ''a.out''\<rparr>,
     \<lparr>e_job = 8, e_pid = 43, e_vmsize = 0, e_rss = 0, e_comm = ''b''\<rparr>]"

lemma demo_lines: "map entry_line demo_entries = [''7 42 2048 1024 a.out'', ''8 43 0 0 b'']"
  by code_simp

lemma demo_entries_ok: "\<forall>e\<in>set demo_entries. entry_ok e" "file_fits 7 demo_entries"
proof -
  show "\<forall>e\<in>set demo_entries. entry_ok e" by (simp add: demo_entries_def entry_ok_def isspace_def)
  have "file_text demo_entries = concat (map (\<lambda>l. l @ [CHR 0x0A]) (map entry_line demo_entries))"
    by (simp add: file_text_def comp_def)
  then show "file_fits 7 demo_entries"
    unfolding demo_lines by (simp add: file_fits_def of_job_def demo_entries_def)
qed

theorem oom_reported_once_witness:
  "\<exists>st1. oom_exits (\<lambda>_. 0) True [Some (file_text demo_entries), Some (file_text demo_entries)]
      (snd (oom_init True [] True 7 (Some 2) oom_start)) = Some st1 \<and>
    od_lines st1 = [''task0: [a.out] terminated by OOM killer.'', ''task0: VmSize: 2M RSS: 1M'']"
proof -
  let ?r = "oom_init True [] True 7 (Some 2) oom_start" and ?fs = "[demo_entries, demo_entries]"
  have k: "entries_of 7 ?fs = {hd demo_entries}" by (auto simp: entries_of_def demo_entries_def)
  have "\<exists>st1 rs. oom_exits (\<lambda>_. 0) True (map (\<lambda>es. Some (file_text es)) ?fs) (snd ?r) = Some st1 \<and>
      od_lines st1 = concat (map (report (\<lambda>_. 0)) rs) \<and> set rs \<subseteq> entries_of 7 ?fs \<and>
      distinct (map e_pid rs) \<and> e_pid ` set rs = e_pid ` entries_of 7 ?fs"
    using demo_entries_ok
    by (intro oom_reported_once[where r = "fst ?r" and av = "[]" and cnt = "Some 2"])
      (simp_all add: k, simp_all add: oom_init_def)
  then obtain st1 rs where 1: "oom_exits (\<lambda>_. 0) True (map (\<lambda>es. Some (file_text es)) ?fs) (snd ?r) = Some st1"
      "od_lines st1 = concat (map (report (\<lambda>_. 0)) rs)" "set rs \<subseteq> {hd demo_entries}"
      "distinct (map e_pid rs)" "e_pid ` set rs = {42}"
    unfolding k by (auto simp: demo_entries_def)
  have "length rs = card (e_pid ` set rs)" using 1(4) by (metis distinct_card length_map set_map)
  then obtain x where "rs = [x]" using 1(5) by (auto simp: length_Suc_conv)
  with 1(3) have "rs = [hd demo_entries]" by simp
  moreover have "report (\<lambda>_. 0) (hd demo_entries) =
      [''task0: [a.out] terminated by OOM killer.'', ''task0: VmSize: 2M RSS: 1M'']"
    by code_simp
  ultimately have "od_lines st1 = [''task0: [a.out] terminated by OOM killer.'', ''task0: VmSize: 2M RSS: 1M'']"
    using 1(2) by simp
  with 1(1) show ?thesis by auto
qed

section \<open>Where the code surprises\<close>

text \<open>
  When the job has more than the 16 entries \<open>slurm_spank_task_exit\<close> has room for, or the file more
  than 64, or one line is not as it should be, \<open>oomkilled_pids\<close> returns -1 and nothing at all is
  reported.
\<close>

lemma collect_too_many:
  "length ds + length (of_job jid es) > len \<Longrightarrow> length ds \<le> len \<Longrightarrow>
   fst (collect_job jid len (map entry_data es) ds) = - 1"
  by (induction es arbitrary: ds) (auto simp: of_job_def entry_data_def)

lemma too_many_unreported:
  assumes "\<forall>e\<in>set es. entry_ok e" "length (file_text es) < 4096" "length es \<le> 64" "length (of_job jid es) > 16"
    "od_jid st = jid" "jid \<noteq> - 1" "od_ntasks st \<noteq> - 1"
  shows "\<exists>st1. oom_task_exit (Some (file_text es)) task_of job st = Some (0, st1) \<and> od_lines st1 = od_lines st"
proof -
  from assms(4) have ne: "es \<noteq> []" by (auto simp: of_job_def)
  then have "file_text es \<noteq> []" by (cases es) (simp_all add: file_text_def)
  then have "parse_oomkilled (Some (file_text es)) 64 = Some (int (length es), map entry_data es)"
    using assms(2,3) ne tokens_file[OF assms(1)] parse_entries[OF assms(1), of "[]" 64]
    by (cases es) (simp_all add: parse_oomkilled_def)
  then have "\<exists>ds. oomkilled_pids (Some (file_text es)) jid 16 = Some (- 1, ds)"
    using collect_too_many[of 16 "[]" jid es] assms(4)
    by (cases "collect_job jid 16 (map entry_data es) []") (auto simp: oomkilled_pids_def)
  then show ?thesis
    using assms(5-7) by (auto simp: oom_task_exit_def Let_def send_syslog_oom_msg_def)
qed

text \<open>
  A file that cannot be read counts as a killed process: the last task sends the message to the
  log and waits.  A table that is full reports a process again.
\<close>

lemma unreadable_file_logged:
  "map_option (\<lambda>(r, st). (od_reports st, od_syslogs st, od_sleeps st))
     (oom_task_exit None (\<lambda>_. 0) True (snd (oom_init True [''do_syslog''] True 7 (Some 1) oom_start))) =
   Some ([], 1, 1)"
  by (simp add: oom_task_exit_def oom_init_def oom_start_def oomkilled_pids_def parse_oomkilled_def
      send_syslog_oom_msg_def)

lemma full_table_repeats: "0 \<notin> set ps \<Longrightarrow> pid \<notin> set ps \<Longrightarrow> pid_reported pid ps = (0, ps)"
  by (induction ps) auto

end
