(* ===== verification/SpankLuaApi.thy ===== *)
theory SpankLuaApi
  imports CString
begin

text \<open>
  The \<open>lua\<close> plugin, first part: the values and the functions that \<open>lua/lua.c\<close> gives to Lua scripts.
  The Lua interpreter and SLURM are parameters: records of what they answer, on a state \<open>'l\<close> and a
  state \<open>'s\<close>.  A C function works on its own stack, a list of values whose end is the top, and
  returns how many values of the top are its results.
\<close>

unbundle bit_operations_syntax

section \<open>Values\<close>

text \<open>The functions of the table \<open>spank\<close>, and \<open>SPANK._log_msg\<close>.\<close>

datatype api =
    l_spank_option_register
  | l_spank_get_item
  | l_spank_option_getopt
  | l_spank_getenv
  | l_spank_setenv
  | l_spank_unsetenv
  | l_spank_job_control_setenv
  | l_spank_job_control_getenv
  | l_spank_job_control_unsetenv
  | l_spank_log_msg

text \<open>
  Numbers are integers: fractions and the rounding of doubles are left out.  A function is one
  of the plugin or one of Lua; \<open>LHandle\<close> is light userdata, here always the handle of SLURM.
\<close>

datatype lval =
    LNil
  | LBool bool
  | LNum int
  | LStr string
  | LTable "(lval \<times> lval) list"
  | LFun "api option"
  | LHandle

definition is_function :: "lval \<Rightarrow> bool" where
  "is_function v = (case v of LFun f \<Rightarrow> True | _ \<Rightarrow> False)"

definition field :: "(lval \<times> lval) list \<Rightarrow> string \<Rightarrow> lval" where
  "field t k = (case map_of t (LStr k) of None \<Rightarrow> LNil | Some v \<Rightarrow> v)"

text \<open>\<open>lua_settable\<close> on a table that the C code builds: \<open>t[k] = v\<close>.\<close>

fun settable :: "lval \<Rightarrow> lval \<Rightarrow> (lval \<times> lval) list \<Rightarrow> (lval \<times> lval) list" where
  "settable k v [] = [(k, v)]"
| "settable k v ((k', v') # t) = (if k' = k then (k, v) # t else (k', v') # settable k v t)"

text \<open>The value at a positive index, and at index -1.\<close>

definition at_index :: "nat \<Rightarrow> lval list \<Rightarrow> lval" where
  "at_index i s = (if 0 < i \<and> i \<le> length s then s ! (i - 1) else LNil)"

definition top_value :: "lval list \<Rightarrow> lval" where
  "top_value s = (if s = [] then LNil else last s)"

definition lua_pop :: "nat \<Rightarrow> lval list \<Rightarrow> lval list" where
  "lua_pop n s = take (length s - n) s"

definition lua_tostring :: "lval \<Rightarrow> string option" where
  "lua_tostring v = (case v of LStr s \<Rightarrow> Some s | LNum n \<Rightarrow> Some (dec_int n) | _ \<Rightarrow> None)"

section \<open>Items\<close>

datatype lua_item =
    S_JOB_UID | S_JOB_GID | S_JOB_ID | S_JOB_STEPID | S_JOB_NNODES | S_JOB_NODEID
  | S_JOB_LOCAL_TASK_COUNT | S_JOB_TOTAL_TASK_COUNT | S_JOB_NCPUS | S_JOB_ARGV | S_JOB_ENV
  | S_TASK_ID | S_TASK_GLOBAL_ID | S_TASK_EXIT_STATUS | S_TASK_PID | S_JOB_PID_TO_GLOBAL_ID
  | S_JOB_PID_TO_LOCAL_ID | S_JOB_LOCAL_TO_GLOBAL_ID | S_JOB_GLOBAL_TO_LOCAL_ID
  | S_JOB_SUPPLEMENTARY_GIDS | S_SLURM_VERSION | S_SLURM_VERSION_MAJOR | S_SLURM_VERSION_MINOR
  | S_SLURM_VERSION_MICRO | S_STEP_CPUS_PER_TASK | S_JOB_ALLOC_CORES | S_JOB_ALLOC_MEM
  | S_STEP_ALLOC_CORES | S_STEP_ALLOC_MEM

definition spank_item_table :: "(lua_item \<times> string) list" where
  "spank_item_table =
    [(S_JOB_UID, ''S_JOB_UID''), (S_JOB_GID, ''S_JOB_GID''), (S_JOB_ID, ''S_JOB_ID''),
     (S_JOB_STEPID, ''S_JOB_STEPID''), (S_JOB_NNODES, ''S_JOB_NNODES''), (S_JOB_NODEID, ''S_JOB_NODEID''),
     (S_JOB_LOCAL_TASK_COUNT, ''S_JOB_LOCAL_TASK_COUNT''),
     (S_JOB_TOTAL_TASK_COUNT, ''S_JOB_TOTAL_TASK_COUNT''), (S_JOB_NCPUS, ''S_JOB_NCPUS''),
     (S_JOB_ARGV, ''S_JOB_ARGV''), (S_JOB_ENV, ''S_JOB_ENV''), (S_TASK_ID, ''S_TASK_ID''),
     (S_TASK_GLOBAL_ID, ''S_TASK_GLOBAL_ID''), (S_TASK_EXIT_STATUS, ''S_TASK_EXIT_STATUS''),
     (S_TASK_PID, ''S_TASK_PID''), (S_JOB_PID_TO_GLOBAL_ID, ''S_JOB_PID_TO_GLOBAL_ID''),
     (S_JOB_PID_TO_LOCAL_ID, ''S_JOB_PID_TO_LOCAL_ID''),
     (S_JOB_LOCAL_TO_GLOBAL_ID, ''S_JOB_LOCAL_TO_GLOBAL_ID''),
     (S_JOB_GLOBAL_TO_LOCAL_ID, ''S_JOB_GLOBAL_TO_LOCAL_ID''),
     (S_JOB_SUPPLEMENTARY_GIDS, ''S_JOB_SUPPLEMENTARY_GIDS''), (S_SLURM_VERSION, ''S_SLURM_VERSION''),
     (S_SLURM_VERSION_MAJOR, ''S_SLURM_VERSION_MAJOR''), (S_SLURM_VERSION_MINOR, ''S_SLURM_VERSION_MINOR''),
     (S_SLURM_VERSION_MICRO, ''S_SLURM_VERSION_MICRO''), (S_STEP_CPUS_PER_TASK, ''S_STEP_CPUS_PER_TASK''),
     (S_JOB_ALLOC_CORES, ''S_JOB_ALLOC_CORES''), (S_JOB_ALLOC_MEM, ''S_JOB_ALLOC_MEM''),
     (S_STEP_ALLOC_CORES, ''S_STEP_ALLOC_CORES''), (S_STEP_ALLOC_MEM, ''S_STEP_ALLOC_MEM'')]"

fun find_name :: "string \<Rightarrow> (lua_item \<times> string) list \<Rightarrow> lua_item option" where
  "find_name name [] = None"
| "find_name name ((i, n) # t) = (if strcmp n name = 0 then Some i else find_name name t)"

text \<open>\<open>None\<close> is the result -1.\<close>

definition name_to_item :: "string \<Rightarrow> lua_item option" where
  "name_to_item name = find_name name spank_item_table"

section \<open>SLURM and Lua\<close>

datatype spank_ctx = S_CTX_LOCAL | S_CTX_REMOTE | S_CTX_ALLOCATOR | S_CTX_SLURMD | S_CTX_JOB_SCRIPT | S_CTX_ERROR

record spank_option =
  so_name :: string
  so_arginfo :: "string option"
  so_usage :: string
  so_has_arg :: int
  so_val :: int

text \<open>
  \<open>spank_getenv\<close>, \<open>spank_setenv\<close> and \<open>spank_unsetenv\<close>, and the three functions for the environment
  of job scripts, which may be missing in SLURM.  The handle is valid or NULL; the first result
  is the error code, 0 for success.
\<close>

record 's env_api =
  ea_getenv :: "'s \<Rightarrow> bool \<Rightarrow> string \<Rightarrow> nat \<Rightarrow> nat + string"
  ea_setenv :: "'s \<Rightarrow> bool \<Rightarrow> string \<Rightarrow> string \<Rightarrow> int \<Rightarrow> nat \<times> 's"
  ea_unsetenv :: "'s \<Rightarrow> bool \<Rightarrow> string \<Rightarrow> nat \<times> 's"

text \<open>
  What SLURM answers.  A number is written into a variable as 16, 32 or 64 bits (the first
  component), whatever the size of the variable.
\<close>

record 's slurm =
  sl_context :: spank_ctx
  sl_strerror :: "nat \<Rightarrow> string"
  sl_number :: "'s \<Rightarrow> bool \<Rightarrow> lua_item \<Rightarrow> nat + nat \<times> 64 word"
  sl_string :: "'s \<Rightarrow> bool \<Rightarrow> lua_item \<Rightarrow> nat + string"
  sl_argv :: "'s \<Rightarrow> bool \<Rightarrow> nat + string list"
  sl_env :: "'s \<Rightarrow> bool \<Rightarrow> nat + string list"
  sl_gids :: "'s \<Rightarrow> bool \<Rightarrow> nat + int list"
  sl_id :: "'s \<Rightarrow> bool \<Rightarrow> lua_item \<Rightarrow> int \<Rightarrow> nat + nat \<times> 64 word"
  sl_status :: "'s \<Rightarrow> bool \<Rightarrow> nat + 32 word"
  sl_job :: "'s env_api"
  sl_job_control :: "'s env_api option"
  sl_register :: "'s \<Rightarrow> bool \<Rightarrow> spank_option \<Rightarrow> nat \<times> 's"
  sl_getopt :: "'s \<Rightarrow> bool \<Rightarrow> spank_option \<Rightarrow> nat + string option"
  sl_lua_num :: "string \<Rightarrow> int option"
  sl_junk :: "64 word"

text \<open>
  The last two components are the conversion of strings to numbers in Lua, and what variables
  contain that are not initialised.  The result of a C function: its values on the stack and
  their number, or an error of Lua.
\<close>

datatype c_result = Ret nat "lval list" | Raise

definition l_spank_error_msg :: "string \<Rightarrow> lval list \<Rightarrow> c_result" where
  "l_spank_error_msg msg s = Ret 2 (s @ [LNil, LStr msg])"

definition l_spank_error :: "'s slurm \<Rightarrow> nat \<Rightarrow> lval list \<Rightarrow> c_result" where
  "l_spank_error W e s = l_spank_error_msg (sl_strerror W e) s"

definition lua_isnumber :: "'s slurm \<Rightarrow> lval \<Rightarrow> bool" where
  "lua_isnumber W v = (case v of LNum n \<Rightarrow> True | LStr s \<Rightarrow> sl_lua_num W s \<noteq> None | _ \<Rightarrow> False)"

definition lua_tonumber :: "'s slurm \<Rightarrow> lval \<Rightarrow> int" where
  "lua_tonumber W v =
    (case v of
       LNum n \<Rightarrow> n
     | LStr s \<Rightarrow> (case sl_lua_num W s of None \<Rightarrow> 0 | Some n \<Rightarrow> n)
     | _ \<Rightarrow> 0)"

text \<open>The handle, or NULL; in that case the value of the field stays on the stack.\<close>

definition lua_getspank :: "lval list \<Rightarrow> (bool \<times> lval list) option" where
  "lua_getspank s =
    (case at_index 1 s of
       LTable t \<Rightarrow>
         (if field t ''spank'' = LHandle then Some (True, s) else Some (False, s @ [field t ''spank'']))
     | _ \<Rightarrow> None)"

section \<open>\<open>get_item\<close>\<close>

text \<open>A \<open>long\<close> after the lower bits have been written.\<close>

definition stored :: "nat \<Rightarrow> 64 word \<Rightarrow> 64 word \<Rightarrow> 64 word" where
  "stored w v junk = (v AND mask w) OR (junk AND NOT (mask w))"

definition l_spank_get_item_val :: "'s slurm \<Rightarrow> 's \<Rightarrow> bool \<Rightarrow> lua_item \<Rightarrow> lval list \<Rightarrow> c_result" where
  "l_spank_get_item_val W j h item s =
    (case sl_number W j h item of
       Inl e \<Rightarrow> l_spank_error W e s
     | Inr (w, v) \<Rightarrow> Ret 1 (s @ [LNum (sint (stored w v (sl_junk W)))]))"

definition l_spank_get_item_string :: "'s slurm \<Rightarrow> 's \<Rightarrow> bool \<Rightarrow> lua_item \<Rightarrow> lval list \<Rightarrow> c_result" where
  "l_spank_get_item_string W j h item s =
    (case sl_string W j h item of
       Inl e \<Rightarrow> l_spank_error W e s
     | Inr v \<Rightarrow> Ret 1 (s @ [LStr v]))"

text \<open>A table with the values at 1, 2, and so on.\<close>

definition lua_array :: "lval list \<Rightarrow> lval" where
  "lua_array vs = LTable (zip (map (\<lambda>i. LNum (int i)) [1 ..< length vs + 1]) vs)"

definition l_spank_get_item_argv :: "'s slurm \<Rightarrow> 's \<Rightarrow> bool \<Rightarrow> lval list \<Rightarrow> c_result" where
  "l_spank_get_item_argv W j h s =
    (case sl_argv W j h of
       Inl e \<Rightarrow> l_spank_error W e s
     | Inr av \<Rightarrow> Ret 1 (s @ [lua_array (map LStr av)]))"

definition set_env_table_entry :: "string \<Rightarrow> (lval \<times> lval) list \<Rightarrow> (lval \<times> lval) list" where
  "set_env_table_entry entry t =
    (case dropWhile (\<lambda>c. c \<noteq> CHR ''='') entry of
       [] \<Rightarrow> settable (LStr entry) (LStr []) t
     | c # val \<Rightarrow> settable (LStr (takeWhile (\<lambda>c. c \<noteq> CHR ''='') entry)) (LStr val) t)"

definition l_spank_get_item_env :: "'s slurm \<Rightarrow> 's \<Rightarrow> bool \<Rightarrow> lval list \<Rightarrow> c_result" where
  "l_spank_get_item_env W j h s =
    (case sl_env W j h of
       Inl e \<Rightarrow> l_spank_error W e s
     | Inr env \<Rightarrow> Ret 1 (s @ [LTable (fold set_env_table_entry env [])]))"

definition l_spank_get_item_gids :: "'s slurm \<Rightarrow> 's \<Rightarrow> bool \<Rightarrow> lval list \<Rightarrow> c_result" where
  "l_spank_get_item_gids W j h s =
    (case sl_gids W j h of
       Inl e \<Rightarrow> l_spank_error W e s
     | Inr gids \<Rightarrow> Ret 1 (s @ [lua_array (map LNum gids)]))"

definition l_spank_id_query :: "'s slurm \<Rightarrow> 's \<Rightarrow> bool \<Rightarrow> lua_item \<Rightarrow> lval list \<Rightarrow> c_result" where
  "l_spank_id_query W j h item s =
    (if \<not> lua_isnumber W (top_value s) then Raise
     else (let s1 = lua_pop 1 s
           in case sl_id W j h item (lua_tonumber W (top_value s)) of
                Inl e \<Rightarrow> l_spank_error W e s1
              | Inr (w, v) \<Rightarrow> Ret 1 (s1 @ [LNum (sint (stored w v (sl_junk W)))])))"

definition WIFEXITED :: "32 word \<Rightarrow> bool" where
  "WIFEXITED st \<longleftrightarrow> st AND 0x7F = 0"

definition WEXITSTATUS :: "32 word \<Rightarrow> int" where
  "WEXITSTATUS st = sint (drop_bit 8 (st AND 0xFF00))"

definition WTERMSIG :: "32 word \<Rightarrow> int" where
  "WTERMSIG st = sint (st AND 0x7F)"

definition WIFSIGNALED :: "32 word \<Rightarrow> bool" where
  "WIFSIGNALED st \<longleftrightarrow> 0 < sint (ucast ((st AND 0x7F) + 1) :: 8 word) div 2"

definition WCOREDUMP :: "32 word \<Rightarrow> int" where
  "WCOREDUMP st = sint (st AND 0x80)"

definition l_spank_get_exit_status :: "'s slurm \<Rightarrow> 's \<Rightarrow> bool \<Rightarrow> lval list \<Rightarrow> c_result" where
  "l_spank_get_exit_status W j h s =
    (case sl_status W j h of
       Inl e \<Rightarrow> l_spank_error W e s
     | Inr status \<Rightarrow>
         Ret 4 (s @ [LNum (sint status)] @
           (if WIFEXITED status then [LNum (WEXITSTATUS status)] else [LNil]) @
           (if WIFSIGNALED status then [LNum (WTERMSIG status), LNum (WCOREDUMP status)] else [LNil, LNil])))"

text \<open>The case labels of the switch, by what they do.\<close>

definition val_items :: "lua_item list" where
  "val_items = [S_JOB_UID, S_JOB_GID, S_JOB_ID, S_JOB_STEPID, S_JOB_NNODES, S_JOB_NODEID,
     S_JOB_LOCAL_TASK_COUNT, S_JOB_TOTAL_TASK_COUNT, S_JOB_NCPUS, S_TASK_ID, S_TASK_GLOBAL_ID,
     S_TASK_PID, S_STEP_CPUS_PER_TASK, S_JOB_ALLOC_MEM, S_STEP_ALLOC_MEM]"

definition string_items :: "lua_item list" where
  "string_items = [S_JOB_ALLOC_CORES, S_STEP_ALLOC_CORES, S_SLURM_VERSION, S_SLURM_VERSION_MAJOR,
     S_SLURM_VERSION_MINOR, S_SLURM_VERSION_MICRO]"

definition id_items :: "lua_item list" where
  "id_items = [S_JOB_PID_TO_GLOBAL_ID, S_JOB_PID_TO_LOCAL_ID, S_JOB_LOCAL_TO_GLOBAL_ID,
     S_JOB_GLOBAL_TO_LOCAL_ID]"

text \<open>\<open>None\<close> when the item is not a string: \<open>strcmp\<close> follows a NULL.\<close>

definition get_item :: "'s slurm \<Rightarrow> 's \<Rightarrow> lval list \<Rightarrow> c_result option" where
  "get_item W j s =
    (case lua_getspank s of
       None \<Rightarrow> Some Raise
     | Some (h, s1) \<Rightarrow>
        (case lua_tostring (at_index 2 s1) of
           None \<Rightarrow> None
         | Some name \<Rightarrow>
            (case name_to_item name of
               None \<Rightarrow> Some Raise
             | Some item \<Rightarrow>
                Some (if item \<in> set val_items then l_spank_get_item_val W j h item s1
                      else if item \<in> set string_items then l_spank_get_item_string W j h item s1
                      else if item = S_JOB_ARGV then l_spank_get_item_argv W j h s1
                      else if item = S_JOB_ENV then l_spank_get_item_env W j h s1
                      else if item = S_JOB_SUPPLEMENTARY_GIDS then l_spank_get_item_gids W j h s1
                      else if item \<in> set id_items then l_spank_id_query W j h item s1
                      else if item = S_TASK_EXIT_STATUS then l_spank_get_exit_status W j h s1
                      else Raise))))"

section \<open>The environment\<close>

definition l_do_getenv :: "'s slurm \<Rightarrow> 's env_api \<Rightarrow> 's \<Rightarrow> lval list \<Rightarrow> c_result" where
  "l_do_getenv W fn j s =
    (case lua_getspank s of
       None \<Rightarrow> Raise
     | Some (h, s1) \<Rightarrow>
        (case lua_tostring (at_index 2 s1) of
           None \<Rightarrow> Raise
         | Some var \<Rightarrow>
            (case ea_getenv fn j h var 4096 of
               Inl e \<Rightarrow> l_spank_error W e s1
             | Inr buf \<Rightarrow> Ret 1 (s1 @ [LStr buf]))))"

definition l_do_setenv :: "'s slurm \<Rightarrow> 's env_api \<Rightarrow> 's \<Rightarrow> lval list \<Rightarrow> c_result \<times> 's" where
  "l_do_setenv W fn j s =
    (case lua_getspank s of
       None \<Rightarrow> (Raise, j)
     | Some (h, s1) \<Rightarrow>
        (case (lua_tostring (at_index 2 s1), lua_tostring (at_index 3 s1)) of
           (Some var, Some val) \<Rightarrow>
             (case ea_setenv fn j h var val (lua_tonumber W (at_index 4 s1)) of
                (e, j1) \<Rightarrow>
                  if e \<noteq> 0 then (l_spank_error W e s1, j1) else (Ret 1 (s1 @ [LBool True]), j1))
         | _ \<Rightarrow> (Raise, j)))"

definition l_do_unsetenv :: "'s slurm \<Rightarrow> 's env_api \<Rightarrow> 's \<Rightarrow> lval list \<Rightarrow> c_result \<times> 's" where
  "l_do_unsetenv W fn j s =
    (case lua_getspank s of
       None \<Rightarrow> (Raise, j)
     | Some (h, s1) \<Rightarrow>
        (case lua_tostring (at_index 2 s1) of
           None \<Rightarrow> (Raise, j)
         | Some var \<Rightarrow>
             (case ea_unsetenv fn j h var of
                (e, j1) \<Rightarrow>
                  if e \<noteq> 0 then (l_spank_error W e (lua_pop 2 s1), j1)
                  else (Ret 1 (lua_pop 2 s1 @ [LBool True]), j1))))"

text \<open>The functions for job scripts, by way of \<open>sym_lookup\<close>.\<close>

definition job_control ::
    "'s slurm \<Rightarrow> string \<Rightarrow> ('s env_api \<Rightarrow> c_result \<times> 's) \<Rightarrow> 's \<Rightarrow> lval list \<Rightarrow> c_result \<times> 's" where
  "job_control W name f j s =
    (case sl_job_control W of
       None \<Rightarrow> (l_spank_error_msg (name @ '' not implemented in this version'') s, j)
     | Some fn \<Rightarrow> f fn)"

section \<open>The table \<open>spank\<close>\<close>

definition context_name :: "spank_ctx \<Rightarrow> string" where
  "context_name c =
    (case c of
       S_CTX_LOCAL \<Rightarrow> ''local'' | S_CTX_REMOTE \<Rightarrow> ''remote'' | S_CTX_ALLOCATOR \<Rightarrow> ''allocator''
     | S_CTX_SLURMD \<Rightarrow> ''slurmd'' | S_CTX_JOB_SCRIPT \<Rightarrow> ''job_script'' | S_CTX_ERROR \<Rightarrow> ''error'')"

definition spank_functions :: "(string \<times> api) list" where
  "spank_functions =
    [(''register_option'', l_spank_option_register), (''get_item'', l_spank_get_item),
     (''getopt'', l_spank_option_getopt), (''getenv'', l_spank_getenv), (''setenv'', l_spank_setenv),
     (''unsetenv'', l_spank_unsetenv), (''job_control_setenv'', l_spank_job_control_setenv),
     (''job_control_getenv'', l_spank_job_control_getenv),
     (''job_control_unsetenv'', l_spank_job_control_unsetenv)]"

text \<open>The arguments are those behind the name of the script, \<open>av [1]\<close> and so on.\<close>

definition lua_spank_table :: "'s slurm \<Rightarrow> 's \<Rightarrow> string list \<Rightarrow> lval" where
  "lua_spank_table W j av =
    LTable (map (\<lambda>(n, f). (LStr n, LFun (Some f))) spank_functions @
      [(LStr ''spank'', LHandle), (LStr ''context'', LStr (context_name (sl_context W)))] @
      (case sl_string W j True S_SLURM_VERSION of Inl e \<Rightarrow> [] | Inr v \<Rightarrow> [(LStr ''slurm_version'', LStr v)]) @
      [(LStr ''args'', lua_array (map LStr (tl av)))])"

section \<open>Messages\<close>

datatype severity = Error | Info | Verbose | Debug

text \<open>
  \<open>string.gsub (s, '%%', '%%%%')\<close>.  With one argument the function that is loaded takes its place
  and the call fails, as it does for a value that is neither a string nor a number.
\<close>

definition l_string_sanitized :: "lval list \<Rightarrow> string option" where
  "l_string_sanitized s =
    (if length s < 2 then None
     else map_option (\<lambda>m. concat (map (\<lambda>c. if c = CHR ''%'' then [c, c] else [c]) m)) (lua_tostring (at_index 2 s)))"

definition log_msg :: "'s slurm \<Rightarrow> lval list \<Rightarrow> c_result \<times> (severity \<times> string) list" where
  "log_msg W s =
    (if \<not> lua_isnumber W (at_index 1 s) then (Raise, [])
     else (let level = lua_tonumber W (at_index 1 s)
           in case l_string_sanitized s of
                None \<Rightarrow> (Ret 0 s, [])
              | Some msg \<Rightarrow>
                  if level = - 1 then (Ret 1 (s @ [LNum (- 1)]), [(Error, msg)])
                  else (Ret 0 s,
                        if level = 0 then [(Info, msg)]
                        else if level = 1 then [(Verbose, msg)]
                        else if level = 2 then [(Debug, msg)]
                        else [])))"

end
