(* ===== verification/SpankLua.thy ===== *)
theory SpankLua
  imports SpankLuaApi ListMemory
begin

text \<open>
  The \<open>lua\<close> plugin, second part: scripts, options, and the callbacks of SLURM.  The scripts and
  the options are lists of \<open>lib/list.c\<close>; a script is an object that the options point to, so
  scripts live in a store, and a pointer to one that was freed has no meaning any more.
\<close>

section \<open>State and world\<close>

text \<open>
  What a run of Lua code is to the plugin: it calls functions of the plugin, from some thread,
  and goes on with their answer, until it ends in an error or with the value on the top of the
  stack.  Loading a script and calling a function of it are such runs.  Numbers of Lua are
  integers: the conversion of a \<open>lua_Number\<close> to an \<open>int\<close> (\<open>val\<close>, \<open>has_arg\<close>, return codes), which C
  defines only for numbers an \<open>int\<close> can hold, leaves such a number as it is, and the model says
  nothing of others.
\<close>

datatype answer = Returns "lval list" | Raised

datatype lua_result = LError | LResult lval

datatype 'l lua_run =
    Ends lua_result 'l
  | Asks 'l nat api "lval list" "answer \<Rightarrow> 'l lua_run"

record ('l, 's) host = "'s slurm" +
  hs_dlopen :: bool
  hs_glob :: "string \<Rightarrow> string list option"
  hs_newstate :: "'l \<Rightarrow> 'l"
  hs_global :: "'l \<Rightarrow> nat \<Rightarrow> string \<Rightarrow> lval"
  hs_load :: "'l \<Rightarrow> nat \<Rightarrow> string \<Rightarrow> 'l lua_run"
  hs_call :: "'l \<Rightarrow> nat \<Rightarrow> string \<Rightarrow> lval list \<Rightarrow> 'l lua_run"
  hs_mem :: "freelist \<times> freelist \<times> freelist"

text \<open>
  \<open>glob\<close> gives paths, or \<open>None\<close> with a return code other than 0.  \<open>hs_mem\<close> is the memory a new list
  finds.
\<close>

record lua_script =
  sc_path :: string
  sc_thread :: nat
  sc_fail_on_error :: bool

record lua_script_option =
  lo_script :: nat
  lo_val :: int
  lo_function :: "string option"
  lo_opt :: spank_option

datatype 'a pointer = Null | Dangling | To 'a

record ('l, 's) plugin =
  pl_lua :: 'l
  pl_open :: bool
  pl_job :: 's
  pl_store :: "nat \<Rightarrow> lua_script option"
  pl_next :: nat
  pl_scripts :: "nat clist pointer"
  pl_options :: "lua_script_option clist pointer"
  pl_log :: "(severity \<times> string) list"

section \<open>Options\<close>

text \<open>
  \<open>lua_script_option_create\<close> reads the fields of a table.  Results: \<open>None\<close> is a NULL that is
  followed, \<open>Some None\<close> an error of Lua.
\<close>

definition required :: "lval \<Rightarrow> string option option" where
  "required v = (if v = LNil then Some None else map_option Some (lua_tostring v))"

definition optional :: "lval \<Rightarrow> string option option" where
  "optional v = (if v = LNil then Some None else map_option Some (lua_tostring v))"

definition lua_script_option_create ::
    "('l, 's) host \<Rightarrow> 'l \<Rightarrow> nat \<Rightarrow> lua_script \<Rightarrow> lval \<Rightarrow> lua_script_option option option" where
  "lua_script_option_create W l a sc v =
    (case v of
       LTable t \<Rightarrow>
         (case required (field t ''name'') of
            None \<Rightarrow> None
          | Some None \<Rightarrow> Some None
          | Some (Some name) \<Rightarrow>
         (case optional (field t ''arginfo'') of
            None \<Rightarrow> None
          | Some arginfo \<Rightarrow>
         (case required (field t ''usage'') of
            None \<Rightarrow> None
          | Some None \<Rightarrow> Some None
          | Some (Some usage) \<Rightarrow>
         (case optional (field t ''cb'') of
            None \<Rightarrow> None
          | Some cb \<Rightarrow>
             if cb \<noteq> None \<and> \<not> is_function (hs_global W l (sc_thread sc) (the cb)) then Some None
             else Some (Some
               \<lparr>lo_script = a,
                lo_val = lua_tonumber (slurm.truncate W) (field t ''val''),
                lo_function = cb,
                lo_opt = \<lparr>so_name = name, so_arginfo = arginfo, so_usage = usage,
                  so_has_arg = lua_tonumber (slurm.truncate W) (field t ''has_arg''), so_val = 0\<rparr>\<rparr>)))))
     | _ \<Rightarrow> Some None)"

text \<open>
  What is pushed on the stack.  A list that cannot be created is passed to \<open>list_count\<close> as
  NULL; the result of \<open>list_push\<close> is ignored.
\<close>

definition option_list :: "('l, 's) host \<Rightarrow> ('l, 's) plugin \<Rightarrow> lua_script_option clist option" where
  "option_list W st =
    (case pl_options st of
       To l \<Rightarrow> Some l
     | Dangling \<Rightarrow> None
     | Null \<Rightarrow> (case hs_mem W of (lf, nf, itf) \<Rightarrow> fst (list_create True lf nf itf)))"

definition lua_script_option_register ::
    "('l, 's) host \<Rightarrow> nat \<Rightarrow> bool \<Rightarrow> lval \<Rightarrow> ('l, 's) plugin \<Rightarrow> (lval list option \<times> ('l, 's) plugin) option" where
  "lua_script_option_register W a h v st =
    (case pl_store st a of
       None \<Rightarrow> None
     | Some sc \<Rightarrow>
        (case lua_script_option_create W (pl_lua st) a sc v of
           None \<Rightarrow> None
         | Some None \<Rightarrow> Some (None, st)
         | Some (Some opt0) \<Rightarrow>
            (case option_list W st of
               None \<Rightarrow> None
             | Some l \<Rightarrow>
                (let opt = opt0\<lparr>lo_opt := lo_opt opt0\<lparr>so_val := list_count l\<rparr>\<rparr>;
                     l1 = snd (list_push l opt)
                 in case sl_register W (pl_job st) h (lo_opt opt) of
                      (e, j) \<Rightarrow>
                        (let st1 = st\<lparr>pl_options := To l1, pl_job := j\<rparr>
                         in Some (Some (if e \<noteq> 0 then [LNil, LStr (sl_strerror W e)] else [LBool True]), st1))))))"

text \<open>The script of a thread: \<open>Some None\<close> when no script has it.\<close>

definition find_script_by_state :: "(nat \<Rightarrow> lua_script option) \<Rightarrow> nat \<Rightarrow> nat \<Rightarrow> int" where
  "find_script_by_state mem a t =
    (case mem a of None \<Rightarrow> 0 | Some sc \<Rightarrow> if sc_thread sc = t then 1 else 0)"

definition script_of :: "('l, 's) plugin \<Rightarrow> nat \<Rightarrow> nat option option" where
  "script_of st t =
    (case pl_scripts st of
       To l \<Rightarrow> list_find_first l (find_script_by_state (pl_store st)) t
     | _ \<Rightarrow> None)"

text \<open>
  \<open>register_option\<close> pops two values after the results were pushed, so its results are the values
  below them.
\<close>

definition spank_option_register ::
    "('l, 's) host \<Rightarrow> nat \<Rightarrow> lval list \<Rightarrow> ('l, 's) plugin \<Rightarrow> (c_result \<times> ('l, 's) plugin) option" where
  "spank_option_register W t s st =
    (case lua_getspank s of
       None \<Rightarrow> Some (Raise, st)
     | Some (h, s1) \<Rightarrow>
        (case at_index 2 s1 of
           LTable tab \<Rightarrow>
             (case script_of st t of
                Some (Some a) \<Rightarrow>
                  (case lua_script_option_register W a h (LTable tab) st of
                     None \<Rightarrow> None
                   | Some (None, st1) \<Rightarrow> Some (Raise, st1)
                   | Some (Some pushed, st1) \<Rightarrow> Some (Ret (length pushed) (lua_pop 2 (s1 @ pushed)), st1))
              | _ \<Rightarrow> None)
         | _ \<Rightarrow> Some (Raise, st)))"

text \<open>\<open>e_error\<close> is \<open>ESPANK_ERROR\<close>, which says that the option was not used.\<close>

definition ESPANK_ERROR :: nat where
  "ESPANK_ERROR = 1"

definition spank_option_getopt ::
    "('l, 's) host \<Rightarrow> nat \<Rightarrow> lval list \<Rightarrow> ('l, 's) plugin \<Rightarrow> c_result option" where
  "spank_option_getopt W t s st =
    (case lua_getspank s of
       None \<Rightarrow> Some Raise
     | Some (h, s1) \<Rightarrow>
        (case at_index 2 s1 of
           LTable tab \<Rightarrow>
             (case script_of st t of
                None \<Rightarrow> None
              | Some None \<Rightarrow> Some Raise
              | Some (Some a) \<Rightarrow>
                 (case pl_store st a of
                    None \<Rightarrow> None
                  | Some sc \<Rightarrow>
                 (case lua_script_option_create W (pl_lua st) a sc (LTable tab) of
                    None \<Rightarrow> None
                  | Some None \<Rightarrow> Some Raise
                  | Some (Some opt) \<Rightarrow>
                     Some (case sl_getopt W (pl_job st) h (lo_opt opt) of
                             Inl e \<Rightarrow>
                               if e = ESPANK_ERROR then l_spank_error_msg ''Option unused'' (lua_pop 2 s1)
                               else l_spank_error (slurm.truncate W) e (lua_pop 2 s1)
                           | Inr None \<Rightarrow> Ret 1 (lua_pop 2 s1 @ [LBool True])
                           | Inr (Some optarg) \<Rightarrow> Ret 1 (lua_pop 2 s1 @ [LStr optarg])))))
         | _ \<Rightarrow> Some Raise))"

section \<open>Calls from Lua\<close>

definition on_job :: "('l, 's) plugin \<Rightarrow> c_result \<times> 's \<Rightarrow> (c_result \<times> ('l, 's) plugin) option" where
  "on_job st r = Some (fst r, st\<lparr>pl_job := snd r\<rparr>)"

definition api_call ::
    "('l, 's) host \<Rightarrow> api \<Rightarrow> nat \<Rightarrow> lval list \<Rightarrow> ('l, 's) plugin \<Rightarrow> (c_result \<times> ('l, 's) plugin) option" where
  "api_call W f t s st =
    (let S = slurm.truncate W; j = pl_job st
     in case f of
          l_spank_option_register \<Rightarrow> spank_option_register W t s st
        | l_spank_option_getopt \<Rightarrow> map_option (\<lambda>r. (r, st)) (spank_option_getopt W t s st)
        | l_spank_get_item \<Rightarrow> map_option (\<lambda>r. (r, st)) (get_item S j s)
        | l_spank_getenv \<Rightarrow> Some (l_do_getenv S (sl_job W) j s, st)
        | l_spank_setenv \<Rightarrow> on_job st (l_do_setenv S (sl_job W) j s)
        | l_spank_unsetenv \<Rightarrow> on_job st (l_do_unsetenv S (sl_job W) j s)
        | l_spank_job_control_setenv \<Rightarrow>
            on_job st (job_control S ''spank_job_control_setenv'' (\<lambda>fn. l_do_setenv S fn j s) j s)
        | l_spank_job_control_getenv \<Rightarrow>
            on_job st (job_control S ''spank_job_control_getenv'' (\<lambda>fn. (l_do_getenv S fn j s, j)) j s)
        | l_spank_job_control_unsetenv \<Rightarrow>
            on_job st (job_control S ''spank_job_control_unsetenv'' (\<lambda>fn. l_do_unsetenv S fn j s) j s)
        | l_spank_log_msg \<Rightarrow>
            (case log_msg S s of (r, ms) \<Rightarrow> Some (r, st\<lparr>pl_log := pl_log st @ ms\<rparr>)))"

text \<open>The values at the top of the stack go back to Lua.\<close>

definition answer_of :: "c_result \<Rightarrow> answer" where
  "answer_of r = (case r of Raise \<Rightarrow> Raised | Ret n s \<Rightarrow> Returns (drop (length s - n) s))"

primrec run_lua ::
    "('l, 's) host \<Rightarrow> 'l lua_run \<Rightarrow> ('l, 's) plugin \<Rightarrow> (lua_result \<times> ('l, 's) plugin) option" where
  "run_lua W (Ends r l) st = Some (r, st\<lparr>pl_lua := l\<rparr>)"
| "run_lua W (Asks l t f s k) st =
    (case api_call W f t s (st\<lparr>pl_lua := l\<rparr>) of
       None \<Rightarrow> None
     | Some (r, st1) \<Rightarrow> run_lua W (k (answer_of r)) st1)"

definition lua_script_rc :: "('l, 's) host \<Rightarrow> lval \<Rightarrow> int" where
  "lua_script_rc W v = (if lua_isnumber (slurm.truncate W) v then lua_tonumber (slurm.truncate W) v else 0)"

definition s_opt_find :: "lua_script_option \<Rightarrow> int \<Rightarrow> int" where
  "s_opt_find opt v = (if so_val (lo_opt opt) = v then 1 else 0)"

definition lua_spank_option_callback ::
    "('l, 's) host \<Rightarrow> int \<Rightarrow> string option \<Rightarrow> bool \<Rightarrow> ('l, 's) plugin \<Rightarrow> (int \<times> ('l, 's) plugin) option" where
  "lua_spank_option_callback W v optarg remote st =
    (case pl_options st of
       To l \<Rightarrow>
         (case list_find_first l s_opt_find v of
            None \<Rightarrow> None
          | Some None \<Rightarrow> Some (- 1, st)
          | Some (Some opt) \<Rightarrow>
             (case lo_function opt of
                None \<Rightarrow> Some (0, st)
              | Some fn \<Rightarrow>
                 (case pl_store st (lo_script opt) of
                    None \<Rightarrow> None
                  | Some sc \<Rightarrow>
                     (case run_lua W (hs_call W (pl_lua st) (sc_thread sc) fn
                         [LNum (lo_val opt), (case optarg of None \<Rightarrow> LNil | Some x \<Rightarrow> LStr x), LBool remote]) st of
                        None \<Rightarrow> None
                      | Some (LError, st1) \<Rightarrow> Some (- 1, st1)
                      | Some (LResult x, st1) \<Rightarrow> Some (lua_script_rc W x, st1)))))
     | _ \<Rightarrow> None)"

definition lua_spank_call ::
    "('l, 's) host \<Rightarrow> string \<Rightarrow> string list \<Rightarrow> nat \<Rightarrow> ('l, 's) plugin \<Rightarrow> (int \<times> ('l, 's) plugin) option" where
  "lua_spank_call W fn av a st =
    (case pl_store st a of
       None \<Rightarrow> None
     | Some sc \<Rightarrow>
        if hs_global W (pl_lua st) (sc_thread sc) fn = LNil then Some (0, st)
        else (case run_lua W (hs_call W (pl_lua st) (sc_thread sc) fn
                  [lua_spank_table (slurm.truncate W) (pl_job st) av]) st of
                None \<Rightarrow> None
              | Some (LError, st1) \<Rightarrow> Some (if sc_fail_on_error sc then - 1 else 0, st1)
              | Some (LResult x, st1) \<Rightarrow> Some (lua_script_rc W x, st1)))"

section \<open>Loading\<close>

text \<open>The options in a table of the script, in the order of \<open>lua_next\<close>; an error of Lua jumps to a
  frame that is gone.\<close>

fun load_entries ::
    "('l, 's) host \<Rightarrow> nat \<Rightarrow> lval list \<Rightarrow> ('l, 's) plugin \<Rightarrow> (int \<times> ('l, 's) plugin) option" where
  "load_entries W a [] st = Some (0, st)"
| "load_entries W a (v # vs) st =
    (case lua_script_option_register W a True v st of
       None \<Rightarrow> None
     | Some (None, st1) \<Rightarrow> None
     | Some (Some pushed, st1) \<Rightarrow>
         if length pushed > 1 then Some (- 1, st1) else load_entries W a vs st1)"

definition load_spank_options_table ::
    "('l, 's) host \<Rightarrow> nat \<Rightarrow> ('l, 's) plugin \<Rightarrow> (int \<times> ('l, 's) plugin) option" where
  "load_spank_options_table W a st =
    (case pl_store st a of
       None \<Rightarrow> None
     | Some sc \<Rightarrow>
        (case hs_global W (pl_lua st) (sc_thread sc) ''spank_options'' of
           LNil \<Rightarrow> Some (0, st)
         | LTable t \<Rightarrow> load_entries W a (map snd t) st
         | _ \<Rightarrow> None))"

text \<open>A new script has a new thread; both are numbered in the order of their creation.\<close>

definition lua_script_create :: "string \<Rightarrow> ('l, 's) plugin \<Rightarrow> nat \<times> ('l, 's) plugin" where
  "lua_script_create p st =
    (pl_next st,
     st\<lparr>pl_store := (pl_store st)(pl_next st \<mapsto> \<lparr>sc_path = p, sc_thread = pl_next st, sc_fail_on_error = False\<rparr>),
        pl_next := pl_next st + 1\<rparr>)"

definition lua_script_destroy :: "nat \<Rightarrow> ('l, 's) plugin \<Rightarrow> ('l, 's) plugin" where
  "lua_script_destroy a st = st\<lparr>pl_store := (pl_store st)(a := None)\<rparr>"

fun create_scripts :: "string list \<Rightarrow> nat clist \<Rightarrow> ('l, 's) plugin \<Rightarrow> nat clist \<times> ('l, 's) plugin" where
  "create_scripts [] l st = (l, st)"
| "create_scripts (p # ps) l st =
    (case lua_script_create p st of (a, st1) \<Rightarrow> create_scripts ps (snd (list_push l a)) st1)"

text \<open>
  The list, or NULL; there is no pattern when the only argument was \<open>failonerror\<close>.  With a list
  that cannot be created \<open>list_push\<close> stops the program.
\<close>

definition lua_script_list_create ::
    "('l, 's) host \<Rightarrow> string option \<Rightarrow> ('l, 's) plugin \<Rightarrow> (nat clist option \<times> ('l, 's) plugin) option" where
  "lua_script_list_create W pattern st =
    (case Option.bind pattern (hs_glob W) of
       None \<Rightarrow> Some (None, st)
     | Some paths \<Rightarrow>
        (case hs_mem W of
           (lf, nf, itf) \<Rightarrow>
             (case fst (list_create True lf nf itf) of
                None \<Rightarrow> if paths = [] then Some (None, st) else None
              | Some l \<Rightarrow> (case create_scripts paths l st of (l1, st1) \<Rightarrow> Some (Some l1, st1)))))"

text \<open>
  \<open>while ((script = list_next (i)))\<close>.  The body says whether the function returns from the loop,
  where the iterator stays behind.
\<close>

partial_function (option) each_script ::
    "(nat \<Rightarrow> ('l, 's) plugin \<Rightarrow> (bool \<times> ('l, 's) plugin) option) \<Rightarrow> addr \<Rightarrow> ('l, 's) plugin \<Rightarrow>
     (bool \<times> ('l, 's) plugin) option" where
  "each_script body i st =
    (case pl_scripts st of
       To l \<Rightarrow>
         (case list_next l i of
            (None, l1) \<Rightarrow> Some (False, st\<lparr>pl_scripts := To (list_iterator_destroy l1 i)\<rparr>)
          | (Some a, l1) \<Rightarrow>
             (case body a (st\<lparr>pl_scripts := To l1\<rparr>) of
                None \<Rightarrow> None
              | Some (returns, st1) \<Rightarrow> if returns then Some (True, st1) else each_script body i st1))
     | _ \<Rightarrow> None)"

declare each_script.simps [code]

text \<open>\<open>list_remove (i); lua_script_destroy (script)\<close>.\<close>

definition remove_script :: "addr \<Rightarrow> nat \<Rightarrow> ('l, 's) plugin \<Rightarrow> ('l, 's) plugin option" where
  "remove_script i a st =
    (case pl_scripts st of
       To l \<Rightarrow> Some (lua_script_destroy a (st\<lparr>pl_scripts := To (snd (list_remove l i))\<rparr>))
     | _ \<Rightarrow> None)"

definition register_step ::
    "('l, 's) host \<Rightarrow> addr \<Rightarrow> nat \<Rightarrow> ('l, 's) plugin \<Rightarrow> (bool \<times> ('l, 's) plugin) option" where
  "register_step W i a st =
    (case load_spank_options_table W a st of
       None \<Rightarrow> None
     | Some (rc, st1) \<Rightarrow>
        if rc \<ge> 0 then Some (False, st1)
        else (case pl_store st1 a of
                None \<Rightarrow> None
              | Some sc \<Rightarrow>
                  if sc_fail_on_error sc then Some (True, st1)
                  else map_option (Pair False) (remove_script i a st1)))"

text \<open>A NULL list fails the assertion of \<open>list_iterator_create\<close>.\<close>

definition spank_lua_options_table_register ::
    "('l, 's) host \<Rightarrow> ('l, 's) plugin \<Rightarrow> (int \<times> ('l, 's) plugin) option" where
  "spank_lua_options_table_register W st =
    (case pl_scripts st of
       To l \<Rightarrow>
         (case list_iterator_create l of
            (None, l1) \<Rightarrow> Some (- 1, st\<lparr>pl_scripts := To l1\<rparr>)
          | (Some i, l1) \<Rightarrow>
             (case each_script (register_step W i) i (st\<lparr>pl_scripts := To l1\<rparr>) of
                None \<Rightarrow> None
              | Some (returns, st1) \<Rightarrow> Some (if returns then - 1 else 0, st1)))
     | _ \<Rightarrow> None)"

text \<open>\<open>fail_on_error\<close> keeps what was in the variable when it is not set; \<open>av [0]\<close> has to exist.\<close>

definition spank_lua_process_args :: "bool \<Rightarrow> string list \<Rightarrow> (bool \<times> string list) option" where
  "spank_lua_process_args junk av =
    (case av of
       [] \<Rightarrow> None
     | a # as \<Rightarrow> if strcmp a ''failonerror'' = 0 then Some (True, as) else Some (junk, av))"

definition lua_script_valid_in_context :: "('l, 's) host \<Rightarrow> nat \<Rightarrow> ('l, 's) plugin \<Rightarrow> bool" where
  "lua_script_valid_in_context W t st =
    (let missing = (\<lambda>f. hs_global W (pl_lua st) t f = LNil)
     in \<not> (sl_context W = S_CTX_SLURMD \<and>
           missing ''slurm_spank_slurmd_exit'' \<and> missing ''slurm_spank_slurmd_init'') \<and>
        \<not> (sl_context W = S_CTX_JOB_SCRIPT \<and>
           missing ''slurm_spank_job_epilog'' \<and> missing ''slurm_spank_job_prolog''))"

definition init_step ::
    "('l, 's) host \<Rightarrow> bool \<Rightarrow> addr \<Rightarrow> nat \<Rightarrow> ('l, 's) plugin \<Rightarrow> (bool \<times> ('l, 's) plugin) option" where
  "init_step W fail i a st =
    (case pl_store st a of
       None \<Rightarrow> None
     | Some sc \<Rightarrow>
        (let st1 = st\<lparr>pl_store := (pl_store st)(a \<mapsto> sc\<lparr>sc_fail_on_error := fail\<rparr>)\<rparr>
         in case run_lua W (hs_load W (pl_lua st1) (sc_thread sc) (sc_path sc)) st1 of
              None \<Rightarrow> None
            | Some (LError, st2) \<Rightarrow>
                if fail then Some (True, st2) else map_option (Pair False) (remove_script i a st2)
            | Some (LResult v, st2) \<Rightarrow>
                if \<not> lua_script_valid_in_context W (sc_thread sc) st2
                then map_option (Pair False) (remove_script i a st2)
                else Some (False, st2)))"

text \<open>The bit that is not initialised is an argument.\<close>

definition spank_lua_init ::
    "('l, 's) host \<Rightarrow> bool \<Rightarrow> string list \<Rightarrow> ('l, 's) plugin \<Rightarrow> (int \<times> ('l, 's) plugin) option" where
  "spank_lua_init W junk av st =
    (if av = [] then Some (- 1, st)
     else (case spank_lua_process_args junk av of
       None \<Rightarrow> None
     | Some (fail, av1) \<Rightarrow>
        if \<not> hs_dlopen W then Some (- 1, st)
        else
          (case lua_script_list_create W (case av1 of [] \<Rightarrow> None | p # ps \<Rightarrow> Some p)
              (st\<lparr>pl_lua := hs_newstate W (pl_lua st), pl_open := True\<rparr>) of
             None \<Rightarrow> None
           | Some (None, st1) \<Rightarrow> Some (0, st1\<lparr>pl_scripts := Null\<rparr>)
           | Some (Some l, st1) \<Rightarrow>
               (case list_iterator_create l of
                  (None, l1) \<Rightarrow> None
                | (Some i, l1) \<Rightarrow>
                   (case each_script (init_step W fail i) i (st1\<lparr>pl_scripts := To l1\<rparr>) of
                      None \<Rightarrow> None
                    | Some (returns, st2) \<Rightarrow> Some (if returns then - 1 else 0, st2))))))"

section \<open>Callbacks\<close>

text \<open>The result so far is kept beside the state.\<close>

partial_function (option) call_loop ::
    "('l, 's) host \<Rightarrow> string \<Rightarrow> string list \<Rightarrow> addr \<Rightarrow> int \<Rightarrow> ('l, 's) plugin \<Rightarrow> (int \<times> ('l, 's) plugin) option" where
  "call_loop W fn av i rc st =
    (case pl_scripts st of
       To l \<Rightarrow>
         (case list_next l i of
            (None, l1) \<Rightarrow> Some (rc, st\<lparr>pl_scripts := To (list_iterator_destroy l1 i)\<rparr>)
          | (Some a, l1) \<Rightarrow>
             (case lua_spank_call W fn av a (st\<lparr>pl_scripts := To l1\<rparr>) of
                None \<Rightarrow> None
              | Some (r, st1) \<Rightarrow> call_loop W fn av i (if r < 0 then - 1 else rc) st1))
     | _ \<Rightarrow> None)"

declare call_loop.simps [code]

definition call_foreach ::
    "('l, 's) host \<Rightarrow> string \<Rightarrow> string list \<Rightarrow> ('l, 's) plugin \<Rightarrow> (int \<times> ('l, 's) plugin) option" where
  "call_foreach W fn av st =
    (case pl_scripts st of
       Null \<Rightarrow> Some (0, st)
     | Dangling \<Rightarrow> None
     | To l \<Rightarrow>
        (case spank_lua_process_args False av of
           None \<Rightarrow> None
         | Some (fail, av1) \<Rightarrow>
            (case list_iterator_create l of
               (None, l1) \<Rightarrow> None
             | (Some i, l1) \<Rightarrow> call_loop W fn av1 i 0 (st\<lparr>pl_scripts := To l1\<rparr>))))"

definition lua_spank_init ::
    "('l, 's) host \<Rightarrow> bool \<Rightarrow> string list \<Rightarrow> ('l, 's) plugin \<Rightarrow> (int \<times> ('l, 's) plugin) option" where
  "lua_spank_init W junk av st =
    (case spank_lua_init W junk av st of
       None \<Rightarrow> None
     | Some (rc, st1) \<Rightarrow>
        if rc < 0 then Some (- 1, st1)
        else (case spank_lua_options_table_register W st1 of
                None \<Rightarrow> None
              | Some (rc2, st2) \<Rightarrow>
                  if rc2 < 0 then Some (- 1, st2) else call_foreach W ''slurm_spank_init'' av st2))"

text \<open>
  \<open>slurm_spank_slurmd_init\<close>, \<open>slurm_spank_job_prolog\<close> and \<open>slurm_spank_job_epilog\<close> load the scripts
  and call them; the other callbacks only call them.
\<close>

datatype init_hook = Slurmd_init | Job_prolog | Job_epilog

definition init_hook_name :: "init_hook \<Rightarrow> string" where
  "init_hook_name h =
    (case h of
       Slurmd_init \<Rightarrow> ''slurm_spank_slurmd_init''
     | Job_prolog \<Rightarrow> ''slurm_spank_job_prolog''
     | Job_epilog \<Rightarrow> ''slurm_spank_job_epilog'')"

definition init_and_call ::
    "('l, 's) host \<Rightarrow> init_hook \<Rightarrow> bool \<Rightarrow> string list \<Rightarrow> ('l, 's) plugin \<Rightarrow> (int \<times> ('l, 's) plugin) option" where
  "init_and_call W h junk av st =
    (case spank_lua_init W junk av st of
       None \<Rightarrow> None
     | Some (rc, st1) \<Rightarrow> if rc < 0 then Some (- 1, st1) else call_foreach W (init_hook_name h) av st1)"

datatype hook =
    Init_post_opt | Local_user_init | User_init | Task_init_privileged | Task_init | Task_post_fork | Task_exit

definition hook_name :: "hook \<Rightarrow> string" where
  "hook_name h =
    (case h of
       Init_post_opt \<Rightarrow> ''slurm_spank_init_post_opt''
     | Local_user_init \<Rightarrow> ''slurm_spank_local_user_init''
     | User_init \<Rightarrow> ''slurm_spank_user_init''
     | Task_init_privileged \<Rightarrow> ''slurm_spank_task_init_privileged''
     | Task_init \<Rightarrow> ''slurm_spank_task_init''
     | Task_post_fork \<Rightarrow> ''slurm_spank_task_post_fork''
     | Task_exit \<Rightarrow> ''slurm_spank_task_exit'')"

definition only_call ::
    "('l, 's) host \<Rightarrow> hook \<Rightarrow> string list \<Rightarrow> ('l, 's) plugin \<Rightarrow> (int \<times> ('l, 's) plugin) option" where
  "only_call W h av st = call_foreach W (hook_name h) av st"

text \<open>\<open>list_destroy\<close> calls \<open>lua_script_destroy\<close> for each script; the pointers stay as they are.\<close>

definition destroy_scripts :: "('l, 's) plugin \<Rightarrow> ('l, 's) plugin option" where
  "destroy_scripts st =
    (case pl_scripts st of
       Null \<Rightarrow> Some st
     | Dangling \<Rightarrow> None
     | To l \<Rightarrow>
        (case list_destroy l of
           None \<Rightarrow> None
         | Some m \<Rightarrow> Some (fold lua_script_destroy (l_deleted m) (st\<lparr>pl_scripts := Dangling\<rparr>))))"

definition destroy_options :: "('l, 's) plugin \<Rightarrow> ('l, 's) plugin option" where
  "destroy_options st =
    (case pl_options st of
       Null \<Rightarrow> Some st
     | Dangling \<Rightarrow> None
     | To l \<Rightarrow> (case list_destroy l of None \<Rightarrow> None | Some m \<Rightarrow> Some (st\<lparr>pl_options := Dangling\<rparr>)))"

text \<open>
  \<open>slurm_spank_exit\<close> and \<open>slurm_spank_slurmd_exit\<close> (the argument); \<open>lua_close\<close> follows the pointer
  \<open>global_L\<close>.
\<close>

definition lua_exit ::
    "('l, 's) host \<Rightarrow> bool \<Rightarrow> string list \<Rightarrow> ('l, 's) plugin \<Rightarrow> (int \<times> ('l, 's) plugin) option" where
  "lua_exit W slurmd av st =
    (case call_foreach W (if slurmd then ''slurm_spank_slurmd_exit'' else ''slurm_spank_exit'') av st of
       None \<Rightarrow> None
     | Some (rc, st1) \<Rightarrow>
        (case destroy_scripts st1 of
           None \<Rightarrow> None
         | Some st2 \<Rightarrow>
            (case destroy_options st2 of
               None \<Rightarrow> None
             | Some st3 \<Rightarrow> if pl_open st3 then Some (rc, st3\<lparr>pl_open := False\<rparr>) else None)))"

end
