(* ===== verification/SpankLuaLaws.thy ===== *)
theory SpankLuaLaws
  imports SpankLua
begin

text \<open>
  Runs of Lua code in the plugin: they keep the list of scripts, see no more of it than the
  sequence of its scripts, and only add options.
\<close>

section \<open>The list of scripts\<close>

abbreviation with_scripts :: "nat clist \<Rightarrow> ('l, 's) plugin \<Rightarrow> ('l, 's) plugin" where
  "with_scripts l st \<equiv> st\<lparr>pl_scripts := To l\<rparr>"

text \<open>Results with another list of scripts.\<close>

definition moved :: "nat clist \<Rightarrow> ('r \<times> ('l, 's) plugin) option \<Rightarrow> ('r \<times> ('l, 's) plugin) option" where
  "moved l r = map_option (\<lambda>(x, st). (x, with_scripts l st)) r"

lemma moved_simps [simp]:
  "moved l None = None" "moved l (Some (x, st)) = Some (x, with_scripts l st)"
  "moved l r = None \<longleftrightarrow> r = None"
  by (auto simp: moved_def)

definition same_scripts :: "nat clist \<Rightarrow> ('l, 's) plugin \<Rightarrow> bool" where
  "same_scripts l st \<longleftrightarrow> (\<exists>l0. pl_scripts st = To l0 \<and> list_ok l0 \<and> list_ok l \<and> list_data l = list_data l0)"

lemma same_scripts_cong: "pl_scripts st1 = pl_scripts st \<Longrightarrow> same_scripts l st1 = same_scripts l st"
  by (simp add: same_scripts_def)

lemma script_of_moved: "same_scripts l st \<Longrightarrow> script_of (with_scripts l st) t = script_of st t"
  by (auto simp: same_scripts_def script_of_def list_find_first_data)

lemma option_register_moved:
  "lua_script_option_register W a h v (with_scripts l st) = moved l (lua_script_option_register W a h v st)"
  by (simp add: lua_script_option_register_def option_list_def Let_def split: option.split prod.split)

lemma option_register_scripts:
  "lua_script_option_register W a h v st = Some (r, st1) \<Longrightarrow> pl_scripts st1 = pl_scripts st \<and> pl_store st1 = pl_store st"
  by (auto simp: lua_script_option_register_def Let_def split: option.splits prod.splits)

lemma api_call_moved:
  assumes "same_scripts l st"
  shows "api_call W f t s (with_scripts l st) = moved l (api_call W f t s st)"
proof (cases f)
  case l_spank_option_register
  then show ?thesis
    by (auto simp: api_call_def spank_option_register_def Let_def script_of_moved[OF assms] option_register_moved
        split: option.split lval.split prod.split)
next
  case l_spank_option_getopt
  have "spank_option_getopt W t s (with_scripts l st) = spank_option_getopt W t s st"
    by (simp add: spank_option_getopt_def script_of_moved[OF assms] split: option.split lval.split)
  with l_spank_option_getopt show ?thesis
    by (cases "spank_option_getopt W t s st") (simp_all add: api_call_def Let_def)
next
  case l_spank_get_item
  then show ?thesis by (cases "get_item (slurm.truncate W) (pl_job st) s") (simp_all add: api_call_def Let_def)
qed (auto simp: api_call_def Let_def on_job_def split: prod.split)

lemma api_call_scripts:
  assumes "api_call W f t s st = Some (r, st1)"
  shows "pl_scripts st1 = pl_scripts st" "pl_store st1 = pl_store st"
  using assms
  by (auto simp: api_call_def spank_option_register_def Let_def on_job_def
      split: api.splits option.splits lval.splits prod.splits dest: option_register_scripts)

lemma run_lua_scripts:
  "run_lua W p st = Some (r, st1) \<Longrightarrow> pl_scripts st1 = pl_scripts st \<and> pl_store st1 = pl_store st"
proof (induction p arbitrary: st)
  case (Asks l t f s k)
  from Asks.prems obtain a st2 where 1: "api_call W f t s (st\<lparr>pl_lua := l\<rparr>) = Some (a, st2)"
    "run_lua W (k (answer_of a)) st2 = Some (r, st1)" by (auto split: option.splits prod.splits)
  from api_call_scripts[OF 1(1)] Asks.IH[OF rangeI 1(2)] show ?case by simp
qed auto

lemma run_lua_moved:
  "same_scripts l st \<Longrightarrow> run_lua W p (with_scripts l st) = moved l (run_lua W p st)"
proof (induction p arbitrary: st)
  case (Asks l' t f s k)
  have s: "same_scripts l (st\<lparr>pl_lua := l'\<rparr>)" using Asks.prems by (simp add: same_scripts_def)
  have u: "(with_scripts l st)\<lparr>pl_lua := l'\<rparr> = with_scripts l (st\<lparr>pl_lua := l'\<rparr>)" by simp
  show ?case
  proof (cases "api_call W f t s (st\<lparr>pl_lua := l'\<rparr>)")
    case None
    then show ?thesis using api_call_moved[OF s, of W f t s] by (simp add: u)
  next
    case (Some r)
    obtain a st2 where r: "r = (a, st2)" by (cases r)
    have "same_scripts l st2"
      using api_call_scripts(1)[OF Some[unfolded r]] s by (simp add: same_scripts_def)
    from Asks.IH[OF rangeI this] Some r show ?thesis
      using api_call_moved[OF s, of W f t s] by (simp add: u)
  qed
qed simp

section \<open>Callbacks\<close>

lemma spank_call_moved:
  "same_scripts l st \<Longrightarrow> lua_spank_call W fn av a (with_scripts l st) = moved l (lua_spank_call W fn av a st)"
  by (auto simp: lua_spank_call_def run_lua_moved moved_def split: option.split lua_result.split)

lemma spank_call_scripts:
  "lua_spank_call W fn av a st = Some (r, st1) \<Longrightarrow> pl_scripts st1 = pl_scripts st \<and> pl_store st1 = pl_store st"
  by (auto simp: lua_spank_call_def split: option.splits if_splits lua_result.splits dest: run_lua_scripts)

text \<open>The calls of a callback in all scripts, with their results.\<close>

fun call_all ::
    "('l, 's) host \<Rightarrow> string \<Rightarrow> string list \<Rightarrow> nat list \<Rightarrow> ('l, 's) plugin \<Rightarrow> (int list \<times> ('l, 's) plugin) option" where
  "call_all W fn av [] st = Some ([], st)"
| "call_all W fn av (a # as) st =
    (case lua_spank_call W fn av a st of
       None \<Rightarrow> None
     | Some (r, st1) \<Rightarrow>
        (case call_all W fn av as st1 of None \<Rightarrow> None | Some (rs, st2) \<Rightarrow> Some (r # rs, st2)))"

definition outcome :: "int \<Rightarrow> int list \<Rightarrow> int" where
  "outcome rc rs = (if \<exists>r\<in>set rs. r < 0 then - 1 else rc)"

lemma call_loop_all:
  assumes "same_scripts l st" "it_get l i \<noteq> None" "it_view l i = (before, cur, rest)"
  shows "\<exists>l1. list_ok l1 \<and> list_data l1 = list_data l \<and> call_loop W fn av i rc (with_scripts l st) =
    moved l1 (map_option (\<lambda>(rs, st1). (outcome rc rs, st1)) (call_all W fn av rest st))"
  using assms
proof (induction rest arbitrary: l before cur rc st)
  case Nil
  have ok: "list_ok l" using Nil(1) by (auto simp: same_scripts_def)
  from list_next_view[OF ok Nil(2,3)] obtain l1 where 1: "list_next l i = (None, l1)" "list_ok l1"
    "list_data l1 = list_data l" "it_get l1 i \<noteq> None" by auto
  with list_iterator_destroy_ok[OF 1(2,4)] show ?case
    by (intro exI[of _ "list_iterator_destroy l1 i"])
      (subst call_loop.simps, simp add: outcome_def)
next
  case (Cons a rest)
  have ok: "list_ok l" using Cons.prems(1) by (auto simp: same_scripts_def)
  from list_next_view[OF ok Cons.prems(2,3)] obtain l1 where 1: "list_next l i = (Some a, l1)" "list_ok l1"
    "list_data l1 = list_data l" "it_get l1 i \<noteq> None" "it_view l1 i = (before @ cur, [a], rest)" by auto
  have s1: "same_scripts l1 st" using Cons.prems(1) 1 by (auto simp: same_scripts_def)
  have step: "call_loop W fn av i rc (with_scripts l st) =
      (case lua_spank_call W fn av a (with_scripts l1 st) of
         None \<Rightarrow> None
       | Some (r, st1) \<Rightarrow> call_loop W fn av i (if r < 0 then - 1 else rc) st1)"
    using 1(1) by (subst call_loop.simps) simp
  show ?case
  proof (cases "lua_spank_call W fn av a st")
    case None
    then show ?thesis
      using step ok spank_call_moved[OF s1, of W fn av a] by (intro exI[of _ l]) simp
  next
    case (Some rs)
    obtain r st1 where r: "rs = (r, st1)" by (cases rs)
    have s2: "same_scripts l1 st1" using spank_call_scripts[OF Some[unfolded r]] s1 by (simp add: same_scripts_def)
    from Cons.IH[OF s2 1(4,5), of "if r < 0 then - 1 else rc"] obtain l2 where 2: "list_ok l2" "list_data l2 = list_data l1"
      "call_loop W fn av i (if r < 0 then - 1 else rc) (with_scripts l1 st1) =
        moved l2 (map_option (\<lambda>(rs, st1). (outcome (if r < 0 then - 1 else rc) rs, st1)) (call_all W fn av rest st1))"
      by blast
    have "map_option (\<lambda>(rs, st1). (outcome (if r < 0 then - 1 else rc) rs, st1)) (call_all W fn av rest st1) =
        map_option (\<lambda>(rs, st1). (outcome rc rs, st1)) (call_all W fn av (a # rest) st)"
      using Some r by (auto simp: outcome_def split: option.split)
    with 2 1(3) step Some r spank_call_moved[OF s1, of W fn av a] show ?thesis
      by (intro exI[of _ l2]) simp
  qed
qed

text \<open>Creating an iterator when there is memory.\<close>

lemma new_iterator:
  assumes "list_ok l" "0 < fl_cap (l_ifree l)"
  obtains i l1 where "list_iterator_create l = (Some i, l1)" "list_ok l1" "list_data l1 = list_data l"
    "it_get l1 i \<noteq> None" "it_view l1 i = ([], [], list_data l)"
proof -
  from alloc_cap[OF assms(2)] obtain i f where "list_alloc_aux (l_ifree l) = (Some i, f)" by blast
  then obtain l1 where "list_iterator_create l = (Some i, l1)" by (simp add: list_iterator_create_def)
  with list_iterator_create_view[OF assms(1) this] that show thesis by blast
qed

section \<open>Options\<close>

text \<open>The options in the order of their registration.\<close>

definition options :: "('l, 's) plugin \<Rightarrow> lua_script_option list" where
  "options st = (case pl_options st of To l \<Rightarrow> rev (list_data l) | _ \<Rightarrow> [])"

definition options_ok :: "('l, 's) plugin \<Rightarrow> bool" where
  "options_ok st \<longleftrightarrow>
    (\<forall>l. pl_options st = To l \<longrightarrow> list_ok l) \<and> (\<forall>v<length (options st). so_val (lo_opt (options st ! v)) = int v)"

text \<open>From one state to a later one: options are only added, each with its number as its value.\<close>

definition grows :: "('l, 's) plugin \<Rightarrow> ('l, 's) plugin \<Rightarrow> bool" where
  "grows st st1 \<longleftrightarrow> (options_ok st \<longrightarrow> options_ok st1 \<and> (\<exists>new. options st1 = options st @ new))"

lemma grows_refl [simp]: "pl_options st1 = pl_options st \<Longrightarrow> grows st st1"
  by (simp add: grows_def options_def options_ok_def)

lemma grows_trans: "grows st st1 \<Longrightarrow> grows st1 st2 \<Longrightarrow> grows st st2"
  by (auto simp: grows_def)

lemma grows_cong: "pl_options st1 = pl_options st \<Longrightarrow> pl_options st2 = pl_options st3 \<Longrightarrow> grows st1 st2 = grows st st3"
  by (simp add: grows_def options_def options_ok_def)

definition mem_ok :: "('l, 's) host \<Rightarrow> bool" where
  "mem_ok W \<longleftrightarrow> (case hs_mem W of (lf, nf, itf) \<Rightarrow> fl_ok {} nf \<and> fl_ok {} itf)"

lemma option_list_options:
  assumes "mem_ok W" "options_ok st" "option_list W st = Some l"
  shows "list_ok l" "list_data l = rev (options st)"
proof -
  have "list_ok l \<and> list_data l = rev (options st)"
  proof (cases "pl_options st")
    case Null
    obtain lf nf itf where m: "hs_mem W = (lf, nf, itf)" by (cases "hs_mem W") auto
    have "fst (list_create True lf nf itf) = Some l"
      using assms(3) Null m by (simp add: option_list_def)
    then obtain lf1 where "list_create True lf nf itf = (Some l, lf1)"
      by (metis prod.collapse)
    from list_create_ok[OF _ _ this] assms(1) m Null show ?thesis
      by (auto simp: mem_ok_def options_def)
  qed (use assms in \<open>auto simp: option_list_def options_ok_def options_def\<close>)
  then show "list_ok l" "list_data l = rev (options st)" by auto
qed

lemma option_register_grows:
  assumes "mem_ok W" "lua_script_option_register W a h v st = Some (r, st1)"
  shows "grows st st1"
  unfolding grows_def
proof
  assume ok: "options_ok st"
  show "options_ok st1 \<and> (\<exists>new. options st1 = options st @ new)"
  proof (cases "pl_options st1 = pl_options st")
    case True
    then show ?thesis using ok by (simp add: options_ok_def options_def)
  next
    case False
    with assms(2) obtain l opt0 where l: "option_list W st = Some l"
      and st: "pl_options st1 = To (snd (list_push l (opt0\<lparr>lo_opt := lo_opt opt0\<lparr>so_val := list_count l\<rparr>\<rparr>)))"
      by (auto simp: lua_script_option_register_def Let_def split: option.splits prod.splits)
    let ?opt = "opt0\<lparr>lo_opt := lo_opt opt0\<lparr>so_val := list_count l\<rparr>\<rparr>"
    obtain opt r' l1 where p: "list_push l opt = (r', l1)" and st1: "pl_options st1 = To l1"
      and v: "so_val (lo_opt opt) = list_count l"
      using st by (cases "list_push l ?opt") (auto intro!: that[of ?opt])
    note ol = option_list_options[OF assms(1) ok l]
    have "list_ok l1" "list_data l1 = opt # list_data l \<or> list_data l1 = list_data l"
      using list_push_data[OF ol(1) p] by (cases r'; auto)+
    moreover have "so_val (lo_opt opt) = int (length (options st))"
      using v list_count_data[OF ol(1)] ol(2) by simp
    ultimately show ?thesis
      using ok st1 ol(2) by (auto simp: options_ok_def options_def[of st1] nth_append less_Suc_eq)
  qed
qed

lemma api_call_grows:
  assumes "mem_ok W" "api_call W f t s st = Some (r, st1)"
  shows "grows st st1"
  using assms(2)
  by (auto simp: api_call_def spank_option_register_def Let_def on_job_def
      split: api.splits option.splits lval.splits prod.splits dest: option_register_grows[OF assms(1)])

lemma run_lua_grows: "mem_ok W \<Longrightarrow> run_lua W p st = Some (r, st1) \<Longrightarrow> grows st st1"
proof (induction p arbitrary: st)
  case (Asks l t f s k)
  from Asks.prems(2) obtain a st2 where 1: "api_call W f t s (st\<lparr>pl_lua := l\<rparr>) = Some (a, st2)"
    "run_lua W (k (answer_of a)) st2 = Some (r, st1)" by (auto split: option.splits prod.splits)
  have "grows st (st\<lparr>pl_lua := l\<rparr>)" by simp
  with api_call_grows[OF Asks.prems(1) 1(1)] Asks.IH[OF rangeI Asks.prems(1) 1(2)] show ?case
    using grows_trans by blast
qed auto

section \<open>Operations of the plugin only add options\<close>

lemma spank_call_grows: "mem_ok W \<Longrightarrow> lua_spank_call W fn av a st = Some (r, st1) \<Longrightarrow> grows st st1"
  by (auto simp: lua_spank_call_def split: option.splits if_splits lua_result.splits dest: run_lua_grows)

lemma call_loop_grows:
  assumes "call_loop W fn av i rc st = Some r"
  shows "mem_ok W \<longrightarrow> grows st (snd r)"
proof (rule call_loop.raw_induct[OF _ assms], rule impI)
  fix loop and W :: "('l, 's) host" and fn av i rc and st :: "('l, 's) plugin" and r
  assume IH: "\<And>W fn av i rc st r. loop W fn av i rc st = Some r \<Longrightarrow> mem_ok W \<longrightarrow> grows st (snd r)"
    and run: "(case pl_scripts st of
       To l \<Rightarrow>
         (case list_next l i of
            (None, l1) \<Rightarrow> Some (rc, st\<lparr>pl_scripts := To (list_iterator_destroy l1 i)\<rparr>)
          | (Some a, l1) \<Rightarrow>
             (case lua_spank_call W fn av a (st\<lparr>pl_scripts := To l1\<rparr>) of
                None \<Rightarrow> None
              | Some (r, st1) \<Rightarrow> loop W fn av i (if r < 0 then - 1 else rc) st1))
     | _ \<Rightarrow> None) = Some r" and mem: "mem_ok W"
  obtain l where l: "pl_scripts st = To l" using run by (auto split: pointer.splits)
  obtain x l1 where x: "list_next l i = (x, l1)" by (cases "list_next l i") auto
  have 0: "grows st (with_scripts m st)" for m by simp
  show "grows st (snd r)"
  proof (cases x)
    case None
    then show ?thesis using run l x 0 by auto
  next
    case (Some a)
    obtain r1 st1 where 1: "lua_spank_call W fn av a (with_scripts l1 st) = Some (r1, st1)"
      "loop W fn av i (if r1 < 0 then - 1 else rc) st1 = Some r"
      using run l x Some by (auto split: option.splits prod.splits)
    from IH[OF 1(2)] mem spank_call_grows[OF mem 1(1)] 0[of l1] show ?thesis
      using grows_trans by blast
  qed
qed

lemma call_foreach_grows: "mem_ok W \<Longrightarrow> call_foreach W fn av st = Some (r, st1) \<Longrightarrow> grows st st1"
  by (auto simp: call_foreach_def split: pointer.splits option.splits prod.splits
      dest!: call_loop_grows elim!: grows_trans[rotated])

lemma each_script_grows':
  assumes "each_script body i st = Some r"
  shows "(\<forall>a st x st1. body a st = Some (x, st1) \<longrightarrow> grows st st1) \<longrightarrow> grows st (snd r)"
proof (rule each_script.raw_induct[OF _ assms], rule impI)
  fix loop and body :: "nat \<Rightarrow> ('l, 's) plugin \<Rightarrow> (bool \<times> ('l, 's) plugin) option" and i st r
  assume IH: "\<And>body i st r. loop body i st = Some r \<Longrightarrow>
      (\<forall>a st x st1. body a st = Some (x, st1) \<longrightarrow> grows st st1) \<longrightarrow> grows st (snd r)"
    and run: "(case pl_scripts st of
       To l \<Rightarrow>
         (case list_next l i of
            (None, l1) \<Rightarrow> Some (False, st\<lparr>pl_scripts := To (list_iterator_destroy l1 i)\<rparr>)
          | (Some a, l1) \<Rightarrow>
             (case body a (st\<lparr>pl_scripts := To l1\<rparr>) of
                None \<Rightarrow> None
              | Some (returns, st1) \<Rightarrow> if returns then Some (True, st1) else loop body i st1))
     | _ \<Rightarrow> None) = Some r"
    and body: "\<forall>a st x st1. body a st = Some (x, st1) \<longrightarrow> grows st st1"
  obtain l where l: "pl_scripts st = To l" using run by (auto split: pointer.splits)
  obtain x l1 where x: "list_next l i = (x, l1)" by (cases "list_next l i") auto
  have 0: "grows st (with_scripts m st)" for m by simp
  show "grows st (snd r)"
  proof (cases x)
    case None
    then show ?thesis using run l x 0 by auto
  next
    case (Some a)
    obtain ret st1 where 1: "body a (with_scripts l1 st) = Some (ret, st1)"
      "(if ret then Some (True, st1) else loop body i st1) = Some r"
      using run l x Some by (auto split: option.splits prod.splits)
    have g: "grows st st1" using body[rule_format, OF 1(1)] 0[of l1] grows_trans by blast
    show ?thesis
    proof (cases ret)
      case False
      then have "grows st1 (snd r)" using IH[of body i st1 r] 1(2) body by simp
      with g show ?thesis by (rule grows_trans)
    qed (use g 1(2) in auto)
  qed
qed

lemma each_script_grows:
  "each_script body i st = Some r \<Longrightarrow> (\<And>a st x st1. body a st = Some (x, st1) \<Longrightarrow> grows st st1) \<Longrightarrow>
    grows st (snd r)"
  using each_script_grows' by blast

lemma remove_script_options: "remove_script i a st = Some st1 \<Longrightarrow> pl_options st1 = pl_options st"
  by (auto simp: remove_script_def lua_script_destroy_def split: pointer.splits)

lemma load_entries_grows:
  "mem_ok W \<Longrightarrow> load_entries W a vs st = Some (r, st1) \<Longrightarrow> grows st st1"
  by (induction W a vs st rule: load_entries.induct)
    (auto split: option.splits if_splits dest!: option_register_grows elim: grows_trans)

lemma register_step_grows:
  assumes "mem_ok W" "register_step W i a st = Some (x, st1)"
  shows "grows st st1"
proof -
  obtain rc st2 where 1: "load_spank_options_table W a st = Some (rc, st2)"
    using assms(2) by (auto simp: register_step_def split: option.splits)
  have "pl_options st1 = pl_options st2"
    using assms(2) 1 by (auto simp: register_step_def split: option.splits if_splits dest: remove_script_options)
  moreover have "grows st st2"
    using 1 load_entries_grows[OF assms(1)]
    by (auto simp: load_spank_options_table_def split: option.splits lval.splits)
  ultimately show ?thesis using grows_cong by metis
qed

lemma init_step_grows:
  assumes "mem_ok W" "init_step W fail i a st = Some (x, st1)"
  shows "grows st st1"
proof -
  obtain sc where sc: "pl_store st a = Some sc" using assms(2) by (auto simp: init_step_def split: option.splits)
  let ?st = "st\<lparr>pl_store := (pl_store st)(a \<mapsto> sc\<lparr>sc_fail_on_error := fail\<rparr>)\<rparr>"
  obtain y st2 where run: "run_lua W (hs_load W (pl_lua ?st) (sc_thread sc) (sc_path sc)) ?st = Some (y, st2)"
    using assms(2) sc by (auto simp: init_step_def Let_def split: option.splits)
  have "pl_options st1 = pl_options st2"
    using assms(2) sc run
    by (auto simp: init_step_def Let_def split: lua_result.splits if_splits dest: remove_script_options)
  moreover have "grows st ?st" by simp
  ultimately show ?thesis
    using run_lua_grows[OF assms(1) run] grows_trans grows_cong by metis
qed

lemma create_scripts_options: "create_scripts ps l st = (l1, st1) \<Longrightarrow> pl_options st1 = pl_options st"
  by (induction ps l st rule: create_scripts.induct) (auto simp: lua_script_create_def)

lemma list_created_options:
  "lua_script_list_create W p st = Some (l, st1) \<Longrightarrow> pl_options st1 = pl_options st"
  by (auto simp: lua_script_list_create_def split: option.splits prod.splits if_splits dest: create_scripts_options)

lemma init_grows:
  assumes "mem_ok W" "spank_lua_init W junk av st = Some (r, st1)"
  shows "grows st st1"
proof (cases "pl_options st1 = pl_options st")
  case False
  let ?st = "st\<lparr>pl_lua := hs_newstate W (pl_lua st), pl_open := True\<rparr>"
  from False obtain fail p l st2 i l1 x where 1: "lua_script_list_create W p ?st = Some (Some l, st2)"
    "each_script (init_step W fail i) i (with_scripts l1 st2) = Some (x, st1)"
    using assms(2)
    by (auto simp: spank_lua_init_def split: if_splits option.splits prod.splits dest: list_created_options)
  have "grows (with_scripts l1 st2) st1"
    using each_script_grows[OF 1(2) init_step_grows[OF assms(1)]] by simp
  moreover have "grows st (with_scripts l1 st2)" using list_created_options[OF 1(1)] by simp
  ultimately show ?thesis using grows_trans by blast
qed simp

lemma table_register_grows:
  assumes "mem_ok W" "spank_lua_options_table_register W st = Some (r, st1)"
  shows "grows st st1"
proof (cases "pl_options st1 = pl_options st")
  case False
  then obtain i l1 x where "each_script (register_step W i) i (with_scripts l1 st) = Some (x, st1)"
    using assms(2) by (auto simp: spank_lua_options_table_register_def split: pointer.splits option.splits prod.splits)
  from each_script_grows[OF this register_step_grows[OF assms(1)]] have "grows (with_scripts l1 st) st1" by simp
  moreover have "grows st (with_scripts l1 st)" by simp
  ultimately show ?thesis using grows_trans by blast
qed simp

end
