(* ===== verification/SpankLuaLoad.thy ===== *)
theory SpankLuaLoad
  imports SpankLuaLaws
begin

text \<open>
  Loading the scripts of the \<open>lua\<close> plugin: the loop over the iterator, which removes scripts as it
  goes, against a recursion over the scripts.
\<close>

section \<open>Runs that only write messages\<close>

primrec quiet :: "'l lua_run \<Rightarrow> bool" where
  "quiet (Ends r l) = True"
| "quiet (Asks l t f s k) = (f = l_spank_log_msg \<and> (\<forall>a. quiet (k a)))"

lemma quiet_asks:
  "run_lua W (Asks l t l_spank_log_msg s k) st =
    run_lua W (k (answer_of (fst (log_msg (slurm.truncate W) s))))
      (st\<lparr>pl_lua := l, pl_log := pl_log st @ snd (log_msg (slurm.truncate W) s)\<rparr>)"
  for l :: 'l and st :: "('l, 's) plugin"
  by (simp add: api_call_def Let_def split: prod.split)

lemma quiet_moved: "quiet p \<Longrightarrow> run_lua W p (with_scripts l st) = moved l (run_lua W p st)"
proof (induction p arbitrary: st)
  case (Asks l' t f s k)
  let ?st = "st\<lparr>pl_lua := l', pl_log := pl_log st @ snd (log_msg (slurm.truncate W) s)\<rparr>"
  let ?k = "k (answer_of (fst (log_msg (slurm.truncate W) s)))"
  have f: "f = l_spank_log_msg" "quiet ?k" using Asks.prems by auto
  have "(with_scripts l st)\<lparr>pl_lua := l', pl_log := pl_log (with_scripts l st) @ snd (log_msg (slurm.truncate W) s)\<rparr> =
      with_scripts l ?st" by simp
  then show ?case
    using Asks.IH[OF rangeI f(2), of ?st] unfolding f(1) quiet_asks by (simp only:)
qed simp

lemma quiet_runs: "quiet p \<Longrightarrow> \<exists>r st1. run_lua W p st = Some (r, st1)"
proof (induction p arbitrary: st)
  case (Asks l' t f s k)
  then have f: "f = l_spank_log_msg" "quiet (k (answer_of (fst (log_msg (slurm.truncate W) s))))" by auto
  from Asks.IH[OF rangeI f(2)] show ?case unfolding f(1) quiet_asks by blast
qed simp

section \<open>Scripts one by one\<close>

datatype loaded = Fails | Unused | Kept

text \<open>
  What becomes of each script, up to the one whose failure ends the loading; scripts that fail
  or have no callback in the context are destroyed.
\<close>

fun load_all ::
    "('l, 's) host \<Rightarrow> bool \<Rightarrow> nat list \<Rightarrow> ('l, 's) plugin \<Rightarrow> (loaded list \<times> ('l, 's) plugin) option" where
  "load_all W fail [] st = Some ([], st)"
| "load_all W fail (a # as) st =
    (case pl_store st a of
       None \<Rightarrow> None
     | Some sc \<Rightarrow>
        (let st1 = st\<lparr>pl_store := (pl_store st)(a \<mapsto> sc\<lparr>sc_fail_on_error := fail\<rparr>)\<rparr>
         in case run_lua W (hs_load W (pl_lua st1) (sc_thread sc) (sc_path sc)) st1 of
              None \<Rightarrow> None
            | Some (r, st2) \<Rightarrow>
               if r = LError \<and> fail then Some ([Fails], st2)
               else (let k = (if r = LError then Fails
                              else if lua_script_valid_in_context W (sc_thread sc) st2 then Kept else Unused)
                     in map_option (\<lambda>(ks, st3). (k # ks, st3))
                          (load_all W fail as (if k = Kept then st2 else lua_script_destroy a st2)))))"

definition kept_scripts :: "nat list \<Rightarrow> loaded list \<Rightarrow> nat list" where
  "kept_scripts as ks = map fst (filter (\<lambda>(a, k). k = Kept) (zip as ks))"

lemma kept_scripts_simps [simp]:
  "kept_scripts [] ks = []" "kept_scripts (a # as) (k # ks) = (if k = Kept then [a] else []) @ kept_scripts as ks"
  by (simp_all add: kept_scripts_def)

lemma load_all_runs:
  "(\<And>l t p. quiet (hs_load W l t p)) \<Longrightarrow> distinct as \<Longrightarrow> (\<forall>a\<in>set as. pl_store st a \<noteq> None) \<Longrightarrow>
    \<exists>ks st1. load_all W fail as st = Some (ks, st1)"
proof (induction as arbitrary: st)
  case (Cons a as)
  obtain sc where sc: "pl_store st a = Some sc" using Cons.prems(3) by auto
  let ?st = "st\<lparr>pl_store := (pl_store st)(a \<mapsto> sc\<lparr>sc_fail_on_error := fail\<rparr>)\<rparr>"
  obtain r st2 where run: "run_lua W (hs_load W (pl_lua ?st) (sc_thread sc) (sc_path sc)) ?st = Some (r, st2)"
    using quiet_runs[OF Cons.prems(1)] by blast
  have "pl_store st2 = pl_store ?st" using run_lua_scripts[OF run] by simp
  then have s: "\<forall>b\<in>set as. pl_store st2 b \<noteq> None" "\<forall>b\<in>set as. pl_store (lua_script_destroy a st2) b \<noteq> None"
    using Cons.prems(2,3) by (auto simp: lua_script_destroy_def)
  have "distinct as" using Cons.prems(2) by simp
  note ih = Cons.IH[OF Cons.prems(1) this]
  show ?case
    using ih[OF s(1)] ih[OF s(2)] sc run by (auto simp: Let_def)
qed simp

lemma valid_in_context_moved [simp]:
  "lua_script_valid_in_context W t (with_scripts l st) = lua_script_valid_in_context W t st"
  by (simp add: lua_script_valid_in_context_def)

text \<open>One round: the script stays, is taken off the list and destroyed, or ends the loop.\<close>

lemma init_step_quiet:
  assumes "\<And>l t p. quiet (hs_load W l t p)" "pl_store st a = Some sc"
    and "run_lua W (hs_load W (pl_lua st) (sc_thread sc) (sc_path sc))
      (st\<lparr>pl_store := (pl_store st)(a \<mapsto> sc\<lparr>sc_fail_on_error := fail\<rparr>)\<rparr>) = Some (r, st2)"
  shows "init_step W fail i a (with_scripts l st) =
    (if r = LError \<and> fail then Some (True, with_scripts l st2)
     else if r \<noteq> LError \<and> lua_script_valid_in_context W (sc_thread sc) st2 then Some (False, with_scripts l st2)
     else Some (False, with_scripts (snd (list_remove l i)) (lua_script_destroy a st2)))"
proof -
  let ?st = "st\<lparr>pl_store := (pl_store st)(a \<mapsto> sc\<lparr>sc_fail_on_error := fail\<rparr>)\<rparr>"
  have u: "(with_scripts l st)\<lparr>pl_store := (pl_store st)(a \<mapsto> sc\<lparr>sc_fail_on_error := fail\<rparr>)\<rparr> = with_scripts l ?st"
    by simp
  have "run_lua W (hs_load W (pl_lua st) (sc_thread sc) (sc_path sc))
      ((with_scripts l st)\<lparr>pl_store := (pl_store st)(a \<mapsto> sc\<lparr>sc_fail_on_error := fail\<rparr>)\<rparr>) = Some (r, with_scripts l st2)"
    unfolding u quiet_moved[OF assms(1)] using assms(3) by simp
  then show ?thesis
    using assms(2)
    by (cases r) (auto simp: init_step_def Let_def remove_script_def lua_script_destroy_def)
qed

lemma init_loop:
  assumes "\<And>l t p. quiet (hs_load W l t p)"
  shows "list_ok l \<Longrightarrow> it_get l i \<noteq> None \<Longrightarrow> it_view l i = (before, cur, rest) \<Longrightarrow>
    list_data l = before @ cur @ rest \<Longrightarrow> load_all W fail rest st = Some (ks, st1) \<Longrightarrow>
    \<exists>l1. each_script (init_step W fail i) i (with_scripts l st) = Some (fail \<and> Fails \<in> set ks, with_scripts l1 st1) \<and>
      list_ok l1 \<and> (\<not> (fail \<and> Fails \<in> set ks) \<longrightarrow> list_data l1 = before @ cur @ kept_scripts rest ks)"
proof (induction rest arbitrary: l before cur st ks)
  case Nil
  from list_next_view[OF Nil(1-3)] obtain l1 where 1: "list_next l i = (None, l1)" "list_ok l1"
    "list_data l1 = list_data l" "it_get l1 i \<noteq> None" by auto
  with list_iterator_destroy_ok[OF 1(2,4)] Nil(4,5) show ?case
    by (intro exI[of _ "list_iterator_destroy l1 i"]) (subst each_script.simps, simp)
next
  case (Cons a rest)
  from list_next_view[OF Cons.prems(1-3)] obtain l1 where 1: "list_next l i = (Some a, l1)" "list_ok l1"
    "list_data l1 = list_data l" "it_get l1 i \<noteq> None" "it_view l1 i = (before @ cur, [a], rest)" by auto
  from list_remove_view[OF 1(2,4,5)] obtain l2 where 2: "list_remove l1 i = (Some a, l2)" "list_ok l2"
    "list_data l2 = (before @ cur) @ rest" "it_get l2 i \<noteq> None" "it_view l2 i = (before @ cur, [], rest)" by auto
  obtain sc where sc: "pl_store st a = Some sc" using Cons.prems(5) by (auto split: option.splits)
  obtain r st2 where run: "run_lua W (hs_load W (pl_lua st) (sc_thread sc) (sc_path sc))
      (st\<lparr>pl_store := (pl_store st)(a \<mapsto> sc\<lparr>sc_fail_on_error := fail\<rparr>)\<rparr>) = Some (r, st2)"
    using Cons.prems(5) sc by (auto simp: Let_def split: option.splits)
  have step: "each_script (init_step W fail i) i (with_scripts l st) =
      (case init_step W fail i a (with_scripts l1 st) of
         None \<Rightarrow> None
       | Some (ret, st1) \<Rightarrow> if ret then Some (True, st1) else each_script (init_step W fail i) i st1)"
    using 1(1) by (subst each_script.simps) simp
  note body = init_step_quiet[OF assms sc run, of i l1]
  let ?k = "if r = LError then Fails else if lua_script_valid_in_context W (sc_thread sc) st2 then Kept else Unused"
  show ?case
  proof (cases "r = LError \<and> fail")
    case True
    then show ?thesis
      using step body 1(2) Cons.prems(5) sc run by (auto simp: Let_def)
  next
    case False
    then obtain ks' where ks: "ks = ?k # ks'"
      "load_all W fail rest (if ?k = Kept then st2 else lua_script_destroy a st2) = Some (ks', st1)"
      using Cons.prems(5) sc run by (auto simp: Let_def split: if_splits)
    have f: "(fail \<and> Fails \<in> set ks) = (fail \<and> Fails \<in> set ks')" using False ks(1) by auto
    show ?thesis
    proof (cases "?k = Kept")
      case True
      then have "load_all W fail rest st2 = Some (ks', st1)" using ks(2) by simp
      moreover have "list_data l1 = (before @ cur) @ [a] @ rest" using 1(3) Cons.prems(4) by simp
      ultimately obtain l3 where 3: "each_script (init_step W fail i) i (with_scripts l1 st2) =
          Some (fail \<and> Fails \<in> set ks', with_scripts l3 st1)" "list_ok l3"
        "\<not> (fail \<and> Fails \<in> set ks') \<longrightarrow> list_data l3 = (before @ cur) @ [a] @ kept_scripts rest ks'"
        using Cons.IH[OF 1(2,4,5)] by blast
      have "init_step W fail i a (with_scripts l1 st) = Some (False, with_scripts l1 st2)"
        using body True by (auto split: if_splits)
      with step 3 True ks(1) show ?thesis unfolding f by (intro exI[of _ l3]) simp
    next
      case neq: False
      then have "load_all W fail rest (lua_script_destroy a st2) = Some (ks', st1)" using ks(2) by simp
      moreover have "list_data l2 = (before @ cur) @ [] @ rest" using 2(3) by simp
      ultimately obtain l3 where 3: "each_script (init_step W fail i) i (with_scripts l2 (lua_script_destroy a st2)) =
          Some (fail \<and> Fails \<in> set ks', with_scripts l3 st1)" "list_ok l3"
        "\<not> (fail \<and> Fails \<in> set ks') \<longrightarrow> list_data l3 = (before @ cur) @ [] @ kept_scripts rest ks'"
        using Cons.IH[OF 2(2,4,5)] by blast
      have "init_step W fail i a (with_scripts l1 st) = Some (False, with_scripts l2 (lua_script_destroy a st2))"
        using body False neq 2(1) by (auto split: if_splits)
      with step 3 neq ks(1) show ?thesis unfolding f by (intro exI[of _ l3]) (auto split: if_splits)
    qed
  qed
qed

section \<open>Creating the scripts\<close>

text \<open>The store with a script for each path.\<close>

definition new_scripts :: "string list \<Rightarrow> ('l, 's) plugin \<Rightarrow> ('l, 's) plugin" where
  "new_scripts ps st = foldl (\<lambda>st p. snd (lua_script_create p st)) st ps"

lemma new_scripts_Cons: "new_scripts (p # ps) st = new_scripts ps (snd (lua_script_create p st))"
  by (simp add: new_scripts_def)

lemma new_scripts_store:
  "pl_next (new_scripts ps st) = pl_next st + length ps \<and>
   pl_store (new_scripts ps st) a =
     (if pl_next st \<le> a \<and> a < pl_next st + length ps
      then Some \<lparr>sc_path = ps ! (a - pl_next st), sc_thread = a, sc_fail_on_error = False\<rparr> else pl_store st a)"
proof (induction ps arbitrary: st)
  case (Cons p ps)
  show ?case
    using Cons.IH[of "snd (lua_script_create p st)"]
    by (auto simp: new_scripts_Cons lua_script_create_def nth_Cons' Suc_diff_le)
qed (auto simp: new_scripts_def)

lemma create_scripts_all:
  "list_ok l \<Longrightarrow> length ps \<le> fl_cap (l_nfree l) \<Longrightarrow>
    \<exists>l1. create_scripts ps l st = (l1, new_scripts ps st) \<and> list_ok l1 \<and> l_ifree l1 = l_ifree l \<and>
      list_data l1 = rev [pl_next st ..< pl_next st + length ps] @ list_data l"
proof (induction ps arbitrary: l st)
  case (Cons p ps)
  from Cons.prems push_cap[of l "pl_next st"] obtain l1 where 1: "list_push l (pl_next st) = (Some (pl_next st), l1)"
    "fl_cap (l_nfree l1) = fl_cap (l_nfree l) - 1" "l_ifree l1 = l_ifree l" by auto
  note p = list_push_data[OF Cons.prems(1) 1(1)]
  have d: "list_ok l1" "list_data l1 = pl_next st # list_data l" using p by auto
  let ?st = "snd (lua_script_create p st)"
  have n: "pl_next ?st = Suc (pl_next st)" by (simp add: lua_script_create_def)
  have "length ps \<le> fl_cap (l_nfree l1)" using 1(2) Cons.prems(2) by simp
  from Cons.IH[OF d(1) this, of ?st] obtain l2 where 2: "create_scripts ps l1 ?st = (l2, new_scripts ps ?st)"
    "list_ok l2" "l_ifree l2 = l_ifree l1" "list_data l2 = rev [Suc (pl_next st) ..< Suc (pl_next st) + length ps] @ list_data l1"
    unfolding n by (elim exE conjE)
  have "create_scripts (p # ps) l st = create_scripts ps l1 ?st"
    using 1(1) by (simp add: lua_script_create_def)
  moreover have "[pl_next st ..< pl_next st + length (p # ps)] = pl_next st # [Suc (pl_next st) ..< Suc (pl_next st) + length ps]"
    by (simp add: upt_rec)
  ultimately show ?case using 2 1(3) d(2) by (simp add: new_scripts_Cons)
qed (simp add: new_scripts_def)

end
