(* ===== verification/SpankLuaProps.thy ===== *)
theory SpankLuaProps
  imports SpankLuaLoad
begin

text \<open>
  The \<open>lua\<close> plugin: which scripts stay loaded, what a callback does in them, and to which
  function the value of an option leads, for any interpreter and any scripts.
\<close>

section \<open>Callbacks\<close>

text \<open>
  What a script contributes: 0 when it has no such function, the number its function returns, 0
  for any other value; an error in Lua is -1 when the script is to fail on errors, else 0.
\<close>

lemma script_result:
  assumes "pl_store st a = Some sc" "lua_spank_call W fn av a st = Some (r, st1)"
  shows "(if hs_global W (pl_lua st) (sc_thread sc) fn = LNil then r = 0 \<and> st1 = st
    else (case run_lua W (hs_call W (pl_lua st) (sc_thread sc) fn [lua_spank_table (slurm.truncate W) (pl_job st) av]) st of
            Some (LError, st2) \<Rightarrow> st1 = st2 \<and> r = (if sc_fail_on_error sc then - 1 else 0)
          | Some (LResult (LNum n), st2) \<Rightarrow> st1 = st2 \<and> r = n
          | Some (LResult LNil, st2) \<Rightarrow> st1 = st2 \<and> r = 0
          | Some (_, st2) \<Rightarrow> st1 = st2
          | None \<Rightarrow> False))"
  using assms
  by (auto simp: lua_spank_call_def lua_script_rc_def lua_isnumber_def lua_tonumber_def
      split: if_splits option.splits lua_result.splits lval.splits)

text \<open>C21: A callback of SLURM runs the function of its name in every loaded script, in the order of the
  list, whether or not it fails in one of them, each with the arguments behind the name of the
  scripts; it keeps the list, and survives exactly when the calls do.  It returns -1 exactly when
  the result of some script is negative, else 0: that is any negative number its function returns,
  not only the documented -1, or an error in Lua in a script that is to fail on errors; an error
  in another script counts as success.\<close>

theorem lua_callback_all:
  assumes "pl_scripts st = To l" "list_ok l" "0 < fl_cap (l_ifree l)"
    and "spank_lua_process_args False av = Some (fail, av1)"
  shows "\<exists>l1. list_ok l1 \<and> list_data l1 = list_data l \<and>
    call_foreach W fn av st =
      (case call_all W fn av1 (list_data l) st of
         None \<Rightarrow> None
       | Some (rs, st1) \<Rightarrow> Some (if \<exists>r\<in>set rs. r < 0 then - 1 else 0, with_scripts l1 st1))"
proof -
  obtain i l0 where 0: "list_iterator_create l = (Some i, l0)" "list_ok l0" "list_data l0 = list_data l"
    "it_get l0 i \<noteq> None" "it_view l0 i = ([], [], list_data l)"
    using new_iterator[OF assms(2,3)] by blast
  have "same_scripts l0 st" using assms(1,2) 0 by (simp add: same_scripts_def)
  from call_loop_all[OF this 0(4,5), of W fn av1 0] 0(3) assms(1,4) 0(1) show ?thesis
    by (auto simp: call_foreach_def outcome_def split: option.split)
qed

section \<open>Options\<close>

text \<open>What SLURM does with the plugin until it unloads it.\<close>

datatype lua_event =
    Init bool "string list"
  | Init_and init_hook bool "string list"
  | Callback hook "string list"
  | Chosen int "string option" bool

fun lua_event_run ::
    "('l, 's) host \<Rightarrow> lua_event \<Rightarrow> ('l, 's) plugin \<Rightarrow> (int \<times> ('l, 's) plugin) option" where
  "lua_event_run W (Init junk av) st = lua_spank_init W junk av st"
| "lua_event_run W (Init_and h junk av) st = init_and_call W h junk av st"
| "lua_event_run W (Callback h av) st = only_call W h av st"
| "lua_event_run W (Chosen v optarg remote) st = lua_spank_option_callback W v optarg remote st"

fun lua_events :: "('l, 's) host \<Rightarrow> lua_event list \<Rightarrow> ('l, 's) plugin \<Rightarrow> ('l, 's) plugin option" where
  "lua_events W [] st = Some st"
| "lua_events W (e # es) st =
    (case lua_event_run W e st of None \<Rightarrow> None | Some (r, st1) \<Rightarrow> lua_events W es st1)"

definition lua_start :: "'l \<Rightarrow> 's \<Rightarrow> ('l, 's) plugin" where
  "lua_start l j = \<lparr>pl_lua = l, pl_open = False, pl_job = j, pl_store = (\<lambda>_. None), pl_next = 0,
     pl_scripts = Null, pl_options = Null, pl_log = []\<rparr>"

text \<open>The function an option stands for: its own function, with its own value, in its own script.\<close>

definition option_call ::
    "('l, 's) host \<Rightarrow> lua_script_option \<Rightarrow> string option \<Rightarrow> bool \<Rightarrow> ('l, 's) plugin \<Rightarrow> (int \<times> ('l, 's) plugin) option" where
  "option_call W opt optarg remote st =
    (case lo_function opt of
       None \<Rightarrow> Some (0, st)
     | Some fn \<Rightarrow>
        (case pl_store st (lo_script opt) of
           None \<Rightarrow> None
         | Some sc \<Rightarrow>
            map_option (\<lambda>(r, st1). (case r of LError \<Rightarrow> - 1 | LResult x \<Rightarrow> lua_script_rc W x, st1))
              (run_lua W (hs_call W (pl_lua st) (sc_thread sc) fn
                [LNum (lo_val opt), (case optarg of None \<Rightarrow> LNil | Some x \<Rightarrow> LStr x), LBool remote]) st)))"

lemma find_option:
  assumes "\<forall>v<length xs. so_val (lo_opt (xs ! v)) = int v"
  shows "List.find (\<lambda>x. s_opt_find x w \<noteq> 0) (rev xs) =
    (if 0 \<le> w \<and> w < int (length xs) then Some (xs ! nat w) else None)"
  using assms
proof (induction xs rule: rev_induct)
  case (snoc x xs)
  have "\<forall>v<length xs. so_val (lo_opt (xs ! v)) = int v"
    using snoc.prems by (auto simp: nth_append split: if_splits)
  moreover have "so_val (lo_opt x) = int (length xs)"
    using snoc.prems by auto
  ultimately show ?case
    using snoc.IH by (auto simp: s_opt_find_def nth_append)
qed simp

lemma option_callback_call:
  assumes "options_ok st" "pl_options st = To l"
  shows "lua_spank_option_callback W w optarg remote st =
    (if 0 \<le> w \<and> w < int (length (options st)) then option_call W (options st ! nat w) optarg remote st
     else Some (- 1, st))"
proof -
  have "list_find_first l s_opt_find w =
      Some (if 0 \<le> w \<and> w < int (length (options st)) then Some (options st ! nat w) else None)"
    using find_option[of "options st" w] assms
    by (simp add: options_ok_def list_find_first_data options_def)
  with assms(2) show ?thesis
    by (auto simp: lua_spank_option_callback_def option_call_def split: option.split lua_result.split)
qed

lemma option_callback_grows:
  "mem_ok W \<Longrightarrow> lua_spank_option_callback W v optarg remote st = Some (r, st1) \<Longrightarrow> grows st st1"
  by (auto simp: lua_spank_option_callback_def split: pointer.splits option.splits lua_result.splits dest: run_lua_grows)

lemma lua_spank_init_grows:
  assumes "mem_ok W" "lua_spank_init W junk av st = Some (r, st1)"
  shows "grows st st1"
proof -
  obtain r1 st2 where 1: "spank_lua_init W junk av st = Some (r1, st2)"
    using assms(2) by (auto simp: lua_spank_init_def split: option.splits)
  note g = init_grows[OF assms(1) 1]
  show ?thesis
  proof (cases "r1 < 0")
    case True
    then show ?thesis using g assms(2) 1 by (simp add: lua_spank_init_def)
  next
    case False
    then obtain r2 st3 where 2: "spank_lua_options_table_register W st2 = Some (r2, st3)"
      using assms(2) 1 by (auto simp: lua_spank_init_def split: option.splits)
    have "grows st3 st1"
      using assms(2) 1 2 False call_foreach_grows[OF assms(1)] by (auto simp: lua_spank_init_def split: if_splits)
    with g table_register_grows[OF assms(1) 2] show ?thesis using grows_trans by blast
  qed
qed

lemma lua_event_grows: "mem_ok W \<Longrightarrow> lua_event_run W e st = Some (r, st1) \<Longrightarrow> grows st st1"
  by (cases e)
    (auto simp: init_and_call_def only_call_def split: option.splits if_splits
      dest: lua_spank_init_grows call_foreach_grows option_callback_grows init_grows
      intro: grows_trans[OF init_grows call_foreach_grows])

lemma lua_events_grow: "mem_ok W \<Longrightarrow> lua_events W es st = Some st1 \<Longrightarrow> grows st st1"
  by (induction W es st rule: lua_events.induct)
    (auto split: option.splits dest: lua_event_grows intro: grows_trans)

text \<open>C15: Whatever Lua code runs and whatever SLURM calls, the options are numbered in the order of their
  registration, an option that is registered stays and keeps its number, and when SLURM reports
  an option by its number the plugin calls the function of just that option, with the value
  its script gave it, in that script; every other number is refused.\<close>

theorem lua_option_dispatch:
  assumes "mem_ok W" "lua_events W es (lua_start l j) = Some st" "lua_events W es1 st = Some st1"
  shows "(\<forall>v<length (options st). so_val (lo_opt (options st ! v)) = int v \<and>
      lua_spank_option_callback W (int v) optarg remote st1 = option_call W (options st ! v) optarg remote st1) \<and>
    (\<forall>m w. pl_options st1 = To m \<and> (w < 0 \<or> int (length (options st1)) \<le> w) \<longrightarrow>
      lua_spank_option_callback W w optarg remote st1 = Some (- 1, st1))"
proof -
  have "options_ok (lua_start l j)" by (simp add: options_ok_def options_def lua_start_def)
  then have ok: "options_ok st" using lua_events_grow[OF assms(1,2)] by (simp add: grows_def)
  then obtain new where ok1: "options_ok st1" and new: "options st1 = options st @ new"
    using lua_events_grow[OF assms(1,3)] by (auto simp: grows_def)
  have "so_val (lo_opt (options st ! v)) = int v \<and>
      lua_spank_option_callback W (int v) optarg remote st1 = option_call W (options st ! v) optarg remote st1"
    if v: "v < length (options st)" for v
  proof -
    obtain m where "pl_options st1 = To m"
      using v new by (cases "pl_options st1") (auto simp: options_def[of st1])
    from option_callback_call[OF ok1 this, of W "int v"] v new ok show ?thesis
      by (simp add: options_ok_def nth_append)
  qed
  moreover have "lua_spank_option_callback W w optarg remote st1 = Some (- 1, st1)"
    if "pl_options st1 = To m" "w < 0 \<or> int (length (options st1)) \<le> w" for m w
    using option_callback_call[OF ok1 that(1), of W w] that(2) by auto
  ultimately show ?thesis by blast
qed

section \<open>Loading\<close>

text \<open>C16: When the interpreter is there and memory suffices, the plugin returns from loading its scripts:
  those that the pattern gives are loaded in the reverse of the order of \<open>glob\<close>; those that fail
  to load or have no callback in the context are taken out of the list and destroyed, all
  others stay in it in that order; and it returns -1 exactly when a script fails and the flag
  \<open>fail_on_error\<close> is set, without loading the rest.  The flag is set by the argument \<open>failonerror\<close>;
  without it the code leaves the bit as it was on the stack (\<open>junk\<close>), so that a failure may be fatal
  all the same.  The code that scripts run while they are loaded can only write messages, since
  the functions of the plugin come with the first callback.\<close>

theorem lua_scripts_loaded:
  assumes args: "av = ''failonerror'' # p # as \<and> fail \<or> av = p # as \<and> p \<noteq> ''failonerror'' \<and> fail = junk"
    and lua: "hs_dlopen W" "hs_glob W p = Some paths" "\<And>l t q. quiet (hs_load W l t q)"
    and mem: "hs_mem W = (lf, nf, itf)" "0 < fl_cap lf" "fl_ok {} nf" "length paths \<le> fl_cap nf" "fl_ok {} itf" "0 < fl_cap itf"
  shows "\<exists>ks st1 l1. let scripts = rev [pl_next st ..< pl_next st + length paths];
      st0 = new_scripts paths (st\<lparr>pl_lua := hs_newstate W (pl_lua st), pl_open := True\<rparr>);
      failed = (fail \<and> Fails \<in> set ks)
    in load_all W fail scripts st0 = Some (ks, st1) \<and>
       spank_lua_init W junk av st = Some (if failed then - 1 else 0, with_scripts l1 st1) \<and>
       list_ok l1 \<and> (failed \<or> list_data l1 = kept_scripts scripts ks)"
proof -
  let ?st = "st\<lparr>pl_lua := hs_newstate W (pl_lua st), pl_open := True\<rparr>"
  let ?new = "new_scripts paths ?st"
  let ?as = "rev [pl_next st ..< pl_next st + length paths]"
  have opts: "av \<noteq> []" "spank_lua_process_args junk av = Some (fail, p # as)"
    using args by (auto simp: spank_lua_process_args_def)
  obtain l0 lf1 where 0: "list_create True lf nf itf = (Some (l0 :: nat clist), lf1)" "list_ok l0" "list_data l0 = []" "l_nfree l0 = nf"
    using fresh_list[OF mem(2,3,5)] by blast
  then have "l0 = list_fresh True nf itf" by (auto simp: list_create_def split: prod.splits option.splits)
  then have it0: "l_ifree l0 = itf" by (simp add: list_fresh_def)
  have "length paths \<le> fl_cap (l_nfree l0)" using mem(4) 0(4) by simp
  from create_scripts_all[OF 0(2) this, of ?st] it0 0(3) obtain l2 where 2: "create_scripts paths l0 ?st = (l2, ?new)"
    "list_ok l2" "l_ifree l2 = itf" "list_data l2 = ?as" by auto
  have "0 < fl_cap (l_ifree l2)" using 2(3) mem(6) by simp
  from new_iterator[OF 2(2) this] obtain i l3 where 3: "list_iterator_create l2 = (Some i, l3)" "list_ok l3"
    "list_data l3 = list_data l2" "it_get l3 i \<noteq> None" "it_view l3 i = ([], [], list_data l2)" by blast
  have "\<forall>a\<in>set ?as. pl_store ?new a \<noteq> None"
    using new_scripts_store[of paths ?st] by auto
  moreover have "distinct ?as" by simp
  ultimately obtain ks st1 where ks: "load_all W fail ?as ?new = Some (ks, st1)"
    using load_all_runs[OF lua(3)] by blast
  have "list_data l3 = [] @ [] @ ?as" "it_view l3 i = ([], [], ?as)" using 3(3,5) 2(4) by auto
  from init_loop[OF lua(3) 3(2,4) this(2,1) ks] obtain l1 where
    "each_script (init_step W fail i) i (with_scripts l3 ?new) = Some (fail \<and> Fails \<in> set ks, with_scripts l1 st1)"
    "list_ok l1" "\<not> (fail \<and> Fails \<in> set ks) \<longrightarrow> list_data l1 = kept_scripts ?as ks" by auto
  moreover have "lua_script_list_create W (Some p) ?st = Some (Some l2, ?new)"
    using lua(2) mem(1) 0(1) 2(1) by (simp add: lua_script_list_create_def)
  ultimately have "spank_lua_init W junk av st = Some (if fail \<and> Fails \<in> set ks then - 1 else 0, with_scripts l1 st1)"
    using lua(1) 3(1) opts by (simp add: spank_lua_init_def)
  with ks \<open>list_ok l1\<close> \<open>\<not> (fail \<and> Fails \<in> set ks) \<longrightarrow> _\<close> show ?thesis
    unfolding Let_def by blast
qed

section \<open>Witnesses\<close>

text \<open>
  Two scripts, of which the second cannot be loaded.  A callback \<open>slurm_spank_init\<close> registers an
  option \<open>x\<close>, whose function returns its value; \<open>slurm_spank_exit\<close> fails.
\<close>

definition demo_call :: "unit \<Rightarrow> nat \<Rightarrow> string \<Rightarrow> lval list \<Rightarrow> unit lua_run" where
  "demo_call l t fn args =
    (if fn = ''slurm_spank_init''
     then Asks l t l_spank_option_register
       (args @ [LTable [(LStr ''name'', LStr ''x''), (LStr ''usage'', LStr ''an option''),
                        (LStr ''cb'', LStr ''f''), (LStr ''val'', LNum 7)]])
       (\<lambda>a. Ends (LResult LNil) l)
     else if fn = ''f'' then Ends (LResult (hd args)) l
     else Ends LError l)"

definition demo :: "(unit, unit) host" where
  "demo = \<lparr>sl_context = S_CTX_REMOTE, sl_strerror = (\<lambda>e. ''error''),
    sl_number = (\<lambda>j h i. Inr (32, 5)), sl_string = (\<lambda>j h i. Inr ''2.3''), sl_argv = (\<lambda>j h. Inr []),
    sl_env = (\<lambda>j h. Inr []), sl_gids = (\<lambda>j h. Inr []), sl_id = (\<lambda>j h i n. Inl 1), sl_status = (\<lambda>j h. Inr 0),
    sl_job = \<lparr>ea_getenv = (\<lambda>j h v n. Inl 1), ea_setenv = (\<lambda>j h v w n. (0, j)), ea_unsetenv = (\<lambda>j h v. (0, j))\<rparr>,
    sl_job_control = None, sl_register = (\<lambda>j h opt. (0, j)), sl_getopt = (\<lambda>j h opt. Inl 1),
    sl_lua_num = (\<lambda>s. None), sl_junk = 0,
    hs_dlopen = True, hs_glob = (\<lambda>p. Some [''/s/a'', ''/s/b'']), hs_newstate = (\<lambda>l. l),
    hs_global = (\<lambda>l t n. if n = ''spank_options'' then LNil else LFun None),
    hs_load = (\<lambda>l t p. if p = ''/s/b'' then Ends LError l else Ends (LResult LNil) l),
    hs_call = demo_call, hs_mem = (some_heap, some_heap, some_heap)\<rparr>"

definition demo_init :: "(unit, unit) plugin option" where
  "demo_init = lua_events demo [Init False [''/s/*'']] (lua_start () ())"

lemma demo_simps [simp]:
  "mem_ok demo" "hs_dlopen demo" "hs_glob demo p = Some [''/s/a'', ''/s/b'']" "quiet (hs_load demo l t q)"
  "hs_mem demo = (some_heap, some_heap, some_heap)"
  by (simp_all add: demo_def mem_ok_def some_heap_facts)

theorem lua_callback_all_witness:
  "\<exists>l l1 st1. list_data l = [0] \<and>
    call_foreach demo ''slurm_spank_exit'' [''/s/*''] (with_scripts l (new_scripts [''/s/a''] (lua_start () ()))) =
      Some (0, with_scripts l1 st1)"
proof -
  obtain l0 lf1 where 0: "list_create True some_heap some_heap some_heap = (Some (l0 :: nat clist), lf1)"
    "list_ok l0" "list_data l0 = []" "l_nfree l0 = some_heap"
    using fresh_list[of some_heap some_heap some_heap] some_heap_facts by auto
  then have "l0 = list_fresh True some_heap some_heap" by (auto simp: list_create_def split: prod.splits option.splits)
  then have it0: "l_ifree l0 = some_heap" by (simp add: list_fresh_def)
  have "length [''/s/a''] \<le> fl_cap (l_nfree l0)" using 0(4) by (simp add: some_heap_facts)
  from create_scripts_all[OF 0(2) this, of "lua_start () ()"] obtain l where
    l: "list_ok l" "l_ifree l = some_heap" "list_data l = [0 :: nat]"
    using it0 0(3) by (auto simp: lua_start_def)
  let ?st = "with_scripts l (new_scripts [''/s/a''] (lua_start () ()))"
  have "\<exists>st1. call_all demo ''slurm_spank_exit'' [''/s/*''] (list_data l) ?st = Some ([0], st1)"
    by (simp add: l lua_spank_call_def new_scripts_def lua_script_create_def lua_start_def demo_def demo_call_def)
  then obtain st1 where "call_all demo ''slurm_spank_exit'' [''/s/*''] (list_data l) ?st = Some ([0], st1)" by blast
  moreover have "\<exists>l1. list_ok l1 \<and> list_data l1 = list_data l \<and> call_foreach demo ''slurm_spank_exit'' [''/s/*''] ?st =
      (case call_all demo ''slurm_spank_exit'' [''/s/*''] (list_data l) ?st of
         None \<Rightarrow> None
       | Some (rs, st1) \<Rightarrow> Some (if \<exists>r\<in>set rs. r < 0 then - 1 else 0, with_scripts l1 st1))"
    by (rule lua_callback_all[where fail = False]) (simp_all add: l some_heap_facts spank_lua_process_args_def)
  ultimately show ?thesis using l(3) by auto
qed

theorem lua_option_dispatch_witness:
  "\<exists>st. demo_init = Some st \<and> lo_val (options st ! 0) = 7 \<and> so_val (lo_opt (options st ! 0)) = 0 \<and>
    lua_spank_option_callback demo 0 None False st = option_call demo (options st ! 0) None False st"
proof -
  have "map_option (\<lambda>st. map lo_val (options st)) demo_init = Some [7]" by code_simp
  then obtain st where st: "demo_init = Some st" "map lo_val (options st) = [7]" by auto
  then have "length (options st) = 1" by (metis One_nat_def length_Cons length_map list.size(3))
  then have "0 < length (options st)" "options st \<noteq> []" by auto
  moreover have "lo_val (options st ! 0) = 7" using st(2) \<open>options st \<noteq> []\<close> by (cases "options st") auto
  ultimately show ?thesis
    using st(1) lua_option_dispatch[of demo "[Init False [''/s/*'']]" "()" "()" st "[]" st None False]
    by (auto simp: demo_init_def)
qed

theorem lua_scripts_loaded_witness:
  "\<exists>st1 l1. spank_lua_init demo False [''failonerror'', ''/s/*''] (lua_start () ()) = Some (- 1, with_scripts l1 st1)"
proof -
  let ?st = "lua_start () ()"
  have "\<exists>ks st1 l1. let scripts = rev [pl_next ?st ..< pl_next ?st + length [''/s/a'', ''/s/b'']];
      st0 = new_scripts [''/s/a'', ''/s/b''] (?st\<lparr>pl_lua := hs_newstate demo (pl_lua ?st), pl_open := True\<rparr>);
      failed = (True \<and> Fails \<in> set ks)
    in load_all demo True scripts st0 = Some (ks, st1) \<and>
       spank_lua_init demo False [''failonerror'', ''/s/*''] ?st = Some (if failed then - 1 else 0, with_scripts l1 st1) \<and>
       list_ok l1 \<and> (failed \<or> list_data l1 = kept_scripts scripts ks)"
    by (rule lua_scripts_loaded[where p = "''/s/*''" and as = "[]" and lf = some_heap and nf = some_heap and itf = some_heap])
      (simp_all add: some_heap_facts)
  then obtain ks st1 l1 where 1: "load_all demo True [1, 0]
        (new_scripts [''/s/a'', ''/s/b''] (?st\<lparr>pl_lua := hs_newstate demo (), pl_open := True\<rparr>)) = Some (ks, st1)"
    "spank_lua_init demo False [''failonerror'', ''/s/*''] ?st = Some (if Fails \<in> set ks then - 1 else 0, with_scripts l1 st1)"
    by (auto simp: Let_def lua_start_def upt_rec)
  then have "Fails \<in> set ks"
    by (auto simp: new_scripts_def lua_script_create_def lua_start_def demo_def)
  with 1(2) show ?thesis by auto
qed

section \<open>What the functions for scripts return\<close>

lemma find_name_Some: "find_name n t = Some i \<Longrightarrow> (i, n) \<in> set t"
  by (induction n t rule: find_name.induct) (auto split: if_splits)

lemma find_name_first: "distinct (map snd t) \<Longrightarrow> (i, n) \<in> set t \<Longrightarrow> find_name n t = Some i"
  by (induction n t rule: find_name.induct) (force split: if_splits)+

text \<open>The items by their names; each of them is in one case of the switch.\<close>

lemma name_to_item_table: "name_to_item n = Some i \<longleftrightarrow> (i, n) \<in> set spank_item_table"
proof
  have "distinct (map snd spank_item_table)" by code_simp
  then show "(i, n) \<in> set spank_item_table \<Longrightarrow> name_to_item n = Some i"
    by (simp only: name_to_item_def find_name_first)
qed (simp add: name_to_item_def find_name_Some)

lemma items_handled:
  "item \<in> set val_items \<union> set string_items \<union> set id_items \<union>
    {S_JOB_ARGV, S_JOB_ENV, S_JOB_SUPPLEMENTARY_GIDS, S_TASK_EXIT_STATUS}"
  by (cases item) (simp_all add: val_items_def string_items_def id_items_def)

text \<open>In the table of the environment the last entry of a name counts.\<close>

lemma field_settable: "map_of (settable k v t) = (map_of t)(k \<mapsto> v)"
  by (induction k v t rule: settable.induct) auto

lemma set_env_entry:
  "set_env_table_entry e t =
    settable (LStr (takeWhile (\<lambda>c. c \<noteq> CHR ''='') e)) (LStr (tl (dropWhile (\<lambda>c. c \<noteq> CHR ''='') e))) t"
proof (cases "dropWhile (\<lambda>c. c \<noteq> CHR ''='') e")
  case Nil
  have "takeWhile (\<lambda>c. c \<noteq> CHR ''='') e @ dropWhile (\<lambda>c. c \<noteq> CHR ''='') e = e" by simp
  then have e: "takeWhile (\<lambda>c. c \<noteq> CHR ''='') e = e" unfolding Nil by simp
  show ?thesis unfolding set_env_table_entry_def Nil e by (simp only: list.case list.sel)
qed (simp add: set_env_table_entry_def)

lemma env_table_last:
  assumes "\<forall>e\<in>set es. takeWhile (\<lambda>c. c \<noteq> CHR ''='') e \<noteq> n" "CHR ''='' \<notin> set n"
  shows "field (fold set_env_table_entry (es0 @ (n @ CHR ''='' # v) # es) t) n = LStr v"
  using assms(1)
proof (induction es rule: rev_induct)
  case Nil
  have "dropWhile (\<lambda>c. c \<noteq> CHR ''='') (n @ CHR ''='' # v) = CHR ''='' # v"
    by (subst dropWhile_append2) (use assms(2) in auto)
  moreover have "takeWhile (\<lambda>c. c \<noteq> CHR ''='') (n @ CHR ''='' # v) = n"
    by (subst takeWhile_append2) (use assms(2) in auto)
  ultimately show ?case by (simp add: set_env_entry field_def field_settable)
next
  case (snoc e es)
  let ?t = "fold set_env_table_entry (es0 @ (n @ CHR ''='' # v) # es) t"
  have "field ?t n = LStr v" using snoc by simp
  moreover have "takeWhile (\<lambda>c. c \<noteq> CHR ''='') e \<noteq> n" using snoc.prems by simp
  moreover have "fold set_env_table_entry (es0 @ (n @ CHR ''='' # v) # es @ [e]) t = set_env_table_entry e ?t" by simp
  ultimately show ?case by (simp only: set_env_entry[of e]) (simp add: field_def field_settable)
qed

section \<open>Where the code surprises\<close>

text \<open>
  \<open>register_option\<close> gives its own arguments back: the table \<open>spank\<close> when it succeeds and both
  arguments when it fails, so that a script never sees the error.
\<close>

lemma register_returns_arguments:
  assumes "field tab ''spank'' = LHandle" "spank_option_register W t [LTable tab, LTable opt] st = Some (Ret n s, st1)"
  shows "answer_of (Ret n s) = Returns [LTable tab] \<or> answer_of (Ret n s) = Returns [LTable tab, LTable opt]"
  using assms
  by (auto simp: spank_option_register_def lua_getspank_def at_index_def answer_of_def lua_pop_def
      lua_script_option_register_def Let_def split: option.splits prod.splits if_splits)

text \<open>A number of 32 bits is written into a \<open>long\<close> that is not initialised.\<close>

lemma uninitialised_bits: "sint (stored 32 5 0x100000000) = 4294967301"
  by (simp add: stored_def mask_eq_exp_minus_1)

text \<open>When the interpreter was never started, the plugin does not survive its exit.\<close>

lemma exit_without_lua: "pl_open st = False \<Longrightarrow> pl_scripts st = Null \<Longrightarrow> lua_exit W slurmd av st = None"
  by (cases "pl_options st") (auto simp: lua_exit_def call_foreach_def destroy_scripts_def destroy_options_def
      split: option.splits)

text \<open>Without \<open>failonerror\<close> the flag is not initialised: a script that cannot be loaded may be fatal.\<close>

lemma unset_flag_fatal:
  "map_option fst (spank_lua_init demo False [''/s/*''] (lua_start () ())) = Some 0"
  "map_option fst (spank_lua_init demo True [''/s/*''] (lua_start () ())) = Some (- 1)"
  by code_simp+

text \<open>Only -1 is documented to mean failure, but -2 fails as well.\<close>

lemma other_negative_fails:
  "map_option fst (lua_spank_init (demo\<lparr>hs_call := (\<lambda>l t fn args. Ends (LResult (LNum (- 2))) l)\<rparr>) False [''/s/*'']
     (lua_start () ())) = Some (- 1)"
  by code_simp

text \<open>A pattern without files stops the program.\<close>

lemma no_scripts_crash:
  assumes "hs_glob W p = None" "hs_dlopen W" "strcmp p ''failonerror'' \<noteq> 0"
  shows "lua_spank_init W junk [p] st = None"
  using assms
  by (simp add: lua_spank_init_def spank_lua_init_def spank_lua_process_args_def lua_script_list_create_def
      spank_lua_options_table_register_def)

text \<open>A coroutine of a script has a thread of its own, for which \<open>register_option\<close> finds no script.\<close>

lemma coroutine_crash:
  assumes "script_of st t = Some None" "lua_getspank s = Some (h, s1)" "at_index 2 s1 = LTable tab"
  shows "spank_option_register W t s st = None"
  using assms by (simp add: spank_option_register_def)

text \<open>The options of a script that was taken out stay registered, and point to it.\<close>

definition demo_table :: "(unit, unit) host" where
  "demo_table = demo\<lparr>sl_register := (\<lambda>j h opt. (if so_val opt = 0 then 0 else 1, j)),
     hs_global := (\<lambda>l t n. if n = ''f'' then LFun None else if n = ''spank_options''
       then lua_array (map (\<lambda>n. LTable [(LStr ''name'', LStr n), (LStr ''usage'', LStr ''u''), (LStr ''cb'', LStr ''f'')]) [''x'', ''y''])
       else LNil)\<rparr>"

lemma removed_script_crash:
  "Option.bind (lua_events demo_table [Init False [''/s/*'']] (lua_start () ()))
     (\<lambda>st. Some (map so_val (map lo_opt (options st)), map_option fst (lua_spank_option_callback demo_table 0 None False st))) =
   Some ([0, 1], None)"
  by code_simp

end
