(* ===== verification/LuaSchedutils.thy ===== *)
theory LuaSchedutils
  imports CpuMask
begin

text \<open>
  \<open>lua/lua-schedutils/lua-schedutils.c\<close>: CPU sets as objects of Lua.  An object is a mask in a heap,
  which is a list of all masks allocated so far; a value refers to it by its index, so that two
  values may be the same object.  A C function works on its own stack, a list of values whose end
  is the top, and returns how many values of the top are its results.
\<close>

section \<open>Values\<close>

text \<open>The methods of \<open>cpu_set_methods\<close>, by the C function they stand for.\<close>

datatype cpu_set_method =
    M_equals | M_count | M_add | M_subtract | M_strconcat | M_tostring | M_index | M_newindex
  | M_set | M_delete | M_isset | M_zero | M_union | M_is_in | M_contains | M_intersect
  | M_iterate | M_expand | M_copy | M_first | M_last | M_tohex

text \<open>
  A function of Lua has a number; \<open>SIter\<close> is a new closure of \<open>l_cpu_set_iterator\<close> over a value.
  Numbers are integers: fractions are left out, and a number that no \<open>int\<close> holds stays as it is,
  as it is no CPU either way.  Texts hold no NUL.
\<close>

datatype sval =
    SNil
  | SBool bool
  | SNum int
  | SStr string
  | SSet nat
  | SFun nat
  | SMethod cpu_set_method
  | SIter sval
  | STable "sval list"

type_synonym heap = "cpu_set list"

text \<open>
  What Lua and the system answer: the conversion of strings to numbers and back, a call of a Lua function
  (\<open>None\<close> is an error), the contents of new memory, and \<open>sched_getaffinity\<close> and
  \<open>sched_setaffinity\<close> (\<open>Inl\<close> is the text of the error).
\<close>

record lua_env =
  le_num :: "string \<Rightarrow> int option"
  le_text :: "int \<Rightarrow> string"
  le_call :: "nat \<Rightarrow> sval \<Rightarrow> heap \<Rightarrow> sval option \<times> heap"
  le_junk :: cpu_set
  le_getaffinity :: "string + cpu_set"
  le_setaffinity :: "cpu_set \<Rightarrow> string option"

datatype sresult = SRet nat "sval list" | SRaise

definition sindex :: "nat \<Rightarrow> sval list \<Rightarrow> sval option" where
  "sindex i s = (if 0 < i \<and> i \<le> length s then Some (s ! (i - 1)) else None)"

text \<open>\<open>lua_replace\<close>: the top value is taken off and stored at the index.\<close>

definition lua_replace :: "nat \<Rightarrow> sval list \<Rightarrow> sval list" where
  "lua_replace i s = (butlast s)[i - 1 := last s]"

definition stostring :: "lua_env \<Rightarrow> sval option \<Rightarrow> string option" where
  "stostring E v = (case v of Some (SStr x) \<Rightarrow> Some x | Some (SNum n) \<Rightarrow> Some (le_text E n) | _ \<Rightarrow> None)"

definition stonumber :: "lua_env \<Rightarrow> sval option \<Rightarrow> int option" where
  "stonumber E v = (case v of Some (SNum n) \<Rightarrow> Some n | Some (SStr x) \<Rightarrow> le_num E x | _ \<Rightarrow> None)"

definition CPU_CLR :: "int \<Rightarrow> cpu_set \<Rightarrow> cpu_set" where
  "CPU_CLR c m = (if 0 \<le> c \<and> c < int CPU_SETSIZE then m - {nat c} else m)"

section \<open>Arguments\<close>

definition l_cpu_set_alloc :: "lua_env \<Rightarrow> sval list \<Rightarrow> heap \<Rightarrow> sval list \<times> heap" where
  "l_cpu_set_alloc E s h = (s @ [SSet (length h)], h @ [le_junk E])"

text \<open>
  The mask of a text: in hexadecimal when it begins with \<open>0x\<close> or \<open>00\<close>, else as a list of ranges
  and, if that fails, in hexadecimal.  The first result is 0 for success; \<open>None\<close>, here and below, is a
  loop that does not end or a step that C does not define.
\<close>

definition string_to_cpus :: "string \<Rightarrow> (int \<times> cpu_set) option" where
  "string_to_cpus s =
    (if take 2 s = ''0x'' \<or> take 2 s = ''00'' then Some (hex_to_cpuset s)
     else (case cstr_to_cpuset s of
             None \<Rightarrow> None
           | Some (err, m) \<Rightarrow> if err \<noteq> 0 then Some (hex_to_cpuset s) else Some (0, m)))"

text \<open>A pointer to a mask, NULL with \<open>nil\<close> and a message on the stack, or an error of Lua.\<close>

datatype setp = Ptr nat | NullSet | SError

definition lua_string_to_cpu_setp ::
    "lua_env \<Rightarrow> nat \<Rightarrow> nat \<Rightarrow> sval list \<Rightarrow> heap \<Rightarrow> (setp \<times> sval list \<times> heap) option" where
  "lua_string_to_cpu_setp E i a s h =
    (case stostring E (sindex i s) of
       None \<Rightarrow> Some (SError, s, h)
     | Some x \<Rightarrow>
        (case string_to_cpus x of
           None \<Rightarrow> None
         | Some (err, m) \<Rightarrow>
            Some (if err \<noteq> 0
                  then (NullSet, s @ [SNil, SStr (''unable to parse CPU mask or list: '' @ [CHR 0x27] @ x @ [CHR 0x27])],
                        h[a := m])
                  else (Ptr a, s, h[a := m]))))"

text \<open>A number that no 64-bit integer holds is not converted to one by the rules of C.\<close>

definition MAX_LUAINT :: int where
  "MAX_LUAINT = 0xfffffffffffff0"

definition lua_number_to_cpu_setp ::
    "lua_env \<Rightarrow> nat \<Rightarrow> nat \<Rightarrow> int \<Rightarrow> sval list \<Rightarrow> heap \<Rightarrow> (setp \<times> sval list \<times> heap) option" where
  "lua_number_to_cpu_setp E i a k s h =
    (let n = uint (word_of_int k :: 64 word)
     in if k < - (2 ^ 63) \<or> k \<ge> 2 ^ 63 then None
        else if n \<ge> MAX_LUAINT
        then Some (NullSet, s @ [SNil, SStr ''unable to parse CPU mask: numeric overflow''], h)
        else lua_string_to_cpu_setp E i a (lua_replace i (s @ [SStr (''0x'' @ hex (nat n))])) h)"

definition lua_to_cpu_setp ::
    "lua_env \<Rightarrow> nat \<Rightarrow> sval list \<Rightarrow> heap \<Rightarrow> (setp \<times> sval list \<times> heap) option" where
  "lua_to_cpu_setp E i s h =
    (case sindex i s of
       Some (SSet a) \<Rightarrow> Some (Ptr a, s, h)
     | _ \<Rightarrow>
        (case l_cpu_set_alloc E s h of
           (s1, h1) \<Rightarrow>
             (let a = length h;
                  r = (case sindex i s1 of
                         Some SNil \<Rightarrow> Some (Ptr a, s1, h1[a := {}])
                       | Some (SNum k) \<Rightarrow> lua_number_to_cpu_setp E i a k s1 h1
                       | _ \<Rightarrow> lua_string_to_cpu_setp E i a s1 h1)
              in case r of
                   Some (Ptr p, s2, h2) \<Rightarrow> Some (Ptr p, lua_replace i s2, h2)
                 | _ \<Rightarrow> r)))"

text \<open>
  Continuations: the argument at an index, where NULL returns two values, and where NULL is
  followed.
\<close>

definition checked ::
    "lua_env \<Rightarrow> nat \<Rightarrow> sval list \<Rightarrow> heap \<Rightarrow> (nat \<Rightarrow> sval list \<Rightarrow> heap \<Rightarrow> (sresult \<times> heap) option) \<Rightarrow> (sresult \<times> heap) option" where
  "checked E i s h k =
    (case lua_to_cpu_setp E i s h of
       None \<Rightarrow> None
     | Some (Ptr a, s1, h1) \<Rightarrow> k a s1 h1
     | Some (NullSet, s1, h1) \<Rightarrow> Some (SRet 2 s1, h1)
     | Some (SError, s1, h1) \<Rightarrow> Some (SRaise, h1))"

definition followed ::
    "lua_env \<Rightarrow> nat \<Rightarrow> sval list \<Rightarrow> heap \<Rightarrow> (nat \<Rightarrow> sval list \<Rightarrow> heap \<Rightarrow> (sresult \<times> heap) option) \<Rightarrow> (sresult \<times> heap) option" where
  "followed E i s h k =
    (case lua_to_cpu_setp E i s h of
       None \<Rightarrow> None
     | Some (Ptr a, s1, h1) \<Rightarrow> k a s1 h1
     | Some (NullSet, s1, h1) \<Rightarrow> None
     | Some (SError, s1, h1) \<Rightarrow> Some (SRaise, h1))"

section \<open>New sets, union and intersection\<close>

definition l_cpu_set_new :: "lua_env \<Rightarrow> sval list \<Rightarrow> heap \<Rightarrow> (sresult \<times> heap) option" where
  "l_cpu_set_new E s h =
    (if s = [] then (case l_cpu_set_alloc E s h of (s1, h1) \<Rightarrow> Some (SRet 1 s1, h1[length h := {}]))
     else if length s = 1 then checked E 1 s h (\<lambda>a s1 h1. Some (SRet 1 s1, h1))
     else Some (SRaise, h))"

definition count_cpus :: "cpu_set \<Rightarrow> int" where
  "count_cpus m = fold (\<lambda>i n. if CPU_ISSET (int i) m then n + 1 else n) [0 ..< CPU_SETSIZE] 0"

definition l_cpu_set_count :: "lua_env \<Rightarrow> sval list \<Rightarrow> heap \<Rightarrow> (sresult \<times> heap) option" where
  "l_cpu_set_count E s h =
    followed E 1 s h (\<lambda>a s1 h1. Some (SRet 1 (s1 @ [SNum (count_cpus (h1 ! a))]), h1))"

definition cpu_set_union :: "nat \<Rightarrow> nat \<Rightarrow> heap \<Rightarrow> heap" where
  "cpu_set_union p q h =
    fold (\<lambda>i h. if CPU_ISSET (int i) (h ! q) then h[p := CPU_SET (int i) (h ! p)] else h) [0 ..< CPU_SETSIZE] h"

definition cpu_set_intersect :: "nat \<Rightarrow> nat \<Rightarrow> heap \<Rightarrow> heap" where
  "cpu_set_intersect p q h =
    fold (\<lambda>i h. if CPU_ISSET (int i) (h ! p) \<and> \<not> CPU_ISSET (int i) (h ! q)
                then h[p := CPU_CLR (int i) (h ! p)] else h) [0 ..< CPU_SETSIZE] h"

text \<open>The loop over the arguments from an index on, whose results go into the object \<open>p\<close>.\<close>

fun accumulate ::
    "(nat \<Rightarrow> nat \<Rightarrow> heap \<Rightarrow> heap) \<Rightarrow> lua_env \<Rightarrow> nat \<Rightarrow> nat list \<Rightarrow> sval list \<Rightarrow> heap \<Rightarrow> (sresult \<times> heap) option" where
  "accumulate f E p [] s h = Some (SRet 1 (take 1 s), h)"
| "accumulate f E p (i # is) s h =
    checked E i s h (\<lambda>q s1 h1. accumulate f E p is s1 (f p q h1))"

definition l_cpu_set_union :: "lua_env \<Rightarrow> sval list \<Rightarrow> heap \<Rightarrow> (sresult \<times> heap) option" where
  "l_cpu_set_union E s h =
    checked E 1 s h (\<lambda>p s1 h1. accumulate cpu_set_union E p [2 ..< length s + 1] s1 h1)"

definition l_cpu_set_intersect :: "lua_env \<Rightarrow> sval list \<Rightarrow> heap \<Rightarrow> (sresult \<times> heap) option" where
  "l_cpu_set_intersect E s h =
    checked E 1 s h (\<lambda>p s1 h1. accumulate cpu_set_intersect E p [2 ..< length s + 1] s1 h1)"

section \<open>Operators\<close>

text \<open>\<open>CPU_SET\<close> or \<open>CPU_CLR\<close> of every CPU in the result \<open>r\<close>, by a test on the two masks.\<close>

definition combine :: "(bool \<Rightarrow> bool \<Rightarrow> bool) \<Rightarrow> nat \<Rightarrow> nat \<Rightarrow> nat \<Rightarrow> heap \<Rightarrow> heap" where
  "combine f r p q h =
    fold (\<lambda>i h. h[r := (if f (CPU_ISSET (int i) (h ! p)) (CPU_ISSET (int i) (h ! q))
                        then CPU_SET (int i) (h ! r) else CPU_CLR (int i) (h ! r))]) [0 ..< CPU_SETSIZE] h"

definition l_cpu_set_add :: "lua_env \<Rightarrow> sval list \<Rightarrow> heap \<Rightarrow> (sresult \<times> heap) option" where
  "l_cpu_set_add E s h =
    (case l_cpu_set_alloc E s h of
       (s0, h0) \<Rightarrow>
         checked E 1 s0 h0 (\<lambda>p s1 h1. checked E 2 s1 h1 (\<lambda>q s2 h2.
           Some (SRet 1 s2, combine (\<or>) (length h) p q h2))))"

text \<open>Only the second argument is tested: a first one that is NULL is followed.\<close>

definition l_cpu_set_subtract :: "lua_env \<Rightarrow> sval list \<Rightarrow> heap \<Rightarrow> (sresult \<times> heap) option" where
  "l_cpu_set_subtract E s h =
    (case l_cpu_set_alloc E s h of
       (s0, h0) \<Rightarrow>
        (case lua_to_cpu_setp E 1 s0 h0 of
           None \<Rightarrow> None
         | Some (SError, s1, h1) \<Rightarrow> Some (SRaise, h1)
         | Some (p, s1, h1) \<Rightarrow>
             checked E 2 s1 h1 (\<lambda>q s2 h2.
               case p of
                 Ptr a \<Rightarrow> Some (SRet 1 s2, combine (\<lambda>x y. x \<and> \<not> y) (length h) a q h2)
               | _ \<Rightarrow> None)))"

text \<open>\<open>set\<close> and \<open>clr\<close>: the values on the stack from the second on, to which a first argument that
  cannot be read has added its new object, \<open>nil\<close> and the message.  Only \<open>set\<close> asks for numbers.\<close>

fun set_cpus :: "lua_env \<Rightarrow> setp \<Rightarrow> sval list \<Rightarrow> heap \<Rightarrow> (bool \<times> heap) option" where
  "set_cpus E p [] h = Some (True, h)"
| "set_cpus E p (v # vs) h =
    (case stonumber E (Some v) of
       None \<Rightarrow> Some (False, h)
     | Some n \<Rightarrow>
        (case p of
           Ptr a \<Rightarrow> set_cpus E p vs (h[a := CPU_SET n (h ! a)])
         | _ \<Rightarrow> if 0 \<le> n \<and> n < int CPU_SETSIZE then None else set_cpus E p vs h))"

definition l_cpu_set_set :: "lua_env \<Rightarrow> sval list \<Rightarrow> heap \<Rightarrow> (sresult \<times> heap) option" where
  "l_cpu_set_set E s h =
    (case lua_to_cpu_setp E 1 s h of
       None \<Rightarrow> None
     | Some (SError, s1, h1) \<Rightarrow> Some (SRaise, h1)
     | Some (p, s1, h1) \<Rightarrow>
        (case set_cpus E p (drop 1 s1) h1 of
           None \<Rightarrow> None
         | Some (ok, h2) \<Rightarrow> Some (if ok then SRet 0 s1 else SRaise, h2)))"

definition clear_cpus :: "lua_env \<Rightarrow> nat \<Rightarrow> sval list \<Rightarrow> heap \<Rightarrow> heap" where
  "clear_cpus E p vs h =
    fold (\<lambda>v h. h[p := CPU_CLR (case stonumber E (Some v) of None \<Rightarrow> 0 | Some n \<Rightarrow> n) (h ! p)]) vs h"

definition l_cpu_set_delete :: "lua_env \<Rightarrow> sval list \<Rightarrow> heap \<Rightarrow> (sresult \<times> heap) option" where
  "l_cpu_set_delete E s h =
    followed E 1 s h (\<lambda>p s1 h1. Some (SRet 0 s1, clear_cpus E p (drop 1 s1) h1))"

definition l_cpu_set_zero :: "lua_env \<Rightarrow> sval list \<Rightarrow> heap \<Rightarrow> (sresult \<times> heap) option" where
  "l_cpu_set_zero E s h = followed E 1 s h (\<lambda>p s1 h1. Some (SRet 0 s1, h1[p := {}]))"

section \<open>Texts\<close>

definition cpu_set_to_string ::
    "lua_env \<Rightarrow> nat \<Rightarrow> sval list \<Rightarrow> heap \<Rightarrow> (sval list \<Rightarrow> heap \<Rightarrow> (sresult \<times> heap) option) \<Rightarrow> (sresult \<times> heap) option" where
  "cpu_set_to_string E i s h k =
    followed E i s h (\<lambda>p s1 h1. k (lua_replace i (s1 @ [SStr (cpuset_to_cstr (h1 ! p))])) h1)"

definition l_cpu_set_tostring :: "lua_env \<Rightarrow> sval list \<Rightarrow> heap \<Rightarrow> (sresult \<times> heap) option" where
  "l_cpu_set_tostring E s h = cpu_set_to_string E 1 s h (\<lambda>s1 h1. Some (SRet 1 (take 1 s1), h1))"

text \<open>The two operands of \<open>..\<close>; a value that is neither a text nor a number is an error of \<open>lua_concat\<close>.\<close>

definition is_set :: "sval option \<Rightarrow> bool" where
  "is_set v = (case v of Some (SSet a) \<Rightarrow> True | _ \<Rightarrow> False)"

definition lua_concat2 :: "lua_env \<Rightarrow> sval list \<Rightarrow> heap \<Rightarrow> (sresult \<times> heap) option" where
  "lua_concat2 E s h =
    (case (stostring E (sindex (length s - 1) s), stostring E (sindex (length s) s)) of
       (Some x, Some y) \<Rightarrow> Some (SRet 1 (take (length s - 2) s @ [SStr (x @ y)]), h)
     | _ \<Rightarrow> Some (SRaise, h))"

definition l_cpu_set_strconcat :: "lua_env \<Rightarrow> sval list \<Rightarrow> heap \<Rightarrow> (sresult \<times> heap) option" where
  "l_cpu_set_strconcat E s h =
    (let second = (\<lambda>s1 h1. if is_set (sindex 2 s1) then cpu_set_to_string E 2 s1 h1 (lua_concat2 E)
                           else lua_concat2 E s1 h1)
     in if is_set (sindex 1 s) then cpu_set_to_string E 1 s h second else second s h)"

definition l_cpu_set_tohex :: "lua_env \<Rightarrow> sval list \<Rightarrow> heap \<Rightarrow> (sresult \<times> heap) option" where
  "l_cpu_set_tohex E s h =
    followed E 1 s h (\<lambda>p s1 h1.
      case cpuset_to_hex (h1 ! p) (replicate 1022 (CHR 0x00)) 1022 of
        None \<Rightarrow> None
      | Some (r, buf) \<Rightarrow> Some (SRet 1 (s1 @ [SStr (''0x'' @ takeWhile (\<lambda>c. c \<noteq> CHR 0x00) buf)]), h1))"

section \<open>Tests\<close>

definition l_cpu_set_isset :: "lua_env \<Rightarrow> sval list \<Rightarrow> heap \<Rightarrow> (sresult \<times> heap) option" where
  "l_cpu_set_isset E s h =
    (case lua_to_cpu_setp E 1 s h of
       None \<Rightarrow> None
     | Some (SError, s1, h1) \<Rightarrow> Some (SRaise, h1)
     | Some (p, s1, h1) \<Rightarrow>
        (case stonumber E (sindex 2 s1) of
           None \<Rightarrow> Some (SRaise, h1)
         | Some i \<Rightarrow>
             if i < 0 \<or> i > int CPU_SETSIZE - 1 then Some (SRaise, h1)
             else (case p of Ptr a \<Rightarrow> Some (SRet 1 [SBool (CPU_ISSET i (h1 ! a))], h1) | _ \<Rightarrow> None)))"

text \<open>
  Loops that stop at the first CPU where the test fails.  A second mask that is NULL is followed
  unless the loop never reads it.
\<close>

definition every_cpu :: "(int \<Rightarrow> bool) \<Rightarrow> bool" where
  "every_cpu f = list_all (\<lambda>i. f (int i)) [0 ..< CPU_SETSIZE]"

definition compare ::
    "(cpu_set \<Rightarrow> cpu_set \<Rightarrow> int \<Rightarrow> bool) \<Rightarrow> (cpu_set \<Rightarrow> bool) \<Rightarrow> lua_env \<Rightarrow> sval list \<Rightarrow> heap \<Rightarrow> (sresult \<times> heap) option" where
  "compare f unread E s h =
    (case lua_to_cpu_setp E 1 s h of
       None \<Rightarrow> None
     | Some (SError, s1, h1) \<Rightarrow> Some (SRaise, h1)
     | Some (p, s1, h1) \<Rightarrow>
        (case lua_to_cpu_setp E 2 s1 h1 of
           None \<Rightarrow> None
         | Some (SError, s2, h2) \<Rightarrow> Some (SRaise, h2)
         | Some (q, s2, h2) \<Rightarrow>
            (case p of
               Ptr a \<Rightarrow>
                 (let answer = (\<lambda>r. Some (SRet 1 (take (length s2 - 2) s2 @ [SBool r]), h2))
                  in case q of
                       Ptr b \<Rightarrow> answer (every_cpu (f (h2 ! a) (h2 ! b)))
                     | _ \<Rightarrow> if unread (h2 ! a) then answer True else None)
             | _ \<Rightarrow> None)))"

text \<open>The second mask is not read for a CPU that is not in the first.\<close>

definition l_cpu_set_is_in :: "lua_env \<Rightarrow> sval list \<Rightarrow> heap \<Rightarrow> (sresult \<times> heap) option" where
  "l_cpu_set_is_in =
    compare (\<lambda>m1 m2 i. \<not> (CPU_ISSET i m1 \<and> \<not> CPU_ISSET i m2)) (\<lambda>m. every_cpu (\<lambda>i. \<not> CPU_ISSET i m))"

definition l_cpu_set_equals :: "lua_env \<Rightarrow> sval list \<Rightarrow> heap \<Rightarrow> (sresult \<times> heap) option" where
  "l_cpu_set_equals = compare (\<lambda>m1 m2 i. CPU_ISSET i m1 = CPU_ISSET i m2) (\<lambda>m. False)"

text \<open>The first argument is moved to the top.\<close>

definition l_cpu_set_contains :: "lua_env \<Rightarrow> sval list \<Rightarrow> heap \<Rightarrow> (sresult \<times> heap) option" where
  "l_cpu_set_contains E s h = l_cpu_set_is_in E (if s = [] then [] else tl s @ [hd s]) h"

text \<open>The first CPU of a list of numbers that is set.\<close>

fun first_set :: "cpu_set \<Rightarrow> nat list \<Rightarrow> nat option" where
  "first_set m [] = None"
| "first_set m (i # is) = (if CPU_ISSET (int i) m then Some i else first_set m is)"

definition found_cpu :: "sval list \<Rightarrow> heap \<Rightarrow> nat option \<Rightarrow> (sresult \<times> heap) option" where
  "found_cpu s h r = Some (case r of None \<Rightarrow> SRet 0 s | Some i \<Rightarrow> SRet 1 (s @ [SNum (int i)]), h)"

definition l_cpu_set_first :: "lua_env \<Rightarrow> sval list \<Rightarrow> heap \<Rightarrow> (sresult \<times> heap) option" where
  "l_cpu_set_first E s h =
    followed E 1 s h (\<lambda>p s1 h1. found_cpu s1 h1 (first_set (h1 ! p) [0 ..< CPU_SETSIZE]))"

definition l_cpu_set_last :: "lua_env \<Rightarrow> sval list \<Rightarrow> heap \<Rightarrow> (sresult \<times> heap) option" where
  "l_cpu_set_last E s h =
    followed E 1 s h (\<lambda>p s1 h1. found_cpu s1 h1 (first_set (h1 ! p) (rev [0 ..< CPU_SETSIZE])))"

section \<open>Indexing\<close>

definition cpu_set_methods :: "(string \<times> cpu_set_method) list" where
  "cpu_set_methods =
    [(''__eq'', M_equals), (''__len'', M_count), (''__add'', M_add), (''__sub'', M_subtract),
     (''__concat'', M_strconcat), (''__tostring'', M_tostring), (''__index'', M_index),
     (''__newindex'', M_newindex), (''set'', M_set), (''clr'', M_delete), (''isset'', M_isset),
     (''zero'', M_zero), (''count'', M_count), (''weight'', M_count), (''union'', M_union),
     (''is_in'', M_is_in), (''contains'', M_contains), (''intersect'', M_intersect),
     (''iterator'', M_iterate), (''expand'', M_expand), (''copy'', M_copy), (''first'', M_first),
     (''last'', M_last), (''tohex'', M_tohex)]"

text \<open>
  \<open>set [key]\<close> for a set: its size, a method, or the value of a bit.  A number becomes its text
  on the stack, which is a number again for \<open>isset\<close>; the metatable stays on the stack.
\<close>

definition l_cpu_set_index :: "lua_env \<Rightarrow> sval list \<Rightarrow> heap \<Rightarrow> (sresult \<times> heap) option" where
  "l_cpu_set_index E s h =
    (case stostring E (sindex 2 s) of
       None \<Rightarrow> Some (SRaise, h)
     | Some key \<Rightarrow>
         (let s1 = s[1 := SStr key]
          in if strcmp key ''size'' = 0 then Some (SRet 1 (s1 @ [SNum (int CPU_SETSIZE)]), h)
             else (case map_of cpu_set_methods key of
                     Some m \<Rightarrow> Some (SRet 1 (s1 @ [STable [], SMethod m]), h)
                   | None \<Rightarrow> l_cpu_set_isset E (s1 @ [STable []]) h)))"

text \<open>\<open>set [index] = value\<close>.\<close>

definition l_cpu_set_newindex :: "lua_env \<Rightarrow> sval list \<Rightarrow> heap \<Rightarrow> (sresult \<times> heap) option" where
  "l_cpu_set_newindex E s h =
    (case lua_to_cpu_setp E 1 s h of
       None \<Rightarrow> None
     | Some (SError, s1, h1) \<Rightarrow> Some (SRaise, h1)
     | Some (p, s1, h1) \<Rightarrow>
        (case (stonumber E (sindex 2 s1),
               case sindex 3 s1 of Some (SBool b) \<Rightarrow> Some (of_bool b) | v \<Rightarrow> stonumber E v) of
           (Some index, Some val) \<Rightarrow>
             if index < 0 \<or> index \<ge> int CPU_SETSIZE then Some (SRaise, h1)
             else if val \<noteq> 1 \<and> val \<noteq> 0 then Some (SRaise, h1)
             else (case p of
                     Ptr a \<Rightarrow> Some (SRet 0 (take (length s1 - 3) s1),
                       h1[a := (if val = 1 then CPU_SET index (h1 ! a) else CPU_CLR index (h1 ! a))])
                   | _ \<Rightarrow> None)
         | _ \<Rightarrow> Some (SRaise, h1)))"

section \<open>Iterators and tables\<close>

text \<open>The closure over the value on the top of the stack.\<close>

definition l_cpu_set_iterate :: "sval list \<Rightarrow> sresult option" where
  "l_cpu_set_iterate s = (if s = [] then None else Some (SRet 1 (butlast s @ [SIter (last s)])))"

text \<open>
  One call of the closure, whose upvalues are a value and the bit to start from; the new upvalues
  come with the result, which is \<open>nil\<close> at the end and \<open>None\<close> for an error of Lua.
\<close>

definition next_bit :: "cpu_set \<Rightarrow> nat \<Rightarrow> nat" where
  "next_bit m b = (case first_set m [b ..< CPU_SETSIZE] of None \<Rightarrow> max b CPU_SETSIZE | Some i \<Rightarrow> i)"

definition l_cpu_set_iterator ::
    "lua_env \<Rightarrow> sval \<Rightarrow> nat \<Rightarrow> heap \<Rightarrow> (sval option \<times> sval \<times> nat \<times> heap) option" where
  "l_cpu_set_iterator E v b h =
    (case lua_to_cpu_setp E 1 [v] h of
       Some (Ptr p, s1, h1) \<Rightarrow>
         (let n = next_bit (h1 ! p) b
          in Some (Some (if n \<ge> CPU_SETSIZE then SNil else SNum (int n)), hd s1, n + 1, h1))
     | Some (NullSet, s1, h1) \<Rightarrow> if b \<ge> CPU_SETSIZE then Some (Some SNil, hd s1, b + 1, h1) else None
     | Some (SError, s1, h1) \<Rightarrow> Some (None, v, b, h1)
     | None \<Rightarrow> None)"

text \<open>
  The table of the CPUs, or of what a function makes of them, without \<open>nil\<close> and \<open>false\<close>.  The
  function may change the set.
\<close>

fun expand_loop ::
    "lua_env \<Rightarrow> nat option \<Rightarrow> nat \<Rightarrow> nat list \<Rightarrow> sval list \<Rightarrow> heap \<Rightarrow> sval list option \<times> heap" where
  "expand_loop E f p [] t h = (Some t, h)"
| "expand_loop E f p (i # is) t h =
    (if \<not> CPU_ISSET (int i) (h ! p) then expand_loop E f p is t h
     else (case (case f of None \<Rightarrow> (Some (SNum (int i)), h) | Some g \<Rightarrow> le_call E g (SNum (int i)) h) of
             (None, h1) \<Rightarrow> (None, h1)
           | (Some v, h1) \<Rightarrow>
               expand_loop E f p is (if v = SNil \<or> v = SBool False then t else t @ [v]) h1))"

definition l_cpu_set_expand :: "lua_env \<Rightarrow> sval list \<Rightarrow> heap \<Rightarrow> (sresult \<times> heap) option" where
  "l_cpu_set_expand E s h =
    followed E 1 s h (\<lambda>p s1 h1.
      case expand_loop E (case sindex 2 s1 of Some (SFun g) \<Rightarrow> Some g | _ \<Rightarrow> None) p [0 ..< CPU_SETSIZE] [] h1 of
        (None, h2) \<Rightarrow> Some (SRaise, h2)
      | (Some t, h2) \<Rightarrow> Some (SRet 1 (s1 @ [STable t]), h2))"

definition l_cpu_set_copy :: "lua_env \<Rightarrow> sval list \<Rightarrow> heap \<Rightarrow> (sresult \<times> heap) option" where
  "l_cpu_set_copy E s h =
    followed E 1 s h (\<lambda>p s1 h1.
      case l_cpu_set_alloc E s1 h1 of (s2, h2) \<Rightarrow> Some (SRet 1 s2, h2[length h1 := h2 ! p]))"

section \<open>Affinity\<close>

definition l_getaffinity :: "lua_env \<Rightarrow> sval list \<Rightarrow> heap \<Rightarrow> sresult \<times> heap" where
  "l_getaffinity E s h =
    (case l_cpu_set_alloc E s h of
       (s1, h1) \<Rightarrow>
         (case le_getaffinity E of
            Inl err \<Rightarrow> (SRet 2 (s1 @ [SNil, SStr (''sched_getaffinity: '' @ err)]), h1)
          | Inr m \<Rightarrow> (SRet 1 s1, h1[length h := m])))"

text \<open>A NULL mask makes the system call fail, which returns an error as well.\<close>

definition l_setaffinity :: "lua_env \<Rightarrow> sval list \<Rightarrow> heap \<Rightarrow> (sresult \<times> heap) option" where
  "l_setaffinity E s h =
    (case lua_to_cpu_setp E 1 s h of
       None \<Rightarrow> None
     | Some (SError, s1, h1) \<Rightarrow> Some (SRaise, h1)
     | Some (NullSet, s1, h1) \<Rightarrow> Some (SRet 2 (s1 @ [SNil, SStr ''sched_getaffinity: Bad address'']), h1)
     | Some (Ptr p, s1, h1) \<Rightarrow>
         Some (case le_setaffinity E (h1 ! p) of
                 Some err \<Rightarrow> SRet 2 (s1 @ [SNil, SStr (''sched_getaffinity: '' @ err)])
               | None \<Rightarrow> SRet 1 (s1 @ [SBool True]), h1))"

end
