(* ===== verification/LuaSchedutilsProps.thy ===== *)
theory LuaSchedutilsProps
  imports LuaSchedutils CpuHexLaws
begin

text \<open>
  The CPU sets of \<open>lua-schedutils.c\<close> as sets: what the operators, the methods and the iterator
  return for arguments of any kind, which objects they change, and where the code follows NULL.
\<close>

section \<open>Values that stand for sets\<close>

text \<open>
  A text that names CPUs: a list of entries \<open>first-last:stride\<close>, or a mask in hexadecimal behind \<open>0x\<close>.
\<close>

definition text_means :: "string \<Rightarrow> cpu_set \<Rightarrow> bool" where
  "text_means x S \<longleftrightarrow>
    (\<exists>ts. ts \<noteq> [] \<and> (\<forall>t\<in>set ts. entry_valid t) \<and> x = comma_list (map entry_text ts) \<and>
      S = set (concat (map entry_cpus ts))) \<or>
    (\<exists>n. 0 \<le> n \<and> n < MAX_LUAINT \<and> x = ''0x'' @ hex (nat n) \<and> S = {i. bit n i})"

definition denotes :: "heap \<Rightarrow> sval \<Rightarrow> cpu_set \<Rightarrow> bool" where
  "denotes h v S =
    (case v of
       SSet a \<Rightarrow> a < length h \<and> h ! a = S
     | SNil \<Rightarrow> S = {}
     | SNum n \<Rightarrow> 0 \<le> n \<and> n < MAX_LUAINT \<and> S = {i. bit n i}
     | SStr x \<Rightarrow> text_means x S
     | _ \<Rightarrow> False)"

lemma hex_ne: "hex n \<noteq> []"
  by (subst hex.simps) simp

lemma number_mask:
  assumes "0 \<le> n" "n < MAX_LUAINT"
  shows "string_to_cpus (''0x'' @ hex (nat n)) = Some (0, {i. bit n i})"
proof -
  have x: "\<forall>c\<in>set (hex (nat n)). isxdigit c" using hex_digits by blast
  then have "CHR '','' \<notin> set (hex (nat n))" using xdigit_not by blast
  then have "nexttoken (Some (hex (nat n))) (CHR '','') = None"
    using next_skip[of "CHR '',''" "hex (nat n)" "[]"] by simp
  then have c: "count_tokens (hex (nat n)) = 1" by (subst count_tokens.simps) simp
  have small: "i < CPU_SETSIZE" if "bit n i" for i
  proof (rule ccontr)
    assume "\<not> i < CPU_SETSIZE"
    then have "(2 :: int) ^ 64 \<le> 2 ^ i" by (intro power_increasing) (simp_all add: CPU_SETSIZE_def)
    moreover have "n < 2 ^ 64" using assms(2) by (simp add: MAX_LUAINT_def)
    ultimately have "n < 2 ^ i" by linarith
    then have "take_bit i n = n" using assms by (simp add: take_bit_int_eq_self)
    then have "\<not> bit n i" by (metis bit_take_bit_iff less_irrefl)
    with that show False by simp
  qed
  have "s_to_cpuset {} (hex (nat n)) (length (hex (nat n))) = (0, {i. i < CPU_SETSIZE \<and> bit n i})"
    using s_to_cpuset_result[OF x, of "{}" "[]"] assms(1) by simp
  also have "{i. i < CPU_SETSIZE \<and> bit n i} = {i. bit n i}" using small by blast
  finally show ?thesis
    using c hex_ne[of "nat n"] by (simp add: string_to_cpus_def hex_to_cpuset_def Let_def)
qed

lemma entries_not_hex:
  assumes "ts \<noteq> []"
  shows "take 2 (comma_list (map entry_text ts)) \<noteq> ''0x''" "take 2 (comma_list (map entry_text ts)) \<noteq> ''00''"
proof -
  obtain a b c ts' where ts: "ts = (a, b, c) # ts'" using assms by (cases ts) auto
  obtain r where r: "comma_list (map entry_text ts) = dec a @ r" "r = [] \<or> hd r = CHR ''-'' \<or> hd r = CHR '',''"
    unfolding ts list.map comma_list_Cons by (cases "a < b"; cases "ts' = []") auto
  have "take 2 (dec a @ r) \<noteq> ''0x'' \<and> take 2 (dec a @ r) \<noteq> ''00''"
  proof (cases "a = 0")
    case True
    then show ?thesis using r(2) by (cases r) (auto simp: dec_0)
  next
    case False
    then have "take 1 (dec a @ r) \<noteq> ''0''" using dec_head[of a r] by simp
    moreover obtain d ds where "dec a @ r = d # ds" using dec_ne[of a] by (cases "dec a @ r") auto
    ultimately show ?thesis by (cases ds) auto
  qed
  then show "take 2 (comma_list (map entry_text ts)) \<noteq> ''0x''" "take 2 (comma_list (map entry_text ts)) \<noteq> ''00''"
    unfolding r(1) by blast+
qed

lemma text_read: "text_means x S \<Longrightarrow> string_to_cpus x = Some (0, S)"
  unfolding text_means_def
proof (elim disjE exE conjE)
  fix ts
  assume ts: "ts \<noteq> []" "\<forall>t\<in>set ts. entry_valid t" "x = comma_list (map entry_text ts)" "S = set (concat (map entry_cpus ts))"
  then show ?thesis
    using entries_not_hex[OF ts(1)] cstr_to_cpuset_result[OF ts(2)] by (simp add: string_to_cpus_def)
next
  fix n assume "0 \<le> n" "n < MAX_LUAINT" "x = ''0x'' @ hex (nat n)" "S = {i. bit n i}"
  then show ?thesis using number_mask by simp
qed

text \<open>An argument becomes a reference to its object, or to a new one.\<close>

lemma argument:
  assumes "0 < i" "i \<le> length s" "denotes h (s ! (i - 1)) S"
  shows "\<exists>a h1. lua_to_cpu_setp E i s h = Some (Ptr a, s[i - 1 := SSet a], h1) \<and>
    (h1 = h \<and> s ! (i - 1) = SSet a \<or> h1 = h @ [S] \<and> a = length h) \<and> a < length h1 \<and> h1 ! a = S"
proof -
  have i: "sindex i s = Some (s ! (i - 1))" "sindex i (s @ [x]) = Some (s ! (i - 1))" for x
    using assms(1,2) by (auto simp: sindex_def nth_append)
  have r: "lua_replace i (s @ [x]) = s[i - 1 := x]" for x using assms(1,2) by (simp add: lua_replace_def)
  have r2: "lua_replace i ((s[i - 1 := y]) @ [x]) = s[i - 1 := x]" for x y using assms(1,2) by (simp add: lua_replace_def)
  show ?thesis
  proof (cases "s ! (i - 1)")
    case (SSet a)
    then have "s[i - 1 := SSet a] = s" using assms(1,2) by (metis list_update_id)
    with SSet assms(3) i show ?thesis by (auto simp: lua_to_cpu_setp_def denotes_def)
  next
    case SNil
    with assms(3) i r show ?thesis by (simp add: lua_to_cpu_setp_def denotes_def l_cpu_set_alloc_def Let_def)
  next
    case (SStr x)
    with assms(3) have "string_to_cpus x = Some (0, S)" by (simp add: denotes_def text_read)
    with SStr i r show ?thesis
      by (simp add: lua_to_cpu_setp_def l_cpu_set_alloc_def lua_string_to_cpu_setp_def stostring_def Let_def)
  next
    case (SNum n)
    then have n: "0 \<le> n" "n < MAX_LUAINT" "S = {i. bit n i}" using assms(3) by (simp_all add: denotes_def)
    then have u: "uint (word_of_int n :: 64 word) = n" "\<not> 2 ^ 63 \<le> n" by (simp_all add: uint_word_of_int MAX_LUAINT_def)
    let ?t = "s[i - 1 := SStr (''0x'' @ hex (nat n))] @ [SSet (length h)]"
    have "lua_replace i ((s @ [SSet (length h)]) @ [SStr (''0x'' @ hex (nat n))]) = ?t"
      using assms(1,2) by (simp add: lua_replace_def butlast_append list_update_append)
    moreover have "sindex i ?t = Some (SStr (''0x'' @ hex (nat n)))"
      using assms(1,2) by (auto simp: sindex_def nth_append)
    ultimately show ?thesis
      using SNum i r2 n u number_mask[OF n(1,2)]
      by (simp add: lua_to_cpu_setp_def l_cpu_set_alloc_def lua_number_to_cpu_setp_def lua_string_to_cpu_setp_def
          stostring_def Let_def)
  qed (use assms(3) in \<open>simp_all add: denotes_def\<close>)
qed

lemma denotes_more: "denotes h v S \<Longrightarrow> denotes (h @ h') v S"
  by (cases v) (auto simp: denotes_def nth_append)

section \<open>Loops over the CPUs\<close>

lemma isset_in: "m \<subseteq> {..< CPU_SETSIZE} \<Longrightarrow> i < CPU_SETSIZE \<Longrightarrow> CPU_ISSET (int i) m \<longleftrightarrow> i \<in> m"
  by (simp add: CPU_ISSET_def)

lemma set_clear [simp]:
  "i < CPU_SETSIZE \<Longrightarrow> CPU_SET (int i) m = insert i m" "i < CPU_SETSIZE \<Longrightarrow> CPU_CLR (int i) m = m - {i}"
  by (simp_all add: CPU_SET_def CPU_CLR_def)

lemma combine_upto:
  assumes "r < length h" "r \<noteq> p" "r \<noteq> q"
  shows "n \<le> CPU_SETSIZE \<Longrightarrow>
    fold (\<lambda>i g. g[r := (if f (CPU_ISSET (int i) (g ! p)) (CPU_ISSET (int i) (g ! q))
       then CPU_SET (int i) (g ! r) else CPU_CLR (int i) (g ! r))]) [0 ..< n] h =
    h[r := {i. i < n \<and> f (i \<in> h ! p) (i \<in> h ! q)} \<union> (h ! r - {..< n})]"
proof (induction n)
  case (Suc n)
  have "(if f (n \<in> h ! p) (n \<in> h ! q) then insert n A else A - {n}) =
      {i. i < Suc n \<and> f (i \<in> h ! p) (i \<in> h ! q)} \<union> (h ! r - {..< Suc n})"
    if "A = {i. i < n \<and> f (i \<in> h ! p) (i \<in> h ! q)} \<union> (h ! r - {..< n})" for A
    unfolding that by (auto simp: less_Suc_eq)
  from this[OF refl] Suc assms show ?case by (cases "f (n \<in> h ! p) (n \<in> h ! q)") (simp_all add: isset_nat)
qed simp

lemma combine_sets:
  assumes "r < length h" "r \<noteq> p" "r \<noteq> q"
  shows "combine f r p q h = h[r := {i. i < CPU_SETSIZE \<and> f (i \<in> h ! p) (i \<in> h ! q)} \<union> (h ! r - {..< CPU_SETSIZE})]"
  unfolding combine_def by (rule combine_upto[OF assms order_refl])

lemma union_upto:
  assumes "p < length h"
  shows "n \<le> CPU_SETSIZE \<Longrightarrow>
    fold (\<lambda>i g. if CPU_ISSET (int i) (g ! q) then g[p := CPU_SET (int i) (g ! p)] else g) [0 ..< n] h =
    h[p := h ! p \<union> (h ! q \<inter> {..< n})]"
proof (induction n)
  case (Suc n)
  have q: "h[p := h ! p \<union> (h ! q \<inter> {..< n})] ! q = h ! q \<or> p = q"
    by (cases "p = q") simp_all
  have "(if n \<in> h ! q then insert n A else A) = h ! p \<union> (h ! q \<inter> {..< Suc n})"
    if "A = h ! p \<union> (h ! q \<inter> {..< n})" for A
    unfolding that by (auto simp: less_Suc_eq)
  from this[OF refl] Suc assms q show ?case
    by (cases "n \<in> h ! q"; cases "p = q") (simp_all add: isset_nat insert_absorb)
qed simp

lemma cpu_set_union_sets:
  "p < length h \<Longrightarrow> cpu_set_union p q h = h[p := h ! p \<union> (h ! q \<inter> {..< CPU_SETSIZE})]"
  unfolding cpu_set_union_def by (rule union_upto) simp_all

lemma intersect_upto:
  assumes "p < length h"
  shows "n \<le> CPU_SETSIZE \<Longrightarrow>
    fold (\<lambda>i g. if CPU_ISSET (int i) (g ! p) \<and> \<not> CPU_ISSET (int i) (g ! q)
       then g[p := CPU_CLR (int i) (g ! p)] else g) [0 ..< n] h = h[p := h ! p - ({..< n} - h ! q)]"
proof (induction n)
  case (Suc n)
  have q: "h[p := h ! p - ({..< n} - h ! q)] ! q = h ! q"
    using assms by (cases "p = q") auto
  have "(if n \<in> A \<and> n \<notin> h ! q then A - {n} else A) = h ! p - ({..< Suc n} - h ! q)"
    if "A = h ! p - ({..< n} - h ! q)" for A
    unfolding that by (auto simp: less_Suc_eq)
  from this[OF refl] Suc assms q show ?case
    by (cases "n \<in> h ! p \<and> n \<notin> h ! q") (simp_all add: isset_nat)
qed simp

lemma cpu_set_intersect_sets:
  "p < length h \<Longrightarrow> cpu_set_intersect p q h = h[p := h ! p - ({..< CPU_SETSIZE} - h ! q)]"
  unfolding cpu_set_intersect_def by (rule intersect_upto) simp_all

lemma count_upto:
  "n \<le> CPU_SETSIZE \<Longrightarrow> fold (\<lambda>i n. if CPU_ISSET (int i) m then n + 1 else n) [0 ..< n] 0 = int (card (m \<inter> {..< n}))"
proof (induction n)
  case (Suc n)
  have "m \<inter> {..< Suc n} = (if n \<in> m then insert n (m \<inter> {..< n}) else m \<inter> {..< n})"
    by (auto simp: less_Suc_eq)
  with Suc show ?case by (simp add: isset_nat)
qed simp

lemma count_cpus_card: "m \<subseteq> {..< CPU_SETSIZE} \<Longrightarrow> count_cpus m = int (card m)"
  by (simp add: count_cpus_def count_upto inf.absorb1)

lemma every_cpu_all: "every_cpu f \<longleftrightarrow> (\<forall>i < CPU_SETSIZE. f (int i))"
  by (auto simp: every_cpu_def list_all_iff)

section \<open>Operators and methods\<close>

text \<open>
  A call returns a set object that is new or was an argument, and leaves every object as it was;
  or it returns a value and leaves every object as it was.
\<close>

definition gives :: "heap \<Rightarrow> cpu_set \<Rightarrow> (sresult \<times> heap) option \<Rightarrow> bool" where
  "gives h S r \<longleftrightarrow>
    (\<exists>s a h1. r = Some (SRet 1 s, h1) \<and> s \<noteq> [] \<and> last s = SSet a \<and> length h \<le> a \<and> a < length h1 \<and>
      h1 ! a = S \<and> take (length h) h1 = h)"

definition answers :: "heap \<Rightarrow> sval \<Rightarrow> (sresult \<times> heap) option \<Rightarrow> bool" where
  "answers h v r \<longleftrightarrow>
    (\<exists>s h1. r = Some (SRet 1 s, h1) \<and> s \<noteq> [] \<and> last s = v \<and> take (length h) h1 = h)"

lemma one_argument:
  assumes "denotes h v S"
  obtains a h1 where "lua_to_cpu_setp E 1 [v] h = Some (Ptr a, [SSet a], h1)" "h1 ! a = S" "a < length h1"
    "take (length h) h1 = h"
proof -
  obtain a h1 where 1: "lua_to_cpu_setp E 1 [v] h = Some (Ptr a, [SSet a], h1)" "h1 ! a = S" "a < length h1"
    "h1 = h \<or> h1 = h @ [S]"
    using argument[of 1 "[v]" h S E] assms by auto
  from 1(4) have "take (length h) h1 = h" by auto
  with 1 show thesis by (intro that)
qed

lemma two_arguments:
  assumes "denotes h v S" "denotes h w T" "length h \<le> length g" "take (length h) g = h"
  obtains a b h1 h2 where "lua_to_cpu_setp E 1 (v # w # s) g = Some (Ptr a, SSet a # w # s, h1)"
    "lua_to_cpu_setp E 2 (SSet a # w # s) h1 = Some (Ptr b, SSet a # SSet b # s, h2)"
    "h2 ! a = S" "h2 ! b = T" "a < length h2" "b < length h2" "take (length g) h2 = g"
    "a < length h \<or> length g \<le> a" "b < length h \<or> length g \<le> b"
proof -
  have g: "denotes g x U" if "denotes h x U" for x U
    using denotes_more[OF that, of "drop (length h) g"] assms(4) by (metis append_take_drop_id)
  obtain a h1 where a: "lua_to_cpu_setp E 1 (v # w # s) g = Some (Ptr a, SSet a # w # s, h1)"
    "h1 = g \<and> v = SSet a \<or> h1 = g @ [S] \<and> a = length g" "a < length h1" "h1 ! a = S"
    using argument[of 1 "v # w # s" g S E] g[OF assms(1)] by auto
  have "denotes h1 w T" using a(2) g[OF assms(2)] denotes_more by blast
  then obtain b h2 where b: "lua_to_cpu_setp E 2 (SSet a # w # s) h1 = Some (Ptr b, SSet a # SSet b # s, h2)"
    "h2 = h1 \<and> w = SSet b \<or> h2 = h1 @ [T] \<and> b = length h1" "b < length h2" "h2 ! b = T"
    using argument[of 2 "SSet a # w # s" h1 T E] by auto
  show thesis
  proof (rule that[OF a(1) b(1)])
    show "h2 ! a = S" "a < length h2" using a(3,4) b(2) by (auto simp: nth_append)
    show "take (length g) h2 = g" using a(2) b(2) by auto
    show "a < length h \<or> length g \<le> a" using a(2) assms(1) by (auto simp: denotes_def)
    show "b < length h \<or> length g \<le> b" using a(2) b(2) assms(2) by (auto simp: denotes_def)
  qed (rule b)+
qed

lemma operator_gives:
  assumes "denotes h v S" "denotes h w T" "le_junk E \<subseteq> {..< CPU_SETSIZE}"
    and "\<And>a b h1 h2. lua_to_cpu_setp E 1 [v, w, SSet (length h)] (h @ [le_junk E]) = Some (Ptr a, [SSet a, w, SSet (length h)], h1) \<Longrightarrow>
      lua_to_cpu_setp E 2 [SSet a, w, SSet (length h)] h1 = Some (Ptr b, [SSet a, SSet b, SSet (length h)], h2) \<Longrightarrow>
      r = Some (SRet 1 [SSet a, SSet b, SSet (length h)], combine f (length h) a b h2)"
  shows "gives h {i. i < CPU_SETSIZE \<and> f (i \<in> S) (i \<in> T)} r"
proof -
  let ?g = "h @ [le_junk E]"
  have g: "length h \<le> length ?g" "take (length h) ?g = h" by simp_all
  obtain a b h1 h2 where 1: "lua_to_cpu_setp E 1 (v # w # [SSet (length h)]) ?g = Some (Ptr a, SSet a # w # [SSet (length h)], h1)"
    "lua_to_cpu_setp E 2 (SSet a # w # [SSet (length h)]) h1 = Some (Ptr b, SSet a # SSet b # [SSet (length h)], h2)"
    "h2 ! a = S" "h2 ! b = T" "a < length h2" "b < length h2" "take (length ?g) h2 = ?g"
    "a < length h \<or> length ?g \<le> a" "b < length h \<or> length ?g \<le> b"
    by (rule two_arguments[OF assms(1,2) g])
  have l: "length ?g \<le> length h2" using 1(7) by (metis length_take min.cobounded1)
  then have "h2 ! length h = le_junk E" using 1(7) by (metis length_append_singleton lessI nth_append_length nth_take)
  moreover have "length h < length h2" "length h \<noteq> a" "length h \<noteq> b" using l 1(8,9) by auto
  ultimately have c: "combine f (length h) a b h2 = h2[length h := {i. i < CPU_SETSIZE \<and> f (i \<in> S) (i \<in> T)}]"
    using combine_sets[of "length h" h2 a b f] 1(3,4) assms(3) by (simp add: Diff_eq_empty_iff[THEN iffD2])
  have "take (length h) (take (length ?g) h2) = h" unfolding 1(7) by simp
  then have "take (length h) h2 = h" by simp
  then show ?thesis
    using assms(4)[OF 1(1,2)] \<open>length h < length h2\<close> unfolding c gives_def by auto
qed

lemma l_cpu_set_add_gives:
  assumes "denotes h v S" "denotes h w T" "le_junk E \<subseteq> {..< CPU_SETSIZE}"
  shows "gives h {i. i < CPU_SETSIZE \<and> (i \<in> S \<or> i \<in> T)} (l_cpu_set_add E [v, w] h)"
  by (rule operator_gives[OF assms]) (simp add: l_cpu_set_add_def l_cpu_set_alloc_def checked_def)

lemma l_cpu_set_subtract_gives:
  assumes "denotes h v S" "denotes h w T" "le_junk E \<subseteq> {..< CPU_SETSIZE}"
  shows "gives h {i. i < CPU_SETSIZE \<and> (i \<in> S \<and> i \<notin> T)} (l_cpu_set_subtract E [v, w] h)"
  by (rule operator_gives[OF assms]) (simp add: l_cpu_set_subtract_def l_cpu_set_alloc_def checked_def)

lemma compare_answers:
  assumes "denotes h v S" "denotes h w T"
  shows "answers h (SBool (every_cpu (f S T))) (compare f u E [v, w] h)"
proof -
  have "length h \<le> length h" "take (length h) h = h" by simp_all
  then obtain a b h1 h2 where "lua_to_cpu_setp E 1 [v, w] h = Some (Ptr a, [SSet a, w], h1)"
    "lua_to_cpu_setp E 2 [SSet a, w] h1 = Some (Ptr b, [SSet a, SSet b], h2)"
    "h2 ! a = S" "h2 ! b = T" "take (length h) h2 = h"
    by (rule two_arguments[OF assms])
  then show ?thesis by (simp add: compare_def answers_def Let_def)
qed

text \<open>C37: Whatever its two arguments are (sets, \<open>nil\<close>, numbers as bit masks, or texts that list CPUs as
  \<open>first-last:stride\<close> or give a mask in hexadecimal) the operator \<open>+\<close> returns a new set with their union
  and \<open>-\<close> one with their difference; \<open>is_in\<close>, \<open>contains\<close> and \<open>==\<close> say whether one is a subset of the
  other or equal to it, \<open>count\<close> how many CPUs there are, and \<open>copy\<close> is a new set with the same CPUs; no
  set that exists is changed by any of them.\<close>

theorem cpu_set_operators:
  assumes "denotes h v S" "denotes h w T" "S \<subseteq> {..< CPU_SETSIZE}" "T \<subseteq> {..< CPU_SETSIZE}"
    and "le_junk E \<subseteq> {..< CPU_SETSIZE}"
  shows "gives h (S \<union> T) (l_cpu_set_add E [v, w] h) \<and>
    gives h (S - T) (l_cpu_set_subtract E [v, w] h) \<and>
    answers h (SBool (S \<subseteq> T)) (l_cpu_set_is_in E [v, w] h) \<and>
    answers h (SBool (T \<subseteq> S)) (l_cpu_set_contains E [v, w] h) \<and>
    answers h (SBool (S = T)) (l_cpu_set_equals E [v, w] h) \<and>
    answers h (SNum (int (card S))) (l_cpu_set_count E [v] h) \<and>
    gives h S (l_cpu_set_copy E [v] h)"
proof (intro conjI)
  have "{i. i < CPU_SETSIZE \<and> (i \<in> S \<or> i \<in> T)} = S \<union> T" "{i. i < CPU_SETSIZE \<and> (i \<in> S \<and> i \<notin> T)} = S - T"
    using assms(3,4) by auto
  then show "gives h (S \<union> T) (l_cpu_set_add E [v, w] h)" "gives h (S - T) (l_cpu_set_subtract E [v, w] h)"
    using l_cpu_set_add_gives[OF assms(1,2,5)] l_cpu_set_subtract_gives[OF assms(1,2,5)] by simp_all
  have is_in: "every_cpu (\<lambda>i. \<not> (CPU_ISSET i m1 \<and> \<not> CPU_ISSET i m2)) = (m1 \<subseteq> m2)"
    if "m1 \<subseteq> {..< CPU_SETSIZE}" for m1 m2
    using that by (auto simp: every_cpu_all isset_nat)
  note is_in_answers = compare_answers[of _ _ _ _ _ "\<lambda>m1 m2 i. \<not> (CPU_ISSET i m1 \<and> \<not> CPU_ISSET i m2)"
    "\<lambda>m. every_cpu (\<lambda>i. \<not> CPU_ISSET i m)" E, folded l_cpu_set_is_in_def]
  show "answers h (SBool (S \<subseteq> T)) (l_cpu_set_is_in E [v, w] h)"
    using is_in_answers[OF assms(1,2)] unfolding is_in[OF assms(3)] .
  show "answers h (SBool (T \<subseteq> S)) (l_cpu_set_contains E [v, w] h)"
    using is_in_answers[OF assms(2,1)] unfolding is_in[OF assms(4)] by (simp add: l_cpu_set_contains_def)
  have "every_cpu (\<lambda>i. CPU_ISSET i S = CPU_ISSET i T) = (S = T)"
    using assms(3,4) by (auto simp: every_cpu_all isset_nat)
  then show "answers h (SBool (S = T)) (l_cpu_set_equals E [v, w] h)"
    using compare_answers[OF assms(1,2), of "\<lambda>m1 m2 i. CPU_ISSET i m1 = CPU_ISSET i m2" "\<lambda>m. False" E]
    by (simp add: l_cpu_set_equals_def)
  obtain a h1 where 1: "lua_to_cpu_setp E 1 [v] h = Some (Ptr a, [SSet a], h1)" "h1 ! a = S" "a < length h1"
    "take (length h) h1 = h" using one_argument[OF assms(1)] by blast
  then show "answers h (SNum (int (card S))) (l_cpu_set_count E [v] h)"
    using count_cpus_card[OF assms(3)] by (simp add: answers_def l_cpu_set_count_def followed_def)
  have "length h \<le> length h1" using 1(4) by (metis length_take min.cobounded1)
  with 1 show "gives h S (l_cpu_set_copy E [v] h)"
    by (simp add: gives_def l_cpu_set_copy_def followed_def l_cpu_set_alloc_def nth_append)
qed

section \<open>Union and intersection of any number of arguments\<close>

text \<open>
  \<open>union\<close> and \<open>intersect\<close> put their result into their first argument; the other objects stay as they
  are.
\<close>

text \<open>An argument in a heap where only the object \<open>p\<close> has changed.\<close>

lemma later_argument:
  assumes v: "0 < i" "i \<le> length s" "denotes h0 (s ! (i - 1)) S"
    and h: "length h0 \<le> length h" "\<forall>a<length h0. a \<noteq> p \<longrightarrow> h ! a = h0 ! a" "p < length h"
    and g: "g (h ! p) (h ! p) = h ! p" "p < length h0 \<longrightarrow> g (h ! p) (h0 ! p) = h ! p"
  obtains q h1 where "lua_to_cpu_setp E i s h = Some (Ptr q, s[i - 1 := SSet q], h1)"
    "g (h1 ! p) (h1 ! q) = g (h ! p) S" "h1 = h \<or> h1 = h @ [S]"
proof -
  have "denotes h (s ! (i - 1)) S \<or> s ! (i - 1) = SSet p \<and> p < length h0 \<and> S = h0 ! p"
    using v(3) h by (cases "s ! (i - 1)") (auto simp: denotes_def)
  then show thesis
  proof
    assume "denotes h (s ! (i - 1)) S"
    then obtain q h1 where 1: "lua_to_cpu_setp E i s h = Some (Ptr q, s[i - 1 := SSet q], h1)"
      "h1 = h \<or> h1 = h @ [S]" "h1 ! q = S" using argument[OF v(1,2), of h S E] by blast
    moreover have "h1 ! p = h ! p" using 1(2) h(3) by (auto simp: nth_append)
    ultimately show thesis by (intro that[of q h1]) auto
  next
    assume p: "s ! (i - 1) = SSet p \<and> p < length h0 \<and> S = h0 ! p"
    then have "s[i - 1 := SSet p] = s" by (metis list_update_id)
    moreover have "lua_to_cpu_setp E i s h = Some (Ptr p, s, h)"
      using p v(1,2) by (simp add: lua_to_cpu_setp_def sindex_def)
    ultimately show thesis using p g by (intro that[of p h]) auto
  qed
qed

lemma accumulate_all:
  assumes f: "\<And>p q h. p < length h \<Longrightarrow> f p q h = h[p := g (h ! p) (h ! q)]"
    and g: "\<And>A. g A A = A" "\<And>A B C. g (g A B) C = g (g A C) B"
  shows "list_all2 (\<lambda>i S. 1 < i \<and> i \<le> length s \<and> denotes h0 (s ! (i - 1)) S) is Ss \<Longrightarrow> distinct is \<Longrightarrow>
    p < length h \<Longrightarrow> length h0 \<le> length h \<Longrightarrow> \<forall>a<length h0. a \<noteq> p \<longrightarrow> h ! a = h0 ! a \<Longrightarrow>
    p < length h0 \<longrightarrow> g (h ! p) (h0 ! p) = h ! p \<Longrightarrow>
    \<exists>h1. accumulate f E p is s h = Some (SRet 1 (take 1 s), h1) \<and> p < length h1 \<and> h1 ! p = foldl g (h ! p) Ss \<and>
      (\<forall>a<length h0. a \<noteq> p \<longrightarrow> h1 ! a = h0 ! a)"
proof (induction "is" arbitrary: Ss s h)
  case (Cons i "is")
  then obtain S Ss' where Ss: "Ss = S # Ss'" "1 < i" "i \<le> length s" "denotes h0 (s ! (i - 1)) S"
    "list_all2 (\<lambda>i S. 1 < i \<and> i \<le> length s \<and> denotes h0 (s ! (i - 1)) S) is Ss'"
    by (auto simp: list_all2_Cons1)
  have i: "0 < i" using Ss(2) by simp
  obtain q h1 where 1: "lua_to_cpu_setp E i s h = Some (Ptr q, s[i - 1 := SSet q], h1)"
    "g (h1 ! p) (h1 ! q) = g (h ! p) S" "h1 = h \<or> h1 = h @ [S]"
    by (rule later_argument[where g = g and E = E, OF i Ss(3,4) Cons.prems(4,5,3) g(1) Cons.prems(6)])
  have p: "p < length h1" "length h0 \<le> length h1" "\<forall>a<length h0. a \<noteq> p \<longrightarrow> h1 ! a = h0 ! a"
    using 1(3) Cons.prems(3-5) by (auto simp: nth_append)
  let ?s = "s[i - 1 := SSet q]" and ?h = "h1[p := g (h ! p) S]"
  have "list_all2 (\<lambda>i S. 1 < i \<and> i \<le> length ?s \<and> denotes h0 (?s ! (i - 1)) S) is Ss'"
  proof (rule list.rel_mono_strong[OF Ss(5)])
    fix z T assume z: "z \<in> set is" "1 < z \<and> z \<le> length s \<and> denotes h0 (s ! (z - 1)) T"
    then have "i - 1 \<noteq> z - 1" using Cons.prems(2) Ss(2) by (metis Suc_pred' distinct.simps(2) less_trans zero_less_one)
    with z(2) show "1 < z \<and> z \<le> length ?s \<and> denotes h0 (?s ! (z - 1)) T" by simp
  qed
  moreover have "distinct is" using Cons.prems(2) by simp
  moreover have "p < length ?h" "length h0 \<le> length ?h" "\<forall>a<length h0. a \<noteq> p \<longrightarrow> ?h ! a = h0 ! a"
    using p by auto
  moreover have "p < length h0 \<longrightarrow> g (?h ! p) (h0 ! p) = ?h ! p"
    using Cons.prems(6) p(1) g(2)[of "h ! p" S "h0 ! p"] by simp
  ultimately have "\<exists>h2. accumulate f E p is ?s ?h = Some (SRet 1 (take 1 ?s), h2) \<and> p < length h2 \<and>
      h2 ! p = foldl g (?h ! p) Ss' \<and> (\<forall>a<length h0. a \<noteq> p \<longrightarrow> h2 ! a = h0 ! a)"
    by (rule Cons.IH)
  moreover have "take 1 ?s = take 1 s" using Ss(2) by (cases s; cases "i - 1") auto
  moreover have "accumulate f E p (i # is) s h = accumulate f E p is ?s ?h"
    using 1(1,2) f[OF p(1), of q] by (simp add: checked_def)
  ultimately show ?case using Ss(1) p(1) by simp
qed simp

text \<open>All arguments of a call.\<close>

lemma accumulate_call:
  assumes f: "\<And>p q h. p < length h \<Longrightarrow> f p q h = h[p := g (h ! p) (h ! q)]"
    and g: "\<And>A. g A A = A" "\<And>A B C. g (g A B) C = g (g A C) B"
    and args: "denotes h v S" "list_all2 (denotes h) vs Ss"
  shows "\<exists>a h1. checked E 1 (v # vs) h (\<lambda>p. accumulate f E p [2 ..< length (v # vs) + 1]) =
      Some (SRet 1 [SSet a], h1) \<and> (v = SSet a \<or> a = length h) \<and> h1 ! a = foldl g S Ss \<and>
      (\<forall>b<length h. b \<noteq> a \<longrightarrow> h1 ! b = h ! b)"
proof -
  obtain a h1 where 1: "lua_to_cpu_setp E 1 (v # vs) h = Some (Ptr a, SSet a # vs, h1)" "a < length h1"
    "h1 = h \<and> v = SSet a \<or> h1 = h @ [S] \<and> a = length h" "h1 ! a = S"
    using argument[of 1 "v # vs" h S E] args(1) by auto
  have "list_all2 (\<lambda>i S. 1 < i \<and> i \<le> length (SSet a # vs) \<and> denotes h ((SSet a # vs) ! (i - 1)) S) [2 ..< length (v # vs) + 1] Ss"
    using args(2) by (simp add: list_all2_conv_all_nth nth_upt del: upt_Suc)
  moreover have "\<forall>b<length h. b \<noteq> a \<longrightarrow> h1 ! b = h ! b" "length h \<le> length h1"
    using 1(3) by (auto simp: nth_append)
  moreover have "distinct [2 ..< length (v # vs) + 1]" by (rule distinct_upt)
  moreover have "a < length h \<longrightarrow> g (h1 ! a) (h ! a) = h1 ! a" using 1(3) g(1) by auto
  ultimately obtain h2 where "accumulate f E a [2 ..< length (v # vs) + 1] (SSet a # vs) h1 = Some (SRet 1 [SSet a], h2)"
    "h2 ! a = foldl g S Ss" "\<forall>b<length h. b \<noteq> a \<longrightarrow> h2 ! b = h ! b"
    using accumulate_all[of f g "SSet a # vs" h "[2 ..< length (v # vs) + 1]" Ss a h1 E, OF f g] 1(2,4)
    by (auto simp del: upt_Suc)
  with 1(1,3) show ?thesis by (intro exI[of _ a] exI[of _ h2]) (auto simp: checked_def simp del: upt_Suc)
qed

lemma foldl_union: "foldl (\<lambda>A B. A \<union> (B \<inter> U)) S Ss = S \<union> (\<Union>(set Ss) \<inter> U)"
  by (induction Ss arbitrary: S) auto

lemma foldl_intersect: "foldl (\<lambda>A B. A - (U - B)) S Ss = S - (U - \<Inter>(set Ss))"
  by (induction Ss arbitrary: S) auto

text \<open>\<open>union\<close> and \<open>intersect\<close> of any arguments, also of the same object several times.\<close>

lemma cpu_set_union_all:
  assumes "denotes h v S" "list_all2 (denotes h) vs Ss" "\<forall>T\<in>set Ss. T \<subseteq> {..< CPU_SETSIZE}"
  shows "\<exists>a h1. l_cpu_set_union E (v # vs) h = Some (SRet 1 [SSet a], h1) \<and> (v = SSet a \<or> a = length h) \<and>
    h1 ! a = S \<union> \<Union>(set Ss) \<and> (\<forall>b<length h. b \<noteq> a \<longrightarrow> h1 ! b = h ! b)"
proof -
  have U: "\<Union>(set Ss) \<inter> {..< CPU_SETSIZE} = \<Union>(set Ss)" using assms(3) by auto
  have g: "A \<union> (A \<inter> {..< CPU_SETSIZE}) = A"
    "A \<union> (B \<inter> {..< CPU_SETSIZE}) \<union> (C \<inter> {..< CPU_SETSIZE}) = A \<union> (C \<inter> {..< CPU_SETSIZE}) \<union> (B \<inter> {..< CPU_SETSIZE})" for A B C
    by auto
  show ?thesis
    using accumulate_call[of cpu_set_union "\<lambda>A B. A \<union> (B \<inter> {..< CPU_SETSIZE})", OF cpu_set_union_sets g assms(1,2), of E]
    unfolding foldl_union U l_cpu_set_union_def .
qed

lemma cpu_set_intersect_all:
  assumes "denotes h v S" "list_all2 (denotes h) vs Ss" "S \<subseteq> {..< CPU_SETSIZE}"
  shows "\<exists>a h1. l_cpu_set_intersect E (v # vs) h = Some (SRet 1 [SSet a], h1) \<and> (v = SSet a \<or> a = length h) \<and>
    h1 ! a = S \<inter> \<Inter>(set Ss) \<and> (\<forall>b<length h. b \<noteq> a \<longrightarrow> h1 ! b = h ! b)"
proof -
  have S: "S - ({..< CPU_SETSIZE} - \<Inter>(set Ss)) = S \<inter> \<Inter>(set Ss)" using assms(3) by auto
  have g: "A - ({..< CPU_SETSIZE} - A) = A"
    "A - ({..< CPU_SETSIZE} - B) - ({..< CPU_SETSIZE} - C) = A - ({..< CPU_SETSIZE} - C) - ({..< CPU_SETSIZE} - B)" for A B C
    by auto
  show ?thesis
    using accumulate_call[of cpu_set_intersect "\<lambda>A B. A - ({..< CPU_SETSIZE} - B)", OF cpu_set_intersect_sets g assms(1,2), of E]
    unfolding foldl_intersect S l_cpu_set_intersect_def .
qed

text \<open>\<open>union\<close> and \<open>intersect\<close> of any number of arguments of any kind put the union and the intersection
  into their first argument, also when a later argument is the same object, and change no other
  set; when the first argument is no set object the result is a new one.\<close>

theorem cpu_set_accumulation:
  assumes "denotes h v S" "list_all2 (denotes h) vs Ss" "\<forall>T\<in>set (S # Ss). T \<subseteq> {..< CPU_SETSIZE}"
  shows "(\<exists>a h1. l_cpu_set_union E (v # vs) h = Some (SRet 1 [SSet a], h1) \<and> (v = SSet a \<or> a = length h) \<and>
      h1 ! a = S \<union> \<Union>(set Ss) \<and> (\<forall>b<length h. b \<noteq> a \<longrightarrow> h1 ! b = h ! b)) \<and>
    (\<exists>a h1. l_cpu_set_intersect E (v # vs) h = Some (SRet 1 [SSet a], h1) \<and> (v = SSet a \<or> a = length h) \<and>
      h1 ! a = S \<inter> \<Inter>(set Ss) \<and> (\<forall>b<length h. b \<noteq> a \<longrightarrow> h1 ! b = h ! b))"
  using cpu_set_union_all[OF assms(1,2), of E] cpu_set_intersect_all[OF assms(1,2), of E] assms(3) by simp

definition demo_lua_env :: lua_env where
  "demo_lua_env =
    \<lparr>le_num = \<lambda>x. None, le_text = dec_int, le_call = \<lambda>f v h. (None, h), le_junk = {}, le_getaffinity = Inr {0}, le_setaffinity = \<lambda>m. None\<rparr>"

text \<open>The set object 0 is \<open>{1, 5}\<close>; the number 6 is the mask of the CPUs 1 and 2.\<close>

lemma demo_denotes: "denotes [{1, 5}] (SSet 0) {1, 5}" "denotes [{1, 5}] (SNum 6) {1, 2}"
proof -
  have "{i. bit (6 :: int) i} = {1, 2}"
  proof (intro set_eqI)
    fix i show "i \<in> {i. bit (6 :: int) i} \<longleftrightarrow> i \<in> {1, 2}"
    proof (cases "i < 3")
      case True
      then have "i = 0 \<or> i = 1 \<or> i = 2" by auto
      then show ?thesis by (auto simp: bit_Suc numeral_2_eq_2)
    next
      case False
      then obtain j where "i = Suc (Suc (Suc j))" by (metis add_Suc less_iff_Suc_add not_less_eq numeral_3_eq_3 plus_nat.add_0 Suc_le_D not_less)
      then show ?thesis by (simp add: bit_Suc)
    qed
  qed
  then show "denotes [{1, 5}] (SNum 6) {1, 2}" by (simp add: denotes_def MAX_LUAINT_def)
qed (simp add: denotes_def)

theorem cpu_set_accumulation_witness:
  "\<exists>a h1. l_cpu_set_union demo_lua_env [SSet 0, SNum 6, SSet 0] [{1, 5}] = Some (SRet 1 [SSet a], h1) \<and>
    h1 ! a = {1, 2, 5}"
proof -
  have "list_all2 (denotes [{1, 5}]) [SNum 6, SSet 0] [{1, 2}, {1, 5}]" using demo_denotes by simp
  from cpu_set_accumulation[OF demo_denotes(1) this, of demo_lua_env]
  obtain a h1 where "l_cpu_set_union demo_lua_env [SSet 0, SNum 6, SSet 0] [{1, 5}] = Some (SRet 1 [SSet a], h1)"
    "h1 ! a = {1, 5} \<union> \<Union>(set [{1, 2}, {1, 5}])"
    by (auto simp: CPU_SETSIZE_def)
  then show ?thesis by auto
qed

section \<open>Iterating\<close>

text \<open>The values of a loop \<open>for cpu in set:iterator () do\<close>, with at most \<open>k\<close> calls of the closure.\<close>

fun iterations :: "lua_env \<Rightarrow> nat \<Rightarrow> sval \<Rightarrow> nat \<Rightarrow> heap \<Rightarrow> sval list option" where
  "iterations E 0 v b h = None"
| "iterations E (Suc k) v b h =
    (case l_cpu_set_iterator E v b h of
       None \<Rightarrow> None
     | Some (None, v1, b1, h1) \<Rightarrow> None
     | Some (Some x, v1, b1, h1) \<Rightarrow> if x = SNil then Some [] else map_option ((#) x) (iterations E k v1 b1 h1))"

lemma first_set_Some: "first_set m is = Some i \<Longrightarrow> i \<in> set is \<and> CPU_ISSET (int i) m"
  by (induction m "is" rule: first_set.induct) (auto split: if_splits)

lemma first_set_upt:
  assumes "m \<subseteq> {..< CPU_SETSIZE}"
  shows "first_set m [b ..< CPU_SETSIZE] = (if m - {..< b} = {} then None else Some (Min (m - {..< b})))"
proof (induction "CPU_SETSIZE - b" arbitrary: b)
  case 0
  then have "m - {..< b} = {}" using assms by auto
  with 0 show ?case by simp
next
  case (Suc k)
  then have b: "b < CPU_SETSIZE" "[b ..< CPU_SETSIZE] = b # [Suc b ..< CPU_SETSIZE]" by (auto simp: upt_conv_Cons)
  have fin: "finite (m - {..< b})" using assms finite_subset by blast
  have e: "m - {..< b} = (if b \<in> m then insert b (m - {..< Suc b}) else m - {..< Suc b})"
    by (auto simp: less_Suc_eq)
  show ?case
  proof (cases "b \<in> m")
    case True
    then have "Min (m - {..< b}) = b" using fin by (intro Min_eqI) auto
    with True b show ?thesis by (auto simp: isset_nat)
  next
    case False
    with Suc(1)[of "Suc b"] Suc(2) b e show ?thesis by (simp add: isset_nat)
  qed
qed

lemma iterator_step:
  assumes "denotes h v S" "S \<subseteq> {..< CPU_SETSIZE}"
  shows "\<exists>v1 b1 h1. l_cpu_set_iterator E v b h =
      Some (Some (if S - {..< b} = {} then SNil else SNum (int (Min (S - {..< b})))), v1, b1, h1) \<and>
    denotes h1 v1 S \<and> (S - {..< b} \<noteq> {} \<longrightarrow> b1 = Suc (Min (S - {..< b})))"
proof -
  obtain a h1 where 1: "lua_to_cpu_setp E 1 [v] h = Some (Ptr a, [SSet a], h1)" "h1 ! a = S" "a < length h1"
    "take (length h) h1 = h" using one_argument[OF assms(1)] by blast
  have d: "denotes h1 (SSet a) S" using 1(2,3) by (simp add: denotes_def)
  show ?thesis
  proof (cases "S - {..< b} = {}")
    case True
    then have "next_bit S b \<ge> CPU_SETSIZE" by (simp add: next_bit_def first_set_upt[OF assms(2)])
    with 1(1,2) d True show ?thesis by (simp add: l_cpu_set_iterator_def Let_def)
  next
    case False
    have "finite (S - {..< b})" using assms(2) finite_subset by blast
    then have "Min (S - {..< b}) \<in> S" using Min_in[OF _ False] by blast
    then have "next_bit S b = Min (S - {..< b})" "\<not> CPU_SETSIZE \<le> Min (S - {..< b})"
      using False assms(2) by (auto simp: next_bit_def first_set_upt[OF assms(2)] not_le)
    with 1(1,2) d False show ?thesis by (simp add: l_cpu_set_iterator_def Let_def)
  qed
qed

lemma drop_min:
  assumes "(x :: nat) \<in> S - {..< b}" "\<And>y. y \<in> S - {..< b} \<Longrightarrow> x \<le> y"
  shows "S - {..< Suc x} = (S - {..< b}) - {x}"
proof (intro set_eqI iffI)
  fix y assume "y \<in> S - {..< Suc x}"
  then show "y \<in> (S - {..< b}) - {x}" using assms(1) by auto
next
  fix y assume y: "y \<in> (S - {..< b}) - {x}"
  then have "x \<le> y" using assms(2) by blast
  with y show "y \<in> S - {..< Suc x}" by auto
qed

lemma iterations_sorted:
  assumes "S \<subseteq> {..< CPU_SETSIZE}"
  shows "denotes h v S \<Longrightarrow> card (S - {..< b}) < k \<Longrightarrow>
    iterations E k v b h = Some (map (\<lambda>i. SNum (int i)) (sorted_list_of_set (S - {..< b})))"
proof (induction k arbitrary: h v b)
  case (Suc k)
  let ?R = "S - {..< b}"
  have fin: "finite ?R" using assms finite_subset by blast
  obtain v1 b1 h1 where 1: "l_cpu_set_iterator E v b h =
      Some (Some (if ?R = {} then SNil else SNum (int (Min ?R))), v1, b1, h1)"
    "denotes h1 v1 S" "?R \<noteq> {} \<longrightarrow> b1 = Suc (Min ?R)"
    using iterator_step[OF Suc.prems(1) assms] by blast
  show ?case
  proof (cases "?R = {}")
    case False
    then have m: "Min ?R \<in> ?R" using fin Min_in by blast
    have le: "Min ?R \<le> x" if "x \<in> ?R" for x using Min_le[OF fin that] .
    have rest: "S - {..< Suc (Min ?R)} = ?R - {Min ?R}" by (rule drop_min[OF m le])
    have "card (?R - {Min ?R}) < card ?R" by (rule card_Diff1_less[OF fin m])
    then have "card (S - {..< Suc (Min ?R)}) < k" unfolding rest using Suc.prems(2) by simp
    from Suc.IH[OF 1(2) this] have "iterations E k v1 b1 h1 = Some (map (\<lambda>i. SNum (int i)) (sorted_list_of_set (?R - {Min ?R})))"
      using 1(3) False rest by simp
    moreover have "sorted_list_of_set ?R = Min ?R # sorted_list_of_set (?R - {Min ?R})"
      by (rule sorted_list_of_set_nonempty[OF fin False])
    ultimately show ?thesis using 1(1) False by simp
  next
    case True
    then show ?thesis using 1(1) unfolding True by simp
  qed
qed simp

text \<open>\<open>first\<close>, \<open>last\<close> and \<open>expand\<close>.\<close>

lemma first_set_rev:
  "n \<le> CPU_SETSIZE \<Longrightarrow> m \<inter> {..< n} \<noteq> {} \<Longrightarrow> first_set m (rev [0 ..< n]) = Some (Max (m \<inter> {..< n}))"
proof (induction n)
  case (Suc n)
  show ?case
  proof (cases "n \<in> m")
    case True
    then have "Max (m \<inter> {..< Suc n}) = n" by (intro Max_eqI) auto
    with True Suc.prems show ?thesis by (simp add: isset_nat)
  next
    case False
    then have "m \<inter> {..< Suc n} = m \<inter> {..< n}" by (auto simp: less_Suc_eq)
    with False Suc show ?thesis by (simp add: isset_nat)
  qed
qed simp

lemma expand_numbers:
  "\<forall>i\<in>set is. i < CPU_SETSIZE \<Longrightarrow>
    expand_loop E None p is t h = (Some (t @ map (\<lambda>i. SNum (int i)) (filter (\<lambda>i. i \<in> h ! p) is)), h)"
  by (induction "is" arbitrary: t) (simp_all add: isset_nat)

lemma filter_sorted:
  assumes "S \<subseteq> {..< n}"
  shows "filter (\<lambda>i. i \<in> S) [0 ..< n] = sorted_list_of_set S"
proof (rule sorted_distinct_set_unique)
  have "finite S" using assms finite_subset by blast
  then show "set (filter (\<lambda>i. i \<in> S) [0 ..< n]) = set (sorted_list_of_set S)" using assms by auto
qed (simp_all add: sorted_wrt_filter)

text \<open>A loop over the iterator of a set ends and sees every CPU of the set once, in ascending order;
  \<open>expand\<close> without a function is the table of them, and \<open>first\<close> and \<open>last\<close> are its ends; no set
  that exists is changed.\<close>

theorem cpu_set_iteration:
  assumes "denotes h v S" "S \<subseteq> {..< CPU_SETSIZE}"
  shows "iterations E (card S + 1) v 0 h = Some (map (\<lambda>i. SNum (int i)) (sorted_list_of_set S)) \<and>
    answers h (STable (map (\<lambda>i. SNum (int i)) (sorted_list_of_set S))) (l_cpu_set_expand E [v] h) \<and>
    (S \<noteq> {} \<longrightarrow> answers h (SNum (int (Min S))) (l_cpu_set_first E [v] h) \<and>
      answers h (SNum (int (Max S))) (l_cpu_set_last E [v] h))"
proof -
  obtain a h1 where 1: "lua_to_cpu_setp E 1 [v] h = Some (Ptr a, [SSet a], h1)" "h1 ! a = S" "a < length h1"
    "take (length h) h1 = h" using one_argument[OF assms(1)] by blast
  have "iterations E (card S + 1) v 0 h = Some (map (\<lambda>i. SNum (int i)) (sorted_list_of_set S))"
    using iterations_sorted[OF assms(2,1), of 0 "card S + 1" E] by simp
  moreover have "answers h (STable (map (\<lambda>i. SNum (int i)) (sorted_list_of_set S))) (l_cpu_set_expand E [v] h)"
    using 1 expand_numbers[of "[0 ..< CPU_SETSIZE]" E a "[]" h1] filter_sorted[OF assms(2)]
    by (simp add: answers_def l_cpu_set_expand_def followed_def sindex_def)
  moreover have "answers h (SNum (int (Min S))) (l_cpu_set_first E [v] h)" if "S \<noteq> {}"
    using 1 first_set_upt[OF assms(2), of 0] that
    by (simp add: answers_def l_cpu_set_first_def followed_def found_cpu_def)
  moreover have "answers h (SNum (int (Max S))) (l_cpu_set_last E [v] h)" if "S \<noteq> {}"
    using 1 first_set_rev[OF order_refl, of S] assms(2) that
    by (simp add: answers_def l_cpu_set_last_def followed_def found_cpu_def inf.absorb1)
  ultimately show ?thesis by blast
qed

theorem cpu_set_operators_witness:
  "gives [{1, 5}] {1, 2, 5} (l_cpu_set_add demo_lua_env [SSet 0, SNum 6] [{1, 5}]) \<and>
    gives [{1, 5}] {5} (l_cpu_set_subtract demo_lua_env [SSet 0, SNum 6] [{1, 5}]) \<and>
    answers [{1, 5}] (SBool False) (l_cpu_set_is_in demo_lua_env [SSet 0, SNum 6] [{1, 5}])"
proof -
  have "{1, 5} \<union> {1, 2} = {1, 2, 5 :: nat}" "{1, 5} - {1, 2} = {5 :: nat}" "({1, 5 :: nat} \<subseteq> {1, 2}) = False" by auto
  then show ?thesis
    using cpu_set_operators[OF demo_denotes, of demo_lua_env] by (simp add: CPU_SETSIZE_def demo_lua_env_def)
qed

theorem cpu_set_iteration_witness:
  "iterations demo_lua_env 3 (SSet 0) 0 [{1, 5}] = Some [SNum 1, SNum 5] \<and>
    answers [{1, 5}] (SNum 5) (l_cpu_set_last demo_lua_env [SSet 0] [{1, 5}])"
  using cpu_set_iteration[OF demo_denotes(1), of demo_lua_env] by (simp add: CPU_SETSIZE_def numeral_3_eq_3)

section \<open>Texts that cannot be read\<close>

text \<open>
  A method whose first argument is a text that is no mask and no list gets NULL and follows it,
  where \<open>new\<close> and \<open>+\<close> return \<open>nil\<close> and a message; \<open>-\<close> tests its second operand only.
\<close>

lemma unread_text_null:
  assumes "string_to_cpus x = Some (e, m)" "e \<noteq> 0"
  shows "\<exists>s1 h1. lua_to_cpu_setp E 1 (SStr x # s) h = Some (NullSet, s1, h1)"
  using assms
  by (auto simp: lua_to_cpu_setp_def sindex_def l_cpu_set_alloc_def lua_string_to_cpu_setp_def stostring_def Let_def)

lemma unread_text_followed:
  assumes "string_to_cpus x = Some (e, m)" "e \<noteq> 0"
  shows "l_cpu_set_count E (SStr x # s) h = None" "l_cpu_set_first E (SStr x # s) h = None"
    "l_cpu_set_copy E (SStr x # s) h = None" "l_cpu_set_tostring E (SStr x # s) h = None"
  using unread_text_null[OF assms, of E s h]
  by (auto simp: l_cpu_set_count_def l_cpu_set_first_def l_cpu_set_copy_def l_cpu_set_tostring_def
      cpu_set_to_string_def followed_def)

lemma unread_text_subtracted:
  assumes "string_to_cpus x = Some (e, m)" "e \<noteq> 0"
  shows "l_cpu_set_subtract E [SStr x, SNil] h = None"
    "\<exists>s h1. l_cpu_set_add E [SStr x, SNil] h = Some (SRet 2 s, h1)"
  using assms
  by (auto simp: l_cpu_set_subtract_def l_cpu_set_add_def checked_def lua_to_cpu_setp_def sindex_def
      l_cpu_set_alloc_def lua_string_to_cpu_setp_def stostring_def lua_replace_def Let_def)

text \<open>The text \<open>x\<close> is one.\<close>

lemma unread_text_example: "string_to_cpus ''x'' = Some (- 1, {})"
proof -
  have "cstr_entry ''x'' = None" by code_simp
  then have 1: "cstr_to_cpuset ''x'' = Some (1, {})" by (simp add: cstr_to_cpuset_def cstr_loop.simps)
  have "count_tokens ''x'' = 1" by (simp add: count_tokens.simps nexttoken.simps)
  then have "hex_to_cpuset ''x'' = (- 1, {})" by (simp add: hex_to_cpuset_def s_to_cpuset_def char_to_val_def Let_def)
  with 1 show ?thesis by (simp add: string_to_cpus_def)
qed

end
