(* ===== verification/Spec2Isabelle.thy ===== *)
theory Spec2Isabelle
  imports Prelude ListProps Split HostProps HostTextProps HostFindings HostSystem CpuProps NodemapProps PreserveEnvProps
    OvercommitProps Renice SmallPlugins PrivateMountProps CpusetPluginProps CpusetLog UseEnvPluginProps
    SystemSafeProps OomDetectProps SpankLuaProps LuaSchedutilsProps
begin

text \<open>
  Verification development of the SLURM SPANK plugins (\<open>src/\<close>): the libraries \<open>lib/list.c\<close>,
  \<open>lib/hostlist.c\<close> and \<open>lib/split.c\<close>; the plugins \<open>auto-affinity.c\<close>, \<open>cpuset/\<close> (with its PAM module
  and release agent), \<open>use-env/\<close> with its configuration language, \<open>lua/lua.c\<close>, which runs Lua scripts
  as plugins, \<open>preserve-env.c\<close>, \<open>overcommit-memory/\<close>, \<open>private-mount.c\<close>, \<open>renice.c\<close>, \<open>oom-detect.c\<close>,
  \<open>system-safe.c\<close> with its preloaded library \<open>system-safe-preload.c\<close>, and the smaller ones; and the
  module \<open>lua/lua-schedutils/\<close> of CPU sets for Lua.

  How the parts interact.  Plugins keep what they parse in lists of \<open>lib/list.c\<close>, which
  \<open>lib/split.c\<close> fills with the tokens of an option string.  \<open>auto-affinity.c\<close> splits its options,
  reads masks with the parsers it shares with \<open>cpuset-str.c\<close>, sorts the CPUs of the machine in a
  list and gives each task a mask.  \<open>cpuset/nodemap.c\<close> keeps its NUMA nodes in a list, sorts it
  by the policy of \<open>cpuset/conf.c\<close> and takes CPUs node by node; \<open>cpuset/create.c\<close> makes the
  cpusets of users and jobs from the masks it finds, and \<open>cpuset/cpuset.c\<close>, the PAM module and
  the release agent call it under the lock of \<open>cpuset/util.c\<close>.  \<open>use-env/use-env.c\<close> puts the files
  the user or the administrator named on a list, and in srun, in the step and in each task has the
  parser of \<open>use-env-parser.y\<close> run them, which changes the environment of the job.  \<open>lua/lua.c\<close>
  keeps its scripts and their options in lists, calls a function of each script for each callback
  of SLURM, and is called back by them for options, items and the environment; \<open>lua-schedutils\<close> gives
  such scripts CPU sets, whose texts the parsers of \<open>cpuset-str.c\<close> read.  The overcommit plugin of
  each job shares a file and a semaphore with those of the other jobs on the node.
  \<open>system-safe-preload.c\<close> talks with its server through a pair of sockets.  \<open>lib/hostlist.c\<close> stands
  alone.

  Conventions.  Every function takes the state it works on and returns it.  \<open>None\<close> is a run the C
  program does not survive: a failed assertion, a NULL or dangling pointer that is followed, a
  read or write outside a buffer, a division by zero, a loop that does not end.  A NULL result is
  an inner option.  Results of type \<open>int\<close> keep the codes of the C functions.  The bounds of host
  ranges are 64-bit words and wrap; \<open>int\<close> counters are HOL integers where the invariant bounds
  them (\<open>hl_ok\<close> keeps a host list below \<open>2 ^ 31\<close> names).  Strings are their characters up to the
  NUL; where the code writes into a caller's buffer the buffer is an argument and is returned.

  Theories.

  \<^item> \<open>Prelude\<close>, \<open>CString\<close>: shared lemmas; \<open>strcmp\<close>, \<open>strtoul\<close>, decimal output, bounded writes.

  \<^item> \<open>CList\<close> (\<open>lib/list.c\<close>): nodes and next pointers in a store, iterators as the code keeps them,
    the free lists of \<open>list_alloc_aux\<close>.  \<open>CListLaws\<close>, \<open>CListIter\<close>, \<open>CListLoops\<close>, \<open>CListSort\<close>
    relate each operation to a sequence (\<open>list_data\<close>) and an iterator to a cursor (\<open>it_view\<close>).
    Loops over next pointers are partial functions, shown to end on every well-formed list.
    \<open>ListSystem\<close> has the step relation of a client, and the locales \<open>sequence\<close> and \<open>iterable\<close>
    with the loops clients write, interpreted on the list; \<open>comparison\<close> is what a comparison
    function promises.  \<open>ListProps\<close> holds the properties.

  \<^item> \<open>Split\<close> (\<open>lib/split.c\<close>): tokens, joining into a bounded buffer, and their properties.

  \<^item> \<open>Hostrange\<close>, \<open>Hostlist\<close>, \<open>HostlistText\<close>, \<open>HostlistSort\<close> (\<open>lib/hostlist.c\<close>): names and
    ranges; the array of range pointers, the range objects and the iterators; printing and
    parsing; sorting, uniting and host sets.  The \<open>..Laws\<close>, \<open>HostlistOps\<close>, \<open>HostlistAccess\<close>,
    \<open>HostlistIter\<close>, \<open>HostlistUniq\<close>, \<open>HostlistParse\<close> and \<open>HostlistPrint\<close> relate them to the
    sequence of names \<open>hl_hosts\<close>; \<open>HostProps\<close> and \<open>HostTextProps\<close> hold the properties,
    \<open>HostSystem\<close> the refinement of a list of names through the locale \<open>name_list\<close>, and
    \<open>HostFindings\<close> runs on inputs where the code and its comments disagree.

  \<^item> \<open>CpuMask\<close> (\<open>lua/lua-schedutils/cpuset-str.c\<close>) and \<open>AutoAffinity\<close> (\<open>auto-affinity.c\<close>): masks as
    sets of CPU numbers, the globals of the plugin as a record.  \<open>CpuMaskLaws\<close>, \<open>CpuHexLaws\<close> and
    \<open>AutoAffinityLaws\<close> have the lemmas, \<open>CpuProps\<close> the properties.

  \<^item> \<open>CpusetConf\<close> (\<open>cpuset/conf.c\<close>, the actions of \<open>conf-parser.y\<close>): the configuration record, its
    setters and options.

  \<^item> \<open>Nodemap\<close> (\<open>cpuset/nodemap.c\<close>, the scan of used CPUs of \<open>cpuset/util.c\<close>): the nodes in a store,
    their list of \<open>lib/list.c\<close> (\<open>ListMemory\<close> says when its memory is enough), the masks of
    libbitmask through the record \<open>bitmask_ops\<close> whose documented laws are \<open>bitmask_laws\<close>.
    \<open>NodemapLaws\<close> and \<open>NodemapCreate\<close> have the invariant, the meaning of the masks as sets of CPUs and
    the machine (\<open>topology_ok\<close>: no CPU on two nodes, no node empty; \<open>contiguous_nodes\<close>: the CPUs of a
    node are consecutive numbers; \<open>machine_ok\<close>: both); \<open>NodemapProps\<close> has the properties, among them
    that the worst-fit loop, a partial function, returns when enough CPUs are free.

  \<^item> \<open>CpusetCreate\<close> (\<open>cpuset/create.c\<close> and the rest of \<open>cpuset/util.c\<close>): the cpuset file system, the
    lock and libcpuset are the record \<open>cpuset_ops\<close>, a function each, with the documented laws
    \<open>cpuset_fs_laws\<close> of \<open>CpusetLaws\<close>.  \<open>CpusetSystem\<close> is a small executable file system that
    satisfies them, on which the witnesses run.  \<open>CpusetJobs\<close> has the effect of a user update and
    of a new job, \<open>CpusetProps\<close> the histories of jobs that start, end and are cleaned, with the
    invariant that no two jobs share a CPU, and that \<open>modify_loop\<close>, the loop at \<open>again\<close>, returns
    when the cpuset is busy only finitely often (\<open>modify_loop_returns\<close>).
    \<open>CpusetPlugin\<close> (\<open>cpuset.c\<close>, \<open>pam_slurm_cpuset.c\<close>, \<open>release-agent.c\<close>) is the callbacks and the
    programs over it, \<open>CpusetPluginProps\<close> their properties; \<open>CpusetLog\<close> is \<open>cpuset/log.c\<close>.

  \<^item> \<open>PreserveEnv\<close> (\<open>preserve-env.c\<close>): the environment of a job is a parameter with the laws
    \<open>spank_env_laws\<close>; \<open>PreserveEnvProps\<close> has the round trip from the user's shell to the task.

  \<^item> \<open>Overcommit\<close> (\<open>overcommit-memory/\<close>, the lock of \<open>lib/fd.c\<close>): the shared file with its list of users,
    its lock and the semaphore, the kernel's mode and the plugin.  \<open>OvercommitLaws\<close> has the invariant
    for runs of whole calls.  \<open>OvercommitSteps\<close> has the processes of a node as interleaved steps: the
    two calls of \<open>open\<close>, the lock (which is not waited for: the code goes on when it is refused), the
    look at the size, \<open>ftruncate\<close>, \<open>memset\<close>, \<open>sem_init\<close>, the release of the lock, the wait for the
    semaphore and the parts of leaving.  \<open>OvercommitProps\<close> has the properties, exclusion as long as
    no lock is refused, and the runs in which it is lost.

  \<^item> \<open>UseEnvSym\<close>, \<open>UseEnvParse\<close> (\<open>use-env/use-env-parser.y\<close>, the words and includes of
    \<open>use-env-parser.l\<close>), \<open>UseEnv\<close> (\<open>use-env/use-env.c\<close>): statements and items, the symbol tables and the
    environment; the actions of the grammar with their condition stack; the plugin.  \<open>UseEnvLaws\<close>
    gives the meaning of a file without the stack (\<open>exec_stmts\<close>) and shows that the parser agrees
    with it, \<open>UseEnvDead\<close> what blocks that are not live leave alone, with the locale \<open>kept\<close> for parts
    of the state no action changes; \<open>UseEnvProps\<close> and \<open>UseEnvPluginProps\<close> have the properties.

  \<^item> \<open>SpankLuaApi\<close>, \<open>SpankLua\<close> (\<open>lua/lua.c\<close>): the values and the functions that scripts call; scripts,
    options, loading and the callbacks.  The interpreter is the record \<open>host\<close>: loading a script and
    calling a function of it are runs (\<open>lua_run\<close>), trees of calls of the plugin's functions and what
    follows each answer, so that properties hold for any script.  \<open>SpankLuaLaws\<close> shows that runs keep
    the list of scripts and only add options, \<open>SpankLuaLoad\<close> that the loop that loads scripts is a
    recursion over them, \<open>SpankLuaProps\<close> has the properties.

  \<^item> \<open>LuaSchedutils\<close> (\<open>lua/lua-schedutils/lua-schedutils.c\<close>): a heap of masks, values that refer to it,
    and each C function on its stack of values; \<open>LuaSchedutilsProps\<close> relates them to sets of CPUs.

  \<^item> \<open>SystemSafe\<close> with \<open>SystemSafeProps\<close> (\<open>system-safe-preload.c\<close>): client and server, every transfer
    cut and interrupted as the kernel likes.  \<open>OomDetect\<close> with \<open>OomDetectProps\<close> (\<open>oom-detect.c\<close>): the
    parser of \<open>/proc/oomkilled\<close> against the entries of the kernel, and the reports.

  \<^item> \<open>Renice\<close>, \<open>PrivateMount\<close> with \<open>PrivateMountProps\<close>, and \<open>SmallPlugins\<close> (\<open>setsched.c\<close>,
    \<open>addr-no-randomize.c\<close>, \<open>system-safe.c\<close>, \<open>tmpdir.c\<close>): the options and globals of each plugin, what
    it asks of the system as its result, and what the system answers as an argument.

  Bounds and fuel.  No recursion uses fuel that could run out: loops with a counter recurse on
  the number of rounds the code has left (a range count, the characters left, the 1024 CPUs of a
  mask); included files of \<open>use-env\<close> nest at most 21 deep, as the scanner has it, which is the
  measure of the recursion over statements; a run of Lua code is a finite tree of calls; transfers
  use up a list of answers of the kernel.  Loops without a counter are \<open>partial_function (option)\<close>.
  The laws show that they return on every state their invariant allows: the loops over lists and
  host lists, worst fit when enough CPUs are free, \<open>modify_loop\<close> when a cpuset answers busy only
  finitely often.  Where the C loop does not end (a stride of 0, worst fit with too few CPUs) the
  value is \<open>None\<close>, and the findings say so.  \<open>fl_cap\<close> is the number of nodes or iterators a free list
  can still provide; a property that needs memory says so with it.

  What is assumed of the surroundings.  What SLURM, Lua, \<open>sysfs\<close>, the kernel, libbitmask and
  libcpuset answer is an argument, with their documented behaviour as a named hypothesis:
  \<open>bitmask_laws\<close>, \<open>topology_ok\<close>, \<open>cpuset_fs_laws\<close>, \<open>cpuset_fs_works\<close> (the calls of the cpuset file
  system succeed, and a cpuset is busy only finitely often), \<open>spank_env_laws\<close>, \<open>mem_ok\<close>.  One
  hypothesis is not documented but what the code takes for granted: \<open>contiguous_nodes\<close>, that the
  CPUs of a memory node are consecutive numbers; it is part of \<open>machine_ok\<close> and with it of
  \<open>cpuset_fs_laws\<close>, and \<open>NodemapProps.mixed_nodes_short\<close> shows what happens without it.

  Not modelled, and why.  The pthread mutexes of the libraries (compiled out) and their magic
  numbers; \<open>malloc\<close> failing outside \<open>lib/list.c\<close>; the text of messages and logging, apart from
  \<open>cpuset/log.c\<close> and the reports of \<open>oom-detect.c\<close>.  Each list has free lists of its own, where in the
  code all lists share them.  The scanners and parsers generated by flex and bison are arguments
  (they give the statements), and the recovery from syntax errors is left out.  Numbers of Lua are
  integers.  \<open>pty.c\<close>, \<open>iorelay/\<close>, \<open>iotrace.c\<close> and \<open>lib/fd.c\<close>, apart from the lock of the
  overcommit plugin, relay bytes, start processes or wrap one system call each; \<open>cpuset/slurm.c\<close>, the
  test programs of \<open>cpuset/\<close> and \<open>use-env/\<close>, \<open>use-env/log_msg.c\<close>, the command line of
  \<open>overcommit-memory/util.c\<close> with \<open>overcommit_shared_list_users\<close>, and the registration of functions in
  \<open>luaopen_schedutils\<close> look up symbols, print or fill a table.
\<close>

end
